(* ===== verification/Prelude.thy ===== *)
theory Prelude
  imports Main "HOL-Library.Word" "HOL-Library.Sublist"
begin

unbundle bit_operations_syntax

text \<open>
  Shared ground of the development: Rust's fixed-width integers, the \<open>Result\<close> combinators the
  code uses (\<open>?\<close>, \<open>map_err\<close>, \<open>collect\<close>), saturating arithmetic, \<open>Duration\<close> and the \<open>str\<close> methods
  of the Rust standard library (\<open>find\<close>, \<open>strip_prefix\<close>, \<open>split\<close>, \<open>split_once\<close>, \<open>trim\<close>,
  \<open>parse::<u64>\<close>, \<open>to_string\<close> of an unsigned integer).

  A Rust \<open>str\<close> is its UTF-8 byte sequence, a \<^typ>\<open>string\<close> here: a \<^typ>\<open>char\<close> is one byte. Every
  pattern the code searches for is ASCII, so searching bytes finds the same positions as searching
  code points, and slicing at those positions is always on a character boundary.
\<close>

text \<open>
  \<open>result_rules\<close> opens a chain of fallible steps that succeeded; \<open>view_simps\<close> holds the facts that a
  change of one part of a state leaves the others as they were.
\<close>

named_theorems result_rules
named_theorems view_simps

section \<open>Machine integers\<close>

type_synonym u8 = "8 word"
type_synonym u16 = "16 word"
type_synonym u32 = "32 word"
type_synonym u64 = "64 word"

abbreviation u64_max :: nat where
  "u64_max \<equiv> 18446744073709551615"

abbreviation u128_max :: nat where
  "u128_max \<equiv> 340282366920938463463374607431768211455"

text \<open>\<open>usize\<close> is 64 bits wide on every platform wsblast supports.\<close>

abbreviation usize_max :: nat where
  "usize_max \<equiv> u64_max"

definition saturating_add :: "nat \<Rightarrow> nat \<Rightarrow> nat" where
  "saturating_add a b = min u64_max (a + b)"

definition saturating_mul :: "nat \<Rightarrow> nat \<Rightarrow> nat" where
  "saturating_mul a b = min u64_max (a * b)"

definition div_ceil :: "nat \<Rightarrow> nat \<Rightarrow> nat" where
  "div_ceil a b = (if a mod b = 0 then a div b else a div b + 1)"

lemma saturating_add_exact: "a + b \<le> u64_max \<Longrightarrow> saturating_add a b = a + b"
  by (simp add: saturating_add_def)

lemma saturating_mul_exact: "a * b \<le> u64_max \<Longrightarrow> saturating_mul a b = a * b"
  by (simp add: saturating_mul_def)

lemma div_ceil_bounds:
  assumes "0 < b"
  shows "a \<le> b * div_ceil a b" and "div_ceil a b * b < a + b"
proof -
  obtain q r where qr: "a div b = q" "a mod b = r" by simp
  then have a: "a = b * q + r" by (metis mult_div_mod_eq)
  have "r < b" using assms qr by auto
  with qr show "a \<le> b * div_ceil a b" and "div_ceil a b * b < a + b"
    using assms by (auto simp: div_ceil_def a algebra_simps)
qed

section \<open>Durations\<close>

text \<open>
  A \<open>std::time::Duration\<close> is a whole number of nanoseconds, at most
  \<open>u64::MAX\<close> seconds and 999,999,999 nanoseconds. \<open>Instant\<close>s are nanoseconds since an arbitrary
  origin; \<open>saturating_duration_since\<close> is truncating subtraction on them.
\<close>

type_synonym duration = nat
type_synonym instant = nat

abbreviation nanos_per_sec :: nat where
  "nanos_per_sec \<equiv> 1000000000"

abbreviation duration_max :: nat where
  "duration_max \<equiv> 18446744073709551615999999999"

definition as_secs :: "duration \<Rightarrow> nat" where
  "as_secs d = d div nanos_per_sec"

definition subsec_nanos :: "duration \<Rightarrow> nat" where
  "subsec_nanos d = d mod nanos_per_sec"

definition as_micros :: "duration \<Rightarrow> nat" where
  "as_micros d = d div 1000"

definition from_secs :: "nat \<Rightarrow> duration" where
  "from_secs s = s * nanos_per_sec"

definition from_millis :: "nat \<Rightarrow> duration" where
  "from_millis ms = ms * 1000000"

definition from_micros :: "nat \<Rightarrow> duration" where
  "from_micros us = us * 1000"

lemma as_micros_from_micros [simp]: "as_micros (from_micros n) = n"
  by (simp add: as_micros_def from_micros_def)

lemma as_secs_from_secs [simp]: "as_secs (from_secs n) = n"
  by (simp add: as_secs_def from_secs_def)

lemma as_micros_mono: "a \<le> b \<Longrightarrow> as_micros a \<le> as_micros b"
  by (simp add: as_micros_def div_le_mono)

section \<open>Results\<close>

text \<open>\<open>Result<T, E>\<close> is \<^typ>\<open>'e + 'a\<close> with \<^const>\<open>Inl\<close> the error.\<close>

primrec and_then :: "'e + 'a \<Rightarrow> ('a \<Rightarrow> 'e + 'b) \<Rightarrow> 'e + 'b" where
  "and_then (Inl e) f = Inl e"
| "and_then (Inr a) f = f a"

primrec map_err :: "('e \<Rightarrow> 'f) \<Rightarrow> 'e + 'a \<Rightarrow> 'f + 'a" where
  "map_err f (Inl e) = Inl (f e)"
| "map_err f (Inr a) = Inr a"

primrec is_ok :: "'e + 'a \<Rightarrow> bool" where
  "is_ok (Inl e) = False"
| "is_ok (Inr a) = True"

definition ok_or :: "'e \<Rightarrow> 'a option \<Rightarrow> 'e + 'a" where
  "ok_or e x = (case x of None \<Rightarrow> Inl e | Some a \<Rightarrow> Inr a)"

text \<open>\<open>iter.map(f).collect::<Result<Vec<_>, _>>()\<close>: the first error, or every value.\<close>

fun collect_results :: "('a \<Rightarrow> 'e + 'b) \<Rightarrow> 'a list \<Rightarrow> 'e + 'b list" where
  "collect_results f [] = Inr []"
| "collect_results f (x # xs) =
     and_then (f x) (\<lambda>y. and_then (collect_results f xs) (\<lambda>ys. Inr (y # ys)))"

text \<open>\<open>option.map(f).transpose()\<close>.\<close>

definition transpose_opt :: "('a \<Rightarrow> 'e + 'b) \<Rightarrow> 'a option \<Rightarrow> 'e + 'b option" where
  "transpose_opt f x = (case x of None \<Rightarrow> Inr None | Some a \<Rightarrow> and_then (f a) (\<lambda>b. Inr (Some b)))"

lemma and_then_Inr_iff [result_rules]:
  "and_then r f = Inr b \<longleftrightarrow> (\<exists>a. r = Inr a \<and> f a = Inr b)"
  by (cases r) auto

lemma and_then_Inl_iff:
  "and_then r f = Inl e \<longleftrightarrow> r = Inl e \<or> (\<exists>a. r = Inr a \<and> f a = Inl e)"
  by (cases r) auto

lemma map_err_Inr_iff [simp]: "map_err f r = Inr a \<longleftrightarrow> r = Inr a"
  by (cases r) auto

lemma ok_or_simps [simp]: "ok_or e None = Inl e" "ok_or e (Some a) = Inr a"
  by (simp_all add: ok_or_def)

lemma ok_or_Inr_iff [simp]: "ok_or e x = Inr a \<longleftrightarrow> x = Some a"
  by (simp add: ok_or_def split: option.splits)

lemma is_ok_iff: "is_ok r \<longleftrightarrow> (\<exists>a. r = Inr a)"
  by (cases r) auto

lemma collect_results_Inr_iff:
  "collect_results f xs = Inr ys \<longleftrightarrow> list_all2 (\<lambda>x y. f x = Inr y) xs ys"
proof (induction xs arbitrary: ys)
  case Nil
  show ?case by auto
next
  case (Cons x xs)
  show ?case
    by (cases ys) (auto simp: and_then_Inr_iff Cons.IH)
qed

lemma collect_results_length: "collect_results f xs = Inr ys \<Longrightarrow> length ys = length xs"
  by (auto simp: collect_results_Inr_iff dest: list_all2_lengthD)

lemma list_all2_find_element_rev:
  assumes "list_all2 P xs ys" "y \<in> set ys"
  obtains x where "x \<in> set xs" "P x y"
proof -
  from assms obtain i where "i < length ys" "ys ! i = y" by (auto simp: in_set_conv_nth)
  with assms(1) have "i < length xs" "P (xs ! i) y" by (auto simp: list_all2_conv_all_nth)
  then show ?thesis by (intro that [of "xs ! i"]) simp_all
qed

lemma collect_results_all:
  assumes "collect_results f xs = Inr ys" "\<And>x y. x \<in> set xs \<Longrightarrow> f x = Inr y \<Longrightarrow> P y" "y \<in> set ys"
  shows "P y"
proof -
  from assms(1) have "list_all2 (\<lambda>x y. f x = Inr y) xs ys" by (simp add: collect_results_Inr_iff)
  from this assms(3) obtain x where "x \<in> set xs" "f x = Inr y" by (rule list_all2_find_element_rev)
  then show "P y" by (rule assms(2))
qed

lemma transpose_opt_Inr_iff [result_rules]:
  "transpose_opt f x = Inr y \<longleftrightarrow>
     (case x of None \<Rightarrow> y = None | Some a \<Rightarrow> (\<exists>b. f a = Inr b \<and> y = Some b))"
  by (auto simp: transpose_opt_def and_then_Inr_iff split: option.splits)

section \<open>Strings\<close>

text \<open>\<open>str::find(pat)\<close>: the first position at which \<open>pat\<close> occurs.\<close>

fun str_find :: "string \<Rightarrow> string \<Rightarrow> nat option" where
  "str_find pat [] = (if pat = [] then Some 0 else None)"
| "str_find pat (c # cs) = (if prefix pat (c # cs) then Some 0 else map_option Suc (str_find pat cs))"

definition str_contains :: "string \<Rightarrow> string \<Rightarrow> bool" where
  "str_contains s pat = (str_find pat s \<noteq> None)"

definition strip_prefix :: "string \<Rightarrow> string \<Rightarrow> string option" where
  "strip_prefix pat s = (if prefix pat s then Some (drop (length pat) s) else None)"

definition strip_suffix :: "string \<Rightarrow> string \<Rightarrow> string option" where
  "strip_suffix pat s = (if suffix pat s then Some (take (length s - length pat) s) else None)"

text \<open>\<open>str::split(c)\<close> with one character: the pieces between its occurrences.\<close>

fun str_split :: "char \<Rightarrow> string \<Rightarrow> string list" where
  "str_split c [] = [[]]"
| "str_split c (x # xs) =
     (if x = c then [] # str_split c xs
      else (case str_split c xs of p # ps \<Rightarrow> (x # p) # ps | [] \<Rightarrow> [[x]]))"

text \<open>\<open>str::split_once(pat)\<close>: what is before and after the first occurrence.\<close>

definition split_once :: "string \<Rightarrow> string \<Rightarrow> (string \<times> string) option" where
  "split_once pat s =
     map_option (\<lambda>i. (take i s, drop (i + length pat) s)) (str_find pat s)"

text \<open>
  The UTF-8 encodings of the Unicode white space characters, which \<open>str::trim\<close> removes at
  either end (the property \<open>White_Space\<close>: U+0009 to U+000D, U+0020, U+0085, U+00A0, U+1680,
  U+2000 to U+200A, U+2028, U+2029, U+202F, U+205F and U+3000).
\<close>

definition white_space :: "string list" where
  "white_space =
     [[CHR 0x09], [CHR 0x0A], [CHR 0x0B], [CHR 0x0C], [CHR 0x0D], [CHR 0x20],
      [CHR 0xC2, CHR 0x85], [CHR 0xC2, CHR 0xA0], [CHR 0xE1, CHR 0x9A, CHR 0x80],
      [CHR 0xE2, CHR 0x80, CHR 0x80], [CHR 0xE2, CHR 0x80, CHR 0x81], [CHR 0xE2, CHR 0x80, CHR 0x82],
      [CHR 0xE2, CHR 0x80, CHR 0x83], [CHR 0xE2, CHR 0x80, CHR 0x84], [CHR 0xE2, CHR 0x80, CHR 0x85],
      [CHR 0xE2, CHR 0x80, CHR 0x86], [CHR 0xE2, CHR 0x80, CHR 0x87], [CHR 0xE2, CHR 0x80, CHR 0x88],
      [CHR 0xE2, CHR 0x80, CHR 0x89], [CHR 0xE2, CHR 0x80, CHR 0x8A], [CHR 0xE2, CHR 0x80, CHR 0xA8],
      [CHR 0xE2, CHR 0x80, CHR 0xA9], [CHR 0xE2, CHR 0x80, CHR 0xAF], [CHR 0xE2, CHR 0x81, CHR 0x9F],
      [CHR 0xE3, CHR 0x80, CHR 0x80]]"

definition leading_white_space :: "string \<Rightarrow> nat" where
  "leading_white_space s =
     (case filter (\<lambda>w. prefix w s) white_space of [] \<Rightarrow> 0 | w # _ \<Rightarrow> length w)"

definition trailing_white_space :: "string \<Rightarrow> nat" where
  "trailing_white_space s =
     (case filter (\<lambda>w. suffix w s) white_space of [] \<Rightarrow> 0 | w # _ \<Rightarrow> length w)"

function trim_start :: "string \<Rightarrow> string" where
  "trim_start s =
     (if s = [] \<or> leading_white_space s = 0 then s else trim_start (drop (leading_white_space s) s))"
  by pat_completeness auto
termination
  by (relation "measure length") auto

function trim_end :: "string \<Rightarrow> string" where
  "trim_end s =
     (if s = [] \<or> trailing_white_space s = 0 then s
      else trim_end (take (length s - trailing_white_space s) s))"
  by pat_completeness auto
termination
  by (relation "measure length") auto

declare trim_start.simps [simp del] trim_end.simps [simp del]

definition trim :: "string \<Rightarrow> string" where
  "trim s = trim_end (trim_start s)"

definition to_ascii_lowercase :: "string \<Rightarrow> string" where
  "to_ascii_lowercase s =
     map (\<lambda>c. if 65 \<le> (of_char c :: nat) \<and> (of_char c :: nat) \<le> 90
              then char_of (of_char c + 32 :: nat) else c) s"

definition eq_ignore_ascii_case :: "string \<Rightarrow> string \<Rightarrow> bool" where
  "eq_ignore_ascii_case a b = (to_ascii_lowercase a = to_ascii_lowercase b)"

definition is_ascii_digit :: "char \<Rightarrow> bool" where
  "is_ascii_digit c = (48 \<le> (of_char c :: nat) \<and> (of_char c :: nat) \<le> 57)"

definition is_ascii_alphabetic :: "char \<Rightarrow> bool" where
  "is_ascii_alphabetic c =
     ((65 \<le> (of_char c :: nat) \<and> (of_char c :: nat) \<le> 90)
      \<or> (97 \<le> (of_char c :: nat) \<and> (of_char c :: nat) \<le> 122))"

fun join :: "string \<Rightarrow> string list \<Rightarrow> string" where
  "join sep [] = []"
| "join sep [s] = s"
| "join sep (s # t # ss) = s @ sep @ join sep (t # ss)"

section \<open>Decimal numbers\<close>

definition digit_char :: "nat \<Rightarrow> char" where
  "digit_char d = char_of (48 + d)"

definition digit_val :: "char \<Rightarrow> nat" where
  "digit_val c = (of_char c :: nat) - 48"

text \<open>\<open>to_string\<close> of an unsigned integer.\<close>

fun show_nat :: "nat \<Rightarrow> string" where
  "show_nat n = (if n < 10 then [digit_char n] else show_nat (n div 10) @ [digit_char (n mod 10)])"

declare show_nat.simps [simp del]

definition digits_value :: "string \<Rightarrow> nat" where
  "digits_value s = foldl (\<lambda>acc c. 10 * acc + digit_val c) 0 s"

text \<open>
  \<open>str::parse::<uN>\<close>: one optional \<open>+\<close>, then at least one digit and nothing else; \<open>None\<close> for
  a malformed number and for one above the type's maximum.
\<close>

definition parse_uint :: "nat \<Rightarrow> string \<Rightarrow> nat option" where
  "parse_uint hi s =
     (let ds = (case s of c # cs \<Rightarrow> (if c = CHR ''+'' then cs else s) | [] \<Rightarrow> [])
      in if ds \<noteq> [] \<and> list_all is_ascii_digit ds \<and> digits_value ds \<le> hi
         then Some (digits_value ds) else None)"

lemma of_char_digit_char: "d < 10 \<Longrightarrow> (of_char (digit_char d) :: nat) = 48 + d"
  by (simp add: digit_char_def)

lemma is_ascii_digit_digit_char [simp]: "d < 10 \<Longrightarrow> is_ascii_digit (digit_char d)"
  by (simp add: is_ascii_digit_def of_char_digit_char)

lemma digit_val_digit_char [simp]: "d < 10 \<Longrightarrow> digit_val (digit_char d) = d"
  by (simp add: digit_val_def of_char_digit_char)

lemma digits_value_snoc [simp]: "digits_value (s @ [c]) = 10 * digits_value s + digit_val c"
  by (simp add: digits_value_def)

lemma show_nat_digits: "list_all is_ascii_digit (show_nat n)"
proof (induction n rule: show_nat.induct)
  case (1 n)
  then show ?case by (cases "n < 10") (simp_all add: show_nat.simps [of n])
qed

lemma show_nat_nonempty [simp]: "show_nat n \<noteq> []"
  by (subst show_nat.simps) simp

lemma digits_value_show_nat [simp]: "digits_value (show_nat n) = n"
proof (induction n rule: show_nat.induct)
  case (1 n)
  show ?case
  proof (cases "n < 10")
    case True
    then show ?thesis by (simp add: show_nat.simps [of n] digits_value_def)
  next
    case False
    with 1 show ?thesis by (simp add: show_nat.simps [of n])
  qed
qed

lemma digit_not_plus: "is_ascii_digit c \<Longrightarrow> c \<noteq> CHR ''+''"
  by (auto simp: is_ascii_digit_def)

lemma parse_uint_show_nat:
  assumes "n \<le> hi"
  shows "parse_uint hi (show_nat n) = Some n"
proof -
  obtain c cs where s: "show_nat n = c # cs" by (metis list.exhaust show_nat_nonempty)
  then have "c \<noteq> CHR ''+''" using show_nat_digits [of n] digit_not_plus by auto
  with s assms show ?thesis
    using show_nat_digits [of n] digits_value_show_nat [of n]
    by (auto simp: parse_uint_def)
qed

lemma parse_uint_le: "parse_uint hi s = Some n \<Longrightarrow> n \<le> hi"
  by (auto simp: parse_uint_def Let_def split: if_splits)

section \<open>Facts about the string operations\<close>

lemma str_find_Some:
  "str_find pat s = Some i \<Longrightarrow> s = take i s @ pat @ drop (i + length pat) s \<and> i + length pat \<le> length s"
proof (induction pat s arbitrary: i rule: str_find.induct)
  case (1 pat)
  then show ?case by (simp split: if_splits)
next
  case (2 pat c cs)
  show ?case
  proof (cases "prefix pat (c # cs)")
    case True
    with "2.prems" show ?thesis
      using prefix_length_le [OF True] by (auto simp: prefix_def)
  next
    case False
    with "2.prems" obtain j where j: "str_find pat cs = Some j" "i = Suc j" by auto
    from "2.IH" [OF False j(1)] j(2) show ?thesis by simp
  qed
qed

lemma str_find_bound: "str_find pat s = Some i \<Longrightarrow> i + length pat \<le> length s"
  by (drule str_find_Some) simp

lemma str_find_None_iff: "str_find pat s = None \<longleftrightarrow> \<not> sublist pat s"
proof (induction s)
  case Nil
  show ?case by simp
next
  case (Cons c cs)
  then show ?case by (auto simp: sublist_Cons_right)
qed

lemma str_find_first:
  "str_find pat s = Some i \<Longrightarrow> j < i \<Longrightarrow> \<not> prefix pat (drop j s)"
proof (induction s arbitrary: i j)
  case Nil
  then show ?case by (simp split: if_splits)
next
  case (Cons c cs)
  show ?case
  proof (cases "prefix pat (c # cs)")
    case True
    with Cons.prems show ?thesis by simp
  next
    case False
    with Cons.prems obtain k where k: "str_find pat cs = Some k" "i = Suc k" by auto
    show ?thesis
    proof (cases j)
      case 0
      with False show ?thesis by simp
    next
      case (Suc j')
      with Cons.IH [OF k(1), of j'] Cons.prems(2) k(2) show ?thesis by simp
    qed
  qed
qed

lemma strip_prefix_append [simp]: "strip_prefix pat (pat @ s) = Some s"
  by (simp add: strip_prefix_def)

lemma strip_prefix_Some_iff: "strip_prefix pat s = Some t \<longleftrightarrow> s = pat @ t"
  by (auto simp: strip_prefix_def prefix_def)

lemma strip_suffix_Some_iff: "strip_suffix pat s = Some t \<longleftrightarrow> s = t @ pat"
  by (auto simp: strip_suffix_def suffix_def)

lemma split_once_Some: "split_once pat s = Some (a, b) \<Longrightarrow> s = a @ pat @ b"
  by (auto simp: split_once_def dest: str_find_Some)

lemma str_find_char_append:
  "c \<notin> set a \<Longrightarrow> str_find [c] (a @ c # b) = Some (length a)"
  by (induction a) auto

lemma str_find_char_None: "c \<notin> set s \<longleftrightarrow> str_find [c] s = None"
  by (simp add: str_find_None_iff sublist_def) (metis in_set_conv_decomp)

lemma split_once_char:
  "c \<notin> set a \<Longrightarrow> split_once [c] (a @ c # b) = Some (a, b)"
  by (simp add: split_once_def str_find_char_append)

lemma split_once_char_Some:
  assumes "split_once [c] s = Some (a, b)"
  shows "s = a @ c # b" and "c \<notin> set a"
proof -
  from assms obtain i where i: "str_find [c] s = Some i" "a = take i s" "b = drop (Suc i) s"
    by (auto simp: split_once_def)
  show "s = a @ c # b" using split_once_Some [OF assms] by simp
  have "\<not> prefix [c] (drop j s)" if "j < i" for j
    using str_find_first [OF i(1) that] .
  moreover have "i < length s" using str_find_bound [OF i(1)] by simp
  ultimately have "s ! j \<noteq> c" if "j < i" for j
    using that by (metis Cons_nth_drop_Suc Cons_prefix_Cons Nil_prefix less_trans)
  with i show "c \<notin> set a"
    by (auto simp: in_set_conv_nth)
qed

lemma str_split_nonempty [simp]: "str_split c s \<noteq> []"
  by (induction s) (auto split: list.splits)

lemma join_str_split: "join [c] (str_split c s) = s"
proof (induction s)
  case Nil
  show ?case by simp
next
  case (Cons x xs)
  obtain p ps where "str_split c xs = p # ps"
    by (metis list.exhaust str_split_nonempty)
  with Cons show ?case by (cases ps) auto
qed

lemma str_split_no_sep: "p \<in> set (str_split c s) \<Longrightarrow> c \<notin> set p"
proof (induction s arbitrary: p)
  case Nil
  then show ?case by simp
next
  case (Cons x xs)
  then show ?case by (auto split: if_splits list.splits)
qed

section \<open>Trimming\<close>

lemma leading_white_space_0:
  "leading_white_space s = 0 \<longleftrightarrow> (\<forall>w\<in>set white_space. \<not> prefix w s)"
proof -
  have ne: "[] \<notin> set white_space" by (simp add: white_space_def)
  show ?thesis
  proof (cases "filter (\<lambda>w. prefix w s) white_space")
    case Nil
    then show ?thesis by (simp add: leading_white_space_def filter_empty_conv)
  next
    case (Cons w ws)
    then have "w \<in> set (filter (\<lambda>w. prefix w s) white_space)" by simp
    then have "w \<in> set white_space" "prefix w s" by simp_all
    with Cons ne show ?thesis by (auto simp: leading_white_space_def)
  qed
qed

lemma trim_start_fixed: "leading_white_space s = 0 \<Longrightarrow> trim_start s = s"
  by (simp add: trim_start.simps)

lemma trim_start_leading: "leading_white_space (trim_start s) = 0"
proof (induction s rule: trim_start.induct)
  case (1 s)
  have "leading_white_space [] = 0" by (simp add: leading_white_space_def white_space_def)
  with 1 show ?case by (cases "s = [] \<or> leading_white_space s = 0") (auto simp: trim_start.simps [of s])
qed

lemma trim_end_prefix: "prefix (trim_end s) s"
proof (induction s rule: trim_end.induct)
  case (1 s)
  show ?case
  proof (cases "s = [] \<or> trailing_white_space s = 0")
    case False
    with 1 have "prefix (trim_end (take (length s - trailing_white_space s) s)) (take (length s - trailing_white_space s) s)"
      by blast
    with False show ?thesis by (subst trim_end.simps) (auto intro: prefix_order.trans take_is_prefix)
  qed (simp add: trim_end.simps)
qed

lemma trim_end_trim_end: "trim_end (trim_end s) = trim_end s"
proof (induction s rule: trim_end.induct)
  case (1 s)
  then show ?case by (cases "s = [] \<or> trailing_white_space s = 0") (simp_all add: trim_end.simps [of s])
qed

lemma trim_trim [simp]: "trim (trim s) = trim s"
proof -
  have "leading_white_space (trim_end (trim_start s)) = 0"
    using trim_start_leading [of s] trim_end_prefix [of "trim_start s"]
    unfolding leading_white_space_0 by (meson prefix_order.trans)
  then show ?thesis by (simp add: trim_def trim_start_fixed trim_end_trim_end)
qed

end
