(* ===== verification/Latency_Recorder.thy ===== *)
theory Latency_Recorder
  imports Prelude "HOL-Library.Log_Nat" "HOL-Library.Multiset"
begin

text \<open>
  \<open>src/histogram.rs\<close>: the lock-free latency histograms shared by every worker of a run. The bucket
  arithmetic (\<open>index_of\<close>, \<open>value_at\<close>), the sharded counts and the recorder that groups them are
  modelled; the \<open>hdrhistogram\<close> crate that receives the counts at the end of a run is a parameter
  (its \<open>record_n\<close>). Counts are natural numbers: a run does not record \<open>2 ^ 64\<close> samples.
\<close>

section \<open>The bucket layout\<close>

definition LOWEST_US :: nat where "LOWEST_US = 1"
definition HIGHEST_US :: nat where "HIGHEST_US = 60000000"
definition SUB_BUCKET_COUNT_MAGNITUDE :: nat where "SUB_BUCKET_COUNT_MAGNITUDE = 11"
definition SUB_BUCKET_HALF_COUNT_MAGNITUDE :: nat where
  "SUB_BUCKET_HALF_COUNT_MAGNITUDE = SUB_BUCKET_COUNT_MAGNITUDE - 1"
definition SUB_BUCKET_HALF_COUNT :: nat where
  "SUB_BUCKET_HALF_COUNT = push_bit SUB_BUCKET_HALF_COUNT_MAGNITUDE 1"
definition SUB_BUCKET_MASK :: nat where
  "SUB_BUCKET_MASK = push_bit SUB_BUCKET_COUNT_MAGNITUDE 1 - 1"
definition LEADING_ZERO_COUNT_BASE :: nat where
  "LEADING_ZERO_COUNT_BASE = 64 - SUB_BUCKET_COUNT_MAGNITUDE"
definition BUCKET_COUNT :: nat where "BUCKET_COUNT = 16"
definition LEN :: nat where
  "LEN = push_bit SUB_BUCKET_HALF_COUNT_MAGNITUDE (BUCKET_COUNT + 1)"

lemmas layout_defs = LOWEST_US_def HIGHEST_US_def SUB_BUCKET_COUNT_MAGNITUDE_def
  SUB_BUCKET_HALF_COUNT_MAGNITUDE_def SUB_BUCKET_HALF_COUNT_def SUB_BUCKET_MASK_def
  LEADING_ZERO_COUNT_BASE_def BUCKET_COUNT_def LEN_def

text \<open>\<open>u64::leading_zeros\<close>.\<close>

definition leading_zeros :: "nat \<Rightarrow> nat" where
  "leading_zeros v = 64 - floorlog 2 v"

definition bucket_of_value :: "nat \<Rightarrow> nat" where
  "bucket_of_value value = LEADING_ZERO_COUNT_BASE - leading_zeros (value OR SUB_BUCKET_MASK)"

definition index_of :: "nat \<Rightarrow> nat" where
  "index_of value =
     (let bucket = bucket_of_value value;
          sub_bucket = drop_bit bucket value
      in push_bit SUB_BUCKET_HALF_COUNT_MAGNITUDE (bucket + 1) + sub_bucket - SUB_BUCKET_HALF_COUNT)"

definition value_at :: "nat \<Rightarrow> nat" where
  "value_at index =
     (let bucket = drop_bit SUB_BUCKET_HALF_COUNT_MAGNITUDE index - 1;
          sub_bucket = (index AND (SUB_BUCKET_HALF_COUNT - 1)) + SUB_BUCKET_HALF_COUNT;
          sub_bucket = (if drop_bit SUB_BUCKET_HALF_COUNT_MAGNITUDE index = 0
                        then sub_bucket - SUB_BUCKET_HALF_COUNT else sub_bucket)
      in push_bit bucket sub_bucket)"

section \<open>Sharded counts\<close>

definition clamp_us :: "nat \<Rightarrow> nat" where
  "clamp_us micros = max LOWEST_US (min HIGHEST_US micros)"

text \<open>A shard's counts are allocated when it records its first value (\<open>OnceLock\<close>).\<close>

record atomic_histogram =
  shards :: "nat list option list"

definition ah_new :: "nat \<Rightarrow> atomic_histogram" where
  "ah_new n = \<lparr>shards = replicate (max n 1) None\<rparr>"

definition ah_record :: "nat \<Rightarrow> nat \<Rightarrow> atomic_histogram \<Rightarrow> atomic_histogram" where
  "ah_record shard micros h =
     (let i = shard mod length (shards h);
          counts = (case shards h ! i of None \<Rightarrow> replicate LEN 0 | Some counts \<Rightarrow> counts);
          j = index_of (clamp_us micros)
      in h\<lparr>shards := (shards h)[i := Some (counts[j := counts ! j + 1])]\<rparr>)"

fun add_counts_to :: "(nat \<Rightarrow> nat \<Rightarrow> 'h \<Rightarrow> 'h) \<Rightarrow> nat \<Rightarrow> nat list \<Rightarrow> 'h \<Rightarrow> 'h" where
  "add_counts_to record_n index [] hist = hist"
| "add_counts_to record_n index (n # counts) hist =
     add_counts_to record_n (index + 1) counts
       (if n > 0 then record_n (value_at index) n hist else hist)"

fun add_shards_to :: "(nat \<Rightarrow> nat \<Rightarrow> 'h \<Rightarrow> 'h) \<Rightarrow> nat list option list \<Rightarrow> 'h \<Rightarrow> 'h" where
  "add_shards_to record_n [] hist = hist"
| "add_shards_to record_n (None # ss) hist = add_shards_to record_n ss hist"
| "add_shards_to record_n (Some counts # ss) hist =
     add_shards_to record_n ss (add_counts_to record_n 0 counts hist)"

definition ah_add_to :: "(nat \<Rightarrow> nat \<Rightarrow> 'h \<Rightarrow> 'h) \<Rightarrow> atomic_histogram \<Rightarrow> 'h \<Rightarrow> 'h" where
  "ah_add_to record_n h hist = add_shards_to record_n (shards h) hist"

section \<open>The recorder of a run\<close>

record action_latency =
  al_name :: string
  al_rtt :: atomic_histogram
  al_response :: atomic_histogram

record latency_recorder =
  lr_handshake :: atomic_histogram
  lr_rtt :: atomic_histogram
  lr_response :: atomic_histogram
  lr_actions :: "action_latency list"

definition with_shards :: "nat \<Rightarrow> latency_recorder" where
  "with_shards n =
     \<lparr>lr_handshake = ah_new n, lr_rtt = ah_new n, lr_response = ah_new n, lr_actions = []\<rparr>"

text \<open>\<open>LatencyRecorder::new\<close>; \<open>cores\<close> is what \<open>available_parallelism\<close> gave, 4 when it failed.\<close>

definition new_recorder :: "nat option \<Rightarrow> latency_recorder" where
  "new_recorder cores = with_shards (min (case cores of None \<Rightarrow> 4 | Some n \<Rightarrow> n) 64)"

definition with_actions :: "string list \<Rightarrow> latency_recorder \<Rightarrow> latency_recorder" where
  "with_actions names r =
     (let n = length (shards (lr_rtt r))
      in r\<lparr>lr_actions := map (\<lambda>name. \<lparr>al_name = name, al_rtt = ah_new n, al_response = ah_new n\<rparr>) names\<rparr>)"

definition action_names :: "latency_recorder \<Rightarrow> string list" where
  "action_names r = map al_name (lr_actions r)"

definition record_action_rtt :: "nat \<Rightarrow> nat \<Rightarrow> nat \<Rightarrow> latency_recorder \<Rightarrow> latency_recorder" where
  "record_action_rtt action shard micros r =
     (if action < length (lr_actions r)
      then r\<lparr>lr_actions := (lr_actions r)[action :=
             (lr_actions r ! action)\<lparr>al_rtt := ah_record shard micros (al_rtt (lr_actions r ! action))\<rparr>]\<rparr>
      else r)"

definition record_action_response :: "nat \<Rightarrow> nat \<Rightarrow> nat \<Rightarrow> latency_recorder \<Rightarrow> latency_recorder" where
  "record_action_response action shard micros r =
     (if action < length (lr_actions r)
      then r\<lparr>lr_actions := (lr_actions r)[action :=
             (lr_actions r ! action)\<lparr>al_response :=
                ah_record shard micros (al_response (lr_actions r ! action))\<rparr>]\<rparr>
      else r)"

definition add_action_to ::
    "(nat \<Rightarrow> nat \<Rightarrow> 'h \<Rightarrow> 'h) \<Rightarrow> latency_recorder \<Rightarrow> nat \<Rightarrow> 'h \<times> 'h \<Rightarrow> 'h \<times> 'h" where
  "add_action_to record_n r index hs =
     (if index < length (lr_actions r)
      then (ah_add_to record_n (al_rtt (lr_actions r ! index)) (fst hs),
            ah_add_to record_n (al_response (lr_actions r ! index)) (snd hs))
      else hs)"

definition record_handshake :: "nat \<Rightarrow> nat \<Rightarrow> latency_recorder \<Rightarrow> latency_recorder" where
  "record_handshake shard micros r = r\<lparr>lr_handshake := ah_record shard micros (lr_handshake r)\<rparr>"

definition record_rtt :: "nat \<Rightarrow> nat \<Rightarrow> latency_recorder \<Rightarrow> latency_recorder" where
  "record_rtt shard micros r = r\<lparr>lr_rtt := ah_record shard micros (lr_rtt r)\<rparr>"

definition record_response :: "nat \<Rightarrow> nat \<Rightarrow> latency_recorder \<Rightarrow> latency_recorder" where
  "record_response shard micros r = r\<lparr>lr_response := ah_record shard micros (lr_response r)\<rparr>"

definition lr_add_to ::
    "(nat \<Rightarrow> nat \<Rightarrow> 'h \<Rightarrow> 'h) \<Rightarrow> latency_recorder \<Rightarrow> 'h \<times> 'h \<times> 'h \<Rightarrow> 'h \<times> 'h \<times> 'h" where
  "lr_add_to record_n r hs =
     (case hs of (handshake, rtt, response) \<Rightarrow>
        (ah_add_to record_n (lr_handshake r) handshake,
         ah_add_to record_n (lr_rtt r) rtt,
         ah_add_to record_n (lr_response r) response))"

section \<open>The layout is sound\<close>

lemma or_nat_lt: "a < 2 ^ n \<Longrightarrow> b < 2 ^ n \<Longrightarrow> a OR b < (2 ^ n :: nat)"
  by (metis or_nat_def take_bit_nat_eq_self_iff take_bit_or)

lemma or_nat_ge: "a \<le> a OR (b :: nat)"
proof -
  have "int a \<le> int a OR int b" by (simp add: or_greater_eq)
  then show ?thesis by (simp flip: of_nat_or_eq)
qed

lemma floorlog2_eqI:
  assumes "2 ^ k \<le> x" "x < 2 ^ Suc k"
  shows "floorlog 2 x = Suc k"
proof -
  have "x > 0" using assms(1) by (metis less_le_trans pos2 zero_less_power)
  then have f: "2 ^ (floorlog 2 x - 1) \<le> x" "x < 2 ^ floorlog 2 x"
    using floorlog_bounds [of x 2] by simp_all
  have "(2::nat) ^ (floorlog 2 x - 1) < 2 ^ Suc k" using f(1) assms(2) by (rule le_less_trans)
  then have "floorlog 2 x - 1 < Suc k" by (simp only: power_strict_increasing_iff)
  moreover have "(2::nat) ^ k < 2 ^ floorlog 2 x" using assms(1) f(2) by (rule le_less_trans)
  then have "k < floorlog 2 x" by (simp only: power_strict_increasing_iff)
  ultimately show ?thesis by simp
qed

lemma bucket_small: "v < 2048 \<Longrightarrow> bucket_of_value v = 0"
proof -
  assume v: "v < 2048"
  have "v OR 2047 < 2 ^ 11" using v by (intro or_nat_lt) simp_all
  moreover have "2 ^ 10 \<le> v OR 2047"
    using or_nat_ge [of 2047 v] by (simp add: or.commute)
  ultimately have "floorlog 2 (v OR 2047) = Suc 10" by (intro floorlog2_eqI) simp_all
  then show ?thesis
    by (simp add: bucket_of_value_def leading_zeros_def layout_defs push_bit_eq_mult)
qed

lemma bucket_large:
  assumes "2 ^ (b + 10) \<le> v" "v < 2 ^ (b + 11)" "0 < b" "b \<le> 53"
  shows "bucket_of_value v = b"
proof -
  have "(2047::nat) < 2 ^ (b + 11)"
    using assms(3) power_increasing [of 11 "b + 11" "2::nat"] by simp
  then have "v OR 2047 < 2 ^ (b + 11)" using assms(2) by (intro or_nat_lt)
  then have "v OR 2047 < 2 ^ Suc (b + 10)" by (simp add: add.commute)
  moreover have "2 ^ (b + 10) \<le> v OR 2047" using assms(1) or_nat_ge [of v 2047] by simp
  ultimately have "floorlog 2 (v OR 2047) = Suc (b + 10)" by (intro floorlog2_eqI) simp_all
  then show ?thesis
    using assms(4) by (simp add: bucket_of_value_def leading_zeros_def layout_defs push_bit_eq_mult)
qed

lemma value_range_cases:
  fixes v :: nat
  assumes "v < 2 ^ 64"
  obtains "v < 2048" | b where "0 < b" "b \<le> 53" "2 ^ (b + 10) \<le> v" "v < 2 ^ (b + 11)"
proof (cases "v < 2048")
  case False
  define k where "k = floorlog 2 v"
  have v0: "v > 0" using False by simp
  have k: "2 ^ (k - 1) \<le> v" "v < 2 ^ k"
    using floorlog_bounds [of v 2] v0 by (simp_all add: k_def)
  have "(2::nat) ^ 11 < 2 ^ k" using False k(2) by simp
  then have k11: "11 < k" by (simp only: power_strict_increasing_iff)
  have "(2::nat) ^ (k - 1) < 2 ^ 64" using k(1) assms by simp
  then have "k - 1 < 64" by (simp only: power_strict_increasing_iff)
  with k k11 that(2) [of "k - 11"] show ?thesis by simp
qed (rule that(1))

text \<open>The whole layout as arithmetic: a value keeps its top 11 bits.\<close>

lemma index_of_small: "v < 2048 \<Longrightarrow> index_of v = v"
  by (simp add: index_of_def bucket_small layout_defs Let_def push_bit_eq_mult)

lemma sub_bucket_bounds:
  assumes "2 ^ (b + 10) \<le> v" "v < 2 ^ (b + 11)"
  shows "1024 \<le> v div 2 ^ b" and "v div 2 ^ b < (2048::nat)"
proof -
  have "2 ^ b * 1024 \<le> v" using assms(1) by (simp add: power_add mult.commute)
  then show "1024 \<le> v div 2 ^ b" by (simp add: less_eq_div_iff_mult_less_eq mult.commute)
  have "v < 2048 * 2 ^ b" using assms(2) by (simp add: power_add mult.commute)
  then show "v div 2 ^ b < 2048" by (simp add: div_less_iff_less_mult)
qed

lemma index_of_large:
  assumes "0 < b" "b \<le> 53" "2 ^ (b + 10) \<le> v" "v < 2 ^ (b + 11)"
  shows "index_of v = b * 1024 + v div 2 ^ b"
proof -
  have "bucket_of_value v = b" using assms by (intro bucket_large)
  then show ?thesis
    by (simp add: index_of_def layout_defs Let_def push_bit_eq_mult drop_bit_eq_div)
qed

lemma and_1023: "n AND 1023 = n mod (1024 :: nat)"
proof -
  have "n AND mask 10 = n mod 2 ^ 10"
    by (simp only: take_bit_eq_mask [symmetric] take_bit_eq_mod)
  then show ?thesis by (simp add: mask_eq_exp_minus_1)
qed

lemma value_at_small: "i < 1024 \<Longrightarrow> value_at i = i"
  by (simp add: value_at_def layout_defs Let_def push_bit_eq_mult drop_bit_eq_div and_1023)

lemma value_at_large: "r < 1024 \<Longrightarrow> value_at ((b + 1) * 1024 + r) = (1024 + r) * 2 ^ b"
proof -
  assume r: "r < 1024"
  define i where "i = (b + 1) * 1024 + r"
  have i: "i = r + (b + 1) * 1024" by (simp add: i_def)
  have "i div 1024 = b + 1" "i mod 1024 = r"
    unfolding i div_mult_self1 mod_mult_self1 using r by simp_all
  then show ?thesis
    unfolding i_def [symmetric]
    by (simp add: value_at_def layout_defs Let_def push_bit_eq_mult drop_bit_eq_div and_1023
        algebra_simps)
qed

lemma value_at_index_of_small:
  assumes "v < 2048"
  shows "value_at (index_of v) = v"
proof (cases "v < 1024")
  case True
  with assms show ?thesis by (simp add: index_of_small value_at_small)
next
  case False
  with assms value_at_large [of "v - 1024" 0] show ?thesis by (simp add: index_of_small)
qed

lemma value_at_index_of_large:
  assumes "0 < b" "b \<le> 53" "2 ^ (b + 10) \<le> v" "v < 2 ^ (b + 11)"
  shows "value_at (index_of v) = (v div 2 ^ b) * 2 ^ b"
proof -
  define r where "r = v div 2 ^ b - 1024"
  have r: "v div 2 ^ b = 1024 + r" "r < 1024"
    using sub_bucket_bounds [OF assms(3,4)] by (simp_all add: r_def)
  then have "index_of v = (b + 1) * 1024 + r"
    using index_of_large [OF assms] by simp
  with value_at_large [OF r(2), of b] r(1) show ?thesis by simp
qed

lemma index_of_lt_LEN:
  assumes "v < 2 ^ 26"
  shows "index_of v < LEN"
proof -
  have "v < 2 ^ 64" using assms by simp
  then show ?thesis
  proof (cases v rule: value_range_cases)
    case 1
    then show ?thesis by (simp add: index_of_small layout_defs push_bit_eq_mult)
  next
    case (2 b)
    have "(2::nat) ^ (b + 10) < 2 ^ 26" using 2(3) assms by (rule le_less_trans)
    then have "b + 10 < 26" by (simp only: power_strict_increasing_iff)
    then have "b \<le> 15" by simp
    then have "b * 1024 \<le> 15 * 1024" by simp
    moreover have "v div 2 ^ b < 2048" using 2 by (intro sub_bucket_bounds)
    ultimately show ?thesis
      using index_of_large [OF 2] by (simp add: layout_defs push_bit_eq_mult)
  qed
qed

lemma clamp_us_bounds: "1 \<le> clamp_us m" "clamp_us m \<le> 60000000" "clamp_us m < 2 ^ 26"
  by (simp_all add: clamp_us_def layout_defs)

lemma index_of_clamp_lt_LEN: "index_of (clamp_us m) < LEN"
  by (intro index_of_lt_LEN clamp_us_bounds)

text \<open>Every count has the lowest value recorded in it: \<open>value_at\<close> is a section of \<open>index_of\<close>.\<close>

lemma index_cases:
  assumes "i < LEN"
  obtains "i < 1024" | b r where "i = (b + 1) * 1024 + r" "r < 1024" "b \<le> 15"
proof (cases "i < 1024")
  case False
  have i: "i < 17 * 1024" using assms by (simp add: layout_defs push_bit_eq_mult)
  define q where "q = i div 1024"
  have "i = q * 1024 + i mod 1024" by (simp add: q_def)
  moreover have "1 \<le> q" "q \<le> 16" using False i by (simp_all add: q_def less_eq_div_iff_mult_less_eq)
  ultimately show ?thesis using that(2) [of "q - 1" "i mod 1024"] by simp
qed (rule that(1))

lemma value_at_lt:
  assumes "i < LEN"
  shows "value_at i < 2 ^ 26"
  using assms
proof (cases i rule: index_cases)
  case 1
  then show ?thesis by (simp add: value_at_small)
next
  case (2 b r)
  have "value_at i = (1024 + r) * 2 ^ b" using value_at_large [OF 2(2)] 2(1) by simp
  also have "\<dots> < 2048 * 2 ^ b" using 2(2) by simp
  also have "\<dots> \<le> 2048 * 2 ^ 15" using 2(3) by (intro mult_le_mono2 power_increasing) simp_all
  finally show ?thesis by simp
qed

lemma index_of_value_at:
  assumes "i < LEN"
  shows "index_of (value_at i) = i"
  using assms
proof (cases i rule: index_cases)
  case 1
  then show ?thesis by (simp add: value_at_small index_of_small)
next
  case (2 b r)
  have v: "value_at i = (1024 + r) * 2 ^ b" using value_at_large [OF 2(2)] 2(1) by simp
  show ?thesis
  proof (cases "b = 0")
    case True
    with v 2 show ?thesis by (simp add: index_of_small)
  next
    case False
    have "2 ^ (b + 10) \<le> (1024 + r) * 2 ^ b" "(1024 + r) * 2 ^ b < 2 ^ (b + 11)"
      using 2(2) by (simp_all add: power_add)
    then have "index_of ((1024 + r) * 2 ^ b) = b * 1024 + (1024 + r)"
      using False 2 index_of_large [of b "(1024 + r) * 2 ^ b"] by simp
    then show ?thesis unfolding v using 2(1) by simp
  qed
qed

section \<open>Recording commutes\<close>

text \<open>
  The interface of a recorder shared by threads: recording two events in either order leaves the
  same state. Then the state after a run depends only on which events were recorded, not on how the
  threads that recorded them were interleaved.
\<close>

locale commuting_recorder =
  fixes rec :: "'e \<Rightarrow> 's \<Rightarrow> 's"
  assumes rec_commute: "rec a (rec b s) = rec b (rec a s)"
begin

lemma interleaving_irrelevant: "mset xs = mset ys \<Longrightarrow> fold rec xs s = fold rec ys s"
  using fold_multiset_equiv [of xs rec ys] by (simp add: fun_eq_iff rec_commute)

end

definition ah_record_at :: "nat \<times> nat \<Rightarrow> atomic_histogram \<Rightarrow> atomic_histogram" where
  "ah_record_at e h = ah_record (fst e) (snd e) h"

lemma ah_record_commute:
  "ah_record s1 m1 (ah_record s2 m2 h) = ah_record s2 m2 (ah_record s1 m1 h)"
proof (cases "s1 mod length (shards h) = s2 mod length (shards h)")
  case True
  then show ?thesis
    by (cases "index_of (clamp_us m1) = index_of (clamp_us m2)";
        cases "s2 mod length (shards h) < length (shards h)")
      (auto simp: ah_record_def Let_def list_update_swap list_update_beyond split: option.splits)
next
  case False
  then show ?thesis
    by (auto simp: ah_record_def Let_def list_update_swap split: option.splits)
qed

interpretation ah: commuting_recorder ah_record_at
  by unfold_locales (simp add: ah_record_at_def ah_record_commute)

section \<open>What a histogram holds\<close>

text \<open>The count of bucket \<open>j\<close> over every shard.\<close>

definition shard_count :: "nat \<Rightarrow> nat list option \<Rightarrow> nat" where
  "shard_count j s = (case s of None \<Rightarrow> 0 | Some counts \<Rightarrow> counts ! j)"

definition bucket_total :: "nat \<Rightarrow> atomic_histogram \<Rightarrow> nat" where
  "bucket_total j h = sum_list (map (shard_count j) (shards h))"

definition ah_wf :: "atomic_histogram \<Rightarrow> bool" where
  "ah_wf h \<longleftrightarrow> shards h \<noteq> [] \<and> (\<forall>c. Some c \<in> set (shards h) \<longrightarrow> length c = LEN)"

lemma ah_wf_new [simp]: "ah_wf (ah_new n)"
  by (auto simp: ah_wf_def ah_new_def max_def)

lemma ah_wf_record [simp]: "ah_wf h \<Longrightarrow> ah_wf (ah_record s m h)"
proof -
  assume wf: "ah_wf h"
  let ?i = "s mod length (shards h)"
  have "?i < length (shards h)" using wf by (simp add: ah_wf_def)
  then have "shards h ! ?i \<in> set (shards h)" by simp
  then have "shards h ! ?i = Some c \<Longrightarrow> length c = LEN" for c
    using wf by (auto simp: ah_wf_def)
  with wf show ?thesis
    by (auto simp: ah_wf_def ah_record_def Let_def split: option.splits
        dest!: subsetD [OF set_update_subset_insert])
qed

lemma sum_list_update:
  "i < length xs \<Longrightarrow> sum_list (xs[i := x]) + xs ! i = sum_list xs + (x :: nat)"
  by (induction xs arbitrary: i) (auto split: nat.splits)

lemma bucket_total_new [simp]: "bucket_total j (ah_new n) = 0"
  by (simp add: bucket_total_def ah_new_def shard_count_def sum_list_replicate)

lemma bucket_total_record:
  assumes "ah_wf h" "j < LEN"
  shows "bucket_total j (ah_record s m h) =
    bucket_total j h + (if j = index_of (clamp_us m) then 1 else 0)"
proof -
  define i where "i = s mod length (shards h)"
  define k where "k = index_of (clamp_us m)"
  define counts where "counts = (case shards h ! i of None \<Rightarrow> replicate LEN 0 | Some c \<Rightarrow> c)"
  have i: "i < length (shards h)" using assms(1) by (simp add: ah_wf_def i_def)
  then have "shards h ! i \<in> set (shards h)" by simp
  then have "shards h ! i = Some c \<Longrightarrow> length c = LEN" for c
    using assms(1) by (auto simp: ah_wf_def)
  then have len: "length counts = LEN"
    by (simp add: counts_def split: option.splits)
  have old: "shard_count j (shards h ! i) = counts ! j"
    using assms(2) by (simp add: shard_count_def counts_def split: option.splits)
  have new: "shard_count j (Some (counts[k := counts ! k + 1])) = counts ! j + (if j = k then 1 else 0)"
    using assms(2) len by (simp add: shard_count_def)
  have "shards (ah_record s m h) = (shards h)[i := Some (counts[k := counts ! k + 1])]"
    by (simp add: ah_record_def Let_def i_def k_def counts_def)
  then have "bucket_total j (ah_record s m h) =
      sum_list ((map (shard_count j) (shards h))[i := shard_count j (Some (counts[k := counts ! k + 1]))])"
    by (simp add: bucket_total_def map_update)
  moreover have "sum_list ((map (shard_count j) (shards h))[i := x]) + counts ! j =
      bucket_total j h + x" for x
    using sum_list_update [of i "map (shard_count j) (shards h)" x] i old
    by (simp add: bucket_total_def)
  ultimately have "bucket_total j (ah_record s m h) + counts ! j =
      bucket_total j h + (counts ! j + (if j = k then 1 else 0))"
    using new by simp
  then show ?thesis by (simp add: k_def)
qed

text \<open>The number of recorded samples that fall into bucket \<open>j\<close>.\<close>

definition samples_in :: "nat \<Rightarrow> (nat \<times> nat) list \<Rightarrow> nat" where
  "samples_in j events = length (filter (\<lambda>e. index_of (clamp_us (snd e)) = j) events)"

lemma bucket_total_fold:
  assumes "j < LEN" "ah_wf h"
  shows "bucket_total j (fold ah_record_at events h) = bucket_total j h + samples_in j events
    \<and> ah_wf (fold ah_record_at events h)"
  using assms(2)
proof (induction events arbitrary: h)
  case Nil
  then show ?case by (simp add: samples_in_def)
next
  case (Cons e events)
  then show ?case
    using bucket_total_record [OF Cons.prems assms(1), of "fst e" "snd e"]
    by (auto simp: samples_in_def ah_record_at_def)
qed

text \<open>
  What the development assumes of \<open>hdrhistogram\<close> with the bounds of \<open>latency_histogram\<close>: \<open>record_n\<close>
  adds its count to the bucket the value falls into, and to no other; \<open>count_at\<close> reads the bucket of
  a value.
\<close>

definition hdr_record_law :: "(nat \<Rightarrow> nat \<Rightarrow> 'h \<Rightarrow> 'h) \<Rightarrow> ('h \<Rightarrow> nat \<Rightarrow> nat) \<Rightarrow> bool" where
  "hdr_record_law record_n count_at \<longleftrightarrow>
     (\<forall>h v n w. v < 2 ^ 26 \<longrightarrow> w < 2 ^ 26 \<longrightarrow>
        count_at (record_n v n h) w = count_at h w + (if index_of v = index_of w then n else 0))"

lemma add_counts_to_count:
  assumes law: "hdr_record_law record_n count_at" and w: "w < 2 ^ 26"
    and len: "i + length counts \<le> LEN"
  shows "count_at (add_counts_to record_n i counts hist) w = count_at hist w +
    (if i \<le> index_of w \<and> index_of w < i + length counts then counts ! (index_of w - i) else 0)"
  using len
proof (induction counts arbitrary: i hist)
  case Nil
  then show ?case by simp
next
  case (Cons n counts)
  then have "i < LEN" by simp
  then have "count_at (if n > 0 then record_n (value_at i) n hist else hist) w
      = count_at hist w + (if i = index_of w then n else 0)"
    using law w value_at_lt [of i] index_of_value_at [of i] by (auto simp: hdr_record_law_def)
  with Cons.IH [of "i + 1"] Cons.prems show ?case
    by (auto simp: nth_Cons' Suc_diff_le)
qed

lemma add_shards_to_count:
  assumes law: "hdr_record_law record_n count_at" and w: "w < 2 ^ 26"
    and len: "\<forall>c. Some c \<in> set ss \<longrightarrow> length c = LEN"
  shows "count_at (add_shards_to record_n ss hist) w =
    count_at hist w + sum_list (map (shard_count (index_of w)) ss)"
  using len
proof (induction ss arbitrary: hist)
  case Nil
  then show ?case by simp
next
  case (Cons s ss)
  have ih: "count_at (add_shards_to record_n ss hist) w =
      count_at hist w + sum_list (map (shard_count (index_of w)) ss)" for hist
    using Cons by simp
  show ?case
  proof (cases s)
    case None
    then show ?thesis using ih by (simp add: shard_count_def [of _ None])
  next
    case (Some counts)
    then have "length counts = LEN" using Cons.prems by simp
    then show ?thesis
      using Some ih add_counts_to_count [OF law w, of 0 counts] index_of_lt_LEN [OF w]
      by (simp add: shard_count_def [of _ "Some counts"])
  qed
qed

lemma ah_add_to_count:
  assumes "hdr_record_law record_n count_at" "w < 2 ^ 26" "ah_wf h"
  shows "count_at (ah_add_to record_n h hist) w = count_at hist w + bucket_total (index_of w) h"
  using assms add_shards_to_count [of record_n count_at w "shards h"]
  by (simp add: ah_add_to_def bucket_total_def ah_wf_def)

section \<open>Properties\<close>

datatype latency_event =
    Handshake_sample nat nat
  | Rtt_sample nat nat
  | Response_sample nat nat
  | Action_rtt_sample nat nat nat
  | Action_response_sample nat nat nat

text \<open>What one call of a worker thread does to the shared recorder.\<close>

fun lr_record :: "latency_event \<Rightarrow> latency_recorder \<Rightarrow> latency_recorder" where
  "lr_record (Handshake_sample shard micros) r = record_handshake shard micros r"
| "lr_record (Rtt_sample shard micros) r = record_rtt shard micros r"
| "lr_record (Response_sample shard micros) r = record_response shard micros r"
| "lr_record (Action_rtt_sample action shard micros) r = record_action_rtt action shard micros r"
| "lr_record (Action_response_sample action shard micros) r =
     record_action_response action shard micros r"

lemmas record_defs = record_handshake_def record_rtt_def record_response_def

definition update_action ::
    "(action_latency \<Rightarrow> action_latency) \<Rightarrow> nat \<Rightarrow> latency_recorder \<Rightarrow> latency_recorder" where
  "update_action f i r =
     (if i < length (lr_actions r)
      then r\<lparr>lr_actions := (lr_actions r)[i := f (lr_actions r ! i)]\<rparr> else r)"

lemma record_action_updates:
  "record_action_rtt i shard micros = update_action (\<lambda>a. a\<lparr>al_rtt := ah_record shard micros (al_rtt a)\<rparr>) i"
  "record_action_response i shard micros =
     update_action (\<lambda>a. a\<lparr>al_response := ah_record shard micros (al_response a)\<rparr>) i"
  by (simp_all add: fun_eq_iff update_action_def record_action_rtt_def record_action_response_def)

lemma update_action_commute:
  assumes "\<And>x. f (g x) = g (f x)"
  shows "update_action f i (update_action g j r) = update_action g j (update_action f i r)"
  using assms by (cases "i = j") (simp_all add: update_action_def list_update_swap)

lemma update_action_simps:
  "lr_handshake (update_action f i r) = lr_handshake r"
  "lr_rtt (update_action f i r) = lr_rtt r"
  "lr_response (update_action f i r) = lr_response r"
  "update_action f i (r\<lparr>lr_handshake := h\<rparr>) = (update_action f i r)\<lparr>lr_handshake := h\<rparr>"
  "update_action f i (r\<lparr>lr_rtt := h\<rparr>) = (update_action f i r)\<lparr>lr_rtt := h\<rparr>"
  "update_action f i (r\<lparr>lr_response := h\<rparr>) = (update_action f i r)\<lparr>lr_response := h\<rparr>"
  by (simp_all add: update_action_def)

lemma lr_record_commute: "lr_record a (lr_record b r) = lr_record b (lr_record a r)"
  by (cases a; cases b)
    (simp_all add: record_defs record_action_updates update_action_simps ah_record_commute
      update_action_commute)

interpretation lr: commuting_recorder lr_record
  by unfold_locales (rule lr_record_commute)

lemma layout_error:
  assumes "v < 2 ^ 64"
  shows "value_at (index_of v) \<le> v \<and> (v - value_at (index_of v)) * 1024 \<le> v"
  using assms
proof (cases v rule: value_range_cases)
  case 1
  then show ?thesis by (simp add: value_at_index_of_small)
next
  case (2 b)
  have "v - v div 2 ^ b * 2 ^ b = v mod 2 ^ b" by (simp add: minus_div_mult_eq_mod)
  moreover have "v mod 2 ^ b * 1024 \<le> v"
  proof (rule le_trans)
    show "v mod 2 ^ b * 1024 \<le> 2 ^ b * 1024" by (simp add: less_imp_le)
    show "2 ^ b * 1024 \<le> v" using 2(3) by (simp add: power_add mult.commute)
  qed
  ultimately show ?thesis using value_at_index_of_large [OF 2] by simp
qed

text \<open>C37: a recorded latency lands inside the bucket array, whatever it is, and the value the recorder
  later reports for its bucket is the clamped latency up to one part in 1024 (three significant
  digits), never above it.\<close>

theorem recorded_value_precision:
  "index_of (clamp_us micros) < LEN \<and>
   value_at (index_of (clamp_us micros)) \<le> clamp_us micros \<and>
   (clamp_us micros - value_at (index_of (clamp_us micros))) * 1024 \<le> clamp_us micros"
  using layout_error [of "clamp_us micros"] clamp_us_bounds(3) [of micros] index_of_clamp_lt_LEN
  by simp

text \<open>Recording the samples one by one into the final histogram.\<close>

definition record_directly ::
    "(nat \<Rightarrow> nat \<Rightarrow> 'h \<Rightarrow> 'h) \<Rightarrow> (nat \<times> nat) list \<Rightarrow> 'h \<Rightarrow> 'h" where
  "record_directly record_n events hist = fold (\<lambda>e. record_n (clamp_us (snd e)) 1) events hist"

lemma record_directly_count:
  assumes "hdr_record_law record_n count_at" "w < 2 ^ 26"
  shows "count_at (record_directly record_n events hist) w =
    count_at hist w + samples_in (index_of w) events"
  unfolding record_directly_def
proof (induction events arbitrary: hist)
  case Nil
  show ?case by (simp add: samples_in_def)
next
  case (Cons e events)
  have "count_at (record_n (clamp_us (snd e)) 1 hist) w =
      count_at hist w + (if index_of (clamp_us (snd e)) = index_of w then 1 else 0)"
    using assms clamp_us_bounds(3) [of "snd e"] by (simp add: hdr_record_law_def)
  then show ?case using Cons.IH by (simp add: samples_in_def)
qed

lemma histogram_refines_direct_recording:
  assumes "hdr_record_law record_n count_at" "w < 2 ^ 26"
  shows "count_at (ah_add_to record_n (fold ah_record_at events (ah_new n)) hist) w =
    count_at (record_directly record_n events hist) w"
proof -
  have "bucket_total (index_of w) (fold ah_record_at events (ah_new n)) =
      samples_in (index_of w) events \<and> ah_wf (fold ah_record_at events (ah_new n))"
    using bucket_total_fold [of "index_of w" "ah_new n" events] index_of_lt_LEN [OF assms(2)] by simp
  with ah_add_to_count [OF assms] record_directly_count [OF assms] show ?thesis by simp
qed

text \<open>The calls a run makes for each histogram, as shard and latency, in order.\<close>

fun handshake_sample :: "latency_event \<Rightarrow> (nat \<times> nat) option" where
  "handshake_sample (Handshake_sample shard micros) = Some (shard, micros)"
| "handshake_sample _ = None"

fun rtt_sample :: "latency_event \<Rightarrow> (nat \<times> nat) option" where
  "rtt_sample (Rtt_sample shard micros) = Some (shard, micros)"
| "rtt_sample _ = None"

fun response_sample :: "latency_event \<Rightarrow> (nat \<times> nat) option" where
  "response_sample (Response_sample shard micros) = Some (shard, micros)"
| "response_sample _ = None"

fun action_rtt_sample :: "nat \<Rightarrow> latency_event \<Rightarrow> (nat \<times> nat) option" where
  "action_rtt_sample i (Action_rtt_sample action shard micros) = (if action = i then Some (shard, micros) else None)"
| "action_rtt_sample i _ = None"

fun action_response_sample :: "nat \<Rightarrow> latency_event \<Rightarrow> (nat \<times> nat) option" where
  "action_response_sample i (Action_response_sample action shard micros) = (if action = i then Some (shard, micros) else None)"
| "action_response_sample i _ = None"

lemma lr_record_parts:
  "lr_handshake (lr_record e r) = (case handshake_sample e of None \<Rightarrow> lr_handshake r | Some y \<Rightarrow> ah_record_at y (lr_handshake r))"
  "lr_rtt (lr_record e r) = (case rtt_sample e of None \<Rightarrow> lr_rtt r | Some y \<Rightarrow> ah_record_at y (lr_rtt r))"
  "lr_response (lr_record e r) = (case response_sample e of None \<Rightarrow> lr_response r | Some y \<Rightarrow> ah_record_at y (lr_response r))"
  "length (lr_actions (lr_record e r)) = length (lr_actions r)"
  by (cases e; simp add: record_defs record_action_rtt_def record_action_response_def ah_record_at_def)+

lemma lr_record_actions:
  assumes "i < length (lr_actions r)"
  shows "al_rtt (lr_actions (lr_record e r) ! i) =
      (case action_rtt_sample i e of None \<Rightarrow> al_rtt (lr_actions r ! i) | Some y \<Rightarrow> ah_record_at y (al_rtt (lr_actions r ! i)))"
    "al_response (lr_actions (lr_record e r) ! i) =
      (case action_response_sample i e of None \<Rightarrow> al_response (lr_actions r ! i) | Some y \<Rightarrow> ah_record_at y (al_response (lr_actions r ! i)))"
  using assms by (cases e; simp add: record_defs record_action_rtt_def record_action_response_def ah_record_at_def nth_list_update)+

lemma lr_fold_parts:
  "lr_handshake (fold lr_record events r) = fold ah_record_at (List.map_filter handshake_sample events) (lr_handshake r)"
  "lr_rtt (fold lr_record events r) = fold ah_record_at (List.map_filter rtt_sample events) (lr_rtt r)"
  "lr_response (fold lr_record events r) = fold ah_record_at (List.map_filter response_sample events) (lr_response r)"
  "length (lr_actions (fold lr_record events r)) = length (lr_actions r)"
  by (induction events arbitrary: r) (simp_all add: lr_record_parts List.map_filter_simps split: option.split)

lemma lr_fold_actions:
  assumes "i < length (lr_actions r)"
  shows "al_rtt (lr_actions (fold lr_record events r) ! i) = fold ah_record_at (List.map_filter (action_rtt_sample i) events) (al_rtt (lr_actions r ! i))"
    "al_response (lr_actions (fold lr_record events r) ! i) =
       fold ah_record_at (List.map_filter (action_response_sample i) events) (al_response (lr_actions r ! i))"
  using assms by (induction events arbitrary: r)
    (simp_all add: lr_record_parts lr_record_actions List.map_filter_simps split: option.split)

text \<open>C1: the sharded recorder of a run is transparent. Whatever handshake, round-trip, response and action latencies the
  workers record, to whatever shards and in whatever order, draining the recorder into the final histograms leaves in
  every bucket of each of them, the handshake, round-trip and response histograms and the two of every named action,
  exactly the count that recording that histogram's own latencies there directly would have left.\<close>

theorem recorder_refines_direct_recording:
  assumes "hdr_record_law record_n count_at" "w < 2 ^ 26" "r = fold lr_record events (with_actions names (with_shards n))"
  shows "(case lr_add_to record_n r (h, t, p) of (h', t', p') \<Rightarrow>
      count_at h' w = count_at (record_directly record_n (List.map_filter handshake_sample events) h) w \<and>
      count_at t' w = count_at (record_directly record_n (List.map_filter rtt_sample events) t) w \<and>
      count_at p' w = count_at (record_directly record_n (List.map_filter response_sample events) p) w) \<and>
    (\<forall>i<length names. case add_action_to record_n r i (t, p) of (t', p') \<Rightarrow>
      count_at t' w = count_at (record_directly record_n (List.map_filter (action_rtt_sample i) events) t) w \<and>
      count_at p' w = count_at (record_directly record_n (List.map_filter (action_response_sample i) events) p) w)"
  using histogram_refines_direct_recording [OF assms(1,2)]
  by (simp add: assms(3) lr_add_to_def add_action_to_def lr_fold_parts lr_fold_actions with_actions_def with_shards_def Let_def)

text \<open>A histogram kept as its bucket counts satisfies the law.\<close>

lemma bucket_histogram_law:
  "hdr_record_law (\<lambda>v n h. h(index_of v := h (index_of v) + n)) (\<lambda>h w. h (index_of w))"
  by (simp add: hdr_record_law_def)

lemma samples_in_example:
  "samples_in (index_of 5000) [(0, 5000), (3, 70), (5, 5001)] = 2"
proof -
  have "index_of 5000 = 2 * 1024 + 5000 div 2 ^ 2" "index_of 5001 = 2 * 1024 + 5001 div 2 ^ 2"
    by (intro index_of_large; simp)+
  then show ?thesis by (simp add: samples_in_def clamp_us_def layout_defs index_of_small)
qed

theorem recorder_refines_direct_recording_witness:
  "(case lr_add_to (\<lambda>v n h. h(index_of v := h (index_of v) + n))
      (fold lr_record [Rtt_sample 0 5000, Response_sample 1 5000, Rtt_sample 3 70, Rtt_sample 5 5001] (with_actions [] (with_shards 4)))
      (\<lambda>_. 0, \<lambda>_. 0, \<lambda>_. 0) of (h, t, p) \<Rightarrow> t (index_of 5000)) = (2 :: nat)"
proof -
  let ?f = "\<lambda>v n h. h(index_of v := h (index_of v) + (n :: nat))"
  let ?es = "[Rtt_sample 0 5000, Response_sample 1 5000, Rtt_sample 3 70, Rtt_sample 5 5001]"
  have "List.map_filter rtt_sample ?es = [(0, 5000), (3, 70), (5, 5001)]" by (simp add: List.map_filter_simps)
  then show ?thesis
    using recorder_refines_direct_recording [OF bucket_histogram_law, of 5000 _ ?es "[]" 4 "\<lambda>_. 0" "\<lambda>_. 0" "\<lambda>_. 0"]
      record_directly_count [OF bucket_histogram_law, of 5000 "[(0, 5000), (3, 70), (5, 5001)]" "\<lambda>_. 0"] samples_in_example
    by (auto split: prod.splits)
qed

text \<open>The recorder is safe to share. Two schedules of the same recording calls, however the worker
  threads were interleaved, leave the same recorder.\<close>

theorem recorder_schedule_independent:
  assumes "mset events = mset events'"
  shows "fold lr_record events r = fold lr_record events' r"
  using assms by (rule lr.interleaving_irrelevant)

theorem recorder_schedule_independent_witness:
  "fold lr_record [Rtt_sample 0 70, Action_rtt_sample 0 0 70, Handshake_sample 1 9] (with_shards 2) =
   fold lr_record [Handshake_sample 1 9, Rtt_sample 0 70, Action_rtt_sample 0 0 70] (with_shards 2)"
  by (rule recorder_schedule_independent) simp

end
