(* ===== verification/Errors.thy ===== *)
theory Errors
  imports Prelude
begin

text \<open>
  \<open>src/error.rs\<close>: the configuration and worker errors and the categories failures are counted under
  in reports. A constructor carries what its message names (the option, the offending value) in place
  of the full message text.
\<close>

datatype config_error =
    InvalidUrl string
  | UnsupportedScheme string
  | InvalidDuration string
  | InvalidHeader string
  | ZeroConcurrency nat
  | InvalidThreshold string
  | InvalidAuth string
  | AuthTokenCommand string
  | AuthTokenRequest string
  | InvalidOption string
  | InvalidScenario string string
  | UnsupportedOption string
  | DataFile string
  | PayloadFile string

datatype worker_error =
    DnsResolution_err string
  | TcpConnect_err string
  | TlsHandshake_err string
  | HttpUpgradeRejected_err nat string
  | Protocol_err string
  | Write_err string
  | Read_err string
  | Timeout_err duration
  | UnexpectedClose_err "nat option" string

datatype error_category =
    DnsResolution
  | TcpConnect
  | TlsHandshake
  | HttpUpgradeRejected
  | ProtocolError
  | WriteError
  | ReadError
  | Timeout
  | UnexpectedClose
  | Other
  | CheckFailed

text \<open>\<open>impl From<&WorkerError> for ErrorCategory\<close>.\<close>

primrec category_of :: "worker_error \<Rightarrow> error_category" where
  "category_of (DnsResolution_err s) = DnsResolution"
| "category_of (TcpConnect_err s) = TcpConnect"
| "category_of (TlsHandshake_err s) = TlsHandshake"
| "category_of (HttpUpgradeRejected_err status s) = HttpUpgradeRejected"
| "category_of (Protocol_err s) = ProtocolError"
| "category_of (Write_err s) = WriteError"
| "category_of (Read_err s) = ReadError"
| "category_of (Timeout_err d) = Timeout"
| "category_of (UnexpectedClose_err code s) = UnexpectedClose"

text \<open>\<open>impl Display for ErrorCategory\<close>.\<close>

primrec show_category :: "error_category \<Rightarrow> string" where
  "show_category DnsResolution = ''DNS Resolution Failed''"
| "show_category TcpConnect = ''TCP Connect Failed''"
| "show_category TlsHandshake = ''TLS Handshake Failed''"
| "show_category HttpUpgradeRejected = ''HTTP Upgrade Rejected''"
| "show_category ProtocolError = ''Protocol Error''"
| "show_category WriteError = ''Frame Write Error''"
| "show_category ReadError = ''Frame Read Error''"
| "show_category Timeout = ''Operation Timeout''"
| "show_category UnexpectedClose = ''Unexpected Close''"
| "show_category CheckFailed = ''Reply Check Failed''"
| "show_category Other = ''Other Error''"

text \<open>The order of the variants, the order of a \<open>BTreeMap\<close> keyed by category.\<close>

definition all_categories :: "error_category list" where
  "all_categories = [DnsResolution, TcpConnect, TlsHandshake, HttpUpgradeRejected, ProtocolError,
     WriteError, ReadError, Timeout, UnexpectedClose, Other, CheckFailed]"

lemma all_categories_complete [simp]: "c \<in> set all_categories"
  by (cases c) (simp_all add: all_categories_def)

lemma distinct_all_categories [simp]: "distinct all_categories"
  by (simp add: all_categories_def)

end
