(* ===== verification/Interval_Series.thy ===== *)
theory Interval_Series
  imports Prelude "HOL-Library.Multiset"
begin

text \<open>
  The per-interval latency histograms of \<open>src/timeseries.rs\<close>: \<open>IntervalStore\<close>, shared by the workers of a
  run, and \<open>IntervalRecorder\<close>, which batches one worker's samples. A histogram is a parameter: an empty
  one, if \<open>interval_histogram\<close> makes one, and how a sample is recorded. An \<open>Instant\<close> is its nanoseconds on
  the monotonic clock; the current time is an argument.
\<close>

section \<open>Store and recorder\<close>

abbreviation MAX_POINTS :: nat where
  "MAX_POINTS \<equiv> 600"

definition interval_for :: "duration \<Rightarrow> duration" where
  "interval_for d = from_secs (max (div_ceil (as_secs d) MAX_POINTS) 1)"

record 'h interval_hist =
  ih_new :: "'h option"
  ih_record :: "nat \<Rightarrow> 'h \<Rightarrow> 'h"

record 'h interval_store =
  is_start :: nat
  is_interval :: duration
  is_buckets :: "nat \<Rightarrow> 'h option"

definition store_new :: "nat \<Rightarrow> duration \<Rightarrow> 'h interval_store" where
  "store_new start interval = \<lparr>is_start = start, is_interval = interval, is_buckets = (\<lambda>_. None)\<rparr>"

definition bucket_of :: "'h interval_store \<Rightarrow> nat \<Rightarrow> nat" where
  "bucket_of st at = ((at - is_start st) div is_interval st) mod 2 ^ 64"

definition absorb_samples :: "'h interval_hist \<Rightarrow> nat \<Rightarrow> nat list \<Rightarrow> 'h interval_store \<Rightarrow> 'h interval_store" where
  "absorb_samples H bucket samples st =
     (case (case is_buckets st bucket of Some h \<Rightarrow> Some h | None \<Rightarrow> ih_new H) of
        None \<Rightarrow> st
      | Some h \<Rightarrow> st\<lparr>is_buckets := (is_buckets st)(bucket := Some (fold (ih_record H) samples h))\<rparr>)"

abbreviation FLUSH_SAMPLES :: nat where
  "FLUSH_SAMPLES \<equiv> 64"

record interval_recorder =
  ir_bucket :: nat
  ir_samples :: "nat list"

definition recorder_new :: interval_recorder where
  "recorder_new = \<lparr>ir_bucket = 0, ir_samples = []\<rparr>"

definition ir_flush ::
    "'h interval_hist \<Rightarrow> interval_recorder \<times> 'h interval_store \<Rightarrow> interval_recorder \<times> 'h interval_store" where
  "ir_flush H s =
     (if ir_samples (fst s) \<noteq> []
      then ((fst s)\<lparr>ir_samples := []\<rparr>, absorb_samples H (ir_bucket (fst s)) (ir_samples (fst s)) (snd s))
      else s)"

definition ir_record ::
    "'h interval_hist \<Rightarrow> nat \<Rightarrow> nat \<Rightarrow> interval_recorder \<times> 'h interval_store \<Rightarrow> interval_recorder \<times> 'h interval_store" where
  "ir_record H now micros s =
     (let bucket = bucket_of (snd s) now;
          s = (if bucket \<noteq> ir_bucket (fst s) then map_prod (\<lambda>r. r\<lparr>ir_bucket := bucket\<rparr>) id (ir_flush H s) else s);
          s = map_prod (\<lambda>r. r\<lparr>ir_samples := ir_samples r @ [micros]\<rparr>) id s
      in if length (ir_samples (fst s)) = FLUSH_SAMPLES then ir_flush H s else s)"

section \<open>Workers sharing a store\<close>

text \<open>The workers' recorders and the store they share; an event is a worker, a time and a sample.\<close>

type_synonym 'h series_state = "(nat \<Rightarrow> interval_recorder) \<times> 'h interval_store"

definition series_record :: "'h interval_hist \<Rightarrow> nat \<times> nat \<times> nat \<Rightarrow> 'h series_state \<Rightarrow> 'h series_state" where
  "series_record H e s =
     (case e of (w, now, micros) \<Rightarrow>
        (case ir_record H now micros (fst s w, snd s) of (r, st) \<Rightarrow> ((fst s)(w := r), st)))"

definition series_flush :: "'h interval_hist \<Rightarrow> nat \<Rightarrow> 'h series_state \<Rightarrow> 'h series_state" where
  "series_flush H w s = (case ir_flush H (fst s w, snd s) of (r, st) \<Rightarrow> ((fst s)(w := r), st))"

text \<open>The specification: every sample goes straight to its interval.\<close>

definition record_directly_in :: "'h interval_hist \<Rightarrow> nat \<times> nat \<times> nat \<Rightarrow> 'h interval_store \<Rightarrow> 'h interval_store" where
  "record_directly_in H e st = (case e of (w, now, micros) \<Rightarrow> absorb_samples H (bucket_of st now) [micros] st)"

text \<open>
  What the code relies on: the fixed bounds make a histogram, and a histogram counts its samples, so the
  order in which two samples are recorded does not matter.
\<close>

definition interval_hist_law :: "'h interval_hist \<Rightarrow> bool" where
  "interval_hist_law H \<longleftrightarrow> ih_new H \<noteq> None \<and>
     (\<forall>a b h. ih_record H a (ih_record H b h) = ih_record H b (ih_record H a h))"

text \<open>The samples of interval \<open>b\<close>, as its histogram.\<close>

definition holds :: "'h interval_hist \<Rightarrow> nat multiset \<Rightarrow> 'h option \<Rightarrow> bool" where
  "holds H M h \<longleftrightarrow> (\<exists>xs. mset xs = M \<and> h = (if xs = [] then None else Some (fold (ih_record H) xs (the (ih_new H)))))"

definition pending_in :: "nat \<Rightarrow> interval_recorder \<Rightarrow> nat multiset" where
  "pending_in b r = (if ir_bucket r = b then mset (ir_samples r) else {#})"

lemma fold_commutes:
  "interval_hist_law H \<Longrightarrow> mset xs = mset ys \<Longrightarrow> fold (ih_record H) xs h = fold (ih_record H) ys h"
  using fold_multiset_equiv [of xs "ih_record H" ys] by (simp add: interval_hist_law_def fun_eq_iff)

lemma holds_unique: "interval_hist_law H \<Longrightarrow> holds H M h \<Longrightarrow> holds H M h' \<Longrightarrow> h = h'"
  unfolding holds_def by (metis fold_commutes mset_zero_iff)

lemma absorb_samples_holds:
  assumes "interval_hist_law H" "samples \<noteq> []" "holds H M (is_buckets st b)"
  shows "holds H (M + (if b = bucket then mset samples else {#})) (is_buckets (absorb_samples H bucket samples st) b)"
proof (cases "b = bucket")
  case False
  with assms(3) show ?thesis by (auto simp: absorb_samples_def split: option.split)
next
  case True
  obtain n where n: "ih_new H = Some n" using assms(1) by (auto simp: interval_hist_law_def)
  from assms(3) obtain xs where "mset xs = M"
    "is_buckets st b = (if xs = [] then None else Some (fold (ih_record H) xs n))" by (auto simp: holds_def n)
  then have "mset (xs @ samples) = M + mset samples"
    "is_buckets (absorb_samples H bucket samples st) b = Some (fold (ih_record H) (xs @ samples) n)"
    using True by (auto simp: absorb_samples_def n split: if_splits)
  then show ?thesis unfolding holds_def using True assms(2) n
    by (intro exI [of _ "xs @ samples"]) simp
qed

lemma absorb_samples_view [simp]:
  "is_start (absorb_samples H bucket samples st) = is_start st"
  "is_interval (absorb_samples H bucket samples st) = is_interval st"
  by (simp_all add: absorb_samples_def split: option.split)

lemma ir_flush_holds:
  assumes "interval_hist_law H" "holds H M (is_buckets st b)"
  shows "holds H (M + pending_in b r) (is_buckets (snd (ir_flush H (r, st))) b)"
    "pending_in b (fst (ir_flush H (r, st))) = {#}"
    "is_start (snd (ir_flush H (r, st))) = is_start st" "is_interval (snd (ir_flush H (r, st))) = is_interval st"
    "ir_samples (fst (ir_flush H (r, st))) = []"
  using absorb_samples_holds [OF assms(1) _ assms(2), of "ir_samples r" "ir_bucket r"] assms(2)
  by (auto simp: ir_flush_def pending_in_def)

text \<open>One sample: nothing is lost between the batch and the store.\<close>

lemma ir_record_holds:
  assumes law: "interval_hist_law H" and M: "holds H M (is_buckets st b)"
    and rs: "ir_record H now micros (r, st) = (r', st')"
  shows "(\<exists>M'. holds H M' (is_buckets st' b) \<and>
      M' + pending_in b r' = M + pending_in b r + (if bucket_of st now = b then {#micros#} else {#})) \<and>
    is_start st' = is_start st \<and> is_interval st' = is_interval st"
proof -
  let ?k = "bucket_of st now"
  define q where "q = (if ?k \<noteq> ir_bucket r then map_prod (\<lambda>r. r\<lparr>ir_bucket := ?k\<rparr>) id (ir_flush H (r, st)) else (r, st))"
  obtain r1 st1 where q1: "q = (r1, st1)" by (cases q)
  have f: "ir_bucket r1 = ?k" "is_start st1 = is_start st" "is_interval st1 = is_interval st"
    "\<exists>M1. holds H M1 (is_buckets st1 b) \<and> M1 + pending_in b r1 = M + pending_in b r"
    using q1 ir_flush_holds [OF law M, of r] M
    by (auto simp: q_def pending_in_def map_prod_def split: if_splits prod.splits)
  from f(4) obtain M1 where M1: "holds H M1 (is_buckets st1 b)" "M1 + pending_in b r1 = M + pending_in b r" by blast
  let ?r2 = "r1\<lparr>ir_samples := ir_samples r1 @ [micros]\<rparr>"
  have p2: "M1 + pending_in b ?r2 = M + pending_in b r + (if ?k = b then {#micros#} else {#})"
    using M1(2) f(1) by (auto simp: pending_in_def)
  have "(r', st') = (if length (ir_samples ?r2) = FLUSH_SAMPLES then ir_flush H (?r2, st1) else (?r2, st1))"
    using rs unfolding ir_record_def Let_def fst_conv snd_conv q_def [symmetric] q1 by (auto split: if_splits)
  then show ?thesis
    using ir_flush_holds [OF law M1(1), of ?r2] M1(1) p2 f(2,3)
    by (auto split: if_splits prod.splits simp: prod_eq_iff)
qed

definition samples_of :: "nat \<Rightarrow> duration \<Rightarrow> nat \<Rightarrow> (nat \<times> nat \<times> nat) list \<Rightarrow> nat multiset" where
  "samples_of start interval b evs =
     mset (map (\<lambda>(w, now, micros). micros) (filter (\<lambda>(w, now, micros). bucket_of (store_new start interval :: unit interval_store) now = b) evs))"

definition series_inv ::
    "'h interval_hist \<Rightarrow> nat \<Rightarrow> nat \<Rightarrow> duration \<Rightarrow> (nat \<times> nat \<times> nat) list \<Rightarrow> 'h series_state \<Rightarrow> bool" where
  "series_inv H n start interval evs s \<longleftrightarrow> is_start (snd s) = start \<and> is_interval (snd s) = interval \<and>
     (\<forall>b. \<exists>M. holds H M (is_buckets (snd s) b) \<and> M + (\<Sum>w<n. pending_in b (fst s w)) = samples_of start interval b evs)"

lemma sum_update:
  assumes "w < (n::nat)" "M' + f' = M + (f w :: 'a multiset) + d" "M + (\<Sum>v<n. f v) = S"
  shows "M' + (\<Sum>v<n. if v = w then f' else f v) = S + d"
proof -
  have "(\<Sum>v<n. f v) = f w + (\<Sum>v\<in>{..<n} - {w}. f v)" using assms(1) by (simp add: sum.remove)
  moreover have "(\<Sum>v<n. if v = w then f' else f v) = f' + (\<Sum>v\<in>{..<n} - {w}. f v)"
    using assms(1) by (subst sum.remove [of _ w]) auto
  ultimately show ?thesis using assms(2,3) by (metis add.assoc add.commute)
qed

lemma bucket_of_start: "is_start st = start \<Longrightarrow> is_interval st = interval \<Longrightarrow>
   bucket_of st at = bucket_of (store_new start interval :: unit interval_store) at"
  by (simp add: bucket_of_def store_new_def)

lemma series_record_inv:
  assumes law: "interval_hist_law H" and inv: "series_inv H n start interval evs s" and w: "w < n"
  shows "series_inv H n start interval (evs @ [(w, now, micros)]) (series_record H (w, now, micros) s)"
proof -
  obtain r st where rs: "ir_record H now micros (fst s w, snd s) = (r, st)"
    by (cases "ir_record H now micros (fst s w, snd s)")
  have v: "is_start (snd s) = start" "is_interval (snd s) = interval" using inv by (simp_all add: series_inv_def)
  have "\<exists>M. holds H M (is_buckets st b) \<and> M + (\<Sum>v<n. if v = w then pending_in b r else pending_in b (fst s v)) =
      samples_of start interval b (evs @ [(w, now, micros)])" for b
  proof -
    obtain M where M: "holds H M (is_buckets (snd s) b)"
      "M + (\<Sum>w<n. pending_in b (fst s w)) = samples_of start interval b evs" using inv unfolding series_inv_def by blast
    then obtain M' where "holds H M' (is_buckets st b)"
      "M' + pending_in b r = M + pending_in b (fst s w) + (if bucket_of (snd s) now = b then {#micros#} else {#})"
      using ir_record_holds [OF law M(1) rs] by blast
    with sum_update [OF w _ M(2)] bucket_of_start [OF v] show ?thesis
      by (intro exI [of _ M']) (simp add: samples_of_def)
  qed
  moreover obtain M where "holds H M (is_buckets (snd s) 0)" using inv unfolding series_inv_def by blast
  then have "is_start st = start" "is_interval st = interval" using ir_record_holds [OF law _ rs] v by auto
  ultimately show ?thesis
    by (simp add: series_inv_def series_record_def rs if_distrib [of "pending_in _"] fun_upd_def cong: if_cong)
qed

lemma series_flush_inv:
  assumes law: "interval_hist_law H" and inv: "series_inv H n start interval evs s" and w: "w < n"
  shows "series_inv H n start interval evs (series_flush H w s)"
    "ir_samples (fst (series_flush H w s) w) = []" "v \<noteq> w \<Longrightarrow> fst (series_flush H w s) v = fst s v"
proof -
  obtain r st where rs: "ir_flush H (fst s w, snd s) = (r, st)" by (cases "ir_flush H (fst s w, snd s)")
  have v: "is_start (snd s) = start" "is_interval (snd s) = interval" using inv by (simp_all add: series_inv_def)
  have "\<exists>M. holds H M (is_buckets st b) \<and> M + (\<Sum>v<n. if v = w then pending_in b r else pending_in b (fst s v)) =
      samples_of start interval b evs" for b
  proof -
    obtain M where M: "holds H M (is_buckets (snd s) b)"
      "M + (\<Sum>w<n. pending_in b (fst s w)) = samples_of start interval b evs" using inv unfolding series_inv_def by blast
    with ir_flush_holds [OF law M(1), of "fst s w"] sum_update [OF w _ M(2), of _ _ "{#}"] rs show ?thesis
      by (intro exI [of _ "M + pending_in b (fst s w)"]) simp
  qed
  moreover obtain M where "holds H M (is_buckets (snd s) 0)" using inv unfolding series_inv_def by blast
  note f = ir_flush_holds [OF law this, of "fst s w", unfolded rs]
  ultimately show "series_inv H n start interval evs (series_flush H w s)"
    using f(3,4) v
    by (simp add: series_inv_def series_flush_def rs if_distrib [of "pending_in _"] fun_upd_def cong: if_cong)
  show "ir_samples (fst (series_flush H w s) w) = []" "v \<noteq> w \<Longrightarrow> fst (series_flush H w s) v = fst s v"
    using f(5) by (simp_all add: series_flush_def rs)
qed

lemma series_run_inv:
  assumes "interval_hist_law H" "\<forall>(w, now, micros)\<in>set evs. w < n"
  shows "series_inv H n start interval evs (fold (series_record H) evs (\<lambda>_. recorder_new, store_new start interval))"
  using assms(2)
proof (induction evs rule: rev_induct)
  case Nil
  have "holds H {#} None" by (auto simp: holds_def)
  then show ?case by (auto simp: series_inv_def store_new_def recorder_new_def samples_of_def pending_in_def intro!: exI [of _ "{#}"])
next
  case (snoc e evs)
  then show ?case by (cases e) (simp add: series_record_inv [OF assms(1)])
qed

lemma series_flush_all:
  assumes "interval_hist_law H" "series_inv H n start interval evs s" "k \<le> n"
  shows "series_inv H n start interval evs (fold (series_flush H) [0..<k] s) \<and>
    (\<forall>w<k. ir_samples (fst (fold (series_flush H) [0..<k] s) w) = [])"
  using assms(3)
proof (induction k)
  case 0
  with assms show ?case by simp
next
  case (Suc k)
  then have inv: "series_inv H n start interval evs (fold (series_flush H) [0..<k] s)"
    and k: "k < n" "\<forall>w<k. ir_samples (fst (fold (series_flush H) [0..<k] s) w) = []" by simp_all
  note f = series_flush_inv [OF assms(1) inv k(1)]
  have "ir_samples (fst (series_flush H k (fold (series_flush H) [0..<k] s)) w) = []" if "w < Suc k" for w
    using that f(2) f(3) [of w] k(2) by (cases "w = k") auto
  with f(1) show ?case by simp
qed

lemma direct_holds:
  assumes "interval_hist_law H"
  shows "holds H (samples_of start interval b evs) (is_buckets (fold (record_directly_in H) evs (store_new start interval)) b) \<and>
    is_start (fold (record_directly_in H) evs (store_new start interval)) = start \<and>
    is_interval (fold (record_directly_in H) evs (store_new start interval)) = interval"
proof (induction evs rule: rev_induct)
  case Nil
  show ?case by (simp add: holds_def samples_of_def store_new_def)
next
  case (snoc e evs)
  let ?st = "fold (record_directly_in H) evs (store_new start interval)"
  obtain w now micros where e: "e = (w, now, micros)" by (cases e)
  have "bucket_of ?st now = bucket_of (store_new start interval :: unit interval_store) now"
    using snoc by (intro bucket_of_start) simp_all
  moreover have "holds H (samples_of start interval b evs + (if b = bucket_of ?st now then mset [micros] else {#}))
      (is_buckets (absorb_samples H (bucket_of ?st now) [micros] ?st) b)"
    using snoc by (intro absorb_samples_holds [OF assms]) simp_all
  moreover have "record_directly_in H e ?st = absorb_samples H (bucket_of ?st now) [micros] ?st"
    by (simp add: e record_directly_in_def)
  moreover have "samples_of start interval b (evs @ [e]) = samples_of start interval b evs +
      (if b = bucket_of (store_new start interval :: unit interval_store) now then mset [micros] else {#})"
    by (simp add: e samples_of_def eq_commute)
  ultimately show ?case using snoc by simp
qed

section \<open>Properties\<close>

text \<open>C33: batching is invisible. However the recordings of the workers of a run are interleaved and whatever
  intervals they fall in, once every worker has flushed its batch each interval's histogram is the one
  that recording every sample into its interval at once would have given: no sample is lost, doubled or
  put into another interval.\<close>

theorem batched_series_exact:
  assumes "interval_hist_law H" "\<forall>(w, now, micros)\<in>set evs. w < n"
  shows "is_buckets (snd (fold (series_flush H) [0..<n]
      (fold (series_record H) evs (\<lambda>_. recorder_new, store_new start interval)))) b =
    is_buckets (fold (record_directly_in H) evs (store_new start interval)) b"
proof -
  let ?s = "fold (series_flush H) [0..<n] (fold (series_record H) evs (\<lambda>_. recorder_new, store_new start interval))"
  have inv: "series_inv H n start interval evs ?s" "\<forall>w<n. ir_samples (fst ?s w) = []"
    using series_flush_all [OF assms(1) series_run_inv [OF assms], of n] by blast+
  from inv(1) obtain M where M: "holds H M (is_buckets (snd ?s) b)"
    "M + (\<Sum>w<n. pending_in b (fst ?s w)) = samples_of start interval b evs" unfolding series_inv_def by blast
  have "(\<Sum>w<n. pending_in b (fst ?s w)) = {#}" using inv(2) by (intro sum.neutral) (simp add: pending_in_def)
  with M have "holds H (samples_of start interval b evs) (is_buckets (snd ?s) b)" by simp
  with direct_holds [OF assms(1)] show ?thesis by (blast intro: holds_unique [OF assms(1)])
qed

theorem batched_series_exact_witness:
  "is_buckets (snd (fold (series_flush \<lparr>ih_new = Some {#}, ih_record = add_mset\<rparr>) [0..<2]
      (fold (series_record \<lparr>ih_new = Some {#}, ih_record = add_mset\<rparr>) [(0, 5, 70), (1, 6, 80), (0, 12, 90)]
        (\<lambda>_. recorder_new, store_new 3 5)))) 0 = Some {#70, 80#}"
proof -
  let ?H = "\<lparr>ih_new = Some {#}, ih_record = add_mset\<rparr>"
  have "interval_hist_law ?H" by (simp add: interval_hist_law_def)
  with batched_series_exact [of ?H "[(0, 5, 70), (1, 6, 80), (0, 12, 90)]" 2 3 5 0] show ?thesis
    by (simp add: record_directly_in_def absorb_samples_def bucket_of_def store_new_def)
qed

text \<open>A series never has more points than a report can draw: the interval of a run covers its duration in
  at most 600 whole intervals and one that has just begun, and is at least a second.\<close>

theorem interval_for_bounds:
  "from_secs 1 \<le> interval_for d \<and> d div interval_for d \<le> MAX_POINTS"
proof -
  define k where "k = max (div_ceil (as_secs d) MAX_POINTS) 1"
  have k: "1 \<le> k" "as_secs d \<le> MAX_POINTS * k"
    using div_ceil_bounds(1) [of MAX_POINTS "as_secs d"] by (auto simp: k_def max_def)
  have "d < (as_secs d + 1) * nanos_per_sec" by (simp add: as_secs_def dividend_less_div_times mult.commute)
  also have "\<dots> \<le> (MAX_POINTS * k + 1) * nanos_per_sec" using k(2) by (intro mult_right_mono) simp_all
  also have "\<dots> \<le> (MAX_POINTS + 1) * (k * nanos_per_sec)" using k(1) by simp
  finally have "d div (k * nanos_per_sec) < MAX_POINTS + 1" using k(1) by (intro div_less_iff_less_mult [THEN iffD2]) simp_all
  then show ?thesis using k(1) by (simp add: interval_for_def from_secs_def k_def)
qed

end
