(* ===== verification/Live_Metrics.thy ===== *)
theory Live_Metrics
  imports Latency_Recorder Errors Interval_Series
begin

text \<open>
  The counters of \<open>src/metrics.rs\<close>: the sharded live counters every worker updates (\<open>LiveMetrics\<close>) and one
  worker's own metrics (\<open>WorkerMetrics\<close>). Counters are 64-bit words and wrap. Shared values are explicit:
  a \<open>world\<close> holds the live counters, the latency recorders by their address (\<open>Arc\<close>) and the interval
  store.
\<close>

section \<open>Live counters\<close>

record counter_shard =
  cs_active :: u64
  cs_established :: u64
  cs_failed :: u64
  cs_reconnects :: u64
  cs_messages_sent :: u64
  cs_messages_received :: u64
  cs_bytes_sent :: u64
  cs_bytes_received :: u64
  cs_total_errors :: u64
  cs_unsolicited :: u64

definition shard_zero :: counter_shard where
  "shard_zero = \<lparr>cs_active = 0, cs_established = 0, cs_failed = 0, cs_reconnects = 0, cs_messages_sent = 0,
     cs_messages_received = 0, cs_bytes_sent = 0, cs_bytes_received = 0, cs_total_errors = 0, cs_unsolicited = 0\<rparr>"

record live_metrics =
  lm_shards :: "counter_shard list"
  lm_next_shard :: u64
  lm_requests_claimed :: u64

text \<open>\<open>cores\<close> is what \<open>available_parallelism\<close> gave, 4 when it failed.\<close>

definition live_new :: "nat option \<Rightarrow> live_metrics" where
  "live_new cores = \<lparr>lm_shards = replicate ((case cores of None \<Rightarrow> 4 | Some n \<Rightarrow> n) * 2) shard_zero,
     lm_next_shard = 0, lm_requests_claimed = 0\<rparr>"

definition assign_shard :: "live_metrics \<Rightarrow> nat \<times> live_metrics" where
  "assign_shard lm =
     (unat (lm_next_shard lm) mod length (lm_shards lm), lm\<lparr>lm_next_shard := lm_next_shard lm + 1\<rparr>)"

text \<open>\<open>self.shard(index)\<close> and one atomic update of it.\<close>

definition update_shard :: "nat \<Rightarrow> (counter_shard \<Rightarrow> counter_shard) \<Rightarrow> live_metrics \<Rightarrow> live_metrics" where
  "update_shard index f lm =
     (let i = index mod length (lm_shards lm)
      in lm\<lparr>lm_shards := (lm_shards lm)[i := f (lm_shards lm ! i)]\<rparr>)"

definition claim_request :: "u64 \<Rightarrow> live_metrics \<Rightarrow> bool \<times> live_metrics" where
  "claim_request limit lm =
     (lm_requests_claimed lm < limit, lm\<lparr>lm_requests_claimed := lm_requests_claimed lm + 1\<rparr>)"

definition requests_exhausted :: "u64 \<Rightarrow> live_metrics \<Rightarrow> bool" where
  "requests_exhausted limit lm = (limit \<le> lm_requests_claimed lm)"

text \<open>\<open>LiveSnapshot\<close> has the fields of a shard.\<close>

type_synonym live_snapshot = counter_shard

definition add_shard :: "counter_shard \<Rightarrow> live_snapshot \<Rightarrow> live_snapshot" where
  "add_shard s snap =
     \<lparr>cs_active = cs_active snap + cs_active s, cs_established = cs_established snap + cs_established s,
      cs_failed = cs_failed snap + cs_failed s, cs_reconnects = cs_reconnects snap + cs_reconnects s,
      cs_messages_sent = cs_messages_sent snap + cs_messages_sent s,
      cs_messages_received = cs_messages_received snap + cs_messages_received s,
      cs_bytes_sent = cs_bytes_sent snap + cs_bytes_sent s,
      cs_bytes_received = cs_bytes_received snap + cs_bytes_received s,
      cs_total_errors = cs_total_errors snap + cs_total_errors s,
      cs_unsolicited = cs_unsolicited snap + cs_unsolicited s\<rparr>"

text \<open>\<open>LiveMetrics::snapshot\<close> while no worker records anything, such as at the end of a run: the shards added up.\<close>

definition live_snapshot :: "live_metrics \<Rightarrow> live_snapshot" where
  "live_snapshot lm = fold add_shard (lm_shards lm) shard_zero"

text \<open>
  The same method beside running workers: one relaxed load after the other, shard by shard in the order of the
  source, with atomic updates of the workers before each of them. An update adds to one counter of one shard
  (\<open>fetch_add\<close>; \<open>fetch_sub(1)\<close> adds minus one).
\<close>

datatype live_field =
    F_active
  | F_established
  | F_failed
  | F_reconnects
  | F_messages_sent
  | F_messages_received
  | F_bytes_sent
  | F_bytes_received
  | F_total_errors
  | F_unsolicited

definition all_fields :: "live_field list" where
  "all_fields = [F_active, F_established, F_failed, F_reconnects, F_messages_sent, F_messages_received, F_bytes_sent,
     F_bytes_received, F_total_errors, F_unsolicited]"

fun load_field :: "live_field \<Rightarrow> counter_shard \<Rightarrow> u64" where
  "load_field F_active s = cs_active s"
| "load_field F_established s = cs_established s"
| "load_field F_failed s = cs_failed s"
| "load_field F_reconnects s = cs_reconnects s"
| "load_field F_messages_sent s = cs_messages_sent s"
| "load_field F_messages_received s = cs_messages_received s"
| "load_field F_bytes_sent s = cs_bytes_sent s"
| "load_field F_bytes_received s = cs_bytes_received s"
| "load_field F_total_errors s = cs_total_errors s"
| "load_field F_unsolicited s = cs_unsolicited s"

fun add_field :: "live_field \<Rightarrow> u64 \<Rightarrow> counter_shard \<Rightarrow> counter_shard" where
  "add_field F_active n s = s\<lparr>cs_active := cs_active s + n\<rparr>"
| "add_field F_established n s = s\<lparr>cs_established := cs_established s + n\<rparr>"
| "add_field F_failed n s = s\<lparr>cs_failed := cs_failed s + n\<rparr>"
| "add_field F_reconnects n s = s\<lparr>cs_reconnects := cs_reconnects s + n\<rparr>"
| "add_field F_messages_sent n s = s\<lparr>cs_messages_sent := cs_messages_sent s + n\<rparr>"
| "add_field F_messages_received n s = s\<lparr>cs_messages_received := cs_messages_received s + n\<rparr>"
| "add_field F_bytes_sent n s = s\<lparr>cs_bytes_sent := cs_bytes_sent s + n\<rparr>"
| "add_field F_bytes_received n s = s\<lparr>cs_bytes_received := cs_bytes_received s + n\<rparr>"
| "add_field F_total_errors n s = s\<lparr>cs_total_errors := cs_total_errors s + n\<rparr>"
| "add_field F_unsolicited n s = s\<lparr>cs_unsolicited := cs_unsolicited s + n\<rparr>"

type_synonym atomic_update = "nat \<times> live_field \<times> u64"

definition apply_update :: "atomic_update \<Rightarrow> live_metrics \<Rightarrow> live_metrics" where
  "apply_update u lm = (case u of (index, f, n) \<Rightarrow> update_shard index (add_field f n) lm)"

fun snapshot_loads ::
    "(nat \<times> live_field) list \<Rightarrow> atomic_update list list \<Rightarrow> live_snapshot \<Rightarrow> live_metrics \<Rightarrow> live_snapshot \<times> live_metrics" where
  "snapshot_loads [] upds snap lm = (snap, lm)"
| "snapshot_loads ((k, f) # loads) upds snap lm =
     (let lm = (case upds of [] \<Rightarrow> lm | us # _ \<Rightarrow> fold apply_update us lm)
      in snapshot_loads loads (drop 1 upds) (add_field f (load_field f (lm_shards lm ! k)) snap) lm)"

definition snapshot_during :: "atomic_update list list \<Rightarrow> live_metrics \<Rightarrow> live_snapshot \<times> live_metrics" where
  "snapshot_during upds lm = snapshot_loads (List.product [0..<length (lm_shards lm)] all_fields) upds shard_zero lm"

section \<open>A worker's metrics\<close>

datatype error_scope = Attempt | SentMessage

record action_counts =
  ac_sent :: u64
  ac_errors :: u64
  ac_sent_message_errors :: u64

definition action_zero :: action_counts where
  "action_zero = \<lparr>ac_sent = 0, ac_errors = 0, ac_sent_message_errors = 0\<rparr>"

record chaos_summary =
  csum_seed :: u64
  csum_delayed :: u64
  csum_dropped :: u64
  csum_corrupted :: u64
  csum_closes :: u64
  csum_read_pauses :: u64

record worker_metrics =
  w_latency :: nat
  w_messages_sent :: u64
  w_messages_recv :: u64
  w_bytes_sent :: u64
  w_bytes_recv :: u64
  w_errors :: "error_category \<Rightarrow> u64 option"
  w_sent_message_errors :: u64
  w_reconnects :: u64
  w_unsolicited :: u64
  w_interrupted :: bool
  w_interval :: "interval_recorder option"
  w_interval_uses_response :: bool
  w_chaos :: "chaos_summary option"
  w_actions :: "action_counts list"
  w_current_action :: "nat option"
  w_shard :: nat

record 'h world =
  wd_live :: live_metrics
  wd_latency :: "nat \<Rightarrow> latency_recorder"
  wd_series :: "'h interval_store"

definition worker_new :: "nat \<Rightarrow> live_metrics \<Rightarrow> worker_metrics \<times> live_metrics" where
  "worker_new latency live =
     (case assign_shard live of (shard, live) \<Rightarrow>
        (\<lparr>w_latency = latency, w_messages_sent = 0, w_messages_recv = 0, w_bytes_sent = 0, w_bytes_recv = 0,
          w_errors = (\<lambda>_. None), w_sent_message_errors = 0, w_reconnects = 0, w_unsolicited = 0,
          w_interrupted = False, w_interval = None, w_interval_uses_response = False, w_chaos = None,
          w_actions = [], w_current_action = None, w_shard = shard\<rparr>, live))"

type_synonym 'h worker_state = "worker_metrics \<times> 'h world"

text \<open>The counters of the current action, made when first needed.\<close>

definition update_action :: "(action_counts \<Rightarrow> action_counts) \<Rightarrow> worker_metrics \<Rightarrow> worker_metrics" where
  "update_action f w =
     (case w_current_action w of
        None \<Rightarrow> w
      | Some index \<Rightarrow>
          (let actions = w_actions w @ replicate (index + 1 - length (w_actions w)) action_zero
           in w\<lparr>w_actions := actions[index := f (actions ! index)]\<rparr>))"

definition counters :: "(counter_shard \<Rightarrow> counter_shard) \<Rightarrow> 'h worker_state \<Rightarrow> 'h worker_state" where
  "counters f s = (fst s, (snd s)\<lparr>wd_live := update_shard (w_shard (fst s)) f (wd_live (snd s))\<rparr>)"

definition latency :: "(latency_recorder \<Rightarrow> latency_recorder) \<Rightarrow> 'h worker_state \<Rightarrow> 'h worker_state" where
  "latency f s =
     (let a = w_latency (fst s)
      in (fst s, (snd s)\<lparr>wd_latency := (wd_latency (snd s))(a := f (wd_latency (snd s) a))\<rparr>))"

definition own :: "(worker_metrics \<Rightarrow> worker_metrics) \<Rightarrow> 'h worker_state \<Rightarrow> 'h worker_state" where
  "own f s = (f (fst s), snd s)"

text \<open>\<open>duration.as_micros().clamp(1, 60_000_000) as u64\<close>.\<close>

definition micros_of :: "duration \<Rightarrow> nat" where
  "micros_of d = min (max (d div 1000) 1) 60000000"

definition interval_sample :: "'h interval_hist \<Rightarrow> nat \<Rightarrow> nat \<Rightarrow> 'h worker_state \<Rightarrow> 'h worker_state" where
  "interval_sample H now micros s =
     (case w_interval (fst s) of
        None \<Rightarrow> s
      | Some r \<Rightarrow>
          (case ir_record H now micros (r, wd_series (snd s)) of (r, st) \<Rightarrow>
             ((fst s)\<lparr>w_interval := Some r\<rparr>, (snd s)\<lparr>wd_series := st\<rparr>)))"

definition flush_interval :: "'h interval_hist \<Rightarrow> 'h worker_state \<Rightarrow> 'h worker_state" where
  "flush_interval H s =
     (case w_interval (fst s) of
        None \<Rightarrow> s
      | Some r \<Rightarrow>
          (case ir_flush H (r, wd_series (snd s)) of (r, st) \<Rightarrow>
             ((fst s)\<lparr>w_interval := Some r\<rparr>, (snd s)\<lparr>wd_series := st\<rparr>)))"

definition w_record_handshake_latency :: "duration \<Rightarrow> 'h worker_state \<Rightarrow> 'h worker_state" where
  "w_record_handshake_latency d s =
     counters (\<lambda>c. c\<lparr>cs_active := cs_active c + 1\<rparr>)
       (latency (record_handshake (w_shard (fst s)) (micros_of d)) s)"

definition w_record_handshake :: "duration \<Rightarrow> 'h worker_state \<Rightarrow> 'h worker_state" where
  "w_record_handshake d s =
     counters (\<lambda>c. c\<lparr>cs_established := cs_established c + 1\<rparr>) (w_record_handshake_latency d s)"

definition w_record_reconnect :: "duration \<Rightarrow> 'h worker_state \<Rightarrow> 'h worker_state" where
  "w_record_reconnect d s =
     counters (\<lambda>c. c\<lparr>cs_reconnects := cs_reconnects c + 1\<rparr>)
       (own (\<lambda>w. w\<lparr>w_reconnects := w_reconnects w + 1\<rparr>) (w_record_handshake_latency d s))"

definition count_error :: "error_category \<Rightarrow> (error_category \<Rightarrow> u64 option) \<Rightarrow> error_category \<Rightarrow> u64 option" where
  "count_error err errors = errors(err := Some ((case errors err of None \<Rightarrow> 0 | Some n \<Rightarrow> n) + 1))"

definition record_error :: "error_category \<Rightarrow> error_scope \<Rightarrow> 'h worker_state \<Rightarrow> 'h worker_state" where
  "record_error err scope s =
     (let one = (if scope = SentMessage then 1 else 0)
      in counters (\<lambda>c. c\<lparr>cs_total_errors := cs_total_errors c + 1\<rparr>)
           (own (\<lambda>w. update_action (\<lambda>a. a\<lparr>ac_errors := ac_errors a + 1,
                  ac_sent_message_errors := ac_sent_message_errors a + one\<rparr>)
                (w\<lparr>w_errors := count_error err (w_errors w),
                   w_sent_message_errors := w_sent_message_errors w + one\<rparr>)) s))"

definition record_connection_failed :: "error_category \<Rightarrow> 'h worker_state \<Rightarrow> 'h worker_state" where
  "record_connection_failed err s =
     counters (\<lambda>c. c\<lparr>cs_failed := cs_failed c + 1\<rparr>) (record_error err Attempt s)"

definition record_connection_closed :: "'h worker_state \<Rightarrow> 'h worker_state" where
  "record_connection_closed s = counters (\<lambda>c. c\<lparr>cs_active := cs_active c - 1\<rparr>) s"

definition record_message_sent :: "u64 \<Rightarrow> 'h worker_state \<Rightarrow> 'h worker_state" where
  "record_message_sent bytes s =
     counters (\<lambda>c. c\<lparr>cs_bytes_sent := cs_bytes_sent c + bytes\<rparr>)
       (counters (\<lambda>c. c\<lparr>cs_messages_sent := cs_messages_sent c + 1\<rparr>)
         (own (\<lambda>w. update_action (\<lambda>a. a\<lparr>ac_sent := ac_sent a + 1\<rparr>)
             (w\<lparr>w_messages_sent := w_messages_sent w + 1, w_bytes_sent := w_bytes_sent w + bytes\<rparr>)) s))"

definition record_rtt_sample :: "'h interval_hist \<Rightarrow> nat \<Rightarrow> duration \<Rightarrow> 'h worker_state \<Rightarrow> 'h worker_state" where
  "record_rtt_sample H now d s =
     (let micros = micros_of d;
          s = latency (record_rtt (w_shard (fst s)) micros) s;
          s = (case w_current_action (fst s) of
                 None \<Rightarrow> s
               | Some action \<Rightarrow> latency (record_action_rtt action (w_shard (fst s)) micros) s)
      in if w_interval_uses_response (fst s) then s else interval_sample H now micros s)"

definition record_message_recv ::
    "'h interval_hist \<Rightarrow> nat \<Rightarrow> u64 \<Rightarrow> duration option \<Rightarrow> 'h worker_state \<Rightarrow> 'h worker_state" where
  "record_message_recv H now bytes rtt s =
     (let s = own (\<lambda>w. w\<lparr>w_messages_recv := w_messages_recv w + 1, w_bytes_recv := w_bytes_recv w + bytes\<rparr>) s;
          s = (case rtt of None \<Rightarrow> s | Some d \<Rightarrow> record_rtt_sample H now d s)
      in counters (\<lambda>c. c\<lparr>cs_bytes_received := cs_bytes_received c + bytes\<rparr>)
           (counters (\<lambda>c. c\<lparr>cs_messages_received := cs_messages_received c + 1\<rparr>) s))"

definition record_response_time :: "'h interval_hist \<Rightarrow> nat \<Rightarrow> duration \<Rightarrow> 'h worker_state \<Rightarrow> 'h worker_state" where
  "record_response_time H now d s =
     (let micros = micros_of d;
          s = latency (record_response (w_shard (fst s)) micros) s;
          s = (case w_current_action (fst s) of
                 None \<Rightarrow> s
               | Some action \<Rightarrow> latency (record_action_response action (w_shard (fst s)) micros) s)
      in interval_sample H now micros s)"

definition record_unsolicited_frames :: "u64 \<Rightarrow> 'h worker_state \<Rightarrow> 'h worker_state" where
  "record_unsolicited_frames n s =
     (if n = 0 then s
      else counters (\<lambda>c. c\<lparr>cs_unsolicited := cs_unsolicited c + n\<rparr>)
             (own (\<lambda>w. w\<lparr>w_unsolicited := w_unsolicited w + n\<rparr>) s))"

definition record_chaos :: "(chaos_summary \<Rightarrow> chaos_summary) \<Rightarrow> 'h worker_state \<Rightarrow> 'h worker_state" where
  "record_chaos f s = own (\<lambda>w. w\<lparr>w_chaos := map_option f (w_chaos w)\<rparr>) s"

text \<open>One call of a worker.\<close>

datatype worker_event =
    Handshake duration
  | Reconnect duration
  | Connection_failed error_category
  | Connection_closed
  | Message_sent u64
  | Message_recv nat u64 "duration option"
  | Response_time nat duration
  | Unsolicited_frames u64
  | Chaos_delayed
  | Chaos_dropped
  | Chaos_corrupted
  | Chaos_read_pause
  | Chaos_close
  | Error error_category error_scope
  | Flush_interval
  | Current_action "nat option"
  | Interrupted

fun worker_step :: "'h interval_hist \<Rightarrow> worker_event \<Rightarrow> 'h worker_state \<Rightarrow> 'h worker_state" where
  "worker_step H (Handshake d) s = w_record_handshake d s"
| "worker_step H (Reconnect d) s = w_record_reconnect d s"
| "worker_step H (Connection_failed err) s = record_connection_failed err s"
| "worker_step H Connection_closed s = record_connection_closed s"
| "worker_step H (Message_sent bytes) s = record_message_sent bytes s"
| "worker_step H (Message_recv now bytes rtt) s = record_message_recv H now bytes rtt s"
| "worker_step H (Response_time now d) s = record_response_time H now d s"
| "worker_step H (Unsolicited_frames n) s = record_unsolicited_frames n s"
| "worker_step H Chaos_delayed s = record_chaos (\<lambda>c. c\<lparr>csum_delayed := csum_delayed c + 1\<rparr>) s"
| "worker_step H Chaos_dropped s = record_chaos (\<lambda>c. c\<lparr>csum_dropped := csum_dropped c + 1\<rparr>) s"
| "worker_step H Chaos_corrupted s = record_chaos (\<lambda>c. c\<lparr>csum_corrupted := csum_corrupted c + 1\<rparr>) s"
| "worker_step H Chaos_read_pause s = record_chaos (\<lambda>c. c\<lparr>csum_read_pauses := csum_read_pauses c + 1\<rparr>) s"
| "worker_step H Chaos_close s = record_chaos (\<lambda>c. c\<lparr>csum_closes := csum_closes c + 1\<rparr>) s"
| "worker_step H (Error err scope) s = record_error err scope s"
| "worker_step H Flush_interval s = flush_interval H s"
| "worker_step H (Current_action a) s = own (\<lambda>w. w\<lparr>w_current_action := a\<rparr>) s"
| "worker_step H Interrupted s = own (\<lambda>w. w\<lparr>w_interrupted := True\<rparr>) s"

text \<open>The atomic updates one call makes on the worker's shard of the live counters, in the order of the source.\<close>

fun updates_of :: "nat \<Rightarrow> worker_event \<Rightarrow> atomic_update list" where
  "updates_of k (Handshake d) = [(k, F_active, 1), (k, F_established, 1)]"
| "updates_of k (Reconnect d) = [(k, F_active, 1), (k, F_reconnects, 1)]"
| "updates_of k (Connection_failed err) = [(k, F_total_errors, 1), (k, F_failed, 1)]"
| "updates_of k Connection_closed = [(k, F_active, - 1)]"
| "updates_of k (Message_sent bytes) = [(k, F_messages_sent, 1), (k, F_bytes_sent, bytes)]"
| "updates_of k (Message_recv now bytes rtt) = [(k, F_messages_received, 1), (k, F_bytes_received, bytes)]"
| "updates_of k (Unsolicited_frames n) = (if n = 0 then [] else [(k, F_unsolicited, n)])"
| "updates_of k (Error err scope) = [(k, F_total_errors, 1)]"
| "updates_of k _ = []"

section \<open>Workers of a run\<close>

definition run_step ::
    "'h interval_hist \<Rightarrow> nat \<times> worker_event \<Rightarrow> (nat \<Rightarrow> worker_metrics) \<times> 'h world
     \<Rightarrow> (nat \<Rightarrow> worker_metrics) \<times> 'h world" where
  "run_step H e s =
     (case worker_step H (snd e) (fst s (fst e), snd s) of (w, wd) \<Rightarrow> ((fst s)(fst e := w), wd))"

section \<open>Live counters and worker counters move together\<close>

text \<open>The counters that are kept both live and by the worker, for the report.\<close>

datatype counter = C_sent | C_recv | C_bytes_sent | C_bytes_recv | C_reconnects | C_unsolicited | C_errors

fun shard_of :: "counter \<Rightarrow> counter_shard \<Rightarrow> u64" where
  "shard_of C_sent s = cs_messages_sent s"
| "shard_of C_recv s = cs_messages_received s"
| "shard_of C_bytes_sent s = cs_bytes_sent s"
| "shard_of C_bytes_recv s = cs_bytes_received s"
| "shard_of C_reconnects s = cs_reconnects s"
| "shard_of C_unsolicited s = cs_unsolicited s"
| "shard_of C_errors s = cs_total_errors s"

definition error_sum :: "(error_category \<Rightarrow> u64 option) \<Rightarrow> u64" where
  "error_sum errors = (\<Sum>c\<leftarrow>all_categories. case errors c of None \<Rightarrow> 0 | Some n \<Rightarrow> n)"

fun own_of :: "counter \<Rightarrow> worker_metrics \<Rightarrow> u64" where
  "own_of C_sent w = w_messages_sent w"
| "own_of C_recv w = w_messages_recv w"
| "own_of C_bytes_sent w = w_bytes_sent w"
| "own_of C_bytes_recv w = w_bytes_recv w"
| "own_of C_reconnects w = w_reconnects w"
| "own_of C_unsolicited w = w_unsolicited w"
| "own_of C_errors w = error_sum (w_errors w)"

definition live_total :: "counter \<Rightarrow> live_metrics \<Rightarrow> u64" where
  "live_total c lm = (\<Sum>s\<leftarrow>lm_shards lm. shard_of c s)"

lemma snapshot_totals: "shard_of c (live_snapshot lm) = live_total c lm"
proof -
  have "shard_of c (fold add_shard ss x) = shard_of c x + (\<Sum>s\<leftarrow>ss. shard_of c s)" for ss x
    by (induction ss arbitrary: x) (simp_all add: add_shard_def, cases c, simp_all)
  moreover have "shard_of c shard_zero = 0" by (cases c) (simp_all add: shard_zero_def)
  ultimately show ?thesis by (simp add: live_snapshot_def live_total_def)
qed

lemma error_sum_empty [simp]: "error_sum (\<lambda>_. None) = 0"
  by (simp add: error_sum_def)

lemma error_sum_count: "error_sum (count_error err errors) = error_sum errors + 1"
proof -
  have "(\<Sum>c\<leftarrow>cs. case count_error err errors c of None \<Rightarrow> 0 | Some n \<Rightarrow> n) =
      (\<Sum>c\<leftarrow>cs. case errors c of None \<Rightarrow> 0 | Some n \<Rightarrow> n) + (if err \<in> set cs then 1 else (0::u64))"
    if "distinct cs" for cs
    using that by (induction cs) (auto simp: count_error_def)
  then show ?thesis by (simp add: error_sum_def)
qed

definition live_ok :: "'h worker_state \<Rightarrow> bool" where
  "live_ok s \<longleftrightarrow> lm_shards (wd_live (snd s)) \<noteq> []"

definition gap :: "counter \<Rightarrow> 'h worker_state \<Rightarrow> u64" where
  "gap c s = live_total c (wd_live (snd s)) - own_of c (fst s)"

text \<open>The shard a worker writes to.\<close>

definition cur :: "'h worker_state \<Rightarrow> counter_shard" where
  "cur s = lm_shards (wd_live (snd s)) ! (w_shard (fst s) mod length (lm_shards (wd_live (snd s))))"

lemma sum_list_update_word:
  "i < length xs \<Longrightarrow> (\<Sum>x\<leftarrow>xs[i := v]. f x) = (\<Sum>x\<leftarrow>xs. f x) + (f v - f (xs ! i) :: u64)"
  by (induction xs arbitrary: i) (auto split: nat.split simp: algebra_simps)

lemma gap_counters:
  "live_ok s \<Longrightarrow> gap c (counters f s) = gap c s + (shard_of c (f (cur s)) - shard_of c (cur s))"
  by (simp add: gap_def counters_def update_shard_def Let_def live_total_def live_ok_def cur_def
      sum_list_update_word)

lemma gap_own: "gap c (own f s) = gap c s - (own_of c (f (fst s)) - own_of c (fst s))"
  by (simp add: gap_def own_def)

lemma gap_latency: "gap c (latency f s) = gap c s"
  by (simp add: gap_def latency_def Let_def)

lemma own_of_update_action: "own_of c (update_action f w) = own_of c w"
  by (cases c) (auto simp: update_action_def Let_def split: option.split)

lemma own_of_interval: "own_of c (w\<lparr>w_interval := r\<rparr>) = own_of c w"
  by (cases c) simp_all

lemma gap_interval: "gap c (interval_sample H now micros s) = gap c s" "gap c (flush_interval H s) = gap c s"
  by (simp_all add: gap_def interval_sample_def flush_interval_def own_of_interval split: option.split prod.split)

lemma live_ok_ops [simp]:
  "live_ok (counters f s) = live_ok s" "live_ok (own g s) = live_ok s" "live_ok (latency h s) = live_ok s"
  "live_ok (interval_sample H now micros s) = live_ok s" "live_ok (flush_interval H s) = live_ok s"
  by (auto simp: live_ok_def counters_def own_def latency_def update_shard_def Let_def interval_sample_def
      flush_interval_def split: option.split prod.split)

lemmas gap_simps = gap_counters gap_own gap_latency gap_interval own_of_update_action

lemma gap_rtt: "gap c (record_rtt_sample H now d s) = gap c s" "live_ok (record_rtt_sample H now d s) = live_ok s"
  by (simp_all add: record_rtt_sample_def Let_def gap_simps split: option.split)

lemma gap_error: "live_ok s \<Longrightarrow> gap c (record_error err scope s) = gap c s" "live_ok (record_error err scope s) = live_ok s"
  by (cases c; simp add: record_error_def Let_def gap_simps error_sum_count)
    (simp add: record_error_def Let_def)

lemma worker_step_gap:
  assumes "live_ok s"
  shows "gap c (worker_step H e s) = gap c s \<and> live_ok (worker_step H e s)"
proof (cases e)
  case (Message_recv now bytes rtt)
  with assms show ?thesis
    by (cases c; cases rtt) (simp_all add: record_message_recv_def Let_def gap_simps gap_rtt)
next
  case (Response_time now d)
  with assms show ?thesis by (simp add: record_response_time_def Let_def gap_simps split: option.split)
next
  case (Connection_failed err)
  with assms show ?thesis by (cases c) (simp_all add: record_connection_failed_def gap_simps gap_error)
next
  case (Error err scope)
  with assms show ?thesis by (simp add: gap_error)
qed (use assms in \<open>cases c; simp add: gap_simps w_record_handshake_def w_record_reconnect_def
    w_record_handshake_latency_def record_connection_closed_def record_message_sent_def
    record_unsolicited_frames_def record_chaos_def\<close>)+

lemma run_step_totals:
  assumes "lm_shards (wd_live (snd s)) \<noteq> []" "fst e < n"
    "live_total c (wd_live (snd s)) = (\<Sum>w<n. own_of c (fst s w))"
  shows "live_total c (wd_live (snd (run_step H e s))) = (\<Sum>w<n. own_of c (fst (run_step H e s) w)) \<and>
    lm_shards (wd_live (snd (run_step H e s))) \<noteq> []"
proof -
  let ?w = "fst e"
  obtain w' wd' where r: "worker_step H (snd e) (fst s ?w, snd s) = (w', wd')"
    by (cases "worker_step H (snd e) (fst s ?w, snd s)")
  have g: "live_total c (wd_live wd') - own_of c w' = live_total c (wd_live (snd s)) - own_of c (fst s ?w)"
    "lm_shards (wd_live wd') \<noteq> []"
    using worker_step_gap [of "(fst s ?w, snd s)" c H "snd e"] assms(1) by (simp_all add: r gap_def live_ok_def)
  have "(\<Sum>v<n. own_of c (((fst s)(?w := w')) v)) = own_of c w' + (\<Sum>v\<in>{..<n} - {?w}. own_of c (fst s v))"
    using assms(2) by (subst sum.remove [of _ ?w]) auto
  moreover have "(\<Sum>v<n. own_of c (fst s v)) = own_of c (fst s ?w) + (\<Sum>v\<in>{..<n} - {?w}. own_of c (fst s v))"
    using assms(2) by (simp add: sum.remove)
  ultimately have "live_total c (wd_live wd') = (\<Sum>v<n. own_of c (((fst s)(?w := w')) v))"
    using g(1) assms(3) by (simp add: algebra_simps)
  with g(2) show ?thesis by (simp add: run_step_def r)
qed

section \<open>Snapshots beside running workers\<close>

text \<open>A call changes the live counters by its atomic updates and nothing else.\<close>

lemma live_counters_step:
  "wd_live (snd (counters f s)) = update_shard (w_shard (fst s)) f (wd_live (snd s))"
  "wd_live (snd (own g s)) = wd_live (snd s)" "wd_live (snd (latency h s)) = wd_live (snd s)"
  "wd_live (snd (interval_sample H now micros s)) = wd_live (snd s)" "wd_live (snd (flush_interval H s)) = wd_live (snd s)"
  by (simp_all add: counters_def own_def latency_def interval_sample_def flush_interval_def Let_def split: option.split prod.split)

lemma w_shard_step:
  "w_shard (fst (counters f s)) = w_shard (fst s)" "w_shard (fst (latency h s)) = w_shard (fst s)"
  "w_shard (fst (interval_sample H now micros s)) = w_shard (fst s)" "w_shard (fst (flush_interval H s)) = w_shard (fst s)"
  "fst (own g s) = g (fst s)" "w_shard (update_action a w) = w_shard w"
  by (simp_all add: counters_def own_def latency_def interval_sample_def flush_interval_def Let_def update_action_def
      split: option.split prod.split)

lemma rtt_step:
  "wd_live (snd (record_rtt_sample H now d s)) = wd_live (snd s)" "w_shard (fst (record_rtt_sample H now d s)) = w_shard (fst s)"
  by (simp_all add: record_rtt_sample_def Let_def live_counters_step w_shard_step split: option.split)

lemmas add_field_fun = add_field.simps [abs_def]

lemma worker_step_updates:
  "wd_live (snd (worker_step H e s)) = fold apply_update (updates_of (w_shard (fst s)) e) (wd_live (snd s)) \<and>
   w_shard (fst (worker_step H e s)) = w_shard (fst s)"
proof (cases e)
  case (Message_recv now bytes rtt)
  then show ?thesis
    by (cases rtt) (simp_all add: record_message_recv_def Let_def live_counters_step w_shard_step rtt_step apply_update_def add_field_fun)
next
  case (Response_time now d)
  then show ?thesis by (simp add: record_response_time_def Let_def live_counters_step w_shard_step split: option.split)
qed (simp_all add: w_record_handshake_def w_record_reconnect_def w_record_handshake_latency_def record_connection_failed_def
    record_error_def record_connection_closed_def record_message_sent_def record_unsolicited_frames_def record_chaos_def Let_def
    live_counters_step w_shard_step apply_update_def add_field_fun)

lemma run_updates:
  "wd_live (snd (fold (run_step H) evs (ws, wd))) =
     fold apply_update (concat (map (\<lambda>(w, e). updates_of (w_shard (ws w)) e) evs)) (wd_live wd)"
proof (induction evs arbitrary: ws wd)
  case (Cons ev evs)
  obtain w e where ev: "ev = (w, e)" by fastforce
  obtain v wd' where r: "worker_step H e (ws w, wd) = (v, wd')" by fastforce
  with worker_step_updates [of H e "(ws w, wd)"]
  have v: "w_shard v = w_shard (ws w)" "wd_live wd' = fold apply_update (updates_of (w_shard (ws w)) e) (wd_live wd)" by simp_all
  have "w_shard ((ws(w := v)) u) = w_shard (ws u)" for u using v(1) by simp
  then show ?case using Cons.IH [of "ws(w := v)" wd'] by (simp add: ev run_step_def r v(2) del: fun_upd_apply)
qed simp

text \<open>Atomic updates commute, so how they are interleaved does not matter in the end.\<close>

lemma add_field_commute: "add_field f m (add_field g n s) = add_field g n (add_field f m s)"
  by (cases f; cases g) (simp_all add: ac_simps)

lemma apply_update_commute: "apply_update u (apply_update v lm) = apply_update v (apply_update u lm)"
proof (cases "lm_shards lm = []")
  case False
  obtain i f m j g n where u: "u = (i, f, m)" "v = (j, g, n)" by (cases u; cases v)
  show ?thesis
    using False by (cases "i mod length (lm_shards lm) = j mod length (lm_shards lm)")
      (simp_all add: u apply_update_def update_shard_def Let_def add_field_commute [of f] list_update_swap)
qed (cases u; cases v; simp add: apply_update_def update_shard_def Let_def)

lemma updates_any_order: "mset us = mset vs \<Longrightarrow> fold apply_update us lm = fold apply_update vs lm"
  by (rule fun_cong [OF fold_multiset_equiv]) (auto simp: fun_eq_iff apply_update_commute)

text \<open>The value of a counter over all shards, and what updates add to it, as numbers.\<close>

definition field_total :: "live_field \<Rightarrow> live_metrics \<Rightarrow> nat" where
  "field_total f lm = (\<Sum>k<length (lm_shards lm). unat (load_field f (lm_shards lm ! k)))"

definition added :: "live_field \<Rightarrow> atomic_update list \<Rightarrow> nat" where
  "added f us = (\<Sum>(k, g, n)\<leftarrow>us. if g = f then unat n else 0)"

lemma added_simps [simp]:
  "added f [] = 0" "added f ((k, g, n) # us) = (if g = f then unat n else 0) + added f us" "added f (us @ vs) = added f us + added f vs"
  by (simp_all add: added_def)

lemma load_add_field: "load_field f (add_field g n s) = load_field f s + (if g = f then n else 0)"
  by (cases f; cases g) simp_all

lemma length_apply_update [simp]: "length (lm_shards (apply_update u lm)) = length (lm_shards lm)"
  by (cases u) (simp add: apply_update_def update_shard_def Let_def)

lemma length_apply_updates [simp]: "length (lm_shards (fold apply_update us lm)) = length (lm_shards lm)"
  by (induction us arbitrary: lm) simp_all

lemma update_grows:
  assumes "field_total f lm + added f [u] < 2 ^ 64" "lm_shards lm \<noteq> []"
  shows "field_total f (apply_update u lm) = field_total f lm + added f [u]"
    "k < length (lm_shards lm) \<Longrightarrow> load_field f (lm_shards lm ! k) \<le> load_field f (lm_shards (apply_update u lm) ! k)"
proof -
  obtain j g n where u: "u = (j, g, n)" by (cases u)
  define i where "i = j mod length (lm_shards lm)"
  let ?m = "if g = f then n else 0"
  have i: "i < length (lm_shards lm)" using assms(2) by (simp add: i_def)
  have one: "added f [u] = unat ?m" by (simp add: u)
  have shard: "lm_shards (apply_update u lm) ! k = (if k = i then add_field g n (lm_shards lm ! i) else lm_shards lm ! k)"
    if "k < length (lm_shards lm)" for k
    using that i by (simp add: u apply_update_def update_shard_def Let_def i_def nth_list_update)
  have split: "(\<Sum>k<length (lm_shards lm). h k) = h i + (\<Sum>k\<in>{..<length (lm_shards lm)} - {i}. h k)" for h :: "nat \<Rightarrow> nat"
    using i by (simp add: sum.remove)
  have "unat (load_field f (lm_shards lm ! i)) + unat ?m \<le> field_total f lm + added f [u]"
    unfolding field_total_def split one by simp
  then have w: "unat (load_field f (lm_shards lm ! i) + ?m) = unat (load_field f (lm_shards lm ! i)) + unat ?m"
    using assms(1) by (subst unat_add_lem [THEN iffD1]) simp_all
  have "(\<Sum>k\<in>{..<length (lm_shards lm)} - {i}. unat (load_field f (lm_shards (apply_update u lm) ! k))) =
      (\<Sum>k\<in>{..<length (lm_shards lm)} - {i}. unat (load_field f (lm_shards lm ! k)))"
    by (rule sum.cong) (simp_all add: shard)
  then show "field_total f (apply_update u lm) = field_total f lm + added f [u]"
    unfolding field_total_def length_apply_update split one using i w by (simp add: shard load_add_field)
  show "load_field f (lm_shards lm ! k) \<le> load_field f (lm_shards (apply_update u lm) ! k)" if "k < length (lm_shards lm)"
    using that w by (auto simp: shard load_add_field word_le_nat_alt)
qed

lemma updates_grow:
  assumes "field_total f lm + added f us < 2 ^ 64" "lm_shards lm \<noteq> []"
  shows "field_total f (fold apply_update us lm) = field_total f lm + added f us \<and>
    (\<forall>k<length (lm_shards lm). load_field f (lm_shards lm ! k) \<le> load_field f (lm_shards (fold apply_update us lm) ! k))"
  using assms
proof (induction us arbitrary: lm)
  case (Cons u us)
  have one: "field_total f lm + added f [u] < 2 ^ 64" using Cons.prems(1) by (cases u) simp
  have "lm_shards (apply_update u lm) \<noteq> []" using Cons.prems(2) by (metis length_0_conv length_apply_update)
  with Cons.IH [of "apply_update u lm"] update_grows [OF one Cons.prems(2)] Cons.prems show ?case
    by (cases u) (auto intro: order_trans)
qed simp

text \<open>The loads that are still to come take each shard at least at its value now and at most at its value then.\<close>

definition to_load :: "live_field \<Rightarrow> (nat \<times> live_field) list \<Rightarrow> live_metrics \<Rightarrow> nat" where
  "to_load f loads lm = (\<Sum>k\<in>{k. (k, f) \<in> set loads}. unat (load_field f (lm_shards lm ! k)))"

lemma finite_loads [simp]: "finite {k. (k, f) \<in> set loads}"
  by (rule finite_subset [of _ "fst ` set loads"]) force+

lemma to_load_Cons:
  assumes "(k, g) \<notin> set loads"
  shows "to_load f ((k, g) # loads) lm = (if g = f then unat (load_field f (lm_shards lm ! k)) else 0) + to_load f loads lm"
proof (cases "g = f")
  case True
  have "{k'. (k', f) \<in> set ((k, g) # loads)} = insert k {k'. (k', f) \<in> set loads}" using True by auto
  moreover have "k \<notin> {k'. (k', f) \<in> set loads}" using assms True by simp
  ultimately show ?thesis using True by (simp add: to_load_def)
qed (simp add: to_load_def)

lemma to_load_mono:
  assumes "set loads \<subseteq> {..<length (lm_shards lm)} \<times> UNIV" "field_total f lm + added f us < 2 ^ 64" "lm_shards lm \<noteq> []"
  shows "to_load f loads lm \<le> to_load f loads (fold apply_update us lm)"
    "to_load f loads (fold apply_update us lm) \<le> to_load f loads lm + added f us"
proof -
  let ?K = "{k. (k, f) \<in> set loads}" and ?lm = "fold apply_update us lm" and ?N = "length (lm_shards lm)"
  let ?v = "\<lambda>lm k. unat (load_field f (lm_shards lm ! k))"
  note grow = updates_grow [OF assms(2,3)]
  have K: "?K \<subseteq> {..<?N}" using assms(1) by auto
  have le: "?v lm k \<le> ?v ?lm k" if "k < ?N" for k using grow that by (simp add: word_le_nat_alt)
  show "to_load f loads lm \<le> to_load f loads ?lm"
    unfolding to_load_def by (rule sum_mono) (use le K in auto)
  have split: "(\<Sum>k<?N. ?v l k) = (\<Sum>k\<in>?K. ?v l k) + (\<Sum>k\<in>{..<?N} - ?K. ?v l k)" for l
    using K by (simp add: sum.subset_diff add.commute)
  have "(\<Sum>k\<in>{..<?N} - ?K. ?v lm k) \<le> (\<Sum>k\<in>{..<?N} - ?K. ?v ?lm k)" by (rule sum_mono) (use le in auto)
  moreover have "(\<Sum>k<?N. ?v ?lm k) = (\<Sum>k<?N. ?v lm k) + added f us" using grow by (simp add: field_total_def)
  ultimately show "to_load f loads ?lm \<le> to_load f loads lm + added f us" 
    using split [of lm] split [of ?lm] unfolding to_load_def by linarith
qed

lemma snapshot_loads_bounds:
  assumes "distinct loads" "set loads \<subseteq> {..<length (lm_shards lm)} \<times> UNIV" "lm_shards lm \<noteq> []"
    "field_total f lm + added f (concat upds) < 2 ^ 64"
    "unat (load_field f snap) + to_load f loads lm + added f (concat upds) < 2 ^ 64"
    "snapshot_loads loads upds snap lm = (snap', lm')"
  shows "unat (load_field f snap) + to_load f loads lm \<le> unat (load_field f snap') \<and>
    unat (load_field f snap') \<le> unat (load_field f snap) + to_load f loads lm' \<and>
    (\<forall>k<length (lm_shards lm). load_field f (lm_shards lm ! k) \<le> load_field f (lm_shards lm' ! k))"
  using assms
proof (induction loads upds snap lm rule: snapshot_loads.induct)
  case (1 upds snap lm)
  then show ?case by (simp add: to_load_def)
next
  case (2 k g loads upds snap lm)
  define us where "us = (case upds of [] \<Rightarrow> [] | us # _ \<Rightarrow> us)"
  define lm1 where "lm1 = fold apply_update us lm"
  define snap1 where "snap1 = add_field g (load_field g (lm_shards lm1 ! k)) snap"
  have lm1: "(case upds of [] \<Rightarrow> lm | us # _ \<Rightarrow> fold apply_update us lm) = lm1"
    by (simp add: lm1_def us_def split: list.split)
  have upds: "added f (concat upds) = added f us + added f (concat (drop 1 upds))"
    by (cases upds) (simp_all add: us_def)
  have total: "field_total f lm + added f us < 2 ^ 64" using "2.prems"(4) upds by simp
  note grow = updates_grow [OF total "2.prems"(3), folded lm1_def]
  have new: "(k, g) \<notin> set loads" "k < length (lm_shards lm)" "length (lm_shards lm1) = length (lm_shards lm)"
    using "2.prems"(1,2) by (auto simp: lm1_def)
  note mono = to_load_mono [OF "2.prems"(2) total "2.prems"(3), folded lm1_def]
  let ?m = "if g = f then load_field f (lm_shards lm1 ! k) else 0"
  have now: "unat (load_field f snap) + to_load f ((k, g) # loads) lm1 + added f (concat (drop 1 upds)) < 2 ^ 64"
    using mono(2) "2.prems"(5) upds by linarith
  have snap1: "unat (load_field f snap1) = unat (load_field f snap) + unat ?m"
    unfolding snap1_def load_add_field using now
    by (subst unat_add_lem [THEN iffD1]) (auto simp: to_load_Cons [OF new(1)])
  have sum: "unat (load_field f snap) + to_load f ((k, g) # loads) l = unat (load_field f snap1) + to_load f loads l"
    if "g = f \<Longrightarrow> load_field f (lm_shards l ! k) = load_field f (lm_shards lm1 ! k)" for l
    using that by (simp add: to_load_Cons [OF new(1)] snap1)
  have now1: "unat (load_field f snap1) + to_load f loads lm1 + added f (concat (drop 1 upds)) < 2 ^ 64"
    using now sum [of lm1] by simp
  have rest: "distinct loads" "set loads \<subseteq> {..<length (lm_shards lm1)} \<times> UNIV" "lm_shards lm1 \<noteq> []"
    "field_total f lm1 + added f (concat (drop 1 upds)) < 2 ^ 64" "snapshot_loads loads (drop 1 upds) snap1 lm1 = (snap', lm')"
    using "2.prems" new grow upds by (auto simp: lm1 snap1_def Let_def simp flip: length_0_conv)
  have IH: "unat (load_field f snap1) + to_load f loads lm1 \<le> unat (load_field f snap') \<and>
    unat (load_field f snap') \<le> unat (load_field f snap1) + to_load f loads lm' \<and>
    (\<forall>k<length (lm_shards lm1). load_field f (lm_shards lm1 ! k) \<le> load_field f (lm_shards lm' ! k))"
    using "2.IH" [OF lm1 [symmetric]] rest now1 unfolding snap1_def by blast
  then have "unat ?m + to_load f loads lm' \<le> to_load f ((k, g) # loads) lm'"
    using new by (auto simp: to_load_Cons [OF new(1)] word_le_nat_alt)
  with IH snap1 sum [of lm1] mono(1) grow new(3) show ?case by (auto intro: order_trans)
qed

lemma product_loads: "{k. (k, f) \<in> set (List.product [0..<n] all_fields)} = {..<n}"
  by (cases f) (auto simp: all_fields_def)

lemma snapshot_bounds:
  assumes "snapshot_during upds lm = (snap, lm')" "lm_shards lm \<noteq> []" "field_total f lm + added f (concat upds) < 2 ^ 64"
  shows "field_total f lm \<le> unat (load_field f snap)" "unat (load_field f snap) \<le> field_total f lm'"
proof -
  let ?loads = "List.product [0..<length (lm_shards lm)] all_fields"
  have len: "length (lm_shards lm') = length (lm_shards lm)" if "snapshot_loads loads upds s lm = (snap, lm')" for loads upds s lm
    using that by (induction loads upds s lm rule: snapshot_loads.induct) (auto simp: Let_def split: list.splits)
  have all: "to_load f ?loads l = field_total f l" if "length (lm_shards l) = length (lm_shards lm)" for l
    unfolding to_load_def field_total_def product_loads that ..
  have zero: "load_field f shard_zero = 0" by (cases f) (simp_all add: shard_zero_def)
  have run: "snapshot_loads ?loads upds shard_zero lm = (snap, lm')" using assms(1) by (simp add: snapshot_during_def)
  have "unat (load_field f shard_zero) + to_load f ?loads lm \<le> unat (load_field f snap) \<and>
    unat (load_field f snap) \<le> unat (load_field f shard_zero) + to_load f ?loads lm' \<and>
    (\<forall>k<length (lm_shards lm). load_field f (lm_shards lm ! k) \<le> load_field f (lm_shards lm' ! k))"
  proof (rule snapshot_loads_bounds [OF _ _ assms(2,3) _ run])
    show "distinct ?loads" by (simp add: distinct_product all_fields_def)
    show "unat (load_field f shard_zero) + to_load f ?loads lm + added f (concat upds) < 2 ^ 64"
      using assms(3) by (simp only: all [OF refl] zero) simp
  qed auto
  then show "field_total f lm \<le> unat (load_field f snap)" "unat (load_field f snap) \<le> field_total f lm'"
    using len [OF run] by (simp_all add: all zero)
qed

section \<open>Properties\<close>

text \<open>Without updates meanwhile, the loads add up the shards.\<close>

lemma snapshot_loads_quiet:
  assumes "concat upds = []"
  shows "snapshot_loads loads upds snap lm = (fold (\<lambda>(k, f). add_field f (load_field f (lm_shards lm ! k))) loads snap, lm)"
  using assms
proof (induction loads upds snap lm rule: snapshot_loads.induct)
  case (2 k f loads upds snap lm)
  have "(case upds of [] \<Rightarrow> lm | us # _ \<Rightarrow> fold apply_update us lm) = lm" "concat (drop 1 upds) = []"
    using "2.prems" by (cases upds; simp)+
  then show ?case using "2.IH" by (simp add: Let_def)
qed simp

lemma snapshot_quiet:
  assumes "concat upds = []"
  shows "snapshot_during upds lm = (live_snapshot lm, lm)"
proof -
  have fields: "fold (\<lambda>f. add_field f (load_field f s)) all_fields snap = add_shard s snap" for s snap
    by (simp add: all_fields_def add_shard_def)
  have "fold (\<lambda>(k, f). add_field f (load_field f (ss ! k))) (List.product ks all_fields) snap = fold (\<lambda>k. add_shard (ss ! k)) ks snap"
    for ss ks snap
  proof (induction ks arbitrary: snap)
    case (Cons k ks)
    have "fold (\<lambda>(k, f). add_field f (load_field f (ss ! k))) (map (Pair k) fs) snap = fold (\<lambda>f. add_field f (load_field f (ss ! k))) fs snap" for fs
      by (induction fs arbitrary: snap) simp_all
    with Cons.IH show ?case by (simp add: fields)
  qed simp
  moreover have "fold (\<lambda>k. add_shard (ss ! k)) [0..<length ss] snap = fold add_shard ss snap" for ss snap
    by (simp add: fold_map [symmetric, unfolded comp_def] map_nth)
  ultimately show ?thesis by (simp add: snapshot_during_def snapshot_loads_quiet [OF assms] live_snapshot_def)
qed

lemma run_live_totals:
  assumes "cores \<noteq> Some 0" "lm_shards (wd_live wd) = lm_shards (live_new cores)"
    "\<forall>w<n. \<exists>a lm. ws w = fst (worker_new a lm)" "\<forall>(w, e)\<in>set evs. w < n"
  shows "live_total c (wd_live (snd (fold (run_step H) evs (ws, wd)))) =
      (\<Sum>w<n. own_of c (fst (fold (run_step H) evs (ws, wd)) w)) \<and>
    lm_shards (wd_live (snd (fold (run_step H) evs (ws, wd)))) \<noteq> []"
proof -
  have "own_of c (fst (worker_new a lm)) = 0" for a lm
    by (cases c) (simp_all add: worker_new_def assign_shard_def)
  with assms(3) have own0: "own_of c (ws w) = 0" if "w < n" for w using that by metis
  have "shard_of c shard_zero = 0" by (cases c) (simp_all add: shard_zero_def)
  then have "live_total c (wd_live wd) = 0" by (simp add: live_total_def assms(2) live_new_def sum_list_replicate)
  then have start: "live_total c (wd_live wd) = (\<Sum>w<n. own_of c (ws w))" by (simp add: own0)
  have "lm_shards (wd_live wd) \<noteq> []" using assms(1,2) by (auto simp: live_new_def split: option.split)
  then show ?thesis
    using assms(4)
  proof (induction evs rule: rev_induct)
    case Nil
    with start show ?case by simp
  next
    case (snoc e evs)
    then show ?case using run_step_totals [of "fold (run_step H) evs (ws, wd)" e n c H] by (cases e) simp
  qed
qed

text \<open>C34: what a live snapshot shows. The workers of a run have made the calls \<open>evs\<close>, their atomic updates \<open>us\<close> of
  the live counters interleaved in any way, also inside a call. A snapshot then reads the counters one by one
  while further updates \<open>upds\<close> happen before each load. If there are none, because no worker records anything
  meanwhile, the snapshot holds, for messages and bytes in both directions, reconnects, skipped frames and
  errors, exactly the sum of what the workers counted for the report. Otherwise every counter that is only
  added to and does not wrap is shown with a value between those it had when the snapshot began and when it ended.\<close>

theorem live_counters_match_report:
  assumes "cores \<noteq> Some 0" "lm_shards (wd_live wd) = lm_shards (live_new cores)"
    "\<forall>w<n. \<exists>a lm. ws w = fst (worker_new a lm)" "\<forall>(w, e)\<in>set evs. w < n"
    "mset us = mset (concat (map (\<lambda>(w, e). updates_of (w_shard (ws w)) e) evs))"
    "snapshot_during upds (fold apply_update us (wd_live wd)) = (snap, lm')"
  shows "(concat upds = [] \<longrightarrow> shard_of c snap = (\<Sum>w<n. own_of c (fst (fold (run_step H) evs (ws, wd)) w))) \<and>
    (field_total f (fold apply_update us (wd_live wd)) + added f (concat upds) < 2 ^ 64 \<longrightarrow>
       field_total f (fold apply_update us (wd_live wd)) \<le> unat (load_field f snap) \<and>
       unat (load_field f snap) \<le> field_total f lm')"
proof -
  note totals = run_live_totals [OF assms(1-4), of c H]
  have live: "fold apply_update us (wd_live wd) = wd_live (snd (fold (run_step H) evs (ws, wd)))"
    unfolding run_updates using assms(5) by (rule updates_any_order)
  have "shard_of c snap = (\<Sum>w<n. own_of c (fst (fold (run_step H) evs (ws, wd)) w))" if "concat upds = []"
    using assms(6) snapshot_quiet [OF that] totals by (auto simp: live snapshot_totals)
  moreover have "lm_shards (fold apply_update us (wd_live wd)) \<noteq> []" using totals unfolding live by blast
  ultimately show ?thesis using snapshot_bounds [OF assms(6)] by blast
qed

text \<open>Two workers send, one of them fails; while the snapshot is read, the first worker sends once more, and the
  load of the messages comes before its update and that of the bytes after it.\<close>

theorem live_counters_match_report_witness:
  "\<exists>lm. cs_messages_sent (fst (snapshot_during [] lm)) = 2 \<and> cs_bytes_sent (fst (snapshot_during [] lm)) = 12 \<and>
     cs_total_errors (fst (snapshot_during [] lm)) = 1 \<and>
     (case snapshot_during ([[], [], [], [], [], [(0, F_messages_sent, 1), (0, F_bytes_sent, 9)]]) lm of (snap, lm') \<Rightarrow>
        field_total F_bytes_sent lm \<le> unat (cs_bytes_sent snap) \<and> unat (cs_bytes_sent snap) \<le> field_total F_bytes_sent lm')"
proof -
  let ?ws = "\<lambda>_ :: nat. fst (worker_new 0 (live_new (Some 1)))"
  let ?wd = "\<lparr>wd_live = live_new (Some 1), wd_latency = \<lambda>_. with_shards 1, wd_series = store_new 0 1\<rparr> :: unit world"
  let ?evs = "[(0, Message_sent 5), (1, Message_sent 7), (0, Error Timeout SentMessage)]"
  let ?us = "concat (map (\<lambda>(w, e). updates_of (w_shard (?ws w)) e) ?evs)"
  let ?H = "\<lparr>ih_new = None, ih_record = \<lambda>_ h. h\<rparr> :: unit interval_hist"
  let ?lm = "fold apply_update ?us (wd_live ?wd)"
  let ?upds = "[[], [], [], [], [], [(0, F_messages_sent, 1), (0, F_bytes_sent, 9)]] :: atomic_update list list"
  note m = live_counters_match_report [of "Some 1" ?wd 2 ?ws ?evs ?us _ _ _ _ ?H]
  obtain snap lm1 where q: "snapshot_during [] ?lm = (snap, lm1)" by fastforce
  obtain snap' lm' where d: "snapshot_during ?upds ?lm = (snap', lm')" by fastforce
  have "cs_messages_sent snap = 2" "cs_bytes_sent snap = 12" "cs_total_errors snap = 1"
    using m [OF _ _ _ _ _ q, of C_sent] m [OF _ _ _ _ _ q, of C_bytes_sent] m [OF _ _ _ _ _ q, of C_errors]
    by (auto simp: run_step_def record_message_sent_def record_error_def counters_def own_def update_action_def
        worker_new_def assign_shard_def numeral_2_eq_2 lessThan_Suc error_sum_count Let_def)
  moreover have "field_total F_bytes_sent ?lm = 12"
    by code_simp
  then have "field_total F_bytes_sent ?lm \<le> unat (cs_bytes_sent snap') \<and> unat (cs_bytes_sent snap') \<le> field_total F_bytes_sent lm'"
    using m [OF _ _ _ _ _ d, of _ F_bytes_sent] by auto
  ultimately show ?thesis using q d by (intro exI [of _ ?lm]) simp
qed

text \<open>The results of \<open>k\<close> calls of \<open>claim_request\<close>, by whatever workers.\<close>

fun claims :: "nat \<Rightarrow> u64 \<Rightarrow> live_metrics \<Rightarrow> bool list" where
  "claims 0 limit lm = []"
| "claims (Suc k) limit lm = (case claim_request limit lm of (ok, lm) \<Rightarrow> ok # claims k limit lm)"

lemma claims_count:
  "unat (lm_requests_claimed lm) + k \<le> 2 ^ 64 \<Longrightarrow>
   length (filter id (claims k limit lm)) = min k (unat limit - unat (lm_requests_claimed lm))"
proof (induction k arbitrary: lm)
  case (Suc k)
  let ?m = "lm\<lparr>lm_requests_claimed := lm_requests_claimed lm + 1\<rparr>"
  show ?case
  proof (cases k)
    case 0
    then show ?thesis by (auto simp: claim_request_def word_less_nat_alt)
  next
    case (Suc j)
    then have "unat (lm_requests_claimed lm) + 1 < 2 ^ 64" using Suc.prems by simp
    then have "unat (lm_requests_claimed lm + 1) = unat (lm_requests_claimed lm) + 1"
      by (subst unat_add_lem [THEN iffD1]) simp_all
    with Suc.IH [of ?m] Suc.prems show ?thesis by (auto simp: claim_request_def word_less_nat_alt)
  qed
qed simp

text \<open>A request limit is exact. Whatever the number of workers and the order of their claims, the first
  \<open>limit\<close> claims are granted and no other, as long as the run makes fewer than \<open>2\<^sup>6\<^sup>4\<close> claims.\<close>

theorem request_limit_exact:
  assumes "k \<le> 2 ^ 64"
  shows "length (filter id (claims k limit (live_new cores))) = min k (unat limit) \<and>
    claims k limit (live_new cores) = map (\<lambda>i. i < unat limit) [0..<k]"
proof
  show "length (filter id (claims k limit (live_new cores))) = min k (unat limit)"
    using claims_count [of "live_new cores" k limit] assms by (simp add: live_new_def)
  have "claims k limit lm = map (\<lambda>i. unat (lm_requests_claimed lm) + i < unat limit) [0..<k]"
    if "unat (lm_requests_claimed lm) + k \<le> 2 ^ 64" for lm
    using that
  proof (induction k arbitrary: lm)
    case (Suc k)
    have "unat (lm_requests_claimed lm + 1) = unat (lm_requests_claimed lm) + 1" if "0 < k"
      using Suc.prems that by (subst unat_add_lem [THEN iffD1]) simp_all
    with Suc.IH [of "lm\<lparr>lm_requests_claimed := lm_requests_claimed lm + 1\<rparr>"] Suc.prems show ?case
      by (cases k) (simp_all add: claim_request_def word_less_nat_alt map_upt_Suc del: upt_Suc)
  qed simp
  from this [of "live_new cores"] assms show "claims k limit (live_new cores) = map (\<lambda>i. i < unat limit) [0..<k]"
    by (simp add: live_new_def)
qed

theorem request_limit_exact_witness:
  "claims 3 2 (live_new None) = [True, True, False]"
  using request_limit_exact [of 3 2 None] by (simp add: upt_rec)

end
