(* ===== verification/F64.thy ===== *)
theory F64
  imports Prelude Complex_Main "HOL-Library.Log_Nat"
begin

text \<open>
  Rust's \<open>f64\<close>: IEEE 754 binary64 with round-to-nearest, ties to even. A finite value is the
  rational it denotes; every arithmetic operation is the exact rational result rounded once, with
  gradual underflow and overflow to an infinity. Signed zero is not represented: no comparison or
  arithmetic result the code looks at depends on it (the one sign test, on a number parsed from
  text, reads the text's sign).

  The library's facts are that rounding is monotone and exact on the representable values, among
  them every integer up to \<open>2 ^ 53\<close>; the locale \<open>rounding\<close> is the interface the components use.
\<close>

section \<open>Rounding a positive rational\<close>

definition round_half_even :: "rat \<Rightarrow> int" where
  "round_half_even x =
     (let f = \<lfloor>x\<rfloor>; d = x - of_int f
      in if d < 1 / 2 then f else if d > 1 / 2 then f + 1 else if even f then f else f + 1)"

text \<open>The binary exponent of a positive rational: \<open>2 ^ e \<le> x < 2 ^ (e + 1)\<close>.\<close>

definition ilog2 :: "rat \<Rightarrow> int" where
  "ilog2 x =
     (let (p, q) = quotient_of x; e = bitlen p - bitlen q
      in if 2 powi e \<le> x then e else e - 1)"

definition ulp_exp :: "rat \<Rightarrow> int" where
  "ulp_exp x = max (ilog2 x) (-1022) - 52"

definition round_pos :: "rat \<Rightarrow> rat" where
  "round_pos x = of_int (round_half_even (x / 2 powi ulp_exp x)) * 2 powi ulp_exp x"

definition round_f64 :: "rat \<Rightarrow> rat" where
  "round_f64 x = (if x = 0 then 0 else if 0 < x then round_pos x else - round_pos (- x))"

section \<open>Values and operations\<close>

datatype f64 = Num rat | PosInf | NegInf | NaN

definition f64_max_exclusive :: rat where
  "f64_max_exclusive = 2 powi 1024"

definition of_exact :: "rat \<Rightarrow> f64" where
  "of_exact x =
     (let r = round_f64 x
      in if f64_max_exclusive \<le> r then PosInf else if r \<le> - f64_max_exclusive then NegInf else Num r)"

text \<open>\<open>n as f64\<close> for an unsigned integer.\<close>

definition of_uint :: "nat \<Rightarrow> f64" where
  "of_uint n = of_exact (of_nat n)"

fun f64_neg :: "f64 \<Rightarrow> f64" where
  "f64_neg (Num x) = Num (- x)"
| "f64_neg PosInf = NegInf"
| "f64_neg NegInf = PosInf"
| "f64_neg NaN = NaN"

fun f64_add :: "f64 \<Rightarrow> f64 \<Rightarrow> f64" where
  "f64_add (Num x) (Num y) = of_exact (x + y)"
| "f64_add NaN y = NaN"
| "f64_add x NaN = NaN"
| "f64_add PosInf NegInf = NaN"
| "f64_add NegInf PosInf = NaN"
| "f64_add PosInf y = PosInf"
| "f64_add NegInf y = NegInf"
| "f64_add x PosInf = PosInf"
| "f64_add x NegInf = NegInf"

definition f64_sub :: "f64 \<Rightarrow> f64 \<Rightarrow> f64" where
  "f64_sub x y = f64_add x (f64_neg y)"

definition inf_of_sign :: "rat \<Rightarrow> f64" where
  "inf_of_sign s = (if s = 0 then NaN else if 0 < s then PosInf else NegInf)"

fun f64_mul :: "f64 \<Rightarrow> f64 \<Rightarrow> f64" where
  "f64_mul (Num x) (Num y) = of_exact (x * y)"
| "f64_mul NaN y = NaN"
| "f64_mul x NaN = NaN"
| "f64_mul (Num x) PosInf = inf_of_sign x"
| "f64_mul (Num x) NegInf = inf_of_sign (- x)"
| "f64_mul PosInf (Num y) = inf_of_sign y"
| "f64_mul NegInf (Num y) = inf_of_sign (- y)"
| "f64_mul PosInf PosInf = PosInf"
| "f64_mul NegInf NegInf = PosInf"
| "f64_mul PosInf NegInf = NegInf"
| "f64_mul NegInf PosInf = NegInf"

text \<open>Division by zero gives an infinity of the dividend's sign, as no divisor is a negative zero.\<close>

fun f64_div :: "f64 \<Rightarrow> f64 \<Rightarrow> f64" where
  "f64_div (Num x) (Num y) = (if y = 0 then inf_of_sign x else of_exact (x / y))"
| "f64_div NaN y = NaN"
| "f64_div x NaN = NaN"
| "f64_div (Num x) _ = Num 0"
| "f64_div PosInf (Num y) = (if 0 \<le> y then PosInf else NegInf)"
| "f64_div NegInf (Num y) = (if 0 \<le> y then NegInf else PosInf)"
| "f64_div _ _ = NaN"

fun f64_lt :: "f64 \<Rightarrow> f64 \<Rightarrow> bool" where
  "f64_lt (Num x) (Num y) = (x < y)"
| "f64_lt NaN y = False"
| "f64_lt x NaN = False"
| "f64_lt x NegInf = False"
| "f64_lt PosInf y = False"
| "f64_lt NegInf y = True"
| "f64_lt x PosInf = True"

definition f64_eq :: "f64 \<Rightarrow> f64 \<Rightarrow> bool" where
  "f64_eq x y = (x \<noteq> NaN \<and> x = y)"

definition f64_le :: "f64 \<Rightarrow> f64 \<Rightarrow> bool" where
  "f64_le x y = (f64_lt x y \<or> f64_eq x y)"

fun is_finite :: "f64 \<Rightarrow> bool" where
  "is_finite (Num x) = True"
| "is_finite _ = False"

definition f64_min :: "f64 \<Rightarrow> f64 \<Rightarrow> f64" where
  "f64_min x y = (if x = NaN then y else if y = NaN then x else if f64_lt y x then y else x)"

definition f64_max :: "f64 \<Rightarrow> f64 \<Rightarrow> f64" where
  "f64_max x y = (if x = NaN then y else if y = NaN then x else if f64_lt x y then y else x)"

text \<open>\<open>f64::round\<close> (ties away from zero), \<open>ceil\<close> and the saturating cast \<open>as u64\<close>.\<close>

definition round_away :: "rat \<Rightarrow> int" where
  "round_away x = (if 0 \<le> x then \<lfloor>x + 1 / 2\<rfloor> else - \<lfloor>- x + 1 / 2\<rfloor>)"

fun f64_round :: "f64 \<Rightarrow> f64" where
  "f64_round (Num x) = Num (of_int (round_away x))"
| "f64_round x = x"

fun f64_ceil :: "f64 \<Rightarrow> f64" where
  "f64_ceil (Num x) = Num (of_int \<lceil>x\<rceil>)"
| "f64_ceil x = x"

fun f64_to_u64 :: "f64 \<Rightarrow> nat" where
  "f64_to_u64 (Num x) = (if x \<le> 0 then 0 else min u64_max (nat \<lfloor>x\<rfloor>))"
| "f64_to_u64 PosInf = u64_max"
| "f64_to_u64 NegInf = 0"
| "f64_to_u64 NaN = 0"

text \<open>\<open>Duration::as_secs_f64\<close>: \<open>(self.secs as f64) + (self.nanos as f64) / 1e9\<close>.\<close>

definition as_secs_f64 :: "duration \<Rightarrow> f64" where
  "as_secs_f64 d =
     f64_add (of_uint (as_secs d)) (f64_div (of_uint (subsec_nanos d)) (of_uint nanos_per_sec))"

section \<open>Rounding to an integer\<close>

lemma round_half_even_cases:
  "round_half_even x = \<lfloor>x\<rfloor> \<or> round_half_even x = \<lfloor>x\<rfloor> + 1"
  by (simp add: round_half_even_def Let_def)

lemma round_half_even_of_int [simp]: "round_half_even (of_int n) = n"
  by (simp add: round_half_even_def)

lemma round_half_even_mono:
  assumes "x \<le> y"
  shows "round_half_even x \<le> round_half_even y"
proof (cases "\<lfloor>x\<rfloor> = \<lfloor>y\<rfloor>")
  case True
  then show ?thesis using assms by (auto simp: round_half_even_def Let_def)
next
  case False
  with assms have "\<lfloor>x\<rfloor> + 1 \<le> \<lfloor>y\<rfloor>" using floor_mono [of x y] by linarith
  then show ?thesis using round_half_even_cases [of x] round_half_even_cases [of y] by linarith
qed

lemma round_half_even_ge: "of_int n \<le> x \<Longrightarrow> n \<le> round_half_even x"
  using round_half_even_mono [of "of_int n" x] by simp

lemma round_half_even_le: "x \<le> of_int n \<Longrightarrow> round_half_even x \<le> n"
  using round_half_even_mono [of x "of_int n"] by simp

section \<open>The exponent of a positive rational\<close>

lemma powi2_less_iff [simp]: "(2::rat) powi a < 2 powi b \<longleftrightarrow> a < b"
proof (cases a b rule: linorder_cases)
  case greater
  then have "(2::rat) powi b < 2 powi a" by (intro power_int_strict_increasing) auto
  with greater show ?thesis by simp
qed (auto intro: power_int_strict_increasing)

lemma powi2_pos [simp]: "0 < (2::rat) powi a"
  by simp

lemma quotient_of_pos:
  assumes "0 < x" and "quotient_of x = (p, q)"
  shows "0 < p" and "0 < q" and "x = of_int p / of_int q"
proof -
  show q: "0 < q" using assms(2) by (rule quotient_of_denom_pos)
  show x: "x = of_int p / of_int q" using assms(2) by (rule quotient_of_div)
  from assms(1) x q show "0 < p" by (simp add: zero_less_divide_iff)
qed

lemma bitlen_powi_bounds:
  assumes "0 < n"
  shows "2 powi (bitlen n - 1) \<le> (of_int n :: rat)" and "(of_int n :: rat) < 2 powi bitlen n"
proof -
  have b: "1 \<le> bitlen n" using assms bitlen_eq_zero_iff [of n] bitlen_nonneg [of n] by linarith
  have "(2::int) ^ nat (bitlen n - 1) \<le> n" and "n < 2 ^ nat (bitlen n)"
    using bitlen_bounds [OF assms] by simp_all
  then have "(of_int (2 ^ nat (bitlen n - 1)) :: rat) \<le> of_int n"
    and "(of_int n :: rat) < of_int (2 ^ nat (bitlen n))"
    by (simp_all only: of_int_le_iff of_int_less_iff)
  then show "2 powi (bitlen n - 1) \<le> (of_int n :: rat)" and "(of_int n :: rat) < 2 powi bitlen n"
    using b by (simp_all add: power_int_def)
qed

lemma ilog2_bounds:
  assumes "0 < x"
  shows "2 powi ilog2 x \<le> x" and "x < 2 powi (ilog2 x + 1)"
proof -
  obtain p q where pq: "quotient_of x = (p, q)" by fastforce
  note pos = quotient_of_pos [OF assms pq]
  define e where "e = bitlen p - bitlen q"
  have "x * of_int q = of_int p" using pos by simp
  moreover have "x * 2 powi (bitlen q - 1) \<le> x * of_int q"
    using bitlen_powi_bounds(1) [OF pos(2)] assms by simp
  ultimately have "x * 2 powi (bitlen q - 1) < 2 powi bitlen p"
    using bitlen_powi_bounds(2) [OF pos(1)] by linarith
  then have "x < 2 powi bitlen p / 2 powi (bitlen q - 1)"
    by (simp only: pos_less_divide_eq powi2_pos)
  also have "\<dots> = 2 powi (bitlen p - (bitlen q - 1))"
    by (rule power_int_diff [symmetric]) simp
  also have "bitlen p - (bitlen q - 1) = e + 1" by (simp add: e_def)
  finally have hi: "x < 2 powi (e + 1)" .
  have "x * of_int q < x * 2 powi bitlen q"
    using bitlen_powi_bounds(2) [OF pos(2)] assms by simp
  then have "2 powi (bitlen p - 1) < x * 2 powi bitlen q"
    using bitlen_powi_bounds(1) [OF pos(1)] \<open>x * of_int q = of_int p\<close> by linarith
  then have "2 powi (bitlen p - 1) / 2 powi bitlen q < x"
    by (simp only: pos_divide_less_eq powi2_pos)
  moreover have "2 powi (bitlen p - 1) / 2 powi bitlen q = (2 :: rat) powi (bitlen p - 1 - bitlen q)"
    by (rule power_int_diff [symmetric]) simp
  moreover have "bitlen p - 1 - bitlen q = e - 1" by (simp add: e_def)
  ultimately have lo: "2 powi (e - 1) < x" by simp
  have "ilog2 x = (if 2 powi e \<le> x then e else e - 1)"
    by (simp add: ilog2_def pq e_def Let_def)
  with hi lo show "2 powi ilog2 x \<le> x" and "x < 2 powi (ilog2 x + 1)" by auto
qed

lemma ilog2_le:
  assumes "0 < x" "x < 2 powi (k + 1)"
  shows "ilog2 x \<le> k"
proof -
  have "2 powi ilog2 x < (2 :: rat) powi (k + 1)"
    using ilog2_bounds(1) [OF assms(1)] assms(2) by (rule le_less_trans)
  then show ?thesis by (simp only: powi2_less_iff)
qed

lemma ilog2_ge:
  assumes "0 < x" "2 powi k \<le> x"
  shows "k \<le> ilog2 x"
proof -
  have "(2 :: rat) powi k < 2 powi (ilog2 x + 1)"
    using assms(2) ilog2_bounds(2) [OF assms(1)] by (rule le_less_trans)
  then show ?thesis by (simp only: powi2_less_iff)
qed

lemma ilog2_mono: "0 < x \<Longrightarrow> x \<le> y \<Longrightarrow> ilog2 x \<le> ilog2 y"
  using ilog2_bounds(1) [of x] by (intro ilog2_ge) auto

lemma ulp_exp_mono: "0 < x \<Longrightarrow> x \<le> y \<Longrightarrow> ulp_exp x \<le> ulp_exp y"
  using ilog2_mono [of x y] by (simp add: ulp_exp_def)

lemma below_ulp_top:
  assumes "0 < x"
  shows "x \<le> 2 powi (ulp_exp x + 53)"
proof -
  have "x < 2 powi (ilog2 x + 1)" by (rule ilog2_bounds(2) [OF assms])
  also have "\<dots> \<le> 2 powi (ulp_exp x + 53)"
    by (rule power_int_increasing) (auto simp: ulp_exp_def)
  finally show ?thesis by simp
qed

section \<open>Rounding is monotone and exact on representable values\<close>

lemma round_pos_le:
  assumes "0 < x" "x \<le> of_int m * 2 powi ulp_exp x"
  shows "round_pos x \<le> of_int m * 2 powi ulp_exp x"
proof -
  have "round_half_even (x / 2 powi ulp_exp x) \<le> m"
    using assms by (intro round_half_even_le) (simp add: pos_divide_le_eq)
  then show ?thesis by (simp add: round_pos_def)
qed

lemma round_pos_ge:
  assumes "0 < x" "of_int m * 2 powi ulp_exp x \<le> x"
  shows "of_int m * 2 powi ulp_exp x \<le> round_pos x"
proof -
  have "m \<le> round_half_even (x / 2 powi ulp_exp x)"
    using assms by (intro round_half_even_ge) (simp add: pos_le_divide_eq)
  then show ?thesis by (simp add: round_pos_def)
qed

lemma round_pos_mono:
  assumes "0 < x" "x \<le> y"
  shows "round_pos x \<le> round_pos y"
proof (cases "ulp_exp x = ulp_exp y")
  case True
  have "round_half_even (x / 2 powi ulp_exp y) \<le> round_half_even (y / 2 powi ulp_exp y)"
    using assms by (intro round_half_even_mono divide_right_mono) auto
  then show ?thesis by (simp add: round_pos_def True)
next
  case False
  with ulp_exp_mono [OF assms] have lt: "ulp_exp x + 1 \<le> ulp_exp y" by simp
  have y0: "0 < y" using assms by simp
  have norm: "ilog2 y = ulp_exp y + 52"
    using lt by (auto simp: ulp_exp_def)
  have p: "(2::rat) powi (k + 52) = of_int (2 ^ 52) * 2 powi k" for k
    by (simp add: power_int_add)
  have p': "(2::rat) powi (k + 53) = of_int (2 ^ 53) * 2 powi k" for k
    by (simp add: power_int_add)
  have "round_pos x \<le> 2 powi (ulp_exp x + 53)"
    unfolding p' using below_ulp_top [OF assms(1)] unfolding p' by (rule round_pos_le [OF assms(1)])
  also have "\<dots> \<le> 2 powi (ulp_exp y + 52)"
    using lt by (intro power_int_increasing) auto
  also have "\<dots> \<le> round_pos y"
    unfolding p using ilog2_bounds(1) [OF y0] unfolding norm p by (rule round_pos_ge [OF y0])
  finally show ?thesis .
qed

text \<open>The finite binary64 values: 53-bit integers scaled by a power of two, down to the smallest
  subnormal.\<close>

definition representable :: "rat \<Rightarrow> bool" where
  "representable x \<longleftrightarrow> (\<exists>m k. x = of_int m * 2 powi k \<and> \<bar>m\<bar> \<le> 2 ^ 53 \<and> -1074 \<le> k)"

lemma round_pos_exact_aux:
  assumes "0 < m" "m < 2 ^ 53" "-1074 \<le> k" "x = of_int m * 2 powi k"
  shows "round_pos x = x"
proof -
  have x0: "0 < x" using assms by simp
  have "(of_int m :: rat) < of_int (2 ^ 53)" using assms(2) by (simp only: of_int_less_iff)
  then have "x < of_int (2 ^ 53) * 2 powi k" using assms by simp
  also have "\<dots> = 2 powi (k + 52 + 1)" by (simp add: power_int_add)
  finally have "ilog2 x \<le> k + 52" by (rule ilog2_le [OF x0])
  then have e: "ulp_exp x \<le> k" using assms(3) by (simp add: ulp_exp_def)
  define j where "j = nat (k - ulp_exp x)"
  have "k = ulp_exp x + int j" using e by (simp add: j_def)
  then have k: "(2::rat) powi k = 2 powi ulp_exp x * 2 ^ j"
    by (simp add: power_int_add)
  note assms(4)
  also note k
  also have "of_int m * (2 powi ulp_exp x * 2 ^ j) = (of_int (m * 2 ^ j) * 2 powi ulp_exp x :: rat)"
    by simp
  finally have x: "x = of_int (m * 2 ^ j) * 2 powi ulp_exp x" .
  then have "x / 2 powi ulp_exp x = of_int (m * 2 ^ j)"
    by (metis nonzero_mult_div_cancel_right powi2_pos order_less_irrefl)
  then show ?thesis
    unfolding round_pos_def by (simp only: round_half_even_of_int x [symmetric])
qed

lemma round_pos_exact:
  assumes "0 < x" "representable x"
  shows "round_pos x = x"
proof -
  from assms(2) obtain m k where mk: "x = of_int m * 2 powi k" "\<bar>m\<bar> \<le> 2 ^ 53" "-1074 \<le> k"
    by (auto simp: representable_def)
  then have "0 < (of_int m :: rat)"
    using assms(1) powi2_pos [of k] by (metis zero_less_mult_pos2)
  then have m0: "0 < m" by simp
  show ?thesis
  proof (cases "m = 2 ^ 53")
    case True
    then have "x = of_int (2 ^ 52) * 2 powi (k + 1)" using mk(1) by (simp add: power_int_add)
    then show ?thesis using mk(3) by (intro round_pos_exact_aux [of "2 ^ 52" "k + 1"]) auto
  next
    case False
    with mk m0 show ?thesis by (intro round_pos_exact_aux [of m k]) auto
  qed
qed

lemma round_pos_pos: "0 < x \<Longrightarrow> 0 \<le> round_pos x"
proof -
  assume x: "0 < x"
  then have "0 \<le> round_half_even (x / 2 powi ulp_exp x)"
    by (intro round_half_even_ge) simp
  then show ?thesis by (simp add: round_pos_def)
qed

lemma round_f64_mono: "x \<le> y \<Longrightarrow> round_f64 x \<le> round_f64 y"
proof -
  assume xy: "x \<le> y"
  consider "0 < x" | "x = 0" | "x < 0" "0 \<le> y" | "y < 0" using xy by linarith
  then show ?thesis
  proof cases
    case 1
    with xy show ?thesis by (simp add: round_f64_def round_pos_mono)
  next
    case 2
    with xy round_pos_pos [of y] show ?thesis by (simp add: round_f64_def)
  next
    case 3
    with round_pos_pos [of y] round_pos_pos [of "- x"] show ?thesis by (auto simp: round_f64_def)
  next
    case 4
    with xy round_pos_mono [of "- y" "- x"] show ?thesis by (simp add: round_f64_def)
  qed
qed

lemma representable_uminus [simp]: "representable (- x) = representable x"
proof -
  have "representable (- x)" if "representable x" for x
  proof -
    from that obtain m k where "x = of_int m * 2 powi k" "\<bar>m\<bar> \<le> 2 ^ 53" "-1074 \<le> k"
      by (auto simp: representable_def)
    then show ?thesis
      unfolding representable_def by (intro exI [of _ "- m"] exI [of _ k]) simp
  qed
  from this [of x] this [of "- x"] show ?thesis by auto
qed

lemma round_f64_exact: "representable x \<Longrightarrow> round_f64 x = x"
  using round_pos_exact [of x] round_pos_exact [of "- x"] by (auto simp: round_f64_def)

lemma representable_of_int: "\<bar>m\<bar> \<le> 2 ^ 53 \<Longrightarrow> representable (of_int m)"
  unfolding representable_def by (intro exI [of _ m] exI [of _ 0]) simp

lemma representable_of_nat: "n \<le> 2 ^ 53 \<Longrightarrow> representable (of_nat n)"
  using representable_of_int [of "int n"] by simp

section \<open>The interface of rounding\<close>

text \<open>
  What the components need of floating-point rounding: it is monotone, and exact on a set of values
  closed under negation that holds the integers up to \<open>2 ^ 53\<close>.
\<close>

locale rounding =
  fixes rnd :: "rat \<Rightarrow> rat" and exact :: "rat \<Rightarrow> bool"
  assumes rnd_mono: "x \<le> y \<Longrightarrow> rnd x \<le> rnd y"
    and rnd_exact: "exact x \<Longrightarrow> rnd x = x"
    and exact_int: "\<bar>m\<bar> \<le> 2 ^ 53 \<Longrightarrow> exact (of_int m)"
begin

lemma rnd_le: "exact b \<Longrightarrow> x \<le> b \<Longrightarrow> rnd x \<le> b"
  using rnd_mono rnd_exact by metis

lemma rnd_ge: "exact a \<Longrightarrow> a \<le> x \<Longrightarrow> a \<le> rnd x"
  using rnd_mono rnd_exact by metis

lemma rnd_between: "exact a \<Longrightarrow> exact b \<Longrightarrow> a \<le> x \<Longrightarrow> x \<le> b \<Longrightarrow> a \<le> rnd x \<and> rnd x \<le> b"
  using rnd_le rnd_ge by blast

lemma rnd_int: "\<bar>m\<bar> \<le> 2 ^ 53 \<Longrightarrow> rnd (of_int m) = of_int m"
  by (intro rnd_exact exact_int)

lemma exact_nat: "n \<le> 2 ^ 53 \<Longrightarrow> exact (of_nat n)"
  using exact_int [of "int n"] by simp

lemma exact_0: "exact 0" and exact_1: "exact 1"
  using exact_int [of 0] exact_int [of 1] by simp_all

lemma rnd_ratio:
  assumes "0 \<le> a" "a \<le> b"
  shows "0 \<le> rnd (a / b)" and "rnd (a / b) \<le> 1"
proof -
  have "0 \<le> a / b" "a / b \<le> 1" using assms by (auto simp: divide_le_eq_1)
  then show "0 \<le> rnd (a / b)" and "rnd (a / b) \<le> 1"
    using rnd_between [OF exact_0 exact_1] by auto
qed

text \<open>Moving from one integer towards another by a rounded fraction never leaves the segment.\<close>

lemma rnd_interpolate:
  fixes a b :: nat
  assumes ab: "a \<le> 2 ^ 53" "b \<le> 2 ^ 53" and p: "0 \<le> p" "p \<le> 1"
  defines "v \<equiv> rnd (of_nat a + rnd (rnd (of_nat b - of_nat a) * p))"
  shows "of_nat (min a b) \<le> v" and "v \<le> of_nat (max a b)"
proof -
  have "\<bar>int b - int a\<bar> \<le> 2 ^ 53" using ab by simp
  then have ed: "exact (of_int (int b - int a))" by (rule exact_int)
  have d: "rnd (of_nat b - of_nat a) = of_nat b - of_nat a"
    using rnd_exact [OF ed] by simp
  have ea: "exact (of_nat a)" and eb: "exact (of_nat b)" using ab by (auto intro: exact_nat)
  show "of_nat (min a b) \<le> v" and "v \<le> of_nat (max a b)"
  proof -
    consider "a \<le> b" | "b \<le> a" by linarith
    then have "of_nat (min a b) \<le> v \<and> v \<le> of_nat (max a b)"
    proof cases
      case 1
      then have "0 \<le> (of_nat b - of_nat a :: rat) * p" "(of_nat b - of_nat a) * p \<le> of_nat b - of_nat a"
        using p by (auto simp: mult_le_cancel_left1 mult_left_le)
      with rnd_between [OF exact_0, of "of_nat b - of_nat a"] ed
      have "0 \<le> rnd ((of_nat b - of_nat a) * p)" "rnd ((of_nat b - of_nat a) * p) \<le> of_nat b - of_nat a"
        by auto
      then show ?thesis
        using 1 rnd_between [OF ea eb, of "of_nat a + rnd ((of_nat b - of_nat a) * p)"]
        by (auto simp: v_def d min_def max_def)
    next
      case 2
      then have "(of_nat b - of_nat a :: rat) * p \<le> 0" "of_nat b - of_nat a \<le> (of_nat b - of_nat a) * p"
        using p by (auto simp: mult_le_cancel_left1 mult_le_0_iff)
      with rnd_between [OF _ exact_0, of "of_nat b - of_nat a"] ed
      have "rnd ((of_nat b - of_nat a) * p) \<le> 0" "of_nat b - of_nat a \<le> rnd ((of_nat b - of_nat a) * p)"
        by auto
      then show ?thesis
        using 2 rnd_between [OF eb ea, of "of_nat a + rnd ((of_nat b - of_nat a) * p)"]
        by (auto simp: v_def d min_def max_def)
    qed
    then show "of_nat (min a b) \<le> v" and "v \<le> of_nat (max a b)" by auto
  qed
qed

end

interpretation f64: rounding round_f64 representable
  by unfold_locales (auto intro: round_f64_mono round_f64_exact representable_of_int)

end
