(* ===== verification/Hdr.thy ===== *)
theory Hdr
  imports Latency_Recorder F64
begin

text \<open>
  The \<open>hdrhistogram\<close> crate as a parameter, and what the code reads from it: \<open>LatencyStats\<close> of
  \<open>src/metrics.rs\<close> and \<open>IntervalLatency\<close> of \<open>src/timeseries.rs\<close>. The crate's functions are the fields of
  \<open>hdr\<close>; the laws the components rely on (adding an empty histogram changes nothing, adding a histogram
  adds the values recorded in it, the recorded values are those counted by \<open>len\<close>) are named predicates.

  The locale \<open>mergeable\<close> is the interface of everything a distributed run adds up: parts that were built
  from the empty value by the same steps merge to the value one machine would have built from all steps.
\<close>

section \<open>The crate's functions\<close>

record 'h hdr =
  hdr_new_with_bounds :: "nat \<Rightarrow> nat \<Rightarrow> nat \<Rightarrow> 'h option"
  hdr_record_n :: "nat \<Rightarrow> nat \<Rightarrow> 'h \<Rightarrow> 'h"
  hdr_add :: "'h \<Rightarrow> 'h \<Rightarrow> 'h option"
  hdr_len :: "'h \<Rightarrow> u64"
  hdr_min :: "'h \<Rightarrow> nat"
  hdr_max :: "'h \<Rightarrow> nat"
  hdr_mean :: "'h \<Rightarrow> f64"
  hdr_stdev :: "'h \<Rightarrow> f64"
  hdr_value_at_quantile :: "f64 \<Rightarrow> 'h \<Rightarrow> nat"
  hdr_iter_recorded :: "'h \<Rightarrow> (nat \<times> nat) list"
  hdr_count_between :: "nat \<Rightarrow> nat \<Rightarrow> 'h \<Rightarrow> u64"

definition hdr_is_empty :: "'h hdr \<Rightarrow> 'h \<Rightarrow> bool" where
  "hdr_is_empty H h = (hdr_len H h = 0)"

text \<open>\<open>histogram::latency_histogram\<close>, and \<open>interval_histogram\<close> and \<open>lag_histogram\<close> at one digit less.\<close>

definition latency_histogram :: "'h hdr \<Rightarrow> 'h option" where
  "latency_histogram H = hdr_new_with_bounds H LOWEST_US HIGHEST_US 3"

definition interval_histogram :: "'h hdr \<Rightarrow> 'h option" where
  "interval_histogram H = hdr_new_with_bounds H 1 60000000 2"

definition lag_histogram :: "'h hdr \<Rightarrow> 'h option" where
  "lag_histogram H = hdr_new_with_bounds H 1 60000000 2"

section \<open>Summaries\<close>

record latency_stats =
  ls_count :: u64
  ls_min_us :: nat
  ls_mean_us :: f64
  ls_max_us :: nat
  ls_std_dev_us :: f64
  ls_p50_us :: nat
  ls_p75_us :: nat
  ls_p90_us :: nat
  ls_p95_us :: nat
  ls_p99_us :: nat
  ls_p999_us :: nat
  ls_p9999_us :: nat

definition latency_stats_zero :: latency_stats where
  "latency_stats_zero = \<lparr>ls_count = 0, ls_min_us = 0, ls_mean_us = Num 0, ls_max_us = 0, ls_std_dev_us = Num 0,
     ls_p50_us = 0, ls_p75_us = 0, ls_p90_us = 0, ls_p95_us = 0, ls_p99_us = 0, ls_p999_us = 0, ls_p9999_us = 0\<rparr>"

definition stats_from_histogram :: "'h hdr \<Rightarrow> 'h \<Rightarrow> latency_stats" where
  "stats_from_histogram H hist =
     (if hdr_is_empty H hist then latency_stats_zero
      else \<lparr>ls_count = hdr_len H hist, ls_min_us = hdr_min H hist, ls_mean_us = hdr_mean H hist,
        ls_max_us = hdr_max H hist, ls_std_dev_us = hdr_stdev H hist,
        ls_p50_us = hdr_value_at_quantile H (of_exact (50 / 100)) hist,
        ls_p75_us = hdr_value_at_quantile H (of_exact (75 / 100)) hist,
        ls_p90_us = hdr_value_at_quantile H (of_exact (90 / 100)) hist,
        ls_p95_us = hdr_value_at_quantile H (of_exact (95 / 100)) hist,
        ls_p99_us = hdr_value_at_quantile H (of_exact (99 / 100)) hist,
        ls_p999_us = hdr_value_at_quantile H (of_exact (999 / 1000)) hist,
        ls_p9999_us = hdr_value_at_quantile H (of_exact (9999 / 10000)) hist\<rparr>)"

record interval_latency =
  il_count :: u64
  il_p50_us :: nat
  il_p90_us :: nat
  il_p99_us :: nat
  il_max_us :: nat

definition interval_latency_zero :: interval_latency where
  "interval_latency_zero = \<lparr>il_count = 0, il_p50_us = 0, il_p90_us = 0, il_p99_us = 0, il_max_us = 0\<rparr>"

definition interval_latency_from :: "'h hdr \<Rightarrow> 'h option \<Rightarrow> interval_latency" where
  "interval_latency_from H hist =
     (case hist of
        None \<Rightarrow> interval_latency_zero
      | Some hist \<Rightarrow>
          (if hdr_is_empty H hist then interval_latency_zero
           else \<lparr>il_count = hdr_len H hist,
             il_p50_us = hdr_value_at_quantile H (of_exact (50 / 100)) hist,
             il_p90_us = hdr_value_at_quantile H (of_exact (90 / 100)) hist,
             il_p99_us = hdr_value_at_quantile H (of_exact (99 / 100)) hist, il_max_us = hdr_max H hist\<rparr>))"

section \<open>Merging parts\<close>

text \<open>Merging the parts into \<open>a\<close> one after the other, stopping at the first that cannot be merged.\<close>

fun merge_all :: "('t \<Rightarrow> 't \<Rightarrow> 't option) \<Rightarrow> 't list \<Rightarrow> 't \<Rightarrow> 't option" where
  "merge_all merge [] a = Some a"
| "merge_all merge (b # bs) a = (case merge a b of None \<Rightarrow> None | Some c \<Rightarrow> merge_all merge bs c)"

locale mergeable =
  fixes ok :: "'t \<Rightarrow> bool" and empty :: "'t \<Rightarrow> bool" and step :: "'s \<Rightarrow> 't \<Rightarrow> 't"
    and merge :: "'t \<Rightarrow> 't \<Rightarrow> 't option"
  assumes ok_empty: "empty z \<Longrightarrow> ok z"
    and ok_step: "ok a \<Longrightarrow> ok (step x a)"
    and merge_empty: "ok a \<Longrightarrow> empty z \<Longrightarrow> merge a z = Some a"
    and merge_step: "ok a \<Longrightarrow> ok b \<Longrightarrow> merge a b = Some c \<Longrightarrow> merge a (step x b) = Some (step x c)"
begin

lemma ok_run: "ok a \<Longrightarrow> ok (fold step xs a)"
  by (induction xs arbitrary: a) (simp_all add: ok_step)

lemma merge_run:
  assumes "ok a" "empty z"
  shows "merge a (fold step xs z) = Some (fold step xs a)"
proof (induction xs rule: rev_induct)
  case (snoc x xs)
  have "ok (fold step xs z)" using assms(2) by (intro ok_run ok_empty)
  with snoc assms(1) show ?case by (simp add: merge_step)
qed (simp add: assms merge_empty)

lemma merge_runs:
  "ok a \<Longrightarrow> empty z \<Longrightarrow>
   merge_all merge (map (\<lambda>xs. fold step xs z) xss) a = Some (fold step (concat xss) a)"
  by (induction xss arbitrary: a) (simp_all add: merge_run ok_run)

end

section \<open>The law of adding histograms\<close>

text \<open>Histograms made by \<open>new_with_bounds\<close> at \<open>sigfig\<close> digits and filled by recording values.\<close>

inductive hdr_built :: "'h hdr \<Rightarrow> nat \<Rightarrow> 'h \<Rightarrow> bool" for H sigfig where
  built_new: "hdr_new_with_bounds H 1 60000000 sigfig = Some h \<Longrightarrow> hdr_built H sigfig h"
| built_record: "hdr_built H sigfig h \<Longrightarrow> hdr_built H sigfig (hdr_record_n H v n h)"

definition hdr_add_law :: "'h hdr \<Rightarrow> nat \<Rightarrow> bool" where
  "hdr_add_law H sigfig \<longleftrightarrow>
     (\<forall>a e. hdr_built H sigfig a \<longrightarrow> hdr_new_with_bounds H 1 60000000 sigfig = Some e \<longrightarrow> hdr_add H a e = Some a) \<and>
     (\<forall>a b c v n. hdr_built H sigfig a \<longrightarrow> hdr_built H sigfig b \<longrightarrow> hdr_add H a b = Some c \<longrightarrow>
        hdr_add H a (hdr_record_n H v n b) = Some (hdr_record_n H v n c))"

definition hdr_ok :: "'h hdr \<Rightarrow> nat \<Rightarrow> 'h \<Rightarrow> bool" where
  "hdr_ok H sigfig h \<longleftrightarrow> hdr_add_law H sigfig \<and> hdr_built H sigfig h"

definition hdr_fresh :: "'h hdr \<Rightarrow> nat \<Rightarrow> 'h \<Rightarrow> bool" where
  "hdr_fresh H sigfig h \<longleftrightarrow> hdr_add_law H sigfig \<and> hdr_new_with_bounds H 1 60000000 sigfig = Some h"

definition hdr_record_at :: "'h hdr \<Rightarrow> nat \<times> nat \<Rightarrow> 'h \<Rightarrow> 'h" where
  "hdr_record_at H e h = hdr_record_n H (fst e) (snd e) h"

interpretation hist: mergeable "hdr_ok H sigfig" "hdr_fresh H sigfig" "hdr_record_at H" "hdr_add H" for H sigfig
  by unfold_locales
    (auto simp: hdr_ok_def hdr_fresh_def hdr_record_at_def hdr_add_law_def intro: hdr_built.intros)

text \<open>Draining a shared recorder is a sequence of recordings.\<close>

fun counts_recorded :: "nat \<Rightarrow> nat list \<Rightarrow> (nat \<times> nat) list" where
  "counts_recorded index [] = []"
| "counts_recorded index (n # counts) =
     (if n > 0 then [(value_at index, n)] else []) @ counts_recorded (index + 1) counts"

definition shards_recorded :: "nat list option list \<Rightarrow> (nat \<times> nat) list" where
  "shards_recorded ss = concat (map (\<lambda>s. case s of None \<Rightarrow> [] | Some counts \<Rightarrow> counts_recorded 0 counts) ss)"

lemma add_counts_to_fold:
  "add_counts_to (hdr_record_n H) index counts h = fold (hdr_record_at H) (counts_recorded index counts) h"
  by (induction counts arbitrary: index h) (simp_all add: hdr_record_at_def)

lemma ah_add_to_fold:
  "ah_add_to (hdr_record_n H) h hist = fold (hdr_record_at H) (shards_recorded (shards h)) hist"
proof -
  have "add_shards_to (hdr_record_n H) ss hist = fold (hdr_record_at H) (shards_recorded ss) hist" for ss
    by (induction "hdr_record_n H" ss hist rule: add_shards_to.induct)
      (simp_all add: shards_recorded_def add_counts_to_fold)
  then show ?thesis by (simp add: ah_add_to_def)
qed

lemma hdr_ok_drain: "hdr_ok H sigfig h \<Longrightarrow> hdr_ok H sigfig (ah_add_to (hdr_record_n H) r h)"
  by (simp add: ah_add_to_fold hist.ok_run)

lemma hdr_add_records:
  "hdr_ok H sigfig a \<Longrightarrow> hdr_ok H sigfig b \<Longrightarrow> hdr_add H a b = Some c \<Longrightarrow>
   hdr_add H a (fold (hdr_record_at H) es b) = Some (fold (hdr_record_at H) es c)"
proof (induction es rule: rev_induct)
  case (snoc e es)
  then show ?case using hist.merge_step [of H sigfig a "fold (hdr_record_at H) es b"] by (simp add: hist.ok_run)
qed simp

lemma hdr_add_drain:
  "hdr_ok H sigfig a \<Longrightarrow> hdr_ok H sigfig b \<Longrightarrow> hdr_add H a b = Some c \<Longrightarrow>
   hdr_add H a (ah_add_to (hdr_record_n H) r b) = Some (ah_add_to (hdr_record_n H) r c)"
  by (simp add: ah_add_to_fold hdr_add_records)

section \<open>Histograms that keep every value\<close>

text \<open>The functions of the crate on the multiset of recorded values, which satisfy the laws.\<close>

definition values_hdr :: "nat multiset hdr" where
  "values_hdr = \<lparr>hdr_new_with_bounds = \<lambda>_ _ _. Some {#}, hdr_record_n = \<lambda>v n M. M + replicate_mset n v,
     hdr_add = \<lambda>M N. Some (M + N), hdr_len = \<lambda>M. word_of_nat (size M),
     hdr_min = \<lambda>M. Min (set_mset M), hdr_max = \<lambda>M. Max (set_mset M),
     hdr_mean = \<lambda>M. f64_div (of_uint (sum_mset M)) (of_uint (size M)), hdr_stdev = \<lambda>M. Num 0,
     hdr_value_at_quantile = \<lambda>q M. (case q of
         Num r \<Rightarrow> sorted_list_of_multiset M ! (nat \<lceil>r * of_nat (size M)\<rceil> - 1) | _ \<Rightarrow> 0),
     hdr_iter_recorded = \<lambda>M. map (\<lambda>v. (v, count M v)) (sorted_list_of_set (set_mset M)),
     hdr_count_between = \<lambda>lo hi M. word_of_nat (size (filter_mset (\<lambda>v. lo \<le> v \<and> v \<le> hi) M))\<rparr>"

lemma values_hdr_simps [simp]:
  "hdr_new_with_bounds values_hdr lo hi s = Some {#}"
  "hdr_record_n values_hdr v n M = M + replicate_mset n v"
  "hdr_add values_hdr M N = Some (M + N)"
  "hdr_len values_hdr M = word_of_nat (size M)"
  by (simp_all add: values_hdr_def)

lemma values_hdr_law: "hdr_add_law values_hdr sigfig"
  by (simp add: hdr_add_law_def)

lemma of_exact_half: "of_exact (1 / 2) = Num (1 / 2)"
proof -
  have "representable (1 / 2)" unfolding representable_def by (intro exI [of _ 1] exI [of _ "- 1"]) simp
  moreover have "(2::rat) powi 0 < 2 powi 1024" by (simp only: powi2_less_iff)
  then have "1 < f64_max_exclusive" by (simp only: f64_max_exclusive_def power_int_0_right)
  then have "\<not> f64_max_exclusive \<le> 1 / 2" "\<not> 1 / 2 \<le> - f64_max_exclusive" by linarith+
  ultimately show ?thesis by (simp only: of_exact_def Let_def round_f64_exact if_False)
qed

end
