(* ===== verification/Time_Series.thy ===== *)
theory Time_Series
  imports Live_Metrics Hdr "HOL-Library.Finite_Map"
begin

text \<open>
  The time series of a run, \<open>src/timeseries.rs\<close>: the samples the counter sampler takes
  (\<open>CounterSampler::finish\<close>), the points built from them (\<open>TimeSeries::build\<close>), appending the series of a
  later phase (\<open>append\<close>), merging the series of machines that ran at the same time (\<open>merge_parallel\<close>) and
  the state the live readers see (\<open>LiveIntervals\<close>). The latency histograms of a \<open>BTreeMap\<close> are an
  \<open>fmap\<close>, iterated in key order; the stores of phases are found by address, as their \<open>Arc\<close> is shared with
  the workers.
\<close>

section \<open>Points\<close>

definition saturating_sub :: "u64 \<Rightarrow> u64 \<Rightarrow> u64" where
  "saturating_sub a b = (if b \<le> a then a - b else 0)"

record interval_lag =
  ilag_samples :: u64
  ilag_p99_us :: nat
  ilag_max_us :: nat

record series_point =
  tp_start_secs :: f64
  tp_duration_secs :: f64
  tp_active :: u64
  tp_messages_sent :: u64
  tp_messages_recv :: u64
  tp_bytes_sent :: u64
  tp_bytes_recv :: u64
  tp_errors :: u64
  tp_throughput :: f64
  tp_latency :: interval_latency
  tp_generator_lag :: "interval_lag option"

record time_series =
  ts_interval_secs :: f64
  ts_latency_basis :: string
  ts_points :: "series_point list"

definition series_default :: time_series where
  "series_default = \<lparr>ts_interval_secs = Num 0, ts_latency_basis = [], ts_points = []\<rparr>"

definition point_default :: series_point where
  "point_default = \<lparr>tp_start_secs = Num 0, tp_duration_secs = Num 0, tp_active = 0, tp_messages_sent = 0,
     tp_messages_recv = 0, tp_bytes_sent = 0, tp_bytes_recv = 0, tp_errors = 0, tp_throughput = Num 0,
     tp_latency = interval_latency_zero, tp_generator_lag = None\<rparr>"

section \<open>Building a series\<close>

text \<open>\<open>CounterSampler::finish\<close>: the last sample, stamped with the end of the run.\<close>

type_synonym sample = "duration \<times> live_snapshot"

definition sampler_finish :: "duration \<Rightarrow> live_snapshot \<Rightarrow> sample list \<Rightarrow> sample list" where
  "sampler_finish end snap samples =
     (let end = (if samples = [] then end else max end (fst (List.last samples)))
      in samples @ [(end, snap)])"

text \<open>\<open>messages.max() as f64 / secs.max(0.0001)\<close>.\<close>

definition point_rate :: "u64 \<Rightarrow> u64 \<Rightarrow> f64 \<Rightarrow> f64" where
  "point_rate sent recv secs = f64_div (of_uint (unat (max sent recv))) (f64_max secs (of_exact (1 / 10000)))"

definition point_between :: "'h hdr \<Rightarrow> 'h interval_store \<Rightarrow> sample \<Rightarrow> sample \<Rightarrow> series_point" where
  "point_between H store prev now =
     (let duration = fst now - fst prev;
          sent = saturating_sub (cs_messages_sent (snd now)) (cs_messages_sent (snd prev));
          recv = saturating_sub (cs_messages_received (snd now)) (cs_messages_received (snd prev));
          interval_nanos = max (is_interval store) 1
      in \<lparr>tp_start_secs = as_secs_f64 (fst prev), tp_duration_secs = as_secs_f64 duration,
          tp_active = cs_active (snd now), tp_messages_sent = sent, tp_messages_recv = recv,
          tp_bytes_sent = saturating_sub (cs_bytes_sent (snd now)) (cs_bytes_sent (snd prev)),
          tp_bytes_recv = saturating_sub (cs_bytes_received (snd now)) (cs_bytes_received (snd prev)),
          tp_errors = saturating_sub (cs_total_errors (snd now)) (cs_total_errors (snd prev)),
          tp_throughput = point_rate sent recv (as_secs_f64 duration),
          tp_latency = interval_latency_from H (is_buckets store ((fst prev div interval_nanos) mod 2 ^ 64)),
          tp_generator_lag = None\<rparr>)"

text \<open>The loop of \<open>build\<close>; a sample no later than the previous one is skipped.\<close>

fun build_points :: "'h hdr \<Rightarrow> 'h interval_store \<Rightarrow> sample \<Rightarrow> sample list \<Rightarrow> series_point list" where
  "build_points H store prev [] = []"
| "build_points H store prev (now # rest) =
     (if fst now \<le> fst prev then build_points H store prev rest
      else point_between H store prev now # build_points H store now rest)"

text \<open>A tail shorter than a twentieth of an interval is folded into the point before it.\<close>

definition fold_tail :: "series_point \<Rightarrow> series_point \<Rightarrow> series_point" where
  "fold_tail prev tail =
     (let sent = tp_messages_sent prev + tp_messages_sent tail;
          recv = tp_messages_recv prev + tp_messages_recv tail;
          secs = f64_add (tp_duration_secs prev) (tp_duration_secs tail)
      in prev\<lparr>tp_duration_secs := secs, tp_active := tp_active tail, tp_messages_sent := sent,
           tp_messages_recv := recv, tp_bytes_sent := tp_bytes_sent prev + tp_bytes_sent tail,
           tp_bytes_recv := tp_bytes_recv prev + tp_bytes_recv tail, tp_errors := tp_errors prev + tp_errors tail,
           tp_throughput := point_rate sent recv secs\<rparr>)"

fun fold_sliver :: "f64 \<Rightarrow> series_point list \<Rightarrow> series_point list" where
  "fold_sliver interval [] = []"
| "fold_sliver interval [p] = [p]"
| "fold_sliver interval [p, q] =
     (if f64_lt (tp_duration_secs q) (f64_div interval (Num 20)) then [fold_tail p q] else [p, q])"
| "fold_sliver interval (p # q # r # ps) = p # fold_sliver interval (q # r # ps)"

fun series_build :: "'h hdr \<Rightarrow> sample list \<Rightarrow> 'h interval_store \<Rightarrow> string \<Rightarrow> time_series" where
  "series_build H [] store basis = series_default"
| "series_build H (first # rest) store basis =
     \<lparr>ts_interval_secs = as_secs_f64 (is_interval store), ts_latency_basis = basis,
      ts_points = fold_sliver (as_secs_f64 (is_interval store)) (build_points H store first rest)\<rparr>"

definition series_append :: "time_series \<Rightarrow> duration \<Rightarrow> time_series \<Rightarrow> time_series" where
  "series_append next offset s =
     (let s = (if ts_points s = [] then s\<lparr>ts_interval_secs := ts_interval_secs next, ts_latency_basis := ts_latency_basis next\<rparr>
               else if ts_latency_basis s \<noteq> ts_latency_basis next then s\<lparr>ts_latency_basis := ''mixed''\<rparr>
               else s)
      in s\<lparr>ts_points := ts_points s @
           map (\<lambda>p. p\<lparr>tp_start_secs := f64_add (tp_start_secs p) (as_secs_f64 offset)\<rparr>) (ts_points next)\<rparr>)"

section \<open>Merging machines\<close>

record 'h series_part =
  sp_series :: time_series
  sp_buckets :: "(nat, 'h) fmap"

definition index_at :: "f64 \<Rightarrow> f64 \<Rightarrow> nat" where
  "index_at interval start =
     (if f64_lt (Num 0) interval then f64_to_u64 (f64_max (f64_round (f64_div start interval)) (Num 0)) else 0)"

definition worse_lag :: "interval_lag option \<Rightarrow> interval_lag option \<Rightarrow> interval_lag option" where
  "worse_lag new worst =
     (case new of
        None \<Rightarrow> worst
      | Some lag \<Rightarrow>
          (case worst of
             None \<Rightarrow> Some lag
           | Some w \<Rightarrow>
               (if ilag_p99_us w < ilag_p99_us lag \<or>
                   ilag_p99_us w = ilag_p99_us lag \<and> ilag_max_us w < ilag_max_us lag
                then Some lag else Some w)))"

definition merge_point :: "series_point \<Rightarrow> series_point \<Rightarrow> series_point" where
  "merge_point p m =
     m\<lparr>tp_start_secs := f64_min (tp_start_secs m) (tp_start_secs p),
       tp_duration_secs := f64_max (tp_duration_secs m) (tp_duration_secs p),
       tp_active := tp_active m + tp_active p, tp_messages_sent := tp_messages_sent m + tp_messages_sent p,
       tp_messages_recv := tp_messages_recv m + tp_messages_recv p, tp_bytes_sent := tp_bytes_sent m + tp_bytes_sent p,
       tp_bytes_recv := tp_bytes_recv m + tp_bytes_recv p, tp_errors := tp_errors m + tp_errors p,
       tp_generator_lag := worse_lag (tp_generator_lag p) (tp_generator_lag m)\<rparr>"

definition add_point :: "f64 \<Rightarrow> series_point \<Rightarrow> (nat, series_point) fmap \<Rightarrow> (nat, series_point) fmap" where
  "add_point interval p points =
     (let i = index_at interval (tp_start_secs p);
          m = (case fmlookup points i of None \<Rightarrow> point_default\<lparr>tp_start_secs := tp_start_secs p\<rparr> | Some m \<Rightarrow> m)
      in fmupd i (merge_point p m) points)"

text \<open>A histogram that cannot be added leaves the interval's as it is.\<close>

definition add_bucket :: "'h hdr \<Rightarrow> (nat, 'h) fmap \<Rightarrow> nat \<Rightarrow> (nat, 'h) fmap \<Rightarrow> (nat, 'h) fmap" where
  "add_bucket H buckets b hists =
     (case fmlookup buckets b of
        None \<Rightarrow> hists
      | Some h \<Rightarrow>
          (case fmlookup hists b of
             None \<Rightarrow> fmupd b h hists
           | Some old \<Rightarrow> (case hdr_add H old h of None \<Rightarrow> hists | Some h \<Rightarrow> fmupd b h hists)))"

definition merge_part ::
    "'h hdr \<Rightarrow> f64 \<Rightarrow> 'h series_part \<Rightarrow> (nat, series_point) fmap \<times> (nat, 'h) fmap
     \<Rightarrow> (nat, series_point) fmap \<times> (nat, 'h) fmap" where
  "merge_part H interval part acc =
     (fold (add_point interval) (ts_points (sp_series part)) (fst acc),
      fold (add_bucket H (sp_buckets part)) (sorted_list_of_fset (fmdom (sp_buckets part))) (snd acc))"

definition finish_point :: "'h hdr \<Rightarrow> (nat, 'h) fmap \<Rightarrow> nat \<Rightarrow> series_point \<Rightarrow> series_point" where
  "finish_point H hists index p =
     p\<lparr>tp_throughput := point_rate (tp_messages_sent p) (tp_messages_recv p) (tp_duration_secs p),
       tp_latency := interval_latency_from H (fmlookup hists index)\<rparr>"

definition merge_parallel :: "'h hdr \<Rightarrow> 'h series_part list \<Rightarrow> time_series" where
  "merge_parallel H parts =
     (case find (\<lambda>part. ts_points (sp_series part) \<noteq> []) parts of
        None \<Rightarrow> (case parts of [] \<Rightarrow> series_default | part # _ \<Rightarrow> sp_series part)
      | Some first \<Rightarrow>
          (let interval = ts_interval_secs (sp_series first);
               (points, hists) = fold (merge_part H interval) parts (fmempty, fmempty)
           in \<lparr>ts_interval_secs = interval, ts_latency_basis = ts_latency_basis (sp_series first),
               ts_points = map (\<lambda>i. finish_point H hists i (the (fmlookup points i)))
                 (sorted_list_of_fset (fmdom points))\<rparr>))"

section \<open>What live readers see\<close>

record live_phase =
  lp_store :: nat
  lp_basis :: string
  lp_ended :: "duration option"
  lp_seq :: nat

record remote_phase =
  rp_start :: instant
  rp_interval :: duration
  rp_basis :: string
  rp_ended :: "duration option"
  rp_seq :: nat
  rp_latest :: "(nat \<times> interval_latency) option"

record live_state =
  lv_run_start :: "instant option"
  lv_finished :: "duration option"
  lv_phase :: "live_phase option"
  lv_phases_begun :: nat
  lv_remote :: "remote_phase option"

definition live_state_new :: live_state where
  "live_state_new = \<lparr>lv_run_start = None, lv_finished = None, lv_phase = None, lv_phases_begun = 0, lv_remote = None\<rparr>"

definition get_or_insert :: "'a \<Rightarrow> 'a option \<Rightarrow> 'a option" where
  "get_or_insert a x = (case x of None \<Rightarrow> Some a | Some b \<Rightarrow> Some b)"

text \<open>\<open>stores\<close> finds an interval store by its address.\<close>

definition begin_phase :: "(nat \<Rightarrow> 'h interval_store) \<Rightarrow> nat \<Rightarrow> string \<Rightarrow> live_state \<Rightarrow> live_state" where
  "begin_phase stores store basis s =
     s\<lparr>lv_run_start := get_or_insert (is_start (stores store)) (lv_run_start s),
       lv_phases_begun := lv_phases_begun s + 1, lv_remote := None,
       lv_phase := Some \<lparr>lp_store = store, lp_basis = basis, lp_ended = None, lp_seq = lv_phases_begun s\<rparr>\<rparr>"

definition end_phase :: "duration \<Rightarrow> live_state \<Rightarrow> live_state" where
  "end_phase elapsed s =
     s\<lparr>lv_remote := map_option (\<lambda>r. r\<lparr>rp_ended := Some elapsed\<rparr>) (lv_remote s),
       lv_phase := map_option (\<lambda>p. p\<lparr>lp_ended := Some elapsed\<rparr>) (lv_phase s)\<rparr>"

definition begin_remote_phase :: "instant \<Rightarrow> duration \<Rightarrow> string \<Rightarrow> live_state \<Rightarrow> live_state" where
  "begin_remote_phase start interval basis s =
     s\<lparr>lv_run_start := get_or_insert start (lv_run_start s), lv_phases_begun := lv_phases_begun s + 1,
       lv_phase := None,
       lv_remote := Some \<lparr>rp_start = start, rp_interval = interval, rp_basis = basis, rp_ended = None,
         rp_seq = lv_phases_begun s, rp_latest = None\<rparr>\<rparr>"

definition publish_remote :: "nat \<Rightarrow> interval_latency \<Rightarrow> live_state \<Rightarrow> live_state" where
  "publish_remote index lat s =
     s\<lparr>lv_remote := map_option (\<lambda>r. r\<lparr>rp_latest := Some (index, lat)\<rparr>) (lv_remote s)\<rparr>"

definition live_finish :: "instant \<Rightarrow> live_state \<Rightarrow> live_state" where
  "live_finish now s =
     (if lv_finished s = None
      then s\<lparr>lv_finished := Some (case lv_run_start s of None \<Rightarrow> 0 | Some start \<Rightarrow> now - start)\<rparr> else s)"

definition live_elapsed :: "instant \<Rightarrow> live_state \<Rightarrow> duration" where
  "live_elapsed now s =
     (case lv_finished s of
        Some d \<Rightarrow> d
      | None \<Rightarrow> (case lv_run_start s of None \<Rightarrow> 0 | Some start \<Rightarrow> now - start))"

record phase_clock =
  pc_seq :: nat
  pc_elapsed :: duration
  pc_ended :: bool
  pc_interval :: duration
  pc_basis :: string

definition live_phase_clock :: "(nat \<Rightarrow> 'h interval_store) \<Rightarrow> instant \<Rightarrow> live_state \<Rightarrow> phase_clock option" where
  "live_phase_clock stores now s =
     (case lv_remote s of
        Some r \<Rightarrow> Some \<lparr>pc_seq = rp_seq r,
          pc_elapsed = (case rp_ended r of Some d \<Rightarrow> d | None \<Rightarrow> now - rp_start r),
          pc_ended = (rp_ended r \<noteq> None), pc_interval = rp_interval r, pc_basis = rp_basis r\<rparr>
      | None \<Rightarrow>
          map_option (\<lambda>p. \<lparr>pc_seq = lp_seq p,
            pc_elapsed = (case lp_ended p of Some d \<Rightarrow> d | None \<Rightarrow> now - is_start (stores (lp_store p))),
            pc_ended = (lp_ended p \<noteq> None), pc_interval = is_interval (stores (lp_store p)),
            pc_basis = lp_basis p\<rparr>) (lv_phase s))"

definition last_completed :: "duration \<Rightarrow> duration \<Rightarrow> nat option" where
  "last_completed since_start interval =
     (let index = since_start div max interval 1
      in if index \<le> u64_max \<and> 0 < index then Some (index - 1) else None)"

record completed_interval =
  ci_phase :: nat
  ci_index :: nat
  ci_basis :: string
  ci_latency :: interval_latency

definition latency_of :: "'h hdr \<Rightarrow> 'h interval_store \<Rightarrow> nat \<Rightarrow> interval_latency" where
  "latency_of H store bucket = interval_latency_from H (is_buckets store bucket)"

definition live_last_completed ::
    "'h hdr \<Rightarrow> (nat \<Rightarrow> 'h interval_store) \<Rightarrow> instant \<Rightarrow> live_state \<Rightarrow> completed_interval option" where
  "live_last_completed H stores now s =
     (case lv_remote s of
        Some r \<Rightarrow>
          map_option (\<lambda>(index, lat). \<lparr>ci_phase = rp_seq r, ci_index = index, ci_basis = rp_basis r,
            ci_latency = lat\<rparr>) (rp_latest r)
      | None \<Rightarrow>
          (case lv_phase s of
             None \<Rightarrow> None
           | Some p \<Rightarrow>
               (let store = stores (lp_store p);
                    since_start = (case lp_ended p of Some d \<Rightarrow> d | None \<Rightarrow> now - is_start store)
                in map_option (\<lambda>index. \<lparr>ci_phase = lp_seq p, ci_index = index, ci_basis = lp_basis p,
                     ci_latency = latency_of H store index\<rparr>) (last_completed since_start (is_interval store)))))"

section \<open>What a series accounts for\<close>

text \<open>The counters a point reports and the snapshot counters they come from.\<close>

datatype series_counter = P_sent | P_recv | P_bytes_sent | P_bytes_recv | P_errors

fun point_counter :: "series_counter \<Rightarrow> series_point \<Rightarrow> u64" where
  "point_counter P_sent p = tp_messages_sent p"
| "point_counter P_recv p = tp_messages_recv p"
| "point_counter P_bytes_sent p = tp_bytes_sent p"
| "point_counter P_bytes_recv p = tp_bytes_recv p"
| "point_counter P_errors p = tp_errors p"

fun snap_counter :: "series_counter \<Rightarrow> live_snapshot \<Rightarrow> u64" where
  "snap_counter P_sent s = cs_messages_sent s"
| "snap_counter P_recv s = cs_messages_received s"
| "snap_counter P_bytes_sent s = cs_bytes_sent s"
| "snap_counter P_bytes_recv s = cs_bytes_received s"
| "snap_counter P_errors s = cs_total_errors s"

definition series_total :: "series_counter \<Rightarrow> time_series \<Rightarrow> u64" where
  "series_total c s = (\<Sum>p\<leftarrow>ts_points s. point_counter c p)"

lemma point_between_counter:
  "snap_counter c (snd prev) \<le> snap_counter c (snd now) \<Longrightarrow>
   point_counter c (point_between H store prev now) = snap_counter c (snd now) - snap_counter c (snd prev)"
  by (cases c) (simp_all add: point_between_def Let_def saturating_sub_def)

lemma build_points_total:
  assumes "sorted_wrt (\<lambda>a b. fst a < fst b \<and> snap_counter c (snd a) \<le> snap_counter c (snd b)) (prev # rest)"
  shows "(\<Sum>p\<leftarrow>build_points H store prev rest. point_counter c p) =
    snap_counter c (snd (List.last (prev # rest))) - snap_counter c (snd prev)"
  using assms
  by (induction H store prev rest rule: build_points.induct) (simp_all add: point_between_counter)

lemma fold_tail_counter: "point_counter c (fold_tail p q) = point_counter c p + point_counter c q"
  by (cases c) (simp_all add: fold_tail_def Let_def)

lemma fold_sliver_total:
  "(\<Sum>p\<leftarrow>fold_sliver interval ps. point_counter c p) = (\<Sum>p\<leftarrow>ps. point_counter c p)"
  by (induction interval ps rule: fold_sliver.induct) (simp_all add: fold_tail_counter)

lemma merge_point_counter: "point_counter c (merge_point p m) = point_counter c m + point_counter c p"
  by (cases c) (simp_all add: merge_point_def)

lemma finish_point_counter [simp]: "point_counter c (finish_point H hists i p) = point_counter c p"
  by (cases c) (simp_all add: finish_point_def)

definition points_total :: "series_counter \<Rightarrow> (nat, series_point) fmap \<Rightarrow> u64" where
  "points_total c m = (\<Sum>i\<leftarrow>sorted_list_of_fset (fmdom m). point_counter c (the (fmlookup m i)))"

lemma points_total_sum: "points_total c m = (\<Sum>i\<in>fset (fmdom m). point_counter c (the (fmlookup m i)))"
  by (simp add: points_total_def sorted_list_of_fset.rep_eq sum_list_distinct_conv_sum_set)

lemma points_total_upd:
  "points_total c (fmupd i p m) =
   points_total c m - (case fmlookup m i of None \<Rightarrow> 0 | Some q \<Rightarrow> point_counter c q) + point_counter c p"
proof -
  let ?rest = "\<Sum>j\<in>fset (fmdom m) - {i}. point_counter c (the (fmlookup m j))"
  have "points_total c (fmupd i p m) = point_counter c p + ?rest"
    by (simp add: points_total_sum sum.insert_remove)
  moreover have "points_total c m = (case fmlookup m i of None \<Rightarrow> 0 | Some q \<Rightarrow> point_counter c q) + ?rest"
  proof (cases "fmlookup m i")
    case None
    then have "i \<notin> fset (fmdom m)" by (simp add: fmlookup_dom_iff)
    with None show ?thesis by (simp add: points_total_sum)
  next
    case (Some q)
    then have "i \<in> fset (fmdom m)" by (simp add: fmlookup_dom_iff)
    with Some show ?thesis by (simp add: points_total_sum sum.remove)
  qed
  ultimately show ?thesis by simp
qed

lemma add_point_total: "points_total c (add_point interval p m) = points_total c m + point_counter c p"
  by (cases c)
    (simp_all add: add_point_def Let_def points_total_upd merge_point_counter point_default_def split: option.split)

lemma add_points_total:
  "points_total c (fold (add_point interval) ps m) = points_total c m + (\<Sum>p\<leftarrow>ps. point_counter c p)"
  by (induction ps arbitrary: m) (simp_all add: add_point_total)

lemma merge_parts_total:
  "points_total c (fst (fold (merge_part H interval) parts acc)) =
   points_total c (fst acc) + (\<Sum>part\<leftarrow>parts. series_total c (sp_series part))"
  by (induction parts arbitrary: acc) (simp_all add: merge_part_def add_points_total series_total_def)

section \<open>The live readers' state\<close>

text \<open>The states the runner and the coordinator lead the live readers through.\<close>

inductive live_reachable :: "(nat \<Rightarrow> 'h interval_store) \<Rightarrow> live_state \<Rightarrow> bool" for stores where
  live_start: "live_reachable stores live_state_new"
| live_begin: "live_reachable stores s \<Longrightarrow> live_reachable stores (begin_phase stores store basis s)"
| live_end: "live_reachable stores s \<Longrightarrow> live_reachable stores (end_phase elapsed s)"
| live_begin_remote: "live_reachable stores s \<Longrightarrow> live_reachable stores (begin_remote_phase start interval basis s)"
| live_publish: "live_reachable stores s \<Longrightarrow> live_reachable stores (publish_remote index lat s)"
| live_done: "live_reachable stores s \<Longrightarrow> live_reachable stores (live_finish now s)"

text \<open>At most one phase is current, it is the last one begun, and the run's clock started with the first.\<close>

definition live_state_ok :: "live_state \<Rightarrow> bool" where
  "live_state_ok s \<longleftrightarrow>
     (lv_phase s = None \<or> lv_remote s = None) \<and>
     (\<forall>p. lv_phase s = Some p \<longrightarrow> lp_seq p + 1 = lv_phases_begun s) \<and>
     (\<forall>r. lv_remote s = Some r \<longrightarrow> rp_seq r + 1 = lv_phases_begun s) \<and>
     (lv_run_start s = None \<longleftrightarrow> lv_phases_begun s = 0) \<and>
     (lv_phases_begun s = 0 \<longleftrightarrow> lv_phase s = None \<and> lv_remote s = None)"

lemmas live_op_defs = begin_phase_def end_phase_def begin_remote_phase_def publish_remote_def live_finish_def
  live_state_new_def get_or_insert_def

lemma live_reachable_ok: "live_reachable stores s \<Longrightarrow> live_state_ok s"
  by (induction rule: live_reachable.induct)
    (auto simp: live_state_ok_def live_op_defs split: option.splits)

lemma last_completed_Some:
  assumes "last_completed d interval = Some i"
  shows "(i + 1) * max interval 1 \<le> d \<and> d < (i + 2) * max interval 1"
proof -
  let ?m = "max interval 1"
  have i: "d div ?m = i + 1" using assms by (auto simp: last_completed_def Let_def split: if_splits)
  have "d = (i + 1) * ?m + d mod ?m" using div_mult_mod_eq [of d ?m] by (simp only: i)
  moreover have "d mod ?m < ?m" by (rule mod_less_divisor) simp
  ultimately show ?thesis by (simp only: add_mult_distrib) linarith
qed

section \<open>Properties\<close>

text \<open>A run's time series accounts for everything the run counted. When the samples are taken at increasing
  times and a counter only grows, the points of the series add up, for messages and bytes in both
  directions and errors, to what was counted between the first and the last sample, with a short
  last interval folded into the one before it.\<close>

theorem series_accounts_for_run:
  assumes "samples \<noteq> []"
    "sorted_wrt (\<lambda>a b. fst a < fst b \<and> snap_counter c (snd a) \<le> snap_counter c (snd b)) samples"
  shows "series_total c (series_build H samples store basis) =
    snap_counter c (snd (List.last samples)) - snap_counter c (snd (hd samples))"
  using assms by (cases samples) (simp_all add: series_total_def fold_sliver_total build_points_total)

theorem series_accounts_for_run_witness:
  "series_total P_sent (series_build values_hdr
     [(0, shard_zero), (1000000000, shard_zero\<lparr>cs_messages_sent := 5\<rparr>), (1010000000, shard_zero\<lparr>cs_messages_sent := 7\<rparr>)]
     (store_new 0 1000000000) ''rtt'') = 7"
  using series_accounts_for_run [of
      "[(0, shard_zero), (1000000000, shard_zero\<lparr>cs_messages_sent := 5\<rparr>), (1010000000, shard_zero\<lparr>cs_messages_sent := 7\<rparr>)]"
      P_sent values_hdr "store_new 0 1000000000" "''rtt''"]
  by (simp add: shard_zero_def)

text \<open>Merging the series of a distributed run loses and invents nothing. The merged points add up, for
  messages and bytes in both directions and errors, to the sum over the machines, whatever their
  intervals.\<close>

theorem merged_series_total:
  "series_total c (merge_parallel H parts) = (\<Sum>part\<leftarrow>parts. series_total c (sp_series part))"
proof (cases "find (\<lambda>part. ts_points (sp_series part) \<noteq> []) parts")
  case None
  then have none: "\<forall>part\<in>set parts. ts_points (sp_series part) = []" by (simp add: find_None_iff)
  then have "(\<Sum>part\<leftarrow>parts. series_total c (sp_series part)) = 0"
    by (induction parts) (simp_all add: series_total_def)
  moreover have "series_total c (merge_parallel H parts) = 0"
    using None none by (cases parts) (auto simp: merge_parallel_def series_total_def series_default_def)
  ultimately show ?thesis by simp
next
  case (Some first)
  let ?acc = "fold (merge_part H (ts_interval_secs (sp_series first))) parts (fmempty, fmempty)"
  have "series_total c (merge_parallel H parts) = points_total c (fst ?acc)"
    using Some
    by (simp add: merge_parallel_def series_total_def points_total_def Let_def comp_def split_def)
  also have "\<dots> = (\<Sum>part\<leftarrow>parts. series_total c (sp_series part))"
    by (simp add: merge_parts_total) (simp add: points_total_sum)
  finally show ?thesis .
qed

text \<open>What the exporters and the terminal show as the last completed interval has really ended. In every
  state the runner leads the live readers through, the interval belongs to the phase whose clock they
  read, that phase is the last one begun, and the interval is the last one whole before the phase's
  elapsed time.\<close>

theorem completed_interval_is_over:
  assumes "live_reachable stores s" "lv_remote s = None" "live_last_completed H stores now s = Some ci"
  shows "\<exists>k. live_phase_clock stores now s = Some k \<and> ci_phase ci = pc_seq k \<and> pc_seq k + 1 = lv_phases_begun s \<and>
    (ci_index ci + 1) * max (pc_interval k) 1 \<le> pc_elapsed k \<and> pc_elapsed k < (ci_index ci + 2) * max (pc_interval k) 1"
proof -
  from assms(2,3) obtain p where p: "lv_phase s = Some p"
    by (auto simp: live_last_completed_def split: option.splits)
  with live_reachable_ok [OF assms(1)] have "lp_seq p + 1 = lv_phases_begun s" by (simp add: live_state_ok_def)
  with assms(2,3) p show ?thesis
    by (auto simp: live_last_completed_def live_phase_clock_def Let_def simp del: add_2_eq_Suc' add_Suc_right
        dest!: last_completed_Some)
qed

theorem completed_interval_is_over_witness:
  "\<exists>k. live_phase_clock (\<lambda>_. store_new 100 10) 135 (begin_phase (\<lambda>_. store_new 100 10) 0 ''rtt'' live_state_new) = Some k \<and>
     (2 + 1) * max (pc_interval k) 1 \<le> pc_elapsed k \<and> pc_elapsed k < (2 + 2) * max (pc_interval k) 1"
proof -
  let ?s = "begin_phase (\<lambda>_. store_new 100 10 :: nat multiset interval_store) 0 ''rtt'' live_state_new"
  have "live_last_completed values_hdr (\<lambda>_. store_new 100 10) 135 ?s =
    Some \<lparr>ci_phase = 0, ci_index = 2, ci_basis = ''rtt'', ci_latency = interval_latency_zero\<rparr>"
    by (simp add: live_last_completed_def begin_phase_def live_state_new_def store_new_def last_completed_def
        latency_of_def interval_latency_from_def)
  then show ?thesis
    using completed_interval_is_over [of "\<lambda>_. store_new 100 10" ?s values_hdr 135]
    by (auto intro: live_reachable.intros simp: begin_phase_def live_state_new_def live_phase_clock_def store_new_def)
qed

end
