(* ===== verification/Lag.thy ===== *)
theory Lag
  imports Time_Series
begin

text \<open>
  The load generator's saturation probe, \<open>src/lag.rs\<close>: a task sleeps \<open>PROBE_PERIOD\<close> at a time and records how
  late it woke, in one histogram and per time-series interval. The times at which the task woke are the
  input of the model; \<open>windows\<close> is \<open>cfg!(windows)\<close>.
\<close>

section \<open>The record of a run\<close>

definition PROBE_PERIOD :: duration where "PROBE_PERIOD = from_millis 10"

definition DEFAULT_THRESHOLD :: "bool \<Rightarrow> duration" where
  "DEFAULT_THRESHOLD windows = (if windows then from_millis 36 else from_millis 20)"

abbreviation (input) INTERVAL_SHARE_PERCENT :: nat where "INTERVAL_SHARE_PERCENT \<equiv> 10"
abbreviation (input) MIN_LATE_IN_RUN :: nat where "MIN_LATE_IN_RUN \<equiv> 3"
abbreviation (input) MIN_LATE_IN_INTERVAL :: nat where "MIN_LATE_IN_INTERVAL \<equiv> 2"

definition threshold_us :: "bool \<Rightarrow> nat" where
  "threshold_us windows = as_micros (DEFAULT_THRESHOLD windows)"

record 'h lag_record =
  lg_start :: instant
  lg_interval :: duration
  lg_hist :: "'h option"
  lg_intervals :: "(nat, interval_lag) fmap"
  lg_over :: nat
  lg_current :: "nat list"
  lg_index :: nat

definition lag_record_new :: "'h hdr \<Rightarrow> instant \<Rightarrow> duration \<Rightarrow> 'h lag_record" where
  "lag_record_new H start interval =
     \<lparr>lg_start = start, lg_interval = max interval (from_millis 1), lg_hist = lag_histogram H,
      lg_intervals = fmempty, lg_over = 0, lg_current = [], lg_index = 0\<rparr>"

text \<open>The nearest-rank 99th percentile of sorted samples.\<close>

definition interval_p99 :: "nat list \<Rightarrow> nat" where
  "interval_p99 xs = xs ! (max (div_ceil (length xs * 99) 100) 1 - 1)"

definition close_interval :: "bool \<Rightarrow> 'h lag_record \<Rightarrow> 'h lag_record" where
  "close_interval windows r =
     (if lg_current r = [] then r
      else (let current = sort (lg_current r);
                n = length current;
                p99 = interval_p99 current;
                late = length (filter (\<lambda>us. us > threshold_us windows) current);
                over = p99 > threshold_us windows \<and> late \<ge> MIN_LATE_IN_INTERVAL
            in r\<lparr>lg_over := lg_over r + (if over then 1 else 0),
                 lg_intervals := fmupd (lg_index r)
                   \<lparr>ilag_samples = word_of_nat n, ilag_p99_us = p99, ilag_max_us = current ! (n - 1)\<rparr> (lg_intervals r),
                 lg_current := []\<rparr>))"

definition lag_micros :: "duration \<Rightarrow> nat" where
  "lag_micros lag = min (max (as_micros lag) 1) 60000000"

definition lag_index :: "'h lag_record \<Rightarrow> instant \<Rightarrow> nat" where
  "lag_index r due = ((due - lg_start r) div lg_interval r) mod 2 ^ 64"

definition record_lag :: "'h hdr \<Rightarrow> bool \<Rightarrow> instant \<Rightarrow> duration \<Rightarrow> 'h lag_record \<Rightarrow> 'h lag_record" where
  "record_lag H windows due lag r =
     (let micros = lag_micros lag;
          r = r\<lparr>lg_hist := map_option (hdr_record_n H micros 1) (lg_hist r)\<rparr>;
          index = lag_index r due;
          r = (if index \<noteq> lg_index r then (close_interval windows r)\<lparr>lg_index := index\<rparr> else r)
      in r\<lparr>lg_current := lg_current r @ [micros]\<rparr>)"

text \<open>The probe's task, from \<open>spawn\<close> at \<open>now\<close> until it is stopped after the wake-ups \<open>wokes\<close>.\<close>

fun probe_loop :: "'h hdr \<Rightarrow> bool \<Rightarrow> instant \<Rightarrow> instant list \<Rightarrow> 'h lag_record \<Rightarrow> 'h lag_record" where
  "probe_loop H windows deadline [] r = close_interval windows r"
| "probe_loop H windows deadline (woke # wokes) r =
     probe_loop H windows (woke + PROBE_PERIOD) wokes (record_lag H windows deadline (woke - deadline) r)"

definition probe_run :: "'h hdr \<Rightarrow> bool \<Rightarrow> instant \<Rightarrow> duration \<Rightarrow> instant \<Rightarrow> instant list \<Rightarrow> 'h lag_record" where
  "probe_run H windows start interval now wokes =
     probe_loop H windows (now + PROBE_PERIOD) wokes (lag_record_new H start interval)"

definition attach_lag :: "'h lag_record \<Rightarrow> time_series \<Rightarrow> time_series" where
  "attach_lag r series =
     series\<lparr>ts_points := map (\<lambda>p. p\<lparr>tp_generator_lag :=
        fmlookup (lg_intervals r)
          (f64_to_u64 (f64_max (f64_round (f64_div (tp_start_secs p) (as_secs_f64 (lg_interval r)))) (Num 0)))\<rparr>)
        (ts_points series)\<rparr>"

section \<open>Totals and summary\<close>

record 'h lag_totals =
  lt_hist :: "'h option"
  lt_intervals :: nat
  lt_over :: nat
  lt_threshold :: "nat option"

definition lag_totals_of :: "'h lag_record \<Rightarrow> 'h lag_totals" where
  "lag_totals_of r = \<lparr>lt_hist = lg_hist r, lt_intervals = fcard (fmdom (lg_intervals r)), lt_over = lg_over r,
     lt_threshold = None\<rparr>"

definition lag_parts :: "bool \<Rightarrow> 'h lag_totals \<Rightarrow> 'h option \<times> nat \<times> nat \<times> nat" where
  "lag_parts windows t = (lt_hist t, lt_intervals t, lt_over t, case_option (threshold_us windows) id (lt_threshold t))"

definition lag_from_parts :: "'h \<Rightarrow> nat \<Rightarrow> nat \<Rightarrow> nat \<Rightarrow> 'h lag_totals" where
  "lag_from_parts hist intervals over threshold =
     \<lparr>lt_hist = Some hist, lt_intervals = intervals, lt_over = over, lt_threshold = Some threshold\<rparr>"

text \<open>A histogram that cannot be added is left out.\<close>

definition add_lag :: "'h hdr \<Rightarrow> 'h lag_totals \<Rightarrow> 'h lag_totals \<Rightarrow> 'h lag_totals" where
  "add_lag H other t =
     \<lparr>lt_hist = (case (lt_hist t, lt_hist other) of
          (Some h, Some o_h) \<Rightarrow> (case hdr_add H h o_h of None \<Rightarrow> Some h | Some h \<Rightarrow> Some h)
        | (None, Some o_h) \<Rightarrow> Some o_h
        | (h, None) \<Rightarrow> h),
      lt_intervals = lt_intervals t + lt_intervals other, lt_over = lt_over t + lt_over other,
      lt_threshold = (case lt_threshold t of None \<Rightarrow> lt_threshold other | Some us \<Rightarrow> Some us)\<rparr>"

record generator_lag =
  gl_probe_interval_us :: nat
  gl_samples :: u64
  gl_p50_us :: nat
  gl_p99_us :: nat
  gl_max_us :: nat
  gl_threshold_us :: nat
  gl_intervals :: nat
  gl_over :: nat
  gl_saturated :: bool

definition lag_summary :: "'h hdr \<Rightarrow> bool \<Rightarrow> 'h lag_totals \<Rightarrow> generator_lag option" where
  "lag_summary H windows t =
     (case lt_hist t of
        None \<Rightarrow> None
      | Some hist \<Rightarrow>
          (if hdr_is_empty H hist then None
           else (let threshold = case_option (threshold_us windows) id (lt_threshold t);
                     p99 = hdr_value_at_quantile H (of_exact (99 / 100)) hist;
                     late = hdr_len H hist - hdr_count_between H 1 threshold hist;
                     p99_over = p99 > threshold \<and> unat late \<ge> MIN_LATE_IN_RUN;
                     share_over = lt_over t > 0 \<and> lt_over t * 100 \<ge> lt_intervals t * INTERVAL_SHARE_PERCENT
                 in Some \<lparr>gl_probe_interval_us = as_micros PROBE_PERIOD, gl_samples = hdr_len H hist,
                      gl_p50_us = hdr_value_at_quantile H (of_exact (50 / 100)) hist, gl_p99_us = p99,
                      gl_max_us = hdr_max H hist, gl_threshold_us = threshold, gl_intervals = lt_intervals t,
                      gl_over = lt_over t, gl_saturated = (p99_over \<or> share_over)\<rparr>)))"

section \<open>The nearest-rank percentile\<close>

lemma sorted_rank:
  assumes "sorted xs" "k < length xs"
  shows "k + 1 \<le> length (filter (\<lambda>x. x \<le> xs ! k) xs)" "length (filter (\<lambda>x. x < xs ! k) xs) \<le> k"
proof -
  have take: "\<forall>x\<in>set (take (Suc k) xs). x \<le> xs ! k"
    using assms by (auto simp: in_set_conv_nth less_Suc_eq_le intro!: sorted_nth_mono)
  have drop: "\<forall>x\<in>set (drop k xs). \<not> x < xs ! k"
    using assms by (auto simp: in_set_conv_nth not_less intro!: sorted_nth_mono)
  have "Suc k \<le> length (filter (\<lambda>x. x \<le> xs ! k) (take (Suc k) xs @ drop (Suc k) xs))"
    unfolding filter_append filter_True [OF take] using assms by simp
  then show "k + 1 \<le> length (filter (\<lambda>x. x \<le> xs ! k) xs)" by simp
  have "length (filter (\<lambda>x. x < xs ! k) (take k xs @ drop k xs)) \<le> k"
    unfolding filter_append filter_False [OF drop] by (simp add: le_trans [OF length_filter_le])
  then show "length (filter (\<lambda>x. x < xs ! k) xs) \<le> k" by simp
qed

lemma interval_p99_rank:
  assumes "xs \<noteq> []"
  defines "p \<equiv> interval_p99 (sort xs)"
  shows "p \<in> set xs \<and> 99 * length xs \<le> 100 * length (filter (\<lambda>x. x \<le> p) xs) \<and>
    100 * length (filter (\<lambda>x. x < p) xs) < 99 * length xs"
proof -
  let ?n = "length xs"
  define k where "k = max (div_ceil (?n * 99) 100) 1 - 1"
  have n: "0 < ?n" using assms by simp
  have up: "?n * 99 \<le> div_ceil (?n * 99) 100 * 100" "div_ceil (?n * 99) 100 * 100 < ?n * 99 + 100"
    using div_ceil_bounds [of 100 "?n * 99"] by (simp_all add: mult.commute)
  moreover define c where "c = div_ceil (?n * 99) 100"
  ultimately have "?n * 99 \<le> c * 100" "c * 100 < ?n * 99 + 100" by simp_all
  moreover have kc: "k = max c 1 - 1" by (simp add: k_def c_def)
  ultimately have k: "k < ?n" "?n * 99 \<le> (k + 1) * 100" "k * 100 < ?n * 99" using n by (simp_all add: max_def, linarith+)
  have p: "p = sort xs ! k" by (simp add: p_def interval_p99_def k_def)
  have len: "length (filter P (sort xs)) = length (filter P xs)" for P
    by (metis filter_sort length_sort)
  from sorted_rank [of "sort xs" k] k(1)
  have "k + 1 \<le> length (filter (\<lambda>x. x \<le> p) xs)" "length (filter (\<lambda>x. x < p) xs) \<le> k" by (simp_all add: p len)
  moreover have "p \<in> set xs" unfolding p using k(1) by (metis length_sort nth_mem set_sort)
  ultimately show ?thesis using k by simp
qed

section \<open>Grouping by interval\<close>

text \<open>The specification: the wake-ups of the run with the moments they were due, grouped by interval.\<close>

fun wakeups :: "instant \<Rightarrow> instant list \<Rightarrow> (instant \<times> nat) list" where
  "wakeups deadline [] = []"
| "wakeups deadline (woke # wokes) = (deadline, lag_micros (woke - deadline)) # wakeups (woke + PROBE_PERIOD) wokes"

definition lags_of :: "instant \<Rightarrow> duration \<Rightarrow> nat \<Rightarrow> (instant \<times> nat) list \<Rightarrow> nat list" where
  "lags_of start interval i ps = map snd (filter (\<lambda>p. (fst p - start) div interval = i) ps)"

definition interval_entry :: "nat list \<Rightarrow> interval_lag option" where
  "interval_entry xs = (if xs = [] then None
     else Some \<lparr>ilag_samples = word_of_nat (length xs), ilag_p99_us = interval_p99 (sort xs), ilag_max_us = Max (set xs)\<rparr>)"

definition interval_over :: "bool \<Rightarrow> nat list \<Rightarrow> bool" where
  "interval_over windows xs \<longleftrightarrow> interval_p99 (sort xs) > threshold_us windows \<and>
     length (filter (\<lambda>us. us > threshold_us windows) xs) \<ge> MIN_LATE_IN_INTERVAL"

lemma interval_over_Nil [simp]: "\<not> interval_over windows []"
  by (simp add: interval_over_def)

lemma sort_last: "xs \<noteq> [] \<Longrightarrow> sort xs ! (length xs - 1) = Max (set xs)"
proof -
  assume ne: "xs \<noteq> []"
  then have "sort xs ! (length xs - 1) \<in> set xs"
    using nth_mem [of "length xs - 1" "sort xs"] by simp
  moreover have "x \<le> sort xs ! (length xs - 1)" if "x \<in> set xs" for x
  proof -
    from that obtain i where i: "i < length xs" "x = sort xs ! i" by (metis in_set_conv_nth length_sort set_sort)
    then show ?thesis using sorted_nth_mono [of "sort xs" i "length xs - 1"] by simp
  qed
  ultimately show ?thesis by (intro Max_eqI [symmetric]) simp_all
qed

text \<open>Closing an interval files its samples.\<close>

lemma close_interval_files:
  "fmlookup (lg_intervals (close_interval windows r)) i =
     (if i = lg_index r \<and> lg_current r \<noteq> [] then interval_entry (lg_current r) else fmlookup (lg_intervals r) i)"
  "lg_over (close_interval windows r) = lg_over r + (if interval_over windows (lg_current r) then 1 else 0)"
  "lg_index (close_interval windows r) = lg_index r" "lg_start (close_interval windows r) = lg_start r"
  "lg_interval (close_interval windows r) = lg_interval r"
  "lg_current (close_interval windows r) = []"
proof -
  have len: "length (filter P (sort xs)) = length (filter P xs)" for P and xs :: "nat list"
    by (metis filter_sort length_sort)
  show "fmlookup (lg_intervals (close_interval windows r)) i =
     (if i = lg_index r \<and> lg_current r \<noteq> [] then interval_entry (lg_current r) else fmlookup (lg_intervals r) i)"
    using sort_last [of "lg_current r"] by (simp add: close_interval_def Let_def interval_entry_def)
  show "lg_over (close_interval windows r) = lg_over r + (if interval_over windows (lg_current r) then 1 else 0)"
    by (simp add: close_interval_def Let_def interval_over_def len)
qed (simp_all add: close_interval_def Let_def)

definition lag_step :: "'h hdr \<Rightarrow> bool \<Rightarrow> instant \<times> nat \<Rightarrow> 'h lag_record \<Rightarrow> 'h lag_record" where
  "lag_step H windows p r =
     (let r = r\<lparr>lg_hist := map_option (hdr_record_n H (snd p) 1) (lg_hist r)\<rparr>;
          index = lag_index r (fst p);
          r = (if index \<noteq> lg_index r then (close_interval windows r)\<lparr>lg_index := index\<rparr> else r)
      in r\<lparr>lg_current := lg_current r @ [snd p]\<rparr>)"

lemma probe_loop_fold:
  "probe_loop H windows deadline wokes r = close_interval windows (fold (lag_step H windows) (wakeups deadline wokes) r)"
  by (induction H windows deadline wokes r rule: probe_loop.induct) (simp_all add: lag_step_def record_lag_def Let_def)

text \<open>What the record holds after the wake-ups \<open>ps\<close>.\<close>

definition lag_holds :: "bool \<Rightarrow> instant \<Rightarrow> duration \<Rightarrow> (instant \<times> nat) list \<Rightarrow> 'h lag_record \<Rightarrow> bool" where
  "lag_holds windows start interval ps r \<longleftrightarrow>
     lg_start r = start \<and> lg_interval r = interval \<and>
     lg_current r = lags_of start interval (lg_index r) ps \<and>
     (\<forall>p\<in>set ps. (fst p - start) div interval \<le> lg_index r) \<and>
     (ps \<noteq> [] \<longrightarrow> lg_index r = (fst (List.last ps) - start) div interval) \<and>
     (\<forall>i. fmlookup (lg_intervals r) i = (if i < lg_index r then interval_entry (lags_of start interval i ps) else None)) \<and>
     lg_over r = card {i. i < lg_index r \<and> interval_over windows (lags_of start interval i ps)}"

lemma lags_of_snoc:
  "lags_of start interval i (ps @ [p]) =
   lags_of start interval i ps @ (if (fst p - start) div interval = i then [snd p] else [])"
  by (simp add: lags_of_def)

lemma lags_of_beyond: "\<forall>p\<in>set ps. (fst p - start) div interval < i \<Longrightarrow> lags_of start interval i ps = []"
  by (auto simp: lags_of_def filter_empty_conv)

lemma lag_holds_same:
  assumes "lag_holds windows start interval ps r" "(fst p - start) div interval = lg_index r"
  shows "lag_holds windows start interval (ps @ [p]) (r\<lparr>lg_hist := h, lg_current := lg_current r @ [snd p]\<rparr>)"
proof -
  have "lags_of start interval i (ps @ [p]) = lags_of start interval i ps" if "i < lg_index r" for i
    using that assms(2) by (simp add: lags_of_snoc)
  then have "{i. i < lg_index r \<and> interval_over windows (lags_of start interval i (ps @ [p]))} =
      {i. i < lg_index r \<and> interval_over windows (lags_of start interval i ps)}" by auto
  with assms show ?thesis by (auto simp: lag_holds_def lags_of_snoc)
qed

lemma lag_holds_next:
  assumes "lag_holds windows start interval ps r" "lg_index r < i" "(fst p - start) div interval = i"
  shows "lag_holds windows start interval (ps @ [p]) ((close_interval windows r)\<lparr>lg_hist := h, lg_index := i, lg_current := [snd p]\<rparr>)"
proof -
  let ?now = "\<lambda>j. lags_of start interval j (ps @ [p])"
  from assms(1) have cur: "lg_current r = lags_of start interval (lg_index r) ps"
    and below: "\<And>q. q \<in> set ps \<Longrightarrow> (fst q - start) div interval \<le> lg_index r"
    and filed: "\<And>j. fmlookup (lg_intervals r) j = (if j < lg_index r then interval_entry (lags_of start interval j ps) else None)"
    and over: "lg_over r = card {j. j < lg_index r \<and> interval_over windows (lags_of start interval j ps)}"
    and const: "lg_start r = start" "lg_interval r = interval"
    by (auto simp: lag_holds_def)
  have gap: "lags_of start interval j ps = []" if "lg_index r < j" for j
    using below that by (intro lags_of_beyond) fastforce
  have now: "?now j = (if j < lg_index r then lags_of start interval j ps else if j = lg_index r then lg_current r else [])"
    if "j < i" for j
    using that assms(3) gap [of j] by (auto simp: lags_of_snoc cur)
  have "{j. j < i \<and> interval_over windows (?now j)} =
      {j. j < lg_index r \<and> interval_over windows (lags_of start interval j ps)} \<union>
      (if interval_over windows (lg_current r) then {lg_index r} else {})"
    using assms(2) by (auto simp: now split: if_splits)
  then have "card {j. j < i \<and> interval_over windows (?now j)} = lg_over (close_interval windows r)"
    by (simp add: close_interval_files over card_Un_disjoint)
  moreover have "fmlookup (lg_intervals (close_interval windows r)) j = (if j < i then interval_entry (?now j) else None)" for j
    using assms(2) by (auto simp: close_interval_files now filed interval_entry_def)
  moreover have "?now i = [snd p]" using assms(3) gap [OF assms(2)] by (simp add: lags_of_snoc)
  moreover have "\<forall>q\<in>set (ps @ [p]). (fst q - start) div interval \<le> i" using below assms(2,3) by fastforce
  ultimately show ?thesis using assms(3) const by (simp add: lag_holds_def close_interval_files)
qed

text \<open>\<open>sleep_until\<close> does not return before its deadline.\<close>

fun on_time :: "instant \<Rightarrow> instant list \<Rightarrow> bool" where
  "on_time deadline [] = True"
| "on_time deadline (woke # wokes) = (deadline \<le> woke \<and> on_time (woke + PROBE_PERIOD) wokes)"

lemma wakeups_sorted:
  "on_time deadline wokes \<Longrightarrow> sorted (map fst (wakeups deadline wokes)) \<and> (\<forall>p\<in>set (wakeups deadline wokes). deadline \<le> fst p)"
proof (induction deadline wokes rule: wakeups.induct)
  case (2 deadline woke wokes)
  then have "\<forall>p\<in>set (wakeups (woke + PROBE_PERIOD) wokes). deadline \<le> fst p" by fastforce
  with 2 show ?case by auto
qed simp

lemma lag_holds_step:
  assumes "lag_holds windows start interval ps r" "fst p < 2 ^ 64" "lg_index r \<le> (fst p - start) div interval"
  shows "lag_holds windows start interval (ps @ [p]) (lag_step H windows p r)"
proof -
  let ?i = "(fst p - start) div interval"
  have "?i < 2 ^ 64" using assms(2) div_le_dividend [of "fst p - start" interval] by linarith
  then have i: "lag_index (r\<lparr>lg_hist := h\<rparr>) (fst p) = ?i" for h
    using assms(1) by (simp add: lag_index_def lag_holds_def)
  show ?thesis
  proof (cases "?i = lg_index r")
    case True
    with i lag_holds_same [OF assms(1) True] show ?thesis by (simp add: lag_step_def Let_def)
  next
    case False
    have "(close_interval windows (r\<lparr>lg_hist := h\<rparr>)) = (close_interval windows r)\<lparr>lg_hist := h\<rparr>" for h
      by (simp add: close_interval_def Let_def)
    with False i lag_holds_next [OF assms(1), of ?i p "map_option (hdr_record_n H (snd p) 1) (lg_hist r)"] assms(3)
    show ?thesis by (simp add: lag_step_def Let_def close_interval_files)
  qed
qed

lemma lag_holds_run:
  assumes "sorted (map fst ps)" "\<forall>p\<in>set ps. fst p < 2 ^ 64"
  shows "lag_holds windows start (max interval (from_millis 1)) ps (fold (lag_step H windows) ps (lag_record_new H start interval))"
  using assms
proof (induction ps rule: rev_induct)
  case Nil
  then show ?case by (simp add: lag_holds_def lag_record_new_def lags_of_def)
next
  case (snoc p ps)
  then have h: "lag_holds windows start (max interval (from_millis 1)) ps
      (fold (lag_step H windows) ps (lag_record_new H start interval))" by (simp add: sorted_append)
  let ?r = "fold (lag_step H windows) ps (lag_record_new H start interval)"
  have "lg_index ?r \<le> (fst p - start) div max interval (from_millis 1)"
  proof (cases "ps = []")
    case True
    then show ?thesis by (simp add: lag_record_new_def)
  next
    case False
    then have "lg_index ?r = (fst (List.last ps) - start) div max interval (from_millis 1)"
      using h by (simp add: lag_holds_def)
    moreover have "fst (List.last ps) \<le> fst p" using snoc.prems(1) False by (auto simp: sorted_append)
    ultimately show ?thesis by (simp add: div_le_mono)
  qed
  with snoc.prems(2) lag_holds_step [OF h, of p H] show ?case by simp
qed

section \<open>Properties\<close>

text \<open>The probe's running bookkeeping is the batch computation. For wake-ups that are never early, every
  time-series interval gets the number of its wake-ups, their nearest-rank 99th percentile (at least 99\% of
  the lags are at most it, fewer than 99\% are below it) and their largest lag, intervals without a wake-up get
  no entry, and the number of intervals over the threshold is exact.\<close>

theorem probe_intervals_exact:
  fixes H :: "'h hdr" and start :: instant and interval :: duration and windows :: bool
  assumes "on_time (now + PROBE_PERIOD) wokes" "\<forall>p\<in>set (wakeups (now + PROBE_PERIOD) wokes). fst p < 2 ^ 64"
  defines "lags \<equiv> \<lambda>i. lags_of start (max interval (from_millis 1)) i (wakeups (now + PROBE_PERIOD) wokes)"
    and "r \<equiv> probe_run H windows start interval now wokes"
  shows "fmlookup (lg_intervals r) i = interval_entry (lags i) \<and>
    lg_over r = card {j. interval_over windows (lags j)} \<and>
    (lags i \<noteq> [] \<longrightarrow>
       99 * length (lags i) \<le> 100 * length (filter (\<lambda>x. x \<le> interval_p99 (sort (lags i))) (lags i)) \<and>
       100 * length (filter (\<lambda>x. x < interval_p99 (sort (lags i))) (lags i)) < 99 * length (lags i))"
proof -
  let ?ps = "wakeups (now + PROBE_PERIOD) wokes"
  define q where "q = fold (lag_step H windows) ?ps (lag_record_new H start interval)"
  have "lag_holds windows start (max interval (from_millis 1)) ?ps q"
    unfolding q_def using wakeups_sorted [OF assms(1)] assms(2) by (intro lag_holds_run) simp_all
  then have cur: "lg_current q = lags (lg_index q)"
    and below: "\<And>p. p \<in> set ?ps \<Longrightarrow> (fst p - start) div max interval (from_millis 1) \<le> lg_index q"
    and filed: "\<And>j. fmlookup (lg_intervals q) j = (if j < lg_index q then interval_entry (lags j) else None)"
    and over: "lg_over q = card {j. j < lg_index q \<and> interval_over windows (lags j)}"
    by (auto simp: lag_holds_def lags_def)
  have gap: "lags j = []" if "lg_index q < j" for j
    unfolding lags_def using below that by (intro lags_of_beyond) fastforce
  have r: "r = close_interval windows q" by (simp add: r_def probe_run_def probe_loop_fold q_def)
  have "fmlookup (lg_intervals r) i = interval_entry (lags i)"
    by (cases i "lg_index q" rule: linorder_cases) (simp_all add: r close_interval_files filed cur gap interval_entry_def)
  moreover have "{j. interval_over windows (lags j)} = {j. j < lg_index q \<and> interval_over windows (lags j)} \<union>
      (if interval_over windows (lg_current q) then {lg_index q} else {})"
  proof -
    have "j \<le> lg_index q" if "interval_over windows (lags j)" for j using that gap [of j] by (cases "lg_index q < j") auto
    then show ?thesis by (auto simp: cur le_less)
  qed
  then have "lg_over r = card {j. interval_over windows (lags j)}"
    by (simp add: r close_interval_files over card_Un_disjoint)
  ultimately show ?thesis using interval_p99_rank [of "lags i"] by simp
qed

text \<open>A probe that woke 1 ms, 30 ms and 40 ms late.\<close>

theorem probe_intervals_exact_witness:
  "lg_over (probe_run values_hdr False 0 1000000000 0 [11000000, 51000000, 101000000]) =
   card {j. interval_over False (lags_of 0 1000000000 j (wakeups 10000000 [11000000, 51000000, 101000000]))}"
  using probe_intervals_exact [of 0 "[11000000, 51000000, 101000000]" values_hdr False 0 1000000000 0]
  by (simp add: PROBE_PERIOD_def from_millis_def max_def)

text \<open>What an agent reports of its generator survives the wire. The totals the coordinator rebuilds from
  the parts an agent sends give the summary the agent would have given itself, judged by the agent's own
  threshold even when the two run on different platforms.\<close>

theorem lag_parts_roundtrip:
  assumes "lag_parts windows t = (Some hist, intervals, over, threshold)"
  shows "lag_summary H coordinator_windows (lag_from_parts hist intervals over threshold) = lag_summary H windows t"
  using assms by (auto simp: lag_parts_def lag_from_parts_def lag_summary_def Let_def split: option.split)

theorem lag_parts_roundtrip_witness:
  "lag_summary values_hdr True (lag_from_parts {#30000, 900#} 4 1 20000) =
   lag_summary values_hdr False \<lparr>lt_hist = Some {#30000, 900#}, lt_intervals = 4, lt_over = 1, lt_threshold = None\<rparr>"
  by (rule lag_parts_roundtrip) (simp add: lag_parts_def threshold_us_def DEFAULT_THRESHOLD_def as_micros_def from_millis_def)

end
