(* ===== verification/Human_Duration.thy ===== *)
theory Human_Duration
  imports Errors F64
begin

text \<open>
  \<open>parse_human_duration\<close> and \<open>scale_duration\<close> of \<open>src/config.rs\<close>: durations such as \<open>500ms\<close>, \<open>1.5s\<close>
  or \<open>90\<close>. The standard library's decimal parser for \<open>f64\<close> and \<open>Duration::try_from_secs_f64\<close> are
  modelled as their documentation specifies them.
\<close>

section \<open>Decimal numbers as \<open>f64\<close>\<close>

definition parse_exponent :: "string \<Rightarrow> int option" where
  "parse_exponent s =
     (let (neg, ds) = (case s of
            [] \<Rightarrow> (False, [])
          | c # cs \<Rightarrow> (if c = CHR ''-'' then (True, cs) else if c = CHR ''+'' then (False, cs)
                       else (False, s)))
      in if ds \<noteq> [] \<and> list_all is_ascii_digit ds
         then Some (if neg then - int (digits_value ds) else int (digits_value ds)) else None)"

text \<open>A number without its sign: digits with an optional point and an optional exponent.\<close>

definition parse_decimal :: "string \<Rightarrow> rat option" where
  "parse_decimal s =
     (let whole = takeWhile is_ascii_digit s;
          rest = dropWhile is_ascii_digit s;
          point = (rest \<noteq> [] \<and> hd rest = CHR ''.'');
          fraction = (if point then takeWhile is_ascii_digit (tl rest) else []);
          tail = (if point then dropWhile is_ascii_digit (tl rest) else rest);
          exponent = (if tail = [] then Some 0
                      else if hd tail = CHR ''e'' \<or> hd tail = CHR ''E'' then parse_exponent (tl tail)
                      else None)
      in if whole = [] \<and> fraction = [] then None
         else map_option (\<lambda>e. of_nat (digits_value (whole @ fraction)) * 10 powi (e - int (length fraction)))
                exponent)"

text \<open>\<open>str::parse::<f64>\<close>: the sign bit and the value.\<close>

definition parse_f64 :: "string \<Rightarrow> (bool \<times> f64) option" where
  "parse_f64 s =
     (let (neg, body) = (case s of
            [] \<Rightarrow> (False, [])
          | c # cs \<Rightarrow> (if c = CHR ''-'' then (True, cs) else if c = CHR ''+'' then (False, cs)
                       else (False, s)))
      in if eq_ignore_ascii_case body ''inf'' \<or> eq_ignore_ascii_case body ''infinity''
         then Some (neg, if neg then NegInf else PosInf)
         else if eq_ignore_ascii_case body ''nan'' then Some (neg, NaN)
         else map_option (\<lambda>x. (neg, of_exact (if neg then - x else x))) (parse_decimal body))"

text \<open>\<open>Duration::try_from_secs_f64\<close>: rounded to the nearest nanosecond, ties to even.\<close>

fun try_from_secs_f64 :: "f64 \<Rightarrow> duration option" where
  "try_from_secs_f64 (Num x) =
     (if x < 0 then None
      else (let n = nat (round_half_even (x * of_nat nanos_per_sec))
            in if n \<le> duration_max then Some n else None))"
| "try_from_secs_f64 _ = None"

section \<open>Durations\<close>

definition scale_duration :: "string \<Rightarrow> nat \<Rightarrow> duration option" where
  "scale_duration value nanos_per_unit =
     (case parse_uint u64_max value of
        Some whole \<Rightarrow>
          (let nanos = whole * nanos_per_unit;
               secs = nanos div nanos_per_sec;
               subsec = nanos mod nanos_per_sec
           in if secs \<le> u64_max then Some (secs * nanos_per_sec + subsec) else None)
      | None \<Rightarrow>
          (case parse_f64 value of
             None \<Rightarrow> None
           | Some (neg, num) \<Rightarrow>
               (if neg then None
                else try_from_secs_f64 (f64_div (f64_mul num (of_uint nanos_per_unit)) (of_uint nanos_per_sec)))))"

definition UNITS :: "(string \<times> nat) list" where
  "UNITS = [(''ns'', 1), (''us'', 1000), ([CHR 0xC2, CHR 0xB5, CHR ''s''], 1000), (''ms'', 1000000),
     (''s'', 1000000000), (''m'', 60000000000), (''h'', 3600000000000)]"

fun find_unit :: "(string \<times> nat) list \<Rightarrow> string \<Rightarrow> (string \<times> nat) option" where
  "find_unit [] s = None"
| "find_unit ((suff, nanos_per_unit) # units) s =
     (case strip_suffix suff s of Some value \<Rightarrow> Some (value, nanos_per_unit) | None \<Rightarrow> find_unit units s)"

definition parse_human_duration :: "string \<Rightarrow> config_error + duration" where
  "parse_human_duration raw =
     (let s = trim raw
      in if s = [] then Inl (InvalidDuration ''empty duration string'')
         else (case find_unit UNITS s of
             Some (value, nanos_per_unit) \<Rightarrow> ok_or (InvalidDuration s) (scale_duration value nanos_per_unit)
           | None \<Rightarrow> ok_or (InvalidDuration s) (map_option from_secs (parse_uint u64_max s))))"

section \<open>Properties\<close>

lemma try_from_secs_f64_max: "try_from_secs_f64 x = Some d \<Longrightarrow> d \<le> duration_max"
  by (cases x) (auto simp: Let_def split: if_splits)

lemma scale_duration_max:
  assumes "scale_duration value nanos_per_unit = Some d"
  shows "d \<le> duration_max"
proof -
  have "secs * nanos_per_sec + n mod nanos_per_sec \<le> duration_max" if "secs \<le> u64_max" for secs n :: nat
  proof -
    have "secs * nanos_per_sec \<le> u64_max * nanos_per_sec" using that by (rule mult_le_mono1)
    moreover have "n mod nanos_per_sec \<le> 999999999" by (simp add: less_Suc_eq_le [symmetric])
    ultimately show ?thesis by linarith
  qed
  with assms show ?thesis
    by (auto simp: scale_duration_def Let_def dest: try_from_secs_f64_max
        split: option.splits if_splits prod.splits)
qed

lemma parse_human_duration_max:
  assumes "parse_human_duration s = Inr d"
  shows "d \<le> duration_max"
proof -
  have "from_secs n \<le> duration_max" if "parse_uint u64_max t = Some n" for t n
    using parse_uint_le [OF that] by (simp add: from_secs_def)
  with assms show ?thesis
    by (auto simp: parse_human_duration_def Let_def dest: scale_duration_max
        split: if_splits option.splits)
qed

text \<open>Digits and unit letters are not white space, so trimming keeps a spelled duration.\<close>

lemma white_space_ends:
  "\<forall>w\<in>set white_space. w \<noteq> [] \<and> \<not> is_ascii_digit (hd w) \<and> \<not> is_ascii_digit (List.last w)
     \<and> \<not> is_ascii_alphabetic (List.last w)"
  by (simp add: white_space_def is_ascii_digit_def is_ascii_alphabetic_def)

lemma leading_digit:
  assumes "is_ascii_digit c"
  shows "leading_white_space (c # s) = 0"
proof -
  have "\<not> prefix w (c # s)" if "w \<in> set white_space" for w
    using bspec [OF white_space_ends that] assms by (cases w) auto
  then have "filter (\<lambda>w. prefix w (c # s)) white_space = []" by (simp add: filter_empty_conv)
  then show ?thesis by (simp add: leading_white_space_def)
qed

lemma trailing_plain:
  assumes "is_ascii_digit c \<or> is_ascii_alphabetic c"
  shows "trailing_white_space (s @ [c]) = 0"
proof -
  have "\<not> suffix w (s @ [c])" if "w \<in> set white_space" for w
    using bspec [OF white_space_ends that] assms by (cases w rule: rev_cases) auto
  then have "filter (\<lambda>w. suffix w (s @ [c])) white_space = []" by (simp add: filter_empty_conv)
  then show ?thesis by (simp add: trailing_white_space_def)
qed

lemma trim_spelled:
  assumes "is_ascii_digit c" "is_ascii_digit d \<or> is_ascii_alphabetic d" "c # s = t @ [d]"
  shows "trim (c # s) = c # s"
proof -
  have "trim_start (c # s) = c # s"
    using leading_digit [OF assms(1)] by (simp add: trim_start.simps)
  moreover have "trim_end (t @ [d]) = t @ [d]"
    using trailing_plain [OF assms(2)] by (simp add: trim_end.simps)
  ultimately show ?thesis using assms(3) by (simp add: trim_def)
qed

lemma show_nat_Cons: obtains c cs where "show_nat n = c # cs" "is_ascii_digit c"
  using show_nat_digits [of n] by (cases "show_nat n") auto

lemma unit_letters_not_digits:
  "\<not> is_ascii_digit (CHR ''n'')" "\<not> is_ascii_digit (CHR ''u'')" "\<not> is_ascii_digit (CHR ''m'')"
  "\<not> is_ascii_digit (CHR ''s'')" "\<not> is_ascii_digit (CHR ''h'')" "\<not> is_ascii_digit (CHR 0xB5)"
  by (simp_all add: is_ascii_digit_def)

lemma find_unit_spelled:
  assumes "(suff, k) \<in> set UNITS" "is_ascii_digit d"
  shows "find_unit UNITS (ds @ [d] @ suff) = Some (ds @ [d], k)"
proof -
  have "d \<noteq> CHR ''n''" "d \<noteq> CHR ''u''" "d \<noteq> CHR ''m''" "d \<noteq> CHR 0xB5"
    using assms(2) unit_letters_not_digits by metis+
  with assms(1) show ?thesis
    unfolding UNITS_def
    by (simp, elim disjE; simp add: strip_suffix_def suffix_to_prefix)
qed

lemma find_unit_digits:
  assumes "is_ascii_digit d"
  shows "find_unit UNITS (ds @ [d]) = None"
proof -
  have "d \<noteq> CHR ''s''" "d \<noteq> CHR ''m''" "d \<noteq> CHR ''h''"
    using assms unit_letters_not_digits by metis+
  then show ?thesis by (simp add: UNITS_def strip_suffix_def suffix_to_prefix)
qed

lemma unit_last_letter:
  "(suff, k) \<in> set UNITS \<Longrightarrow> \<exists>u c. suff = u @ [c] \<and> is_ascii_alphabetic c"
  by (auto simp: UNITS_def is_ascii_alphabetic_def append_eq_Cons_conv)

lemma parse_spelled:
  assumes "(suff, k) \<in> set UNITS"
  shows "parse_human_duration (show_nat n @ suff) =
    ok_or (InvalidDuration (show_nat n @ suff)) (scale_duration (show_nat n) k)"
proof -
  obtain c cs where c: "show_nat n = c # cs" "is_ascii_digit c" by (rule show_nat_Cons)
  obtain ds d where d: "show_nat n = ds @ [d]" "is_ascii_digit d"
    using show_nat_digits [of n] by (cases "show_nat n" rule: rev_cases) auto
  obtain u l where u: "suff = u @ [l]" "is_ascii_alphabetic l" using unit_last_letter [OF assms] by blast
  have "trim (c # cs @ suff) = c # cs @ suff"
    using c(2) u by (intro trim_spelled [of _ l _ "c # cs @ u"]) auto
  moreover have "find_unit UNITS (c # cs @ suff) = Some (c # cs, k)"
    using find_unit_spelled [OF assms d(2), of ds] c(1) d(1) by (metis append_Cons append_assoc)
  ultimately show ?thesis using c(1) by (simp add: parse_human_duration_def)
qed

text \<open>A whole number of any unit is read exactly, to the nanosecond, with no rounding through
  floating point, and is an error exactly when it does not fit a \<open>Duration\<close>.\<close>

theorem whole_duration_exact:
  assumes "(suff, nanos_per_unit) \<in> set UNITS" "n \<le> u64_max"
  shows "parse_human_duration (show_nat n @ suff) =
    (if n * nanos_per_unit \<le> duration_max then Inr (n * nanos_per_unit)
     else Inl (InvalidDuration (show_nat n @ suff)))"
proof -
  have "scale_duration (show_nat n) nanos_per_unit =
      (if n * nanos_per_unit div nanos_per_sec \<le> u64_max then Some (n * nanos_per_unit) else None)"
    using parse_uint_show_nat [OF assms(2)] by (simp add: scale_duration_def Let_def)
  moreover have "x div nanos_per_sec \<le> u64_max \<longleftrightarrow> x \<le> duration_max" for x :: nat
    using div_le_mono [of x duration_max nanos_per_sec] less_mult_imp_div_less [of x "u64_max + 1" nanos_per_sec]
      div_le_mono [of "duration_max + 1" x nanos_per_sec] by linarith
  ultimately show ?thesis
    using parse_spelled [OF assms(1), of n] by (simp add: ok_or_def)
qed

theorem whole_duration_exact_witness:
  "parse_human_duration ''500ms'' = Inr 500000000"
  using whole_duration_exact [of "''ms''" 1000000 500]
  by (simp add: UNITS_def show_nat.simps digit_char_def char_of_def bit_0)

text \<open>No text makes a duration outside the range of \<open>Duration\<close>, fractions, exponents and infinities
  included.\<close>

theorem human_duration_in_range:
  assumes "parse_human_duration s = Inr d"
  shows "d \<le> duration_max"
  using assms by (rule parse_human_duration_max)

lemma bare_seconds: "parse_human_duration ''90'' = Inr 90000000000"
proof -
  have "trim ''90'' = ''90''"
    by (rule trim_spelled [of _ "CHR ''0''" _ "''9''"]) (simp_all add: is_ascii_digit_def)
  then show ?thesis
    using find_unit_digits [of "CHR ''0''" "''9''"]
    by (simp add: parse_human_duration_def parse_uint_def is_ascii_digit_def digits_value_def
        digit_val_def from_secs_def)
qed

theorem human_duration_in_range_witness:
  "parse_human_duration ''90'' = Inr 90000000000 \<and> 90000000000 \<le> duration_max"
  by (intro conjI bare_seconds human_duration_in_range [OF bare_seconds])

end
