(* ===== verification/Stages.thy ===== *)
theory Stages
  imports Human_Duration
begin

text \<open>
  The load models of \<open>src/config.rs\<close>: staged profiles (\<open>Stage\<close>) and arrival rates (\<open>Arrivals\<close>).
  \<open>Duration\<close> addition panics on overflow, so a stage target is an option: \<open>None\<close> is the panic.
\<close>

section \<open>Stages\<close>

record stage =
  st_duration :: duration
  st_target :: nat

definition parse_stage :: "string \<Rightarrow> config_error + stage" where
  "parse_stage part =
     and_then (ok_or (InvalidOption part) (split_once '':'' part)) (\<lambda>(duration, target).
       and_then (ok_or (InvalidOption part) (parse_uint usize_max (trim target))) (\<lambda>target.
         and_then (parse_human_duration (trim duration)) (\<lambda>duration.
           Inr \<lparr>st_duration = duration, st_target = target\<rparr>)))"

definition parse_list :: "string \<Rightarrow> config_error + stage list" where
  "parse_list spec =
     and_then (collect_results parse_stage (filter (\<lambda>part. part \<noteq> []) (map trim (str_split (CHR '','') spec))))
       (\<lambda>stages. if stages = [] then Inl (InvalidOption ''--stages'') else Inr stages)"

text \<open>\<open>impl Add for Duration\<close>: \<open>checked_add\<close> or a panic.\<close>

definition duration_add :: "duration \<Rightarrow> duration \<Rightarrow> duration option" where
  "duration_add a b = (if a + b \<le> duration_max then Some (a + b) else None)"

fun target_from :: "nat \<Rightarrow> duration \<Rightarrow> stage list \<Rightarrow> duration \<Rightarrow> nat option" where
  "target_from from stage_start [] elapsed = Some from"
| "target_from from stage_start (stage # stages) elapsed =
     (case duration_add stage_start (st_duration stage) of
        None \<Rightarrow> None
      | Some stage_end \<Rightarrow>
          (if elapsed < stage_end
           then (let progress = f64_div (as_secs_f64 (elapsed - stage_start)) (as_secs_f64 (st_duration stage));
                     value = f64_add (of_uint from)
                               (f64_mul (f64_sub (of_uint (st_target stage)) (of_uint from)) progress)
                 in Some (f64_to_u64 (f64_round value)))
           else target_from (st_target stage) stage_end stages elapsed))"

definition target_at :: "stage list \<Rightarrow> duration \<Rightarrow> nat option" where
  "target_at stages elapsed = target_from 0 0 stages elapsed"

definition validate_stages :: "stage list \<Rightarrow> nat \<Rightarrow> config_error + unit" where
  "validate_stages stages ramp_rate =
     (if ramp_rate > 0 then Inl (UnsupportedOption ''--ramp-rate'')
      else if \<exists>s\<in>set stages. st_duration s = 0 then Inl (InvalidOption ''stage duration'')
      else Inr ())"

section \<open>Arrivals\<close>

record arrivals =
  ar_rate :: f64
  ar_session_duration :: duration
  ar_max_connections :: "nat option"

definition MAX_ARRIVAL_RATE :: f64 where
  "MAX_ARRIVAL_RATE = Num 1000000"

definition expected_connections :: "arrivals \<Rightarrow> nat" where
  "expected_connections a =
     (let open = f64_ceil (f64_mul (ar_rate a) (as_secs_f64 (ar_session_duration a)));
          open = (if is_finite open \<and> f64_le (Num 1) open
                  then f64_to_u64 (f64_min open (of_uint usize_max)) else 1);
          open = (case ar_max_connections a of None \<Rightarrow> open | Some hi \<Rightarrow> min open hi)
      in max open 1)"

definition check_values :: "arrivals \<Rightarrow> string + unit" where
  "check_values a =
     (if \<not> (is_finite (ar_rate a) \<and> f64_lt (Num 0) (ar_rate a) \<and> f64_le (ar_rate a) MAX_ARRIVAL_RATE)
      then Inl ''rate''
      else if ar_session_duration a = 0 then Inl ''session''
      else if ar_max_connections a = Some 0 then Inl ''max''
      else Inr ())"

definition validate_arrivals :: "arrivals \<Rightarrow> stage list \<Rightarrow> nat \<Rightarrow> config_error + unit" where
  "validate_arrivals a stages ramp_rate =
     and_then (map_err InvalidOption (check_values a)) (\<lambda>_.
       if stages \<noteq> [] then Inl (UnsupportedOption ''--stages'')
       else if ramp_rate > 0 then Inl (UnsupportedOption ''--ramp-rate'')
       else Inr ())"

section \<open>Seconds as floating point\<close>

lemma of_exact_Num:
  assumes "representable a" "representable b" "a \<le> x" "x \<le> b" "\<bar>a\<bar> < f64_max_exclusive" "\<bar>b\<bar> < f64_max_exclusive"
  shows "of_exact x = Num (round_f64 x)"
proof -
  have "a \<le> round_f64 x" "round_f64 x \<le> b" using f64.rnd_between [of a b x] assms by auto
  with assms(5,6) show ?thesis by (auto simp: of_exact_def Let_def abs_if split: if_splits)
qed

lemma small_lt_max: "\<bar>of_int m :: rat\<bar> \<le> 2 ^ 54 \<Longrightarrow> \<bar>of_int m\<bar> < f64_max_exclusive"
proof -
  have "(2::rat) ^ 54 < 2 ^ 1024" by (rule power_strict_increasing) simp_all
  moreover assume "\<bar>of_int m :: rat\<bar> \<le> 2 ^ 54"
  ultimately show ?thesis by (simp add: f64_max_exclusive_def power_int_def)
qed

lemma of_exact_bounded:
  assumes "of_int m \<le> x" "x \<le> of_int n" "\<bar>m\<bar> \<le> 2 ^ 53" "\<bar>n\<bar> \<le> 2 ^ 53"
  shows "of_exact x = Num (round_f64 x)"
proof -
  have "\<bar>of_int k :: rat\<bar> \<le> 2 ^ 54" if "\<bar>k\<bar> \<le> 2 ^ 53" for k :: int
  proof -
    have "\<bar>k\<bar> \<le> 2 ^ 54" using that by simp
    then have "of_int \<bar>k\<bar> \<le> (of_int (2 ^ 54) :: rat)" by (simp only: of_int_le_iff)
    then show ?thesis by simp
  qed
  then show ?thesis
    using assms by (intro of_exact_Num [of "of_int m" "of_int n"] representable_of_int small_lt_max) auto
qed

lemma of_uint_small: "n \<le> 2 ^ 53 \<Longrightarrow> of_uint n = Num (of_nat n)"
  using of_exact_bounded [of 0 "of_nat n" "int n"] round_f64_exact [OF representable_of_nat, of n]
  by (simp add: of_uint_def)

text \<open>The number of seconds of a duration of less than \<open>2 ^ 53\<close> seconds, as the code computes it.\<close>

definition secs_value :: "duration \<Rightarrow> rat" where
  "secs_value d = round_f64 (of_nat (as_secs d) + round_f64 (of_nat (subsec_nanos d) / 10 ^ 9))"

lemma subsec_fraction:
  "0 \<le> round_f64 (of_nat (subsec_nanos d) / 10 ^ 9)" "round_f64 (of_nat (subsec_nanos d) / 10 ^ 9) \<le> 1"
proof -
  have "(of_nat (subsec_nanos d) :: rat) \<le> of_nat (10 ^ 9)"
    unfolding of_nat_le_iff by (simp add: subsec_nanos_def less_imp_le)
  then have "(of_nat (subsec_nanos d) :: rat) \<le> 10 ^ 9" by simp
  then show "0 \<le> round_f64 (of_nat (subsec_nanos d) / 10 ^ 9)"
    "round_f64 (of_nat (subsec_nanos d) / 10 ^ 9) \<le> 1"
    using f64.rnd_ratio [of "of_nat (subsec_nanos d)" "10 ^ 9"] by simp_all
qed

lemma as_secs_f64_value:
  assumes "as_secs d < 2 ^ 53"
  shows "as_secs_f64 d = Num (secs_value d)"
proof -
  let ?r = "round_f64 (of_nat (subsec_nanos d) / 10 ^ 9)"
  have n: "subsec_nanos d \<le> 2 ^ 53"
    using mod_less_divisor [of nanos_per_sec d] by (simp add: subsec_nanos_def)
  have le1: "(of_nat (subsec_nanos d) / 10 ^ 9 :: rat) \<le> of_int 1"
  proof -
    have "(of_nat (subsec_nanos d) :: rat) \<le> of_nat (10 ^ 9)"
      unfolding of_nat_le_iff by (simp add: subsec_nanos_def less_imp_le)
    then show ?thesis by simp
  qed
  have div: "f64_div (of_uint (subsec_nanos d)) (of_uint nanos_per_sec) = Num ?r"
    using of_uint_small [OF n] of_uint_small [of nanos_per_sec]
      of_exact_bounded [of 0 "of_nat (subsec_nanos d) / 10 ^ 9" 1] le1 by simp
  have s: "as_secs d + 1 \<le> 2 ^ 53" using assms by simp
  then have "int (as_secs d + 1) \<le> int (2 ^ 53)" by (simp only: of_nat_le_iff)
  then have "int (as_secs d) + 1 \<le> 2 ^ 53" by simp
  then have "of_exact (of_nat (as_secs d) + ?r) = Num (secs_value d)"
    unfolding secs_value_def
    using subsec_fraction [of d]
    by (intro of_exact_bounded [of "int (as_secs d)" _ "int (as_secs d) + 1"]) auto
  with div of_uint_small [of "as_secs d"] assms show ?thesis
    by (simp add: as_secs_f64_def)
qed

lemma secs_value_mono:
  assumes "d \<le> e"
  shows "secs_value d \<le> secs_value e"
proof -
  let ?r = "\<lambda>d. round_f64 (of_nat (subsec_nanos d) / 10 ^ 9)"
  have "of_nat (as_secs d) + ?r d \<le> of_nat (as_secs e) + ?r e"
  proof (cases "as_secs d = as_secs e")
    case True
    have "d = as_secs d * nanos_per_sec + subsec_nanos d" "e = as_secs e * nanos_per_sec + subsec_nanos e"
      by (simp_all add: as_secs_def subsec_nanos_def)
    with True assms have "subsec_nanos d \<le> subsec_nanos e" by linarith
    then have "of_nat (subsec_nanos d) / 10 ^ 9 \<le> (of_nat (subsec_nanos e) / 10 ^ 9 :: rat)"
      by (simp add: divide_right_mono)
    with True show ?thesis using round_f64_mono by simp
  next
    case False
    moreover have "as_secs d \<le> as_secs e" using assms by (simp add: as_secs_def div_le_mono)
    ultimately have "as_secs d + 1 \<le> as_secs e" by simp
    then have "of_nat (as_secs d + 1) \<le> (of_nat (as_secs e) :: rat)" by (simp only: of_nat_le_iff)
    then show ?thesis using subsec_fraction(2) [of d] subsec_fraction(1) [of e] by simp
  qed
  then show ?thesis unfolding secs_value_def by (rule round_f64_mono)
qed

lemma secs_value_nonneg: "0 \<le> secs_value d"
  unfolding secs_value_def using subsec_fraction(1) [of d] f64.rnd_ge [OF f64.exact_0] by simp

lemma representable_tiny: "representable (1 / 2 ^ 30)"
  unfolding representable_def by (rule exI [of _ 1], rule exI [of _ "-30"]) (simp add: power_int_minus_left)

lemma secs_value_pos:
  assumes "0 < d"
  shows "0 < secs_value d"
proof -
  have "1 / 2 ^ 30 \<le> secs_value d"
    unfolding secs_value_def
  proof (rule f64.rnd_ge [OF representable_tiny], cases "as_secs d = 0")
    case True
    then have "1 \<le> subsec_nanos d"
      using assms by (auto simp: as_secs_def subsec_nanos_def div_eq_0_iff)
    then have "(1::rat) \<le> of_nat (subsec_nanos d)" by simp
    then have "(1 / 2 ^ 30 :: rat) \<le> of_nat (subsec_nanos d) / 10 ^ 9" by simp
    then have "1 / 2 ^ 30 \<le> round_f64 (of_nat (subsec_nanos d) / 10 ^ 9)"
      by (rule f64.rnd_ge [OF representable_tiny])
    then show "1 / 2 ^ 30 \<le> of_nat (as_secs d) + round_f64 (of_nat (subsec_nanos d) / 10 ^ 9)"
      using True by simp
  next
    case False
    then have "1 \<le> as_secs d" by simp
    then have "(1::rat) \<le> of_nat (as_secs d)" by simp
    moreover have "(1 / 2 ^ 30 :: rat) \<le> 1" by simp
    ultimately show "1 / 2 ^ 30 \<le> of_nat (as_secs d) + round_f64 (of_nat (subsec_nanos d) / 10 ^ 9)"
      using subsec_fraction(1) [of d] by linarith
  qed
  moreover have "(0::rat) < 1 / 2 ^ 30" by simp
  ultimately show ?thesis by linarith
qed

section \<open>Rounding a connection count\<close>

lemma round_away_bounds:
  assumes "of_nat a \<le> x" "x \<le> of_nat b"
  shows "int a \<le> round_away x" "round_away x \<le> int b"
proof -
  have x: "0 \<le> x" using assms(1) of_nat_0_le_iff [of a, where 'a = rat] by linarith
  have "of_int (int a) \<le> x + 1 / 2" using assms(1) by simp
  then show "int a \<le> round_away x" using x by (simp add: round_away_def le_floor_iff)
  have "x + 1 / 2 < of_int (int b) + 1" using assms(2) by simp
  then show "round_away x \<le> int b" using x by (simp add: round_away_def floor_le_iff)
qed

lemma rounded_count_bounds:
  assumes "of_nat a \<le> x" "x \<le> of_nat b" "b \<le> u64_max"
  shows "a \<le> f64_to_u64 (f64_round (Num x))" "f64_to_u64 (f64_round (Num x)) \<le> b"
proof -
  note r = round_away_bounds [OF assms(1,2)]
  then have "a \<le> nat (round_away x)" "nat (round_away x) \<le> b" by linarith+
  with assms(3) r show "a \<le> f64_to_u64 (f64_round (Num x))" "f64_to_u64 (f64_round (Num x)) \<le> b"
    by (auto simp: min_def)
qed

section \<open>Stage targets\<close>

definition stage_value :: "nat \<Rightarrow> stage \<Rightarrow> duration \<Rightarrow> f64" where
  "stage_value from stage into =
     f64_add (of_uint from) (f64_mul (f64_sub (of_uint (st_target stage)) (of_uint from))
       (f64_div (as_secs_f64 into) (as_secs_f64 (st_duration stage))))"

lemma progress_value:
  assumes "into \<le> d" "0 < d" "as_secs d < 2 ^ 53"
  obtains p where "f64_div (as_secs_f64 into) (as_secs_f64 d) = Num p" "0 \<le> p" "p \<le> 1"
    "into = 0 \<longrightarrow> p = 0"
proof -
  have i: "as_secs into < 2 ^ 53"
    using assms(1,3) div_le_mono [of into d nanos_per_sec] by (simp add: as_secs_def)
  let ?q = "secs_value into / secs_value d"
  have pos: "0 < secs_value d" using assms(2) by (rule secs_value_pos)
  have le: "secs_value into \<le> secs_value d" using assms(1) by (rule secs_value_mono)
  have "of_int 0 \<le> ?q" "?q \<le> of_int 1"
    using pos le secs_value_nonneg [of into] by (simp_all add: divide_le_eq_1)
  then have "of_exact ?q = Num (round_f64 ?q)" by (rule of_exact_bounded) simp_all
  then have "f64_div (as_secs_f64 into) (as_secs_f64 d) = Num (round_f64 ?q)"
    using pos as_secs_f64_value [OF i] as_secs_f64_value [OF assms(3)] by simp
  moreover have "0 \<le> round_f64 ?q" "round_f64 ?q \<le> 1"
    using f64.rnd_ratio [OF secs_value_nonneg le] by auto
  moreover have "into = 0 \<longrightarrow> round_f64 ?q = 0"
    using round_f64_exact [OF f64.exact_0] by (simp add: secs_value_def as_secs_def subsec_nanos_def)
  ultimately show ?thesis by (rule that)
qed

lemma stage_value_bounds:
  assumes "from \<le> 2 ^ 53" "st_target stage \<le> 2 ^ 53" "into \<le> st_duration stage"
    "0 < st_duration stage" "as_secs (st_duration stage) < 2 ^ 53"
  obtains v where "stage_value from stage into = Num v"
    "of_nat (min from (st_target stage)) \<le> v" "v \<le> of_nat (max from (st_target stage))"
    "into = 0 \<longrightarrow> v = of_nat from"
proof -
  let ?a = "of_nat from :: rat" and ?b = "of_nat (st_target stage) :: rat"
  obtain p where p: "f64_div (as_secs_f64 into) (as_secs_f64 (st_duration stage)) = Num p" "0 \<le> p" "p \<le> 1"
    "into = 0 \<longrightarrow> p = 0"
    using assms(3-5) by (rule progress_value)
  have "int from \<le> int (2 ^ 53)" "int (st_target stage) \<le> int (2 ^ 53)"
    using assms(1,2) by (simp_all only: of_nat_le_iff)
  then have ai: "int from \<le> 2 ^ 53" "int (st_target stage) \<le> 2 ^ 53" by simp_all
  define k where "k = int (st_target stage) - int from"
  have k: "\<bar>k\<bar> \<le> 2 ^ 53" "of_int k = ?b - ?a" using ai by (simp_all add: k_def)
  have diff: "f64_sub (of_uint (st_target stage)) (of_uint from) = Num (of_int k)"
    using of_uint_small [OF assms(1)] of_uint_small [OF assms(2)] k f64.rnd_int [OF k(1)]
      of_exact_bounded [of k "of_int k" k]
    by (simp add: f64_sub_def)
  define m where "m = round_f64 (of_int k * p)"
  have m: "of_int (min 0 k) \<le> of_int k * p" "of_int k * p \<le> of_int (max 0 k)"
    using p(2,3) by (auto simp: min_def max_def mult_le_cancel_left1 mult_nonpos_nonneg mult_left_le)
  have "\<bar>min 0 k\<bar> \<le> 2 ^ 53" "\<bar>max 0 k\<bar> \<le> 2 ^ 53" using k(1) by (auto simp: min_def max_def)
  note mb = this f64.rnd_between [OF representable_of_int representable_of_int m, OF this]
  have mul: "f64_mul (Num (of_int k)) (Num p) = Num m"
    using of_exact_bounded [OF m] mb by (simp add: m_def)
  have sum: "of_int (int (min from (st_target stage))) \<le> ?a + m" "?a + m \<le> of_int (int (max from (st_target stage)))"
    using mb(3) k(2) by (auto simp: min_def max_def k_def m_def)
  have "\<bar>int (min from (st_target stage))\<bar> \<le> 2 ^ 53" "\<bar>int (max from (st_target stage))\<bar> \<le> 2 ^ 53"
    using ai by (auto simp: min_def max_def)
  note vb = of_exact_bounded [OF sum this]
    f64.rnd_between [OF representable_of_int representable_of_int sum, OF this]
  have "stage_value from stage into = Num (round_f64 (?a + m))"
    using p(1) diff mul vb(1) of_uint_small [OF assms(1)] by (simp add: stage_value_def)
  moreover have "into = 0 \<longrightarrow> round_f64 (?a + m) = ?a"
    using p(4) round_f64_exact [OF f64.exact_0] round_f64_exact [OF representable_of_nat [OF assms(1)]]
    by (simp add: m_def)
  ultimately show ?thesis using vb(2) by (intro that) auto
qed

lemma target_from_Cons:
  "target_from from start (stage # stages) elapsed =
     (case duration_add start (st_duration stage) of
        None \<Rightarrow> None
      | Some stage_end \<Rightarrow>
          (if elapsed < stage_end then Some (f64_to_u64 (f64_round (stage_value from stage (elapsed - start))))
           else target_from (st_target stage) stage_end stages elapsed))"
  by (simp add: stage_value_def Let_def split: option.split)

declare target_from.simps(2) [simp del]

definition total_duration :: "stage list \<Rightarrow> nat" where
  "total_duration stages = sum_list (map st_duration stages)"

text \<open>The target a stage starts from: the previous stage's, and 0 for the first.\<close>

fun previous_target :: "nat \<Rightarrow> stage list \<Rightarrow> nat" where
  "previous_target from [] = from"
| "previous_target from (stage # stages) = previous_target (st_target stage) stages"

lemma f64_round_to_u64_of_nat:
  assumes "n \<le> u64_max"
  shows "f64_to_u64 (f64_round (Num (of_nat n))) = n"
  using rounded_count_bounds [of n "of_nat n" n] assms by (intro antisym) auto

lemma target_from_skip:
  assumes "start + total_duration pre \<le> elapsed" "start + total_duration pre \<le> duration_max"
  shows "target_from from start (pre @ post) elapsed =
    target_from (previous_target from pre) (start + total_duration pre) post elapsed"
  using assms
proof (induction pre arbitrary: "from" start)
  case Nil
  then show ?case by (simp add: total_duration_def)
next
  case (Cons stage pre)
  have t: "total_duration (stage # pre) = st_duration stage + total_duration pre"
    by (simp add: total_duration_def)
  have "duration_add start (st_duration stage) = Some (start + st_duration stage)"
    using Cons.prems(2) by (simp add: duration_add_def t)
  with Cons show ?case by (simp add: target_from_Cons t add.assoc)
qed

lemma target_from_within:
  assumes "start \<le> elapsed" "elapsed < start + st_duration stage" "start + st_duration stage \<le> duration_max"
    "from \<le> 2 ^ 53" "st_target stage \<le> 2 ^ 53" "as_secs (st_duration stage) < 2 ^ 53"
  shows "\<exists>n. target_from from start (stage # post) elapsed = Some n \<and>
    min from (st_target stage) \<le> n \<and> n \<le> max from (st_target stage) \<and> (elapsed = start \<longrightarrow> n = from)"
proof -
  have into: "elapsed - start \<le> st_duration stage" "0 < st_duration stage" using assms(1,2) by simp_all
  obtain v where v: "stage_value from stage (elapsed - start) = Num v"
    "of_nat (min from (st_target stage)) \<le> v" "v \<le> of_nat (max from (st_target stage))"
    "elapsed - start = 0 \<longrightarrow> v = of_nat from"
    using stage_value_bounds [OF assms(4,5) into assms(6)] .
  let ?n = "f64_to_u64 (f64_round (Num v))"
  have hi: "max from (st_target stage) \<le> u64_max" "from \<le> u64_max" using assms(4,5) by simp_all
  have "target_from from start (stage # post) elapsed = Some ?n"
    using assms(2,3) v(1) by (simp add: target_from_Cons duration_add_def del: f64_to_u64.simps f64_round.simps)
  moreover have "min from (st_target stage) \<le> ?n" "?n \<le> max from (st_target stage)"
    by (rule rounded_count_bounds [OF v(2,3) hi(1)])+
  moreover have "elapsed = start \<longrightarrow> ?n = from"
    using v(4) f64_round_to_u64_of_nat [OF hi(2)] by simp
  ultimately show ?thesis by blast
qed

lemma previous_target_le:
  "from \<le> hi \<Longrightarrow> \<forall>s\<in>set pre. st_target s \<le> hi \<Longrightarrow> previous_target from pre \<le> hi"
  by (induction pre arbitrary: "from") auto

lemma as_secs_less: "d < n * nanos_per_sec \<Longrightarrow> as_secs d < n"
  unfolding as_secs_def by (rule less_mult_imp_div_less)

section \<open>Properties\<close>

text \<open>A profile whose durations and targets are in the range in which seconds and counts are exact
  (about 285 million years and 9 quadrillion connections).\<close>

definition profile_ok :: "stage list \<Rightarrow> bool" where
  "profile_ok stages \<longleftrightarrow>
     total_duration stages < 2 ^ 53 * nanos_per_sec \<and> (\<forall>s\<in>set stages. st_target s \<le> 2 ^ 53)"

text \<open>Inside a stage the number of connections a run should have open stays between the previous
  stage's target and the stage's own, in spite of the rounding of seconds and ratios to floating
  point, and it is exactly the previous target when the stage begins.\<close>

theorem stage_target_between:
  assumes "profile_ok (pre @ stage # post)"
    "total_duration pre \<le> elapsed" "elapsed < total_duration pre + st_duration stage"
  shows "\<exists>n. target_at (pre @ stage # post) elapsed = Some n \<and>
    min (previous_target 0 pre) (st_target stage) \<le> n \<and>
    n \<le> max (previous_target 0 pre) (st_target stage) \<and>
    (elapsed = total_duration pre \<longrightarrow> n = previous_target 0 pre)"
proof -
  have t: "total_duration pre + st_duration stage < 2 ^ 53 * nanos_per_sec"
    using assms(1) by (simp add: profile_ok_def total_duration_def)
  then have "as_secs (st_duration stage) < 2 ^ 53" by (intro as_secs_less) linarith
  moreover have "previous_target 0 pre \<le> 2 ^ 53" "st_target stage \<le> 2 ^ 53"
    using assms(1) by (auto simp: profile_ok_def intro!: previous_target_le)
  moreover have "total_duration pre + st_duration stage \<le> duration_max" using t by simp
  ultimately have "\<exists>n. target_from (previous_target 0 pre) (total_duration pre) (stage # post) elapsed = Some n \<and>
      min (previous_target 0 pre) (st_target stage) \<le> n \<and> n \<le> max (previous_target 0 pre) (st_target stage) \<and>
      (elapsed = total_duration pre \<longrightarrow> n = previous_target 0 pre)"
    using assms(2,3) by (intro target_from_within)
  then show ?thesis
    using target_from_skip [of 0 pre elapsed 0 "stage # post"] assms(2) t
    by (simp add: target_at_def)
qed

theorem stage_target_between_witness:
  "\<exists>n. target_at ([\<lparr>st_duration = 30000000000, st_target = 100\<rparr>] @ \<lparr>st_duration = 7, st_target = 40\<rparr> # []) 30000000003
     = Some n \<and>
    min (previous_target 0 [\<lparr>st_duration = 30000000000, st_target = 100\<rparr>]) 40 \<le> n \<and>
    n \<le> max (previous_target 0 [\<lparr>st_duration = 30000000000, st_target = 100\<rparr>]) 40"
  using stage_target_between [of "[\<lparr>st_duration = 30000000000, st_target = 100\<rparr>]" "\<lparr>st_duration = 7, st_target = 40\<rparr>"
      "[]" 30000000003]
  by (auto simp: profile_ok_def total_duration_def)

text \<open>After the last stage the run keeps the last target.\<close>

lemma stage_target_after_end:
  assumes "total_duration stages \<le> elapsed" "total_duration stages \<le> duration_max"
  shows "target_at stages elapsed = Some (previous_target 0 stages)"
  using target_from_skip [of 0 stages elapsed 0 "[]"] assms by (simp add: target_at_def)

lemma stage_target_after_end_witness:
  "target_at [\<lparr>st_duration = 5, st_target = 100\<rparr>, \<lparr>st_duration = 7, st_target = 40\<rparr>] 99 = Some 40"
  using stage_target_after_end [of "[\<lparr>st_duration = 5, st_target = 100\<rparr>, \<lparr>st_duration = 7, st_target = 40\<rparr>]" 99]
  by (simp add: total_duration_def)

text \<open>An arrival run always expects at least one connection, and never more than its cap.\<close>

lemma expected_connections_bounds:
  "1 \<le> expected_connections a \<and>
   (case ar_max_connections a of None \<Rightarrow> True | Some hi \<Rightarrow> expected_connections a \<le> max hi 1)"
  by (auto simp: expected_connections_def Let_def min_def max_def split: option.split)

end
