(* ===== verification/Run_Totals.thy ===== *)
theory Run_Totals
  imports Lag Stages "HOL-Library.Char_ord" "HOL-Library.List_Lexorder"
begin

text \<open>
  How \<open>src/metrics.rs\<close> turns the metrics of workers into a report: \<open>MetricsTotals\<close> adds up workers, and on a
  coordinator the totals of agents; \<open>finish\<close> summarises them into \<open>AggregatedMetrics\<close>. Counters are 64-bit
  words and wrap. A latency recorder is found by its address, since \<open>add_recorder\<close> compares addresses
  (\<open>Arc::ptr_eq\<close>). The actions of a \<open>BTreeMap\<close> are an \<open>fmap\<close>, iterated in name order.
\<close>

section \<open>Arrivals, compression and chaos\<close>

record arrival_counts =
  arc_started :: nat
  arc_skipped :: nat
  arc_peak_open :: nat
  arc_interval_peaks :: "nat list"

definition arrival_counts_default :: arrival_counts where
  "arrival_counts_default = \<lparr>arc_started = 0, arc_skipped = 0, arc_peak_open = 0, arc_interval_peaks = []\<rparr>"

text \<open>\<open>Vec::resize\<close> to a length that is not shorter.\<close>

definition resize_to :: "nat \<Rightarrow> 'a \<Rightarrow> 'a list \<Rightarrow> 'a list" where
  "resize_to n x xs = xs @ replicate (n - length xs) x"

definition observe :: "nat \<Rightarrow> nat \<Rightarrow> arrival_counts \<Rightarrow> arrival_counts" where
  "observe interval now_open c =
     (let peaks = (if length (arc_interval_peaks c) \<le> interval
                   then resize_to (interval + 1) now_open (arc_interval_peaks c) else arc_interval_peaks c)
      in c\<lparr>arc_interval_peaks := peaks[interval := max (peaks ! interval) now_open],
           arc_peak_open := max (arc_peak_open c) now_open\<rparr>)"

fun add_zip :: "nat list \<Rightarrow> nat list \<Rightarrow> nat list" where
  "add_zip (x # xs) (y # ys) = (x + y) # add_zip xs ys"
| "add_zip xs ys = xs"

definition add_arrivals :: "arrival_counts \<Rightarrow> arrival_counts \<Rightarrow> arrival_counts" where
  "add_arrivals other c =
     (let peaks = (if length (arc_interval_peaks c) < length (arc_interval_peaks other)
                   then resize_to (length (arc_interval_peaks other)) 0 (arc_interval_peaks c)
                   else arc_interval_peaks c);
          peaks = add_zip peaks (arc_interval_peaks other);
          peak_open = arc_peak_open c + arc_peak_open other
      in \<lparr>arc_started = arc_started c + arc_started other, arc_skipped = arc_skipped c + arc_skipped other,
          arc_peak_open = (if peaks = [] then peak_open else min peak_open (Max (set peaks))),
          arc_interval_peaks = peaks\<rparr>)"

record compression_counts =
  cc_offered :: u64
  cc_negotiated :: u64
  cc_bytes_sent :: u64
  cc_wire_bytes_sent :: u64
  cc_bytes_recv :: u64
  cc_wire_bytes_recv :: u64

text \<open>\<open>CompressionCounts::add\<close>; \<open>CompressionSummary\<close> has the same fields and the same \<open>add\<close>.\<close>

type_synonym compression_summary = compression_counts

definition add_compression :: "compression_counts \<Rightarrow> compression_counts \<Rightarrow> compression_counts" where
  "add_compression other c =
     \<lparr>cc_offered = cc_offered c + cc_offered other, cc_negotiated = cc_negotiated c + cc_negotiated other,
      cc_bytes_sent = cc_bytes_sent c + cc_bytes_sent other,
      cc_wire_bytes_sent = cc_wire_bytes_sent c + cc_wire_bytes_sent other,
      cc_bytes_recv = cc_bytes_recv c + cc_bytes_recv other,
      cc_wire_bytes_recv = cc_wire_bytes_recv c + cc_wire_bytes_recv other\<rparr>"

record arrival_summary =
  asum_rate :: f64
  asum_session_secs :: f64
  asum_max_connections :: "nat option"
  asum_started :: nat
  asum_skipped :: nat
  asum_peak_open :: nat

definition arrival_summary_new :: "arrivals \<Rightarrow> arrival_counts \<Rightarrow> arrival_summary" where
  "arrival_summary_new a c =
     \<lparr>asum_rate = ar_rate a, asum_session_secs = as_secs_f64 (ar_session_duration a),
      asum_max_connections = ar_max_connections a, asum_started = arc_started c, asum_skipped = arc_skipped c,
      asum_peak_open = arc_peak_open c\<rparr>"

definition add_phase :: "arrival_summary \<Rightarrow> arrival_summary \<Rightarrow> arrival_summary" where
  "add_phase other s = s\<lparr>asum_started := asum_started s + asum_started other,
     asum_skipped := asum_skipped s + asum_skipped other, asum_peak_open := max (asum_peak_open s) (asum_peak_open other)\<rparr>"

definition add_chaos_counts :: "chaos_summary \<Rightarrow> chaos_summary \<Rightarrow> chaos_summary" where
  "add_chaos_counts other c =
     c\<lparr>csum_delayed := csum_delayed c + csum_delayed other, csum_dropped := csum_dropped c + csum_dropped other,
       csum_corrupted := csum_corrupted c + csum_corrupted other, csum_closes := csum_closes c + csum_closes other,
       csum_read_pauses := csum_read_pauses c + csum_read_pauses other\<rparr>"

definition add_chaos :: "chaos_summary option \<Rightarrow> chaos_summary option \<Rightarrow> chaos_summary option" where
  "add_chaos other c =
     (case (c, other) of
        (Some c, Some other) \<Rightarrow> Some (add_chaos_counts other c)
      | (None, Some other) \<Rightarrow> Some other
      | (c, None) \<Rightarrow> c)"

section \<open>Totals\<close>

record 'h action_totals =
  at_rtt :: 'h
  at_response :: 'h
  at_counts :: action_counts

definition action_totals_new :: "'h hdr \<Rightarrow> 'h action_totals option" where
  "action_totals_new H =
     (case (latency_histogram H, latency_histogram H) of
        (Some rtt, Some response) \<Rightarrow> Some \<lparr>at_rtt = rtt, at_response = response, at_counts = action_zero\<rparr>
      | _ \<Rightarrow> None)"

definition at_add_counts :: "action_counts \<Rightarrow> 'h action_totals \<Rightarrow> 'h action_totals" where
  "at_add_counts c t =
     t\<lparr>at_counts := \<lparr>ac_sent = ac_sent (at_counts t) + ac_sent c, ac_errors = ac_errors (at_counts t) + ac_errors c,
        ac_sent_message_errors = ac_sent_message_errors (at_counts t) + ac_sent_message_errors c\<rparr>\<rparr>"

record 'h metrics_totals =
  mt_handshake :: 'h
  mt_rtt :: 'h
  mt_response :: 'h
  mt_messages_sent :: u64
  mt_messages_recv :: u64
  mt_bytes_sent :: u64
  mt_bytes_recv :: u64
  mt_reconnects :: u64
  mt_unsolicited :: u64
  mt_sent_message_errors :: u64
  mt_interrupted :: u64
  mt_errors :: "error_category \<Rightarrow> u64 option"
  mt_chaos :: "chaos_summary option"
  mt_absorbed :: "nat list"
  mt_actions :: "(string, 'h action_totals) fmap"

definition totals_new :: "'h hdr \<Rightarrow> 'h metrics_totals option" where
  "totals_new H =
     (case (latency_histogram H, latency_histogram H, latency_histogram H) of
        (Some handshake, Some rtt, Some response) \<Rightarrow>
          Some \<lparr>mt_handshake = handshake, mt_rtt = rtt, mt_response = response, mt_messages_sent = 0,
            mt_messages_recv = 0, mt_bytes_sent = 0, mt_bytes_recv = 0, mt_reconnects = 0, mt_unsolicited = 0,
            mt_sent_message_errors = 0, mt_interrupted = 0, mt_errors = (\<lambda>_. None), mt_chaos = None,
            mt_absorbed = [], mt_actions = fmempty\<rparr>
      | _ \<Rightarrow> None)"

text \<open>\<open>MetricsTotals::action\<close> and an update of what it returns; nothing happens when it returns \<open>None\<close>.\<close>

definition find_action :: "'h hdr \<Rightarrow> string \<Rightarrow> (string, 'h action_totals) fmap \<Rightarrow> 'h action_totals option" where
  "find_action H name actions =
     (case fmlookup actions name of None \<Rightarrow> action_totals_new H | Some a \<Rightarrow> Some a)"

definition with_action ::
    "'h hdr \<Rightarrow> string \<Rightarrow> ('h action_totals \<Rightarrow> 'h action_totals) \<Rightarrow> 'h metrics_totals \<Rightarrow> 'h metrics_totals" where
  "with_action H name f t =
     (case find_action H name (mt_actions t) of
        None \<Rightarrow> t
      | Some a \<Rightarrow> t\<lparr>mt_actions := fmupd name (f a) (mt_actions t)\<rparr>)"

definition absorb_action :: "'h hdr \<Rightarrow> latency_recorder \<Rightarrow> nat \<Rightarrow> 'h action_totals \<Rightarrow> 'h action_totals" where
  "absorb_action H r index a =
     (case add_action_to (hdr_record_n H) r index (at_rtt a, at_response a) of (rtt, response) \<Rightarrow>
        a\<lparr>at_rtt := rtt, at_response := response\<rparr>)"

definition add_recorder :: "'h hdr \<Rightarrow> (nat \<Rightarrow> latency_recorder) \<Rightarrow> nat \<Rightarrow> 'h metrics_totals \<Rightarrow> 'h metrics_totals" where
  "add_recorder H recs addr t =
     (if addr \<in> set (mt_absorbed t) then t
      else (let r = recs addr;
                t = (case lr_add_to (hdr_record_n H) r (mt_handshake t, mt_rtt t, mt_response t) of
                       (handshake, rtt, response) \<Rightarrow> t\<lparr>mt_handshake := handshake, mt_rtt := rtt, mt_response := response\<rparr>);
                t = fold (\<lambda>(index, name). with_action H name (absorb_action H r index))
                      (List.enumerate 0 (action_names r)) t
            in t\<lparr>mt_absorbed := mt_absorbed t @ [addr]\<rparr>))"

definition add_errors ::
    "(error_category \<Rightarrow> u64 option) \<Rightarrow> (error_category \<Rightarrow> u64 option) \<Rightarrow> error_category \<Rightarrow> u64 option" where
  "add_errors other errors c =
     (case other c of
        None \<Rightarrow> errors c
      | Some n \<Rightarrow> Some ((case errors c of None \<Rightarrow> 0 | Some m \<Rightarrow> m) + n))"

definition add_worker_counts ::
    "'h hdr \<Rightarrow> (nat \<Rightarrow> latency_recorder) \<Rightarrow> worker_metrics \<Rightarrow> 'h metrics_totals \<Rightarrow> 'h metrics_totals" where
  "add_worker_counts H recs w t =
     (let t = fold (\<lambda>(index, name). with_action H name
                  (if index < length (w_actions w) then at_add_counts (w_actions w ! index) else id))
                (List.enumerate 0 (action_names (recs (w_latency w)))) t
      in t\<lparr>mt_messages_sent := mt_messages_sent t + w_messages_sent w,
           mt_messages_recv := mt_messages_recv t + w_messages_recv w,
           mt_bytes_sent := mt_bytes_sent t + w_bytes_sent w, mt_bytes_recv := mt_bytes_recv t + w_bytes_recv w,
           mt_reconnects := mt_reconnects t + w_reconnects w, mt_unsolicited := mt_unsolicited t + w_unsolicited w,
           mt_sent_message_errors := mt_sent_message_errors t + w_sent_message_errors w,
           mt_interrupted := mt_interrupted t + (if w_interrupted w then 1 else 0),
           mt_errors := add_errors (w_errors w) (mt_errors t), mt_chaos := add_chaos (w_chaos w) (mt_chaos t)\<rparr>)"

definition add_worker ::
    "'h hdr \<Rightarrow> (nat \<Rightarrow> latency_recorder) \<Rightarrow> worker_metrics \<Rightarrow> 'h metrics_totals \<Rightarrow> 'h metrics_totals" where
  "add_worker H recs w t = add_worker_counts H recs w (add_recorder H recs (w_latency w) t)"

definition sum_action :: "'h hdr \<Rightarrow> 'h action_totals \<Rightarrow> 'h action_totals \<Rightarrow> 'h action_totals option" where
  "sum_action H ours theirs =
     (case hdr_add H (at_rtt ours) (at_rtt theirs) of
        None \<Rightarrow> None
      | Some rtt \<Rightarrow>
          (case hdr_add H (at_response ours) (at_response theirs) of
             None \<Rightarrow> None
           | Some response \<Rightarrow> Some (at_add_counts (at_counts theirs) (ours\<lparr>at_rtt := rtt, at_response := response\<rparr>))))"

fun add_actions ::
    "'h hdr \<Rightarrow> (string, 'h action_totals) fmap \<Rightarrow> string list \<Rightarrow> (string, 'h action_totals) fmap
     \<Rightarrow> (string, 'h action_totals) fmap option" where
  "add_actions H theirs [] ours = Some ours"
| "add_actions H theirs (name # names) ours =
     (case find_action H name ours of
        None \<Rightarrow> None
      | Some a \<Rightarrow>
          (case sum_action H a (the (fmlookup theirs name)) of
             None \<Rightarrow> None
           | Some a \<Rightarrow> add_actions H theirs names (fmupd name a ours)))"

text \<open>\<open>MetricsTotals::add\<close>; \<open>None\<close> is \<open>WsBlastError::Metrics\<close>.\<close>

definition add_totals :: "'h hdr \<Rightarrow> 'h metrics_totals \<Rightarrow> 'h metrics_totals \<Rightarrow> 'h metrics_totals option" where
  "add_totals H t other =
     (case hdr_add H (mt_handshake t) (mt_handshake other) of None \<Rightarrow> None | Some handshake \<Rightarrow>
     (case hdr_add H (mt_rtt t) (mt_rtt other) of None \<Rightarrow> None | Some rtt \<Rightarrow>
     (case hdr_add H (mt_response t) (mt_response other) of None \<Rightarrow> None | Some response \<Rightarrow>
     (case add_actions H (mt_actions other) (sorted_list_of_fset (fmdom (mt_actions other))) (mt_actions t) of
        None \<Rightarrow> None
      | Some actions \<Rightarrow>
          Some (t\<lparr>mt_handshake := handshake, mt_rtt := rtt, mt_response := response,
            mt_messages_sent := mt_messages_sent t + mt_messages_sent other,
            mt_messages_recv := mt_messages_recv t + mt_messages_recv other,
            mt_bytes_sent := mt_bytes_sent t + mt_bytes_sent other,
            mt_bytes_recv := mt_bytes_recv t + mt_bytes_recv other,
            mt_reconnects := mt_reconnects t + mt_reconnects other,
            mt_unsolicited := mt_unsolicited t + mt_unsolicited other,
            mt_sent_message_errors := mt_sent_message_errors t + mt_sent_message_errors other,
            mt_interrupted := mt_interrupted t + mt_interrupted other,
            mt_errors := add_errors (mt_errors other) (mt_errors t),
            mt_chaos := add_chaos (mt_chaos other) (mt_chaos t), mt_actions := actions\<rparr>)))))"

section \<open>The report\<close>

record action_metrics =
  am_name :: string
  am_messages_sent :: u64
  am_errors :: u64
  am_error_rate :: f64
  am_message_rtt :: latency_stats
  am_response_time :: latency_stats

definition rate_of :: "u64 \<Rightarrow> u64 \<Rightarrow> f64" where
  "rate_of errors attempted =
     (if attempted > 0 then f64_min (f64_div (of_uint (unat errors)) (of_uint (unat attempted))) (Num 1) else Num 0)"

definition action_metrics_of :: "'h hdr \<Rightarrow> string \<Rightarrow> 'h action_totals \<Rightarrow> action_metrics" where
  "action_metrics_of H name t =
     (let c = at_counts t;
          attempted = ac_sent c + saturating_sub (ac_errors c) (ac_sent_message_errors c)
      in \<lparr>am_name = name, am_messages_sent = ac_sent c, am_errors = ac_errors c,
          am_error_rate = rate_of (ac_errors c) attempted,
          am_message_rtt = stats_from_histogram H (at_rtt t), am_response_time = stats_from_histogram H (at_response t)\<rparr>)"

definition action_latency_of :: "action_metrics \<Rightarrow> latency_stats" where
  "action_latency_of m = (if ls_count (am_response_time m) > 0 then am_response_time m else am_message_rtt m)"

record slow_replies =
  sr_threshold_us :: nat
  sr_count :: nat
  sr_reply_share :: f64
  sr_wait_share :: f64

definition HINT_SHARE :: f64 where "HINT_SHARE = of_exact (1 / 100)"

fun slow_loop :: "nat \<Rightarrow> (nat \<times> nat) list \<Rightarrow> nat \<times> nat \<times> nat \<Rightarrow> nat \<times> nat \<times> nat" where
  "slow_loop threshold [] acc = acc"
| "slow_loop threshold ((value_us, n) # buckets) (cnt, slow, total_us) =
     (let wait = value_us * n
      in slow_loop threshold buckets
           (if value_us > threshold then (cnt + n, slow + wait, total_us + wait) else (cnt, slow, total_us + wait)))"

definition slow_replies_of :: "'h hdr \<Rightarrow> 'h \<Rightarrow> slow_replies option" where
  "slow_replies_of H rtt =
     (if hdr_is_empty H rtt then None
      else (let threshold = max (saturating_mul (hdr_value_at_quantile H (of_exact (1 / 2)) rtt) 10) 10000;
                (cnt, slow, total_us) = slow_loop threshold (hdr_iter_recorded H rtt) (0, 0, 0)
            in if cnt > 0
               then Some \<lparr>sr_threshold_us = threshold, sr_count = cnt,
                      sr_reply_share = f64_div (of_uint cnt) (of_uint (unat (hdr_len H rtt))),
                      sr_wait_share = f64_div (of_uint slow) (of_uint (max total_us 1))\<rparr>
               else None))"

definition hides_a_stall :: "slow_replies \<Rightarrow> bool" where
  "hides_a_stall s = (f64_le HINT_SHARE (sr_wait_share s) \<and> f64_lt (sr_reply_share s) HINT_SHARE)"

record open_file_limit =
  of_soft_limit :: nat
  of_needed :: nat
  of_sufficient :: bool

record capture_summary =
  cap_path :: string
  cap_written :: nat
  cap_dropped :: nat
  cap_limit :: nat

record agent_generator =
  ag_agent :: string
  ag_lag :: "generator_lag option"
  ag_files :: "open_file_limit option"

record distributed_summary =
  ds_agents :: "string list"
  ds_lost :: "string list"
  ds_generators :: "agent_generator list"
  ds_lag_agent :: "string option"
  ds_files_agent :: "string option"

definition saturated_agents :: "distributed_summary \<Rightarrow> string list" where
  "saturated_agents s = map ag_agent (filter (\<lambda>a. case ag_lag a of None \<Rightarrow> False | Some l \<Rightarrow> gl_saturated l) (ds_generators s))"

definition agents_short_of_files :: "distributed_summary \<Rightarrow> string list" where
  "agents_short_of_files s =
     map ag_agent (filter (\<lambda>a. case ag_files a of None \<Rightarrow> False | Some l \<Rightarrow> \<not> of_sufficient l) (ds_generators s))"

record aggregated_metrics =
  m_attempted :: u64
  m_established :: u64
  m_failed :: u64
  m_interrupted :: u64
  m_not_started :: u64
  m_reconnects :: u64
  m_unsolicited :: u64
  m_messages_sent :: u64
  m_messages_recv :: u64
  m_bytes_sent :: u64
  m_bytes_recv :: u64
  m_elapsed :: duration
  m_throughput_msg :: f64
  m_throughput_bytes :: f64
  m_error_rate :: f64
  m_handshake :: latency_stats
  m_rtt :: latency_stats
  m_response :: latency_stats
  m_time_series :: time_series
  m_errors :: "error_category \<Rightarrow> u64 option"
  m_capture :: "capture_summary option"
  m_distributed :: "distributed_summary option"
  m_chaos :: "chaos_summary option"
  m_generator_lag :: "generator_lag option"
  m_open_files :: "open_file_limit option"
  m_slow_replies :: "slow_replies option"
  m_actions :: "action_metrics list"
  m_arrivals :: "arrival_summary option"
  m_compression :: "compression_summary option"

definition totals_finish :: "'h hdr \<Rightarrow> duration \<Rightarrow> u64 \<Rightarrow> 'h metrics_totals \<Rightarrow> aggregated_metrics" where
  "totals_finish H elapsed attempted t =
     (let total_errors = error_sum (mt_errors t);
          attempted_ops = mt_messages_sent t + saturating_sub total_errors (mt_sent_message_errors t);
          elapsed_secs = f64_max (as_secs_f64 elapsed) (of_exact (1 / 10000));
          established = min (saturating_sub (hdr_len H (mt_handshake t)) (mt_reconnects t)) attempted;
          interrupted = min (mt_interrupted t) (saturating_sub attempted established);
          failed = saturating_sub (saturating_sub attempted established) interrupted
      in \<lparr>m_attempted = attempted, m_established = established, m_failed = failed, m_interrupted = interrupted,
          m_not_started = 0, m_reconnects = mt_reconnects t, m_unsolicited = mt_unsolicited t,
          m_messages_sent = mt_messages_sent t, m_messages_recv = mt_messages_recv t,
          m_bytes_sent = mt_bytes_sent t, m_bytes_recv = mt_bytes_recv t, m_elapsed = elapsed,
          m_throughput_msg = f64_div (of_uint (unat (max (mt_messages_sent t) (mt_messages_recv t)))) elapsed_secs,
          m_throughput_bytes = f64_div (of_uint (unat (mt_bytes_sent t + mt_bytes_recv t))) elapsed_secs,
          m_error_rate = rate_of total_errors attempted_ops,
          m_handshake = stats_from_histogram H (mt_handshake t), m_rtt = stats_from_histogram H (mt_rtt t),
          m_response = stats_from_histogram H (mt_response t), m_time_series = series_default,
          m_errors = mt_errors t, m_capture = None, m_distributed = None, m_chaos = mt_chaos t,
          m_generator_lag = None, m_open_files = None,
          m_slow_replies = (if hdr_is_empty H (mt_response t) then slow_replies_of H (mt_rtt t) else None),
          m_actions = map (\<lambda>name. action_metrics_of H name (the (fmlookup (mt_actions t) name)))
            (sorted_list_of_fset (fmdom (mt_actions t))),
          m_arrivals = None, m_compression = None\<rparr>)"

definition merge_workers ::
    "'h hdr \<Rightarrow> (nat \<Rightarrow> latency_recorder) \<Rightarrow> worker_metrics list \<Rightarrow> duration \<Rightarrow> u64 \<Rightarrow> aggregated_metrics option" where
  "merge_workers H recs workers elapsed attempted =
     map_option (\<lambda>t. totals_finish H elapsed attempted (fold (add_worker H recs) workers t)) (totals_new H)"

definition with_not_started :: "u64 \<Rightarrow> aggregated_metrics \<Rightarrow> aggregated_metrics" where
  "with_not_started not_started m =
     (let not_started = min not_started (m_failed m)
      in m\<lparr>m_failed := m_failed m - not_started, m_not_started := not_started\<rparr>)"

definition with_time_series :: "time_series \<Rightarrow> aggregated_metrics \<Rightarrow> aggregated_metrics" where
  "with_time_series s m = m\<lparr>m_time_series := s\<rparr>"

definition with_distributed :: "distributed_summary \<Rightarrow> aggregated_metrics \<Rightarrow> aggregated_metrics" where
  "with_distributed s m = m\<lparr>m_distributed := Some s\<rparr>"

definition with_generator ::
    "generator_lag option \<Rightarrow> open_file_limit option \<Rightarrow> aggregated_metrics \<Rightarrow> aggregated_metrics" where
  "with_generator lag files m = m\<lparr>m_generator_lag := lag, m_open_files := files\<rparr>"

definition with_arrivals :: "arrivals option \<Rightarrow> arrival_counts option \<Rightarrow> aggregated_metrics \<Rightarrow> aggregated_metrics" where
  "with_arrivals a c m =
     m\<lparr>m_arrivals := (case (a, c) of (Some a, Some c) \<Rightarrow> Some (arrival_summary_new a c) | _ \<Rightarrow> None)\<rparr>"

definition with_compression :: "compression_counts option \<Rightarrow> aggregated_metrics \<Rightarrow> aggregated_metrics" where
  "with_compression c m = m\<lparr>m_compression := c\<rparr>"

definition with_capture :: "capture_summary option \<Rightarrow> aggregated_metrics \<Rightarrow> aggregated_metrics" where
  "with_capture c m = m\<lparr>m_capture := c\<rparr>"

section \<open>Adding as a sequence of steps\<close>

text \<open>The elementary changes that adding a recorder or a worker makes to the totals.\<close>

datatype totals_op =
    Op_latency "(nat \<times> nat) list" "(nat \<times> nat) list" "(nat \<times> nat) list"
  | Op_action string "(nat \<times> nat) list" "(nat \<times> nat) list" "action_counts option"
  | Op_counts worker_metrics

definition change_action ::
    "'h hdr \<Rightarrow> (nat \<times> nat) list \<Rightarrow> (nat \<times> nat) list \<Rightarrow> action_counts option \<Rightarrow> 'h action_totals \<Rightarrow> 'h action_totals" where
  "change_action H rtt response c a =
     (case c of None \<Rightarrow> id | Some c \<Rightarrow> at_add_counts c)
       (a\<lparr>at_rtt := fold (hdr_record_at H) rtt (at_rtt a), at_response := fold (hdr_record_at H) response (at_response a)\<rparr>)"

fun totals_step :: "'h hdr \<Rightarrow> totals_op \<Rightarrow> 'h metrics_totals \<Rightarrow> 'h metrics_totals" where
  "totals_step H (Op_latency handshake rtt response) t =
     t\<lparr>mt_handshake := fold (hdr_record_at H) handshake (mt_handshake t), mt_rtt := fold (hdr_record_at H) rtt (mt_rtt t),
       mt_response := fold (hdr_record_at H) response (mt_response t)\<rparr>"
| "totals_step H (Op_action name rtt response c) t = with_action H name (change_action H rtt response c) t"
| "totals_step H (Op_counts w) t =
     t\<lparr>mt_messages_sent := mt_messages_sent t + w_messages_sent w, mt_messages_recv := mt_messages_recv t + w_messages_recv w,
       mt_bytes_sent := mt_bytes_sent t + w_bytes_sent w, mt_bytes_recv := mt_bytes_recv t + w_bytes_recv w,
       mt_reconnects := mt_reconnects t + w_reconnects w, mt_unsolicited := mt_unsolicited t + w_unsolicited w,
       mt_sent_message_errors := mt_sent_message_errors t + w_sent_message_errors w,
       mt_interrupted := mt_interrupted t + (if w_interrupted w then 1 else 0),
       mt_errors := add_errors (w_errors w) (mt_errors t), mt_chaos := add_chaos (w_chaos w) (mt_chaos t)\<rparr>"

definition recorder_ops :: "latency_recorder \<Rightarrow> totals_op list" where
  "recorder_ops r =
     Op_latency (shards_recorded (shards (lr_handshake r))) (shards_recorded (shards (lr_rtt r)))
       (shards_recorded (shards (lr_response r))) #
     map (\<lambda>(index, name). Op_action name (shards_recorded (shards (al_rtt (lr_actions r ! index))))
       (shards_recorded (shards (al_response (lr_actions r ! index)))) None) (List.enumerate 0 (action_names r))"

definition count_ops :: "(nat \<Rightarrow> latency_recorder) \<Rightarrow> worker_metrics \<Rightarrow> totals_op list" where
  "count_ops recs w =
     map (\<lambda>(index, name). Op_action name [] [] (if index < length (w_actions w) then Some (w_actions w ! index) else None))
       (List.enumerate 0 (action_names (recs (w_latency w)))) @ [Op_counts w]"

text \<open>The steps of adding workers when the recorders \<open>seen\<close> have been added.\<close>

fun worker_ops :: "(nat \<Rightarrow> latency_recorder) \<Rightarrow> nat set \<Rightarrow> worker_metrics list \<Rightarrow> totals_op list" where
  "worker_ops recs seen [] = []"
| "worker_ops recs seen (w # ws) =
     (if w_latency w \<in> seen then [] else recorder_ops (recs (w_latency w))) @ count_ops recs w @
     worker_ops recs (insert (w_latency w) seen) ws"

lemma change_action_absorb:
  "index < length (lr_actions r) \<Longrightarrow>
   change_action H (shards_recorded (shards (al_rtt (lr_actions r ! index))))
     (shards_recorded (shards (al_response (lr_actions r ! index)))) None = absorb_action H r index"
  by (simp add: fun_eq_iff change_action_def absorb_action_def add_action_to_def ah_add_to_fold)

lemma change_action_count: "change_action H [] [] c = (case c of None \<Rightarrow> id | Some c \<Rightarrow> at_add_counts c)"
  by (auto simp: fun_eq_iff change_action_def at_add_counts_def split: option.split)

lemma with_action_absorbed [simp]:
  "with_action H name f (t\<lparr>mt_absorbed := a\<rparr>) = (with_action H name f t)\<lparr>mt_absorbed := a\<rparr>"
  "mt_absorbed (with_action H name f t) = mt_absorbed t"
  by (simp_all add: with_action_def split: option.split)

lemma totals_step_absorbed [simp]:
  "totals_step H op (t\<lparr>mt_absorbed := a\<rparr>) = (totals_step H op t)\<lparr>mt_absorbed := a\<rparr>"
  "mt_absorbed (totals_step H op t) = mt_absorbed t"
  by (cases op; simp)+

lemma totals_steps_absorbed [simp]:
  "fold (totals_step H) ops (t\<lparr>mt_absorbed := a\<rparr>) = (fold (totals_step H) ops t)\<lparr>mt_absorbed := a\<rparr>"
  "mt_absorbed (fold (totals_step H) ops t) = mt_absorbed t"
  by (induction ops arbitrary: t) simp_all

lemma fold_map_cong: "(\<And>x s. x \<in> set xs \<Longrightarrow> f (g x) s = h x s) \<Longrightarrow> fold f (map g xs) s = fold h xs s"
  by (induction xs arbitrary: s) simp_all

lemma add_recorder_ops:
  "add_recorder H recs addr t =
     (if addr \<in> set (mt_absorbed t) then t
      else (fold (totals_step H) (recorder_ops (recs addr)) t)\<lparr>mt_absorbed := mt_absorbed t @ [addr]\<rparr>)"
proof -
  let ?r = "recs addr"
  have "fold (totals_step H) (map (\<lambda>(index, name). Op_action name (shards_recorded (shards (al_rtt (lr_actions ?r ! index))))
       (shards_recorded (shards (al_response (lr_actions ?r ! index)))) None) (List.enumerate 0 (action_names ?r))) t' =
    fold (\<lambda>(index, name). with_action H name (absorb_action H ?r index)) (List.enumerate 0 (action_names ?r)) t'" for t'
    by (rule fold_map_cong) (auto simp: action_names_def in_set_enumerate_eq change_action_absorb)
  moreover have "mt_absorbed (fold (\<lambda>(index, name). with_action H name (absorb_action H ?r index)) xs t') = mt_absorbed t'" for xs t'
    by (induction xs arbitrary: t') (auto split: prod.split)
  ultimately show ?thesis
    by (simp add: add_recorder_def recorder_ops_def lr_add_to_def ah_add_to_fold Let_def)
qed

lemma add_worker_counts_ops: "add_worker_counts H recs w t = fold (totals_step H) (count_ops recs w) t"
proof -
  have "fold (totals_step H) (map (\<lambda>(index, name). Op_action name [] [] (if index < length (w_actions w) then Some (w_actions w ! index) else None)) xs) t =
    fold (\<lambda>(index, name). with_action H name (if index < length (w_actions w) then at_add_counts (w_actions w ! index) else id)) xs t" for xs
    by (rule fold_map_cong) (auto simp: change_action_count)
  then show ?thesis by (simp add: add_worker_counts_def count_ops_def Let_def)
qed

lemma add_workers_ops:
  "(fold (add_worker H recs) ws t)\<lparr>mt_absorbed := a\<rparr> =
   (fold (totals_step H) (worker_ops recs (set (mt_absorbed t)) ws) t)\<lparr>mt_absorbed := a\<rparr>"
proof (induction ws arbitrary: t)
  case (Cons w ws)
  let ?t = "add_worker H recs w t"
  have "set (mt_absorbed ?t) = insert (w_latency w) (set (mt_absorbed t))"
    by (auto simp: add_worker_def add_worker_counts_ops add_recorder_ops)
  with Cons.IH [of ?t] show ?case
    by (auto simp: add_worker_def add_worker_counts_ops add_recorder_ops)
qed simp

section \<open>Merging agents\<close>

definition action_ok :: "'h hdr \<Rightarrow> 'h action_totals \<Rightarrow> bool" where
  "action_ok H a \<longleftrightarrow> hdr_ok H 3 (at_rtt a) \<and> hdr_ok H 3 (at_response a)"

definition totals_ok :: "'h hdr \<Rightarrow> 'h metrics_totals \<Rightarrow> bool" where
  "totals_ok H t \<longleftrightarrow> hdr_ok H 3 (mt_handshake t) \<and> hdr_ok H 3 (mt_rtt t) \<and> hdr_ok H 3 (mt_response t) \<and>
     (\<forall>name a. fmlookup (mt_actions t) name = Some a \<longrightarrow> action_ok H a)"

definition totals_empty :: "'h hdr \<Rightarrow> 'h metrics_totals \<Rightarrow> bool" where
  "totals_empty H t \<longleftrightarrow> hdr_add_law H 3 \<and> totals_new H = Some t"

lemma latency_histogram_fresh: "hdr_add_law H 3 \<Longrightarrow> latency_histogram H = Some h \<Longrightarrow> hdr_fresh H 3 h"
  by (simp add: latency_histogram_def hdr_fresh_def layout_defs)

lemma hdr_built_new: "hdr_built H sigfig h \<Longrightarrow> hdr_new_with_bounds H 1 60000000 sigfig \<noteq> None"
  by (induction rule: hdr_built.induct) simp_all

lemma action_totals_new_ok:
  assumes "hdr_add_law H 3" "action_totals_new H = Some a"
  shows "action_ok H a" "hdr_fresh H 3 (at_rtt a)" "hdr_fresh H 3 (at_response a)" "at_counts a = action_zero"
  using assms by (auto simp: action_totals_new_def action_ok_def split: option.splits
      intro: latency_histogram_fresh hist.ok_empty [OF latency_histogram_fresh])

lemma find_action_ok: "totals_ok H t \<Longrightarrow> find_action H name (mt_actions t) = Some a \<Longrightarrow> action_ok H a"
  by (auto simp: find_action_def totals_ok_def hdr_ok_def split: option.splits intro: action_totals_new_ok)

lemma change_action_sel:
  "at_rtt (change_action H rtt response c a) = fold (hdr_record_at H) rtt (at_rtt a)"
  "at_response (change_action H rtt response c a) = fold (hdr_record_at H) response (at_response a)"
  by (simp_all add: change_action_def at_add_counts_def split: option.split)

lemma change_action_ok: "action_ok H a \<Longrightarrow> action_ok H (change_action H rtt response c a)"
  by (simp add: action_ok_def change_action_sel hist.ok_run)

lemma totals_ok_step: "totals_ok H t \<Longrightarrow> totals_ok H (totals_step H op t)"
proof (cases op)
  case (Op_action name rtt response c)
  assume ok: "totals_ok H t"
  then show ?thesis
    using Op_action find_action_ok [OF ok, of name]
    by (cases "find_action H name (mt_actions t)") (auto simp: with_action_def totals_ok_def change_action_ok)
qed (auto simp: totals_ok_def hist.ok_run)

text \<open>Adding a changed action is changing the sum.\<close>

lemma sum_action_change:
  assumes "action_ok H a" "action_ok H b" "sum_action H a b = Some x"
  shows "sum_action H a (change_action H rtt response c b) = Some (change_action H rtt response c x)"
proof -
  from assms(3) obtain r1 r2 where r: "hdr_add H (at_rtt a) (at_rtt b) = Some r1" "hdr_add H (at_response a) (at_response b) = Some r2"
    and x: "x = at_add_counts (at_counts b) (a\<lparr>at_rtt := r1, at_response := r2\<rparr>)"
    by (auto simp: sum_action_def split: option.splits)
  have "hdr_add H (at_rtt a) (fold (hdr_record_at H) rtt (at_rtt b)) = Some (fold (hdr_record_at H) rtt r1)"
    "hdr_add H (at_response a) (fold (hdr_record_at H) response (at_response b)) = Some (fold (hdr_record_at H) response r2)"
    using assms(1,2) r by (auto simp: action_ok_def intro: hdr_add_records)
  then show ?thesis
    by (cases c) (simp_all add: sum_action_def change_action_sel x, simp_all add: change_action_def at_add_counts_def add.assoc)
qed

lemma sum_action_new:
  assumes "action_ok H a" "action_totals_new H = Some z"
  shows "sum_action H a z = Some a"
proof -
  have "hdr_add_law H 3" using assms(1) by (simp add: action_ok_def hdr_ok_def)
  note z = action_totals_new_ok [OF this assms(2)]
  then have "hdr_add H (at_rtt a) (at_rtt z) = Some (at_rtt a)" "hdr_add H (at_response a) (at_response z) = Some (at_response a)"
    using assms(1) hist.merge_empty by (auto simp: action_ok_def)
  then show ?thesis by (simp add: sum_action_def at_add_counts_def z(4) action_zero_def)
qed

text \<open>The sum of two sets of actions, name by name.\<close>

definition merged_action ::
    "'h hdr \<Rightarrow> (string, 'h action_totals) fmap \<Rightarrow> (string, 'h action_totals) fmap \<Rightarrow> string \<Rightarrow> 'h action_totals option option" where
  "merged_action H theirs ours name =
     (case fmlookup theirs name of
        None \<Rightarrow> Some (fmlookup ours name)
      | Some b \<Rightarrow> (case find_action H name ours of None \<Rightarrow> None | Some a \<Rightarrow> map_option Some (sum_action H a b)))"

lemma add_actions_lookup:
  assumes "distinct names" "set names \<subseteq> fset (fmdom theirs)"
  shows "add_actions H theirs names ours = Some res \<longleftrightarrow>
    (\<forall>n. (if n \<in> set names then merged_action H theirs ours n else Some (fmlookup ours n)) = Some (fmlookup res n))"
  using assms
proof (induction H theirs names ours rule: add_actions.induct)
  case (1 H theirs ours)
  then show ?case by (auto intro: fmap_ext)
next
  case (2 H theirs name names ours)
  then obtain b where b: "fmlookup theirs name = Some b" by (auto simp: fmlookup_dom_iff)
  show ?case
  proof (cases "find_action H name ours")
    case None
    with b show ?thesis by (auto simp: merged_action_def intro!: exI [of _ name])
  next
    case (Some a)
    show ?thesis
    proof (cases "sum_action H a b")
      case None
      with b Some show ?thesis by (auto simp: merged_action_def intro!: exI [of _ name])
    next
      case x: (Some x)
      have other: "merged_action H theirs (fmupd name x ours) n = merged_action H theirs ours n" if "n \<noteq> name" for n
        using that by (simp add: merged_action_def find_action_def split: option.split)
      have "merged_action H theirs ours name = Some (Some x)" using b Some x by (simp add: merged_action_def)
      with 2 b Some x other show ?thesis by (simp split: if_splits) (smt (verit, best) fmupd_lookup)
    qed
  qed
qed

lemma merge_actions_lookup:
  "add_actions H theirs (sorted_list_of_fset (fmdom theirs)) ours = Some res \<longleftrightarrow>
   (\<forall>n. merged_action H theirs ours n = Some (fmlookup res n))"
proof -
  have "(if n \<in> set (sorted_list_of_fset (fmdom theirs)) then merged_action H theirs ours n else Some (fmlookup ours n)) =
    merged_action H theirs ours n" for n
    by (simp add: merged_action_def fmdom_notD split: option.split)
  then show ?thesis
    using add_actions_lookup [of "sorted_list_of_fset (fmdom theirs)" theirs H ours res]
    by (simp add: sorted_list_of_fset.rep_eq)
qed

lemma add_errors_assoc: "add_errors (add_errors w b) a = add_errors w (add_errors b a)"
  by (simp add: fun_eq_iff add_errors_def add.assoc split: option.split)

lemma add_errors_none [simp]: "add_errors (\<lambda>_. None) a = a"
  by (simp add: fun_eq_iff add_errors_def)

lemma add_chaos_assoc: "add_chaos (add_chaos w b) a = add_chaos w (add_chaos b a)"
  by (simp add: add_chaos_def add_chaos_counts_def add.assoc split: option.split)

lemma add_chaos_none [simp]: "add_chaos None a = a"
  by (simp add: add_chaos_def split: option.split)

lemma totals_ok_new: "totals_ok H t \<Longrightarrow> \<exists>z. action_totals_new H = Some z"
  by (auto simp: totals_ok_def hdr_ok_def action_totals_new_def latency_histogram_def layout_defs dest!: hdr_built_new)

lemma with_action_lookup:
  "action_totals_new H = Some z \<Longrightarrow> fmlookup (mt_actions (with_action H name f t)) n =
     (if n = name then Some (f (case_option z id (fmlookup (mt_actions t) name))) else fmlookup (mt_actions t) n)"
  by (simp add: with_action_def find_action_def split: option.split)

lemma merged_action_eq:
  "action_totals_new H = Some z \<Longrightarrow> merged_action H theirs ours n =
     (case fmlookup theirs n of None \<Rightarrow> Some (fmlookup ours n)
      | Some b \<Rightarrow> map_option Some (sum_action H (case_option z id (fmlookup ours n)) b))"
  by (simp add: merged_action_def find_action_def split: option.split)

lemma merged_action_change:
  assumes a: "totals_ok H a" and b: "totals_ok H b"
    and m: "\<And>n. merged_action H (mt_actions b) (mt_actions a) n = Some (fmlookup (mt_actions c) n)"
  shows "merged_action H (mt_actions (with_action H name (change_action H rtt response k) b)) (mt_actions a) n =
    Some (fmlookup (mt_actions (with_action H name (change_action H rtt response k) c)) n)"
proof -
  let ?f = "change_action H rtt response k"
  obtain z where z: "action_totals_new H = Some z" using totals_ok_new [OF a] by blast
  have law: "hdr_add_law H 3" using a by (simp add: totals_ok_def hdr_ok_def)
  define x where "x = case_option z id (fmlookup (mt_actions a) name)"
  have x: "action_ok H x"
    using a action_totals_new_ok(1) [OF law z] by (simp add: x_def totals_ok_def split: option.split)
  have "sum_action H x (?f (case_option z id (fmlookup (mt_actions b) name))) =
    Some (?f (case_option z id (fmlookup (mt_actions c) name)))"
  proof (cases "fmlookup (mt_actions b) name")
    case None
    then have "fmlookup (mt_actions c) name = fmlookup (mt_actions a) name"
      using m [of name] by (simp add: merged_action_def)
    moreover have "sum_action H x (?f z) = Some (?f x)"
      using x z action_totals_new_ok(1) [OF law z] by (intro sum_action_change sum_action_new)
    ultimately show ?thesis using None by (simp add: x_def)
  next
    case (Some y)
    then have "action_ok H y" using b by (simp add: totals_ok_def)
    moreover obtain w where "sum_action H x y = Some w" "fmlookup (mt_actions c) name = Some w"
      using m [of name] Some by (cases "sum_action H x y") (auto simp: merged_action_eq [OF z] x_def)
    ultimately show ?thesis using Some x by (simp add: sum_action_change)
  qed
  with m [of n] show ?thesis
    by (cases "n = name") (simp_all add: merged_action_eq [OF z] with_action_lookup [OF z] x_def)
qed

lemma add_totals_step:
  assumes "totals_ok H a" "totals_ok H b" "add_totals H a b = Some c"
  shows "add_totals H a (totals_step H op b) = Some (totals_step H op c)"
proof -
  from assms(3) obtain h r p acts where
    hists: "hdr_add H (mt_handshake a) (mt_handshake b) = Some h" "hdr_add H (mt_rtt a) (mt_rtt b) = Some r"
      "hdr_add H (mt_response a) (mt_response b) = Some p"
    and acts: "add_actions H (mt_actions b) (sorted_list_of_fset (fmdom (mt_actions b))) (mt_actions a) = Some acts"
    and c: "mt_handshake c = h" "mt_rtt c = r" "mt_response c = p" "mt_actions c = acts"
    by (auto simp: add_totals_def split: option.splits)
  show ?thesis
  proof (cases op)
    case (Op_latency e1 e2 e3)
    have "hdr_add H (mt_handshake a) (fold (hdr_record_at H) e1 (mt_handshake b)) = Some (fold (hdr_record_at H) e1 h)"
      "hdr_add H (mt_rtt a) (fold (hdr_record_at H) e2 (mt_rtt b)) = Some (fold (hdr_record_at H) e2 r)"
      "hdr_add H (mt_response a) (fold (hdr_record_at H) e3 (mt_response b)) = Some (fold (hdr_record_at H) e3 p)"
      using assms(1,2) hists by (auto simp: totals_ok_def intro: hdr_add_records)
    with Op_latency hists acts assms(3) show ?thesis by (auto simp: add_totals_def)
  next
    case (Op_counts w)
    with hists acts assms(3) show ?thesis
      by (auto simp: add_totals_def add_errors_assoc add_chaos_assoc add.assoc)
  next
    case (Op_action name e1 e2 k)
    let ?w = "with_action H name (change_action H e1 e2 k)"
    have "merged_action H (mt_actions b) (mt_actions a) n = Some (fmlookup (mt_actions c) n)" for n
      using acts by (simp add: merge_actions_lookup c)
    from merged_action_change [OF assms(1,2) this]
    have "add_actions H (mt_actions (?w b)) (sorted_list_of_fset (fmdom (mt_actions (?w b)))) (mt_actions a) = Some (mt_actions (?w c))"
      by (simp add: merge_actions_lookup)
    moreover obtain y y' where "?w b = b\<lparr>mt_actions := y\<rparr>" "?w c = c\<lparr>mt_actions := y'\<rparr>"
      by (cases "find_action H name (mt_actions b)"; cases "find_action H name (mt_actions c)")
        (simp_all add: with_action_def, (metis metrics_totals.surjective metrics_totals.update_convs(15))+)
    ultimately show ?thesis using Op_action hists acts assms(3) by (auto simp: add_totals_def)
  qed
qed

lemma totals_empty_ok: "totals_empty H z \<Longrightarrow> totals_ok H z"
  by (auto simp: totals_empty_def totals_new_def totals_ok_def split: option.splits
      intro: hist.ok_empty [OF latency_histogram_fresh])

lemma add_totals_empty:
  assumes "totals_ok H a" "totals_empty H z"
  shows "add_totals H a z = Some a"
proof -
  from assms(2) have z: "hdr_fresh H 3 (mt_handshake z)" "hdr_fresh H 3 (mt_rtt z)" "hdr_fresh H 3 (mt_response z)"
    by (auto simp: totals_empty_def totals_new_def split: option.splits intro: latency_histogram_fresh)
  then have "hdr_add H (mt_handshake a) (mt_handshake z) = Some (mt_handshake a)"
    "hdr_add H (mt_rtt a) (mt_rtt z) = Some (mt_rtt a)" "hdr_add H (mt_response a) (mt_response z) = Some (mt_response a)"
    using assms(1) hist.merge_empty by (auto simp: totals_ok_def)
  with assms(2) show ?thesis
    by (auto simp: add_totals_def totals_empty_def totals_new_def sorted_list_of_fset.rep_eq split: option.splits)
qed

interpretation totals: mergeable "totals_ok H" "totals_empty H" "totals_step H" "add_totals H" for H
  by unfold_locales (auto intro: totals_empty_ok totals_ok_step add_totals_empty add_totals_step)

text \<open>The recorders of the workers of one agent.\<close>

definition recorders :: "worker_metrics list \<Rightarrow> nat set" where
  "recorders ws = w_latency ` set ws"

lemma worker_ops_append:
  "worker_ops recs seen (ws @ ws') = worker_ops recs seen ws @ worker_ops recs (seen \<union> recorders ws) ws'"
  by (induction recs seen ws rule: worker_ops.induct) (simp_all add: recorders_def)

lemma worker_ops_unseen: "recorders ws \<inter> S = {} \<Longrightarrow> worker_ops recs (seen \<union> S) ws = worker_ops recs seen ws"
  by (induction recs seen ws rule: worker_ops.induct) (auto simp: recorders_def)

lemma worker_ops_concat:
  assumes "sorted_wrt (\<lambda>ws ws'. recorders ws \<inter> recorders ws' = {}) agents"
  shows "worker_ops recs {} (concat agents) = concat (map (worker_ops recs {}) agents)"
  using assms
proof (induction agents)
  case (Cons ws agents)
  then have "recorders (concat agents) \<inter> recorders ws = {}" by (auto simp: recorders_def)
  with Cons worker_ops_unseen [of "concat agents" "recorders ws" recs "{}"] show ?case
    by (simp add: worker_ops_append)
qed simp

lemma add_totals_absorbed [simp]: "add_totals H t (other\<lparr>mt_absorbed := a\<rparr>) = add_totals H t other"
  by (simp add: add_totals_def cong: option.case_cong)

lemma totals_finish_absorbed [simp]: "totals_finish H elapsed n (t\<lparr>mt_absorbed := a\<rparr>) = totals_finish H elapsed n t"
  by (simp add: totals_finish_def Let_def)

lemma merge_all_cong:
  "(\<And>t b. b \<in> set bs \<Longrightarrow> merge t (f b) = merge t (g b)) \<Longrightarrow> merge_all merge (map f bs) a = merge_all merge (map g bs) a"
  by (induction bs arbitrary: a) (simp_all split: option.split)

end
