(* ===== verification/Run_Report.thy ===== *)
theory Run_Report
  imports Run_Totals
begin

text \<open>
  What a report promises (\<open>MetricsTotals::finish\<close>, \<open>AggregatedMetrics\<close> of \<open>src/metrics.rs\<close>): merging agents gives
  the report of one machine, connection counts add up, rates and shares are between 0 and 1, and the peak
  of open sessions is the peak of the intervals.
\<close>

section \<open>Connection counts and rates\<close>

lemma saturating_sub_le: "saturating_sub a b \<le> a"
  by (simp add: saturating_sub_def word_sub_le)

lemma unat_saturating_sub: "unat (saturating_sub a b) = unat a - unat b"
  by (simp add: saturating_sub_def unat_sub word_le_nat_alt)

lemma representable_powi2: "0 \<le> k \<Longrightarrow> representable (2 powi k)"
  unfolding representable_def by (intro exI [of _ 1] exI [of _ k]) simp

lemma f64_max_exclusive_pos: "0 < f64_max_exclusive" "1 < f64_max_exclusive"
proof -
  have "(2::rat) powi 0 < 2 powi 1024" by (simp only: powi2_less_iff)
  then show "1 < f64_max_exclusive" by (simp only: f64_max_exclusive_def power_int_0_right)
  then show "0 < f64_max_exclusive" by linarith
qed

lemma of_uint_num:
  assumes "n \<le> 2 ^ 128"
  shows "of_uint n = Num (round_f64 (of_nat n))" "0 \<le> round_f64 (of_nat n)" "0 < n \<Longrightarrow> 1 \<le> round_f64 (of_nat n)"
proof -
  have "(of_nat n :: rat) \<le> of_nat (2 ^ 128)" using assms by (simp only: of_nat_le_iff)
  also have "(of_nat (2 ^ 128) :: rat) = 2 powi 128" by simp
  finally have "round_f64 (of_nat n) \<le> 2 powi 128" by (intro f64.rnd_le representable_powi2) simp
  also have "(2::rat) powi 128 < f64_max_exclusive" by (simp only: powi2_less_iff f64_max_exclusive_def)
  finally have lt: "\<not> f64_max_exclusive \<le> round_f64 (of_nat n)" by (simp only: not_le)
  show ge: "0 \<le> round_f64 (of_nat n)" by (intro f64.rnd_ge f64.exact_0) simp
  then have "\<not> round_f64 (of_nat n) \<le> - f64_max_exclusive" using f64_max_exclusive_pos(1) by linarith
  with lt show "of_uint n = Num (round_f64 (of_nat n))" by (simp only: of_uint_def of_exact_def Let_def if_False)
  show "1 \<le> round_f64 (of_nat n)" if "0 < n" using that by (intro f64.rnd_ge f64.exact_1) simp
qed

lemma u64_small: "unat (w :: u64) \<le> 2 ^ 128"
proof -
  have "unat w < 2 ^ 64" using unsigned_less [of w] by simp
  then show ?thesis by simp
qed

text \<open>The share of \<open>m\<close> in \<open>n\<close> as the code computes it.\<close>

lemma share_unit:
  assumes "m \<le> n" "0 < n" "n \<le> 2 ^ 128"
  shows "\<exists>r. f64_div (of_uint m) (of_uint n) = Num r \<and> 0 \<le> r \<and> r \<le> 1"
proof -
  have m: "m \<le> 2 ^ 128" using assms by simp
  let ?a = "round_f64 (of_nat m)" and ?b = "round_f64 (of_nat n)"
  have le: "0 \<le> ?a" "?a \<le> ?b" "1 \<le> ?b"
    using of_uint_num [OF m] of_uint_num [OF assms(3)] assms(1,2) by (auto intro: round_f64_mono)
  from f64.rnd_ratio [OF le(1,2)] have r: "0 \<le> round_f64 (?a / ?b)" "round_f64 (?a / ?b) \<le> 1" .
  then have "of_exact (?a / ?b) = Num (round_f64 (?a / ?b))"
    using f64_max_exclusive_pos by (simp add: of_exact_def Let_def)
  with le r show ?thesis using of_uint_num(1) [OF m] of_uint_num(1) [OF assms(3)] by auto
qed

lemma of_exact_nonneg: "0 \<le> x \<Longrightarrow> of_exact x = PosInf \<or> (\<exists>r\<ge>0. of_exact x = Num r)"
  using f64.rnd_ge [OF f64.exact_0, of x] f64_max_exclusive_pos by (auto simp: of_exact_def Let_def)

lemma rate_of_unit: "\<exists>r. rate_of errors attempted = Num r \<and> 0 \<le> r \<and> r \<le> 1"
proof (cases "attempted = 0")
  case False
  then have "0 < unat attempted" by (simp add: unat_gt_0)
  note a = of_uint_num [OF u64_small [of attempted]] and e = of_uint_num [OF u64_small [of errors]]
  have "0 \<le> round_f64 (of_nat (unat errors)) / round_f64 (of_nat (unat attempted))" using a e by simp
  moreover have "round_f64 (of_nat (unat attempted)) \<noteq> 0" using a(3) [OF \<open>0 < unat attempted\<close>] by linarith
  ultimately show ?thesis
    using of_exact_nonneg [of "round_f64 (of_nat (unat errors)) / round_f64 (of_nat (unat attempted))"] False
    by (auto simp: rate_of_def a(1) e(1) word_neq_0_conv f64_min_def)
qed (simp add: rate_of_def)

section \<open>Slow replies and peaks\<close>

text \<open>What \<open>iter_recorded\<close> gives: the recorded values, all within \<open>u64\<close>, with counts that add up to \<open>len\<close>.\<close>

definition hdr_iter_law :: "'h hdr \<Rightarrow> 'h \<Rightarrow> bool" where
  "hdr_iter_law H h \<longleftrightarrow> (\<Sum>(v, n)\<leftarrow>hdr_iter_recorded H h. n) = unat (hdr_len H h) \<and>
     (\<forall>(v, n)\<in>set (hdr_iter_recorded H h). v < 2 ^ 64)"

lemma slow_loop_sums:
  assumes "slow_loop threshold buckets (c0, s0, t0) = (c, s, t)"
  shows "c \<le> c0 + (\<Sum>(v, n)\<leftarrow>buckets. n) \<and> s + t0 \<le> t + s0 \<and> t = t0 + (\<Sum>(v, n)\<leftarrow>buckets. v * n)"
  using assms
  by (induction threshold buckets "(c0, s0, t0)" arbitrary: c0 s0 t0 rule: slow_loop.induct)
    (fastforce simp: Let_def split: if_splits)+

lemma weighted_sum_le:
  "\<forall>(v, n)\<in>set buckets. v < b \<Longrightarrow> (\<Sum>(v, n)\<leftarrow>buckets. v * n) \<le> b * (\<Sum>(v, n)\<leftarrow>buckets. n :: nat)"
proof (induction buckets)
  case (Cons p buckets)
  then have "fst p * snd p \<le> b * snd p" by (auto simp: split_def)
  with Cons show ?case by (auto simp: split_def add_mult_distrib2 intro: add_mono)
qed simp

inductive arrivals_reachable :: "arrival_counts \<Rightarrow> bool" where
  arrivals_start: "arrivals_reachable arrival_counts_default"
| arrivals_observe: "arrivals_reachable c \<Longrightarrow> arrivals_reachable (observe i n c)"
| arrivals_session: "arrivals_reachable c \<Longrightarrow> arrivals_reachable (c\<lparr>arc_started := arc_started c + 1\<rparr>)"
| arrivals_skip: "arrivals_reachable c \<Longrightarrow> arrivals_reachable (c\<lparr>arc_skipped := arc_skipped c + 1\<rparr>)"
| arrivals_add: "arrivals_reachable c \<Longrightarrow> arrivals_reachable c' \<Longrightarrow> arrivals_reachable (add_arrivals c' c)"

definition peak_ok :: "arrival_counts \<Rightarrow> bool" where
  "peak_ok c \<longleftrightarrow> arc_peak_open c = (if arc_interval_peaks c = [] then 0 else Max (set (arc_interval_peaks c)))"

lemma add_zip_nth:
  "length (add_zip xs ys) = length xs"
  "i < length xs \<Longrightarrow> add_zip xs ys ! i = xs ! i + (if i < length ys then ys ! i else 0)"
  by (induction xs ys arbitrary: i rule: add_zip.induct) (auto simp: nth_Cons split: nat.split)

lemma observe_peak: "peak_ok c \<Longrightarrow> peak_ok (observe i n c)"
proof -
  assume ok: "peak_ok c"
  let ?p = "arc_interval_peaks c"
  define q where "q = (if length ?p \<le> i then resize_to (i + 1) n ?p else ?p)"
  have i: "i < length q" by (simp add: q_def resize_to_def)
  have q: "insert n (set q) = insert n (set ?p)" by (auto simp: q_def resize_to_def split: if_splits)
  have ins: "Max (insert n (set q)) = max n (Max (set q))" using i by (intro Max_insert) auto
  have "Max (set (q[i := max (q ! i) n])) = Max (insert n (set q))"
  proof (rule Max_eqI)
    show "Max (insert n (set q)) \<in> set (q[i := max (q ! i) n])"
    proof (cases "Max (set q) \<le> q ! i \<or> Max (set q) \<le> n")
      case True
      moreover have "q ! i \<le> Max (set q)" using i by simp
      ultimately have "Max (insert n (set q)) = max (q ! i) n" unfolding ins by (auto simp: max_def)
      then show ?thesis using i by (simp add: set_update_memI)
    next
      case False
      then have m: "Max (insert n (set q)) = Max (set q)" unfolding ins by (auto simp: max_def)
      have "Max (set q) \<in> set q" using i by (intro Max_in) auto
      then obtain j where j: "j < length q" "q ! j = Max (set q)" by (auto simp: in_set_conv_nth)
      with False have "j \<noteq> i" by auto
      then have "q[i := max (q ! i) n] ! j = Max (set q)" using j by simp
      with m j(1) show ?thesis by (metis length_list_update nth_mem)
    qed
  qed (use i in \<open>auto simp: max_def dest!: subsetD [OF set_update_subset_insert] split: if_splits\<close>)
  then have "Max (set (q[i := max (q ! i) n])) = Max (insert n (set ?p))" by (simp only: q)
  moreover have "Max (insert n (set ?p)) = max (arc_peak_open c) n"
    using ok by (cases "?p = []") (simp_all add: peak_ok_def max.commute)
  moreover have "q[i := max (q ! i) n] \<noteq> []" using i by auto
  ultimately show ?thesis by (simp add: peak_ok_def observe_def Let_def q_def [symmetric])
qed

lemma add_arrivals_length:
  "length (arc_interval_peaks (add_arrivals c' c)) = max (length (arc_interval_peaks c)) (length (arc_interval_peaks c'))"
  by (simp add: add_arrivals_def Let_def add_zip_nth resize_to_def)

lemma add_arrivals_peaks:
  "i < max (length (arc_interval_peaks c)) (length (arc_interval_peaks c')) \<Longrightarrow>
   arc_interval_peaks (add_arrivals c' c) ! i =
    (if i < length (arc_interval_peaks c) then arc_interval_peaks c ! i else 0) +
    (if i < length (arc_interval_peaks c') then arc_interval_peaks c' ! i else 0)"
  by (auto simp: add_arrivals_def Let_def add_zip_nth resize_to_def nth_append)

lemma add_arrivals_peak:
  assumes "peak_ok c" "peak_ok c'"
  shows "peak_ok (add_arrivals c' c)"
proof -
  let ?s = "arc_interval_peaks (add_arrivals c' c)"
  have le: "(if i < length (arc_interval_peaks d) then arc_interval_peaks d ! i else 0) \<le> arc_peak_open d" if "peak_ok d" for d i
    using that by (auto simp: peak_ok_def)
  show ?thesis
  proof (cases "?s = []")
    case True
    then have "arc_interval_peaks c = []" "arc_interval_peaks c' = []"
      using add_arrivals_length [of c' c] by (simp_all add: max_def split: if_splits)
    with assms True show ?thesis by (simp add: peak_ok_def add_arrivals_def Let_def)
  next
    case False
    have "x \<le> arc_peak_open c + arc_peak_open c'" if "x \<in> set ?s" for x
    proof -
      from that obtain i where i: "i < length ?s" "?s ! i = x" by (auto simp: in_set_conv_nth)
      with add_arrivals_length [of c' c] add_arrivals_peaks [of i c c'] le [OF assms(1), of i] le [OF assms(2), of i] show ?thesis by simp
    qed
    then have "Max (set ?s) \<le> arc_peak_open c + arc_peak_open c'" using False by (subst Max_le_iff) auto
    with False show ?thesis by (simp add: peak_ok_def add_arrivals_def Let_def)
  qed
qed

lemma arrivals_peak_ok: "arrivals_reachable c \<Longrightarrow> peak_ok c"
  by (induction rule: arrivals_reachable.induct)
    (simp_all add: observe_peak add_arrivals_peak, simp_all add: peak_ok_def arrival_counts_default_def)

section \<open>Properties\<close>

text \<open>The totals of agents whose workers record into their own recorders, merged and summarised, are the report of a
  single process that ran every worker.\<close>

lemma merged_workers:
  assumes "hdr_add_law H 3" "totals_new H = Some z"
    "sorted_wrt (\<lambda>ws ws'. recorders ws \<inter> recorders ws' = {}) agents"
  shows "map_option (totals_finish H elapsed attempted)
      (merge_all (add_totals H) (map (\<lambda>ws. fold (add_worker H recs) ws z) agents) z) =
    merge_workers H recs (concat agents) elapsed attempted"
proof -
  have z: "totals_empty H z" using assms(1,2) by (simp add: totals_empty_def)
  note ok = totals_empty_ok [OF z]
  have "mt_absorbed z = []" using assms(2) by (auto simp: totals_new_def split: option.splits)
  have ops: "(fold (add_worker H recs) ws z)\<lparr>mt_absorbed := []\<rparr> = (fold (totals_step H) (worker_ops recs {} ws) z)\<lparr>mt_absorbed := []\<rparr>" for ws
    using add_workers_ops [where H = H and recs = recs and ws = ws and t = z and a = "[]"] by (simp add: \<open>mt_absorbed z = []\<close>)
  have "add_totals H t (fold (add_worker H recs) ws z) = add_totals H t (fold (totals_step H) (worker_ops recs {} ws) z)" for t ws
    by (metis ops add_totals_absorbed)
  then have "merge_all (add_totals H) (map (\<lambda>ws. fold (add_worker H recs) ws z) agents) z =
      merge_all (add_totals H) (map (\<lambda>xs. fold (totals_step H) xs z) (map (worker_ops recs {}) agents)) z"
    unfolding map_map comp_def by (rule merge_all_cong)
  also have "\<dots> = Some (fold (totals_step H) (worker_ops recs {} (concat agents)) z)"
    by (subst totals.merge_runs [OF ok z]) (simp add: worker_ops_concat [OF assms(3)])
  finally have merged: "merge_all (add_totals H) (map (\<lambda>ws. fold (add_worker H recs) ws z) agents) z =
      Some (fold (totals_step H) (worker_ops recs {} (concat agents)) z)" .
  have "totals_finish H elapsed attempted (fold (add_worker H recs) (concat agents) z) =
      totals_finish H elapsed attempted ((fold (add_worker H recs) (concat agents) z)\<lparr>mt_absorbed := []\<rparr>)" by simp
  also have "\<dots> = totals_finish H elapsed attempted (fold (totals_step H) (worker_ops recs {} (concat agents)) z)"
    by (simp only: ops totals_finish_absorbed)
  finally show ?thesis by (simp only: merged merge_workers_def assms(2) option.map)
qed

text \<open>C20: the connection counts of a report add up, with no overflow and no slot counted twice: attempted is
  established plus failed plus interrupted plus not started, whatever the totals say of handshakes and
  reconnects, and the error rate is a number between 0 and 1.\<close>

theorem report_counts_add_up:
  assumes "m = with_not_started not_started (totals_finish H elapsed attempted t)"
  shows "unat (m_established m) + unat (m_failed m) + unat (m_interrupted m) + unat (m_not_started m) = unat (m_attempted m) \<and>
    m_attempted m = attempted \<and> (\<exists>r. m_error_rate m = Num r \<and> 0 \<le> r \<and> r \<le> 1)"
  using rate_of_unit
  by (auto simp: assms with_not_started_def totals_finish_def Let_def unat_saturating_sub min_def word_le_nat_alt
      unat_sub split: if_splits)

theorem report_counts_add_up_witness:
  "\<exists>t. m_not_started (with_not_started 3 (totals_finish values_hdr 1000000000 8 t)) = 3 \<and>
     unat (m_failed (with_not_started 3 (totals_finish values_hdr 1000000000 8 t))) + 3 = 8"
proof -
  obtain t where t: "totals_new values_hdr = Some t" by (simp add: totals_new_def latency_histogram_def)
  let ?m = "with_not_started 3 (totals_finish values_hdr 1000000000 8 t)"
  have m: "m_established ?m = 0" "m_interrupted ?m = 0" "m_not_started ?m = 3"
    using t by (auto simp: totals_new_def latency_histogram_def with_not_started_def totals_finish_def Let_def saturating_sub_def
        split: option.splits)
  then show ?thesis using report_counts_add_up [of ?m 3 values_hdr 1000000000 8 t] by (intro exI [of _ t]) simp
qed

text \<open>The shares of slow replies are shares. They are numbers between 0 and 1, the replies counted are some
  and no more than were recorded, and the threshold is at least 10 ms.\<close>

theorem slow_replies_are_shares:
  assumes "hdr_iter_law H rtt" "slow_replies_of H rtt = Some s"
  shows "(\<exists>r. sr_reply_share s = Num r \<and> 0 \<le> r \<and> r \<le> 1) \<and> (\<exists>r. sr_wait_share s = Num r \<and> 0 \<le> r \<and> r \<le> 1) \<and>
    0 < sr_count s \<and> sr_count s \<le> unat (hdr_len H rtt) \<and> 10000 \<le> sr_threshold_us s"
proof -
  define thr where "thr = max (saturating_mul (hdr_value_at_quantile H (of_exact (1 / 2)) rtt) 10) 10000"
  obtain c w t where l: "slow_loop thr (hdr_iter_recorded H rtt) (0, 0, 0) = (c, w, t)" by (metis prod_cases3)
  have s: "s = \<lparr>sr_threshold_us = thr, sr_count = c, sr_reply_share = f64_div (of_uint c) (of_uint (unat (hdr_len H rtt))),
      sr_wait_share = f64_div (of_uint w) (of_uint (max t 1))\<rparr>" "0 < c"
    using assms(2) l by (auto simp: slow_replies_of_def Let_def thr_def [symmetric] split: if_splits)
  from slow_loop_sums [OF l] have le: "c \<le> unat (hdr_len H rtt)" "w \<le> max t 1"
    and t: "t = (\<Sum>(v, n)\<leftarrow>hdr_iter_recorded H rtt. v * n)"
    using assms(1) by (auto simp: hdr_iter_law_def)
  have "t \<le> 2 ^ 64 * unat (hdr_len H rtt)"
    using weighted_sum_le [of "hdr_iter_recorded H rtt" "2 ^ 64"] assms(1) by (simp add: t hdr_iter_law_def)
  moreover have "unat (hdr_len H rtt) < 2 ^ 64" using unsigned_less [of "hdr_len H rtt"] by simp
  ultimately have "max t 1 \<le> 2 ^ 128" by simp
  with share_unit [OF le(2)] share_unit [OF le(1) _ u64_small] s le(1) show ?thesis by (simp add: thr_def)
qed

theorem slow_replies_are_shares_witness:
  "\<exists>s. slow_replies_of values_hdr {#100, 100, 100, 50000#} = Some s \<and> sr_count s \<le> 4 \<and> 10000 \<le> sr_threshold_us s"
proof -
  have law: "hdr_iter_law values_hdr {#100, 100, 100, 50000#}" by (simp add: hdr_iter_law_def values_hdr_def)
  have q: "hdr_value_at_quantile values_hdr (of_exact (1 / 2)) {#100, 100, 100, 50000#} = 100"
    by (simp add: values_hdr_def of_exact_half)
  have "slow_replies_of values_hdr {#100, 100, 100, 50000#} \<noteq> None"
    by (simp add: slow_replies_of_def hdr_is_empty_def q Let_def saturating_mul_def) (simp add: values_hdr_def)
  then obtain s where s: "slow_replies_of values_hdr {#100, 100, 100, 50000#} = Some s" by blast
  from slow_replies_are_shares [OF law s] s show ?thesis by simp
qed

text \<open>The peak of open sessions is exact. However a run's observations and the counts of other machines were
  added up, the reported peak is the largest interval peak, and an interval's peak after adding another
  machine is the sum of both machines' peaks in that interval.\<close>

theorem arrival_peak_exact:
  assumes "arrivals_reachable c" "arrivals_reachable c'" "i < length (arc_interval_peaks c)" "i < length (arc_interval_peaks c')"
  shows "arc_peak_open c = Max (set (arc_interval_peaks c)) \<and>
    arc_interval_peaks (add_arrivals c' c) ! i = arc_interval_peaks c ! i + arc_interval_peaks c' ! i \<and>
    arc_peak_open (add_arrivals c' c) = Max (set (arc_interval_peaks (add_arrivals c' c)))"
proof -
  have "arc_interval_peaks c \<noteq> []" using assms(3) by auto
  moreover have "arc_interval_peaks (add_arrivals c' c) \<noteq> []"
    using assms(3) add_arrivals_length [of c' c] by auto
  ultimately show ?thesis
    using arrivals_peak_ok [OF assms(1)] add_arrivals_peak [OF arrivals_peak_ok arrivals_peak_ok, OF assms(1,2)]
      add_arrivals_peaks [of i c c'] assms(3,4) by (simp add: peak_ok_def)
qed

theorem arrival_peak_exact_witness:
  "arc_peak_open (add_arrivals (observe 1 2 (observe 0 1 arrival_counts_default)) (observe 1 1 (observe 0 4 arrival_counts_default))) = 5"
  using arrival_peak_exact [of "observe 1 1 (observe 0 4 arrival_counts_default)" "observe 1 2 (observe 0 1 arrival_counts_default)" 0]
  by (simp add: arrivals_reachable.intros) (simp add: add_arrivals_def observe_def arrival_counts_default_def resize_to_def Let_def)

end
