(* ===== verification/Json.thy ===== *)
theory Json
  imports Prelude "HOL-Library.Countable"
begin

text \<open>
  \<open>serde_json::Value\<close> as the code uses it. The crate itself is not part of the sources: its number
  type is the type parameter \<open>'n\<close>, and its functions are the fields of a record that every
  definition using them takes as an argument. An object is a \<open>BTreeMap\<close> (the crate is built without
  \<open>preserve_order\<close>), so it is the list of its entries in key order.
\<close>

datatype 'n json =
    JNull
  | JBool bool
  | JNumber 'n
  | JString string
  | JArray "'n json list"
  | JObject "(string \<times> 'n json) list"

record 'n serde_json =
  from_str :: "string \<Rightarrow> 'n json option"
  to_string :: "'n json \<Rightarrow> string"
  json_pointer :: "string \<Rightarrow> 'n json \<Rightarrow> 'n json option"
  as_u64 :: "'n \<Rightarrow> nat option"

text \<open>What the documentation of the crate promises: printing a value as JSON and parsing the text gives
  the value back.\<close>

definition serde_roundtrip :: "'n serde_json \<Rightarrow> bool" where
  "serde_roundtrip sj \<longleftrightarrow> (\<forall>v. from_str sj (to_string sj v) = Some v)"

primrec is_object :: "'n json \<Rightarrow> bool" where
  "is_object JNull = False"
| "is_object (JBool b) = False"
| "is_object (JNumber n) = False"
| "is_object (JString s) = False"
| "is_object (JArray vs) = False"
| "is_object (JObject kvs) = True"

primrec is_array :: "'n json \<Rightarrow> bool" where
  "is_array JNull = False"
| "is_array (JBool b) = False"
| "is_array (JNumber n) = False"
| "is_array (JString s) = False"
| "is_array (JArray vs) = True"
| "is_array (JObject kvs) = False"

text \<open>The promise can be kept: values can be numbered, and a number is printed and parsed back.\<close>

instance json :: (countable) countable
  by countable_datatype

definition numbered_json :: "nat serde_json" where
  "numbered_json = \<lparr>from_str = (\<lambda>s. Some (from_nat (digits_value s))),
     to_string = (\<lambda>v. show_nat (to_nat v)), json_pointer = (\<lambda>p v. if p = [] then Some v else None),
     as_u64 = Some\<rparr>"

lemma serde_roundtrip_numbered: "serde_roundtrip numbered_json"
  by (simp add: serde_roundtrip_def numbered_json_def)

end
