(* ===== verification/Data_Set.thy ===== *)
theory Data_Set
  imports Json
begin

text \<open>
  \<open>src/data.rs\<close>: the table behind \<open>--data FILE\<close>. The CSV and JSON Lines parsers, the checks on the
  columns, and the choice of the row a connection uses, alone or as one agent of a distributed run.
  The file system (\<open>metadata\<close>, \<open>read_to_string\<close>) and \<open>serde_json\<close> are parameters.
\<close>

section \<open>Data\<close>

record data_set =
  ds_path :: string
  ds_columns :: "string list"
  ds_rows :: "string list list"
  ds_share :: "(nat \<times> nat) option"

datatype data_error =
    Io_error string
  | Too_large nat
  | No_rows
  | Quote_inside_field nat
  | Quote_not_closed nat
  | No_header_row
  | Wrong_value_count nat nat nat
  | Column_unnamed nat
  | Column_twice string
  | Not_json nat
  | Not_an_object nat
  | Keys_differ nat
  | Nested_value nat string
  | In_file string data_error

definition MAX_BYTES :: nat where
  "MAX_BYTES = 256 * 1024 * 1024"

section \<open>CSV\<close>

abbreviation quote_char :: char where
  "quote_char \<equiv> CHR 0x22"

abbreviation newline :: char where
  "newline \<equiv> CHR 0x0A"

abbreviation carriage_return :: char where
  "carriage_return \<equiv> CHR 0x0D"

record csv_state =
  csv_records :: "(nat \<times> string list) list"
  csv_record :: "string list"
  csv_field :: string
  csv_quoted :: bool
  csv_started :: bool
  csv_line :: nat

definition csv_start :: csv_state where
  "csv_start = \<lparr>csv_records = [], csv_record = [], csv_field = [], csv_quoted = False,
     csv_started = False, csv_line = 1\<rparr>"

definition push_char :: "char \<Rightarrow> csv_state \<Rightarrow> csv_state" where
  "push_char c st = st\<lparr>csv_field := csv_field st @ [c]\<rparr>"

definition end_field :: "csv_state \<Rightarrow> csv_state" where
  "end_field st = st\<lparr>csv_record := csv_record st @ [csv_field st], csv_field := []\<rparr>"

definition has_content :: "csv_state \<Rightarrow> bool" where
  "has_content st = (csv_started st \<or> csv_field st \<noteq> [] \<or> csv_record st \<noteq> [])"

definition end_record :: "nat \<Rightarrow> csv_state \<Rightarrow> csv_state" where
  "end_record line st =
     (if has_content st
      then (let st = end_field st
            in st\<lparr>csv_records := csv_records st @ [(line, csv_record st)], csv_record := []\<rparr>)
      else st)"

definition next_is :: "char \<Rightarrow> string \<Rightarrow> bool" where
  "next_is c cs = (cs \<noteq> [] \<and> hd cs = c)"

function csv_loop :: "string \<Rightarrow> csv_state \<Rightarrow> data_error + csv_state" where
  "csv_loop [] st = Inr st"
| "csv_loop (c # cs) st =
     (if csv_quoted st then
        (if c = quote_char then
           (if next_is quote_char cs then csv_loop (tl cs) (push_char quote_char st)
            else csv_loop cs (st\<lparr>csv_quoted := False\<rparr>))
         else if c = newline then csv_loop cs (push_char c (st\<lparr>csv_line := csv_line st + 1\<rparr>))
         else csv_loop cs (push_char c st))
      else if c = quote_char then
        (if \<not> csv_started st then csv_loop cs (st\<lparr>csv_quoted := True, csv_started := True\<rparr>)
         else Inl (Quote_inside_field (csv_line st)))
      else if c = CHR '','' then csv_loop cs ((end_field st)\<lparr>csv_started := False\<rparr>)
      else if c = carriage_return \<and> next_is newline cs then csv_loop cs st
      else if c = newline then
        csv_loop cs ((end_record (csv_line st) (st\<lparr>csv_line := csv_line st + 1\<rparr>))\<lparr>csv_started := False\<rparr>)
      else csv_loop cs ((push_char c st)\<lparr>csv_started := True\<rparr>))"
  by pat_completeness auto
termination
  by (relation "measure (length \<circ> fst)") auto

fun check_columns_from :: "nat \<Rightarrow> string list \<Rightarrow> string list \<Rightarrow> data_error + unit" where
  "check_columns_from n before [] = Inr ()"
| "check_columns_from n before (column # columns) =
     (if trim column = [] then Inl (Column_unnamed (n + 1))
      else if column \<in> set before then Inl (Column_twice column)
      else check_columns_from (n + 1) (before @ [column]) columns)"

definition check_columns :: "string list \<Rightarrow> data_error + unit" where
  "check_columns columns = check_columns_from 0 [] columns"

definition check_csv_row :: "string list \<Rightarrow> nat \<times> string list \<Rightarrow> data_error + string list" where
  "check_csv_row columns r =
     (case r of (line, row) \<Rightarrow>
        (if length row = length columns then Inr row
         else Inl (Wrong_value_count line (length row) (length columns))))"

definition parse_csv :: "string \<Rightarrow> data_error + string list \<times> string list list" where
  "parse_csv text =
     and_then (csv_loop text csv_start) (\<lambda>st.
       (if csv_quoted st then Inl (Quote_not_closed (csv_line st))
        else (case csv_records (end_record (csv_line st) st) of
            [] \<Rightarrow> Inl No_header_row
          | (_, columns) # records \<Rightarrow>
              and_then (check_columns columns) (\<lambda>_.
                and_then (collect_results (check_csv_row columns) records) (\<lambda>rows.
                  Inr (columns, rows))))))"

section \<open>JSON Lines\<close>

text \<open>\<open>str::lines\<close>: a final line break ends the last line, and a carriage return before a line break
  belongs to it.\<close>

definition strip_cr :: "string \<Rightarrow> string" where
  "strip_cr line = (case strip_suffix [carriage_return] line of None \<Rightarrow> line | Some l \<Rightarrow> l)"

definition str_lines :: "string \<Rightarrow> string list" where
  "str_lines s =
     (let ps = str_split newline s
      in map strip_cr (butlast ps) @ (if List.last ps = [] then [] else [List.last ps]))"

definition json_cell ::
    "'n serde_json \<Rightarrow> nat \<Rightarrow> (string \<times> 'n json) list \<Rightarrow> string \<Rightarrow> data_error + string" where
  "json_cell sj line_no obj column =
     (case map_of obj column of
        Some (JString s) \<Rightarrow> Inr s
      | Some (JNumber n) \<Rightarrow> Inr (to_string sj (JNumber n))
      | Some (JBool b) \<Rightarrow> Inr (to_string sj (JBool b))
      | Some JNull \<Rightarrow> Inr []
      | _ \<Rightarrow> Inl (Nested_value line_no column))"

definition json_row ::
    "'n serde_json \<Rightarrow> nat \<Rightarrow> string \<Rightarrow> string list option \<Rightarrow> data_error + string list \<times> string list" where
  "json_row sj line_no line columns =
     (case from_str sj line of
        None \<Rightarrow> Inl (Not_json line_no)
      | Some (JObject obj) \<Rightarrow>
          (let cols = (case columns of None \<Rightarrow> map fst obj | Some cs \<Rightarrow> cs)
           in if length obj \<noteq> length cols \<or> (\<exists>c\<in>set cols. c \<notin> fst ` set obj)
              then Inl (Keys_differ line_no)
              else and_then (collect_results (json_cell sj line_no obj) cols) (\<lambda>row. Inr (cols, row)))
      | Some _ \<Rightarrow> Inl (Not_an_object line_no))"

fun json_lines_loop ::
    "'n serde_json \<Rightarrow> nat \<Rightarrow> string list \<Rightarrow> string list option \<Rightarrow> string list list
     \<Rightarrow> data_error + string list option \<times> string list list" where
  "json_lines_loop sj n [] columns rows = Inr (columns, rows)"
| "json_lines_loop sj n (line # lines) columns rows =
     (if trim line = [] then json_lines_loop sj (n + 1) lines columns rows
      else and_then (json_row sj (n + 1) line columns) (\<lambda>(cols, row).
             json_lines_loop sj (n + 1) lines (Some cols) (rows @ [row])))"

definition parse_json_lines ::
    "'n serde_json \<Rightarrow> string \<Rightarrow> data_error + string list \<times> string list list" where
  "parse_json_lines sj text =
     and_then (json_lines_loop sj 0 (str_lines text) None []) (\<lambda>r.
       (case r of
          (None, rows) \<Rightarrow> Inl No_rows
        | (Some columns, rows) \<Rightarrow> and_then (check_columns columns) (\<lambda>_. Inr (columns, rows))))"

section \<open>The data set\<close>

definition byte_order_mark :: string where
  "byte_order_mark = [CHR 0xEF, CHR 0xBB, CHR 0xBF]"

definition parse_data :: "'n serde_json \<Rightarrow> string \<Rightarrow> string \<Rightarrow> data_error + data_set" where
  "parse_data sj path text =
     (let text = (case strip_prefix byte_order_mark text of None \<Rightarrow> text | Some t \<Rightarrow> t);
          lower = to_ascii_lowercase path;
          json_lines = (suffix ''.jsonl'' lower \<or> suffix ''.ndjson'' lower
                        \<or> prefix ''{'' (trim_start text))
      in and_then (map_err (In_file path) (if json_lines then parse_json_lines sj text else parse_csv text))
           (\<lambda>(columns, rows).
              if rows = [] then Inl (In_file path No_rows)
              else Inr \<lparr>ds_path = path, ds_columns = columns, ds_rows = rows, ds_share = None\<rparr>))"

definition load_data ::
    "'n serde_json \<Rightarrow> (string \<Rightarrow> string + nat) \<Rightarrow> (string \<Rightarrow> string + string) \<Rightarrow> string
     \<Rightarrow> data_error + data_set" where
  "load_data sj metadata read_to_string path =
     and_then (map_err (\<lambda>e. In_file path (Io_error e)) (metadata path)) (\<lambda>size.
       if size > MAX_BYTES then Inl (In_file path (Too_large size))
       else and_then (map_err (\<lambda>e. In_file path (Io_error e)) (read_to_string path)) (parse_data sj path))"

fun find_row_mismatch :: "nat \<Rightarrow> string list list \<Rightarrow> nat \<Rightarrow> (nat \<times> nat) option" where
  "find_row_mismatch width [] n = None"
| "find_row_mismatch width (row # rows) n =
     (if length row \<noteq> width then Some (n, length row) else find_row_mismatch width rows (n + 1))"

definition from_parts :: "string \<Rightarrow> string list \<Rightarrow> string list list \<Rightarrow> data_error + data_set" where
  "from_parts path columns rows =
     (if rows = [] then Inl (In_file path No_rows)
      else (case find_row_mismatch (length columns) rows 0 of
          Some (n, len) \<Rightarrow> Inl (In_file path (Wrong_value_count (n + 1) len (length columns)))
        | None \<Rightarrow> Inr \<lparr>ds_path = path, ds_columns = columns, ds_rows = rows, ds_share = None\<rparr>))"

definition with_share :: "nat \<Rightarrow> nat \<Rightarrow> data_set \<Rightarrow> data_set" where
  "with_share index agents ds = ds\<lparr>ds_share := (if agents > 1 then Some (index, agents) else None)\<rparr>"

definition data_len :: "data_set \<Rightarrow> nat" where
  "data_len ds = length (ds_rows ds)"

fun position :: "('a \<Rightarrow> bool) \<Rightarrow> 'a list \<Rightarrow> nat option" where
  "position P [] = None"
| "position P (x # xs) = (if P x then Some 0 else map_option Suc (position P xs))"

definition column :: "data_set \<Rightarrow> string \<Rightarrow> nat option" where
  "column ds name = position (\<lambda>c. c = name) (ds_columns ds)"

definition row_for :: "data_set \<Rightarrow> nat \<Rightarrow> nat" where
  "row_for ds worker_id =
     (let global = (case ds_share ds of
            Some (index, agents) \<Rightarrow> saturating_add (saturating_mul worker_id agents) index
          | None \<Rightarrow> worker_id)
      in global mod length (ds_rows ds))"

text \<open>\<open>Vec::get\<close>.\<close>

definition list_get :: "'a list \<Rightarrow> nat \<Rightarrow> 'a option" where
  "list_get xs i = (if i < length xs then Some (xs ! i) else None)"

definition data_value :: "data_set \<Rightarrow> nat \<Rightarrow> string \<Rightarrow> string option" where
  "data_value ds row name =
     Option.bind (column ds name) (\<lambda>index.
       Option.bind (list_get (ds_rows ds) row) (\<lambda>r. list_get r index))"

section \<open>The table is well formed\<close>

definition data_wf :: "data_set \<Rightarrow> bool" where
  "data_wf ds \<longleftrightarrow>
     ds_rows ds \<noteq> [] \<and> (\<forall>row\<in>set (ds_rows ds). length row = length (ds_columns ds))"

definition columns_ok :: "string list \<Rightarrow> bool" where
  "columns_ok columns \<longleftrightarrow> distinct columns \<and> (\<forall>c\<in>set columns. trim c \<noteq> [])"

lemma check_columns_from_Inr_iff:
  "check_columns_from n before columns = Inr u \<longleftrightarrow>
     distinct columns \<and> set before \<inter> set columns = {} \<and> (\<forall>c\<in>set columns. trim c \<noteq> [])"
  by (induction n before columns rule: check_columns_from.induct) auto

lemma check_columns_Inr_iff: "check_columns columns = Inr u \<longleftrightarrow> columns_ok columns"
  by (simp add: check_columns_def check_columns_from_Inr_iff columns_ok_def)

lemma parse_csv_Inr:
  assumes "parse_csv text = Inr (columns, rows)"
  shows "columns_ok columns \<and> (\<forall>row\<in>set rows. length row = length columns)"
proof -
  from assms obtain records where
    cols: "columns_ok columns" and r: "collect_results (check_csv_row columns) records = Inr rows"
    by (auto simp: parse_csv_def and_then_Inr_iff check_columns_Inr_iff
        split: if_splits list.splits prod.splits)
  have "length row = length columns" if "row \<in> set rows" for row
    using r _ that by (rule collect_results_all) (auto simp: check_csv_row_def split: if_splits prod.splits)
  with cols show ?thesis by blast
qed

lemma json_row_Inr:
  assumes "json_row sj n line columns = Inr (cols, row)"
  shows "length row = length cols" and "columns \<noteq> None \<Longrightarrow> cols = the columns"
  using assms
  by (auto simp: json_row_def Let_def and_then_Inr_iff dest: collect_results_length
      split: option.splits json.splits if_splits)

lemma json_lines_loop_Inr:
  assumes "json_lines_loop sj n lines columns rows = Inr (columns', rows')"
    "\<forall>row\<in>set rows. columns \<noteq> None \<and> length row = length (the columns)"
  shows "\<forall>row\<in>set rows'. columns' \<noteq> None \<and> length row = length (the columns')"
  using assms
proof (induction lines arbitrary: n columns rows)
  case Nil
  then show ?case by simp
next
  case (Cons line lines)
  show ?case
  proof (cases "trim line = []")
    case True
    with Cons.prems(1) have "json_lines_loop sj (n + 1) lines columns rows = Inr (columns', rows')"
      by simp
    then show ?thesis using Cons.prems(2) by (rule Cons.IH)
  next
    case False
    with Cons.prems obtain cols row where row: "json_row sj (n + 1) line columns = Inr (cols, row)"
      "json_lines_loop sj (n + 1) lines (Some cols) (rows @ [row]) = Inr (columns', rows')"
      by (auto simp: and_then_Inr_iff)
    have "\<forall>r\<in>set (rows @ [row]). Some cols \<noteq> None \<and> length r = length (the (Some cols))"
      using Cons.prems(2) json_row_Inr [OF row(1)] by auto
    then show ?thesis by (rule Cons.IH [OF row(2)])
  qed
qed

lemma parse_json_lines_Inr:
  assumes "parse_json_lines sj text = Inr (columns, rows)"
  shows "columns_ok columns \<and> (\<forall>row\<in>set rows. length row = length columns)"
  using assms
  by (auto simp: parse_json_lines_def and_then_Inr_iff check_columns_Inr_iff
      dest!: json_lines_loop_Inr split: option.splits)

lemma find_row_mismatch_None_iff:
  "find_row_mismatch width rows n = None \<longleftrightarrow> (\<forall>row\<in>set rows. length row = width)"
  by (induction width rows n rule: find_row_mismatch.induct) auto

section \<open>Writing CSV\<close>

text \<open>
  The grammar of RFC 4180, as a relation between a text and the records it holds: a field is in quotes, or
  plain when it has no quote, comma or line break in it; a record is one or more fields; lines end with CRLF or
  with LF alone, which the last line may lack. Blank lines may stand anywhere, so a record of one empty field
  has it in quotes.
\<close>

definition escape_quotes :: "string \<Rightarrow> string" where
  "escape_quotes f = concat (map (\<lambda>c. if c = quote_char then [c, c] else [c]) f)"

definition quote_field :: "string \<Rightarrow> string" where
  "quote_field f = quote_char # escape_quotes f @ [quote_char]"

definition plain_field :: "string \<Rightarrow> bool" where
  "plain_field f \<longleftrightarrow> set f \<inter> {quote_char, CHR '','', carriage_return, newline} = {}"

inductive csv_field_text :: "string \<Rightarrow> string \<Rightarrow> bool" where
  in_quotes: "csv_field_text (quote_field f) f"
| unquoted: "plain_field f \<Longrightarrow> csv_field_text f f"

inductive csv_record_text :: "string \<Rightarrow> string list \<Rightarrow> bool" where
  one_field: "csv_field_text w f \<Longrightarrow> csv_record_text w [f]"
| more_fields: "csv_field_text w f \<Longrightarrow> csv_record_text ws fs \<Longrightarrow> csv_record_text (w @ CHR '','' # ws) (f # fs)"

definition line_break :: "string \<Rightarrow> bool" where
  "line_break b \<longleftrightarrow> b = [carriage_return, newline] \<or> b = [newline]"

inductive csv_file_text :: "string \<Rightarrow> string list list \<Rightarrow> bool" where
  no_line: "csv_file_text [] []"
| last_line: "csv_record_text w r \<Longrightarrow> w \<noteq> [] \<Longrightarrow> csv_file_text w [r]"
| next_line: "csv_record_text w r \<Longrightarrow> w \<noteq> [] \<Longrightarrow> line_break b \<Longrightarrow> csv_file_text t rs \<Longrightarrow> csv_file_text (w @ b @ t) (r # rs)"
| blank_line: "line_break b \<Longrightarrow> csv_file_text t rs \<Longrightarrow> csv_file_text (b @ t) rs"

definition newlines :: "string \<Rightarrow> nat" where
  "newlines f = length (filter (\<lambda>c. c = newline) f)"

lemma escape_quotes_Cons:
  "escape_quotes (c # f) = (if c = quote_char then [c, c] else [c]) @ escape_quotes f"
  by (simp add: escape_quotes_def)

lemma csv_loop_escaped:
  assumes "csv_quoted st" "\<not> next_is quote_char rest"
  shows "csv_loop (escape_quotes f @ quote_char # rest) st =
    csv_loop rest (st\<lparr>csv_field := csv_field st @ f, csv_quoted := False,
      csv_line := csv_line st + newlines f\<rparr>)"
  using assms
proof (induction f arbitrary: st)
  case Nil
  then show ?case by (simp add: escape_quotes_def newlines_def)
next
  case (Cons c f)
  show ?case
    using Cons.IH [of "push_char c st"] Cons.IH [of "push_char c (st\<lparr>csv_line := csv_line st + 1\<rparr>)"]
      Cons.prems
    by (cases st; cases "c = quote_char"; cases "c = newline")
      (simp_all add: escape_quotes_Cons next_is_def push_char_def newlines_def)
qed

lemma csv_loop_field:
  assumes "\<not> csv_quoted st" "\<not> csv_started st" "csv_field st = []" "\<not> next_is quote_char rest"
  shows "csv_loop (quote_field f @ rest) st =
    csv_loop rest (st\<lparr>csv_field := f, csv_quoted := False, csv_started := True,
      csv_line := csv_line st + newlines f\<rparr>)"
  using assms csv_loop_escaped [of "st\<lparr>csv_quoted := True, csv_started := True\<rparr>" rest f]
  by (cases st) (simp add: quote_field_def)

lemma csv_loop_plain:
  assumes "plain_field f" "\<not> csv_quoted st"
  shows "csv_loop (f @ rest) st = csv_loop rest (st\<lparr>csv_field := csv_field st @ f, csv_started := csv_started st \<or> f \<noteq> []\<rparr>)"
  using assms
proof (induction f arbitrary: st)
  case (Cons c f)
  have "plain_field f" "c \<noteq> quote_char" "c \<noteq> CHR '',''" "c \<noteq> carriage_return" "c \<noteq> newline"
    using Cons.prems(1) by (auto simp: plain_field_def)
  then show ?case using Cons.IH [of "(push_char c st)\<lparr>csv_started := True\<rparr>"] Cons.prems(2)
    by (cases st) (simp add: push_char_def)
qed simp

lemma csv_field_read:
  assumes "csv_field_text w f" "\<not> csv_quoted st" "\<not> csv_started st" "csv_field st = []" "\<not> next_is quote_char rest"
  shows "\<exists>line. csv_loop (w @ rest) st = csv_loop rest (st\<lparr>csv_field := f, csv_started := (w \<noteq> []), csv_line := line\<rparr>)"
  using assms(1)
proof cases
  case in_quotes
  with csv_loop_field [OF assms(2-5), of f] assms(2) show ?thesis
    by (cases st) (auto simp: quote_field_def)
next
  case unquoted
  with csv_loop_plain [of f st rest] assms(2-4) show ?thesis by (cases st) auto
qed

lemma csv_record_text_Nil: "csv_record_text w r \<Longrightarrow> r \<noteq> []"
  by (erule csv_record_text.cases) simp_all

lemma csv_record_read:
  assumes "csv_record_text w r" "\<not> csv_quoted st" "\<not> csv_started st" "csv_field st = []" "\<not> next_is quote_char rest"
  shows "\<exists>line started. csv_loop (w @ rest) st =
      csv_loop rest (st\<lparr>csv_record := csv_record st @ butlast r, csv_field := last r, csv_started := started, csv_line := line\<rparr>) \<and>
    (w \<noteq> [] \<longrightarrow> started \<or> butlast r \<noteq> [])"
  using assms
proof (induction arbitrary: st)
  case (one_field w f)
  from csv_field_read [OF one_field] show ?case by (cases st) auto
next
  case (more_fields w f ws fs)
  let ?rest = "CHR '','' # ws @ rest"
  obtain line where "csv_loop (w @ ?rest) st = csv_loop ?rest (st\<lparr>csv_field := f, csv_started := (w \<noteq> []), csv_line := line\<rparr>)"
    using csv_field_read [OF more_fields.hyps(1) more_fields.prems(1-3), of ?rest] by (auto simp: next_is_def)
  then have "csv_loop (w @ ?rest) st =
      csv_loop (ws @ rest) (st\<lparr>csv_record := csv_record st @ [f], csv_field := [], csv_started := False, csv_line := line\<rparr>)"
    using more_fields.prems(1) by (cases st) (simp add: end_field_def)
  with more_fields.IH [of "st\<lparr>csv_record := csv_record st @ [f], csv_field := [], csv_started := False, csv_line := line\<rparr>"]
    more_fields.prems csv_record_text_Nil [OF more_fields.hyps(2)] show ?case by auto
qed

definition between_records :: "csv_state \<Rightarrow> bool" where
  "between_records st \<longleftrightarrow>
     \<not> csv_quoted st \<and> \<not> csv_started st \<and> csv_field st = [] \<and> csv_record st = []"

lemma csv_break_read:
  assumes "line_break b" "\<not> csv_quoted st"
  shows "csv_loop (b @ rest) st = csv_loop rest ((end_record (csv_line st) (st\<lparr>csv_line := csv_line st + 1\<rparr>))\<lparr>csv_started := False\<rparr>)"
  using assms by (auto simp: line_break_def next_is_def)

lemma csv_file_read:
  assumes "csv_file_text t rs" "between_records st"
  shows "\<exists>st'. csv_loop t st = Inr st' \<and> \<not> csv_quoted st' \<and>
    map snd (csv_records (end_record (csv_line st') st')) = map snd (csv_records st) @ rs"
  using assms
proof (induction arbitrary: st)
  case no_line
  then show ?case by (simp add: between_records_def end_record_def has_content_def)
next
  case (last_line w r)
  with csv_record_read [of w r st "[]"] csv_record_text_Nil [of w r] show ?case
    by (fastforce simp: between_records_def next_is_def end_record_def has_content_def end_field_def Let_def)
next
  case (next_line w r b t rs)
  have "\<not> next_is quote_char (b @ t)" using next_line.hyps(3) by (auto simp: line_break_def next_is_def)
  with csv_record_read [OF next_line.hyps(1), of st "b @ t"] next_line.hyps(2) next_line.prems
  obtain line started where read: "csv_loop (w @ b @ t) st =
      csv_loop (b @ t) (st\<lparr>csv_record := butlast r, csv_field := last r, csv_started := started, csv_line := line\<rparr>)"
    "started \<or> butlast r \<noteq> []" by (auto simp: between_records_def)
  let ?st = "st\<lparr>csv_records := csv_records st @ [(line, r)], csv_line := line + 1\<rparr>"
  have "csv_loop (w @ b @ t) st = csv_loop t ?st"
    using read csv_break_read [OF next_line.hyps(3), of "st\<lparr>csv_record := butlast r, csv_field := last r, csv_started := started, csv_line := line\<rparr>" t]
      next_line.prems csv_record_text_Nil [OF next_line.hyps(1)]
    by (cases st) (simp add: between_records_def end_record_def has_content_def end_field_def Let_def)
  with next_line.IH [of ?st] next_line.prems show ?case by (simp add: between_records_def)
next
  case (blank_line b t rs)
  from blank_line.prems have "csv_loop (b @ t) st = csv_loop t (st\<lparr>csv_line := csv_line st + 1\<rparr>)"
    using csv_break_read [OF blank_line.hyps(1), of st t]
    by (cases st) (simp add: between_records_def end_record_def has_content_def)
  with blank_line.IH [of "st\<lparr>csv_line := csv_line st + 1\<rparr>"] blank_line.prems show ?case by (simp add: between_records_def)
qed

text \<open>Every table can be written, for instance with all fields in quotes.\<close>

definition csv_write :: "string list list \<Rightarrow> string" where
  "csv_write records = concat (map (\<lambda>r. join '','' (map quote_field r) @ [carriage_return, newline]) records)"

lemma csv_write_text: "\<forall>r\<in>set rs. r \<noteq> [] \<Longrightarrow> csv_file_text (csv_write rs) rs"
proof (induction rs)
  case (Cons r rs)
  have "csv_record_text (join '','' (map quote_field r)) r" if "r \<noteq> []" for r
    using that
  proof (induction r)
    case (Cons f r)
    then show ?case
      by (cases r) (auto intro: one_field more_fields [of "quote_field f" f, simplified] in_quotes)
  qed simp
  moreover have "join '','' (map quote_field r) \<noteq> []"
    using Cons.prems by (cases r; cases "tl r") (auto simp: quote_field_def)
  ultimately show ?case
    using Cons next_line [of "join '','' (map quote_field r)" r "[carriage_return, newline]" "csv_write rs" rs]
    by (simp add: csv_write_def line_break_def)
qed (simp add: csv_write_def no_line)

lemma collect_csv_rows:
  "\<forall>r\<in>set (map snd records). length r = length columns \<Longrightarrow>
   collect_results (check_csv_row columns) records = Inr (map snd records)"
  by (induction records) (auto simp: check_csv_row_def split: prod.splits)

section \<open>Properties\<close>

text \<open>C36: the CSV parser reads back every table written as RFC 4180 describes: each field in quotes with
  whatever commas, quotes and line breaks it holds, or unquoted when it has none of them, lines ended by CRLF or
  LF, with a final line break or without, and blank lines anywhere, which are skipped.\<close>

theorem csv_roundtrip:
  assumes "csv_file_text file (columns # rows)" "columns_ok columns" "\<forall>row\<in>set rows. length row = length columns"
  shows "parse_csv file = Inr (columns, rows)"
proof -
  have "between_records csv_start" by (simp add: between_records_def csv_start_def)
  then obtain st where st: "csv_loop file csv_start = Inr st" "\<not> csv_quoted st"
    "map snd (csv_records (end_record (csv_line st) st)) = columns # rows"
    using csv_file_read [OF assms(1), of csv_start] by (auto simp: csv_start_def)
  then obtain l records where r: "csv_records (end_record (csv_line st) st) = (l, columns) # records" "map snd records = rows"
    by (auto simp: map_eq_Cons_conv)
  with st(1,2) assms show ?thesis
    using check_columns_Inr_iff [of columns "()"] collect_csv_rows [of records columns]
    by (simp add: parse_csv_def)
qed

lemma trim_plain [simp]: "trim ''a'' = ''a''" "trim ''b'' = ''b''"
  by (simp_all add: trim_def trim_start.simps trim_end.simps leading_white_space_def
      trailing_white_space_def white_space_def suffix_def)

text \<open>Two columns, a blank line, and a last line without a break whose second field is quoted.\<close>

theorem csv_roundtrip_witness:
  "parse_csv (''a,b'' @ [carriage_return, newline, newline] @ ''x,'' @ quote_field [CHR '','', quote_char, newline]) =
   Inr ([''a'', ''b''], [[''x'', [CHR '','', quote_char, newline]]])"
proof (rule csv_roundtrip)
  have fields: "csv_field_text ''a'' ''a''" "csv_field_text ''b'' ''b''" "csv_field_text ''x'' ''x''"
    by (simp_all add: unquoted plain_field_def)
  have "csv_record_text (''x,'' @ quote_field [CHR '','', quote_char, newline]) [''x'', [CHR '','', quote_char, newline]]"
    using more_fields [OF fields(3) one_field [OF in_quotes]] by simp
  then have "csv_file_text (''x,'' @ quote_field [CHR '','', quote_char, newline]) [[''x'', [CHR '','', quote_char, newline]]]"
    by (rule last_line) simp
  then have "csv_file_text ([newline] @ ''x,'' @ quote_field [CHR '','', quote_char, newline]) [[''x'', [CHR '','', quote_char, newline]]]"
    using blank_line [of "[newline]"] by (simp add: line_break_def)
  moreover have "csv_record_text ''a,b'' [''a'', ''b'']" using more_fields [OF fields(1) one_field [OF fields(2)]] by simp
  ultimately show "csv_file_text (''a,b'' @ [carriage_return, newline, newline] @ ''x,'' @ quote_field [CHR '','', quote_char, newline])
      [[''a'', ''b''], [''x'', [CHR '','', quote_char, newline]]]"
    using next_line [of "''a,b''" "[''a'', ''b'']" "[carriage_return, newline]"] by (simp add: line_break_def)
qed (simp_all add: columns_ok_def)

lemma parse_data_Inr:
  assumes "parse_data sj path text = Inr ds"
  obtains columns rows where "columns_ok columns" "\<forall>row\<in>set rows. length row = length columns" "rows \<noteq> []"
    "ds = \<lparr>ds_path = path, ds_columns = columns, ds_rows = rows, ds_share = None\<rparr>"
  using assms by (auto simp: parse_data_def Let_def and_then_Inr_iff dest: parse_csv_Inr parse_json_lines_Inr
      split: if_splits)

lemma load_data_wf: "load_data sj metadata read path = Inr ds \<Longrightarrow> data_wf ds \<and> ds_share ds = None"
  by (auto simp: load_data_def and_then_Inr_iff data_wf_def elim: parse_data_Inr split: if_splits)

text \<open>A data file that loads is a table: it has a row, every row has one value per column, and the
  columns have distinct names that are not blank. In particular every column named by a template has
  a value in the row of every connection.\<close>

theorem parsed_data_well_formed:
  assumes "parse_data sj path text = Inr ds"
  shows "data_wf ds \<and> columns_ok (ds_columns ds) \<and>
    (name \<in> set (ds_columns ds) \<longrightarrow> data_value ds (row_for ds worker_id) name \<noteq> None)"
proof -
  obtain columns rows where cr: "columns_ok columns" "\<forall>row\<in>set rows. length row = length columns"
    "rows \<noteq> []" "ds = \<lparr>ds_path = path, ds_columns = columns, ds_rows = rows, ds_share = None\<rparr>"
    by (rule parse_data_Inr [OF assms])
  then have wf: "data_wf ds" "columns_ok (ds_columns ds)" by (simp_all add: data_wf_def)
  have "row_for ds worker_id < length rows" using cr(3,4) by (simp add: row_for_def)
  moreover have "\<exists>i<length columns. column ds name = Some i" if "name \<in> set columns"
  proof -
    have "\<exists>i<length cs. position (\<lambda>c. c = name) cs = Some i" if "name \<in> set cs" for cs
      using that by (induction cs) auto
    with that cr(4) show ?thesis by (simp add: column_def)
  qed
  ultimately have "data_value ds (row_for ds worker_id) name \<noteq> None" if "name \<in> set columns"
    using that cr(2,4) by (auto simp: data_value_def list_get_def)
  with wf cr(4) show ?thesis by simp
qed

definition no_json :: "nat serde_json" where
  "no_json = \<lparr>from_str = (\<lambda>_. None), to_string = (\<lambda>_. []), json_pointer = (\<lambda>_ _. None),
     as_u64 = (\<lambda>_. None)\<rparr>"

lemma small_csv:
  "parse_data no_json ''d.csv'' [CHR ''a'', newline, CHR ''x'', newline] =
   Inr \<lparr>ds_path = ''d.csv'', ds_columns = [''a''], ds_rows = [[''x'']], ds_share = None\<rparr>"
  by (simp add: parse_data_def Let_def strip_prefix_def byte_order_mark_def to_ascii_lowercase_def
      suffix_def trim_start.simps leading_white_space_def white_space_def parse_csv_def csv_start_def
      next_is_def push_char_def end_record_def has_content_def end_field_def check_columns_def
      check_csv_row_def)

theorem parsed_data_well_formed_witness:
  "parse_data no_json ''d.csv'' [CHR ''a'', newline, CHR ''x'', newline] =
     Inr \<lparr>ds_path = ''d.csv'', ds_columns = [''a''], ds_rows = [[''x'']], ds_share = None\<rparr> \<and>
   data_value \<lparr>ds_path = ''d.csv'', ds_columns = [''a''], ds_rows = [[''x'']], ds_share = None\<rparr>
     (row_for \<lparr>ds_path = ''d.csv'', ds_columns = [''a''], ds_rows = [[''x'']], ds_share = None\<rparr> 7) ''a'' \<noteq> None"
  using small_csv parsed_data_well_formed [OF small_csv, of "''a''" 7] by simp

lemma row_for_share:
  assumes "i < agents" "n * agents + i < data_len ds" "data_len ds \<le> u64_max"
    "agents = 1 \<Longrightarrow> ds_share ds = None"
  shows "row_for (with_share i agents ds) n = n * agents + i"
proof (cases "agents > 1")
  case True
  have "n * agents \<le> u64_max" using assms(2,3) by linarith
  with True assms(2,3) show ?thesis
    by (simp add: row_for_def with_share_def saturating_mul_exact saturating_add_exact data_len_def)
next
  case False
  then have "agents = 1" "i = 0" using assms(1) by simp_all
  with assms show ?thesis by (simp add: row_for_def with_share_def data_len_def)
qed

text \<open>While the data file has rows to spare, no two connections of a distributed run use the same
  row: connection \<open>n\<close> of agent \<open>i\<close> and connection \<open>m\<close> of agent \<open>j\<close> differ in their row unless they are
  the same connection.\<close>

theorem agents_use_distinct_rows:
  assumes "i < agents" "j < agents" "data_len ds \<le> u64_max" "ds_share ds = None"
    "n * agents + i < data_len ds" "m * agents + j < data_len ds" "i \<noteq> j \<or> n \<noteq> m"
  shows "row_for (with_share i agents ds) n \<noteq> row_for (with_share j agents ds) m"
proof
  assume "row_for (with_share i agents ds) n = row_for (with_share j agents ds) m"
  then have "n * agents + i = m * agents + j"
    using assms row_for_share [of i agents n ds] row_for_share [of j agents m ds] by simp
  then have "(i + n * agents) mod agents = (j + m * agents) mod agents"
    "(i + n * agents) div agents = (j + m * agents) div agents"
    by (simp_all only: add.commute)
  with assms(1,2,7) show False by simp
qed

theorem agents_use_distinct_rows_witness:
  "row_for (with_share 1 3 \<lparr>ds_path = [], ds_columns = [''a''], ds_rows = replicate 9 [''x''], ds_share = None\<rparr>) 2 \<noteq>
   row_for (with_share 2 3 \<lparr>ds_path = [], ds_columns = [''a''], ds_rows = replicate 9 [''x''], ds_share = None\<rparr>) 1"
  by (rule agents_use_distinct_rows) (simp_all add: data_len_def)

end
