(* ===== verification/Template.thy ===== *)
theory Template
  imports Data_Set
begin

text \<open>
  \<open>src/template.rs\<close>: payload and header templates. A template is parsed once into text and
  placeholders; rendering fills the placeholders in. The wall clock behind \<open>{{timestamp}}\<close> is an
  argument of \<open>render\<close>.
\<close>

section \<open>Templates\<close>

datatype part =
    Text string
  | Seq
  | Timestamp
  | WorkerId
  | Data string
  | Var nat

record template =
  tpl_source :: string
  tpl_parts :: "part list"

record template_values =
  val_seq :: nat
  val_worker_id :: nat
  val_data :: "(data_set \<times> nat) option"
  val_vars :: "string list"

text \<open>The part a placeholder's name stands for.\<close>

definition placeholder :: "string list \<Rightarrow> string \<Rightarrow> part option" where
  "placeholder vars name =
     (if name = ''seq'' then Some Seq
      else if name = ''timestamp'' then Some Timestamp
      else if name = ''worker_id'' then Some WorkerId
      else (case position (\<lambda>var. var = name) vars of
          Some index \<Rightarrow> Some (Var index)
        | None \<Rightarrow>
            (case strip_prefix ''data.'' name of
               Some col \<Rightarrow> (if col \<noteq> [] then Some (Data col) else None)
             | None \<Rightarrow> None)))"

definition push_text :: "string \<Rightarrow> part list \<Rightarrow> part list" where
  "push_text text parts = (if text \<noteq> [] then parts @ [Text text] else parts)"

function parse_loop :: "string list \<Rightarrow> string \<Rightarrow> string \<Rightarrow> part list \<Rightarrow> part list" where
  "parse_loop vars rest acc parts =
     (case str_find ''{{'' rest of
        None \<Rightarrow> push_text (acc @ rest) parts
      | Some start \<Rightarrow>
          (case str_find ''}}'' (drop (start + 2) rest) of
             None \<Rightarrow> push_text (acc @ rest) parts
           | Some len \<Rightarrow>
               (let name = take len (drop (start + 2) rest);
                    stop = start + 2 + len + 2
                in case placeholder vars name of
                     Some p \<Rightarrow>
                       parse_loop vars (drop stop rest) []
                         (push_text (acc @ take start rest) parts @ [p])
                   | None \<Rightarrow> parse_loop vars (drop stop rest) (acc @ take stop rest) parts)))"
  by pat_completeness auto
termination
  by (relation "measure (\<lambda>(_, rest, _, _). length rest)")
    (auto dest!: str_find_bound)

declare parse_loop.simps [simp del]

definition parse_with_vars :: "string \<Rightarrow> string list \<Rightarrow> template" where
  "parse_with_vars source vars = \<lparr>tpl_source = source, tpl_parts = parse_loop vars source [] []\<rparr>"

definition parse_template :: "string \<Rightarrow> template" where
  "parse_template source = parse_with_vars source []"

fun is_text :: "part \<Rightarrow> bool" where
  "is_text (Text t) = True"
| "is_text _ = False"

definition is_dynamic :: "template \<Rightarrow> bool" where
  "is_dynamic t = (\<exists>p\<in>set (tpl_parts t). \<not> is_text p)"

definition has_seq :: "template \<Rightarrow> bool" where
  "has_seq t = (Seq \<in> set (tpl_parts t))"

fun data_column :: "part \<Rightarrow> string list" where
  "data_column (Data c) = [c]"
| "data_column _ = []"

definition data_columns :: "template \<Rightarrow> string list" where
  "data_columns t = concat (map data_column (tpl_parts t))"

datatype template_error =
    Needs_data_file string
  | No_such_column string string "string list"

fun check_columns_of :: "data_set option \<Rightarrow> string list \<Rightarrow> template_error + unit" where
  "check_columns_of data [] = Inr ()"
| "check_columns_of data (c # cs) =
     (case data of
        None \<Rightarrow> Inl (Needs_data_file c)
      | Some ds \<Rightarrow> (if column ds c = None then Inl (No_such_column (ds_path ds) c (ds_columns ds))
                    else check_columns_of data cs))"

definition check_data :: "template \<Rightarrow> data_set option \<Rightarrow> template_error + unit" where
  "check_data t data = check_columns_of data (data_columns t)"

fun render_part :: "nat \<Rightarrow> template_values \<Rightarrow> part \<Rightarrow> string" where
  "render_part now_ms values (Text t) = t"
| "render_part now_ms values Seq = show_nat (val_seq values)"
| "render_part now_ms values Timestamp = show_nat now_ms"
| "render_part now_ms values WorkerId = show_nat (val_worker_id values)"
| "render_part now_ms values (Data c) =
     (case val_data values of
        None \<Rightarrow> []
      | Some (ds, row) \<Rightarrow> (case data_value ds row c of None \<Rightarrow> [] | Some v \<Rightarrow> v))"
| "render_part now_ms values (Var index) =
     (case list_get (val_vars values) index of None \<Rightarrow> [] | Some v \<Rightarrow> v)"

definition render :: "nat \<Rightarrow> template \<Rightarrow> template_values \<Rightarrow> string" where
  "render now_ms t values = concat (map (render_part now_ms values) (tpl_parts t))"

section \<open>Parsing loses nothing\<close>

text \<open>The acc a part was parsed from.\<close>

fun part_source :: "string list \<Rightarrow> part \<Rightarrow> string" where
  "part_source vars (Text t) = t"
| "part_source vars Seq = ''{{seq}}''"
| "part_source vars Timestamp = ''{{timestamp}}''"
| "part_source vars WorkerId = ''{{worker_id}}''"
| "part_source vars (Data c) = ''{{data.'' @ c @ ''}}''"
| "part_source vars (Var i) = ''{{'' @ vars ! i @ ''}}''"

lemma position_Some: "position P xs = Some i \<Longrightarrow> i < length xs \<and> P (xs ! i)"
  by (induction xs arbitrary: i) (auto split: if_splits)

lemma position_None_iff: "position P xs = None \<longleftrightarrow> (\<forall>x\<in>set xs. \<not> P x)"
  by (induction xs) auto

lemma placeholder_source:
  "placeholder vars name = Some p \<Longrightarrow> part_source vars p = ''{{'' @ name @ ''}}''"
  by (auto simp: placeholder_def strip_prefix_Some_iff dest!: position_Some
      split: if_splits option.splits)

lemma placeholder_not_text: "placeholder vars name = Some p \<Longrightarrow> \<not> is_text p"
  by (auto simp: placeholder_def split: if_splits option.splits)

lemma push_text_source [simp]:
  "concat (map (part_source vars) (push_text acc parts)) =
   concat (map (part_source vars) parts) @ acc"
  by (simp add: push_text_def)

lemma brace_decompose:
  assumes "str_find ''{{'' rest = Some start" "str_find ''}}'' (drop (start + 2) rest) = Some len"
  shows "rest = take start rest @ ''{{'' @ take len (drop (start + 2) rest) @ ''}}''
    @ drop (start + 2 + len + 2) rest"
proof -
  have 1: "rest = take start rest @ ''{{'' @ drop (start + 2) rest"
    using str_find_Some [OF assms(1)] by simp
  have 2: "drop (start + 2) rest = take len (drop (start + 2) rest) @ ''}}'' @ drop (start + 2 + len + 2) rest"
    using str_find_Some [OF assms(2)] by (simp add: add.commute add.left_commute)
  show ?thesis by (subst 1, subst 2) simp
qed

lemma parse_loop_source:
  "concat (map (part_source vars) (parse_loop vars rest acc parts)) =
   concat (map (part_source vars) parts) @ acc @ rest"
proof (induction vars rest acc parts rule: parse_loop.induct)
  case (1 vars rest acc parts)
  consider "str_find ''{{'' rest = None"
    | start where "str_find ''{{'' rest = Some start" "str_find ''}}'' (drop (start + 2) rest) = None"
    | start len where "str_find ''{{'' rest = Some start" "str_find ''}}'' (drop (start + 2) rest) = Some len"
    by (metis option.exhaust)
  then show ?case
  proof cases
    case 1
    then show ?thesis by (simp add: parse_loop.simps [of vars rest])
  next
    case (2 start)
    then show ?thesis by (simp add: parse_loop.simps [of vars rest])
  next
    case (3 start len)
    let ?name = "take len (drop (start + 2) rest)"
    let ?stop = "start + 2 + len + 2"
    have rest: "take start rest @ ''{{'' @ ?name @ ''}}'' @ drop ?stop rest = rest"
      using brace_decompose [OF 3] by simp
    show ?thesis
    proof (cases "placeholder vars ?name")
      case None
      have "concat (map (part_source vars) (parse_loop vars rest acc parts)) =
          concat (map (part_source vars) parts) @ (acc @ take ?stop rest) @ drop ?stop rest"
        using "1.IH"(1) [OF 3 refl refl None] 3 None by (simp add: parse_loop.simps [of vars rest] Let_def)
      also have "\<dots> = concat (map (part_source vars) parts) @ acc @ rest"
        by (simp only: append_assoc append_take_drop_id)
      finally show ?thesis .
    next
      case (Some p)
      have "concat (map (part_source vars) (parse_loop vars rest acc parts)) =
          concat (map (part_source vars) parts) @ acc @ (take start rest @ ''{{'' @ ?name @ ''}}'' @ drop ?stop rest)"
        using "1.IH"(2) [OF 3 refl refl Some] 3 Some placeholder_source [OF Some]
        by (simp add: parse_loop.simps [of vars rest] Let_def)
      then show ?thesis by (simp only: rest)
    qed
  qed
qed

lemma parse_loop_reads:
  "p \<in> set (parse_loop vars rest acc parts) \<Longrightarrow>
   p \<in> set parts \<or> (\<exists>t. t \<noteq> [] \<and> p = Text t) \<or> (\<exists>name. placeholder vars name = Some p)"
proof (induction vars rest acc parts rule: parse_loop.induct)
  case (1 vars rest acc parts)
  show ?case
    using "1.prems" "1.IH"
    by (subst (asm) parse_loop.simps)
      (fastforce simp: push_text_def Let_def split: option.splits if_splits)
qed

lemma parts_var_bound: "Var i \<in> set (tpl_parts (parse_with_vars source vars)) \<Longrightarrow> i < length vars"
  using parse_loop_reads [of "Var i" vars source "[]" "[]"]
  by (auto simp: parse_with_vars_def placeholder_def dest: position_Some split: if_splits option.splits)

lemma check_columns_of_Inr_iff:
  "check_columns_of data cs = Inr u \<longleftrightarrow>
     cs = [] \<or> (\<exists>ds. data = Some ds \<and> (\<forall>c\<in>set cs. column ds c \<noteq> None))"
  by (induction cs) (auto split: option.splits)

lemma data_columns_iff: "c \<in> set (data_columns t) \<longleftrightarrow> Data c \<in> set (tpl_parts t)"
proof -
  have "c \<in> set (data_column p) \<longleftrightarrow> p = Data c" for p by (cases p) auto
  then show ?thesis by (auto simp: data_columns_def)
qed

section \<open>Properties\<close>

text \<open>Parsing a template loses nothing: the texts of its parts, put together again, are the source,
  so any \<open>{{...}}\<close> that is not a placeholder is sent as it was written.\<close>

theorem template_parts_cover_source:
  "concat (map (part_source vars) (tpl_parts (parse_with_vars source vars))) = source"
  by (simp add: parse_with_vars_def parse_loop_source)

lemma text_parts_source:
  "(\<forall>p\<in>set ps. is_text p) \<Longrightarrow>
   concat (map (render_part now_ms values) ps) = concat (map (part_source vars) ps)"
proof (induction ps)
  case (Cons p ps)
  then show ?case by (cases p) simp_all
qed simp

text \<open>A template without placeholders renders to its own source, at any time and for any
  connection.\<close>

lemma static_template_renders_source:
  assumes "\<not> is_dynamic (parse_with_vars source vars)"
  shows "render now_ms (parse_with_vars source vars) values = source"
proof -
  have "render now_ms (parse_with_vars source vars) values =
      concat (map (part_source vars) (tpl_parts (parse_with_vars source vars)))"
    unfolding render_def using assms by (intro text_parts_source) (simp add: is_dynamic_def)
  then show ?thesis by (simp add: parse_with_vars_def parse_loop_source)
qed

lemma static_template_renders_source_witness:
  "render 0 (parse_with_vars ''a{{b}}'' []) \<lparr>val_seq = 1, val_worker_id = 2, val_data = None, val_vars = []\<rparr>
     = ''a{{b}}''"
  by (rule static_template_renders_source)
    (simp add: is_dynamic_def parse_with_vars_def parse_loop.simps push_text_def placeholder_def
      strip_prefix_def numeral_eq_Suc)

lemma parsed_columns_have_values:
  assumes "data_wf ds" "column ds c = Some i" "row < data_len ds"
  shows "data_value ds row c \<noteq> None"
proof -
  have "i < length (ds_columns ds)"
    using assms(2) position_Some by (auto simp: column_def)
  with assms show ?thesis by (auto simp: data_value_def list_get_def data_wf_def data_len_def)
qed

text \<open>A template that passed \<open>check_data\<close> is filled in from the data file: for every connection, each
  \<open>{{data.COLUMN}}\<close> renders the value of the connection's row and is never silently left empty.\<close>

theorem checked_template_reads_data:
  assumes "check_data t (Some ds) = Inr ()" "data_wf ds" "Data c \<in> set (tpl_parts t)"
    "val_data values = Some (ds, row_for ds worker_id)"
  shows "\<exists>v. data_value ds (row_for ds worker_id) c = Some v
    \<and> render_part now_ms values (Data c) = v"
proof -
  have "column ds c \<noteq> None"
    using assms(1,3) by (auto simp: check_data_def check_columns_of_Inr_iff simp flip: data_columns_iff)
  moreover have "row_for ds worker_id < data_len ds"
    using assms(2) by (simp add: row_for_def data_len_def data_wf_def)
  ultimately obtain v where "data_value ds (row_for ds worker_id) c = Some v"
    using parsed_columns_have_values [OF assms(2)] by blast
  with assms(4) show ?thesis by simp
qed

theorem checked_template_reads_data_witness:
  "\<exists>v. data_value \<lparr>ds_path = [], ds_columns = [''a''], ds_rows = [[''x''], [''y'']], ds_share = None\<rparr> 
        (row_for \<lparr>ds_path = [], ds_columns = [''a''], ds_rows = [[''x''], [''y'']], ds_share = None\<rparr> 3) ''a'' = Some v
    \<and> render_part 0 \<lparr>val_seq = 0, val_worker_id = 3, val_data = Some (\<lparr>ds_path = [], ds_columns = [''a''],
        ds_rows = [[''x''], [''y'']], ds_share = None\<rparr>,
        row_for \<lparr>ds_path = [], ds_columns = [''a''], ds_rows = [[''x''], [''y'']], ds_share = None\<rparr> 3),
        val_vars = []\<rparr> (Data ''a'') = v"
  by (rule checked_template_reads_data [of "\<lparr>tpl_source = ''{{data.a}}'', tpl_parts = [Data ''a'']\<rparr>"])
    (simp_all add: check_data_def data_columns_def column_def data_wf_def)

end
