(* ===== verification/Reply_Check.thy ===== *)
theory Reply_Check
  imports Template
begin

text \<open>
  \<open>src/check.rs\<close>: the checks on echo replies (\<open>expect\<close>, \<open>--expect\<close>) and the values captured from
  them. \<open>serde_json\<close> is a parameter. The \<open>OnceCell\<close> of \<open>Reply\<close> only keeps the JSON from being parsed
  twice; the model computes it where it is used.
\<close>

section \<open>Frames\<close>

text \<open>\<open>tungstenite::Message\<close>: text and binary frames carry their bytes, a close frame its code and
  reason.\<close>

datatype message =
    Msg_Text string
  | Msg_Binary string
  | Msg_Ping string
  | Msg_Pong string
  | Msg_Close "(nat \<times> string) option"

text \<open>\<open>std::str::from_utf8\<close>: the well-formed byte sequences of Unicode table 3-7.\<close>

definition byte_in :: "nat \<Rightarrow> nat \<Rightarrow> char \<Rightarrow> bool" where
  "byte_in lo hi c = (lo \<le> of_char c \<and> of_char c \<le> hi)"

fun utf8_valid :: "string \<Rightarrow> bool" where
  "utf8_valid [] = True"
| "utf8_valid (a # cs) =
     (if byte_in 0 0x7F a then utf8_valid cs
      else (case cs of
          [] \<Rightarrow> False
        | b # cs2 \<Rightarrow>
            if byte_in 0xC2 0xDF a then byte_in 0x80 0xBF b \<and> utf8_valid cs2
            else (case cs2 of
                [] \<Rightarrow> False
              | c # cs3 \<Rightarrow>
                  if byte_in 0xE0 0xEF a
                  then (if a = CHR 0xE0 then byte_in 0xA0 0xBF b
                        else if a = CHR 0xED then byte_in 0x80 0x9F b else byte_in 0x80 0xBF b)
                       \<and> byte_in 0x80 0xBF c \<and> utf8_valid cs3
                  else (case cs3 of
                      [] \<Rightarrow> False
                    | d # cs4 \<Rightarrow>
                        byte_in 0xF0 0xF4 a
                        \<and> (if a = CHR 0xF0 then byte_in 0x90 0xBF b
                           else if a = CHR 0xF4 then byte_in 0x80 0x8F b else byte_in 0x80 0xBF b)
                        \<and> byte_in 0x80 0xBF c \<and> byte_in 0x80 0xBF d \<and> utf8_valid cs4))))"

definition from_utf8 :: "string \<Rightarrow> string option" where
  "from_utf8 bytes = (if utf8_valid bytes then Some bytes else None)"

section \<open>Checks\<close>

datatype 'n check =
    Check_Json string "'n json option"
  | Contains string

datatype check_error =
    Contains_needs_text
  | Invalid_expect string
  | Not_a_pointer string
  | Bad_variable_name string
  | Builtin_placeholder string

definition check_pointer :: "string \<Rightarrow> check_error + unit" where
  "check_pointer pointer =
     (if pointer = [] \<or> prefix ''/'' pointer then Inr () else Inl (Not_a_pointer pointer))"

fun check_validate :: "'n check \<Rightarrow> check_error + unit" where
  "check_validate (Check_Json pointer equals) = check_pointer pointer"
| "check_validate (Contains s) = (if s = [] then Inl Contains_needs_text else Inr ())"

text \<open>\<open>serde_json::from_str(value).unwrap_or_else(|_| Value::String(value))\<close>.\<close>

definition json_or_string :: "'n serde_json \<Rightarrow> string \<Rightarrow> 'n json" where
  "json_or_string sj value = (case from_str sj value of Some v \<Rightarrow> v | None \<Rightarrow> JString value)"

definition parse_flag :: "'n serde_json \<Rightarrow> string \<Rightarrow> check_error + 'n check" where
  "parse_flag sj spec =
     (case strip_prefix ''contains:'' spec of
        Some s \<Rightarrow> (if s = [] then Inl Contains_needs_text else Inr (Contains s))
      | None \<Rightarrow>
          (case strip_prefix ''json:'' spec of
             None \<Rightarrow> Inl (Invalid_expect spec)
           | Some rest \<Rightarrow>
               (let chk = (case split_once ''='' rest of
                      Some (pointer, value) \<Rightarrow> Check_Json pointer (Some (json_or_string sj value))
                    | None \<Rightarrow> Check_Json rest None)
                in and_then (check_validate chk) (\<lambda>_. Inr chk))))"

fun check_flag_value :: "'n serde_json \<Rightarrow> 'n check \<Rightarrow> string" where
  "check_flag_value sj (Check_Json pointer None) = ''json:'' @ pointer"
| "check_flag_value sj (Check_Json pointer (Some value)) =
     ''json:'' @ pointer @ ''='' @ to_string sj value"
| "check_flag_value sj (Contains s) = ''contains:'' @ s"

fun is_scalar :: "'n json \<Rightarrow> bool" where
  "is_scalar (JNumber n) = True"
| "is_scalar (JBool b) = True"
| "is_scalar _ = False"

definition same :: "'n serde_json \<Rightarrow> 'n json \<Rightarrow> 'n json \<Rightarrow> bool" where
  "same sj found expected =
     (found = expected \<or>
      (case (found, expected) of
         (JString s, other) \<Rightarrow> is_scalar other \<and> from_str sj s = Some other
       | (other, JString s) \<Rightarrow> is_scalar other \<and> from_str sj s = Some other
       | _ \<Rightarrow> False))"

section \<open>Replies\<close>

definition reply_text :: "message \<Rightarrow> string option" where
  "reply_text frame =
     (case frame of
        Msg_Text s \<Rightarrow> Some s
      | Msg_Binary bytes \<Rightarrow> from_utf8 bytes
      | _ \<Rightarrow> None)"

definition reply_json :: "'n serde_json \<Rightarrow> message \<Rightarrow> 'n json option" where
  "reply_json sj frame = Option.bind (reply_text frame) (from_str sj)"

fun passes :: "'n serde_json \<Rightarrow> 'n check \<Rightarrow> message \<Rightarrow> bool" where
  "passes sj (Contains s) reply = (case reply_text reply of None \<Rightarrow> False | Some r \<Rightarrow> str_contains r s)"
| "passes sj (Check_Json pointer equals) reply =
     (case Option.bind (reply_json sj reply) (json_pointer sj pointer) of
        None \<Rightarrow> False
      | Some found \<Rightarrow> (case equals of None \<Rightarrow> True | Some expected \<Rightarrow> same sj found expected))"

record capture =
  cap_var :: nat
  cap_pointer :: string

definition capture_value :: "'n serde_json \<Rightarrow> capture \<Rightarrow> message \<Rightarrow> string option" where
  "capture_value sj cap reply =
     map_option (\<lambda>found. case found of JString s \<Rightarrow> s | other \<Rightarrow> to_string sj other)
       (Option.bind (reply_json sj reply) (json_pointer sj (cap_pointer cap)))"

definition is_name_char :: "char \<Rightarrow> bool" where
  "is_name_char c = (is_ascii_alphabetic c \<or> is_ascii_digit c \<or> c = CHR ''_'')"

definition check_var_name :: "string \<Rightarrow> check_error + unit" where
  "check_var_name name =
     (if \<not> (name \<noteq> [] \<and> (is_ascii_alphabetic (hd name) \<or> hd name = CHR ''_'')
            \<and> list_all is_name_char (tl name))
      then Inl (Bad_variable_name name)
      else if name \<in> {''seq'', ''timestamp'', ''worker_id'', ''data''}
      then Inl (Builtin_placeholder name)
      else Inr ())"

section \<open>Properties\<close>

lemma strip_prefix_clash:
  "strip_prefix ''contains:'' (''json:'' @ s) = None"
  by (simp add: strip_prefix_def)

lemma split_once_pointer:
  "CHR ''='' \<notin> set pointer \<Longrightarrow> split_once ''='' (pointer @ ''='' @ v) = Some (pointer, v)"
  using split_once_char [of "CHR ''=''" pointer v] by simp

lemma split_once_no_char: "c \<notin> set s \<Longrightarrow> split_once [c] s = None"
  by (simp add: split_once_def str_find_char_None)

text \<open>A check that \<open>parse_flag\<close> can return: its pointer has no \<open>=\<close>.\<close>

fun spelled :: "'n check \<Rightarrow> bool" where
  "spelled (Check_Json pointer equals) \<longleftrightarrow> CHR ''='' \<notin> set pointer \<and> check_pointer pointer = Inr ()"
| "spelled (Contains s) \<longleftrightarrow> s \<noteq> []"

lemma parse_flag_spelled: "parse_flag sj spec = Inr chk \<Longrightarrow> spelled chk"
proof -
  have no_eq: "CHR ''='' \<notin> set rest" if "split_once ''='' rest = None" for rest
    using that str_find_char_None [of "CHR ''=''" rest] by (simp add: split_once_def)
  assume "parse_flag sj spec = Inr chk"
  then show ?thesis
    by (auto simp: parse_flag_def Let_def and_then_Inr_iff split: option.splits if_splits
        dest: no_eq split_once_char_Some)
qed

lemma parse_flag_value:
  assumes "serde_roundtrip sj" "spelled chk"
  shows "parse_flag sj (check_flag_value sj chk) = Inr chk"
proof (cases chk)
  case (Contains s)
  with assms show ?thesis by (simp add: parse_flag_def strip_prefix_def)
next
  case (Check_Json pointer equals)
  have p: "strip_prefix ''json:'' (''json:'' @ s) = Some s" for s by (rule strip_prefix_append)
  show ?thesis
    using assms Check_Json split_once_pointer [of pointer] split_once_no_char [of _ pointer]
    by (cases equals)
      (simp_all add: parse_flag_def strip_prefix_def serde_roundtrip_def json_or_string_def)
qed

text \<open>The \<open>--expect\<close> spelling of a check is faithful. A check that was read from the command line and
  is sent to a distributed agent in its command-line spelling is read there as the same check.\<close>

theorem expect_flag_roundtrip:
  assumes "serde_roundtrip sj" "parse_flag sj spec = Inr chk"
  shows "parse_flag sj (check_flag_value sj chk) = Inr chk"
  using assms parse_flag_value parse_flag_spelled by blast

theorem expect_flag_roundtrip_witness:
  "parse_flag numbered_json (check_flag_value numbered_json (Check_Json ''/status'' (Some (from_nat 7)))) =
     Inr (Check_Json ''/status'' (Some (from_nat 7)))"
  by (rule expect_flag_roundtrip [of _ "''json:/status=7''", OF serde_roundtrip_numbered])
    (simp add: parse_flag_def strip_prefix_def split_once_def json_or_string_def numbered_json_def
      check_pointer_def digits_value_def digit_val_def)

text \<open>Comparing a reply's value with the expected one does not depend on which side is the text: a
  number and its text are the same both ways.\<close>

lemma same_symmetric: "same sj v v \<and> (same sj a b \<longleftrightarrow> same sj b a)"
  by (cases a; cases b) (auto simp: same_def)

lemma name_chars:
  assumes "check_var_name name = Inr ()"
  shows "name \<noteq> []" "CHR ''}'' \<notin> set name" "CHR ''{'' \<notin> set name"
    "name \<notin> {''seq'', ''timestamp'', ''worker_id'', ''data''}"
proof -
  have "\<not> is_name_char (CHR ''}'')" "\<not> is_name_char (CHR ''{'')"
    by (simp_all add: is_name_char_def is_ascii_alphabetic_def is_ascii_digit_def)
  moreover have "list_all is_name_char name" "name \<noteq> []"
    "name \<notin> {''seq'', ''timestamp'', ''worker_id'', ''data''}"
    using assms by (cases name; auto simp: check_var_name_def is_name_char_def split: if_splits)+
  ultimately show "name \<noteq> []" "CHR ''}'' \<notin> set name" "CHR ''{'' \<notin> set name"
    "name \<notin> {''seq'', ''timestamp'', ''worker_id'', ''data''}"
    by (auto simp: list_all_iff)
qed

lemma str_find_pair_append:
  "c \<notin> set a \<Longrightarrow> str_find [c, c] (a @ c # c # b) = Some (length a)"
  by (induction a) auto

text \<open>A name that may be captured always reads as its variable: \<open>{{NAME}}\<close> in a payload of the phase
  is the placeholder of the variable, never text and never one of the built-in placeholders.\<close>

theorem captured_name_is_placeholder:
  assumes "check_var_name name = Inr ()" "name \<in> set vars"
  shows "\<exists>i < length vars. vars ! i = name
    \<and> tpl_parts (parse_with_vars (''{{'' @ name @ ''}}'') vars) = [Var i]"
proof -
  obtain i where i: "position (\<lambda>var. var = name) vars = Some i"
    using assms(2) position_None_iff [of "\<lambda>var. var = name" vars] by (cases "position (\<lambda>var. var = name) vars") auto
  then have bound: "i < length vars" "vars ! i = name" using position_Some [OF i] by auto
  have "str_find ''{{'' (''{{'' @ name @ ''}}'') = Some 0" by simp
  moreover have "str_find ''}}'' (name @ ''}}'') = Some (length name)"
    using str_find_pair_append [OF name_chars(2) [OF assms(1)], of "[]"] by simp
  moreover have "placeholder vars name = Some (Var i)"
    using i name_chars(4) [OF assms(1)] by (simp add: placeholder_def)
  ultimately have "parse_loop vars (''{{'' @ name @ ''}}'') [] [] = [Var i]"
    by (simp add: parse_loop.simps [of vars "CHR ''{'' # _"] parse_loop.simps [of vars "[]"]
        push_text_def numeral_2_eq_2)
  with bound show ?thesis by (auto simp: parse_with_vars_def)
qed

theorem captured_name_is_placeholder_witness:
  "\<exists>i < length [''id'', ''token'']. [''id'', ''token''] ! i = ''token''
    \<and> tpl_parts (parse_with_vars (''{{'' @ ''token'' @ ''}}'') [''id'', ''token'']) = [Var i]"
  by (rule captured_name_is_placeholder)
    (simp_all add: check_var_name_def is_name_char_def is_ascii_alphabetic_def)

end
