(* ===== verification/Chaos.thy ===== *)
theory Chaos
  imports Stages Reply_Check
begin

text \<open>
  \<open>src/chaos.rs\<close>: client-side fault injection. The generators are modelled on 64-bit words, the draws
  on exact binary64 arithmetic. The seed taken from the clock and the process id when none is given
  (\<open>time_seed\<close>) is an argument. A \<open>Duration\<close> sum that overflows panics: \<open>None\<close>.
\<close>

section \<open>Settings\<close>

datatype chaos_close_mode = Abrupt | Graceful

record chaos_config =
  ch_delay :: duration
  ch_jitter :: duration
  drop_percent :: f64
  corrupt_percent :: f64
  close_percent :: f64
  close_mode :: chaos_close_mode
  ch_read_pause :: duration
  ch_read_jitter :: duration
  ch_seed :: "u64 option"

definition chaos_new :: chaos_config where
  "chaos_new = \<lparr>ch_delay = 0, ch_jitter = 0, drop_percent = Num 0, corrupt_percent = Num 0,
     close_percent = Num 0, close_mode = Abrupt, ch_read_pause = 0, ch_read_jitter = 0, ch_seed = None\<rparr>"

definition acts_on_sends :: "chaos_config \<Rightarrow> bool" where
  "acts_on_sends c =
     (ch_delay c \<noteq> 0 \<or> ch_jitter c \<noteq> 0 \<or> f64_lt (Num 0) (drop_percent c)
      \<or> f64_lt (Num 0) (corrupt_percent c) \<or> f64_lt (Num 0) (close_percent c))"

definition pauses_reads :: "chaos_config \<Rightarrow> bool" where
  "pauses_reads c = (ch_read_pause c \<noteq> 0 \<or> ch_read_jitter c \<noteq> 0)"

definition is_active :: "chaos_config \<Rightarrow> bool" where
  "is_active c = (acts_on_sends c \<or> pauses_reads c)"

definition in_percent_range :: "f64 \<Rightarrow> bool" where
  "in_percent_range x = (f64_le (Num 0) x \<and> f64_le x (Num 100))"

definition chaos_validate :: "chaos_config \<Rightarrow> config_error + unit" where
  "chaos_validate c =
     (if \<not> in_percent_range (drop_percent c) then Inl (InvalidOption ''drop'')
      else if \<not> in_percent_range (corrupt_percent c) then Inl (InvalidOption ''corrupt'')
      else if \<not> in_percent_range (close_percent c) then Inl (InvalidOption ''close'')
      else if f64_lt (Num 100) (f64_add (drop_percent c) (corrupt_percent c))
      then Inl (InvalidOption ''drop and corrupt'')
      else Inr ())"

definition seeded :: "u64 \<Rightarrow> chaos_config \<Rightarrow> chaos_config" where
  "seeded time_seed c =
     c\<lparr>ch_seed := Some (case ch_seed c of None \<Rightarrow> time_seed | Some s \<Rightarrow> s)\<rparr>"

definition parse_delay :: "string \<Rightarrow> config_error + duration \<times> duration" where
  "parse_delay raw =
     (let (delay, jitter) = (case split_once '':'' raw of
            Some (delay, jitter) \<Rightarrow> (delay, Some jitter)
          | None \<Rightarrow> (raw, None))
      in and_then (parse_human_duration delay) (\<lambda>delay.
           and_then (transpose_opt parse_human_duration jitter) (\<lambda>jitter.
             Inr (delay, case jitter of None \<Rightarrow> 0 | Some j \<Rightarrow> j))))"

section \<open>Generators\<close>

definition splitmix64 :: "u64 \<Rightarrow> u64" where
  "splitmix64 seed =
     (let z = seed + 0x9e3779b97f4a7c15;
          z = (z XOR drop_bit 30 z) * 0xbf58476d1ce4e5b9;
          z = (z XOR drop_bit 27 z) * 0x94d049bb133111eb
      in z XOR drop_bit 31 z)"

text \<open>The state of an \<open>XorShift64\<close> is its word; every draw returns the drawn value and the new state.\<close>

definition xorshift_new :: "u64 \<Rightarrow> u64" where
  "xorshift_new seed = max (splitmix64 seed) 1"

definition next_u64 :: "u64 \<Rightarrow> u64 \<times> u64" where
  "next_u64 s =
     (let x = s;
          x = x XOR push_bit 13 x;
          x = x XOR drop_bit 7 x;
          x = x XOR push_bit 17 x
      in (x, x))"

definition next_f64 :: "u64 \<Rightarrow> f64 \<times> u64" where
  "next_f64 s =
     (let (x, s) = next_u64 s
      in (f64_div (of_uint (unat (drop_bit 11 x))) (of_uint (2 ^ 53)), s))"

definition at_most :: "u64 \<Rightarrow> u64 \<Rightarrow> u64 \<times> u64" where
  "at_most hi s =
     (let (x, s) = next_u64 s
      in (if hi = - 1 then x else x mod (hi + 1), s))"

definition rotate_left :: "nat \<Rightarrow> u64 \<Rightarrow> u64" where
  "rotate_left n x = push_bit n x OR drop_bit (64 - n) x"

definition agent_seed :: "u64 \<Rightarrow> nat \<Rightarrow> u64" where
  "agent_seed seed agent = splitmix64 (seed XOR rotate_left 17 (splitmix64 (word_of_nat agent + 1)))"

section \<open>One worker's faults\<close>

record chaos_state =
  cs_config :: chaos_config
  cs_rng :: u64
  cs_read_rng :: u64

record send_plan =
  sp_delay :: duration
  sp_drop :: bool
  sp_corrupt :: bool

definition READ_STREAM :: u64 where
  "READ_STREAM = 0x7265616470617573"

definition chaos_state_new :: "u64 \<Rightarrow> chaos_config \<Rightarrow> nat \<Rightarrow> chaos_state" where
  "chaos_state_new time_seed c worker_id =
     (let seed = (case ch_seed c of None \<Rightarrow> time_seed | Some s \<Rightarrow> s)
      in \<lparr>cs_config = c,
          cs_rng = xorshift_new (seed XOR splitmix64 (word_of_nat worker_id)),
          cs_read_rng = xorshift_new (splitmix64 (seed XOR READ_STREAM) XOR splitmix64 (word_of_nat worker_id))\<rparr>)"

text \<open>\<open>jitter.as_nanos().min(u128::from(u64::MAX)) as u64\<close>, drawn and added to \<open>base\<close>.\<close>

definition add_jitter :: "duration \<Rightarrow> duration \<Rightarrow> u64 \<Rightarrow> (duration \<times> u64) option" where
  "add_jitter base jitter rng =
     (if jitter = 0 then Some (base, rng)
      else (let (extra, rng) = at_most (word_of_nat (min jitter u64_max)) rng
            in map_option (\<lambda>d. (d, rng)) (duration_add base (unat extra))))"

definition plan_send :: "chaos_state \<Rightarrow> (send_plan \<times> chaos_state) option" where
  "plan_send st =
     (let c = cs_config st
      in map_option (\<lambda>(delay, rng).
           (if f64_lt (Num 0) (drop_percent c) \<or> f64_lt (Num 0) (corrupt_percent c)
            then (let (f, rng) = next_f64 rng;
                      draw = f64_mul f (Num 100);
                      dropped = f64_lt draw (drop_percent c)
                  in (\<lparr>sp_delay = delay, sp_drop = dropped,
                       sp_corrupt = (\<not> dropped \<and> f64_lt draw (f64_add (drop_percent c) (corrupt_percent c)))\<rparr>,
                      st\<lparr>cs_rng := rng\<rparr>))
            else (\<lparr>sp_delay = delay, sp_drop = False, sp_corrupt = False\<rparr>, st\<lparr>cs_rng := rng\<rparr>)))
         (add_jitter (ch_delay c) (ch_jitter c) (cs_rng st)))"

definition read_pause :: "chaos_state \<Rightarrow> (duration option \<times> chaos_state) option" where
  "read_pause st =
     (if \<not> pauses_reads (cs_config st) then Some (None, st)
      else map_option (\<lambda>(pause, rng). (Some pause, st\<lparr>cs_read_rng := rng\<rparr>))
             (add_jitter (ch_read_pause (cs_config st)) (ch_read_jitter (cs_config st)) (cs_read_rng st)))"

definition close_now :: "chaos_state \<Rightarrow> bool option \<times> chaos_state" where
  "close_now st =
     (if f64_le (close_percent (cs_config st)) (Num 0) then (None, st)
      else (let (f, rng) = next_f64 (cs_rng st)
            in (if f64_lt (f64_mul f (Num 100)) (close_percent (cs_config st))
                then Some (close_mode (cs_config st) = Graceful) else None,
                st\<lparr>cs_rng := rng\<rparr>)))"

section \<open>Corruption\<close>

definition is_ascii :: "char \<Rightarrow> bool" where
  "is_ascii c = ((of_char c :: nat) < 128)"

definition other_printable :: "nat \<Rightarrow> nat \<Rightarrow> nat" where
  "other_printable original offset =
     (let base = max 0x20 (min 0x7e original) - 0x20
      in 0x20 + (base + 1 + offset mod 94) mod 95)"

definition flip_bit :: "string \<Rightarrow> chaos_state \<Rightarrow> string \<times> chaos_state" where
  "flip_bit bytes st =
     (let (pos, rng) = at_most (word_of_nat (length bytes - 1)) (cs_rng st);
          (b, rng) = at_most 7 rng;
          i = unat pos
      in (bytes[i := char_of ((of_char (bytes ! i) :: nat) XOR push_bit (unat b) 1)], st\<lparr>cs_rng := rng\<rparr>))"

text \<open>The positions of the ASCII bytes.\<close>

definition ascii_positions :: "string \<Rightarrow> nat list" where
  "ascii_positions bytes = filter (\<lambda>i. is_ascii (bytes ! i)) [0..<length bytes]"

definition corrupt :: "message \<Rightarrow> chaos_state \<Rightarrow> (message \<times> bool) \<times> chaos_state" where
  "corrupt msg st =
     (case msg of
        Msg_Text s \<Rightarrow>
          (let ascii = length (filter is_ascii s)
           in if ascii = 0 then
                (if s = [] then ((Msg_Text s, False), st)
                 else (let (flipped, st) = flip_bit s st in ((Msg_Binary flipped, True), st)))
              else
                (let (nth_ascii, rng) = at_most (word_of_nat (ascii - 1)) (cs_rng st)
                 in case list_get (ascii_positions s) (unat nth_ascii) of
                      None \<Rightarrow> ((Msg_Text s, False), st\<lparr>cs_rng := rng\<rparr>)
                    | Some pos \<Rightarrow>
                        (let (offset, rng) = at_most 93 rng;
                             out = s[pos := char_of (other_printable (of_char (s ! pos)) (unat offset))]
                         in (case from_utf8 out of
                               Some corrupted \<Rightarrow> (Msg_Text corrupted, True)
                             | None \<Rightarrow> (Msg_Text s, False),
                             st\<lparr>cs_rng := rng\<rparr>))))
      | Msg_Binary bytes \<Rightarrow>
          (if bytes \<noteq> []
           then (let (flipped, st) = flip_bit bytes st in ((Msg_Binary flipped, True), st))
           else ((Msg_Binary bytes, False), st))
      | other \<Rightarrow> ((other, False), st))"

section \<open>The generator never gets stuck\<close>

lemma xor_push_bit_zero:
  fixes x :: u64
  assumes "x XOR push_bit n x = 0" "0 < n"
  shows "x = 0"
proof -
  have eq: "bit x i \<longleftrightarrow> bit (push_bit n x) i" for i
  proof -
    have "\<not> bit (x XOR push_bit n x) i" using assms(1) by simp
    then show ?thesis by (simp add: bit_xor_iff)
  qed
  have "\<not> bit x i" for i
  proof (induction i rule: less_induct)
    case (less i)
    then show ?case using eq [of i] assms(2) by (auto simp: bit_push_bit_iff)
  qed
  then show ?thesis by (simp add: bit_eq_iff)
qed

lemma xor_drop_bit_zero:
  fixes x :: u64
  assumes "x XOR drop_bit n x = 0" "0 < n"
  shows "x = 0"
proof -
  have eq: "bit x i \<longleftrightarrow> bit x (n + i)" for i
  proof -
    have "\<not> bit (x XOR drop_bit n x) i" using assms(1) by simp
    then show ?thesis by (simp add: bit_xor_iff bit_drop_bit_eq)
  qed
  have "\<not> bit x i" for i
  proof (induction "64 - i" arbitrary: i rule: less_induct)
    case less
    show ?case
    proof (cases "i < 64")
      case True
      with less [of "n + i"] assms(2) eq [of i] show ?thesis by simp
    next
      case False
      then show ?thesis using bit_imp_le_length [of x i] by auto
    qed
  qed
  then show ?thesis by (simp add: bit_eq_iff)
qed

lemma next_u64_nonzero: "s \<noteq> 0 \<Longrightarrow> snd (next_u64 s) \<noteq> 0"
  using xor_push_bit_zero [of s 13] xor_drop_bit_zero [of "s XOR push_bit 13 s" 7]
    xor_push_bit_zero [of "(s XOR push_bit 13 s) XOR drop_bit 7 (s XOR push_bit 13 s)" 17]
  by (auto simp: next_u64_def Let_def)

lemma xorshift_new_nonzero: "xorshift_new seed \<noteq> 0"
proof
  assume "xorshift_new seed = 0"
  moreover have "1 \<le> xorshift_new seed" by (simp add: xorshift_new_def)
  ultimately show False by simp
qed

text \<open>The states a worker's generator can reach: every operation only steps it with \<open>next_u64\<close>.\<close>

definition rng_alive :: "chaos_state \<Rightarrow> bool" where
  "rng_alive st \<longleftrightarrow> cs_rng st \<noteq> 0 \<and> cs_read_rng st \<noteq> 0"

lemma at_most_state: "snd (at_most hi s) = snd (next_u64 s)"
  by (simp add: at_most_def split: prod.splits)

lemma next_f64_state: "snd (next_f64 s) = snd (next_u64 s)"
  by (simp add: next_f64_def split: prod.splits)

lemma at_most_nonzero: "at_most hi s = (x, s') \<Longrightarrow> s \<noteq> 0 \<Longrightarrow> s' \<noteq> 0"
  using at_most_state [of hi s] next_u64_nonzero [of s] by auto

lemma next_f64_nonzero: "next_f64 s = (x, s') \<Longrightarrow> s \<noteq> 0 \<Longrightarrow> s' \<noteq> 0"
  using next_f64_state [of s] next_u64_nonzero [of s] by auto

lemma add_jitter_nonzero: "add_jitter base jitter s = Some (d, s') \<Longrightarrow> s \<noteq> 0 \<Longrightarrow> s' \<noteq> 0"
  by (auto simp: add_jitter_def Let_def dest: at_most_nonzero split: if_splits prod.splits)

lemmas draws_nonzero = at_most_nonzero next_f64_nonzero add_jitter_nonzero

lemma flip_bit_alive: "flip_bit bytes st = (out, st') \<Longrightarrow> rng_alive st \<Longrightarrow> rng_alive st'"
  by (auto simp: flip_bit_def rng_alive_def Let_def dest: draws_nonzero split: prod.splits)

section \<open>Ranges of the draws\<close>

lemma at_most_le: "fst (at_most hi s) \<le> hi"
proof (cases "hi = - 1")
  case True
  then show ?thesis by simp
next
  case False
  then have "1 + hi \<noteq> 0" by (metis add_eq_0_iff)
  then have "unat (hi + 1) = unat hi + 1" using unatSuc [of hi] by (simp add: add.commute)
  then have "unat (x mod (hi + 1)) < unat hi + 1" for x by (simp add: unat_mod_distrib)
  then show ?thesis using False
    by (simp add: at_most_def word_le_nat_alt less_Suc_eq_le split: prod.splits)
qed

lemma representable_53: "n \<le> 2 ^ 53 \<Longrightarrow> representable (of_nat n / 2 ^ 53)"
  unfolding representable_def
  by (rule exI [of _ "int n"], rule exI [of _ "-53"])
    (simp add: power_int_minus_left field_simps nat_le_iff)

lemma next_f64_value:
  obtains n s' where "next_f64 s = (Num (of_nat n / 2 ^ 53), s')" "n < 2 ^ 53"
proof -
  define n where "n = unat (drop_bit 11 (fst (next_u64 s)))"
  have n: "n < 2 ^ 53"
    using unsigned_less [of "fst (next_u64 s)", where 'a = nat]
    by (simp add: n_def drop_bit_eq_div unat_div_distrib less_mult_imp_div_less)
  have "(of_nat n / 2 ^ 53 :: rat) \<le> of_int 1"
  proof -
    have "(of_nat n :: rat) \<le> of_nat (2 ^ 53)" using n by (simp only: of_nat_le_iff less_imp_le)
    then show ?thesis by simp
  qed
  then have "of_exact (of_nat n / 2 ^ 53) = Num (of_nat n / 2 ^ 53)"
    using of_exact_bounded [of 0 "of_nat n / 2 ^ 53" 1] round_f64_exact [OF representable_53, of n] n
    by simp
  then have "next_f64 s = (Num (of_nat n / 2 ^ 53), snd (next_u64 s))"
    using n of_uint_small [of n] of_uint_small [of "2 ^ 53"]
    by (simp add: next_f64_def case_prod_beta flip: n_def)
  then show ?thesis using n by (rule that)
qed

text \<open>The largest draw, \<open>1 - 2 ^ -53\<close>, times 100 still rounds below 100.\<close>

lemma round_largest_draw: "round_f64 (100 - 100 / 2 ^ 53) < 100"
proof -
  define x :: rat where "x = 100 - 100 / 2 ^ 53"
  have pos: "0 < x" by (simp add: x_def)
  have "ilog2 x \<le> 6" by (rule ilog2_le [OF pos]) (simp add: power_int_def x_def)
  moreover have "6 \<le> ilog2 x" by (rule ilog2_ge [OF pos]) (simp add: power_int_def x_def)
  ultimately have u: "ulp_exp x = -46" by (simp add: ulp_exp_def)
  have p: "(2::rat) powi (-46) = 1 / 2 ^ 46"
    using power_int_minus [of "2::rat" 46] by (simp add: inverse_eq_divide)
  have "x / 2 powi (-46) = of_int (100 * 2 ^ 46 - 1) + 7 / 32" unfolding p x_def by simp
  moreover have "round_half_even (of_int m + 7 / 32) = m" for m :: int
  proof -
    have "\<lfloor>of_int m + 7 / 32 :: rat\<rfloor> = m" by (rule floor_unique) simp_all
    then show ?thesis by (simp add: round_half_even_def)
  qed
  ultimately have r: "round_half_even (x / 2 powi (-46)) = 100 * 2 ^ 46 - 1" by (simp only:)
  have "round_f64 x = round_pos x" using pos by (simp add: round_f64_def)
  also have "\<dots> = of_int (100 * 2 ^ 46 - 1) * (1 / 2 ^ 46)"
    unfolding round_pos_def u r by (simp only: p)
  also have "\<dots> < 100" by simp
  finally show ?thesis by (simp only: x_def)
qed

lemma percent_draw:
  obtains f d s' where "next_f64 s = (f, s')" "f64_mul f (Num 100) = Num d" "0 \<le> d" "d < 100"
proof -
  obtain n s' where n: "next_f64 s = (Num (of_nat n / 2 ^ 53), s')" "n < 2 ^ 53" by (rule next_f64_value)
  let ?x = "of_nat n / 2 ^ 53 * 100 :: rat"
  have "n + 1 \<le> 2 ^ 53" using n(2) by simp
  then have "(of_nat (n + 1) :: rat) \<le> of_nat (2 ^ 53)" by (simp only: of_nat_le_iff)
  then have "of_nat n \<le> (2 ^ 53 - 1 :: rat)" by simp
  then have "of_nat n / 2 ^ 53 \<le> (2 ^ 53 - 1) / (2 ^ 53 :: rat)" by (rule divide_right_mono) simp
  then have x: "?x \<le> 100 - 100 / 2 ^ 53" by simp
  have "(100 - 100 / 2 ^ 53 :: rat) \<le> of_int 100" by simp
  with x have "?x \<le> of_int 100" by (rule order_trans)
  then have "of_exact ?x = Num (round_f64 ?x)" using of_exact_bounded [of 0 ?x 100] by simp
  then have "f64_mul (Num (of_nat n / 2 ^ 53)) (Num 100) = Num (round_f64 ?x)" by simp
  moreover have "0 \<le> round_f64 ?x" using f64.rnd_ge [OF f64.exact_0, of ?x] by simp
  moreover have "round_f64 ?x < 100" using round_f64_mono [OF x] round_largest_draw by simp
  ultimately show ?thesis using n(1) by (intro that)
qed

section \<open>Corruption\<close>

lemma other_printable_range:
  "0x20 \<le> other_printable b offset" "other_printable b offset \<le> 0x7e"
  by (simp_all add: other_printable_def Let_def less_Suc_eq_le [symmetric])

lemma other_printable_differs: "other_printable b offset \<noteq> b"
proof (cases "0x20 \<le> b \<and> b \<le> 0x7e")
  case True
  define k where "k = 1 + offset mod 94"
  have k: "1 \<le> k" "k \<le> 94" by (simp_all add: k_def less_Suc_eq_le [symmetric])
  have "other_printable b offset = 0x20 + (b - 0x20 + k) mod 95"
    using True by (simp add: other_printable_def Let_def k_def max_absorb2 min_absorb2)
  moreover have "(b - 0x20 + k) mod 95 \<noteq> b - 0x20"
  proof (cases "b - 0x20 + k < 95")
    case False
    moreover have "b - 0x20 + k - 95 < 95" using True k by linarith
    ultimately have "(b - 0x20 + k) mod 95 = b - 0x20 + k - 95"
      by (metis le_mod_geq linorder_not_less mod_less)
    with False k True show ?thesis by linarith
  qed (use k in simp)
  ultimately show ?thesis using True by simp
next
  case False
  then show ?thesis using other_printable_range [of b offset] by auto
qed

lemma utf8_valid_replace_ascii:
  assumes "utf8_valid s" "i < length s" "is_ascii (s ! i)" "is_ascii c"
  shows "utf8_valid (s[i := c])"
  using assms
proof (induction s arbitrary: i rule: utf8_valid.induct)
  case 1
  then show ?case by simp
next
  case (2 a cs)
  have ascii: "byte_in 0 0x7F d" if "is_ascii d" for d using that by (simp add: is_ascii_def byte_in_def)
  have cont: "\<not> is_ascii d" if "byte_in 0x80 0xBF d" for d
    using that by (simp add: is_ascii_def byte_in_def)
  show ?case
  proof (cases "byte_in 0 0x7F a")
    case True
    then show ?thesis using 2 ascii by (cases i) auto
  next
    case False
    then have i0: "i \<noteq> 0" using "2.prems" ascii by (cases i) auto
    then obtain i1 where i1: "i = Suc i1" by (cases i) auto
    obtain b cs2 where cs: "cs = b # cs2" using "2.prems"(1) False by (cases cs) auto
    show ?thesis
    proof (cases "byte_in 0xC2 0xDF a")
      case two: True
      then have b: "byte_in 0x80 0xBF b" "utf8_valid cs2" using "2.prems"(1) False cs by simp_all
      then obtain i2 where i2: "i1 = Suc i2" using cont [of b] "2.prems"(3) i1 cs by (cases i1) auto
      show ?thesis
        using "2.IH"(2) [OF False cs two b(2), of i2] "2.prems" two False b cs i1 i2 by simp
    next
      case not_two: False
      then obtain d cs3 where cs2: "cs2 = d # cs3" using "2.prems"(1) False cs by (cases cs2) auto
      show ?thesis
      proof (cases "byte_in 0xE0 0xEF a")
        case three: True
        then have v: "byte_in 0x80 0xBF d" "utf8_valid cs3"
          using "2.prems"(1) False not_two cs cs2 by simp_all
        have "byte_in 0x80 0xBF b"
          using "2.prems"(1) False not_two three cs cs2 by (auto simp: byte_in_def split: if_splits)
        then obtain i3 where i3: "i = Suc (Suc (Suc i3))"
          using cont [of b] cont [of d] v(1) "2.prems"(3) i1 cs cs2
          by (cases i1; cases "i1 - 1") auto
        show ?thesis
          using "2.IH"(3) [OF False cs not_two cs2 three v(2), of i3] "2.prems" three not_two False v cs cs2 i3
          by simp
      next
        case not_three: False
        then obtain e cs4 where cs3: "cs3 = e # cs4"
          using "2.prems"(1) False not_two cs cs2 by (cases cs3) auto
        have v: "byte_in 0x80 0xBF d" "byte_in 0x80 0xBF e" "utf8_valid cs4"
          using "2.prems"(1) False not_two not_three cs cs2 cs3 by simp_all
        have "byte_in 0x80 0xBF b"
          using "2.prems"(1) False not_two not_three cs cs2 cs3 by (auto simp: byte_in_def split: if_splits)
        then obtain i4 where i4: "i = Suc (Suc (Suc (Suc i4)))"
          using cont [of b] cont [of d] cont [of e] v(1,2) "2.prems"(3) i1 cs cs2 cs3
          by (cases i1; cases "i1 - 1"; cases "i1 - 2") auto
        show ?thesis
          using "2.IH"(4) [OF False cs not_two cs2 not_three cs3 v(3), of i4] "2.prems"
            not_three not_two False v cs cs2 cs3 i4
          by simp
      qed
    qed
  qed
qed

lemma length_ascii_positions: "length (ascii_positions s) = length (filter is_ascii s)"
proof -
  have "filter is_ascii s = filter is_ascii (map ((!) s) [0..<length s])" by (simp add: map_nth)
  also have "\<dots> = map ((!) s) (ascii_positions s)" by (simp add: ascii_positions_def filter_map comp_def)
  finally show ?thesis by (metis length_map)
qed

lemma draw_index:
  assumes "0 < n"
  shows "unat (fst (at_most (word_of_nat (n - 1)) rng)) < n"
proof -
  have "unat (fst (at_most (word_of_nat (n - 1)) rng)) \<le> unat (word_of_nat (n - 1) :: u64)"
    using at_most_le [of "word_of_nat (n - 1)" rng] by (simp add: word_le_nat_alt)
  also have "\<dots> \<le> n - 1" by (simp add: unat_of_nat)
  finally show ?thesis using assms by simp
qed

definition data_payload :: "message \<Rightarrow> string" where
  "data_payload msg = (case msg of Msg_Text s \<Rightarrow> s | Msg_Binary s \<Rightarrow> s | _ \<Rightarrow> [])"

definition one_byte_changed :: "string \<Rightarrow> string \<Rightarrow> bool" where
  "one_byte_changed s t \<longleftrightarrow> (\<exists>i<length s. \<exists>c. c \<noteq> s ! i \<and> t = s[i := c])"

lemma xor_bit_changes:
  assumes "b < 8"
  shows "char_of ((of_char c :: nat) XOR push_bit b 1) \<noteq> c"
proof
  assume "char_of ((of_char c :: nat) XOR push_bit b 1) = c"
  then have "of_char (char_of ((of_char c :: nat) XOR push_bit b 1) :: char) = (of_char c :: nat)" by simp
  then have "take_bit 8 ((of_char c :: nat) XOR push_bit b 1) = of_char c"
    by (simp add: of_char_of take_bit_eq_mod)
  moreover have "take_bit 8 (of_char c :: nat) = of_char c"
    by (simp add: take_bit_nat_eq_self)
  ultimately have "of_char c XOR take_bit 8 (push_bit b 1) = (of_char c :: nat)"
    by (simp add: take_bit_xor)
  then have "bit (of_char c XOR take_bit 8 (push_bit b 1) :: nat) b = bit (of_char c :: nat) b" by simp
  with assms show False by (simp add: bit_xor_iff bit_take_bit_iff bit_exp_iff push_bit_eq_mult)
qed

lemma flip_bit_changes:
  assumes "bytes \<noteq> []" "flip_bit bytes st = (out, st')"
  shows "one_byte_changed bytes out"
proof -
  define p where "p = at_most (word_of_nat (length bytes - 1)) (cs_rng st)"
  define b where "b = at_most 7 (snd p)"
  have i: "unat (fst p) < length bytes" unfolding p_def using assms(1) by (intro draw_index) simp
  have "fst b \<le> 7" unfolding b_def by (rule at_most_le)
  then have b: "unat (fst b) < 8" by (simp add: word_le_nat_alt)
  have "out = bytes[unat (fst p) := char_of ((of_char (bytes ! unat (fst p)) :: nat) XOR push_bit (unat (fst b)) 1)]"
    using assms(2) by (simp add: flip_bit_def Let_def case_prod_beta del: of_nat_diff One_nat_def flip: p_def b_def)
  then show ?thesis
    unfolding one_byte_changed_def using i xor_bit_changes [OF b] by blast
qed

lemma corrupt_text:
  assumes "utf8_valid s" "filter is_ascii s \<noteq> []"
  obtains pos c where "pos < length s" "c \<noteq> s ! pos" "fst (corrupt (Msg_Text s) st) = (Msg_Text (s[pos := c]), True)"
    "utf8_valid (s[pos := c])"
proof -
  define n where "n = length (filter is_ascii s)"
  define d where "d = at_most (word_of_nat (n - 1)) (cs_rng st)"
  define e where "e = at_most 93 (snd d)"
  have n: "0 < n" using assms(2) by (simp add: n_def)
  have k: "unat (fst d) < length (ascii_positions s)"
    using draw_index [OF n] by (simp add: d_def length_ascii_positions n_def)
  define pos where "pos = ascii_positions s ! unat (fst d)"
  define c :: char where "c = char_of (other_printable (of_char (s ! pos)) (unat (fst e)))"
  have pos: "pos < length s" "is_ascii (s ! pos)"
    using nth_mem [OF k] by (auto simp: pos_def ascii_positions_def)
  have code: "(of_char c :: nat) = other_printable (of_char (s ! pos)) (unat (fst e))"
    using other_printable_range(2) [of "of_char (s ! pos)" "unat (fst e)"] by (simp add: c_def of_char_of)
  have "is_ascii c"
    using other_printable_range(2) [of "of_char (s ! pos)" "unat (fst e)"] by (simp add: is_ascii_def code)
  then have valid: "utf8_valid (s[pos := c])" using assms(1) pos by (intro utf8_valid_replace_ascii)
  moreover have "c \<noteq> s ! pos" using code other_printable_differs by metis
  moreover have "fst (corrupt (Msg_Text s) st) = (Msg_Text (s[pos := c]), True)"
    using n k valid
    by (simp add: corrupt_def Let_def list_get_def from_utf8_def case_prod_beta del: of_nat_diff One_nat_def
        flip: n_def d_def e_def pos_def c_def)
  ultimately show ?thesis using pos(1) by (intro that)
qed

section \<open>Properties\<close>

text \<open>Corrupting a frame changes exactly one byte of its payload and nothing else, a text frame that
  stays text stays valid UTF-8, and only an empty or control frame is left alone, which is reported.\<close>

theorem corruption_changes_one_byte:
  assumes "\<forall>s. msg = Msg_Text s \<longrightarrow> utf8_valid s"
    "corrupt msg st = ((msg', changed), st')"
  shows "if data_payload msg = [] then msg' = msg \<and> \<not> changed
    else changed \<and> one_byte_changed (data_payload msg) (data_payload msg')
      \<and> (\<forall>t. msg' = Msg_Text t \<longrightarrow> utf8_valid t)"
proof (cases msg)
  case (Msg_Text s)
  show ?thesis
  proof (cases "filter is_ascii s = []")
    case True
    with Msg_Text assms(2) show ?thesis
      by (auto simp: corrupt_def data_payload_def Let_def dest: flip_bit_changes split: if_splits prod.splits)
  next
    case False
    obtain pos c where "pos < length s" "c \<noteq> s ! pos" "utf8_valid (s[pos := c])"
      "fst (corrupt (Msg_Text s) st) = (Msg_Text (s[pos := c]), True)"
      using corrupt_text [of s st] assms(1) Msg_Text False by metis
    with Msg_Text assms(2) False show ?thesis
      by (auto simp: data_payload_def one_byte_changed_def)
  qed
next
  case (Msg_Binary s)
  with assms(2) show ?thesis
    by (auto simp: corrupt_def data_payload_def dest: flip_bit_changes split: if_splits prod.splits)
qed (use assms(2) in \<open>auto simp: corrupt_def data_payload_def\<close>)

theorem corruption_changes_one_byte_witness:
  "one_byte_changed ''hi''
     (data_payload (fst (fst (corrupt (Msg_Text ''hi'') (chaos_state_new 0 chaos_new 3)))))"
  using corruption_changes_one_byte [of "Msg_Text ''hi''" "chaos_state_new 0 chaos_new 3"
      "fst (fst (corrupt (Msg_Text ''hi'') (chaos_state_new 0 chaos_new 3)))"
      "snd (fst (corrupt (Msg_Text ''hi'') (chaos_state_new 0 chaos_new 3)))"
      "snd (corrupt (Msg_Text ''hi'') (chaos_state_new 0 chaos_new 3))"]
  by (simp add: data_payload_def byte_in_def)

lemma add_jitter_bounds:
  assumes "add_jitter base jitter rng = Some (d, rng')"
  shows "base \<le> d" "d \<le> base + jitter"
proof -
  have "unat (fst (at_most (word_of_nat (min jitter u64_max)) rng)) \<le> jitter"
  proof -
    have "unat (fst (at_most (word_of_nat (min jitter u64_max)) rng)) \<le> unat (word_of_nat (min jitter u64_max) :: u64)"
      using at_most_le [of "word_of_nat (min jitter u64_max)" rng] by (simp add: word_le_nat_alt)
    also have "\<dots> \<le> min jitter u64_max" by (simp add: unat_of_nat)
    finally show ?thesis by simp
  qed
  with assms show "base \<le> d" "d \<le> base + jitter"
    by (auto simp: add_jitter_def Let_def case_prod_beta duration_add_def split: if_splits)
qed

lemma plan_send_cases:
  assumes "plan_send st = Some (plan, st')"
  obtains d where "0 \<le> d" "d < 100"
    "sp_drop plan \<longleftrightarrow> (f64_lt (Num 0) (drop_percent (cs_config st)) \<or> f64_lt (Num 0) (corrupt_percent (cs_config st)))
      \<and> f64_lt (Num d) (drop_percent (cs_config st))"
    "sp_corrupt plan \<longrightarrow> \<not> sp_drop plan \<and> f64_lt (Num d) (f64_add (drop_percent (cs_config st)) (corrupt_percent (cs_config st)))"
    "f64_lt (Num 0) (corrupt_percent (cs_config st)) \<and> \<not> sp_drop plan
      \<and> f64_lt (Num d) (f64_add (drop_percent (cs_config st)) (corrupt_percent (cs_config st))) \<longrightarrow> sp_corrupt plan"
    "ch_delay (cs_config st) \<le> sp_delay plan" "sp_delay plan \<le> ch_delay (cs_config st) + ch_jitter (cs_config st)"
proof -
  from assms obtain delay rng where j: "add_jitter (ch_delay (cs_config st)) (ch_jitter (cs_config st)) (cs_rng st) = Some (delay, rng)"
    by (auto simp: plan_send_def Let_def)
  obtain f d s' where d: "next_f64 rng = (f, s')" "f64_mul f (Num 100) = Num d" "0 \<le> d" "d < 100"
    by (rule percent_draw)
  show ?thesis
    using assms j d add_jitter_bounds [OF j]
    by (intro that [of d]) (auto simp: plan_send_def Let_def split: if_splits)
qed

text \<open>A send is never both dropped and corrupted; a knob at 0 percent never acts and a knob at 100
  percent always does, the rounding of the draw included; and the pause stays within the configured
  delay and jitter.\<close>

theorem plan_send_shares:
  assumes "plan_send st = Some (plan, st')" "drop_percent (cs_config st) = Num drp"
    "corrupt_percent (cs_config st) = Num crp" "representable drp"
  shows "\<not> (sp_drop plan \<and> sp_corrupt plan) \<and>
    (drp = 0 \<longrightarrow> \<not> sp_drop plan) \<and> (drp = 100 \<longrightarrow> sp_drop plan) \<and>
    (0 \<le> drp \<and> drp \<le> 100 \<and> crp = 0 \<longrightarrow> \<not> sp_corrupt plan) \<and> (drp = 0 \<and> crp = 100 \<longrightarrow> sp_corrupt plan) \<and>
    ch_delay (cs_config st) \<le> sp_delay plan \<and>
    sp_delay plan \<le> ch_delay (cs_config st) + ch_jitter (cs_config st)"
proof -
  have drp: "of_exact drp = Num drp" if "0 \<le> drp" "drp \<le> 100"
    using that of_exact_bounded [of 0 drp 100] round_f64_exact [OF assms(4)] by simp
  have hundred: "of_exact 100 = Num 100"
    using of_uint_small [of 100] by (simp add: of_uint_def)
  obtain d where d: "0 \<le> d" "d < 100"
    "sp_drop plan \<longleftrightarrow> (0 < drp \<or> 0 < crp) \<and> d < drp"
    "sp_corrupt plan \<longrightarrow> \<not> sp_drop plan \<and> f64_lt (Num d) (of_exact (drp + crp))"
    "0 < crp \<and> \<not> sp_drop plan \<and> f64_lt (Num d) (of_exact (drp + crp)) \<longrightarrow> sp_corrupt plan"
    "ch_delay (cs_config st) \<le> sp_delay plan" "sp_delay plan \<le> ch_delay (cs_config st) + ch_jitter (cs_config st)"
    by (rule plan_send_cases [OF assms(1), unfolded assms(2,3) f64_lt.simps f64_add.simps])
  have "crp = 0 \<Longrightarrow> 0 \<le> drp \<and> drp \<le> 100 \<Longrightarrow> \<not> sp_corrupt plan" using d(1,3,4) drp by auto
  moreover have "drp = 0 \<Longrightarrow> crp = 100 \<Longrightarrow> sp_corrupt plan" using d(1,2,3,5) hundred by simp
  moreover have "drp = 0 \<Longrightarrow> \<not> sp_drop plan" using d(1,3) by simp
  moreover have "drp = 100 \<Longrightarrow> sp_drop plan" using d(2,3) by simp
  ultimately show ?thesis using d(4,6,7) by blast
qed

theorem plan_send_shares_witness:
  "\<exists>plan st'. plan_send (chaos_state_new 0 (chaos_new\<lparr>drop_percent := Num 100\<rparr>) 3) = Some (plan, st') \<and> sp_drop plan"
proof -
  let ?st = "chaos_state_new 0 (chaos_new\<lparr>drop_percent := Num 100\<rparr>) 3"
  have "plan_send ?st \<noteq> None"
    by (simp add: plan_send_def chaos_state_new_def chaos_new_def add_jitter_def Let_def)
  then obtain plan st' where p: "plan_send ?st = Some (plan, st')" by auto
  moreover have "sp_drop plan"
    using plan_send_shares [OF p, of 100 0] representable_of_int [of 100]
    by (simp add: chaos_state_new_def chaos_new_def Let_def)
  ultimately show ?thesis by blast
qed

section \<open>Sequences of draws\<close>

datatype chaos_op = Op_send | Op_close | Op_corrupt message | Op_read

datatype chaos_out = Planned send_plan | Closing "bool option" | Corrupted "message \<times> bool"

text \<open>One call of a worker on its fault state; reading a frame decides nothing about sends.\<close>

definition chaos_step :: "chaos_op \<Rightarrow> chaos_state \<Rightarrow> (chaos_out option \<times> chaos_state) option" where
  "chaos_step op st =
     (case op of
        Op_send \<Rightarrow> map_option (\<lambda>(plan, st). (Some (Planned plan), st)) (plan_send st)
      | Op_close \<Rightarrow> (case close_now st of (c, st) \<Rightarrow> Some (Some (Closing c), st))
      | Op_corrupt msg \<Rightarrow> (case corrupt msg st of (r, st) \<Rightarrow> Some (Some (Corrupted r), st))
      | Op_read \<Rightarrow> map_option (\<lambda>(_, st). (None, st)) (read_pause st))"

fun chaos_run :: "chaos_op list \<Rightarrow> chaos_state \<Rightarrow> chaos_out list option" where
  "chaos_run [] st = Some []"
| "chaos_run (op # ops) st =
     (case chaos_step op st of
        None \<Rightarrow> None
      | Some (out, st') \<Rightarrow>
          map_option (\<lambda>outs. case out of None \<Rightarrow> outs | Some out \<Rightarrow> out # outs) (chaos_run ops st'))"

inductive chaos_reachable :: "chaos_state \<Rightarrow> bool" where
  start: "chaos_reachable (chaos_state_new time_seed c worker_id)"
| step: "chaos_reachable st \<Longrightarrow> chaos_step op st = Some (out, st') \<Longrightarrow> chaos_reachable st'"

lemma chaos_step_alive:
  assumes "chaos_step op st = Some (out, st')" "rng_alive st"
  shows "rng_alive st'"
  using assms
  by (cases op)
    (auto simp: chaos_step_def plan_send_def close_now_def read_pause_def corrupt_def rng_alive_def Let_def
      dest: draws_nonzero dest!: flip_bit_alive [unfolded rng_alive_def]
      split: prod.splits if_splits message.splits option.splits)

text \<open>No worker's generator ever reaches the zero state, from which xorshift would draw zero for
  ever: the seeding excludes it and every draw leaves it out of reach.\<close>

theorem generators_never_stuck:
  assumes "chaos_reachable st"
  shows "cs_rng st \<noteq> 0 \<and> cs_read_rng st \<noteq> 0"
  using assms
proof induction
  case (start time_seed c worker_id)
  show ?case by (simp add: chaos_state_new_def Let_def xorshift_new_nonzero)
next
  case (step st op out st')
  then show ?case using chaos_step_alive by (auto simp: rng_alive_def)
qed

theorem generators_never_stuck_witness:
  "cs_rng (chaos_state_new 0 chaos_new 3) \<noteq> 0 \<and> cs_read_rng (chaos_state_new 0 chaos_new 3) \<noteq> 0"
  by (rule generators_never_stuck) (rule chaos_reachable.start)

lemma plan_send_read_rng:
  "plan_send (st\<lparr>cs_read_rng := r\<rparr>) = map_option (\<lambda>(p, st'). (p, st'\<lparr>cs_read_rng := r\<rparr>)) (plan_send st)"
  by (cases "add_jitter (ch_delay (cs_config st)) (ch_jitter (cs_config st)) (cs_rng st)")
    (auto simp: plan_send_def Let_def case_prod_beta)

lemma flip_bit_read_rng:
  "flip_bit s (st\<lparr>cs_read_rng := r\<rparr>) = map_prod id (\<lambda>st'. st'\<lparr>cs_read_rng := r\<rparr>) (flip_bit s st)"
  by (simp add: flip_bit_def Let_def case_prod_beta)

lemma corrupt_read_rng:
  "corrupt msg (st\<lparr>cs_read_rng := r\<rparr>) = map_prod id (\<lambda>st'. st'\<lparr>cs_read_rng := r\<rparr>) (corrupt msg st)"
  by (auto simp: corrupt_def Let_def case_prod_beta flip_bit_read_rng split: message.splits option.splits)

lemma chaos_step_read_rng:
  assumes "op \<noteq> Op_read"
  shows "chaos_step op (st\<lparr>cs_read_rng := r\<rparr>) =
    map_option (\<lambda>(out, st'). (out, st'\<lparr>cs_read_rng := r\<rparr>)) (chaos_step op st)"
  using assms
  by (cases op)
    (auto simp: chaos_step_def plan_send_read_rng corrupt_read_rng close_now_def Let_def case_prod_beta
      option.map_comp comp_def)

lemma chaos_run_read_rng:
  assumes "\<forall>op\<in>set ops. op \<noteq> Op_read"
  shows "chaos_run ops (st\<lparr>cs_read_rng := r\<rparr>) = chaos_run ops st"
  using assms
proof (induction ops arbitrary: st)
  case Nil
  show ?case by simp
next
  case (Cons op ops)
  then show ?case by (auto simp: chaos_step_read_rng split: option.split)
qed

lemma chaos_step_config: "chaos_step op st = Some (out, st') \<Longrightarrow> cs_config st' = cs_config st"
  by (cases op)
    (auto simp: chaos_step_def plan_send_def close_now_def corrupt_def flip_bit_def read_pause_def Let_def
      case_prod_beta split: message.splits option.splits if_splits)

lemma read_pause_some:
  assumes "ch_read_pause (cs_config st) + ch_read_jitter (cs_config st) \<le> duration_max"
  obtains p r where "read_pause st = Some (p, st\<lparr>cs_read_rng := r\<rparr>)"
proof (cases "pauses_reads (cs_config st)")
  case False
  then show ?thesis using that [of None "cs_read_rng st"] by (simp add: read_pause_def)
next
  case True
  have "add_jitter (ch_read_pause (cs_config st)) (ch_read_jitter (cs_config st)) (cs_read_rng st) \<noteq> None"
  proof -
    let ?j = "ch_read_jitter (cs_config st)"
    have "unat (fst (at_most (word_of_nat (min ?j u64_max)) (cs_read_rng st))) \<le> ?j"
      using at_most_le [of "word_of_nat (min ?j u64_max)" "cs_read_rng st"]
      by (simp add: word_le_nat_alt unat_of_nat)
    with assms show ?thesis by (auto simp: add_jitter_def duration_add_def Let_def case_prod_beta)
  qed
  with True that show ?thesis by (auto simp: read_pause_def)
qed

text \<open>The pauses after reads are drawn apart from every other decision. Whatever reads happen in
  between, which depends on timing, a seeded connection slot makes the same send, corruption and
  close decisions in the same order.\<close>

theorem reads_do_not_change_send_decisions:
  assumes "ch_read_pause (cs_config st) + ch_read_jitter (cs_config st) \<le> duration_max"
  shows "chaos_run ops st = chaos_run (filter (\<lambda>op. op \<noteq> Op_read) ops) st"
  using assms
proof (induction ops arbitrary: st)
  case Nil
  show ?case by simp
next
  case (Cons op ops)
  show ?case
  proof (cases "op = Op_read")
    case True
    obtain p r where "read_pause st = Some (p, st\<lparr>cs_read_rng := r\<rparr>)"
      using Cons.prems by (rule read_pause_some)
    with True Cons.IH [of "st\<lparr>cs_read_rng := r\<rparr>"] Cons.prems show ?thesis
      by (simp add: chaos_step_def chaos_run_read_rng option.map_ident)
  next
    case False
    with Cons show ?thesis by (auto dest: chaos_step_config split: option.split)
  qed
qed

theorem reads_do_not_change_send_decisions_witness:
  "chaos_run [Op_send, Op_read, Op_send] (chaos_state_new 0 (chaos_new\<lparr>drop_percent := Num 50, ch_read_jitter := 9\<rparr>) 3) =
   chaos_run [Op_send, Op_send] (chaos_state_new 0 (chaos_new\<lparr>drop_percent := Num 50, ch_read_jitter := 9\<rparr>) 3)"
  using reads_do_not_change_send_decisions
    [of "chaos_state_new 0 (chaos_new\<lparr>drop_percent := Num 50, ch_read_jitter := 9\<rparr>) 3" "[Op_send, Op_read, Op_send]"]
  by (simp add: chaos_state_new_def chaos_new_def Let_def)

end
