(* ===== verification/Socketio.thy ===== *)
theory Socketio
  imports Reply_Check Errors
begin

text \<open>
  \<open>src/socketio.rs\<close>: Socket.IO over WebSocket. The packet codec, the settings and their checks, the
  handshake URL, the opening of a session (\<open>open\<close>), the pump between the echo loop and the WebSocket,
  and the mock server's session. The asynchronous loops are step functions: an event is what the
  \<open>select!\<close> or the next frame gave, with the outcome of the sends the step makes, and a step returns
  the new state, what it sent and whether the loop ended. \<open>serde_json\<close> is a parameter; of a parsed URL
  the code reads and writes the path and the query pairs.
\<close>

section \<open>Engine.IO\<close>

datatype engine_io = V3 | V4

fun engine_query :: "engine_io \<Rightarrow> string" where
  "engine_query V3 = ''3''"
| "engine_query V4 = ''4''"

definition from_version :: "nat \<Rightarrow> engine_io option" where
  "from_version version =
     (if version = 2 then Some V3 else if version = 3 \<or> version = 4 then Some V4 else None)"

definition from_query :: "string \<Rightarrow> engine_io option" where
  "from_query value = (if value = ''3'' then Some V3 else if value = ''4'' then Some V4 else None)"

fun wrap_binary :: "engine_io \<Rightarrow> string \<Rightarrow> string" where
  "wrap_binary V3 bytes = CHR 0x04 # bytes"
| "wrap_binary V4 bytes = bytes"

fun unwrap_binary :: "engine_io \<Rightarrow> string \<Rightarrow> string option" where
  "unwrap_binary V3 bytes = (if bytes \<noteq> [] \<and> hd bytes = CHR 0x04 then Some (tl bytes) else None)"
| "unwrap_binary V4 bytes = Some bytes"

section \<open>Settings\<close>

record sio_config =
  sio_namespace :: string
  sio_event :: string
  sio_auth :: "template option"
  sio_engine :: engine_io

definition MAX_ATTACHMENTS :: nat where "MAX_ATTACHMENTS = 1024"
definition DEFAULT_PATH :: string where "DEFAULT_PATH = ''/socket.io/''"

definition RESERVED_EVENTS :: "string list" where
  "RESERVED_EVENTS = [''connect'', ''connect_error'', ''disconnect'', ''disconnecting'', ''newListener'',
     ''removeListener'']"

definition dq :: string where "dq = [CHR 0x22]"

definition PLACEHOLDER :: string where
  "PLACEHOLDER = ''{'' @ dq @ ''_placeholder'' @ dq @ '':true,'' @ dq @ ''num'' @ dq @ '':0}''"

definition is_json_object :: "'n serde_json \<Rightarrow> string \<Rightarrow> bool" where
  "is_json_object sj s = (case from_str sj s of Some v \<Rightarrow> is_object v | None \<Rightarrow> False)"

datatype sio_error =
    Bad_namespace string
  | Empty_event
  | Reserved_event string
  | Auth_not_object
  | Auth_data template_error
  | Auth_row nat
  | Wrong_eio string

definition sio_validate :: "'n serde_json \<Rightarrow> sio_config \<Rightarrow> sio_error + unit" where
  "sio_validate sj c =
     (if \<not> prefix ''/'' (sio_namespace c) \<or> str_contains (sio_namespace c) '',''
      then Inl (Bad_namespace (sio_namespace c))
      else if sio_event c = [] then Inl Empty_event
      else if sio_event c \<in> set RESERVED_EVENTS then Inl (Reserved_event (sio_event c))
      else if (case sio_auth c of None \<Rightarrow> False
               | Some auth \<Rightarrow> \<not> is_dynamic auth \<and> \<not> is_json_object sj (tpl_source auth))
      then Inl Auth_not_object
      else Inr ())"

definition auth_for :: "nat \<Rightarrow> sio_config \<Rightarrow> template_values \<Rightarrow> string option" where
  "auth_for now_ms c values = map_option (\<lambda>auth. render now_ms auth values) (sio_auth c)"

fun check_auth_rows :: "'n serde_json \<Rightarrow> (nat \<Rightarrow> string) \<Rightarrow> nat list \<Rightarrow> sio_error + unit" where
  "check_auth_rows sj rendered [] = Inr ()"
| "check_auth_rows sj rendered (row # rows) =
     (if is_json_object sj (rendered row) then check_auth_rows sj rendered rows else Inl (Auth_row (row + 1)))"

definition check_auth :: "'n serde_json \<Rightarrow> nat \<Rightarrow> template \<Rightarrow> data_set option \<Rightarrow> sio_error + unit" where
  "check_auth sj now_ms auth data =
     (if \<not> is_dynamic auth then Inr ()
      else and_then (map_err Auth_data (check_data auth data)) (\<lambda>_.
        check_auth_rows sj
          (\<lambda>row. render now_ms auth \<lparr>val_seq = 0, val_worker_id = row,
             val_data = map_option (\<lambda>d. (d, row)) data, val_vars = []\<rparr>)
          [0..<(case data of None \<Rightarrow> 1 | Some d \<Rightarrow> data_len d)]))"

section \<open>The handshake URL\<close>

record url_view =
  url_scheme :: string
  url_path :: string
  url_query :: "(string \<times> string) list"

definition socketio_url :: "engine_io \<Rightarrow> url_view \<Rightarrow> url_view" where
  "socketio_url engine url =
     (let url = (if url_path url = [] \<or> url_path url = ''/'' then url\<lparr>url_path := DEFAULT_PATH\<rparr> else url);
          pairs = filter (\<lambda>(k, _). k \<noteq> ''EIO'') (url_query url);
          had_eio = (\<exists>(k, v)\<in>set (url_query url). k = ''EIO'' \<and> v = engine_query engine);
          pairs = (if had_eio then url_query url else pairs @ [(''EIO'', engine_query engine)]);
          pairs = (if \<exists>(k, _)\<in>set pairs. k = ''transport'' then pairs
                   else pairs @ [(''transport'', ''websocket'')])
      in url\<lparr>url_query := pairs\<rparr>)"

definition check_url :: "url_view \<Rightarrow> engine_io \<Rightarrow> sio_error + unit" where
  "check_url url engine =
     (case find (\<lambda>(k, _). k = ''EIO'') (url_query url) of
        Some (_, value) \<Rightarrow> (if value \<noteq> engine_query engine then Inl (Wrong_eio value) else Inr ())
      | None \<Rightarrow> Inr ())"

definition auth_query :: "'n serde_json \<Rightarrow> url_view \<Rightarrow> string \<Rightarrow> url_view" where
  "auth_query sj url auth =
     (case from_str sj auth of
        Some (JObject obj) \<Rightarrow>
          url\<lparr>url_query := url_query url @
            map (\<lambda>(key, value). (key, case value of JString s \<Rightarrow> s | other \<Rightarrow> to_string sj other)) obj\<rparr>
      | _ \<Rightarrow> url)"

section \<open>Packets\<close>

record packet =
  pk_kind :: char
  pk_attachments :: nat
  pk_namespace :: string
  pk_id :: "nat option"
  pk_data :: string

definition is_binary_kind :: "char \<Rightarrow> bool" where
  "is_binary_kind k = (k = CHR ''5'' \<or> k = CHR ''6'')"

definition is_packet_kind :: "char \<Rightarrow> bool" where
  "is_packet_kind k = (48 \<le> (of_char k :: nat) \<and> (of_char k :: nat) \<le> 54)"

text \<open>The attachment count of a binary packet and what follows its \<open>-\<close>.\<close>

definition parse_attachments :: "char \<Rightarrow> string \<Rightarrow> (nat \<times> string) option" where
  "parse_attachments kind rest =
     (if is_binary_kind kind
      then (let digits = takeWhile is_ascii_digit rest; tail = dropWhile is_ascii_digit rest
            in if digits = [] \<or> \<not> prefix ''-'' tail then None
               else (case parse_uint usize_max digits of
                       Some n \<Rightarrow> (if n \<le> MAX_ATTACHMENTS then Some (n, tl tail) else None)
                     | None \<Rightarrow> None))
      else Some (0, rest))"

definition parse_namespace :: "string \<Rightarrow> string \<times> string" where
  "parse_namespace rest =
     (if prefix ''/'' rest
      then (case split_once '','' rest of Some (ns, tail) \<Rightarrow> (ns, tail) | None \<Rightarrow> (rest, []))
      else (''/'', rest))"

definition packet_parse :: "string \<Rightarrow> packet option" where
  "packet_parse s =
     (case strip_prefix ''4'' s of
        None \<Rightarrow> None
      | Some [] \<Rightarrow> None
      | Some (kind # rest) \<Rightarrow>
          (if \<not> is_packet_kind kind then None
           else (case parse_attachments kind rest of
               None \<Rightarrow> None
             | Some (attachments, rest) \<Rightarrow>
                 (let (namespace, rest) = parse_namespace rest;
                      digits = takeWhile is_ascii_digit rest
                  in Some \<lparr>pk_kind = kind, pk_attachments = attachments, pk_namespace = namespace,
                       pk_id = (if digits \<noteq> [] then parse_uint u64_max digits else None),
                       pk_data = dropWhile is_ascii_digit rest\<rparr>))))"

definition packet_encode :: "packet \<Rightarrow> string" where
  "packet_encode p =
     ''4'' @ [pk_kind p]
     @ (if is_binary_kind (pk_kind p) then show_nat (pk_attachments p) @ ''-'' else [])
     @ (if pk_namespace p \<noteq> ''/'' then pk_namespace p @ '','' else [])
     @ (case pk_id p of None \<Rightarrow> [] | Some i \<Rightarrow> show_nat i)
     @ pk_data p"

definition event_data :: "'n serde_json \<Rightarrow> string \<Rightarrow> string \<Rightarrow> string" where
  "event_data sj event argument = ''['' @ to_string sj (JString event) @ '','' @ argument @ '']''"

definition event_packet :: "'n serde_json \<Rightarrow> sio_config \<Rightarrow> nat \<Rightarrow> string \<Rightarrow> string" where
  "event_packet sj c i payload =
     (let argument = (if from_str sj payload \<noteq> None then payload else to_string sj (JString payload))
      in packet_encode \<lparr>pk_kind = CHR ''2'', pk_attachments = 0, pk_namespace = sio_namespace c,
           pk_id = Some i, pk_data = event_data sj (sio_event c) argument\<rparr>)"

definition binary_event_packet :: "'n serde_json \<Rightarrow> sio_config \<Rightarrow> nat \<Rightarrow> string" where
  "binary_event_packet sj c i =
     packet_encode \<lparr>pk_kind = CHR ''5'', pk_attachments = 1, pk_namespace = sio_namespace c,
       pk_id = Some i, pk_data = event_data sj (sio_event c) PLACEHOLDER\<rparr>"

definition binary_reply :: "'n serde_json \<Rightarrow> string \<Rightarrow> string list \<Rightarrow> message" where
  "binary_reply sj data attachments =
     (let only_attachment = (length attachments = 1
            \<and> from_str sj data = from_str sj (''['' @ PLACEHOLDER @ '']''))
      in if attachments \<noteq> [] \<and> only_attachment then Msg_Binary (List.last attachments) else Msg_Text data)"

section \<open>Packets round trip\<close>

definition packet_wf :: "packet \<Rightarrow> bool" where
  "packet_wf p \<longleftrightarrow>
     is_packet_kind (pk_kind p) \<and>
     (if is_binary_kind (pk_kind p) then pk_attachments p \<le> MAX_ATTACHMENTS else pk_attachments p = 0) \<and>
     prefix ''/'' (pk_namespace p) \<and> CHR '','' \<notin> set (pk_namespace p) \<and>
     (case pk_id p of None \<Rightarrow> True | Some i \<Rightarrow> i \<le> u64_max) \<and>
     (pk_data p = [] \<or> \<not> is_ascii_digit (hd (pk_data p)) \<and>
        (pk_namespace p = ''/'' \<and> pk_id p = None \<longrightarrow> hd (pk_data p) \<noteq> CHR ''/''))"

lemma takeWhile_digits_show_nat:
  assumes "s = [] \<or> \<not> is_ascii_digit (hd s)"
  shows "takeWhile is_ascii_digit (show_nat n @ s) = show_nat n" "dropWhile is_ascii_digit (show_nat n @ s) = s"
proof -
  have "\<forall>c\<in>set (show_nat n). is_ascii_digit c" using show_nat_digits [of n] by (simp add: list_all_iff)
  with assms show "takeWhile is_ascii_digit (show_nat n @ s) = show_nat n" "dropWhile is_ascii_digit (show_nat n @ s) = s"
    by (cases s; simp add: takeWhile_append2 dropWhile_append2)+
qed

definition id_text :: "nat option \<Rightarrow> string" where
  "id_text x = (case x of None \<Rightarrow> [] | Some i \<Rightarrow> show_nat i)"

lemma parse_attachments_written:
  assumes "if is_binary_kind k then n \<le> MAX_ATTACHMENTS else n = 0"
  shows "parse_attachments k ((if is_binary_kind k then show_nat n @ ''-'' else []) @ rest) = Some (n, rest)"
  using assms takeWhile_digits_show_nat [of "CHR ''-'' # rest" n] parse_uint_show_nat [of n u64_max]
  by (auto simp: parse_attachments_def Let_def MAX_ATTACHMENTS_def is_ascii_digit_def)

lemma show_nat_hd: "is_ascii_digit (hd (show_nat n))" "hd (show_nat n) \<noteq> CHR ''/''"
proof -
  show "is_ascii_digit (hd (show_nat n))" using show_nat_digits [of n] by (cases "show_nat n") auto
  then show "hd (show_nat n) \<noteq> CHR ''/''" by (auto simp: is_ascii_digit_def)
qed

lemma parse_namespace_written:
  assumes "prefix ''/'' ns" "CHR '','' \<notin> set ns" "ns = ''/'' \<Longrightarrow> rest = [] \<or> hd rest \<noteq> CHR ''/''"
  shows "parse_namespace ((if ns \<noteq> ''/'' then ns @ '','' else []) @ rest) = (ns, rest)"
proof (cases "ns = ''/''")
  case True
  then show ?thesis using assms(3) by (cases rest) (auto simp: parse_namespace_def)
next
  case False
  have "prefix ''/'' (ns @ CHR '','' # rest)" using assms(1) by (simp add: prefix_def) force
  with False show ?thesis using split_once_char [OF assms(2), of rest] by (simp add: parse_namespace_def)
qed

lemma packet_parse_encode:
  assumes "packet_wf p"
  shows "packet_parse (packet_encode p) = Some p"
proof -
  let ?rest = "id_text (pk_id p) @ pk_data p"
  have d: "pk_data p = [] \<or> \<not> is_ascii_digit (hd (pk_data p))" using assms by (auto simp: packet_wf_def)
  have hd: "pk_namespace p = ''/'' \<Longrightarrow> ?rest = [] \<or> hd ?rest \<noteq> CHR ''/''"
    using assms show_nat_hd(2) by (auto simp: packet_wf_def id_text_def hd_append split: option.splits)
  have enc: "packet_encode p = ''4'' @ pk_kind p # (if is_binary_kind (pk_kind p) then show_nat (pk_attachments p) @ ''-'' else [])
      @ (if pk_namespace p \<noteq> ''/'' then pk_namespace p @ '','' else []) @ ?rest"
    by (simp add: packet_encode_def id_text_def)
  have id: "takeWhile is_ascii_digit ?rest = id_text (pk_id p)" "dropWhile is_ascii_digit ?rest = pk_data p"
    using takeWhile_digits_show_nat [OF d] d by (cases "pk_id p"; cases "pk_data p"; auto simp: id_text_def)+
  have num: "(if id_text (pk_id p) \<noteq> [] then parse_uint u64_max (id_text (pk_id p)) else None) = pk_id p"
    using assms parse_uint_show_nat [of _ u64_max] by (auto simp: packet_wf_def id_text_def split: option.splits)
  have "parse_attachments (pk_kind p) ((if is_binary_kind (pk_kind p) then show_nat (pk_attachments p) @ ''-'' else [])
      @ (if pk_namespace p \<noteq> ''/'' then pk_namespace p @ '','' else []) @ ?rest) =
      Some (pk_attachments p, (if pk_namespace p \<noteq> ''/'' then pk_namespace p @ '','' else []) @ ?rest)"
    using assms by (intro parse_attachments_written) (simp add: packet_wf_def)
  moreover have "parse_namespace ((if pk_namespace p \<noteq> ''/'' then pk_namespace p @ '','' else []) @ ?rest) = (pk_namespace p, ?rest)"
    using assms hd by (intro parse_namespace_written) (auto simp: packet_wf_def)
  moreover have "is_packet_kind (pk_kind p)" using assms by (simp add: packet_wf_def)
  ultimately show ?thesis
    unfolding packet_parse_def enc strip_prefix_append using id num
    by (cases p) (simp add: Let_def split: if_splits)
qed

section \<open>Opening a session\<close>

datatype received = Recv_end | Recv_error | Recv message

record open_state =
  os_opened :: bool
  os_ping_every :: "duration option"

definition open_start :: open_state where
  "open_start = \<lparr>os_opened = False, os_ping_every = None\<rparr>"

datatype open_outcome = Opening open_state | Opened "duration option" | Open_failed error_category

text \<open>\<open>open.get("pingInterval").and_then(Value::as_u64).filter(|ms| *ms > 0)\<close>.\<close>

definition ping_interval :: "'n serde_json \<Rightarrow> 'n json \<Rightarrow> nat option" where
  "ping_interval sj v =
     (case v of
        JObject obj \<Rightarrow>
          (case map_of obj ''pingInterval'' of
             Some (JNumber n) \<Rightarrow> (case as_u64 sj n of Some ms \<Rightarrow> (if ms > 0 then Some ms else None) | None \<Rightarrow> None)
           | _ \<Rightarrow> None)
      | _ \<Rightarrow> None)"

definition connect_packet :: "sio_config \<Rightarrow> string option \<Rightarrow> string" where
  "connect_packet c auth =
     packet_encode \<lparr>pk_kind = CHR ''0'', pk_attachments = 0, pk_namespace = sio_namespace c, pk_id = None,
       pk_data = (case sio_engine c of V3 \<Rightarrow> [] | V4 \<Rightarrow> (case auth of None \<Rightarrow> [] | Some a \<Rightarrow> a))\<rparr>"

definition send_or_fail :: "bool \<Rightarrow> message \<Rightarrow> open_state \<Rightarrow> message list \<times> open_outcome" where
  "send_or_fail send_ok msg st = ([msg], if send_ok then Opening st else Open_failed WriteError)"

definition open_first ::
    "'n serde_json \<Rightarrow> sio_config \<Rightarrow> string option \<Rightarrow> bool \<Rightarrow> string \<Rightarrow> open_state \<Rightarrow> message list \<times> open_outcome" where
  "open_first sj c auth send_ok s st =
     (case strip_prefix ''0'' s of
        None \<Rightarrow> ([], Open_failed ProtocolError)
      | Some json_text \<Rightarrow>
          (case from_str sj json_text of
             None \<Rightarrow> ([], Open_failed ProtocolError)
           | Some v \<Rightarrow>
               (let st = st\<lparr>os_opened := True\<rparr>
                in if sio_engine c = V3
                   then (case ping_interval sj v of
                           None \<Rightarrow> ([], Open_failed ProtocolError)
                         | Some ms \<Rightarrow>
                             (let st = st\<lparr>os_ping_every := Some (from_millis ms)\<rparr>
                              in if sio_namespace c = ''/'' then ([], Opening st)
                                 else send_or_fail send_ok (Msg_Text (connect_packet c auth)) st))
                   else send_or_fail send_ok (Msg_Text (connect_packet c auth)) st)))"

definition open_text ::
    "'n serde_json \<Rightarrow> sio_config \<Rightarrow> string option \<Rightarrow> bool \<Rightarrow> string \<Rightarrow> open_state \<Rightarrow> message list \<times> open_outcome" where
  "open_text sj c auth send_ok s st =
     (if \<not> os_opened st then open_first sj c auth send_ok s st
      else if s = ''2'' then send_or_fail send_ok (Msg_Text ''3'') st
      else if s = ''1'' then ([], Open_failed UnexpectedClose)
      else (case packet_parse s of
          None \<Rightarrow> ([], Opening st)
        | Some p \<Rightarrow>
            (if pk_namespace p \<noteq> sio_namespace c then ([], Opening st)
             else if pk_kind p = CHR ''0'' then ([], Opened (os_ping_every st))
             else if pk_kind p = CHR ''4'' \<or> pk_kind p = CHR ''1'' then ([], Open_failed ProtocolError)
             else ([], Opening st))))"

definition open_step ::
    "'n serde_json \<Rightarrow> sio_config \<Rightarrow> string option \<Rightarrow> received \<Rightarrow> bool \<Rightarrow> open_state
     \<Rightarrow> message list \<times> open_outcome" where
  "open_step sj c auth r send_ok st =
     (case r of
        Recv_end \<Rightarrow> ([], Open_failed UnexpectedClose)
      | Recv_error \<Rightarrow> ([], Open_failed ReadError)
      | Recv msg \<Rightarrow>
          (case msg of
             Msg_Text s \<Rightarrow> open_text sj c auth send_ok s st
           | Msg_Ping d \<Rightarrow> ([Msg_Pong d], Opening st)
           | Msg_Close f \<Rightarrow> ([], Open_failed UnexpectedClose)
           | Msg_Binary b \<Rightarrow> ([], if \<not> os_opened st then Open_failed ProtocolError else Opening st)
           | Msg_Pong d \<Rightarrow> ([], Opening st)))"

section \<open>The pump\<close>

record pending =
  pd_ack :: bool
  pd_id :: "nat option"
  pd_data :: string
  pd_needed :: nat
  pd_attachments :: "string list"

record pump_state =
  ps_next_id :: nat
  ps_awaited :: "nat option"
  ps_pending :: "pending option"
  ps_unsolicited :: nat

datatype pump_event =
    Ping_tick bool
  | Outgoing "message option" bool
  | Incoming received bool

datatype pump_action = To_server message | To_loop message | Loop_error

text \<open>The new state, what the step sent, and whether the pump goes on.\<close>

type_synonym pump_result = "pump_state \<times> pump_action list \<times> bool"

definition pump_start :: "nat \<Rightarrow> pump_state" where
  "pump_start unsolicited =
     \<lparr>ps_next_id = 0, ps_awaited = None, ps_pending = None, ps_unsolicited = unsolicited\<rparr>"

definition count_unsolicited :: "pump_state \<Rightarrow> pump_state" where
  "count_unsolicited st = st\<lparr>ps_unsolicited := ps_unsolicited st + 1\<rparr>"

definition disconnect_packet :: "sio_config \<Rightarrow> string" where
  "disconnect_packet c =
     packet_encode \<lparr>pk_kind = CHR ''1'', pk_attachments = 0, pk_namespace = sio_namespace c,
       pk_id = None, pk_data = []\<rparr>"

definition pump_emit :: "message list \<Rightarrow> bool \<Rightarrow> pump_state \<Rightarrow> pump_result" where
  "pump_emit msgs send_ok st =
     (st\<lparr>ps_awaited := Some (ps_next_id st), ps_next_id := ps_next_id st + 1\<rparr>,
      map To_server msgs @ (if send_ok then [] else [Loop_error]), send_ok)"

definition pump_outgoing :: "'n serde_json \<Rightarrow> sio_config \<Rightarrow> message option \<Rightarrow> bool \<Rightarrow> pump_state \<Rightarrow> pump_result" where
  "pump_outgoing sj c out send_ok st =
     (case out of
        None \<Rightarrow> (st, [To_server (Msg_Text (disconnect_packet c)), To_server (Msg_Close None)], False)
      | Some (Msg_Close f) \<Rightarrow> (st, [To_server (Msg_Text (disconnect_packet c)), To_server (Msg_Close f)], False)
      | Some (Msg_Text s) \<Rightarrow> pump_emit [Msg_Text (event_packet sj c (ps_next_id st) s)] send_ok st
      | Some (Msg_Binary b) \<Rightarrow>
          pump_emit [Msg_Text (binary_event_packet sj c (ps_next_id st)), Msg_Binary (wrap_binary (sio_engine c) b)]
            send_ok st
      | Some other \<Rightarrow> (st, [To_server other], True))"

definition pump_binary :: "'n serde_json \<Rightarrow> sio_config \<Rightarrow> string \<Rightarrow> bool \<Rightarrow> pump_state \<Rightarrow> pump_result" where
  "pump_binary sj c bytes loop_ok st =
     (case (ps_pending st, unwrap_binary (sio_engine c) bytes) of
        (Some pd, Some bytes) \<Rightarrow>
          (let pd = pd\<lparr>pd_attachments := pd_attachments pd @ [bytes]\<rparr>
           in if length (pd_attachments pd) < pd_needed pd then (st\<lparr>ps_pending := Some pd\<rparr>, [], True)
              else if pd_ack pd \<and> pd_id pd \<noteq> None \<and> pd_id pd = ps_awaited st
              then (st\<lparr>ps_pending := None, ps_awaited := None\<rparr>,
                    [To_loop (binary_reply sj (pd_data pd) (pd_attachments pd))], loop_ok)
              else (count_unsolicited (st\<lparr>ps_pending := None\<rparr>), [], True))
      | _ \<Rightarrow> (count_unsolicited (st\<lparr>ps_pending := None\<rparr>), [], True))"

definition pump_packet :: "sio_config \<Rightarrow> packet \<Rightarrow> bool \<Rightarrow> pump_state \<Rightarrow> pump_result" where
  "pump_packet c p loop_ok st =
     (if pk_attachments p > 0
      then (st\<lparr>ps_pending := Some \<lparr>pd_ack = (pk_kind p = CHR ''6'' \<and> pk_namespace p = sio_namespace c),
              pd_id = pk_id p, pd_data = pk_data p, pd_needed = pk_attachments p, pd_attachments = []\<rparr>\<rparr>, [], True)
      else if pk_namespace p = sio_namespace c
      then (if (pk_kind p = CHR ''3'' \<or> pk_kind p = CHR ''6'') \<and> pk_id p \<noteq> None \<and> pk_id p = ps_awaited st
            then (st\<lparr>ps_awaited := None\<rparr>, [To_loop (Msg_Text (pk_data p))], loop_ok)
            else if pk_kind p = CHR ''1'' \<or> pk_kind p = CHR ''4''
            then (st, [To_loop (Msg_Close None)], False)
            else (count_unsolicited st, [], True))
      else (count_unsolicited st, [], True))"

definition pump_text :: "sio_config \<Rightarrow> string \<Rightarrow> bool \<Rightarrow> pump_state \<Rightarrow> pump_result" where
  "pump_text c s loop_ok st =
     (let st = (if ps_pending st \<noteq> None then count_unsolicited (st\<lparr>ps_pending := None\<rparr>) else st)
      in if s = ''2'' then (st, [To_server (Msg_Text ''3'')], True)
         else if s = ''1'' then (st, [To_loop (Msg_Close None)], False)
         else if s = ''3'' \<or> s = ''6'' then (st, [], True)
         else (case packet_parse s of
             None \<Rightarrow> (count_unsolicited st, [], True)
           | Some p \<Rightarrow> pump_packet c p loop_ok st))"

definition pump_incoming :: "'n serde_json \<Rightarrow> sio_config \<Rightarrow> received \<Rightarrow> bool \<Rightarrow> pump_state \<Rightarrow> pump_result" where
  "pump_incoming sj c r loop_ok st =
     (case r of
        Recv_end \<Rightarrow> (st, [], False)
      | Recv_error \<Rightarrow> (st, [Loop_error], False)
      | Recv msg \<Rightarrow>
          (case msg of
             Msg_Text s \<Rightarrow> pump_text c s loop_ok st
           | Msg_Ping d \<Rightarrow> (st, [To_server (Msg_Pong d)], True)
           | Msg_Close f \<Rightarrow> (st, [To_loop (Msg_Close f)], False)
           | Msg_Binary b \<Rightarrow> pump_binary sj c b loop_ok st
           | Msg_Pong d \<Rightarrow> (st, [], True)))"

definition pump_step :: "'n serde_json \<Rightarrow> sio_config \<Rightarrow> pump_event \<Rightarrow> pump_state \<Rightarrow> pump_result" where
  "pump_step sj c e st =
     (case e of
        Ping_tick send_ok \<Rightarrow> (st, To_server (Msg_Text ''2'') # (if send_ok then [] else [Loop_error]), send_ok)
      | Outgoing out send_ok \<Rightarrow> pump_outgoing sj c out send_ok st
      | Incoming r loop_ok \<Rightarrow> pump_incoming sj c r loop_ok st)"

fun pump_run :: "'n serde_json \<Rightarrow> sio_config \<Rightarrow> pump_event list \<Rightarrow> pump_state \<Rightarrow> pump_state \<times> pump_action list" where
  "pump_run sj c [] st = (st, [])"
| "pump_run sj c (e # es) st =
     (case pump_step sj c e st of
        (st, actions, going) \<Rightarrow>
          (if going then (case pump_run sj c es st of (st, more_actions) \<Rightarrow> (st, actions @ more_actions))
           else (st, actions)))"

section \<open>The mock server's session\<close>

record mock_answer =
  ma_frames :: "message list"
  ma_event :: bool

record mock_session =
  ms_engine :: engine_io
  ms_pending :: "(string \<times> nat \<times> string list) option"

definition event_arguments :: "'n serde_json \<Rightarrow> string \<Rightarrow> string" where
  "event_arguments sj data =
     (case from_str sj data of
        Some (JArray (v # vs)) \<Rightarrow> to_string sj (JArray vs)
      | _ \<Rightarrow> ''[]'')"

definition mock_ack :: "'n serde_json \<Rightarrow> packet \<Rightarrow> char \<Rightarrow> nat \<Rightarrow> nat \<Rightarrow> string" where
  "mock_ack sj p kind attachments i =
     packet_encode \<lparr>pk_kind = kind, pk_attachments = attachments, pk_namespace = pk_namespace p,
       pk_id = Some i, pk_data = event_arguments sj (pk_data p)\<rparr>"

definition mock_binary :: "'n serde_json \<Rightarrow> string \<Rightarrow> mock_session \<Rightarrow> mock_answer option \<times> mock_session" where
  "mock_binary sj bytes ms =
     (case ms_pending ms of
        None \<Rightarrow> (None, ms)
      | Some (header, needed, attachments) \<Rightarrow>
          (let ms = ms\<lparr>ms_pending := None\<rparr>
           in case unwrap_binary (ms_engine ms) bytes of
                None \<Rightarrow> (None, ms)
              | Some b \<Rightarrow>
                  (let attachments = attachments @ [b]
                   in if length attachments < needed
                      then (None, ms\<lparr>ms_pending := Some (header, needed, attachments)\<rparr>)
                      else (case packet_parse header of
                          None \<Rightarrow> (None, ms)
                        | Some p \<Rightarrow>
                            (Some \<lparr>ma_frames =
                                Msg_Text (case pk_id p of
                                    Some i \<Rightarrow> mock_ack sj p (CHR ''6'') (pk_attachments p) i
                                  | None \<Rightarrow> header)
                                # map (\<lambda>b. Msg_Binary (wrap_binary (ms_engine ms) b)) attachments,
                              ma_event = True\<rparr>, ms)))))"

definition mock_control :: "string \<Rightarrow> mock_answer" where
  "mock_control s = \<lparr>ma_frames = [Msg_Text s], ma_event = False\<rparr>"

definition mock_text :: "'n serde_json \<Rightarrow> string \<Rightarrow> string \<Rightarrow> mock_session \<Rightarrow> mock_answer option \<times> mock_session" where
  "mock_text sj sid s ms =
     (let ms = ms\<lparr>ms_pending := None\<rparr>
      in if s = ''2'' then (Some (mock_control ''3''), ms)
         else (case packet_parse s of
             None \<Rightarrow> (None, ms)
           | Some p \<Rightarrow>
               (if pk_kind p = CHR ''0''
                then (Some (mock_control (packet_encode
                        \<lparr>pk_kind = CHR ''0'', pk_attachments = 0,
                         pk_namespace = hd (str_split (CHR ''?'') (pk_namespace p)), pk_id = None,
                         pk_data = ''{'' @ dq @ ''sid'' @ dq @ '':'' @ dq @ sid @ dq @ ''}''\<rparr>)), ms)
                else if pk_kind p = CHR ''5'' \<and> pk_attachments p > 0
                then (None, ms\<lparr>ms_pending := Some (s, pk_attachments p, [])\<rparr>)
                else if pk_kind p = CHR ''2'' \<or> pk_kind p = CHR ''5''
                then (Some \<lparr>ma_frames =
                        [Msg_Text (case pk_id p of
                           Some i \<Rightarrow> mock_ack sj p (if pk_kind p = CHR ''2'' then CHR ''3'' else CHR ''6'') 0 i
                         | None \<Rightarrow> s)],
                        ma_event = True\<rparr>, ms)
                else (None, ms))))"

definition mock_receive ::
    "'n serde_json \<Rightarrow> message \<Rightarrow> string \<Rightarrow> mock_session \<Rightarrow> mock_answer option \<times> mock_session" where
  "mock_receive sj frame sid ms =
     (case frame of
        Msg_Text s \<Rightarrow> mock_text sj sid s ms
      | Msg_Binary b \<Rightarrow> mock_binary sj b ms
      | _ \<Rightarrow> (None, ms))"

definition mock_open :: "string \<Rightarrow> nat \<Rightarrow> nat \<Rightarrow> engine_io \<Rightarrow> string" where
  "mock_open sid ping_interval_ms ping_timeout_ms engine =
     ''0{'' @ dq @ ''sid'' @ dq @ '':'' @ dq @ sid @ dq @ '','' @ dq @ ''upgrades'' @ dq @ '':[],'' @ dq
     @ ''pingInterval'' @ dq @ '':'' @ show_nat ping_interval_ms @ '','' @ dq @ ''pingTimeout'' @ dq @ '':''
     @ show_nat ping_timeout_ms
     @ (case engine of V3 \<Rightarrow> [] | V4 \<Rightarrow> '','' @ dq @ ''maxPayload'' @ dq @ '':1000000'') @ ''}''"

section \<open>Properties\<close>

text \<open>C38: a Socket.IO packet survives its wire form: kind, attachment count, namespace, acknowledgement id
  and data are read back as they were written.\<close>

theorem packet_roundtrip:
  assumes "packet_wf p"
  shows "packet_parse (packet_encode p) = Some p"
  using assms by (rule packet_parse_encode)

theorem packet_roundtrip_witness:
  "packet_parse (packet_encode \<lparr>pk_kind = CHR ''5'', pk_attachments = 2, pk_namespace = ''/admin'',
      pk_id = Some 31, pk_data = ''[1]''\<rparr>) =
   Some \<lparr>pk_kind = CHR ''5'', pk_attachments = 2, pk_namespace = ''/admin'', pk_id = Some 31, pk_data = ''[1]''\<rparr>"
  by (rule packet_roundtrip)
    (simp add: packet_wf_def is_packet_kind_def is_binary_kind_def MAX_ATTACHMENTS_def is_ascii_digit_def)

lemma unwrap_wrap [simp]: "unwrap_binary e (wrap_binary e b) = Some b"
  by (cases e) simp_all

subsection \<open>Replies\<close>

fun is_reply :: "pump_action \<Rightarrow> bool" where
  "is_reply (To_loop (Msg_Text s)) = True"
| "is_reply (To_loop (Msg_Binary b)) = True"
| "is_reply _ = False"

definition replies :: "pump_action list \<Rightarrow> nat" where
  "replies actions = length (filter is_reply actions)"

definition latest_awaited :: "pump_state \<Rightarrow> bool" where
  "latest_awaited st \<longleftrightarrow> (case ps_awaited st of None \<Rightarrow> True | Some i \<Rightarrow> Suc i = ps_next_id st)"

definition open_requests :: "pump_state \<Rightarrow> nat" where
  "open_requests st = (if ps_awaited st = None then 0 else 1)"

lemma is_reply_binary_reply [simp]: "is_reply (To_loop (binary_reply sj d bs))"
  by (simp add: binary_reply_def Let_def)

lemmas pump_defs = pump_outgoing_def pump_emit_def pump_incoming_def pump_binary_def pump_text_def
  pump_packet_def count_unsolicited_def Let_def

text \<open>A step keeps the invariant, and a reply is passed on only while the latest event is awaited.\<close>

lemma pump_binary_step:
  assumes "pump_binary sj c b ok st = (st', actions, going)" "latest_awaited st"
  shows "latest_awaited st' \<and> ps_next_id st' = ps_next_id st \<and>
    replies actions + open_requests st' = open_requests st"
  using assms
  by (auto simp: pump_binary_def Let_def count_unsolicited_def latest_awaited_def replies_def open_requests_def
      split: option.splits if_splits)

lemma pump_text_step:
  assumes "pump_text c s ok st = (st', actions, going)" "latest_awaited st"
  shows "latest_awaited st' \<and> ps_next_id st' = ps_next_id st \<and>
    replies actions + open_requests st' = open_requests st"
  using assms
  by (auto simp: pump_text_def pump_packet_def Let_def count_unsolicited_def latest_awaited_def replies_def
      open_requests_def split: option.splits if_splits)

lemma pump_outgoing_step:
  assumes "pump_outgoing sj c out ok st = (st', actions, going)" "latest_awaited st"
  shows "latest_awaited st' \<and> replies actions + open_requests st' + ps_next_id st \<le> open_requests st + ps_next_id st'"
  using assms
  by (auto simp: pump_outgoing_def pump_emit_def latest_awaited_def replies_def open_requests_def
      split: option.splits message.splits if_splits)

lemma pump_step_invariant:
  assumes "pump_step sj c e st = (st', actions, going)" "latest_awaited st"
  shows "latest_awaited st' \<and> replies actions + open_requests st' + ps_next_id st \<le> open_requests st + ps_next_id st'"
proof (cases e)
  case (Ping_tick ok)
  with assms show ?thesis by (auto simp: pump_step_def replies_def)
next
  case (Outgoing out ok)
  with assms show ?thesis using pump_outgoing_step [of sj c out ok st] by (simp add: pump_step_def)
next
  case (Incoming r ok)
  with assms show ?thesis
    using pump_binary_step [of sj c _ ok st] pump_text_step [of c _ ok st]
    by (auto simp: pump_step_def pump_incoming_def replies_def split: received.splits message.splits)
qed

lemma pump_run_invariant:
  assumes "pump_run sj c es st = (st', actions)" "latest_awaited st"
  shows "latest_awaited st' \<and> replies actions + open_requests st' + ps_next_id st \<le> open_requests st + ps_next_id st'"
  using assms
proof (induction es arbitrary: st actions)
  case Nil
  then show ?case by (simp add: replies_def)
next
  case (Cons e es)
  obtain st1 a1 going where 1: "pump_step sj c e st = (st1, a1, going)" by (cases "pump_step sj c e st") auto
  note inv = pump_step_invariant [OF 1 Cons.prems(2)]
  show ?case
  proof (cases going)
    case False
    with 1 Cons.prems inv show ?thesis by simp
  next
    case True
    with 1 Cons.prems(1) obtain a2 where 2: "pump_run sj c es st1 = (st', a2)" "actions = a1 @ a2"
      by (cases "pump_run sj c es st1") auto
    from Cons.IH [OF 2(1)] inv 2(2) show ?thesis by (simp add: replies_def)
  qed
qed

text \<open>C16: whatever the server sends and however sends, pings and frames interleave, the pump never
  passes the echo loop more replies than it emitted events: every reply answers one event, the latest
  one, and is passed on at most once.\<close>

theorem pump_replies_bounded:
  assumes "pump_run sj c es (pump_start n) = (st, actions)"
  shows "replies actions + open_requests st \<le> ps_next_id st \<and> latest_awaited st"
  using pump_run_invariant [OF assms] by (simp add: pump_start_def latest_awaited_def open_requests_def)

lemma packet_parse_ack:
  "packet_parse ''430[]'' = Some \<lparr>pk_kind = CHR ''3'', pk_attachments = 0, pk_namespace = ''/'', pk_id = Some 0, pk_data = ''[]''\<rparr>"
  by (simp add: packet_parse_def strip_prefix_def is_packet_kind_def parse_attachments_def is_binary_kind_def
      parse_namespace_def is_ascii_digit_def parse_uint_def digits_value_def digit_val_def)

theorem pump_replies_bounded_witness:
  "replies (snd (pump_run no_json \<lparr>sio_namespace = ''/'', sio_event = ''m'', sio_auth = None, sio_engine = V4\<rparr>
     [Outgoing (Some (Msg_Text ''x'')) True, Incoming (Recv (Msg_Text ''430[]'')) True,
      Incoming (Recv (Msg_Text ''430[]'')) True] (pump_start 0))) \<le> 1"
proof -
  let ?c = "\<lparr>sio_namespace = ''/'', sio_event = ''m'', sio_auth = None, sio_engine = V4\<rparr>"
  let ?es = "[Outgoing (Some (Msg_Text ''x'')) True, Incoming (Recv (Msg_Text ''430[]'')) True,
    Incoming (Recv (Msg_Text ''430[]'')) True]"
  have "replies (snd (pump_run no_json ?c ?es (pump_start 0))) \<le> ps_next_id (fst (pump_run no_json ?c ?es (pump_start 0)))"
    using pump_replies_bounded [of no_json ?c ?es 0 "fst (pump_run no_json ?c ?es (pump_start 0))"
        "snd (pump_run no_json ?c ?es (pump_start 0))"] by simp
  also have "ps_next_id (fst (pump_run no_json ?c ?es (pump_start 0))) \<le> 1"
    by (simp add: pump_step_def pump_defs pump_start_def packet_parse_ack)
  finally show ?thesis .
qed

subsection \<open>The client against the mock server\<close>

text \<open>What the session relies on in \<open>serde_json\<close>: the text of an array starts with a bracket.\<close>

definition array_text :: "'n serde_json \<Rightarrow> bool" where
  "array_text sj \<longleftrightarrow> (\<forall>vs. prefix ''['' (to_string sj (JArray vs)))"

definition namespace_ok :: "string \<Rightarrow> bool" where
  "namespace_ok ns \<longleftrightarrow> prefix ''/'' ns \<and> CHR '','' \<notin> set ns"

lemma sio_validate_namespace: "sio_validate sj c = Inr () \<Longrightarrow> namespace_ok (sio_namespace c)"
  by (auto simp: sio_validate_def namespace_ok_def str_contains_def str_find_char_None split: if_splits)

lemma bracket_data:
  assumes "prefix ''['' d"
  shows "d \<noteq> []" "\<not> is_ascii_digit (hd d)" "hd d \<noteq> CHR ''/''"
  using assms by (auto simp: prefix_def is_ascii_digit_def)

lemma event_arguments_bracket: "array_text sj \<Longrightarrow> prefix ''['' (event_arguments sj d)"
  by (auto simp: event_arguments_def array_text_def split: option.splits json.splits list.splits)

lemma packet_wf_bracket:
  assumes "namespace_ok ns" "prefix ''['' d" "i \<le> u64_max" "is_packet_kind k"
    "if is_binary_kind k then n \<le> MAX_ATTACHMENTS else n = 0"
  shows "packet_wf \<lparr>pk_kind = k, pk_attachments = n, pk_namespace = ns, pk_id = Some i, pk_data = d\<rparr>"
  using assms bracket_data [OF assms(2)] by (simp add: packet_wf_def namespace_ok_def)

lemma packet_encode_Cons: "\<exists>s. packet_encode p = CHR ''4'' # pk_kind p # s"
  by (simp add: packet_encode_def)

lemma packet_encode_not_engine:
  "packet_encode p \<noteq> ''1''" "packet_encode p \<noteq> ''2''" "packet_encode p \<noteq> ''3''" "packet_encode p \<noteq> ''6''"
  using packet_encode_Cons [of p] by auto

lemma kinds [simp]:
  "is_packet_kind (CHR ''2'')" "is_packet_kind (CHR ''3'')" "is_packet_kind (CHR ''5'')" "is_packet_kind (CHR ''6'')"
  "\<not> is_binary_kind (CHR ''2'')" "\<not> is_binary_kind (CHR ''3'')" "is_binary_kind (CHR ''5'')" "is_binary_kind (CHR ''6'')"
  by (simp_all add: is_packet_kind_def is_binary_kind_def)

lemma event_data_bracket: "prefix ''['' (event_data sj e a)"
  by (simp add: event_data_def)

definition argument_of :: "'n serde_json \<Rightarrow> string \<Rightarrow> string" where
  "argument_of sj payload = (if from_str sj payload \<noteq> None then payload else to_string sj (JString payload))"

text \<open>Every text message the client emits to \<open>wsblast mock --socketio\<close> comes back as its reply. The
  mock acknowledges the event with its id on its namespace, the pump recognises the acknowledgement of
  the awaited event and hands its arguments to the echo loop, and nothing is counted as unsolicited.\<close>

theorem mock_acknowledges_events:
  assumes "namespace_ok (sio_namespace c)" "array_text sj" "ps_next_id st \<le> u64_max" "ps_pending st = None"
  shows "\<exists>m ans. pump_step sj c (Outgoing (Some (Msg_Text payload)) True) st =
      (st\<lparr>ps_awaited := Some (ps_next_id st), ps_next_id := ps_next_id st + 1\<rparr>, [To_server m], True) \<and>
    mock_receive sj m sid ms = (Some \<lparr>ma_frames = [ans], ma_event = True\<rparr>, ms\<lparr>ms_pending := None\<rparr>) \<and>
    pump_step sj c (Incoming (Recv ans) True) (st\<lparr>ps_awaited := Some (ps_next_id st), ps_next_id := ps_next_id st + 1\<rparr>) =
      (st\<lparr>ps_awaited := None, ps_next_id := ps_next_id st + 1\<rparr>,
       [To_loop (Msg_Text (event_arguments sj (event_data sj (sio_event c) (argument_of sj payload))))], True)"
proof -
  let ?i = "ps_next_id st" and ?d = "event_data sj (sio_event c) (argument_of sj payload)"
  let ?p = "\<lparr>pk_kind = CHR ''2'', pk_attachments = 0, pk_namespace = sio_namespace c, pk_id = Some ?i, pk_data = ?d\<rparr>"
  let ?q = "\<lparr>pk_kind = CHR ''3'', pk_attachments = 0, pk_namespace = sio_namespace c, pk_id = Some ?i,
    pk_data = event_arguments sj ?d\<rparr>"
  have "packet_wf ?p"
    by (rule packet_wf_bracket [OF assms(1) event_data_bracket assms(3)]) simp_all
  moreover have "packet_wf ?q"
    by (rule packet_wf_bracket [OF assms(1) event_arguments_bracket [OF assms(2)] assms(3)]) simp_all
  ultimately have parse: "packet_parse (packet_encode ?p) = Some ?p" "packet_parse (packet_encode ?q) = Some ?q"
    by (simp_all add: packet_parse_encode)
  have "mock_receive sj (Msg_Text (packet_encode ?p)) sid ms =
      (Some \<lparr>ma_frames = [Msg_Text (packet_encode ?q)], ma_event = True\<rparr>, ms\<lparr>ms_pending := None\<rparr>)"
    using parse(1) packet_encode_not_engine(2) [of ?p] by (simp add: mock_receive_def mock_text_def mock_ack_def)
  moreover have "pump_step sj c (Outgoing (Some (Msg_Text payload)) True) st =
      (st\<lparr>ps_awaited := Some ?i, ps_next_id := ?i + 1\<rparr>, [To_server (Msg_Text (packet_encode ?p))], True)"
    by (simp add: pump_step_def pump_outgoing_def pump_emit_def event_packet_def argument_of_def Let_def)
  moreover have "pump_step sj c (Incoming (Recv (Msg_Text (packet_encode ?q))) True)
      (st\<lparr>ps_awaited := Some ?i, ps_next_id := ?i + 1\<rparr>) =
      (st\<lparr>ps_awaited := None, ps_next_id := ?i + 1\<rparr>, [To_loop (Msg_Text (event_arguments sj ?d))], True)"
    using parse(2) packet_encode_not_engine [of ?q] assms(4)
    by (simp add: pump_step_def pump_incoming_def pump_text_def pump_packet_def)
  ultimately show ?thesis by blast
qed

definition bracket_json :: "nat serde_json" where
  "bracket_json = no_json\<lparr>to_string := (\<lambda>_. ''[1]'')\<rparr>"

theorem mock_acknowledges_events_witness:
  "\<exists>m ans. pump_step bracket_json \<lparr>sio_namespace = ''/chat'', sio_event = ''m'', sio_auth = None, sio_engine = V4\<rparr>
      (Outgoing (Some (Msg_Text ''x'')) True) (pump_start 0) =
      ((pump_start 0)\<lparr>ps_awaited := Some 0, ps_next_id := 1\<rparr>, [To_server m], True) \<and>
    mock_receive bracket_json m ''s'' \<lparr>ms_engine = V4, ms_pending = None\<rparr> =
      (Some \<lparr>ma_frames = [ans], ma_event = True\<rparr>, \<lparr>ms_engine = V4, ms_pending = None\<rparr>)"
  using mock_acknowledges_events [of "\<lparr>sio_namespace = ''/chat'', sio_event = ''m'', sio_auth = None, sio_engine = V4\<rparr>"
      bracket_json "pump_start 0" "''x''" "''s''" "\<lparr>ms_engine = V4, ms_pending = None\<rparr>"]
  by (auto simp: namespace_ok_def array_text_def bracket_json_def no_json_def pump_start_def)

subsection \<open>The handshake URL\<close>

lemma find_append:
  "find P (xs @ ys) = (case find P xs of Some x \<Rightarrow> Some x | None \<Rightarrow> find P ys)"
  by (induction xs) auto

lemma find_filtered: "find (\<lambda>(k, _). k = c) (filter (\<lambda>(k, _). k \<noteq> c) ps) = None"
  by (auto simp: find_None_iff)

lemma socketio_url_facts:
  assumes "check_url url engine = Inr ()"
  shows "check_url (socketio_url engine url) engine = Inr () \<and>
    (''EIO'', engine_query engine) \<in> set (url_query (socketio_url engine url)) \<and>
    ''transport'' \<in> fst ` set (url_query (socketio_url engine url)) \<and>
    url_path (socketio_url engine url) \<notin> {[], ''/''} \<and>
    socketio_url engine (socketio_url engine url) = socketio_url engine url"
proof -
  define u where "u = (if url_path url = [] \<or> url_path url = ''/'' then url\<lparr>url_path := DEFAULT_PATH\<rparr> else url)"
  define qs where "qs = (if (''EIO'', engine_query engine) \<in> set (url_query url) then url_query url
    else filter (\<lambda>(k, _). k \<noteq> ''EIO'') (url_query url) @ [(''EIO'', engine_query engine)])"
  define rs where "rs = (if ''transport'' \<in> fst ` set qs then qs else qs @ [(''transport'', ''websocket'')])"
  have eq: "(\<exists>(k, v)\<in>set ps. k = ''EIO'' \<and> v = engine_query engine) \<longleftrightarrow> (''EIO'', engine_query engine) \<in> set ps"
    "(\<exists>(k, _)\<in>set ps. k = ''transport'') \<longleftrightarrow> ''transport'' \<in> fst ` set ps" for ps :: "(string \<times> string) list"
    by force+
  have q: "url_query u = url_query url" by (simp add: u_def)
  have r: "socketio_url engine url = u\<lparr>url_query := rs\<rparr>"
    unfolding socketio_url_def eq Let_def rs_def qs_def q [symmetric] u_def by simp
  have p: "url_path u \<notin> {[], ''/''}" by (simp add: u_def DEFAULT_PATH_def)
  have eio: "(''EIO'', engine_query engine) \<in> set rs" by (auto simp: rs_def qs_def)
  have tr: "''transport'' \<in> fst ` set rs" by (auto simp: rs_def)
  have "socketio_url engine (u\<lparr>url_query := rs\<rparr>) = u\<lparr>url_query := rs\<rparr>"
    unfolding socketio_url_def eq Let_def using p eio tr by simp
  moreover have "check_url (u\<lparr>url_query := rs\<rparr>) engine = Inr ()"
    using assms by (auto simp: check_url_def rs_def qs_def find_append find_filtered split: option.splits if_splits)
  ultimately show ?thesis using r eio tr p by simp
qed

text \<open>The handshake URL asks for the Engine.IO version the session speaks and for the WebSocket
  transport, on the Socket.IO path when the target has none, a target that passed the version check
  still passes it, and adding the parameters twice changes nothing.\<close>

theorem socketio_url_complete:
  assumes "check_url url engine = Inr ()"
  shows "check_url (socketio_url engine url) engine = Inr () \<and>
    (''EIO'', engine_query engine) \<in> set (url_query (socketio_url engine url)) \<and>
    ''transport'' \<in> fst ` set (url_query (socketio_url engine url)) \<and>
    url_path (socketio_url engine url) \<notin> {[], ''/''} \<and>
    socketio_url engine (socketio_url engine url) = socketio_url engine url"
  using assms by (rule socketio_url_facts)

theorem socketio_url_complete_witness:
  "check_url (socketio_url V4 \<lparr>url_scheme = ''ws'', url_path = ''/'', url_query = [(''a'', ''b'')]\<rparr>) V4 = Inr ()"
  using socketio_url_complete [of "\<lparr>url_scheme = ''ws'', url_path = ''/'', url_query = [(''a'', ''b'')]\<rparr>" V4]
  by (simp add: check_url_def)

end
