(* ===== verification/Load_Config.thy ===== *)
theory Load_Config
  imports Chaos Socketio
begin

text \<open>
  \<open>src/config.rs\<close> (with \<open>TestMode\<close> of \<open>src/cli.rs\<close>): the settings of a run and their validation, up to
  \<open>LoadTestConfigBuilder::build\<close>. Everything \<open>build\<close> asks of the outside (URL and header parsing, the
  data file, the local addresses, the clock) is a field of the record \<open>env\<close>.
\<close>

section \<open>Modes, payloads and reply matching\<close>

datatype test_mode = Echo | Stream | Listen | GraphQLWS | SocketIo

definition awaits_replies :: "test_mode \<Rightarrow> bool" where
  "awaits_replies mode = (mode = Echo \<or> mode = SocketIo)"

datatype payload_config = StaticText string | DynamicText template | Binary string

definition from_text_with_vars :: "string \<Rightarrow> string list \<Rightarrow> payload_config" where
  "from_text_with_vars s vars =
     (let template = parse_with_vars s vars
      in if is_dynamic template then DynamicText template else StaticText (tpl_source template))"

definition from_text :: "string \<Rightarrow> payload_config" where
  "from_text s = from_text_with_vars s []"

fun payload_template :: "payload_config \<Rightarrow> template option" where
  "payload_template (DynamicText t) = Some t"
| "payload_template _ = None"

datatype reply_match = First | Exact | JsonPointer string

fun reply_flag_value :: "reply_match \<Rightarrow> string" where
  "reply_flag_value First = ''first''"
| "reply_flag_value Exact = ''exact''"
| "reply_flag_value (JsonPointer pointer) = ''json:'' @ pointer"

text \<open>\<open>~\<close> only as \<open>~0\<close> and \<open>~1\<close>.\<close>

fun tildes_escaped :: "string \<Rightarrow> bool" where
  "tildes_escaped [] = True"
| "tildes_escaped (c # cs) =
     (if c = CHR ''~''
      then (case cs of [] \<Rightarrow> False | d # ds \<Rightarrow> (d = CHR ''0'' \<or> d = CHR ''1'') \<and> tildes_escaped ds)
      else tildes_escaped cs)"

definition is_json_pointer :: "string \<Rightarrow> bool" where
  "is_json_pointer pointer =
     (pointer = [] \<or> prefix ''/'' pointer \<and> tildes_escaped pointer)"

definition reply_match_from_str :: "string \<Rightarrow> config_error + reply_match" where
  "reply_match_from_str raw =
     (if raw = ''first'' then Inr First
      else if raw = ''exact'' then Inr Exact
      else (case strip_prefix ''json:'' raw of
          Some pointer \<Rightarrow>
            (if is_json_pointer pointer then Inr (JsonPointer pointer) else Inl (UnsupportedOption pointer))
        | None \<Rightarrow> Inl (UnsupportedOption raw)))"

fun carries_seq :: "payload_config \<Rightarrow> bool" where
  "carries_seq (DynamicText t) = has_seq t"
| "carries_seq _ = False"

fun is_pointer_match :: "reply_match \<Rightarrow> bool" where
  "is_pointer_match (JsonPointer p) = True"
| "is_pointer_match _ = False"

definition validate_reply_match :: "reply_match \<Rightarrow> test_mode \<Rightarrow> payload_config list \<Rightarrow> config_error + unit" where
  "validate_reply_match rm mode payloads =
     (if rm = First then Inr ()
      else if mode \<noteq> Echo then Inl (UnsupportedOption (reply_flag_value rm))
      else if is_pointer_match rm \<and> \<not> list_all carries_seq payloads
      then Inl (UnsupportedOption (reply_flag_value rm))
      else Inr ())"

section \<open>Service level objectives\<close>

record slo_thresholds =
  max_p50 :: "duration option"
  max_p95 :: "duration option"
  max_p99 :: "duration option"
  max_p999 :: "duration option"
  max_error_rate :: "f64 option"
  min_throughput :: "f64 option"
  max_generator_lag :: "duration option"

definition slo_none :: slo_thresholds where
  "slo_none = \<lparr>max_p50 = None, max_p95 = None, max_p99 = None, max_p999 = None, max_error_rate = None,
     min_throughput = None, max_generator_lag = None\<rparr>"

definition has_latency :: "slo_thresholds \<Rightarrow> bool" where
  "has_latency slo = (max_p50 slo \<noteq> None \<or> max_p95 slo \<noteq> None \<or> max_p99 slo \<noteq> None \<or> max_p999 slo \<noteq> None)"

definition or_else :: "'a option \<Rightarrow> 'a option \<Rightarrow> 'a option" where
  "or_else a b = (case a of None \<Rightarrow> b | Some x \<Rightarrow> Some x)"

definition or_from :: "slo_thresholds \<Rightarrow> slo_thresholds \<Rightarrow> slo_thresholds" where
  "or_from slo fallback =
     \<lparr>max_p50 = or_else (max_p50 slo) (max_p50 fallback),
      max_p95 = or_else (max_p95 slo) (max_p95 fallback),
      max_p99 = or_else (max_p99 slo) (max_p99 fallback),
      max_p999 = or_else (max_p999 slo) (max_p999 fallback),
      max_error_rate = or_else (max_error_rate slo) (max_error_rate fallback),
      min_throughput = or_else (min_throughput slo) (min_throughput fallback),
      max_generator_lag = or_else (max_generator_lag slo) (max_generator_lag fallback)\<rparr>"

definition in_unit_range :: "f64 \<Rightarrow> bool" where
  "in_unit_range x = (f64_le (Num 0) x \<and> f64_le x (Num 1))"

definition validate_error_rate :: "slo_thresholds \<Rightarrow> config_error + unit" where
  "validate_error_rate slo =
     (case max_error_rate slo of
        Some rate \<Rightarrow> (if \<not> in_unit_range rate then Inl (InvalidThreshold ''max_error_rate'') else Inr ())
      | None \<Rightarrow> Inr ())"

definition validate_latency_mode :: "slo_thresholds \<Rightarrow> test_mode \<Rightarrow> config_error + unit" where
  "validate_latency_mode slo mode =
     (if has_latency slo \<and> \<not> awaits_replies mode then Inl (UnsupportedOption ''latency SLOs'') else Inr ())"

definition validate_slo :: "slo_thresholds \<Rightarrow> test_mode \<Rightarrow> config_error + unit" where
  "validate_slo slo mode = and_then (validate_error_rate slo) (\<lambda>_. validate_latency_mode slo mode)"

section \<open>Other checks\<close>

definition validate_connections :: "nat \<Rightarrow> config_error + unit" where
  "validate_connections connections = (if connections = 0 then Inl (ZeroConcurrency 0) else Inr ())"

definition validate_max_requests :: "nat option \<Rightarrow> config_error + unit" where
  "validate_max_requests n = (if n = Some 0 then Inl (InvalidOption ''requests'') else Inr ())"

definition validate_chaos_mode :: "chaos_config \<Rightarrow> test_mode \<Rightarrow> bool \<Rightarrow> config_error + unit" where
  "validate_chaos_mode c mode has_actions =
     (if \<not> acts_on_sends c then Inr ()
      else if \<not> (has_actions \<or> awaits_replies mode \<or> mode = Stream) then Inl (UnsupportedOption ''chaos'')
      else Inr ())"

definition is_sendable_close_code :: "nat \<Rightarrow> bool" where
  "is_sendable_close_code code =
     (1000 \<le> code \<and> code \<le> 1003 \<or> 1007 \<le> code \<and> code \<le> 1014 \<or> 3000 \<le> code \<and> code \<le> 4999)"

definition validate_close_code :: "nat \<Rightarrow> config_error + nat" where
  "validate_close_code code =
     (if is_sendable_close_code code then Inr code else Inl (InvalidScenario ''close code'' (show_nat code)))"

definition parse_target_url :: "(string \<Rightarrow> url_view option) \<Rightarrow> string \<Rightarrow> config_error + url_view" where
  "parse_target_url url_parse raw =
     (case url_parse raw of
        None \<Rightarrow> Inl (InvalidUrl raw)
      | Some url \<Rightarrow>
          (if url_scheme url = ''ws'' \<or> url_scheme url = ''wss'' then Inr url
           else Inl (UnsupportedScheme (url_scheme url))))"

text \<open>\<open>HeaderName::from_str\<close> and \<open>HeaderValue::from_str\<close> are given as functions.\<close>

definition parse_header_pair ::
    "(string \<Rightarrow> string option) \<Rightarrow> (string \<Rightarrow> string option) \<Rightarrow> string \<Rightarrow> config_error + string \<times> string" where
  "parse_header_pair header_name header_value header =
     (case split_once '':'' header of
        None \<Rightarrow> Inl (InvalidHeader header)
      | Some (name, value) \<Rightarrow>
          (case header_name (trim name) of
             None \<Rightarrow> Inl (InvalidHeader name)
           | Some n \<Rightarrow>
               (case header_value (trim value) of
                  None \<Rightarrow> Inl (InvalidHeader value)
                | Some v \<Rightarrow> Inr (n, v))))"

record 'n graphql_options =
  gql_operation :: "string option"
  gql_operation_name :: "string option"
  gql_variables :: "'n json option"
  gql_extensions :: "'n json option"

record 'n graphql_config =
  gw_operation_name :: "string option"
  gw_operation :: string
  gw_variables :: "'n json option"
  gw_extensions :: "'n json option"

definition opt_object :: "'n json option \<Rightarrow> bool" where
  "opt_object v = (case v of None \<Rightarrow> True | Some v \<Rightarrow> is_object v)"

definition validate_graphql ::
    "test_mode \<Rightarrow> 'n graphql_options \<Rightarrow> config_error + 'n graphql_config option" where
  "validate_graphql mode o' =
     (let has_options = (gql_operation o' \<noteq> None \<or> gql_operation_name o' \<noteq> None
            \<or> gql_variables o' \<noteq> None \<or> gql_extensions o' \<noteq> None)
      in if mode \<noteq> GraphQLWS
         then (if has_options then Inl (UnsupportedOption ''graphql-ws'') else Inr None)
         else (case gql_operation o' of
             None \<Rightarrow> Inl (InvalidOption ''--graphql-ws-operation'')
           | Some operation \<Rightarrow>
               (if trim operation = [] then Inl (InvalidOption ''--graphql-ws-operation'')
                else if \<not> opt_object (gql_variables o') then Inl (InvalidOption ''--graphql-ws-variables'')
                else if \<not> opt_object (gql_extensions o') then Inl (InvalidOption ''--graphql-ws-extensions'')
                else Inr (Some \<lparr>gw_operation_name = gql_operation_name o', gw_operation = operation,
                       gw_variables = gql_variables o', gw_extensions = gql_extensions o'\<rparr>))))"

record sio_options =
  so_event :: "string option"
  so_namespace :: "string option"
  so_auth :: "string option"
  so_version :: "nat option"

definition or_default :: "'a option \<Rightarrow> 'a \<Rightarrow> 'a" where
  "or_default x d = (case x of None \<Rightarrow> d | Some v \<Rightarrow> v)"

definition sio_compile ::
    "'n serde_json \<Rightarrow> sio_options \<Rightarrow> test_mode \<Rightarrow> url_view \<Rightarrow> config_error + sio_config option" where
  "sio_compile sj o' mode target =
     (let set_any = (so_event o' \<noteq> None \<or> so_namespace o' \<noteq> None \<or> so_auth o' \<noteq> None \<or> so_version o' \<noteq> None)
      in if mode \<noteq> SocketIo
         then (if set_any then Inl (UnsupportedOption ''--sio'') else Inr None)
         else (case from_version (or_default (so_version o') 4) of
             None \<Rightarrow> Inl (InvalidOption ''--sio-version'')
           | Some engine \<Rightarrow>
               and_then (map_err (\<lambda>_. InvalidOption ''EIO'') (check_url target engine)) (\<lambda>_.
                 let c = \<lparr>sio_namespace = or_default (so_namespace o') ''/'',
                          sio_event = or_default (so_event o') ''message'',
                          sio_auth = map_option parse_template (so_auth o'), sio_engine = engine\<rparr>
                 in and_then (map_err (\<lambda>_. InvalidOption ''--sio'') (sio_validate sj c)) (\<lambda>_. Inr (Some c)))))"

section \<open>Building a configuration\<close>

text \<open>
  What \<open>build\<close> asks of the outside: JSON, URLs (parsing and printing), header names (\<open>HeaderName::from_str\<close>),
  header values (\<open>to_str\<close> and \<open>from_str\<close> of \<open>HeaderValue\<close>), the file system, the local addresses and the clock.
\<close>

record 'n env =
  env_json :: "'n serde_json"
  env_url :: "string \<Rightarrow> url_view option"
  env_url_to_string :: "url_view \<Rightarrow> string"
  env_header_name :: "string \<Rightarrow> string option"
  env_header_to_str :: "string \<Rightarrow> string option"
  env_header_value :: "string \<Rightarrow> string option"
  env_metadata :: "string \<Rightarrow> string + nat"
  env_read :: "string \<Rightarrow> string + string"
  env_is_unspecified :: "string \<Rightarrow> bool"
  env_bind :: "string \<Rightarrow> bool"
  env_time_seed :: u64
  env_now_ms :: nat

definition check_source_ip :: "'n env \<Rightarrow> string \<Rightarrow> config_error + unit" where
  "check_source_ip env ip =
     (if env_is_unspecified env ip then Inl (InvalidOption ip)
      else if env_bind env ip then Inr () else Inl (InvalidOption ip))"

fun check_source_ips :: "'n env \<Rightarrow> string list \<Rightarrow> string list \<Rightarrow> config_error + string list" where
  "check_source_ips env [] seen = Inr seen"
| "check_source_ips env (ip # ips) seen =
     (if ip \<in> set seen then check_source_ips env ips seen
      else and_then (check_source_ip env ip) (\<lambda>_. check_source_ips env ips (seen @ [ip])))"

fun header_rows_ok :: "'n env \<Rightarrow> template \<Rightarrow> data_set option \<Rightarrow> nat list \<Rightarrow> config_error + unit" where
  "header_rows_ok env t data [] = Inr ()"
| "header_rows_ok env t data (row # rows) =
     (if env_header_value env (render (env_now_ms env) t \<lparr>val_seq = 0, val_worker_id = row,
           val_data = map_option (\<lambda>d. (d, row)) data, val_vars = []\<rparr>) = None
      then Inl (InvalidOption ''header'') else header_rows_ok env t data rows)"

definition header_template :: "'n env \<Rightarrow> string \<Rightarrow> template option" where
  "header_template env value =
     (case env_header_to_str env value of
        None \<Rightarrow> None
      | Some s \<Rightarrow> (let t = parse_template s in if is_dynamic t then Some t else None))"

fun split_header_templates ::
    "'n env \<Rightarrow> data_set option \<Rightarrow> (string \<times> string) list
     \<Rightarrow> config_error + (string \<times> string) list \<times> (string \<times> template) list" where
  "split_header_templates env data [] = Inr ([], [])"
| "split_header_templates env data ((name, value) # headers) =
     (case header_template env value of
        None \<Rightarrow>
          and_then (split_header_templates env data headers) (\<lambda>(fixed, templates).
            Inr ((name, value) # fixed, templates))
      | Some t \<Rightarrow>
          and_then (map_err (\<lambda>_. InvalidOption name) (check_data t data)) (\<lambda>_.
            and_then (header_rows_ok env t data [0..<(case data of None \<Rightarrow> 1 | Some d \<Rightarrow> data_len d)]) (\<lambda>_.
              and_then (split_header_templates env data headers) (\<lambda>(fixed, templates).
                Inr (fixed, (name, t) # templates)))))"

text \<open>\<open>split\<close> and \<open>Share::of\<close> of \<open>src/distributed/protocol.rs\<close>: the part of a total that one agent takes.\<close>

type_synonym share = "nat \<times> nat"

definition split_total :: "nat \<Rightarrow> nat \<Rightarrow> nat \<Rightarrow> nat" where
  "split_total whole index agents =
     (let n = max agents 1 in whole div n + (if index < whole mod n then 1 else 0))"

definition share_of :: "share \<Rightarrow> nat \<Rightarrow> nat" where
  "share_of share whole = split_total whole (fst share) (snd share)"

datatype data_source = File string | Loaded data_set

datatype output_format = Out_Text | Out_Json | Out_Markdown | Out_Html

record 'n builder =
  b_target :: string
  b_connections :: nat
  b_ramp_rate :: nat
  b_duration :: duration
  b_stages :: "stage list"
  b_arrivals :: "arrivals option"
  b_max_requests :: "nat option"
  b_rate_per_conn :: nat
  b_payload :: payload_config
  b_headers :: "(string \<times> string) list"
  b_invalid_header :: "string option"
  b_data :: "data_source option"
  b_subprotocol :: "string option"
  b_source_ips :: "string list"
  b_compression :: bool
  b_mode :: test_mode
  b_connect_timeout :: duration
  b_message_timeout :: duration
  b_ping_interval :: duration
  b_graphql :: "'n graphql_options"
  b_socketio :: sio_options
  b_slo :: slo_thresholds
  b_output_format :: output_format
  b_progress :: bool
  b_reconnect :: bool
  b_reply_match :: reply_match
  b_expect :: "string option"
  b_capture :: "string option"
  b_capture_limit :: nat
  b_chaos :: "chaos_config option"

text \<open>
  The builder as \<open>LoadTestConfig::builder\<close> starts it. Its setters are updates of one field each, except
  \<open>payload_text\<close>, which parses the text, and \<open>header\<close>, which keeps the first invalid header for \<open>build\<close>.
\<close>

definition DEFAULT_TEXT_PAYLOAD :: string where
  "DEFAULT_TEXT_PAYLOAD =
     ''{'' @ dq @ ''source'' @ dq @ '':'' @ dq @ ''wsblast'' @ dq @ '','' @ dq @ ''ts'' @ dq @ '':'' @ dq
     @ ''{{timestamp}}'' @ dq @ '','' @ dq @ ''seq'' @ dq @ '':{{seq}}}''"

definition builder_new :: "string \<Rightarrow> 'n builder" where
  "builder_new target =
     \<lparr>b_target = target, b_connections = 50, b_ramp_rate = 0, b_duration = from_secs 10, b_stages = [],
      b_arrivals = None, b_max_requests = None, b_rate_per_conn = 0, b_payload = from_text DEFAULT_TEXT_PAYLOAD,
      b_headers = [], b_invalid_header = None, b_data = None, b_subprotocol = None, b_source_ips = [],
      b_compression = False, b_mode = Echo, b_connect_timeout = from_secs 5, b_message_timeout = from_secs 5,
      b_ping_interval = 0,
      b_graphql = \<lparr>gql_operation = None, gql_operation_name = None, gql_variables = None, gql_extensions = None\<rparr>,
      b_socketio = \<lparr>so_event = None, so_namespace = None, so_auth = None, so_version = None\<rparr>,
      b_slo = slo_none, b_output_format = Out_Text, b_progress = False, b_reconnect = True, b_reply_match = First,
      b_expect = None, b_capture = None, b_capture_limit = 100000, b_chaos = None\<rparr>"

definition payload_text :: "string \<Rightarrow> 'n builder \<Rightarrow> 'n builder" where
  "payload_text s b = b\<lparr>b_payload := from_text s\<rparr>"

definition builder_header :: "'n env \<Rightarrow> string \<Rightarrow> string \<Rightarrow> 'n builder \<Rightarrow> 'n builder" where
  "builder_header env name value b =
     (case (env_header_name env (trim name), env_header_value env (trim value)) of
        (Some n, Some v) \<Rightarrow> b\<lparr>b_headers := b_headers b @ [(n, v)]\<rparr>
      | (None, _) \<Rightarrow> b\<lparr>b_invalid_header := Some (or_default (b_invalid_header b) name)\<rparr>
      | (_, None) \<Rightarrow> b\<lparr>b_invalid_header := Some (or_default (b_invalid_header b) value)\<rparr>)"

record 'n load_config =
  lc_target_url :: url_view
  lc_connections :: nat
  lc_ramp_rate :: nat
  lc_duration :: duration
  lc_stages :: "stage list"
  lc_arrivals :: "arrivals option"
  lc_max_requests :: "nat option"
  lc_rate_per_conn :: nat
  lc_payload :: payload_config
  lc_headers :: "(string \<times> string) list"
  lc_header_templates :: "(string \<times> template) list"
  lc_data :: "data_set option"
  lc_subprotocol :: "string option"
  lc_source_ips :: "string list"
  lc_compression :: bool
  lc_mode :: test_mode
  lc_connect_timeout :: duration
  lc_message_timeout :: duration
  lc_ping_every :: duration
  lc_graphql_ws :: "'n graphql_config option"
  lc_socketio :: "sio_config option"
  lc_slo :: slo_thresholds
  lc_no_progress :: bool
  lc_no_reconnect :: bool
  lc_reply_match :: reply_match
  lc_expect :: "'n check option"
  lc_capture :: "(string \<times> nat) option"
  lc_output_format :: output_format
  lc_output_path :: "string option"
  lc_tui :: bool
  lc_stage_share :: "share option"
  lc_chaos :: "chaos_config option"

text \<open>The target of a scenario phase and the stage target of one agent (\<open>LoadTestConfig\<close> methods).\<close>

definition set_target :: "url_view \<Rightarrow> 'n load_config \<Rightarrow> 'n load_config" where
  "set_target url c =
     c\<lparr>lc_target_url := (case lc_socketio c of None \<Rightarrow> url | Some sio \<Rightarrow> socketio_url (sio_engine sio) url)\<rparr>"

definition stage_target :: "'n load_config \<Rightarrow> duration \<Rightarrow> nat option" where
  "stage_target c elapsed =
     map_option (\<lambda>target. case lc_stage_share c of Some share \<Rightarrow> share_of share target | None \<Rightarrow> target)
       (target_at (lc_stages c) elapsed)"

text \<open>\<open>build\<close> returns an error, or panics where a sum of durations overflows.\<close>

datatype build_error = Rejected config_error | Panicked

fun sum_durations :: "duration \<Rightarrow> stage list \<Rightarrow> duration option" where
  "sum_durations acc [] = Some acc"
| "sum_durations acc (s # ss) =
     (case duration_add acc (st_duration s) of None \<Rightarrow> None | Some d \<Rightarrow> sum_durations d ss)"

definition max_target :: "stage list \<Rightarrow> nat" where
  "max_target stages = (if stages = [] then 0 else Max (set (map st_target stages)))"

text \<open>The first checks: the load model gives the connection count and the duration.\<close>

definition build_load :: "'n builder \<Rightarrow> build_error + nat \<times> duration" where
  "build_load b =
     and_then (map_err Rejected
         (case b_arrivals b of
            None \<Rightarrow> Inr (b_connections b)
          | Some a \<Rightarrow> and_then (validate_arrivals a (b_stages b) (b_ramp_rate b))
                       (\<lambda>_. Inr (expected_connections a)))) (\<lambda>conns.
       if b_stages b = [] then Inr (conns, b_duration b)
       else and_then (map_err Rejected (validate_stages (b_stages b) (b_ramp_rate b))) (\<lambda>_.
              case sum_durations 0 (b_stages b) of
                None \<Rightarrow> Inl Panicked
              | Some d \<Rightarrow> Inr (max_target (b_stages b), d)))"

definition build_data :: "'n env \<Rightarrow> 'n builder \<Rightarrow> config_error + data_set option" where
  "build_data env b =
     (case b_data b of
        None \<Rightarrow> Inr None
      | Some (Loaded d) \<Rightarrow> Inr (Some d)
      | Some (File path) \<Rightarrow>
          and_then (map_err (\<lambda>_. DataFile path) (load_data (env_json env) (env_metadata env) (env_read env) path))
            (\<lambda>d. Inr (Some d)))"

definition build_expect :: "'n env \<Rightarrow> 'n builder \<Rightarrow> config_error + 'n check option" where
  "build_expect env b =
     and_then (map_err (\<lambda>_. InvalidOption ''--expect'') (transpose_opt (parse_flag (env_json env)) (b_expect b)))
       (\<lambda>expect. if expect \<noteq> None \<and> \<not> awaits_replies (b_mode b)
                  then Inl (UnsupportedOption ''--expect'') else Inr expect)"

definition build_chaos :: "'n env \<Rightarrow> 'n builder \<Rightarrow> config_error + chaos_config option" where
  "build_chaos env b =
     (case b_chaos b of
        None \<Rightarrow> Inr None
      | Some c \<Rightarrow>
          and_then (chaos_validate c) (\<lambda>_.
            if is_active c
            then and_then (validate_chaos_mode c (b_mode b) False) (\<lambda>_. Inr (Some (seeded (env_time_seed env) c)))
            else Inr None))"

text \<open>The checks on payload, reply matching, headers and data, in the order of \<open>build\<close>.\<close>

definition build_checks ::
    "'n env \<Rightarrow> 'n builder \<Rightarrow> sio_config option
     \<Rightarrow> config_error + data_set option \<times> (string \<times> string) list \<times> (string \<times> template) list" where
  "build_checks env b sio =
     and_then (validate_reply_match (b_reply_match b) (b_mode b) [b_payload b]) (\<lambda>_.
     and_then (case b_invalid_header b of None \<Rightarrow> Inr () | Some m \<Rightarrow> Inl (InvalidHeader m)) (\<lambda>_.
     and_then (validate_slo (b_slo b) (b_mode b)) (\<lambda>_.
     and_then (build_data env b) (\<lambda>data.
     and_then (case payload_template (b_payload b) of
         None \<Rightarrow> Inr ()
       | Some t \<Rightarrow> map_err (\<lambda>_. InvalidOption ''payload'') (check_data t data)) (\<lambda>_.
     and_then (split_header_templates env data (b_headers b)) (\<lambda>(fixed, templates).
     and_then (case sio of
         None \<Rightarrow> Inr ()
       | Some c \<Rightarrow>
           (case sio_auth c of
              None \<Rightarrow> Inr ()
            | Some auth \<Rightarrow> map_err (\<lambda>_. InvalidOption ''--sio-auth'')
                              (check_auth (env_json env) (env_now_ms env) auth data))) (\<lambda>_.
     Inr (data, fixed, templates))))))))"

definition assemble ::
    "'n builder \<Rightarrow> url_view \<Rightarrow> nat \<Rightarrow> duration \<Rightarrow> 'n graphql_config option \<Rightarrow> sio_config option \<Rightarrow> data_set option
     \<Rightarrow> (string \<times> string) list \<Rightarrow> (string \<times> template) list \<Rightarrow> string list \<Rightarrow> 'n check option \<Rightarrow> chaos_config option
     \<Rightarrow> 'n load_config" where
  "assemble b url conns duration gql sio data fixed templates ips expect chaos =
     \<lparr>lc_target_url = (case sio of None \<Rightarrow> url | Some c \<Rightarrow> socketio_url (sio_engine c) url),
          lc_connections = conns, lc_ramp_rate = b_ramp_rate b, lc_duration = duration, lc_stages = b_stages b,
          lc_arrivals = b_arrivals b, lc_max_requests = b_max_requests b, lc_rate_per_conn = b_rate_per_conn b,
          lc_payload = b_payload b, lc_headers = fixed, lc_header_templates = templates, lc_data = data,
          lc_subprotocol = b_subprotocol b, lc_source_ips = ips, lc_compression = b_compression b, lc_mode = b_mode b,
          lc_connect_timeout = b_connect_timeout b, lc_message_timeout = b_message_timeout b,
          lc_ping_every = b_ping_interval b, lc_graphql_ws = gql, lc_socketio = sio, lc_slo = b_slo b,
          lc_no_progress = (\<not> b_progress b), lc_no_reconnect = (\<not> b_reconnect b),
          lc_reply_match = b_reply_match b, lc_expect = expect,
          lc_capture = map_option (\<lambda>path. (path, b_capture_limit b)) (b_capture b),
          lc_output_format = b_output_format b, lc_output_path = None, lc_tui = False, lc_stage_share = None,
          lc_chaos = chaos\<rparr>"

definition build_rest ::
    "'n env \<Rightarrow> 'n builder \<Rightarrow> url_view \<Rightarrow> nat \<Rightarrow> duration \<Rightarrow> config_error + 'n load_config" where
  "build_rest env b url conns duration =
     and_then (validate_connections conns) (\<lambda>_.
     and_then (validate_max_requests (b_max_requests b)) (\<lambda>_.
     and_then (case b_reply_match b of
         JsonPointer pointer \<Rightarrow> (if is_json_pointer pointer then Inr () else Inl (UnsupportedOption pointer))
       | _ \<Rightarrow> Inr ()) (\<lambda>_.
     and_then (validate_graphql (b_mode b) (b_graphql b)) (\<lambda>gql.
     and_then (sio_compile (env_json env) (b_socketio b) (b_mode b) url) (\<lambda>sio.
     and_then (build_checks env b sio) (\<lambda>(data, fixed, templates).
     and_then (check_source_ips env (b_source_ips b) []) (\<lambda>ips.
     and_then (build_expect env b) (\<lambda>expect.
     and_then (build_chaos env b) (\<lambda>chaos.
     Inr (assemble b url conns duration gql sio data fixed templates ips expect chaos))))))))))"

definition build :: "'n env \<Rightarrow> 'n builder \<Rightarrow> build_error + 'n load_config" where
  "build env b =
     and_then (map_err Rejected (parse_target_url (env_url env) (b_target b))) (\<lambda>url.
       and_then (build_load b) (\<lambda>(conns, duration).
         map_err Rejected (build_rest env b url conns duration)))"

section \<open>What a built configuration satisfies\<close>

definition load_ok :: "nat \<Rightarrow> duration \<Rightarrow> stage list \<Rightarrow> bool" where
  "load_ok conns duration stages \<longleftrightarrow>
     stages \<noteq> [] \<longrightarrow> duration = total_duration stages \<and> conns = max_target stages
       \<and> (\<forall>s\<in>set stages. 0 < st_duration s)"

text \<open>An arrival model: a rate in range, sessions that last, room for one of them, and no other load profile
  beside it.\<close>

definition arrivals_ok_for :: "'n load_config \<Rightarrow> arrivals \<Rightarrow> bool" where
  "arrivals_ok_for c a \<longleftrightarrow>
     (\<exists>q. ar_rate a = Num q \<and> 0 < q \<and> q \<le> 1000000) \<and> 0 < ar_session_duration a \<and> ar_max_connections a \<noteq> Some 0 \<and>
     lc_stages c = [] \<and> lc_ramp_rate c = 0 \<and> lc_connections c = expected_connections a"

definition slo_ok :: "'n load_config \<Rightarrow> bool" where
  "slo_ok c \<longleftrightarrow>
     (\<forall>r. max_error_rate (lc_slo c) = Some r \<longrightarrow> (\<exists>q. r = Num q \<and> 0 \<le> q \<and> q \<le> 1)) \<and>
     (has_latency (lc_slo c) \<longrightarrow> awaits_replies (lc_mode c))"

text \<open>Replies: matching only where an echo can be matched, by a well-formed pointer to a numbered payload;
  a check only where replies are awaited, of a pointer or of a text that is not empty.\<close>

definition replies_ok :: "'n load_config \<Rightarrow> bool" where
  "replies_ok c \<longleftrightarrow>
     (lc_reply_match c \<noteq> First \<longrightarrow> lc_mode c = Echo) \<and>
     (\<forall>p. lc_reply_match c = JsonPointer p \<longrightarrow> is_json_pointer p \<and> carries_seq (lc_payload c)) \<and>
     (\<forall>ex. lc_expect c = Some ex \<longrightarrow> awaits_replies (lc_mode c) \<and> check_validate ex = Inr ())"

definition graphql_ok :: "'n load_config \<Rightarrow> bool" where
  "graphql_ok c \<longleftrightarrow> (lc_graphql_ws c \<noteq> None \<longleftrightarrow> lc_mode c = GraphQLWS) \<and>
     (\<forall>g. lc_graphql_ws c = Some g \<longrightarrow>
        trim (gw_operation g) \<noteq> [] \<and> opt_object (gw_variables g) \<and> opt_object (gw_extensions g))"

definition socketio_ok :: "'n env \<Rightarrow> 'n load_config \<Rightarrow> bool" where
  "socketio_ok env c \<longleftrightarrow> (lc_socketio c \<noteq> None \<longleftrightarrow> lc_mode c = SocketIo) \<and>
     (\<forall>s. lc_socketio c = Some s \<longrightarrow>
        sio_validate (env_json env) s = Inr () \<and>
        (\<exists>url. check_url url (sio_engine s) = Inr () \<and> lc_target_url c = socketio_url (sio_engine s) url) \<and>
        (\<forall>auth. sio_auth s = Some auth \<longrightarrow> check_auth (env_json env) (env_now_ms env) auth (lc_data c) = Inr ()))"

text \<open>Templates only read columns of the data file, and a header template gives a header value for each row.\<close>

definition templates_ok :: "'n env \<Rightarrow> 'n load_config \<Rightarrow> bool" where
  "templates_ok env c \<longleftrightarrow>
     (\<forall>t. payload_template (lc_payload c) = Some t \<longrightarrow> check_data t (lc_data c) = Inr ()) \<and>
     (\<forall>(name, t)\<in>set (lc_header_templates c). check_data t (lc_data c) = Inr () \<and>
        header_rows_ok env t (lc_data c) [0..<(case lc_data c of None \<Rightarrow> 1 | Some d \<Rightarrow> data_len d)] = Inr ())"

definition config_ok :: "'n env \<Rightarrow> 'n load_config \<Rightarrow> bool" where
  "config_ok env c \<longleftrightarrow>
     url_scheme (lc_target_url c) \<in> {''ws'', ''wss''} \<and> 1 \<le> lc_connections c \<and> lc_max_requests c \<noteq> Some 0 \<and>
     load_ok (lc_connections c) (lc_duration c) (lc_stages c) \<and> (lc_stages c \<noteq> [] \<longrightarrow> lc_ramp_rate c = 0) \<and>
     (\<forall>a. lc_arrivals c = Some a \<longrightarrow> arrivals_ok_for c a) \<and>
     slo_ok c \<and> replies_ok c \<and> graphql_ok c \<and> socketio_ok env c \<and> templates_ok env c \<and>
     distinct (lc_source_ips c) \<and> (\<forall>ip\<in>set (lc_source_ips c). \<not> env_is_unspecified env ip \<and> env_bind env ip) \<and>
     (\<forall>ch. lc_chaos c = Some ch \<longrightarrow> chaos_validate ch = Inr () \<and> is_active ch \<and> ch_seed ch \<noteq> None \<and>
        (acts_on_sends ch \<longrightarrow> awaits_replies (lc_mode c) \<or> lc_mode c = Stream))"

lemma sum_durations_Some:
  "sum_durations acc ss = Some d \<Longrightarrow> d = acc + total_duration ss"
proof (induction ss arbitrary: acc)
  case Nil
  then show ?case by (simp add: total_duration_def)
next
  case (Cons s ss)
  then have "sum_durations (acc + st_duration s) ss = Some d"
    by (auto simp: duration_add_def split: if_splits)
  from Cons.IH [OF this] show ?case by (simp add: total_duration_def)
qed

lemma build_load_ok:
  assumes "build_load b = Inr (conns, duration)"
  shows "load_ok conns duration (b_stages b)" "b_stages b \<noteq> [] \<Longrightarrow> b_ramp_rate b = 0"
    "b_arrivals b = Some a \<Longrightarrow> check_values a = Inr () \<and> b_stages b = [] \<and> b_ramp_rate b = 0 \<and> conns = expected_connections a"
  using assms by (auto simp: build_load_def load_ok_def and_then_Inr_iff validate_stages_def validate_arrivals_def
      dest: sum_durations_Some split: if_splits option.splits)

text \<open>A rate that \<open>Arrivals::check_values\<close> accepts.\<close>

lemma check_values_rate:
  assumes "check_values a = Inr ()"
  obtains q where "ar_rate a = Num q" "0 < q" "q \<le> 1000000"
  using assms by (cases "ar_rate a") (auto simp: check_values_def f64_le_def f64_eq_def MAX_ARRIVAL_RATE_def split: if_splits)

lemma check_values_session:
  "check_values a = Inr () \<Longrightarrow> 0 < ar_session_duration a \<and> ar_max_connections a \<noteq> Some 0"
  by (auto simp: check_values_def split: if_splits)

lemma expected_connections_pos: "0 < expected_connections a"
  using expected_connections_bounds [of a] by simp

lemma split_header_templates_checked:
  "split_header_templates env data hs = Inr (fixed, templates) \<Longrightarrow>
   \<forall>(name, t)\<in>set templates. check_data t data = Inr () \<and>
     header_rows_ok env t data [0..<(case data of None \<Rightarrow> 1 | Some d \<Rightarrow> data_len d)] = Inr ()"
proof (induction hs arbitrary: fixed templates)
  case (Cons h hs)
  obtain name v where h: "h = (name, v)" by fastforce
  show ?case
  proof (cases "header_template env v")
    case None
    with Cons show ?thesis by (auto simp: h and_then_Inr_iff)
  next
    case (Some t)
    with Cons.prems obtain rest where rest: "templates = (name, t) # rest" "split_header_templates env data hs = Inr (fixed, rest)"
      "check_data t data = Inr ()" "header_rows_ok env t data [0..<(case data of None \<Rightarrow> 1 | Some d \<Rightarrow> data_len d)] = Inr ()"
      by (auto simp: h and_then_Inr_iff)
    with Cons.IH [OF rest(2)] show ?thesis by simp
  qed
qed simp

lemma check_source_ips_ok:
  "check_source_ips env ips seen = Inr out \<Longrightarrow> distinct seen \<Longrightarrow>
   set seen \<subseteq> {ip. \<not> env_is_unspecified env ip \<and> env_bind env ip} \<Longrightarrow>
   distinct out \<and> set out \<subseteq> {ip. \<not> env_is_unspecified env ip \<and> env_bind env ip}"
proof (induction ips arbitrary: seen)
  case (Cons ip ips)
  show ?case
  proof (cases "ip \<in> set seen")
    case False
    with Cons.prems have "check_source_ips env ips (seen @ [ip]) = Inr out" "\<not> env_is_unspecified env ip" "env_bind env ip"
      by (auto simp: and_then_Inr_iff check_source_ip_def split: if_splits)
    then have step: "check_source_ips env ips (seen @ [ip]) = Inr out" "set (seen @ [ip]) \<subseteq> {ip. \<not> env_is_unspecified env ip \<and> env_bind env ip}"
      using Cons.prems(3) by auto
    show ?thesis by (rule Cons.IH [OF step(1) _ step(2)]) (use False Cons.prems(2) in simp)
  next
    case True
    with Cons.prems(1) have "check_source_ips env ips seen = Inr out" by simp
    then show ?thesis using Cons.prems(2,3) by (rule Cons.IH)
  qed
qed simp

lemma build_chaos_ok:
  assumes "build_chaos env b = Inr (Some ch)"
  shows "chaos_validate ch = Inr () \<and> is_active ch \<and> ch_seed ch \<noteq> None \<and>
     (acts_on_sends ch \<longrightarrow> awaits_replies (b_mode b) \<or> b_mode b = Stream)"
proof -
  obtain c where c: "chaos_validate c = Inr ()" "is_active c" "validate_chaos_mode c (b_mode b) False = Inr ()"
    "ch = seeded (env_time_seed env) c"
    using assms by (auto simp: build_chaos_def and_then_Inr_iff split: option.splits if_splits)
  have "chaos_validate ch = Inr ()" using c(1) by (simp add: c(4) chaos_validate_def seeded_def split: if_splits)
  moreover have "is_active ch" "acts_on_sends ch = acts_on_sends c" "ch_seed ch \<noteq> None"
    using c(2) by (simp_all add: c(4) is_active_def acts_on_sends_def pauses_reads_def seeded_def split: option.split)
  moreover have "acts_on_sends c \<longrightarrow> awaits_replies (b_mode b) \<or> b_mode b = Stream"
    using c(3) by (auto simp: validate_chaos_mode_def split: if_splits)
  ultimately show ?thesis by simp
qed

lemma build_checks_ok:
  assumes "build_checks env b sio = Inr (data, fixed, templates)"
  shows "validate_reply_match (b_reply_match b) (b_mode b) [b_payload b] = Inr ()"
    "validate_slo (b_slo b) (b_mode b) = Inr ()"
    "\<And>t. payload_template (b_payload b) = Some t \<Longrightarrow> check_data t data = Inr ()"
    "split_header_templates env data (b_headers b) = Inr (fixed, templates)"
    "b_invalid_header b = None"
    "\<And>s auth. sio = Some s \<Longrightarrow> sio_auth s = Some auth \<Longrightarrow> check_auth (env_json env) (env_now_ms env) auth data = Inr ()"
  using assms by (auto simp: build_checks_def and_then_Inr_iff split: option.splits)

definition pointer_ok :: "reply_match \<Rightarrow> bool" where
  "pointer_ok rm = (case rm of JsonPointer p \<Rightarrow> is_json_pointer p | _ \<Rightarrow> True)"

text \<open>\<open>build\<close> succeeds exactly when each of its steps does.\<close>

lemma build_Inr_iff:
  "build env b = Inr c \<longleftrightarrow> (\<exists>url conns duration gql sio data fixed templates ips ex ch.
     parse_target_url (env_url env) (b_target b) = Inr url \<and> build_load b = Inr (conns, duration) \<and>
     validate_connections conns = Inr () \<and> validate_max_requests (b_max_requests b) = Inr () \<and>
     pointer_ok (b_reply_match b) \<and> validate_graphql (b_mode b) (b_graphql b) = Inr gql \<and>
     sio_compile (env_json env) (b_socketio b) (b_mode b) url = Inr sio \<and>
     build_checks env b sio = Inr (data, fixed, templates) \<and>
     check_source_ips env (b_source_ips b) [] = Inr ips \<and> build_expect env b = Inr ex \<and>
     build_chaos env b = Inr ch \<and>
     c = assemble b url conns duration gql sio data fixed templates ips ex ch)"
proof -
  have unit: "(\<exists>u::unit. P u) \<longleftrightarrow> P ()" for P by (metis (full_types) old.unit.exhaust)
  have pointer: "(case b_reply_match b of
      JsonPointer pointer \<Rightarrow> (if is_json_pointer pointer then Inr () else Inl (UnsupportedOption pointer))
    | _ \<Rightarrow> Inr ()) = Inr () \<longleftrightarrow> pointer_ok (b_reply_match b)"
    by (cases "b_reply_match b") (simp_all add: pointer_ok_def)
  show ?thesis
    unfolding build_def build_rest_def result_rules map_err_Inr_iff split_paired_Ex case_prod_conv sum.inject unit pointer
    by blast
qed

lemma assemble_views:
  fixes b url conns duration gql sio data fixed templates ips ex ch
  defines "c \<equiv> assemble b url conns duration gql sio data fixed templates ips ex ch"
  shows "lc_connections c = conns" "lc_duration c = duration" "lc_stages c = b_stages b"
    "lc_max_requests c = b_max_requests b" "lc_payload c = b_payload b" "lc_header_templates c = templates"
    "lc_data c = data" "lc_source_ips c = ips" "lc_mode c = b_mode b" "lc_slo c = b_slo b"
    "lc_reply_match c = b_reply_match b" "lc_expect c = ex" "lc_chaos c = ch" "lc_ramp_rate c = b_ramp_rate b"
    "lc_arrivals c = b_arrivals b" "lc_graphql_ws c = gql" "lc_socketio c = sio"
    "lc_target_url c = (case sio of None \<Rightarrow> url | Some s \<Rightarrow> socketio_url (sio_engine s) url)"
  by (simp_all add: c_def assemble_def)

lemma build_graphql_ok:
  "validate_graphql mode o' = Inr gql \<Longrightarrow> (gql \<noteq> None \<longleftrightarrow> mode = GraphQLWS) \<and>
     (\<forall>g. gql = Some g \<longrightarrow> trim (gw_operation g) \<noteq> [] \<and> opt_object (gw_variables g) \<and> opt_object (gw_extensions g))"
  by (auto simp: validate_graphql_def Let_def split: if_splits option.splits)

lemma build_socketio_ok:
  "sio_compile sj o' mode url = Inr sio \<Longrightarrow> (sio \<noteq> None \<longleftrightarrow> mode = SocketIo) \<and>
     (\<forall>s. sio = Some s \<longrightarrow> sio_validate sj s = Inr () \<and> check_url url (sio_engine s) = Inr ())"
  by (auto simp: sio_compile_def Let_def and_then_Inr_iff split: if_splits option.splits)

lemma parse_flag_valid: "parse_flag sj spec = Inr ex \<Longrightarrow> check_validate ex = Inr ()"
  by (auto simp: parse_flag_def Let_def and_then_Inr_iff split: option.splits if_splits)

lemma build_expect_ok:
  "build_expect env b = Inr (Some ex) \<Longrightarrow> awaits_replies (b_mode b) \<and> check_validate ex = Inr ()"
  by (auto simp: build_expect_def and_then_Inr_iff transpose_opt_def dest: parse_flag_valid split: if_splits option.splits)

lemma validate_slo_ok:
  assumes "validate_slo slo mode = Inr ()"
  shows "has_latency slo \<longrightarrow> awaits_replies mode" "max_error_rate slo = Some r \<Longrightarrow> \<exists>q. r = Num q \<and> 0 \<le> q \<and> q \<le> 1"
  using assms by (cases r; auto simp: validate_slo_def validate_latency_mode_def validate_error_rate_def in_unit_range_def
      f64_le_def f64_eq_def and_then_Inr_iff split: if_splits)+

lemma build_config_ok:
  assumes "build env b = Inr c"
  shows "config_ok env c"
proof -
  from assms obtain url conns duration gql sio data fixed templates ips exp ch
    where u: "parse_target_url (env_url env) (b_target b) = Inr url"
    and load: "build_load b = Inr (conns, duration)" and n: "validate_connections conns = Inr ()"
      "validate_max_requests (b_max_requests b) = Inr ()" and ptr: "pointer_ok (b_reply_match b)"
    and gql: "validate_graphql (b_mode b) (b_graphql b) = Inr gql"
    and sio: "sio_compile (env_json env) (b_socketio b) (b_mode b) url = Inr sio"
    and checks: "build_checks env b sio = Inr (data, fixed, templates)"
    and ips: "check_source_ips env (b_source_ips b) [] = Inr ips" and exp: "build_expect env b = Inr exp"
    and ch: "build_chaos env b = Inr ch"
    and c: "c = assemble b url conns duration gql sio data fixed templates ips exp ch"
    unfolding build_Inr_iff by blast
  note same = assemble_views [of b url conns duration gql sio data fixed templates ips exp ch, folded c]
  have scheme: "url_scheme (socketio_url e u) = url_scheme u" for e u by (simp add: socketio_url_def Let_def)
  have "url_scheme (lc_target_url c) \<in> {''ws'', ''wss''}"
    using u same scheme by (auto simp: parse_target_url_def split: option.splits if_splits)
  moreover have "1 \<le> lc_connections c" "lc_max_requests c \<noteq> Some 0"
    using n same by (auto simp: validate_connections_def validate_max_requests_def split: if_splits)
  moreover have "load_ok (lc_connections c) (lc_duration c) (lc_stages c)" "lc_stages c \<noteq> [] \<longrightarrow> lc_ramp_rate c = 0"
    using build_load_ok [OF load] same by simp_all
  moreover have "\<forall>a. lc_arrivals c = Some a \<longrightarrow> arrivals_ok_for c a"
    using build_load_ok(3) [OF load] same
    by (auto simp: arrivals_ok_for_def check_values_session elim: check_values_rate)
  moreover have "slo_ok c" using validate_slo_ok [OF build_checks_ok(2) [OF checks]] same by (simp add: slo_ok_def)
  moreover have "replies_ok c"
    using build_checks_ok(1) [OF checks] ptr exp build_expect_ok [of env b] same
    by (auto simp: replies_ok_def validate_reply_match_def pointer_ok_def split: if_splits)
  moreover have "graphql_ok c" using build_graphql_ok [OF gql] same by (simp add: graphql_ok_def)
  moreover have "socketio_ok env c"
    using build_socketio_ok [OF sio] build_checks_ok(6) [OF checks] same by (auto simp: socketio_ok_def)
  moreover have "templates_ok env c"
    using build_checks_ok(3) [OF checks] split_header_templates_checked [OF build_checks_ok(4) [OF checks]] same
    by (simp add: templates_ok_def)
  moreover have "distinct (lc_source_ips c)" "\<forall>ip\<in>set (lc_source_ips c). \<not> env_is_unspecified env ip \<and> env_bind env ip"
    using check_source_ips_ok [OF ips] same by auto
  moreover have "\<forall>ch. lc_chaos c = Some ch \<longrightarrow> chaos_validate ch = Inr () \<and> is_active ch \<and> ch_seed ch \<noteq> None \<and>
      (acts_on_sends ch \<longrightarrow> awaits_replies (lc_mode c) \<or> lc_mode c = Stream)"
    using ch build_chaos_ok [of env b] same by auto
  ultimately show ?thesis unfolding config_ok_def by blast
qed

lemma build_header_ok: "build env b = Inr c \<Longrightarrow> b_invalid_header b = None"
  unfolding build_Inr_iff by (blast dest: build_checks_ok(5))

text \<open>C15: every configuration \<open>build\<close> accepts has passed each of its checks, whatever the builder was given: a
  \<open>ws\<close> or \<open>wss\<close> target, at least one connection and one request, a duration and connection count that agree
  with the stage profile, arrivals with a rate in range, sessions that last, room for one and no stages or
  ramp rate beside them, an error rate objective within 0 and 1, latency objectives, reply checks and reply
  matching only in a mode that can meet them and by well-formed pointers, GraphQL and Socket.IO settings
  exactly in their modes and valid there, payload, header and auth templates that only read columns the data
  file has and give valid values for every row, no header that failed to parse, distinct source addresses
  that can be bound, and chaos settings that are in range, do something the mode allows and have a seed.\<close>

theorem built_config_valid:
  assumes "build env b = Inr c"
  shows "config_ok env c \<and> b_invalid_header b = None"
  using build_config_ok [OF assms] build_header_ok [OF assms] by (rule conjI)

definition sample_env :: "nat env" where
  "sample_env = \<lparr>env_json = no_json,
     env_url = (\<lambda>s. Some \<lparr>url_scheme = ''ws'', url_path = s, url_query = []\<rparr>),
     env_url_to_string = url_path, env_header_name = Some, env_header_to_str = Some, env_header_value = Some, env_metadata = (\<lambda>_. Inl []), env_read = (\<lambda>_. Inl []),
     env_is_unspecified = (\<lambda>_. False), env_bind = (\<lambda>_. True), env_time_seed = 7, env_now_ms = 0\<rparr>"

text \<open>The builder as \<open>LoadTestConfig::builder\<close> starts it, with a stage profile.\<close>

definition sample_builder :: "stage list \<Rightarrow> nat builder" where
  "sample_builder stages =
     \<lparr>b_target = ''/'', b_connections = 50, b_ramp_rate = 0, b_duration = 10000000000, b_stages = stages,
      b_arrivals = None, b_max_requests = Some 9, b_rate_per_conn = 0, b_payload = StaticText ''ping'',
      b_headers = [], b_invalid_header = None, b_data = None, b_subprotocol = None,
      b_source_ips = [''10.0.0.1'', ''10.0.0.2'', ''10.0.0.1''], b_compression = False, b_mode = Echo,
      b_connect_timeout = 5000000000, b_message_timeout = 5000000000, b_ping_interval = 0,
      b_graphql = \<lparr>gql_operation = None, gql_operation_name = None, gql_variables = None, gql_extensions = None\<rparr>,
      b_socketio = \<lparr>so_event = None, so_namespace = None, so_auth = None, so_version = None\<rparr>,
      b_slo = slo_none, b_output_format = Out_Text, b_progress = True, b_reconnect = True,
      b_reply_match = Exact, b_expect = None, b_capture = None, b_capture_limit = 0,
      b_chaos = Some (chaos_new\<lparr>ch_delay := 5\<rparr>)\<rparr>"

lemmas build_defs = build_def build_load_def build_rest_def assemble_def build_checks_def build_data_def build_expect_def
  build_chaos_def validate_stages_def validate_connections_def validate_max_requests_def validate_graphql_def
  sio_compile_def validate_reply_match_def validate_slo_def validate_error_rate_def validate_latency_mode_def
  parse_target_url_def check_source_ip_def transpose_opt_def

lemma of_exact_0: "of_exact 0 = Num 0"
  using of_exact_bounded [of 0 0 1] round_f64_exact [OF f64.exact_0] by simp

lemma sample_chaos:
  "chaos_validate (chaos_new\<lparr>ch_delay := 5\<rparr>) = Inr ()" "is_active (chaos_new\<lparr>ch_delay := 5\<rparr>)"
  "validate_chaos_mode (chaos_new\<lparr>ch_delay := 5\<rparr>) Echo False = Inr ()"
  by (simp_all add: chaos_validate_def chaos_new_def is_active_def acts_on_sends_def validate_chaos_mode_def
      awaits_replies_def in_percent_range_def of_exact_0 f64_le_def f64_eq_def)

lemma sample_build:
  "\<exists>c. build sample_env (sample_builder [\<lparr>st_duration = 30000000000, st_target = 100\<rparr>, \<lparr>st_duration = 7, st_target = 40\<rparr>])
     = Inr c \<and> lc_source_ips c = [''10.0.0.1'', ''10.0.0.2''] \<and> lc_connections c = 100"
  by (simp add: build_defs sample_builder_def sample_env_def slo_none_def has_latency_def max_target_def
      duration_add_def sample_chaos)

theorem built_config_valid_witness:
  "\<exists>c. build sample_env (sample_builder [\<lparr>st_duration = 30000000000, st_target = 100\<rparr>, \<lparr>st_duration = 7, st_target = 40\<rparr>])
     = Inr c \<and> config_ok sample_env c \<and> lc_connections c = 100"
  using sample_build built_config_valid by blast

text \<open>The \<open>--reply-match\<close> flag is read back exactly: a flag is accepted precisely when it is the printed form
  of a rule whose JSON pointer is well formed, and it then gives that rule.\<close>

theorem reply_match_roundtrip:
  "reply_match_from_str raw = Inr rm \<longleftrightarrow>
   reply_flag_value rm = raw \<and> (\<forall>p. rm = JsonPointer p \<longrightarrow> is_json_pointer p)"
proof (cases rm)
  case First
  then show ?thesis by (auto simp: reply_match_from_str_def split: option.split)
next
  case Exact
  then show ?thesis by (auto simp: reply_match_from_str_def split: option.split)
next
  case (JsonPointer p)
  have "strip_prefix ''json:'' raw = Some p \<longleftrightarrow> ''json:'' @ p = raw" by (auto simp: strip_prefix_Some_iff)
  moreover have "raw \<noteq> ''first''" "raw \<noteq> ''exact''" if "''json:'' @ p = raw" using that by auto
  ultimately show ?thesis using JsonPointer
    by (cases "strip_prefix ''json:'' raw") (auto simp: reply_match_from_str_def)
qed

theorem reply_match_roundtrip_witness:
  "reply_match_from_str ''json:/a/~1b'' = Inr (JsonPointer ''/a/~1b'')"
  using reply_match_roundtrip [of "''json:/a/~1b''" "JsonPointer ''/a/~1b''"] by (simp add: is_json_pointer_def)

text \<open>Objectives given on the command line win over those of a file, which win over those of a further source:
  the order of merging does not matter, and a merged setting is the first one given.\<close>

lemma slo_or_from_assoc:
  "or_from (or_from a b) c = or_from a (or_from b c) \<and> or_from a a = a \<and> or_from slo_none a = a \<and>
   or_from a slo_none = a"
  by (cases a) (auto simp: or_from_def or_else_def slo_none_def split: option.split)

lemma sum_durations_None_iff:
  "acc \<le> duration_max \<Longrightarrow> sum_durations acc ss = None \<longleftrightarrow> duration_max < acc + total_duration ss"
proof (induction ss arbitrary: acc)
  case (Cons s ss)
  show ?case
  proof (cases "acc + st_duration s \<le> duration_max")
    case True
    then show ?thesis using Cons.IH [of "acc + st_duration s"] by (simp add: duration_add_def total_duration_def add.assoc)
  qed (simp add: duration_add_def total_duration_def)
qed (simp add: total_duration_def)

lemma map_err_Rejected [simp]: "map_err Rejected r \<noteq> Inl Panicked"
  by (cases r) (simp_all add: map_err_def)

text \<open>C39: exactly when \<open>build\<close> panics instead of returning: the target parses, there is no arrival model, the
  stages pass \<open>validate_stages\<close> one by one, and their durations add up to more than a \<open>Duration\<close> holds. On
  every other input \<open>build\<close> returns a configuration or an error.\<close>

theorem build_panics_on_stage_overflow:
  "build env b = Inl Panicked \<longleftrightarrow>
     (\<exists>url. parse_target_url (env_url env) (b_target b) = Inr url) \<and> b_arrivals b = None \<and> b_stages b \<noteq> [] \<and>
     validate_stages (b_stages b) (b_ramp_rate b) = Inr () \<and> duration_max < total_duration (b_stages b)"
proof -
  have "build_load b = Inl Panicked \<longleftrightarrow> b_arrivals b = None \<and> b_stages b \<noteq> [] \<and>
      validate_stages (b_stages b) (b_ramp_rate b) = Inr () \<and> duration_max < total_duration (b_stages b)"
    using sum_durations_None_iff [of 0 "b_stages b"]
    by (auto simp: build_load_def validate_arrivals_def and_then_def map_err_def split: option.splits sum.splits if_splits)
  then show ?thesis
    by (auto simp: build_def and_then_def split: sum.splits)
qed

theorem build_panics_on_stage_overflow_witness:
  "build sample_env (sample_builder
     [\<lparr>st_duration = from_secs u64_max, st_target = 1\<rparr>, \<lparr>st_duration = from_secs 1, st_target = 1\<rparr>]) = Inl Panicked"
  unfolding build_panics_on_stage_overflow
  by (simp add: sample_builder_def sample_env_def parse_target_url_def validate_stages_def total_duration_def from_secs_def)

end
