(* ===== verification/Slo.thy ===== *)
theory Slo
  imports Run_Report Load_Config
begin

text \<open>
  How a report judges a run, \<open>src/report.rs\<close>: \<open>evaluate_slos\<close> checks every configured threshold,
  \<open>with_action_slos\<close> adds those of named scenario actions and \<open>scenario_slo_evaluation\<close> combines a scenario with
  its phases. A check keeps the threshold and the measured value in place of their formatted text.
\<close>

section \<open>Checks\<close>

datatype slo_target = At_most_duration duration | At_most_share f64 | At_least f64

datatype slo_actual = Measured duration | Measured_share f64 | Measured_rate f64 | No_rtt_samples | No_lag_samples | No_messages

record slo_check =
  sc_name :: string
  sc_target :: slo_target
  sc_actual :: slo_actual
  sc_passed :: bool

record slo_evaluation =
  se_passed :: bool
  se_checks :: "slo_check list"

definition latency_check :: "string \<Rightarrow> duration \<Rightarrow> duration \<Rightarrow> u64 \<Rightarrow> slo_check" where
  "latency_check name target actual samples =
     (if samples = 0
      then \<lparr>sc_name = name, sc_target = At_most_duration target, sc_actual = No_rtt_samples, sc_passed = False\<rparr>
      else \<lparr>sc_name = name, sc_target = At_most_duration target, sc_actual = Measured actual,
             sc_passed = (actual \<le> target)\<rparr>)"

text \<open>Adding a check: \<open>all_passed &= check.passed; checks.push(check)\<close>.\<close>

definition push_check :: "slo_check \<Rightarrow> slo_evaluation \<Rightarrow> slo_evaluation" where
  "push_check c e = \<lparr>se_passed = (se_passed e \<and> sc_passed c), se_checks = se_checks e @ [c]\<rparr>"

text \<open>The loop over the latency targets of a distribution with \<open>samples\<close> samples; an unset one is skipped.\<close>

fun latency_targets ::
    "u64 \<Rightarrow> (string \<times> duration option \<times> duration) list \<Rightarrow> slo_evaluation \<Rightarrow> slo_evaluation" where
  "latency_targets samples [] e = e"
| "latency_targets samples ((name, target, actual) # rest) e =
     (case target of
        None \<Rightarrow> latency_targets samples rest e
      | Some target \<Rightarrow> latency_targets samples rest (push_check (latency_check name target actual samples) e))"

definition targets_of :: "slo_thresholds \<Rightarrow> latency_stats \<Rightarrow> string list \<Rightarrow> (string \<times> duration option \<times> duration) list" where
  "targets_of slo s names =
     zip names [(max_p50 slo, from_micros (ls_p50_us s)), (max_p95 slo, from_micros (ls_p95_us s)),
       (max_p99 slo, from_micros (ls_p99_us s)), (max_p999 slo, from_micros (ls_p999_us s))]"

definition gating_latency :: "aggregated_metrics \<Rightarrow> latency_stats \<times> string list" where
  "gating_latency m =
     (if ls_count (m_response m) > 0
      then (m_response m, [''Response time p50'', ''Response time p95'', ''Response time p99'', ''Response time p99.9''])
      else (m_rtt m, [''Latency p50'', ''Latency p95'', ''Latency p99'', ''Latency p99.9'']))"

definition error_rate_check :: "f64 option \<Rightarrow> aggregated_metrics \<Rightarrow> slo_evaluation \<Rightarrow> slo_evaluation" where
  "error_rate_check max_err m e =
     (case max_err of
        None \<Rightarrow> e
      | Some r \<Rightarrow> push_check \<lparr>sc_name = ''Error Rate'', sc_target = At_most_share r,
          sc_actual = Measured_share (m_error_rate m), sc_passed = f64_le (m_error_rate m) r\<rparr> e)"

definition generator_lag_check :: "duration option \<Rightarrow> aggregated_metrics \<Rightarrow> slo_evaluation \<Rightarrow> slo_evaluation" where
  "generator_lag_check max_lag m e =
     (case max_lag of
        None \<Rightarrow> e
      | Some d \<Rightarrow>
          push_check (case m_generator_lag m of
              Some lag \<Rightarrow> \<lparr>sc_name = ''Generator lag p99'', sc_target = At_most_duration d,
                sc_actual = Measured (from_micros (gl_p99_us lag)), sc_passed = (from_micros (gl_p99_us lag) \<le> d)\<rparr>
            | None \<Rightarrow> \<lparr>sc_name = ''Generator lag p99'', sc_target = At_most_duration d,
                sc_actual = No_lag_samples, sc_passed = False\<rparr>) e)"

definition throughput_check :: "f64 option \<Rightarrow> aggregated_metrics \<Rightarrow> slo_evaluation \<Rightarrow> slo_evaluation" where
  "throughput_check min_tput m e =
     (case min_tput of
        None \<Rightarrow> e
      | Some r \<Rightarrow> push_check \<lparr>sc_name = ''Throughput (msg/s)'', sc_target = At_least r,
          sc_actual = Measured_rate (m_throughput_msg m), sc_passed = f64_le r (m_throughput_msg m)\<rparr> e)"

definition evaluate_slos :: "slo_thresholds \<Rightarrow> aggregated_metrics \<Rightarrow> slo_evaluation" where
  "evaluate_slos slo m =
     (case gating_latency m of (rtt, names) \<Rightarrow>
        throughput_check (min_throughput slo) m
          (generator_lag_check (max_generator_lag slo) m
            (error_rate_check (max_error_rate slo) m
              (latency_targets (ls_count rtt) (targets_of slo rtt names) \<lparr>se_passed = True, se_checks = []\<rparr>))))"

section \<open>Scenarios and actions\<close>

definition scenario_slo_evaluation :: "slo_evaluation \<Rightarrow> (string \<times> slo_evaluation) list \<Rightarrow> slo_evaluation" where
  "scenario_slo_evaluation overall phases =
     fold (\<lambda>(name, e) combined. \<lparr>se_passed = (se_passed combined \<and> se_passed e),
         se_checks = se_checks combined @ map (\<lambda>c. c\<lparr>sc_name := name @ '': '' @ sc_name c\<rparr>) (se_checks e)\<rparr>)
       phases overall"

definition action_slo :: "aggregated_metrics \<Rightarrow> string \<times> slo_thresholds \<Rightarrow> slo_evaluation \<Rightarrow> slo_evaluation" where
  "action_slo m ns e =
     (let (name, slo) = ns;
          action = find (\<lambda>a. am_name a = name) (m_actions m);
          stats = (case action of None \<Rightarrow> latency_stats_zero | Some a \<Rightarrow> action_latency_of a);
          basis = (if ls_count stats > 0 \<and> (\<exists>a\<in>set_option action. ls_count (am_response_time a) > 0)
                   then ''response time'' else ''latency'');
          label = (\<lambda>p. ''Action '' @ name @ '': '' @ basis @ '' '' @ p);
          e = latency_targets (ls_count stats) (targets_of slo stats (map label [''p50'', ''p95'', ''p99'', ''p99.9''])) e
      in case max_error_rate slo of
           None \<Rightarrow> e
         | Some r \<Rightarrow>
             (let failed = \<lparr>sc_name = ''Action '' @ name @ '': error rate'', sc_target = At_most_share r,
                    sc_actual = No_messages, sc_passed = False\<rparr>
              in push_check (case action of
                     None \<Rightarrow> failed
                   | Some a \<Rightarrow>
                       (if am_messages_sent a > 0 \<or> am_errors a > 0
                        then failed\<lparr>sc_actual := Measured_share (am_error_rate a), sc_passed := f64_le (am_error_rate a) r\<rparr>
                        else failed)) e))"

definition with_action_slos :: "slo_evaluation \<Rightarrow> (string \<times> slo_thresholds) list \<Rightarrow> aggregated_metrics \<Rightarrow> slo_evaluation" where
  "with_action_slos e slos m = fold (action_slo m) slos e"

section \<open>What an evaluation says\<close>

text \<open>The verdict of an evaluation is that of its checks.\<close>

definition verdict_ok :: "slo_evaluation \<Rightarrow> bool" where
  "verdict_ok e \<longleftrightarrow> se_passed e = (\<forall>c\<in>set (se_checks e). sc_passed c)"

lemma push_check_verdict [simp]: "verdict_ok e \<Longrightarrow> verdict_ok (push_check c e)"
  by (auto simp: verdict_ok_def push_check_def)

lemma latency_targets_verdict [simp]: "verdict_ok e \<Longrightarrow> verdict_ok (latency_targets n ts e)"
  by (induction n ts e rule: latency_targets.induct) (simp_all split: option.split)

lemma push_check_passed: "se_passed (push_check c e) \<longleftrightarrow> se_passed e \<and> sc_passed c"
  by (simp add: push_check_def)

lemma latency_targets_passed:
  "se_passed (latency_targets n ts e) \<longleftrightarrow>
   se_passed e \<and> (\<forall>(name, target, actual)\<in>set ts. \<forall>t. target = Some t \<longrightarrow> n \<noteq> 0 \<and> actual \<le> t)"
  by (induction n ts e rule: latency_targets.induct)
    (auto simp: push_check_passed latency_check_def split: option.split)

lemma evaluate_slos_verdict: "verdict_ok (evaluate_slos slo m)"
  by (auto simp: evaluate_slos_def gating_latency_def throughput_check_def generator_lag_check_def error_rate_check_def
      split: option.split intro!: push_check_verdict latency_targets_verdict) (simp_all add: verdict_ok_def)

lemma scenario_passed:
  "se_passed (scenario_slo_evaluation overall phases) \<longleftrightarrow> se_passed overall \<and> (\<forall>p\<in>set phases. se_passed (snd p))"
  unfolding scenario_slo_evaluation_def by (induction phases arbitrary: overall) auto

text \<open>When an action's thresholds are met.\<close>

definition action_meets :: "aggregated_metrics \<Rightarrow> string \<times> slo_thresholds \<Rightarrow> bool" where
  "action_meets m ns \<longleftrightarrow>
     (let action = find (\<lambda>a. am_name a = fst ns) (m_actions m);
          s = (case action of None \<Rightarrow> latency_stats_zero | Some a \<Rightarrow> action_latency_of a);
          slo = snd ns
      in pred_option (\<lambda>t. ls_count s \<noteq> 0 \<and> from_micros (ls_p50_us s) \<le> t) (max_p50 slo) \<and>
         pred_option (\<lambda>t. ls_count s \<noteq> 0 \<and> from_micros (ls_p95_us s) \<le> t) (max_p95 slo) \<and>
         pred_option (\<lambda>t. ls_count s \<noteq> 0 \<and> from_micros (ls_p99_us s) \<le> t) (max_p99 slo) \<and>
         pred_option (\<lambda>t. ls_count s \<noteq> 0 \<and> from_micros (ls_p999_us s) \<le> t) (max_p999 slo) \<and>
         pred_option (\<lambda>r. \<exists>a. action = Some a \<and> (am_messages_sent a > 0 \<or> am_errors a > 0) \<and> f64_le (am_error_rate a) r)
           (max_error_rate slo))"

lemma targets_of_met:
  "length names = 4 \<Longrightarrow>
   (\<forall>(name, target, actual)\<in>set (targets_of slo s names). \<forall>t. target = Some t \<longrightarrow> n \<noteq> 0 \<and> actual \<le> t) \<longleftrightarrow>
   pred_option (\<lambda>t. n \<noteq> 0 \<and> from_micros (ls_p50_us s) \<le> t) (max_p50 slo) \<and>
   pred_option (\<lambda>t. n \<noteq> 0 \<and> from_micros (ls_p95_us s) \<le> t) (max_p95 slo) \<and>
   pred_option (\<lambda>t. n \<noteq> 0 \<and> from_micros (ls_p99_us s) \<le> t) (max_p99 slo) \<and>
   pred_option (\<lambda>t. n \<noteq> 0 \<and> from_micros (ls_p999_us s) \<le> t) (max_p999 slo)"
proof -
  assume "length names = 4"
  then obtain a b c d where "names = [a, b, c, d]" by (auto simp: length_Suc_conv numeral_eq_Suc)
  then show ?thesis by (auto simp: targets_of_def pred_option_def)
qed

lemma action_slo_passed: "se_passed (action_slo m ns e) \<longleftrightarrow> se_passed e \<and> action_meets m ns"
  by (cases ns)
    (auto simp: action_slo_def action_meets_def Let_def push_check_passed latency_targets_passed targets_of_met pred_option_def
      split: option.splits)

lemma action_slos_passed:
  "se_passed (with_action_slos e slos m) \<longleftrightarrow> se_passed e \<and> (\<forall>ns\<in>set slos. action_meets m ns)"
  unfolding with_action_slos_def by (induction slos arbitrary: e) (auto simp: action_slo_passed)

section \<open>Properties\<close>

text \<open>C12: the gate of a run is exact. A run passes when, and only when, every threshold that was set is met
  (inclusively): each latency percentile, of response time when the run recorded it and of round trips
  otherwise, which never passes without a sample, the error rate, the generator lag, which never passes
  without a measurement, and the throughput; and the verdict is that of the checks the report lists.\<close>

theorem slo_gate_exact:
  "se_passed (evaluate_slos slo m) =
     (let s = (if ls_count (m_response m) > 0 then m_response m else m_rtt m)
      in pred_option (\<lambda>t. ls_count s \<noteq> 0 \<and> from_micros (ls_p50_us s) \<le> t) (max_p50 slo) \<and>
         pred_option (\<lambda>t. ls_count s \<noteq> 0 \<and> from_micros (ls_p95_us s) \<le> t) (max_p95 slo) \<and>
         pred_option (\<lambda>t. ls_count s \<noteq> 0 \<and> from_micros (ls_p99_us s) \<le> t) (max_p99 slo) \<and>
         pred_option (\<lambda>t. ls_count s \<noteq> 0 \<and> from_micros (ls_p999_us s) \<le> t) (max_p999 slo) \<and>
         pred_option (f64_le (m_error_rate m)) (max_error_rate slo) \<and>
         pred_option (\<lambda>d. \<exists>lag. m_generator_lag m = Some lag \<and> from_micros (gl_p99_us lag) \<le> d) (max_generator_lag slo) \<and>
         pred_option (\<lambda>r. f64_le r (m_throughput_msg m)) (min_throughput slo)) \<and>
   se_passed (evaluate_slos slo m) = list_all sc_passed (se_checks (evaluate_slos slo m))"
proof
  show "se_passed (evaluate_slos slo m) = list_all sc_passed (se_checks (evaluate_slos slo m))"
    using evaluate_slos_verdict [of slo m] by (simp add: verdict_ok_def list_all_iff)
qed (auto simp: evaluate_slos_def gating_latency_def Let_def throughput_check_def generator_lag_check_def error_rate_check_def
    push_check_passed latency_targets_passed targets_of_met pred_option_def split: option.splits if_splits)

text \<open>The gate of a scenario is exact. It passes when, and only when, the whole scenario passed, every phase
  passed and every named action met its own thresholds, so an action with a threshold that no phase
  recorded anything for fails the scenario.\<close>

theorem scenario_gate_exact:
  "se_passed (with_action_slos (scenario_slo_evaluation overall phases) slos m) =
     (se_passed overall \<and> list_all (\<lambda>p. se_passed (snd p)) phases \<and> list_all (action_meets m) slos) \<and>
   (find (\<lambda>a. am_name a = name) (m_actions m) = None \<and> (name, slo) \<in> set slos \<and>
      (has_latency slo \<or> max_error_rate slo \<noteq> None) \<longrightarrow>
    \<not> se_passed (with_action_slos (scenario_slo_evaluation overall phases) slos m))"
proof
  show "se_passed (with_action_slos (scenario_slo_evaluation overall phases) slos m) =
     (se_passed overall \<and> list_all (\<lambda>p. se_passed (snd p)) phases \<and> list_all (action_meets m) slos)"
    by (auto simp: action_slos_passed scenario_passed list_all_iff)
next
  have "\<not> action_meets m (name, slo)"
    if "find (\<lambda>a. am_name a = name) (m_actions m) = None" "has_latency slo \<or> max_error_rate slo \<noteq> None"
    using that by (auto simp: action_meets_def has_latency_def latency_stats_zero_def Let_def)
  then show "find (\<lambda>a. am_name a = name) (m_actions m) = None \<and> (name, slo) \<in> set slos \<and>
      (has_latency slo \<or> max_error_rate slo \<noteq> None) \<longrightarrow>
    \<not> se_passed (with_action_slos (scenario_slo_evaluation overall phases) slos m)"
    by (auto simp: action_slos_passed)
qed

theorem scenario_gate_exact_witness:
  "\<exists>m. m_actions m = [] \<and> \<not> se_passed (with_action_slos (scenario_slo_evaluation (evaluate_slos slo_none m) [])
     [(''login'', slo_none\<lparr>max_error_rate := Some (Num 0)\<rparr>)] m)"
proof -
  obtain t where t: "totals_new values_hdr = Some t" by (simp add: totals_new_def latency_histogram_def)
  let ?m = "totals_finish values_hdr 1 1 t"
  have m: "m_actions ?m = []"
    using t by (auto simp: totals_new_def totals_finish_def Let_def sorted_list_of_fset.rep_eq split: option.splits)
  then show ?thesis
    using scenario_gate_exact [where overall = "evaluate_slos slo_none ?m" and phases = "[]" and m = ?m and name = "''login''"
        and slo = "slo_none\<lparr>max_error_rate := Some (Num 0)\<rparr>" and slos = "[(''login'', slo_none\<lparr>max_error_rate := Some (Num 0)\<rparr>)]"]
    by (intro exI [of _ ?m]) auto
qed

end
