(* ===== verification/Compare.thy ===== *)
theory Compare
  imports Slo Human_Duration
begin

text \<open>
  Comparing two reports (\<open>--compare\<close>): the time-series metrics of \<open>src/series_compare.rs\<close> with their window, and
  the scoring of \<open>src/report.rs\<close> (\<open>metrics_to_map\<close>, \<open>metric_direction\<close>, \<open>compare_metrics_in\<close>). A \<open>BTreeMap\<close> of
  metrics is an \<open>fmap\<close> read in name order.
\<close>

section \<open>Square roots\<close>

text \<open>The integer square root, and \<open>f64::sqrt\<close>: the root to at least 56 bits, with a sticky bit, rounded once.\<close>

fun nat_sqrt :: "nat \<Rightarrow> nat" where
  "nat_sqrt n = (if n = 0 then 0 else let r = 2 * nat_sqrt (n div 4) in if (r + 1) * (r + 1) \<le> n then r + 1 else r)"

declare nat_sqrt.simps [simp del]

fun f64_sqrt :: "f64 \<Rightarrow> f64" where
  "f64_sqrt (Num x) =
     (if x < 0 then NaN else if x = 0 then Num 0
      else (let k = 56 - ilog2 x div 2;
                scaled = x * 2 powi (2 * k);
                n = nat \<lfloor>scaled\<rfloor>;
                r = nat_sqrt n;
                sticky = (if of_nat (r * r) = scaled then 0 else 1 / 2)
            in of_exact ((of_nat r + sticky) / 2 powi k)))"
| "f64_sqrt PosInf = PosInf"
| "f64_sqrt NegInf = NaN"
| "f64_sqrt NaN = NaN"

definition f64_sum :: "f64 list \<Rightarrow> f64" where
  "f64_sum xs = fold (\<lambda>x s. f64_add s x) xs (Num 0)"

section \<open>The compare window\<close>

definition SERIES_PREFIX :: string where "SERIES_PREFIX = ''series.''"

definition EDGE_SLACK :: f64 where "EDGE_SLACK = f64_div (Num 1) (Num 20)"

record compare_window =
  cw_start :: "duration option"
  cw_end :: "duration option"

definition window_side :: "string \<Rightarrow> config_error + duration option" where
  "window_side txt =
     (let txt = trim txt
      in if txt = [] then Inr None
         else (case parse_human_duration txt of
             Inl _ \<Rightarrow> Inl (InvalidOption ''--compare-window'')
           | Inr d \<Rightarrow> Inr (Some d)))"

definition window_parse :: "string \<Rightarrow> config_error + compare_window" where
  "window_parse raw =
     (case split_once ''..'' (trim raw) of
        None \<Rightarrow> Inl (InvalidOption ''--compare-window'')
      | Some (start, stop) \<Rightarrow>
          and_then (window_side start) (\<lambda>start.
          and_then (window_side stop) (\<lambda>stop.
            case stop of
              None \<Rightarrow> (if start = None then Inl (InvalidOption ''--compare-window'')
                       else Inr \<lparr>cw_start = start, cw_end = None\<rparr>)
            | Some e \<Rightarrow> (if (case start of None \<Rightarrow> 0 | Some s \<Rightarrow> s) \<ge> e then Inl (InvalidOption ''--compare-window'')
                         else Inr \<lparr>cw_start = start, cw_end = Some e\<rparr>))))"

definition start_secs :: "compare_window \<Rightarrow> f64" where
  "start_secs w = (case cw_start w of None \<Rightarrow> Num 0 | Some d \<Rightarrow> as_secs_f64 d)"

definition end_secs :: "compare_window \<Rightarrow> f64" where
  "end_secs w = (case cw_end w of None \<Rightarrow> PosInf | Some d \<Rightarrow> as_secs_f64 d)"

definition window_contains :: "compare_window \<Rightarrow> series_point \<Rightarrow> f64 \<Rightarrow> bool" where
  "window_contains w p slack =
     (f64_le (f64_sub (start_secs w) slack) (tp_start_secs p) \<and>
      f64_le (f64_add (tp_start_secs p) (tp_duration_secs p)) (f64_add (end_secs w) slack))"

definition window_points :: "time_series \<Rightarrow> compare_window option \<Rightarrow> series_point list" where
  "window_points s w =
     (let slack = f64_mul (f64_max (ts_interval_secs s) (Num 0)) EDGE_SLACK
      in filter (\<lambda>p. case w of None \<Rightarrow> True | Some w \<Rightarrow> window_contains w p slack) (ts_points s))"

section \<open>Time-series metrics\<close>

record series_summary =
  ss_points :: nat
  ss_throughput_mean :: "f64 option"
  ss_throughput_cv :: "f64 option"
  ss_p99_median_us :: "f64 option"
  ss_p99_worst_us :: "f64 option"
  ss_error_intervals :: nat
  ss_max_interval_errors :: u64

definition median_of :: "nat list \<Rightarrow> f64 option" where
  "median_of p99s =
     (let n = length p99s
      in if n = 0 then None
         else if n mod 2 = 1 then Some (of_uint (p99s ! (n div 2)))
         else Some (f64_div (f64_add (of_uint (p99s ! (n div 2 - 1))) (of_uint (p99s ! (n div 2)))) (Num 2)))"

definition series_summary_of :: "time_series \<Rightarrow> compare_window option \<Rightarrow> series_summary" where
  "series_summary_of s w =
     (let points = window_points s w;
          min_full = f64_mul (ts_interval_secs s) (f64_sub (Num 1) EDGE_SLACK);
          full = map (\<lambda>p. (tp_throughput p, tp_duration_secs p))
            (filter (\<lambda>p. f64_le min_full (tp_duration_secs p) \<and> f64_lt (Num 0) (tp_duration_secs p)) points);
          total_secs = f64_sum (map snd full);
          mean = (if f64_lt (Num 0) total_secs
                  then Some (f64_div (f64_sum (map (\<lambda>(rate, secs). f64_mul rate secs) full)) total_secs) else None);
          cv = (case mean of
                  None \<Rightarrow> None
                | Some mean \<Rightarrow>
                    (if f64_lt (Num 0) mean \<and> length full \<ge> 2
                     then (let variance = f64_div (f64_sum (map (\<lambda>(rate, secs).
                                 f64_mul secs (f64_mul (f64_sub rate mean) (f64_sub rate mean))) full)) total_secs
                           in Some (f64_div (f64_sqrt variance) mean))
                     else None));
          p99s = sort (map (\<lambda>p. il_p99_us (tp_latency p)) (filter (\<lambda>p. il_count (tp_latency p) > 0) points))
      in \<lparr>ss_points = length points, ss_throughput_mean = mean, ss_throughput_cv = cv,
          ss_p99_median_us = median_of p99s,
          ss_p99_worst_us = (if p99s = [] then None else Some (of_uint (p99s ! (length p99s - 1)))),
          ss_error_intervals = length (filter (\<lambda>p. tp_errors p > 0) points),
          ss_max_interval_errors = fold max (map tp_errors points) 0\<rparr>)"

definition insert_opt :: "string \<Rightarrow> f64 option \<Rightarrow> (string, f64) fmap \<Rightarrow> (string, f64) fmap" where
  "insert_opt name x m = (case x of None \<Rightarrow> m | Some v \<Rightarrow> fmupd (SERIES_PREFIX @ name) v m)"

definition insert_into :: "series_summary \<Rightarrow> (string, f64) fmap \<Rightarrow> (string, f64) fmap" where
  "insert_into s m =
     (if ss_points s = 0 then m
      else insert_opt ''max_interval_errors'' (Some (of_uint (unat (ss_max_interval_errors s))))
            (insert_opt ''error_intervals'' (Some (of_uint (ss_error_intervals s)))
              (insert_opt ''p99_worst_us'' (ss_p99_worst_us s)
                (insert_opt ''p99_median_us'' (ss_p99_median_us s)
                  (insert_opt ''throughput_cv'' (ss_throughput_cv s)
                    (insert_opt ''throughput_mean'' (ss_throughput_mean s) m))))))"

definition series_higher_is_better :: "string \<Rightarrow> bool" where
  "series_higher_is_better metric = (metric = ''series.throughput_mean'')"

section \<open>Scoring\<close>

datatype metric_direction = HigherIsBetter | LowerIsBetter | Neutral

definition metric_direction_of :: "string \<Rightarrow> metric_direction" where
  "metric_direction_of metric =
     (if metric = ''total_connections_attempted'' then Neutral
      else if metric = ''total_connections_failed'' \<or> metric = ''error_rate'' then LowerIsBetter
      else if prefix ''errors.'' metric then LowerIsBetter
      else if prefix SERIES_PREFIX metric then (if series_higher_is_better metric then HigherIsBetter else LowerIsBetter)
      else if prefix ''handshake_latency.'' metric \<or> prefix ''message_rtt.'' metric \<or> prefix ''response_time.'' metric
      then LowerIsBetter
      else HigherIsBetter)"

text \<open>The serialised name of a category (\<open>rename_all = "snake_case"\<close>).\<close>

primrec category_key :: "error_category \<Rightarrow> string" where
  "category_key DnsResolution = ''dns_resolution''"
| "category_key TcpConnect = ''tcp_connect''"
| "category_key TlsHandshake = ''tls_handshake''"
| "category_key HttpUpgradeRejected = ''http_upgrade_rejected''"
| "category_key ProtocolError = ''protocol_error''"
| "category_key WriteError = ''write_error''"
| "category_key ReadError = ''read_error''"
| "category_key Timeout = ''timeout''"
| "category_key UnexpectedClose = ''unexpected_close''"
| "category_key Other = ''other''"
| "category_key CheckFailed = ''check_failed''"

definition latency_entries :: "string \<Rightarrow> latency_stats \<Rightarrow> (string \<times> f64) list" where
  "latency_entries base s =
     [(base @ ''.p50_us'', of_uint (ls_p50_us s)), (base @ ''.p95_us'', of_uint (ls_p95_us s)),
      (base @ ''.p99_us'', of_uint (ls_p99_us s)), (base @ ''.p999_us'', of_uint (ls_p999_us s))]"

definition metrics_to_map :: "aggregated_metrics \<Rightarrow> (string, f64) fmap" where
  "metrics_to_map m =
     fold (\<lambda>(name, v). fmupd name v)
       ([(''total_connections_attempted'', of_uint (unat (m_attempted m))),
         (''total_connections_established'', of_uint (unat (m_established m))),
         (''total_connections_failed'', of_uint (unat (m_failed m))),
         (''total_messages_sent'', of_uint (unat (m_messages_sent m))),
         (''total_messages_recv'', of_uint (unat (m_messages_recv m))),
         (''total_bytes_sent'', of_uint (unat (m_bytes_sent m))),
         (''total_bytes_recv'', of_uint (unat (m_bytes_recv m))),
         (''throughput_msg_per_sec'', m_throughput_msg m),
         (''throughput_bytes_per_sec'', m_throughput_bytes m),
         (''error_rate'', m_error_rate m)] @
        List.map_filter (\<lambda>c. map_option (\<lambda>n. (''errors.'' @ category_key c, of_uint (unat n))) (m_errors m c)) all_categories @
        latency_entries ''handshake_latency'' (m_handshake m) @ latency_entries ''message_rtt'' (m_rtt m) @
        (if ls_count (m_response m) > 0 then latency_entries ''response_time'' (m_response m) else []))
       fmempty"

datatype change_outcome = Regression | Improvement | WithinThreshold

record compared_metric =
  cm_metric :: string
  cm_baseline :: f64
  cm_current :: f64
  cm_pct_change :: f64
  cm_higher_is_better :: bool
  cm_outcome :: change_outcome

definition pct_change :: "f64 \<Rightarrow> f64 \<Rightarrow> f64" where
  "pct_change baseline current =
     (if f64_eq baseline (Num 0) then Num 100
      else f64_mul (f64_div (f64_sub current baseline) baseline) (Num 100))"

definition outcome_of :: "metric_direction \<Rightarrow> f64 \<Rightarrow> f64 \<Rightarrow> change_outcome" where
  "outcome_of direction threshold pct =
     (let (regressed, improved) = (case direction of
            HigherIsBetter \<Rightarrow> (f64_lt pct (f64_neg threshold), f64_lt threshold pct)
          | LowerIsBetter \<Rightarrow> (f64_lt threshold pct, f64_lt pct (f64_neg threshold))
          | Neutral \<Rightarrow> (False, False))
      in if regressed then Regression else if improved then Improvement else WithinThreshold)"

text \<open>One metric of the loop; \<open>None\<close> when it is not compared.\<close>

definition compare_one :: "(string, f64) fmap \<Rightarrow> (string, f64) fmap \<Rightarrow> f64 \<Rightarrow> string \<Rightarrow> compared_metric option" where
  "compare_one baseline current threshold name =
     (let direction = metric_direction_of name
      in if direction = Neutral then None
         else if (prefix ''response_time.'' name \<or> prefix SERIES_PREFIX name) \<and>
                 \<not> (fmlookup baseline name \<noteq> None \<and> fmlookup current name \<noteq> None) then None
         else (let b = (case fmlookup baseline name of None \<Rightarrow> Num 0 | Some v \<Rightarrow> v);
                   c = (case fmlookup current name of None \<Rightarrow> Num 0 | Some v \<Rightarrow> v)
               in if f64_eq b (Num 0) \<and> f64_eq c (Num 0) then None
                  else Some \<lparr>cm_metric = name, cm_baseline = b, cm_current = c, cm_pct_change = pct_change b c,
                         cm_higher_is_better = (direction = HigherIsBetter),
                         cm_outcome = outcome_of direction threshold (pct_change b c)\<rparr>))"

record baseline_comparison =
  bc_regressions :: "compared_metric list"
  bc_improvements :: "compared_metric list"
  bc_window :: "compare_window option"
  bc_series_compared :: bool
  bc_compared :: "compared_metric list"

definition has_series :: "(string, f64) fmap \<Rightarrow> bool" where
  "has_series m = (\<exists>name\<in>fset (fmdom m). prefix SERIES_PREFIX name)"

definition compare_metrics_in ::
    "aggregated_metrics \<Rightarrow> aggregated_metrics \<Rightarrow> f64 \<Rightarrow> compare_window option \<Rightarrow> baseline_comparison" where
  "compare_metrics_in baseline current threshold w =
     (let b = insert_into (series_summary_of (m_time_series baseline) w) (metrics_to_map baseline);
          c = insert_into (series_summary_of (m_time_series current) w) (metrics_to_map current);
          compared = List.map_filter (compare_one b c threshold) (sorted_list_of_fset (fmdom b |\<union>| fmdom c))
      in \<lparr>bc_regressions = filter (\<lambda>m. cm_outcome m = Regression) compared,
          bc_improvements = filter (\<lambda>m. cm_outcome m = Improvement) compared, bc_window = w,
          bc_series_compared = (has_series b \<and> has_series c), bc_compared = compared\<rparr>)"

section \<open>Facts\<close>

lemma nat_sqrt_bounds: "nat_sqrt n * nat_sqrt n \<le> n \<and> n < (nat_sqrt n + 1) * (nat_sqrt n + 1)"
proof (induction n rule: nat_sqrt.induct)
  case (1 n)
  show ?case
  proof (cases "n = 0")
    case True
    then show ?thesis by (simp add: nat_sqrt.simps [of 0])
  next
    case False
    let ?q = "nat_sqrt (n div 4)"
    from 1 False have ih: "?q * ?q \<le> n div 4" "n div 4 < (?q + 1) * (?q + 1)" by simp_all
    have "4 * (?q * ?q) \<le> n" using ih(1) by linarith
    moreover have "n < 4 * ((?q + 1) * (?q + 1))" using ih(2) by linarith
    ultimately have "(2 * ?q) * (2 * ?q) \<le> n" "n < (2 * ?q + 2) * (2 * ?q + 2)" by (simp_all add: algebra_simps)
    then show ?thesis using False by (simp add: nat_sqrt.simps [of n] Let_def)
  qed
qed

lemma fold_fmupd_lookup:
  "fmlookup (fold (\<lambda>(n, v). fmupd n v) xs m) k = (case map_of (rev xs) k of None \<Rightarrow> fmlookup m k | Some v \<Rightarrow> Some v)"
  by (induction xs arbitrary: m) (auto simp: map_add_def split: option.split)

lemma category_key_inj: "category_key c = category_key d \<longleftrightarrow> c = d"
  by (cases c; cases d) simp_all

lemma map_filter_lookup:
  assumes "distinct cs" "\<And>c d. f c = f d \<longleftrightarrow> c = d"
  shows "map_of (rev (List.map_filter (\<lambda>c. map_option (\<lambda>n. (f c, g n)) (e c)) cs)) (f c) =
    (if c \<in> set cs then map_option g (e c) else None)"
  using assms(1)
proof (induction cs)
  case (Cons d cs)
  then show ?case using assms(2) by (cases "e d") (auto simp: List.map_filter_simps map_add_def split: option.split)
qed (simp add: List.map_filter_simps)

text \<open>The entry of an error category in the map of a report.\<close>

lemma metrics_to_map_errors:
  "fmlookup (metrics_to_map m) (''errors.'' @ category_key c) = map_option (\<lambda>n. of_uint (unat n)) (m_errors m c)"
proof -
  let ?k = "''errors.'' @ category_key c"
  let ?E = "List.map_filter (\<lambda>c. map_option (\<lambda>n. (''errors.'' @ category_key c, of_uint (unat n))) (m_errors m c)) all_categories"
  have "map_of (rev ?E) ?k = map_option (\<lambda>n. of_uint (unat n)) (m_errors m c)"
    using map_filter_lookup [of all_categories "\<lambda>c. ''errors.'' @ category_key c" "\<lambda>n. of_uint (unat n)" "m_errors m" c]
    by (simp add: category_key_inj)
  then show ?thesis
    by (cases "m_errors m c") (simp_all add: metrics_to_map_def fold_fmupd_lookup latency_entries_def map_add_def)
qed

lemma insert_into_errors: "fmlookup (insert_into s m) (''errors.'' @ k) = fmlookup m (''errors.'' @ k)"
  by (simp add: insert_into_def insert_opt_def SERIES_PREFIX_def split: option.split)

lemma same_value_within:
  assumes "\<not> f64_eq v (Num 0)" "0 \<le> t"
  shows "outcome_of d (Num t) (pct_change v v) = WithinThreshold"
proof -
  have "pct_change v v = Num 0 \<or> pct_change v v = NaN"
    using assms(1) by (cases v) (auto simp: pct_change_def f64_eq_def f64_sub_def of_exact_0)
  with assms(2) show ?thesis by (cases d) (auto simp: outcome_of_def)
qed

lemma set_map_filter_iff: "y \<in> set (List.map_filter f xs) \<longleftrightarrow> (\<exists>x\<in>set xs. f x = Some y)"
  by (induction xs) (auto simp: List.map_filter_simps split: option.split)

lemma map_filter_image_iff:
  assumes "k \<in> set xs" "f k = Some z" "\<And>x y. f x = Some y \<Longrightarrow> g y = x"
  shows "k \<in> g ` set (filter P (List.map_filter f xs)) \<longleftrightarrow> P z"
proof
  assume "k \<in> g ` set (filter P (List.map_filter f xs))"
  then obtain y x where y: "k = g y" "P y" "f x = Some y" by (auto simp: set_map_filter_iff)
  with assms(3) [OF y(3)] assms(2) show "P z" by simp
next
  assume "P z"
  with assms(1,2) have "z \<in> set (filter P (List.map_filter f xs))" by (auto simp: set_map_filter_iff)
  with assms(3) [OF assms(2)] show "k \<in> g ` set (filter P (List.map_filter f xs))" by force
qed

lemma map_filter_None: "(\<And>x. x \<in> set xs \<Longrightarrow> f x = None \<or> (\<exists>y. f x = Some y \<and> \<not> P y)) \<Longrightarrow> filter P (List.map_filter f xs) = []"
  by (induction xs) (fastforce simp: List.map_filter_simps)+

section \<open>Properties\<close>

text \<open>A report never differs from itself. Comparing a report with itself finds no regression and no
  improvement, at any threshold the command line accepts and over any window, even when a metric is not a
  finite number.\<close>

theorem self_comparison_clean:
  assumes "0 \<le> t"
  shows "bc_regressions (compare_metrics_in m m (Num t) w) = [] \<and> bc_improvements (compare_metrics_in m m (Num t) w) = []"
proof -
  have "compare_one b b (Num t) name = None \<or>
      (\<exists>y. compare_one b b (Num t) name = Some y \<and> cm_outcome y = WithinThreshold)" for b name
    using same_value_within [OF _ assms] by (auto simp: compare_one_def Let_def split: option.split)
  then show ?thesis by (auto simp: compare_metrics_in_def Let_def intro!: map_filter_None) (metis change_outcome.distinct)+
qed

definition empty_report :: aggregated_metrics where
  "empty_report = totals_finish values_hdr 1000000000 1 (the (totals_new values_hdr))"

theorem self_comparison_clean_witness:
  "bc_regressions (compare_metrics_in empty_report empty_report (Num 5) None) = []"
  using self_comparison_clean [of 5 empty_report None] by simp

text \<open>Errors of a category the baseline did not have are reported as a regression when, and only when, the
  threshold is below 100 percent: the move from zero counts as 100 percent, so a threshold of 100 or more
  accepts any number of new errors.\<close>

theorem new_errors_regress:
  assumes "m_errors baseline c = None" "m_errors current c = Some n" "0 < n" "0 \<le> t"
  shows "(''errors.'' @ category_key c \<in> cm_metric ` set (bc_regressions (compare_metrics_in baseline current (Num t) w))) =
    (t < 100)"
proof -
  let ?k = "''errors.'' @ category_key c"
  define b where "b = insert_into (series_summary_of (m_time_series baseline) w) (metrics_to_map baseline)"
  define d where "d = insert_into (series_summary_of (m_time_series current) w) (metrics_to_map current)"
  have lk: "fmlookup b ?k = None" "fmlookup d ?k = Some (of_uint (unat n))"
    using assms(1,2) by (simp_all only: b_def d_def insert_into_errors metrics_to_map_errors option.map)
  have "of_uint (unat n) \<noteq> Num 0"
    using of_uint_num [OF u64_small [of n]] assms(3) by (auto simp: unat_gt_0 word_neq_0_conv)
  then have one: "compare_one b d (Num t) ?k = Some \<lparr>cm_metric = ?k, cm_baseline = Num 0, cm_current = of_uint (unat n),
      cm_pct_change = Num 100, cm_higher_is_better = False, cm_outcome = outcome_of LowerIsBetter (Num t) (Num 100)\<rparr>"
    using lk by (simp add: compare_one_def metric_direction_of_def SERIES_PREFIX_def Let_def f64_eq_def pct_change_def)
  have out: "outcome_of LowerIsBetter (Num t) (Num 100) = Regression \<longleftrightarrow> t < 100" by (simp add: outcome_of_def)
  have name: "compare_one b d (Num t) x = Some y \<Longrightarrow> cm_metric y = x" for x y
    by (auto simp: compare_one_def Let_def split: if_splits)
  let ?xs = "sorted_list_of_fset (fmdom b |\<union>| fmdom d)"
  have "?k \<in> set ?xs" using lk(2) by (auto simp: fmlookup_dom_iff sorted_list_of_fset.rep_eq)
  from map_filter_image_iff [where f = "compare_one b d (Num t)" and P = "\<lambda>m. cm_outcome m = Regression" and g = cm_metric, OF this one name] out
  have "(?k \<in> cm_metric ` set (filter (\<lambda>m. cm_outcome m = Regression) (List.map_filter (compare_one b d (Num t)) ?xs))) = (t < 100)"
    by (simp only: compared_metric.select_convs)
  then show ?thesis by (simp add: compare_metrics_in_def Let_def b_def d_def)
qed

theorem new_errors_regress_witness:
  "\<exists>x\<in>set (bc_regressions (compare_metrics_in empty_report (empty_report\<lparr>m_errors := [Timeout \<mapsto> 3]\<rparr>) (Num 5) None)).
     cm_metric x = ''errors.timeout''"
proof -
  have "m_errors empty_report Timeout = None"
    by (simp add: empty_report_def totals_finish_def Let_def totals_new_def latency_histogram_def)
  from new_errors_regress [OF this, of "empty_report\<lparr>m_errors := [Timeout \<mapsto> 3]\<rparr>" 3 5 None] show ?thesis by (simp add: image_iff) metis
qed

end
