(* ===== verification/Deflate.thy ===== *)
theory Deflate
  imports Reply_Check
begin

text \<open>
  \<open>src/deflate.rs\<close>: permessage-deflate (RFC 7692) as a byte-stream layer. The negotiation, the frame
  headers, the masks and the rewriting of frames in both directions are modelled on bytes, and so are the
  loops of \<open>inflate\<close> and \<open>deflate\<close> with the growing output vector. The DEFLATE codec (\<open>flate2\<close>) is a
  parameter: its two calls \<open>decompress_vec\<close> and \<open>compress_vec\<close>, each of which takes some of the input and
  fills some of the spare capacity. The asynchronous reads and writes that feed \<open>process_in\<close> and
  \<open>process_out\<close> are not modelled.
\<close>

section \<open>Negotiation\<close>

datatype role = Client | Server

record params =
  server_no_context_takeover :: bool
  client_no_context_takeover :: bool
  server_max_window_bits :: "nat option"
  client_max_window_bits :: "nat option"

definition params_default :: params where
  "params_default = \<lparr>server_no_context_takeover = False, client_no_context_takeover = False,
     server_max_window_bits = None, client_max_window_bits = None\<rparr>"

definition OFFER :: string where
  "OFFER = ''permessage-deflate''"

definition trim_quotes :: "string \<Rightarrow> string" where
  "trim_quotes s = rev (dropWhile (\<lambda>c. c = CHR 0x22) (rev (dropWhile (\<lambda>c. c = CHR 0x22) s)))"

text \<open>The window bits of a parameter: \<open>None\<close> is a malformed value, \<open>Some None\<close> no value.\<close>

definition window_bits :: "string option \<Rightarrow> nat option option" where
  "window_bits value =
     (case value of
        None \<Rightarrow> Some None
      | Some v \<Rightarrow>
          (case parse_uint 255 v of
             Some b \<Rightarrow> (if 8 \<le> b \<and> b \<le> 15 then Some (Some b) else None)
           | None \<Rightarrow> None))"

definition param_step :: "string \<Rightarrow> params \<Rightarrow> params option" where
  "param_step part p =
     (let (name, value) = (case split_once ''='' part of
            Some (name, value) \<Rightarrow> (trim name, Some (trim_quotes (trim value)))
          | None \<Rightarrow> (part, None));
          lower = to_ascii_lowercase name
      in if lower = ''server_no_context_takeover'' then Some (p\<lparr>server_no_context_takeover := True\<rparr>)
         else if lower = ''client_no_context_takeover'' then Some (p\<lparr>client_no_context_takeover := True\<rparr>)
         else if lower = ''server_max_window_bits''
         then map_option (\<lambda>b. p\<lparr>server_max_window_bits := b\<rparr>) (window_bits value)
         else if lower = ''client_max_window_bits''
         then map_option (\<lambda>b. p\<lparr>client_max_window_bits := b\<rparr>) (window_bits value)
         else None)"

fun param_loop :: "string list \<Rightarrow> params \<Rightarrow> params option" where
  "param_loop [] p = Some p"
| "param_loop (part # parts) p =
     (if part = [] then param_loop parts p
      else (case param_step part p of None \<Rightarrow> None | Some p \<Rightarrow> param_loop parts p))"

definition parse_extension :: "string \<Rightarrow> params option" where
  "parse_extension extension =
     (case map trim (str_split (CHR '';'') extension) of
        [] \<Rightarrow> None
      | first # parts \<Rightarrow>
          (if eq_ignore_ascii_case first OFFER then param_loop parts params_default else None))"

fun find_map :: "('a \<Rightarrow> 'b option) \<Rightarrow> 'a list \<Rightarrow> 'b option" where
  "find_map f [] = None"
| "find_map f (x # xs) = (case f x of Some y \<Rightarrow> Some y | None \<Rightarrow> find_map f xs)"

definition params_parse :: "string \<Rightarrow> params option" where
  "params_parse value = find_map parse_extension (str_split (CHR '','') value)"

definition can_compress :: "role \<Rightarrow> params \<Rightarrow> bool" where
  "can_compress r p =
     (case (case r of Client \<Rightarrow> client_max_window_bits p | Server \<Rightarrow> server_max_window_bits p) of
        None \<Rightarrow> True | Some b \<Rightarrow> b = 15)"

definition reset_deflater :: "role \<Rightarrow> params \<Rightarrow> bool" where
  "reset_deflater r p =
     (case r of Client \<Rightarrow> client_no_context_takeover p | Server \<Rightarrow> server_no_context_takeover p)"

definition reset_inflater :: "role \<Rightarrow> params \<Rightarrow> bool" where
  "reset_inflater r p =
     (case r of Client \<Rightarrow> server_no_context_takeover p | Server \<Rightarrow> client_no_context_takeover p)"

definition accept_offer :: "string \<Rightarrow> string option" where
  "accept_offer offer =
     (case params_parse offer of
        None \<Rightarrow> None
      | Some p \<Rightarrow>
          (if \<not> (case server_max_window_bits p of None \<Rightarrow> True | Some b \<Rightarrow> b = 15) then None
           else Some (if server_no_context_takeover p then OFFER @ ''; server_no_context_takeover'' else OFFER)))"

text \<open>\<open>str::split(pat)\<close> for a pattern that is not empty.\<close>

function split_str :: "string \<Rightarrow> string \<Rightarrow> string list" where
  "split_str pat s =
     (case str_find pat s of
        None \<Rightarrow> [s]
      | Some i \<Rightarrow> (if pat = [] then [s] else take i s # split_str pat (drop (i + length pat) s)))"
  by pat_completeness auto
termination
  by (relation "measure (length \<circ> snd)")
    (auto dest!: str_find_bound simp flip: length_greater_0_conv)

declare split_str.simps [simp del]

definition crlf :: string where
  "crlf = [CHR 0x0D, CHR 0x0A]"

definition header_line :: "string \<Rightarrow> string \<Rightarrow> string option" where
  "header_line name line =
     (case split_once '':'' line of
        None \<Rightarrow> None
      | Some (key, value) \<Rightarrow> (if eq_ignore_ascii_case (trim key) name then Some (trim value) else None))"

definition header_values :: "string \<Rightarrow> string \<Rightarrow> string list" where
  "header_values head name = List.map_filter (header_line name) (drop 1 (split_str crlf head))"

text \<open>The words of \<open>str::split_whitespace\<close>.\<close>

fun take_word :: "string \<Rightarrow> string" where
  "take_word [] = []"
| "take_word (c # cs) = (if leading_white_space (c # cs) > 0 then [] else c # take_word cs)"

lemma take_word_length: "length (take_word s) \<le> length s"
  by (induction s) auto

definition second_word :: "string \<Rightarrow> string" where
  "second_word s =
     (let s = trim_start s in take_word (trim_start (drop (length (take_word s)) s)))"

definition negotiated :: "string \<Rightarrow> params option" where
  "negotiated response =
     (case split_str crlf response of
        [] \<Rightarrow> None
      | status # _ \<Rightarrow>
          (if second_word status \<noteq> ''101'' then None
           else find_map params_parse (header_values response ''sec-websocket-extensions'')))"

section \<open>Frame headers\<close>

record frame_header =
  h_fin :: bool
  h_rsv1 :: bool
  h_rsv23 :: u8
  h_opcode :: u8
  h_mask :: "(u8 \<times> u8 \<times> u8 \<times> u8) option"
  h_len :: nat
  h_payload :: nat

definition from_be_bytes :: "u8 list \<Rightarrow> nat" where
  "from_be_bytes bs = foldl (\<lambda>acc b. acc * 256 + unat b) 0 bs"

fun to_be_bytes :: "nat \<Rightarrow> nat \<Rightarrow> u8 list" where
  "to_be_bytes 0 n = []"
| "to_be_bytes (Suc k) n = to_be_bytes k (n div 256) @ [word_of_nat n]"

definition payload_field :: "u8 \<Rightarrow> u8 list \<Rightarrow> (nat \<times> nat \<times> u8 list) option" where
  "payload_field b1 rest =
     (let n = b1 AND 0x7f
      in if n = 126 then (if length rest < 2 then None else Some (4, from_be_bytes (take 2 rest), drop 2 rest))
         else if n = 127 then (if length rest < 8 then None else Some (10, from_be_bytes (take 8 rest), drop 8 rest))
         else Some (2, unat n, rest))"

definition mask_field :: "u8 \<Rightarrow> u8 list \<Rightarrow> (u8 \<times> u8 \<times> u8 \<times> u8) option option" where
  "mask_field b1 rest =
     (if b1 AND 0x80 \<noteq> 0
      then (case rest of a # b # c # d # _ \<Rightarrow> Some (Some (a, b, c, d)) | _ \<Rightarrow> None)
      else Some None)"

definition header_parse :: "u8 list \<Rightarrow> frame_header option" where
  "header_parse buf =
     (case buf of
        b0 # b1 # rest \<Rightarrow>
          (case payload_field b1 rest of
             None \<Rightarrow> None
           | Some (len, payload, rest) \<Rightarrow>
               (case mask_field b1 rest of
                  None \<Rightarrow> None
                | Some key \<Rightarrow>
                    Some \<lparr>h_fin = (b0 AND 0x80 \<noteq> 0), h_rsv1 = (b0 AND 0x40 \<noteq> 0), h_rsv23 = b0 AND 0x30,
                      h_opcode = b0 AND 0x0f, h_mask = key,
                      h_len = (if key = None then len else len + 4), h_payload = payload\<rparr>))
      | _ \<Rightarrow> None)"

definition mask_bytes :: "(u8 \<times> u8 \<times> u8 \<times> u8) option \<Rightarrow> u8 list" where
  "mask_bytes m = (case m of None \<Rightarrow> [] | Some (a, b, c, d) \<Rightarrow> [a, b, c, d])"

definition header_write :: "frame_header \<Rightarrow> bool \<Rightarrow> nat \<Rightarrow> u8 list" where
  "header_write h rsv1 payload =
     (let fin = (if h_fin h then 0x80 else 0);
          rsv1 = (if rsv1 then 0x40 else 0);
          mask_bit = (if h_mask h \<noteq> None then 0x80 else 0)
      in (fin OR rsv1 OR h_rsv23 h OR h_opcode h) #
         (if payload \<le> 125 then [mask_bit OR word_of_nat payload]
          else if payload \<le> 0xffff then (mask_bit OR 126) # to_be_bytes 2 payload
          else (mask_bit OR 127) # to_be_bytes 8 payload)
         @ mask_bytes (h_mask h))"

fun mask_from :: "nat \<Rightarrow> u8 \<times> u8 \<times> u8 \<times> u8 \<Rightarrow> u8 list \<Rightarrow> u8 list" where
  "mask_from i key [] = []"
| "mask_from i (a, b, c, d) (x # xs) = (x XOR ([a, b, c, d] ! (i mod 4))) # mask_from (i + 1) (a, b, c, d) xs"

definition apply_mask :: "u8 \<times> u8 \<times> u8 \<times> u8 \<Rightarrow> u8 list \<Rightarrow> u8 list" where
  "apply_mask key data = mask_from 0 key data"

definition mask_with :: "(u8 \<times> u8 \<times> u8 \<times> u8) option \<Rightarrow> u8 list \<Rightarrow> u8 list" where
  "mask_with m data = (case m of None \<Rightarrow> data | Some key \<Rightarrow> apply_mask key data)"

section \<open>Headers and masks round trip\<close>

lemma from_be_bytes_snoc [simp]: "from_be_bytes (bs @ [b]) = from_be_bytes bs * 256 + unat b"
  by (simp add: from_be_bytes_def)

lemma length_to_be_bytes [simp]: "length (to_be_bytes k n) = k"
  by (induction k arbitrary: n) simp_all

lemma from_to_be_bytes: "n < 256 ^ k \<Longrightarrow> from_be_bytes (to_be_bytes k n) = n"
proof (induction k arbitrary: n)
  case 0
  then show ?case by (simp add: from_be_bytes_def)
next
  case (Suc k)
  then have "n div 256 < 256 ^ k" by (simp add: less_mult_imp_div_less mult.commute)
  with Suc.IH show ?case by (simp add: unat_of_nat)
qed

lemma mask_from_involution: "mask_from i key (mask_from i key data) = data"
  by (induction i key data rule: mask_from.induct) (simp_all add: xor.assoc)

lemma length_mask_from [simp]: "length (mask_from i key data) = length data"
  by (induction i key data rule: mask_from.induct) simp_all

lemma mask_with_involution [simp]: "mask_with m (mask_with m data) = data"
  by (simp add: mask_with_def apply_mask_def mask_from_involution split: option.split)

lemma length_mask_with [simp]: "length (mask_with m data) = length data"
  by (simp add: mask_with_def apply_mask_def split: option.split)

lemma and_7f: "n < 128 \<Longrightarrow> (word_of_nat n :: u8) AND 0x7f = word_of_nat n"
proof -
  assume n: "n < 128"
  have "(word_of_nat n :: u8) AND mask 7 = take_bit 7 (word_of_nat n)" by (simp only: take_bit_eq_mask)
  also have "\<dots> = word_of_nat (take_bit 7 n)" by (simp only: take_bit_of_nat)
  also have "take_bit 7 n = n" using n by (simp add: take_bit_nat_eq_self)
  finally show ?thesis by (simp add: mask_eq_exp_minus_1)
qed

lemma and_80: "n < 128 \<Longrightarrow> (word_of_nat n :: u8) AND 0x80 = 0"
  by (subst and_7f [symmetric]) (simp_all add: and.assoc)

lemma first_byte:
  fixes r c :: u8
  assumes "r AND 0x30 = r" "c AND 0x0f = c"
  shows "((if fin then 0x80 else 0) OR (if rsv1 then 0x40 else 0) OR r OR c) AND 0x80 = (if fin then 0x80 else 0)"
    and "((if fin then 0x80 else 0) OR (if rsv1 then 0x40 else 0) OR r OR c) AND 0x40 = (if rsv1 then 0x40 else 0)"
    and "((if fin then 0x80 else 0) OR (if rsv1 then 0x40 else 0) OR r OR c) AND 0x30 = r"
    and "((if fin then 0x80 else 0) OR (if rsv1 then 0x40 else 0) OR r OR c) AND 0x0f = c"
proof -
  have r: "r AND 0x80 = 0" "r AND 0x40 = 0" "r AND 0x0f = 0"
    by (subst assms(1) [symmetric], simp add: and.assoc)+
  have c: "c AND 0x80 = 0" "c AND 0x40 = 0" "c AND 0x30 = 0"
    by (subst assms(2) [symmetric], simp add: and.assoc)+
  show "((if fin then 0x80 else 0) OR (if rsv1 then 0x40 else 0) OR r OR c) AND 0x80 = (if fin then 0x80 else 0)"
    and "((if fin then 0x80 else 0) OR (if rsv1 then 0x40 else 0) OR r OR c) AND 0x40 = (if rsv1 then 0x40 else 0)"
    and "((if fin then 0x80 else 0) OR (if rsv1 then 0x40 else 0) OR r OR c) AND 0x30 = r"
    and "((if fin then 0x80 else 0) OR (if rsv1 then 0x40 else 0) OR r OR c) AND 0x0f = c"
    using assms r c by (simp_all add: bit.conj_disj_distrib2)
qed

lemma second_byte:
  assumes "n < 128"
  shows "((if m then 0x80 else 0) OR word_of_nat n :: u8) AND 0x7f = word_of_nat n"
    and "((if m then 0x80 else 0) OR word_of_nat n :: u8) AND 0x80 = (if m then 0x80 else 0)"
  using and_7f [OF assms] and_80 [OF assms] by (simp_all add: bit.conj_disj_distrib2)

definition header_wf :: "frame_header \<Rightarrow> bool" where
  "header_wf h \<longleftrightarrow> h_rsv23 h AND 0x30 = h_rsv23 h \<and> h_opcode h AND 0x0f = h_opcode h"

definition length_bytes :: "nat \<Rightarrow> u8 list" where
  "length_bytes n = (if n \<le> 125 then [] else if n \<le> 0xffff then to_be_bytes 2 n else to_be_bytes 8 n)"

definition length_code :: "nat \<Rightarrow> nat" where
  "length_code n = (if n \<le> 125 then n else if n \<le> 0xffff then 126 else 127)"

lemma header_write_eq:
  "header_write h rsv1 n =
     ((if h_fin h then 0x80 else 0) OR (if rsv1 then 0x40 else 0) OR h_rsv23 h OR h_opcode h) #
     ((if h_mask h \<noteq> None then 0x80 else 0) OR word_of_nat (length_code n)) #
     length_bytes n @ mask_bytes (h_mask h)"
  by (simp add: header_write_def Let_def length_bytes_def length_code_def)

lemma payload_field_written:
  assumes "n < 2 ^ 64"
  shows "payload_field ((if m then 0x80 else 0) OR word_of_nat (length_code n)) (length_bytes n @ rest) =
    Some (2 + length (length_bytes n), n, rest)"
proof -
  have code: "((if m then 0x80 else 0) OR word_of_nat (length_code n) :: u8) AND 0x7f = word_of_nat (length_code n)"
    by (rule second_byte(1)) (simp add: length_code_def)
  have ne: "word_of_nat n \<noteq> (126::u8)" "word_of_nat n \<noteq> (127::u8)" "unat (word_of_nat n :: u8) = n" if "n \<le> 125"
  proof -
    show u: "unat (word_of_nat n :: u8) = n" using that by (simp add: unat_of_nat)
    show "word_of_nat n \<noteq> (126::u8)" "word_of_nat n \<noteq> (127::u8)"
      using u that by auto
  qed
  have "from_be_bytes (to_be_bytes 2 n) = n" if "n \<le> 0xffff" using that by (intro from_to_be_bytes) simp
  moreover have "from_be_bytes (to_be_bytes 8 n) = n" using assms by (intro from_to_be_bytes) simp
  ultimately show ?thesis
    unfolding payload_field_def Let_def code using ne
    by (auto simp: length_code_def length_bytes_def)
qed

lemma mask_field_written:
  "mask_field ((if h_mask h \<noteq> None then 0x80 else 0) OR word_of_nat (length_code n)) (mask_bytes (h_mask h) @ rest) =
    Some (h_mask h)"
proof -
  have "((if h_mask h \<noteq> None then 0x80 else 0) OR word_of_nat (length_code n) :: u8) AND 0x80 =
      (if h_mask h \<noteq> None then 0x80 else 0)"
    by (rule second_byte(2)) (simp add: length_code_def)
  then show ?thesis by (cases "h_mask h") (auto simp: mask_field_def mask_bytes_def)
qed

lemma header_parse_write:
  assumes "header_wf h" "n < 2 ^ 64"
  shows "header_parse (header_write h rsv1 n @ rest) =
    Some (h\<lparr>h_rsv1 := rsv1, h_len := length (header_write h rsv1 n), h_payload := n\<rparr>)"
  using assms(1) payload_field_written [OF assms(2), of "h_mask h \<noteq> None" "mask_bytes (h_mask h) @ rest"]
    mask_field_written [of h n rest] first_byte [of "h_rsv23 h" "h_opcode h" "h_fin h" rsv1]
  by (cases h) (simp add: header_parse_def header_write_eq header_wf_def mask_bytes_def split: option.splits)

section \<open>The stream\<close>

record compression_counters =
  c_offered :: nat
  c_negotiated :: nat
  c_bytes_sent :: nat
  c_wire_bytes_sent :: nat
  c_bytes_recv :: nat
  c_wire_bytes_recv :: nat

text \<open>
  The codec: the states of an inflater and of a deflater and one call of each, on the input that is left
  and the spare capacity of the output. A call says how many bytes of the input it took (the growth of
  \<open>total_in\<close>), what it appended (the growth of \<open>total_out\<close>) and the new state; \<open>None\<close> is an error.
\<close>

datatype flate_status = Status_ok | Buf_error | Stream_end

record ('i, 'd) flate =
  fl_inflater_new :: 'i
  fl_decompress :: "'i \<Rightarrow> u8 list \<Rightarrow> nat \<Rightarrow> (nat \<times> u8 list \<times> flate_status \<times> 'i) option"
  fl_inflater_reset :: "'i \<Rightarrow> 'i"
  fl_deflater_new :: 'd
  fl_compress :: "'d \<Rightarrow> u8 list \<Rightarrow> nat \<Rightarrow> (nat \<times> u8 list \<times> 'd) option"
  fl_deflater_reset :: "'d \<Rightarrow> 'd"

record ('i, 'd) deflate_stream =
  ds_role :: role
  ds_counters :: compression_counters
  ds_agreement :: "params option option"
  ds_raw_in :: "u8 list"
  ds_ready_in :: "u8 list"
  ds_read_head_done :: bool
  ds_inflating :: bool
  ds_inflated :: nat
  ds_inflater :: 'i
  ds_raw_out :: "u8 list"
  ds_ready_out :: "u8 list"
  ds_write_head_done :: bool
  ds_deflater :: "'d option"

text \<open>The errors of \<open>invalid\<close>; \<open>Never_returns\<close> stands for a codec loop that runs for ever.\<close>

datatype io_error =
    Handshake_too_long
  | Frame_too_large
  | Does_not_inflate
  | Inflates_past_limit
  | Does_not_deflate
  | Never_returns

definition SYNC_TAIL :: "u8 list" where
  "SYNC_TAIL = [0x00, 0x00, 0xff, 0xff]"

definition MAX_MESSAGE :: nat where "MAX_MESSAGE = 64 * 2 ^ 20"
definition MAX_FRAME :: nat where "MAX_FRAME = 64 * 2 ^ 20"
definition MAX_HEAD :: nat where "MAX_HEAD = 64 * 2 ^ 10"

definition stream_new :: "('i, 'd) flate \<Rightarrow> role \<Rightarrow> compression_counters \<Rightarrow> ('i, 'd) deflate_stream" where
  "stream_new fl r counters =
     \<lparr>ds_role = r, ds_counters = counters, ds_agreement = None, ds_raw_in = [], ds_ready_in = [],
      ds_read_head_done = False, ds_inflating = False, ds_inflated = 0, ds_inflater = fl_inflater_new fl,
      ds_raw_out = [], ds_ready_out = [], ds_write_head_done = False, ds_deflater = None\<rparr>"

definition declined :: "('i, 'd) deflate_stream \<Rightarrow> bool" where
  "declined st = (ds_agreement st = Some None)"

text \<open>\<open>String::from_utf8_lossy\<close>: the length of the next sequence, and whether it is well formed; a
  malformed one becomes U+FFFD.\<close>

definition utf8_step :: "string \<Rightarrow> nat \<times> bool" where
  "utf8_step s =
     (let a = s ! 0;
          cont = (\<lambda>i. i < length s \<and> byte_in 0x80 0xBF (s ! i));
          second = (\<lambda>lo hi. 1 < length s \<and> byte_in lo hi (s ! 1))
      in if byte_in 0 0x7F a then (1, True)
         else if byte_in 0xC2 0xDF a then (if cont 1 then (2, True) else (1, False))
         else if byte_in 0xE0 0xEF a
         then (if \<not> second (if a = CHR 0xE0 then 0xA0 else 0x80) (if a = CHR 0xED then 0x9F else 0xBF) then (1, False)
               else if cont 2 then (3, True) else (2, False))
         else if byte_in 0xF0 0xF4 a
         then (if \<not> second (if a = CHR 0xF0 then 0x90 else 0x80) (if a = CHR 0xF4 then 0x8F else 0xBF) then (1, False)
               else if \<not> cont 2 then (2, False) else if cont 3 then (4, True) else (3, False))
         else (1, False))"

lemma utf8_step_pos: "0 < fst (utf8_step s)"
  by (simp add: utf8_step_def Let_def)

function from_utf8_lossy :: "string \<Rightarrow> string" where
  "from_utf8_lossy s =
     (if s = [] then []
      else (case utf8_step s of (n, ok) \<Rightarrow>
              (if ok then take n s else [CHR 0xEF, CHR 0xBF, CHR 0xBD]) @ from_utf8_lossy (drop n s)))"
  by pat_completeness auto
termination
  using utf8_step_pos by (relation "measure length") (auto, metis diff_less fst_conv length_greater_0_conv)

declare from_utf8_lossy.simps [simp del]

definition bytes_str :: "u8 list \<Rightarrow> string" where
  "bytes_str bs = map (\<lambda>b. char_of (unat b)) bs"

definition end_head :: "bool \<Rightarrow> ('i, 'd) deflate_stream \<Rightarrow> io_error + bool \<times> ('i, 'd) deflate_stream" where
  "end_head inbound st =
     (let buf = (if inbound then ds_raw_in st else ds_raw_out st)
      in case str_find (crlf @ crlf) (bytes_str buf) of
           None \<Rightarrow> (if length buf > MAX_HEAD then Inl Handshake_too_long else Inr (False, st))
         | Some i \<Rightarrow>
             (let stop = i + 4;
                  head = from_utf8_lossy (bytes_str (take stop buf));
                  is_response = (inbound = (ds_role st = Client));
                  counters = ds_counters st;
                  st = (if is_response
                        then (let p = negotiated head
                              in st\<lparr>ds_counters := (if p \<noteq> None then counters\<lparr>c_negotiated := c_negotiated counters + 1\<rparr> else counters),
                                    ds_agreement := Some p\<rparr>)
                        else if ds_role st = Client
                             \<and> (\<exists>v\<in>set (header_values head ''sec-websocket-extensions''). params_parse v \<noteq> None)
                        then st\<lparr>ds_counters := counters\<lparr>c_offered := c_offered counters + 1\<rparr>\<rparr>
                        else st)
              in Inr (True, if inbound
                            then st\<lparr>ds_ready_in := ds_ready_in st @ take stop buf, ds_raw_in := drop stop buf\<rparr>
                            else st\<lparr>ds_ready_out := ds_ready_out st @ take stop buf, ds_raw_out := drop stop buf\<rparr>)))"

text \<open>The capacity of a \<open>Vec<u8>\<close> after \<open>reserve\<close>: unchanged when the spare part is enough, else at least
  doubled (amortised growth, never below 8).\<close>

definition vec_reserve :: "nat \<Rightarrow> nat \<Rightarrow> nat \<Rightarrow> nat" where
  "vec_reserve capacity len additional =
     (if additional \<le> capacity - len then capacity else max 8 (max (2 * capacity) (len + additional)))"

definition inflate_room :: "nat \<Rightarrow> u8 list \<Rightarrow> nat \<Rightarrow> nat" where
  "inflate_room input_len out capacity =
     (if capacity - length out < 4096
      then vec_reserve capacity (length out) (min (max (input_len * 4) (16 * 2 ^ 10)) (2 ^ 20))
      else capacity)"

text \<open>The loop of \<open>inflate\<close>: \<open>rest\<close> is \<open>input[consumed..]\<close>, \<open>None\<close> a loop that does not end.\<close>

partial_function (option) inflate_loop ::
    "('i, 'd) flate \<Rightarrow> nat \<Rightarrow> 'i \<Rightarrow> u8 list \<Rightarrow> u8 list \<Rightarrow> nat \<Rightarrow> nat \<Rightarrow> (io_error + u8 list \<times> 'i \<times> nat) option" where
  "inflate_loop fl input_len inflater rest out capacity inflated =
     (let capacity = inflate_room input_len out capacity
      in case fl_decompress fl inflater rest (capacity - length out) of
           None \<Rightarrow> Some (Inl Does_not_inflate)
         | Some (taken_in, produced, status, inflater) \<Rightarrow>
             (let out = out @ produced; inflated = inflated + length produced
              in if inflated > MAX_MESSAGE then Some (Inl Inflates_past_limit)
                 else if status = Stream_end \<or> (taken_in = length rest \<and> length out < capacity)
                       \<or> \<not> (taken_in \<noteq> 0 \<or> produced \<noteq> [])
                 then Some (Inr (out, inflater, inflated))
                 else inflate_loop fl input_len inflater (drop taken_in rest) out capacity inflated))"

definition inflate_frame ::
    "('i, 'd) flate \<Rightarrow> bool \<Rightarrow> u8 list \<Rightarrow> ('i, 'd) deflate_stream \<Rightarrow> io_error + u8 list \<times> ('i, 'd) deflate_stream" where
  "inflate_frame fl final input st =
     (let input = (if final then input @ SYNC_TAIL else input)
      in case inflate_loop fl (length input) (ds_inflater st) input [] 0 (ds_inflated st) of
           None \<Rightarrow> Inl Never_returns
         | Some (Inl e) \<Rightarrow> Inl e
         | Some (Inr (out, inflater, inflated)) \<Rightarrow>
             Inr (out, st\<lparr>ds_inflater := inflater, ds_inflated := inflated\<rparr>))"

definition count_recv :: "nat \<Rightarrow> nat \<Rightarrow> ('i, 'd) deflate_stream \<Rightarrow> ('i, 'd) deflate_stream" where
  "count_recv wire plain st =
     (let c = ds_counters st
      in st\<lparr>ds_counters := c\<lparr>c_wire_bytes_recv := c_wire_bytes_recv c + wire,
                            c_bytes_recv := c_bytes_recv c + plain\<rparr>\<rparr>)"

definition count_sent :: "nat \<Rightarrow> nat \<Rightarrow> ('i, 'd) deflate_stream \<Rightarrow> ('i, 'd) deflate_stream" where
  "count_sent plain wire st =
     (let c = ds_counters st
      in st\<lparr>ds_counters := c\<lparr>c_bytes_sent := c_bytes_sent c + plain,
                            c_wire_bytes_sent := c_wire_bytes_sent c + wire\<rparr>\<rparr>)"

definition push_in :: "u8 list \<Rightarrow> ('i, 'd) deflate_stream \<Rightarrow> ('i, 'd) deflate_stream" where
  "push_in bs st = st\<lparr>ds_ready_in := ds_ready_in st @ bs\<rparr>"

definition push_out :: "u8 list \<Rightarrow> ('i, 'd) deflate_stream \<Rightarrow> ('i, 'd) deflate_stream" where
  "push_out bs st = st\<lparr>ds_ready_out := ds_ready_out st @ bs\<rparr>"

text \<open>One complete inbound frame: its header \<open>h\<close> and its bytes.\<close>

definition in_frame ::
    "('i, 'd) flate \<Rightarrow> params \<Rightarrow> frame_header \<Rightarrow> u8 list \<Rightarrow> ('i, 'd) deflate_stream
     \<Rightarrow> io_error + ('i, 'd) deflate_stream" where
  "in_frame fl p h frame st =
     (let data = (h_opcode h < 8);
          st = (if data \<and> h_opcode h \<noteq> 0 then st\<lparr>ds_inflating := h_rsv1 h, ds_inflated := 0\<rparr> else st)
      in if data \<and> ds_inflating st
         then and_then (inflate_frame fl (h_fin h) (mask_with (h_mask h) (drop (h_len h) frame)) st)
                (\<lambda>(payload, st).
                   let st = count_recv (h_payload h) (length payload) st;
                       st = push_in (header_write h False (length payload) @ mask_with (h_mask h) payload) st
                   in Inr (if h_fin h
                           then st\<lparr>ds_inflating := False,
                                   ds_inflater := (if reset_inflater (ds_role st) p
                                                   then fl_inflater_reset fl (ds_inflater st) else ds_inflater st)\<rparr>
                           else st))
         else Inr (push_in frame (if data then count_recv (h_payload h) (h_payload h) st else st)))"

lemma header_parse_len: "header_parse buf = Some h \<Longrightarrow> 2 \<le> h_len h \<and> buf \<noteq> []"
  by (auto simp: header_parse_def payload_field_def Let_def split: list.splits option.splits if_splits)

function in_frames ::
    "('i, 'd) flate \<Rightarrow> params \<Rightarrow> u8 list \<Rightarrow> ('i, 'd) deflate_stream
     \<Rightarrow> io_error + u8 list \<times> ('i, 'd) deflate_stream" where
  "in_frames fl p raw st =
     (case header_parse raw of
        None \<Rightarrow> Inr (raw, st)
      | Some h \<Rightarrow>
          (if h_payload h > MAX_FRAME then Inl Frame_too_large
           else if length raw < h_len h + h_payload h then Inr (raw, st)
           else (case in_frame fl p h (take (h_len h + h_payload h) raw) st of
                   Inl e \<Rightarrow> Inl e
                 | Inr st \<Rightarrow> in_frames fl p (drop (h_len h + h_payload h) raw) st)))"
  by pat_completeness auto
termination
  by (relation "measure (\<lambda>(_, _, raw, _). length raw)") (auto dest!: header_parse_len)

declare in_frames.simps [simp del]

definition process_in ::
    "('i, 'd) flate \<Rightarrow> ('i, 'd) deflate_stream \<Rightarrow> io_error + ('i, 'd) deflate_stream" where
  "process_in fl st =
     and_then (if ds_read_head_done st then Inr (True, st) else end_head True st) (\<lambda>(done, st).
       if \<not> done then Inr st
       else (let st = st\<lparr>ds_read_head_done := True\<rparr>
             in case ds_agreement st of
                  None \<Rightarrow> Inr st
                | Some None \<Rightarrow> Inr (st\<lparr>ds_ready_in := ds_ready_in st @ ds_raw_in st, ds_raw_in := []\<rparr>)
                | Some (Some p) \<Rightarrow>
                    and_then (in_frames fl p (ds_raw_in st) st) (\<lambda>(raw, st). Inr (st\<lparr>ds_raw_in := raw\<rparr>))))"

definition strip_tail :: "u8 list \<Rightarrow> u8 list" where
  "strip_tail out = (if suffix SYNC_TAIL out then take (length out - length SYNC_TAIL) out else out)"

definition deflate_room :: "nat \<Rightarrow> u8 list \<Rightarrow> nat \<Rightarrow> nat" where
  "deflate_room input_len out capacity =
     (if capacity - length out < 64 then vec_reserve capacity (length out) (max input_len 1024) else capacity)"

text \<open>The loop of \<open>deflate\<close>.\<close>

partial_function (option) deflate_loop ::
    "('i, 'd) flate \<Rightarrow> nat \<Rightarrow> 'd \<Rightarrow> u8 list \<Rightarrow> u8 list \<Rightarrow> nat \<Rightarrow> (io_error + u8 list \<times> 'd) option" where
  "deflate_loop fl input_len deflater rest out capacity =
     (let capacity = deflate_room input_len out capacity
      in case fl_compress fl deflater rest (capacity - length out) of
           None \<Rightarrow> Some (Inl Does_not_deflate)
         | Some (taken_in, produced, deflater) \<Rightarrow>
             (let out = out @ produced
              in if (taken_in = length rest \<and> length out < capacity) \<or> \<not> (taken_in \<noteq> 0 \<or> produced \<noteq> [])
                 then Some (Inr (out, deflater))
                 else deflate_loop fl input_len deflater (drop taken_in rest) out capacity))"

definition deflate_frame ::
    "('i, 'd) flate \<Rightarrow> u8 list \<Rightarrow> ('i, 'd) deflate_stream \<Rightarrow> io_error + u8 list \<times> ('i, 'd) deflate_stream" where
  "deflate_frame fl input st =
     (let deflater = (case ds_deflater st of None \<Rightarrow> fl_deflater_new fl | Some d \<Rightarrow> d)
      in case deflate_loop fl (length input) deflater input [] (length input div 2 + 64) of
           None \<Rightarrow> Inl Never_returns
         | Some (Inl e) \<Rightarrow> Inl e
         | Some (Inr (out, d)) \<Rightarrow> Inr (strip_tail out, st\<lparr>ds_deflater := Some d\<rparr>))"

definition out_frame ::
    "('i, 'd) flate \<Rightarrow> params \<Rightarrow> frame_header \<Rightarrow> u8 list \<Rightarrow> ('i, 'd) deflate_stream
     \<Rightarrow> io_error + ('i, 'd) deflate_stream" where
  "out_frame fl p h frame st =
     (let is_message = (h_opcode h = 1 \<or> h_opcode h = 2)
      in if can_compress (ds_role st) p \<and> is_message \<and> h_fin h \<and> \<not> h_rsv1 h
         then and_then (deflate_frame fl (mask_with (h_mask h) (drop (h_len h) frame)) st)
                (\<lambda>(payload, st).
                   let st = count_sent (h_payload h) (length payload) st;
                       st = push_out (header_write h True (length payload) @ mask_with (h_mask h) payload) st
                   in Inr (if reset_deflater (ds_role st) p
                           then st\<lparr>ds_deflater := map_option (fl_deflater_reset fl) (ds_deflater st)\<rparr> else st))
         else Inr (push_out frame (if is_message then count_sent (h_payload h) (h_payload h) st else st)))"

function out_frames ::
    "('i, 'd) flate \<Rightarrow> params \<Rightarrow> u8 list \<Rightarrow> ('i, 'd) deflate_stream
     \<Rightarrow> io_error + u8 list \<times> ('i, 'd) deflate_stream" where
  "out_frames fl p raw st =
     (case header_parse raw of
        None \<Rightarrow> Inr (raw, st)
      | Some h \<Rightarrow>
          (if length raw < h_len h + h_payload h then Inr (raw, st)
           else (case out_frame fl p h (take (h_len h + h_payload h) raw) st of
                   Inl e \<Rightarrow> Inl e
                 | Inr st \<Rightarrow> out_frames fl p (drop (h_len h + h_payload h) raw) st)))"
  by pat_completeness auto
termination
  by (relation "measure (\<lambda>(_, _, raw, _). length raw)") (auto dest!: header_parse_len)

declare out_frames.simps [simp del]

definition process_out ::
    "('i, 'd) flate \<Rightarrow> ('i, 'd) deflate_stream \<Rightarrow> io_error + ('i, 'd) deflate_stream" where
  "process_out fl st =
     and_then (if ds_write_head_done st then Inr (True, st) else end_head False st) (\<lambda>(done, st).
       if \<not> done then Inr st
       else (let st = st\<lparr>ds_write_head_done := True\<rparr>
             in case ds_agreement st of
                  None \<Rightarrow> Inr st
                | Some None \<Rightarrow> Inr (st\<lparr>ds_ready_out := ds_ready_out st @ ds_raw_out st, ds_raw_out := []\<rparr>)
                | Some (Some p) \<Rightarrow>
                    and_then (out_frames fl p (ds_raw_out st) st) (\<lambda>(raw, st). Inr (st\<lparr>ds_raw_out := raw\<rparr>))))"

section \<open>A compressed connection is transparent\<close>

text \<open>
  What the layer relies on in the codec is stated call by call, as \<open>zlib\<close> and \<open>flate2\<close> document it. A
  call takes as much as it can: it stops when the input is used up or the output is full.
\<close>

definition takes_all_it_can :: "u8 list \<Rightarrow> nat \<Rightarrow> nat \<Rightarrow> u8 list \<Rightarrow> bool" where
  "takes_all_it_can input space taken_in produced \<longleftrightarrow>
     taken_in \<le> length input \<and> length produced \<le> space \<and> (taken_in < length input \<longrightarrow> length produced = space)"

text \<open>Calls of a deflater with the sync flush on the input \<open>x\<close>, each with more than six bytes of room as
  \<open>zlib\<close> asks, repeated while input is left or the room was filled: what they produced so far, the state
  and the input that is left. The flush is complete when a call has used up the input and left some room.\<close>

inductive deflating :: "('i, 'd) flate \<Rightarrow> 'd \<Rightarrow> u8 list \<Rightarrow> u8 list \<Rightarrow> 'd \<Rightarrow> u8 list \<Rightarrow> bool"
  for fl :: "('i, 'd) flate" and d :: 'd and x :: "u8 list" where
  deflating_start: "deflating fl d x [] d x"
| deflating_call:
    "deflating fl d x y d' x' \<Longrightarrow> 6 < space \<Longrightarrow> fl_compress fl d' x' space = Some (n, produced, d'') \<Longrightarrow>
     n < length x' \<or> length produced = space \<Longrightarrow> deflating fl d x (y @ produced) d'' (drop n x')"

definition flushed :: "('i, 'd) flate \<Rightarrow> 'd \<Rightarrow> u8 list \<Rightarrow> u8 list \<Rightarrow> 'd \<Rightarrow> bool" where
  "flushed fl d x y d'' \<longleftrightarrow>
     (\<exists>y' d' x' space produced. deflating fl d x y' d' x' \<and> 6 < space \<and>
        fl_compress fl d' x' space = Some (length x', produced, d'') \<and> length produced < space \<and> y = y' @ produced)"

text \<open>The same for an inflater on the input \<open>y\<close>, with any room.\<close>

inductive inflating :: "('i, 'd) flate \<Rightarrow> 'i \<Rightarrow> u8 list \<Rightarrow> u8 list \<Rightarrow> 'i \<Rightarrow> u8 list \<Rightarrow> bool"
  for fl :: "('i, 'd) flate" and i :: 'i and y :: "u8 list" where
  inflating_start: "inflating fl i y [] i y"
| inflating_call:
    "inflating fl i y z i' y' \<Longrightarrow> 0 < space \<Longrightarrow> fl_decompress fl i' y' space = Some (n, produced, status, i'') \<Longrightarrow>
     n < length y' \<or> length produced = space \<Longrightarrow> inflating fl i y (z @ produced) i'' (drop n y')"

definition inflated_all :: "('i, 'd) flate \<Rightarrow> 'i \<Rightarrow> u8 list \<Rightarrow> u8 list \<Rightarrow> 'i \<Rightarrow> bool" where
  "inflated_all fl i y z i'' \<longleftrightarrow>
     (\<exists>z' i' y' space produced status. inflating fl i y z' i' y' \<and> 0 < space \<and>
        fl_decompress fl i' y' space = Some (length y', produced, status, i'') \<and> length produced < space \<and> z = z' @ produced)"

text \<open>
  The deflater takes a message up to \<open>limit\<close> bytes, call by call, without an error and in at most
  \<open>MAX_FRAME\<close> bytes (the bound of \<open>deflateBound\<close>).
\<close>

definition deflater_works :: "('i, 'd) flate \<Rightarrow> 'd \<Rightarrow> u8 list \<Rightarrow> bool" where
  "deflater_works fl d x \<longleftrightarrow>
     (\<forall>y d' x' space. deflating fl d x y d' x' \<and> 6 < space \<longrightarrow>
        (\<exists>n produced d''. fl_compress fl d' x' space = Some (n, produced, d'') \<and>
           takes_all_it_can x' space n produced \<and> length (y @ produced) \<le> MAX_FRAME))"

text \<open>The inflater takes the bytes \<open>y\<close> of a flushed stream without an error or an end of stream, and at no
  moment has it produced anything but a beginning of \<open>x\<close>.\<close>

definition inflater_works :: "('i, 'd) flate \<Rightarrow> 'i \<Rightarrow> u8 list \<Rightarrow> u8 list \<Rightarrow> bool" where
  "inflater_works fl i y x \<longleftrightarrow>
     (\<forall>z i' y' space. inflating fl i y z i' y' \<and> 0 < space \<longrightarrow>
        (\<exists>n produced status i''. fl_decompress fl i' y' space = Some (n, produced, status, i'') \<and>
           status \<noteq> Stream_end \<and> takes_all_it_can y' space n produced \<and> prefix (z @ produced) x))"

text \<open>
  The law of the codec (RFC 1951, and \<open>zlib\<close> on \<open>Z_SYNC_FLUSH\<close>): a flushed stream ends with the bytes of an
  empty stored block, an inflater that has seen the same messages as the deflater restores the message
  from the whole of it, and both are in step again.
\<close>

definition codec_law :: "('i, 'd) flate \<Rightarrow> ('d \<Rightarrow> 'i \<Rightarrow> bool) \<Rightarrow> nat \<Rightarrow> bool" where
  "codec_law fl in_step limit \<longleftrightarrow>
     in_step (fl_deflater_new fl) (fl_inflater_new fl) \<and>
     (\<forall>d i. in_step d i \<longrightarrow> in_step (fl_deflater_reset fl d) (fl_inflater_reset fl i)) \<and>
     (\<forall>d i x. in_step d i \<and> length x \<le> limit \<longrightarrow>
        deflater_works fl d x \<and>
        (\<forall>y d'. flushed fl d x y d' \<longrightarrow>
           suffix SYNC_TAIL y \<and> inflater_works fl i y x \<and> (\<forall>z i'. inflated_all fl i y z i' \<longrightarrow> z = x \<and> in_step d' i')))"

text \<open>Both loops end and have done all the calls: nothing is cut off, whatever the capacities.\<close>

lemma vec_reserve_room: "len \<le> capacity \<Longrightarrow> len + additional \<le> vec_reserve capacity len additional"
  by (auto simp: vec_reserve_def)

lemma deflate_room_enough: "length out \<le> capacity \<Longrightarrow> length out + 64 \<le> deflate_room input_len out capacity"
  using vec_reserve_room [of "length out" capacity "max input_len 1024"] by (auto simp: deflate_room_def)

lemma inflate_room_enough: "length out \<le> capacity \<Longrightarrow> length out + 4096 \<le> inflate_room input_len out capacity"
  using vec_reserve_room [of "length out" capacity "min (max (input_len * 4) (16 * 2 ^ 10)) (2 ^ 20)"]
  by (auto simp: inflate_room_def min_def split: if_splits)

lemma deflater_call:
  assumes "deflater_works fl d x" "deflating fl d x y d' x'" "6 < space"
  obtains n produced d'' where "fl_compress fl d' x' space = Some (n, produced, d'')"
    "takes_all_it_can x' space n produced" "length (y @ produced) \<le> MAX_FRAME"
  using assms unfolding deflater_works_def by blast

lemma deflate_loop_flushes:
  assumes "deflater_works fl d x" "deflating fl d x out d' rest" "length out \<le> capacity"
  shows "\<exists>y d''. deflate_loop fl input_len d' rest out capacity = Some (Inr (y, d'')) \<and> flushed fl d x y d''"
  using assms(2,3)
proof (induction "MAX_FRAME - length out" arbitrary: out d' rest capacity rule: less_induct)
  case less
  define cap where "cap = deflate_room input_len out capacity"
  have cap: "length out + 64 \<le> cap" using less.prems(2) by (simp add: cap_def deflate_room_enough)
  then have "6 < cap - length out" by simp
  with assms(1) less.prems(1) obtain n produced d'' where call: "fl_compress fl d' rest (cap - length out) = Some (n, produced, d'')"
    "takes_all_it_can rest (cap - length out) n produced" "length (out @ produced) \<le> MAX_FRAME"
    by (rule deflater_call)
  show ?case
  proof (cases "n = length rest \<and> length (out @ produced) < cap")
    case True
    then have "length produced < cap - length out" "fl_compress fl d' rest (cap - length out) = Some (length rest, produced, d'')"
      using call(1) by auto
    then have "flushed fl d x (out @ produced) d''"
      using less.prems(1) \<open>6 < cap - length out\<close> unfolding flushed_def by blast
    with True call(1) show ?thesis
      by (subst deflate_loop.simps) (simp add: Let_def flip: cap_def)
  next
    case False
    then have full: "length produced = cap - length out" using call(2) cap by (auto simp: takes_all_it_can_def)
    then have "deflating fl d x (out @ produced) d'' (drop n rest)"
      using less.prems(1) call(1) \<open>6 < cap - length out\<close> by (blast intro: deflating_call)
    with full cap call(3) have "\<exists>y e. deflate_loop fl input_len d'' (drop n rest) (out @ produced) cap = Some (Inr (y, e)) \<and> flushed fl d x y e"
      by (intro less.hyps) auto
    moreover have "produced \<noteq> []" using full cap by auto
    then have "deflate_loop fl input_len d' rest out capacity = deflate_loop fl input_len d'' (drop n rest) (out @ produced) cap"
      using False call(1) by (subst deflate_loop.simps) (auto simp: Let_def simp flip: cap_def)
    ultimately show ?thesis by simp
  qed
qed

lemma inflater_call:
  assumes "inflater_works fl i y x" "inflating fl i y z i' y'" "0 < space"
  obtains n produced status i'' where "fl_decompress fl i' y' space = Some (n, produced, status, i'')" "status \<noteq> Stream_end"
    "takes_all_it_can y' space n produced" "length (z @ produced) \<le> length x"
  using assms unfolding inflater_works_def by (blast intro: prefix_length_le)

lemma inflate_loop_inflates_all:
  assumes "inflater_works fl i y x" "inflating fl i y out i' rest" "length out \<le> capacity" "length x \<le> MAX_MESSAGE"
  shows "\<exists>z i''. inflate_loop fl input_len i' rest out capacity (length out) = Some (Inr (z, i'', length z)) \<and>
    inflated_all fl i y z i''"
  using assms(2,3)
proof (induction "length x - length out" arbitrary: out i' rest capacity rule: less_induct)
  case less
  define cap where "cap = inflate_room input_len out capacity"
  have cap: "length out + 4096 \<le> cap" using less.prems(2) by (simp add: cap_def inflate_room_enough)
  then have "0 < cap - length out" by simp
  with assms(1) less.prems(1) obtain n produced status i'' where
    call: "fl_decompress fl i' rest (cap - length out) = Some (n, produced, status, i'')" "status \<noteq> Stream_end"
    "takes_all_it_can rest (cap - length out) n produced" "length (out @ produced) \<le> length x"
    by (rule inflater_call)
  have limit: "\<not> MAX_MESSAGE < length out + length produced" using call(4) assms(4) by simp
  show ?case
  proof (cases "n = length rest \<and> length (out @ produced) < cap")
    case True
    then have "length produced < cap - length out" "fl_decompress fl i' rest (cap - length out) = Some (length rest, produced, status, i'')"
      using call(1) by auto
    then have "inflated_all fl i y (out @ produced) i''"
      using less.prems(1) \<open>0 < cap - length out\<close> unfolding inflated_all_def by blast
    with True call(1,2) limit show ?thesis
      by (subst inflate_loop.simps) (simp add: Let_def flip: cap_def)
  next
    case False
    then have full: "length produced = cap - length out" using call(3) cap by (auto simp: takes_all_it_can_def)
    then have "inflating fl i y (out @ produced) i'' (drop n rest)"
      using less.prems(1) call(1) \<open>0 < cap - length out\<close> by (blast intro: inflating_call)
    with full cap call(4) have "\<exists>z e. inflate_loop fl input_len i'' (drop n rest) (out @ produced) cap (length (out @ produced)) =
        Some (Inr (z, e, length z)) \<and> inflated_all fl i y z e"
      by (intro less.hyps) auto
    moreover have "produced \<noteq> []" using full cap by auto
    then have "inflate_loop fl input_len i' rest out capacity (length out) =
        inflate_loop fl input_len i'' (drop n rest) (out @ produced) cap (length (out @ produced))"
      using False call(1,2) limit by (subst inflate_loop.simps) (auto simp: Let_def simp flip: cap_def)
    ultimately show ?thesis by simp
  qed
qed

lemma strip_tail_restored: "suffix SYNC_TAIL y \<Longrightarrow> strip_tail y @ SYNC_TAIL = y"
  by (auto simp: strip_tail_def suffix_def)

lemma length_strip_tail: "length (strip_tail y) \<le> length y"
  by (simp add: strip_tail_def)

lemma flushed_bound:
  assumes "deflater_works fl d x" "flushed fl d x y d'"
  shows "length y \<le> MAX_FRAME"
proof -
  obtain y' d'' x' space produced where run: "deflating fl d x y' d'' x'" "6 < space"
    "fl_compress fl d'' x' space = Some (length x', produced, d')" "y = y' @ produced"
    using assms(2) unfolding flushed_def by blast
  from assms(1) run(1,2) show ?thesis by (rule deflater_call) (use run(3,4) in simp)
qed

text \<open>One message through both loops.\<close>

lemma message_through_codec:
  assumes "codec_law fl in_step limit" "in_step d i" "length x \<le> limit" "limit \<le> MAX_MESSAGE"
  obtains y d' i' where
    "deflate_loop fl (length x) d x [] (length x div 2 + 64) = Some (Inr (y, d'))" "length (strip_tail y) \<le> MAX_FRAME"
    "inflate_loop fl (length (strip_tail y @ SYNC_TAIL)) i (strip_tail y @ SYNC_TAIL) [] 0 0 = Some (Inr (x, i', length x))"
    "in_step d' i'"
proof -
  have works: "deflater_works fl d x" and flush: "\<And>y d'. flushed fl d x y d' \<Longrightarrow>
      suffix SYNC_TAIL y \<and> inflater_works fl i y x \<and> (\<forall>z i'. inflated_all fl i y z i' \<longrightarrow> z = x \<and> in_step d' i')"
    using assms(1-3) unfolding codec_law_def by blast+
  obtain y d' where y: "deflate_loop fl (length x) d x [] (length x div 2 + 64) = Some (Inr (y, d'))" "flushed fl d x y d'"
    using deflate_loop_flushes [OF works deflating_start] by fastforce
  have bound: "length y \<le> MAX_FRAME" using works y(2) by (rule flushed_bound)
  obtain z i' where z: "inflate_loop fl (length y) i y [] 0 0 = Some (Inr (z, i', length z))" "inflated_all fl i y z i'"
    using inflate_loop_inflates_all [OF _ inflating_start, of fl i y x 0 "length y"] flush [OF y(2)] assms(3,4) by auto
  have "z = x" "in_step d' i'" "strip_tail y @ SYNC_TAIL = y"
    using flush [OF y(2)] z(2) by (simp_all add: strip_tail_restored)
  with that [OF y(1)] z(1) bound length_strip_tail [of y] show ?thesis by auto
qed

text \<open>A frame as the WebSocket library writes it: a whole data message or a control frame, its length in
  the shortest form.\<close>

definition plain_frame :: "frame_header \<times> u8 list \<Rightarrow> u8 list" where
  "plain_frame f = header_write (fst f) False (length (snd f)) @ mask_with (h_mask (fst f)) (snd f)"

definition frame_ok :: "nat \<Rightarrow> frame_header \<times> u8 list \<Rightarrow> bool" where
  "frame_ok limit f \<longleftrightarrow> header_wf (fst f) \<and> length (snd f) \<le> limit \<and>
     (h_opcode (fst f) = 1 \<and> h_fin (fst f) \<or> h_opcode (fst f) = 2 \<and> h_fin (fst f) \<or> 8 \<le> h_opcode (fst f))"

definition current_deflater :: "('i, 'd) flate \<Rightarrow> ('i, 'd) deflate_stream \<Rightarrow> 'd" where
  "current_deflater fl st = (case ds_deflater st of None \<Rightarrow> fl_deflater_new fl | Some d \<Rightarrow> d)"

definition peers :: "('i, 'd) flate \<Rightarrow> ('d \<Rightarrow> 'i \<Rightarrow> bool) \<Rightarrow> ('i, 'd) deflate_stream \<Rightarrow> ('i, 'd) deflate_stream \<Rightarrow> bool" where
  "peers fl in_step sender receiver \<longleftrightarrow>
     ds_role sender \<noteq> ds_role receiver \<and> in_step (current_deflater fl sender) (ds_inflater receiver)"

lemma header_write_ignores:
  "header_write (h\<lparr>h_rsv1 := r, h_len := l, h_payload := n\<rparr>) rsv1 k = header_write h rsv1 k"
  by (simp add: header_write_def)

lemma parse_frame:
  assumes "header_wf h" "length y < 2 ^ 64"
  shows "header_parse ((header_write h rsv1 (length y) @ mask_with (h_mask h) y) @ rest) =
    Some (h\<lparr>h_rsv1 := rsv1, h_len := length (header_write h rsv1 (length y)), h_payload := length y\<rparr>)"
  using header_parse_write [OF assms, of rsv1 "mask_with (h_mask h) y @ rest"] by simp

lemma out_frames_step:
  assumes "header_wf h" "length y < 2 ^ 64" "frame = header_write h rsv1 (length y) @ mask_with (h_mask h) y"
    "out_frame fl p (h\<lparr>h_rsv1 := rsv1, h_len := length (header_write h rsv1 (length y)), h_payload := length y\<rparr>) frame st = Inr st'"
  shows "out_frames fl p (frame @ rest) st = out_frames fl p rest st'"
  using assms(4) parse_frame [OF assms(1,2), of rsv1 rest]
  by (subst out_frames.simps) (simp add: assms(3))

lemma in_frames_step:
  assumes "header_wf h" "length y \<le> MAX_FRAME" "frame = header_write h rsv1 (length y) @ mask_with (h_mask h) y"
    "in_frame fl p (h\<lparr>h_rsv1 := rsv1, h_len := length (header_write h rsv1 (length y)), h_payload := length y\<rparr>) frame st = Inr st'"
  shows "in_frames fl p (frame @ rest) st = in_frames fl p rest st'"
proof -
  have "length y < 2 ^ 64" using assms(2) by (simp add: MAX_FRAME_def)
  then show ?thesis
    using assms(2,4) parse_frame [OF assms(1), of y rsv1 rest]
    by (subst in_frames.simps) (simp add: assms(3))
qed

lemma reset_agree: "r \<noteq> r' \<Longrightarrow> reset_inflater r' p = reset_deflater r p"
  by (cases r; cases r') (simp_all add: reset_inflater_def reset_deflater_def)

text \<open>What one frame becomes on the wire, and back.\<close>

definition carried ::
    "('i, 'd) flate \<Rightarrow> params \<Rightarrow> u8 list \<Rightarrow> u8 list \<Rightarrow> ('i, 'd) deflate_stream \<Rightarrow> ('i, 'd) deflate_stream
     \<Rightarrow> ('i, 'd) deflate_stream \<Rightarrow> ('i, 'd) deflate_stream \<Rightarrow> bool" where
  "carried fl p plain wire sender sender' receiver receiver' \<longleftrightarrow>
     (\<forall>rest. out_frames fl p (plain @ rest) sender = out_frames fl p rest sender') \<and>
     ds_ready_out sender' = ds_ready_out sender @ wire \<and>
     (\<forall>rest. in_frames fl p (wire @ rest) receiver = in_frames fl p rest receiver') \<and>
     ds_ready_in receiver' = ds_ready_in receiver @ plain"

lemma carried_plain:
  assumes "frame_ok limit (h, x)" "limit \<le> MAX_FRAME" "\<not> (can_compress (ds_role sender) p \<and> (h_opcode h = 1 \<or> h_opcode h = 2))"
    "peers fl in_step sender receiver"
  obtains sender' receiver' where
    "carried fl p (plain_frame (h, x)) (plain_frame (h, x)) sender sender' receiver receiver'"
    "peers fl in_step sender' receiver'" "ds_role sender' = ds_role sender"
proof -
  let ?f = "plain_frame (h, x)"
  let ?h = "h\<lparr>h_rsv1 := False, h_len := length (header_write h False (length x)), h_payload := length x\<rparr>"
  have wf: "header_wf h" "length x \<le> MAX_FRAME" "length x < 2 ^ 64"
    using assms(1,2) by (auto simp: frame_ok_def MAX_FRAME_def)
  define sender' where "sender' = push_out ?f (if h_opcode h = 1 \<or> h_opcode h = 2 then count_sent (length x) (length x) sender else sender)"
  define receiver0 where "receiver0 = (if h_opcode h < 8 \<and> h_opcode h \<noteq> 0 then receiver\<lparr>ds_inflating := False, ds_inflated := 0\<rparr> else receiver)"
  define receiver' where "receiver' = push_in ?f (if h_opcode h < 8 then count_recv (length x) (length x) receiver0 else receiver0)"
  have "out_frame fl p ?h ?f sender = Inr sender'"
    using assms(3) by (auto simp: out_frame_def Let_def sender'_def)
  then have "out_frames fl p (?f @ rest) sender = out_frames fl p rest sender'" for rest
    using wf by (intro out_frames_step [of h x _ False]) (simp_all add: plain_frame_def)
  moreover have "in_frame fl p ?h ?f receiver = Inr receiver'"
    using assms(1) by (auto simp: in_frame_def Let_def receiver'_def receiver0_def frame_ok_def)
  then have "in_frames fl p (?f @ rest) receiver = in_frames fl p rest receiver'" for rest
    using wf by (intro in_frames_step [of h x _ False]) (simp_all add: plain_frame_def)
  ultimately show ?thesis
    using assms(4)
    by (intro that [of sender' receiver'])
      (simp_all add: carried_def sender'_def receiver'_def receiver0_def push_out_def push_in_def count_sent_def
        count_recv_def Let_def peers_def current_deflater_def)
qed

lemma carried_compressed:
  assumes "frame_ok limit (h, x)" "limit \<le> MAX_MESSAGE" "can_compress (ds_role sender) p" "h_opcode h = 1 \<or> h_opcode h = 2"
    "peers fl in_step sender receiver" "codec_law fl in_step limit"
  obtains wire sender' receiver' where
    "carried fl p (plain_frame (h, x)) wire sender sender' receiver receiver'"
    "peers fl in_step sender' receiver'" "ds_role sender' = ds_role sender"
proof -
  let ?f = "plain_frame (h, x)"
  let ?h = "h\<lparr>h_rsv1 := False, h_len := length (header_write h False (length x)), h_payload := length x\<rparr>"
  have wf: "header_wf h" "length x \<le> limit" "length x < 2 ^ 64" "h_fin h"
    using assms(1,2,4) by (auto simp: frame_ok_def MAX_MESSAGE_def word_le_nat_alt)
  have step: "in_step (current_deflater fl sender) (ds_inflater receiver)" "ds_role sender \<noteq> ds_role receiver"
    using assms(5) by (simp_all add: peers_def)
  obtain y d i where d: "deflate_loop fl (length x) (current_deflater fl sender) x [] (length x div 2 + 64) = Some (Inr (y, d))"
    "length (strip_tail y) \<le> MAX_FRAME"
    "inflate_loop fl (length (strip_tail y @ SYNC_TAIL)) (ds_inflater receiver) (strip_tail y @ SYNC_TAIL) [] 0 0 = Some (Inr (x, i, length x))"
    "in_step d i"
    using assms(6) step(1) wf(2) assms(2) by (rule message_through_codec)
  let ?y = "strip_tail y"
  let ?h' = "h\<lparr>h_rsv1 := True, h_len := length (header_write h True (length ?y)), h_payload := length ?y\<rparr>"
  define wire where "wire = header_write h True (length ?y) @ mask_with (h_mask h) ?y"
  define sent where "sent = push_out wire (count_sent (length x) (length ?y) (sender\<lparr>ds_deflater := Some d\<rparr>))"
  define sender' where "sender' = (if reset_deflater (ds_role sender) p
    then sent\<lparr>ds_deflater := map_option (fl_deflater_reset fl) (ds_deflater sent)\<rparr> else sent)"
  define got where "got = push_in ?f (count_recv (length ?y) (length x)
    (receiver\<lparr>ds_inflating := True, ds_inflated := length x, ds_inflater := i\<rparr>))"
  define receiver' where "receiver' = got\<lparr>ds_inflating := False,
    ds_inflater := (if reset_inflater (ds_role got) p then fl_inflater_reset fl (ds_inflater got) else ds_inflater got)\<rparr>"
  have "out_frame fl p ?h ?f sender = Inr sender'"
    using assms(3,4) wf(4) d(1)
    by (simp add: out_frame_def deflate_frame_def Let_def plain_frame_def sender'_def sent_def wire_def
        push_out_def count_sent_def header_write_ignores flip: current_deflater_def)
  then have "out_frames fl p (?f @ rest) sender = out_frames fl p rest sender'" for rest
    using wf by (intro out_frames_step [of h x _ False]) (simp_all add: plain_frame_def)
  moreover have "in_frame fl p ?h' wire receiver = Inr receiver'"
    using assms(2,4) wf(2,4) d(3)
    by (auto simp: in_frame_def Let_def inflate_frame_def plain_frame_def receiver'_def got_def wire_def
        push_in_def count_recv_def header_write_ignores)
  then have "in_frames fl p (wire @ rest) receiver = in_frames fl p rest receiver'" for rest
    using wf d(2) by (intro in_frames_step [of h ?y _ True]) (simp_all add: wire_def)
  moreover have "peers fl in_step sender' receiver'"
    using d(4) assms(6) step(2) reset_agree [OF step(2), of p]
    by (simp add: peers_def current_deflater_def sender'_def sent_def receiver'_def got_def push_in_def push_out_def
        count_sent_def count_recv_def Let_def codec_law_def)
  ultimately show ?thesis
    by (intro that [of wire sender' receiver'])
      (simp_all add: carried_def sender'_def sent_def receiver'_def got_def push_in_def push_out_def
        count_sent_def count_recv_def Let_def)
qed

lemma carried_frame:
  assumes "frame_ok limit f" "limit \<le> MAX_MESSAGE" "peers fl in_step sender receiver" "codec_law fl in_step limit"
  obtains wire sender' receiver' where
    "carried fl p (plain_frame f) wire sender sender' receiver receiver'"
    "peers fl in_step sender' receiver'" "ds_role sender' = ds_role sender"
proof -
  obtain h x where f: "f = (h, x)" by fastforce
  have limit: "limit \<le> MAX_FRAME" using assms(2) by (simp add: MAX_FRAME_def MAX_MESSAGE_def)
  show ?thesis
  proof (cases "can_compress (ds_role sender) p \<and> (h_opcode h = 1 \<or> h_opcode h = 2)")
    case True
    then show ?thesis using carried_compressed [of limit h x sender p] assms that unfolding f by metis
  next
    case False
    then show ?thesis using carried_plain [of limit h x sender p] assms limit that unfolding f by metis
  qed
qed

lemma header_parse_Nil [simp]: "header_parse [] = None"
  by (simp add: header_parse_def)

lemma carried_frames:
  assumes "\<forall>f\<in>set fs. frame_ok limit f" "limit \<le> MAX_MESSAGE" "peers fl in_step sender receiver" "codec_law fl in_step limit"
  shows "\<exists>wire sender' receiver'. out_frames fl p (concat (map plain_frame fs)) sender = Inr ([], sender') \<and>
    ds_ready_out sender' = ds_ready_out sender @ wire \<and>
    in_frames fl p wire receiver = Inr ([], receiver') \<and>
    ds_ready_in receiver' = ds_ready_in receiver @ concat (map plain_frame fs) \<and> peers fl in_step sender' receiver'"
  using assms(1,3)
proof (induction fs arbitrary: sender receiver)
  case Nil
  then show ?case by (auto simp: out_frames.simps [of fl p "[]"] in_frames.simps [of fl p "[]"])
next
  case (Cons f fs)
  obtain w s1 r1 where 1: "carried fl p (plain_frame f) w sender s1 receiver r1" "peers fl in_step s1 r1"
  proof (rule carried_frame [of limit f fl in_step sender receiver p])
    show "frame_ok limit f" "peers fl in_step sender receiver" using Cons.prems by simp_all
  qed (use assms(2,4) in auto)
  obtain wire s2 r2 where 2: "out_frames fl p (concat (map plain_frame fs)) s1 = Inr ([], s2)"
    "ds_ready_out s2 = ds_ready_out s1 @ wire" "in_frames fl p wire r1 = Inr ([], r2)"
    "ds_ready_in r2 = ds_ready_in r1 @ concat (map plain_frame fs)" "peers fl in_step s2 r2"
    using Cons.IH [OF _ 1(2)] Cons.prems(1) by auto
  show ?case
    using 1(1) 2 by (intro exI [of _ "w @ wire"] exI [of _ s2] exI [of _ r2]) (simp add: carried_def)
qed

section \<open>Properties\<close>

text \<open>A frame header that was written is read back: same flags, opcode and mask, the payload length it
  was written with, whichever of the three length forms that takes, and the exact header length.\<close>

theorem frame_header_roundtrip:
  assumes "header_wf h" "n < 2 ^ 64"
  shows "header_parse (header_write h rsv1 n @ rest) =
    Some (h\<lparr>h_rsv1 := rsv1, h_len := length (header_write h rsv1 n), h_payload := n\<rparr>)"
  using assms by (rule header_parse_write)

theorem frame_header_roundtrip_witness:
  "header_parse (header_write \<lparr>h_fin = True, h_rsv1 = False, h_rsv23 = 0, h_opcode = 2,
      h_mask = Some (1, 2, 3, 4), h_len = 0, h_payload = 0\<rparr> True 70000 @ [9]) =
   Some \<lparr>h_fin = True, h_rsv1 = True, h_rsv23 = 0, h_opcode = 2, h_mask = Some (1, 2, 3, 4),
      h_len = 14, h_payload = 70000\<rparr>"
  using frame_header_roundtrip [of "\<lparr>h_fin = True, h_rsv1 = False, h_rsv23 = 0, h_opcode = 2,
      h_mask = Some (1, 2, 3, 4), h_len = 0, h_payload = 0\<rparr>" 70000 True "[9]"]
  by (simp add: header_wf_def header_write_def mask_bytes_def)

text \<open>C2: compression is transparent. Over an agreed connection, whatever data messages and control frames
  the WebSocket library writes on one end, in any order, masked or not, the peer's layer hands on
  byte for byte, with the deflater and the inflater still in step for what follows.\<close>

theorem compressed_connection_transparent:
  assumes "codec_law fl in_step limit" "limit \<le> MAX_MESSAGE" "peers fl in_step sender receiver"
    "\<forall>f\<in>set fs. frame_ok limit f"
    "ds_write_head_done sender" "ds_agreement sender = Some (Some p)"
    "ds_raw_out sender = concat (map plain_frame fs)" "ds_ready_out sender = []"
    "ds_read_head_done receiver" "ds_agreement receiver = Some (Some p)" "ds_ready_in receiver = []"
  shows "\<exists>sender' receiver'. process_out fl sender = Inr sender' \<and>
    process_in fl (receiver\<lparr>ds_raw_in := ds_ready_out sender'\<rparr>) = Inr receiver' \<and>
    ds_ready_in receiver' = concat (map plain_frame fs) \<and> ds_raw_in receiver' = [] \<and>
    peers fl in_step sender' receiver'"
proof -
  obtain wire sender' where out: "out_frames fl p (concat (map plain_frame fs)) sender = Inr ([], sender')"
    "ds_ready_out sender' = wire"
    using carried_frames [OF assms(4,2,3,1), of p] assms(8) by auto
  define receiver0 where "receiver0 = receiver\<lparr>ds_raw_in := wire\<rparr>"
  have peers0: "peers fl in_step sender receiver0" using assms(3) by (simp add: peers_def receiver0_def)
  obtain receiver' where rcv: "in_frames fl p wire receiver0 = Inr ([], receiver')"
    "ds_ready_in receiver' = concat (map plain_frame fs)" "peers fl in_step sender' receiver'"
    using carried_frames [OF assms(4,2) peers0 assms(1), of p] out assms(8,11) by (auto simp: receiver0_def)
  have heads: "sender\<lparr>ds_write_head_done := True\<rparr> = sender" "receiver0\<lparr>ds_read_head_done := True\<rparr> = receiver0"
    using assms(5,9) by (cases sender; cases receiver; simp add: receiver0_def)+
  have r0: "ds_read_head_done receiver0" "ds_agreement receiver0 = Some (Some p)" "ds_raw_in receiver0 = wire"
    using assms(9,10) by (simp_all add: receiver0_def)
  have "process_out fl sender = Inr (sender'\<lparr>ds_raw_out := []\<rparr>)"
    "process_in fl receiver0 = Inr (receiver'\<lparr>ds_raw_in := []\<rparr>)"
    using assms(5-7) r0 out(1) rcv(1) by (simp_all add: process_out_def process_in_def heads)
  with rcv out(2) show ?thesis
    by (intro exI [of _ "sender'\<lparr>ds_raw_out := []\<rparr>"] exI [of _ "receiver'\<lparr>ds_raw_in := []\<rparr>"])
      (simp add: peers_def current_deflater_def receiver0_def)
qed

text \<open>A codec that keeps its input (stored, with the sync tail) and is as slow as the room it is given
  satisfies the law.\<close>

definition stored :: "(unit, u8 list option) flate" where
  "stored = \<lparr>fl_inflater_new = (),
     fl_decompress = (\<lambda>i y space.
       let plain = take (length y - 4) y
       in Some (if length plain \<le> space then length y else space, take space plain, Status_ok, i)),
     fl_inflater_reset = id,
     fl_deflater_new = None,
     fl_compress = (\<lambda>d x space.
       let pending = (case d of None \<Rightarrow> x @ SYNC_TAIL | Some bs \<Rightarrow> bs @ x)
       in Some (length x, take space pending, if length pending < space then None else Some (drop space pending))),
     fl_deflater_reset = id\<rparr>"

lemma stored_compress:
  "fl_compress stored d x space = (let pending = (case d of None \<Rightarrow> x @ SYNC_TAIL | Some bs \<Rightarrow> bs @ x)
     in Some (length x, take space pending, if length pending < space then None else Some (drop space pending)))"
  by (simp add: stored_def)

lemma stored_decompress:
  "fl_decompress stored i y space = (let plain = take (length y - 4) y
     in Some (if length plain \<le> space then length y else space, take space plain, Status_ok, i))"
  by (simp add: stored_def)

lemma stored_deflating:
  "deflating stored None x y d x' \<Longrightarrow>
     d = None \<and> x' = x \<and> y = [] \<or> x' = [] \<and> (\<exists>bs. d = Some bs \<and> y @ bs = x @ SYNC_TAIL)"
  by (induction rule: deflating.induct) (auto simp: stored_compress Let_def split: if_splits)

lemma length_SYNC_TAIL [simp]: "length SYNC_TAIL = 4"
  by (simp add: SYNC_TAIL_def)

lemma stored_deflater_works:
  assumes "length x \<le> 100"
  shows "deflater_works stored None x"
  unfolding deflater_works_def
proof (intro allI impI, elim conjE)
  fix y d' x' and space :: nat
  assume "deflating stored None x y d' x'" "6 < space"
  from stored_deflating [OF this(1)]
  show "\<exists>n produced d''. fl_compress stored d' x' space = Some (n, produced, d'') \<and>
      takes_all_it_can x' space n produced \<and> length (y @ produced) \<le> MAX_FRAME"
    using assms by (auto simp: stored_compress Let_def takes_all_it_can_def MAX_FRAME_def dest!: arg_cong [of _ _ length])
qed

lemma stored_flushed: "flushed stored None x y d \<Longrightarrow> y = x @ SYNC_TAIL \<and> d = None"
  by (auto simp: flushed_def stored_compress Let_def dest!: stored_deflating split: if_splits)

lemma stored_inflating:
  "inflating stored i (x @ SYNC_TAIL) z i' y' \<Longrightarrow> z = x \<and> y' = [] \<or> (\<exists>w. x = z @ w \<and> y' = w @ SYNC_TAIL)"
proof (induction rule: inflating.induct)
  case (inflating_call z i' y' space n produced status i'')
  then show ?case by (auto simp: stored_decompress Let_def split: if_splits)
qed simp

lemma stored_inflater_works: "inflater_works stored i (x @ SYNC_TAIL) x"
  unfolding inflater_works_def
proof (intro allI impI, elim conjE)
  fix z i' y' and space :: nat
  assume "inflating stored i (x @ SYNC_TAIL) z i' y'" "0 < space"
  from stored_inflating [OF this(1)]
  show "\<exists>n produced status i''. fl_decompress stored i' y' space = Some (n, produced, status, i'') \<and>
      status \<noteq> Stream_end \<and> takes_all_it_can y' space n produced \<and> prefix (z @ produced) x"
    by (auto simp: stored_decompress Let_def takes_all_it_can_def take_is_prefix)
qed

lemma stored_inflated_all: "inflated_all stored i (x @ SYNC_TAIL) z i' \<Longrightarrow> z = x"
  by (auto simp: inflated_all_def stored_decompress Let_def dest!: stored_inflating split: if_splits)

lemma stored_law: "codec_law stored (\<lambda>d i. d = None) 100"
  unfolding codec_law_def
  by (auto simp: stored_deflater_works stored_inflater_works dest!: stored_flushed stored_inflated_all intro: suffixI)
    (simp_all add: stored_def)

definition ping_pong_frames :: "(frame_header \<times> u8 list) list" where
  "ping_pong_frames =
     [(\<lparr>h_fin = True, h_rsv1 = False, h_rsv23 = 0, h_opcode = 1, h_mask = Some (1, 2, 3, 4), h_len = 0, h_payload = 0\<rparr>, [104, 105]),
      (\<lparr>h_fin = True, h_rsv1 = False, h_rsv23 = 0, h_opcode = 9, h_mask = None, h_len = 0, h_payload = 0\<rparr>, [])]"

definition agreed :: "role \<Rightarrow> (unit, u8 list option) deflate_stream" where
  "agreed r = (stream_new stored r \<lparr>c_offered = 0, c_negotiated = 0, c_bytes_sent = 0, c_wire_bytes_sent = 0,
       c_bytes_recv = 0, c_wire_bytes_recv = 0\<rparr>)
     \<lparr>ds_agreement := Some (Some params_default), ds_read_head_done := True, ds_write_head_done := True\<rparr>"

theorem compressed_connection_transparent_witness:
  "\<exists>sender' receiver'.
     process_out stored ((agreed Client)\<lparr>ds_raw_out := concat (map plain_frame ping_pong_frames)\<rparr>) = Inr sender' \<and>
     process_in stored ((agreed Server)\<lparr>ds_raw_in := ds_ready_out sender'\<rparr>) = Inr receiver' \<and>
     ds_ready_in receiver' = concat (map plain_frame ping_pong_frames)"
proof -
  have "\<forall>f\<in>set ping_pong_frames. frame_ok 100 f"
    by (simp add: ping_pong_frames_def frame_ok_def header_wf_def)
  moreover have "peers stored (\<lambda>d i. d = None) ((agreed Client)\<lparr>ds_raw_out := concat (map plain_frame ping_pong_frames)\<rparr>) (agreed Server)"
    by (simp add: peers_def agreed_def stream_new_def current_deflater_def stored_def)
  ultimately show ?thesis
    using compressed_connection_transparent [OF stored_law, of "(agreed Client)\<lparr>ds_raw_out := concat (map plain_frame ping_pong_frames)\<rparr>"
        "agreed Server" ping_pong_frames params_default]
    by (auto simp: agreed_def stream_new_def MAX_MESSAGE_def)
qed

text \<open>A connection whose server declined compression carries every byte unchanged, in both
  directions, and nothing is held back.\<close>

theorem declined_connection_passes_through:
  assumes "ds_agreement st = Some None" "ds_read_head_done st" "ds_write_head_done st"
  shows "process_in fl st = Inr (st\<lparr>ds_ready_in := ds_ready_in st @ ds_raw_in st, ds_raw_in := []\<rparr>) \<and>
    process_out fl st = Inr (st\<lparr>ds_ready_out := ds_ready_out st @ ds_raw_out st, ds_raw_out := []\<rparr>)"
proof -
  have heads: "st\<lparr>ds_write_head_done := True\<rparr> = st" "st\<lparr>ds_read_head_done := True\<rparr> = st"
    using assms(2,3) by (cases st; simp)+
  show ?thesis using assms by (simp add: process_in_def process_out_def heads)
qed

theorem declined_connection_passes_through_witness:
  "process_in stored ((agreed Client)\<lparr>ds_agreement := Some None, ds_raw_in := [1, 2]\<rparr>) =
     Inr ((agreed Client)\<lparr>ds_agreement := Some None, ds_ready_in := [1, 2], ds_raw_in := []\<rparr>)"
  using declined_connection_passes_through [of "(agreed Client)\<lparr>ds_agreement := Some None, ds_raw_in := [1, 2]\<rparr>" stored]
  by (simp add: agreed_def stream_new_def)

end
