(* ===== verification/Mock_Rules.thy ===== *)
theory Mock_Rules
  imports Load_Config
begin

text \<open>
  \<open>src/mock/rules.rs\<close>: the scripted replies of \<open>wsblast mock --rules FILE\<close>. A rules file is read by
  the YAML library into a \<open>RulesFile\<close> (a parameter: the library is not part of the sources), checked and
  compiled, and then decides what a connection sends back for every data frame it receives. The JSON of
  a frame is parsed where a rule or a template needs it; the source only avoids parsing it twice.
\<close>

section \<open>The file\<close>

datatype unmatched = Unmatched_Echo | Unmatched_Ignore

record 'n match_spec =
  mt_text :: "string option"
  mt_json :: "string option"
  mt_equals :: "'n json option"

datatype one_or_many = One string | Many "string list"

datatype close_spec = Close_Code nat | Close_Full nat string

record 'n rule_spec =
  rs_matcher :: "'n match_spec option"
  rs_after :: "nat option"
  rs_reply :: "one_or_many option"
  rs_delay :: "string option"
  rs_close :: "close_spec option"

record 'n rules_file =
  rf_version :: string
  rf_rules :: "'n rule_spec list"
  rf_unmatched :: unmatched

section \<open>Compiled rules\<close>

datatype 'n matcher =
    Match_Any
  | Match_Text string
  | Match_Json string "'n json option"

datatype reply_part =
    Literal string
  | Request_Part
  | Seq_Part
  | Json_Part string

record 'n rule =
  ru_matcher :: "'n matcher"
  ru_after :: nat
  ru_replies :: "reply_part list list"
  ru_delay :: "duration option"
  ru_close :: "(nat \<times> string) option"

record 'n rules =
  rl_source :: string
  rl_rules :: "'n rule list"
  rl_unmatched :: unmatched

datatype decision =
    Decide_Echo
  | Decide_Ignore
  | Decide_Reply "message list" "duration option" "(nat \<times> string) option"

datatype rule_error =
    Match_not_a_pointer string
  | Match_text_and_json
  | Equals_needs_json
  | Match_empty
  | After_zero
  | Reply_or_close_needed
  | Reply_not_closed string
  | Reply_unknown_name string string
  | Delay_invalid config_error
  | Close_not_sendable nat
  | Close_reason_long

datatype rules_error =
    Rules_not_read string
  | Rules_not_parsed string
  | Rules_version string string
  | Rules_empty string
  | Rule_invalid string nat rule_error

section \<open>Reply templates\<close>

definition reply_placeholder :: "string \<Rightarrow> reply_part option" where
  "reply_placeholder name =
     (if name = ''request'' then Some Request_Part
      else if name = ''seq'' then Some Seq_Part
      else (case strip_prefix ''json:'' name of
          Some pointer \<Rightarrow> (if prefix ''/'' pointer then Some (Json_Part pointer) else None)
        | None \<Rightarrow> None))"

definition push_literal :: "string \<Rightarrow> reply_part list \<Rightarrow> reply_part list" where
  "push_literal s parts = (if s \<noteq> [] then parts @ [Literal s] else parts)"

function reply_loop :: "string \<Rightarrow> string \<Rightarrow> reply_part list \<Rightarrow> rule_error + reply_part list" where
  "reply_loop raw rest parts =
     (case str_find ''{{'' rest of
        None \<Rightarrow> Inr (push_literal rest parts)
      | Some start \<Rightarrow>
          (let after_open = drop (start + 2) rest
           in case str_find ''}}'' after_open of
                None \<Rightarrow> Inl (Reply_not_closed raw)
              | Some len \<Rightarrow>
                  (let name = trim (take len after_open)
                   in case reply_placeholder name of
                        None \<Rightarrow> Inl (Reply_unknown_name raw name)
                      | Some p \<Rightarrow>
                          reply_loop raw (drop (len + 2) after_open)
                            (push_literal (take start rest) parts @ [p]))))"
  by pat_completeness auto
termination
  by (relation "measure (\<lambda>(_, rest, _). length rest)") (auto dest!: str_find_bound)

declare reply_loop.simps [simp del]

definition reply_parse :: "string \<Rightarrow> rule_error + reply_part list" where
  "reply_parse raw = reply_loop raw raw []"

fun reply_part_text :: "'n serde_json \<Rightarrow> string \<Rightarrow> nat \<Rightarrow> 'n json option \<Rightarrow> reply_part \<Rightarrow> string" where
  "reply_part_text sj request seq json (Literal s) = s"
| "reply_part_text sj request seq json Request_Part = request"
| "reply_part_text sj request seq json Seq_Part = show_nat seq"
| "reply_part_text sj request seq json (Json_Part pointer) =
     (case Option.bind json (json_pointer sj pointer) of
        Some v \<Rightarrow> to_string sj v
      | None \<Rightarrow> ''null'')"

definition reply_render :: "'n serde_json \<Rightarrow> reply_part list \<Rightarrow> string \<Rightarrow> nat \<Rightarrow> 'n json option \<Rightarrow> string" where
  "reply_render sj parts request seq json =
     foldl (\<lambda>out part. out @ reply_part_text sj request seq json part) [] parts"

section \<open>Compiling\<close>

definition compile_matcher :: "'n match_spec option \<Rightarrow> rule_error + 'n matcher" where
  "compile_matcher spec =
     (case spec of
        None \<Rightarrow> Inr Match_Any
      | Some m \<Rightarrow>
          (case (mt_text m, mt_json m, mt_equals m) of
             (Some s, None, None) \<Rightarrow> Inr (Match_Text s)
           | (None, Some pointer, equals) \<Rightarrow>
               (if prefix ''/'' pointer then Inr (Match_Json pointer equals)
                else Inl (Match_not_a_pointer pointer))
           | (Some _, Some _, _) \<Rightarrow> Inl Match_text_and_json
           | (Some _, _, Some _) \<Rightarrow> Inl Equals_needs_json
           | _ \<Rightarrow> Inl Match_empty))"

fun reply_texts :: "one_or_many option \<Rightarrow> string list" where
  "reply_texts None = []"
| "reply_texts (Some (One one)) = [one]"
| "reply_texts (Some (Many many)) = many"

fun close_of :: "close_spec option \<Rightarrow> (nat \<times> string) option" where
  "close_of None = None"
| "close_of (Some (Close_Code code)) = Some (code, [])"
| "close_of (Some (Close_Full code reason)) = Some (code, reason)"

definition check_close :: "(nat \<times> string) option \<Rightarrow> rule_error + unit" where
  "check_close close =
     (case close of
        None \<Rightarrow> Inr ()
      | Some (code, reason) \<Rightarrow>
          (if \<not> is_sendable_close_code code then Inl (Close_not_sendable code)
           else if length reason > 123 then Inl Close_reason_long
           else Inr ()))"

definition rule_compile :: "'n rule_spec \<Rightarrow> rule_error + 'n rule" where
  "rule_compile spec =
     and_then (compile_matcher (rs_matcher spec)) (\<lambda>matcher.
       (let after = (case rs_after spec of Some n \<Rightarrow> n | None \<Rightarrow> 1)
        in if after = 0 then Inl After_zero
           else if rs_reply spec = None \<and> rs_close spec = None then Inl Reply_or_close_needed
           else
             and_then (collect_results reply_parse (reply_texts (rs_reply spec))) (\<lambda>replies.
               and_then (transpose_opt (\<lambda>raw. map_err Delay_invalid (parse_human_duration raw)) (rs_delay spec)) (\<lambda>delay.
                 (let close = close_of (rs_close spec)
                  in and_then (check_close close) (\<lambda>_.
                       Inr \<lparr>ru_matcher = matcher, ru_after = after, ru_replies = replies,
                            ru_delay = delay, ru_close = close\<rparr>))))))"

definition rules_parse ::
    "(string \<Rightarrow> 'n rules_file option) \<Rightarrow> string \<Rightarrow> string \<Rightarrow> rules_error + 'n rules" where
  "rules_parse from_yaml input source =
     and_then (ok_or (Rules_not_parsed source) (from_yaml input)) (\<lambda>file.
       if rf_version file \<noteq> ''1.0'' then Inl (Rules_version source (rf_version file))
       else if rf_rules file = [] then Inl (Rules_empty source)
       else
         and_then (collect_results
             (\<lambda>(index, spec). map_err (Rule_invalid source (index + 1)) (rule_compile spec))
             (enumerate 0 (rf_rules file))) (\<lambda>rules.
           Inr \<lparr>rl_source = source, rl_rules = rules, rl_unmatched = rf_unmatched file\<rparr>))"

text \<open>\<open>Rules::load\<close>: the file's content is what the file system answers.\<close>

definition rules_load ::
    "(string \<Rightarrow> 'n rules_file option) \<Rightarrow> string option \<Rightarrow> string \<Rightarrow> rules_error + 'n rules" where
  "rules_load from_yaml content source =
     and_then (ok_or (Rules_not_read source) content) (\<lambda>input. rules_parse from_yaml input source)"

section \<open>Deciding\<close>

definition frame_text :: "message \<Rightarrow> string option" where
  "frame_text frame =
     (case frame of
        Msg_Text s \<Rightarrow> Some s
      | Msg_Binary b \<Rightarrow> from_utf8 b
      | _ \<Rightarrow> None)"

definition frame_json :: "'n serde_json \<Rightarrow> message \<Rightarrow> 'n json option" where
  "frame_json sj frame = Option.bind (frame_text frame) (from_str sj)"

definition rule_matches :: "'n serde_json \<Rightarrow> message \<Rightarrow> 'n matcher \<Rightarrow> bool" where
  "rule_matches sj frame m =
     (case m of
        Match_Any \<Rightarrow> True
      | Match_Text expected \<Rightarrow> (case frame of Msg_Text s \<Rightarrow> s = expected | _ \<Rightarrow> False)
      | Match_Json pointer equals \<Rightarrow>
          (case (Option.bind (frame_json sj frame) (json_pointer sj pointer), equals) of
             (Some found, Some expected) \<Rightarrow> found = expected
           | (Some _, None) \<Rightarrow> True
           | (None, _) \<Rightarrow> False))"

fun is_json_part :: "reply_part \<Rightarrow> bool" where
  "is_json_part (Json_Part _) = True"
| "is_json_part _ = False"

definition rule_reply :: "'n serde_json \<Rightarrow> message \<Rightarrow> nat \<Rightarrow> 'n rule \<Rightarrow> decision" where
  "rule_reply sj frame seq r =
     (let needs_json = list_ex (list_ex is_json_part) (ru_replies r);
          value = (if needs_json then frame_json sj frame else None);
          request = (case frame_text frame of Some s \<Rightarrow> s | None \<Rightarrow> [])
      in Decide_Reply
           (map (\<lambda>t. Msg_Text (reply_render sj t request seq value)) (ru_replies r))
           (ru_delay r) (ru_close r))"

fun decide_rules :: "'n serde_json \<Rightarrow> message \<Rightarrow> nat \<Rightarrow> 'n rule list \<Rightarrow> decision option" where
  "decide_rules sj frame seq [] = None"
| "decide_rules sj frame seq (r # rs) =
     (if seq < ru_after r then decide_rules sj frame seq rs
      else if \<not> rule_matches sj frame (ru_matcher r) then decide_rules sj frame seq rs
      else Some (rule_reply sj frame seq r))"

definition decide :: "'n serde_json \<Rightarrow> 'n rules \<Rightarrow> message \<Rightarrow> nat \<Rightarrow> decision" where
  "decide sj rules frame seq =
     (case decide_rules sj frame seq (rl_rules rules) of
        Some d \<Rightarrow> d
      | None \<Rightarrow> (case rl_unmatched rules of Unmatched_Echo \<Rightarrow> Decide_Echo | Unmatched_Ignore \<Rightarrow> Decide_Ignore))"

section \<open>What a template sends\<close>

text \<open>How a list of parts is written in a rules file, and the lists that can be read back: a literal
  is not empty, does not hold the opening braces, and is followed by a placeholder; a pointer does not hold
  the closing ones.\<close>

fun part_source_text :: "reply_part \<Rightarrow> string" where
  "part_source_text (Literal s) = s"
| "part_source_text Request_Part = ''{{request}}''"
| "part_source_text Seq_Part = ''{{seq}}''"
| "part_source_text (Json_Part pointer) = ''{{json:'' @ pointer @ ''}}''"

fun is_literal :: "reply_part \<Rightarrow> bool" where
  "is_literal (Literal _) = True"
| "is_literal _ = False"

fun writable_part :: "reply_part \<Rightarrow> bool" where
  "writable_part (Literal s) = (s \<noteq> [] \<and> \<not> sublist ''{{'' s)"
| "writable_part (Json_Part p) =
     (prefix ''/'' p \<and> \<not> sublist ''}}'' p \<and> last p \<noteq> CHR ''}'' \<and> trim (''json:'' @ p) = ''json:'' @ p)"
| "writable_part _ = True"

fun writable_reply :: "reply_part list \<Rightarrow> bool" where
  "writable_reply [] = True"
| "writable_reply (p # ps) =
     (writable_part p \<and> writable_reply ps \<and>
      (is_literal p \<and> ps \<noteq> [] \<longrightarrow> \<not> is_literal (hd ps) \<and> last (part_source_text p) \<noteq> CHR ''{''))"

lemma str_find_pair_literal:
  "\<lbrakk>\<not> sublist [c, c] a; a \<noteq> [] \<longrightarrow> last a \<noteq> c\<rbrakk> \<Longrightarrow> str_find [c, c] (a @ c # c # b) = Some (length a)"
proof (induction a)
  case (Cons x a)
  then have "\<not> prefix [c, c] (x # a @ c # c # b)"
    by (cases a) (auto simp: sublist_Cons_right)
  moreover have "str_find [c, c] (a @ c # c # b) = Some (length a)"
    using Cons by (cases a) (auto simp: sublist_Cons_right)
  ultimately show ?case by simp
qed simp

lemma reply_loop_literal_end:
  "\<not> sublist ''{{'' s \<Longrightarrow> reply_loop raw s parts = Inr (push_literal s parts)"
  by (subst reply_loop.simps) (simp add: str_find_None_iff [symmetric])

lemma reply_loop_placeholder:
  assumes "\<not> sublist ''{{'' s" "s \<noteq> [] \<longrightarrow> last s \<noteq> CHR ''{''"
    and "\<not> sublist ''}}'' name" "name \<noteq> [] \<longrightarrow> last name \<noteq> CHR ''}''"
    and "reply_placeholder (trim name) = Some p"
  shows "reply_loop raw (s @ ''{{'' @ name @ ''}}'' @ rest) parts =
    reply_loop raw rest (push_literal s parts @ [p])"
  using assms str_find_pair_literal [of "CHR ''{''" s "name @ ''}}'' @ rest"]
    str_find_pair_literal [of "CHR ''}''" name rest]
  by (subst reply_loop.simps) (simp add: Let_def)

lemma trim_names: "trim ''request'' = ''request''" "trim ''seq'' = ''seq''"
  by code_simp+

lemma sublist_append_clean:
  assumes "\<not> sublist [c, c] p" "c \<notin> set q"
  shows "\<not> sublist [c, c] (q @ p)"
  using assms by (induction q) (auto simp: sublist_Cons_right prefix_Cons)

text \<open>The name between the braces of a placeholder, for the parts that are placeholders.\<close>

fun part_name :: "reply_part \<Rightarrow> string" where
  "part_name Request_Part = ''request''"
| "part_name Seq_Part = ''seq''"
| "part_name (Json_Part p) = ''json:'' @ p"
| "part_name (Literal s) = []"

lemma json_name_clean: "\<not> sublist ''}}'' p \<Longrightarrow> \<not> sublist ''}}'' (''json:'' @ p)"
  by (rule sublist_append_clean) simp_all

lemma part_name_reads:
  assumes "writable_part p" "\<not> is_literal p"
  shows "part_source_text p = ''{{'' @ part_name p @ ''}}''"
    and "\<not> sublist ''}}'' (part_name p)" and "last (part_name p) \<noteq> CHR ''}''"
    and "reply_placeholder (trim (part_name p)) = Some p"
proof -
  show "part_source_text p = ''{{'' @ part_name p @ ''}}''" using assms by (cases p) simp_all
  show "\<not> sublist ''}}'' (part_name p)" 
    using assms json_name_clean by (cases p) (auto simp: sublist_Cons_right)
  show "last (part_name p) \<noteq> CHR ''}''" using assms by (cases p) auto
  show "reply_placeholder (trim (part_name p)) = Some p"
    using assms by (cases p) (simp_all add: trim_names reply_placeholder_def strip_prefix_def)
qed

lemma reply_loop_part:
  assumes "writable_part p" "\<not> is_literal p"
  shows "reply_loop raw (part_source_text p @ rest) parts = reply_loop raw rest (parts @ [p])"
  using part_name_reads [OF assms] reply_loop_placeholder [of "[]" "part_name p" p raw rest parts]
  by (simp add: push_literal_def)

lemma reply_loop_literal_part:
  assumes "writable_part p" "\<not> is_literal p" "writable_part (Literal s)" "last s \<noteq> CHR ''{''"
  shows "reply_loop raw (s @ part_source_text p @ rest) parts = reply_loop raw rest (parts @ [Literal s, p])"
  using part_name_reads [OF assms(1,2)] assms(3,4) reply_loop_placeholder [of s "part_name p" p raw rest parts]
  by (simp add: push_literal_def)

lemma reply_loop_writes:
  assumes "writable_reply ps"
  shows "reply_loop raw (concat (map part_source_text ps)) parts = Inr (parts @ ps)"
  using assms
proof (induction ps arbitrary: parts rule: writable_reply.induct)
  case 1
  show ?case by (simp add: reply_loop_literal_end push_literal_def)
next
  case (2 p ps)
  show ?case
  proof (cases "is_literal p")
    case False
    with 2 show ?thesis by (simp add: reply_loop_part)
  next
    case True
    then obtain s where p: "p = Literal s" by (cases p) simp_all
    show ?thesis
    proof (cases ps)
      case Nil
      with 2 p show ?thesis by (simp add: reply_loop_literal_end push_literal_def)
    next
      case (Cons q qs)
      with 2 p have q: "writable_part q" "\<not> is_literal q" and
        s: "writable_part (Literal s)" "last s \<noteq> CHR ''{''" by auto
      have "writable_reply ps" using "2.prems" by simp
      from "2.IH" [OF this, of "parts @ [Literal s]"] show ?thesis
        by (simp add: Cons p reply_loop_part [OF q] reply_loop_literal_part [OF q s])
    qed
  qed
qed

lemma reply_render_concat:
  "reply_render sj parts request seq json = concat (map (reply_part_text sj request seq json) parts)"
proof -
  have "foldl (\<lambda>out part. out @ f part) out ps = out @ concat (map f ps)" for f :: "reply_part \<Rightarrow> string" and out ps
    by (induction ps arbitrary: out) simp_all
  then show ?thesis by (simp add: reply_render_def)
qed

text \<open>A reply template is read as it was written: the text of a list of parts (literals, the request,
  the frame's number and JSON pointers) is parsed back to those parts, and what it sends for a frame
  is the literals as they are, with the request, the number and the JSON values in their places.\<close>

theorem reply_template_roundtrip:
  assumes "writable_reply parts"
  shows "reply_parse (concat (map part_source_text parts)) = Inr parts \<and>
    reply_render sj parts request seq json = concat (map (\<lambda>p. case p of
        Literal s \<Rightarrow> s
      | Request_Part \<Rightarrow> request
      | Seq_Part \<Rightarrow> show_nat seq
      | Json_Part pointer \<Rightarrow>
          (case Option.bind json (json_pointer sj pointer) of Some v \<Rightarrow> to_string sj v | None \<Rightarrow> ''null'')) parts)"
proof
  show "reply_parse (concat (map part_source_text parts)) = Inr parts"
    using reply_loop_writes [OF assms, of _ "[]"] by (simp add: reply_parse_def)
  have part: "reply_part_text sj request seq json = (\<lambda>p. case p of
        Literal s \<Rightarrow> s
      | Request_Part \<Rightarrow> request
      | Seq_Part \<Rightarrow> show_nat seq
      | Json_Part pointer \<Rightarrow>
          (case Option.bind json (json_pointer sj pointer) of Some v \<Rightarrow> to_string sj v | None \<Rightarrow> ''null''))"
    by (rule ext) (simp split: reply_part.split)
  show "reply_render sj parts request seq json = concat (map (\<lambda>p. case p of
        Literal s \<Rightarrow> s
      | Request_Part \<Rightarrow> request
      | Seq_Part \<Rightarrow> show_nat seq
      | Json_Part pointer \<Rightarrow>
          (case Option.bind json (json_pointer sj pointer) of Some v \<Rightarrow> to_string sj v | None \<Rightarrow> ''null'')) parts)"
    by (simp only: reply_render_concat part)
qed

lemma show_7: "show_nat 7 = ''7''"
  by code_simp

theorem reply_template_roundtrip_witness:
  "reply_parse ''ack {{seq}}/{{json:/id}}'' = Inr [Literal ''ack '', Seq_Part, Literal ''/'', Json_Part ''/id'']
   \<and> reply_render numbered_json [Literal ''ack '', Seq_Part, Literal ''/'', Json_Part ''/id''] [] 7 None = ''ack 7/null''"
proof -
  have "writable_reply [Literal ''ack '', Seq_Part, Literal ''/'', Json_Part ''/id'']"
    by code_simp
  from reply_template_roundtrip [OF this, of numbered_json "[]" 7 None] show ?thesis
    by (simp add: show_7)
qed

section \<open>What rules may decide\<close>

definition close_ok :: "(nat \<times> string) option \<Rightarrow> bool" where
  "close_ok close \<longleftrightarrow>
     (\<forall>code reason. close = Some (code, reason) \<longrightarrow> is_sendable_close_code code \<and> length reason \<le> 123)"

definition matcher_ok :: "'n matcher \<Rightarrow> bool" where
  "matcher_ok m \<longleftrightarrow> (\<forall>pointer equals. m = Match_Json pointer equals \<longrightarrow> prefix ''/'' pointer)"

definition rule_ok :: "'n rule \<Rightarrow> bool" where
  "rule_ok r \<longleftrightarrow> 1 \<le> ru_after r \<and> matcher_ok (ru_matcher r) \<and> close_ok (ru_close r)
     \<and> (\<forall>d. ru_delay r = Some d \<longrightarrow> d \<le> duration_max)
     \<and> (\<forall>t\<in>set (ru_replies r). \<forall>pointer. Json_Part pointer \<in> set t \<longrightarrow> prefix ''/'' pointer)"

lemma check_close_ok: "check_close close = Inr () \<longleftrightarrow> close_ok close"
  by (auto simp: check_close_def close_ok_def split: option.splits)

lemma compile_matcher_ok: "compile_matcher spec = Inr m \<Longrightarrow> matcher_ok m"
  by (auto simp: compile_matcher_def matcher_ok_def split: option.splits if_splits)

lemma reply_placeholder_pointer: "reply_placeholder name = Some (Json_Part p) \<Longrightarrow> prefix ''/'' p"
  by (auto simp: reply_placeholder_def split: if_splits option.splits)

lemma push_literal_set: "set (push_literal s parts) \<subseteq> insert (Literal s) (set parts)"
  by (auto simp: push_literal_def)

lemma reply_loop_pointers:
  assumes "reply_loop raw rest parts = Inr t" "\<And>p. Json_Part p \<in> set parts \<Longrightarrow> prefix ''/'' p"
    "Json_Part p \<in> set t"
  shows "prefix ''/'' p"
  using assms
proof (induction raw rest parts rule: reply_loop.induct)
  case (1 raw rest parts)
  show ?case
  proof (cases "str_find ''{{'' rest")
    case None
    with "1.prems" show ?thesis
      by (auto simp: reply_loop.simps [of raw rest] push_literal_def split: if_splits)
  next
    case (Some start)
    with "1.prems"(1) obtain len q where len: "str_find ''}}'' (drop (start + 2) rest) = Some len"
      and q: "reply_placeholder (trim (take len (drop (start + 2) rest))) = Some q"
      and go: "reply_loop raw (drop (len + 2) (drop (start + 2) rest)) (push_literal (take start rest) parts @ [q]) = Inr t"
      by (auto simp: reply_loop.simps [of raw rest] Let_def split: option.splits)
    show ?thesis
    proof (rule "1.IH" [OF Some refl len refl q go _ "1.prems"(3)])
      fix p
      assume "Json_Part p \<in> set (push_literal (take start rest) parts @ [q])"
      then show "prefix ''/'' p"
        using push_literal_set [of "take start rest" parts] q "1.prems"(2) reply_placeholder_pointer by auto
    qed
  qed
qed

lemma reply_parse_pointers: "\<lbrakk>reply_parse raw = Inr t; Json_Part p \<in> set t\<rbrakk> \<Longrightarrow> prefix ''/'' p"
  unfolding reply_parse_def by (rule reply_loop_pointers) auto

lemma rule_compile_ok:
  assumes "rule_compile spec = Inr r"
  shows "rule_ok r"
proof -
  from assms obtain m ts d where m: "compile_matcher (rs_matcher spec) = Inr m"
    and ts: "collect_results reply_parse (reply_texts (rs_reply spec)) = Inr ts"
    and d: "transpose_opt (\<lambda>raw. map_err Delay_invalid (parse_human_duration raw)) (rs_delay spec) = Inr d"
    and c: "check_close (close_of (rs_close spec)) = Inr ()"
    and after: "(case rs_after spec of Some n \<Rightarrow> n | None \<Rightarrow> 1) \<noteq> 0"
    and r: "r = \<lparr>ru_matcher = m, ru_after = (case rs_after spec of Some n \<Rightarrow> n | None \<Rightarrow> 1), ru_replies = ts,
                 ru_delay = d, ru_close = close_of (rs_close spec)\<rparr>"
    by (auto simp: rule_compile_def Let_def and_then_Inr_iff split: if_splits)
  have "prefix ''/'' p" if "t \<in> set ts" "Json_Part p \<in> set t" for t p
    using collect_results_all [OF ts, of "\<lambda>t. \<forall>p. Json_Part p \<in> set t \<longrightarrow> prefix ''/'' p"]
      reply_parse_pointers that by blast
  moreover have "d' \<le> duration_max" if "d = Some d'" for d'
    using d that by (auto simp: transpose_opt_Inr_iff dest: parse_human_duration_max split: option.splits)
  moreover have "1 \<le> (case rs_after spec of Some n \<Rightarrow> n | None \<Rightarrow> 1)" using after by simp
  ultimately show ?thesis
    using compile_matcher_ok [OF m] c by (simp add: rule_ok_def r check_close_ok)
qed

lemma rules_parse_ok:
  assumes "rules_parse from_yaml input source = Inr rules"
  shows "rl_rules rules \<noteq> []" "\<forall>r\<in>set (rl_rules rules). rule_ok r" "rl_source rules = source"
proof -
  from assms obtain f where f: "from_yaml input = Some f"
    by (cases "from_yaml input") (simp_all add: rules_parse_def)
  have ne: "rf_rules f \<noteq> []" using assms by (simp add: rules_parse_def f split: if_splits)
  obtain rs where rs: "collect_results (\<lambda>(index, spec). map_err (Rule_invalid source (index + 1)) (rule_compile spec))
             (enumerate 0 (rf_rules f)) = Inr rs" and rules: "rl_rules rules = rs" "rl_source rules = source"
    using assms by (auto simp: rules_parse_def f and_then_Inr_iff split: if_splits)
  show "rl_rules rules \<noteq> []" using collect_results_length [OF rs] ne rules by auto
  have "rule_ok r" if "r \<in> set rs" for r
    by (rule collect_results_all [OF rs _ that]) (auto dest: rule_compile_ok)
  with rules show "\<forall>r\<in>set (rl_rules rules). rule_ok r" "rl_source rules = source" by simp_all
qed

lemma decide_rules_find:
  "decide_rules sj frame seq rs =
     map_option (rule_reply sj frame seq) (find (\<lambda>r. ru_after r \<le> seq \<and> rule_matches sj frame (ru_matcher r)) rs)"
  by (induction rs) auto

definition rule_applies :: "'n serde_json \<Rightarrow> message \<Rightarrow> nat \<Rightarrow> 'n rule \<Rightarrow> bool" where
  "rule_applies sj frame seq r \<longleftrightarrow> ru_after r \<le> seq \<and> rule_matches sj frame (ru_matcher r)"

lemma find_split:
  assumes "find P xs = Some x"
  shows "\<exists>pre post. xs = pre @ x # post \<and> (\<forall>y\<in>set pre. \<not> P y) \<and> P x"
proof -
  from assms obtain i where i: "i < length xs" "P (xs ! i)" "x = xs ! i" "\<forall>j<i. \<not> P (xs ! j)"
    by (auto simp: find_Some_iff)
  then have "xs = take i xs @ x # drop (Suc i) xs" by (simp add: id_take_nth_drop)
  moreover have "\<forall>y\<in>set (take i xs). \<not> P y" using i by (auto simp: in_set_conv_nth)
  ultimately show ?thesis using i by blast
qed

lemma decide_cases:
  "(\<exists>pre r post. rl_rules rules = pre @ r # post \<and> (\<forall>q\<in>set pre. \<not> rule_applies sj frame seq q)
      \<and> rule_applies sj frame seq r \<and> decide sj rules frame seq = rule_reply sj frame seq r)
   \<or> (\<forall>q\<in>set (rl_rules rules). \<not> rule_applies sj frame seq q)
      \<and> decide sj rules frame seq =
          (case rl_unmatched rules of Unmatched_Echo \<Rightarrow> Decide_Echo | Unmatched_Ignore \<Rightarrow> Decide_Ignore)"
proof (cases "find (rule_applies sj frame seq) (rl_rules rules)")
  case None
  then have "\<forall>q\<in>set (rl_rules rules). \<not> rule_applies sj frame seq q" by (auto simp: find_None_iff)
  then show ?thesis using None by (simp add: decide_def decide_rules_find rule_applies_def [abs_def])
next
  case (Some r)
  then have "decide sj rules frame seq = rule_reply sj frame seq r"
    by (simp add: decide_def decide_rules_find rule_applies_def [abs_def])
  then show ?thesis using find_split [OF Some] by blast
qed

lemma decide_reply_rule:
  assumes "decide sj rules frame seq = Decide_Reply frames delay close"
  obtains r where "r \<in> set (rl_rules rules)" "rule_reply sj frame seq r = Decide_Reply frames delay close"
  using decide_cases [of rules sj frame seq] assms
  by (cases "rl_unmatched rules") (auto intro!: that)

text \<open>C30: a rules file that loads answers every frame as documented. The first rule that applies (its
  frame number is reached and its matcher fits) decides, and a frame no rule applies to is echoed or ignored as the
  file says; what a rule sends is text frames after a representable delay, and a close it asks for is
  one a server may send: a sendable code with a reason that fits a close frame.\<close>

theorem loaded_rules_decide:
  assumes "rules_load from_yaml content source = Inr rules"
  shows "((\<exists>pre r post. rl_rules rules = pre @ r # post \<and> (\<forall>q\<in>set pre. \<not> rule_applies sj frame seq q)
            \<and> rule_applies sj frame seq r \<and> decide sj rules frame seq = rule_reply sj frame seq r)
        \<or> (\<forall>q\<in>set (rl_rules rules). \<not> rule_applies sj frame seq q) \<and> decide sj rules frame seq =
            (case rl_unmatched rules of Unmatched_Echo \<Rightarrow> Decide_Echo | Unmatched_Ignore \<Rightarrow> Decide_Ignore))
    \<and> (\<forall>frames delay close. decide sj rules frame seq = Decide_Reply frames delay close \<longrightarrow>
         (\<forall>f\<in>set frames. \<exists>s. f = Msg_Text s) \<and> (\<forall>d. delay = Some d \<longrightarrow> d \<le> duration_max) \<and> close_ok close)"
proof (rule conjI [OF decide_cases], intro allI impI)
  fix frames delay close
  assume d: "decide sj rules frame seq = Decide_Reply frames delay close"
  from assms obtain input where "rules_parse from_yaml input source = Inr rules"
    by (auto simp: rules_load_def and_then_Inr_iff)
  from rules_parse_ok(2) [OF this] have ok: "\<forall>r\<in>set (rl_rules rules). rule_ok r" .
  obtain r where "r \<in> set (rl_rules rules)" "rule_reply sj frame seq r = Decide_Reply frames delay close"
    by (rule decide_reply_rule [OF d])
  with ok show "(\<forall>f\<in>set frames. \<exists>s. f = Msg_Text s) \<and> (\<forall>d. delay = Some d \<longrightarrow> d \<le> duration_max) \<and> close_ok close"
    by (auto simp: rule_reply_def rule_ok_def Let_def)
qed

definition sample_rules_file :: "nat rules_file" where
  "sample_rules_file = \<lparr>rf_version = ''1.0'',
     rf_rules = [\<lparr>rs_matcher = Some \<lparr>mt_text = Some ''ping'', mt_json = None, mt_equals = None\<rparr>, rs_after = None,
        rs_reply = Some (One ''pong''), rs_delay = None, rs_close = None\<rparr>,
       \<lparr>rs_matcher = None, rs_after = Some 100, rs_reply = None, rs_delay = None,
        rs_close = Some (Close_Full 4000 ''done'')\<rparr>],
     rf_unmatched = Unmatched_Echo\<rparr>"

definition sample_rules :: "nat rules" where
  "sample_rules = \<lparr>rl_source = ''rules.yaml'',
     rl_rules = [\<lparr>ru_matcher = Match_Text ''ping'', ru_after = 1, ru_replies = [[Literal ''pong'']],
        ru_delay = None, ru_close = None\<rparr>,
       \<lparr>ru_matcher = Match_Any, ru_after = 100, ru_replies = [], ru_delay = None, ru_close = Some (4000, ''done'')\<rparr>],
     rl_unmatched = Unmatched_Echo\<rparr>"

lemma sample_rules_load: "rules_load (\<lambda>_. Some sample_rules_file) (Some []) ''rules.yaml'' = Inr sample_rules"
  by (simp add: rules_load_def rules_parse_def sample_rules_file_def sample_rules_def rule_compile_def
      compile_matcher_def reply_parse_def reply_loop_literal_end push_literal_def transpose_opt_def check_close_def
      is_sendable_close_code_def sublist_Cons_right)

theorem loaded_rules_decide_witness:
  "decide numbered_json sample_rules (Msg_Text ''x'') 100 = Decide_Reply [] None (Some (4000, ''done''))
   \<and> close_ok (Some (4000, ''done''))"
proof -
  have "decide numbered_json sample_rules (Msg_Text ''x'') 100 = Decide_Reply [] None (Some (4000, ''done''))"
    by (simp add: decide_def sample_rules_def rule_matches_def rule_reply_def Let_def)
  with loaded_rules_decide [OF sample_rules_load, of numbered_json "Msg_Text ''x''" 100] show ?thesis by blast
qed

end

