(* ===== verification/Base64.thy ===== *)
theory Base64
  imports Prelude
begin

text \<open>
  \<open>src/base64.rs\<close>: padded standard base64 (RFC 4648 section 4), written into capture files and sent
  to distributed agents, and the unpadded URL alphabet used for JWTs. The encoder and decoder work
  on 32-bit groups with shifts and masks, as the source does; the round trip and the strictness of
  the decoder are proved at the level of those bits.
\<close>

section \<open>Encoding\<close>

definition ALPHABET :: string where
  "ALPHABET = ''ABCDEFGHIJKLMNOPQRSTUVWXYZabcdefghijklmnopqrstuvwxyz0123456789+/''"

definition URL_ALPHABET :: string where
  "URL_ALPHABET = ''ABCDEFGHIJKLMNOPQRSTUVWXYZabcdefghijklmnopqrstuvwxyz0123456789-_''"

definition group24 :: "u8 \<Rightarrow> u8 \<Rightarrow> u8 \<Rightarrow> u32" where
  "group24 b0 b1 b2 = (push_bit 16 (ucast b0) OR push_bit 8 (ucast b1)) OR ucast b2"

definition sextet_at :: "string \<Rightarrow> u32 \<Rightarrow> nat \<Rightarrow> char" where
  "sextet_at alphabet n shift = alphabet ! unat (drop_bit shift n AND 63)"

text \<open>One turn of the loop over \<open>input.chunks(3)\<close>; the last chunk may hold one or two bytes.\<close>

definition encode_chunk :: "string \<Rightarrow> bool \<Rightarrow> u8 list \<Rightarrow> string" where
  "encode_chunk alphabet pad chunk =
     (let b1 = (if 1 < length chunk then chunk ! 1 else 0);
          b2 = (if 2 < length chunk then chunk ! 2 else 0);
          n = group24 (chunk ! 0) b1 b2
      in [sextet_at alphabet n 18, sextet_at alphabet n 12]
         @ (if length chunk > 1 then [sextet_at alphabet n 6] else if pad then ''='' else [])
         @ (if length chunk > 2 then [sextet_at alphabet n 0] else if pad then ''='' else []))"

fun encode_with :: "string \<Rightarrow> bool \<Rightarrow> u8 list \<Rightarrow> string" where
  "encode_with alphabet pad [] = []"
| "encode_with alphabet pad (b # bs) =
     encode_chunk alphabet pad (take 3 (b # bs)) @ encode_with alphabet pad (drop 3 (b # bs))"

definition encode :: "u8 list \<Rightarrow> string" where
  "encode input = encode_with ALPHABET True input"

definition encode_url :: "u8 list \<Rightarrow> string" where
  "encode_url input = encode_with URL_ALPHABET False input"

section \<open>Decoding\<close>

definition sextet :: "char \<Rightarrow> u32 option" where
  "sextet c =
     (let v = (of_char c :: nat) in
      if 65 \<le> v \<and> v \<le> 90 then Some (word_of_nat (v - 65))
      else if 97 \<le> v \<and> v \<le> 122 then Some (word_of_nat (v - 97 + 26))
      else if 48 \<le> v \<and> v \<le> 57 then Some (word_of_nat (v - 48 + 52))
      else if c = CHR ''+'' then Some 62
      else if c = CHR ''/'' then Some 63
      else None)"

text \<open>\<open>for &c in &group[..4 - padding] { n = (n << 6) | sextet(c)?; }\<close>\<close>

fun fold_sextets :: "u32 \<Rightarrow> string \<Rightarrow> u32 option" where
  "fold_sextets n [] = Some n"
| "fold_sextets n (c # cs) =
     (case sextet c of None \<Rightarrow> None | Some v \<Rightarrow> fold_sextets (push_bit 6 n OR v) cs)"

definition padding_of :: "string \<Rightarrow> nat" where
  "padding_of grp = length (takeWhile (\<lambda>c. c = CHR ''='') (rev grp))"

text \<open>One turn of the loop over the groups of four; \<open>is_last\<close> is \<open>index + 1 == groups\<close>.\<close>

definition decode_group :: "bool \<Rightarrow> string \<Rightarrow> u8 list option" where
  "decode_group is_last grp =
     (let padding = padding_of grp in
      if padding > 2 \<or> (padding > 0 \<and> \<not> is_last) then None
      else case fold_sextets 0 (take (4 - padding) grp) of
             None \<Rightarrow> None
           | Some m \<Rightarrow>
               let n = push_bit (6 * padding) m in
               Some ([ucast (drop_bit 16 n)]
                     @ (if padding < 2 then [ucast (drop_bit 8 n)] else [])
                     @ (if padding < 1 then [ucast n] else [])))"

fun decode_groups :: "string \<Rightarrow> u8 list option" where
  "decode_groups [] = Some []"
| "decode_groups (c # cs) =
     (case decode_group (length (c # cs) \<le> 4) (take 4 (c # cs)) of
        None \<Rightarrow> None
      | Some out \<Rightarrow> map_option ((@) out) (decode_groups (drop 4 (c # cs))))"

definition decode :: "string \<Rightarrow> u8 list option" where
  "decode input = (if length input mod 4 \<noteq> 0 then None else decode_groups input)"

section \<open>Bytes\<close>

text \<open>The bytes of a frame's payload or a text, for base64.\<close>

definition to_bytes :: "string \<Rightarrow> u8 list" where
  "to_bytes s = map of_char s"

definition of_bytes :: "u8 list \<Rightarrow> string" where
  "of_bytes bs = map (\<lambda>b. char_of (unat b)) bs"

lemma char_of_byte [simp]: "char_of (unat (of_char c :: u8)) = c"
proof -
  have "(of_char c :: u8) = word_of_nat (of_char c)" by (simp add: of_nat_of_char)
  moreover have "(of_char c :: nat) < 256" by (rule nat_of_char_less_256)
  ultimately show ?thesis by (simp add: unat_of_nat)
qed

lemma of_bytes_to_bytes [simp]: "of_bytes (to_bytes s) = s"
  by (induction s) (simp_all add: of_bytes_def to_bytes_def)

section \<open>Sextets\<close>

lemma length_ALPHABET [simp]: "length ALPHABET = 64" "length URL_ALPHABET = 64"
  by (simp_all add: ALPHABET_def URL_ALPHABET_def)

lemma map_sextet_ALPHABET: "map sextet ALPHABET = map (\<lambda>i. Some (word_of_nat i)) [0..<64]"
  by (simp add: ALPHABET_def sextet_def upt_conv_Cons)

lemma sextet_alphabet:
  assumes "i < 64"
  shows "sextet (ALPHABET ! i) = Some (word_of_nat i)"
proof -
  have "sextet (ALPHABET ! i) = map sextet ALPHABET ! i" using assms by simp
  also have "\<dots> = Some (word_of_nat i)" using assms by (simp only: map_sextet_ALPHABET) simp
  finally show ?thesis .
qed

lemma sextet_pad: "sextet (CHR ''='') = None"
  by (simp add: sextet_def)

lemma unat_and63: "unat (x AND 63 :: u32) < 64"
proof -
  have "x AND 63 \<le> (63 :: u32)" by (rule word_and_le1)
  then show ?thesis by (simp add: word_le_nat_alt)
qed

lemma sextet_sextet_at [simp]:
  "sextet (sextet_at ALPHABET n k) = Some (drop_bit k n AND 63)"
  using sextet_alphabet [OF unat_and63, of "drop_bit k n"] by (simp add: sextet_at_def)

lemma sextet_at_not_pad [simp]: "sextet_at ALPHABET n k \<noteq> CHR ''=''"
  using sextet_sextet_at [of n k] sextet_pad by (metis option.distinct(1))

section \<open>The bits of a group\<close>

lemma mask6: "(63 :: u32) = mask 6"
  by (simp add: mask_eq_exp_minus_1)

text \<open>Two words are equal when they agree on every bit, listed.\<close>

lemma u32_bits_eqI:
  assumes "list_all (\<lambda>i. bit x i = bit y i)
     [0,1,2,3,4,5,6,7,8,9,10,11,12,13,14,15,16,17,18,19,20,21,22,23,24,25,26,27,28,29,30,31]"
  shows "x = (y :: u32)"
proof (rule bit_word_eqI)
  fix n :: nat
  assume "n < LENGTH(32)"
  then have "n \<in> set [0..<32]" by simp
  also have "[0..<32] =
     [0,1,2,3,4,5,6,7,8,9,10,11,12,13,14,15,16,17,18,19,20,21,22,23,24,25,26,27,28,29,30,31]"
    by (simp add: upt_conv_Cons)
  finally show "bit x n = bit y n" using assms by (simp only: list_all_iff)
qed

lemma u8_bits_eqI:
  assumes "list_all (\<lambda>i. bit x i = bit y i) [0,1,2,3,4,5,6,7]"
  shows "x = (y :: u8)"
proof (rule bit_word_eqI)
  fix n :: nat
  assume "n < LENGTH(8)"
  then have "n \<in> set [0..<8]" by simp
  also have "[0..<8] = [0,1,2,3,4,5,6,7]" by (simp add: upt_conv_Cons)
  finally show "bit x n = bit y n" using assms by (simp only: list_all_iff)
qed

lemma u8_bit_beyond: "8 \<le> n \<Longrightarrow> \<not> bit (b :: u8) n"
  by (auto dest: bit_imp_le_length)

lemma regroup4:
  "push_bit 6 (push_bit 6 (push_bit 6 (drop_bit 18 n AND 63) OR (drop_bit 12 n AND 63))
     OR (drop_bit 6 n AND 63)) OR (n AND 63) = take_bit 24 (n :: u32)"
  by (rule u32_bits_eqI) (simp add: mask6 bit_simps)

lemma group24_bytes [simp]:
  "ucast (drop_bit 16 (group24 b0 b1 b2)) = b0"
  "ucast (drop_bit 8 (group24 b0 b1 b2)) = b1"
  "ucast (group24 b0 b1 b2) = b2"
  by (rule u8_bits_eqI, simp add: group24_def bit_simps u8_bit_beyond)+

lemma group24_take [simp]: "take_bit 24 (group24 b0 b1 b2) = group24 b0 b1 b2"
  by (rule u32_bits_eqI) (simp add: group24_def bit_simps u8_bit_beyond)

lemma regroup3:
  "push_bit 6 (push_bit 6 (push_bit 6 (drop_bit 18 n AND 63) OR (drop_bit 12 n AND 63))
     OR (drop_bit 6 n AND 63)) = n"
  if "n = group24 b0 b1 0"
  unfolding that
  by (rule u32_bits_eqI)
    (simp add: group24_def mask6 bit_simps u8_bit_beyond, simp add: eval_nat_numeral)

lemma regroup2:
  "push_bit 12 (push_bit 6 (drop_bit 18 n AND 63) OR (drop_bit 12 n AND 63)) = n"
  if "n = group24 b0 0 0"
  unfolding that
  by (rule u32_bits_eqI)
    (simp add: group24_def mask6 bit_simps u8_bit_beyond, simp add: eval_nat_numeral)

section \<open>Groups and chunks\<close>

lemmas fold_sextets_unfold =
  fold_sextets.simps sextet_sextet_at option.case push_bit_of_0 or.left_neutral

lemma fold_sextets4:
  "fold_sextets 0 [sextet_at ALPHABET n 18, sextet_at ALPHABET n 12, sextet_at ALPHABET n 6,
     sextet_at ALPHABET n 0] = Some (take_bit 24 n)"
  by (simp only: fold_sextets_unfold drop_bit_0 id_apply regroup4)

lemma fold_sextets3:
  "map_option (push_bit 6) (fold_sextets 0 [sextet_at ALPHABET n 18, sextet_at ALPHABET n 12,
     sextet_at ALPHABET n 6]) = Some n" if "n = group24 b0 b1 0"
  by (simp only: fold_sextets_unfold option.map regroup3 [OF that])

lemma fold_sextets2:
  "map_option (push_bit 12) (fold_sextets 0 [sextet_at ALPHABET n 18, sextet_at ALPHABET n 12])
     = Some n" if "n = group24 b0 0 0"
  by (simp only: fold_sextets_unfold option.map regroup2 [OF that])

lemma decode_encode_chunk3:
  "decode_group is_last (encode_chunk ALPHABET True [b0, b1, b2]) = Some [b0, b1, b2]"
proof -
  have "padding_of (encode_chunk ALPHABET True [b0, b1, b2]) = 0"
    by (simp add: encode_chunk_def padding_of_def Let_def)
  moreover have "fold_sextets 0 (take 4 (encode_chunk ALPHABET True [b0, b1, b2]))
      = Some (group24 b0 b1 b2)"
    using fold_sextets4 [of "group24 b0 b1 b2"]
    by (simp add: encode_chunk_def Let_def del: fold_sextets.simps)
  ultimately show ?thesis by (simp add: decode_group_def)
qed

lemma decode_encode_chunk2:
  "decode_group True (encode_chunk ALPHABET True [b0, b1]) = Some [b0, b1]"
proof -
  have "padding_of (encode_chunk ALPHABET True [b0, b1]) = 1"
    by (simp add: encode_chunk_def padding_of_def Let_def)
  moreover obtain m where "fold_sextets 0 (take 3 (encode_chunk ALPHABET True [b0, b1])) = Some m"
    "push_bit 6 m = group24 b0 b1 0"
    using fold_sextets3 [OF refl, of b0 b1]
    by (auto simp: encode_chunk_def Let_def simp del: fold_sextets.simps)
  ultimately show ?thesis by (simp add: decode_group_def)
qed

lemma decode_encode_chunk1:
  "decode_group True (encode_chunk ALPHABET True [b0]) = Some [b0]"
proof -
  have "padding_of (encode_chunk ALPHABET True [b0]) = 2"
    by (simp add: encode_chunk_def padding_of_def Let_def)
  moreover obtain m where "fold_sextets 0 (take 2 (encode_chunk ALPHABET True [b0])) = Some m"
    "push_bit 12 m = group24 b0 0 0"
    using fold_sextets2 [OF refl, of b0]
    by (auto simp: encode_chunk_def Let_def simp del: fold_sextets.simps)
  ultimately show ?thesis by (simp add: decode_group_def)
qed

lemma length_encode_chunk [simp]: "length (encode_chunk a True c) = 4"
  by (simp add: encode_chunk_def Let_def)

lemma div_ceil_3: "div_ceil n 3 = (n + 2) div 3"
  by (simp add: div_ceil_def) presburger

lemma length_encode_with: "length (encode_with a True bs) = 4 * div_ceil (length bs) 3"
proof (induction a True bs rule: encode_with.induct)
  case (1 a)
  show ?case by (simp add: div_ceil_def)
next
  case (2 a b bs)
  have "(Suc n + 2) div 3 = Suc ((n - 2 + 2) div 3)" for n :: nat
    by presburger
  with 2 show ?case by (simp add: div_ceil_3)
qed

lemma decode_groups_append:
  assumes "length g = 4"
  shows "decode_groups (g @ rest) =
    (case decode_group (rest = []) g of None \<Rightarrow> None
     | Some out \<Rightarrow> map_option ((@) out) (decode_groups rest))"
proof -
  obtain c cs where g: "g = c # cs" using assms by (cases g) auto
  with assms have "length cs = 3" by simp
  with g show ?thesis by (auto split: option.splits)
qed

lemma decode_groups_encode: "decode_groups (encode_with ALPHABET True bs) = Some bs"
proof (induction ALPHABET True bs rule: encode_with.induct)
  case 1
  show ?case by simp
next
  case (2 b bs)
  consider "bs = []" | b1 where "bs = [b1]" | b1 b2 bs' where "bs = b1 # b2 # bs'"
    by (metis neq_Nil_conv)
  then show ?case
  proof cases
    case 1
    then show ?thesis
      using decode_groups_append [of "encode_chunk ALPHABET True [b]" "[]"]
      by (simp add: decode_encode_chunk1)
  next
    case (2 b1)
    then show ?thesis
      using decode_groups_append [of "encode_chunk ALPHABET True [b, b1]" "[]"]
      by (simp add: decode_encode_chunk2)
  next
    case (3 b1 b2 bs')
    with "2.hyps" show ?thesis
      by (simp add: decode_groups_append decode_encode_chunk3)
  qed
qed

section \<open>What the decoder accepts\<close>

lemma fold_sextets_defined:
  "fold_sextets n cs \<noteq> None \<longleftrightarrow> list_all (\<lambda>c. sextet c \<noteq> None) cs"
  by (induction n cs rule: fold_sextets.induct) (auto split: option.splits)

definition padded_by :: "nat \<Rightarrow> string \<Rightarrow> bool" where
  "padded_by k s \<longleftrightarrow>
     (\<exists>t. s = t @ replicate k (CHR ''='') \<and> list_all (\<lambda>c. sextet c \<noteq> None) t)"

lemma takeWhile_eq_replicate: "takeWhile (\<lambda>c. c = x) s = replicate (length (takeWhile (\<lambda>c. c = x) s)) x"
  by (induction s) auto

lemma padding_of_split:
  "s = take (length s - padding_of s) s @ replicate (padding_of s) (CHR ''='')"
proof -
  let ?w = "takeWhile (\<lambda>c. c = CHR ''='') (rev s)"
  have "rev s = ?w @ dropWhile (\<lambda>c. c = CHR ''='') (rev s)" by simp
  then have s: "s = rev (dropWhile (\<lambda>c. c = CHR ''='') (rev s)) @ rev ?w"
    by (metis rev_append rev_rev_ident)
  have w: "rev ?w = replicate (padding_of s) (CHR ''='')"
    by (metis padding_of_def rev_replicate takeWhile_eq_replicate)
  from s have "take (length s - padding_of s) s = rev (dropWhile (\<lambda>c. c = CHR ''='') (rev s))"
    by (metis append_eq_conv_conj length_append add_diff_cancel_right' length_rev padding_of_def)
  with s w show ?thesis by metis
qed

lemma padding_of_padded:
  assumes "list_all (\<lambda>c. sextet c \<noteq> None) t"
  shows "padding_of (t @ replicate k (CHR ''='')) = k"
proof -
  have "takeWhile (\<lambda>c. c = CHR ''='') (rev t) = []"
    using assms sextet_pad by (cases t rule: rev_cases) auto
  then have "length (takeWhile (\<lambda>c. c = CHR ''='') (replicate k (CHR ''='') @ rev t)) = k"
    by (induction k) simp_all
  then show ?thesis by (simp add: padding_of_def)
qed

lemma decode_group_defined:
  assumes "length g = 4"
  shows "decode_group is_last g \<noteq> None \<longleftrightarrow> (\<exists>k \<le> 2. padded_by k g \<and> (k > 0 \<longrightarrow> is_last))"
proof
  assume "decode_group is_last g \<noteq> None"
  then have "padding_of g \<le> 2" "padding_of g > 0 \<longrightarrow> is_last"
    "list_all (\<lambda>c. sextet c \<noteq> None) (take (4 - padding_of g) g)"
    unfolding fold_sextets_defined [of 0, symmetric]
    by (auto simp: decode_group_def Let_def split: if_splits option.splits)
  with padding_of_split [of g] assms show "\<exists>k \<le> 2. padded_by k g \<and> (k > 0 \<longrightarrow> is_last)"
    unfolding padded_by_def by metis
next
  assume "\<exists>k \<le> 2. padded_by k g \<and> (k > 0 \<longrightarrow> is_last)"
  then obtain k t where k: "k \<le> 2" "k > 0 \<longrightarrow> is_last" "g = t @ replicate k (CHR ''='')"
    and t: "list_all (\<lambda>c. sextet c \<noteq> None) t"
    by (auto simp: padded_by_def)
  have "padding_of g = k" using padding_of_padded [OF t] k(3) by simp
  moreover have "take (4 - k) g = t" using k(3) assms by simp
  moreover have "fold_sextets 0 t \<noteq> None" using t fold_sextets_defined by blast
  ultimately show "decode_group is_last g \<noteq> None"
    using k by (auto simp: decode_group_def Let_def split: option.splits)
qed

lemma nonempty_multiple_of_4: "xs \<noteq> [] \<Longrightarrow> length xs mod 4 = 0 \<Longrightarrow> 4 \<le> length xs"
  by (metis length_0_conv mod_less not_le)

lemma padded_by_append:
  assumes "rest \<noteq> []" "length rest mod 4 = 0" "k \<le> 2"
  shows "padded_by k (g @ rest) \<longleftrightarrow> padded_by 0 g \<and> padded_by k rest"
proof
  assume "padded_by k (g @ rest)"
  then obtain t where t: "g @ rest = t @ replicate k (CHR ''='')"
    "list_all (\<lambda>c. sextet c \<noteq> None) t" by (auto simp: padded_by_def)
  have "4 \<le> length rest" using assms(1,2) by (rule nonempty_multiple_of_4)
  with assms(3) t(1) obtain u where "t = g @ u" "rest = u @ replicate k (CHR ''='')"
    by (auto simp: append_eq_append_conv2 dest!: arg_cong [where f = length])
  with t(2) show "padded_by 0 g \<and> padded_by k rest" by (auto simp: padded_by_def)
next
  assume "padded_by 0 g \<and> padded_by k rest"
  then show "padded_by k (g @ rest)"
    by (auto simp: padded_by_def)
qed

lemma decode_groups_defined:
  assumes "length s mod 4 = 0"
  shows "decode_groups s \<noteq> None \<longleftrightarrow> (\<exists>k \<le> 2. padded_by k s)"
  using assms
proof (induction s rule: length_induct)
  case (1 s)
  show ?case
  proof (cases "s = []")
    case True
    then show ?thesis by (auto simp: padded_by_def intro: exI [of _ 0])
  next
    case False
    have len: "4 \<le> length s" by (rule nonempty_multiple_of_4 [OF False "1.prems"])
    define g rest where "g = take 4 s" and "rest = drop 4 s"
    have s: "s = g @ rest" and g: "length g = 4" using len by (simp_all add: g_def rest_def)
    have rest4: "length rest mod 4 = 0" using "1.prems" s g by simp
    have IH: "decode_groups rest \<noteq> None \<longleftrightarrow> (\<exists>k \<le> 2. padded_by k rest)"
      using "1.IH" rest4 s g by (metis length_append less_add_same_cancel2 zero_less_numeral)
    have step: "decode_groups s \<noteq> None \<longleftrightarrow>
        decode_group (rest = []) g \<noteq> None \<and> decode_groups rest \<noteq> None"
      unfolding s decode_groups_append [OF g] by (auto split: option.splits)
    show ?thesis
    proof (cases "rest = []")
      case True
      then show ?thesis using step decode_group_defined [OF g] s by auto
    next
      case False
      then show ?thesis
        using step IH decode_group_defined [OF g, of False] padded_by_append [OF False rest4, of _ g] s
        by auto
    qed
  qed
qed

section \<open>Properties\<close>

lemma decode_encode [simp]: "decode (encode bs) = Some bs"
  by (simp add: decode_def encode_def length_encode_with decode_groups_encode)

text \<open>Decoding what \<open>encode\<close> wrote gives the input back, for every byte sequence: capture files and
  agent payloads survive the trip.\<close>

theorem decode_inverts_encode: "decode (encode bs) = Some bs"
  by (rule decode_encode)

text \<open>\<open>decode\<close> accepts exactly the inputs whose length is a multiple of four and that are alphabet
  characters followed by at most two padding characters: a wrong length, a character outside the
  alphabet and misplaced padding are each rejected, and nothing else is.\<close>

theorem decode_accepts_iff:
  "decode s \<noteq> None \<longleftrightarrow>
     length s mod 4 = 0 \<and>
     (\<exists>k t. k \<le> 2 \<and> s = t @ replicate k (CHR ''='') \<and> list_all (\<lambda>c. sextet c \<noteq> None) t)"
  using decode_groups_defined [of s] by (auto simp: decode_def padded_by_def)

text \<open>The comment on \<open>decode\<close> says it returns \<open>None\<close> for any input other than what \<open>encode\<close> writes. It
  does not check the unused low bits of a padded group, so a non-canonical spelling is accepted.\<close>

theorem decode_accepts_noncanonical:
  "decode ''Zh=='' = Some [0x66] \<and> encode [0x66] = ''Zg==''"
  by code_simp

end
