(* ===== verification/Replay.thy ===== *)
theory Replay
  imports Reply_Check Base64 "HOL-Library.Product_Lexorder"
begin

text \<open>
  The replay script of \<open>wsblast mock --replay FILE\<close> (\<open>src/mock.rs\<close>, \<open>ReplayScript\<close>): the frames a
  capture file recorded as received, grouped by recorded connection. Reading one line into a
  \<open>CaptureLine\<close> is \<open>serde_json\<close>'s work and a parameter (\<open>from_line\<close>). The \<open>BTreeMap\<close> of recorded
  workers is the list of its entries in key order.
\<close>

section \<open>Reading a capture file\<close>

record capture_line =
  cl_t_us :: nat
  cl_agent :: nat
  cl_worker :: nat
  cl_dir :: string
  cl_kind :: string
  cl_data :: "string option"

record replay_frame =
  fr_offset :: duration
  fr_message :: message

record replay_script =
  sc_source :: string
  sc_workers :: "replay_frame list list"

datatype replay_error =
    Replay_not_read string
  | Replay_empty string
  | Not_a_capture string nat
  | Unsupported_version string nat nat
  | Invalid_record string nat
  | Not_base64 string nat
  | No_received_frames string

type_synonym recorded_worker = "nat \<times> (nat \<times> message) list"
type_synonym recorded = "((nat \<times> nat) \<times> recorded_worker) list"

text \<open>\<open>BTreeMap::entry(k).or_insert(d)\<close> followed by a change of the entry.\<close>

fun bt_update :: "'k::linorder \<Rightarrow> 'v \<Rightarrow> ('v \<Rightarrow> 'v) \<Rightarrow> ('k \<times> 'v) list \<Rightarrow> ('k \<times> 'v) list" where
  "bt_update k d f [] = [(k, f d)]"
| "bt_update k d f ((k', v) # m) =
     (if k' = k then (k, f v) # m
      else if k < k' then (k, f d) # (k', v) # m
      else (k', v) # bt_update k d f m)"

definition numbered_lines :: "string \<Rightarrow> (nat \<times> string) list" where
  "numbered_lines input =
     filter (\<lambda>(_, line). line \<noteq> []) (map (\<lambda>(index, line). (index + 1, trim line)) (enumerate 0 (str_lines input)))"

definition capture_version :: "'n serde_json \<Rightarrow> string \<Rightarrow> nat option" where
  "capture_version sj header =
     (case from_str sj header of
        Some (JObject kvs) \<Rightarrow>
          (case map_of kvs ''wsblast_capture'' of
             Some (JNumber n) \<Rightarrow> as_u64 sj n
           | _ \<Rightarrow> None)
      | _ \<Rightarrow> None)"

text \<open>What one record adds to the frames of its worker: nothing for a sent frame, an open or a close
  record; \<open>None\<close> when its data is not base64.\<close>

definition record_frame :: "capture_line \<Rightarrow> (nat \<times> message) list option" where
  "record_frame r =
     (if cl_dir r \<noteq> ''recv'' then Some []
      else
        (let data = (case cl_data r of Some d \<Rightarrow> d | None \<Rightarrow> [])
         in if cl_kind r = ''text'' then Some [(cl_t_us r, Msg_Text data)]
            else if cl_kind r = ''binary''
            then map_option (\<lambda>bytes. [(cl_t_us r, Msg_Binary (of_bytes bytes))]) (decode data)
            else Some []))"

definition add_record :: "capture_line \<Rightarrow> (nat \<times> message) list \<Rightarrow> recorded \<Rightarrow> recorded" where
  "add_record r frames m =
     bt_update (cl_agent r, cl_worker r) (cl_t_us r, [])
       (\<lambda>(first, fs). (min first (cl_t_us r), fs @ frames)) m"

fun replay_records ::
    "(string \<Rightarrow> capture_line option) \<Rightarrow> string \<Rightarrow> (nat \<times> string) list \<Rightarrow> recorded \<Rightarrow> replay_error + recorded" where
  "replay_records from_line source [] m = Inr m"
| "replay_records from_line source ((number, line) # lines) m =
     (case from_line line of
        None \<Rightarrow> Inl (Invalid_record source number)
      | Some r \<Rightarrow>
          (case record_frame r of
             None \<Rightarrow> Inl (Not_base64 source number)
           | Some frames \<Rightarrow> replay_records from_line source lines (add_record r frames m)))"

definition worker_script :: "recorded_worker \<Rightarrow> replay_frame list" where
  "worker_script w =
     (case w of (first, frames) \<Rightarrow>
        map (\<lambda>(t_us, msg). \<lparr>fr_offset = from_micros (t_us - first), fr_message = msg\<rparr>) (sort_key fst frames))"

definition replay_parse ::
    "'n serde_json \<Rightarrow> (string \<Rightarrow> capture_line option) \<Rightarrow> string \<Rightarrow> string \<Rightarrow> replay_error + replay_script" where
  "replay_parse sj from_line input source =
     (case numbered_lines input of
        [] \<Rightarrow> Inl (Replay_empty source)
      | (header_line, header) # lines \<Rightarrow>
          and_then (ok_or (Not_a_capture source header_line) (capture_version sj header)) (\<lambda>version.
            if version \<noteq> 1 then Inl (Unsupported_version source header_line version)
            else
              and_then (replay_records from_line source lines []) (\<lambda>m.
                (let workers = map worker_script (filter (\<lambda>(_, frames). frames \<noteq> []) (map snd m))
                 in if workers = [] then Inl (No_received_frames source)
                    else Inr \<lparr>sc_source = source, sc_workers = workers\<rparr>))))"

definition replay_load ::
    "'n serde_json \<Rightarrow> (string \<Rightarrow> capture_line option) \<Rightarrow> string option \<Rightarrow> string \<Rightarrow> replay_error + replay_script" where
  "replay_load sj from_line content source =
     and_then (ok_or (Replay_not_read source) content) (\<lambda>input. replay_parse sj from_line input source)"

definition frames_for :: "replay_script \<Rightarrow> nat \<Rightarrow> replay_frame list" where
  "frames_for script index = sc_workers script ! (index mod length (sc_workers script))"

definition frame_count :: "replay_script \<Rightarrow> nat" where
  "frame_count script = sum_list (map length (sc_workers script))"

section \<open>What a script holds\<close>

text \<open>The same script computed from the records as a set of connections: the received data frames of
  each connection in time order, each as long after the connection's first record as it was recorded.\<close>

definition record_key :: "capture_line \<Rightarrow> nat \<times> nat" where
  "record_key r = (cl_agent r, cl_worker r)"

definition frames_of :: "nat \<times> nat \<Rightarrow> capture_line list \<Rightarrow> (nat \<times> message) list" where
  "frames_of k rs =
     concat (map (\<lambda>r. case record_frame r of Some fs \<Rightarrow> fs | None \<Rightarrow> []) (filter (\<lambda>r. record_key r = k) rs))"

definition first_of :: "nat \<times> nat \<Rightarrow> capture_line list \<Rightarrow> nat" where
  "first_of k rs = Min (cl_t_us ` set (filter (\<lambda>r. record_key r = k) rs))"

definition record_keys :: "capture_line list \<Rightarrow> (nat \<times> nat) list" where
  "record_keys rs = sorted_list_of_set (record_key ` set rs)"

definition script_of :: "capture_line list \<Rightarrow> replay_frame list list" where
  "script_of rs =
     map (\<lambda>k. worker_script (first_of k rs, frames_of k rs)) (filter (\<lambda>k. frames_of k rs \<noteq> []) (record_keys rs))"

lemma bt_update_map:
  assumes "sorted ks" "distinct ks"
  shows "bt_update k d f (map (\<lambda>k. (k, g k)) ks) =
    map (\<lambda>k'. (k', if k' = k then f (if k \<in> set ks then g k else d) else g k')) (insort_insert k ks)"
  using assms
proof (induction ks)
  case Nil
  show ?case by (simp add: insort_insert_key_def)
next
  case (Cons a ks)
  show ?case
  proof (cases "a = k")
    case True
    with Cons.prems show ?thesis by (auto simp: insort_insert_key_def)
  next
    case False
    show ?thesis
    proof (cases "k < a")
      case True
      with Cons.prems False have "k \<notin> set ks" by auto
      with True False show ?thesis by (auto simp: insort_insert_key_def)
    next
      case 2: False
      from Cons have "bt_update k d f (map (\<lambda>k. (k, g k)) ks) =
        map (\<lambda>k'. (k', if k' = k then f (if k \<in> set ks then g k else d) else g k')) (insort_insert k ks)" by simp
      with 2 False show ?thesis by (auto simp: insort_insert_key_def)
    qed
  qed
qed

definition recorded_view :: "capture_line list \<Rightarrow> recorded" where
  "recorded_view rs = map (\<lambda>k. (k, first_of k rs, frames_of k rs)) (record_keys rs)"

lemma record_keys_snoc: "record_keys (rs @ [r]) = insort_insert (record_key r) (record_keys rs)"
proof -
  have fin: "finite (record_key ` set rs)" by simp
  show ?thesis
  proof (cases "record_key r \<in> record_key ` set rs")
    case True
    then show ?thesis by (simp add: record_keys_def insort_insert_key_def insert_absorb)
  next
    case False
    with fin show ?thesis by (simp add: record_keys_def insort_insert_key_def)
  qed
qed

lemma add_record_view:
  assumes "record_frame r = Some frames"
  shows "add_record r frames (recorded_view rs) = recorded_view (rs @ [r])"
proof -
  let ?k = "record_key r"
  have keys: "sorted (record_keys rs)" "distinct (record_keys rs)" "set (record_keys rs) = record_key ` set rs"
    by (simp_all add: record_keys_def)
  have other: "first_of k (rs @ [r]) = first_of k rs" "frames_of k (rs @ [r]) = frames_of k rs" if "k \<noteq> ?k" for k
    using that by (auto simp: first_of_def frames_of_def)
  have frames: "frames_of ?k (rs @ [r]) = frames_of ?k rs @ frames"
    by (simp add: frames_of_def assms)
  have old: "first_of ?k (rs @ [r]) = min (first_of ?k rs) (cl_t_us r)" if "?k \<in> record_key ` set rs"
  proof -
    from that have "cl_t_us ` set (filter (\<lambda>q. record_key q = ?k) rs) \<noteq> {}" by auto
    then show ?thesis by (simp add: first_of_def Min_insert min.commute)
  qed
  have new: "first_of ?k (rs @ [r]) = cl_t_us r" "frames_of ?k rs = []" if "?k \<notin> record_key ` set rs"
  proof -
    from that have "filter (\<lambda>q. record_key q = ?k) rs = []" unfolding filter_empty_conv image_iff by metis
    then show "first_of ?k (rs @ [r]) = cl_t_us r" "frames_of ?k rs = []"
      by (simp_all add: first_of_def frames_of_def)
  qed
  show ?thesis
    unfolding recorded_view_def add_record_def record_key_def [symmetric] bt_update_map [OF keys(1,2)]
      record_keys_snoc
    using other frames old new keys(3) by (auto intro!: map_cong)
qed

lemma replay_records_view:
  assumes "replay_records from_line source lines (recorded_view rs) = Inr m"
  shows "\<exists>rs'. map (\<lambda>l. from_line (snd l)) lines = map Some rs' \<and> (\<forall>r\<in>set rs'. record_frame r \<noteq> None)
    \<and> m = recorded_view (rs @ rs')"
  using assms
proof (induction lines arbitrary: rs)
  case Nil
  then show ?case by simp
next
  case (Cons l lines)
  obtain number line where l: "l = (number, line)" by force
  from Cons.prems obtain r frames where r: "from_line line = Some r" "record_frame r = Some frames"
    and "replay_records from_line source lines (add_record r frames (recorded_view rs)) = Inr m"
    by (auto simp: l split: option.splits)
  then have "replay_records from_line source lines (recorded_view (rs @ [r])) = Inr m"
    by (simp add: add_record_view)
  from Cons.IH [OF this] obtain rs' where "map (\<lambda>l. from_line (snd l)) lines = map Some rs'"
    "\<forall>r\<in>set rs'. record_frame r \<noteq> None" "m = recorded_view (rs @ [r] @ rs')" by auto
  with r show ?case by (intro exI [of _ "r # rs'"]) (simp add: l)
qed

lemma recorded_view_script:
  "map worker_script (filter (\<lambda>(_, frames). frames \<noteq> []) (map snd (recorded_view rs))) = script_of rs"
  by (simp add: recorded_view_def script_of_def filter_map comp_def)

lemma replay_parse_script:
  assumes "replay_parse sj from_line input source = Inr script"
  obtains h header lines rs where "numbered_lines input = (h, header) # lines" "capture_version sj header = Some 1"
    "map (\<lambda>l. from_line (snd l)) lines = map Some rs" "\<forall>r\<in>set rs. record_frame r \<noteq> None"
    "sc_workers script = script_of rs" "script_of rs \<noteq> []" "sc_source script = source"
proof -
  obtain h header lines where n: "numbered_lines input = (h, header) # lines"
    using assms by (auto simp: replay_parse_def split: list.splits)
  with assms obtain m where v: "capture_version sj header = Some 1"
    and m: "replay_records from_line source lines [] = Inr m"
    and s: "map worker_script (filter (\<lambda>(_, frames). frames \<noteq> []) (map snd m)) \<noteq> []"
      "script = \<lparr>sc_source = source, sc_workers = map worker_script (filter (\<lambda>(_, frames). frames \<noteq> []) (map snd m))\<rparr>"
    by (auto simp: replay_parse_def and_then_Inr_iff Let_def split: if_splits)
  have "recorded_view [] = []" by (simp add: recorded_view_def record_keys_def)
  with m have "replay_records from_line source lines (recorded_view []) = Inr m" by simp
  from replay_records_view [OF this] obtain rs where rs: "map (\<lambda>l. from_line (snd l)) lines = map Some rs"
    "\<forall>r\<in>set rs. record_frame r \<noteq> None" "m = recorded_view rs" by auto
  show ?thesis
    using that [OF n v rs(1,2)] s by (simp add: rs(3) recorded_view_script)
qed

definition data_frames :: "capture_line \<Rightarrow> nat" where
  "data_frames r = (case record_frame r of Some fs \<Rightarrow> length fs | None \<Rightarrow> 0)"

lemma frames_of_total:
  assumes "finite K" "record_key ` set rs \<subseteq> K"
  shows "(\<Sum>k\<in>K. length (frames_of k rs)) = sum_list (map data_frames rs)"
  using assms(2)
proof (induction rs)
  case Nil
  show ?case by (simp add: frames_of_def)
next
  case (Cons r rs)
  have "length (frames_of k (r # rs)) = (if k = record_key r then data_frames r else 0) + length (frames_of k rs)" for k
    by (simp add: frames_of_def data_frames_def split: option.splits)
  then have "(\<Sum>k\<in>K. length (frames_of k (r # rs))) =
      (\<Sum>k\<in>K. if k = record_key r then data_frames r else 0) + (\<Sum>k\<in>K. length (frames_of k rs))"
    by (simp add: sum.distrib)
  with Cons assms(1) show ?case by simp
qed

lemma sum_list_filter_zero: "(\<And>x. x \<in> set xs \<Longrightarrow> \<not> P x \<Longrightarrow> f x = 0) \<Longrightarrow> sum_list (map f (filter P xs)) = (sum_list (map f xs) :: nat)"
  by (induction xs) auto

lemma length_worker_script [simp]: "length (worker_script (first, frames)) = length frames"
  by (simp add: worker_script_def)

lemma script_of_frames: "sum_list (map length (script_of rs)) = sum_list (map data_frames rs)"
proof -
  have "sum_list (map length (script_of rs)) =
      sum_list (map (\<lambda>k. length (frames_of k rs)) (filter (\<lambda>k. frames_of k rs \<noteq> []) (record_keys rs)))"
    by (simp add: script_of_def comp_def)
  also have "\<dots> = sum_list (map (\<lambda>k. length (frames_of k rs)) (record_keys rs))"
    by (rule sum_list_filter_zero) simp
  also have "\<dots> = (\<Sum>k\<in>record_key ` set rs. length (frames_of k rs))"
    by (simp add: record_keys_def sum_list_distinct_conv_sum_set)
  also have "\<dots> = sum_list (map data_frames rs)" by (rule frames_of_total) auto
  finally show ?thesis .
qed

lemma worker_script_sorted: "sorted (map fr_offset (worker_script w))"
proof -
  obtain first frames where w: "w = (first, frames)" by force
  have "sorted (map fst (sort_key fst frames))" by simp
  then have "sorted (map (\<lambda>t. from_micros (t - first)) (map fst (sort_key fst frames)))"
    by (rule sorted_map_mono) (auto simp: monotone_on_def from_micros_def intro: mult_le_mono1 diff_le_mono)
  then show ?thesis by (simp add: w worker_script_def comp_def split_beta)
qed

lemma script_of_member:
  assumes "fs \<in> set (script_of rs)"
  shows "fs \<noteq> [] \<and> sorted (map fr_offset fs)"
proof -
  from assms obtain k where "fs = worker_script (first_of k rs, frames_of k rs)" "frames_of k rs \<noteq> []"
    by (auto simp: script_of_def)
  then show ?thesis using worker_script_sorted length_worker_script [of "first_of k rs" "frames_of k rs"]
    by (metis length_0_conv)
qed

text \<open>C26: a replay script is what its capture file recorded. Its workers are the recorded connections that
  received data, in agent and worker order; each has exactly its received text and binary frames, in time
  order, each at its recorded distance from the connection's first record; no frame is lost or added; and every
  accepted connection has frames to replay.\<close>

theorem replay_script_exact:
  assumes "replay_load sj from_line content source = Inr script"
  shows "\<exists>input h header lines rs. content = Some input \<and> numbered_lines input = (h, header) # lines
    \<and> capture_version sj header = Some 1 \<and> map (\<lambda>l. from_line (snd l)) lines = map Some rs
    \<and> sc_workers script = script_of rs \<and> frame_count script = sum_list (map data_frames rs)
    \<and> (\<forall>index. frames_for script index \<in> set (script_of rs) \<and> frames_for script index \<noteq> []
         \<and> sorted (map fr_offset (frames_for script index)))"
proof -
  from assms obtain input where input: "content = Some input" "replay_parse sj from_line input source = Inr script"
    by (auto simp: replay_load_def and_then_Inr_iff)
  from replay_parse_script [OF input(2)] obtain h header lines rs where
    *: "numbered_lines input = (h, header) # lines" "capture_version sj header = Some 1"
      "map (\<lambda>l. from_line (snd l)) lines = map Some rs" and
    w: "sc_workers script = script_of rs" "script_of rs \<noteq> []" by metis
  have "frames_for script index \<in> set (script_of rs)" for index
    using w by (simp add: frames_for_def)
  then have "\<forall>index. frames_for script index \<in> set (script_of rs) \<and> frames_for script index \<noteq> []
         \<and> sorted (map fr_offset (frames_for script index))" using script_of_member by blast
  moreover have "frame_count script = sum_list (map data_frames rs)"
    by (simp add: frame_count_def w script_of_frames)
  ultimately show ?thesis using input(1) * w(1) by blast
qed

definition sample_line :: capture_line where
  "sample_line = \<lparr>cl_t_us = 5, cl_agent = 0, cl_worker = 3, cl_dir = ''recv'', cl_kind = ''text'', cl_data = Some ''hi''\<rparr>"

definition header_json :: "nat serde_json" where
  "header_json = numbered_json\<lparr>from_str := (\<lambda>_. Some (JObject [(''wsblast_capture'', JNumber 1)]))\<rparr>"

lemma sample_numbered_lines: "numbered_lines [CHR ''h'', newline, CHR ''r''] = [(1, ''h''), (2, ''r'')]"
  by code_simp

lemma sample_replay:
  "replay_load header_json (\<lambda>_. Some sample_line) (Some [CHR ''h'', newline, CHR ''r'']) ''f'' =
     Inr \<lparr>sc_source = ''f'', sc_workers = [[\<lparr>fr_offset = 0, fr_message = Msg_Text ''hi''\<rparr>]]\<rparr>"
  by (simp add: replay_load_def replay_parse_def sample_numbered_lines capture_version_def header_json_def
      numbered_json_def record_frame_def sample_line_def add_record_def worker_script_def from_micros_def)

theorem replay_script_exact_witness:
  "frame_count \<lparr>sc_source = ''f'', sc_workers = [[\<lparr>fr_offset = 0, fr_message = Msg_Text ''hi''\<rparr>]]\<rparr> = 1
   \<and> (\<exists>rs. script_of rs = [[\<lparr>fr_offset = 0, fr_message = Msg_Text ''hi''\<rparr>]])"
proof -
  let ?s = "\<lparr>sc_source = ''f'', sc_workers = [[\<lparr>fr_offset = 0, fr_message = Msg_Text ''hi''\<rparr>]]\<rparr>"
  have "\<exists>rs. sc_workers ?s = script_of rs" using replay_script_exact [OF sample_replay] by (elim exE conjE) blast
  then show ?thesis by (auto simp: frame_count_def)
qed

end
