(* ===== verification/Mock_Server.thy ===== *)
theory Mock_Server
  imports Mock_Rules Replay Chaos Socketio Deflate
begin

text \<open>
  \<open>src/mock.rs\<close>: the mock server. Its configuration and how it is checked, the decisions of the accept
  loop, and the session loop of one connection (\<open>run_session\<close>) as a function of what the network, the clock
  and the cancellation token answer in each turn of the loop. The generator of \<open>mock.rs\<close> is line for line the
  one of \<open>chaos.rs\<close>, whose model is used here. One turn reads the clock once before it chooses
  its event and once while it handles it; an \<open>Instant\<close> never overflows. A sum of two \<open>Duration\<close>s that does
  is a panic of the connection's task, \<open>None\<close> here. Sockets, TLS and the opening handshake are inputs.
\<close>

section \<open>Configuration\<close>

record stall =
  sl_every :: duration
  sl_length :: duration

record 'n mock_config =
  mk_listen :: string
  mk_delay :: duration
  mk_jitter :: duration
  mk_close_after :: "nat option"
  mk_reject_ratio :: f64
  mk_stall :: "stall option"
  mk_replay :: "replay_script option"
  mk_rules :: "'n rules option"
  mk_socketio :: "(duration \<times> duration) option"
  mk_compression :: bool
  mk_seed :: "u64 option"
  mk_tls :: bool

record mock_builder =
  bd_listen :: string
  bd_delay :: duration
  bd_jitter :: duration
  bd_close_after :: "nat option"
  bd_reject_ratio :: f64
  bd_stall_every :: "duration option"
  bd_stall_for :: "duration option"
  bd_replay :: "string option"
  bd_rules :: "string option"
  bd_socketio :: "(duration \<times> duration) option"
  bd_compression :: bool
  bd_seed :: "u64 option"
  bd_tls :: "(string \<times> string) option"

datatype mock_error =
    Listen_empty
  | Reject_ratio_range f64
  | Close_after_zero
  | Stall_zero
  | Stall_not_shorter duration duration
  | Stall_together
  | Socketio_combined
  | Socketio_ping_zero
  | Rules_and_replay
  | Replay_failed replay_error
  | Rules_failed rules_error
  | Tls_failed string

definition DEFAULT_LISTEN :: string where
  "DEFAULT_LISTEN = ''127.0.0.1:9001''"

definition mock_builder_default :: mock_builder where
  "mock_builder_default = \<lparr>bd_listen = DEFAULT_LISTEN, bd_delay = 0, bd_jitter = 0, bd_close_after = None,
     bd_reject_ratio = Num 0, bd_stall_every = None, bd_stall_for = None, bd_replay = None, bd_rules = None,
     bd_socketio = None, bd_compression = False, bd_seed = None, bd_tls = None\<rparr>"

definition builder_socketio :: "mock_builder \<Rightarrow> mock_builder" where
  "builder_socketio b = b\<lparr>bd_socketio := Some (from_secs 25, from_secs 20)\<rparr>"

definition builder_stall :: "duration \<Rightarrow> duration \<Rightarrow> mock_builder \<Rightarrow> mock_builder" where
  "builder_stall every len b = b\<lparr>bd_stall_every := Some every, bd_stall_for := Some len\<rparr>"

definition stall_of :: "duration option \<Rightarrow> duration option \<Rightarrow> mock_error + stall option" where
  "stall_of every_opt length_opt =
     (case (every_opt, length_opt) of
        (None, None) \<Rightarrow> Inr None
      | (Some every, Some len) \<Rightarrow>
          (if every = 0 \<or> len = 0 then Inl Stall_zero
           else if every \<le> len then Inl (Stall_not_shorter len every)
           else Inr (Some \<lparr>sl_every = every, sl_length = len\<rparr>))
      | _ \<Rightarrow> Inl Stall_together)"

text \<open>The files \<open>build\<close> reads: what the file system, the YAML library and the TLS library answer.\<close>

record 'n mock_files =
  mf_read :: "string \<Rightarrow> string option"
  mf_json :: "'n serde_json"
  mf_line :: "string \<Rightarrow> capture_line option"
  mf_yaml :: "string \<Rightarrow> 'n rules_file option"
  mf_tls :: "string \<Rightarrow> string \<Rightarrow> string + unit"

definition mock_build :: "'n mock_files \<Rightarrow> mock_builder \<Rightarrow> mock_error + 'n mock_config" where
  "mock_build files b =
     (if trim (bd_listen b) = [] then Inl Listen_empty
      else if \<not> is_finite (bd_reject_ratio b)
        \<or> \<not> (f64_le (Num 0) (bd_reject_ratio b) \<and> f64_le (bd_reject_ratio b) (Num 1))
      then Inl (Reject_ratio_range (bd_reject_ratio b))
      else if bd_close_after b = Some 0 then Inl Close_after_zero
      else and_then (stall_of (bd_stall_every b) (bd_stall_for b)) (\<lambda>stall.
        if bd_socketio b \<noteq> None \<and> (bd_replay b \<noteq> None \<or> bd_rules b \<noteq> None) then Inl Socketio_combined
        else if (case bd_socketio b of Some (interval, timeout) \<Rightarrow> interval = 0 \<or> timeout = 0 | None \<Rightarrow> False)
        then Inl Socketio_ping_zero
        else if bd_replay b \<noteq> None \<and> bd_rules b \<noteq> None then Inl Rules_and_replay
        else and_then (transpose_opt (\<lambda>path. map_err Replay_failed
               (replay_load (mf_json files) (mf_line files) (mf_read files path) path)) (bd_replay b)) (\<lambda>replay.
             and_then (transpose_opt (\<lambda>path. map_err Rules_failed
               (rules_load (mf_yaml files) (mf_read files path) path)) (bd_rules b)) (\<lambda>rules.
             and_then (transpose_opt (\<lambda>(cert, key). map_err Tls_failed (mf_tls files cert key)) (bd_tls b)) (\<lambda>tls.
               Inr \<lparr>mk_listen = bd_listen b, mk_delay = bd_delay b, mk_jitter = bd_jitter b,
                    mk_close_after = bd_close_after b, mk_reject_ratio = bd_reject_ratio b, mk_stall = stall,
                    mk_replay = replay, mk_rules = rules, mk_socketio = bd_socketio b,
                    mk_compression = bd_compression b, mk_seed = bd_seed b, mk_tls = (tls \<noteq> None)\<rparr>)))))"

section \<open>Counters\<close>

record mock_counters =
  ct_accepted :: nat
  ct_rejected :: nat
  ct_active :: nat
  ct_received :: nat
  ct_sent :: nat
  ct_negotiated :: nat

record mock_stats =
  connections_accepted :: nat
  connections_rejected :: nat
  connections_active :: nat
  frames_received :: nat
  frames_sent :: nat
  connections_compressed :: nat

definition mock_snapshot :: "mock_counters \<Rightarrow> mock_stats" where
  "mock_snapshot c = \<lparr>connections_accepted = ct_accepted c, connections_rejected = ct_rejected c,
     connections_active = ct_active c, frames_received = ct_received c, frames_sent = ct_sent c,
     connections_compressed = ct_negotiated c\<rparr>"

section \<open>The accept loop\<close>

record connection_plan =
  cp_reject :: bool
  cp_seed :: u64
  cp_index :: nat

text \<open>The decisions for one accepted TCP connection, from the generator and the next index.\<close>

definition plan_connection :: "f64 \<Rightarrow> u64 \<times> nat \<Rightarrow> connection_plan \<times> u64 \<times> nat" where
  "plan_connection ratio st =
     (case st of (rng, next_index) \<Rightarrow>
        (let (x, rng) = next_f64 rng;
             reject = f64_lt x ratio;
             (seed, rng) = next_u64 rng
         in (\<lparr>cp_reject = reject, cp_seed = seed, cp_index = next_index\<rparr>,
             rng, if reject then next_index else next_index + 1)))"

text \<open>\<open>MockServer::run\<close> until it is cancelled; every \<open>accept\<close> answers a connection (\<open>True\<close>) or an error,
  after which the loop waits and goes on.\<close>

fun accept_loop :: "f64 \<Rightarrow> bool list \<Rightarrow> u64 \<times> nat \<Rightarrow> connection_plan list" where
  "accept_loop ratio [] st = []"
| "accept_loop ratio (accepted # more_answers) st =
     (if accepted then (case plan_connection ratio st of (p, st) \<Rightarrow> p # accept_loop ratio more_answers st)
      else accept_loop ratio more_answers st)"

definition mock_run :: "'n mock_config \<Rightarrow> u64 \<Rightarrow> bool list \<Rightarrow> connection_plan list" where
  "mock_run cfg time_seed answers =
     accept_loop (mk_reject_ratio cfg) answers
       (xorshift_new (case mk_seed cfg of Some s \<Rightarrow> s | None \<Rightarrow> time_seed), 0)"

section \<open>Timing\<close>

definition stall_release :: "'n mock_config \<Rightarrow> instant \<Rightarrow> instant \<Rightarrow> instant option" where
  "stall_release cfg epoch now =
     (case mk_stall cfg of
        None \<Rightarrow> None
      | Some stall \<Rightarrow>
          (let elapsed = now - epoch;
               every = sl_every stall;
               cycles = elapsed div every
           in if cycles = 0 then None
              else (let into_cycle = elapsed mod every; len = sl_length stall
                    in if into_cycle < len then Some (now + min u64_max (len - into_cycle)) else None)))"

definition reply_delay_from :: "'n mock_config \<Rightarrow> duration \<Rightarrow> u64 \<Rightarrow> (duration \<times> u64) option" where
  "reply_delay_from cfg base rng =
     (if mk_jitter cfg = 0 then Some (base, rng)
      else (let (extra, rng) = at_most (word_of_nat (min (mk_jitter cfg) u64_max)) rng
            in map_option (\<lambda>d. (d, rng)) (duration_add base (unat extra))))"

definition reply_delay :: "'n mock_config \<Rightarrow> u64 \<Rightarrow> (duration \<times> u64) option" where
  "reply_delay cfg rng = reply_delay_from cfg (mk_delay cfg) rng"

section \<open>The reply queue\<close>

datatype queued =
    Q_Frame message
  | Q_Control message
  | Q_Close nat string

type_synonym reply_queue = "(instant \<times> queued) list"

datatype outgoing =
    Out_Echo reply_queue
  | Out_Replay "replay_frame list" nat instant "instant option"

text \<open>\<open>next_due\<close> draws a replayed frame's delay once and keeps it.\<close>

definition next_due :: "'n mock_config \<Rightarrow> outgoing \<Rightarrow> u64 \<Rightarrow> (instant option \<times> outgoing \<times> u64) option" where
  "next_due cfg outgoing rng =
     (case outgoing of
        Out_Echo queue \<Rightarrow> Some (case queue of [] \<Rightarrow> None | (due, _) # _ \<Rightarrow> Some due, outgoing, rng)
      | Out_Replay frames i start due \<Rightarrow>
          (if i < length frames
           then (case due of
               Some d \<Rightarrow> Some (Some d, outgoing, rng)
             | None \<Rightarrow>
                 map_option (\<lambda>(delay, rng).
                   (let d = start + fr_offset (frames ! i) + delay
                    in (Some d, Out_Replay frames i start (Some d), rng)))
                   (reply_delay cfg rng))
           else Some (None, outgoing, rng)))"

definition out_pop :: "outgoing \<Rightarrow> queued option \<times> outgoing" where
  "out_pop outgoing =
     (case outgoing of
        Out_Echo queue \<Rightarrow>
          (case queue of [] \<Rightarrow> (None, Out_Echo []) | (_, item) # q \<Rightarrow> (Some item, Out_Echo q))
      | Out_Replay frames i start due \<Rightarrow>
          (if i < length frames then (Some (Q_Frame (fr_message (frames ! i))), Out_Replay frames (i + 1) start None)
           else (None, outgoing)))"

definition queue_replies ::
    "'n serde_json \<Rightarrow> 'n mock_config \<Rightarrow> instant \<Rightarrow> message \<Rightarrow> nat \<Rightarrow> reply_queue \<Rightarrow> u64 \<Rightarrow> (reply_queue \<times> u64) option" where
  "queue_replies sj cfg now msg seq queue rng =
     (case (case mk_rules cfg of Some rules \<Rightarrow> decide sj rules msg seq | None \<Rightarrow> Decide_Echo) of
        Decide_Echo \<Rightarrow>
          map_option (\<lambda>(delay, rng). (queue @ [(now + delay, Q_Frame msg)], rng)) (reply_delay cfg rng)
      | Decide_Ignore \<Rightarrow> Some (queue, rng)
      | Decide_Reply frames delay close \<Rightarrow>
          (let base = (case delay of Some d \<Rightarrow> d | None \<Rightarrow> mk_delay cfg)
           in map_option (\<lambda>(delay, rng).
                (let due = now + delay
                 in (queue @ map (\<lambda>f. (due, Q_Frame f)) frames
                       @ (case close of Some (code, reason) \<Rightarrow> [(due, Q_Close code reason)] | None \<Rightarrow> []), rng)))
              (reply_delay_from cfg base rng)))"

definition mock_engine :: "bool \<Rightarrow> engine_io" where
  "mock_engine engine_io_3 = (if engine_io_3 then V3 else V4)"

definition socketio_open :: "string \<Rightarrow> duration \<Rightarrow> duration \<Rightarrow> bool \<Rightarrow> string" where
  "socketio_open sid interval timeout engine_io_3 =
     mock_open sid (interval div 1000000) (timeout div 1000000) (mock_engine engine_io_3)"

text \<open>Whether the handshake request asks for Engine.IO 3, from its query.\<close>

definition asks_eio3 :: "string option \<Rightarrow> bool" where
  "asks_eio3 query = (case query of Some q \<Rightarrow> ''EIO=3'' \<in> set (str_split (CHR ''&'') q) | None \<Rightarrow> False)"

text \<open>The extension header of the handshake answer: the first offer the server can take.\<close>

definition answer_compression :: "string list \<Rightarrow> string option" where
  "answer_compression offers =
     (case List.map_filter accept_offer offers of [] \<Rightarrow> None | a # _ \<Rightarrow> Some a)"

section \<open>A session\<close>

record mock_state =
  so_rng :: u64
  so_outgoing :: outgoing
  so_replies :: nat
  so_received :: nat
  so_sio :: mock_session
  so_ping_at :: "instant option"
  so_pong_by :: "instant option"
  so_counters :: mock_counters

definition session_id :: "nat \<Rightarrow> string" where
  "session_id index = ''wsblast-mock-'' @ show_nat index"

definition session_start ::
    "'n mock_config \<Rightarrow> connection_plan \<Rightarrow> bool \<Rightarrow> instant \<Rightarrow> mock_counters \<Rightarrow> mock_state" where
  "session_start cfg plan engine_io_3 now counters =
     (let outgoing = (case mk_replay cfg of
            Some script \<Rightarrow> Out_Replay (frames_for script (cp_index plan)) 0 now None
          | None \<Rightarrow> Out_Echo []);
          st = \<lparr>so_rng = xorshift_new (cp_seed plan), so_outgoing = outgoing, so_replies = 0, so_received = 0,
            so_sio = \<lparr>ms_engine = mock_engine engine_io_3, ms_pending = None\<rparr>, so_ping_at = None, so_pong_by = None,
            so_counters = counters\<rparr>
      in case (mk_socketio cfg, outgoing) of
           (Some (interval, timeout), Out_Echo queue) \<Rightarrow>
             (let opening = [(now, Q_Control (Msg_Text (socketio_open (session_id (cp_index plan)) interval timeout engine_io_3)))]
              in if engine_io_3
                 then st\<lparr>so_outgoing := Out_Echo (opening @ [(now, Q_Control (Msg_Text ''40''))]),
                         so_pong_by := Some (now + interval + timeout)\<rparr>
                 else st\<lparr>so_outgoing := Out_Echo opening, so_ping_at := Some (now + interval)\<rparr>)
         | _ \<Rightarrow> st)"

datatype mock_event = Event_Cancelled | Event_Ping | Event_Due | Event_Received received

text \<open>What the outside answers in one turn: the time before the event is chosen and while it is handled, whether
  the run is cancelled, which branch of the \<open>select\<close> is ready first, whether a stall ends by cancellation
  and whether the socket takes a frame.\<close>

record turn_env =
  te_now :: instant
  te_at :: instant
  te_cancelled :: bool
  te_selected :: mock_event
  te_stall_cancelled :: bool
  te_ok :: bool

text \<open>What a turn does: frames written to the client, and whether the session goes on.\<close>

datatype turn_result = Turn_Next mock_state "message list" | Turn_End mock_counters "message list"

definition close_frame :: "nat \<Rightarrow> string \<Rightarrow> message" where
  "close_frame code reason = Msg_Close (Some (code, reason))"

definition count_received :: "mock_state \<Rightarrow> mock_state" where
  "count_received st = st\<lparr>so_received := so_received st + 1,
     so_counters := (so_counters st)\<lparr>ct_received := ct_received (so_counters st) + 1\<rparr>\<rparr>"

definition turn_ping :: "'n mock_config \<Rightarrow> turn_env \<Rightarrow> mock_state \<Rightarrow> turn_result" where
  "turn_ping cfg env st =
     (let now = te_at env
      in if (case so_pong_by st of Some b \<Rightarrow> b \<le> now | None \<Rightarrow> False)
         then Turn_End (so_counters st) [close_frame 1000 ''ping timeout'']
         else (case (mk_socketio cfg, so_ping_at st) of
             (Some (interval, timeout), Some due) \<Rightarrow>
               (if due \<le> now
                then (if te_ok env
                      then Turn_Next (st\<lparr>so_pong_by := Some (now + timeout), so_ping_at := Some (now + interval)\<rparr>) [Msg_Text ''2'']
                      else Turn_End (so_counters st) [])
                else Turn_Next st [])
           | _ \<Rightarrow> Turn_Next st []))"

definition turn_due :: "'n mock_config \<Rightarrow> instant \<Rightarrow> turn_env \<Rightarrow> mock_state \<Rightarrow> turn_result" where
  "turn_due cfg epoch env st =
     (if stall_release cfg epoch (te_at env) \<noteq> None \<and> te_stall_cancelled env
      then Turn_End (so_counters st) [close_frame 1001 ''server shutting down'']
      else
        (case out_pop (so_outgoing st) of
           (item, outgoing) \<Rightarrow>
             (let st = st\<lparr>so_outgoing := outgoing\<rparr>
              in case item of
                   None \<Rightarrow> Turn_Next st []
                 | Some (Q_Control msg) \<Rightarrow> (if te_ok env then Turn_Next st [msg] else Turn_End (so_counters st) [])
                 | Some (Q_Close code reason) \<Rightarrow> Turn_End (so_counters st) [close_frame code reason]
                 | Some (Q_Frame msg) \<Rightarrow>
                     (if \<not> te_ok env then Turn_End (so_counters st) []
                      else
                        (let st = st\<lparr>so_counters := (so_counters st)\<lparr>ct_sent := ct_sent (so_counters st) + 1\<rparr>,
                                     so_replies := so_replies st + 1\<rparr>
                         in if mk_close_after cfg = Some (so_replies st)
                            then Turn_End (so_counters st) [msg, close_frame 1000 ''close-after'']
                            else Turn_Next st [msg])))))"

text \<open>An event's reply is its first frame; the attachments that follow it are not counted.\<close>

definition socketio_items :: "instant \<Rightarrow> bool \<Rightarrow> message list \<Rightarrow> reply_queue" where
  "socketio_items due event frames =
     map (\<lambda>(i, frame). (due, if event \<and> i = (0 :: nat) then Q_Frame frame else Q_Control frame)) (enumerate 0 frames)"

definition turn_socketio ::
    "'n serde_json \<Rightarrow> 'n mock_config \<Rightarrow> connection_plan \<Rightarrow> bool \<Rightarrow> turn_env \<Rightarrow> message \<Rightarrow> mock_state \<Rightarrow> turn_result option" where
  "turn_socketio sj cfg plan engine_io_3 env msg st =
     (if msg = Msg_Text ''3'' then Some (Turn_Next (st\<lparr>so_pong_by := None\<rparr>) [])
      else
        (let st = (case mk_socketio cfg of
             Some (interval, timeout) \<Rightarrow>
               (if engine_io_3 \<and> msg = Msg_Text ''2'' then st\<lparr>so_pong_by := Some (te_at env + interval + timeout)\<rparr> else st)
           | None \<Rightarrow> st);
             (answer, sio) = mock_receive sj msg (session_id (cp_index plan)) (so_sio st);
             st = st\<lparr>so_sio := sio\<rparr>
         in case answer of
              None \<Rightarrow> Some (Turn_Next st [])
            | Some a \<Rightarrow>
                (let st = (if ma_event a then count_received st else st)
                 in case so_outgoing st of
                      Out_Replay _ _ _ _ \<Rightarrow> Some (Turn_Next st [])
                    | Out_Echo queue \<Rightarrow>
                        (if ma_event a
                         then map_option (\<lambda>(delay, rng).
                                Turn_Next (st\<lparr>so_rng := rng,
                                  so_outgoing := Out_Echo (queue @ socketio_items (te_at env + delay) True (ma_frames a))\<rparr>) [])
                                (reply_delay cfg (so_rng st))
                         else Some (Turn_Next (st\<lparr>so_outgoing := Out_Echo (queue @ socketio_items (te_at env) False (ma_frames a))\<rparr>) [])))))"

definition turn_data :: "'n serde_json \<Rightarrow> 'n mock_config \<Rightarrow> turn_env \<Rightarrow> message \<Rightarrow> mock_state \<Rightarrow> turn_result option" where
  "turn_data sj cfg env msg st =
     (let st = count_received st
      in case so_outgoing st of
           Out_Replay _ _ _ _ \<Rightarrow> Some (Turn_Next st [])
         | Out_Echo queue \<Rightarrow>
             map_option (\<lambda>(queue, rng). Turn_Next (st\<lparr>so_outgoing := Out_Echo queue, so_rng := rng\<rparr>) [])
               (queue_replies sj cfg (te_at env) msg (so_received st) queue (so_rng st)))"

fun is_data :: "message \<Rightarrow> bool" where
  "is_data (Msg_Text _) = True"
| "is_data (Msg_Binary _) = True"
| "is_data _ = False"

definition turn_received ::
    "'n serde_json \<Rightarrow> 'n mock_config \<Rightarrow> connection_plan \<Rightarrow> bool \<Rightarrow> turn_env \<Rightarrow> received \<Rightarrow> mock_state \<Rightarrow> turn_result option" where
  "turn_received sj cfg plan engine_io_3 env r st =
     (case r of
        Recv msg \<Rightarrow>
          (if is_data msg \<and> mk_socketio cfg \<noteq> None then turn_socketio sj cfg plan engine_io_3 env msg st
           else if is_data msg then turn_data sj cfg env msg st
           else (case msg of
               Msg_Close f \<Rightarrow> Some (Turn_End (so_counters st) [])
             | _ \<Rightarrow> Some (Turn_Next st [])))
      | Recv_error \<Rightarrow> Some (Turn_End (so_counters st) [])
      | Recv_end \<Rightarrow> Some (Turn_End (so_counters st) []))"

text \<open>One turn of the loop of \<open>run_session\<close>: a reply that is due goes out before anything else is waited
  for.\<close>

definition choose_event :: "turn_env \<Rightarrow> instant option \<Rightarrow> mock_event" where
  "choose_event env due =
     (case due of
        Some d \<Rightarrow> (if d \<le> te_now env then (if te_cancelled env then Event_Cancelled else Event_Due) else te_selected env)
      | None \<Rightarrow> te_selected env)"

definition session_turn ::
    "'n serde_json \<Rightarrow> 'n mock_config \<Rightarrow> connection_plan \<Rightarrow> instant \<Rightarrow> bool \<Rightarrow> turn_env \<Rightarrow> mock_state \<Rightarrow> turn_result option" where
  "session_turn sj cfg plan epoch engine_io_3 env st =
     (case next_due cfg (so_outgoing st) (so_rng st) of
        None \<Rightarrow> None
      | Some (due, outgoing, rng) \<Rightarrow>
          (let st = st\<lparr>so_outgoing := outgoing, so_rng := rng\<rparr>
           in case choose_event env due of
                Event_Ping \<Rightarrow> Some (turn_ping cfg env st)
              | Event_Cancelled \<Rightarrow> Some (Turn_End (so_counters st) [close_frame 1001 ''server shutting down''])
              | Event_Due \<Rightarrow> Some (turn_due cfg epoch env st)
              | Event_Received r \<Rightarrow> turn_received sj cfg plan engine_io_3 env r st))"

text \<open>The loop over the answers of its turns; \<open>None\<close> is a panic. The frames written come with the final counters and,
  while the answers last, the state the session is in.\<close>

fun session_loop ::
    "'n serde_json \<Rightarrow> 'n mock_config \<Rightarrow> connection_plan \<Rightarrow> instant \<Rightarrow> bool \<Rightarrow> turn_env list \<Rightarrow> mock_state
     \<Rightarrow> (message list \<times> mock_counters \<times> mock_state option) option" where
  "session_loop sj cfg plan epoch eio3 [] st = Some ([], so_counters st, Some st)"
| "session_loop sj cfg plan epoch eio3 (env # envs) st =
     (case session_turn sj cfg plan epoch eio3 env st of
        None \<Rightarrow> None
      | Some (Turn_End counters msgs) \<Rightarrow> Some (msgs, counters, None)
      | Some (Turn_Next st msgs) \<Rightarrow>
          map_option (\<lambda>(out, counters, final). (msgs @ out, counters, final))
            (session_loop sj cfg plan epoch eio3 envs st))"

text \<open>\<open>serve_connection\<close> and \<open>accept_session\<close>: a rejected upgrade is counted and answered with 503 when its
  request arrives; an accepted one is counted, served and no longer active when its session ends.\<close>

datatype handshake = Handshake_done "string option" | Handshake_failed | Handshake_cancelled

definition serve_connection ::
    "'n serde_json \<Rightarrow> 'n mock_config \<Rightarrow> connection_plan \<Rightarrow> instant \<Rightarrow> handshake \<Rightarrow> instant \<Rightarrow> turn_env list \<Rightarrow> mock_counters
     \<Rightarrow> (message list \<times> mock_counters) option" where
  "serve_connection sj cfg plan epoch hs start envs counters =
     (if cp_reject plan
      then Some ([], case hs of Handshake_done _ \<Rightarrow> counters\<lparr>ct_rejected := ct_rejected counters + 1\<rparr> | _ \<Rightarrow> counters)
      else (case hs of
          Handshake_done query \<Rightarrow>
            (let eio3 = mk_socketio cfg \<noteq> None \<and> asks_eio3 query;
                 counters = counters\<lparr>ct_accepted := ct_accepted counters + 1, ct_active := ct_active counters + 1\<rparr>
             in map_option (\<lambda>(out, counters, _). (out, counters\<lparr>ct_active := ct_active counters - 1\<rparr>))
                  (session_loop sj cfg plan epoch eio3 envs (session_start cfg plan eio3 start counters)))
        | _ \<Rightarrow> Some ([], counters)))"

end
