(* ===== verification/Mock_Sessions.thy ===== *)
theory Mock_Sessions
  imports Mock_Server
begin

text \<open>
  What the mock server does: the timing of its stalls, the plans of its accept loop, and its sessions. A
  session that echoes or follows rules refines a first-in first-out queue of the replies to the
  frames it received; one that replays sends its script in order; every session honours
  \<open>--close-after\<close>.
\<close>

section \<open>Stalls\<close>

definition stalled_at :: "'n mock_config \<Rightarrow> instant \<Rightarrow> instant \<Rightarrow> bool" where
  "stalled_at cfg epoch now =
     (case mk_stall cfg of
        Some s \<Rightarrow> sl_every s \<le> now - epoch \<and> (now - epoch) mod sl_every s < sl_length s
      | None \<Rightarrow> False)"

definition stall_ok :: "stall option \<Rightarrow> bool" where
  "stall_ok stall \<longleftrightarrow> (\<forall>s. stall = Some s \<longrightarrow> 0 < sl_length s \<and> sl_length s < sl_every s)"

lemma stall_release_iff:
  assumes "stall_ok (mk_stall cfg)"
  shows "stall_release cfg epoch now =
    (if stalled_at cfg epoch now
     then (case mk_stall cfg of Some s \<Rightarrow> Some (now + min u64_max (sl_length s - (now - epoch) mod sl_every s)) | None \<Rightarrow> None)
     else None)"
  using assms
  by (auto simp: stall_release_def stalled_at_def stall_ok_def Let_def div_eq_0_iff split: option.splits)

lemma mod_add_gap:
  fixes e every gap :: nat
  assumes "e mod every + gap < every"
  shows "(e + gap) mod every = e mod every + gap"
  using assms by (metis add.commute mod_add_left_eq mod_less)

text \<open>A stall holds a reply back to its end and no longer. Every \<open>every\<close> the server is stalled for
  \<open>length\<close>, from the first multiple of \<open>every\<close> on; a reply ready at another time goes out at once, and one
  ready during a stall is released later, within the stall's length, at a moment when the server is not stalled.\<close>

theorem stall_release_exact:
  assumes "stall_ok (mk_stall cfg)" "\<And>s. mk_stall cfg = Some s \<Longrightarrow> sl_length s \<le> u64_max" "epoch \<le> now"
  shows "(stall_release cfg epoch now \<noteq> None) = stalled_at cfg epoch now
    \<and> (\<forall>release s. stall_release cfg epoch now = Some release \<longrightarrow> mk_stall cfg = Some s \<longrightarrow>
         now < release \<and> release \<le> now + sl_length s \<and> \<not> stalled_at cfg epoch release)"
proof (intro conjI allI impI)
  show "(stall_release cfg epoch now \<noteq> None) = stalled_at cfg epoch now"
    unfolding stall_release_iff [OF assms(1)] by (auto simp: stalled_at_def split: option.splits)
  fix release s
  assume "stall_release cfg epoch now = Some release" "mk_stall cfg = Some s"
  moreover note le = assms(2) [OF this(2)]
  moreover from assms(1) \<open>mk_stall cfg = Some s\<close> have s: "0 < sl_length s" "sl_length s < sl_every s" by (auto simp: stall_ok_def)
  ultimately have st: "(now - epoch) mod sl_every s < sl_length s"
    and rel: "release = now + (sl_length s - (now - epoch) mod sl_every s)"
    by (auto simp: stall_release_iff [OF assms(1)] stalled_at_def split: if_splits)
  show "now < release" "release \<le> now + sl_length s" using st rel by simp_all
  have "release - epoch = (now - epoch) + (sl_length s - (now - epoch) mod sl_every s)"
    using rel assms(3) by simp
  moreover have "((now - epoch) + (sl_length s - (now - epoch) mod sl_every s)) mod sl_every s = sl_length s"
    using st s(2) by (subst mod_add_gap) simp_all
  ultimately show "\<not> stalled_at cfg epoch release" by (simp add: stalled_at_def \<open>mk_stall cfg = Some s\<close>)
qed

section \<open>Accepted connections\<close>

lemma plan_connection_index:
  "plan_connection ratio (rng, n) = (p, rng', n') \<Longrightarrow> cp_index p = n \<and> n' = (if cp_reject p then n else n + 1)"
  by (auto simp: plan_connection_def Let_def split: prod.splits)

lemma accept_loop_indices:
  "\<exists>k. map cp_index (filter (\<lambda>p. \<not> cp_reject p) (accept_loop ratio answers (rng, n))) = [n..<n + k]"
proof (induction answers arbitrary: rng n)
  case Nil
  show ?case by (rule exI [of _ 0]) simp
next
  case (Cons a as)
  obtain p rng' n' where p: "plan_connection ratio (rng, n) = (p, rng', n')" by (metis prod.exhaust)
  from Cons.IH [of rng' n'] obtain k where
    k: "map cp_index (filter (\<lambda>p. \<not> cp_reject p) (accept_loop ratio as (rng', n'))) = [n'..<n' + k]" ..
  show ?case
  proof (cases a)
    case True
    show ?thesis
    proof (cases "cp_reject p")
      case True
      with \<open>a\<close> p k plan_connection_index [OF p] show ?thesis by auto
    next
      case False
      with \<open>a\<close> p k plan_connection_index [OF p] have
        "map cp_index (filter (\<lambda>p. \<not> cp_reject p) (accept_loop ratio (a # as) (rng, n))) = n # [Suc n..<Suc n + k]"
        by simp
      also have "\<dots> = [n..<n + Suc k]" by (simp add: upt_conv_Cons)
      finally show ?thesis by blast
    qed
  next
    case False
    with Cons.IH show ?thesis by simp
  qed
qed

lemma accept_loop_draws:
  "p \<in> set (accept_loop ratio answers st) \<Longrightarrow> \<exists>rng. cp_reject p = f64_lt (fst (next_f64 rng)) ratio"
proof (induction answers arbitrary: st)
  case (Cons a as)
  obtain q st' where q: "plan_connection ratio st = (q, st')" by (metis prod.exhaust)
  have "cp_reject q = f64_lt (fst (next_f64 (fst st))) ratio"
    using q by (auto simp: plan_connection_def Let_def split: prod.splits)
  with Cons q show ?case by (cases st') (auto split: if_splits)
qed simp

lemma length_accept_loop: "length (accept_loop ratio answers st) = length (filter (\<lambda>a. a) answers)"
  by (induction answers arbitrary: st) (auto split: prod.splits)

lemma draw_below_one: "f64_lt (fst (next_f64 rng)) (Num 1)" "\<not> f64_lt (fst (next_f64 rng)) (Num 0)"
proof -
  obtain n s' where n: "next_f64 rng = (Num (of_nat n / 2 ^ 53), s')" "n < 2 ^ 53" by (rule next_f64_value)
  have "(of_nat n :: rat) < of_nat (2 ^ 53)" using n(2) by (simp only: of_nat_less_iff)
  then have "(of_nat n / 2 ^ 53 :: rat) < 1" by (simp add: divide_less_eq)
  then show "f64_lt (fst (next_f64 rng)) (Num 1)" "\<not> f64_lt (fst (next_f64 rng)) (Num 0)" by (simp_all add: n)
qed

text \<open>The accept loop plans every connection it accepts. The connections it does not reject are numbered
  0, 1, 2 and so on without a gap, which is what deals recorded workers to them in turn; with a reject ratio of 0 it
  rejects none and with a ratio of 1 all of them.\<close>

theorem accepted_connections_numbered:
  "length (mock_run cfg time_seed answers) = length (filter (\<lambda>a. a) answers)
   \<and> map cp_index (filter (\<lambda>p. \<not> cp_reject p) (mock_run cfg time_seed answers)) =
       [0..<length (filter (\<lambda>p. \<not> cp_reject p) (mock_run cfg time_seed answers))]
   \<and> (mk_reject_ratio cfg = Num 0 \<longrightarrow> (\<forall>p\<in>set (mock_run cfg time_seed answers). \<not> cp_reject p))
   \<and> (mk_reject_ratio cfg = Num 1 \<longrightarrow> (\<forall>p\<in>set (mock_run cfg time_seed answers). cp_reject p))"
proof -
  let ?plans = "mock_run cfg time_seed answers"
  obtain k where k: "map cp_index (filter (\<lambda>p. \<not> cp_reject p) ?plans) = [0..<0 + k]"
    unfolding mock_run_def using accept_loop_indices by metis
  then have "length (filter (\<lambda>p. \<not> cp_reject p) ?plans) = k" by (metis add_0 length_map length_upt diff_zero)
  moreover have "cp_reject p = f64_lt (fst (next_f64 (SOME rng. cp_reject p = f64_lt (fst (next_f64 rng)) (mk_reject_ratio cfg)))) (mk_reject_ratio cfg)"
    if "p \<in> set ?plans" for p
    using someI_ex [OF accept_loop_draws [OF that [unfolded mock_run_def]]] .
  ultimately show ?thesis
    using k draw_below_one by (auto simp: mock_run_def length_accept_loop)
qed

section \<open>What every session loop keeps\<close>

text \<open>The data frames a session receives in its turns.\<close>

definition turn_input :: "'n mock_config \<Rightarrow> turn_env \<Rightarrow> mock_state \<Rightarrow> message list" where
  "turn_input cfg env st =
     (case next_due cfg (so_outgoing st) (so_rng st) of
        Some (due, _, _) \<Rightarrow>
          (case choose_event env due of Event_Received (Recv m) \<Rightarrow> (if is_data m then [m] else []) | _ \<Rightarrow> [])
      | None \<Rightarrow> [])"

fun session_inputs ::
    "'n serde_json \<Rightarrow> 'n mock_config \<Rightarrow> connection_plan \<Rightarrow> instant \<Rightarrow> bool \<Rightarrow> turn_env list \<Rightarrow> mock_state \<Rightarrow> message list" where
  "session_inputs sj cfg plan epoch eio3 [] st = []"
| "session_inputs sj cfg plan epoch eio3 (env # envs) st =
     turn_input cfg env st @
       (case session_turn sj cfg plan epoch eio3 env st of
          Some (Turn_Next st' _) \<Rightarrow> session_inputs sj cfg plan epoch eio3 envs st'
        | _ \<Rightarrow> [])"

text \<open>A contract of the session loop: \<open>inv\<close> relates the data frames received and the frames written so far to
  the state of an open session, \<open>fin\<close> to the counters of one that ended. A turn that keeps them makes
  every run keep them.\<close>

locale session_contract =
  fixes sj :: "'n serde_json" and cfg :: "'n mock_config" and plan :: connection_plan and epoch :: instant and eio3 :: bool
    and inv :: "message list \<Rightarrow> message list \<Rightarrow> mock_state \<Rightarrow> bool"
    and fin :: "message list \<Rightarrow> message list \<Rightarrow> mock_counters \<Rightarrow> bool"
  assumes turn_next: "\<lbrakk>inv ins out st; session_turn sj cfg plan epoch eio3 env st = Some (Turn_Next st' msgs)\<rbrakk>
      \<Longrightarrow> inv (ins @ turn_input cfg env st) (out @ msgs) st'"
    and turn_end: "\<lbrakk>inv ins out st; session_turn sj cfg plan epoch eio3 env st = Some (Turn_End c msgs)\<rbrakk>
      \<Longrightarrow> fin (ins @ turn_input cfg env st) (out @ msgs) c"
begin

lemma run_keeps:
  assumes "inv ins out st" "session_loop sj cfg plan epoch eio3 envs st = Some (written, c, final)"
  shows "case final of
      Some st' \<Rightarrow> inv (ins @ session_inputs sj cfg plan epoch eio3 envs st) (out @ written) st' \<and> c = so_counters st'
    | None \<Rightarrow> fin (ins @ session_inputs sj cfg plan epoch eio3 envs st) (out @ written) c"
  using assms
proof (induction envs arbitrary: ins out st written)
  case Nil
  then show ?case by auto
next
  case (Cons env envs)
  from Cons.prems(2) obtain r where r: "session_turn sj cfg plan epoch eio3 env st = Some r"
    by (auto split: option.splits)
  show ?case
  proof (cases r)
    case (Turn_End c' msgs)
    with Cons.prems(2) r have "written = msgs" "c = c'" "final = None" by auto
    with turn_end [OF Cons.prems(1) r [unfolded Turn_End]] r Turn_End show ?thesis by simp
  next
    case (Turn_Next st' msgs)
    with Cons.prems(2) r obtain more_out where
      loop: "session_loop sj cfg plan epoch eio3 envs st' = Some (more_out, c, final)" and out: "written = msgs @ more_out"
      by auto
    from Cons.IH [OF turn_next [OF Cons.prems(1) r [unfolded Turn_Next]] loop] r Turn_Next show ?thesis
      by (simp add: out cong: option.case_cong)
  qed
qed

end

section \<open>Echoes and rules\<close>

text \<open>The specification: what a connection sends for the \<open>seq\<close>-th data frame it receives, and for a sequence
  of frames the first of which is number \<open>n + 1\<close>.\<close>

definition reply_items :: "'n serde_json \<Rightarrow> 'n mock_config \<Rightarrow> message \<Rightarrow> nat \<Rightarrow> queued list" where
  "reply_items sj cfg msg seq =
     (case (case mk_rules cfg of Some rules \<Rightarrow> decide sj rules msg seq | None \<Rightarrow> Decide_Echo) of
        Decide_Echo \<Rightarrow> [Q_Frame msg]
      | Decide_Ignore \<Rightarrow> []
      | Decide_Reply frames delay close \<Rightarrow>
          map Q_Frame frames @ (case close of Some (code, reason) \<Rightarrow> [Q_Close code reason] | None \<Rightarrow> []))"

fun replies_to :: "'n serde_json \<Rightarrow> 'n mock_config \<Rightarrow> nat \<Rightarrow> message list \<Rightarrow> queued list" where
  "replies_to sj cfg n [] = []"
| "replies_to sj cfg n (m # ms) = reply_items sj cfg m (Suc n) @ replies_to sj cfg (Suc n) ms"

fun item_frames :: "queued list \<Rightarrow> message list" where
  "item_frames [] = []"
| "item_frames (Q_Frame m # items) = m # item_frames items"
| "item_frames (_ # items) = item_frames items"

fun plain_item :: "queued \<Rightarrow> bool" where
  "plain_item (Q_Frame m) = is_data m"
| "plain_item (Q_Control m) = False"
| "plain_item (Q_Close _ _) = True"

definition plain_queue :: "mock_state \<Rightarrow> reply_queue \<Rightarrow> bool" where
  "plain_queue st q \<longleftrightarrow> so_outgoing st = Out_Echo q \<and> list_all (\<lambda>(_, item). plain_item item) q"

lemma item_frames_append [simp]: "item_frames (a @ b) = item_frames a @ item_frames b"
  by (induction a rule: item_frames.induct) simp_all

lemma item_frames_map [simp]: "item_frames (map Q_Frame ms) = ms"
  by (induction ms) simp_all

lemma reply_items_plain:
  assumes "is_data msg"
  shows "list_all plain_item (reply_items sj cfg msg seq)"
proof -
  have "list_all plain_item (map Q_Frame frames @ (case close of Some (code, reason) \<Rightarrow> [Q_Close code reason] | None \<Rightarrow> []))"
    if d: "decide sj rules msg seq = Decide_Reply frames delay close" for rules frames delay close
  proof -
    obtain r where "rule_reply sj msg seq r = Decide_Reply frames delay close"
      by (rule decide_reply_rule [OF d])
    then show ?thesis by (auto simp: rule_reply_def Let_def list_all_iff split: option.splits)
  qed
  with assms show ?thesis by (auto simp: reply_items_def split: option.split decision.split)
qed

lemma queue_replies_items:
  assumes "queue_replies sj cfg now msg seq queue rng = Some (queue', rng')"
  shows "map snd queue' = map snd queue @ reply_items sj cfg msg seq"
  using assms
  by (auto simp: queue_replies_def reply_items_def Let_def comp_def split: option.splits decision.splits)

text \<open>One turn of a session without replay and Socket.IO: what it writes and what stays in the queue is what was
  in the queue and the replies to what the turn received.\<close>

definition fifo_turn :: "'n serde_json \<Rightarrow> 'n mock_config \<Rightarrow> mock_state \<Rightarrow> reply_queue \<Rightarrow> message list \<Rightarrow> turn_result \<Rightarrow> bool" where
  "fifo_turn sj cfg st q ins r =
     (case r of
        Turn_Next st' msgs \<Rightarrow>
          (\<exists>q'. plain_queue st' q' \<and> map Q_Frame msgs @ map snd q' = map snd q @ replies_to sj cfg (so_received st) ins
             \<and> list_all is_data msgs \<and> so_received st' = so_received st + length ins
             \<and> ct_received (so_counters st') = ct_received (so_counters st) + length ins
             \<and> ct_sent (so_counters st') = ct_sent (so_counters st) + length msgs)
      | Turn_End c msgs \<Rightarrow>
          prefix (filter is_data msgs) (item_frames (map snd q)) \<and> ins = []
             \<and> ct_received c = ct_received (so_counters st)
             \<and> ct_sent c = ct_sent (so_counters st) + length (filter is_data msgs))"

lemma fifo_idle: "plain_queue st q \<Longrightarrow> fifo_turn sj cfg st q [] (Turn_Next st [])"
  by (auto simp: fifo_turn_def)

lemma fifo_end: "fifo_turn sj cfg st q [] (Turn_End (so_counters st) [])"
  "fifo_turn sj cfg st q [] (Turn_End (so_counters st) [close_frame code reason])"
  by (simp_all add: fifo_turn_def close_frame_def)

lemma fifo_due:
  assumes "plain_queue st q"
  shows "fifo_turn sj cfg st q [] (turn_due cfg epoch env st)"
proof (cases q)
  case Nil
  with assms show ?thesis
    by (auto simp: turn_due_def out_pop_def plain_queue_def fifo_turn_def close_frame_def)
next
  case (Cons p q')
  obtain due item where p: "p = (due, item)" by force
  from assms Cons p have out: "so_outgoing st = Out_Echo ((due, item) # q')" and plain: "plain_item item"
    and q': "plain_queue (st\<lparr>so_outgoing := Out_Echo q'\<rparr>) q'"
    by (simp_all add: plain_queue_def)
  show ?thesis
  proof (cases item)
    case (Q_Frame m)
    then have "is_data m" using plain by simp
    then show ?thesis
      using q' by (auto simp: turn_due_def out out_pop_def Q_Frame fifo_turn_def Cons p close_frame_def plain_queue_def Let_def)
  next
    case (Q_Control m)
    then show ?thesis using plain by simp
  next
    case (Q_Close code reason)
    then show ?thesis
      by (auto simp: turn_due_def out out_pop_def fifo_turn_def Cons p close_frame_def)
  qed
qed

lemma fifo_data:
  assumes "plain_queue st q" "is_data msg" "turn_data sj cfg env msg st = Some r"
  shows "fifo_turn sj cfg st q [msg] r"
proof -
  from assms(1) have out: "so_outgoing st = Out_Echo q" by (simp add: plain_queue_def)
  from assms(3) obtain q' rng' where q': "queue_replies sj cfg (te_at env) msg (Suc (so_received st)) q (so_rng st) = Some (q', rng')"
    and r: "r = Turn_Next ((count_received st)\<lparr>so_outgoing := Out_Echo q', so_rng := rng'\<rparr>) []"
    by (auto simp: turn_data_def count_received_def out Let_def)
  have items: "map snd q' = map snd q @ reply_items sj cfg msg (Suc (so_received st))"
    by (rule queue_replies_items [OF q'])
  have "list_all plain_item (map snd q)" using assms(1) by (simp add: plain_queue_def list_all_iff split_beta)
  then have "list_all plain_item (map snd q')" using reply_items_plain [OF assms(2)] by (simp add: items)
  then have "list_all (\<lambda>(_, item). plain_item item) q'" by (simp add: list_all_iff split_beta)
  then show ?thesis using items by (simp add: r fifo_turn_def plain_queue_def count_received_def)
qed

definition echo_mode :: "'n mock_config \<Rightarrow> bool" where
  "echo_mode cfg \<longleftrightarrow> mk_replay cfg = None \<and> mk_socketio cfg = None"

lemma fifo_session_turn:
  assumes "echo_mode cfg" "plain_queue st q" "so_pong_by st = None" "session_turn sj cfg plan epoch eio3 env st = Some r"
  shows "fifo_turn sj cfg st q (turn_input cfg env st) r"
    "\<And>st' msgs. r = Turn_Next st' msgs \<Longrightarrow> so_pong_by st' = None"
proof -
  from assms(1) have sio: "mk_socketio cfg = None" by (simp add: echo_mode_def)
  from assms(2) have out: "so_outgoing st = Out_Echo q" by (simp add: plain_queue_def)
  let ?due = "case q of [] \<Rightarrow> None | (due, _) # _ \<Rightarrow> Some due"
  have same: "st\<lparr>so_outgoing := Out_Echo q, so_rng := so_rng st\<rparr> = st" using out by simp
  have nd: "next_due cfg (so_outgoing st) (so_rng st) = Some (?due, Out_Echo q, so_rng st)"
    by (simp add: next_due_def out)
  have turn: "session_turn sj cfg plan epoch eio3 env st =
      (case choose_event env ?due of
         Event_Ping \<Rightarrow> Some (turn_ping cfg env st)
       | Event_Cancelled \<Rightarrow> Some (Turn_End (so_counters st) [close_frame 1001 ''server shutting down''])
       | Event_Due \<Rightarrow> Some (turn_due cfg epoch env st)
       | Event_Received r \<Rightarrow> turn_received sj cfg plan eio3 env r st)"
    by (simp add: session_turn_def nd same)
  have ping: "turn_ping cfg env st = Turn_Next st []" by (simp add: turn_ping_def assms(3) sio)
  have "fifo_turn sj cfg st q (turn_input cfg env st) r \<and> (\<forall>st' msgs. r = Turn_Next st' msgs \<longrightarrow> so_pong_by st' = None)"
  proof (cases "choose_event env ?due")
    case Event_Cancelled
    with assms(4) show ?thesis by (auto simp: turn turn_input_def nd fifo_end)
  next
    case Event_Ping
    with assms(2,3,4) show ?thesis by (auto simp: turn turn_input_def nd ping fifo_idle)
  next
    case Event_Due
    have "so_pong_by st' = None" if "turn_due cfg epoch env st = Turn_Next st' msgs" for st' msgs
      using that assms(3) by (auto simp: turn_due_def Let_def split: prod.splits if_splits option.splits queued.splits)
    with Event_Due assms(2,4) show ?thesis by (auto simp: turn turn_input_def nd fifo_due)
  next
    case (Event_Received rc)
    show ?thesis
    proof (cases rc)
      case (Recv m)
      show ?thesis
      proof (cases "is_data m")
        case True
        with Event_Received Recv assms(4) have d: "turn_data sj cfg env m st = Some r"
          by (simp add: turn turn_received_def sio)
        have "so_pong_by st' = None" if "r = Turn_Next st' msgs" for st' msgs
          using d that assms(3) by (auto simp: turn_data_def count_received_def Let_def split: outgoing.splits)
        with fifo_data [OF assms(2) True d] Event_Received Recv True show ?thesis
          by (auto simp: turn_input_def nd)
      next
        case False
        with Event_Received Recv assms show ?thesis
          by (cases m) (auto simp: turn turn_received_def turn_input_def nd fifo_idle fifo_end)
      qed
    qed (use Event_Received assms(4) in \<open>auto simp: turn turn_received_def turn_input_def nd fifo_end\<close>)
  qed
  then show "fifo_turn sj cfg st q (turn_input cfg env st) r"
    "\<And>st' msgs. r = Turn_Next st' msgs \<Longrightarrow> so_pong_by st' = None" by simp_all
qed

lemma replies_to_append: "replies_to sj cfg n (a @ b) = replies_to sj cfg n a @ replies_to sj cfg (n + length a) b"
  by (induction a arbitrary: n) simp_all

definition fifo_inv :: "'n serde_json \<Rightarrow> 'n mock_config \<Rightarrow> mock_counters \<Rightarrow> message list \<Rightarrow> message list \<Rightarrow> mock_state \<Rightarrow> bool" where
  "fifo_inv sj cfg counters ins out st \<longleftrightarrow>
     echo_mode cfg \<and> so_pong_by st = None \<and> list_all is_data out \<and> so_received st = length ins
     \<and> (\<exists>q. plain_queue st q \<and> map Q_Frame out @ map snd q = replies_to sj cfg 0 ins)
     \<and> ct_received (so_counters st) = ct_received counters + length ins
     \<and> ct_sent (so_counters st) = ct_sent counters + length out"

definition fifo_fin :: "'n serde_json \<Rightarrow> 'n mock_config \<Rightarrow> mock_counters \<Rightarrow> message list \<Rightarrow> message list \<Rightarrow> mock_counters \<Rightarrow> bool" where
  "fifo_fin sj cfg counters ins out c \<longleftrightarrow>
     prefix (filter is_data out) (item_frames (replies_to sj cfg 0 ins))
     \<and> ct_received c = ct_received counters + length ins
     \<and> ct_sent c = ct_sent counters + length (filter is_data out)"

lemma filter_all: "list_all P xs \<Longrightarrow> filter P xs = xs"
  by (induction xs) simp_all

lemma fifo_next:
  assumes "fifo_inv sj cfg counters ins out st" "session_turn sj cfg plan epoch eio3 env st = Some (Turn_Next st' msgs)"
  shows "fifo_inv sj cfg counters (ins @ turn_input cfg env st) (out @ msgs) st'"
proof -
  from assms(1) obtain q where mode: "echo_mode cfg" and q: "plain_queue st q" "so_pong_by st = None"
    and old: "map Q_Frame out @ map snd q = replies_to sj cfg 0 ins" "so_received st = length ins"
    by (auto simp: fifo_inv_def)
  note turn = fifo_session_turn [OF mode q assms(2)]
  from turn(1) obtain q' where q': "plain_queue st' q'"
    and new: "map Q_Frame msgs @ map snd q' = map snd q @ replies_to sj cfg (so_received st) (turn_input cfg env st)"
    by (auto simp: fifo_turn_def)
  have "map Q_Frame (out @ msgs) @ map snd q' = replies_to sj cfg 0 (ins @ turn_input cfg env st)"
    using old new by (simp add: replies_to_append)
  with q' turn assms(1) show ?thesis by (auto simp: fifo_inv_def fifo_turn_def)
qed

lemma fifo_inv_fin:
  assumes "fifo_inv sj cfg counters ins out st"
  shows "fifo_fin sj cfg counters ins out (so_counters st)"
proof -
  from assms obtain q :: reply_queue where "map Q_Frame out @ map snd q = replies_to sj cfg 0 ins" by (auto simp: fifo_inv_def)
  then have "item_frames (replies_to sj cfg 0 ins) = out @ item_frames (map snd q)" by (metis item_frames_append item_frames_map)
  with assms show ?thesis by (simp add: fifo_inv_def fifo_fin_def filter_all)
qed

lemma fifo_ends:
  assumes "fifo_inv sj cfg counters ins out st" "session_turn sj cfg plan epoch eio3 env st = Some (Turn_End c msgs)"
  shows "fifo_fin sj cfg counters (ins @ turn_input cfg env st) (out @ msgs) c"
proof -
  from assms(1) obtain q where mode: "echo_mode cfg" and q: "plain_queue st q" "so_pong_by st = None"
    and old: "map Q_Frame out @ map snd q = replies_to sj cfg 0 ins" and data: "filter is_data out = out"
    by (auto simp: fifo_inv_def filter_all)
  note turn = fifo_session_turn(1) [OF mode q assms(2)]
  have "item_frames (replies_to sj cfg 0 ins) = out @ item_frames (map snd q)" by (simp add: old [symmetric])
  with turn assms(1) data show ?thesis by (auto simp: fifo_inv_def fifo_fin_def fifo_turn_def)
qed

interpretation fifo: session_contract sj cfg plan epoch eio3 "fifo_inv sj cfg counters" "fifo_fin sj cfg counters"
  for sj cfg plan epoch eio3 counters
  by unfold_locales (fact fifo_next, fact fifo_ends)

text \<open>C23: a session that echoes or follows rules is a first-in first-out queue of replies. The data frames it
  sends are, in order and without repetition, a first part of the replies to the frames it received (each
  frame's own, in the order they came); while it is open, what it has not sent yet is exactly what waits in its queue; and it
  counts every data frame it received and sent.\<close>

theorem mock_replies_in_order:
  assumes "echo_mode cfg"
    and "session_loop sj cfg plan epoch eio3 envs (session_start cfg plan eio3 start counters) = Some (out, c, final)"
    and "ins = session_inputs sj cfg plan epoch eio3 envs (session_start cfg plan eio3 start counters)"
  shows "prefix (filter is_data out) (item_frames (replies_to sj cfg 0 ins))
    \<and> (\<forall>st. final = Some st \<longrightarrow>
         (\<exists>q. so_outgoing st = Out_Echo q \<and> map Q_Frame out @ map snd q = replies_to sj cfg 0 ins))
    \<and> ct_received c = ct_received counters + length ins
    \<and> ct_sent c = ct_sent counters + length (filter is_data out)"
proof -
  let ?st = "session_start cfg plan eio3 start counters"
  have st: "plain_queue ?st []" "so_pong_by ?st = None" "so_received ?st = 0" "so_counters ?st = counters"
    using assms(1) by (simp_all add: session_start_def echo_mode_def plain_queue_def)
  then have "fifo_inv sj cfg counters [] [] ?st" using assms(1) by (auto simp: fifo_inv_def)
  from fifo.run_keeps [OF this assms(2)]
  have "fifo_fin sj cfg counters ins out c" "\<And>st. final = Some st \<Longrightarrow> fifo_inv sj cfg counters ins out st"
    using fifo_inv_fin by (auto simp: assms(3) split: option.splits)
  then show ?thesis by (auto simp: fifo_fin_def fifo_inv_def plain_queue_def)
qed

definition echo_config :: "nat mock_config" where
  "echo_config = \<lparr>mk_listen = ''localhost:0'', mk_delay = 0, mk_jitter = 0, mk_close_after = Some 1, mk_reject_ratio = Num 0,
     mk_stall = Some \<lparr>sl_every = 10, sl_length = 4\<rparr>, mk_replay = None, mk_rules = None, mk_socketio = None,
     mk_compression = False, mk_seed = None, mk_tls = False\<rparr>"

definition sample_plan :: connection_plan where
  "sample_plan = \<lparr>cp_reject = False, cp_seed = 7, cp_index = 0\<rparr>"

definition sample_env :: "mock_event \<Rightarrow> turn_env" where
  "sample_env e = \<lparr>te_now = 3, te_at = 3, te_cancelled = False, te_selected = e, te_stall_cancelled = False, te_ok = True\<rparr>"

definition no_counters :: mock_counters where
  "no_counters = \<lparr>ct_accepted = 0, ct_rejected = 0, ct_active = 0, ct_received = 0, ct_sent = 0, ct_negotiated = 0\<rparr>"

lemmas sample_turn_defs = session_turn_def session_start_def echo_config_def sample_plan_def sample_env_def no_counters_def
  next_due_def choose_event_def turn_due_def turn_received_def turn_data_def queue_replies_def reply_delay_def reply_delay_from_def
  out_pop_def stall_release_def count_received_def close_frame_def turn_input_def

lemma echo_sample:
  "\<exists>c. session_loop numbered_json echo_config sample_plan 0 False
     [sample_env (Event_Received (Recv (Msg_Text ''hi''))), sample_env Event_Due]
     (session_start echo_config sample_plan False 3 no_counters)
   = Some ([Msg_Text ''hi'', close_frame 1000 ''close-after''], c, None)"
  by (simp add: sample_turn_defs)

theorem mock_replies_in_order_witness:
  "\<exists>ins. prefix [Msg_Text ''hi''] (item_frames (replies_to numbered_json echo_config 0 ins))"
proof -
  obtain c where run: "session_loop numbered_json echo_config sample_plan 0 False
     [sample_env (Event_Received (Recv (Msg_Text ''hi''))), sample_env Event_Due]
     (session_start echo_config sample_plan False 3 no_counters)
   = Some ([Msg_Text ''hi'', close_frame 1000 ''close-after''], c, None)" using echo_sample ..
  have "echo_mode echo_config" by (simp add: echo_mode_def echo_config_def)
  from mock_replies_in_order [OF this run refl] show ?thesis by (auto simp: close_frame_def)
qed

theorem stall_release_exact_witness:
  "stall_release echo_config 0 22 = Some 24 \<and> \<not> stalled_at echo_config 0 24"
proof -
  have "stall_release echo_config 0 22 = Some 24" by (simp add: stall_release_def echo_config_def)
  moreover have "stall_ok (mk_stall echo_config)" "\<And>s. mk_stall echo_config = Some s \<Longrightarrow> sl_length s \<le> u64_max"
    by (auto simp: stall_ok_def echo_config_def)
  moreover have "mk_stall echo_config = Some \<lparr>sl_every = 10, sl_length = 4\<rparr>" by (simp add: echo_config_def)
  ultimately show ?thesis using stall_release_exact [of echo_config 0 22] by blast
qed

theorem accepted_connections_numbered_witness:
  "\<forall>p\<in>set (mock_run echo_config 5 [True, False, True]). \<not> cp_reject p"
  using accepted_connections_numbered [of echo_config 5 "[True, False, True]"] by (simp add: echo_config_def)

section \<open>Closing after a number of replies\<close>

text \<open>What a turn does to the count of replies, whatever the mode of the server.\<close>

definition counted_turn :: "'n mock_config \<Rightarrow> mock_state \<Rightarrow> turn_result \<Rightarrow> bool" where
  "counted_turn cfg st r =
     (case r of
        Turn_Next st' msgs \<Rightarrow>
          so_replies st' = so_replies st \<and> ct_sent (so_counters st') = ct_sent (so_counters st)
          \<or> so_replies st' = Suc (so_replies st) \<and> ct_sent (so_counters st') = Suc (ct_sent (so_counters st))
            \<and> mk_close_after cfg \<noteq> Some (so_replies st')
      | Turn_End c msgs \<Rightarrow>
          ct_sent c = ct_sent (so_counters st)
          \<or> ct_sent c = Suc (ct_sent (so_counters st)) \<and> mk_close_after cfg = Some (Suc (so_replies st))
            \<and> suffix [close_frame 1000 ''close-after''] msgs)"

lemma counted_same: "counted_turn cfg st (Turn_Next st msgs)" "counted_turn cfg st (Turn_End (so_counters st) msgs)"
  by (simp_all add: counted_turn_def)

lemma counted_view:
  assumes "so_replies st' = so_replies st" "ct_sent (so_counters st') = ct_sent (so_counters st)"
  shows "counted_turn cfg st (Turn_Next st' msgs)" "counted_turn cfg st' r = counted_turn cfg st r"
  using assms by (auto simp: counted_turn_def split: turn_result.split)

lemma counted_ping: "counted_turn cfg st (turn_ping cfg env st)"
  by (auto simp: turn_ping_def Let_def counted_turn_def split: option.split prod.split)

lemma counted_due: "counted_turn cfg st (turn_due cfg epoch env st)"
  by (auto simp: turn_due_def Let_def counted_turn_def suffix_Cons split: prod.split option.split queued.split)

lemma counted_data: "turn_data sj cfg env msg st = Some r \<Longrightarrow> counted_turn cfg st r"
  by (auto simp: turn_data_def Let_def count_received_def counted_turn_def split: outgoing.splits)

lemma counted_socketio:
  assumes "turn_socketio sj cfg plan eio3 env msg st = Some r"
  shows "counted_turn cfg st r"
proof (cases "msg = Msg_Text ''3''")
  case True
  with assms show ?thesis by (auto simp: turn_socketio_def counted_turn_def)
next
  case False
  define st1 where "st1 = (case mk_socketio cfg of
      Some (interval, timeout) \<Rightarrow>
        (if eio3 \<and> msg = Msg_Text ''2'' then st\<lparr>so_pong_by := Some (te_at env + interval + timeout)\<rparr> else st)
    | None \<Rightarrow> st)"
  obtain answer sio where a: "mock_receive sj msg (session_id (cp_index plan)) (so_sio st1) = (answer, sio)" by force
  have same: "so_replies st1 = so_replies st" "so_counters st1 = so_counters st"
    by (auto simp: st1_def split: option.split prod.split)
  show ?thesis
  proof (cases answer)
    case None
    with assms False a same show ?thesis
      by (auto simp: turn_socketio_def st1_def [symmetric] counted_turn_def)
  next
    case (Some ans)
    with assms False a same show ?thesis
      by (auto simp: turn_socketio_def st1_def [symmetric] counted_turn_def count_received_def Let_def
          split: outgoing.splits if_splits)
  qed
qed

lemma counted_received: "turn_received sj cfg plan eio3 env rc st = Some r \<Longrightarrow> counted_turn cfg st r"
  by (auto simp: turn_received_def counted_same counted_data counted_socketio split: received.splits if_splits message.splits)

lemma counted_session_turn:
  assumes "session_turn sj cfg plan epoch eio3 env st = Some r"
  shows "counted_turn cfg st r"
proof -
  from assms obtain due outgoing rng where nd: "next_due cfg (so_outgoing st) (so_rng st) = Some (due, outgoing, rng)"
    by (auto simp: session_turn_def split: option.splits)
  let ?st = "st\<lparr>so_outgoing := outgoing, so_rng := rng\<rparr>"
  from assms nd have "counted_turn cfg ?st r"
    by (cases "choose_event env due")
      (auto simp: session_turn_def counted_ping counted_due counted_same(2) [of cfg ?st, simplified] intro: counted_received)
  then show ?thesis by (simp add: counted_view(2) [of ?st st])
qed

definition close_inv :: "'n mock_config \<Rightarrow> mock_counters \<Rightarrow> message list \<Rightarrow> message list \<Rightarrow> mock_state \<Rightarrow> bool" where
  "close_inv cfg counters ins out st \<longleftrightarrow>
     ct_sent (so_counters st) = ct_sent counters + so_replies st
     \<and> (\<forall>n. mk_close_after cfg = Some n \<longrightarrow> so_replies st < n)"

definition close_fin :: "'n mock_config \<Rightarrow> mock_counters \<Rightarrow> message list \<Rightarrow> message list \<Rightarrow> mock_counters \<Rightarrow> bool" where
  "close_fin cfg counters ins out c \<longleftrightarrow>
     (\<forall>n. mk_close_after cfg = Some n \<longrightarrow> ct_sent c \<le> ct_sent counters + n
        \<and> (ct_sent c = ct_sent counters + n \<longrightarrow> suffix [close_frame 1000 ''close-after''] out))"

lemma close_next:
  assumes "close_inv cfg counters ins out st" "session_turn sj cfg plan epoch eio3 env st = Some (Turn_Next st' msgs)"
  shows "close_inv cfg counters (ins @ turn_input cfg env st) (out @ msgs) st'"
  using assms(1) counted_session_turn [OF assms(2)] by (auto simp: close_inv_def counted_turn_def)

lemma close_ends:
  assumes "close_inv cfg counters ins out st" "session_turn sj cfg plan epoch eio3 env st = Some (Turn_End c msgs)"
  shows "close_fin cfg counters (ins @ turn_input cfg env st) (out @ msgs) c"
  using assms(1) counted_session_turn [OF assms(2)]
  by (auto simp: close_inv_def close_fin_def counted_turn_def intro: suffix_appendI)

interpretation closing: session_contract sj cfg plan epoch eio3 "close_inv cfg counters" "close_fin cfg counters"
  for sj cfg plan epoch eio3 counters
  by unfold_locales (fact close_next, fact close_ends)

text \<open>With \<open>--close-after\<close> a connection never gets more than that many replies, in any mode of the
  server, and the reply that reaches the number is followed by a normal close that ends the session.\<close>

theorem close_after_bounds_replies:
  assumes "mk_close_after cfg = Some n" "0 < n"
    and "session_loop sj cfg plan epoch eio3 envs (session_start cfg plan eio3 start counters) = Some (out, c, final)"
  shows "ct_sent c \<le> ct_sent counters + n
    \<and> (ct_sent c = ct_sent counters + n \<longrightarrow> final = None \<and> suffix [close_frame 1000 ''close-after''] out)"
proof -
  let ?st = "session_start cfg plan eio3 start counters"
  have st: "so_replies ?st = 0" "so_counters ?st = counters"
    by (auto simp: session_start_def Let_def split: option.split prod.split outgoing.split)
  then have "close_inv cfg counters [] [] ?st" using assms(1,2) by (simp add: close_inv_def)
  from closing.run_keeps [OF this assms(3)] show ?thesis
    using assms(1) by (cases final) (auto simp: close_inv_def close_fin_def)
qed

theorem close_after_bounds_replies_witness:
  "\<exists>c :: mock_counters. ct_sent c \<le> 1 \<and> suffix [close_frame 1000 ''close-after''] [Msg_Text ''hi'', close_frame 1000 ''close-after'']
     \<and> ct_sent c = ct_sent no_counters + 1"
proof -
  have "mk_close_after echo_config = Some 1" by (simp add: echo_config_def)
  moreover obtain c where run: "session_loop numbered_json echo_config sample_plan 0 False
     [sample_env (Event_Received (Recv (Msg_Text ''hi''))), sample_env Event_Due]
     (session_start echo_config sample_plan False 3 no_counters)
   = Some ([Msg_Text ''hi'', close_frame 1000 ''close-after''], c, None)" using echo_sample ..
  moreover from run have "ct_sent c = 1" by (auto simp: sample_turn_defs)
  ultimately show ?thesis
    using close_after_bounds_replies [OF _ _ run] by - (rule exI [of _ c], simp add: no_counters_def)
qed

section \<open>Replays\<close>

definition replay_mode :: "'n mock_config \<Rightarrow> bool" where
  "replay_mode cfg \<longleftrightarrow> mk_replay cfg \<noteq> None \<and> mk_socketio cfg = None"

definition replay_at :: "replay_frame list \<Rightarrow> mock_state \<Rightarrow> nat \<Rightarrow> bool" where
  "replay_at frames st i \<longleftrightarrow> i \<le> length frames \<and> (\<exists>start due. so_outgoing st = Out_Replay frames i start due)"

definition replay_turn :: "replay_frame list \<Rightarrow> nat \<Rightarrow> turn_result \<Rightarrow> bool" where
  "replay_turn frames i r =
     (case r of
        Turn_Next st' msgs \<Rightarrow>
          replay_at frames st' i \<and> msgs = []
          \<or> i < length frames \<and> replay_at frames st' (Suc i) \<and> msgs = [fr_message (frames ! i)]
      | Turn_End c msgs \<Rightarrow>
          filter is_data msgs = [] \<or> i < length frames \<and> filter is_data msgs = [fr_message (frames ! i)])"

lemma next_due_replay:
  assumes "next_due cfg (Out_Replay frames i start due) rng = Some (d, outgoing, rng')"
  shows "\<exists>due'. outgoing = Out_Replay frames i start due'"
  using assms by (auto simp: next_due_def Let_def split: if_splits option.splits)

lemma replay_session_turn:
  assumes "replay_mode cfg" "replay_at frames st i" "\<forall>f\<in>set frames. is_data (fr_message f)"
    "session_turn sj cfg plan epoch eio3 env st = Some r" "so_pong_by st = None"
  shows "replay_turn frames i r \<and> (\<forall>st' msgs. r = Turn_Next st' msgs \<longrightarrow> so_pong_by st' = None)"
proof -
  from assms(2) obtain start due where i: "i \<le> length frames" and out: "so_outgoing st = Out_Replay frames i start due"
    by (auto simp: replay_at_def)
  from assms(4) obtain d outgoing rng where nd: "next_due cfg (so_outgoing st) (so_rng st) = Some (d, outgoing, rng)"
    by (auto simp: session_turn_def split: option.splits)
  from next_due_replay [OF nd [unfolded out]] obtain due' where out': "outgoing = Out_Replay frames i start due'" ..
  have sio: "mk_socketio cfg = None" using assms(1) by (simp add: replay_mode_def)
  let ?st = "st\<lparr>so_outgoing := Out_Replay frames i start due', so_rng := rng\<rparr>"
  have at: "replay_at frames ?st i" using i by (simp add: replay_at_def)
  have data: "is_data (fr_message (frames ! i))" if "i < length frames" using assms(3) that by simp
  show ?thesis
  proof (cases "choose_event env d")
    case Event_Due
    with assms(4) nd out' have "r = turn_due cfg epoch env ?st" by (simp add: session_turn_def)
    then show ?thesis using i data assms(5)
      by (cases "i < length frames")
        (auto simp: turn_due_def out_pop_def Let_def replay_turn_def replay_at_def close_frame_def)
  next
    case (Event_Received rc)
    with assms(4) nd out' have rr: "turn_received sj cfg plan eio3 env rc ?st = Some r" by (simp add: session_turn_def)
    show ?thesis
    proof (cases rc)
      case (Recv m)
      with rr i assms(5) show ?thesis
        by (cases m) (auto simp: turn_received_def sio turn_data_def count_received_def Let_def replay_turn_def replay_at_def)
    qed (use rr in \<open>auto simp: turn_received_def replay_turn_def\<close>)
  qed (use assms(4,5) nd out' at sio in \<open>auto simp: session_turn_def turn_ping_def replay_turn_def close_frame_def\<close>)
qed

definition replay_inv :: "'n mock_config \<Rightarrow> replay_frame list \<Rightarrow> message list \<Rightarrow> message list \<Rightarrow> mock_state \<Rightarrow> bool" where
  "replay_inv cfg frames ins out st \<longleftrightarrow>
     replay_mode cfg \<and> so_pong_by st = None \<and> (\<forall>f\<in>set frames. is_data (fr_message f))
     \<and> (\<exists>k. replay_at frames st k \<and> out = take k (map fr_message frames))"

definition replay_fin :: "replay_frame list \<Rightarrow> message list \<Rightarrow> message list \<Rightarrow> mock_counters \<Rightarrow> bool" where
  "replay_fin frames ins out c \<longleftrightarrow> (\<exists>k\<le>length frames. filter is_data out = take k (map fr_message frames))"

lemma sent_data: "\<forall>f\<in>set frames. is_data (fr_message f) \<Longrightarrow> filter is_data (take k (map fr_message frames)) = take k (map fr_message frames)"
  by (rule filter_all) (fastforce simp: list_all_iff dest: in_set_takeD)

lemma replay_next:
  assumes "replay_inv cfg frames ins out st" "session_turn sj cfg plan epoch eio3 env st = Some (Turn_Next st' msgs)"
  shows "replay_inv cfg frames (ins @ turn_input cfg env st) (out @ msgs) st'"
proof -
  from assms(1) obtain k where k: "replay_at frames st k" "out = take k (map fr_message frames)"
    and *: "replay_mode cfg" "so_pong_by st = None" "\<forall>f\<in>set frames. is_data (fr_message f)"
    by (auto simp: replay_inv_def)
  note turn = replay_session_turn [OF *(1) k(1) *(3) assms(2) *(2)]
  then consider "replay_at frames st' k" "msgs = []"
    | "k < length frames" "replay_at frames st' (Suc k)" "msgs = [fr_message (frames ! k)]" by (auto simp: replay_turn_def)
  then have "\<exists>k. replay_at frames st' k \<and> out @ msgs = take k (map fr_message frames)"
    by cases (auto simp: k(2) take_Suc_conv_app_nth)
  with * turn show ?thesis by (simp add: replay_inv_def)
qed

lemma replay_ends:
  assumes "replay_inv cfg frames ins out st" "session_turn sj cfg plan epoch eio3 env st = Some (Turn_End c msgs)"
  shows "replay_fin frames (ins @ turn_input cfg env st) (out @ msgs) c"
proof -
  from assms(1) obtain k where k: "replay_at frames st k" "out = take k (map fr_message frames)"
    and *: "replay_mode cfg" "so_pong_by st = None" "\<forall>f\<in>set frames. is_data (fr_message f)"
    by (auto simp: replay_inv_def)
  have "k \<le> length frames" using k(1) by (simp add: replay_at_def)
  moreover from replay_session_turn [OF *(1) k(1) *(3) assms(2) *(2)]
  consider "filter is_data msgs = []" | "k < length frames" "filter is_data msgs = [fr_message (frames ! k)]"
    by (auto simp: replay_turn_def)
  then have "\<exists>j\<le>length frames. filter is_data (out @ msgs) = take j (map fr_message frames)"
  proof cases
    case 1
    with k(2) sent_data [OF *(3)] \<open>k \<le> length frames\<close> show ?thesis by (intro exI [of _ k]) simp
  next
    case 2
    with k(2) sent_data [OF *(3)] show ?thesis by (intro exI [of _ "Suc k"]) (simp add: take_Suc_conv_app_nth)
  qed
  then show ?thesis by (simp add: replay_fin_def)
qed

interpretation replaying: session_contract sj cfg plan epoch eio3 "replay_inv cfg frames" "replay_fin frames"
  for sj cfg plan epoch eio3 frames
  by unfold_locales (fact replay_next, fact replay_ends)

lemma worker_script_data:
  assumes "\<forall>(t, m)\<in>set frames. is_data m" "f \<in> set (worker_script (first, frames))"
  shows "is_data (fr_message f)"
  using assms by (auto simp: worker_script_def split_beta)

lemma record_frame_data: "record_frame r = Some fs \<Longrightarrow> \<forall>(t, m)\<in>set fs. is_data m"
  by (auto simp: record_frame_def Let_def split: if_splits)

lemma frames_of_data: "\<forall>(t, m)\<in>set (frames_of k rs). is_data m"
proof -
  have "is_data m" if "r \<in> set rs" "(t, m) \<in> set (case record_frame r of Some fs \<Rightarrow> fs | None \<Rightarrow> [])" for r t m
    using that record_frame_data [of r] by (cases "record_frame r") auto
  then show ?thesis by (auto simp: frames_of_def)
qed

lemma script_of_data: "fs \<in> set (script_of rs) \<Longrightarrow> \<forall>f\<in>set fs. is_data (fr_message f)"
  using worker_script_data [OF frames_of_data] by (auto simp: script_of_def)

lemma replay_load_data:
  assumes "replay_load sj from_line content source = Inr script"
  shows "\<forall>f\<in>set (frames_for script index). is_data (fr_message f)"
proof -
  from assms obtain input where "replay_parse sj from_line input source = Inr script"
    by (auto simp: replay_load_def and_then_Inr_iff)
  from replay_parse_script [OF this] obtain rs where w: "sc_workers script = script_of rs" "script_of rs \<noteq> []" by metis
  then have "frames_for script index \<in> set (script_of rs)" by (simp add: frames_for_def)
  then show ?thesis by (rule script_of_data)
qed

text \<open>A replaying connection sends its recorded frames: whatever the client sends, the data frames it gets are the
  first frames of the recorded connection dealt to it, in their recorded order, and an open session goes on
  with the next one.\<close>

theorem mock_replays_script:
  assumes "replay_load sj' from_line content source = Inr script" "mk_replay cfg = Some script" "mk_socketio cfg = None"
    and "session_loop sj cfg plan epoch eio3 envs (session_start cfg plan eio3 start counters) = Some (out, c, final)"
  shows "\<exists>k. k \<le> length (frames_for script (cp_index plan))
    \<and> filter is_data out = take k (map fr_message (frames_for script (cp_index plan)))
    \<and> (\<forall>st. final = Some st \<longrightarrow> replay_at (frames_for script (cp_index plan)) st k)"
proof -
  let ?st = "session_start cfg plan eio3 start counters" and ?frames = "frames_for script (cp_index plan)"
  have "replay_inv cfg ?frames [] [] ?st"
    using assms(2,3) replay_load_data [OF assms(1)]
    by (auto simp: replay_inv_def replay_mode_def session_start_def replay_at_def intro: exI [of _ 0])
  from replaying.run_keeps [OF this assms(4)] show ?thesis
    by (cases final) (auto simp: replay_inv_def replay_fin_def sent_data replay_at_def)
qed

definition replay_config :: "nat mock_config" where
  "replay_config = echo_config\<lparr>mk_close_after := None,
     mk_replay := Some \<lparr>sc_source = ''f'', sc_workers = [[\<lparr>fr_offset = 0, fr_message = Msg_Text ''hi''\<rparr>]]\<rparr>\<rparr>"

lemma replay_sample:
  "\<exists>c st. session_loop numbered_json replay_config sample_plan 0 False [sample_env Event_Due]
     (session_start replay_config sample_plan False 3 no_counters) = Some ([Msg_Text ''hi''], c, Some st)"
  by (simp add: replay_config_def sample_turn_defs frames_for_def)

theorem mock_replays_script_witness:
  "\<exists>k. filter is_data [Msg_Text ''hi''] =
     take k (map fr_message (frames_for \<lparr>sc_source = ''f'', sc_workers = [[\<lparr>fr_offset = 0, fr_message = Msg_Text ''hi''\<rparr>]]\<rparr> 0))"
proof -
  obtain c st where run: "session_loop numbered_json replay_config sample_plan 0 False [sample_env Event_Due]
     (session_start replay_config sample_plan False 3 no_counters) = Some ([Msg_Text ''hi''], c, Some st)"
    using replay_sample by blast
  have "mk_replay replay_config = Some \<lparr>sc_source = ''f'', sc_workers = [[\<lparr>fr_offset = 0, fr_message = Msg_Text ''hi''\<rparr>]]\<rparr>"
    "mk_socketio replay_config = None" by (simp_all add: replay_config_def echo_config_def)
  from mock_replays_script [OF sample_replay this run] show ?thesis by (auto simp: sample_plan_def)
qed

section \<open>Checked configurations\<close>

definition mock_config_ok :: "'n mock_config \<Rightarrow> bool" where
  "mock_config_ok cfg \<longleftrightarrow>
     (\<exists>x. mk_reject_ratio cfg = Num x \<and> 0 \<le> x \<and> x \<le> 1) \<and> mk_close_after cfg \<noteq> Some 0 \<and> stall_ok (mk_stall cfg)
     \<and> (\<forall>interval timeout. mk_socketio cfg = Some (interval, timeout) \<longrightarrow> 0 < interval \<and> 0 < timeout)
     \<and> length (filter (\<lambda>b. b) [mk_replay cfg \<noteq> None, mk_rules cfg \<noteq> None, mk_socketio cfg \<noteq> None]) \<le> 1
     \<and> (\<forall>rules. mk_rules cfg = Some rules \<longrightarrow> rl_rules rules \<noteq> [] \<and> (\<forall>r\<in>set (rl_rules rules). rule_ok r))
     \<and> (\<forall>script. mk_replay cfg = Some script \<longrightarrow> sc_workers script \<noteq> [] \<and> (\<forall>i. frames_for script i \<noteq> []))"

lemma stall_of_ok: "stall_of every len = Inr stall \<Longrightarrow> stall_ok stall"
  by (auto simp: stall_of_def stall_ok_def split: option.splits if_splits)

lemma ratio_ok:
  assumes "is_finite r" "f64_le (Num 0) r" "f64_le r (Num 1)"
  shows "\<exists>x. r = Num x \<and> 0 \<le> x \<and> x \<le> 1"
  using assms by (cases r) (auto simp: f64_le_def f64_eq_def)

lemma replay_load_frames:
  assumes "replay_load sj from_line content source = Inr script"
  shows "sc_workers script \<noteq> [] \<and> frames_for script i \<noteq> []"
proof -
  from assms obtain input where "replay_parse sj from_line input source = Inr script"
    by (auto simp: replay_load_def and_then_Inr_iff)
  from replay_parse_script [OF this] obtain rs where w: "sc_workers script = script_of rs" "script_of rs \<noteq> []" by metis
  then have "frames_for script i \<in> set (script_of rs)" by (simp add: frames_for_def)
  with script_of_member w show ?thesis by auto
qed

lemma rules_load_rules:
  assumes "rules_load from_yaml content source = Inr rules"
  shows "rl_rules rules \<noteq> [] \<and> (\<forall>r\<in>set (rl_rules rules). rule_ok r)"
  using assms rules_parse_ok by (fastforce simp: rules_load_def and_then_Inr_iff)

lemma transpose_loaded:
  assumes "transpose_opt (\<lambda>path. map_err f (load path)) x = Inr y"
  shows "(y = None) = (x = None)" "\<And>v. y = Some v \<Longrightarrow> \<exists>path. load path = Inr v"
  using assms by (auto simp: transpose_opt_Inr_iff split: option.splits)

text \<open>C35: a mock configuration that builds is one its loops are safe with: a reject ratio between 0 and 1, a
  close after at least one reply, a stall shorter than its period (so the remainder taken in every stall test is of a
  positive period), positive Socket.IO intervals, at most one of replay, rules and Socket.IO, valid rules, and a script
  with frames for every connection.\<close>

theorem built_mock_config_ok:
  assumes "mock_build files b = Inr cfg"
  shows "mock_config_ok cfg"
proof -
  from assms have ratio: "is_finite (bd_reject_ratio b)" "f64_le (Num 0) (bd_reject_ratio b)" "f64_le (bd_reject_ratio b) (Num 1)"
    and close: "bd_close_after b \<noteq> Some 0"
    by (auto simp: mock_build_def split: if_splits)
  from assms obtain stall replay rules tls where
    stall: "stall_of (bd_stall_every b) (bd_stall_for b) = Inr stall"
    and one: "\<not> (bd_socketio b \<noteq> None \<and> (bd_replay b \<noteq> None \<or> bd_rules b \<noteq> None))" "\<not> (bd_replay b \<noteq> None \<and> bd_rules b \<noteq> None)"
    and ping: "\<not> (case bd_socketio b of Some (interval, timeout) \<Rightarrow> interval = 0 \<or> timeout = 0 | None \<Rightarrow> False)"
    and replay: "transpose_opt (\<lambda>path. map_err Replay_failed
               (replay_load (mf_json files) (mf_line files) (mf_read files path) path)) (bd_replay b) = Inr replay"
    and rules: "transpose_opt (\<lambda>path. map_err Rules_failed (rules_load (mf_yaml files) (mf_read files path) path)) (bd_rules b) = Inr rules"
    and cfg: "mk_reject_ratio cfg = bd_reject_ratio b" "mk_close_after cfg = bd_close_after b" "mk_stall cfg = stall"
      "mk_replay cfg = replay" "mk_rules cfg = rules" "mk_socketio cfg = bd_socketio b"
    unfolding mock_build_def by (auto simp: and_then_Inr_iff split: if_splits)
  have "length (filter (\<lambda>b. b) [replay \<noteq> None, rules \<noteq> None, bd_socketio b \<noteq> None]) \<le> 1"
    using one transpose_loaded(1) [OF replay] transpose_loaded(1) [OF rules] by auto
  moreover have "rl_rules v \<noteq> [] \<and> (\<forall>r\<in>set (rl_rules v). rule_ok r)" if "rules = Some v" for v
    using transpose_loaded(2) [OF rules that] rules_load_rules by blast
  moreover have "sc_workers v \<noteq> [] \<and> (\<forall>i. frames_for v i \<noteq> [])" if "replay = Some v" for v
    using transpose_loaded(2) [OF replay that] replay_load_frames by blast
  moreover have "0 < interval \<and> 0 < timeout" if "bd_socketio b = Some (interval, timeout)" for interval timeout
    using ping that by simp
  ultimately show ?thesis
    unfolding mock_config_ok_def cfg using ratio_ok [OF ratio] close stall_of_ok [OF stall] by blast
qed

theorem built_mock_config_ok_witness:
  "\<exists>cfg. mock_build \<lparr>mf_read = (\<lambda>_. None), mf_json = numbered_json, mf_line = (\<lambda>_. None), mf_yaml = (\<lambda>_. None), mf_tls = (\<lambda>_ _. Inr ())\<rparr>
     (builder_stall 10 4 mock_builder_default) = Inr cfg \<and> stall_ok (mk_stall cfg) \<and> mk_stall cfg \<noteq> None"
proof -
  have trim: "trim DEFAULT_LISTEN \<noteq> []" by code_simp
  have "\<exists>cfg. mock_build \<lparr>mf_read = (\<lambda>_. None), mf_json = numbered_json, mf_line = (\<lambda>_. None), mf_yaml = (\<lambda>_. None), mf_tls = (\<lambda>_ _. Inr ())\<rparr>
     (builder_stall 10 4 mock_builder_default) = Inr cfg \<and> mk_stall cfg \<noteq> None"
    using trim by (simp add: mock_build_def builder_stall_def mock_builder_default_def stall_of_def transpose_opt_def f64_le_def f64_eq_def)
  then show ?thesis using built_mock_config_ok unfolding mock_config_ok_def by blast
qed

end
