(* ===== verification/Worker.thy ===== *)
theory Worker
  imports Live_Metrics Load_Config
begin

text \<open>
  One connection slot, \<open>src/worker.rs\<close>: error categories, reconnect backoff, the send schedule, reply matching, the
  handshake and the loop that reconnects. The answers of the network, the clock and the cancellation token are
  the inputs of the model: an attempt says how the connection went, a session's own events are described in the
  theory of the loops. \<open>windows\<close> is \<open>cfg!(windows)\<close>; the \<open>auth\<close> feature is not modelled.
\<close>

section \<open>Error categories\<close>

datatype io_kind = TimedOut | ConnectionRefused | ConnectionReset | BrokenPipe | UnexpectedEof | Other_kind

record io_error =
  io_kind_of :: io_kind
  io_message :: string
  io_rustls :: bool

datatype tungstenite_error =
    ConnectionClosed
  | AlreadyClosed
  | Http_response nat
  | Io io_error
  | Tls_failure
  | Protocol_violation
  | WriteBufferFull
  | Other_failure

datatype error_direction = Dir_connect | Dir_write | Dir_read

definition is_dns_resolution_error :: "io_error \<Rightarrow> bool" where
  "is_dns_resolution_error e =
     (let m = to_ascii_lowercase (io_message e)
      in str_contains m ''failed to lookup address information'' \<or> str_contains m ''nodename nor servname'' \<or>
         str_contains m ''name or service not known'' \<or> str_contains m ''temporary failure in name resolution'' \<or>
         str_contains m ''no address associated with hostname'')"

fun direction_category :: "error_direction \<Rightarrow> error_category" where
  "direction_category Dir_connect = TcpConnect"
| "direction_category Dir_write = WriteError"
| "direction_category Dir_read = ReadError"

fun categorize_session_error :: "tungstenite_error \<Rightarrow> error_direction \<Rightarrow> error_category" where
  "categorize_session_error ConnectionClosed d = UnexpectedClose"
| "categorize_session_error AlreadyClosed d = UnexpectedClose"
| "categorize_session_error (Http_response status) d =
     (if 400 \<le> status \<and> status < 600 then HttpUpgradeRejected else ProtocolError)"
| "categorize_session_error (Io e) d =
     (if is_dns_resolution_error e then DnsResolution
      else if d = Dir_connect \<and> io_rustls e then TlsHandshake
      else (case io_kind_of e of
              TimedOut \<Rightarrow> Timeout
            | ConnectionRefused \<Rightarrow> TcpConnect
            | _ \<Rightarrow> direction_category d))"
| "categorize_session_error Tls_failure d = TlsHandshake"
| "categorize_session_error Protocol_violation d = ProtocolError"
| "categorize_session_error WriteBufferFull d = WriteError"
| "categorize_session_error Other_failure d = Other"

definition categorize_tungstenite_error :: "tungstenite_error \<Rightarrow> error_category" where
  "categorize_tungstenite_error e = categorize_session_error e Dir_connect"

section \<open>Backoff and schedule\<close>

record reconnect_backoff =
  rb_next :: duration

definition BACKOFF_INITIAL :: duration where "BACKOFF_INITIAL = from_millis 100"
definition BACKOFF_MAX :: duration where "BACKOFF_MAX = from_secs 5"

definition backoff_new :: reconnect_backoff where
  "backoff_new = \<lparr>rb_next = BACKOFF_INITIAL\<rparr>"

definition backoff_reset :: "reconnect_backoff \<Rightarrow> reconnect_backoff" where
  "backoff_reset b = b\<lparr>rb_next := BACKOFF_INITIAL\<rparr>"

text \<open>\<open>Duration::saturating_mul\<close> by 2, capped.\<close>

definition next_delay :: "reconnect_backoff \<Rightarrow> duration \<times> reconnect_backoff" where
  "next_delay b = (rb_next b, b\<lparr>rb_next := min (min (rb_next b * 2) duration_max) BACKOFF_MAX\<rparr>)"

definition TIMER_SLACK :: "bool \<Rightarrow> duration" where
  "TIMER_SLACK windows = (if windows then from_millis 16 else from_millis 2)"

record send_schedule =
  sd_period :: duration
  sd_next_due :: instant

text \<open>\<open>SendSchedule::new\<close>; the outer \<open>None\<close> is the panic of \<open>Duration::from_secs_f64\<close> out of range.\<close>

definition schedule_new :: "nat \<Rightarrow> instant \<Rightarrow> send_schedule option option" where
  "schedule_new rate now =
     (if rate > 0
      then map_option (\<lambda>p. Some \<lparr>sd_period = p, sd_next_due = now\<rparr>)
             (try_from_secs_f64 (f64_div (Num 1) (of_uint rate)))
      else Some None)"

definition advance :: "send_schedule \<Rightarrow> send_schedule" where
  "advance s = s\<lparr>sd_next_due := sd_next_due s + sd_period s\<rparr>"

definition shift :: "duration \<Rightarrow> send_schedule \<Rightarrow> send_schedule" where
  "shift delay s = s\<lparr>sd_next_due := sd_next_due s + delay\<rparr>"

definition restart_after_pause :: "instant \<Rightarrow> send_schedule \<Rightarrow> send_schedule" where
  "restart_after_pause now s = s\<lparr>sd_next_due := max (sd_next_due s) now\<rparr>"

definition response_time :: "bool \<Rightarrow> instant \<Rightarrow> instant \<Rightarrow> duration \<Rightarrow> duration" where
  "response_time windows due sent_at rtt = rtt + ((sent_at - due) - TIMER_SLACK windows)"

section \<open>Replies\<close>

definition reply_matches :: "'n serde_json \<Rightarrow> reply_match \<Rightarrow> message \<Rightarrow> message option \<Rightarrow> nat \<Rightarrow> bool" where
  "reply_matches sj rule frame sent seq =
     (case rule of
        First \<Rightarrow> True
      | Exact \<Rightarrow> sent = Some frame
      | JsonPointer pointer \<Rightarrow>
          (case (case frame of Msg_Text s \<Rightarrow> Some s | Msg_Binary b \<Rightarrow> Some b | _ \<Rightarrow> None) of
             None \<Rightarrow> False
           | Some data \<Rightarrow>
               (case Option.bind (from_str sj data) (json_pointer sj pointer) of
                  Some (JNumber n) \<Rightarrow> as_u64 sj n = Some seq
                | Some (JString s) \<Rightarrow> parse_uint u64_max s = Some seq
                | _ \<Rightarrow> False)))"

fun message_byte_len :: "message \<Rightarrow> nat" where
  "message_byte_len (Msg_Text t) = length t"
| "message_byte_len (Msg_Binary b) = length b"
| "message_byte_len (Msg_Ping p) = length p"
| "message_byte_len (Msg_Pong p) = length p"
| "message_byte_len (Msg_Close c) = 0"

text \<open>What the stream yields: a frame, an error or its end.\<close>

datatype stream_item = Item message | Item_error tungstenite_error | Item_end

text \<open>
  \<open>await_reply\<close> over the items that arrive before it is dropped by the timeout or by cancellation: \<open>None\<close> when
  it is still waiting, otherwise its result (\<open>None\<close> inside is a server Close), with the frames counted as
  unsolicited and the pongs sent.
\<close>

fun await_reply ::
    "'n serde_json \<Rightarrow> reply_match \<Rightarrow> message option \<Rightarrow> nat \<Rightarrow> bool \<Rightarrow> stream_item list \<Rightarrow> nat \<Rightarrow> message list
     \<Rightarrow> (error_category + message option) option \<times> nat \<times> message list" where
  "await_reply sj rule sent seq corrupted [] n out = (None, n, out)"
| "await_reply sj rule sent seq corrupted (Item_end # items) n out = (Some (Inl UnexpectedClose), n, out)"
| "await_reply sj rule sent seq corrupted (Item_error e # items) n out =
     (Some (Inl (categorize_session_error e Dir_read)), n, out)"
| "await_reply sj rule sent seq corrupted (Item m # items) n out =
     (case m of
        Msg_Ping data \<Rightarrow> await_reply sj rule sent seq corrupted items n (out @ [Msg_Pong data])
      | Msg_Pong data \<Rightarrow> await_reply sj rule sent seq corrupted items n out
      | Msg_Close c \<Rightarrow> (Some (Inr None), n, out)
      | frame \<Rightarrow>
          (let rule' = (if corrupted \<and> is_pointer_match rule then First else rule)
           in if reply_matches sj rule' frame sent seq then (Some (Inr (Some frame)), n, out)
              else await_reply sj rule sent seq corrupted items (n + 1) out))"

section \<open>A session's state\<close>

record ('n, 'h) session =
  s_config :: "'n load_config"
  s_worker_id :: nat
  s_state :: "'h worker_state"
  s_chaos :: "chaos_state option"
  s_vars :: "string list"
  s_think_time :: "duration option"
  s_cancelled :: bool

text \<open>\<open>WorkerSession::new\<close>; \<open>s_think_time\<close> is the phase's, set by \<open>with_scenario\<close>.\<close>

definition session_new ::
    "u64 \<Rightarrow> nat \<Rightarrow> 'n load_config \<Rightarrow> worker_metrics \<Rightarrow> 'h world \<Rightarrow> ('n, 'h) session" where
  "session_new time_seed worker_id config metrics world =
     (case lc_chaos config of
        None \<Rightarrow> \<lparr>s_config = config, s_worker_id = worker_id, s_state = (metrics, world), s_chaos = None,
          s_vars = [], s_think_time = None, s_cancelled = False\<rparr>
      | Some c \<Rightarrow> \<lparr>s_config = config, s_worker_id = worker_id,
          s_state = (metrics\<lparr>w_chaos := Some \<lparr>csum_seed = or_default (ch_seed c) 0, csum_delayed = 0, csum_dropped = 0,
            csum_corrupted = 0, csum_closes = 0, csum_read_pauses = 0\<rparr>\<rparr>, world),
          s_chaos = Some (chaos_state_new time_seed c worker_id),
          s_vars = [], s_think_time = None, s_cancelled = False\<rparr>)"

definition record_with :: "('h worker_state \<Rightarrow> 'h worker_state) \<Rightarrow> ('n, 'h) session \<Rightarrow> ('n, 'h) session" where
  "record_with f s = s\<lparr>s_state := f (s_state s)\<rparr>"

datatype session_end = Finished | Lost

definition session_end_of :: "('n, 'h) session \<Rightarrow> session_end" where
  "session_end_of s = (if s_cancelled s then Finished else Lost)"

definition cancel :: "('n, 'h) session \<Rightarrow> ('n, 'h) session" where
  "cancel s = s\<lparr>s_cancelled := True\<rparr>"

text \<open>\<open>claim_send\<close> against \<open>--requests\<close>.\<close>

definition claim_send :: "('n, 'h) session \<Rightarrow> bool \<times> ('n, 'h) session" where
  "claim_send s =
     (case lc_max_requests (s_config s) of
        None \<Rightarrow> (True, s)
      | Some limit \<Rightarrow>
          (case claim_request (word_of_nat limit) (wd_live (snd (s_state s))) of (ok, live) \<Rightarrow>
             (ok, record_with (\<lambda>st. (fst st, (snd st)\<lparr>wd_live := live\<rparr>)) s)))"

definition template_values_of :: "nat \<Rightarrow> ('n, 'h) session \<Rightarrow> template_values" where
  "template_values_of seq s =
     \<lparr>val_seq = seq, val_worker_id = s_worker_id s,
      val_data = map_option (\<lambda>d. (d, row_for d (s_worker_id s))) (lc_data (s_config s)), val_vars = s_vars s\<rparr>"

definition render_message :: "nat \<Rightarrow> payload_config \<Rightarrow> nat \<Rightarrow> ('n, 'h) session \<Rightarrow> message" where
  "render_message now_ms payload seq s =
     (case payload of
        Binary bytes \<Rightarrow> Msg_Binary bytes
      | StaticText t \<Rightarrow> Msg_Text t
      | DynamicText t \<Rightarrow> Msg_Text (render now_ms t (template_values_of seq s)))"

text \<open>\<open>check_reply\<close>: the run's check, the action's and its captures; one error when any of them fails.\<close>

fun take_captures :: "'n serde_json \<Rightarrow> message \<Rightarrow> capture list \<Rightarrow> bool \<Rightarrow> string list \<Rightarrow> bool \<times> string list" where
  "take_captures sj reply [] passed vars = (passed, vars)"
| "take_captures sj reply (c # cs) passed vars =
     (case capture_value sj c reply of
        None \<Rightarrow> take_captures sj reply cs False vars
      | Some v \<Rightarrow> (if cap_var c < length vars then take_captures sj reply cs passed (vars[cap_var c := v])
                   else take_captures sj reply cs False vars))"

definition check_reply ::
    "'n serde_json \<Rightarrow> message \<Rightarrow> 'n check option \<Rightarrow> capture list \<Rightarrow> ('n, 'h) session \<Rightarrow> ('n, 'h) session" where
  "check_reply sj reply expect captures s =
     (if lc_expect (s_config s) = None \<and> expect = None \<and> captures = [] then s
      else (let passed = ((case lc_expect (s_config s) of None \<Rightarrow> True | Some c \<Rightarrow> passes sj c reply) \<and>
                          (case expect of None \<Rightarrow> True | Some c \<Rightarrow> passes sj c reply));
                (passed, vars) = take_captures sj reply captures passed (s_vars s);
                s = s\<lparr>s_vars := vars\<rparr>
            in if passed then s else record_with (record_error CheckFailed SentMessage) s))"

section \<open>The handshake and the slot\<close>

datatype connect_answer =
    Connect_cancelled
  | Connect_ok duration
  | Connect_static error_category
  | Connect_error tungstenite_error
  | Connect_timed_out

datatype handshake = Hs_open | Hs_failed | Hs_stop

definition worker_handshake :: "connect_answer \<Rightarrow> bool \<Rightarrow> ('n, 'h) session \<Rightarrow> handshake \<times> ('n, 'h) session" where
  "worker_handshake a connected_before s =
     (let s = record_with (own (\<lambda>w. w\<lparr>w_current_action := None\<rparr>)) s
      in case a of
           Connect_cancelled \<Rightarrow>
             (Hs_stop, cancel (if \<not> connected_before \<and> w_errors (fst (s_state s)) = Map.empty
                               then record_with (own (\<lambda>w. w\<lparr>w_interrupted := True\<rparr>)) s else s))
         | Connect_ok elapsed \<Rightarrow>
             (Hs_open, record_with (if connected_before then w_record_reconnect elapsed else w_record_handshake elapsed) s)
         | Connect_static cat \<Rightarrow> (Hs_stop, record_with (record_connection_failed cat) s)
         | Connect_error e \<Rightarrow> (Hs_failed, record_with (record_connection_failed (categorize_tungstenite_error e)) s)
         | Connect_timed_out \<Rightarrow> (Hs_failed, record_with (record_connection_failed Timeout) s))"

text \<open>
  One turn of the loop of \<open>run\<close>: the connect answer, the events of the session if it opens, and whether the
  backoff sleep ended (\<open>True\<close>) or the run was cancelled during it. \<open>drive\<close> runs the session's events and says
  how it ended, \<open>None\<close> when it is still open at the end of the events (or its task panicked). Beside the delays
  slept, the state says whether the slot has left its loop.
\<close>

datatype slot_status = Connecting | Session_open | Stopped

record ('n, 'h) slot =
  sl_session :: "('n, 'h) session"
  sl_backoff :: reconnect_backoff
  sl_connected_before :: bool
  sl_delays :: "duration list"
  sl_status :: slot_status

record 'e turn =
  tn_connect :: connect_answer
  tn_events :: 'e
  tn_slept :: bool

definition slot_pause :: "bool \<Rightarrow> ('n, 'h) slot \<Rightarrow> ('n, 'h) slot" where
  "slot_pause slept sl =
     (if lc_no_reconnect (s_config (sl_session sl)) \<or> s_cancelled (sl_session sl) then sl\<lparr>sl_status := Stopped\<rparr>
      else (case next_delay (sl_backoff sl) of (d, b) \<Rightarrow>
              (if slept then sl\<lparr>sl_backoff := b, sl_delays := sl_delays sl @ [d]\<rparr>
               else sl\<lparr>sl_backoff := b, sl_session := cancel (sl_session sl), sl_status := Stopped\<rparr>)))"

definition slot_turn ::
    "('e \<Rightarrow> ('n, 'h) session \<Rightarrow> ('n, 'h) session \<times> session_end option) \<Rightarrow> 'e turn \<Rightarrow> ('n, 'h) slot \<Rightarrow> ('n, 'h) slot" where
  "slot_turn drive t sl =
     (if sl_status sl \<noteq> Connecting then sl
      else (case worker_handshake (tn_connect t) (sl_connected_before sl) (sl_session sl) of
              (Hs_stop, s) \<Rightarrow> sl\<lparr>sl_session := s, sl_status := Stopped\<rparr>
            | (Hs_failed, s) \<Rightarrow> slot_pause (tn_slept t) (sl\<lparr>sl_session := s\<rparr>)
            | (Hs_open, s) \<Rightarrow>
                (let sl = sl\<lparr>sl_connected_before := True, sl_backoff := backoff_reset (sl_backoff sl)\<rparr>
                 in case drive (tn_events t) s of
                      (s, None) \<Rightarrow> sl\<lparr>sl_session := s, sl_status := Session_open\<rparr>
                    | (s, Some e) \<Rightarrow>
                        (let sl = sl\<lparr>sl_session := record_with record_connection_closed s\<rparr>
                         in if e = Finished then sl\<lparr>sl_status := Stopped\<rparr> else slot_pause (tn_slept t) sl))))"

definition slot_new :: "('n, 'h) session \<Rightarrow> ('n, 'h) slot" where
  "slot_new s = \<lparr>sl_session = s, sl_backoff = backoff_new, sl_connected_before = False, sl_delays = [],
     sl_status = Connecting\<rparr>"

text \<open>\<open>WorkerSession::run\<close>; \<open>request\<close> is what \<open>build_handshake_request\<close> gave.\<close>

definition worker_run ::
    "('e \<Rightarrow> ('n, 'h) session \<Rightarrow> ('n, 'h) session \<times> session_end option) \<Rightarrow> error_category + unit \<Rightarrow> 'e turn list
     \<Rightarrow> ('n, 'h) session \<Rightarrow> ('n, 'h) slot" where
  "worker_run drive request turns s =
     (case request of
        Inl cat \<Rightarrow> (slot_new (record_with (record_connection_failed cat) s))\<lparr>sl_status := Stopped\<rparr>
      | Inr _ \<Rightarrow> fold (slot_turn drive) turns (slot_new s))"

end
