(* ===== verification/Worker_Loops.thy ===== *)
theory Worker_Loops
  imports Worker
begin

text \<open>
  The session loops of \<open>src/worker.rs\<close>: one round of the echo loop (\<open>run_echo_loop\<close>) and one event of the stream
  and listen loops (\<open>run_stream_loop\<close>, \<open>run_listen_loop\<close>), with every metric they record, every frame they send
  and every way they end. What the round waits for (its pacing slot, the send, the reply, the pauses) is
  answered by the round's inputs; an answer of cancellation leaves the token cancelled.
\<close>

section \<open>Chaos in a session\<close>

text \<open>\<open>None\<close> is a panic: a delay and its jitter exceed the range of \<open>Duration\<close>.\<close>

definition chaos_plan :: "('n, 'h) session \<Rightarrow> (send_plan \<times> ('n, 'h) session) option" where
  "chaos_plan s =
     (case s_chaos s of
        None \<Rightarrow> Some (\<lparr>sp_delay = 0, sp_drop = False, sp_corrupt = False\<rparr>, s)
      | Some c \<Rightarrow> map_option (\<lambda>(p, c). (p, s\<lparr>s_chaos := Some c\<rparr>)) (plan_send c))"

definition count_chaos :: "(chaos_summary \<Rightarrow> chaos_summary) \<Rightarrow> ('n, 'h) session \<Rightarrow> ('n, 'h) session" where
  "count_chaos f s = record_with (record_chaos f) s"

definition chaos_delayed :: "('n, 'h) session \<Rightarrow> ('n, 'h) session" where
  "chaos_delayed s = count_chaos (\<lambda>c. c\<lparr>csum_delayed := csum_delayed c + 1\<rparr>) s"

definition chaos_dropped :: "('n, 'h) session \<Rightarrow> ('n, 'h) session" where
  "chaos_dropped s = count_chaos (\<lambda>c. c\<lparr>csum_dropped := csum_dropped c + 1\<rparr>) s"

definition chaos_corrupt :: "message \<Rightarrow> bool \<Rightarrow> ('n, 'h) session \<Rightarrow> (message \<times> bool) \<times> ('n, 'h) session" where
  "chaos_corrupt msg corrupted s =
     (case s_chaos s of
        None \<Rightarrow> ((msg, False), s)
      | Some c \<Rightarrow>
          (if \<not> corrupted then ((msg, False), s)
           else (case corrupt msg c of ((m, changed), c) \<Rightarrow>
                   (let s = s\<lparr>s_chaos := Some c\<rparr>
                    in ((m, changed), if changed then count_chaos (\<lambda>k. k\<lparr>csum_corrupted := csum_corrupted k + 1\<rparr>) s else s)))))"

definition chaos_close_now :: "('n, 'h) session \<Rightarrow> bool option \<times> ('n, 'h) session" where
  "chaos_close_now s =
     (case s_chaos s of
        None \<Rightarrow> (None, s)
      | Some c \<Rightarrow> (case close_now c of (r, c) \<Rightarrow> (r, s\<lparr>s_chaos := Some c\<rparr>)))"

definition chaos_read_pause :: "('n, 'h) session \<Rightarrow> (duration option \<times> ('n, 'h) session) option" where
  "chaos_read_pause s =
     (case s_chaos s of
        None \<Rightarrow> Some (None, s)
      | Some c \<Rightarrow>
          map_option (\<lambda>(pause, c).
              let s = s\<lparr>s_chaos := Some c\<rparr>
              in (pause, if pause = None then s
                         else count_chaos (\<lambda>k. k\<lparr>csum_read_pauses := csum_read_pauses k + 1\<rparr>) s))
            (read_pause c))"

definition close_away :: message where
  "close_away = Msg_Close (Some (1001, ''wsblast chaos close''))"

definition chaos_close :: "bool \<Rightarrow> ('n, 'h) session \<Rightarrow> message list \<times> ('n, 'h) session" where
  "chaos_close graceful s =
     (if graceful then [close_away] else [], count_chaos (\<lambda>k. k\<lparr>csum_closes := csum_closes k + 1\<rparr>) s)"

section \<open>The echo loop\<close>

datatype send_answer = Send_ok | Send_failed tungstenite_error | Send_cancelled

text \<open>
  The answers to one round: whether the token is cancelled at the top and how many keepalive pings fall before
  the slot, whether the slot comes before cancellation, whether the chaos delay passes, how the send went, the
  items that arrive in time and whether cancellation ends the wait, and whether the pauses pass.
\<close>

record echo_inputs =
  ei_cancelled :: bool
  ei_pings :: nat
  ei_slot :: bool
  ei_delay_done :: bool
  ei_now_ms :: nat
  ei_sent_at :: instant
  ei_send :: send_answer
  ei_items :: "stream_item list"
  ei_wait_cancelled :: bool
  ei_received_at :: instant
  ei_pause_done :: bool
  ei_think_done :: bool
  ei_now :: instant

record ('n, 'h) echo_state =
  es_session :: "('n, 'h) session"
  es_schedule :: "send_schedule option"
  es_seq :: nat
  es_sent :: "message list"

datatype round_end = Next | Break | Panics

definition heartbeat :: message where "heartbeat = Msg_Ping ''hb''"

definition emit :: "message list \<Rightarrow> ('n, 'h) echo_state \<Rightarrow> ('n, 'h) echo_state" where
  "emit ms e = e\<lparr>es_sent := es_sent e @ ms\<rparr>"

definition in_session :: "(('n, 'h) session \<Rightarrow> ('n, 'h) session) \<Rightarrow> ('n, 'h) echo_state \<Rightarrow> ('n, 'h) echo_state" where
  "in_session f e = e\<lparr>es_session := f (es_session e)\<rparr>"

text \<open>\<open>break\<close> out of the loop; cancellation first sends a Close.\<close>

definition break_loop :: "('n, 'h) echo_state \<Rightarrow> ('n, 'h) echo_state \<times> round_end" where
  "break_loop e = (e, Break)"

definition break_cancelled :: "('n, 'h) echo_state \<Rightarrow> ('n, 'h) echo_state \<times> round_end" where
  "break_cancelled e = break_loop (emit [Msg_Close None] (in_session cancel e))"

definition records_response :: "('n, 'h) session \<Rightarrow> bool" where
  "records_response s = (case s_think_time s of None \<Rightarrow> True | Some t \<Rightarrow> t = 0)"

definition reschedule :: "(send_schedule \<Rightarrow> send_schedule) \<Rightarrow> ('n, 'h) echo_state \<Rightarrow> ('n, 'h) echo_state" where
  "reschedule f e = e\<lparr>es_schedule := map_option f (es_schedule e)\<rparr>"

text \<open>The end of a round: the sequence number, the slot, the read pause and the think time.\<close>

definition think :: "echo_inputs \<Rightarrow> ('n, 'h) echo_state \<Rightarrow> ('n, 'h) echo_state \<times> round_end" where
  "think i e =
     (if \<not> records_response (es_session e) \<and> \<not> ei_think_done i then break_cancelled e
      else (if records_response (es_session e) then e else reschedule (restart_after_pause (ei_now i)) e, Next))"

definition finish_round :: "echo_inputs \<Rightarrow> ('n, 'h) echo_state \<Rightarrow> ('n, 'h) echo_state \<times> round_end" where
  "finish_round i e =
     (let e = reschedule advance (e\<lparr>es_seq := es_seq e + 1\<rparr>)
      in case chaos_read_pause (es_session e) of
           None \<Rightarrow> (e, Panics)
         | Some (None, s) \<Rightarrow> think i (e\<lparr>es_session := s\<rparr>)
         | Some (Some pause, s) \<Rightarrow>
             (let e = e\<lparr>es_session := s\<rparr>
              in if \<not> ei_pause_done i then break_cancelled e else think i (reschedule (shift pause) e)))"

text \<open>A reply: its metrics, the checks, the response time of a paced request, and a chaos close.\<close>

definition echo_reply ::
    "'n serde_json \<Rightarrow> 'h interval_hist \<Rightarrow> bool \<Rightarrow> echo_inputs \<Rightarrow> instant option \<Rightarrow> bool \<Rightarrow> message
     \<Rightarrow> ('n, 'h) echo_state \<Rightarrow> ('n, 'h) echo_state \<times> round_end" where
  "echo_reply sj H windows i due corrupted reply e =
     (let rtt = ei_received_at i - ei_sent_at i;
          s = record_with (record_message_recv H (ei_received_at i) (word_of_nat (message_byte_len reply)) (Some rtt)) (es_session e);
          s = (if corrupted then s else check_reply sj reply None [] s);
          s = (case due of
                 None \<Rightarrow> s
               | Some d \<Rightarrow> (if records_response s
                            then record_with (record_response_time H (ei_received_at i)
                                   (response_time windows d (ei_sent_at i) rtt)) s
                            else s))
      in case chaos_close_now s of
           (Some graceful, s) \<Rightarrow>
             (case chaos_close graceful s of (out, s) \<Rightarrow> break_loop (emit out (e\<lparr>es_session := s\<rparr>)))
         | (None, s) \<Rightarrow> finish_round i (e\<lparr>es_session := s\<rparr>))"

text \<open>From the send on.\<close>

definition echo_send ::
    "'n serde_json \<Rightarrow> 'h interval_hist \<Rightarrow> bool \<Rightarrow> echo_inputs \<Rightarrow> instant option \<Rightarrow> bool \<Rightarrow> ('n, 'h) echo_state
     \<Rightarrow> ('n, 'h) echo_state \<times> round_end" where
  "echo_send sj H windows i due corrupted_plan e =
     (let seq = es_seq e;
          config = s_config (es_session e);
          ((msg, corrupted), s) = chaos_corrupt (render_message (ei_now_ms i) (lc_payload config) seq (es_session e))
            corrupted_plan (es_session e);
          e = e\<lparr>es_session := s\<rparr>;
          sent = (if lc_reply_match config = Exact then Some msg else None)
      in case ei_send i of
           Send_cancelled \<Rightarrow> break_cancelled e
         | Send_failed err \<Rightarrow>
             break_loop (in_session (record_with (record_error (categorize_session_error err Dir_write) Attempt)) e)
         | Send_ok \<Rightarrow>
             (let e = emit [msg] (in_session (record_with (record_message_sent (word_of_nat (message_byte_len msg)))) e);
                  (result, unsolicited, pongs) = await_reply sj (lc_reply_match config) sent seq corrupted (ei_items i) 0 [];
                  e = emit pongs (in_session (record_with (record_unsolicited_frames (word_of_nat unsolicited))) e)
              in if ei_wait_cancelled i then break_cancelled e
                 else (case result of
                         None \<Rightarrow> break_loop (in_session (record_with (record_error Timeout SentMessage)) e)
                       | Some (Inl cat) \<Rightarrow> break_loop (in_session (record_with (record_error cat SentMessage)) e)
                       | Some (Inr None) \<Rightarrow> break_loop e
                       | Some (Inr (Some reply)) \<Rightarrow> echo_reply sj H windows i due corrupted reply e)))"

definition echo_round ::
    "'n serde_json \<Rightarrow> 'h interval_hist \<Rightarrow> bool \<Rightarrow> echo_inputs \<Rightarrow> ('n, 'h) echo_state \<Rightarrow> ('n, 'h) echo_state \<times> round_end" where
  "echo_round sj H windows i e =
     (if ei_cancelled i \<or> s_cancelled (es_session e) then break_cancelled e
      else
        (let due = map_option sd_next_due (es_schedule e);
             e = emit (replicate (ei_pings i) heartbeat) e
         in if due \<noteq> None \<and> \<not> ei_slot i then break_cancelled e
            else (case claim_send (es_session e) of
                    (False, s) \<Rightarrow> break_cancelled (e\<lparr>es_session := s\<rparr>)
                  | (True, s) \<Rightarrow>
                      (case chaos_plan s of
                         None \<Rightarrow> (e\<lparr>es_session := s\<rparr>, Panics)
                       | Some (plan, s) \<Rightarrow>
                           (let e = e\<lparr>es_session := s\<rparr>
                            in if sp_drop plan
                               then (reschedule advance ((in_session chaos_dropped e)\<lparr>es_seq := es_seq e + 1\<rparr>), Next)
                               else if sp_delay plan > 0
                               then (let e = in_session chaos_delayed e
                                     in if \<not> ei_delay_done i then break_cancelled e
                                        else echo_send sj H windows i (map_option (\<lambda>d. d + sp_delay plan) due) (sp_corrupt plan)
                                               (reschedule (shift (sp_delay plan)) e))
                               else echo_send sj H windows i due (sp_corrupt plan) e)))))"

text \<open>A whole echo session from \<open>now\<close>; the rounds given may end while the loop still runs.\<close>

fun echo_rounds ::
    "'n serde_json \<Rightarrow> 'h interval_hist \<Rightarrow> bool \<Rightarrow> echo_inputs list \<Rightarrow> ('n, 'h) echo_state \<Rightarrow> ('n, 'h) echo_state \<times> round_end" where
  "echo_rounds sj H windows [] e = (e, Next)"
| "echo_rounds sj H windows (i # is) e =
     (case echo_round sj H windows i e of
        (e, Next) \<Rightarrow> echo_rounds sj H windows is e
      | r \<Rightarrow> r)"

definition echo_start :: "instant \<Rightarrow> ('n, 'h) session \<Rightarrow> ('n, 'h) echo_state option" where
  "echo_start now s =
     map_option (\<lambda>schedule.
         \<lparr>es_session = record_with (own (\<lambda>w. w\<lparr>w_interval_uses_response := (schedule \<noteq> None \<and> records_response s)\<rparr>)) s,
          es_schedule = schedule, es_seq = 0, es_sent = []\<rparr>)
       (schedule_new (lc_rate_per_conn (s_config s)) now)"

section \<open>The stream and listen loops\<close>

text \<open>The branch of \<open>select!\<close> that fires.\<close>

datatype loop_event =
    Ev_tick bool nat "tungstenite_error option" bool
  | Ev_keepalive
  | Ev_resume
  | Ev_item stream_item
  | Ev_cancel

record ('n, 'h) stream_state =
  st_session :: "('n, 'h) session"
  st_seq :: nat
  st_paused :: bool
  st_sent :: "message list"

definition leave :: "('n, 'h) stream_state \<Rightarrow> ('n, 'h) stream_state \<times> round_end" where
  "leave e = (e, Break)"

definition leave_cancelled :: "('n, 'h) stream_state \<Rightarrow> ('n, 'h) stream_state \<times> round_end" where
  "leave_cancelled e = leave (e\<lparr>st_session := cancel (st_session e), st_sent := st_sent e @ [Msg_Close None]\<rparr>)"

text \<open>A received item, the same in both loops.\<close>

definition stream_item_step :: "'h interval_hist \<Rightarrow> instant \<Rightarrow> stream_item \<Rightarrow> ('n, 'h) stream_state \<Rightarrow> ('n, 'h) stream_state \<times> round_end" where
  "stream_item_step H now it e =
     (case it of
        Item_end \<Rightarrow> leave e
      | Item_error err \<Rightarrow>
          leave (e\<lparr>st_session := record_with (record_error (categorize_session_error err Dir_read) Attempt) (st_session e)\<rparr>)
      | Item (Msg_Ping p) \<Rightarrow> (e\<lparr>st_sent := st_sent e @ [Msg_Pong p]\<rparr>, Next)
      | Item (Msg_Pong p) \<Rightarrow> (e, Next)
      | Item (Msg_Close c) \<Rightarrow> leave e
      | Item m \<Rightarrow>
          (let s = record_with (record_message_recv H now (word_of_nat (message_byte_len m)) None) (st_session e)
           in case chaos_read_pause s of
                None \<Rightarrow> (e\<lparr>st_session := s\<rparr>, Panics)
              | Some (pause, s) \<Rightarrow> (e\<lparr>st_session := s, st_paused := (pause \<noteq> None)\<rparr>, Next)))"

text \<open>A tick of the stream loop: the delay passes or not, the time, how the send failed if it did, the think time passes or not.\<close>

definition stream_tick ::
    "bool \<Rightarrow> nat \<Rightarrow> tungstenite_error option \<Rightarrow> bool \<Rightarrow> ('n, 'h) stream_state \<Rightarrow> ('n, 'h) stream_state \<times> round_end" where
  "stream_tick delay_done now_ms send think_done e =
     (case claim_send (st_session e) of
        (False, s) \<Rightarrow> leave_cancelled (e\<lparr>st_session := s\<rparr>)
      | (True, s) \<Rightarrow>
          (case chaos_plan s of
             None \<Rightarrow> (e\<lparr>st_session := s\<rparr>, Panics)
           | Some (plan, s) \<Rightarrow>
               (if sp_drop plan then (e\<lparr>st_session := chaos_dropped s, st_seq := st_seq e + 1\<rparr>, Next)
                else (let s = (if sp_delay plan > 0 then chaos_delayed s else s)
                      in if sp_delay plan > 0 \<and> \<not> delay_done then leave_cancelled (e\<lparr>st_session := s\<rparr>)
                         else (let ((msg, _), s) = chaos_corrupt (render_message now_ms (lc_payload (s_config s)) (st_seq e) s)
                                     (sp_corrupt plan) s
                               in case send of
                                    None \<Rightarrow>
                                      (let s = record_with (record_message_sent (word_of_nat (message_byte_len msg))) s;
                                           e = e\<lparr>st_session := s, st_seq := st_seq e + 1, st_sent := st_sent e @ [msg]\<rparr>
                                       in case chaos_close_now s of
                                            (Some graceful, s) \<Rightarrow>
                                              (case chaos_close graceful s of (out, s) \<Rightarrow>
                                                 leave (e\<lparr>st_session := s, st_sent := st_sent e @ out\<rparr>))
                                          | (None, s) \<Rightarrow>
                                              (if \<not> records_response s \<and> \<not> think_done then leave_cancelled (e\<lparr>st_session := s\<rparr>)
                                               else (e\<lparr>st_session := s\<rparr>, Next)))
                                  | Some err \<Rightarrow>
                                      leave (e\<lparr>st_session := record_with (record_error (categorize_session_error err Dir_write) Attempt) s\<rparr>)))))) "

text \<open>One event of the loop; a listening session has no send ticks, and a paused one does not read.\<close>

fun stream_step ::
    "'h interval_hist \<Rightarrow> bool \<Rightarrow> instant \<times> loop_event \<Rightarrow> ('n, 'h) stream_state \<Rightarrow> ('n, 'h) stream_state \<times> round_end" where
  "stream_step H sends (now, Ev_tick delay_done now_ms send think_done) e =
     (if sends then stream_tick delay_done now_ms send think_done e else (e, Next))"
| "stream_step H sends (now, Ev_keepalive) e = (e\<lparr>st_sent := st_sent e @ [heartbeat]\<rparr>, Next)"
| "stream_step H sends (now, Ev_resume) e = (e\<lparr>st_paused := False\<rparr>, Next)"
| "stream_step H sends (now, Ev_item it) e = (if st_paused e then (e, Next) else stream_item_step H now it e)"
| "stream_step H sends (now, Ev_cancel) e = leave_cancelled e"

fun stream_events ::
    "'h interval_hist \<Rightarrow> bool \<Rightarrow> (instant \<times> loop_event) list \<Rightarrow> ('n, 'h) stream_state \<Rightarrow> ('n, 'h) stream_state \<times> round_end" where
  "stream_events H sends [] e = (e, Next)"
| "stream_events H sends (ev # evs) e =
     (case stream_step H sends ev e of
        (e, Next) \<Rightarrow> stream_events H sends evs e
      | r \<Rightarrow> r)"

section \<open>Whole sessions\<close>

text \<open>
  \<open>session_end\<close> after the loop: \<open>late\<close> says that the run was cancelled while the session was ending for another
  reason. A loop that has not left gives no verdict.
\<close>

definition finish_session :: "bool \<Rightarrow> round_end \<Rightarrow> ('n, 'h) session \<Rightarrow> ('n, 'h) session \<times> session_end option" where
  "finish_session late r s =
     (if r = Break then (let s = (if late then cancel s else s) in (s, Some (session_end_of s))) else (s, None))"

record echo_events =
  ee_start :: instant
  ee_rounds :: "echo_inputs list"
  ee_late :: bool

definition echo_session ::
    "'n serde_json \<Rightarrow> 'h interval_hist \<Rightarrow> bool \<Rightarrow> echo_events \<Rightarrow> ('n, 'h) session \<Rightarrow> ('n, 'h) session \<times> session_end option" where
  "echo_session sj H windows ev s =
     (case echo_start (ee_start ev) s of
        None \<Rightarrow> (s, None)
      | Some e \<Rightarrow> (case echo_rounds sj H windows (ee_rounds ev) e of (e, r) \<Rightarrow>
                      finish_session (ee_late ev) r (es_session e)))"

record loop_events =
  le_events :: "(instant \<times> loop_event) list"
  le_late :: bool

definition loop_session ::
    "'h interval_hist \<Rightarrow> bool \<Rightarrow> loop_events \<Rightarrow> ('n, 'h) session \<Rightarrow> ('n, 'h) session \<times> session_end option" where
  "loop_session H sends ev s =
     (case stream_events H sends (le_events ev) \<lparr>st_session = s, st_seq = 0, st_paused = False, st_sent = []\<rparr> of
        (e, r) \<Rightarrow> finish_session (le_late ev) r (st_session e))"

end
