(* ===== verification/Worker_Slots.thy ===== *)
theory Worker_Slots
  imports Worker_Loops
begin

text \<open>
  What the loop of \<open>WorkerSession::run\<close> promises whatever session loop it drives: a locale states what a session
  may do to the counters of its slot, the accounting of connections is proved once inside it, and the echo, the
  stream and the listen loop are interpretations. The second half counts the messages of an echo session.
\<close>

section \<open>Sessions leave the connection counters alone\<close>

definition conn_view :: "'h worker_state \<Rightarrow> nat \<times> u64 \<times> bool \<times> (u64 \<times> u64 \<times> u64 \<times> u64) list" where
  "conn_view st =
     (w_shard (fst st), w_reconnects (fst st), w_interrupted (fst st),
      map (\<lambda>c. (cs_active c, cs_established c, cs_failed c, cs_reconnects c)) (lm_shards (wd_live (snd st))))"

definition keeps :: "'h worker_state \<Rightarrow> 'h worker_state \<Rightarrow> bool" where
  "keeps st st' \<longleftrightarrow> conn_view st' = conn_view st \<and>
     (w_errors (fst st) \<noteq> Map.empty \<longrightarrow> w_errors (fst st') \<noteq> Map.empty)"

named_theorems keeps_intros

lemma keeps_refl [simp, keeps_intros]: "keeps st st"
  by (simp add: keeps_def)

lemma keeps_trans [trans]: "keeps a b \<Longrightarrow> keeps b c \<Longrightarrow> keeps a c"
  by (simp add: keeps_def)

definition quiet :: "(counter_shard \<Rightarrow> counter_shard) \<Rightarrow> bool" where
  "quiet f \<longleftrightarrow> (\<forall>c. cs_active (f c) = cs_active c \<and> cs_established (f c) = cs_established c \<and>
     cs_failed (f c) = cs_failed c \<and> cs_reconnects (f c) = cs_reconnects c)"

lemma keeps_counters: "quiet f \<Longrightarrow> keeps st (counters f st)"
  by (auto simp: keeps_def conn_view_def counters_def update_shard_def Let_def quiet_def map_update list_update_same_conv
      nth_map)
    (metis (no_types, lifting) list_update_id map_update)

lemma keeps_own:
  assumes "\<And>w. w_shard (f w) = w_shard w" "\<And>w. w_reconnects (f w) = w_reconnects w"
    "\<And>w. w_interrupted (f w) = w_interrupted w" "\<And>w. w_errors w \<noteq> Map.empty \<Longrightarrow> w_errors (f w) \<noteq> Map.empty"
  shows "keeps st (own f st)"
  using assms by (simp add: keeps_def conn_view_def own_def)

lemma keeps_latency: "keeps st (latency f st)"
  by (simp add: keeps_def conn_view_def latency_def Let_def)

lemma keeps_interval: "keeps st (interval_sample H now m st)"
  by (auto simp: keeps_def conn_view_def interval_sample_def split: option.split prod.split)

lemma update_action_frame [simp]:
  "w_shard (update_action f w) = w_shard w" "w_reconnects (update_action f w) = w_reconnects w"
  "w_interrupted (update_action f w) = w_interrupted w" "w_errors (update_action f w) = w_errors w"
  "w_messages_sent (update_action f w) = w_messages_sent w" "w_messages_recv (update_action f w) = w_messages_recv w"
  "w_sent_message_errors (update_action f w) = w_sent_message_errors w"
  by (auto simp: update_action_def Let_def split: option.split)

lemma count_error_nonempty [simp]: "count_error c m \<noteq> Map.empty"
  by (auto simp: count_error_def fun_eq_iff)

lemma keeps_record_error [keeps_intros]: "keeps st (record_error c scope st)"
  unfolding record_error_def Let_def
  by (rule keeps_trans [OF _ keeps_counters]) (auto intro!: keeps_own simp: quiet_def)

lemma keeps_message_sent [keeps_intros]: "keeps st (record_message_sent n st)"
  unfolding record_message_sent_def
  by (rule keeps_trans [OF keeps_trans [OF _ keeps_counters] keeps_counters]) (auto intro!: keeps_own simp: quiet_def)

lemma keeps_rtt_sample: "keeps st (record_rtt_sample H now d st)"
  by (auto simp: record_rtt_sample_def Let_def split: option.split
      intro: keeps_latency keeps_interval keeps_trans [OF keeps_latency] keeps_trans [OF keeps_trans [OF keeps_latency keeps_latency]]
        keeps_interval)

lemma keeps_message_recv [keeps_intros]: "keeps st (record_message_recv H now n rtt st)"
proof -
  let ?st = "own (\<lambda>w. w\<lparr>w_messages_recv := w_messages_recv w + 1, w_bytes_recv := w_bytes_recv w + n\<rparr>) st"
  have "keeps st ?st" by (rule keeps_own) auto
  also have "keeps ?st (case rtt of None \<Rightarrow> ?st | Some d \<Rightarrow> record_rtt_sample H now d ?st)"
    by (simp add: keeps_rtt_sample split: option.split)
  also have "keeps \<dots> (record_message_recv H now n rtt st)"
    unfolding record_message_recv_def Let_def
    by (rule keeps_trans [OF keeps_counters keeps_counters]) (auto simp: quiet_def)
  finally show ?thesis .
qed

lemma keeps_response_time [keeps_intros]: "keeps st (record_response_time H now d st)"
  by (auto simp: record_response_time_def Let_def split: option.split
      intro: keeps_trans [OF keeps_latency keeps_interval]
        keeps_trans [OF keeps_trans [OF keeps_latency keeps_latency] keeps_interval])

lemma keeps_unsolicited [keeps_intros]: "keeps st (record_unsolicited_frames n st)"
  unfolding record_unsolicited_frames_def
  by (auto intro!: keeps_trans [OF _ keeps_counters] keeps_own simp: quiet_def)

lemma keeps_chaos [keeps_intros]: "keeps st (record_chaos f st)"
  unfolding record_chaos_def by (rule keeps_own) auto

text \<open>The same for a session: its configuration stays too, and a cancelled run stays cancelled.\<close>

definition keeps_slot :: "('n, 'h) session \<Rightarrow> ('n, 'h) session \<Rightarrow> bool" where
  "keeps_slot s s' \<longleftrightarrow> s_config s' = s_config s \<and> s_think_time s' = s_think_time s \<and> keeps (s_state s) (s_state s')"

lemma keeps_slot_refl [simp]: "keeps_slot s s"
  by (simp add: keeps_slot_def)

lemma keeps_slot_trans [trans]: "keeps_slot a b \<Longrightarrow> keeps_slot b c \<Longrightarrow> keeps_slot a c"
  by (auto simp: keeps_slot_def intro: keeps_trans)

lemma keeps_slot_record [intro]: "(\<And>st. keeps st (f st)) \<Longrightarrow> keeps_slot s (record_with f s)"
  by (simp add: keeps_slot_def record_with_def)

lemma keeps_slot_fields [simp]:
  "keeps_slot s (cancel s') = keeps_slot s s'" "keeps_slot s (s'\<lparr>s_chaos := c\<rparr>) = keeps_slot s s'"
  "keeps_slot s (s'\<lparr>s_vars := v\<rparr>) = keeps_slot s s'"
  by (simp_all add: keeps_slot_def cancel_def)

lemma keeps_then: "keeps_slot s a \<Longrightarrow> (\<And>st. keeps st (f st)) \<Longrightarrow> keeps_slot s (record_with f a)"
  by (rule keeps_slot_trans [OF _ keeps_slot_record])

lemma keeps_claim: "claim_send s = (ok, s') \<Longrightarrow> keeps_slot s s'"
  by (auto simp: claim_send_def claim_request_def keeps_slot_def record_with_def keeps_def conn_view_def
      split: option.splits)

lemma keeps_count_chaos [simp]: "keeps_slot a s \<Longrightarrow> keeps_slot a (count_chaos f s)"
  by (auto simp: count_chaos_def intro!: keeps_then keeps_intros)

lemma keeps_chaos_plan: "chaos_plan s = Some (p, s') \<Longrightarrow> keeps_slot s s'"
  by (auto simp: chaos_plan_def split: option.splits)

lemma keeps_chaos_corrupt: "chaos_corrupt m c s = (r, s') \<Longrightarrow> keeps_slot s s'"
  by (auto simp: chaos_corrupt_def Let_def split: option.splits if_splits prod.splits)

lemma keeps_chaos_close_now: "chaos_close_now s = (r, s') \<Longrightarrow> keeps_slot s s'"
  by (auto simp: chaos_close_now_def split: option.splits prod.splits)

lemma keeps_chaos_read_pause: "chaos_read_pause s = Some (r, s') \<Longrightarrow> keeps_slot s s'"
  by (auto simp: chaos_read_pause_def Let_def split: option.splits if_splits)

lemma keeps_chaos_close: "chaos_close g s = (out, s') \<Longrightarrow> keeps_slot s s'"
  by (auto simp: chaos_close_def)

lemma keeps_check_reply: "keeps_slot s (check_reply sj m x cs s)"
  by (auto simp: check_reply_def Let_def split: prod.split intro!: keeps_then keeps_intros)

lemmas keeps_steps = keeps_claim keeps_chaos_plan keeps_chaos_corrupt keeps_chaos_close_now keeps_chaos_read_pause
  keeps_chaos_close

subsection \<open>The echo loop\<close>

definition keeps_echo :: "('n, 'h) echo_state \<Rightarrow> ('n, 'h) echo_state \<Rightarrow> bool" where
  "keeps_echo e e' \<longleftrightarrow> keeps_slot (es_session e) (es_session e')"

lemma keeps_echo_trans [trans]: "keeps_echo a b \<Longrightarrow> keeps_echo b c \<Longrightarrow> keeps_echo a c"
  by (auto simp: keeps_echo_def intro: keeps_slot_trans)

lemma es_session_simps [simp]:
  "es_session (emit ms e) = es_session e" "es_session (reschedule f e) = es_session e"
  "es_session (in_session g e) = g (es_session e)"
  "es_session (fst (break_loop e)) = es_session e" "es_session (fst (break_cancelled e)) = cancel (es_session e)"
  by (simp_all add: emit_def reschedule_def in_session_def break_loop_def break_cancelled_def)

lemma keeps_think: "keeps_echo e (fst (think i e))"
  by (simp add: think_def keeps_echo_def)

lemma keeps_think_from: "keeps_slot s (es_session e) \<Longrightarrow> keeps_slot s (es_session (fst (think i e)))"
  using keeps_think [of e i] by (auto simp: keeps_echo_def intro: keeps_slot_trans)

lemma keeps_finish_round: "keeps_echo e (fst (finish_round i e))"
proof (cases "chaos_read_pause (es_session e)")
  case None
  then show ?thesis by (simp add: finish_round_def Let_def keeps_echo_def)
next
  case (Some r)
  obtain pause s where r: "r = (pause, s)" by (cases r)
  have "keeps_slot (es_session e) s" using keeps_chaos_read_pause Some r by metis
  with Some r show ?thesis
    by (cases pause) (simp_all add: finish_round_def Let_def keeps_echo_def keeps_think_from)
qed

text \<open>What a reply records before the chaos close is decided.\<close>

definition reply_recorded ::
    "'n serde_json \<Rightarrow> 'h interval_hist \<Rightarrow> bool \<Rightarrow> echo_inputs \<Rightarrow> instant option \<Rightarrow> bool \<Rightarrow> message
     \<Rightarrow> ('n, 'h) session \<Rightarrow> ('n, 'h) session" where
  "reply_recorded sj H windows i due corrupted reply s =
     (let rtt = ei_received_at i - ei_sent_at i;
          s = record_with (record_message_recv H (ei_received_at i) (word_of_nat (message_byte_len reply)) (Some rtt)) s;
          s = (if corrupted then s else check_reply sj reply None [] s)
      in case due of
           None \<Rightarrow> s
         | Some d \<Rightarrow> (if records_response s
                      then record_with (record_response_time H (ei_received_at i) (response_time windows d (ei_sent_at i) rtt)) s
                      else s))"

lemma echo_reply_alt:
  "echo_reply sj H windows i due corrupted reply e =
     (case chaos_close_now (reply_recorded sj H windows i due corrupted reply (es_session e)) of
        (Some graceful, s) \<Rightarrow> (case chaos_close graceful s of (out, s) \<Rightarrow> break_loop (emit out (e\<lparr>es_session := s\<rparr>)))
      | (None, s) \<Rightarrow> finish_round i (e\<lparr>es_session := s\<rparr>))"
  by (simp add: echo_reply_def reply_recorded_def Let_def)

lemma keeps_reply_recorded: "keeps_slot s (reply_recorded sj H windows i due corrupted reply s)"
  by (auto simp: reply_recorded_def Let_def split: option.split
      intro!: keeps_then keeps_intros intro: keeps_slot_trans [OF _ keeps_check_reply])

lemma keeps_finish_from: "keeps_slot s (es_session e) \<Longrightarrow> keeps_slot s (es_session (fst (finish_round i e)))"
  using keeps_finish_round [of e i] by (auto simp: keeps_echo_def intro: keeps_slot_trans)

lemma keeps_echo_reply: "keeps_slot (es_session e) (es_session (fst (echo_reply sj H windows i due corrupted reply e)))"
  by (auto simp: echo_reply_alt split: prod.split option.split
      intro!: keeps_finish_from
      dest!: keeps_chaos_close_now keeps_chaos_close
      intro: keeps_slot_trans keeps_reply_recorded)

lemma keeps_echo_reply_from:
  "keeps_slot s (es_session e) \<Longrightarrow> keeps_slot s (es_session (fst (echo_reply sj H windows i due corrupted reply e)))"
  by (rule keeps_slot_trans [OF _ keeps_echo_reply])

lemma keeps_echo_send:
  assumes "keeps_slot s (es_session e)"
  shows "keeps_slot s (es_session (fst (echo_send sj H windows i due c e)))"
proof -
  obtain msg corrupted s' where cc: "chaos_corrupt (render_message (ei_now_ms i) (lc_payload (s_config (es_session e))) (es_seq e) (es_session e))
      c (es_session e) = ((msg, corrupted), s')"
    by (metis surj_pair)
  have k: "keeps_slot s s'" using keeps_slot_trans [OF assms keeps_chaos_corrupt [OF cc]] .
  then have sent: "keeps_slot s (record_with (record_unsolicited_frames n) (record_with (record_message_sent b) s'))" for n b
    by (intro keeps_then keeps_intros)
  show ?thesis
    using k sent
    by (auto simp: echo_send_def cc Let_def split: send_answer.split prod.split option.split sum.split
        intro!: keeps_echo_reply_from keeps_then keeps_intros)
qed

lemma keeps_echo_round: "keeps_slot (es_session e) (es_session (fst (echo_round sj H windows i e)))"
proof -
  obtain ok s where c: "claim_send (es_session e) = (ok, s)" by (cases "claim_send (es_session e)")
  note k = keeps_claim [OF c]
  show ?thesis
  proof (cases "chaos_plan s")
    case None
    with c k show ?thesis by (cases ok) (simp_all add: echo_round_def Let_def)
  next
    case (Some r)
    obtain plan s' where r: "r = (plan, s')" by (cases r)
    have k': "keeps_slot (es_session e) s'" using keeps_slot_trans [OF k keeps_chaos_plan] Some r by blast
    with c k Some r show ?thesis
      by (cases ok) (auto simp: echo_round_def Let_def chaos_dropped_def chaos_delayed_def intro!: keeps_echo_send)
  qed
qed

lemma keeps_echo_rounds: "keeps_slot (es_session e) (es_session (fst (echo_rounds sj H windows is e)))"
proof (induction "is" arbitrary: e)
  case (Cons i "is")
  then show ?case
    using keeps_echo_round [of e sj H windows i]
    by (auto split: prod.split round_end.split intro: keeps_slot_trans)
qed simp

lemma finish_session_session: "keeps_slot a s \<Longrightarrow> keeps_slot a (fst (finish_session late r s))"
  by (simp add: finish_session_def Let_def)

lemma finish_session_finished:
  "snd (finish_session late r s) = Some Finished \<Longrightarrow> s_cancelled (fst (finish_session late r s))"
  by (auto simp: finish_session_def Let_def session_end_of_def split: if_splits)

lemma keeps_echo_start: "echo_start now s = Some e \<Longrightarrow> keeps_slot s (es_session e)"
  by (auto simp: echo_start_def intro!: keeps_slot_record keeps_own)

lemma keeps_echo_session: "keeps_slot s (fst (echo_session sj H windows ev s))"
  by (auto simp: echo_session_def split: option.split prod.split intro!: finish_session_session
      dest!: keeps_echo_start arg_cong [where f = fst]) (metis fst_conv keeps_echo_rounds keeps_slot_trans)

subsection \<open>The stream and listen loops\<close>

lemma st_session_leave [simp]:
  "st_session (fst (leave e)) = st_session e" "st_session (fst (leave_cancelled e)) = cancel (st_session e)"
  by (simp_all add: leave_def leave_cancelled_def)

lemma keeps_stream_item: "keeps_slot (st_session e) (st_session (fst (stream_item_step H now it e)))"
proof -
  have "keeps_slot s s'" if "chaos_read_pause (record_with (record_message_recv H now n None) s) = Some (p, s')" for n s s' p
    using keeps_slot_trans [OF keeps_slot_record [OF keeps_message_recv] keeps_chaos_read_pause [OF that]] .
  then show ?thesis
    by (auto simp: stream_item_step_def Let_def split: stream_item.split message.split option.split
        intro!: keeps_slot_record keeps_intros)
qed

lemma keeps_stream_tick: "keeps_slot (st_session e) (st_session (fst (stream_tick delay_done now_ms send think_done e)))"
proof -
  obtain ok s where c: "claim_send (st_session e) = (ok, s)" by (cases "claim_send (st_session e)")
  note k = keeps_claim [OF c]
  show ?thesis
  proof (cases "chaos_plan s")
    case None
    with c k show ?thesis by (cases ok) (simp_all add: stream_tick_def)
  next
    case (Some r)
    obtain plan s' where r: "r = (plan, s')" by (cases r)
    define sd where "sd = (if sp_delay plan > 0 then chaos_delayed s' else s')"
    obtain msg b s2 where cc: "chaos_corrupt (render_message now_ms (lc_payload (s_config sd)) (st_seq e) sd)
        (sp_corrupt plan) sd = ((msg, b), s2)"
      by (metis surj_pair)
    have k': "keeps_slot (st_session e) s'" using keeps_slot_trans [OF k keeps_chaos_plan] Some r by blast
    then have kd: "keeps_slot (st_session e) sd" by (simp add: sd_def chaos_delayed_def)
    then have k2: "keeps_slot (st_session e) s2" by (rule keeps_slot_trans [OF _ keeps_chaos_corrupt [OF cc]])
    define s3 where "s3 = record_with (record_message_sent (word_of_nat (message_byte_len msg))) s2"
    have k3: "keeps_slot (st_session e) s3" using k2 by (auto simp: s3_def intro!: keeps_then keeps_intros)
    obtain g s4 where cl: "chaos_close_now s3 = (g, s4)" by (cases "chaos_close_now s3")
    have k4: "keeps_slot (st_session e) s4" using keeps_slot_trans [OF k3 keeps_chaos_close_now [OF cl]] .
    have "keeps_slot (st_session e) (record_with (record_error x Attempt) s2)" for x
      using k2 by (intro keeps_then keeps_intros)
    with c k k' kd k4 show ?thesis
      by (cases ok; cases g)
        (auto simp: stream_tick_def Some r Let_def chaos_dropped_def sd_def [symmetric] cc s3_def [symmetric] cl chaos_close_def
          split: option.split)
  qed
qed

lemma keeps_stream_step: "keeps_slot (st_session e) (st_session (fst (stream_step H sends ev e)))"
  by (cases "(H, sends, ev, e)" rule: stream_step.cases) (simp_all add: keeps_stream_tick keeps_stream_item)

lemma keeps_stream_events: "keeps_slot (st_session e) (st_session (fst (stream_events H sends evs e)))"
proof (induction evs arbitrary: e)
  case (Cons ev evs)
  then show ?case
    using keeps_stream_step [of e H sends ev]
    by (auto split: prod.split round_end.split intro: keeps_slot_trans)
qed simp

lemma keeps_loop_session: "keeps_slot s (fst (loop_session H sends ev s))"
  using keeps_stream_events [of "\<lparr>st_session = s, st_seq = 0, st_paused = False, st_sent = []\<rparr>" H sends "le_events ev"]
  by (auto simp: loop_session_def split: prod.split intro!: finish_session_session)

section \<open>The accounts of a slot\<close>

definition live_sum :: "(counter_shard \<Rightarrow> u64) \<Rightarrow> 'h worker_state \<Rightarrow> u64" where
  "live_sum f st = (\<Sum>c\<leftarrow>lm_shards (wd_live (snd st)). f c)"

lemma live_sum_snapshot:
  "live_sum cs_active st = cs_active (live_snapshot (wd_live (snd st)))"
  "live_sum cs_established st = cs_established (live_snapshot (wd_live (snd st)))"
  "live_sum cs_reconnects st = cs_reconnects (live_snapshot (wd_live (snd st)))"
proof -
  have "cs_active (fold add_shard ss x) = cs_active x + (\<Sum>c\<leftarrow>ss. cs_active c)"
    "cs_established (fold add_shard ss x) = cs_established x + (\<Sum>c\<leftarrow>ss. cs_established c)"
    "cs_reconnects (fold add_shard ss x) = cs_reconnects x + (\<Sum>c\<leftarrow>ss. cs_reconnects c)" for ss x
    by (induction ss arbitrary: x) (simp_all add: add_shard_def)
  then show "live_sum cs_active st = cs_active (live_snapshot (wd_live (snd st)))"
    "live_sum cs_established st = cs_established (live_snapshot (wd_live (snd st)))"
    "live_sum cs_reconnects st = cs_reconnects (live_snapshot (wd_live (snd st)))"
    by (simp_all add: live_sum_def live_snapshot_def shard_zero_def)
qed

text \<open>The open and the established connections, the reconnects no worker has counted, and the interruption.\<close>

definition account :: "'h worker_state \<Rightarrow> u64 \<times> u64 \<times> u64 \<times> bool" where
  "account st = (live_sum cs_active st, live_sum cs_established st,
     live_sum cs_reconnects st - w_reconnects (fst st), w_interrupted (fst st))"

lemma live_sum_counters:
  "live_ok st \<Longrightarrow> live_sum g (counters f st) = live_sum g st + (g (f (cur st)) - g (cur st))"
  by (simp add: live_sum_def live_ok_def counters_def update_shard_def Let_def cur_def sum_list_update_word)

lemma live_sum_frame [simp]:
  "live_sum g (own f st) = live_sum g st" "live_sum g (latency h st) = live_sum g st"
  "cur (own f st) = lm_shards (wd_live (snd st)) ! (w_shard (f (fst st)) mod length (lm_shards (wd_live (snd st))))"
  by (simp_all add: live_sum_def own_def latency_def Let_def cur_def)

lemma fst_ops [simp]:
  "fst (counters f st) = fst st" "fst (own g st) = g (fst st)" "fst (latency h st) = fst st"
  by (simp_all add: counters_def own_def latency_def Let_def)

lemma keeps_account:
  assumes "keeps st st'"
  shows "account st' = account st" "live_ok st' = live_ok st"
proof -
  define L where "L st = map (\<lambda>c. (cs_active c, cs_established c, cs_failed c, cs_reconnects c)) (lm_shards (wd_live (snd st)))"
    for st :: "'a worker_state"
  have "L st' = L st" "w_reconnects (fst st') = w_reconnects (fst st)" "w_interrupted (fst st') = w_interrupted (fst st)"
    using assms by (simp_all add: keeps_def conn_view_def L_def)
  moreover have "live_sum cs_active st = (\<Sum>(a, e, f, r)\<leftarrow>L st. a)" "live_sum cs_established st = (\<Sum>(a, e, f, r)\<leftarrow>L st. e)"
    "live_sum cs_reconnects st = (\<Sum>(a, e, f, r)\<leftarrow>L st. r)" for st :: "'a worker_state"
    by (simp_all add: live_sum_def L_def comp_def)
  ultimately show "account st' = account st" by (simp add: account_def)
  have "live_ok st \<longleftrightarrow> L st \<noteq> []" for st :: "'a worker_state" by (simp add: live_ok_def L_def)
  with \<open>L st' = L st\<close> show "live_ok st' = live_ok st" by simp
qed

lemma account_handshake:
  assumes "live_ok st" "account st = (a, e, r, i)"
  shows "account (w_record_handshake d st) = (a + 1, e + 1, r, i)"
    "account (w_record_reconnect d st) = (a + 1, e, r, i)"
    "account (record_connection_closed st) = (a - 1, e, r, i)"
    "account (record_connection_failed c st) = (a, e, r, i)"
proof -
  show "account (w_record_handshake d st) = (a + 1, e + 1, r, i)"
    "account (w_record_reconnect d st) = (a + 1, e, r, i)"
    "account (record_connection_closed st) = (a - 1, e, r, i)"
    using assms by (auto simp: account_def w_record_handshake_def w_record_reconnect_def w_record_handshake_latency_def
        record_connection_closed_def live_sum_counters)
  have "account (counters (\<lambda>c. c\<lparr>cs_failed := cs_failed c + 1\<rparr>) st') = account st'" if "live_ok st'" for st' :: "'a worker_state"
    using that by (simp add: account_def live_sum_counters)
  then show "account (record_connection_failed c st) = (a, e, r, i)"
    using assms by (simp add: record_connection_failed_def keeps_account [OF keeps_record_error] gap_error)
qed

lemma live_ok_connection_ops [simp]:
  "live_ok (w_record_handshake d st) = live_ok st" "live_ok (w_record_reconnect d st) = live_ok st"
  "live_ok (record_connection_closed st) = live_ok st" "live_ok (record_connection_failed c st) = live_ok st"
  by (simp_all add: w_record_handshake_def w_record_reconnect_def w_record_handshake_latency_def
      record_connection_closed_def record_connection_failed_def gap_error)

lemma errors_after [simp]:
  "w_errors (fst (record_connection_failed c st)) = count_error c (w_errors (fst st))"
  "w_errors (fst (w_record_handshake d st)) = w_errors (fst st)"
  "w_errors (fst (w_record_reconnect d st)) = w_errors (fst st)"
  "w_errors (fst (record_connection_closed st)) = w_errors (fst st)"
  by (simp_all add: record_connection_failed_def record_error_def Let_def w_record_handshake_def w_record_reconnect_def
      w_record_handshake_latency_def record_connection_closed_def)

definition unit_if :: "bool \<Rightarrow> u64" where
  "unit_if b = (if b then 1 else 0)"

text \<open>
  The slot against the state it started from: open connections and established ones are counted, its reconnects
  are counted on both sides, a slot that stopped connected once, failed or was interrupted, and one that was
  interrupted did neither.
\<close>

definition slot_accounted :: "'h worker_state \<Rightarrow> ('n, 'h) slot \<Rightarrow> bool" where
  "slot_accounted st0 sl \<longleftrightarrow>
     (case account st0 of (a, e, r, _) \<Rightarrow>
        (let st = s_state (sl_session sl)
         in live_ok st \<and>
            account st = (a + unit_if (sl_status sl = Session_open), e + unit_if (sl_connected_before sl), r, w_interrupted (fst st)) \<and>
            (w_interrupted (fst st) \<longrightarrow>
               sl_status sl = Stopped \<and> \<not> sl_connected_before sl \<and> w_errors (fst st) = Map.empty) \<and>
            (sl_status sl = Stopped \<longrightarrow> sl_connected_before sl \<or> w_errors (fst st) \<noteq> Map.empty \<or> w_interrupted (fst st)) \<and>
            (sl_status sl = Session_open \<longrightarrow> sl_connected_before sl)))"

lemma slot_accounted_new: "live_ok (s_state s) \<Longrightarrow> \<not> w_interrupted (fst (s_state s)) \<Longrightarrow> slot_accounted (s_state s) (slot_new s)"
  by (auto simp: slot_accounted_def slot_new_def unit_if_def Let_def account_def)

lemma slot_pause_fields [simp]:
  "s_state (sl_session (slot_pause slept sl)) = s_state (sl_session sl)"
  "sl_connected_before (slot_pause slept sl) = sl_connected_before sl"
  by (simp_all add: slot_pause_def next_delay_def cancel_def)

lemma slot_pause_status: "sl_status sl = Connecting \<Longrightarrow> sl_status (slot_pause slept sl) \<in> {Connecting, Stopped}"
  by (simp add: slot_pause_def next_delay_def)

text \<open>A pause after an error or after a session keeps the accounts.\<close>

lemma slot_accounted_pause:
  assumes "slot_accounted st0 sl" "sl_status sl = Connecting"
    "sl_connected_before sl \<or> w_errors (fst (s_state (sl_session sl))) \<noteq> Map.empty"
  shows "slot_accounted st0 (slot_pause slept sl)"
  using assms slot_pause_status [OF assms(2), of slept] by (auto simp: slot_accounted_def Let_def split: prod.splits)

locale session_loop =
  fixes drive :: "'e \<Rightarrow> ('n, 'h) session \<Rightarrow> ('n, 'h) session \<times> session_end option"
  assumes drive_keeps: "keeps_slot s (fst (drive ev s))"
begin

lemma turn_opens:
  assumes "slot_accounted st0 sl" "sl_status sl = Connecting"
    "worker_handshake (tn_connect t) (sl_connected_before sl) (sl_session sl) = (Hs_open, s)"
  shows "slot_accounted st0 (sl\<lparr>sl_session := s, sl_connected_before := True, sl_backoff := b, sl_status := Session_open\<rparr>)"
proof -
  let ?own = "record_with (own (\<lambda>w. w\<lparr>w_current_action := None\<rparr>)) (sl_session sl)"
  have k: "keeps (s_state (sl_session sl)) (s_state ?own)" by (auto simp: record_with_def intro!: keeps_own)
  from assms(3) obtain d where s: "s = record_with (if sl_connected_before sl then w_record_reconnect d else w_record_handshake d) ?own"
    by (auto simp: worker_handshake_def Let_def split: connect_answer.splits if_splits)
  show ?thesis
    using assms(1,2) keeps_account [OF k] account_handshake [of "s_state ?own"]
    by (auto simp: slot_accounted_def s record_with_def [of "w_record_reconnect d"] record_with_def [of "w_record_handshake d"]
        Let_def unit_if_def account_def split: prod.splits)
qed

lemma turn_does_not_open:
  assumes "slot_accounted st0 sl" "sl_status sl = Connecting"
    "worker_handshake (tn_connect t) (sl_connected_before sl) (sl_session sl) = (h, s)" "h \<noteq> Hs_open"
  shows "h = Hs_stop \<Longrightarrow> slot_accounted st0 (sl\<lparr>sl_session := s, sl_status := Stopped\<rparr>)"
    "h = Hs_failed \<Longrightarrow> slot_accounted st0 (slot_pause slept (sl\<lparr>sl_session := s\<rparr>))"
proof -
  let ?own = "record_with (own (\<lambda>w. w\<lparr>w_current_action := None\<rparr>)) (sl_session sl)"
  have k: "keeps (s_state (sl_session sl)) (s_state ?own)" by (auto simp: record_with_def intro!: keeps_own)
  have failed: "slot_accounted st0 (sl\<lparr>sl_session := record_with (record_connection_failed c) ?own\<rparr>) \<and>
    slot_accounted st0 (sl\<lparr>sl_session := record_with (record_connection_failed c) ?own, sl_status := Stopped\<rparr>)" for c
    using assms(1,2) keeps_account [OF k] account_handshake(4) [of "s_state ?own"]
    by (auto simp: slot_accounted_def record_with_def [of "record_connection_failed c"] Let_def unit_if_def account_def
        split: prod.splits)
  have cancelled: "slot_accounted st0 (sl\<lparr>sl_session := s', sl_status := Stopped\<rparr>)"
    if "w_interrupted (fst (s_state s')) = (\<not> sl_connected_before sl \<and> w_errors (fst (s_state ?own)) = Map.empty)"
      "w_errors (fst (s_state s')) = w_errors (fst (s_state ?own))" "w_reconnects (fst (s_state s')) = w_reconnects (fst (s_state ?own))"
      "snd (s_state s') = snd (s_state ?own)" for s'
    using that assms(1,2) keeps_account [OF k]
    by (auto simp: slot_accounted_def Let_def unit_if_def account_def live_sum_def live_ok_def split: prod.splits)
  have not_int: "\<not> w_interrupted (fst (s_state (sl_session sl)))"
    using assms(1,2) by (auto simp: slot_accounted_def Let_def split: prod.splits)
  show "slot_accounted st0 (sl\<lparr>sl_session := s, sl_status := Stopped\<rparr>)" if "h = Hs_stop"
  proof (cases "tn_connect t")
    case Connect_cancelled
    have "slot_accounted st0 (sl\<lparr>sl_session := cancel (if \<not> sl_connected_before sl \<and> w_errors (fst (s_state ?own)) = Map.empty
        then record_with (own (\<lambda>w. w\<lparr>w_interrupted := True\<rparr>)) ?own else ?own), sl_status := Stopped\<rparr>)"
      using not_int by (intro cancelled) (simp_all add: cancel_def record_with_def own_def)
    with assms(3) Connect_cancelled show ?thesis by (simp add: worker_handshake_def Let_def)
  qed (use assms(3) failed that in \<open>auto simp: worker_handshake_def Let_def\<close>)
  have "(sl_connected_before sl \<or> w_errors (fst (s_state (record_with (record_connection_failed c) ?own))) \<noteq> Map.empty)" for c
    by (simp add: record_with_def [of "record_connection_failed c"])
  then show "h = Hs_failed \<Longrightarrow> slot_accounted st0 (slot_pause slept (sl\<lparr>sl_session := s\<rparr>))"
    using assms(2,3) failed
    by (auto simp: worker_handshake_def Let_def split: connect_answer.splits intro!: slot_accounted_pause)
qed

lemma session_ends:
  assumes "slot_accounted st0 (sl\<lparr>sl_session := s, sl_connected_before := True, sl_backoff := b, sl_status := Session_open\<rparr>)"
    "keeps_slot s s'"
  shows "slot_accounted st0 (sl\<lparr>sl_session := s', sl_connected_before := True, sl_backoff := b, sl_status := Session_open\<rparr>)"
    "status \<noteq> Session_open \<Longrightarrow> slot_accounted st0 (sl\<lparr>sl_session := record_with record_connection_closed s',
       sl_connected_before := True, sl_backoff := b, sl_status := status\<rparr>)"
proof -
  have k: "keeps (s_state s) (s_state s')" using assms(2) by (simp add: keeps_slot_def)
  note a = keeps_account [OF k] account_handshake(3) [of "s_state s'"]
  from k have "w_interrupted (fst (s_state s')) = w_interrupted (fst (s_state s))" by (simp add: keeps_def conn_view_def)
  then show "slot_accounted st0 (sl\<lparr>sl_session := s', sl_connected_before := True, sl_backoff := b, sl_status := Session_open\<rparr>)"
    using assms(1) a by (auto simp: slot_accounted_def Let_def split: prod.splits)
  show "slot_accounted st0 (sl\<lparr>sl_session := record_with record_connection_closed s', sl_connected_before := True,
       sl_backoff := b, sl_status := status\<rparr>)" if "status \<noteq> Session_open"
    using that assms(1) a by (auto simp: slot_accounted_def Let_def record_with_def unit_if_def account_def split: prod.splits)
qed

lemma turn_accounted:
  assumes "slot_accounted st0 sl"
  shows "slot_accounted st0 (slot_turn drive t sl)"
proof (cases "sl_status sl = Connecting")
  case True
  obtain h s where h: "worker_handshake (tn_connect t) (sl_connected_before sl) (sl_session sl) = (h, s)"
    by (cases "worker_handshake (tn_connect t) (sl_connected_before sl) (sl_session sl)")
  show ?thesis
  proof (cases "h = Hs_open")
    case False
    with turn_does_not_open [OF assms True h False] True show ?thesis
      by (cases h) (simp_all add: slot_turn_def h)
  next
    case open_: True
    obtain s' r where d: "drive (tn_events t) s = (s', r)" by (cases "drive (tn_events t) s")
    have k: "keeps_slot s s'" using drive_keeps [of s "tn_events t"] d by simp
    note e = session_ends [OF turn_opens [OF assms True h [unfolded open_]] k]
    have same: "sl\<lparr>sl_session := x, sl_connected_before := True, sl_backoff := b, sl_status := Connecting\<rparr> =
        sl\<lparr>sl_session := x, sl_connected_before := True, sl_backoff := b\<rparr>" for x b
      using True by (cases sl) simp
    have c: "slot_accounted st0 (slot_pause (tn_slept t) (sl\<lparr>sl_session := record_with record_connection_closed s',
        sl_connected_before := True, sl_backoff := b\<rparr>))" for b
      using e(2) [of Connecting b] by (intro slot_accounted_pause) (simp_all add: True same)
    have order: "sl\<lparr>sl_connected_before := True, sl_backoff := b, sl_session := x\<rparr> =
        sl\<lparr>sl_session := x, sl_connected_before := True, sl_backoff := b\<rparr>" for x b
      by (cases sl) simp
    from e(1) e(2) [of Stopped] c True show ?thesis
      by (simp add: slot_turn_def h open_ d Let_def order split: option.split)
  qed
qed (use assms in \<open>simp add: slot_turn_def\<close>)

lemma run_accounted:
  assumes "live_ok (s_state s)" "\<not> w_interrupted (fst (s_state s))"
  shows "slot_accounted (s_state s) (worker_run drive request turns s)"
proof (cases request)
  case (Inl cat)
  have "live_ok (s_state (record_with (record_connection_failed cat) s))" using assms(1) by (simp add: record_with_def)
  with assms show ?thesis
    using account_handshake(4) [of "s_state s"]
    by (auto simp: worker_run_def Inl slot_accounted_def slot_new_def unit_if_def record_with_def Let_def account_def
        split: prod.splits)
next
  case (Inr u)
  have "slot_accounted (s_state s) (fold (slot_turn drive) turns sl)" if "slot_accounted (s_state s) sl" for sl
    using that by (induction turns arbitrary: sl) (simp_all add: turn_accounted)
  with slot_accounted_new [OF assms] show ?thesis by (simp add: worker_run_def Inr)
qed

end

interpretation echo: session_loop "echo_session sj H windows"
  by unfold_locales (rule keeps_echo_session)

interpretation stream: session_loop "loop_session H sends"
  by unfold_locales (rule keeps_loop_session)

text \<open>A worker in echo mode, for the witnesses.\<close>

definition sample_config :: "nat load_config" where
  "sample_config = \<lparr>lc_target_url = \<lparr>url_scheme = ''ws'', url_path = ''/'', url_query = []\<rparr>, lc_connections = 1, lc_ramp_rate = 0,
     lc_duration = from_secs 10, lc_stages = [], lc_arrivals = None, lc_max_requests = None, lc_rate_per_conn = 0,
     lc_payload = StaticText ''hi'', lc_headers = [], lc_header_templates = [], lc_data = None, lc_subprotocol = None,
     lc_source_ips = [], lc_compression = False, lc_mode = Echo, lc_connect_timeout = from_secs 10,
     lc_message_timeout = from_secs 5, lc_ping_every = 0, lc_graphql_ws = None, lc_socketio = None, lc_slo = slo_none,
     lc_no_progress = True, lc_no_reconnect = False, lc_reply_match = First, lc_expect = None, lc_capture = None,
     lc_output_format = Out_Text, lc_output_path = None, lc_tui = False, lc_stage_share = None, lc_chaos = None\<rparr>"

definition sample_session :: "(nat, unit) session" where
  "sample_session = session_new 0 0 sample_config (fst (worker_new 0 (live_new (Some 1))))
     \<lparr>wd_live = live_new (Some 1), wd_latency = \<lambda>_. with_shards 1, wd_series = store_new 0 1\<rparr>"

end
