(* ===== verification/Worker_Messages.thy ===== *)
theory Worker_Messages
  imports Worker_Slots
begin

text \<open>
  The messages of an echo session: what its rounds add to the worker's counters of messages sent, replies received and
  requests that failed, and the claims they make against a request limit.
\<close>

section \<open>Moves of the message counters\<close>

text \<open>\<open>k\<close> messages sent, \<open>r\<close> replies, \<open>x\<close> failed requests.\<close>

definition moves :: "nat \<Rightarrow> nat \<Rightarrow> nat \<Rightarrow> 'h worker_state \<Rightarrow> 'h worker_state \<Rightarrow> bool" where
  "moves k r x st st' \<longleftrightarrow>
     w_messages_sent (fst st') = w_messages_sent (fst st) + of_nat k \<and>
     w_messages_recv (fst st') = w_messages_recv (fst st) + of_nat r \<and>
     w_sent_message_errors (fst st') = w_sent_message_errors (fst st) + of_nat x \<and>
     lm_requests_claimed (wd_live (snd st')) = lm_requests_claimed (wd_live (snd st))"

named_theorems moves_intros

lemma moves_refl [simp, moves_intros]: "moves 0 0 0 st st"
  by (simp add: moves_def)

lemma moves_trans: "moves k r x a b \<Longrightarrow> moves k' r' x' b c \<Longrightarrow> moves (k + k') (r + r') (x + x') a c"
  by (simp add: moves_def)

lemma claimed_ops [simp]:
  "lm_requests_claimed (wd_live (snd (counters f st))) = lm_requests_claimed (wd_live (snd st))"
  "lm_requests_claimed (wd_live (snd (own g st))) = lm_requests_claimed (wd_live (snd st))"
  "lm_requests_claimed (wd_live (snd (latency h st))) = lm_requests_claimed (wd_live (snd st))"
  by (simp_all add: counters_def own_def latency_def update_shard_def Let_def)

lemma moves_samples [simp]:
  "moves k r x st (interval_sample H now m st') = moves k r x st st'" "moves k r x st (latency f st') = moves k r x st st'"
  by (auto simp: moves_def interval_sample_def split: option.split prod.split)

lemma moves_error [moves_intros]:
  "moves 0 0 (if scope = SentMessage then 1 else 0) st (record_error c scope st)"
  by (simp add: moves_def record_error_def Let_def)

lemma moves_sent [moves_intros]: "moves 1 0 0 st (record_message_sent n st)"
  by (simp add: moves_def record_message_sent_def)

lemma moves_rtt_sample: "moves 0 0 0 st (record_rtt_sample H now d st)"
  by (simp add: record_rtt_sample_def Let_def split: option.split)

lemma moves_recv [moves_intros]: "moves 0 1 0 st (record_message_recv H now n rtt st)"
proof -
  let ?st = "own (\<lambda>w. w\<lparr>w_messages_recv := w_messages_recv w + 1, w_bytes_recv := w_bytes_recv w + n\<rparr>) st"
  let ?r = "case rtt of None \<Rightarrow> ?st | Some d \<Rightarrow> record_rtt_sample H now d ?st"
  have "moves 0 1 0 st ?st" by (simp add: moves_def)
  moreover have "moves 0 0 0 ?st ?r" by (simp add: moves_rtt_sample split: option.split)
  ultimately have "moves 0 1 0 st ?r" using moves_trans [of 0 1 0 st ?st 0 0 0 ?r] by simp
  then show ?thesis by (simp add: record_message_recv_def Let_def moves_def)
qed

lemma moves_response [moves_intros]: "moves 0 0 0 st (record_response_time H now d st)"
  by (simp add: record_response_time_def Let_def split: option.split)

lemma moves_unsolicited [moves_intros]: "moves 0 0 0 st (record_unsolicited_frames n st)"
  by (simp add: record_unsolicited_frames_def moves_def)

lemma moves_chaos [moves_intros]: "moves 0 0 0 st (record_chaos f st)"
  by (simp add: record_chaos_def moves_def)

text \<open>The same between sessions, whose configuration stays.\<close>

definition smoves :: "nat \<Rightarrow> nat \<Rightarrow> nat \<Rightarrow> ('n, 'h) session \<Rightarrow> ('n, 'h) session \<Rightarrow> bool" where
  "smoves k r x s s' \<longleftrightarrow> moves k r x (s_state s) (s_state s')"

lemma smoves_refl [simp]: "smoves 0 0 0 s s"
  by (simp add: smoves_def)

lemma smoves_trans: "smoves k r x a b \<Longrightarrow> smoves k' r' x' b c \<Longrightarrow> smoves (k + k') (r + r') (x + x') a c"
  unfolding smoves_def by (rule moves_trans)

lemma smoves_then0: "smoves k r x a b \<Longrightarrow> smoves 0 0 0 b c \<Longrightarrow> smoves k r x a c"
  using smoves_trans [of k r x a b 0 0 0 c] by simp

lemma smoves_record: "moves k r x (s_state s) (f (s_state s)) \<Longrightarrow> smoves k r x s (record_with f s)"
  by (simp add: smoves_def record_with_def)

lemma smoves_ops:
  "smoves 1 0 0 s (record_with (record_message_sent n) s)" "smoves 0 0 0 s (record_with (record_unsolicited_frames n) s)"
  "smoves 0 0 1 s (record_with (record_error c SentMessage) s)" "smoves 0 0 0 s (record_with (record_error c Attempt) s)"
  unfolding smoves_def record_with_def
  using moves_sent [of "s_state s" n] moves_unsolicited [of "s_state s" n] moves_error [of SentMessage "s_state s" c]
    moves_error [of Attempt "s_state s" c]
  by simp_all

lemma smoves_fields [simp]:
  "smoves k r x s (cancel s') = smoves k r x s s'" "smoves k r x s (s'\<lparr>s_chaos := c\<rparr>) = smoves k r x s s'"
  "smoves k r x s (s'\<lparr>s_vars := v\<rparr>) = smoves k r x s s'" "smoves k r x (s\<lparr>s_chaos := c\<rparr>) s' = smoves k r x s s'"
  by (simp_all add: smoves_def cancel_def)

lemma smoves_count_chaos [simp]: "smoves k r x s (count_chaos f s') = smoves k r x s s'"
  by (simp add: count_chaos_def record_with_def record_chaos_def smoves_def moves_def)

lemma smoves_chaos_plan: "chaos_plan s = Some (p, s') \<Longrightarrow> smoves 0 0 0 s s'"
  by (auto simp: chaos_plan_def split: option.splits)

lemma smoves_chaos_corrupt: "chaos_corrupt m c s = (r, s') \<Longrightarrow> smoves 0 0 0 s s'"
  by (auto simp: chaos_corrupt_def Let_def split: option.splits if_splits prod.splits)

lemma smoves_chaos_close_now: "chaos_close_now s = (r, s') \<Longrightarrow> smoves 0 0 0 s s'"
  by (auto simp: chaos_close_now_def split: option.splits prod.splits)

lemma smoves_chaos_read_pause: "chaos_read_pause s = Some (r, s') \<Longrightarrow> smoves 0 0 0 s s'"
  by (auto simp: chaos_read_pause_def Let_def split: option.splits if_splits)

lemma smoves_chaos_close: "chaos_close g s = (out, s') \<Longrightarrow> smoves 0 0 0 s s'"
  by (auto simp: chaos_close_def)

lemma smoves_check_reply: "\<exists>x\<le>1. smoves 0 0 x s (check_reply sj m ex cs s)"
proof -
  have "smoves 0 0 1 s (record_with (record_error CheckFailed SentMessage) (s\<lparr>s_vars := v\<rparr>))" for v
    using moves_error [of SentMessage "s_state s" CheckFailed] by (simp add: smoves_def record_with_def)
  then show ?thesis
    by (auto simp: check_reply_def Let_def split: prod.split intro: exI [of _ "0::nat"] exI [of _ "1::nat"])
qed

section \<open>The rounds of an echo session\<close>

lemma smoves_think: "smoves 0 0 0 (es_session e) (es_session (fst (think i e)))"
  by (simp add: think_def)

lemma smoves_finish_round: "smoves 0 0 0 (es_session e) (es_session (fst (finish_round i e)))"
proof (cases "chaos_read_pause (es_session e)")
  case None
  then show ?thesis by (simp add: finish_round_def Let_def)
next
  case (Some r)
  obtain pause s where r: "r = (pause, s)" by (cases r)
  have s: "smoves 0 0 0 (es_session e) s" using smoves_chaos_read_pause Some r by metis
  have t: "smoves 0 0 0 (es_session e) (es_session (fst (think i e')))" if "es_session e' = s" for e'
    using smoves_then0 [OF s] smoves_think [of e' i] that by metis
  with Some r s show ?thesis by (cases pause) (simp_all add: finish_round_def Let_def)
qed

lemma smoves_reply_recorded: "\<exists>x\<le>1. smoves 0 1 x s (reply_recorded sj H windows i due corrupted reply s)"
proof -
  define s1 where "s1 = record_with (record_message_recv H (ei_received_at i) (word_of_nat (message_byte_len reply))
    (Some (ei_received_at i - ei_sent_at i))) s"
  have s1: "smoves 0 1 0 s s1" unfolding s1_def by (intro smoves_record moves_intros)
  define s2 where "s2 = (if corrupted then s1 else check_reply sj reply None [] s1)"
  have "\<exists>x\<le>1. smoves 0 0 x s1 s2" using smoves_check_reply [of s1 sj reply None "[]"] by (auto simp: s2_def)
  then obtain x where x: "x \<le> 1" "smoves 0 0 x s1 s2" by blast
  have "smoves 0 1 x s s2" using smoves_trans [OF s1 x(2)] by simp
  moreover have "smoves 0 0 0 s2 (record_with (record_response_time H now d) s2)" for now d
    by (intro smoves_record moves_intros)
  moreover have "reply_recorded sj H windows i due corrupted reply s =
      (case due of
         None \<Rightarrow> s2
       | Some d \<Rightarrow> (if records_response s2
                    then record_with (record_response_time H (ei_received_at i)
                           (response_time windows d (ei_sent_at i) (ei_received_at i - ei_sent_at i))) s2
                    else s2))"
    unfolding reply_recorded_def Let_def s2_def s1_def by (rule refl)
  ultimately have "smoves 0 1 x s (reply_recorded sj H windows i due corrupted reply s)"
    using smoves_then0 [of 0 1 x s s2] by (simp split: option.split)
  with x(1) show ?thesis by blast
qed

lemma smoves_echo_reply:
  "\<exists>x\<le>1. smoves 0 1 x (es_session e) (es_session (fst (echo_reply sj H windows i due corrupted reply e)))"
proof -
  obtain x where x: "x \<le> 1" "smoves 0 1 x (es_session e) (reply_recorded sj H windows i due corrupted reply (es_session e))"
    using smoves_reply_recorded by blast
  obtain g s where c: "chaos_close_now (reply_recorded sj H windows i due corrupted reply (es_session e)) = (g, s)"
    by (cases "chaos_close_now (reply_recorded sj H windows i due corrupted reply (es_session e))")
  have s: "smoves 0 1 x (es_session e) s" using smoves_then0 [OF x(2) smoves_chaos_close_now [OF c]] .
  have "smoves 0 1 x (es_session e) (es_session (fst (finish_round i (e\<lparr>es_session := s\<rparr>))))"
    using smoves_then0 [OF s] smoves_finish_round [of "e\<lparr>es_session := s\<rparr>" i] by simp
  with x(1) s c show ?thesis
    by (cases g) (auto simp: echo_reply_alt chaos_close_def)
qed

text \<open>A round sends at most one message; only a message that was sent is answered or fails, and a round that goes on
  got the reply to what it sent.\<close>

definition round_moves :: "round_end \<Rightarrow> ('n, 'h) session \<Rightarrow> ('n, 'h) session \<Rightarrow> bool" where
  "round_moves fin s s' \<longleftrightarrow> (\<exists>k r x. smoves k r x s s' \<and> k \<le> 1 \<and> r \<le> k \<and> x \<le> k \<and> (fin = Next \<longrightarrow> r = k))"

lemma round_moves_then: "smoves 0 0 0 a b \<Longrightarrow> round_moves fin b c \<Longrightarrow> round_moves fin a c"
  unfolding round_moves_def using smoves_trans [of 0 0 0 a b] by fastforce

lemma round_moves_cancel [simp]: "round_moves fin a (cancel b) = round_moves fin a b"
  by (simp add: round_moves_def)

lemma round_moves_still: "smoves 0 0 0 a b \<Longrightarrow> round_moves fin a b"
  unfolding round_moves_def by (intro exI [of _ 0]) simp

lemma round_moves_sent: "smoves 1 0 x a b \<Longrightarrow> x \<le> 1 \<Longrightarrow> fin \<noteq> Next \<Longrightarrow> round_moves fin a b"
  unfolding round_moves_def by (intro exI [of _ 1] exI [of _ 0] exI [of _ x]) simp

lemma snd_break [simp]: "snd (break_loop e) = Break" "snd (break_cancelled e) = Break"
  by (simp_all add: break_loop_def break_cancelled_def)

lemma round_moves_echo_send:
  "round_moves (snd (echo_send sj H windows i due c e)) (es_session e) (es_session (fst (echo_send sj H windows i due c e)))"
proof -
  obtain msg corrupted s0 where cc: "chaos_corrupt (render_message (ei_now_ms i) (lc_payload (s_config (es_session e))) (es_seq e) (es_session e))
      c (es_session e) = ((msg, corrupted), s0)"
    by (metis surj_pair)
  have s0: "smoves 0 0 0 (es_session e) s0" using smoves_chaos_corrupt [OF cc] .
  define s2 where "s2 n = record_with (record_unsolicited_frames (word_of_nat n))
    (record_with (record_message_sent (word_of_nat (message_byte_len msg))) s0)" for n
  have "smoves 1 0 0 (es_session e) (record_with (record_message_sent b) s0)" for b
    using smoves_trans [OF s0 smoves_ops(1)] by simp
  then have s2: "smoves 1 0 0 (es_session e) (s2 n)" for n
    unfolding s2_def by (rule smoves_then0) (rule smoves_ops)
  have err: "smoves 1 0 1 (es_session e) (record_with (record_error cat SentMessage) (s2 n))" for cat n
    using smoves_trans [OF s2 smoves_ops(3)] by simp
  have att: "smoves 0 0 0 (es_session e) (record_with (record_error cat Attempt) s0)" for cat
    using smoves_trans [OF s0 smoves_ops(4)] by simp
  have rep: "round_moves (snd (echo_reply sj H windows i due corrupted reply e')) (es_session e)
      (es_session (fst (echo_reply sj H windows i due corrupted reply e')))" if e': "es_session e' = s2 n" for reply e' n
  proof -
    obtain x where "x \<le> 1" "smoves 0 1 x (s2 n) (es_session (fst (echo_reply sj H windows i due corrupted reply e')))"
      using smoves_echo_reply [of e'] e' by metis
    then have "smoves 1 1 x (es_session e) (es_session (fst (echo_reply sj H windows i due corrupted reply e')))"
      using smoves_trans [OF s2, of 0 1 x] by simp
    then show ?thesis unfolding round_moves_def using \<open>x \<le> 1\<close> by (intro exI [of _ 1] exI [of _ x]) simp
  qed
  note moved = round_moves_still [OF s0] round_moves_still [OF att] round_moves_sent [OF s2] round_moves_sent [OF err] rep
  show ?thesis
    using moved
    by (simp add: echo_send_def cc Let_def s2_def [symmetric] round_moves_still s0 split: send_answer.split option.split sum.split prod.split)
qed

text \<open>One claim at the most, and no message without a granted one.\<close>

definition claims_of :: "('n, 'h) session \<Rightarrow> u64" where
  "claims_of s = lm_requests_claimed (wd_live (snd (s_state s)))"

definition may_send :: "('n, 'h) session \<Rightarrow> bool" where
  "may_send s = (case lc_max_requests (s_config s) of None \<Rightarrow> True | Some limit \<Rightarrow> claims_of s < word_of_nat limit)"

text \<open>A round of the message counters that also counts its claim.\<close>

definition round_counts :: "round_end \<Rightarrow> ('n, 'h) session \<Rightarrow> ('n, 'h) session \<Rightarrow> bool" where
  "round_counts fin s s' \<longleftrightarrow>
     (\<exists>k r x. w_messages_sent (fst (s_state s')) = w_messages_sent (fst (s_state s)) + of_nat k \<and>
        w_messages_recv (fst (s_state s')) = w_messages_recv (fst (s_state s)) + of_nat r \<and>
        w_sent_message_errors (fst (s_state s')) = w_sent_message_errors (fst (s_state s)) + of_nat x \<and>
        k \<le> 1 \<and> r \<le> k \<and> x \<le> k \<and> (fin = Next \<longrightarrow> r = k) \<and> (k = 1 \<longrightarrow> may_send s) \<and>
        (lc_max_requests (s_config s) \<noteq> None \<and> (k = 1 \<or> fin = Next) \<longrightarrow> claims_of s' = claims_of s + 1))"

lemma claim_send_counts:
  assumes "claim_send s = (ok, s')"
  shows "ok = may_send s" "w_messages_sent (fst (s_state s')) = w_messages_sent (fst (s_state s))"
    "w_messages_recv (fst (s_state s')) = w_messages_recv (fst (s_state s))"
    "w_sent_message_errors (fst (s_state s')) = w_sent_message_errors (fst (s_state s))"
    "lc_max_requests (s_config s) \<noteq> None \<longrightarrow> claims_of s' = claims_of s + 1"
  using assms
  by (auto simp: claim_send_def claim_request_def record_with_def may_send_def claims_of_def split: option.splits)

lemma round_counts_still:
  assumes "claim_send s = (ok, a)" "smoves 0 0 0 a s'" "fin \<noteq> Next \<or> ok"
  shows "round_counts fin s s'"
  using claim_send_counts [OF assms(1)] assms(2)
  by (auto simp: round_counts_def smoves_def moves_def claims_of_def intro!: exI [of _ "0::nat"])

lemma round_counts_round:
  assumes "claim_send s = (True, a)" "round_moves fin a s'"
  shows "round_counts fin s s'"
proof -
  from assms(2) obtain k r x where m: "smoves k r x a s'" "k \<le> 1" "r \<le> k" "x \<le> k" "fin = Next \<longrightarrow> r = k"
    unfolding round_moves_def by blast
  with claim_send_counts [OF assms(1)] show ?thesis
    unfolding round_counts_def
    by - (rule exI [of _ k], rule exI [of _ r], rule exI [of _ x], auto simp: smoves_def moves_def claims_of_def)
qed

lemma round_counts_same: "smoves 0 0 0 s s' \<Longrightarrow> fin \<noteq> Next \<Longrightarrow> round_counts fin s s'"
  by (auto simp: round_counts_def smoves_def moves_def intro!: exI [of _ "0::nat"])

lemma round_counts_echo_round:
  "round_counts (snd (echo_round sj H windows i e)) (es_session e) (es_session (fst (echo_round sj H windows i e)))"
proof -
  obtain ok s where c: "claim_send (es_session e) = (ok, s)" by (cases "claim_send (es_session e)")
  have b: "round_counts Break (es_session e) (cancel (es_session e))" by (rule round_counts_same) simp_all
  have no: "round_counts Break (es_session e) (cancel s)" if "\<not> ok"
    using c by (rule round_counts_still) simp_all
  show ?thesis
  proof (cases "chaos_plan s")
    case None
    have "round_counts Panics (es_session e) s" using c by (rule round_counts_still) simp_all
    with None c b no show ?thesis by (cases ok) (auto simp: echo_round_def Let_def)
  next
    case (Some r)
    obtain plan s' where r: "r = (plan, s')" by (cases r)
    have p: "smoves 0 0 0 s s'" using smoves_chaos_plan Some r by blast
    have still: "round_counts fin (es_session e) s''" if "ok" "smoves 0 0 0 s' s''" for fin s''
      using c smoves_then0 [OF p that(2)] disjI2 [OF that(1)] by (rule round_counts_still)
    have send: "round_counts (snd (echo_send sj H windows i due cr e')) (es_session e) (es_session (fst (echo_send sj H windows i due cr e')))"
      if "ok" "smoves 0 0 0 s' (es_session e')" for e' due cr
      using round_moves_then [OF smoves_then0 [OF p that(2)] round_moves_echo_send] c that(1)
      by (auto intro: round_counts_round)
    show ?thesis
      using c b no Some r still send
      by (cases ok) (auto simp: echo_round_def Let_def chaos_dropped_def chaos_delayed_def)
  qed
qed

text \<open>What a whole session did, over the rounds it was given.\<close>

definition session_counts :: "nat \<Rightarrow> ('n, 'h) session \<Rightarrow> ('n, 'h) session \<Rightarrow> bool" where
  "session_counts n s s' \<longleftrightarrow>
     (\<exists>k r x. w_messages_sent (fst (s_state s')) = w_messages_sent (fst (s_state s)) + of_nat k \<and>
        w_messages_recv (fst (s_state s')) = w_messages_recv (fst (s_state s)) + of_nat r \<and>
        w_sent_message_errors (fst (s_state s')) = w_sent_message_errors (fst (s_state s)) + of_nat x \<and>
        k \<le> n \<and> r \<le> k \<and> k \<le> r + 1 \<and> x \<le> k \<and>
        (case lc_max_requests (s_config s) of
           None \<Rightarrow> True
         | Some limit \<Rightarrow> unat (claims_of s) + n < 2 ^ 64 \<longrightarrow> k \<le> unat (word_of_nat limit :: u64) - unat (claims_of s)))"

lemma unat_claim: "unat c + Suc n < 2 ^ 64 \<Longrightarrow> unat (c + 1 :: u64) = unat c + 1"
  by (subst unat_add_lem [THEN iffD1]) simp_all

lemma session_counts_end: "round_counts fin s s' \<Longrightarrow> session_counts (Suc n) s s'"
proof -
  assume "round_counts fin s s'"
  then obtain k r x where c: "w_messages_sent (fst (s_state s')) = w_messages_sent (fst (s_state s)) + of_nat k"
    "w_messages_recv (fst (s_state s')) = w_messages_recv (fst (s_state s)) + of_nat r"
    "w_sent_message_errors (fst (s_state s')) = w_sent_message_errors (fst (s_state s)) + of_nat x"
    "k \<le> 1" "r \<le> k" "x \<le> k" "k = 1 \<longrightarrow> may_send s"
    unfolding round_counts_def by blast
  then have "k \<le> unat (word_of_nat limit :: u64) - unat (claims_of s)" if "lc_max_requests (s_config s) = Some limit" for limit
    using that by (cases "k = 0") (auto simp: may_send_def word_less_nat_alt)
  with c show ?thesis
    unfolding session_counts_def
    by - (rule exI [of _ k], rule exI [of _ r], rule exI [of _ x], auto split: option.split)
qed

lemma session_counts_step:
  assumes "round_counts Next s a" "session_counts n a s'" "s_config a = s_config s"
  shows "session_counts (Suc n) s s'"
proof -
  from assms(1) obtain k x where c: "w_messages_sent (fst (s_state a)) = w_messages_sent (fst (s_state s)) + of_nat k"
    "w_messages_recv (fst (s_state a)) = w_messages_recv (fst (s_state s)) + of_nat k"
    "w_sent_message_errors (fst (s_state a)) = w_sent_message_errors (fst (s_state s)) + of_nat x"
    "k \<le> 1" "x \<le> k" "k = 1 \<longrightarrow> may_send s" "lc_max_requests (s_config s) \<noteq> None \<longrightarrow> claims_of a = claims_of s + 1"
    unfolding round_counts_def by blast
  from assms(2) obtain k' r' x' where d: "w_messages_sent (fst (s_state s')) = w_messages_sent (fst (s_state a)) + of_nat k'"
    "w_messages_recv (fst (s_state s')) = w_messages_recv (fst (s_state a)) + of_nat r'"
    "w_sent_message_errors (fst (s_state s')) = w_sent_message_errors (fst (s_state a)) + of_nat x'"
    "k' \<le> n" "r' \<le> k'" "k' \<le> r' + 1" "x' \<le> k'" and
    l: "case lc_max_requests (s_config a) of None \<Rightarrow> True
      | Some limit \<Rightarrow> unat (claims_of a) + n < 2 ^ 64 \<longrightarrow> k' \<le> unat (word_of_nat limit :: u64) - unat (claims_of a)"
    unfolding session_counts_def by blast
  have "k + k' \<le> unat (word_of_nat limit :: u64) - unat (claims_of s)"
    if lim: "lc_max_requests (s_config s) = Some limit" "unat (claims_of s) + Suc n < 2 ^ 64" for limit
  proof -
    have u: "unat (claims_of a) = unat (claims_of s) + 1" using c(7) unat_claim lim by simp
    then have "k' \<le> unat (word_of_nat limit :: u64) - (unat (claims_of s) + 1)" using l assms(3) lim by simp
    with c(4,6) lim(1) show ?thesis by (auto simp: may_send_def word_less_nat_alt)
  qed
  with c d show ?thesis
    unfolding session_counts_def
    by - (rule exI [of _ "k + k'"], rule exI [of _ "k + r'"], rule exI [of _ "x + x'"], auto split: option.split)
qed

lemma session_counts_none: "session_counts n s s"
  unfolding session_counts_def by (intro exI [of _ 0]) (simp split: option.split)

lemma session_counts_rounds:
  "session_counts (length is) (es_session e) (es_session (fst (echo_rounds sj H windows is e)))"
proof (induction "is" arbitrary: e)
  case Nil
  show ?case by (simp add: session_counts_none)
next
  case (Cons i "is")
  obtain e' fin where r: "echo_round sj H windows i e = (e', fin)" by (cases "echo_round sj H windows i e")
  note rc = round_counts_echo_round [of sj H windows i e, unfolded r, simplified]
  have "s_config (es_session e') = s_config (es_session e)"
    using keeps_echo_round [of e sj H windows i] by (simp add: r keeps_slot_def)
  then show ?case
    using rc session_counts_step [OF _ Cons.IH [of e']] session_counts_end
    by (cases fin) (auto simp: r)
qed

text \<open>C21: an echo session accounts for every message. Each reply answers a message that was sent, at most the last message of
  a session stays without one (the session then ends), no more requests are counted as failed than were sent, and under a
  request limit a session sends no more than the run has left.\<close>

theorem echo_messages_accounted:
  assumes "echo_session sj H windows ev s = (s', r)"
  shows "\<exists>sent replies lost. w_messages_sent (fst (s_state s')) = w_messages_sent (fst (s_state s)) + of_nat sent \<and>
    w_messages_recv (fst (s_state s')) = w_messages_recv (fst (s_state s)) + of_nat replies \<and>
    w_sent_message_errors (fst (s_state s')) = w_sent_message_errors (fst (s_state s)) + of_nat lost \<and>
    sent \<le> length (ee_rounds ev) \<and> replies \<le> sent \<and> sent \<le> replies + 1 \<and> lost \<le> sent \<and>
    (\<forall>limit. lc_max_requests (s_config s) = Some limit \<and> limit < 2 ^ 64 \<and>
       unat (lm_requests_claimed (wd_live (snd (s_state s)))) + length (ee_rounds ev) < 2 ^ 64 \<longrightarrow>
       sent \<le> limit - unat (lm_requests_claimed (wd_live (snd (s_state s)))))"
proof -
  have "session_counts (length (ee_rounds ev)) s s'"
  proof (cases "echo_start (ee_start ev) s")
    case None
    with assms show ?thesis by (simp add: echo_session_def session_counts_none)
  next
    case (Some e)
    obtain e' fin where e': "echo_rounds sj H windows (ee_rounds ev) e = (e', fin)"
      by (cases "echo_rounds sj H windows (ee_rounds ev) e")
    have "s_state s' = s_state (es_session e')"
      using assms Some e' by (auto simp: echo_session_def finish_session_def cancel_def Let_def split: if_splits)
    moreover have "w_messages_sent (fst (s_state (es_session e))) = w_messages_sent (fst (s_state s))"
      "w_messages_recv (fst (s_state (es_session e))) = w_messages_recv (fst (s_state s))"
      "w_sent_message_errors (fst (s_state (es_session e))) = w_sent_message_errors (fst (s_state s))"
      "claims_of (es_session e) = claims_of s" "s_config (es_session e) = s_config s"
      using Some by (auto simp: echo_start_def record_with_def own_def claims_of_def)
    moreover have "session_counts (length (ee_rounds ev)) (es_session e) (es_session e')"
      using session_counts_rounds [of "ee_rounds ev" e sj H windows] by (simp add: e')
    ultimately show ?thesis by (simp add: session_counts_def cong: option.case_cong)
  qed
  moreover have "unat (word_of_nat limit :: u64) = limit" if "limit < 2 ^ 64" for limit
    using that by (simp add: unsigned_of_nat take_bit_nat_eq_self)
  ultimately show ?thesis
    unfolding session_counts_def claims_of_def by (elim exE) (intro exI conjI; fastforce split: option.splits)
qed

text \<open>One round that is answered.\<close>

definition answered_round :: "message \<Rightarrow> echo_inputs" where
  "answered_round reply = \<lparr>ei_cancelled = False, ei_pings = 0, ei_slot = True, ei_delay_done = True, ei_now_ms = 0, ei_sent_at = 5,
     ei_send = Send_ok, ei_items = [Item reply], ei_wait_cancelled = False, ei_received_at = 9, ei_pause_done = True,
     ei_think_done = True, ei_now = 9\<rparr>"

theorem echo_messages_accounted_witness:
  "\<exists>s' r. echo_session numbered_json \<lparr>ih_new = None, ih_record = \<lambda>_ h. h\<rparr> False
     \<lparr>ee_start = 0, ee_rounds = [answered_round (Msg_Text ''ho'')], ee_late = False\<rparr> sample_session = (s', r) \<and>
     (\<exists>sent replies lost. w_messages_sent (fst (s_state s')) = of_nat sent \<and> w_messages_recv (fst (s_state s')) = of_nat replies \<and>
        w_sent_message_errors (fst (s_state s')) = of_nat lost \<and> replies \<le> sent \<and> sent \<le> replies + 1 \<and> lost \<le> sent \<and> sent \<le> 1)"
proof -
  obtain s' r where e: "echo_session numbered_json \<lparr>ih_new = None, ih_record = \<lambda>_ h. h\<rparr> False
     \<lparr>ee_start = 0, ee_rounds = [answered_round (Msg_Text ''ho'')], ee_late = False\<rparr> sample_session = (s', r)"
    by (metis surj_pair)
  have "w_messages_sent (fst (s_state sample_session)) = 0" "w_messages_recv (fst (s_state sample_session)) = 0"
    "w_sent_message_errors (fst (s_state sample_session)) = 0"
    by (simp_all add: sample_session_def session_new_def sample_config_def worker_new_def assign_shard_def)
  with echo_messages_accounted [OF e] e show ?thesis by auto
qed

end
