(* ===== verification/Capture.thy ===== *)
theory Capture
  imports Replay Run_Totals
begin

text \<open>
  \<open>src/capture.rs\<close>: what \<open>--capture\<close> writes. Records and their lines, the writer thread
  (\<open>write_records\<close>), an agent's forwarding thread (\<open>forward_records\<close>) and the coordinator's writer
  (\<open>start_merged\<close>). A thread is a function of what its queue gives it and of the answers of the file or the
  control channel, both inputs here. Serialising a line is \<open>serde_json\<close>'s work (the parameter \<open>to_line\<close>).
\<close>

section \<open>Records\<close>

datatype cap_dir = Dir_Sent | Dir_Recv

fun dir_str :: "cap_dir \<Rightarrow> string" where
  "dir_str Dir_Sent = ''sent''"
| "dir_str Dir_Recv = ''recv''"

datatype cap_event =
    Ev_Open
  | Ev_Text string
  | Ev_Binary string
  | Ev_Close "(nat \<times> string) option"

record cap_record =
  cr_t_us :: nat
  cr_worker :: nat
  cr_dir :: cap_dir
  cr_event :: cap_event

text \<open>\<open>CaptureStream::observe\<close>: the event a frame is recorded as; pings and pongs are not recorded.\<close>

fun observed_event :: "message \<Rightarrow> cap_event option" where
  "observed_event (Msg_Text s) = Some (Ev_Text s)"
| "observed_event (Msg_Binary b) = Some (Ev_Binary b)"
| "observed_event (Msg_Close f) = Some (Ev_Close f)"
| "observed_event (Msg_Ping p) = None"
| "observed_event (Msg_Pong p) = None"

definition FORMAT_VERSION :: nat where "FORMAT_VERSION = 1"
definition FORWARD_BATCH :: nat where "FORWARD_BATCH = 1024"
definition QUEUE_CAPACITY :: nat where "QUEUE_CAPACITY = 64 * 1024"

definition effective_limit :: "nat \<Rightarrow> nat" where
  "effective_limit limit = (if limit = 0 then u64_max else limit)"

section \<open>Lines\<close>

record cap_line =
  ln_t_us :: nat
  ln_worker :: nat
  ln_dir :: string
  ln_kind :: string
  ln_len :: nat
  ln_code :: "nat option"
  ln_data :: "string option"

definition line_new :: "cap_record \<Rightarrow> cap_line" where
  "line_new r =
     (let (kind, len, code, data) = (case cr_event r of
          Ev_Open \<Rightarrow> (''open'', 0, None, None)
        | Ev_Text s \<Rightarrow> (''text'', length s, None, Some s)
        | Ev_Binary b \<Rightarrow> (''binary'', length b, None, Some (encode (to_bytes b)))
        | Ev_Close None \<Rightarrow> (''close'', 0, None, None)
        | Ev_Close (Some (code, reason)) \<Rightarrow> (''close'', 2 + length reason, Some code, Some reason))
      in \<lparr>ln_t_us = cr_t_us r, ln_worker = cr_worker r, ln_dir = dir_str (cr_dir r), ln_kind = kind,
          ln_len = len, ln_code = code, ln_data = data\<rparr>)"

section \<open>The writer thread\<close>

record writer_outcome =
  wo_written :: nat
  wo_lost :: nat
  wo_error :: bool

datatype cap_command = Cmd_Record cap_record | Cmd_Finish

text \<open>What \<open>try_recv\<close> gives the writer.\<close>

datatype cap_poll = Poll_Command cap_command | Poll_Empty | Poll_Disconnected

text \<open>\<open>write_line\<close>: the line and a line break, when the file takes them.\<close>

definition write_line :: "('l \<Rightarrow> string) \<Rightarrow> 'l \<Rightarrow> bool \<Rightarrow> string \<Rightarrow> (string \<times> bool)" where
  "write_line to_text l ok out = (if ok then (out @ to_text l @ [newline], True) else (out, False))"

definition write_record ::
    "(cap_line \<Rightarrow> string) \<Rightarrow> cap_record \<Rightarrow> bool \<Rightarrow> writer_outcome \<times> string \<Rightarrow> writer_outcome \<times> string" where
  "write_record to_line r ok st =
     (case st of (o1, out) \<Rightarrow>
        if wo_error o1 then (o1\<lparr>wo_lost := wo_lost o1 + 1\<rparr>, out)
        else (case write_line to_line (line_new r) ok out of
            (out, True) \<Rightarrow> (o1\<lparr>wo_written := wo_written o1 + 1\<rparr>, out)
          | (out, False) \<Rightarrow> (o1\<lparr>wo_lost := wo_lost o1 + 1, wo_error := True\<rparr>, out)))"

text \<open>The loop over what the queue gives; each poll carries the answer the file will give if a line is
  written. \<open>flush_ok\<close> is the answer of the final \<open>flush\<close>.\<close>

fun write_loop ::
    "(cap_line \<Rightarrow> string) \<Rightarrow> (cap_poll \<times> bool) list \<Rightarrow> writer_outcome \<times> string \<Rightarrow> writer_outcome \<times> string" where
  "write_loop to_line [] st = st"
| "write_loop to_line ((Poll_Command (Cmd_Record r), ok) # ps) st = write_loop to_line ps (write_record to_line r ok st)"
| "write_loop to_line ((Poll_Command Cmd_Finish, _) # ps) st = st"
| "write_loop to_line ((Poll_Disconnected, _) # ps) st = st"
| "write_loop to_line ((Poll_Empty, _) # ps) st = write_loop to_line ps st"

definition write_records ::
    "(cap_line \<Rightarrow> string) \<Rightarrow> ('n json \<Rightarrow> string) \<Rightarrow> 'n json \<Rightarrow> bool \<Rightarrow> (cap_poll \<times> bool) list \<Rightarrow> bool
     \<Rightarrow> writer_outcome \<times> string" where
  "write_records to_line to_text header header_ok polls flush_ok =
     (let (out, ok) = write_line to_text header header_ok [];
          (o1, out) = write_loop to_line polls (\<lparr>wo_written = 0, wo_lost = 0, wo_error = \<not> ok\<rparr>, out)
      in (if wo_error o1 then o1 else o1\<lparr>wo_error := \<not> flush_ok\<rparr>, out))"

text \<open>\<open>RunningCapture::finish\<close>, with what joining the writer thread gave: \<open>None\<close> when it panicked.\<close>

definition capture_finish :: "string \<Rightarrow> nat \<Rightarrow> nat \<Rightarrow> writer_outcome option \<Rightarrow> capture_summary" where
  "capture_finish path limit dropped joined =
     (let o1 = (case joined of Some o1 \<Rightarrow> o1 | None \<Rightarrow> \<lparr>wo_written = 0, wo_lost = 0, wo_error = True\<rparr>)
      in \<lparr>cap_path = path, cap_written = wo_written o1, cap_dropped = dropped + wo_lost o1, cap_limit = limit\<rparr>)"

section \<open>Forwarding to a coordinator\<close>

text \<open>A \<open>WireRecord\<close> has the fields of a line.\<close>

definition wire_record :: "cap_record \<Rightarrow> cap_line" where
  "wire_record r = line_new r"

record forward_state =
  fw_lost :: nat
  fw_batch :: "cap_line list"
  fw_sent :: "cap_line list list"

definition forward_send :: "bool \<Rightarrow> forward_state \<Rightarrow> forward_state" where
  "forward_send ok st =
     (if fw_batch st = [] then st
      else if ok then st\<lparr>fw_sent := fw_sent st @ [fw_batch st], fw_batch := []\<rparr>
      else st\<lparr>fw_lost := fw_lost st + length (fw_batch st), fw_batch := []\<rparr>)"

fun forward_loop :: "(cap_poll \<times> bool) list \<Rightarrow> forward_state \<Rightarrow> forward_state" where
  "forward_loop [] st = st"
| "forward_loop ((Poll_Command (Cmd_Record r), ok) # ps) st =
     (let st = st\<lparr>fw_batch := fw_batch st @ [wire_record r]\<rparr>
      in forward_loop ps (if FORWARD_BATCH \<le> length (fw_batch st) then forward_send ok st else st))"
| "forward_loop ((Poll_Command Cmd_Finish, _) # ps) st = st"
| "forward_loop ((Poll_Disconnected, _) # ps) st = st"
| "forward_loop ((Poll_Empty, ok) # ps) st = forward_loop ps (forward_send ok st)"

definition forward_records :: "(cap_poll \<times> bool) list \<Rightarrow> bool \<Rightarrow> forward_state" where
  "forward_records polls final_ok =
     forward_send final_ok (forward_loop polls \<lparr>fw_lost = 0, fw_batch = [], fw_sent = []\<rparr>)"

definition forward_finish :: "nat \<Rightarrow> nat option \<Rightarrow> nat" where
  "forward_finish dropped joined = dropped + (case joined of Some lost \<Rightarrow> lost | None \<Rightarrow> 0)"

section \<open>The coordinator's file\<close>

record merged_batch =
  mb_agent :: nat
  mb_offset_us :: nat
  mb_records :: "cap_line list"

record merged_line =
  ml_t_us :: nat
  ml_agent :: nat
  ml_worker :: nat
  ml_dir :: string
  ml_kind :: string
  ml_len :: nat
  ml_code :: "nat option"
  ml_data :: "string option"

definition merged_line_new :: "merged_batch \<Rightarrow> cap_line \<Rightarrow> merged_line" where
  "merged_line_new b r =
     \<lparr>ml_t_us = saturating_add (ln_t_us r) (mb_offset_us b), ml_agent = mb_agent b, ml_worker = ln_worker r,
      ml_dir = ln_dir r, ml_kind = ln_kind r, ml_len = ln_len r, ml_code = ln_code r, ml_data = ln_data r\<rparr>"

record merged_outcome =
  mo_writer :: writer_outcome
  mo_over_limit :: nat

definition merge_record ::
    "(merged_line \<Rightarrow> string) \<Rightarrow> nat \<Rightarrow> merged_batch \<Rightarrow> cap_line \<Rightarrow> bool
     \<Rightarrow> merged_outcome \<times> string \<Rightarrow> merged_outcome \<times> string" where
  "merge_record to_text limit b r ok st =
     (case st of (m, out) \<Rightarrow>
        (let w = mo_writer m
         in if limit \<le> wo_written w + wo_lost w then (m\<lparr>mo_over_limit := mo_over_limit m + 1\<rparr>, out)
            else if wo_error w then (m\<lparr>mo_writer := w\<lparr>wo_lost := wo_lost w + 1\<rparr>\<rparr>, out)
            else (case write_line to_text (merged_line_new b r) ok out of
                (out, True) \<Rightarrow> (m\<lparr>mo_writer := w\<lparr>wo_written := wo_written w + 1\<rparr>\<rparr>, out)
              | (out, False) \<Rightarrow> (m\<lparr>mo_writer := w\<lparr>wo_lost := wo_lost w + 1, wo_error := True\<rparr>\<rparr>, out))))"

fun merge_records ::
    "(merged_line \<Rightarrow> string) \<Rightarrow> nat \<Rightarrow> merged_batch \<Rightarrow> (cap_line \<times> bool) list
     \<Rightarrow> merged_outcome \<times> string \<Rightarrow> merged_outcome \<times> string" where
  "merge_records to_text limit b [] st = st"
| "merge_records to_text limit b ((r, ok) # rs) st = merge_records to_text limit b rs (merge_record to_text limit b r ok st)"

text \<open>The thread, over the batches it receives; \<open>oks\<close> are the file's answers for the records of a batch.\<close>

fun merge_batches ::
    "(merged_line \<Rightarrow> string) \<Rightarrow> nat \<Rightarrow> (merged_batch \<times> bool list) list
     \<Rightarrow> merged_outcome \<times> string \<Rightarrow> merged_outcome \<times> string" where
  "merge_batches to_text limit [] st = st"
| "merge_batches to_text limit ((b, oks) # bs) st =
     merge_batches to_text limit bs (merge_records to_text limit b (zip (mb_records b) oks) st)"

definition merged_writer ::
    "(merged_line \<Rightarrow> string) \<Rightarrow> ('n json \<Rightarrow> string) \<Rightarrow> 'n json \<Rightarrow> bool \<Rightarrow> nat
     \<Rightarrow> (merged_batch \<times> bool list) list \<Rightarrow> bool \<Rightarrow> merged_outcome \<times> string" where
  "merged_writer to_line to_text header header_ok limit batches flush_ok =
     (let (out, ok) = write_line to_text header header_ok [];
          (m, out) = merge_batches to_line (effective_limit limit) batches
            (\<lparr>mo_writer = \<lparr>wo_written = 0, wo_lost = 0, wo_error = \<not> ok\<rparr>, mo_over_limit = 0\<rparr>, out);
          w = mo_writer m
      in (if wo_error w then m else m\<lparr>mo_writer := w\<lparr>wo_error := \<not> flush_ok\<rparr>\<rparr>, out))"

definition merged_remaining :: "nat \<Rightarrow> nat \<Rightarrow> nat option" where
  "merged_remaining limit queued = (if limit \<noteq> 0 then Some (limit - queued) else None)"

definition merged_finish :: "string \<Rightarrow> nat \<Rightarrow> nat \<Rightarrow> merged_outcome option \<Rightarrow> capture_summary" where
  "merged_finish path limit agents_dropped joined =
     (let m = (case joined of Some m \<Rightarrow> m
          | None \<Rightarrow> \<lparr>mo_writer = \<lparr>wo_written = 0, wo_lost = 0, wo_error = True\<rparr>, mo_over_limit = 0\<rparr>)
      in \<lparr>cap_path = path, cap_written = wo_written (mo_writer m),
          cap_dropped = agents_dropped + wo_lost (mo_writer m) + mo_over_limit m, cap_limit = limit\<rparr>)"

section \<open>What the threads account for\<close>

fun polled_records :: "(cap_poll \<times> bool) list \<Rightarrow> cap_record list" where
  "polled_records [] = []"
| "polled_records ((Poll_Command (Cmd_Record r), _) # ps) = r # polled_records ps"
| "polled_records ((Poll_Command Cmd_Finish, _) # ps) = []"
| "polled_records ((Poll_Disconnected, _) # ps) = []"
| "polled_records ((Poll_Empty, _) # ps) = polled_records ps"

lemma write_record_counts:
  assumes "write_record to_line r ok (o1, out) = (o2, out2)"
  shows "wo_written o2 + wo_lost o2 = Suc (wo_written o1 + wo_lost o1)"
    "wo_error o1 \<Longrightarrow> wo_error o2"
  using assms by (auto simp: write_record_def write_line_def split: if_splits)

lemma write_loop_counts:
  "write_loop to_line ps (o1, out) = (o2, out2) \<Longrightarrow>
     wo_written o2 + wo_lost o2 = wo_written o1 + wo_lost o1 + length (polled_records ps)"
proof (induction ps arbitrary: o1 out rule: polled_records.induct)
  case (2 r ok ps)
  obtain o3 out3 where *: "write_record to_line r ok (o1, out) = (o3, out3)" by force
  with 2 write_record_counts(1) [OF *] show ?case by simp
qed auto

lemma write_loop_good:
  assumes "\<forall>p\<in>set ps. snd p"
  shows "write_loop to_line ps (\<lparr>wo_written = n, wo_lost = 0, wo_error = False\<rparr>, out) =
    (\<lparr>wo_written = n + length (polled_records ps), wo_lost = 0, wo_error = False\<rparr>,
     out @ concat (map (\<lambda>r. to_line (line_new r) @ [newline]) (polled_records ps)))"
  using assms
  by (induction ps arbitrary: n out rule: polled_records.induct) (simp_all add: write_record_def write_line_def)

lemma merge_record_counts:
  assumes "merge_record to_text limit b r ok (m, out) = (m2, out2)"
    "wo_written (mo_writer m) + wo_lost (mo_writer m) \<le> limit"
  shows "wo_written (mo_writer m2) + wo_lost (mo_writer m2) + mo_over_limit m2 =
      Suc (wo_written (mo_writer m) + wo_lost (mo_writer m) + mo_over_limit m)"
    "wo_written (mo_writer m2) + wo_lost (mo_writer m2) \<le> limit"
  using assms by (auto simp: merge_record_def write_line_def Let_def split: if_splits)

lemma merge_records_counts:
  "\<lbrakk>merge_records to_text limit b rs (m, out) = (m2, out2);
    wo_written (mo_writer m) + wo_lost (mo_writer m) \<le> limit\<rbrakk>
   \<Longrightarrow> wo_written (mo_writer m2) + wo_lost (mo_writer m2) + mo_over_limit m2 =
        wo_written (mo_writer m) + wo_lost (mo_writer m) + mo_over_limit m + length rs
     \<and> wo_written (mo_writer m2) + wo_lost (mo_writer m2) \<le> limit"
proof (induction rs arbitrary: m out)
  case (Cons p rs)
  obtain r ok where p: "p = (r, ok)" by force
  obtain m3 out3 where *: "merge_record to_text limit b r ok (m, out) = (m3, out3)" by force
  from Cons.IH [of m3 out3] Cons.prems merge_record_counts [OF *] show ?case by (simp add: p *)
qed simp

lemma merge_batches_counts:
  "\<lbrakk>merge_batches to_text limit bs (m, out) = (m2, out2);
    wo_written (mo_writer m) + wo_lost (mo_writer m) \<le> limit;
    \<forall>(b, oks)\<in>set bs. length oks = length (mb_records b)\<rbrakk>
   \<Longrightarrow> wo_written (mo_writer m2) + wo_lost (mo_writer m2) + mo_over_limit m2 =
        wo_written (mo_writer m) + wo_lost (mo_writer m) + mo_over_limit m
          + sum_list (map (\<lambda>(b, _). length (mb_records b)) bs)
     \<and> wo_written (mo_writer m2) + wo_lost (mo_writer m2) \<le> limit"
proof (induction bs arbitrary: m out)
  case (Cons p bs)
  obtain b oks where p: "p = (b, oks)" by force
  obtain m3 out3 where *: "merge_records to_text limit b (zip (mb_records b) oks) (m, out) = (m3, out3)" by force
  from Cons.IH [of m3 out3] Cons.prems merge_records_counts [OF *] show ?case by (simp add: p *)
qed simp

definition forward_wf :: "forward_state \<Rightarrow> bool" where
  "forward_wf st \<longleftrightarrow> length (fw_batch st) < FORWARD_BATCH \<and> (\<forall>b\<in>set (fw_sent st). b \<noteq> [] \<and> length b \<le> FORWARD_BATCH)"

definition forward_total :: "forward_state \<Rightarrow> nat" where
  "forward_total st = length (concat (fw_sent st)) + length (fw_batch st) + fw_lost st"

lemma forward_send_batch [simp]: "fw_batch (forward_send ok st) = []"
  by (simp add: forward_send_def)

lemma forward_send_total [simp]: "forward_total (forward_send ok st) = forward_total st"
  by (simp add: forward_send_def forward_total_def)

lemma forward_send_sizes:
  "\<lbrakk>length (fw_batch st) \<le> FORWARD_BATCH; \<forall>b\<in>set (fw_sent st). b \<noteq> [] \<and> length b \<le> FORWARD_BATCH\<rbrakk>
   \<Longrightarrow> forward_wf (forward_send ok st)"
  by (auto simp: forward_send_def forward_wf_def FORWARD_BATCH_def)

lemma forward_loop_accounts:
  "forward_wf st \<Longrightarrow> forward_wf (forward_loop ps st)
     \<and> forward_total (forward_loop ps st) = forward_total st + length (polled_records ps)"
proof (induction ps arbitrary: st rule: polled_records.induct)
  case (2 r ok ps)
  let ?st = "st\<lparr>fw_batch := fw_batch st @ [wire_record r]\<rparr>"
  let ?st2 = "if FORWARD_BATCH \<le> length (fw_batch ?st) then forward_send ok ?st else ?st"
  have "forward_wf ?st2"
  proof (cases "FORWARD_BATCH \<le> length (fw_batch ?st)")
    case True
    moreover have "length (fw_batch ?st) \<le> FORWARD_BATCH" "\<forall>b\<in>set (fw_sent ?st). b \<noteq> [] \<and> length b \<le> FORWARD_BATCH"
      using "2.prems" by (simp_all add: forward_wf_def)
    ultimately show ?thesis using forward_send_sizes [of ?st ok] by simp
  next
    case False
    then show ?thesis using "2.prems" by (simp add: forward_wf_def)
  qed
  moreover have "forward_total ?st = Suc (forward_total st)" by (simp add: forward_total_def)
  then have "forward_total ?st2 = Suc (forward_total st)" by (simp del: One_nat_def)
  moreover have "forward_loop ((Poll_Command (Cmd_Record r), ok) # ps) st = forward_loop ps ?st2"
    by (simp only: forward_loop.simps Let_def)
  ultimately show ?case using "2.IH" [of ?st2] by (simp only: polled_records.simps length_Cons add_Suc add_Suc_right)
next
  case (5 ok ps)
  have "forward_wf (forward_send ok st)"
    by (rule forward_send_sizes) (use "5.prems" in \<open>simp_all add: forward_wf_def\<close>)
  from "5.IH" [OF this] show ?case by (simp only: forward_loop.simps polled_records.simps forward_send_total)
qed auto

lemma forward_send_order:
  "fw_lost (forward_send True st) = fw_lost st"
  "concat (fw_sent (forward_send True st)) = concat (fw_sent st) @ fw_batch st"
  by (simp_all add: forward_send_def)

lemma forward_loop_order:
  "\<forall>p\<in>set ps. snd p \<Longrightarrow> fw_lost (forward_loop ps st) = fw_lost st
     \<and> concat (fw_sent (forward_loop ps st)) @ fw_batch (forward_loop ps st) =
        concat (fw_sent st) @ fw_batch st @ map wire_record (polled_records ps)"
proof (induction ps arbitrary: st rule: polled_records.induct)
  case (2 r ok ps)
  let ?st = "st\<lparr>fw_batch := fw_batch st @ [wire_record r]\<rparr>"
  show ?case
    using 2 forward_send_order [of ?st]
    by (cases "FORWARD_BATCH \<le> length (fw_batch ?st)") simp_all
next
  case (5 ok ps)
  then show ?case using forward_send_order [of st] by simp
qed simp_all

text \<open>An agent's forwarding thread loses no record silently. Every record it took from its queue was sent
  to the coordinator or is in the count of lost records it returns; no batch is empty or larger than the batch
  size; and when the control channel takes every batch, the batches together are exactly the records, in order.\<close>

theorem forwarding_accounts:
  "length (concat (fw_sent (forward_records polls final_ok))) + fw_lost (forward_records polls final_ok) =
     length (polled_records polls)
   \<and> (\<forall>b\<in>set (fw_sent (forward_records polls final_ok)). b \<noteq> [] \<and> length b \<le> FORWARD_BATCH)
   \<and> ((\<forall>p\<in>set polls. snd p) \<and> final_ok \<longrightarrow>
        concat (fw_sent (forward_records polls final_ok)) = map wire_record (polled_records polls))"
proof -
  let ?st = "\<lparr>fw_lost = 0, fw_batch = [], fw_sent = []\<rparr> :: forward_state"
  have "forward_wf ?st" by (simp add: forward_wf_def FORWARD_BATCH_def)
  from forward_loop_accounts [OF this, of polls]
  have wf: "forward_wf (forward_loop polls ?st)" and "forward_total (forward_loop polls ?st) = length (polled_records polls)"
    by (simp_all add: forward_total_def)
  then have "forward_total (forward_records polls final_ok) = length (polled_records polls)"
    by (simp add: forward_records_def)
  moreover have batch: "fw_batch (forward_records polls final_ok) = []" by (simp add: forward_records_def)
  moreover have "forward_wf (forward_records polls final_ok)"
    unfolding forward_records_def using wf by (intro forward_send_sizes) (auto simp: forward_wf_def)
  moreover have "concat (fw_sent (forward_records polls final_ok)) = map wire_record (polled_records polls)"
    if "\<forall>p\<in>set polls. snd p" "final_ok"
    using forward_loop_order [OF that(1), of ?st] that(2)
    by (simp add: forward_records_def forward_send_order)
  ultimately show ?thesis unfolding forward_total_def forward_wf_def by auto
qed

theorem forwarding_accounts_witness:
  "concat (fw_sent (forward_records [(Poll_Command (Cmd_Record \<lparr>cr_t_us = 1, cr_worker = 0, cr_dir = Dir_Recv, cr_event = Ev_Open\<rparr>), True)] True))
     = [wire_record \<lparr>cr_t_us = 1, cr_worker = 0, cr_dir = Dir_Recv, cr_event = Ev_Open\<rparr>]"
  using forwarding_accounts [of "[(Poll_Command (Cmd_Record \<lparr>cr_t_us = 1, cr_worker = 0, cr_dir = Dir_Recv, cr_event = Ev_Open\<rparr>), True)]" True]
  by simp

lemma merged_writer_counts:
  assumes "merged_writer to_line to_text header header_ok limit batches flush_ok = (m, out)"
    "\<forall>(b, oks)\<in>set batches. length oks = length (mb_records b)"
  shows "wo_written (mo_writer m) + wo_lost (mo_writer m) + mo_over_limit m =
      sum_list (map (\<lambda>(b, _). length (mb_records b)) batches)"
    "wo_written (mo_writer m) + wo_lost (mo_writer m) \<le> effective_limit limit"
proof -
  obtain out1 ok where h: "write_line to_text header header_ok [] = (out1, ok)" by force
  obtain m2 out2 where b: "merge_batches to_line (effective_limit limit) batches
      (\<lparr>mo_writer = \<lparr>wo_written = 0, wo_lost = 0, wo_error = \<not> ok\<rparr>, mo_over_limit = 0\<rparr>, out1) = (m2, out2)" by force
  from assms(1) h b have "wo_written (mo_writer m) = wo_written (mo_writer m2)" "wo_lost (mo_writer m) = wo_lost (mo_writer m2)"
    "mo_over_limit m = mo_over_limit m2"
    by (auto simp: merged_writer_def Let_def)
  with merge_batches_counts [OF b _ assms(2)]
  show "wo_written (mo_writer m) + wo_lost (mo_writer m) + mo_over_limit m =
      sum_list (map (\<lambda>(b, _). length (mb_records b)) batches)"
    "wo_written (mo_writer m) + wo_lost (mo_writer m) \<le> effective_limit limit" by simp_all
qed

text \<open>A final flush that fails after every line was taken leaves the count of written records as it is
  and counts none of them as lost, although the lines that were still in the writer's buffer never
  reached the file.\<close>

lemma failed_flush_counts_written:
  assumes "\<forall>p\<in>set polls. snd p"
  shows "fst (write_records to_line to_text header True polls False) =
    \<lparr>wo_written = length (polled_records polls), wo_lost = 0, wo_error = True\<rparr>"
  by (simp add: write_records_def write_line_def write_loop_good [OF assms])

section \<open>From a capture to its replay\<close>

text \<open>The fields a \<open>CaptureLine\<close> reads of a line; \<open>len\<close> and \<open>code\<close> are not read, and a line without an
  agent is agent 0's.\<close>

definition as_capture_line :: "cap_line \<Rightarrow> capture_line" where
  "as_capture_line l = \<lparr>cl_t_us = ln_t_us l, cl_agent = 0, cl_worker = ln_worker l, cl_dir = ln_dir l,
     cl_kind = ln_kind l, cl_data = ln_data l\<rparr>"

text \<open>What \<open>serde_json\<close> documents of one line: compact JSON holds no line break and no white space at its
  ends, and reading it back gives its fields.\<close>

definition one_line :: "string \<Rightarrow> bool" where
  "one_line s \<longleftrightarrow> s \<noteq> [] \<and> newline \<notin> set s \<and> trim s = s \<and> last s \<noteq> carriage_return"

definition line_codec :: "(cap_line \<Rightarrow> string) \<Rightarrow> (string \<Rightarrow> capture_line option) \<Rightarrow> bool" where
  "line_codec to_line from_line \<longleftrightarrow>
     (\<forall>l. one_line (to_line l) \<and> from_line (to_line l) = Some (as_capture_line l))"

definition received_frame :: "cap_record \<Rightarrow> (nat \<times> message) list" where
  "received_frame r =
     (case (cr_dir r, cr_event r) of
        (Dir_Recv, Ev_Text s) \<Rightarrow> [(cr_t_us r, Msg_Text s)]
      | (Dir_Recv, Ev_Binary b) \<Rightarrow> [(cr_t_us r, Msg_Binary b)]
      | _ \<Rightarrow> [])"

lemma record_frame_line: "record_frame (as_capture_line (line_new r)) = Some (received_frame r)"
  by (cases "cr_dir r"; cases "cr_event r")
    (auto simp: record_frame_def as_capture_line_def line_new_def received_frame_def split: option.split)

lemma str_split_append:
  "c \<notin> set a \<Longrightarrow> str_split c (a @ c # b) = a # str_split c b"
  by (induction a) auto

lemma strip_cr_id: "s \<noteq> [] \<Longrightarrow> last s \<noteq> carriage_return \<Longrightarrow> strip_cr s = s"
  by (auto simp: strip_cr_def strip_suffix_def suffix_def)

lemma str_lines_written:
  "\<forall>l\<in>set ls. one_line l \<Longrightarrow> str_lines (concat (map (\<lambda>l. l @ [newline]) ls)) = ls"
proof -
  assume one: "\<forall>l\<in>set ls. one_line l"
  then have "str_split newline (concat (map (\<lambda>l. l @ [newline]) ls)) = ls @ [[]]"
    by (induction ls) (simp_all add: one_line_def str_split_append)
  moreover have "map strip_cr ls = ls" using one by (auto simp: one_line_def strip_cr_id intro: map_idI)
  ultimately show ?thesis by (simp add: str_lines_def)
qed

lemma numbered_lines_written:
  assumes "\<forall>l\<in>set ls. one_line l"
  shows "map snd (numbered_lines (concat (map (\<lambda>l. l @ [newline]) ls))) = ls"
proof -
  have "filter (\<lambda>(_, line). line \<noteq> []) (map (\<lambda>(i, l). (i + 1, trim l)) (enumerate n ls)) =
      map (\<lambda>(i, l). (i + 1, l)) (enumerate n ls)" for n
    using assms by (induction ls arbitrary: n) (auto simp: one_line_def)
  then have "numbered_lines (concat (map (\<lambda>l. l @ [newline]) ls)) = map (\<lambda>(i, l). (i + 1, l)) (enumerate 0 ls)"
    by (simp add: numbered_lines_def str_lines_written [OF assms])
  then show ?thesis by (simp add: comp_def split_beta map_snd_enumerate)
qed

lemma replay_records_good:
  assumes "map (\<lambda>l. from_line (snd l)) lines = map Some rs" "\<forall>r\<in>set rs. record_frame r \<noteq> None"
  shows "replay_records from_line source lines (recorded_view qs) = Inr (recorded_view (qs @ rs))"
  using assms
proof (induction lines arbitrary: rs qs)
  case (Cons l lines)
  then obtain r rs' where rs: "rs = r # rs'" by (cases rs) auto
  with Cons.prems(2) obtain frames where "record_frame r = Some frames" by auto
  with Cons.prems(1) Cons.IH [of rs' "qs @ [r]"] Cons.prems(2) show ?case
    by (cases l) (auto simp: rs add_record_view)
qed simp

text \<open>The header line of a capture file; \<open>num\<close> makes a JSON number.\<close>

definition capture_header :: "(nat \<Rightarrow> 'n) \<Rightarrow> string \<Rightarrow> string \<Rightarrow> 'n json" where
  "capture_header num target started =
     JObject [(''started'', JString started), (''target'', JString target), (''wsblast_capture'', JNumber (num FORMAT_VERSION))]"

definition worker_received :: "nat \<Rightarrow> cap_record list \<Rightarrow> (nat \<times> message) list" where
  "worker_received w rs = concat (map received_frame (filter (\<lambda>r. cr_worker r = w) rs))"

definition worker_first :: "nat \<Rightarrow> cap_record list \<Rightarrow> nat" where
  "worker_first w rs = Min (cr_t_us ` set (filter (\<lambda>r. cr_worker r = w) rs))"

definition replayed :: "cap_record list \<Rightarrow> replay_frame list list" where
  "replayed rs =
     map (\<lambda>w. worker_script (worker_first w rs, worker_received w rs))
       (filter (\<lambda>w. worker_received w rs \<noteq> []) (sorted_list_of_set (cr_worker ` set rs)))"

lemma sorted_pairs: "finite A \<Longrightarrow> sorted_list_of_set (Pair (a :: nat) ` A) = map (Pair a) (sorted_list_of_set (A :: nat set))"
proof -
  assume A: "finite A"
  have "sorted (map (Pair a) (sorted_list_of_set A))"
    by (rule sorted_map_mono) (auto simp: monotone_on_def)
  moreover have "distinct (map (Pair a) (sorted_list_of_set A))" by (simp add: distinct_map inj_on_def)
  moreover have "set (map (Pair a) (sorted_list_of_set A)) = Pair a ` A" using A by simp
  ultimately show ?thesis by (metis sorted_list_of_set.idem_if_sorted_distinct)
qed

lemma script_of_records: "script_of (map (\<lambda>r. as_capture_line (line_new r)) rs) = replayed rs"
proof -
  let ?ls = "map (\<lambda>r. as_capture_line (line_new r)) rs"
  have key: "record_key (as_capture_line (line_new r)) = (0, cr_worker r)" for r
    by (simp add: record_key_def as_capture_line_def line_new_def Let_def split_beta)
  have t: "cl_t_us (as_capture_line (line_new r)) = cr_t_us r" for r
    by (simp add: as_capture_line_def line_new_def Let_def split_beta)
  have frames: "frames_of (0, w) ?ls = worker_received w rs" for w
    by (simp add: frames_of_def worker_received_def filter_map comp_def key record_frame_line)
  have first: "first_of (0, w) ?ls = worker_first w rs" for w
    by (simp add: first_of_def worker_first_def filter_map comp_def key t image_image)
  have "record_key ` set ?ls = Pair 0 ` cr_worker ` set rs" by (auto simp: key image_image)
  then have "record_keys ?ls = map (Pair 0) (sorted_list_of_set (cr_worker ` set rs))"
    by (simp add: record_keys_def sorted_pairs)
  then show ?thesis by (simp add: script_of_def replayed_def filter_map comp_def frames first)
qed

lemma replayed_nonempty:
  assumes "r \<in> set rs" "received_frame r \<noteq> []"
  shows "replayed rs \<noteq> []"
proof -
  have "worker_received (cr_worker r) rs \<noteq> []" using assms by (auto simp: worker_received_def)
  with assms(1) show ?thesis by (auto simp: replayed_def filter_empty_conv)
qed

text \<open>C24: a capture file replays as it was recorded. When the file takes every line, what the writer thread
  leaves in it is read by \<open>--replay\<close> into one script per recorded connection that received data, in worker
  order, with exactly the text and binary frames the connection received (binary ones through base64 and back), in
  time order and at their recorded distances from the connection's first record.\<close>

theorem capture_file_replays:
  assumes "line_codec to_line from_line" "serde_roundtrip sj" "as_u64 sj (num FORMAT_VERSION) = Some FORMAT_VERSION"
    "one_line (to_string sj (capture_header num target started))"
    "\<forall>p\<in>set polls. snd p" "r \<in> set (polled_records polls)" "received_frame r \<noteq> []"
  shows "\<exists>out. write_records to_line (to_string sj) (capture_header num target started) True polls True =
      (\<lparr>wo_written = length (polled_records polls), wo_lost = 0, wo_error = False\<rparr>, out)
    \<and> replay_parse sj from_line out source = Inr \<lparr>sc_source = source, sc_workers = replayed (polled_records polls)\<rparr>"
proof -
  let ?rs = "polled_records polls" and ?h = "to_string sj (capture_header num target started)"
  let ?ls = "map (\<lambda>r. to_line (line_new r)) ?rs"
  let ?out = "concat (map (\<lambda>l. l @ [newline]) (?h # ?ls))"
  have out: "write_records to_line (to_string sj) (capture_header num target started) True polls True =
      (\<lparr>wo_written = length ?rs, wo_lost = 0, wo_error = False\<rparr>, ?out)"
    by (simp add: write_records_def write_line_def write_loop_good [OF assms(5)] comp_def)
  have "\<forall>l\<in>set (?h # ?ls). one_line l" using assms(1,4) by (simp add: line_codec_def)
  from numbered_lines_written [OF this] obtain h lines where
    n: "numbered_lines ?out = (h, ?h) # lines" and lines: "map snd lines = ?ls" by auto
  have "map (\<lambda>l. from_line (snd l)) lines = map from_line (map snd lines)" by simp
  also have "\<dots> = map Some (map (\<lambda>r. as_capture_line (line_new r)) ?rs)"
    using assms(1) by (simp add: lines line_codec_def)
  finally have reads: "map (\<lambda>l. from_line (snd l)) lines = map Some (map (\<lambda>r. as_capture_line (line_new r)) ?rs)" .
  have "replay_records from_line source lines (recorded_view []) =
      Inr (recorded_view ([] @ map (\<lambda>r. as_capture_line (line_new r)) ?rs))"
    by (rule replay_records_good [OF reads]) (simp add: record_frame_line)
  then have records: "replay_records from_line source lines [] = Inr (recorded_view (map (\<lambda>r. as_capture_line (line_new r)) ?rs))"
    by (simp add: recorded_view_def record_keys_def)
  have version: "capture_version sj ?h = Some 1"
    using assms(2,3) by (simp add: capture_version_def serde_roundtrip_def capture_header_def FORMAT_VERSION_def)
  let ?kept = "filter (\<lambda>(_, frames). frames \<noteq> []) (map snd (recorded_view (map (\<lambda>r. as_capture_line (line_new r)) ?rs)))"
  have workers: "map worker_script ?kept = replayed ?rs"
    by (simp only: recorded_view_script script_of_records)
  then have "?kept \<noteq> []" using replayed_nonempty [OF assms(6,7)] by (metis list.map_disc_iff)
  then have "replay_parse sj from_line ?out source = Inr \<lparr>sc_source = source, sc_workers = replayed ?rs\<rparr>"
    unfolding replay_parse_def n by (simp add: version records workers [symmetric])
  with out show ?thesis by blast
qed

text \<open>The hypotheses can be met: lines are numbered and a number is one line of digits.\<close>

definition line_fields :: "cap_line \<Rightarrow> nat \<times> nat \<times> string \<times> string \<times> nat \<times> nat option \<times> string option" where
  "line_fields l = (ln_t_us l, ln_worker l, ln_dir l, ln_kind l, ln_len l, ln_code l, ln_data l)"

definition fields_line :: "nat \<times> nat \<times> string \<times> string \<times> nat \<times> nat option \<times> string option \<Rightarrow> cap_line" where
  "fields_line = (\<lambda>(t, w, d, k, n, c, x). \<lparr>ln_t_us = t, ln_worker = w, ln_dir = d, ln_kind = k, ln_len = n, ln_code = c, ln_data = x\<rparr>)"

lemma one_line_number: "one_line (show_nat n)"
proof -
  have digits: "\<forall>c\<in>set (show_nat n). is_ascii_digit c" using show_nat_digits [of n] by (simp add: list_all_iff)
  then have "newline \<notin> set (show_nat n)" "carriage_return \<notin> set (show_nat n)"
    by (auto simp: is_ascii_digit_def)
  moreover obtain c cs where c: "show_nat n = c # cs" "is_ascii_digit c" by (rule show_nat_Cons)
  moreover from c digits have "trim (c # cs) = c # cs"
    by (intro trim_spelled [of c "last (c # cs)" cs "butlast (c # cs)"]) auto
  moreover have "last (c # cs) \<in> set (show_nat n)" using c by simp
  ultimately show ?thesis unfolding one_line_def by (metis list.distinct(1))
qed

definition number_line :: "cap_line \<Rightarrow> string" where
  "number_line l = show_nat (to_nat (line_fields l))"

definition line_of_number :: "string \<Rightarrow> capture_line option" where
  "line_of_number s = Some (as_capture_line (fields_line (from_nat (digits_value s))))"

lemma line_codec_numbers: "line_codec number_line line_of_number"
  by (simp add: line_codec_def number_line_def line_of_number_def one_line_number fields_line_def line_fields_def
      as_capture_line_def)

definition sample_capture :: "(cap_poll \<times> bool) list" where
  "sample_capture =
     [(Poll_Command (Cmd_Record \<lparr>cr_t_us = 10, cr_worker = 2, cr_dir = Dir_Recv, cr_event = Ev_Open\<rparr>), True),
      (Poll_Empty, True),
      (Poll_Command (Cmd_Record \<lparr>cr_t_us = 25, cr_worker = 2, cr_dir = Dir_Recv, cr_event = Ev_Binary ''ab''\<rparr>), True),
      (Poll_Command Cmd_Finish, True)]"

theorem capture_file_replays_witness:
  "\<exists>out. replay_parse numbered_json line_of_number out ''f'' =
     Inr \<lparr>sc_source = ''f'', sc_workers = [[\<lparr>fr_offset = 15000, fr_message = Msg_Binary ''ab''\<rparr>]]\<rparr>"
proof -
  have "\<forall>p\<in>set sample_capture. snd p" by (simp add: sample_capture_def)
  moreover have "\<lparr>cr_t_us = 25, cr_worker = 2, cr_dir = Dir_Recv, cr_event = Ev_Binary ''ab''\<rparr> \<in> set (polled_records sample_capture)"
    "received_frame \<lparr>cr_t_us = 25, cr_worker = 2, cr_dir = Dir_Recv, cr_event = Ev_Binary ''ab''\<rparr> \<noteq> []"
    by (simp_all add: sample_capture_def received_frame_def)
  moreover have "as_u64 numbered_json (id FORMAT_VERSION) = Some FORMAT_VERSION"
    "one_line (to_string numbered_json (capture_header id [] []))"
    by (simp_all add: numbered_json_def one_line_number)
  ultimately have "\<exists>out. replay_parse numbered_json line_of_number out ''f'' =
      Inr \<lparr>sc_source = ''f'', sc_workers = replayed (polled_records sample_capture)\<rparr>"
    using capture_file_replays [OF line_codec_numbers serde_roundtrip_numbered, where num = id] by blast
  moreover have "replayed (polled_records sample_capture) = [[\<lparr>fr_offset = 15000, fr_message = Msg_Binary ''ab''\<rparr>]]"
    by (simp add: replayed_def sample_capture_def worker_received_def received_frame_def worker_first_def
        worker_script_def from_micros_def)
  ultimately show ?thesis by simp
qed

end
