(* ===== verification/Capture_Queue.thy ===== *)
theory Capture_Queue
  imports Capture
begin

text \<open>
  The queue between the workers and the capture writer (\<open>src/capture.rs\<close>, \<open>CaptureHandle::record\<close> and
  \<open>CaptureStream\<close>). Workers run in parallel and share the claim counter and the bounded channel, so a
  record is a sequence of atomic steps (a load, \<open>fetch_add\<close>, \<open>try_send\<close>, \<open>fetch_sub\<close>) that other workers and the
  writer interleave with: \<open>cap_step\<close> is one such step of the whole system. A session's counter of
  dropped records is its own until it is dropped, when it is added to the shared one. The counters are
  64 bits wide and count frames of one run; the model lets them grow without bound.
\<close>

section \<open>Sessions\<close>

text \<open>Where a session is inside \<open>record\<close>: about to claim a slot, about to send, or about to give its slot
  back.\<close>

datatype cap_pc = Pc_Idle | Pc_Claim cap_dir cap_event | Pc_Send cap_dir cap_event | Pc_Release

record cap_session =
  se_worker :: nat
  se_dropped :: nat
  se_pc :: cap_pc
  se_open :: bool

record cap_shared =
  sh_limit :: nat
  sh_capacity :: nat
  sh_claimed :: nat
  sh_dropped :: nat
  sh_queue :: "cap_command list"
  sh_connected :: bool

definition capture_start :: "nat \<Rightarrow> cap_shared" where
  "capture_start limit = \<lparr>sh_limit = effective_limit limit, sh_capacity = QUEUE_CAPACITY, sh_claimed = 0,
     sh_dropped = 0, sh_queue = [], sh_connected = True\<rparr>"

definition forward_start :: "nat option \<Rightarrow> cap_shared" where
  "forward_start limit = \<lparr>sh_limit = (case limit of Some n \<Rightarrow> n | None \<Rightarrow> u64_max), sh_capacity = QUEUE_CAPACITY,
     sh_claimed = 0, sh_dropped = 0, sh_queue = [], sh_connected = True\<rparr>"

text \<open>The first part of \<open>record\<close>: without a limit nothing is claimed; over it, one load is enough.\<close>

definition begin_record :: "cap_shared \<Rightarrow> cap_dir \<Rightarrow> cap_event \<Rightarrow> cap_session \<Rightarrow> cap_session" where
  "begin_record sh dir event se =
     (if sh_limit sh = u64_max then se\<lparr>se_pc := Pc_Send dir event\<rparr>
      else if sh_limit sh \<le> sh_claimed sh then se\<lparr>se_dropped := se_dropped se + 1\<rparr>
      else se\<lparr>se_pc := Pc_Claim dir event\<rparr>)"

text \<open>The following atomic steps; \<open>elapsed\<close> is the time since the capture started.\<close>

definition record_step :: "duration \<Rightarrow> cap_session \<times> cap_shared \<Rightarrow> cap_session \<times> cap_shared" where
  "record_step elapsed st =
     (case st of (se, sh) \<Rightarrow>
        (case se_pc se of
           Pc_Idle \<Rightarrow> (se, sh)
         | Pc_Claim dir event \<Rightarrow>
             (let old = sh_claimed sh; sh = sh\<lparr>sh_claimed := old + 1\<rparr>
              in if sh_limit sh \<le> old then (se\<lparr>se_pc := Pc_Idle, se_dropped := se_dropped se + 1\<rparr>, sh)
                 else (se\<lparr>se_pc := Pc_Send dir event\<rparr>, sh))
         | Pc_Send dir event \<Rightarrow>
             (let r = \<lparr>cr_t_us = min u64_max (as_micros elapsed), cr_worker = se_worker se, cr_dir = dir, cr_event = event\<rparr>
              in if sh_connected sh \<and> length (sh_queue sh) < sh_capacity sh
                 then (se\<lparr>se_pc := Pc_Idle\<rparr>, sh\<lparr>sh_queue := sh_queue sh @ [Cmd_Record r]\<rparr>)
                 else if sh_limit sh \<noteq> u64_max then (se\<lparr>se_pc := Pc_Release\<rparr>, sh)
                 else (se\<lparr>se_pc := Pc_Idle, se_dropped := se_dropped se + 1\<rparr>, sh))
         | Pc_Release \<Rightarrow>
             (se\<lparr>se_pc := Pc_Idle, se_dropped := se_dropped se + 1\<rparr>, sh\<lparr>sh_claimed := sh_claimed sh - 1\<rparr>)))"

text \<open>\<open>CaptureStream::open\<close> and \<open>drop\<close>.\<close>

definition session_open :: "cap_shared \<Rightarrow> nat \<Rightarrow> cap_session" where
  "session_open sh worker =
     begin_record sh Dir_Recv Ev_Open \<lparr>se_worker = worker, se_dropped = 0, se_pc = Pc_Idle, se_open = True\<rparr>"

definition session_drop :: "cap_session \<times> cap_shared \<Rightarrow> cap_session \<times> cap_shared" where
  "session_drop st =
     (case st of (se, sh) \<Rightarrow>
        (se\<lparr>se_open := False, se_dropped := 0\<rparr>,
         if se_dropped se > 0 then sh\<lparr>sh_dropped := sh_dropped sh + se_dropped se\<rparr> else sh))"

section \<open>The system\<close>

text \<open>\<open>cy_observed\<close> counts the records sessions were asked to make and \<open>cy_taken\<close> lists those the writer
  took; the program keeps neither. \<open>finish\<close> is called once every worker has stopped.\<close>

record cap_system =
  cy_shared :: cap_shared
  cy_sessions :: "cap_session list"
  cy_taken :: "cap_record list"
  cy_observed :: nat
  cy_finishing :: bool

definition cap_init :: "cap_shared \<Rightarrow> cap_system" where
  "cap_init sh = \<lparr>cy_shared = sh, cy_sessions = [], cy_taken = [], cy_observed = 0, cy_finishing = False\<rparr>"

definition put_session :: "nat \<Rightarrow> cap_session \<times> cap_shared \<Rightarrow> cap_system \<Rightarrow> cap_system" where
  "put_session i p sys = sys\<lparr>cy_shared := snd p, cy_sessions := (cy_sessions sys)[i := fst p]\<rparr>"

definition writer_take :: "cap_system \<Rightarrow> cap_system" where
  "writer_take sys =
     (let sh = cy_shared sys
      in case sh_queue sh of
           [] \<Rightarrow> sys
         | Cmd_Record r # q \<Rightarrow> sys\<lparr>cy_shared := sh\<lparr>sh_queue := q\<rparr>, cy_taken := cy_taken sys @ [r]\<rparr>
         | Cmd_Finish # q \<Rightarrow> sys\<lparr>cy_shared := sh\<lparr>sh_queue := [], sh_connected := False\<rparr>\<rparr>)"

inductive cap_step :: "cap_system \<Rightarrow> cap_system \<Rightarrow> bool" where
  step_open: "\<not> cy_finishing sys \<Longrightarrow>
    cap_step sys (sys\<lparr>cy_sessions := cy_sessions sys @ [session_open (cy_shared sys) worker],
      cy_observed := cy_observed sys + 1\<rparr>)"
| step_observe: "\<lbrakk>i < length (cy_sessions sys); se_open (cy_sessions sys ! i); se_pc (cy_sessions sys ! i) = Pc_Idle;
    observed_event msg = Some event\<rbrakk> \<Longrightarrow>
    cap_step sys (sys\<lparr>cy_sessions := (cy_sessions sys)[i := begin_record (cy_shared sys) dir event (cy_sessions sys ! i)],
      cy_observed := cy_observed sys + 1\<rparr>)"
| step_record: "\<lbrakk>i < length (cy_sessions sys); se_pc (cy_sessions sys ! i) \<noteq> Pc_Idle\<rbrakk> \<Longrightarrow>
    cap_step sys (put_session i (record_step elapsed (cy_sessions sys ! i, cy_shared sys)) sys)"
| step_drop: "\<lbrakk>i < length (cy_sessions sys); se_open (cy_sessions sys ! i); se_pc (cy_sessions sys ! i) = Pc_Idle\<rbrakk> \<Longrightarrow>
    cap_step sys (put_session i (session_drop (cy_sessions sys ! i, cy_shared sys)) sys)"
| step_finish: "\<lbrakk>\<forall>se\<in>set (cy_sessions sys). \<not> se_open se; \<not> cy_finishing sys;
    length (sh_queue (cy_shared sys)) < sh_capacity (cy_shared sys)\<rbrakk> \<Longrightarrow>
    cap_step sys (sys\<lparr>cy_shared := (cy_shared sys)\<lparr>sh_queue := sh_queue (cy_shared sys) @ [Cmd_Finish]\<rparr>, cy_finishing := True\<rparr>)"
| step_take: "sh_connected (cy_shared sys) \<Longrightarrow> cap_step sys (writer_take sys)"

inductive_cases cap_stepE: "cap_step sys sys'"

abbreviation cap_reachable :: "cap_shared \<Rightarrow> cap_system \<Rightarrow> bool" where
  "cap_reachable sh sys \<equiv> cap_step\<^sup>*\<^sup>* (cap_init sh) sys"

section \<open>What the system keeps\<close>

fun queued_records :: "cap_command list \<Rightarrow> nat" where
  "queued_records [] = 0"
| "queued_records (Cmd_Record r # q) = Suc (queued_records q)"
| "queued_records (Cmd_Finish # q) = queued_records q"

definition pushed :: "cap_system \<Rightarrow> nat" where
  "pushed sys = length (cy_taken sys) + queued_records (sh_queue (cy_shared sys))"

definition holds_slot :: "cap_session \<Rightarrow> nat" where
  "holds_slot se = (case se_pc se of Pc_Send _ _ \<Rightarrow> 1 | Pc_Release \<Rightarrow> 1 | _ \<Rightarrow> 0)"

definition unsettled :: "cap_session \<Rightarrow> nat" where
  "unsettled se = se_dropped se + (if se_pc se = Pc_Idle then 0 else 1)"

definition slots_held :: "cap_system \<Rightarrow> nat" where
  "slots_held sys = sum_list (map holds_slot (cy_sessions sys))"

definition session_ok :: "cap_session \<Rightarrow> bool" where
  "session_ok se \<longleftrightarrow> (\<not> se_open se \<longrightarrow> se_pc se = Pc_Idle \<and> se_dropped se = 0)"

definition finish_ok :: "cap_system \<Rightarrow> bool" where
  "finish_ok sys \<longleftrightarrow>
     (if cy_finishing sys
      then (\<forall>se\<in>set (cy_sessions sys). \<not> se_open se)
        \<and> (if sh_connected (cy_shared sys) then (\<exists>rs. sh_queue (cy_shared sys) = map Cmd_Record rs @ [Cmd_Finish])
           else sh_queue (cy_shared sys) = [])
      else sh_connected (cy_shared sys) \<and> (\<exists>rs. sh_queue (cy_shared sys) = map Cmd_Record rs))"

definition cap_inv :: "cap_system \<Rightarrow> bool" where
  "cap_inv sys \<longleftrightarrow>
     (sh_limit (cy_shared sys) \<noteq> u64_max \<longrightarrow>
        pushed sys + slots_held sys \<le> sh_claimed (cy_shared sys)
        \<and> pushed sys + slots_held sys \<le> sh_limit (cy_shared sys))
     \<and> cy_observed sys = pushed sys + sum_list (map unsettled (cy_sessions sys)) + sh_dropped (cy_shared sys)
     \<and> length (sh_queue (cy_shared sys)) \<le> sh_capacity (cy_shared sys)
     \<and> (\<forall>se\<in>set (cy_sessions sys). session_ok se)
     \<and> finish_ok sys"

lemma queued_records_append [simp]: "queued_records (p @ q) = queued_records p + queued_records q"
  by (induction p rule: queued_records.induct) simp_all

lemma queued_records_map [simp]: "queued_records (map Cmd_Record rs) = length rs"
  by (induction rs) simp_all

lemma sum_list_put:
  "i < length xs \<Longrightarrow> sum_list (map f (xs[i := x])) + f (xs ! i) = sum_list (map f xs) + (f x :: nat)"
  by (induction xs arbitrary: i) (auto split: nat.split)

lemma set_put: "i < length xs \<Longrightarrow> \<forall>y\<in>set xs. P y \<Longrightarrow> P x \<Longrightarrow> \<forall>y\<in>set (xs[i := x]). P y"
  using set_update_subset_insert [of xs i x] by auto

lemma record_step_keeps:
  assumes "record_step elapsed (se, sh) = (se', sh')" "se_pc se \<noteq> Pc_Idle"
  shows "sh_limit sh' = sh_limit sh" "sh_capacity sh' = sh_capacity sh" "sh_dropped sh' = sh_dropped sh"
    "sh_connected sh' = sh_connected sh" "se_open se' = se_open se"
    "unsettled se' + queued_records (sh_queue sh') = unsettled se + queued_records (sh_queue sh)"
    "length (sh_queue sh) \<le> sh_capacity sh \<Longrightarrow> length (sh_queue sh') \<le> sh_capacity sh"
    "sh_queue sh' = sh_queue sh \<or> sh_connected sh \<and> (\<exists>r. sh_queue sh' = sh_queue sh @ [Cmd_Record r])"
  using assms
  by (auto simp: record_step_def unsettled_def Let_def split: cap_pc.splits if_splits)

lemma record_step_slots:
  assumes "record_step elapsed (se, sh) = (se', sh')" "sh_limit sh \<noteq> u64_max"
  shows "queued_records (sh_queue sh') + holds_slot se' = queued_records (sh_queue sh) + holds_slot se
      \<and> sh_claimed sh \<le> sh_claimed sh'
    \<or> queued_records (sh_queue sh') + holds_slot se' = queued_records (sh_queue sh) + holds_slot se + 1
      \<and> sh_claimed sh' = sh_claimed sh + 1 \<and> sh_claimed sh < sh_limit sh
    \<or> queued_records (sh_queue sh') + holds_slot se' + 1 = queued_records (sh_queue sh) + holds_slot se
      \<and> sh_claimed sh' = sh_claimed sh - 1"
proof (cases "se_pc se")
  case (Pc_Claim d e)
  with assms show ?thesis by (cases "sh_limit sh \<le> sh_claimed sh") (auto simp: record_step_def holds_slot_def)
next
  case (Pc_Send d e)
  with assms show ?thesis
    by (cases "sh_connected sh \<and> length (sh_queue sh) < sh_capacity sh") (auto simp: record_step_def holds_slot_def Let_def)
qed (use assms in \<open>auto simp: record_step_def holds_slot_def\<close>)

lemma finish_ok_record:
  assumes "finish_ok sys" "i < length (cy_sessions sys)" "se_open se' = se_open (cy_sessions sys ! i)"
    "sh_connected sh' = sh_connected (cy_shared sys)" "se_open se'"
    "sh_queue sh' = sh_queue (cy_shared sys) \<or>
       sh_connected (cy_shared sys) \<and> (\<exists>r. sh_queue sh' = sh_queue (cy_shared sys) @ [Cmd_Record r])"
  shows "finish_ok (put_session i (se', sh') sys)"
proof -
  from assms(2) have "cy_sessions sys ! i \<in> set (cy_sessions sys)" by simp
  with assms(1,3,5) have "\<not> cy_finishing sys" by (auto simp: finish_ok_def)
  with assms(1) obtain rs where "sh_connected (cy_shared sys)" "sh_queue (cy_shared sys) = map Cmd_Record rs"
    by (auto simp: finish_ok_def)
  with assms(4,6) \<open>\<not> cy_finishing sys\<close> show ?thesis
    by (auto simp: finish_ok_def put_session_def intro: exI [of _ "rs @ [_]"])
qed

lemma cap_inv_record:
  assumes "cap_inv sys" "i < length (cy_sessions sys)" "se_pc (cy_sessions sys ! i) \<noteq> Pc_Idle"
  shows "cap_inv (put_session i (record_step elapsed (cy_sessions sys ! i, cy_shared sys)) sys)"
proof -
  let ?se = "cy_sessions sys ! i" and ?sh = "cy_shared sys"
  obtain se sh where step: "record_step elapsed (?se, ?sh) = (se, sh)" by force
  let ?sys = "put_session i (se, sh) sys"
  note keep = record_step_keeps [OF step assms(3)]
  have ok: "session_ok ?se" using assms(1,2) by (auto simp: cap_inv_def)
  then have op: "se_open ?se" using assms(3) by (auto simp: session_ok_def)
  have fin: "finish_ok ?sys"
    by (rule finish_ok_record) (use assms keep op in \<open>auto simp: cap_inv_def\<close>)
  have uns: "sum_list (map unsettled (cy_sessions ?sys)) + unsettled ?se = sum_list (map unsettled (cy_sessions sys)) + unsettled se"
    using sum_list_put [OF assms(2), of unsettled se] by (simp add: put_session_def)
  have held: "slots_held ?sys + holds_slot ?se = slots_held sys + holds_slot se"
    using sum_list_put [OF assms(2), of holds_slot se] by (simp add: put_session_def slots_held_def)
  have pushed: "pushed ?sys = length (cy_taken sys) + queued_records (sh_queue sh)"
    by (simp add: pushed_def put_session_def)
  have "cy_observed ?sys = pushed ?sys + sum_list (map unsettled (cy_sessions ?sys)) + sh_dropped (cy_shared ?sys)"
    using assms(1) uns keep(3,6) unfolding cap_inv_def pushed by (simp add: put_session_def pushed_def)
  moreover have "pushed ?sys + slots_held ?sys \<le> sh_claimed sh \<and> pushed ?sys + slots_held ?sys \<le> sh_limit sh"
    if "sh_limit sh \<noteq> u64_max"
    using assms(1) that record_step_slots [OF step] held keep(1) unfolding cap_inv_def pushed
    by (auto simp: pushed_def)
  moreover have "\<forall>q\<in>set ((cy_sessions sys)[i := se]). session_ok q"
    by (rule set_put [OF assms(2)]) (use assms(1) keep(5) op in \<open>simp_all add: cap_inv_def session_ok_def\<close>)
  ultimately show ?thesis
    using fin keep(2,7) assms(1) by (simp add: step cap_inv_def put_session_def)
qed

lemma cap_inv_drop:
  assumes "cap_inv sys" "i < length (cy_sessions sys)" "se_pc (cy_sessions sys ! i) = Pc_Idle" "se_open (cy_sessions sys ! i)"
  shows "cap_inv (put_session i (session_drop (cy_sessions sys ! i, cy_shared sys)) sys)"
proof -
  let ?se = "cy_sessions sys ! i" and ?sh = "cy_shared sys"
  let ?se' = "?se\<lparr>se_open := False, se_dropped := 0\<rparr>"
  let ?sh' = "?sh\<lparr>sh_dropped := sh_dropped ?sh + se_dropped ?se\<rparr>"
  have drop: "session_drop (?se, ?sh) = (?se', ?sh')" by (simp add: session_drop_def)
  have "sum_list (map unsettled ((cy_sessions sys)[i := ?se'])) + se_dropped ?se = sum_list (map unsettled (cy_sessions sys))"
    using sum_list_put [OF assms(2), of unsettled ?se'] assms(3) by (simp add: unsettled_def)
  moreover have "sum_list (map holds_slot ((cy_sessions sys)[i := ?se'])) = sum_list (map holds_slot (cy_sessions sys))"
    using sum_list_put [OF assms(2), of holds_slot ?se'] assms(3) by (simp add: holds_slot_def)
  moreover have "\<forall>q\<in>set ((cy_sessions sys)[i := ?se']). session_ok q"
    using assms by (intro set_put) (auto simp: cap_inv_def session_ok_def)
  moreover have "finish_ok (put_session i (?se', ?sh') sys)"
  proof -
    from assms(2) have "cy_sessions sys ! i \<in> set (cy_sessions sys)" by simp
    with assms(1,4) have "\<not> cy_finishing sys" by (auto simp: cap_inv_def finish_ok_def)
    with assms(1) show ?thesis by (simp add: cap_inv_def finish_ok_def put_session_def)
  qed
  ultimately show ?thesis
    unfolding drop using assms(1) by (simp add: cap_inv_def put_session_def pushed_def slots_held_def)
qed

lemma begin_record_keeps:
  assumes "se_pc se = Pc_Idle"
  shows "unsettled (begin_record sh d e se) = Suc (unsettled se)"
    "se_open (begin_record sh d e se) = se_open se"
    "sh_limit sh \<noteq> u64_max \<Longrightarrow> holds_slot (begin_record sh d e se) = holds_slot se"
  using assms by (simp_all add: begin_record_def unsettled_def holds_slot_def)

lemma cap_inv_open:
  assumes "cap_inv sys" "\<not> cy_finishing sys"
  shows "cap_inv (sys\<lparr>cy_sessions := cy_sessions sys @ [session_open (cy_shared sys) worker], cy_observed := cy_observed sys + 1\<rparr>)"
proof -
  let ?new = "\<lparr>se_worker = worker, se_dropped = 0, se_pc = Pc_Idle, se_open = True\<rparr>"
  have "unsettled (session_open (cy_shared sys) worker) = 1" "se_open (session_open (cy_shared sys) worker)"
    "sh_limit (cy_shared sys) \<noteq> u64_max \<Longrightarrow> holds_slot (session_open (cy_shared sys) worker) = 0"
    using begin_record_keeps [of ?new "cy_shared sys" Dir_Recv Ev_Open]
    by (simp_all add: session_open_def unsettled_def [of ?new] holds_slot_def [of ?new])
  with assms show ?thesis
    by (auto simp: cap_inv_def pushed_def slots_held_def finish_ok_def session_ok_def)
qed

lemma cap_inv_observe:
  assumes "cap_inv sys" "i < length (cy_sessions sys)" "se_pc (cy_sessions sys ! i) = Pc_Idle" "se_open (cy_sessions sys ! i)"
  shows "cap_inv (sys\<lparr>cy_sessions := (cy_sessions sys)[i := begin_record (cy_shared sys) dir event (cy_sessions sys ! i)],
      cy_observed := cy_observed sys + 1\<rparr>)"
proof -
  let ?se' = "begin_record (cy_shared sys) dir event (cy_sessions sys ! i)"
  note keep = begin_record_keeps [OF assms(3), of "cy_shared sys" dir event]
  have "sum_list (map unsettled ((cy_sessions sys)[i := ?se'])) = Suc (sum_list (map unsettled (cy_sessions sys)))"
    using sum_list_put [OF assms(2), of unsettled ?se'] keep(1) by simp
  moreover have "sum_list (map holds_slot ((cy_sessions sys)[i := ?se'])) = sum_list (map holds_slot (cy_sessions sys))"
    if "sh_limit (cy_shared sys) \<noteq> u64_max"
    using sum_list_put [OF assms(2), of holds_slot ?se'] keep(3) [OF that] by simp
  moreover have "\<forall>q\<in>set ((cy_sessions sys)[i := ?se']). session_ok q"
    using assms keep(2) by (intro set_put) (auto simp: cap_inv_def session_ok_def)
  moreover from assms(2) have "cy_sessions sys ! i \<in> set (cy_sessions sys)" by simp
  with assms(1,4) have "\<not> cy_finishing sys" by (auto simp: cap_inv_def finish_ok_def)
  ultimately show ?thesis
    using assms(1) by (simp add: cap_inv_def pushed_def slots_held_def finish_ok_def)
qed

lemma cap_inv_take:
  assumes "cap_inv sys" "sh_connected (cy_shared sys)"
  shows "cap_inv (writer_take sys)"
proof (cases "sh_queue (cy_shared sys)")
  case Nil
  with assms show ?thesis by (simp add: writer_take_def)
next
  case (Cons c q)
  show ?thesis
  proof (cases c)
    case (Cmd_Record r)
    have "finish_ok (writer_take sys)"
      using assms Cons Cmd_Record
      by (auto simp: cap_inv_def finish_ok_def writer_take_def Cons_eq_append_conv Cons_eq_map_conv)
    then show ?thesis
      using assms Cons Cmd_Record
      by (simp add: cap_inv_def writer_take_def pushed_def slots_held_def)
  next
    case Cmd_Finish
    with assms Cons have "cy_finishing sys" "q = []"
      by (auto simp: cap_inv_def finish_ok_def Cons_eq_append_conv split: if_splits)
    with assms Cons Cmd_Finish show ?thesis
      by (simp add: cap_inv_def writer_take_def pushed_def slots_held_def finish_ok_def)
  qed
qed

lemma cap_inv_step: "cap_step sys sys' \<Longrightarrow> cap_inv sys \<Longrightarrow> cap_inv sys'"
proof (induction rule: cap_step.induct)
  case (step_finish sys)
  then show ?case by (auto simp: cap_inv_def pushed_def slots_held_def finish_ok_def)
qed (rule cap_inv_open cap_inv_observe cap_inv_record cap_inv_drop cap_inv_take; assumption)+

lemma cap_inv_init:
  assumes "sh_claimed sh = 0" "sh_dropped sh = 0" "sh_queue sh = []" "sh_connected sh"
  shows "cap_inv (cap_init sh)"
  using assms by (simp add: cap_inv_def cap_init_def pushed_def slots_held_def finish_ok_def)

lemma cap_reachable_inv:
  assumes "cap_reachable sh sys" "sh_claimed sh = 0" "sh_dropped sh = 0" "sh_queue sh = []" "sh_connected sh"
  shows "cap_inv sys"
  using assms(1) by (induction rule: rtranclp_induct) (auto intro: cap_inv_init assms cap_inv_step)

section \<open>Properties\<close>

lemma write_records_counts:
  "wo_written (fst (write_records to_line to_text header header_ok polls flush_ok))
     + wo_lost (fst (write_records to_line to_text header header_ok polls flush_ok)) = length (polled_records polls)"
proof -
  obtain out ok where h: "write_line to_text header header_ok [] = (out, ok)" by force
  obtain o2 out2 where l: "write_loop to_line polls (\<lparr>wo_written = 0, wo_lost = 0, wo_error = \<not> ok\<rparr>, out) = (o2, out2)"
    by force
  from write_loop_counts [OF l] show ?thesis by (simp add: write_records_def h l)
qed

lemma record_step_limit: "sh_limit (snd (record_step elapsed (se, sh))) = sh_limit sh"
  by (simp add: record_step_def Let_def split: cap_pc.split)

lemma cap_step_limit: "cap_step sys sys' \<Longrightarrow> sh_limit (cy_shared sys') = sh_limit (cy_shared sys)"
proof (induction rule: cap_step.induct)
  case (step_take sys)
  show ?case by (simp add: writer_take_def Let_def split: list.split cap_command.split)
qed (simp_all add: put_session_def record_step_limit session_drop_def)

text \<open>C22: a capture accounts for every record, however the workers and the writer interleave. Once the
  writer has taken the finishing marker, the records the summary reports as written and as dropped are together exactly
  the records the sessions observed, and with a limit no more than the limit were written, although workers
  race for the last slots.\<close>

theorem capture_summary_accounts:
  assumes "cap_reachable (capture_start limit) sys" "\<not> sh_connected (cy_shared sys)"
    "polled_records polls = cy_taken sys"
    "sm = capture_finish path limit (sh_dropped (cy_shared sys))
       (Some (fst (write_records to_line to_text header header_ok polls flush_ok)))"
  shows "cap_written sm + cap_dropped sm = cy_observed sys
    \<and> (0 < limit \<and> limit < u64_max \<longrightarrow> cap_written sm \<le> limit)"
proof -
  have inv: "cap_inv sys"
    using assms(1) by (rule cap_reachable_inv) (simp_all add: capture_start_def)
  have "sh_limit (cy_shared sys) = effective_limit limit"
    using assms(1)
  proof (induction rule: rtranclp_induct)
    case (step y z)
    then show ?case by (simp add: cap_step_limit)
  qed (simp add: cap_init_def capture_start_def)
  moreover have fin: "cy_finishing sys" "sh_queue (cy_shared sys) = []" "\<forall>se\<in>set (cy_sessions sys). \<not> se_open se"
    using inv assms(2) by (auto simp: cap_inv_def finish_ok_def split: if_splits)
  have "\<forall>se\<in>set (cy_sessions sys). session_ok se" using inv unfolding cap_inv_def by blast
  with fin(3) have "\<forall>se\<in>set (cy_sessions sys). unsettled se = 0"
    by (simp add: session_ok_def unsettled_def)
  then have "sum_list (map unsettled (cy_sessions sys)) = 0" by simp
  moreover have "pushed sys = length (cy_taken sys)" by (simp add: pushed_def fin)
  ultimately have "cy_observed sys = length (cy_taken sys) + sh_dropped (cy_shared sys)"
    and lim: "effective_limit limit \<noteq> u64_max \<longrightarrow> length (cy_taken sys) \<le> effective_limit limit"
    using inv unfolding cap_inv_def by (simp, auto)
  with write_records_counts [of to_line to_text header header_ok polls flush_ok]
  have "cap_written sm + cap_dropped sm = cy_observed sys" "cap_written sm \<le> length (cy_taken sys)"
    by (simp_all add: assms(3,4) capture_finish_def Let_def)
  with lim show ?thesis by (auto simp: effective_limit_def)
qed

text \<open>One worker opens, records its frame under a limit of one record and ends; the writer takes the record and the marker.\<close>

definition sample_state ::
    "nat \<Rightarrow> nat \<Rightarrow> cap_command list \<Rightarrow> bool \<Rightarrow> cap_session list \<Rightarrow> cap_record list \<Rightarrow> nat \<Rightarrow> bool \<Rightarrow> cap_system" where
  "sample_state claimed dropped queue conn sessions taken observed finishing =
     \<lparr>cy_shared = \<lparr>sh_limit = 1, sh_capacity = QUEUE_CAPACITY, sh_claimed = claimed, sh_dropped = dropped,
        sh_queue = queue, sh_connected = conn\<rparr>,
      cy_sessions = sessions, cy_taken = taken, cy_observed = observed, cy_finishing = finishing\<rparr>"

definition sample_session_at :: "nat \<Rightarrow> cap_pc \<Rightarrow> bool \<Rightarrow> cap_session" where
  "sample_session_at dropped pc open_now = \<lparr>se_worker = 7, se_dropped = dropped, se_pc = pc, se_open = open_now\<rparr>"

definition sample_open :: cap_record where
  "sample_open = \<lparr>cr_t_us = 5, cr_worker = 7, cr_dir = Dir_Recv, cr_event = Ev_Open\<rparr>"

lemmas sample_step_defs = sample_state_def sample_session_at_def sample_open_def QUEUE_CAPACITY_def
  session_open_def begin_record_def record_step_def put_session_def session_drop_def writer_take_def as_micros_def

lemma sample_run:
  "cap_reachable (capture_start 1)
     (sample_state 1 1 [] False [sample_session_at 0 Pc_Idle False] [sample_open] 2 True)"
proof -
  let ?S = sample_state and ?se = sample_session_at
  let ?s0 = "?S 0 0 [] True [] [] 0 False"
  let ?s1 = "?S 0 0 [] True [?se 0 (Pc_Claim Dir_Recv Ev_Open) True] [] 1 False"
  let ?s2 = "?S 1 0 [] True [?se 0 (Pc_Send Dir_Recv Ev_Open) True] [] 1 False"
  let ?s3 = "?S 1 0 [Cmd_Record sample_open] True [?se 0 Pc_Idle True] [] 1 False"
  let ?s4 = "?S 1 0 [Cmd_Record sample_open] True [?se 1 Pc_Idle True] [] 2 False"
  let ?s5 = "?S 1 1 [Cmd_Record sample_open] True [?se 0 Pc_Idle False] [] 2 False"
  let ?s6 = "?S 1 1 [] True [?se 0 Pc_Idle False] [sample_open] 2 False"
  let ?s7 = "?S 1 1 [Cmd_Finish] True [?se 0 Pc_Idle False] [sample_open] 2 True"
  let ?s8 = "?S 1 1 [] False [?se 0 Pc_Idle False] [sample_open] 2 True"
  have "cap_step ?s0 ?s1" using step_open [of ?s0 7] by (simp add: sample_step_defs)
  moreover have "cap_step ?s1 ?s2" using step_record [of 0 ?s1 5000] by (simp add: sample_step_defs)
  moreover have "cap_step ?s2 ?s3" using step_record [of 0 ?s2 5000] by (simp add: sample_step_defs)
  moreover have "cap_step ?s3 ?s4"
    using step_observe [of 0 ?s3 "Msg_Text ''x''" "Ev_Text ''x''" Dir_Sent] by (simp add: sample_step_defs numeral_2_eq_2)
  moreover have "cap_step ?s4 ?s5" using step_drop [of 0 ?s4] by (simp add: sample_step_defs)
  moreover have "cap_step ?s5 ?s6" using step_take [of ?s5] by (simp add: sample_step_defs)
  moreover have "cap_step ?s6 ?s7" using step_finish [of ?s6] by (simp add: sample_step_defs)
  moreover have "cap_step ?s7 ?s8" using step_take [of ?s7] by (simp add: sample_step_defs)
  moreover have "cap_init (capture_start 1) = ?s0"
    by (simp add: cap_init_def capture_start_def effective_limit_def sample_state_def)
  ultimately show ?thesis by (auto intro!: converse_rtranclp_into_rtranclp)
qed

theorem capture_summary_accounts_witness:
  "\<exists>sm :: capture_summary. cap_written sm + cap_dropped sm = 2 \<and> cap_written sm \<le> 1"
proof -
  let ?sys = "sample_state 1 1 [] False [sample_session_at 0 Pc_Idle False] [sample_open] 2 True"
  let ?polls = "[(Poll_Command (Cmd_Record sample_open), True)]"
  let ?run = "write_records (\<lambda>_. []) (\<lambda>_. []) (JNull :: nat json) True ?polls True"
  obtain sm where sm: "sm = capture_finish [] 1 (sh_dropped (cy_shared ?sys)) (Some (fst ?run))" by simp
  have "\<not> sh_connected (cy_shared ?sys)" "cy_observed ?sys = 2" "polled_records ?polls = cy_taken ?sys"
    by (simp_all add: sample_state_def)
  with capture_summary_accounts [OF sample_run _ _ sm] show ?thesis by - (rule exI [of _ sm], auto)
qed

text \<open>What a session does with its record when the shared state is whatever the other workers and the writer have
  made of it by each of its steps.\<close>

fun record_run :: "(duration \<times> cap_shared) list \<Rightarrow> cap_session \<Rightarrow> cap_session" where
  "record_run [] se = se"
| "record_run ((elapsed, sh) # env) se = record_run env (fst (record_step elapsed (se, sh)))"

fun pc_rank :: "cap_pc \<Rightarrow> nat" where
  "pc_rank Pc_Idle = 0"
| "pc_rank Pc_Release = 1"
| "pc_rank (Pc_Send _ _) = 2"
| "pc_rank (Pc_Claim _ _) = 3"

lemma record_step_rank:
  "pc_rank (se_pc (fst (record_step elapsed (se, sh)))) \<le> pc_rank (se_pc se) - 1"
  by (simp add: record_step_def Let_def split: cap_pc.split)

lemma record_step_dropped:
  "se_dropped (fst (record_step elapsed (se, sh))) = se_dropped se
   \<or> se_pc (fst (record_step elapsed (se, sh))) = Pc_Idle \<and> se_dropped (fst (record_step elapsed (se, sh))) = Suc (se_dropped se)"
  by (simp add: record_step_def Let_def split: cap_pc.split)

lemma record_run_idle: "se_pc se = Pc_Idle \<Longrightarrow> record_run env se = se"
  by (induction env) (auto simp: record_step_def)

lemma record_run_ends:
  assumes "pc_rank (se_pc se) \<le> length env"
  shows "se_pc (record_run env se) = Pc_Idle \<and> se_dropped (record_run env se) \<in> {se_dropped se, Suc (se_dropped se)}"
  using assms
proof (induction env arbitrary: se)
  case Nil
  then show ?case by (cases "se_pc se") simp_all
next
  case (Cons p env)
  obtain elapsed sh where p: "p = (elapsed, sh)" by force
  let ?se = "fst (record_step elapsed (se, sh))"
  have "pc_rank (se_pc ?se) \<le> length env"
    using record_step_rank [of elapsed se sh] Cons.prems by simp
  from Cons.IH [OF this] show ?case
    using record_step_dropped [of elapsed se sh] record_run_idle [of ?se env] by (auto simp: p)
qed

text \<open>A capture never holds up a worker. Recording a frame ends after at most three atomic steps of the
  worker itself, whatever the other workers, the writer and the queue do in between, and the frame is then either
  queued or counted as dropped once.\<close>

theorem record_is_wait_free:
  assumes "se_pc se = Pc_Idle" "3 \<le> length env"
  shows "se_pc (record_run env (begin_record sh dir event se)) = Pc_Idle
    \<and> se_dropped (record_run env (begin_record sh dir event se)) \<in> {se_dropped se, Suc (se_dropped se)}"
proof (cases "se_pc (begin_record sh dir event se) = Pc_Idle")
  case True
  then show ?thesis using record_run_idle [OF True] by (auto simp: begin_record_def)
next
  case False
  then have "se_dropped (begin_record sh dir event se) = se_dropped se"
    using assms(1) by (simp add: begin_record_def split: if_splits)
  moreover have "pc_rank (se_pc (begin_record sh dir event se)) \<le> length env"
    using assms by (simp add: begin_record_def)
  ultimately show ?thesis using record_run_ends [of "begin_record sh dir event se" env] by simp
qed

theorem record_is_wait_free_witness:
  "se_pc (record_run (replicate 3 (0, capture_start 5)) (begin_record (capture_start 5) Dir_Sent (Ev_Text ''x'')
     \<lparr>se_worker = 0, se_dropped = 0, se_pc = Pc_Idle, se_open = True\<rparr>)) = Pc_Idle"
  using record_is_wait_free [of "\<lparr>se_worker = 0, se_dropped = 0, se_pc = Pc_Idle, se_open = True\<rparr>"
      "replicate 3 (0, capture_start 5)" "capture_start 5" Dir_Sent "Ev_Text ''x''"] by simp

end
