(* ===== verification/Scenario.thy ===== *)
theory Scenario
  imports Load_Config
begin

text \<open>
  Scenarios, \<open>src/config.rs\<close>: the phases, actions and thresholds of a YAML file as the deserializer gives them, and
  their compilation into the phases that run. The YAML parser (\<open>serde_norway\<close>) is not modelled; a
  \<open>BTreeMap\<close> of captures is the list of its entries in key order. The error of a phase names the phase and the key.
\<close>

section \<open>The file\<close>

record slo_config =
  sk_max_p50 :: "string option"
  sk_max_p95 :: "string option"
  sk_max_p99 :: "string option"
  sk_max_p999 :: "string option"
  sk_max_error_rate :: "f64 option"
  sk_min_throughput :: "f64 option"
  sk_max_generator_lag :: "string option"

record 'n expect_config =
  ec_json :: "string option"
  ec_equals :: "'n json option"
  ec_contains :: "string option"

record 'n send_config =
  sc_payload :: "string option"
  sc_count :: "nat option"
  sc_expect :: "'n expect_config option"
  sc_capture :: "(string \<times> string) list option"
  sc_name :: "string option"
  sc_slo :: "slo_config option"

datatype 'n action_config =
    Cfg_send "'n send_config"
  | Cfg_wait string
  | Cfg_close "nat option" "string option"
  | Cfg_ping string

datatype stages_config = Spec string | Stage_list "(string \<times> nat) list"

record chaos_yaml =
  cy_delay :: "string option"
  cy_drop :: "f64 option"
  cy_corrupt :: "f64 option"
  cy_close :: "f64 option"
  cy_close_mode :: "chaos_close_mode option"
  cy_read_pause :: "string option"
  cy_seed :: "u64 option"

record 'n phase_config =
  pc_name :: string
  pc_target :: "string option"
  pc_duration :: "string option"
  pc_connections :: "nat option"
  pc_ramp_rate :: "nat option"
  pc_stages :: "stages_config option"
  pc_arrival_rate :: "f64 option"
  pc_session_duration :: "string option"
  pc_max_connections :: "nat option"
  pc_rate_per_conn :: nat
  pc_payload :: "string option"
  pc_think_time :: "string option"
  pc_actions :: "'n action_config list"
  pc_slo :: "slo_config option"
  pc_chaos :: "chaos_yaml option"

record 'n scenario_config =
  sf_version :: string
  sf_target :: "string option"
  sf_name :: string
  sf_slo :: "slo_config option"
  sf_data :: "string option"
  sf_phases :: "'n phase_config list"

section \<open>Compiled phases\<close>

datatype 'n scenario_action =
    Act_send "payload_config option" nat "'n check option" "capture list" "nat option"
  | Act_wait duration
  | Act_ping duration
  | Act_close nat string

record 'n scenario_phase =
  ph_name :: string
  ph_target :: "url_view option"
  ph_duration :: duration
  ph_connections :: nat
  ph_ramp_rate :: nat
  ph_rate_per_conn :: nat
  ph_payload :: "payload_config option"
  ph_think_time :: duration
  ph_actions :: "'n scenario_action list"
  ph_vars :: "string list"
  ph_action_names :: "string list"
  ph_slo :: slo_thresholds
  ph_stages :: "stage list"
  ph_arrivals :: "arrivals option"
  ph_chaos :: "chaos_config option"

definition invalid_phase :: "string \<Rightarrow> string \<Rightarrow> config_error" where
  "invalid_phase phase key = InvalidScenario phase key"

definition chaos_compile :: "string \<Rightarrow> chaos_yaml \<Rightarrow> config_error + chaos_config" where
  "chaos_compile phase y =
     map_err (\<lambda>_. invalid_phase phase ''chaos'')
       (and_then (transpose_opt parse_delay (cy_delay y)) (\<lambda>delay.
          and_then (transpose_opt parse_delay (cy_read_pause y)) (\<lambda>pause.
            let (delay, jitter) = or_default delay (0, 0);
                (read_pause, read_jitter) = or_default pause (0, 0);
                chaos = \<lparr>ch_delay = delay, ch_jitter = jitter, drop_percent = or_default (cy_drop y) (Num 0),
                  corrupt_percent = or_default (cy_corrupt y) (Num 0), close_percent = or_default (cy_close y) (Num 0),
                  close_mode = or_default (cy_close_mode y) Abrupt, ch_read_pause = read_pause, ch_read_jitter = read_jitter,
                  ch_seed = cy_seed y\<rparr>
            in and_then (chaos_validate chaos) (\<lambda>_. Inr chaos))))"

definition stages_list :: "string \<Rightarrow> stages_config \<Rightarrow> config_error + stage list" where
  "stages_list phase sc =
     (case sc of
        Spec spec \<Rightarrow>
          (if list_all (\<lambda>part. trim part = []) (str_split (CHR '','') spec) then Inr []
           else map_err (\<lambda>_. invalid_phase phase ''stages'') (parse_list spec))
      | Stage_list ss \<Rightarrow>
          collect_results (\<lambda>(d, target).
              and_then (map_err (\<lambda>_. invalid_phase phase ''stage duration'') (parse_human_duration d)) (\<lambda>d.
                Inr \<lparr>st_duration = d, st_target = target\<rparr>)) ss)"

definition stages_compile :: "string \<Rightarrow> stages_config \<Rightarrow> config_error + stage list" where
  "stages_compile phase sc =
     and_then (stages_list phase sc) (\<lambda>stages.
       if stages = [] then Inl (invalid_phase phase ''stages'')
       else if list_ex (\<lambda>s. st_duration s = 0) stages then Inl (invalid_phase phase ''stage duration'')
       else if list_all (\<lambda>s. st_target s = 0) stages then Inl (invalid_phase phase ''stage targets'')
       else Inr stages)"

definition slo_latency :: "string \<Rightarrow> string option \<Rightarrow> config_error + duration option" where
  "slo_latency ctx raw = map_err (\<lambda>_. InvalidScenario ctx ''duration'') (transpose_opt parse_human_duration raw)"

definition slo_compile :: "string \<Rightarrow> slo_config \<Rightarrow> config_error + slo_thresholds" where
  "slo_compile ctx s =
     and_then (slo_latency ctx (sk_max_p50 s)) (\<lambda>p50.
     and_then (slo_latency ctx (sk_max_p95 s)) (\<lambda>p95.
     and_then (slo_latency ctx (sk_max_p99 s)) (\<lambda>p99.
     and_then (slo_latency ctx (sk_max_p999 s)) (\<lambda>p999.
     and_then (slo_latency ctx (sk_max_generator_lag s)) (\<lambda>lag.
       let slo = \<lparr>max_p50 = p50, max_p95 = p95, max_p99 = p99, max_p999 = p999, max_error_rate = sk_max_error_rate s,
             min_throughput = sk_min_throughput s, max_generator_lag = lag\<rparr>
       in and_then (map_err (\<lambda>_. InvalidScenario ctx ''max_error_rate'') (validate_error_rate slo)) (\<lambda>_. Inr slo))))))"

definition compile_slo :: "string \<Rightarrow> slo_config option \<Rightarrow> config_error + slo_thresholds" where
  "compile_slo ctx s = (case s of None \<Rightarrow> Inr slo_none | Some s \<Rightarrow> slo_compile ctx s)"

definition expect_compile :: "string \<Rightarrow> 'n expect_config \<Rightarrow> config_error + 'n check" where
  "expect_compile phase e =
     and_then
       (case (ec_json e, ec_equals e, ec_contains e) of
          (Some pointer, equals, None) \<Rightarrow> Inr (Check_Json pointer equals)
        | (None, None, Some t) \<Rightarrow> Inr (Contains t)
        | (None, Some _, _) \<Rightarrow> Inl (invalid_phase phase ''expect: equals'')
        | _ \<Rightarrow> Inl (invalid_phase phase ''expect''))
       (\<lambda>check. and_then (map_err (\<lambda>_. invalid_phase phase ''expect'') (check_validate check)) (\<lambda>_. Inr check))"

text \<open>\<open>char::is_control\<close> on UTF-8: \<open>U+0000\<close> to \<open>U+001F\<close>, \<open>U+007F\<close> and \<open>U+0080\<close> to \<open>U+009F\<close>.\<close>

fun has_control :: "string \<Rightarrow> bool" where
  "has_control [] = False"
| "has_control (c # cs) =
     (byte_in 0 0x1F c \<or> c = CHR 0x7F \<or> c = CHR 0xC2 \<and> cs \<noteq> [] \<and> byte_in 0x80 0x9F (hd cs) \<or> has_control cs)"

definition MAX_ACTION_NAME :: nat where "MAX_ACTION_NAME = 64"

definition push_new :: "'a \<Rightarrow> 'a list \<Rightarrow> 'a list" where
  "push_new x xs = (if x \<in> set xs then xs else xs @ [x])"

fun action_names_loop :: "string \<Rightarrow> 'n action_config list \<Rightarrow> string list \<Rightarrow> config_error + string list" where
  "action_names_loop phase [] names = Inr names"
| "action_names_loop phase (Cfg_send s # as) names =
     (case sc_name s of
        None \<Rightarrow> (if sc_slo s \<noteq> None then Inl (invalid_phase phase ''slo'') else action_names_loop phase as names)
      | Some name \<Rightarrow>
          (if trim name = [] \<or> MAX_ACTION_NAME < length name \<or> has_control name then Inl (invalid_phase phase name)
           else action_names_loop phase as (push_new name names)))"
| "action_names_loop phase (_ # as) names = action_names_loop phase as names"

definition phase_action_names :: "string \<Rightarrow> 'n action_config list \<Rightarrow> config_error + string list" where
  "phase_action_names phase actions = action_names_loop phase actions []"

fun capture_vars :: "string \<Rightarrow> string list \<Rightarrow> string list \<Rightarrow> config_error + string list" where
  "capture_vars phase [] vars = Inr vars"
| "capture_vars phase (name # names) vars =
     and_then (map_err (\<lambda>_. invalid_phase phase ''capture'') (check_var_name name)) (\<lambda>_.
       capture_vars phase names (push_new name vars))"

fun vars_loop :: "string \<Rightarrow> 'n action_config list \<Rightarrow> string list \<Rightarrow> config_error + string list" where
  "vars_loop phase [] vars = Inr vars"
| "vars_loop phase (Cfg_send s # as) vars =
     (case sc_capture s of
        None \<Rightarrow> vars_loop phase as vars
      | Some captures \<Rightarrow> and_then (capture_vars phase (map fst captures) vars) (vars_loop phase as))"
| "vars_loop phase (_ # as) vars = vars_loop phase as vars"

definition phase_vars :: "string \<Rightarrow> 'n action_config list \<Rightarrow> config_error + string list" where
  "phase_vars phase actions = vars_loop phase actions []"

definition captures_compile :: "string \<Rightarrow> string list \<Rightarrow> (string \<times> string) list \<Rightarrow> config_error + capture list" where
  "captures_compile phase vars captures =
     collect_results (\<lambda>(name, pointer).
         and_then (map_err (\<lambda>_. invalid_phase phase ''capture'') (check_pointer pointer)) (\<lambda>_.
           Inr \<lparr>cap_var = or_default (position (\<lambda>var. var = name) vars) 0, cap_pointer = pointer\<rparr>)) captures"

definition nonzero_duration :: "string \<Rightarrow> string \<Rightarrow> string \<Rightarrow> config_error + duration" where
  "nonzero_duration phase key raw =
     and_then (map_err (\<lambda>_. invalid_phase phase key) (parse_human_duration raw)) (\<lambda>d.
       if d = 0 then Inl (invalid_phase phase key) else Inr d)"

definition action_compile ::
    "string \<Rightarrow> string list \<Rightarrow> string list \<Rightarrow> 'n action_config \<Rightarrow> config_error + 'n scenario_action" where
  "action_compile phase vars names action =
     (case action of
        Cfg_send s \<Rightarrow>
          (let count = or_default (sc_count s) 1
           in if count = 0 then Inl (invalid_phase phase ''count'')
              else and_then (captures_compile phase vars (or_default (sc_capture s) [])) (\<lambda>captures.
                   and_then (transpose_opt (expect_compile phase) (sc_expect s)) (\<lambda>expect.
                     Inr (Act_send (map_option (\<lambda>p. from_text_with_vars p vars) (sc_payload s)) count expect captures
                            (Option.bind (sc_name s) (\<lambda>n. position (\<lambda>m. m = n) names))))))
      | Cfg_wait d \<Rightarrow> and_then (nonzero_duration phase ''wait'' d) (\<lambda>d. Inr (Act_wait d))
      | Cfg_ping d \<Rightarrow> and_then (nonzero_duration phase ''ping'' d) (\<lambda>d. Inr (Act_ping d))
      | Cfg_close code reason \<Rightarrow>
          and_then (validate_close_code (or_default code 1000)) (\<lambda>code. Inr (Act_close code (or_default reason []))))"

definition compile_arrivals :: "'n phase_config \<Rightarrow> config_error + arrivals option" where
  "compile_arrivals p =
     (case pc_arrival_rate p of
        None \<Rightarrow>
          (if pc_session_duration p \<noteq> None \<or> pc_max_connections p \<noteq> None then Inl (invalid_phase (pc_name p) ''arrival_rate'')
           else Inr None)
      | Some rate \<Rightarrow>
          (if pc_connections p \<noteq> None \<or> pc_ramp_rate p \<noteq> None \<or> pc_stages p \<noteq> None
           then Inl (invalid_phase (pc_name p) ''arrival_rate'')
           else and_then (ok_or (invalid_phase (pc_name p) ''session_duration'') (pc_session_duration p)) (\<lambda>session.
                and_then (map_err (\<lambda>_. invalid_phase (pc_name p) ''session_duration'') (parse_human_duration session)) (\<lambda>session.
                  let arrivals = \<lparr>ar_rate = rate, ar_session_duration = session, ar_max_connections = pc_max_connections p\<rparr>
                  in and_then (map_err (invalid_phase (pc_name p)) (check_values arrivals)) (\<lambda>_. Inr (Some arrivals))))))"

text \<open>The load of a phase: connections, duration, ramp rate and stages. A sum of stage durations may panic.\<close>

definition compile_load ::
    "'n phase_config \<Rightarrow> arrivals option \<Rightarrow> build_error + nat \<times> duration \<times> nat \<times> stage list" where
  "compile_load p arrivals =
     (case arrivals of
        Some a \<Rightarrow>
          map_err Rejected
            (and_then (ok_or (invalid_phase (pc_name p) ''duration'') (pc_duration p)) (\<lambda>raw.
             and_then (nonzero_duration (pc_name p) ''duration'' raw) (\<lambda>d.
               Inr (expected_connections a, d, 0, []))))
      | None \<Rightarrow>
          (case pc_stages p of
             Some sc \<Rightarrow>
               (if pc_connections p \<noteq> None \<or> pc_duration p \<noteq> None \<or> pc_ramp_rate p \<noteq> None
                then Inl (Rejected (invalid_phase (pc_name p) ''stages''))
                else and_then (map_err Rejected (stages_compile (pc_name p) sc)) (\<lambda>stages.
                       case sum_durations 0 stages of
                         None \<Rightarrow> Inl Panicked
                       | Some d \<Rightarrow> Inr (max_target stages, d, 0, stages)))
           | None \<Rightarrow>
               map_err Rejected
                 (and_then (ok_or (invalid_phase (pc_name p) ''connections'') (pc_connections p)) (\<lambda>conns.
                  and_then (ok_or (invalid_phase (pc_name p) ''duration'') (pc_duration p)) (\<lambda>raw.
                    if conns = 0 then Inl (invalid_phase (pc_name p) ''connections'')
                    else and_then (nonzero_duration (pc_name p) ''duration'' raw) (\<lambda>d.
                           Inr (conns, d, or_default (pc_ramp_rate p) 0, [])))))))"

definition compile_think_time :: "'n phase_config \<Rightarrow> config_error + duration" where
  "compile_think_time p =
     (case pc_think_time p of
        None \<Rightarrow> Inr 0
      | Some raw \<Rightarrow> map_err (\<lambda>_. invalid_phase (pc_name p) ''think_time'') (parse_human_duration raw))"

definition phase_compile ::
    "(string \<Rightarrow> url_view option) \<Rightarrow> 'n phase_config \<Rightarrow> build_error + 'n scenario_phase" where
  "phase_compile url_parse p =
     and_then (map_err Rejected (compile_arrivals p)) (\<lambda>arrivals.
     and_then (compile_load p arrivals) (\<lambda>(conns, d, ramp, stages).
     and_then (map_err Rejected (compile_think_time p)) (\<lambda>think.
     and_then (map_err Rejected (phase_vars (pc_name p) (pc_actions p))) (\<lambda>vars.
     and_then (map_err Rejected (phase_action_names (pc_name p) (pc_actions p))) (\<lambda>names.
     and_then (map_err Rejected (collect_results (action_compile (pc_name p) vars names) (pc_actions p))) (\<lambda>actions.
     and_then (map_err Rejected (transpose_opt (parse_target_url url_parse) (pc_target p))) (\<lambda>target.
     and_then (map_err Rejected (compile_slo (pc_name p) (pc_slo p))) (\<lambda>slo.
     and_then (map_err Rejected (transpose_opt (chaos_compile (pc_name p)) (pc_chaos p))) (\<lambda>chaos.
       Inr \<lparr>ph_name = pc_name p, ph_target = target, ph_duration = d, ph_connections = conns, ph_ramp_rate = ramp,
            ph_rate_per_conn = pc_rate_per_conn p, ph_payload = map_option (\<lambda>s. from_text_with_vars s vars) (pc_payload p),
            ph_think_time = think, ph_actions = actions, ph_vars = vars, ph_action_names = names, ph_slo = slo,
            ph_stages = stages, ph_arrivals = arrivals, ph_chaos = chaos\<rparr>)))))))))"

section \<open>The whole scenario\<close>

definition scenario_slo :: "'n scenario_config \<Rightarrow> config_error + slo_thresholds" where
  "scenario_slo f = compile_slo ''slo'' (sf_slo f)"

fun validate_phases_loop ::
    "(string \<Rightarrow> url_view option) \<Rightarrow> 'n phase_config list \<Rightarrow> string list \<Rightarrow> build_error + unit" where
  "validate_phases_loop url_parse [] seen = Inr ()"
| "validate_phases_loop url_parse (p # ps) seen =
     (if trim (pc_name p) = [] then Inl (Rejected (InvalidScenario ''phase name'' []))
      else if pc_name p \<in> set seen then Inl (Rejected (InvalidScenario ''duplicate phase name'' (pc_name p)))
      else and_then (phase_compile url_parse p) (\<lambda>_. validate_phases_loop url_parse ps (pc_name p # seen)))"

definition scenario_validate :: "(string \<Rightarrow> url_view option) \<Rightarrow> 'n scenario_config \<Rightarrow> build_error + unit" where
  "scenario_validate url_parse f =
     (if sf_version f \<noteq> ''1.0'' then Inl (Rejected (InvalidScenario ''version'' (sf_version f)))
      else if trim (sf_name f) = [] then Inl (Rejected (InvalidScenario ''metadata.name'' []))
      else and_then (map_err Rejected (transpose_opt (parse_target_url url_parse) (sf_target f))) (\<lambda>_.
           and_then (map_err Rejected (scenario_slo f)) (\<lambda>_.
             if sf_phases f = [] then Inl (Rejected (InvalidScenario ''phases'' []))
             else validate_phases_loop url_parse (sf_phases f) [])))"

definition selected_phase :: "'n scenario_config \<Rightarrow> string option \<Rightarrow> config_error + 'n phase_config" where
  "selected_phase f selected =
     (case selected of
        Some name \<Rightarrow> ok_or (InvalidScenario ''phase not found'' name) (find (\<lambda>p. pc_name p = name) (sf_phases f))
      | None \<Rightarrow> (case sf_phases f of [] \<Rightarrow> Inl (InvalidScenario ''phases'' []) | p # _ \<Rightarrow> Inr p))"

definition phases_to_run :: "'n scenario_config \<Rightarrow> string option \<Rightarrow> config_error + 'n phase_config list" where
  "phases_to_run f selected =
     (if selected = None then Inr (sf_phases f) else and_then (selected_phase f selected) (\<lambda>p. Inr [p]))"

definition resolve_phase_targets ::
    "(string \<Rightarrow> url_view option) \<Rightarrow> 'n scenario_config \<Rightarrow> string option \<Rightarrow> string option \<Rightarrow> config_error + url_view list" where
  "resolve_phase_targets url_parse f cli_url selected =
     and_then (phases_to_run f selected) (collect_results (\<lambda>p.
       and_then (ok_or (invalid_phase (pc_name p) ''target'') (or_else (or_else cli_url (pc_target p)) (sf_target f)))
         (parse_target_url url_parse)))"

definition scenario_compile ::
    "(string \<Rightarrow> url_view option) \<Rightarrow> 'n scenario_config \<Rightarrow> string option \<Rightarrow> build_error + 'n scenario_phase list" where
  "scenario_compile url_parse f selected =
     and_then (map_err Rejected (phases_to_run f selected)) (collect_results (phase_compile url_parse))"

text \<open>\<open>action_slos\<close>: the thresholds of the named actions, in the order they appear.\<close>

fun action_slos_loop ::
    "(string \<times> 'n action_config) list \<Rightarrow> (string \<times> slo_thresholds) list \<Rightarrow> config_error + (string \<times> slo_thresholds) list" where
  "action_slos_loop [] slos = Inr slos"
| "action_slos_loop ((phase, Cfg_send s) # as) slos =
     (case (sc_name s, sc_slo s) of
        (Some name, Some slo) \<Rightarrow>
          (if sk_min_throughput slo \<noteq> None \<or> sk_max_generator_lag slo \<noteq> None then Inl (InvalidScenario phase name)
           else if list_ex (\<lambda>(other, _). other = name) slos then Inl (InvalidScenario phase name)
           else and_then (slo_compile phase slo) (\<lambda>t. action_slos_loop as (slos @ [(name, t)])))
      | _ \<Rightarrow> action_slos_loop as slos)"
| "action_slos_loop (_ # as) slos = action_slos_loop as slos"

definition action_slos ::
    "(string \<Rightarrow> url_view option) \<Rightarrow> 'n scenario_config \<Rightarrow> string option \<Rightarrow> build_error + (string \<times> slo_thresholds) list" where
  "action_slos url_parse f selected =
     and_then (map_err Rejected
         (action_slos_loop (concat (map (\<lambda>p. map (Pair (pc_name p)) (pc_actions p)) (sf_phases f))) [])) (\<lambda>slos.
     and_then (scenario_compile url_parse f selected) (\<lambda>running.
       Inr (filter (\<lambda>(name, _). list_ex (\<lambda>p. name \<in> set (ph_action_names p)) running) slos)))"

definition check_phase_mode :: "test_mode \<Rightarrow> 'n scenario_phase \<Rightarrow> config_error + unit" where
  "check_phase_mode mode p =
     and_then (validate_latency_mode (ph_slo p) mode) (\<lambda>_.
       case ph_chaos p of
         Some c \<Rightarrow> (if is_active c then validate_chaos_mode c mode (ph_actions p \<noteq> []) else Inr ())
       | None \<Rightarrow> Inr ())"

definition validate_slo_mode ::
    "(string \<Rightarrow> url_view option) \<Rightarrow> 'n scenario_config \<Rightarrow> test_mode \<Rightarrow> string option \<Rightarrow> build_error + unit" where
  "validate_slo_mode url_parse f mode selected =
     and_then (map_err Rejected (and_then (scenario_slo f) (\<lambda>slo. validate_latency_mode slo mode))) (\<lambda>_.
     and_then (action_slos url_parse f selected) (\<lambda>slos.
     and_then (map_err Rejected (collect_results (\<lambda>(_, slo). validate_latency_mode slo mode) slos)) (\<lambda>_.
     and_then (scenario_compile url_parse f selected) (\<lambda>phases.
     and_then (map_err Rejected (collect_results (check_phase_mode mode) phases)) (\<lambda>_. Inr ())))))"

section \<open>Compiled phases are well formed\<close>

definition action_ok :: "'n scenario_phase \<Rightarrow> 'n scenario_action \<Rightarrow> bool" where
  "action_ok p a =
     (case a of
        Act_send payload count expect captures name \<Rightarrow>
          0 < count \<and> (case expect of None \<Rightarrow> True | Some c \<Rightarrow> check_validate c = Inr ()) \<and>
          (\<forall>c\<in>set captures. cap_var c < length (ph_vars p) \<and> check_pointer (cap_pointer c) = Inr ()) \<and>
          (case name of None \<Rightarrow> True | Some n \<Rightarrow> n < length (ph_action_names p))
      | Act_wait d \<Rightarrow> 0 < d \<and> d \<le> duration_max
      | Act_ping d \<Rightarrow> 0 < d \<and> d \<le> duration_max
      | Act_close code reason \<Rightarrow> is_sendable_close_code code)"

definition phase_load_ok :: "'n scenario_phase \<Rightarrow> bool" where
  "phase_load_ok p \<longleftrightarrow> 0 < ph_connections p \<and> 0 < ph_duration p \<and> ph_duration p \<le> duration_max \<and>
     (ph_stages p \<noteq> [] \<longrightarrow> ph_ramp_rate p = 0 \<and> ph_arrivals p = None \<and> ph_connections p = max_target (ph_stages p) \<and>
        ph_duration p = total_duration (ph_stages p) \<and> (\<forall>s\<in>set (ph_stages p). 0 < st_duration s)) \<and>
     (\<forall>a. ph_arrivals p = Some a \<longrightarrow> ph_ramp_rate p = 0 \<and> ph_stages p = [] \<and> check_values a = Inr () \<and>
        ph_connections p = expected_connections a)"

definition phase_ok :: "'n scenario_phase \<Rightarrow> bool" where
  "phase_ok p \<longleftrightarrow> phase_load_ok p \<and> ph_think_time p \<le> duration_max \<and> (\<forall>a\<in>set (ph_actions p). action_ok p a) \<and>
     distinct (ph_vars p) \<and> (\<forall>v\<in>set (ph_vars p). check_var_name v = Inr ()) \<and>
     distinct (ph_action_names p) \<and> validate_error_rate (ph_slo p) = Inr () \<and>
     (case ph_chaos p of None \<Rightarrow> True | Some c \<Rightarrow> chaos_validate c = Inr ())"

lemma position_mem: "x \<in> set xs \<Longrightarrow> \<exists>i. position (\<lambda>y. y = x) xs = Some i"
  using position_None_iff [of "\<lambda>y. y = x" xs] by auto

lemma set_push_new [simp]: "set (push_new x xs) = insert x (set xs)"
  by (auto simp: push_new_def)

lemma distinct_push_new [simp]: "distinct xs \<Longrightarrow> distinct (push_new x xs)"
  by (simp add: push_new_def)

lemma capture_vars_ok:
  assumes "capture_vars phase names vars = Inr vs" "distinct vars" "\<forall>v\<in>set vars. check_var_name v = Inr ()"
  shows "distinct vs \<and> (\<forall>v\<in>set vs. check_var_name v = Inr ()) \<and> set vs = set vars \<union> set names"
  using assms
proof (induction names arbitrary: vars)
  case (Cons name names)
  from Cons.prems(1) have v: "check_var_name name = Inr ()" "capture_vars phase names (push_new name vars) = Inr vs"
    by (simp_all add: and_then_Inr_iff)
  from v(1) Cons.prems(2,3) have "distinct (push_new name vars)" "\<forall>v\<in>set (push_new name vars). check_var_name v = Inr ()"
    by simp_all
  from Cons.IH [OF v(2) this] show ?case by simp
qed simp

lemma vars_loop_ok:
  assumes "vars_loop phase as vars = Inr vs" "distinct vars" "\<forall>v\<in>set vars. check_var_name v = Inr ()"
  shows "distinct vs \<and> (\<forall>v\<in>set vs. check_var_name v = Inr ()) \<and> set vars \<subseteq> set vs \<and>
    (\<forall>s cs v p. Cfg_send s \<in> set as \<longrightarrow> sc_capture s = Some cs \<longrightarrow> (v, p) \<in> set cs \<longrightarrow> v \<in> set vs)"
  using assms
proof (induction phase as vars rule: vars_loop.induct)
  case (2 phase s as vars)
  show ?case
  proof (cases "sc_capture s")
    case (Some captures)
    with "2.prems" obtain vs' where vs': "capture_vars phase (map fst captures) vars = Inr vs'" "vars_loop phase as vs' = Inr vs"
      by (auto simp: result_rules)
    note c = capture_vars_ok [OF vs'(1) "2.prems"(2,3)]
    note i = "2.IH"(2) [OF Some vs'(2)]
    have "v \<in> set vs" if "(v, p) \<in> set captures" for v p
      using c i that by (auto dest: image_eqI [where f = fst])
    moreover have "set vars \<subseteq> set vs" using c i by auto
    ultimately show ?thesis using c i Some by auto
  qed (use 2 in auto)
qed auto

lemma action_names_loop_ok:
  assumes "action_names_loop phase as names = Inr ns" "distinct names"
  shows "distinct ns"
  using assms
  by (induction phase as names rule: action_names_loop.induct) (auto split: option.splits if_splits)

lemma nonzero_duration_ok: "nonzero_duration phase key raw = Inr d \<Longrightarrow> 0 < d \<and> d \<le> duration_max"
  by (auto simp: nonzero_duration_def result_rules dest: parse_human_duration_max split: if_splits)

lemma compile_arrivals_ok:
  assumes "compile_arrivals p = Inr arrivals"
  shows "case arrivals of None \<Rightarrow> True | Some a \<Rightarrow> check_values a = Inr ()"
  using assms by (auto simp: compile_arrivals_def result_rules Let_def split: option.splits if_splits)

lemma sum_durations_total: "sum_durations acc ss = Some d \<Longrightarrow> d = acc + total_duration ss \<and> (acc \<le> duration_max \<longrightarrow> d \<le> duration_max)"
  by (induction ss arbitrary: acc) (fastforce simp: duration_add_def total_duration_def split: option.splits if_splits)+

lemma stages_compile_ok:
  assumes "stages_compile phase sc = Inr ss"
  shows "ss \<noteq> []" "\<forall>s\<in>set ss. 0 < st_duration s" "0 < max_target ss"
proof -
  from assms have ss: "ss \<noteq> []" "\<not> list_ex (\<lambda>s. st_duration s = 0) ss" "\<not> list_all (\<lambda>s. st_target s = 0) ss"
    by (auto simp: stages_compile_def result_rules split: if_splits)
  then show "ss \<noteq> []" "\<forall>s\<in>set ss. 0 < st_duration s" by (auto simp: list_ex_iff)
  from ss(3) obtain s where "s \<in> set ss" "0 < st_target s" by (auto simp: list_all_iff)
  then have "0 < Max (set (map st_target ss))" by (subst Max_gr_iff) auto
  with ss(1) show "0 < max_target ss" by (simp add: max_target_def)
qed

lemma compile_load_ok:
  assumes "compile_arrivals p = Inr arrivals" "compile_load p arrivals = Inr (conns, d, ramp, stages)"
  shows "0 < conns \<and> 0 < d \<and> d \<le> duration_max \<and>
    (stages \<noteq> [] \<longrightarrow> ramp = 0 \<and> arrivals = None \<and> conns = max_target stages \<and> d = total_duration stages \<and>
       (\<forall>s\<in>set stages. 0 < st_duration s)) \<and>
    (\<forall>a. arrivals = Some a \<longrightarrow> ramp = 0 \<and> stages = [] \<and> check_values a = Inr () \<and> conns = expected_connections a)"
proof (cases arrivals)
  case (Some a)
  then show ?thesis
    using assms compile_arrivals_ok [OF assms(1)]
    by (auto simp: compile_load_def result_rules expected_connections_pos dest!: nonzero_duration_ok)
next
  case None
  show ?thesis
  proof (cases "pc_stages p")
    case (Some sc)
    with None assms(2) have st: "stages_compile (pc_name p) sc = Inr stages" "sum_durations 0 stages = Some d"
      "conns = max_target stages" "ramp = 0"
      by (auto simp: compile_load_def result_rules split: if_splits option.splits)
    have d: "d = total_duration stages" "d \<le> duration_max" using sum_durations_total [OF st(2)] by simp_all
    note ok = stages_compile_ok [OF st(1)]
    then have "0 < total_duration stages"
      by (cases stages) (auto simp: total_duration_def)
    with d ok st None show ?thesis by simp
  next
    case no_stages: None
    with None assms(2) show ?thesis
      by (auto simp: compile_load_def result_rules split: if_splits dest!: nonzero_duration_ok)
  qed
qed

lemma captures_compile_ok:
  assumes "captures_compile phase vars captures = Inr cs" "\<And>v p. (v, p) \<in> set captures \<Longrightarrow> v \<in> set vars" "c \<in> set cs"
  shows "cap_var c < length vars" "check_pointer (cap_pointer c) = Inr ()"
proof -
  from assms(1,3) obtain v pt where "(v, pt) \<in> set captures" and
    c: "check_pointer pt = Inr ()" "c = \<lparr>cap_var = or_default (position (\<lambda>var. var = v) vars) 0, cap_pointer = pt\<rparr>"
    by (auto simp: captures_compile_def collect_results_Inr_iff result_rules elim!: list_all2_find_element_rev)
  with assms(2) position_mem obtain j where "position (\<lambda>var. var = v) vars = Some j" by metis
  with c position_Some [of "\<lambda>var. var = v" vars j] show "cap_var c < length vars" "check_pointer (cap_pointer c) = Inr ()"
    by (auto simp: or_default_def)
qed

lemma expect_compile_ok: "expect_compile phase e = Inr c \<Longrightarrow> check_validate c = Inr ()"
  by (auto simp: expect_compile_def result_rules)

lemma action_compile_ok:
  assumes "action_compile phase (ph_vars q) (ph_action_names q) a = Inr act"
    "\<And>s cs v p. a = Cfg_send s \<Longrightarrow> sc_capture s = Some cs \<Longrightarrow> (v, p) \<in> set cs \<Longrightarrow> v \<in> set (ph_vars q)"
  shows "action_ok q act"
proof (cases a)
  case (Cfg_send s)
  from assms(1) obtain cs expect where cs: "captures_compile phase (ph_vars q) (or_default (sc_capture s) []) = Inr cs"
    "transpose_opt (expect_compile phase) (sc_expect s) = Inr expect" "or_default (sc_count s) 1 \<noteq> 0"
    "act = Act_send (map_option (\<lambda>p. from_text_with_vars p (ph_vars q)) (sc_payload s)) (or_default (sc_count s) 1) expect cs
       (Option.bind (sc_name s) (\<lambda>n. position (\<lambda>m. m = n) (ph_action_names q)))"
    by (auto simp: Cfg_send action_compile_def Let_def result_rules split: if_splits)
  have "v \<in> set (ph_vars q)" if "(v, pt) \<in> set (or_default (sc_capture s) [])" for v pt
    using that assms(2) [OF Cfg_send] by (cases "sc_capture s") (auto simp: or_default_def)
  note cap = captures_compile_ok [OF cs(1) this]
  have ex: "case expect of None \<Rightarrow> True | Some c \<Rightarrow> check_validate c = Inr ()"
    using cs(2) by (auto simp: transpose_opt_def result_rules dest!: expect_compile_ok split: option.splits)
  have "case Option.bind (sc_name s) (\<lambda>n. position (\<lambda>m. m = n) (ph_action_names q)) of None \<Rightarrow> True | Some n \<Rightarrow> n < length (ph_action_names q)"
    by (auto split: option.split dest: position_Some simp: bind_eq_Some_conv)
  with ex cap cs(3,4) show ?thesis by (auto simp: action_ok_def)
qed (use assms(1) in \<open>auto simp: action_compile_def result_rules action_ok_def validate_close_code_def
    dest!: nonzero_duration_ok split: if_splits\<close>)

lemma slo_compile_ok: "compile_slo ctx s = Inr slo \<Longrightarrow> validate_error_rate slo = Inr ()"
  by (auto simp: compile_slo_def slo_compile_def result_rules Let_def slo_none_def validate_error_rate_def split: option.splits)

lemma chaos_compile_ok: "chaos_compile phase y = Inr c \<Longrightarrow> chaos_validate c = Inr ()"
  unfolding chaos_compile_def map_err_Inr_iff and_then_Inr_iff Let_def
  by (elim exE conjE) (simp add: case_prod_unfold and_then_Inr_iff, metis)

lemma phase_compile_ok:
  assumes "phase_compile url_parse p = Inr q"
  shows "phase_ok q \<and> ph_name q = pc_name p"
proof -
  from assms obtain arrivals conns d ramp stages where
    c1: "compile_arrivals p = Inr arrivals" "compile_load p arrivals = Inr (conns, d, ramp, stages)"
    by (auto simp: phase_compile_def and_then_Inr_iff)
  from assms have "\<exists>think vars names actions target slo chaos. compile_think_time p = Inr think \<and>
      phase_vars (pc_name p) (pc_actions p) = Inr vars \<and> phase_action_names (pc_name p) (pc_actions p) = Inr names \<and>
      collect_results (action_compile (pc_name p) vars names) (pc_actions p) = Inr actions \<and>
      compile_slo (pc_name p) (pc_slo p) = Inr slo \<and> transpose_opt (chaos_compile (pc_name p)) (pc_chaos p) = Inr chaos \<and>
      q = \<lparr>ph_name = pc_name p, ph_target = target, ph_duration = d, ph_connections = conns, ph_ramp_rate = ramp,
            ph_rate_per_conn = pc_rate_per_conn p, ph_payload = map_option (\<lambda>s. from_text_with_vars s vars) (pc_payload p),
            ph_think_time = think, ph_actions = actions, ph_vars = vars, ph_action_names = names, ph_slo = slo,
            ph_stages = stages, ph_arrivals = arrivals, ph_chaos = chaos\<rparr>"
    unfolding phase_compile_def c1 and_then.simps map_err.simps prod.case and_then_Inr_iff map_err_Inr_iff sum.inject
    by (elim exE conjE) (intro exI conjI, assumption+, erule sym)
  then obtain think vars names actions target slo chaos where
    c2: "compile_think_time p = Inr think" "phase_vars (pc_name p) (pc_actions p) = Inr vars"
      "phase_action_names (pc_name p) (pc_actions p) = Inr names"
      "collect_results (action_compile (pc_name p) vars names) (pc_actions p) = Inr actions"
      "compile_slo (pc_name p) (pc_slo p) = Inr slo" "transpose_opt (chaos_compile (pc_name p)) (pc_chaos p) = Inr chaos" and
    q: "q = \<lparr>ph_name = pc_name p, ph_target = target, ph_duration = d, ph_connections = conns, ph_ramp_rate = ramp,
            ph_rate_per_conn = pc_rate_per_conn p, ph_payload = map_option (\<lambda>s. from_text_with_vars s vars) (pc_payload p),
            ph_think_time = think, ph_actions = actions, ph_vars = vars, ph_action_names = names, ph_slo = slo,
            ph_stages = stages, ph_arrivals = arrivals, ph_chaos = chaos\<rparr>"
    by (elim exE conjE)
  note c = c1 c2
  note v = vars_loop_ok [OF c(4) [unfolded phase_vars_def]]
  have load: "phase_load_ok q" using compile_load_ok [OF c(1,2)] unfolding phase_load_ok_def q scenario_phase.select_convs .
  have acts: "action_ok q a" if "a \<in> set actions" for a
  proof -
    from c(6) that obtain x where x: "x \<in> set (pc_actions p)" "action_compile (pc_name p) vars names x = Inr a"
      by (auto simp: collect_results_Inr_iff elim!: list_all2_find_element_rev)
    have "v' \<in> set (ph_vars q)" if "x = Cfg_send s" "sc_capture s = Some cs" "(v', pt) \<in> set cs" for s cs v' pt
      using that x(1) v by (simp add: q) blast
    moreover have "action_compile (pc_name p) (ph_vars q) (ph_action_names q) x = Inr a" using x(2) by (simp add: q)
    ultimately show ?thesis by (rule action_compile_ok [rotated])
  qed
  have th: "think \<le> duration_max"
    using c(3) by (auto simp: compile_think_time_def dest: parse_human_duration_max split: option.splits)
  have ch: "case chaos of None \<Rightarrow> True | Some c \<Rightarrow> chaos_validate c = Inr ()"
    using c(8) by (auto simp: transpose_opt_def result_rules dest!: chaos_compile_ok split: option.splits)
  have "distinct names" using action_names_loop_ok c(5) by (fastforce simp: phase_action_names_def)
  with load acts th ch v slo_compile_ok [OF c(7)] show ?thesis by (simp add: phase_ok_def q)
qed

text \<open>A small phase used by the witnesses: one named send that captures, then a close.\<close>

definition sample_phase :: "nat phase_config" where
  "sample_phase = \<lparr>pc_name = ''steady'', pc_target = None, pc_duration = Some ''90'', pc_connections = Some 2, pc_ramp_rate = None,
     pc_stages = None, pc_arrival_rate = None, pc_session_duration = None, pc_max_connections = None, pc_rate_per_conn = 0,
     pc_payload = None, pc_think_time = None,
     pc_actions = [Cfg_send \<lparr>sc_payload = None, sc_count = None, sc_expect = None, sc_capture = Some [(''tok'', ''/t'')],
       sc_name = Some ''login'', sc_slo = None\<rparr>, Cfg_close (Some 1000) None],
     pc_slo = None, pc_chaos = None\<rparr>"

definition sample_scenario :: "nat scenario_config" where
  "sample_scenario = \<lparr>sf_version = ''1.0'', sf_target = None, sf_name = ''smoke'', sf_slo = None, sf_data = None,
     sf_phases = [sample_phase]\<rparr>"

text \<open>A phase that compiles can be run. Its load is consistent (at least one connection and a positive duration; with
  stages, the highest target and the sum of the stage durations, no ramp and no arrivals; with arrivals, the expected
  number of sessions), every send of its script has a positive count, its reply check is valid, each of its captures sets a
  variable of the phase and its name is one of the phase's, every wait and ping takes time, every close code may be
  sent, variables and names are distinct, the error-rate threshold is a share and the faults are valid.\<close>

theorem compiled_phase_valid:
  assumes "phase_compile url_parse p = Inr q"
  shows "phase_ok q"
  using phase_compile_ok [OF assms] ..

lemma sample_texts:
  "trim ''login'' = ''login''" "trim ''steady'' = ''steady''" "trim ''smoke'' = ''smoke''" "check_var_name ''tok'' = Inr ()"
  "check_pointer ''/t'' = Inr ()"
  by code_simp+

lemma sample_compiles:
  "phase_compile url_parse sample_phase = Inr \<lparr>ph_name = ''steady'', ph_target = None, ph_duration = 90000000000, ph_connections = 2,
     ph_ramp_rate = 0, ph_rate_per_conn = 0, ph_payload = None, ph_think_time = 0,
     ph_actions = [Act_send None 1 None [\<lparr>cap_var = 0, cap_pointer = ''/t''\<rparr>] (Some 0), Act_close 1000 []],
     ph_vars = [''tok''], ph_action_names = [''login''], ph_slo = slo_none, ph_stages = [], ph_arrivals = None, ph_chaos = None\<rparr>"
proof -
  have "has_control ''login'' = False" by (simp add: byte_in_def)
  then show ?thesis
    by (simp add: phase_compile_def sample_phase_def compile_arrivals_def compile_load_def nonzero_duration_def bare_seconds
        compile_think_time_def phase_vars_def phase_action_names_def push_new_def MAX_ACTION_NAME_def action_compile_def
        captures_compile_def or_default_def transpose_opt_def validate_close_code_def is_sendable_close_code_def
        compile_slo_def sample_texts del: has_control.simps)
qed

theorem compiled_phase_valid_witness:
  "\<exists>q. phase_compile (\<lambda>_. None) sample_phase = Inr q \<and> phase_ok q \<and> ph_vars q = [''tok'']"
  using compiled_phase_valid [OF sample_compiles] sample_compiles by fastforce

lemma validate_loop_compiles:
  assumes "validate_phases_loop url_parse ps seen = Inr ()"
  shows "(\<exists>qs. collect_results (phase_compile url_parse) ps = Inr qs) \<and> distinct (map pc_name ps) \<and>
    set (map pc_name ps) \<inter> set seen = {} \<and> (\<forall>p\<in>set ps. trim (pc_name p) \<noteq> [])"
  using assms
proof (induction ps arbitrary: seen)
  case (Cons p ps)
  from Cons.prems obtain q where q: "phase_compile url_parse p = Inr q" "validate_phases_loop url_parse ps (pc_name p # seen) = Inr ()"
    "pc_name p \<notin> set seen" "trim (pc_name p) \<noteq> []"
    by (auto simp: and_then_Inr_iff split: if_splits)
  from Cons.IH [OF q(2)] q show ?case by (auto simp: and_then_Inr_iff)
qed simp

text \<open>A scenario that validates always runs. Compiling it gives one valid phase per phase of the file, in order and under
  their distinct names; choosing a phase by name gives that phase alone, the one that also runs in the whole
  scenario; and only a name that no phase has is refused.\<close>

theorem validated_scenario_compiles:
  assumes "scenario_validate url_parse f = Inr ()"
  shows "\<exists>qs. scenario_compile url_parse f None = Inr qs \<and> qs \<noteq> [] \<and> map ph_name qs = map pc_name (sf_phases f) \<and>
    distinct (map ph_name qs) \<and> (\<forall>q\<in>set qs. phase_ok q) \<and>
    (\<forall>name. case find (\<lambda>q. ph_name q = name) qs of
       Some q \<Rightarrow> scenario_compile url_parse f (Some name) = Inr [q]
     | None \<Rightarrow> scenario_compile url_parse f (Some name) = Inl (Rejected (InvalidScenario ''phase not found'' name)))"
proof -
  from assms have v: "validate_phases_loop url_parse (sf_phases f) [] = Inr ()" "sf_phases f \<noteq> []"
    by (auto simp: scenario_validate_def and_then_Inr_iff split: if_splits)
  from validate_loop_compiles [OF v(1)] obtain qs where qs: "collect_results (phase_compile url_parse) (sf_phases f) = Inr qs"
    and d: "distinct (map pc_name (sf_phases f))" by blast
  then have l: "list_all2 (\<lambda>p q. phase_compile url_parse p = Inr q) (sf_phases f) qs" by (simp add: collect_results_Inr_iff)
  then have n: "map ph_name qs = map pc_name (sf_phases f)" and ok: "\<forall>q\<in>set qs. phase_ok q"
    by (induction rule: list_all2_induct) (auto dest: phase_compile_ok)
  have sel: "case find (\<lambda>q. ph_name q = name) qs of
       Some q \<Rightarrow> \<exists>p. find (\<lambda>p. pc_name p = name) (sf_phases f) = Some p \<and> phase_compile url_parse p = Inr q
     | None \<Rightarrow> find (\<lambda>p. pc_name p = name) (sf_phases f) = None" for name
    using l by (induction rule: list_all2_induct) (auto dest: phase_compile_ok split: option.splits)
  have "case find (\<lambda>q. ph_name q = name) qs of
       Some q \<Rightarrow> scenario_compile url_parse f (Some name) = Inr [q]
     | None \<Rightarrow> scenario_compile url_parse f (Some name) = Inl (Rejected (InvalidScenario ''phase not found'' name))" for name
    using sel [of name]
    by (auto simp: scenario_compile_def phases_to_run_def selected_phase_def split: option.splits)
  with qs v(2) n ok d l show ?thesis
    by (intro exI [of _ qs]) (auto simp: scenario_compile_def phases_to_run_def dest: list_all2_lengthD)
qed

theorem validated_scenario_compiles_witness:
  "\<exists>qs. scenario_compile (\<lambda>_. None) sample_scenario None = Inr qs \<and> map ph_name qs = [''steady'']"
proof -
  have "scenario_validate (\<lambda>_. None) sample_scenario = Inr ()"
    by (simp add: scenario_validate_def sample_scenario_def transpose_opt_def scenario_slo_def compile_slo_def sample_compiles
        sample_texts)
      (simp add: sample_phase_def sample_texts)
  from validated_scenario_compiles [OF this] show ?thesis by (auto simp: sample_scenario_def sample_phase_def)
qed

end
