(* ===== verification/Worker_Modes.thy ===== *)
theory Worker_Modes
  imports Worker_Slots Scenario
begin

text \<open>
  The other session loops of \<open>src/worker.rs\<close>: the action script of a scenario phase (\<open>run_action_loop\<close>), a GraphQL
  subscription (\<open>run_graphql_ws_loop\<close>) and a Socket.IO session (\<open>run_socketio\<close>), and \<open>mode_loop\<close>, which picks the
  loop a connection runs. The derived JSON codec of \<open>GraphQLWSMessage\<close> is a parameter; what the waits
  of a loop end with is its input, as for the echo loop.
\<close>

section \<open>The action script of a phase\<close>

definition with_scenario :: "'n scenario_phase \<Rightarrow> ('n, 'h) session \<Rightarrow> ('n, 'h) session" where
  "with_scenario phase s = s\<lparr>s_think_time := Some (ph_think_time phase)\<rparr>"

definition max_requests_reached :: "('n, 'h) session \<Rightarrow> bool" where
  "max_requests_reached s =
     (case lc_max_requests (s_config s) of
        None \<Rightarrow> False
      | Some limit \<Rightarrow> requests_exhausted (word_of_nat limit) (wd_live (snd (s_state s))))"

record send_inputs =
  si_cancelled :: bool
  si_slot :: bool
  si_delay_done :: bool
  si_now_ms :: nat
  si_sent_at :: instant
  si_error :: "tungstenite_error option"
  si_items :: "stream_item list"
  si_wait_cancelled :: bool
  si_received_at :: instant
  si_pause_done :: bool

record 'n send_action =
  sa_payload :: "payload_config option"
  sa_expect :: "'n check option"
  sa_captures :: "capture list"

text \<open>After a message: its number and slot, and a chaos close.\<close>

definition script_sent :: "('n, 'h) echo_state \<Rightarrow> ('n, 'h) echo_state \<times> round_end" where
  "script_sent e =
     (let e = reschedule advance (e\<lparr>es_seq := es_seq e + 1\<rparr>)
      in case chaos_close_now (es_session e) of
           (Some graceful, s) \<Rightarrow> (case chaos_close graceful s of (out, s) \<Rightarrow> break_loop (emit out (e\<lparr>es_session := s\<rparr>)))
         | (None, s) \<Rightarrow> (e\<lparr>es_session := s\<rparr>, Next))"

definition script_reply ::
    "'n serde_json \<Rightarrow> 'h interval_hist \<Rightarrow> bool \<Rightarrow> 'n send_action \<Rightarrow> send_inputs \<Rightarrow> instant option \<Rightarrow> bool \<Rightarrow> message
     \<Rightarrow> ('n, 'h) echo_state \<Rightarrow> ('n, 'h) echo_state \<times> round_end" where
  "script_reply sj H windows a i due corrupted reply e =
     (let rtt = si_received_at i - si_sent_at i;
          s = record_with (record_message_recv H (si_received_at i) (word_of_nat (message_byte_len reply)) (Some rtt)) (es_session e);
          s = (if corrupted then s else check_reply sj reply (sa_expect a) (sa_captures a) s);
          s = (case due of
                 None \<Rightarrow> s
               | Some d \<Rightarrow> record_with (record_response_time H (si_received_at i) (response_time windows d (si_sent_at i) rtt)) s)
      in case chaos_read_pause s of
           None \<Rightarrow> (e\<lparr>es_session := s\<rparr>, Panics)
         | Some (None, s) \<Rightarrow> script_sent (e\<lparr>es_session := s\<rparr>)
         | Some (Some pause, s) \<Rightarrow>
             (let e = e\<lparr>es_session := s\<rparr>
              in if \<not> si_pause_done i then break_cancelled e else script_sent (reschedule (shift pause) e)))"

definition script_message ::
    "'n serde_json \<Rightarrow> 'h interval_hist \<Rightarrow> bool \<Rightarrow> 'n send_action \<Rightarrow> send_inputs \<Rightarrow> instant option \<Rightarrow> bool
     \<Rightarrow> ('n, 'h) echo_state \<Rightarrow> ('n, 'h) echo_state \<times> round_end" where
  "script_message sj H windows a i due corrupt_it e =
     (let seq = es_seq e;
          config = s_config (es_session e);
          payload = or_default (sa_payload a) (lc_payload config);
          ((msg, corrupted), s) = chaos_corrupt (render_message (si_now_ms i) payload seq (es_session e)) corrupt_it (es_session e);
          e = e\<lparr>es_session := s\<rparr>;
          sent = (if lc_reply_match config = Exact then Some msg else None)
      in case si_error i of
           Some err \<Rightarrow> break_loop (in_session (record_with (record_error (categorize_session_error err Dir_write) Attempt)) e)
         | None \<Rightarrow>
             (let e = emit [msg] (in_session (record_with (record_message_sent (word_of_nat (message_byte_len msg)))) e)
              in if \<not> awaits_replies (lc_mode config) then script_sent e
                 else
                   (let (result, unsolicited, pongs) = await_reply sj (lc_reply_match config) sent seq corrupted (si_items i) 0 [];
                        e = emit pongs (in_session (record_with (record_unsolicited_frames (word_of_nat unsolicited))) e)
                    in if si_wait_cancelled i then break_cancelled e
                       else (case result of
                               None \<Rightarrow> break_loop (in_session (record_with (record_error Timeout SentMessage)) e)
                             | Some (Inl cat) \<Rightarrow> break_loop (in_session (record_with (record_error cat SentMessage)) e)
                             | Some (Inr None) \<Rightarrow> break_loop e
                             | Some (Inr (Some reply)) \<Rightarrow> script_reply sj H windows a i due corrupted reply e))))"

text \<open>One message of a burst: its slot (a scheduled one in echo mode, a tick in the other modes), then as in the echo loop.\<close>

definition script_send ::
    "'n serde_json \<Rightarrow> 'h interval_hist \<Rightarrow> bool \<Rightarrow> 'n send_action \<Rightarrow> send_inputs \<Rightarrow> ('n, 'h) echo_state
     \<Rightarrow> ('n, 'h) echo_state \<times> round_end" where
  "script_send sj H windows a i e =
     (if si_cancelled i \<or> s_cancelled (es_session e) then break_cancelled e
      else
        (let due = map_option sd_next_due (es_schedule e);
             config = s_config (es_session e);
             paced = (due \<noteq> None \<or> \<not> awaits_replies (lc_mode config) \<and> 0 < lc_rate_per_conn config)
         in if paced \<and> \<not> si_slot i then break_cancelled e
            else (case claim_send (es_session e) of
                    (False, s) \<Rightarrow> break_cancelled (e\<lparr>es_session := s\<rparr>)
                  | (True, s) \<Rightarrow>
                      (case chaos_plan s of
                         None \<Rightarrow> (e\<lparr>es_session := s\<rparr>, Panics)
                       | Some (plan, s) \<Rightarrow>
                           (let e = e\<lparr>es_session := s\<rparr>
                            in if sp_drop plan
                               then (reschedule advance ((in_session chaos_dropped e)\<lparr>es_seq := es_seq e + 1\<rparr>), Next)
                               else if sp_delay plan > 0
                               then (let e = in_session chaos_delayed e
                                     in if \<not> si_delay_done i then break_cancelled e
                                        else script_message sj H windows a i (map_option (\<lambda>d. d + sp_delay plan) due)
                                               (sp_corrupt plan) (reschedule (shift (sp_delay plan)) e))
                               else script_message sj H windows a i due (sp_corrupt plan) e)))))"

text \<open>How an action, or the script, ends; \<open>Unfinished\<close> when the inputs end first or the task panicked.\<close>

datatype script_end = Goes_on | Leaves | Closed | Unfinished

fun script_burst ::
    "'n serde_json \<Rightarrow> 'h interval_hist \<Rightarrow> bool \<Rightarrow> 'n send_action \<Rightarrow> nat \<Rightarrow> send_inputs list \<Rightarrow> ('n, 'h) echo_state
     \<Rightarrow> ('n, 'h) echo_state \<times> script_end" where
  "script_burst sj H windows a 0 is e = (e, Goes_on)"
| "script_burst sj H windows a (Suc n) [] e = (e, Unfinished)"
| "script_burst sj H windows a (Suc n) (i # is) e =
     (case script_send sj H windows a i e of
        (e, Next) \<Rightarrow> script_burst sj H windows a n is e
      | (e, Break) \<Rightarrow> (e, Leaves)
      | (e, Panics) \<Rightarrow> (e, Unfinished))"

record action_inputs =
  ai_cancelled :: bool
  ai_sends :: "send_inputs list"
  ai_ping_error :: "tungstenite_error option"
  ai_pause_done :: bool
  ai_now :: instant

definition set_action :: "nat option \<Rightarrow> ('n, 'h) echo_state \<Rightarrow> ('n, 'h) echo_state" where
  "set_action name e = in_session (record_with (own (\<lambda>w. w\<lparr>w_current_action := name\<rparr>))) e"

definition leave_script :: "('n, 'h) echo_state \<times> round_end \<Rightarrow> ('n, 'h) echo_state \<times> script_end" where
  "leave_script r = (fst r, Leaves)"

text \<open>A deliberate pause, after which the schedule restarts from now.\<close>

definition script_pause :: "action_inputs \<Rightarrow> ('n, 'h) echo_state \<Rightarrow> ('n, 'h) echo_state \<times> script_end" where
  "script_pause i e =
     (if \<not> ai_pause_done i then leave_script (break_cancelled e)
      else (reschedule (restart_after_pause (ai_now i)) e, Goes_on))"

definition script_action ::
    "'n serde_json \<Rightarrow> 'h interval_hist \<Rightarrow> bool \<Rightarrow> 'n scenario_action \<Rightarrow> action_inputs \<Rightarrow> ('n, 'h) echo_state
     \<Rightarrow> ('n, 'h) echo_state \<times> script_end" where
  "script_action sj H windows act i e =
     (if ai_cancelled i \<or> s_cancelled (es_session e) \<or> max_requests_reached (es_session e) then leave_script (break_cancelled e)
      else (case act of
              Act_send payload n expect captures name \<Rightarrow>
                (case script_burst sj H windows \<lparr>sa_payload = payload, sa_expect = expect, sa_captures = captures\<rparr> n
                        (ai_sends i) (set_action name e) of
                   (e, Goes_on) \<Rightarrow>
                     (let e = set_action None e
                      in if records_response (es_session e) then (e, Goes_on) else script_pause i e)
                 | r \<Rightarrow> r)
            | Act_wait d \<Rightarrow> script_pause i e
            | Act_ping d \<Rightarrow>
                (case ai_ping_error i of
                   Some err \<Rightarrow>
                     leave_script (break_loop (in_session (record_with (record_error (categorize_session_error err Dir_write) Attempt)) e))
                 | None \<Rightarrow> script_pause i (emit [heartbeat] e))
            | Act_close code reason \<Rightarrow> (emit [Msg_Close (Some (code, reason))] e, Closed)))"

text \<open>The script repeats after its last action.\<close>

fun script_loop ::
    "'n serde_json \<Rightarrow> 'h interval_hist \<Rightarrow> bool \<Rightarrow> 'n scenario_action list \<Rightarrow> nat \<Rightarrow> action_inputs list \<Rightarrow> ('n, 'h) echo_state
     \<Rightarrow> ('n, 'h) echo_state \<times> script_end" where
  "script_loop sj H windows acts pos [] e = (e, Unfinished)"
| "script_loop sj H windows acts pos (i # is) e =
     (case script_action sj H windows (acts ! pos) i e of
        (e, Goes_on) \<Rightarrow> script_loop sj H windows acts ((pos + 1) mod length acts) is e
      | r \<Rightarrow> r)"

definition script_start :: "'n scenario_phase \<Rightarrow> instant \<Rightarrow> ('n, 'h) session \<Rightarrow> ('n, 'h) echo_state option" where
  "script_start phase now s =
     (let s = s\<lparr>s_vars := replicate (length (ph_vars phase)) []\<rparr>;
          schedule = schedule_new (lc_rate_per_conn (s_config s)) now
      in map_option (\<lambda>schedule.
             let schedule = (if awaits_replies (lc_mode (s_config s)) then schedule else None)
             in \<lparr>es_session = record_with (own (\<lambda>w. w\<lparr>w_interval_uses_response := (schedule \<noteq> None)\<rparr>)) s,
                 es_schedule = schedule, es_seq = 0, es_sent = []\<rparr>) schedule)"

record script_events =
  sx_start :: instant
  sx_actions :: "action_inputs list"
  sx_late :: bool

text \<open>\<open>run_action_loop\<close>: an explicit Close action finishes the session.\<close>

definition script_session ::
    "'n serde_json \<Rightarrow> 'h interval_hist \<Rightarrow> bool \<Rightarrow> 'n scenario_phase \<Rightarrow> script_events \<Rightarrow> ('n, 'h) session
     \<Rightarrow> ('n, 'h) session \<times> session_end option" where
  "script_session sj H windows phase ev s =
     (case script_start phase (sx_start ev) s of
        None \<Rightarrow> (s, None)
      | Some e \<Rightarrow>
          (case script_loop sj H windows (ph_actions phase) 0 (sx_actions ev) e of
             (e, Closed) \<Rightarrow> (es_session e, Some Finished)
           | (e, Leaves) \<Rightarrow> finish_session (sx_late ev) Break (es_session e)
           | (e, _) \<Rightarrow> (es_session e, None)))"

section \<open>GraphQL subscriptions\<close>

record 'n gql_start =
  gs_query :: string
  gs_operation_name :: "string option"
  gs_variables :: "'n json option"
  gs_extensions :: "'n json option"

datatype 'n gql_message =
    ConnectionInit "'n json option"
  | ConnectionAck
  | ConnectionError "'n json option"
  | ConnectionKeepAlive
  | ConnectionTerminate
  | Gql_ping
  | Gql_pong
  | Gql_start string "'n gql_start"
  | Gql_stop string
  | Subscribe string "'n gql_start"
  | Gql_data string "'n json"
  | Gql_next string "'n json"
  | Gql_error string "'n json list"
  | Complete string

text \<open>The derived codec: \<open>serde_json::to_string\<close> may fail, and a text may not be a message.\<close>

record 'n gql_codec =
  gc_print :: "'n gql_message \<Rightarrow> string option"
  gc_parse :: "string \<Rightarrow> 'n gql_message option"

datatype gql_event = G_cancel | G_timeout | G_keepalive | G_resume | G_item stream_item

record ('n, 'h) gql_state =
  gq_session :: "('n, 'h) session"
  gq_paused :: bool
  gq_sent :: "message list"

definition gql_emit :: "message list \<Rightarrow> ('n, 'h) gql_state \<Rightarrow> ('n, 'h) gql_state" where
  "gql_emit ms g = g\<lparr>gq_sent := gq_sent g @ ms\<rparr>"

definition gql_record :: "('h worker_state \<Rightarrow> 'h worker_state) \<Rightarrow> ('n, 'h) gql_state \<Rightarrow> ('n, 'h) gql_state" where
  "gql_record f g = g\<lparr>gq_session := record_with f (gq_session g)\<rparr>"

definition gql_cancel :: "('n, 'h) gql_state \<Rightarrow> ('n, 'h) gql_state" where
  "gql_cancel g = g\<lparr>gq_session := cancel (gq_session g)\<rparr>"

text \<open>A Pong answers a GraphQL ping when it can be printed.\<close>

definition gql_pong :: "'n gql_codec \<Rightarrow> ('n, 'h) gql_state \<Rightarrow> ('n, 'h) gql_state" where
  "gql_pong gc g = (case gc_print gc Gql_pong of None \<Rightarrow> g | Some t \<Rightarrow> gql_emit [Msg_Text t] g)"

text \<open>How a wait ends: it goes on, gets its acknowledgement, or the session is over.\<close>

datatype ack_end = Ack_wait | Ack_ok | Ack_over

definition ack_step :: "'n gql_codec \<Rightarrow> gql_event \<Rightarrow> ('n, 'h) gql_state \<Rightarrow> ('n, 'h) gql_state \<times> ack_end" where
  "ack_step gc ev g =
     (case ev of
        G_cancel \<Rightarrow> (gql_emit [Msg_Close None] (gql_cancel g), Ack_over)
      | G_timeout \<Rightarrow> (gql_record (record_error Timeout SentMessage) g, Ack_over)
      | G_keepalive \<Rightarrow> (gql_emit [heartbeat] g, Ack_wait)
      | G_resume \<Rightarrow> (g, Ack_wait)
      | G_item (Item (Msg_Text t)) \<Rightarrow>
          (case gc_parse gc t of
             Some ConnectionAck \<Rightarrow> (g, Ack_ok)
           | Some (ConnectionError p) \<Rightarrow> (gql_record (record_error ProtocolError SentMessage) g, Ack_over)
           | Some Gql_ping \<Rightarrow> (gql_pong gc g, Ack_wait)
           | _ \<Rightarrow> (g, Ack_wait))
      | G_item (Item (Msg_Close c)) \<Rightarrow> (gql_record (record_error UnexpectedClose SentMessage) g, Ack_over)
      | G_item Item_end \<Rightarrow> (gql_record (record_error UnexpectedClose SentMessage) g, Ack_over)
      | G_item (Item_error e) \<Rightarrow> (gql_record (record_error (categorize_session_error e Dir_read) SentMessage) g, Ack_over)
      | G_item (Item m) \<Rightarrow> (g, Ack_wait))"

fun ack_loop :: "'n gql_codec \<Rightarrow> gql_event list \<Rightarrow> ('n, 'h) gql_state \<Rightarrow> ('n, 'h) gql_state \<times> ack_end" where
  "ack_loop gc [] g = (g, Ack_wait)"
| "ack_loop gc (ev # evs) g = (case ack_step gc ev g of (g, Ack_wait) \<Rightarrow> ack_loop gc evs g | r \<Rightarrow> r)"

datatype data_end = Data_wait | Data_cancelled | Data_complete | Data_closed | Data_panics

definition data_message ::
    "'n gql_codec \<Rightarrow> 'h interval_hist \<Rightarrow> instant \<Rightarrow> string \<Rightarrow> ('n, 'h) gql_state \<Rightarrow> ('n, 'h) gql_state \<times> data_end" where
  "data_message gc H now t g =
     (let received =
        (let g = gql_record (record_message_recv H now (word_of_nat (length t)) None) g
         in case chaos_read_pause (gq_session g) of
              None \<Rightarrow> (g, Data_panics)
            | Some (pause, s) \<Rightarrow> (g\<lparr>gq_session := s, gq_paused := (pause \<noteq> None)\<rparr>, Data_wait))
      in case gc_parse gc t of
           Some (Gql_data x p) \<Rightarrow> received
         | Some (Gql_next x p) \<Rightarrow> received
         | Some (Gql_error x p) \<Rightarrow> (gql_record (record_error ProtocolError Attempt) g, Data_wait)
         | Some (ConnectionError p) \<Rightarrow> (gql_record (record_error ProtocolError Attempt) g, Data_wait)
         | Some (Complete x) \<Rightarrow> (g, Data_complete)
         | Some Gql_ping \<Rightarrow> (gql_pong gc g, Data_wait)
         | _ \<Rightarrow> (g, Data_wait))"

definition data_step ::
    "'n gql_codec \<Rightarrow> 'h interval_hist \<Rightarrow> instant \<times> gql_event \<Rightarrow> ('n, 'h) gql_state \<Rightarrow> ('n, 'h) gql_state \<times> data_end" where
  "data_step gc H ev g =
     (case snd ev of
        G_cancel \<Rightarrow> (gql_cancel g, Data_cancelled)
      | G_timeout \<Rightarrow> (g, Data_wait)
      | G_keepalive \<Rightarrow> (gql_emit [heartbeat] g, Data_wait)
      | G_resume \<Rightarrow> (g\<lparr>gq_paused := False\<rparr>, Data_wait)
      | G_item it \<Rightarrow>
          (if gq_paused g then (g, Data_wait)
           else (case it of
                   Item (Msg_Text t) \<Rightarrow> data_message gc H (fst ev) t g
                 | Item (Msg_Close c) \<Rightarrow> (g, Data_closed)
                 | Item_end \<Rightarrow> (g, Data_closed)
                 | Item_error e \<Rightarrow> (gql_record (record_error (categorize_session_error e Dir_read) Attempt) g, Data_closed)
                 | Item m \<Rightarrow> (g, Data_wait))))"

fun data_loop ::
    "'n gql_codec \<Rightarrow> 'h interval_hist \<Rightarrow> (instant \<times> gql_event) list \<Rightarrow> ('n, 'h) gql_state \<Rightarrow> ('n, 'h) gql_state \<times> data_end" where
  "data_loop gc H [] g = (g, Data_wait)"
| "data_loop gc H (ev # evs) g = (case data_step gc H ev g of (g, Data_wait) \<Rightarrow> data_loop gc H evs g | r \<Rightarrow> r)"

record gql_inputs =
  gi_init_error :: "tungstenite_error option"
  gi_ack :: "gql_event list"
  gi_start_error :: "tungstenite_error option"
  gi_data :: "(instant \<times> gql_event) list"
  gi_late :: bool

definition gql_over :: "bool \<Rightarrow> ('n, 'h) gql_state \<Rightarrow> ('n, 'h) session \<times> session_end option" where
  "gql_over late g = finish_session late Break (gq_session g)"

definition gql_unprintable :: "('n, 'h) gql_state \<Rightarrow> ('n, 'h) session \<times> session_end option" where
  "gql_unprintable g = (gq_session (gql_record (record_error ProtocolError Attempt) g), Some Finished)"

text \<open>A message of the client: printed, sent and counted, or the session's end.\<close>

definition gql_send ::
    "'n gql_codec \<Rightarrow> bool \<Rightarrow> 'n gql_message \<Rightarrow> tungstenite_error option \<Rightarrow> ('n, 'h) gql_state
     \<Rightarrow> ('n, 'h) session \<times> session_end option + ('n, 'h) gql_state" where
  "gql_send gc late m err g =
     (case gc_print gc m of
        None \<Rightarrow> Inl (gql_unprintable g)
      | Some t \<Rightarrow>
          (case err of
             Some e \<Rightarrow> Inl (gql_over late (gql_record (record_error (categorize_session_error e Dir_write) Attempt) g))
           | None \<Rightarrow> Inr (gql_emit [Msg_Text t] (gql_record (record_message_sent (word_of_nat (length t))) g))))"

text \<open>After the data loop: the subscription is stopped, and a connection that closed by itself is an error.\<close>

definition gql_stop ::
    "'n gql_codec \<Rightarrow> bool \<Rightarrow> 'n gql_message \<Rightarrow> data_end \<Rightarrow> ('n, 'h) gql_state \<Rightarrow> ('n, 'h) session \<times> session_end option" where
  "gql_stop gc late stop r g =
     (case gc_print gc stop of
        None \<Rightarrow> gql_unprintable g
      | Some t \<Rightarrow>
          (let g = gql_emit [Msg_Text t] g
           in case r of
                Data_cancelled \<Rightarrow> (gq_session (gql_emit [Msg_Close None] g), Some Finished)
              | Data_complete \<Rightarrow> (gq_session g, Some Finished)
              | _ \<Rightarrow> gql_over late (gql_record (record_error UnexpectedClose Attempt) g)))"

definition gql_subscribe ::
    "'n gql_codec \<Rightarrow> 'h interval_hist \<Rightarrow> gql_inputs \<Rightarrow> 'n graphql_config \<Rightarrow> ('n, 'h) gql_state \<Rightarrow> ('n, 'h) session \<times> session_end option" where
  "gql_subscribe gc H i gw g =
     (let s = gq_session g;
          legacy = (case lc_subprotocol (s_config s) of None \<Rightarrow> False | Some p \<Rightarrow> to_ascii_lowercase p = ''graphql-ws'');
          payload = \<lparr>gs_query = gw_operation gw, gs_operation_name = gw_operation_name gw, gs_variables = gw_variables gw,
            gs_extensions = gw_extensions gw\<rparr>;
          sub = ''wsblast-sub-'' @ show_nat (s_worker_id s);
          start = (if legacy then Gql_start sub payload else Subscribe sub payload);
          stop = (if legacy then Gql_stop sub else Complete sub)
      in case gql_send gc (gi_late i) start (gi_start_error i) g of
           Inl r \<Rightarrow> r
         | Inr g \<Rightarrow>
             (case data_loop gc H (gi_data i) g of
                (g, Data_wait) \<Rightarrow> (gq_session g, None)
              | (g, Data_panics) \<Rightarrow> (gq_session g, None)
              | (g, r) \<Rightarrow> gql_stop gc (gi_late i) stop r g))"

definition graphql_session ::
    "'n gql_codec \<Rightarrow> 'h interval_hist \<Rightarrow> gql_inputs \<Rightarrow> ('n, 'h) session \<Rightarrow> ('n, 'h) session \<times> session_end option" where
  "graphql_session gc H i s =
     (let g = \<lparr>gq_session = s, gq_paused = False, gq_sent = []\<rparr>
      in case lc_graphql_ws (s_config s) of
           None \<Rightarrow> gql_unprintable g
         | Some gw \<Rightarrow>
             (case gql_send gc (gi_late i) (ConnectionInit None) (gi_init_error i) g of
                Inl r \<Rightarrow> r
              | Inr g \<Rightarrow>
                  (case ack_loop gc (gi_ack i) g of
                     (g, Ack_wait) \<Rightarrow> (gq_session g, None)
                   | (g, Ack_over) \<Rightarrow> gql_over (gi_late i) g
                   | (g, Ack_ok) \<Rightarrow> gql_subscribe gc H i gw g)))"

section \<open>Socket.IO sessions and the choice of a loop\<close>

datatype sio_opened = Sio_cancelled | Sio_failed error_category | Sio_open

record session_events =
  sv_echo :: echo_events
  sv_loop :: loop_events
  sv_script :: script_events
  sv_graphql :: gql_inputs
  sv_opened :: sio_opened
  sv_sio_late :: bool
  sv_unsolicited :: u64

definition has_script :: "'n scenario_phase option \<Rightarrow> bool" where
  "has_script phase = (case phase of None \<Rightarrow> False | Some p \<Rightarrow> ph_actions p \<noteq> [])"

definition socketio_session ::
    "'n serde_json \<Rightarrow> 'h interval_hist \<Rightarrow> bool \<Rightarrow> 'n scenario_phase option \<Rightarrow> session_events \<Rightarrow> ('n, 'h) session
     \<Rightarrow> ('n, 'h) session \<times> session_end option" where
  "socketio_session sj H windows phase ev s =
     (case lc_socketio (s_config s) of
        None \<Rightarrow> (s, Some Lost)
      | Some config \<Rightarrow>
          (case sv_opened ev of
             Sio_cancelled \<Rightarrow> (cancel s, Some Finished)
           | Sio_failed cat \<Rightarrow> finish_session (sv_sio_late ev) Break (record_with (record_error cat Attempt) s)
           | Sio_open \<Rightarrow>
               (case (if has_script phase then script_session sj H windows (the phase) (sv_script ev) s
                      else echo_session sj H windows (sv_echo ev) s) of
                  (s, None) \<Rightarrow> (s, None)
                | (s, Some e) \<Rightarrow> (record_with (record_unsolicited_frames (sv_unsolicited ev)) s, Some e))))"

definition mode_loop ::
    "'n serde_json \<Rightarrow> 'n gql_codec \<Rightarrow> 'h interval_hist \<Rightarrow> bool \<Rightarrow> 'n scenario_phase option \<Rightarrow> session_events
     \<Rightarrow> ('n, 'h) session \<Rightarrow> ('n, 'h) session \<times> session_end option" where
  "mode_loop sj gc H windows phase ev s =
     (if lc_mode (s_config s) = SocketIo then socketio_session sj H windows phase ev s
      else if has_script phase then script_session sj H windows (the phase) (sv_script ev) s
      else (case lc_mode (s_config s) of
              Echo \<Rightarrow> echo_session sj H windows (sv_echo ev) s
            | Stream \<Rightarrow> loop_session H True (sv_loop ev) s
            | Listen \<Rightarrow> loop_session H False (sv_loop ev) s
            | GraphQLWS \<Rightarrow> graphql_session gc H (sv_graphql ev) s
            | SocketIo \<Rightarrow> (s, Some Lost)))"

section \<open>Every loop leaves the connection counters alone\<close>

lemma keeps_script_sent: "keeps_slot a (es_session e) \<Longrightarrow> keeps_slot a (es_session (fst (script_sent e)))"
  by (auto simp: script_sent_def Let_def chaos_close_def split: prod.split option.split
      dest!: keeps_chaos_close_now intro: keeps_slot_trans)

text \<open>What a reply records before the read pause.\<close>

definition script_recorded ::
    "'n serde_json \<Rightarrow> 'h interval_hist \<Rightarrow> bool \<Rightarrow> 'n send_action \<Rightarrow> send_inputs \<Rightarrow> instant option \<Rightarrow> bool \<Rightarrow> message
     \<Rightarrow> ('n, 'h) session \<Rightarrow> ('n, 'h) session" where
  "script_recorded sj H windows a i due corrupted reply s =
     (let rtt = si_received_at i - si_sent_at i;
          s = record_with (record_message_recv H (si_received_at i) (word_of_nat (message_byte_len reply)) (Some rtt)) s;
          s = (if corrupted then s else check_reply sj reply (sa_expect a) (sa_captures a) s)
      in case due of
           None \<Rightarrow> s
         | Some d \<Rightarrow> record_with (record_response_time H (si_received_at i) (response_time windows d (si_sent_at i) rtt)) s)"

lemma script_reply_alt:
  "script_reply sj H windows a i due corrupted reply e =
     (let s = script_recorded sj H windows a i due corrupted reply (es_session e)
      in case chaos_read_pause s of
           None \<Rightarrow> (e\<lparr>es_session := s\<rparr>, Panics)
         | Some (None, s) \<Rightarrow> script_sent (e\<lparr>es_session := s\<rparr>)
         | Some (Some pause, s) \<Rightarrow>
             (let e = e\<lparr>es_session := s\<rparr>
              in if \<not> si_pause_done i then break_cancelled e else script_sent (reschedule (shift pause) e)))"
  by (simp add: script_reply_def script_recorded_def Let_def)

lemma keeps_script_recorded: "keeps_slot s (script_recorded sj H windows a i due corrupted reply s)"
  by (auto simp: script_recorded_def Let_def split: option.split
      intro!: keeps_then keeps_intros intro: keeps_slot_trans [OF _ keeps_check_reply])

lemma keeps_script_reply:
  assumes "keeps_slot a (es_session e)"
  shows "keeps_slot a (es_session (fst (script_reply sj H windows act i due corrupted reply e)))"
proof -
  define s where "s = script_recorded sj H windows act i due corrupted reply (es_session e)"
  have k: "keeps_slot a s" using keeps_slot_trans [OF assms keeps_script_recorded] by (simp add: s_def)
  have alt: "script_reply sj H windows act i due corrupted reply e =
      (case chaos_read_pause s of
         None \<Rightarrow> (e\<lparr>es_session := s\<rparr>, Panics)
       | Some (None, s) \<Rightarrow> script_sent (e\<lparr>es_session := s\<rparr>)
       | Some (Some pause, s) \<Rightarrow>
           (let e = e\<lparr>es_session := s\<rparr>
            in if \<not> si_pause_done i then break_cancelled e else script_sent (reschedule (shift pause) e)))"
    unfolding script_reply_alt s_def Let_def by (rule refl)
  show ?thesis
  proof (cases "chaos_read_pause s")
    case (Some r)
    obtain pause s' where r: "r = (pause, s')" by (cases r)
    have "keeps_slot a s'" using keeps_slot_trans [OF k keeps_chaos_read_pause] Some r by blast
    then show ?thesis by (cases pause) (simp_all add: alt Let_def Some r keeps_script_sent)
  qed (simp add: alt k)
qed

lemma keeps_script_message:
  assumes "keeps_slot a (es_session e)"
  shows "keeps_slot a (es_session (fst (script_message sj H windows act i due c e)))"
proof -
  obtain msg corrupted s' where cc: "chaos_corrupt (render_message (si_now_ms i) (or_default (sa_payload act)
      (lc_payload (s_config (es_session e)))) (es_seq e) (es_session e)) c (es_session e) = ((msg, corrupted), s')"
    by (metis surj_pair)
  have k: "keeps_slot a s'" using keeps_slot_trans [OF assms keeps_chaos_corrupt [OF cc]] .
  then have sent: "keeps_slot a (record_with (record_message_sent b) s')"
      "keeps_slot a (record_with (record_unsolicited_frames n) (record_with (record_message_sent b) s'))" for n b
    by (intro keeps_then keeps_intros, assumption)+
  show ?thesis
    using k sent
    by (auto simp: script_message_def cc Let_def split: prod.split option.split sum.split
        intro!: keeps_script_reply keeps_script_sent keeps_then keeps_intros)
qed

lemma keeps_script_send: "keeps_slot (es_session e) (es_session (fst (script_send sj H windows a i e)))"
proof -
  obtain ok s where c: "claim_send (es_session e) = (ok, s)" by (cases "claim_send (es_session e)")
  note k = keeps_claim [OF c]
  show ?thesis
  proof (cases "chaos_plan s")
    case None
    with c k show ?thesis by (cases ok) (simp_all add: script_send_def Let_def)
  next
    case (Some r)
    obtain plan s' where r: "r = (plan, s')" by (cases r)
    have k': "keeps_slot (es_session e) s'" using keeps_slot_trans [OF k keeps_chaos_plan] Some r by blast
    with c k Some r show ?thesis
      by (cases ok) (auto simp: script_send_def Let_def chaos_dropped_def chaos_delayed_def intro!: keeps_script_message)
  qed
qed

lemma keeps_script_burst: "keeps_slot (es_session e) (es_session (fst (script_burst sj H windows a n is e)))"
proof (induction sj H windows a n "is" e rule: script_burst.induct)
  case (3 sj H windows a n i "is" e)
  then show ?case
    using keeps_script_send [of e sj H windows a i]
    by (auto split: prod.split round_end.split intro: keeps_slot_trans)
qed simp_all

lemma keeps_set_action [simp]: "keeps_slot a (es_session (set_action name e)) = keeps_slot a (es_session e)"
proof -
  have "keeps (s_state s) (own (\<lambda>w. w\<lparr>w_current_action := name\<rparr>) (s_state s))"
    "keeps (own (\<lambda>w. w\<lparr>w_current_action := name\<rparr>) (s_state s)) (s_state s)" for s :: "('n, 'h) session"
    by (auto simp: keeps_def conn_view_def own_def)
  then show ?thesis by (auto simp: set_action_def keeps_slot_def record_with_def intro: keeps_trans)
qed

lemma keeps_script_pause: "keeps_slot a (es_session e) \<Longrightarrow> keeps_slot a (es_session (fst (script_pause i e)))"
  by (simp add: script_pause_def leave_script_def)

lemma keeps_script_action: "keeps_slot (es_session e) (es_session (fst (script_action sj H windows act i e)))"
proof (cases act)
  case (Act_send payload n expect captures name)
  let ?b = "script_burst sj H windows \<lparr>sa_payload = payload, sa_expect = expect, sa_captures = captures\<rparr> n (ai_sends i) (set_action name e)"
  have "keeps_slot (es_session (set_action name e)) (es_session (fst ?b))" by (rule keeps_script_burst)
  moreover have "keeps_slot (es_session e) (es_session (set_action name e))" by simp
  ultimately have "keeps_slot (es_session e) (es_session (fst ?b))" by (rule keeps_slot_trans [rotated])
  then show ?thesis
    by (cases ?b) (auto simp: script_action_def Act_send leave_script_def Let_def keeps_script_pause split: script_end.split)
qed (auto simp: script_action_def leave_script_def keeps_script_pause split: option.split intro!: keeps_slot_record keeps_intros)

lemma keeps_script_loop: "keeps_slot (es_session e) (es_session (fst (script_loop sj H windows acts pos is e)))"
proof (induction "is" arbitrary: pos e)
  case (Cons i "is")
  then show ?case
    using keeps_script_action [of e sj H windows "acts ! pos" i]
    by (auto split: prod.split script_end.split intro: keeps_slot_trans)
qed simp

lemma keeps_script_start: "script_start phase now s = Some e \<Longrightarrow> keeps_slot s (es_session e)"
  by (auto simp: script_start_def Let_def intro!: keeps_then keeps_own)

lemma keeps_script_session: "keeps_slot s (fst (script_session sj H windows phase ev s))"
proof (cases "script_start phase (sx_start ev) s")
  case (Some e)
  have "keeps_slot s (es_session (fst (script_loop sj H windows (ph_actions phase) 0 (sx_actions ev) e)))"
    using keeps_slot_trans [OF keeps_script_start [OF Some] keeps_script_loop] .
  then show ?thesis
    by (cases "script_loop sj H windows (ph_actions phase) 0 (sx_actions ev) e")
      (auto simp: script_session_def Some finish_session_session split: script_end.split)
qed (simp add: script_session_def)

lemma gql_sessions [simp]:
  "gq_session (gql_emit ms g) = gq_session g" "gq_session (gql_record f g) = record_with f (gq_session g)"
  "gq_session (gql_cancel g) = cancel (gq_session g)" "gq_session (gql_pong gc g) = gq_session g"
  by (simp_all add: gql_emit_def gql_record_def gql_cancel_def gql_pong_def split: option.split)

lemma keeps_ack_step: "keeps_slot (gq_session g) (gq_session (fst (ack_step gc ev g)))"
  by (auto simp: ack_step_def split: gql_event.split stream_item.split message.split option.split gql_message.split
      intro!: keeps_slot_record keeps_intros)

lemma keeps_ack_loop: "keeps_slot (gq_session g) (gq_session (fst (ack_loop gc evs g)))"
proof (induction evs arbitrary: g)
  case (Cons ev evs)
  then show ?case
    using keeps_ack_step [of g gc ev] by (auto split: prod.split ack_end.split intro: keeps_slot_trans)
qed simp

lemma keeps_data_message: "keeps_slot (gq_session g) (gq_session (fst (data_message gc H now t g)))"
proof -
  have "keeps_slot s s'" if "chaos_read_pause (record_with (record_message_recv H now n None) s) = Some (p, s')" for n s s' p
    using keeps_slot_trans [OF keeps_slot_record [OF keeps_message_recv] keeps_chaos_read_pause [OF that]] .
  then show ?thesis
    by (auto simp: data_message_def Let_def split: option.split gql_message.split intro!: keeps_slot_record keeps_intros)
qed

lemma keeps_data_step: "keeps_slot (gq_session g) (gq_session (fst (data_step gc H ev g)))"
  by (auto simp: data_step_def keeps_data_message split: gql_event.split stream_item.split message.split
      intro!: keeps_slot_record keeps_intros)

lemma keeps_data_loop: "keeps_slot (gq_session g) (gq_session (fst (data_loop gc H evs g)))"
proof (induction evs arbitrary: g)
  case (Cons ev evs)
  then show ?case
    using keeps_data_step [of g gc H ev] by (auto split: prod.split data_end.split intro: keeps_slot_trans)
qed simp

lemma keeps_gql_over: "keeps_slot a (gq_session g) \<Longrightarrow> keeps_slot a (fst (gql_over late g))"
  by (simp add: gql_over_def finish_session_session)

lemma keeps_gql_unprintable: "keeps_slot a (gq_session g) \<Longrightarrow> keeps_slot a (fst (gql_unprintable g))"
  by (auto simp: gql_unprintable_def intro!: keeps_then keeps_intros)

lemma keeps_gql_send:
  assumes "keeps_slot a (gq_session g)"
  shows "case gql_send gc late m err g of Inl r \<Rightarrow> keeps_slot a (fst r) | Inr g' \<Rightarrow> keeps_slot a (gq_session g')"
  using assms
  by (auto simp: gql_send_def split: option.split intro!: keeps_gql_unprintable keeps_gql_over keeps_then keeps_intros)

lemma keeps_gql_stop: "keeps_slot a (gq_session g) \<Longrightarrow> keeps_slot a (fst (gql_stop gc late stop r g))"
  by (auto simp: gql_stop_def Let_def split: option.split data_end.split
      intro!: keeps_gql_unprintable keeps_gql_over keeps_then keeps_intros)

lemma keeps_gql_subscribe:
  assumes "keeps_slot a (gq_session g)"
  shows "keeps_slot a (fst (gql_subscribe gc H i gw g))"
proof -
  have d: "keeps_slot a (gq_session (fst (data_loop gc H evs g')))" if "keeps_slot a (gq_session g')" for g' evs
    using keeps_slot_trans [OF that keeps_data_loop] .
  have "keeps_slot a (fst (case r of Inl r \<Rightarrow> r
      | Inr g \<Rightarrow> (case data_loop gc H (gi_data i) g of
           (g, Data_wait) \<Rightarrow> (gq_session g, None)
         | (g, Data_panics) \<Rightarrow> (gq_session g, None)
         | (g, r) \<Rightarrow> gql_stop gc (gi_late i) stop r g)))"
    if "case r of Inl r \<Rightarrow> keeps_slot a (fst r) | Inr g' \<Rightarrow> keeps_slot a (gq_session g')" for r stop
    using that d by (auto split: sum.splits prod.split data_end.split intro!: keeps_gql_stop) (metis fst_conv)+
  from this [OF keeps_gql_send [OF assms]] show ?thesis by (simp add: gql_subscribe_def Let_def)
qed

lemma keeps_graphql_session: "keeps_slot s (fst (graphql_session gc H i s))"
proof -
  let ?g = "\<lparr>gq_session = s, gq_paused = False, gq_sent = []\<rparr>"
  have d: "keeps_slot s (gq_session (fst (ack_loop gc evs g')))" if "keeps_slot s (gq_session g')" for g' evs
    using keeps_slot_trans [OF that keeps_ack_loop] .
  have "keeps_slot s (fst (case r of Inl r \<Rightarrow> r
      | Inr g \<Rightarrow> (case ack_loop gc (gi_ack i) g of
           (g, Ack_wait) \<Rightarrow> (gq_session g, None)
         | (g, Ack_over) \<Rightarrow> gql_over (gi_late i) g
         | (g, Ack_ok) \<Rightarrow> gql_subscribe gc H i gw g)))"
    if "case r of Inl r \<Rightarrow> keeps_slot s (fst r) | Inr g' \<Rightarrow> keeps_slot s (gq_session g')" for r gw
    using that d
    by (auto split: sum.splits prod.split ack_end.split intro!: keeps_gql_over keeps_gql_subscribe) (metis fst_conv)+
  from this [OF keeps_gql_send [of s ?g]] show ?thesis
    by (simp add: graphql_session_def Let_def keeps_gql_unprintable split: option.split)
qed

lemma keeps_socketio_session: "keeps_slot s (fst (socketio_session sj H windows phase ev s))"
proof -
  have "keeps_slot s (fst (case r of (s, None) \<Rightarrow> (s, None)
      | (s, Some e) \<Rightarrow> (record_with (record_unsolicited_frames n) s, Some e)))" if "keeps_slot s (fst r)" for r n
    using that by (cases r) (auto split: option.split intro!: keeps_then keeps_intros)
  note this [of "if has_script phase then script_session sj H windows (the phase) (sv_script ev) s
      else echo_session sj H windows (sv_echo ev) s"]
  then show ?thesis
    by (auto simp: socketio_session_def keeps_script_session keeps_echo_session finish_session_session
        split: option.split sio_opened.split intro!: finish_session_session keeps_slot_record keeps_intros)
qed

lemma keeps_mode_loop: "keeps_slot s (fst (mode_loop sj gc H windows phase ev s))"
  by (simp add: mode_loop_def keeps_socketio_session keeps_script_session keeps_echo_session keeps_loop_session
      keeps_graphql_session split: test_mode.split)

interpretation modes: session_loop "mode_loop sj gc H windows phase"
  by unfold_locales (rule keeps_mode_loop)

section \<open>Properties of a slot\<close>

text \<open>C14: whatever a connection slot goes through, its connections are accounted for, in every mode and with any script. The
  live gauge of open connections counts it exactly while its session is open; it is counted as established once it
  has connected, and only once; every further connection is a reconnect, counted by the worker and live alike; and a slot that
  has stopped connected once, recorded an error, or was interrupted by the end of the run, in which last case it
  neither connected nor failed.\<close>

theorem slot_connections_accounted:
  assumes "lm_shards (wd_live (snd (s_state s))) \<noteq> []" "\<not> w_interrupted (fst (s_state s))"
  shows "let sl = worker_run (mode_loop sj gc H windows phase) request turns s;
      w = fst (s_state (sl_session sl));
      before = live_snapshot (wd_live (snd (s_state s)));
      after = live_snapshot (wd_live (snd (s_state (sl_session sl))))
    in cs_active after = cs_active before + (if sl_status sl = Session_open then 1 else 0) \<and>
       cs_established after = cs_established before + (if sl_connected_before sl then 1 else 0) \<and>
       cs_reconnects after - cs_reconnects before = w_reconnects w - w_reconnects (fst (s_state s)) \<and>
       (sl_status sl = Stopped \<longrightarrow> sl_connected_before sl \<or> w_errors w \<noteq> Map.empty \<or> w_interrupted w) \<and>
       (w_interrupted w \<longrightarrow> sl_status sl = Stopped \<and> \<not> sl_connected_before sl \<and> w_errors w = Map.empty)"
proof -
  have "slot_accounted (s_state s) (worker_run (mode_loop sj gc H windows phase) request turns s)"
    using assms by (intro modes.run_accounted) (simp_all add: live_ok_def)
  then show ?thesis
    by (auto simp: slot_accounted_def account_def unit_if_def Let_def live_sum_snapshot algebra_simps)
qed

text \<open>The events of a session that is still open.\<close>

definition idle_events :: session_events where
  "idle_events = \<lparr>sv_echo = \<lparr>ee_start = 0, ee_rounds = [], ee_late = False\<rparr>, sv_loop = \<lparr>le_events = [], le_late = False\<rparr>,
     sv_script = \<lparr>sx_start = 0, sx_actions = [], sx_late = False\<rparr>,
     sv_graphql = \<lparr>gi_init_error = None, gi_ack = [], gi_start_error = None, gi_data = [], gi_late = False\<rparr>,
     sv_opened = Sio_open, sv_sio_late = False, sv_unsolicited = 0\<rparr>"

theorem slot_connections_accounted_witness:
  "\<exists>sl. sl = worker_run (mode_loop numbered_json \<lparr>gc_print = \<lambda>_. None, gc_parse = \<lambda>_. None\<rparr>
       \<lparr>ih_new = None, ih_record = \<lambda>_ h. h\<rparr> False None) (Inr ())
       [\<lparr>tn_connect = Connect_ok 5, tn_events = idle_events, tn_slept = True\<rparr>] sample_session \<and>
     cs_active (live_snapshot (wd_live (snd (s_state (sl_session sl))))) = 1 \<and>
     cs_established (live_snapshot (wd_live (snd (s_state (sl_session sl))))) = 1"
proof -
  let ?sl = "worker_run (mode_loop numbered_json \<lparr>gc_print = \<lambda>_. None, gc_parse = \<lambda>_. None\<rparr>
       \<lparr>ih_new = None, ih_record = \<lambda>_ h. h\<rparr> False None) (Inr ())
       [\<lparr>tn_connect = Connect_ok 5, tn_events = idle_events, tn_slept = True\<rparr>] sample_session"
  have st: "s_state sample_session = (fst (worker_new 0 (live_new (Some 1))),
      \<lparr>wd_live = live_new (Some 1), wd_latency = \<lambda>_. with_shards 1, wd_series = store_new 0 1\<rparr>)"
    by (simp add: sample_session_def session_new_def sample_config_def)
  have run: "sl_status ?sl = Session_open" "sl_connected_before ?sl"
    by (simp_all add: worker_run_def slot_turn_def slot_new_def worker_handshake_def record_with_def Let_def mode_loop_def
        has_script_def sample_session_def session_new_def sample_config_def echo_session_def echo_start_def schedule_new_def
        idle_events_def finish_session_def)
  have "cs_active (live_snapshot (live_new (Some 1))) = 0" "cs_established (live_snapshot (live_new (Some 1))) = 0"
    by (simp_all add: live_snapshot_def live_new_def add_shard_def shard_zero_def numeral_2_eq_2)
  moreover have "lm_shards (wd_live (snd (s_state sample_session))) \<noteq> []" "\<not> w_interrupted (fst (s_state sample_session))"
    by (simp_all add: st live_new_def worker_new_def assign_shard_def)
  ultimately show ?thesis
    using slot_connections_accounted [of sample_session numbered_json _ _ False None "Inr ()"] run
    by (simp add: Let_def st)
qed

definition failing :: "'e turn \<Rightarrow> bool" where
  "failing t = (tn_slept t \<and> (case tn_connect t of Connect_error e \<Rightarrow> True | Connect_timed_out \<Rightarrow> True | _ \<Rightarrow> False))"

definition backoff_delay :: "nat \<Rightarrow> duration" where
  "backoff_delay n = min (from_millis 100 * 2 ^ n) (from_secs 5)"

lemma next_delay_backoff: "next_delay \<lparr>rb_next = backoff_delay n\<rparr> = (backoff_delay n, \<lparr>rb_next = backoff_delay (Suc n)\<rparr>)"
  by (auto simp: next_delay_def backoff_delay_def BACKOFF_MAX_def from_millis_def from_secs_def min_def)

lemma failing_turn:
  assumes "failing t" "sl_status sl = Connecting" "\<not> lc_no_reconnect (s_config (sl_session sl))" "\<not> s_cancelled (sl_session sl)"
    "sl_backoff sl = \<lparr>rb_next = backoff_delay n\<rparr>"
  shows "sl_status (slot_turn drive t sl) = Connecting" "s_config (sl_session (slot_turn drive t sl)) = s_config (sl_session sl)"
    "\<not> s_cancelled (sl_session (slot_turn drive t sl))" "sl_backoff (slot_turn drive t sl) = \<lparr>rb_next = backoff_delay (Suc n)\<rparr>"
    "sl_delays (slot_turn drive t sl) = sl_delays sl @ [backoff_delay n]"
    "sl_connected_before (slot_turn drive t sl) = sl_connected_before sl"
  using assms
  by (auto simp: failing_def slot_turn_def worker_handshake_def Let_def slot_pause_def next_delay_backoff record_with_def
      split: connect_answer.splits)

lemma failing_turns:
  assumes "\<forall>t\<in>set ts. failing t" "sl_status sl = Connecting" "\<not> lc_no_reconnect (s_config (sl_session sl))"
    "\<not> s_cancelled (sl_session sl)" "sl_backoff sl = \<lparr>rb_next = backoff_delay n\<rparr>"
  shows "sl_status (fold (slot_turn drive) ts sl) = Connecting \<and>
    sl_delays (fold (slot_turn drive) ts sl) = sl_delays sl @ map backoff_delay [n..<n + length ts] \<and>
    sl_connected_before (fold (slot_turn drive) ts sl) = sl_connected_before sl"
  using assms
proof (induction ts arbitrary: sl n)
  case (Cons t ts)
  then have t: "failing t" by simp
  note step = failing_turn [OF t Cons.prems(2-5), of drive]
  have "[n..<n + length (t # ts)] = n # [Suc n..<Suc n + length ts]" by (simp add: upt_rec)
  with Cons.IH [of "slot_turn drive t sl" "Suc n"] Cons.prems(1,3) step show ?case by simp
qed simp

text \<open>C32: a slot that may reconnect never gives up on a server that refuses it. As long as the run is not cancelled, each failed
  attempt is followed by another one after 100 ms, then 200 ms, doubling up to 5 s, and as soon as an attempt is answered the
  slot is connected.\<close>

theorem failing_slot_keeps_trying:
  assumes "\<forall>t\<in>set ts. failing t" "\<not> lc_no_reconnect (s_config s)" "\<not> s_cancelled s" "tn_connect t = Connect_ok d"
  shows "sl_delays (worker_run drive (Inr ()) ts s) = map (\<lambda>n. min (from_millis 100 * 2 ^ n) (from_secs 5)) [0..<length ts] \<and>
    sl_status (worker_run drive (Inr ()) ts s) = Connecting \<and>
    \<not> sl_connected_before (worker_run drive (Inr ()) ts s) \<and>
    sl_connected_before (worker_run drive (Inr ()) (ts @ [t]) s)"
proof -
  have "backoff_new = \<lparr>rb_next = backoff_delay 0\<rparr>" by (simp add: backoff_new_def backoff_delay_def BACKOFF_INITIAL_def from_millis_def from_secs_def)
  then have "sl_status (fold (slot_turn drive) ts (slot_new s)) = Connecting \<and>
    sl_delays (fold (slot_turn drive) ts (slot_new s)) = map backoff_delay [0..<length ts] \<and>
    \<not> sl_connected_before (fold (slot_turn drive) ts (slot_new s))"
    using failing_turns [of ts "slot_new s" 0 drive] assms(1-3) by (simp add: slot_new_def)
  moreover have "sl_connected_before (slot_turn drive t sl)" if "sl_status sl = Connecting" for sl
    using that assms(4)
    by (auto simp: slot_turn_def worker_handshake_def Let_def split: prod.split option.split)
  moreover have "map backoff_delay [0..<length ts] = map (\<lambda>n. min (from_millis 100 * 2 ^ n) (from_secs 5)) [0..<length ts]"
    by (simp add: backoff_delay_def)
  ultimately show ?thesis by (simp add: worker_run_def)
qed

theorem failing_slot_keeps_trying_witness:
  "sl_delays (worker_run (\<lambda>_ s. (s, None)) (Inr ())
     (replicate 8 \<lparr>tn_connect = Connect_timed_out, tn_events = (), tn_slept = True\<rparr>) sample_session) =
   map from_millis [100, 200, 400, 800, 1600, 3200, 5000, 5000]"
proof -
  have "\<not> lc_no_reconnect (s_config sample_session)" "\<not> s_cancelled sample_session"
    by (simp_all add: sample_session_def session_new_def sample_config_def)
  moreover have "\<forall>t\<in>set (replicate 8 \<lparr>tn_connect = Connect_timed_out, tn_events = (), tn_slept = True\<rparr>). failing t"
    by (simp add: failing_def)
  ultimately show ?thesis
    using failing_slot_keeps_trying [of "replicate 8 \<lparr>tn_connect = Connect_timed_out, tn_events = (), tn_slept = True\<rparr>"
        sample_session "\<lparr>tn_connect = Connect_ok 1, tn_events = (), tn_slept = True\<rparr>" 1 "\<lambda>_ s. (s, None)"]
    by (simp add: upt_rec from_millis_def from_secs_def)
qed

end
