(* ===== verification/Runner.thy ===== *)
theory Runner
  imports Worker_Modes Run_Report
begin

text \<open>
  \<open>Runner\<close> of \<open>src/runner.rs\<close>: how a run starts its sessions (all at once or on a ramp, following stages, or at an
  arrival rate), joins them and adds up their metrics. A session is a task named by its worker id: what
  the tasks record in the meantime are \<open>worker_event\<close>s given with each wait, and the answers of clock,
  cancellation and task joins are inputs. The loops are functions of these answers; \<open>pool_step\<close> is the
  abstract machine every loop refines.
\<close>

section \<open>Configuration of a phase\<close>

definition run_phase_config :: "u64 \<Rightarrow> 'n load_config \<Rightarrow> 'n scenario_phase \<Rightarrow> 'n load_config" where
  "run_phase_config time_seed config phase =
     (let config = config\<lparr>lc_connections := ph_connections phase, lc_duration := ph_duration phase,
            lc_ramp_rate := ph_ramp_rate phase, lc_stages := ph_stages phase, lc_arrivals := ph_arrivals phase,
            lc_rate_per_conn := ph_rate_per_conn phase\<rparr>;
          config = (case ph_payload phase of None \<Rightarrow> config | Some payload \<Rightarrow> config\<lparr>lc_payload := payload\<rparr>)
      in case ph_chaos phase of
           None \<Rightarrow> config
         | Some chaos \<Rightarrow>
             (let fallback_seed = (case lc_chaos config of None \<Rightarrow> None | Some c \<Rightarrow> ch_seed c)
              in config\<lparr>lc_chaos := (if is_active chaos
                   then Some (seeded time_seed (chaos\<lparr>ch_seed := or_else (ch_seed chaos) fallback_seed\<rparr>)) else None)\<rparr>))"

definition latency_basis_for :: "'n load_config \<Rightarrow> bool \<Rightarrow> string" where
  "latency_basis_for config skips_response_time =
     (let paced_echo = awaits_replies (lc_mode config) \<and> lc_rate_per_conn config > 0
      in if paced_echo \<and> \<not> skips_response_time then ''response_time'' else ''rtt'')"

definition phase_skips_response_time :: "'n scenario_phase \<Rightarrow> bool" where
  "phase_skips_response_time phase = (ph_actions phase = [] \<and> ph_think_time phase \<noteq> 0)"

section \<open>The tasks of a run\<close>

text \<open>What a run is given: its configuration and phase, the histogram crate, the seed the clock gives, the
  address of its latency recorder and the start of its clock.\<close>

record ('n, 'h) runner =
  rx_config :: "'n load_config"
  rx_scenario :: "'n scenario_phase option"
  rx_hdr :: "'h hdr"
  rx_hist :: "'h interval_hist"
  rx_time_seed :: u64
  rx_latency :: nat
  rx_start :: instant

definition runner_latency_basis :: "('n, 'h) runner \<Rightarrow> string" where
  "runner_latency_basis x =
     latency_basis_for (rx_config x) (case rx_scenario x of None \<Rightarrow> False | Some phase \<Rightarrow> phase_skips_response_time phase)"

text \<open>The tasks spawned so far with the metrics each holds, those whose own token was cancelled, those that
  have been joined, those of them that panicked, and the totals.\<close>

record 'h run_state =
  ru_ws :: "nat \<Rightarrow> worker_metrics"
  ru_world :: "'h world"
  ru_spawned :: "nat list"
  ru_cancelled :: "nat list"
  ru_joined :: "nat list"
  ru_panicked :: "nat list"
  ru_totals :: "'h metrics_totals"

type_synonym activity = "(nat \<times> worker_event) list"

definition create_session :: "('n, 'h) runner \<Rightarrow> nat \<Rightarrow> worker_metrics \<Rightarrow> 'h world \<Rightarrow> ('n, 'h) session" where
  "create_session x worker_id metrics world =
     (let session = session_new (rx_time_seed x) worker_id (rx_config x) metrics world
      in case rx_scenario x of None \<Rightarrow> session | Some phase \<Rightarrow> with_scenario phase session)"

definition with_interval :: "interval_recorder option \<Rightarrow> worker_metrics \<Rightarrow> worker_metrics" where
  "with_interval interval w = w\<lparr>w_interval := interval\<rparr>"

text \<open>\<open>WorkerMetrics::with_latency(..).with_interval(..)\<close>, \<open>create_session\<close> and \<open>tokio::spawn\<close>.\<close>

definition spawn_session :: "('n, 'h) runner \<Rightarrow> nat \<Rightarrow> 'h run_state \<Rightarrow> 'h run_state" where
  "spawn_session x worker_id s =
     (case worker_new (rx_latency x) (wd_live (ru_world s)) of (metrics, live) \<Rightarrow>
        (let session = create_session x worker_id (with_interval (Some recorder_new) metrics) ((ru_world s)\<lparr>wd_live := live\<rparr>)
         in s\<lparr>ru_ws := (ru_ws s)(worker_id := fst (s_state session)), ru_world := snd (s_state session),
              ru_spawned := ru_spawned s @ [worker_id]\<rparr>))"

text \<open>What the running tasks record while the runner waits.\<close>

definition workers_do :: "('n, 'h) runner \<Rightarrow> activity \<Rightarrow> 'h run_state \<Rightarrow> 'h run_state" where
  "workers_do x evs s =
     (case fold (run_step (rx_hist x)) (filter (\<lambda>e. fst e \<in> set (ru_spawned s) \<and> fst e \<notin> set (ru_joined s)) evs)
             (ru_ws s, ru_world s) of (ws, world) \<Rightarrow> s\<lparr>ru_ws := ws, ru_world := world\<rparr>)"

definition cancel_session :: "nat \<Rightarrow> 'h run_state \<Rightarrow> 'h run_state" where
  "cancel_session worker_id s = s\<lparr>ru_cancelled := ru_cancelled s @ [worker_id]\<rparr>"

text \<open>A joined task hands over its metrics, unless it panicked; its last interval is flushed first.\<close>

definition join_session ::
    "((nat \<Rightarrow> latency_recorder) \<Rightarrow> worker_metrics \<Rightarrow> 'h metrics_totals \<Rightarrow> 'h metrics_totals)
     \<Rightarrow> ('n, 'h) runner \<Rightarrow> nat \<Rightarrow> bool \<Rightarrow> 'h run_state \<Rightarrow> 'h run_state" where
  "join_session add x worker_id panicked s =
     (let s = s\<lparr>ru_joined := ru_joined s @ [worker_id]\<rparr>
      in if panicked then s\<lparr>ru_panicked := ru_panicked s @ [worker_id]\<rparr>
         else (case flush_interval (rx_hist x) (ru_ws s worker_id, ru_world s) of (metrics, world) \<Rightarrow>
           s\<lparr>ru_ws := (ru_ws s)(worker_id := metrics), ru_world := world,
             ru_totals := add (wd_latency world) metrics (ru_totals s)\<rparr>))"

text \<open>\<open>add_session\<close>, the counters only; and the body of the loop over the handles in \<open>drive\<close>.\<close>

definition add_session :: "('n, 'h) runner \<Rightarrow> nat \<Rightarrow> bool \<Rightarrow> 'h run_state \<Rightarrow> 'h run_state" where
  "add_session x = join_session (add_worker_counts (rx_hdr x)) x"

definition join_handle :: "('n, 'h) runner \<Rightarrow> nat \<Rightarrow> bool \<Rightarrow> 'h run_state \<Rightarrow> 'h run_state" where
  "join_handle x = join_session (add_worker (rx_hdr x)) x"

definition absorb_recorder :: "('n, 'h) runner \<Rightarrow> 'h run_state \<Rightarrow> 'h run_state" where
  "absorb_recorder x s =
     s\<lparr>ru_totals := add_recorder (rx_hdr x) (wd_latency (ru_world s)) (rx_latency x) (ru_totals s)\<rparr>"

section \<open>A constant number of connections\<close>

text \<open>Whether the token is cancelled when the turn of a worker comes, what the tasks record before the
  next turn, and whether the ramp's pause ended by cancellation.\<close>

record ramp_turn =
  rt_cancelled :: bool
  rt_activity :: activity
  rt_pause_cancelled :: bool

definition spawn_delay :: "nat \<Rightarrow> duration option option" where
  "spawn_delay ramp_rate =
     (if ramp_rate > 0 then map_option Some (try_from_secs_f64 (f64_div (Num 1) (of_uint ramp_rate))) else Some None)"

fun ramp_loop ::
    "('n, 'h) runner \<Rightarrow> duration option \<Rightarrow> (nat \<Rightarrow> ramp_turn) \<Rightarrow> nat list \<Rightarrow> nat list \<times> 'h run_state
     \<Rightarrow> nat list \<times> 'h run_state" where
  "ramp_loop x delay turns [] (handles, s) = (handles, s)"
| "ramp_loop x delay turns (worker_id # ids) (handles, s) =
     (if rt_cancelled (turns worker_id) then (handles, s)
      else (let s = workers_do x (rt_activity (turns worker_id)) (spawn_session x worker_id s);
                handles = handles @ [worker_id]
            in if delay \<noteq> None \<and> rt_pause_cancelled (turns worker_id) then (handles, s)
               else ramp_loop x delay turns ids (handles, s)))"

section \<open>Stages\<close>

record 'h stage_run =
  sg_open :: "nat list"
  sg_closed :: "nat list"
  sg_next_id :: nat
  sg_run :: "'h run_state"

definition open_one :: "('n, 'h) runner \<Rightarrow> 'h stage_run \<Rightarrow> 'h stage_run" where
  "open_one x st = st\<lparr>sg_open := sg_open st @ [sg_next_id st], sg_next_id := sg_next_id st + 1,
     sg_run := spawn_session x (sg_next_id st) (sg_run st)\<rparr>"

definition close_one :: "'h stage_run \<Rightarrow> 'h stage_run" where
  "close_one st = st\<lparr>sg_open := butlast (sg_open st), sg_closed := sg_closed st @ [last (sg_open st)],
     sg_run := cancel_session (last (sg_open st)) (sg_run st)\<rparr>"

function open_loop :: "('n, 'h) runner \<Rightarrow> nat \<Rightarrow> 'h stage_run \<Rightarrow> 'h stage_run" where
  "open_loop x wanted st = (if length (sg_open st) < wanted then open_loop x wanted (open_one x st) else st)"
  by auto

termination
  by (relation "measure (\<lambda>(x, wanted, st). wanted - length (sg_open st))") (auto simp: open_one_def)

function close_loop :: "nat \<Rightarrow> 'h stage_run \<Rightarrow> 'h stage_run" where
  "close_loop wanted st = (if length (sg_open st) > wanted then close_loop wanted (close_one st) else st)"
  by auto

termination
  by (relation "measure (\<lambda>(wanted, st). length (sg_open st))") (auto simp: close_one_def)

text \<open>One tick at \<open>elapsed\<close>; \<open>None\<close> is a panic of \<open>stage_target\<close>.\<close>

definition stage_tick :: "('n, 'h) runner \<Rightarrow> duration \<Rightarrow> 'h stage_run \<Rightarrow> 'h stage_run option" where
  "stage_tick x elapsed st =
     (case stage_target (rx_config x) elapsed of
        None \<Rightarrow> None
      | Some wanted \<Rightarrow> Some (close_loop wanted (open_loop x wanted st)))"

text \<open>The ticks before the cancellation, each with what the tasks recorded before it.\<close>

fun stage_loop :: "('n, 'h) runner \<Rightarrow> (activity \<times> duration) list \<Rightarrow> 'h stage_run \<Rightarrow> 'h stage_run option" where
  "stage_loop x [] st = Some st"
| "stage_loop x ((evs, elapsed) # ticks) st =
     (case stage_tick x elapsed (st\<lparr>sg_run := workers_do x evs (sg_run st)\<rparr>) of
        None \<Rightarrow> None
      | Some st \<Rightarrow> stage_loop x ticks st)"

definition run_stages ::
    "('n, 'h) runner \<Rightarrow> (activity \<times> duration) list \<Rightarrow> 'h run_state \<Rightarrow> (nat list \<times> 'h run_state) option" where
  "run_stages x ticks s =
     map_option (\<lambda>st. (sg_closed st @ sg_open st, sg_run st))
       (stage_loop x ticks \<lparr>sg_open = [], sg_closed = [], sg_next_id = 0, sg_run = s\<rparr>)"

section \<open>Arrivals\<close>

record 'h arrival_run =
  an_open :: "nat list"
  an_counts :: arrival_counts
  an_arrived :: nat
  an_next :: instant
  an_run :: "'h run_state"

text \<open>The second wait of a turn, once no session arrives any more: cancellation, or a session that finished.\<close>

datatype end_wait = Wait_cancelled | Wait_joined activity nat bool

text \<open>One turn of the loop: whether the sleep was cancelled, what the tasks recorded meanwhile, the two
  readings of the clock and the sessions \<open>try_join_next\<close> returns between them.\<close>

record arrival_turn =
  tu_cancelled :: bool
  tu_activity :: activity
  tu_observed :: instant
  tu_finished :: "(nat \<times> bool) list"
  tu_now :: instant
  tu_wait :: end_wait

definition end_of_run :: "('n, 'h) runner \<Rightarrow> instant" where
  "end_of_run x = rx_start x + lc_duration (rx_config x)"

definition interval_of :: "('n, 'h) runner \<Rightarrow> 'h run_state \<Rightarrow> instant \<Rightarrow> nat" where
  "interval_of x s t = ((t - rx_start x) div max (is_interval (wd_series (ru_world s))) (from_millis 1)) mod 2 ^ 64"

text \<open>A session the join set returns; it only returns sessions it holds.\<close>

definition join_open :: "('n, 'h) runner \<Rightarrow> nat \<times> bool \<Rightarrow> 'h arrival_run \<Rightarrow> 'h arrival_run" where
  "join_open x done_one st =
     (if fst done_one \<in> set (an_open st)
      then st\<lparr>an_open := remove1 (fst done_one) (an_open st),
              an_run := add_session x (fst done_one) (snd done_one) (an_run st)\<rparr>
      else st)"

definition max_open :: "arrivals \<Rightarrow> nat" where
  "max_open arrivals = (case ar_max_connections arrivals of None \<Rightarrow> usize_max | Some n \<Rightarrow> n)"

text \<open>One arrival that is due at \<open>now\<close>: it is skipped, or its session starts. The timer that ends a session after
  \<open>session_duration\<close> runs inside its task, so it is among what makes the task stop.\<close>

definition arrive :: "('n, 'h) runner \<Rightarrow> arrivals \<Rightarrow> instant \<Rightarrow> 'h arrival_run \<Rightarrow> 'h arrival_run" where
  "arrive x arrivals now st =
     (if length (an_open st) \<ge> max_open arrivals
      then st\<lparr>an_counts := (an_counts st)\<lparr>arc_skipped := arc_skipped (an_counts st) + 1\<rparr>\<rparr>
      else (let worker_id = arc_started (an_counts st);
                opened = an_open st @ [worker_id];
                counts = (an_counts st)\<lparr>arc_started := worker_id + 1\<rparr>
            in st\<lparr>an_open := opened,
                  an_counts := observe (interval_of x (an_run st) now) (length opened) counts,
                  an_run := spawn_session x worker_id (an_run st)\<rparr>))"

text \<open>\<open>start + Duration::from_secs_f64(arrived as f64 / arrivals.rate)\<close>; \<open>None\<close> is the panic of \<open>from_secs_f64\<close>.\<close>

definition arrival_due :: "('n, 'h) runner \<Rightarrow> arrivals \<Rightarrow> nat \<Rightarrow> instant option" where
  "arrival_due x arrivals arrived =
     map_option (\<lambda>d. rx_start x + d) (try_from_secs_f64 (f64_div (of_uint arrived) (ar_rate arrivals)))"

text \<open>Every arrival that is due: the outer \<open>None\<close> is a loop that never ends, \<open>Inl\<close> a panic.\<close>

partial_function (option) catch_up ::
    "('n, 'h) runner \<Rightarrow> arrivals \<Rightarrow> instant \<Rightarrow> 'h arrival_run \<Rightarrow> (unit + 'h arrival_run) option" where
  "catch_up x arrivals now st =
     (if an_next st \<le> now \<and> an_next st < end_of_run x
      then (let st = arrive x arrivals now st;
                arrived = an_arrived st + 1
            in case arrival_due x arrivals arrived of
                 None \<Rightarrow> Some (Inl ())
               | Some due \<Rightarrow> catch_up x arrivals now (st\<lparr>an_arrived := arrived, an_next := due\<rparr>))
      else Some (Inr st))"

datatype 'h arrival_end = Arrivals_stop "'h arrival_run" | Arrivals_again "'h arrival_run" | Arrivals_panic | Arrivals_stuck

text \<open>One turn of the loop.\<close>

definition arrival_wake :: "('n, 'h) runner \<Rightarrow> arrival_turn \<Rightarrow> 'h arrival_run \<Rightarrow> 'h arrival_run" where
  "arrival_wake x turn st =
     (let st = st\<lparr>an_run := workers_do x (tu_activity turn) (an_run st)\<rparr>;
          st = st\<lparr>an_counts := observe (interval_of x (an_run st) (tu_observed turn)) (length (an_open st)) (an_counts st)\<rparr>
      in fold (join_open x) (tu_finished turn) st)"

definition arrival_step :: "('n, 'h) runner \<Rightarrow> arrivals \<Rightarrow> arrival_turn \<Rightarrow> 'h arrival_run \<Rightarrow> 'h arrival_end" where
  "arrival_step x arrivals turn st =
     (if tu_cancelled turn then Arrivals_stop st
      else (let st = arrival_wake x turn st
            in if end_of_run x \<le> an_next st
               then (case tu_wait turn of
                   Wait_cancelled \<Rightarrow> Arrivals_stop st
                 | Wait_joined evs worker_id panicked \<Rightarrow>
                     (if worker_id \<in> set (an_open st)
                      then Arrivals_again (join_open x (worker_id, panicked) (st\<lparr>an_run := workers_do x evs (an_run st)\<rparr>))
                      else Arrivals_stop st))
               else (case catch_up x arrivals (tu_now turn) st of
                   None \<Rightarrow> Arrivals_stuck
                 | Some (Inl _) \<Rightarrow> Arrivals_panic
                 | Some (Inr st) \<Rightarrow> Arrivals_again st)))"

text \<open>The turns of a run; after the last one the run is cancelled.\<close>

fun arrival_loop :: "('n, 'h) runner \<Rightarrow> arrivals \<Rightarrow> arrival_turn list \<Rightarrow> 'h arrival_run \<Rightarrow> 'h arrival_end" where
  "arrival_loop x arrivals [] st = Arrivals_stop st"
| "arrival_loop x arrivals (turn # turns) st =
     (case arrival_step x arrivals turn st of
        Arrivals_again st \<Rightarrow> arrival_loop x arrivals turns st
      | other \<Rightarrow> other)"

text \<open>The joins after the loop, in the order the sessions stop; it ends once none is open.\<close>

fun drain_loop :: "('n, 'h) runner \<Rightarrow> (activity \<times> nat \<times> bool) list \<Rightarrow> 'h arrival_run \<Rightarrow> 'h arrival_run option" where
  "drain_loop x stops st =
     (if an_open st = [] then Some st
      else (case stops of
          [] \<Rightarrow> None
        | (evs, done_one) # stops \<Rightarrow>
            drain_loop x stops (join_open x done_one (st\<lparr>an_run := workers_do x evs (an_run st)\<rparr>))))"

definition arrivals_start :: "('n, 'h) runner \<Rightarrow> 'h run_state \<Rightarrow> 'h arrival_run" where
  "arrivals_start x s =
     \<lparr>an_open = [], an_counts = arrival_counts_default, an_arrived = 0, an_next = rx_start x, an_run = s\<rparr>"

datatype run_failure = Metrics_failed | Run_panicked | Run_unfinished

definition run_arrivals ::
    "('n, 'h) runner \<Rightarrow> arrivals \<Rightarrow> arrival_turn list \<Rightarrow> (activity \<times> nat \<times> bool) list \<Rightarrow> 'h run_state
     \<Rightarrow> run_failure + arrival_counts \<times> 'h run_state" where
  "run_arrivals x arrivals turns stops s =
     (case arrival_loop x arrivals turns (arrivals_start x s) of
        Arrivals_panic \<Rightarrow> Inl Run_panicked
      | Arrivals_stuck \<Rightarrow> Inl Run_unfinished
      | Arrivals_again st \<Rightarrow> Inl Run_unfinished
      | Arrivals_stop st \<Rightarrow>
          (case drain_loop x stops st of
             None \<Rightarrow> Inl Run_unfinished
           | Some st \<Rightarrow> Inr (an_counts st, absorb_recorder x (an_run st))))"

section \<open>A whole run\<close>

record 'h run_outcome =
  ro_totals :: "'h metrics_totals"
  ro_arrivals :: "arrival_counts option"
  ro_compression :: "compression_counts option"
  ro_elapsed :: duration
  ro_connections :: u64
  ro_not_started :: u64
  ro_started_at :: instant
  ro_time_series :: time_series
  ro_interval_store :: "'h interval_store"
  ro_capture :: "capture_summary option"
  ro_lag :: "'h lag_totals"

text \<open>What a run reads from its surroundings: the turns of whichever loop it runs, what the tasks record while
  the runner waits and before each handle is joined and whether that task panicked, the time it took,
  the samples of the counter sampler, the wake-ups of the lag probe, and the totals of its own capture and
  of the target's compression.\<close>

record run_inputs =
  ri_ramp :: "nat \<Rightarrow> ramp_turn"
  ri_ticks :: "(activity \<times> duration) list"
  ri_turns :: "arrival_turn list"
  ri_stops :: "(activity \<times> nat \<times> bool) list"
  ri_wait :: activity
  ri_joins :: "nat \<Rightarrow> activity \<times> bool"
  ri_elapsed :: duration
  ri_samples :: "sample list"
  ri_first_due :: instant
  ri_wakes :: "instant list"
  ri_windows :: bool
  ri_capture :: "capture_summary option"
  ri_compression :: "compression_counts option"
  ri_cores :: "nat option"

text \<open>\<open>for handle in handles\<close>.\<close>

definition join_handles :: "('n, 'h) runner \<Rightarrow> (nat \<Rightarrow> activity \<times> bool) \<Rightarrow> nat list \<Rightarrow> 'h run_state \<Rightarrow> 'h run_state" where
  "join_handles x joins handles s =
     fold (\<lambda>handle s. join_handle x handle (snd (joins handle)) (workers_do x (fst (joins handle)) s)) handles s"

definition runner_recorder :: "('n, 'h) runner \<Rightarrow> nat option \<Rightarrow> latency_recorder" where
  "runner_recorder x cores =
     (case rx_scenario x of
        Some phase \<Rightarrow> with_actions (ph_action_names phase) (new_recorder cores)
      | None \<Rightarrow> new_recorder cores)"

text \<open>The state a run starts with: a fresh interval store and recorder, the live counters as they are.\<close>

definition run_start :: "('n, 'h) runner \<Rightarrow> nat option \<Rightarrow> 'h world \<Rightarrow> 'h metrics_totals \<Rightarrow> 'h run_state" where
  "run_start x cores world totals =
     \<lparr>ru_ws = (\<lambda>_. fst (worker_new (rx_latency x) (wd_live world))),
      ru_world = world\<lparr>wd_series := store_new (rx_start x) (interval_for (lc_duration (rx_config x))),
        wd_latency := (wd_latency world)(rx_latency x := runner_recorder x cores)\<rparr>,
      ru_spawned = [], ru_cancelled = [], ru_joined = [], ru_panicked = [], ru_totals = totals\<rparr>"

text \<open>The branches of \<open>drive\<close>: handles to join, connections, slots not started and arrival counts.\<close>

definition run_load ::
    "('n, 'h) runner \<Rightarrow> run_inputs \<Rightarrow> 'h run_state
     \<Rightarrow> run_failure + nat list \<times> u64 \<times> u64 \<times> arrival_counts option \<times> 'h run_state" where
  "run_load x inp s =
     (case spawn_delay (lc_ramp_rate (rx_config x)) of
        None \<Rightarrow> Inl Run_panicked
      | Some delay \<Rightarrow>
          (case lc_arrivals (rx_config x) of
             Some arrivals \<Rightarrow>
               and_then (run_arrivals x arrivals (ri_turns inp) (ri_stops inp) s) (\<lambda>(counts, s).
                 Inr ([], of_nat (arc_started counts), 0, Some counts, s))
           | None \<Rightarrow>
               (if lc_stages (rx_config x) = []
                then (let total_connections = lc_connections (rx_config x);
                          (handles, s) = ramp_loop x delay (ri_ramp inp) [0..<total_connections] ([], s);
                          s = workers_do x (ri_wait inp) s
                      in Inr (handles, of_nat total_connections, of_nat (total_connections - length handles), None, s))
                else (case run_stages x (ri_ticks inp) s of
                    None \<Rightarrow> Inl Run_panicked
                  | Some (handles, s) \<Rightarrow> Inr (handles, of_nat (length handles), 0, None, s)))))"

definition drive ::
    "('n, 'h) runner \<Rightarrow> run_inputs \<Rightarrow> live_state option \<Rightarrow> 'h world
     \<Rightarrow> run_failure + 'h run_outcome \<times> 'h run_state \<times> live_state option" where
  "drive x inp live_intervals world =
     (case totals_new (rx_hdr x) of
        None \<Rightarrow> Inl Metrics_failed
      | Some totals \<Rightarrow>
          (let s = run_start x (ri_cores inp) world totals;
               store = wd_series (ru_world s);
               live_intervals = map_option (begin_phase (\<lambda>_. store) (rx_latency x) (runner_latency_basis x)) live_intervals
           in and_then (run_load x inp s) (\<lambda>(handles, connections, not_started, arrivals, s).
                (let s = join_handles x (ri_joins inp) handles s;
                     live_intervals = map_option (end_phase (ri_elapsed inp)) live_intervals;
                     samples = sampler_finish (ri_elapsed inp) (live_snapshot (wd_live (ru_world s))) (ri_samples inp);
                     time_series = series_build (rx_hdr x) samples (wd_series (ru_world s)) (runner_latency_basis x);
                     lag = probe_run (rx_hdr x) (ri_windows inp) (rx_start x) (interval_for (lc_duration (rx_config x)))
                             (ri_first_due inp) (ri_wakes inp)
                 in Inr (\<lparr>ro_totals = ru_totals s, ro_arrivals = arrivals, ro_compression = ri_compression inp,
                      ro_elapsed = ri_elapsed inp, ro_connections = connections, ro_not_started = not_started,
                      ro_started_at = rx_start x, ro_time_series = attach_lag lag time_series,
                      ro_interval_store = wd_series (ru_world s), ro_capture = ri_capture inp,
                      ro_lag = lag_totals_of lag\<rparr>, s, live_intervals)))))"

text \<open>\<open>run_and_collect\<close>, cancelled before the target is resolved or not.\<close>

definition lag_default :: "'h lag_totals" where
  "lag_default = \<lparr>lt_hist = None, lt_intervals = 0, lt_over = 0, lt_threshold = None\<rparr>"

definition run_cancelled_early :: "('n, 'h) runner \<Rightarrow> 'h metrics_totals \<Rightarrow> 'h run_outcome" where
  "run_cancelled_early x totals =
     (let total_connections = of_nat (lc_connections (rx_config x))
      in \<lparr>ro_totals = totals, ro_arrivals = None, ro_compression = None, ro_elapsed = 0,
          ro_connections = total_connections, ro_not_started = total_connections, ro_started_at = rx_start x,
          ro_time_series = series_default,
          ro_interval_store = store_new (rx_start x) (interval_for (lc_duration (rx_config x))),
          ro_capture = None, ro_lag = lag_default\<rparr>)"

definition run_and_collect ::
    "('n, 'h) runner \<Rightarrow> bool \<Rightarrow> run_inputs \<Rightarrow> live_state option \<Rightarrow> 'h world
     \<Rightarrow> run_failure + 'h run_outcome \<times> 'h world \<times> live_state option" where
  "run_and_collect x cancelled_before inp live_intervals world =
     (if cancelled_before
      then (case totals_new (rx_hdr x) of
          None \<Rightarrow> Inl Metrics_failed
        | Some totals \<Rightarrow> Inr (run_cancelled_early x totals, world, live_intervals))
      else and_then (drive x inp live_intervals world) (\<lambda>(outcome, s, live_intervals).
             Inr (outcome, ru_world s, live_intervals)))"

text \<open>\<open>getrlimit\<close> is an argument: the soft limit, or nothing where it cannot be read.\<close>

definition open_file_limit_for :: "nat option \<Rightarrow> nat \<Rightarrow> open_file_limit option" where
  "open_file_limit_for rlimit required_conns =
     (case rlimit of
        None \<Rightarrow> None
      | Some soft_limit \<Rightarrow>
          (let needed = saturating_add required_conns 64
           in Some \<lparr>of_soft_limit = soft_limit, of_needed = needed, of_sufficient = needed \<le> soft_limit\<rparr>))"

text \<open>\<open>Runner::run\<close>: the report of an outcome.\<close>

definition outcome_report ::
    "'h hdr \<Rightarrow> bool \<Rightarrow> nat option \<Rightarrow> arrivals option \<Rightarrow> nat \<Rightarrow> 'h run_outcome \<Rightarrow> aggregated_metrics" where
  "outcome_report H windows rlimit arrivals connections r =
     with_generator (lag_summary H windows (ro_lag r)) (open_file_limit_for rlimit connections)
       (with_compression (ro_compression r)
         (with_arrivals arrivals (ro_arrivals r)
           (with_capture (ro_capture r)
             (with_time_series (ro_time_series r)
               (with_not_started (ro_not_started r)
                 (totals_finish H (ro_elapsed r) (ro_connections r) (ro_totals r)))))))"

definition runner_run ::
    "('n, 'h) runner \<Rightarrow> nat option \<Rightarrow> bool \<Rightarrow> run_inputs \<Rightarrow> live_state option \<Rightarrow> 'h world \<Rightarrow> run_failure + aggregated_metrics" where
  "runner_run x rlimit cancelled_before inp live_intervals world =
     and_then (run_and_collect x cancelled_before inp live_intervals world) (\<lambda>(r, _, _).
       Inr (outcome_report (rx_hdr x) (ri_windows inp) rlimit (lc_arrivals (rx_config x)) (lc_connections (rx_config x)) r))"

section \<open>Warnings\<close>

definition ordinal :: "nat \<Rightarrow> string" where
  "ordinal n =
     show_nat n @
       (if n mod 100 \<in> {11, 12, 13} then ''th''
        else if n mod 10 = 1 then ''st''
        else if n mod 10 = 2 then ''nd''
        else if n mod 10 = 3 then ''rd''
        else ''th'')"

text \<open>What the warning about \<open>--max-connections\<close> says is open at once, when it is printed.\<close>

definition warn_if_arrivals_exceed_cap :: "arrivals \<Rightarrow> f64 option" where
  "warn_if_arrivals_exceed_cap arrivals =
     (case ar_max_connections arrivals of
        None \<Rightarrow> None
      | Some most \<Rightarrow>
          (let opened = f64_mul (ar_rate arrivals) (as_secs_f64 (ar_session_duration arrivals))
           in if f64_lt (of_uint most) opened then Some (f64_ceil opened) else None))"

text \<open>How many connections the warning about a long ramp says will be opened, when it is printed.\<close>

definition warn_if_ramp_exceeds_duration :: "nat \<Rightarrow> nat \<Rightarrow> duration \<Rightarrow> nat option" where
  "warn_if_ramp_exceeds_duration connections ramp_rate duration =
     (if ramp_rate = 0 \<or> connections = 0 then None
      else (let last_spawn_secs = f64_div (of_uint (connections - 1)) (of_uint ramp_rate)
            in if f64_le (as_secs_f64 duration) last_spawn_secs
               then Some (min (f64_to_u64 (f64_ceil (f64_mul (as_secs_f64 duration) (of_uint ramp_rate)))) connections)
               else None))"

definition check_file_descriptor_limit :: "nat option \<Rightarrow> nat \<Rightarrow> bool" where
  "check_file_descriptor_limit rlimit required_conns =
     (case open_file_limit_for rlimit required_conns of None \<Rightarrow> False | Some limit \<Rightarrow> \<not> of_sufficient limit)"

record limit_warnings =
  wa_files :: bool
  wa_ramp :: "nat option"
  wa_cap :: "f64 option"
  wa_rows :: "(nat \<times> nat \<times> string) option"

text \<open>\<open>warn_about_limits\<close>: the last entry is the number of rows, of rows needed, and which connection or
  session reuses the first row.\<close>

definition warn_about_limits :: "nat option \<Rightarrow> 'n load_config \<Rightarrow> limit_warnings" where
  "warn_about_limits rlimit config =
     (let rows_needed = (case lc_arrivals config of
            Some arrivals \<Rightarrow> f64_to_u64 (f64_min (f64_ceil (f64_mul (ar_rate arrivals) (as_secs_f64 (lc_duration config))))
              (of_uint usize_max))
          | None \<Rightarrow> lc_connections config)
      in \<lparr>wa_files = check_file_descriptor_limit rlimit (lc_connections config),
          wa_ramp = warn_if_ramp_exceeds_duration (lc_connections config) (lc_ramp_rate config) (lc_duration config),
          wa_cap = (case lc_arrivals config of None \<Rightarrow> None | Some arrivals \<Rightarrow> warn_if_arrivals_exceed_cap arrivals),
          wa_rows = (case lc_data config of
              None \<Rightarrow> None
            | Some d \<Rightarrow> (if length (ds_rows d) < rows_needed
                then Some (length (ds_rows d), rows_needed, ordinal (length (ds_rows d) + 1)) else None))\<rparr>)"

end
