(* ===== verification/Agent_Plan.thy ===== *)
theory Agent_Plan
  imports Load_Config Base64
begin

text \<open>
  \<open>src/distributed/protocol.rs\<close>: the token check, how a coordinator splits a run between its agents
  (\<open>plan\<close>), the wire form of a configuration (\<open>WireConfig::from_config\<close>) and how an agent builds its own
  configuration from it (\<open>WireConfig::into_config\<close>). Refreshed authentication headers are left out.
\<close>

section \<open>Tokens\<close>

abbreviation MIN_TOKEN_LEN :: nat where
  "MIN_TOKEN_LEN \<equiv> 16"

fun diff_bytes :: "u8 list \<Rightarrow> u8 list \<Rightarrow> u8 \<Rightarrow> u8" where
  "diff_bytes [] presented diff = diff"
| "diff_bytes (byte # rest) presented diff =
     diff_bytes rest (drop 1 presented)
       (diff OR (byte XOR (case presented of [] \<Rightarrow> NOT byte | other # _ \<Rightarrow> other)))"

definition tokens_match :: "u8 list \<Rightarrow> u8 list \<Rightarrow> bool" where
  "tokens_match expected presented =
     (diff_bytes expected presented (if length expected \<noteq> length presented then 1 else 0) = 0)"

definition bearer_token :: "string \<Rightarrow> string option" where
  "bearer_token header =
     (case split_once '' '' (trim header) of
        None \<Rightarrow> None
      | Some (scheme, token) \<Rightarrow>
          (if to_ascii_lowercase scheme = ''bearer'' \<and> trim token \<noteq> [] then Some (trim token) else None))"

section \<open>The wire form\<close>

record wire_socketio =
  ws_namespace :: string
  ws_event :: string
  ws_auth :: "string option"
  ws_version :: nat

record wire_arrivals =
  wa_rate :: f64
  wa_session_duration :: duration
  wa_max_connections :: "nat option"

record wire_stage =
  wst_duration :: duration
  wst_target :: nat

datatype wire_payload = Wire_Text string | Wire_Binary string

datatype 'n wire_action =
    Wire_Send "wire_payload option" nat "'n check option" "capture list" "nat option"
  | Wire_Wait duration
  | Wire_Ping duration
  | Wire_Close nat string

record 'n wire_phase =
  wp_name :: string
  wp_think_time :: duration
  wp_actions :: "'n wire_action list"
  wp_vars :: "string list"
  wp_action_names :: "string list"

record wire_chaos =
  wch_delay :: duration
  wch_jitter :: duration
  wch_drop_percent :: f64
  wch_corrupt_percent :: f64
  wch_close_percent :: f64
  wch_close_mode :: string
  wch_read_pause :: duration
  wch_read_jitter :: duration
  wch_seed :: u64

record wire_data =
  wd_path :: string
  wd_columns :: "string list"
  wd_rows :: "string list list"
  wd_share :: "share option"

record 'n wire_config =
  wc_target :: string
  wc_mode :: string
  wc_connections :: nat
  wc_ramp_rate :: nat
  wc_duration :: duration
  wc_stages :: "wire_stage list"
  wc_stage_share :: "share option"
  wc_arrivals :: "wire_arrivals option"
  wc_max_requests :: "nat option"
  wc_rate_per_conn :: nat
  wc_payload :: wire_payload
  wc_headers :: "(string \<times> string) list"
  wc_subprotocol :: "string option"
  wc_connect_timeout :: duration
  wc_message_timeout :: duration
  wc_ping_every :: duration
  wc_reply_match :: string
  wc_expect :: "'n check option"
  wc_reconnect :: bool
  wc_compression :: bool
  wc_graphql :: "'n graphql_config option"
  wc_socketio :: "wire_socketio option"
  wc_phase :: "'n wire_phase option"
  wc_capture_limit :: "nat option option"
  wc_chaos :: "wire_chaos option"
  wc_data :: "wire_data option"

text \<open>The command-line spellings of \<open>TestMode\<close> and \<open>ChaosCloseMode\<close> (\<open>ValueEnum\<close>), with their aliases.\<close>

fun mode_name :: "test_mode \<Rightarrow> string" where
  "mode_name Echo = ''echo''"
| "mode_name Stream = ''stream''"
| "mode_name Listen = ''listen''"
| "mode_name GraphQLWS = ''graphql-ws''"
| "mode_name SocketIo = ''socketio''"

definition mode_from_str :: "string \<Rightarrow> test_mode option" where
  "mode_from_str s =
     (if s = ''echo'' then Some Echo else if s = ''stream'' then Some Stream
      else if s = ''listen'' then Some Listen
      else if s = ''graphql-ws'' \<or> s = ''graph-qlws'' then Some GraphQLWS
      else if s = ''socketio'' \<or> s = ''socket.io'' then Some SocketIo else None)"

fun close_mode_name :: "chaos_close_mode \<Rightarrow> string" where
  "close_mode_name Abrupt = ''abrupt''"
| "close_mode_name Graceful = ''graceful''"

definition close_mode_from_str :: "string \<Rightarrow> chaos_close_mode option" where
  "close_mode_from_str s =
     (if s = ''abrupt'' then Some Abrupt else if s = ''graceful'' then Some Graceful else None)"

definition wire_chaos_new :: "chaos_config \<Rightarrow> u64 \<Rightarrow> wire_chaos" where
  "wire_chaos_new c seed =
     \<lparr>wch_delay = ch_delay c, wch_jitter = ch_jitter c, wch_drop_percent = drop_percent c,
      wch_corrupt_percent = corrupt_percent c, wch_close_percent = close_percent c,
      wch_close_mode = close_mode_name (close_mode c), wch_read_pause = ch_read_pause c,
      wch_read_jitter = ch_read_jitter c, wch_seed = seed\<rparr>"

definition wire_chaos_into :: "wire_chaos \<Rightarrow> test_mode \<Rightarrow> bool \<Rightarrow> config_error + chaos_config" where
  "wire_chaos_into w mode scripted =
     and_then (ok_or (UnsupportedOption (wch_close_mode w)) (close_mode_from_str (wch_close_mode w))) (\<lambda>cm.
       let c = \<lparr>ch_delay = wch_delay w, ch_jitter = wch_jitter w, drop_percent = wch_drop_percent w,
                corrupt_percent = wch_corrupt_percent w, close_percent = wch_close_percent w, close_mode = cm,
                ch_read_pause = wch_read_pause w, ch_read_jitter = wch_read_jitter w, ch_seed = Some (wch_seed w)\<rparr>
       in and_then (chaos_validate c) (\<lambda>_. and_then (validate_chaos_mode c mode scripted) (\<lambda>_. Inr c)))"

fun payload_to_wire :: "payload_config \<Rightarrow> wire_payload" where
  "payload_to_wire (StaticText s) = Wire_Text s"
| "payload_to_wire (DynamicText t) = Wire_Text (tpl_source t)"
| "payload_to_wire (Binary bs) = Wire_Binary (encode (to_bytes bs))"

fun payload_from_wire :: "wire_payload \<Rightarrow> config_error + payload_config" where
  "payload_from_wire (Wire_Text s) = Inr (from_text s)"
| "payload_from_wire (Wire_Binary b) =
     (case decode b of None \<Rightarrow> Inl (InvalidOption ''base64'') | Some bs \<Rightarrow> Inr (Binary (of_bytes bs)))"

fun engine_version :: "engine_io \<Rightarrow> nat" where
  "engine_version V3 = 2"
| "engine_version V4 = 4"

definition from_config :: "'n env \<Rightarrow> 'n load_config \<Rightarrow> config_error + 'n wire_config" where
  "from_config env c =
     and_then (collect_results (\<lambda>(name, value).
         ok_or (InvalidHeader name) (map_option (Pair name) (env_header_to_str env value))) (lc_headers c)) (\<lambda>fixed.
       Inr \<lparr>wc_target = env_url_to_string env (lc_target_url c), wc_mode = mode_name (lc_mode c),
            wc_connections = lc_connections c, wc_ramp_rate = lc_ramp_rate c, wc_duration = lc_duration c,
            wc_stages = map (\<lambda>s. \<lparr>wst_duration = st_duration s, wst_target = st_target s\<rparr>) (lc_stages c),
            wc_stage_share = None,
            wc_arrivals = map_option (\<lambda>a. \<lparr>wa_rate = ar_rate a, wa_session_duration = ar_session_duration a,
                wa_max_connections = ar_max_connections a\<rparr>) (lc_arrivals c),
            wc_max_requests = lc_max_requests c, wc_rate_per_conn = lc_rate_per_conn c,
            wc_payload = payload_to_wire (lc_payload c),
            wc_headers = fixed @ map (\<lambda>(name, t). (name, tpl_source t)) (lc_header_templates c),
            wc_subprotocol = lc_subprotocol c, wc_connect_timeout = lc_connect_timeout c,
            wc_message_timeout = lc_message_timeout c, wc_ping_every = lc_ping_every c,
            wc_reply_match = reply_flag_value (lc_reply_match c), wc_expect = lc_expect c,
            wc_reconnect = (\<not> lc_no_reconnect c), wc_compression = lc_compression c,
            wc_graphql = lc_graphql_ws c,
            wc_socketio = map_option (\<lambda>sio. \<lparr>ws_namespace = sio_namespace sio, ws_event = sio_event sio,
                ws_auth = map_option tpl_source (sio_auth sio), ws_version = engine_version (sio_engine sio)\<rparr>)
              (lc_socketio c),
            wc_phase = None, wc_capture_limit = None, wc_chaos = None,
            wc_data = map_option (\<lambda>d. \<lparr>wd_path = ds_path d, wd_columns = ds_columns d, wd_rows = ds_rows d,
                wd_share = None\<rparr>) (lc_data c)\<rparr>)"

section \<open>Planning\<close>

definition check_plan :: "'n load_config \<Rightarrow> nat \<Rightarrow> config_error + unit" where
  "check_plan c agents =
     (if agents = 0 then Inl (InvalidOption ''--agents'')
      else if lc_source_ips c \<noteq> [] then Inl (UnsupportedOption ''--source-ip'')
      else if (case Option.bind (lc_arrivals c) ar_max_connections of None \<Rightarrow> False | Some hi \<Rightarrow> hi < agents)
      then Inl (InvalidOption ''--max-connections'')
      else if lc_arrivals c = None \<and> lc_connections c < agents then Inl (InvalidOption ''connections'')
      else if (case lc_max_requests c of None \<Rightarrow> False | Some requests \<Rightarrow> requests < agents)
      then Inl (InvalidOption ''-n'')
      else if lc_ramp_rate c > 0 \<and> lc_ramp_rate c < agents then Inl (InvalidOption ''--ramp-rate'')
      else Inr ())"

definition agent_wire :: "'n load_config \<Rightarrow> nat \<Rightarrow> 'n wire_config \<Rightarrow> nat \<Rightarrow> 'n wire_config" where
  "agent_wire c agents base index =
     base\<lparr>wc_connections := share_of (index, agents) (lc_connections c),
       wc_ramp_rate := split_total (lc_ramp_rate c) index agents,
       wc_max_requests := map_option (\<lambda>requests. split_total requests index agents) (lc_max_requests c),
       wc_stage_share := (if lc_stages c \<noteq> [] then Some (index, agents) else None),
       wc_arrivals := map_option (\<lambda>a. a\<lparr>wa_rate := f64_div (wa_rate a) (of_uint agents),
           wa_max_connections := map_option (share_of (index, agents)) (wa_max_connections a)\<rparr>) (wc_arrivals base),
       wc_data := map_option (\<lambda>d. d\<lparr>wd_share := Some (index, agents)\<rparr>) (wc_data base),
       wc_chaos := (case lc_chaos c of
           None \<Rightarrow> wc_chaos base
         | Some ch \<Rightarrow> Some (wire_chaos_new ch (agent_seed (or_default (ch_seed ch) 0) index)))\<rparr>"

definition plan :: "'n env \<Rightarrow> 'n load_config \<Rightarrow> nat \<Rightarrow> config_error + 'n wire_config list" where
  "plan env c agents =
     and_then (check_plan c agents) (\<lambda>_.
       and_then (from_config env c) (\<lambda>base. Inr (map (agent_wire c agents base) [0..<agents])))"

section \<open>The agent's configuration\<close>

definition check_share :: "string \<Rightarrow> share \<Rightarrow> config_error + unit" where
  "check_share what share =
     (if snd share = 0 \<or> fst share \<ge> snd share then Inl (InvalidOption what) else Inr ())"

definition data_from_wire :: "wire_data \<Rightarrow> config_error + data_set" where
  "data_from_wire w =
     and_then (map_err (\<lambda>_. DataFile (wd_path w)) (from_parts (wd_path w) (wd_columns w) (wd_rows w))) (\<lambda>d.
       case wd_share w of
         None \<Rightarrow> Inr d
       | Some share \<Rightarrow>
           and_then (check_share ''data share'' share) (\<lambda>_. Inr (with_share (fst share) (snd share) d)))"

definition wire_builder ::
    "'n env \<Rightarrow> 'n wire_config \<Rightarrow> test_mode \<Rightarrow> reply_match \<Rightarrow> payload_config \<Rightarrow> data_set option \<Rightarrow> 'n builder" where
  "wire_builder env w mode rm payload data =
     fold (\<lambda>(name, value). builder_header env name value) (wc_headers w)
       ((builder_new (wc_target w))\<lparr>b_mode := mode, b_connections := wc_connections w, b_ramp_rate := wc_ramp_rate w,
         b_duration := wc_duration w,
         b_stages := map (\<lambda>s. \<lparr>st_duration = wst_duration s, st_target = wst_target s\<rparr>) (wc_stages w),
         b_rate_per_conn := wc_rate_per_conn w, b_connect_timeout := wc_connect_timeout w,
         b_message_timeout := wc_message_timeout w, b_ping_interval := wc_ping_every w, b_reply_match := rm,
         b_reconnect := wc_reconnect w, b_progress := False,
         b_arrivals := map_option (\<lambda>a. \<lparr>ar_rate = wa_rate a, ar_session_duration = wa_session_duration a,
             ar_max_connections = wa_max_connections a\<rparr>) (wc_arrivals w),
         b_max_requests := wc_max_requests w,
         b_expect := map_option (check_flag_value (env_json env)) (wc_expect w), b_payload := payload,
         b_data := map_option Loaded data, b_subprotocol := wc_subprotocol w, b_compression := wc_compression w,
         b_socketio := (case wc_socketio w of
             None \<Rightarrow> \<lparr>so_event = None, so_namespace = None, so_auth = None, so_version = None\<rparr>
           | Some s \<Rightarrow> \<lparr>so_event = Some (ws_event s), so_namespace = Some (ws_namespace s), so_auth = ws_auth s,
                        so_version = Some (ws_version s)\<rparr>),
         b_graphql := (case wc_graphql w of
             None \<Rightarrow> \<lparr>gql_operation = None, gql_operation_name = None, gql_variables = None, gql_extensions = None\<rparr>
           | Some g \<Rightarrow> \<lparr>gql_operation = Some (gw_operation g), gql_operation_name = gw_operation_name g,
                        gql_variables = gw_variables g, gql_extensions = gw_extensions g\<rparr>)\<rparr>)"

definition scripted :: "'n wire_config \<Rightarrow> bool" where
  "scripted w = (case wc_phase w of None \<Rightarrow> False | Some p \<Rightarrow> wp_actions p \<noteq> [])"

definition set_stage_share :: "share option \<Rightarrow> 'n load_config \<Rightarrow> config_error + 'n load_config" where
  "set_stage_share sh c =
     (case sh of
        None \<Rightarrow> Inr c
      | Some share \<Rightarrow>
          and_then (check_share ''stage share'' share) (\<lambda>_.
            if lc_stages c = [] then Inl (InvalidOption ''stages'')
            else Inr (c\<lparr>lc_connections := share_of share (lc_connections c), lc_stage_share := Some share\<rparr>)))"

definition finish_config :: "'n wire_config \<Rightarrow> test_mode \<Rightarrow> 'n load_config \<Rightarrow> config_error + 'n load_config" where
  "finish_config w mode c =
     and_then (transpose_opt (\<lambda>ch. wire_chaos_into ch mode (scripted w)) (wc_chaos w)) (\<lambda>chaos.
       and_then (set_stage_share (wc_stage_share w) (if chaos = None then c else c\<lparr>lc_chaos := chaos\<rparr>)) (\<lambda>c.
         if lc_connections c = 0 then Inl (ZeroConcurrency 0) else Inr c))"

definition into_config :: "'n env \<Rightarrow> 'n wire_config \<Rightarrow> build_error + 'n load_config" where
  "into_config env w =
     and_then (map_err Rejected (ok_or (UnsupportedOption (wc_mode w)) (mode_from_str (wc_mode w)))) (\<lambda>mode.
     and_then (map_err Rejected (reply_match_from_str (wc_reply_match w))) (\<lambda>rm.
     and_then (map_err Rejected (payload_from_wire (wc_payload w))) (\<lambda>payload.
     and_then (map_err Rejected (transpose_opt data_from_wire (wc_data w))) (\<lambda>data.
     and_then (build env (wire_builder env w mode rm payload data)) (\<lambda>c.
     map_err Rejected (finish_config w mode c))))))"

section \<open>Tokens are compared exactly\<close>

lemma diff_bytes_0_iff:
  "diff_bytes expected presented d = 0 \<longleftrightarrow> d = 0 \<and> prefix expected presented"
proof (induction expected presented d rule: diff_bytes.induct)
  case (2 byte rest presented diff)
  have "byte XOR NOT byte \<noteq> 0" by simp
  moreover have "byte XOR other = 0 \<longleftrightarrow> byte = other" for other
  proof
    assume "byte XOR other = 0"
    moreover have "byte XOR (byte XOR other) = other" by (simp add: xor.assoc [symmetric])
    ultimately show "byte = other" by simp
  qed simp
  ultimately show ?case using 2 by (cases presented) (auto simp: or_eq_0_iff)
qed simp

section \<open>Shares add up\<close>

lemma sum_small: "m \<le> n \<Longrightarrow> (\<Sum>i<n. if i < m then 1 else (0::nat)) = m"
proof -
  assume "m \<le> n"
  then have "{..<n} \<inter> {i. i < m} = {..<m}" by auto
  then show ?thesis by (simp add: sum.If_cases)
qed

lemma split_total_sum: "0 < n \<Longrightarrow> (\<Sum>i<n. split_total t i n) = t"
proof -
  assume n: "0 < n"
  then have "(\<Sum>i<n. split_total t i n) = n * (t div n) + (\<Sum>i<n. if i < t mod n then 1 else 0)"
    by (simp add: split_total_def Let_def max_absorb1 Suc_leI sum.distrib)
  also have "(\<Sum>i<n. if i < t mod n then 1 else (0::nat)) = t mod n" using n by (intro sum_small) simp
  finally show ?thesis by simp
qed

lemma split_total_pos: "n \<le> t \<Longrightarrow> 0 < n \<Longrightarrow> 0 < split_total t i n"
  by (simp add: split_total_def Let_def div_greater_zero_iff)

lemma split_total_0 [simp]: "split_total 0 i n = 0"
  by (simp add: split_total_def Let_def)

section \<open>What survives the wire\<close>

text \<open>
  What the documentation of \<open>http\<close> promises: a parsed header name is its own spelling and holds no white
  space, and a header value's text makes the value again.
\<close>

definition header_laws :: "'n env \<Rightarrow> bool" where
  "header_laws env \<longleftrightarrow>
     (\<forall>s n. env_header_name env s = Some n \<longrightarrow> env_header_name env n = Some n \<and> trim n = n) \<and>
     (\<forall>v s. env_header_to_str env v = Some s \<longrightarrow> env_header_value env s = Some v) \<and>
     (\<forall>s s' v. env_header_value env s = Some v \<and> env_header_to_str env v = Some s' \<longrightarrow> s' = s)"

definition headers_ok :: "'n env \<Rightarrow> (string \<times> string) list \<Rightarrow> bool" where
  "headers_ok env hs \<longleftrightarrow>
     (\<forall>(n, v)\<in>set hs. env_header_name env n = Some n \<and> trim n = n \<and>
        (\<forall>s. env_header_to_str env v = Some s \<longrightarrow> trim s = s \<and> env_header_value env s = Some v))"

definition payload_parsed :: "payload_config \<Rightarrow> bool" where
  "payload_parsed p \<longleftrightarrow> (\<exists>s. p = from_text s) \<or> (\<exists>bs. p = Binary bs)"

definition builder_ok :: "'n env \<Rightarrow> 'n builder \<Rightarrow> bool" where
  "builder_ok env b \<longleftrightarrow> headers_ok env (b_headers b) \<and> payload_parsed (b_payload b) \<and>
     (\<forall>d. b_data b = Some (Loaded d) \<longrightarrow> data_wf d)"

text \<open>Every builder the setters make is such a builder.\<close>

lemma builder_new_ok: "builder_ok env (builder_new t)"
  by (auto simp: builder_ok_def builder_new_def headers_ok_def payload_parsed_def)

lemma payload_text_ok: "builder_ok env b \<Longrightarrow> builder_ok env (payload_text s b)"
  by (auto simp: builder_ok_def payload_text_def payload_parsed_def)

lemma builder_header_ok:
  assumes "header_laws env" "builder_ok env b"
  shows "builder_ok env (builder_header env name value b)"
proof (cases "env_header_name env (trim name)"; cases "env_header_value env (trim value)")
  fix n v assume nv: "env_header_name env (trim name) = Some n" "env_header_value env (trim value) = Some v"
  have "env_header_name env n = Some n" "trim n = n" using assms(1) nv(1) by (auto simp: header_laws_def)
  moreover have "trim s = s" "env_header_value env s = Some v" if "env_header_to_str env v = Some s" for s
  proof -
    have "s = trim value" using assms(1) nv(2) that unfolding header_laws_def by blast
    with nv(2) show "trim s = s" "env_header_value env s = Some v" by simp_all
  qed
  ultimately show ?thesis
    using assms(2) nv by (auto simp: builder_header_def builder_ok_def headers_ok_def)
qed (use assms(2) in \<open>simp_all add: builder_header_def builder_ok_def\<close>)

lemma tpl_source_parse [simp]: "tpl_source (parse_with_vars s vars) = s" "tpl_source (parse_template s) = s"
  by (simp_all add: parse_with_vars_def parse_template_def Let_def)

lemma payload_wire: "payload_parsed p \<Longrightarrow> payload_from_wire (payload_to_wire p) = Inr p"
  by (auto simp: payload_parsed_def from_text_def from_text_with_vars_def Let_def)

lemma reply_match_wire: "pointer_ok rm \<Longrightarrow> reply_match_from_str (reply_flag_value rm) = Inr rm"
  by (cases rm) (simp_all add: reply_match_from_str_def pointer_ok_def strip_prefix_def)

lemma mode_wire [simp]: "mode_from_str (mode_name m) = Some m"
  by (cases m) (simp_all add: mode_from_str_def)

lemma close_mode_wire [simp]: "close_mode_from_str (close_mode_name m) = Some m"
  by (cases m) (simp_all add: close_mode_from_str_def)

lemma engine_wire [simp]: "from_version (engine_version e) = Some e"
  by (cases e) (simp_all add: from_version_def)

lemma chaos_wire:
  assumes "chaos_validate c = Inr ()" "validate_chaos_mode c mode False = Inr ()"
  shows "wire_chaos_into (wire_chaos_new c seed) mode False = Inr (c\<lparr>ch_seed := Some seed\<rparr>)"
  using assms by (cases c)
    (simp add: wire_chaos_into_def wire_chaos_new_def Let_def chaos_validate_def validate_chaos_mode_def
      acts_on_sends_def split: if_splits)

text \<open>The rows an agent starts from do not change what a given row holds.\<close>

lemma with_share_views [view_simps]:
  "column (with_share i n d) c = column d c" "data_len (with_share i n d) = data_len d"
  "ds_path (with_share i n d) = ds_path d" "ds_columns (with_share i n d) = ds_columns d"
  "data_value (with_share i n d) row c = data_value d row c"
  by (simp_all add: with_share_def column_def data_len_def data_value_def)

lemma check_data_with_share [view_simps]: "check_data t (map_option (with_share i n) data) = check_data t data"
proof -
  have "check_columns_of (map_option (with_share i n) data) cs = check_columns_of data cs" for cs
    by (induction cs) (auto simp: view_simps split: option.split)
  then show ?thesis by (simp add: check_data_def)
qed

lemma render_with_share [view_simps]:
  "render now t \<lparr>val_seq = q, val_worker_id = w, val_data = map_option (\<lambda>d. (with_share i n d, row)) data, val_vars = vs\<rparr>
   = render now t \<lparr>val_seq = q, val_worker_id = w, val_data = map_option (\<lambda>d. (d, row)) data, val_vars = vs\<rparr>"
proof -
  have "render_part now \<lparr>val_seq = q, val_worker_id = w, val_data = map_option (\<lambda>d. (with_share i n d, row)) data, val_vars = vs\<rparr>
   = render_part now \<lparr>val_seq = q, val_worker_id = w, val_data = map_option (\<lambda>d. (d, row)) data, val_vars = vs\<rparr>"
  proof
    fix p
    show "render_part now \<lparr>val_seq = q, val_worker_id = w, val_data = map_option (\<lambda>d. (with_share i n d, row)) data, val_vars = vs\<rparr> p
     = render_part now \<lparr>val_seq = q, val_worker_id = w, val_data = map_option (\<lambda>d. (d, row)) data, val_vars = vs\<rparr> p"
      by (cases p; cases data) (auto simp: view_simps)
  qed
  then show ?thesis by (simp add: render_def)
qed

lemma header_rows_with_share [view_simps]:
  "header_rows_ok env t (map_option (with_share i n) data) rows = header_rows_ok env t data rows"
  by (induction rows) (simp_all add: option.map_comp comp_def view_simps)

lemma split_headers_with_share [view_simps]:
  "split_header_templates env (map_option (with_share i n) data) hs = split_header_templates env data hs"
proof (induction env data hs rule: split_header_templates.induct)
  case (2 env data name val headers)
  have rows: "(case map_option (with_share i n) data of None \<Rightarrow> 1 | Some d \<Rightarrow> data_len d) =
      (case data of None \<Rightarrow> 1 | Some d \<Rightarrow> data_len d)" by (cases data) (simp_all add: view_simps)
  show ?case
  proof (cases "header_template env val")
    case None
    with 2 show ?thesis by simp
  next
    case (Some t)
    with 2 show ?thesis unfolding split_header_templates.simps rows
      by (cases "check_data t data"; cases "header_rows_ok env t data [0..<(case data of None \<Rightarrow> 1 | Some d \<Rightarrow> data_len d)]")
        (simp_all add: view_simps)
  qed
qed simp

lemma check_auth_with_share [view_simps]:
  "check_auth sj now auth (map_option (with_share i n) data) = check_auth sj now auth data"
proof -
  have "(case map_option (with_share i n) data of None \<Rightarrow> 1 | Some d \<Rightarrow> data_len d) =
      (case data of None \<Rightarrow> 1 | Some d \<Rightarrow> data_len d)" by (cases data) (simp_all add: view_simps)
  then show ?thesis unfolding check_auth_def option.map_comp comp_def view_simps by simp
qed

section \<open>Headers\<close>

definition wire_header_ok :: "'n env \<Rightarrow> string \<times> string \<Rightarrow> string \<times> string \<Rightarrow> bool" where
  "wire_header_ok env w h \<longleftrightarrow> env_header_name env (trim (fst w)) = Some (fst h) \<and>
     env_header_value env (trim (snd w)) = Some (snd h)"

lemma fold_headers:
  assumes "list_all2 (wire_header_ok env) ws hs"
  shows "fold (\<lambda>(name, value). builder_header env name value) ws b = b\<lparr>b_headers := b_headers b @ hs\<rparr>"
  using assms
proof (induction arbitrary: b rule: list_all2_induct)
  case (Cons w ws h hs)
  then show ?case by (cases w; cases h) (simp add: builder_header_def wire_header_ok_def)
qed simp

lemma split_fixed_append:
  "(\<forall>(n, v)\<in>set fixed. header_template env v = None) \<Longrightarrow>
   split_header_templates env data (fixed @ xs) =
     and_then (split_header_templates env data xs) (\<lambda>(f, ts). Inr (fixed @ f, ts))"
proof (induction fixed)
  case Nil
  then show ?case by (cases "split_header_templates env data xs") auto
next
  case (Cons nv fixed)
  then show ?case by (cases nv; cases "split_header_templates env data xs") auto
qed

lemma split_headers_parts:
  assumes "split_header_templates env data hs = Inr (fixed, ts)"
  obtains tv where "\<forall>(n, v)\<in>set fixed. header_template env v = None" "set fixed \<subseteq> set hs" "set tv \<subseteq> set hs"
    "list_all2 (\<lambda>(n, t) (n', v). n = n' \<and> header_template env v = Some t) ts tv"
    "split_header_templates env data tv = Inr ([], ts)"
  using assms
proof (induction env data hs arbitrary: fixed ts thesis rule: split_header_templates.induct)
  case (1 env data)
  then show ?case by (auto intro: "1.prems"(1) [of "[]"])
next
  case (2 env data name val headers)
  show ?case
  proof (cases "header_template env val")
    case None
    with "2.prems"(2) obtain f where f: "split_header_templates env data headers = Inr (f, ts)"
      "fixed = (name, val) # f" by (auto simp: result_rules)
    show ?thesis
      by (rule "2.IH"(1) [OF None _ f(1)], rule "2.prems"(1)) (use f(2) None in auto)
  next
    case (Some t)
    from "2.prems"(2) Some obtain ts' where t: "split_header_templates env data headers = Inr (fixed, ts')"
      "ts = (name, t) # ts'" "check_data t data = Inr ()"
      "header_rows_ok env t data [0..<(case data of None \<Rightarrow> 1 | Some d \<Rightarrow> data_len d)] = Inr ()"
      by (auto simp: result_rules)
    show ?thesis
    proof (rule "2.IH"(2) [OF Some _ t(1)])
      fix tv assume tv: "\<forall>(n, v)\<in>set fixed. header_template env v = None" "set fixed \<subseteq> set headers"
        "set tv \<subseteq> set headers" "list_all2 (\<lambda>(n, t) (n', v). n = n' \<and> header_template env v = Some t) ts' tv"
        "split_header_templates env data tv = Inr ([], ts')"
      show ?thesis
        by (rule "2.prems"(1) [of "(name, val) # tv"]) (use tv t Some in auto)
    qed
  qed
qed

lemma header_template_source:
  "header_template env v = Some t \<Longrightarrow> env_header_to_str env v = Some (tpl_source t)"
  by (auto simp: header_template_def Let_def split: option.splits if_splits)

lemma wire_headers:
  assumes split: "split_header_templates env data hs = Inr (fixed, ts)" and ok: "headers_ok env hs"
    and fw: "collect_results (\<lambda>(name, value).
      ok_or (InvalidHeader name) (map_option (Pair name) (env_header_to_str env value))) fixed = Inr fw"
  obtains hs' where "list_all2 (wire_header_ok env) (fw @ map (\<lambda>(name, t). (name, tpl_source t)) ts) hs'"
    "split_header_templates env data hs' = Inr (fixed, ts)"
proof -
  obtain tv where tv: "\<forall>(n, v)\<in>set fixed. header_template env v = None" "set fixed \<subseteq> set hs" "set tv \<subseteq> set hs"
    "list_all2 (\<lambda>(n, t) (n', v). n = n' \<and> header_template env v = Some t) ts tv"
    "split_header_templates env data tv = Inr ([], ts)"
    by (rule split_headers_parts [OF split])
  have one: "wire_header_ok env (n, s) (n, v)" if "(n, v) \<in> set hs" "env_header_to_str env v = Some s" for n v s
    using ok that by (auto simp: headers_ok_def wire_header_ok_def)
  have "list_all2 (wire_header_ok env) fw fixed"
  proof (rule list_all2_all_nthI)
    from fw show len: "length fw = length fixed" by (rule collect_results_length)
    fix i assume i: "i < length fw"
    obtain n v where nv: "fixed ! i = (n, v)" by (cases "fixed ! i")
    have "ok_or (InvalidHeader n) (map_option (Pair n) (env_header_to_str env v)) = Inr (fw ! i)"
      using list_all2_nthD2 [OF fw [unfolded collect_results_Inr_iff] i] nv by simp
    then obtain s where "env_header_to_str env v = Some s" "fw ! i = (n, s)" by auto
    moreover have "(n, v) \<in> set hs" using tv(2) i len nv by (metis nth_mem subsetD)
    ultimately show "wire_header_ok env (fw ! i) (fixed ! i)" using one nv by simp
  qed
  moreover have "list_all2 (wire_header_ok env) (map (\<lambda>(name, t). (name, tpl_source t)) ts) tv"
  proof (rule list_all2_all_nthI)
    from tv(4) show len: "length (map (\<lambda>(name, t). (name, tpl_source t)) ts) = length tv"
      by (simp add: list_all2_lengthD)
    fix i assume "i < length (map (\<lambda>(name, t). (name, tpl_source t)) ts)"
    with len have i: "i < length ts" "i < length tv" by simp_all
    obtain n t v where nt: "ts ! i = (n, t)" "tv ! i = (n, v)" "header_template env v = Some t"
      using list_all2_nthD [OF tv(4) i(1)] by (cases "ts ! i"; cases "tv ! i") auto
    have "(n, v) \<in> set hs" using tv(3) i nt(2) by (metis nth_mem subsetD)
    then have "wire_header_ok env (n, tpl_source t) (n, v)"
      using one header_template_source [OF nt(3)] by blast
    then show "wire_header_ok env (map (\<lambda>(name, t). (name, tpl_source t)) ts ! i) (tv ! i)"
      using i nt by simp
  qed
  ultimately have "list_all2 (wire_header_ok env) (fw @ map (\<lambda>(name, t). (name, tpl_source t)) ts) (fixed @ tv)"
    by (rule list_all2_appendI)
  moreover have "split_header_templates env data (fixed @ tv) = Inr (fixed, ts)"
    using split_fixed_append [OF tv(1), of data tv] tv(5) by simp
  ultimately show thesis by (rule that)
qed

section \<open>The other settings\<close>

definition graphql_back :: "'n graphql_config option \<Rightarrow> 'n graphql_options" where
  "graphql_back g = (case g of
     None \<Rightarrow> \<lparr>gql_operation = None, gql_operation_name = None, gql_variables = None, gql_extensions = None\<rparr>
   | Some g \<Rightarrow> \<lparr>gql_operation = Some (gw_operation g), gql_operation_name = gw_operation_name g,
        gql_variables = gw_variables g, gql_extensions = gw_extensions g\<rparr>)"

lemma graphql_wire: "validate_graphql mode o' = Inr g \<Longrightarrow> validate_graphql mode (graphql_back g) = Inr g"
  by (auto simp: validate_graphql_def graphql_back_def Let_def split: if_splits option.splits)

definition sio_back :: "sio_config option \<Rightarrow> sio_options" where
  "sio_back sio = (case sio of
     None \<Rightarrow> \<lparr>so_event = None, so_namespace = None, so_auth = None, so_version = None\<rparr>
   | Some s \<Rightarrow> \<lparr>so_event = Some (sio_event s), so_namespace = Some (sio_namespace s),
        so_auth = map_option tpl_source (sio_auth s), so_version = Some (engine_version (sio_engine s))\<rparr>)"

definition sio_target :: "sio_config option \<Rightarrow> url_view \<Rightarrow> url_view" where
  "sio_target sio url = (case sio of None \<Rightarrow> url | Some s \<Rightarrow> socketio_url (sio_engine s) url)"

lemma sio_compile_Some:
  assumes "sio_compile sj o' mode url = Inr (Some c)"
  shows "mode = SocketIo" "check_url url (sio_engine c) = Inr ()" "sio_validate sj c = Inr ()"
    "map_option parse_template (map_option tpl_source (sio_auth c)) = sio_auth c"
  using assms
  by (auto simp: sio_compile_def Let_def result_rules option.map_comp comp_def split: if_splits option.splits)

lemma sio_wire:
  assumes "sio_compile sj o' mode url = Inr sio"
  shows "sio_compile sj (sio_back sio) mode (sio_target sio url) = Inr sio"
    "sio_target sio (sio_target sio url) = sio_target sio url"
proof -
  have "sio_compile sj (sio_back sio) mode (sio_target sio url) = Inr sio \<and>
      sio_target sio (sio_target sio url) = sio_target sio url"
  proof (cases sio)
    case None
    with assms show ?thesis
      by (auto simp: sio_compile_def Let_def result_rules sio_back_def sio_target_def split: if_splits option.splits)
  next
    case (Some c)
    note f = sio_compile_Some [OF assms [unfolded Some]]
    have c: "c = \<lparr>sio_namespace = sio_namespace c, sio_event = sio_event c,
        sio_auth = map_option parse_template (map_option tpl_source (sio_auth c)), sio_engine = sio_engine c\<rparr>"
      using f(4) by simp
    show ?thesis using socketio_url_facts [OF f(2)] f(1,3) Some
      by (simp add: sio_compile_def sio_back_def sio_target_def or_default_def Let_def c [symmetric])
  qed
  then show "sio_compile sj (sio_back sio) mode (sio_target sio url) = Inr sio"
    "sio_target sio (sio_target sio url) = sio_target sio url" by simp_all
qed

text \<open>An agent's part of an arrival model: its part of the rate and of the room for open sessions.\<close>

definition agent_arrivals :: "nat \<Rightarrow> nat \<Rightarrow> arrivals \<Rightarrow> arrivals" where
  "agent_arrivals i n a =
     \<lparr>ar_rate = f64_div (ar_rate a) (of_uint n), ar_session_duration = ar_session_duration a,
      ar_max_connections = map_option (\<lambda>hi. split_total hi i n) (ar_max_connections a)\<rparr>"

text \<open>A rate so small that its part rounds to zero.\<close>

definition rate_vanishes :: "nat \<Rightarrow> arrivals option \<Rightarrow> bool" where
  "rate_vanishes n arrivals = (case arrivals of None \<Rightarrow> False | Some a \<Rightarrow> f64_div (ar_rate a) (of_uint n) = Num 0)"

text \<open>The coordinator's configuration as agent \<open>i\<close> of \<open>n\<close> should run it. In an arrival run the connection count
  is what the agent expects to keep open at its part of the rate.\<close>

definition agent_config :: "nat \<Rightarrow> nat \<Rightarrow> 'n load_config \<Rightarrow> 'n load_config" where
  "agent_config i n c =
     c\<lparr>lc_connections := (case lc_arrivals c of None \<Rightarrow> split_total (lc_connections c) i n
         | Some a \<Rightarrow> expected_connections (agent_arrivals i n a)),
       lc_arrivals := map_option (agent_arrivals i n) (lc_arrivals c), lc_ramp_rate := split_total (lc_ramp_rate c) i n,
       lc_max_requests := map_option (\<lambda>r. split_total r i n) (lc_max_requests c),
       lc_stage_share := (if lc_stages c = [] then None else Some (i, n)),
       lc_data := map_option (with_share i n) (lc_data c),
       lc_chaos := map_option (\<lambda>ch. ch\<lparr>ch_seed := Some (agent_seed (or_default (ch_seed ch) 0) i)\<rparr>) (lc_chaos c),
       lc_slo := slo_none, lc_output_format := Out_Text, lc_no_progress := True, lc_capture := None\<rparr>"

text \<open>What \<open>build\<close> makes of the agent's builder, before its chaos settings and its share of the stages are set.\<close>

definition built_share :: "nat \<Rightarrow> nat \<Rightarrow> 'n load_config \<Rightarrow> 'n load_config" where
  "built_share i n c =
     c\<lparr>lc_connections := (case lc_arrivals c of
           None \<Rightarrow> (if lc_stages c = [] then split_total (lc_connections c) i n else lc_connections c)
         | Some a \<Rightarrow> expected_connections (agent_arrivals i n a)),
       lc_arrivals := map_option (agent_arrivals i n) (lc_arrivals c),
       lc_ramp_rate := split_total (lc_ramp_rate c) i n,
       lc_max_requests := map_option (\<lambda>r. split_total r i n) (lc_max_requests c),
       lc_data := map_option (with_share i n) (lc_data c), lc_chaos := None,
       lc_slo := slo_none, lc_output_format := Out_Text, lc_no_progress := True, lc_capture := None\<rparr>"

lemma expect_wire:
  assumes "build_expect env b = Inr ex" "serde_roundtrip (env_json env)"
    "b_expect b' = map_option (check_flag_value (env_json env)) ex" "b_mode b' = b_mode b"
  shows "build_expect env b' = Inr ex"
  using assms parse_flag_value [of "env_json env"] parse_flag_spelled [of "env_json env"]
  by (cases ex) (auto simp: build_expect_def result_rules transpose_opt_def split: if_splits option.splits)

lemma stages_wire [simp]: "map (\<lambda>s. \<lparr>st_duration = st_duration s, st_target = st_target s\<rparr>) stages = stages"
  by (induction stages) simp_all

lemma data_wire:
  assumes "data_wf d" "i < n"
  shows "data_from_wire \<lparr>wd_path = ds_path d, wd_columns = ds_columns d, wd_rows = ds_rows d, wd_share = Some (i, n)\<rparr>
    = Inr (with_share i n d)"
proof -
  have "find_row_mismatch w rows k = None" if "\<forall>row\<in>set rows. length row = w" for w rows k
    using that by (induction rows arbitrary: k) auto
  then show ?thesis using assms
    by (simp add: data_from_wire_def from_parts_def check_share_def data_wf_def with_share_def)
qed

lemma divided_rate:
  assumes "0 < q" "q \<le> 1000000" "0 < n"
  shows "\<exists>r. f64_div (Num q) (of_uint n) = Num r \<and> 0 \<le> r \<and> r \<le> 1000000"
proof -
  have one: "1 \<le> round_f64 (of_nat n)" using f64.rnd_ge [OF f64.exact_1, of "of_nat n"] assms(3) by simp
  show ?thesis
  proof (cases "f64_max_exclusive \<le> round_f64 (of_nat n)")
    case True
    then show ?thesis by (simp add: of_uint_def of_exact_def)
  next
    case False
    define m where "m = round_f64 (of_nat n)"
    have "0 < f64_max_exclusive" by (simp add: f64_max_exclusive_def)
    with one have "\<not> round_f64 (of_nat n) \<le> - f64_max_exclusive" by linarith
    with False have n: "of_uint n = Num m" by (simp add: of_uint_def of_exact_def m_def)
    have "1 \<le> m" using one by (simp add: m_def)
    then have "0 \<le> q / m" "q / m \<le> q" using assms(1) by (simp_all add: divide_le_eq)
    then have q: "of_int 0 \<le> q / m" "q / m \<le> of_int 1000000" using assms(2) by simp_all
    then have "of_exact (q / m) = Num (round_f64 (q / m))" by (rule of_exact_bounded) simp_all
    moreover have "0 \<le> round_f64 (q / m) \<and> round_f64 (q / m) \<le> 1000000"
      using f64.rnd_between [OF f64.exact_0 representable_of_int [of 1000000], of "q / m"] q by simp
    ultimately show ?thesis using \<open>1 \<le> m\<close> by (simp add: n)
  qed
qed

lemma agent_arrivals_checked:
  assumes "check_values a = Inr ()" "0 < n" "\<And>hi. ar_max_connections a = Some hi \<Longrightarrow> n \<le> hi"
  shows "check_values (agent_arrivals i n a) = (if f64_div (ar_rate a) (of_uint n) = Num 0 then Inl ''rate'' else Inr ())"
proof -
  obtain q where q: "ar_rate a = Num q" "0 < q" "q \<le> 1000000" using assms(1) by (rule check_values_rate)
  obtain r where r: "f64_div (ar_rate a) (of_uint n) = Num r" "0 \<le> r" "r \<le> 1000000"
    using divided_rate [OF q(2,3) assms(2)] q(1) by auto
  have "0 < ar_session_duration a" using check_values_session [OF assms(1)] by simp
  moreover have "map_option (\<lambda>hi. split_total hi i n) (ar_max_connections a) \<noteq> Some 0"
    using assms(3) split_total_pos [OF _ assms(2), of _ i] by (cases "ar_max_connections a") auto
  ultimately show ?thesis using r
    by (auto simp: check_values_def agent_arrivals_def f64_le_def f64_eq_def MAX_ARRIVAL_RATE_def)
qed

text \<open>The load model an agent reads: its part, or the one error when its part of the rate vanishes.\<close>

lemma load_wire:
  assumes "build_load b = Inr (conns, duration)" "b_arrivals b' = map_option (agent_arrivals i n) (b_arrivals b)"
    "b_stages b' = b_stages b" "b_ramp_rate b' = split_total (b_ramp_rate b) i n" "b_duration b' = duration"
    "b_connections b' = split_total conns i n" "0 < n"
    "\<And>a hi. b_arrivals b = Some a \<Longrightarrow> ar_max_connections a = Some hi \<Longrightarrow> n \<le> hi"
  shows "build_load b' =
    (if rate_vanishes n (b_arrivals b) then Inl (Rejected (InvalidOption ''rate''))
     else Inr (case b_arrivals b of None \<Rightarrow> (if b_stages b = [] then split_total conns i n else conns)
         | Some a \<Rightarrow> expected_connections (agent_arrivals i n a), duration))"
proof (cases "b_arrivals b")
  case None
  have "b_ramp_rate b = 0" if "b_stages b \<noteq> []" using build_load_ok(2) [OF assms(1) that] .
  with None assms(1-6) show ?thesis
    by (auto simp: build_load_def result_rules validate_stages_def rate_vanishes_def split: option.splits if_splits)
next
  case (Some a)
  from build_load_ok(3) [OF assms(1) Some] have a: "check_values a = Inr ()" "b_stages b = []" "b_ramp_rate b = 0" by simp_all
  have "duration = b_duration b" using assms(1) a(2) by (auto simp: build_load_def result_rules)
  with Some a assms(2-5) agent_arrivals_checked [OF a(1) assms(7) assms(8) [OF Some], of i] show ?thesis
    by (simp add: build_load_def rate_vanishes_def validate_arrivals_def map_err_def)
qed

lemma checks_wire:
  assumes "build_checks env b sio = Inr (data, fixed, templates)"
    "b_mode b' = b_mode b" "b_payload b' = b_payload b" "b_reply_match b' = b_reply_match b"
    "b_invalid_header b' = None" "b_slo b' = slo_none" "b_data b' = map_option (\<lambda>d. Loaded (with_share i n d)) data"
    "split_header_templates env data (b_headers b') = Inr (fixed, templates)"
  shows "build_checks env b' sio = Inr (map_option (with_share i n) data, fixed, templates)"
proof -
  have "build_data env b' = Inr (map_option (with_share i n) data)"
    using assms(7) by (cases data) (simp_all add: build_data_def)
  moreover have "validate_slo slo_none (b_mode b) = Inr ()"
    by (simp add: validate_slo_def validate_error_rate_def validate_latency_mode_def has_latency_def slo_none_def)
  ultimately show ?thesis
    using assms by (auto simp: build_checks_def view_simps result_rules split: option.splits)
qed

lemma build_data_wf: "build_data env b = Inr (Some d) \<Longrightarrow> builder_ok env b \<Longrightarrow> data_wf d"
  by (auto simp: build_data_def builder_ok_def result_rules dest: load_data_wf
      split: option.splits data_source.splits)

lemma build_checks_data: "build_checks env b sio = Inr (data, fixed, templates) \<Longrightarrow> build_data env b = Inr data"
  by (auto simp: build_checks_def result_rules)

text \<open>The builder of one agent, header by header replaced by what the wire carries.\<close>

definition agent_builder ::
    "'n env \<Rightarrow> 'n load_config \<Rightarrow> nat \<Rightarrow> nat \<Rightarrow> (string \<times> string) list \<Rightarrow> 'n builder" where
  "agent_builder env c i n hs =
     (builder_new (env_url_to_string env (lc_target_url c)))\<lparr>b_mode := lc_mode c,
       b_connections := split_total (lc_connections c) i n, b_ramp_rate := split_total (lc_ramp_rate c) i n,
       b_duration := lc_duration c, b_stages := lc_stages c, b_rate_per_conn := lc_rate_per_conn c,
       b_connect_timeout := lc_connect_timeout c, b_message_timeout := lc_message_timeout c,
       b_ping_interval := lc_ping_every c, b_reply_match := lc_reply_match c, b_reconnect := \<not> lc_no_reconnect c,
       b_progress := False, b_arrivals := map_option (agent_arrivals i n) (lc_arrivals c), b_max_requests := map_option (\<lambda>r. split_total r i n) (lc_max_requests c),
       b_expect := map_option (check_flag_value (env_json env)) (lc_expect c), b_payload := lc_payload c,
       b_data := map_option (\<lambda>d. Loaded (with_share i n d)) (lc_data c), b_subprotocol := lc_subprotocol c,
       b_compression := lc_compression c, b_socketio := sio_back (lc_socketio c),
       b_graphql := graphql_back (lc_graphql_ws c), b_headers := hs\<rparr>"

lemma wire_builder_agent:
  assumes "from_config env c = Inr base"
    "list_all2 (wire_header_ok env) (wc_headers base) hs"
  shows "wire_builder env (agent_wire c n base i) (lc_mode c) (lc_reply_match c) (lc_payload c)
      (map_option (with_share i n) (lc_data c)) = agent_builder env c i n hs"
proof -
  have "lc_socketio c = None \<or> (\<exists>s. lc_socketio c = Some s)" by (cases "lc_socketio c") auto
  then show ?thesis
    using assms unfolding wire_builder_def
    by (auto simp: from_config_def result_rules agent_wire_def fold_headers agent_builder_def builder_new_def
        share_of_def [abs_def] option.map_comp comp_def sio_back_def graphql_back_def agent_arrivals_def [abs_def])
qed

lemma check_plan_ok:
  assumes "check_plan c n = Inr ()"
  shows "0 < n" "lc_source_ips c = []" "lc_arrivals c = None \<Longrightarrow> n \<le> lc_connections c"
    "\<And>r. lc_max_requests c = Some r \<Longrightarrow> n \<le> r"
    "\<And>a hi. lc_arrivals c = Some a \<Longrightarrow> ar_max_connections a = Some hi \<Longrightarrow> n \<le> hi"
  using assms by (auto simp: check_plan_def split: if_splits option.splits)

lemma build_agent:
  assumes built: "build env b = Inr c" and ok: "builder_ok env b" and json: "serde_roundtrip (env_json env)"
    and url: "env_url env (env_url_to_string env (lc_target_url c)) = Some (lc_target_url c)"
    and chk: "check_plan c n = Inr ()"
    and fw: "collect_results (\<lambda>(name, value).
      ok_or (InvalidHeader name) (map_option (Pair name) (env_header_to_str env value))) (lc_headers c) = Inr fw"
  obtains hs where "list_all2 (wire_header_ok env) (fw @ map (\<lambda>(name, t). (name, tpl_source t)) (lc_header_templates c)) hs"
    "build env (agent_builder env c i n hs) =
      (if rate_vanishes n (lc_arrivals c) then Inl (Rejected (InvalidOption ''rate'')) else Inr (built_share i n c))"
proof -
  from built obtain u conns duration gql sio data fixed templates ips ex ch
    where steps: "parse_target_url (env_url env) (b_target b) = Inr u" "build_load b = Inr (conns, duration)"
      "pointer_ok (b_reply_match b)" "validate_graphql (b_mode b) (b_graphql b) = Inr gql"
      "sio_compile (env_json env) (b_socketio b) (b_mode b) u = Inr sio"
      "build_checks env b sio = Inr (data, fixed, templates)" "build_expect env b = Inr ex"
    and c: "c = assemble b u conns duration gql sio data fixed templates ips ex ch"
    unfolding build_Inr_iff by blast
  have t: "lc_target_url c = sio_target sio u" by (simp add: c assemble_def sio_target_def)
  have hdrs: "lc_headers c = fixed" "lc_header_templates c = templates" by (simp_all add: c assemble_def)
  obtain hs where hs: "list_all2 (wire_header_ok env) (fw @ map (\<lambda>(name, t). (name, tpl_source t)) templates) hs"
    "split_header_templates env data hs = Inr (fixed, templates)"
    by (rule wire_headers [OF build_checks_ok(4) [OF steps(6)] _ fw [unfolded hdrs]])
      (use ok in \<open>simp add: builder_ok_def\<close>)
  let ?b = "agent_builder env c i n hs"
  note views = c assemble_def agent_builder_def builder_new_def
  let ?conns = "case b_arrivals b of None \<Rightarrow> (if b_stages b = [] then split_total conns i n else conns)
    | Some a \<Rightarrow> expected_connections (agent_arrivals i n a)"
  have arrivals: "lc_arrivals c = b_arrivals b" by (simp add: views)
  have target: "parse_target_url (env_url env) (b_target ?b) = Inr (lc_target_url c)"
    using url built [THEN build_config_ok] by (auto simp: agent_builder_def builder_new_def parse_target_url_def config_ok_def)
  have load: "build_load ?b = (if rate_vanishes n (b_arrivals b) then Inl (Rejected (InvalidOption ''rate'')) else Inr (?conns, duration))"
    by (rule load_wire [OF steps(2)]) (use check_plan_ok(1,5) [OF chk] arrivals in \<open>simp_all add: views\<close>)
  show thesis
  proof (cases "rate_vanishes n (b_arrivals b)")
    case True
    with target load have "build env ?b = Inl (Rejected (InvalidOption ''rate''))" by (simp add: build_def)
    with hs(1) True show thesis by (intro that [of hs]) (simp_all add: arrivals hdrs)
  next
    case False
    note target
    moreover have "build_load ?b = Inr (?conns, duration)" using load False by simp
    moreover have "validate_connections ?conns = Inr ()"
      using check_plan_ok(1,3) [OF chk] split_total_pos [of n conns i]
      by (auto simp: validate_connections_def views expected_connections_pos split: option.split)
    moreover have "validate_max_requests (b_max_requests ?b) = Inr ()"
      using check_plan_ok(1,4) [OF chk] split_total_pos [of n _ i]
      by (fastforce simp: validate_max_requests_def views)
    moreover have "pointer_ok (b_reply_match ?b)" using steps(3) by (simp add: views)
    moreover have "validate_graphql (b_mode ?b) (b_graphql ?b) = Inr gql"
      using graphql_wire [OF steps(4)] by (simp add: views)
    moreover have "sio_compile (env_json env) (b_socketio ?b) (b_mode ?b) (lc_target_url c) = Inr sio"
      using sio_wire(1) [OF steps(5)] unfolding t by (simp add: views)
    moreover have "build_checks env ?b sio = Inr (map_option (with_share i n) data, fixed, templates)"
      by (rule checks_wire [OF steps(6)]) (use hs(2) in \<open>simp_all add: views\<close>)
    moreover have "check_source_ips env (b_source_ips ?b) [] = Inr []" by (simp add: views)
    moreover have "build_expect env ?b = Inr ex"
      by (rule expect_wire [OF steps(7) json]) (simp_all add: views)
    moreover have "build_chaos env ?b = Inr None" by (simp add: views build_chaos_def)
    ultimately have "build env ?b = Inr (assemble ?b (lc_target_url c) ?conns duration gql sio
        (map_option (with_share i n) data) fixed templates [] ex None)"
      unfolding build_Inr_iff by blast
    moreover have "lc_source_ips c = []" by (rule check_plan_ok(2) [OF chk])
    ultimately show thesis
      using hs(1) False sio_wire(2) [OF steps(5)] t
      by (intro that [of hs]; cases "b_arrivals b"; simp add: views sio_target_def built_share_def)
  qed
qed

lemma build_chaos_mode:
  assumes "build env b = Inr c" "lc_chaos c = Some ch"
  shows "chaos_validate ch = Inr ()" "validate_chaos_mode ch (lc_mode c) False = Inr ()"
proof -
  from assms obtain ch0 where c: "chaos_validate ch0 = Inr ()" "validate_chaos_mode ch0 (lc_mode c) False = Inr ()"
    "ch = seeded (env_time_seed env) ch0"
    by (auto simp: build_Inr_iff build_chaos_def assemble_def result_rules split: option.splits if_splits)
  from c(1) show "chaos_validate ch = Inr ()" unfolding c(3) by (simp add: chaos_validate_def seeded_def split: if_splits)
  from c(2) show "validate_chaos_mode ch (lc_mode c) False = Inr ()"
    unfolding c(3) by (simp add: validate_chaos_mode_def seeded_def acts_on_sends_def)
qed

lemma finish_agent:
  assumes w: "w = agent_wire c n base i" "from_config env c = Inr base"
    and "i < n" "lc_arrivals c = None \<Longrightarrow> n \<le> lc_connections c" "lc_stage_share c = None"
    and "lc_arrivals c \<noteq> None \<Longrightarrow> lc_stages c = []"
    and ch: "\<And>ch. lc_chaos c = Some ch \<Longrightarrow> chaos_validate ch = Inr () \<and> validate_chaos_mode ch (lc_mode c) False = Inr ()"
  shows "finish_config w (lc_mode c)
    (built_share i n c) =
    Inr (agent_config i n c)"
proof -
  have "scripted w = False" and share: "wc_stage_share w = (if lc_stages c \<noteq> [] then Some (i, n) else None)"
    and wch: "wc_chaos w = map_option (\<lambda>ch. wire_chaos_new ch (agent_seed (or_default (ch_seed ch) 0) i)) (lc_chaos c)"
    using w by (auto simp: scripted_def from_config_def result_rules agent_wire_def split: option.split)
  moreover have "0 < lc_connections (agent_config i n c)"
    using assms(3,4) split_total_pos [of n "lc_connections c" i]
    by (auto simp: agent_config_def expected_connections_pos split: option.split)
  moreover have "transpose_opt (\<lambda>ch. wire_chaos_into ch (lc_mode c) False) (wc_chaos w) = Inr (lc_chaos (agent_config i n c))"
    using ch by (cases "lc_chaos c") (simp_all add: wch transpose_opt_def chaos_wire agent_config_def)
  ultimately show ?thesis using assms(3,5,6)
    by (cases "lc_chaos c"; cases "lc_stages c"; cases "lc_arrivals c")
      (simp_all add: finish_config_def set_stage_share_def check_share_def share_of_def agent_config_def built_share_def)
qed

section \<open>Properties\<close>

text \<open>C4: a coordinator and its agents agree. Whatever run a builder makes and a coordinator splits, every
  agent accepts the share it is sent and runs exactly the coordinator's configuration, with its part of the
  connections, requests and ramp rate or of the arrival rate and of the room for open sessions, its place in
  the data file and its own chaos seed: target, mode, stages, payload, headers and header templates, reply
  matching, checks, GraphQL and Socket.IO settings all survive the wire. The one exception is an arrival rate
  so small that the agent's part of it rounds to zero: then, and only then, the agent refuses the rate.\<close>

theorem agents_run_their_share:
  assumes "build env b = Inr c" "builder_ok env b" "serde_roundtrip (env_json env)"
    "env_url env (env_url_to_string env (lc_target_url c)) = Some (lc_target_url c)"
    "plan env c n = Inr ws" "i < n"
  shows "into_config env (ws ! i) =
    (if rate_vanishes n (lc_arrivals c) then Inl (Rejected (InvalidOption ''rate'')) else Inr (agent_config i n c))"
proof -
  from assms(5) obtain base where chk: "check_plan c n = Inr ()" and base: "from_config env c = Inr base"
    and ws: "ws = map (agent_wire c n base) [0..<n]" by (auto simp: plan_def result_rules)
  from base obtain fw where fw: "collect_results (\<lambda>(name, value).
      ok_or (InvalidHeader name) (map_option (Pair name) (env_header_to_str env value))) (lc_headers c) = Inr fw"
    "wc_headers base = fw @ map (\<lambda>(name, t). (name, tpl_source t)) (lc_header_templates c)"
    by (auto simp: from_config_def result_rules)
  define w where "w = agent_wire c n base i"
  have w: "ws ! i = w" using assms(6) ws by (simp add: w_def)
  obtain hs where hs: "list_all2 (wire_header_ok env) (wc_headers base) hs"
    and built: "build env (agent_builder env c i n hs) =
      (if rate_vanishes n (lc_arrivals c) then Inl (Rejected (InvalidOption ''rate'')) else Inr (built_share i n c))"
    using build_agent [OF assms(1-4) chk fw(1), of i] fw(2) by metis
  have wire: "wc_mode w = mode_name (lc_mode c)" "wc_reply_match w = reply_flag_value (lc_reply_match c)"
    "wc_payload w = payload_to_wire (lc_payload c)"
    "wc_data w = map_option (\<lambda>d. \<lparr>wd_path = ds_path d, wd_columns = ds_columns d, wd_rows = ds_rows d, wd_share = Some (i, n)\<rparr>) (lc_data c)"
    using base by (auto simp: w_def agent_wire_def from_config_def result_rules option.map_comp comp_def)
  have "payload_from_wire (wc_payload w) = Inr (lc_payload c)" "pointer_ok (lc_reply_match c)" "lc_stage_share c = None"
    and data: "\<And>d. lc_data c = Some d \<Longrightarrow> data_wf d"
    using assms(1,2) by (auto simp: wire build_Inr_iff assemble_def builder_ok_def payload_wire
        dest!: build_checks_data intro: build_data_wf [OF _ assms(2)])
  moreover have "reply_match_from_str (wc_reply_match w) = Inr (lc_reply_match c)"
    using \<open>pointer_ok (lc_reply_match c)\<close> unfolding wire by (rule reply_match_wire)
  moreover have "transpose_opt data_from_wire (wc_data w) = Inr (map_option (with_share i n) (lc_data c))"
    using data data_wire [OF _ assms(6)] by (cases "lc_data c") (simp_all add: wire transpose_opt_def)
  moreover have "finish_config w (lc_mode c) (built_share i n c) = Inr (agent_config i n c)"
    using build_chaos_mode [OF assms(1)] \<open>lc_stage_share c = None\<close> build_config_ok [OF assms(1)]
    by (intro finish_agent [OF w_def base assms(6) check_plan_ok(3) [OF chk]]) (auto simp: config_ok_def arrivals_ok_for_def)
  ultimately show ?thesis
    using wire_builder_agent [OF base hs, of n i] built
    by (simp add: w into_config_def wire w_def [symmetric])
qed

definition shared_env :: "nat env" where
  "shared_env = sample_env\<lparr>env_json := numbered_json\<rparr>"

definition shared_builder :: "nat builder" where
  "shared_builder = (sample_builder [\<lparr>st_duration = 30, st_target = 101\<rparr>, \<lparr>st_duration = 7, st_target = 40\<rparr>])
     \<lparr>b_source_ips := [], b_payload := Binary ''ab'', b_headers := [(''x'', ''v'')]\<rparr>"

lemma small_trim: "trim ''x'' = ''x''" "trim ''v'' = ''v''"
  by (simp_all add: trim_def trim_start.simps trim_end.simps leading_white_space_def trailing_white_space_def white_space_def suffix_to_prefix)

lemma plain_header: "header_template shared_env ''v'' = None"
  by (simp add: header_template_def shared_env_def sample_env_def parse_template_def parse_with_vars_def
      parse_loop.simps push_text_def is_dynamic_def)

lemma shared_build:
  "\<exists>c ws. build shared_env shared_builder = Inr c \<and> plan shared_env c 2 = Inr ws \<and> lc_arrivals c = None \<and>
     env_url shared_env (env_url_to_string shared_env (lc_target_url c)) = Some (lc_target_url c) \<and> lc_connections c = 101"
proof -
  let ?b = "shared_builder"
  have "split_header_templates shared_env None [(''x'', ''v'')] = Inr ([(''x'', ''v'')], [])"
    by (simp add: plain_header)
  then have "\<exists>c. build shared_env ?b = Inr c \<and> lc_headers c = [(''x'', ''v'')] \<and> lc_source_ips c = [] \<and>
      lc_arrivals c = None \<and> lc_connections c = 101 \<and> lc_max_requests c = Some 9 \<and> lc_ramp_rate c = 0 \<and>
      lc_target_url c = \<lparr>url_scheme = ''ws'', url_path = ''/'', url_query = []\<rparr>"
    by (simp add: build_defs shared_builder_def sample_builder_def shared_env_def sample_env_def slo_none_def
        has_latency_def max_target_def duration_add_def sample_chaos)
  then obtain c where c: "build shared_env ?b = Inr c" "lc_headers c = [(''x'', ''v'')]" "lc_source_ips c = []"
      "lc_arrivals c = None" "lc_connections c = 101" "lc_max_requests c = Some 9" "lc_ramp_rate c = 0"
      "lc_target_url c = \<lparr>url_scheme = ''ws'', url_path = ''/'', url_query = []\<rparr>" by blast
  moreover have "\<exists>ws. plan shared_env c 2 = Inr ws"
    using c by (simp add: plan_def check_plan_def from_config_def shared_env_def sample_env_def)
  ultimately show ?thesis by (auto simp: shared_env_def sample_env_def)
qed

lemma shared_builder_ok: "builder_ok shared_env shared_builder"
  by (simp add: builder_ok_def shared_builder_def sample_builder_def headers_ok_def payload_parsed_def shared_env_def
      sample_env_def small_trim)

text \<open>The same builder with ten arrivals a second.\<close>

definition arriving_builder :: "nat builder" where
  "arriving_builder = shared_builder\<lparr>b_stages := [],
     b_arrivals := Some \<lparr>ar_rate = Num 10, ar_session_duration = 3, ar_max_connections = Some 7\<rparr>\<rparr>"

lemma halved_rate: "f64_div (Num 10) (of_uint 2) = Num 5"
  using of_uint_small [of 2] of_uint_small [of 5] by (simp add: of_uint_def)

lemma arriving_build:
  "\<exists>c ws. build shared_env arriving_builder = Inr c \<and> plan shared_env c 2 = Inr ws \<and>
     lc_arrivals c = Some \<lparr>ar_rate = Num 10, ar_session_duration = 3, ar_max_connections = Some 7\<rparr> \<and>
     env_url shared_env (env_url_to_string shared_env (lc_target_url c)) = Some (lc_target_url c)"
proof -
  let ?b = "arriving_builder" and ?a = "\<lparr>ar_rate = Num 10, ar_session_duration = 3, ar_max_connections = Some 7\<rparr>"
  have "split_header_templates shared_env None [(''x'', ''v'')] = Inr ([(''x'', ''v'')], [])"
    by (simp add: plain_header)
  moreover have "validate_arrivals ?a [] 0 = Inr ()"
    by (simp add: validate_arrivals_def check_values_def f64_le_def f64_eq_def MAX_ARRIVAL_RATE_def)
  moreover have "expected_connections ?a \<noteq> 0" using expected_connections_pos [of ?a] by simp
  ultimately have "\<exists>c. build shared_env ?b = Inr c \<and> lc_headers c = [(''x'', ''v'')] \<and> lc_source_ips c = [] \<and>
      lc_arrivals c = Some ?a \<and> lc_max_requests c = Some 9 \<and> lc_ramp_rate c = 0 \<and>
      lc_target_url c = \<lparr>url_scheme = ''ws'', url_path = ''/'', url_query = []\<rparr>"
    by (simp add: build_defs arriving_builder_def shared_builder_def sample_builder_def shared_env_def sample_env_def slo_none_def
        has_latency_def sample_chaos)
  then obtain c where c: "build shared_env ?b = Inr c" "lc_headers c = [(''x'', ''v'')]" "lc_source_ips c = []"
      "lc_arrivals c = Some ?a" "lc_max_requests c = Some 9" "lc_ramp_rate c = 0"
      "lc_target_url c = \<lparr>url_scheme = ''ws'', url_path = ''/'', url_query = []\<rparr>" by blast
  moreover have "\<exists>ws. plan shared_env c 2 = Inr ws"
    using c by (simp add: plan_def check_plan_def from_config_def shared_env_def sample_env_def)
  ultimately show ?thesis by (auto simp: shared_env_def sample_env_def)
qed

lemma arriving_builder_ok: "builder_ok shared_env arriving_builder"
  using shared_builder_ok by (simp add: builder_ok_def arriving_builder_def)

theorem agents_run_their_share_witness:
  "(\<exists>c ws. build shared_env shared_builder = Inr c \<and> plan shared_env c 2 = Inr ws \<and>
     into_config shared_env (ws ! 1) = Inr (agent_config 1 2 c) \<and> lc_connections (agent_config 1 2 c) = 50) \<and>
   (\<exists>c ws a. build shared_env arriving_builder = Inr c \<and> plan shared_env c 2 = Inr ws \<and>
     into_config shared_env (ws ! 1) = Inr (agent_config 1 2 c) \<and>
     lc_arrivals (agent_config 1 2 c) = Some a \<and> ar_rate a = Num 5 \<and> ar_max_connections a = Some 3)"
proof -
  obtain c ws where c: "build shared_env shared_builder = Inr c" "plan shared_env c 2 = Inr ws" "lc_arrivals c = None"
    "env_url shared_env (env_url_to_string shared_env (lc_target_url c)) = Some (lc_target_url c)" "lc_connections c = 101"
    using shared_build by blast
  have json: "serde_roundtrip (env_json shared_env)" by (simp add: shared_env_def serde_roundtrip_numbered)
  have "into_config shared_env (ws ! 1) = Inr (agent_config 1 2 c)"
    using agents_run_their_share [OF c(1) shared_builder_ok json c(4,2), of 1] c(3) by (simp add: rate_vanishes_def)
  moreover have "split_total 101 1 2 = 50" by code_simp
  then have "lc_connections (agent_config 1 2 c) = 50" using c(3,5) by (simp add: agent_config_def)
  moreover obtain d vs where d: "build shared_env arriving_builder = Inr d" "plan shared_env d 2 = Inr vs"
    "lc_arrivals d = Some \<lparr>ar_rate = Num 10, ar_session_duration = 3, ar_max_connections = Some 7\<rparr>"
    "env_url shared_env (env_url_to_string shared_env (lc_target_url d)) = Some (lc_target_url d)"
    using arriving_build by blast
  have "into_config shared_env (vs ! 1) = Inr (agent_config 1 2 d)"
    using agents_run_their_share [OF d(1) arriving_builder_ok json d(4,2), of 1] d(3) by (simp add: rate_vanishes_def halved_rate)
  moreover have "split_total 7 1 2 = 3" by code_simp
  ultimately show ?thesis using c d by (auto simp: agent_config_def agent_arrivals_def halved_rate)
qed

lemma plan_shares:
  assumes "plan env c n = Inr ws"
  shows "length ws = n" "(\<Sum>w\<leftarrow>ws. wc_connections w) = lc_connections c"
    "(\<Sum>w\<leftarrow>ws. wc_ramp_rate w) = lc_ramp_rate c"
    "lc_max_requests c = Some r \<Longrightarrow> (\<Sum>w\<leftarrow>ws. or_default (wc_max_requests w) 0) = r \<and> (\<forall>w\<in>set ws. wc_max_requests w \<noteq> Some 0)"
    "lc_arrivals c = None \<Longrightarrow> w \<in> set ws \<Longrightarrow> 0 < wc_connections w"
proof -
  from assms obtain base where chk: "check_plan c n = Inr ()" and ws: "ws = map (agent_wire c n base) [0..<n]"
    by (auto simp: plan_def result_rules)
  have n: "0 < n" using chk by (simp add: check_plan_def split: if_splits)
  have sums: "(\<Sum>w\<leftarrow>ws. f w) = (\<Sum>i<n. f (agent_wire c n base i))" for f :: "_ \<Rightarrow> nat"
    by (simp add: ws comp_def interv_sum_list_conv_sum_set_nat atLeast0LessThan)
  show "length ws = n" by (simp add: ws)
  show "(\<Sum>w\<leftarrow>ws. wc_connections w) = lc_connections c" "(\<Sum>w\<leftarrow>ws. wc_ramp_rate w) = lc_ramp_rate c"
    unfolding sums by (simp_all add: agent_wire_def share_of_def split_total_sum [OF n])
  show "(\<Sum>w\<leftarrow>ws. or_default (wc_max_requests w) 0) = r \<and> (\<forall>w\<in>set ws. wc_max_requests w \<noteq> Some 0)"
    if "lc_max_requests c = Some r"
  proof -
    have "n \<le> r" using chk that by (simp add: check_plan_def split: if_splits option.splits)
    then have "split_total r i n \<noteq> 0" for i using split_total_pos [OF _ n] by simp
    with that show ?thesis unfolding sums by (auto simp: ws agent_wire_def or_default_def split_total_sum [OF n])
  qed
  show "0 < wc_connections w" if "lc_arrivals c = None" "w \<in> set ws"
    using check_plan_ok(3) [OF chk that(1)] that(2) split_total_pos [OF _ n]
    by (auto simp: ws agent_wire_def share_of_def)
qed

text \<open>A coordinator never loses or adds load. The shares of any accepted run are one per agent, their
  connections, requests and ramp rates add up to the run's, and none of them is empty.\<close>

theorem plan_shares_add_up:
  assumes "plan env c n = Inr ws"
  shows "length ws = n \<and> (\<Sum>w\<leftarrow>ws. wc_connections w) = lc_connections c \<and>
    (\<Sum>w\<leftarrow>ws. wc_ramp_rate w) = lc_ramp_rate c \<and>
    (\<forall>r. lc_max_requests c = Some r \<longrightarrow>
       (\<Sum>w\<leftarrow>ws. or_default (wc_max_requests w) 0) = r \<and> (\<forall>w\<in>set ws. wc_max_requests w \<noteq> Some 0)) \<and>
    (lc_arrivals c = None \<longrightarrow> (\<forall>w\<in>set ws. 0 < wc_connections w))"
  using plan_shares [OF assms] by blast

theorem plan_shares_add_up_witness:
  "\<exists>c ws. plan shared_env c 2 = Inr ws \<and> lc_connections c = 101 \<and> (\<Sum>w\<leftarrow>ws. wc_connections w) = 101 \<and>
     (\<forall>w\<in>set ws. 0 < wc_connections w)"
  using shared_build plan_shares_add_up by metis

text \<open>The agent's token check accepts the expected token and no other, although it never stops early:
  every byte of the expected token is compared, whatever was presented.\<close>

theorem tokens_match_exact: "tokens_match expected presented \<longleftrightarrow> presented = expected"
proof -
  have "prefix expected presented \<and> length expected = length presented \<longleftrightarrow> presented = expected"
    by (metis prefix_length_prefix prefix_order.antisym prefix_order.refl order_refl)
  then show ?thesis by (auto simp: tokens_match_def diff_bytes_0_iff)
qed

text \<open>A staged run follows its profile exactly, however many agents run it: at every moment, and not only at
  the ends of the stages, the connections the agents should have open add up to the connections the whole
  run should have open.\<close>

theorem agents_follow_the_profile:
  assumes "0 < n" "lc_stage_share c = None" "stage_target c elapsed = Some t"
  shows "(\<Sum>i<n. or_default (stage_target (agent_config i n c) elapsed) 0) = t"
proof (cases "lc_stages c = []")
  case True
  with assms have "t = 0" by (simp add: stage_target_def target_at_def)
  with True assms show ?thesis by (simp add: stage_target_def target_at_def agent_config_def or_default_def)
next
  case False
  with assms show ?thesis
    by (simp add: stage_target_def agent_config_def or_default_def share_of_def split_total_sum)
qed

theorem agents_follow_the_profile_witness:
  "\<exists>c. build shared_env shared_builder = Inr c \<and>
     (\<Sum>i<3. or_default (stage_target (agent_config i 3 c) 99) 0) = 40"
proof -
  obtain c where c: "build shared_env shared_builder = Inr c" using shared_build by blast
  then have v: "lc_stage_share c = None" "lc_stages c = [\<lparr>st_duration = 30, st_target = 101\<rparr>, \<lparr>st_duration = 7, st_target = 40\<rparr>]"
    by (auto simp: build_Inr_iff assemble_def shared_builder_def sample_builder_def)
  have "stage_target c 99 = Some 40"
    using target_from_skip [of 0 "lc_stages c" 99 0 "[]"] by (simp add: v stage_target_def target_at_def total_duration_def)
  with c v show ?thesis using agents_follow_the_profile [of 3 c 99 40] by auto
qed

end
