(* ===== verification/Wire_Result.thy ===== *)
theory Wire_Result
  imports Runner Agent_Plan Capture
begin

text \<open>
  The rest of \<open>src/distributed/protocol.rs\<close>: the control messages, the live counters, histograms, totals and results
  of an agent as they travel to its coordinator, and the phase of a scenario as it travels to an agent. Whether
  \<open>Histogram::record_n\<close> accepts a value is part of the crate, beside the functions of \<open>hdr\<close>.
\<close>

section \<open>Histograms on the wire\<close>

record 'h histograms =
  hs_hdr :: "'h hdr"
  hs_accepts :: "nat \<Rightarrow> 'h \<Rightarrow> bool"

type_synonym sparse = "(nat \<times> nat) list"

definition to_sparse :: "'h hdr \<Rightarrow> 'h \<Rightarrow> sparse" where
  "to_sparse H hist = hdr_iter_recorded H hist"

datatype wire_error = Out_of_range nat | No_histogram

fun from_sparse :: "'h histograms \<Rightarrow> sparse \<Rightarrow> 'h \<Rightarrow> wire_error + 'h" where
  "from_sparse S [] hist = Inr hist"
| "from_sparse S ((v, n) # values) hist =
     (if hs_accepts S v hist then from_sparse S values (hdr_record_n (hs_hdr S) v n hist) else Inl (Out_of_range v))"

section \<open>Counters and totals\<close>

record wire_snapshot =
  wsn_active :: u64
  wsn_established :: u64
  wsn_failed :: u64
  wsn_reconnects :: u64
  wsn_messages_sent :: u64
  wsn_messages_received :: u64
  wsn_bytes_sent :: u64
  wsn_bytes_received :: u64
  wsn_total_errors :: u64
  wsn_unsolicited :: u64

definition wire_snapshot_default :: wire_snapshot where
  "wire_snapshot_default = \<lparr>wsn_active = 0, wsn_established = 0, wsn_failed = 0, wsn_reconnects = 0, wsn_messages_sent = 0,
     wsn_messages_received = 0, wsn_bytes_sent = 0, wsn_bytes_received = 0, wsn_total_errors = 0, wsn_unsolicited = 0\<rparr>"

definition wire_snapshot_from :: "live_snapshot \<Rightarrow> wire_snapshot" where
  "wire_snapshot_from snap =
     \<lparr>wsn_active = cs_active snap, wsn_established = cs_established snap, wsn_failed = cs_failed snap,
      wsn_reconnects = cs_reconnects snap, wsn_messages_sent = cs_messages_sent snap,
      wsn_messages_received = cs_messages_received snap, wsn_bytes_sent = cs_bytes_sent snap,
      wsn_bytes_received = cs_bytes_received snap, wsn_total_errors = cs_total_errors snap,
      wsn_unsolicited = cs_unsolicited snap\<rparr>"

definition add_snapshot :: "wire_snapshot \<Rightarrow> wire_snapshot \<Rightarrow> wire_snapshot" where
  "add_snapshot other s =
     \<lparr>wsn_active = wsn_active s + wsn_active other, wsn_established = wsn_established s + wsn_established other,
      wsn_failed = wsn_failed s + wsn_failed other, wsn_reconnects = wsn_reconnects s + wsn_reconnects other,
      wsn_messages_sent = wsn_messages_sent s + wsn_messages_sent other,
      wsn_messages_received = wsn_messages_received s + wsn_messages_received other,
      wsn_bytes_sent = wsn_bytes_sent s + wsn_bytes_sent other,
      wsn_bytes_received = wsn_bytes_received s + wsn_bytes_received other,
      wsn_total_errors = wsn_total_errors s + wsn_total_errors other,
      wsn_unsolicited = wsn_unsolicited s + wsn_unsolicited other\<rparr>"

record wire_action_totals =
  wat_name :: string
  wat_sent :: u64
  wat_errors :: u64
  wat_sent_message_errors :: u64
  wat_rtt :: sparse
  wat_response :: sparse

record wire_totals =
  wt_messages_sent :: u64
  wt_messages_recv :: u64
  wt_bytes_sent :: u64
  wt_bytes_recv :: u64
  wt_reconnects :: u64
  wt_unsolicited :: u64
  wt_sent_message_errors :: u64
  wt_interrupted :: u64
  wt_errors :: "error_category \<Rightarrow> u64 option"
  wt_handshake :: sparse
  wt_rtt :: sparse
  wt_response :: sparse
  wt_chaos :: "chaos_summary option"
  wt_actions :: "wire_action_totals list"

definition wire_action_from :: "'h hdr \<Rightarrow> string \<Rightarrow> 'h action_totals \<Rightarrow> wire_action_totals" where
  "wire_action_from H name a =
     \<lparr>wat_name = name, wat_sent = ac_sent (at_counts a), wat_errors = ac_errors (at_counts a),
      wat_sent_message_errors = ac_sent_message_errors (at_counts a), wat_rtt = to_sparse H (at_rtt a),
      wat_response = to_sparse H (at_response a)\<rparr>"

text \<open>The actions are listed in the order of the map, by name.\<close>

definition wire_totals_from :: "'h hdr \<Rightarrow> 'h metrics_totals \<Rightarrow> wire_totals" where
  "wire_totals_from H t =
     \<lparr>wt_messages_sent = mt_messages_sent t, wt_messages_recv = mt_messages_recv t, wt_bytes_sent = mt_bytes_sent t,
      wt_bytes_recv = mt_bytes_recv t, wt_reconnects = mt_reconnects t, wt_unsolicited = mt_unsolicited t,
      wt_sent_message_errors = mt_sent_message_errors t, wt_interrupted = mt_interrupted t, wt_errors = mt_errors t,
      wt_handshake = to_sparse H (mt_handshake t), wt_rtt = to_sparse H (mt_rtt t),
      wt_response = to_sparse H (mt_response t), wt_chaos = mt_chaos t,
      wt_actions = map (\<lambda>name. wire_action_from H name (the (fmlookup (mt_actions t) name)))
        (sorted_list_of_fset (fmdom (mt_actions t)))\<rparr>"

text \<open>Recording into a new histogram, \<open>from_sparse(.., empty()?)?\<close>.\<close>

definition rebuild :: "'h histograms \<Rightarrow> 'h option \<Rightarrow> sparse \<Rightarrow> wire_error + 'h" where
  "rebuild S fresh values = (case fresh of None \<Rightarrow> Inl No_histogram | Some h \<Rightarrow> from_sparse S values h)"

definition into_action :: "'h histograms \<Rightarrow> wire_action_totals \<Rightarrow> wire_error + string \<times> 'h action_totals" where
  "into_action S a =
     and_then (rebuild S (latency_histogram (hs_hdr S)) (wat_rtt a)) (\<lambda>rtt.
     and_then (rebuild S (latency_histogram (hs_hdr S)) (wat_response a)) (\<lambda>response.
       Inr (wat_name a, \<lparr>at_rtt = rtt, at_response = response,
         at_counts = \<lparr>ac_sent = wat_sent a, ac_errors = wat_errors a,
           ac_sent_message_errors = wat_sent_message_errors a\<rparr>\<rparr>)))"

definition collect_map :: "('k \<times> 'v) list \<Rightarrow> ('k, 'v) fmap" where
  "collect_map kvs = fold (\<lambda>(k, v). fmupd k v) kvs fmempty"

definition into_totals :: "'h histograms \<Rightarrow> wire_totals \<Rightarrow> wire_error + 'h metrics_totals" where
  "into_totals S w =
     and_then (rebuild S (latency_histogram (hs_hdr S)) (wt_handshake w)) (\<lambda>handshake.
     and_then (rebuild S (latency_histogram (hs_hdr S)) (wt_rtt w)) (\<lambda>rtt.
     and_then (rebuild S (latency_histogram (hs_hdr S)) (wt_response w)) (\<lambda>response.
     and_then (collect_results (into_action S) (wt_actions w)) (\<lambda>actions.
       Inr \<lparr>mt_handshake = handshake, mt_rtt = rtt, mt_response = response, mt_messages_sent = wt_messages_sent w,
         mt_messages_recv = wt_messages_recv w, mt_bytes_sent = wt_bytes_sent w, mt_bytes_recv = wt_bytes_recv w,
         mt_reconnects = wt_reconnects w, mt_unsolicited = wt_unsolicited w,
         mt_sent_message_errors = wt_sent_message_errors w, mt_interrupted = wt_interrupted w, mt_errors = wt_errors w,
         mt_chaos = wt_chaos w, mt_absorbed = [], mt_actions = collect_map actions\<rparr>))))"

section \<open>Results\<close>

record wire_interval =
  wi_index :: nat
  wi_values :: sparse

record wire_lag =
  wl_values :: sparse
  wl_intervals :: nat
  wl_over :: nat
  wl_threshold_us :: nat

definition wire_lag_new :: "'h hdr \<Rightarrow> bool \<Rightarrow> 'h lag_totals \<Rightarrow> wire_lag option" where
  "wire_lag_new H windows lag =
     (case lag_parts windows lag of (hist, intervals, intervals_over, threshold) \<Rightarrow>
        map_option (\<lambda>h. \<lparr>wl_values = to_sparse H h, wl_intervals = intervals, wl_over = intervals_over,
          wl_threshold_us = threshold\<rparr>) hist)"

definition wire_lag_decode :: "'h histograms \<Rightarrow> wire_lag \<Rightarrow> wire_error + 'h lag_totals" where
  "wire_lag_decode S w =
     and_then (rebuild S (lag_histogram (hs_hdr S)) (wl_values w)) (\<lambda>h.
       Inr (lag_from_parts h (wl_intervals w) (wl_over w) (wl_threshold_us w)))"

record wire_result =
  wr_elapsed :: duration
  wr_started_at_unix_ms :: nat
  wr_connections :: u64
  wr_not_started :: u64
  wr_totals :: wire_totals
  wr_time_series :: time_series
  wr_intervals :: "wire_interval list"
  wr_capture_dropped :: "nat option"
  wr_generator_lag :: "wire_lag option"
  wr_open_file_limit :: "open_file_limit option"
  wr_arrivals :: "arrival_counts option"
  wr_compression :: "compression_counts option"

record 'h agent_result =
  ar_elapsed :: duration
  ar_started_at_unix_ms :: nat
  ar_connections :: u64
  ar_not_started :: u64
  ar_totals :: "'h metrics_totals"
  ar_series :: "'h series_part"
  ar_capture_dropped :: "nat option"
  ar_lag :: "'h lag_totals"
  ar_open_file_limit :: "open_file_limit option"
  ar_arrivals :: "arrival_counts option"
  ar_compression :: "compression_counts option"

record 'h result_meta =
  rm_elapsed :: duration
  rm_started_at_unix_ms :: nat
  rm_connections :: u64
  rm_not_started :: u64
  rm_capture_dropped :: "nat option"
  rm_lag :: "'h lag_totals"
  rm_open_file_limit :: "open_file_limit option"
  rm_arrivals :: "arrival_counts option"
  rm_compression :: "compression_counts option"

definition wire_result_new ::
    "'h hdr \<Rightarrow> bool \<Rightarrow> 'h metrics_totals \<Rightarrow> 'h result_meta \<Rightarrow> time_series \<Rightarrow> (nat, 'h) fmap \<Rightarrow> wire_result" where
  "wire_result_new H windows totals m series buckets =
     \<lparr>wr_elapsed = rm_elapsed m, wr_started_at_unix_ms = rm_started_at_unix_ms m, wr_connections = rm_connections m,
      wr_not_started = rm_not_started m, wr_totals = wire_totals_from H totals, wr_time_series = series,
      wr_intervals = map (\<lambda>index. \<lparr>wi_index = index, wi_values = to_sparse H (the (fmlookup buckets index))\<rparr>)
        (sorted_list_of_fset (fmdom buckets)),
      wr_capture_dropped = rm_capture_dropped m, wr_generator_lag = wire_lag_new H windows (rm_lag m),
      wr_open_file_limit = rm_open_file_limit m, wr_arrivals = rm_arrivals m, wr_compression = rm_compression m\<rparr>"

definition into_bucket :: "'h histograms \<Rightarrow> wire_interval \<Rightarrow> wire_error + nat \<times> 'h" where
  "into_bucket S i =
     and_then (rebuild S (interval_histogram (hs_hdr S)) (wi_values i)) (\<lambda>h. Inr (wi_index i, h))"

definition result_decode :: "'h histograms \<Rightarrow> wire_result \<Rightarrow> wire_error + 'h agent_result" where
  "result_decode S w =
     and_then (collect_results (into_bucket S) (wr_intervals w)) (\<lambda>buckets.
     and_then (into_totals S (wr_totals w)) (\<lambda>totals.
     and_then (transpose_opt (wire_lag_decode S) (wr_generator_lag w)) (\<lambda>lag.
       Inr \<lparr>ar_elapsed = wr_elapsed w, ar_started_at_unix_ms = wr_started_at_unix_ms w, ar_connections = wr_connections w,
         ar_not_started = wr_not_started w, ar_totals = totals,
         ar_series = \<lparr>sp_series = wr_time_series w, sp_buckets = collect_map buckets\<rparr>,
         ar_capture_dropped = wr_capture_dropped w, ar_lag = or_default lag lag_default,
         ar_open_file_limit = wr_open_file_limit w, ar_arrivals = wr_arrivals w, ar_compression = wr_compression w\<rparr>)))"

section \<open>Phases of a scenario\<close>

fun wire_action :: "'n scenario_action \<Rightarrow> 'n wire_action" where
  "wire_action (Act_send payload n expect captures name) = Wire_Send (map_option payload_to_wire payload) n expect captures name"
| "wire_action (Act_wait d) = Wire_Wait d"
| "wire_action (Act_ping d) = Wire_Ping d"
| "wire_action (Act_close code reason) = Wire_Close code reason"

definition from_phase :: "'n scenario_phase \<Rightarrow> 'n wire_phase" where
  "from_phase phase = \<lparr>wp_name = ph_name phase, wp_think_time = ph_think_time phase,
     wp_actions = map wire_action (ph_actions phase), wp_vars = ph_vars phase, wp_action_names = ph_action_names phase\<rparr>"

fun wire_payload_with_vars :: "string list \<Rightarrow> wire_payload \<Rightarrow> config_error + payload_config" where
  "wire_payload_with_vars vars (Wire_Text s) = Inr (from_text_with_vars s vars)"
| "wire_payload_with_vars vars (Wire_Binary b) = payload_from_wire (Wire_Binary b)"

fun into_scenario_action :: "'n wire_phase \<Rightarrow> 'n wire_action \<Rightarrow> config_error + 'n scenario_action" where
  "into_scenario_action w (Wire_Send payload n expect captures name) =
     (if (case name of None \<Rightarrow> False | Some i \<Rightarrow> length (wp_action_names w) \<le> i)
      then Inl (invalid_phase (wp_name w) ''an action names an unknown action name'')
      else if n = 0 then Inl (invalid_phase (wp_name w) ''send action count'')
      else and_then (transpose_opt (\<lambda>check. map_err (\<lambda>_. invalid_phase (wp_name w) ''expect'') (check_validate check)) expect) (\<lambda>_.
        if \<exists>c\<in>set captures. length (wp_vars w) \<le> cap_var c then Inl (invalid_phase (wp_name w) ''capture into variable'')
        else and_then (transpose_opt (wire_payload_with_vars (wp_vars w)) payload) (\<lambda>payload.
          Inr (Act_send payload n expect captures name))))"
| "into_scenario_action w (Wire_Wait d) =
     (if d = 0 then Inl (invalid_phase (wp_name w) ''wait action duration'') else Inr (Act_wait d))"
| "into_scenario_action w (Wire_Ping d) =
     (if d = 0 then Inl (invalid_phase (wp_name w) ''ping action interval'') else Inr (Act_ping d))"
| "into_scenario_action w (Wire_Close code reason) =
     and_then (validate_close_code code) (\<lambda>code. Inr (Act_close code reason))"

text \<open>The share's payload, parsed again with the variables of the phase.\<close>

fun payload_with_vars :: "string list \<Rightarrow> payload_config \<Rightarrow> payload_config" where
  "payload_with_vars vars (StaticText s) = (if vars \<noteq> [] then from_text_with_vars s vars else StaticText s)"
| "payload_with_vars vars (DynamicText t) = (if vars \<noteq> [] then from_text_with_vars (tpl_source t) vars else DynamicText t)"
| "payload_with_vars vars (Binary bs) = Binary bs"

definition into_phase :: "'n wire_phase \<Rightarrow> 'n load_config \<Rightarrow> config_error + 'n scenario_phase" where
  "into_phase w config =
     and_then (collect_results (\<lambda>name. map_err (\<lambda>_. invalid_phase (wp_name w) ''capture'') (check_var_name name)) (wp_vars w)) (\<lambda>_.
     and_then (collect_results (into_scenario_action w) (wp_actions w)) (\<lambda>actions.
       Inr \<lparr>ph_name = wp_name w, ph_target = None, ph_duration = lc_duration config, ph_connections = lc_connections config,
         ph_ramp_rate = lc_ramp_rate config, ph_rate_per_conn = lc_rate_per_conn config,
         ph_payload = Some (payload_with_vars (wp_vars w) (lc_payload config)), ph_think_time = wp_think_time w,
         ph_actions = actions, ph_vars = wp_vars w, ph_action_names = wp_action_names w, ph_slo = slo_none,
         ph_stages = lc_stages config, ph_arrivals = lc_arrivals config,
         ph_chaos = Some (or_default (lc_chaos config) chaos_new)\<rparr>))"

section \<open>Control messages\<close>

definition PROTOCOL_VERSION :: nat where "PROTOCOL_VERSION = 4"

datatype 'n control_message =
    Hello nat string
  | Prepare "'n wire_config" duration
  | Ready nat
  | Start
  | Snapshot duration wire_snapshot "wire_interval list"
  | Token string
  | Capture_batch "cap_line list"
  | Stop
  | Result wire_result
  | Error_message string

fun message_kind :: "'n control_message \<Rightarrow> string" where
  "message_kind (Hello _ _) = ''hello''"
| "message_kind (Prepare _ _) = ''prepare''"
| "message_kind (Ready _) = ''ready''"
| "message_kind Start = ''start''"
| "message_kind (Snapshot _ _ _) = ''snapshot''"
| "message_kind (Token _) = ''token''"
| "message_kind (Capture_batch _) = ''capture''"
| "message_kind Stop = ''stop''"
| "message_kind (Result _) = ''result''"
| "message_kind (Error_message _) = ''error''"

text \<open>\<open>cargo_version\<close> is the version of this build, \<open>CARGO_PKG_VERSION\<close>.\<close>

definition hello :: "string \<Rightarrow> 'n control_message" where
  "hello cargo_version = Hello PROTOCOL_VERSION cargo_version"

definition check_protocol :: "nat \<Rightarrow> string \<Rightarrow> string + unit" where
  "check_protocol protocol version =
     (if protocol = PROTOCOL_VERSION then Inr () else Inl (''protocol version mismatch: the peer is wsblast '' @ version))"

text \<open>Characters of a UTF-8 string, and whether one of them is white space.\<close>

definition char_count :: "string \<Rightarrow> nat" where
  "char_count s = length (filter (\<lambda>c. \<not> byte_in 0x80 0xBF c) s)"

fun has_whitespace :: "string \<Rightarrow> bool" where
  "has_whitespace [] = False"
| "has_whitespace (c # cs) = (0 < leading_white_space (c # cs) \<or> has_whitespace cs)"

definition validate_token :: "string \<Rightarrow> config_error + unit" where
  "validate_token token =
     (if char_count token < MIN_TOKEN_LEN then Inl (InvalidOption ''the agent token must be at least 16 characters long'')
      else if has_whitespace token \<or> has_control token
      then Inl (InvalidOption ''the agent token must not contain whitespace or control characters'')
      else Inr ())"

section \<open>Results arrive unchanged\<close>

text \<open>What the crate documents of \<open>iter_recorded\<close>, for histograms of the code's bounds at \<open>sigfig\<close> digits: the recorded
  buckets come in ascending order, each once, with its count and the highest value it holds, which can be
  recorded again; a new histogram has none; a value at the top of a higher bucket than every recorded one
  adds that bucket; and the counts of the buckets are all a histogram holds.\<close>

definition bucket_law :: "'h histograms \<Rightarrow> (nat \<Rightarrow> bool) \<Rightarrow> nat \<Rightarrow> bool" where
  "bucket_law S highest sigfig \<longleftrightarrow>
     (\<forall>h. hdr_built (hs_hdr S) sigfig h \<longrightarrow>
        sorted_wrt (<) (map fst (hdr_iter_recorded (hs_hdr S) h)) \<and>
        (\<forall>(v, n) \<in> set (hdr_iter_recorded (hs_hdr S) h). highest v \<and> 0 < n)) \<and>
     (\<forall>h v. hdr_built (hs_hdr S) sigfig h \<longrightarrow> highest v \<longrightarrow> hs_accepts S v h) \<and>
     (\<forall>h. hdr_new_with_bounds (hs_hdr S) 1 60000000 sigfig = Some h \<longrightarrow> hdr_iter_recorded (hs_hdr S) h = []) \<and>
     (\<forall>h v n. hdr_built (hs_hdr S) sigfig h \<longrightarrow> highest v \<longrightarrow> 0 < n \<longrightarrow>
        (\<forall>(w, m) \<in> set (hdr_iter_recorded (hs_hdr S) h). w < v) \<longrightarrow>
        hdr_iter_recorded (hs_hdr S) (hdr_record_n (hs_hdr S) v n h) = hdr_iter_recorded (hs_hdr S) h @ [(v, n)]) \<and>
     (\<forall>g h. hdr_built (hs_hdr S) sigfig g \<longrightarrow> hdr_built (hs_hdr S) sigfig h \<longrightarrow>
        hdr_iter_recorded (hs_hdr S) g = hdr_iter_recorded (hs_hdr S) h \<longrightarrow> g = h)"

lemma from_sparse_recorded:
  assumes "bucket_law S highest sigfig" "hdr_built (hs_hdr S) sigfig h"
    "hdr_iter_recorded (hs_hdr S) h = seen" "sorted_wrt (<) (map fst (seen @ pairs))"
    "\<forall>(v, n) \<in> set pairs. highest v \<and> 0 < n"
  shows "\<exists>g. from_sparse S pairs h = Inr g \<and> hdr_built (hs_hdr S) sigfig g \<and> hdr_iter_recorded (hs_hdr S) g = seen @ pairs"
  using assms(2-)
proof (induction pairs arbitrary: h seen)
  case (Cons p vs)
  obtain v n where p: "p = (v, n)" by force
  let ?g = "hdr_record_n (hs_hdr S) v n h"
  have hi: "highest v" "0 < n" using Cons.prems(4) p by auto
  have below: "\<forall>(w, m)\<in>set seen. w < v" using Cons.prems(3) by (auto simp: p sorted_wrt_append)
  have acc: "hs_accepts S v h" using assms(1) Cons.prems(1) hi by (simp add: bucket_law_def)
  have "hdr_iter_recorded (hs_hdr S) ?g = seen @ [(v, n)]"
    using assms(1) Cons.prems(1,2) hi below by (simp add: bucket_law_def)
  moreover have "hdr_built (hs_hdr S) sigfig ?g" using Cons.prems(1) by (rule built_record)
  ultimately show ?case using Cons.IH [of ?g "seen @ [(v, n)]"] Cons.prems(3,4) acc by (simp add: p)
qed simp

lemma rebuild_sparse:
  assumes law: "bucket_law S highest sigfig" and h: "hdr_built (hs_hdr S) sigfig h"
  shows "rebuild S (hdr_new_with_bounds (hs_hdr S) 1 60000000 sigfig) (to_sparse (hs_hdr S) h) = Inr h"
proof -
  obtain e where e: "hdr_new_with_bounds (hs_hdr S) 1 60000000 sigfig = Some e" using hdr_built_new [OF h] by blast
  have "\<exists>g. from_sparse S (to_sparse (hs_hdr S) h) e = Inr g \<and> hdr_built (hs_hdr S) sigfig g \<and>
      hdr_iter_recorded (hs_hdr S) g = [] @ to_sparse (hs_hdr S) h"
  proof (rule from_sparse_recorded [OF law])
    show "hdr_built (hs_hdr S) sigfig e" using e by (rule built_new)
    show "hdr_iter_recorded (hs_hdr S) e = []" using law e by (simp add: bucket_law_def)
    show "sorted_wrt (<) (map fst ([] @ to_sparse (hs_hdr S) h))" "\<forall>(v, n)\<in>set (to_sparse (hs_hdr S) h). highest v \<and> 0 < n"
      using law h by (simp_all add: bucket_law_def to_sparse_def)
  qed
  moreover have "g = h" if "hdr_built (hs_hdr S) sigfig g" "hdr_iter_recorded (hs_hdr S) g = hdr_iter_recorded (hs_hdr S) h" for g
    using law h that by (simp add: bucket_law_def)
  ultimately show ?thesis unfolding rebuild_def e by (auto simp: to_sparse_def)
qed

lemma collect_map_keys:
  assumes "\<And>k. k |\<in>| fmdom m \<Longrightarrow> f k = the (fmlookup m k)"
  shows "collect_map (map (\<lambda>k. (k, f k)) (sorted_list_of_fset (fmdom m))) = m"
proof (rule fmap_ext)
  fix k
  have fold: "fmlookup (fold (\<lambda>(k, v). fmupd k v) (map (\<lambda>k. (k, f k)) ks) acc) k =
      (if k \<in> set ks then Some (f k) else fmlookup acc k)" for ks acc
    by (induction ks arbitrary: acc) auto
  show "fmlookup (collect_map (map (\<lambda>k. (k, f k)) (sorted_list_of_fset (fmdom m)))) k = fmlookup m k"
    using assms [of k] by (cases "fmlookup m k") (auto simp: collect_map_def fold fmdom_notI intro: fmdomI)
qed

lemma collect_results_map: "(\<And>x. x \<in> set xs \<Longrightarrow> f (g x) = Inr (k x)) \<Longrightarrow> collect_results f (map g xs) = Inr (map k xs)"
  by (induction xs) simp_all

lemma into_action_from:
  assumes "bucket_law S highest 3" "Run_Totals.action_ok (hs_hdr S) a"
  shows "into_action S (wire_action_from (hs_hdr S) name a) = Inr (name, a)"
  using assms rebuild_sparse [OF assms(1)]
  by (simp add: into_action_def wire_action_from_def Run_Totals.action_ok_def hdr_ok_def latency_histogram_def layout_defs)

lemma into_totals_from:
  assumes law: "bucket_law S highest 3" and ok: "totals_ok (hs_hdr S) t"
  shows "into_totals S (wire_totals_from (hs_hdr S) t) = Inr (t\<lparr>mt_absorbed := []\<rparr>)"
proof -
  have h: "rebuild S (latency_histogram (hs_hdr S)) (to_sparse (hs_hdr S) h) = Inr h" if "hdr_ok (hs_hdr S) 3 h" for h
    using rebuild_sparse [OF law, of h] that by (simp add: hdr_ok_def latency_histogram_def layout_defs)
  let ?at = "\<lambda>name. the (fmlookup (mt_actions t) name)"
  have "into_action S (wire_action_from (hs_hdr S) name (?at name)) = Inr (name, ?at name)"
    if "name \<in> set (sorted_list_of_fset (fmdom (mt_actions t)))" for name
    using that ok by (intro into_action_from [OF law]) (auto simp: totals_ok_def fmlookup_dom_iff)
  then have "collect_results (into_action S) (map (\<lambda>name. wire_action_from (hs_hdr S) name (?at name)) (sorted_list_of_fset (fmdom (mt_actions t))))
      = Inr (map (\<lambda>name. (name, ?at name)) (sorted_list_of_fset (fmdom (mt_actions t))))"
    by (rule collect_results_map)
  with ok show ?thesis by (simp add: into_totals_def wire_totals_from_def h totals_ok_def collect_map_keys)
qed

lemma lag_wire:
  assumes "bucket_law S highest 2" "\<And>h. lt_hist lag = Some h \<Longrightarrow> hdr_built (hs_hdr S) 2 h"
  shows "transpose_opt (wire_lag_decode S) (wire_lag_new (hs_hdr S) windows lag) =
    Inr (case lt_hist lag of None \<Rightarrow> None | Some h \<Rightarrow> Some (lag\<lparr>lt_threshold := Some (or_default (lt_threshold lag) (threshold_us windows))\<rparr>))"
  using assms(2) rebuild_sparse [OF assms(1)]
  by (cases lag; cases "lt_hist lag")
    (auto simp: wire_lag_new_def lag_parts_def transpose_opt_def wire_lag_decode_def lag_histogram_def lag_from_parts_def or_default_def
      split: option.split)

lemma buckets_wire:
  assumes law: "bucket_law S highest 2" and built: "\<And>k h. fmlookup buckets k = Some h \<Longrightarrow> hdr_built (hs_hdr S) 2 h"
  shows "\<exists>bs. collect_results (into_bucket S) (map (\<lambda>k. \<lparr>wi_index = k, wi_values = to_sparse (hs_hdr S) (the (fmlookup buckets k))\<rparr>)
      (sorted_list_of_fset (fmdom buckets))) = Inr bs \<and> collect_map bs = buckets"
proof -
  let ?at = "\<lambda>k. the (fmlookup buckets k)"
  have "into_bucket S \<lparr>wi_index = k, wi_values = to_sparse (hs_hdr S) (?at k)\<rparr> = Inr (k, ?at k)"
    if "k \<in> set (sorted_list_of_fset (fmdom buckets))" for k
  proof -
    from that obtain h where "fmlookup buckets k = Some h" by (auto simp: fmlookup_dom_iff)
    then show ?thesis using rebuild_sparse [OF law built] by (simp add: into_bucket_def interval_histogram_def)
  qed
  then have "collect_results (into_bucket S) (map (\<lambda>k. \<lparr>wi_index = k, wi_values = to_sparse (hs_hdr S) (?at k)\<rparr>)
      (sorted_list_of_fset (fmdom buckets))) = Inr (map (\<lambda>k. (k, ?at k)) (sorted_list_of_fset (fmdom buckets)))"
    by (rule collect_results_map)
  then show ?thesis by (auto simp: collect_map_keys)
qed

lemma decode_new:
  fixes totals :: "'h metrics_totals"
  assumes "bucket_law S highest3 3" "bucket_law S highest2 2" "totals_ok (hs_hdr S) totals"
    "\<forall>k h. fmlookup buckets k = Some h \<longrightarrow> hdr_built (hs_hdr S) 2 h"
    "\<forall>h. lt_hist (rm_lag m) = Some h \<longrightarrow> hdr_built (hs_hdr S) 2 h"
  shows "result_decode S (wire_result_new (hs_hdr S) windows totals m series buckets) =
    Inr \<lparr>ar_elapsed = rm_elapsed m, ar_started_at_unix_ms = rm_started_at_unix_ms m, ar_connections = rm_connections m,
      ar_not_started = rm_not_started m, ar_totals = totals\<lparr>mt_absorbed := []\<rparr>,
      ar_series = \<lparr>sp_series = series, sp_buckets = buckets\<rparr>, ar_capture_dropped = rm_capture_dropped m,
      ar_lag = (if lt_hist (rm_lag m) = None then lag_default
        else (rm_lag m)\<lparr>lt_threshold := Some (or_default (lt_threshold (rm_lag m)) (threshold_us windows))\<rparr>),
      ar_open_file_limit = rm_open_file_limit m, ar_arrivals = rm_arrivals m, ar_compression = rm_compression m\<rparr>"
proof -
  obtain bs where bs: "collect_results (into_bucket S) (map (\<lambda>k. \<lparr>wi_index = k, wi_values = to_sparse (hs_hdr S) (the (fmlookup buckets k))\<rparr>)
      (sorted_list_of_fset (fmdom buckets))) = Inr bs" "collect_map bs = buckets"
    using buckets_wire [OF assms(2), of buckets] assms(4) by blast
  show ?thesis
    using into_totals_from [OF assms(1,3)] lag_wire [OF assms(2), of "rm_lag m" windows] assms(5)
    by (auto simp: result_decode_def wire_result_new_def bs or_default_def split: option.split)
qed

text \<open>A coordinator gets exactly what an agent measured. Whatever an agent's run recorded, the result it sends is
  decoded to the same totals, histograms of every latency and every named action included, the same time
  series with the same histogram of every interval, the same generator lag with the agent's own threshold, and
  the same counts; so the percentiles of a distributed run are those of the agents' own histograms.\<close>

theorem result_arrives_unchanged:
  fixes totals :: "'h metrics_totals"
  assumes "bucket_law S highest3 3" "bucket_law S highest2 2" "totals_ok (hs_hdr S) totals"
    "\<forall>k h. fmlookup buckets k = Some h \<longrightarrow> hdr_built (hs_hdr S) 2 h"
    "\<forall>h. lt_hist (rm_lag m) = Some h \<longrightarrow> hdr_built (hs_hdr S) 2 h"
  shows "result_decode S (wire_result_new (hs_hdr S) windows totals m series buckets) =
    Inr \<lparr>ar_elapsed = rm_elapsed m, ar_started_at_unix_ms = rm_started_at_unix_ms m, ar_connections = rm_connections m,
      ar_not_started = rm_not_started m, ar_totals = totals\<lparr>mt_absorbed := []\<rparr>,
      ar_series = \<lparr>sp_series = series, sp_buckets = buckets\<rparr>, ar_capture_dropped = rm_capture_dropped m,
      ar_lag = (if lt_hist (rm_lag m) = None then lag_default
        else (rm_lag m)\<lparr>lt_threshold := Some (or_default (lt_threshold (rm_lag m)) (threshold_us windows))\<rparr>),
      ar_open_file_limit = rm_open_file_limit m, ar_arrivals = rm_arrivals m, ar_compression = rm_compression m\<rparr>"
  by (rule decode_new [OF assms])

definition values_histograms :: "nat multiset histograms" where
  "values_histograms = \<lparr>hs_hdr = values_hdr, hs_accepts = \<lambda>_ _. True\<rparr>"

lemma values_recorded: "hdr_iter_recorded values_hdr M = map (\<lambda>v. (v, count M v)) (sorted_list_of_set (set_mset M))"
  by (simp add: values_hdr_def)

lemma insort_max: "\<forall>w\<in>set xs. w < v \<Longrightarrow> insort (v::'a::linorder) xs = xs @ [v]"
  by (induction xs) auto

lemma sorted_list_of_set_insert_max:
  assumes "finite A" "\<forall>w\<in>A. w < v"
  shows "sorted_list_of_set (insert v A) = sorted_list_of_set A @ [v]"
proof -
  have "A - {v} = A" using assms(2) by blast
  with assms show ?thesis by (simp add: insort_max)
qed

lemma values_recorded_inject:
  assumes "hdr_iter_recorded values_hdr M = hdr_iter_recorded values_hdr N"
  shows "M = N"
proof -
  have "(v, n) \<in> set (hdr_iter_recorded values_hdr M) \<longleftrightarrow> v \<in># M \<and> count M v = n" for M v n by (auto simp: values_recorded)
  with assms have "v \<in># M \<and> count M v = n \<longleftrightarrow> v \<in># N \<and> count N v = n" for v n by metis
  then show ?thesis by (metis count_eq_zero_iff multiset_eqI)
qed

lemma values_bucket_law: "bucket_law values_histograms (\<lambda>_. True) sigfig"
proof -
  have rec: "hdr_iter_recorded values_hdr (M + replicate_mset n v) = hdr_iter_recorded values_hdr M @ [(v, n)]"
    if "0 < n" "\<forall>(w, m)\<in>set (hdr_iter_recorded values_hdr M). w < v" for M v n
  proof -
    have below: "\<forall>w\<in>set_mset M. w < v" using that(2) by (auto simp: values_recorded)
    then have "v \<notin># M" by blast
    moreover have "set_mset (M + replicate_mset n v) = insert v (set_mset M)" using that(1) by auto
    ultimately have "hdr_iter_recorded values_hdr (M + replicate_mset n v) =
        map (\<lambda>w. (w, count (M + replicate_mset n v) w)) (sorted_list_of_set (set_mset M)) @ [(v, n)]"
      using below by (simp add: values_recorded insort_max count_eq_zero_iff [symmetric] del: set_mset_union)
    moreover have "map (\<lambda>w. (w, count (M + replicate_mset n v) w)) (sorted_list_of_set (set_mset M)) = hdr_iter_recorded values_hdr M"
      using below by (auto simp: values_recorded)
    ultimately show ?thesis by simp
  qed
  have "sorted_wrt (<) (map fst (hdr_iter_recorded values_hdr M))" for M
    by (simp add: values_recorded comp_def)
  then show ?thesis using rec values_recorded_inject
    by (auto simp: bucket_law_def values_histograms_def values_recorded)
qed

definition sample_totals :: "nat multiset metrics_totals" where
  "sample_totals = (the (totals_new values_hdr))\<lparr>mt_rtt := {#5, 5, 9#}, mt_messages_sent := 3\<rparr>"

definition sample_meta :: "nat multiset result_meta" where
  "sample_meta = \<lparr>rm_elapsed = 7, rm_started_at_unix_ms = 1, rm_connections = 2, rm_not_started = 0, rm_capture_dropped = None,
     rm_lag = lag_default, rm_open_file_limit = None, rm_arrivals = None, rm_compression = None\<rparr>"

lemma values_built: "hdr_built values_hdr sigfig M"
proof (induction M)
  case empty
  then show ?case by (intro built_new) simp
next
  case (add x M)
  then show ?case using built_record [of values_hdr sigfig M x 1] by simp
qed

theorem result_arrives_unchanged_witness:
  "\<exists>r. result_decode values_histograms (wire_result_new values_hdr False sample_totals sample_meta series_default (fmupd 4 {#5#} fmempty)) = Inr r \<and>
     mt_rtt (ar_totals r) = {#5, 5, 9#} \<and> fmlookup (sp_buckets (ar_series r)) 4 = Some {#5#}"
proof -
  have ok: "totals_ok (hs_hdr values_histograms) sample_totals"
    by (simp add: values_histograms_def totals_ok_def hdr_ok_def values_built values_hdr_law sample_totals_def totals_new_def latency_histogram_def)
  show ?thesis
    using result_arrives_unchanged [OF values_bucket_law values_bucket_law ok, of "fmupd 4 {#5#} fmempty" sample_meta False series_default]
    by (simp add: values_histograms_def values_built sample_meta_def lag_default_def sample_totals_def)
qed

section \<open>Phases arrive unchanged\<close>

text \<open>The payloads of a compiled phase are parsed with its variables, or binary.\<close>

definition parsed_with :: "string list \<Rightarrow> payload_config \<Rightarrow> bool" where
  "parsed_with vars p \<longleftrightarrow> (\<exists>s. p = from_text_with_vars s vars) \<or> (\<exists>bs. p = Binary bs)"

definition phase_parsed :: "'n scenario_phase \<Rightarrow> bool" where
  "phase_parsed phase \<longleftrightarrow> (\<forall>a\<in>set (ph_actions phase). case a of
     Act_send (Some p) _ _ _ _ \<Rightarrow> parsed_with (ph_vars phase) p | _ \<Rightarrow> True) \<and>
     (\<forall>p. ph_payload phase = Some p \<longrightarrow> parsed_with (ph_vars phase) p)"

lemma parsed_with_text [simp]: "parsed_with vars (from_text_with_vars s vars)"
  unfolding parsed_with_def by blast

lemma action_compile_parsed:
  "action_compile phase vars names x = Inr a \<Longrightarrow> case a of Act_send (Some p) _ _ _ _ \<Rightarrow> parsed_with vars p | _ \<Rightarrow> True"
  by (cases x) (auto simp: action_compile_def result_rules Let_def split: if_splits option.splits)

lemma phase_compile_parsed:
  assumes "phase_compile url_parse p = Inr phase"
  shows "phase_parsed phase"
proof -
  from assms obtain vars names where q: "collect_results (action_compile (pc_name p) vars names) (pc_actions p) = Inr (ph_actions phase)"
    "ph_vars phase = vars" "ph_payload phase = map_option (\<lambda>s. from_text_with_vars s vars) (pc_payload p)"
    by (auto simp: phase_compile_def and_then_Inr_iff)
  have "case a of Act_send (Some p) _ _ _ _ \<Rightarrow> parsed_with vars p | _ \<Rightarrow> True" if "a \<in> set (ph_actions phase)" for a
    using q(1) action_compile_parsed that by (rule collect_results_all)
  with q(2,3) show ?thesis by (auto simp: phase_parsed_def)
qed

lemma payload_wire_vars: "parsed_with vars p \<Longrightarrow> wire_payload_with_vars vars (payload_to_wire p) = Inr p"
  by (auto simp: parsed_with_def from_text_with_vars_def Let_def)

lemma into_action_wire:
  assumes "Scenario.action_ok phase a" "case a of Act_send (Some p) _ _ _ _ \<Rightarrow> parsed_with (ph_vars phase) p | _ \<Rightarrow> True"
  shows "into_scenario_action (from_phase phase) (wire_action a) = Inr a"
proof (cases a)
  case (Act_send payload n expect captures name)
  have "\<not> (\<exists>c\<in>set captures. length (ph_vars phase) \<le> cap_var c)" using assms(1) Act_send by (auto simp: Scenario.action_ok_def)
  with assms Act_send show ?thesis
    by (cases payload; cases expect)
      (auto simp: Scenario.action_ok_def from_phase_def transpose_opt_def payload_wire_vars split: option.splits)
qed (use assms in \<open>auto simp: Scenario.action_ok_def from_phase_def validate_close_code_def\<close>)

text \<open>A payload that crossed the wire without the variables and is read again with them.\<close>

lemma payload_read_again:
  assumes "parsed_with vars p" "payload_from_wire (payload_to_wire p) = Inr q"
  shows "payload_with_vars vars q = p"
  using assms by (auto simp: parsed_with_def from_text_def from_text_with_vars_def Let_def split: if_splits)

text \<open>What an agent's share carries of the payload.\<close>

lemma wire_builder_payload: "b_payload (wire_builder env w mode rm payload data) = payload"
proof -
  have "b_payload (fold (\<lambda>(name, value). builder_header env name value) hs b) = b_payload b" for hs and b :: "'a builder"
    by (induction hs arbitrary: b) (auto simp: builder_header_def split: option.split)
  then show ?thesis by (simp add: wire_builder_def)
qed

lemma into_config_payload:
  assumes "into_config env w = Inr config"
  shows "payload_from_wire (wc_payload w) = Inr (lc_payload config)"
proof -
  from assms obtain mode rm payload data c where c: "payload_from_wire (wc_payload w) = Inr payload"
    "build env (wire_builder env w mode rm payload data) = Inr c" "finish_config w mode c = Inr config"
    by (auto simp: into_config_def result_rules)
  have "lc_payload c = payload" using c(2) by (auto simp: build_Inr_iff assemble_def wire_builder_payload)
  moreover have "lc_payload config = lc_payload c"
    using c(3) by (auto simp: finish_config_def set_stage_share_def result_rules split: option.splits if_splits)
  ultimately show ?thesis using c(1) by simp
qed

lemma plan_payload:
  assumes "plan env c n = Inr ws" "i < n"
  shows "wc_payload (ws ! i) = payload_to_wire (lc_payload c)"
  using assms by (auto simp: plan_def from_config_def result_rules agent_wire_def)

lemma phase_config_payload:
  "lc_payload (set_target target (run_phase_config seed base phase)) = or_default (ph_payload phase) (lc_payload base)"
  by (simp add: set_target_def run_phase_config_def Let_def or_default_def split: option.split)

lemma into_phase_eq:
  assumes "phase_ok phase" "phase_parsed phase"
  shows "into_phase (from_phase phase) config =
    Inr (phase\<lparr>ph_target := None, ph_payload := Some (payload_with_vars (ph_vars phase) (lc_payload config)),
      ph_duration := lc_duration config, ph_connections := lc_connections config,
      ph_ramp_rate := lc_ramp_rate config, ph_rate_per_conn := lc_rate_per_conn config, ph_slo := slo_none,
      ph_stages := lc_stages config, ph_arrivals := lc_arrivals config,
      ph_chaos := Some (or_default (lc_chaos config) chaos_new)\<rparr>)"
proof -
  have "\<exists>us. collect_results (\<lambda>name. map_err (\<lambda>_. invalid_phase (ph_name phase) ''capture'') (check_var_name name)) (ph_vars phase) = Inr us"
    using collect_results_map [of "ph_vars phase" "\<lambda>name. map_err (\<lambda>_. invalid_phase (ph_name phase) ''capture'') (check_var_name name)"
        "\<lambda>v. v" "\<lambda>_. ()"] assms(1) by (simp add: phase_ok_def)
  moreover have "collect_results (into_scenario_action (from_phase phase)) (map wire_action (ph_actions phase)) = Inr (map id (ph_actions phase))"
    by (rule collect_results_map) (use assms into_action_wire in \<open>fastforce simp: phase_ok_def phase_parsed_def\<close>)
  ultimately show ?thesis by (cases phase) (auto simp: into_phase_def from_phase_def)
qed

text \<open>The payload an agent runs a phase with: the phase's own, or the run's, read with the phase's variables.\<close>

definition agent_payload :: "'n scenario_phase \<Rightarrow> 'n load_config \<Rightarrow> payload_config" where
  "agent_payload phase base =
     (case ph_payload phase of Some p \<Rightarrow> p | None \<Rightarrow> payload_with_vars (ph_vars phase) (lc_payload base))"

lemma agent_payload_wire:
  assumes "phase_parsed phase" "payload_parsed (lc_payload base)"
    "payload_from_wire (payload_to_wire (or_default (ph_payload phase) (lc_payload base))) = Inr q"
  shows "payload_with_vars (ph_vars phase) q = agent_payload phase base"
proof (cases "ph_payload phase")
  case None
  then show ?thesis using assms(2,3) payload_wire [OF assms(2)] by (simp add: agent_payload_def or_default_def)
next
  case (Some p)
  then show ?thesis using assms(1,3) payload_read_again [of "ph_vars phase" p q]
    by (simp add: agent_payload_def or_default_def phase_parsed_def)
qed

text \<open>C25: an agent runs the phase the coordinator compiled. For every phase of a scenario file that compiles, with a
  payload of its own or without, once a coordinator has split it and an agent has accepted its share, the phase the
  agent rebuilds is accepted and has the same name, think time, script, variables and action names, and the
  duration, size, ramp, stages, arrivals and rate of the agent's own share. Its payload is the phase's own or, for
  a phase without one, the run's payload read again with the variables the phase captures; that is the payload a
  single machine runs the phase with (\<open>phase_config\<close>) unless a phase without a payload captures variables and the
  run's payload is text.\<close>

theorem phase_arrives_unchanged:
  assumes "phase_compile url_parse p = Inr phase" "payload_parsed (lc_payload base)"
    "plan env (set_target target (run_phase_config seed base phase)) n = Inr ws" "i < n"
    "into_config env ((ws ! i)\<lparr>wc_phase := Some (from_phase phase)\<rparr>) = Inr config"
  shows "into_phase (from_phase phase) config =
    Inr (phase\<lparr>ph_target := None, ph_payload := Some (agent_payload phase base),
      ph_duration := lc_duration config, ph_connections := lc_connections config,
      ph_ramp_rate := lc_ramp_rate config, ph_rate_per_conn := lc_rate_per_conn config, ph_slo := slo_none,
      ph_stages := lc_stages config, ph_arrivals := lc_arrivals config,
      ph_chaos := Some (or_default (lc_chaos config) chaos_new)\<rparr>) \<and>
    (ph_payload phase \<noteq> None \<or> ph_vars phase = [] \<or> (\<exists>bs. lc_payload base = Binary bs) \<longrightarrow>
      agent_payload phase base = lc_payload (run_phase_config seed base phase))"
proof -
  have phase: "phase_ok phase" "phase_parsed phase"
    using phase_compile_ok [OF assms(1)] phase_compile_parsed [OF assms(1)] by simp_all
  have "payload_from_wire (payload_to_wire (or_default (ph_payload phase) (lc_payload base))) = Inr (lc_payload config)"
    using into_config_payload [OF assms(5)] plan_payload [OF assms(3,4)] by (simp add: phase_config_payload)
  then have "payload_with_vars (ph_vars phase) (lc_payload config) = agent_payload phase base"
    by (rule agent_payload_wire [OF phase(2) assms(2)])
  moreover have "lc_payload (run_phase_config seed base phase) = or_default (ph_payload phase) (lc_payload base)"
    using phase_config_payload [of target seed base phase] by (simp add: set_target_def)
  moreover have "payload_with_vars [] r = r" for r by (cases r) simp_all
  ultimately show ?thesis using into_phase_eq [OF phase, of config]
    by (auto simp: agent_payload_def or_default_def split: option.split)
qed

definition sample_wire_phase :: "nat scenario_phase" where
  "sample_wire_phase = \<lparr>ph_name = ''steady'', ph_target = None, ph_duration = 90000000000, ph_connections = 2,
     ph_ramp_rate = 0, ph_rate_per_conn = 0, ph_payload = None, ph_think_time = 0,
     ph_actions = [Act_send None 1 None [\<lparr>cap_var = 0, cap_pointer = ''/t''\<rparr>] (Some 0), Act_close 1000 []],
     ph_vars = [''tok''], ph_action_names = [''login''], ph_slo = slo_none, ph_stages = [], ph_arrivals = None, ph_chaos = None\<rparr>"

lemma sample_share:
  "\<exists>ws config. plan Load_Config.sample_env (set_target (lc_target_url sample_config) (run_phase_config 0 sample_config sample_wire_phase)) 1 = Inr ws \<and>
     into_config Load_Config.sample_env ((ws ! 0)\<lparr>wc_phase := Some (from_phase sample_wire_phase)\<rparr>) = Inr config \<and> lc_connections config = 2"
proof -
  have "split_total 2 0 1 = 2" "from_text ''hi'' = StaticText ''hi''" by code_simp+
  then show ?thesis
    by (simp add: plan_def check_plan_def from_config_def agent_wire_def set_target_def run_phase_config_def sample_config_def
        sample_wire_phase_def into_config_def mode_from_str_def reply_match_from_str_def wire_builder_def builder_new_def
        build_defs Load_Config.sample_env_def finish_config_def set_stage_share_def slo_none_def has_latency_def share_of_def)
qed

theorem phase_arrives_unchanged_witness:
  "\<exists>config. lc_connections config = 2 \<and> into_phase (from_phase sample_wire_phase) config =
    Inr (sample_wire_phase\<lparr>ph_target := None, ph_payload := Some (from_text_with_vars ''hi'' [''tok'']),
      ph_duration := lc_duration config, ph_connections := 2,
      ph_ramp_rate := lc_ramp_rate config, ph_rate_per_conn := lc_rate_per_conn config, ph_slo := slo_none,
      ph_stages := lc_stages config, ph_arrivals := lc_arrivals config,
      ph_chaos := Some (or_default (lc_chaos config) chaos_new)\<rparr>)"
proof -
  obtain ws config where share: "plan Load_Config.sample_env (set_target (lc_target_url sample_config) (run_phase_config 0 sample_config sample_wire_phase)) 1 = Inr ws"
    "into_config Load_Config.sample_env ((ws ! 0)\<lparr>wc_phase := Some (from_phase sample_wire_phase)\<rparr>) = Inr config" "lc_connections config = 2"
    using sample_share by blast
  have "from_text ''hi'' = StaticText ''hi''" by code_simp
  then have "payload_parsed (lc_payload sample_config)"
    unfolding payload_parsed_def by (metis load_config.select_convs(9) sample_config_def)
  then show ?thesis
    using phase_arrives_unchanged [OF sample_compiles [folded sample_wire_phase_def] _ share(1) _ share(2)] share(3)
    by (auto simp: agent_payload_def sample_wire_phase_def sample_config_def)
qed

end
