(* ===== verification/Run_Pool.thy ===== *)
theory Run_Pool
  imports Runner
begin

text \<open>
  The abstract machine behind the loops of \<open>src/runner.rs\<close>. A run is a pool of tasks: a task with a fresh id is
  spawned, running tasks record, a token is cancelled, a running task is joined once and its metrics are
  added to the totals. Each loop of \<open>Runner\<close> is a sequence of such steps, so what holds of the pool holds of
  every run: the report has exactly what the joined tasks counted, the live counters what all of them did.
\<close>

section \<open>Steps of the pool\<close>

inductive pool_step :: "('n, 'h) runner \<Rightarrow> 'h run_state \<Rightarrow> 'h run_state \<Rightarrow> bool" for x where
  pool_spawn: "i \<notin> set (ru_spawned s) \<Longrightarrow> pool_step x s (spawn_session x i s)"
| pool_work: "pool_step x s (workers_do x evs s)"
| pool_cancel: "i \<in> set (ru_spawned s) \<Longrightarrow> pool_step x s (cancel_session i s)"
| pool_count: "i \<in> set (ru_spawned s) \<Longrightarrow> i \<notin> set (ru_joined s) \<Longrightarrow> pool_step x s (add_session x i p s)"
| pool_join: "i \<in> set (ru_spawned s) \<Longrightarrow> i \<notin> set (ru_joined s) \<Longrightarrow> pool_step x s (join_handle x i p s)"
| pool_absorb: "pool_step x s (absorb_recorder x s)"

abbreviation pool_run :: "('n, 'h) runner \<Rightarrow> 'h run_state \<Rightarrow> 'h run_state \<Rightarrow> bool" where
  "pool_run x \<equiv> (pool_step x)\<^sup>*\<^sup>*"

lemma ru_simps [simp]:
  "ru_spawned (spawn_session x i s) = ru_spawned s @ [i]" "ru_joined (spawn_session x i s) = ru_joined s"
  "ru_cancelled (spawn_session x i s) = ru_cancelled s" "ru_panicked (spawn_session x i s) = ru_panicked s"
  "ru_spawned (workers_do x evs s) = ru_spawned s" "ru_joined (workers_do x evs s) = ru_joined s"
  "ru_cancelled (workers_do x evs s) = ru_cancelled s" "ru_panicked (workers_do x evs s) = ru_panicked s"
  "ru_spawned (cancel_session i s) = ru_spawned s" "ru_joined (cancel_session i s) = ru_joined s"
  "ru_cancelled (cancel_session i s) = ru_cancelled s @ [i]" "ru_panicked (cancel_session i s) = ru_panicked s"
  "ru_spawned (join_session add x i p s) = ru_spawned s" "ru_joined (join_session add x i p s) = ru_joined s @ [i]"
  "ru_cancelled (join_session add x i p s) = ru_cancelled s"
  "ru_panicked (join_session add x i p s) = ru_panicked s @ (if p then [i] else [])"
  "ru_spawned (absorb_recorder x s) = ru_spawned s" "ru_joined (absorb_recorder x s) = ru_joined s"
  "ru_cancelled (absorb_recorder x s) = ru_cancelled s" "ru_panicked (absorb_recorder x s) = ru_panicked s"
  by (simp_all add: spawn_session_def workers_do_def cancel_session_def join_session_def absorb_recorder_def Let_def
      split: prod.split)

lemma ru_joins [simp]:
  "ru_spawned (add_session x i p s) = ru_spawned s" "ru_joined (add_session x i p s) = ru_joined s @ [i]"
  "ru_cancelled (add_session x i p s) = ru_cancelled s"
  "ru_panicked (add_session x i p s) = ru_panicked s @ (if p then [i] else [])"
  "ru_spawned (join_handle x i p s) = ru_spawned s" "ru_joined (join_handle x i p s) = ru_joined s @ [i]"
  "ru_cancelled (join_handle x i p s) = ru_cancelled s"
  "ru_panicked (join_handle x i p s) = ru_panicked s @ (if p then [i] else [])"
  by (simp_all add: add_session_def join_handle_def)

lemma pool_run_step: "pool_run x s t \<Longrightarrow> pool_step x t u \<Longrightarrow> pool_run x s u"
  by (rule rtranclp.rtrancl_into_rtrancl)

section \<open>Live counters, tasks and totals\<close>

fun total_of :: "counter \<Rightarrow> 'h metrics_totals \<Rightarrow> u64" where
  "total_of C_sent t = mt_messages_sent t"
| "total_of C_recv t = mt_messages_recv t"
| "total_of C_bytes_sent t = mt_bytes_sent t"
| "total_of C_bytes_recv t = mt_bytes_recv t"
| "total_of C_reconnects t = mt_reconnects t"
| "total_of C_unsolicited t = mt_unsolicited t"
| "total_of C_errors t = error_sum (mt_errors t)"

lemma total_of_actions: "total_of c (t\<lparr>mt_actions := a\<rparr>) = total_of c t"
  by (cases c) simp_all

lemma total_of_with_action: "total_of c (with_action H name f t) = total_of c t"
  by (simp add: with_action_def total_of_actions split: option.split)

lemma total_of_fold_actions: "total_of c (fold (\<lambda>(i, n). with_action H (g n) (f i)) xs t) = total_of c t"
  by (induction xs arbitrary: t) (simp_all add: total_of_with_action split_def)

lemma error_sum_add: "error_sum (add_errors e e') = error_sum e + error_sum e'"
proof -
  have "(\<Sum>c\<leftarrow>cs. case add_errors e e' c of None \<Rightarrow> 0 | Some n \<Rightarrow> n) =
      (\<Sum>c\<leftarrow>cs. case e c of None \<Rightarrow> 0 | Some n \<Rightarrow> n) + (\<Sum>c\<leftarrow>cs. case e' c of None \<Rightarrow> 0 | Some n \<Rightarrow> (n :: u64))" for cs
    by (induction cs) (auto simp: add_errors_def algebra_simps split: option.split)
  then show ?thesis by (simp add: error_sum_def)
qed

lemma total_of_worker_counts: "total_of c (add_worker_counts H recs w t) = total_of c t + own_of c w"
  using total_of_fold_actions [of c H "\<lambda>n. n" "\<lambda>index. if index < length (w_actions w) then at_add_counts (w_actions w ! index) else id"
      "List.enumerate 0 (action_names (recs (w_latency w)))" t]
  by (cases c) (simp_all add: add_worker_counts_def Let_def error_sum_add add.commute)

lemma total_of_latency:
  "total_of c (t\<lparr>mt_handshake := h, mt_rtt := r, mt_response := p\<rparr>) = total_of c t"
  "total_of c (t\<lparr>mt_absorbed := ab\<rparr>) = total_of c t"
  by (cases c; simp)+

lemma total_of_recorder: "total_of c (add_recorder H recs addr t) = total_of c t"
  using total_of_fold_actions [of c H "\<lambda>n. n" "absorb_action H (recs addr)"]
  by (simp add: add_recorder_def Let_def total_of_latency split: prod.split)

lemma total_of_worker: "total_of c (add_worker H recs w t) = total_of c t + own_of c w"
  by (simp add: add_worker_def total_of_worker_counts total_of_recorder)

text \<open>What the tasks counted, live and in the totals, from the start of the run on.\<close>

definition pool_ok :: "counter \<Rightarrow> u64 \<Rightarrow> u64 \<Rightarrow> 'h run_state \<Rightarrow> bool" where
  "pool_ok c live0 total0 s \<longleftrightarrow> lm_shards (wd_live (ru_world s)) \<noteq> [] \<and> distinct (ru_spawned s) \<and> distinct (ru_joined s) \<and>
     set (ru_joined s) \<subseteq> set (ru_spawned s) \<and> set (ru_panicked s) \<subseteq> set (ru_joined s) \<and>
     live_total c (wd_live (ru_world s)) = live0 + (\<Sum>i\<in>set (ru_spawned s). own_of c (ru_ws s i)) \<and>
     total_of c (ru_totals s) = total0 + (\<Sum>i\<in>set (ru_joined s) - set (ru_panicked s). own_of c (ru_ws s i))"

lemma spawn_live:
  "live_total c (wd_live (ru_world (spawn_session x i s))) = live_total c (wd_live (ru_world s))"
  "lm_shards (wd_live (ru_world (spawn_session x i s))) = lm_shards (wd_live (ru_world s))"
  "ru_totals (spawn_session x i s) = ru_totals s"
  by (auto simp: spawn_session_def worker_new_def assign_shard_def create_session_def session_new_def with_scenario_def Let_def
      live_total_def split: option.split)

lemma spawn_own: "own_of c (ru_ws (spawn_session x i s) j) = (if j = i then 0 else own_of c (ru_ws s j))"
  by (cases c) (auto simp: spawn_session_def worker_new_def assign_shard_def create_session_def session_new_def with_scenario_def
      with_interval_def Let_def split: option.split)

lemma run_steps_books:
  assumes "lm_shards (wd_live (snd s)) \<noteq> []" "finite A" "\<forall>e\<in>set evs. fst e \<in> A"
  shows "live_total c (wd_live (snd (fold (run_step H) evs s))) - (\<Sum>i\<in>A. own_of c (fst (fold (run_step H) evs s) i)) =
      live_total c (wd_live (snd s)) - (\<Sum>i\<in>A. own_of c (fst s i)) \<and>
    lm_shards (wd_live (snd (fold (run_step H) evs s))) \<noteq> [] \<and>
    (\<forall>i. i \<notin> A \<longrightarrow> fst (fold (run_step H) evs s) i = fst s i)"
  using assms
proof (induction evs arbitrary: s)
  case (Cons e evs)
  obtain w world where r: "worker_step H (snd e) (fst s (fst e), snd s) = (w, world)" by force
  then have step: "run_step H e s = ((fst s)(fst e := w), world)" by (simp add: run_step_def)
  have g: "live_total c (wd_live world) - own_of c w = live_total c (wd_live (snd s)) - own_of c (fst s (fst e))"
    "lm_shards (wd_live world) \<noteq> []"
    using worker_step_gap [of "(fst s (fst e), snd s)" c H "snd e"] Cons.prems(1) by (simp_all add: r gap_def live_ok_def)
  have e: "fst e \<in> A" using Cons.prems(3) by simp
  have sums: "(\<Sum>i\<in>A. own_of c (((fst s)(fst e := w)) i)) = own_of c w + (\<Sum>i\<in>A - {fst e}. own_of c (fst s i))"
    "(\<Sum>i\<in>A. own_of c (fst s i)) = own_of c (fst s (fst e)) + (\<Sum>i\<in>A - {fst e}. own_of c (fst s i))"
    using e Cons.prems(2) by (simp_all add: sum.remove)
  have "live_total c (wd_live world) - (\<Sum>i\<in>A. own_of c (((fst s)(fst e := w)) i)) =
      live_total c (wd_live (snd s)) - (\<Sum>i\<in>A. own_of c (fst s i))"
    using g(1) unfolding sums by (simp add: algebra_simps)
  with Cons.IH [of "((fst s)(fst e := w), world)"] g(2) Cons.prems e show ?case by (auto simp: step)
qed simp

lemma workers_do_books:
  assumes "pool_ok c live0 total0 s"
  shows "pool_ok c live0 total0 (workers_do x evs s)"
proof -
  let ?A = "set (ru_spawned s) - set (ru_joined s)"
  let ?evs = "filter (\<lambda>e. fst e \<in> set (ru_spawned s) \<and> fst e \<notin> set (ru_joined s)) evs"
  obtain ws world where r: "fold (run_step (rx_hist x)) ?evs (ru_ws s, ru_world s) = (ws, world)" by force
  have ok: "lm_shards (wd_live (ru_world s)) \<noteq> []" "set (ru_joined s) \<subseteq> set (ru_spawned s)"
    using assms by (auto simp: pool_ok_def)
  have *: "live_total c (wd_live world) - (\<Sum>i\<in>?A. own_of c (ws i)) =
      live_total c (wd_live (ru_world s)) - (\<Sum>i\<in>?A. own_of c (ru_ws s i))"
    "lm_shards (wd_live world) \<noteq> []" and same: "\<And>i. i \<notin> ?A \<Longrightarrow> ws i = ru_ws s i"
    using run_steps_books [of "(ru_ws s, ru_world s)" ?A ?evs c "rx_hist x"] ok(1) by (auto simp: r)
  have split: "(\<Sum>i\<in>set (ru_spawned s). own_of c (f i)) =
      (\<Sum>i\<in>?A. own_of c (f i)) + (\<Sum>i\<in>set (ru_joined s). own_of c (f i))" for f
    using ok(2) by (metis List.finite_set sum.subset_diff)
  have j: "(\<Sum>i\<in>set (ru_joined s). own_of c (ws i)) = (\<Sum>i\<in>set (ru_joined s). own_of c (ru_ws s i))"
    "(\<Sum>i\<in>set (ru_joined s) - set (ru_panicked s). own_of c (ws i)) =
     (\<Sum>i\<in>set (ru_joined s) - set (ru_panicked s). own_of c (ru_ws s i))"
    using same by (auto intro: sum.cong)
  have "workers_do x evs s = s\<lparr>ru_ws := ws, ru_world := world\<rparr>" by (simp add: workers_do_def r)
  moreover have "live_total c (wd_live world) = live0 + (\<Sum>i\<in>set (ru_spawned s). own_of c (ws i))"
    using assms *(1) by (simp add: pool_ok_def split j algebra_simps)
  ultimately show ?thesis using assms *(2) j by (simp add: pool_ok_def)
qed

lemma flush_books:
  assumes "flush_interval H (w, world) = (w', world')"
  shows "own_of c w' = own_of c w" "wd_live world' = wd_live world" "wd_latency world' = wd_latency world" "w_latency w' = w_latency w"
  using assms by (auto simp: flush_interval_def own_of_interval split: option.splits prod.splits)

lemma join_books:
  assumes "pool_ok c live0 total0 s" "i \<in> set (ru_spawned s)" "i \<notin> set (ru_joined s)"
    and add: "\<And>recs w t. total_of c (add recs w t) = total_of c t + own_of c w"
  shows "pool_ok c live0 total0 (join_session add x i p s)"
proof (cases p)
  case True
  then have "set (ru_joined (join_session add x i p s)) - set (ru_panicked (join_session add x i p s)) =
    set (ru_joined s) - set (ru_panicked s)" using assms(1,3) by (auto simp: pool_ok_def)
  with assms True show ?thesis by (auto simp: pool_ok_def join_session_def Let_def)
next
  case False
  obtain w world where f: "flush_interval (rx_hist x) (ru_ws s i, ru_world s) = (w, world)" by force
  note fb = flush_books [OF f]
  have same: "own_of c (((ru_ws s)(i := w)) j) = own_of c (ru_ws s j)" for j by (simp add: fb)
  have notin: "i \<notin> set (ru_joined s) - set (ru_panicked s)" "i \<notin> set (ru_panicked s)"
    using assms(1,3) by (auto simp: pool_ok_def)
  have "(\<Sum>j\<in>set (ru_joined s @ [i]) - set (ru_panicked s). own_of c (ru_ws s j)) =
      (\<Sum>j\<in>insert i (set (ru_joined s) - set (ru_panicked s)). own_of c (ru_ws s j))"
    using notin by (intro sum.cong) auto
  also have "\<dots> = own_of c (ru_ws s i) + (\<Sum>j\<in>set (ru_joined s) - set (ru_panicked s). own_of c (ru_ws s j))"
    using notin by simp
  finally have "(\<Sum>j\<in>set (ru_joined s @ [i]) - set (ru_panicked s). own_of c (((ru_ws s)(i := w)) j)) =
      own_of c (ru_ws s i) + (\<Sum>j\<in>set (ru_joined s) - set (ru_panicked s). own_of c (ru_ws s j))"
    by (simp only: same)
  then show ?thesis
    using assms(1-3) False f by (auto simp: pool_ok_def join_session_def Let_def fb add same simp del: fun_upd_apply)
qed

lemma pool_step_ok: "pool_step x s t \<Longrightarrow> pool_ok c live0 total0 s \<Longrightarrow> pool_ok c live0 total0 t"
proof (induction rule: pool_step.induct)
  case (pool_spawn i s)
  then have "i \<notin> set (ru_joined s)" by (auto simp: pool_ok_def)
  then have "(\<Sum>j\<in>set (ru_joined s) - set (ru_panicked s). own_of c (ru_ws (spawn_session x i s) j)) =
    (\<Sum>j\<in>set (ru_joined s) - set (ru_panicked s). own_of c (ru_ws s j))"
    by (auto simp: spawn_own intro: sum.cong)
  moreover have "(\<Sum>j\<in>set (ru_spawned s). own_of c (ru_ws (spawn_session x i s) j)) = (\<Sum>j\<in>set (ru_spawned s). own_of c (ru_ws s j))"
    using pool_spawn(1) by (auto simp: spawn_own intro: sum.cong)
  ultimately show ?case using pool_spawn by (auto simp: pool_ok_def spawn_live spawn_own)
next
  case (pool_cancel i s)
  then show ?case by (simp add: pool_ok_def cancel_session_def)
next
  case (pool_count i s p)
  then show ?case unfolding add_session_def by (intro join_books) (simp_all add: total_of_worker_counts)
next
  case (pool_join i s p)
  then show ?case unfolding join_handle_def by (intro join_books) (simp_all add: total_of_worker)
next
  case (pool_absorb s)
  then show ?case by (simp add: pool_ok_def absorb_recorder_def total_of_recorder)
qed (rule workers_do_books)

lemma pool_run_ok: "pool_run x s t \<Longrightarrow> pool_ok c live0 total0 s \<Longrightarrow> pool_ok c live0 total0 t"
  by (induction rule: rtranclp.induct) (auto intro: pool_step_ok)

section \<open>Latency in the totals\<close>

text \<open>The latency of the totals and the recorders already added to it.\<close>

definition latency_view :: "'h metrics_totals \<Rightarrow> ('h \<times> 'h \<times> 'h) \<times> nat list" where
  "latency_view t = ((mt_handshake t, mt_rtt t, mt_response t), mt_absorbed t)"

lemma latency_fold_actions: "latency_view (fold (\<lambda>(i, n). with_action H n (f i)) xs t) = latency_view t"
proof (induction xs arbitrary: t)
  case (Cons p xs)
  have "latency_view (with_action H n g t) = latency_view t" for n g
    by (simp add: with_action_def latency_view_def split: option.split)
  with Cons show ?case by (simp add: split_def)
qed simp

lemma latency_worker_counts: "latency_view (add_worker_counts H recs w t) = latency_view t"
  using latency_fold_actions [of H "\<lambda>index. if index < length (w_actions w) then at_add_counts (w_actions w ! index) else id"
      "List.enumerate 0 (action_names (recs (w_latency w)))" t]
  by (simp add: add_worker_counts_def Let_def latency_view_def)

lemma latency_recorder:
  "latency_view (add_recorder H recs addr t) =
     (if addr \<in> set (mt_absorbed t) then latency_view t
      else (lr_add_to (hdr_record_n H) (recs addr) (fst (latency_view t)), mt_absorbed t @ [addr]))"
proof (cases "addr \<in> set (mt_absorbed t)")
  case False
  obtain h r p where lr: "lr_add_to (hdr_record_n H) (recs addr) (mt_handshake t, mt_rtt t, mt_response t) = (h, r, p)"
    by (metis prod_cases3)
  show ?thesis
    using False lr latency_fold_actions [of H "absorb_action H (recs addr)" "List.enumerate 0 (action_names (recs addr))"
        "t\<lparr>mt_handshake := h, mt_rtt := r, mt_response := p\<rparr>"]
    by (simp add: add_recorder_def Let_def latency_view_def)
qed (simp add: add_recorder_def)

lemma totals_kept [simp]: "ru_totals (workers_do x evs s) = ru_totals s" "ru_totals (spawn_session x i s) = ru_totals s"
  by (simp_all add: workers_do_def spawn_live split: prod.split)

lemma latency_add_session [simp]: "latency_view (ru_totals (add_session x i p s)) = latency_view (ru_totals s)"
  by (auto simp: add_session_def join_session_def Let_def latency_worker_counts split: prod.split)

end
