(* ===== verification/Run_Loops.thy ===== *)
theory Run_Loops
  imports Run_Pool
begin

text \<open>
  The loops of \<open>src/runner.rs\<close> refine the pool: the ramp, the stages, the arrivals and the joins after them are
  sequences of pool steps that leave every task joined once. From this follow what a run promises of its
  connections and of its report.
\<close>

section \<open>The ramp and the joins\<close>

lemma ramp_loop_run:
  assumes "ramp_loop x delay turns ids (handles, s) = (handles', s')" "distinct ids" "set ids \<inter> set (ru_spawned s) = {}"
  shows "\<exists>k\<le>length ids. handles' = handles @ take k ids \<and> pool_run x s s' \<and> ru_spawned s' = ru_spawned s @ take k ids \<and>
    ru_cancelled s' = ru_cancelled s \<and> ru_joined s' = ru_joined s \<and> ru_panicked s' = ru_panicked s \<and>
    (k < length ids \<longrightarrow> rt_cancelled (turns (ids ! k)) \<or> (k > 0 \<and> delay \<noteq> None \<and> rt_pause_cancelled (turns (ids ! (k - 1)))))"
  using assms
proof (induction ids arbitrary: handles s)
  case (Cons i ids)
  show ?case
  proof (cases "rt_cancelled (turns i)")
    case True
    with Cons.prems(1) show ?thesis by (intro exI [of _ 0]) simp
  next
    case False
    let ?t = "workers_do x (rt_activity (turns i)) (spawn_session x i s)"
    have run: "pool_run x s ?t"
      using Cons.prems(3) by (auto intro!: pool_run_step [OF _ pool_work] pool_run_step [OF _ pool_spawn])
    show ?thesis
    proof (cases "delay \<noteq> None \<and> rt_pause_cancelled (turns i)")
      case True
      with False Cons.prems(1) run show ?thesis by (intro exI [of _ 1]) auto
    next
      case go: False
      then have "ramp_loop x delay turns ids (handles @ [i], ?t) = (handles', s')"
        using False Cons.prems(1) by (auto simp: Let_def)
      from Cons.IH [OF this] Cons.prems(2,3) obtain k where k: "k \<le> length ids" "handles' = (handles @ [i]) @ take k ids"
        "pool_run x ?t s'" "ru_spawned s' = ru_spawned ?t @ take k ids" "ru_cancelled s' = ru_cancelled ?t"
        "ru_joined s' = ru_joined ?t" "ru_panicked s' = ru_panicked ?t"
        "k < length ids \<longrightarrow> rt_cancelled (turns (ids ! k)) \<or> (k > 0 \<and> delay \<noteq> None \<and> rt_pause_cancelled (turns (ids ! (k - 1))))"
        by auto
      with run show ?thesis
        by (intro exI [of _ "Suc k"]) (auto simp: nth_Cons' elim: rtranclp_trans)
    qed
  qed
qed simp

lemma join_handles_run:
  assumes "distinct handles" "set handles \<inter> set (ru_joined s) = {}" "set handles \<subseteq> set (ru_spawned s)"
  shows "pool_run x s (join_handles x joins handles s)" "ru_spawned (join_handles x joins handles s) = ru_spawned s"
    "ru_joined (join_handles x joins handles s) = ru_joined s @ handles"
    "ru_cancelled (join_handles x joins handles s) = ru_cancelled s"
    "ru_panicked (join_handles x joins handles s) = ru_panicked s @ filter (\<lambda>i. snd (joins i)) handles"
proof -
  have "pool_run x s (join_handles x joins handles s) \<and> ru_spawned (join_handles x joins handles s) = ru_spawned s \<and>
    ru_joined (join_handles x joins handles s) = ru_joined s @ handles \<and>
    ru_cancelled (join_handles x joins handles s) = ru_cancelled s \<and>
    ru_panicked (join_handles x joins handles s) = ru_panicked s @ filter (\<lambda>i. snd (joins i)) handles"
    using assms
  proof (induction handles arbitrary: s)
    case (Cons i handles)
    let ?t = "join_handle x i (snd (joins i)) (workers_do x (fst (joins i)) s)"
    have "join_handles x joins (i # handles) s = join_handles x joins handles ?t" by (simp add: join_handles_def)
    moreover have "pool_run x s ?t"
      using Cons.prems by (auto intro!: pool_run_step [OF _ pool_join] pool_run_step [OF _ pool_work])
    ultimately show ?case using Cons.IH [of ?t] Cons.prems by (auto elim: rtranclp_trans)
  qed (simp add: join_handles_def)
  then show "pool_run x s (join_handles x joins handles s)" "ru_spawned (join_handles x joins handles s) = ru_spawned s"
    "ru_joined (join_handles x joins handles s) = ru_joined s @ handles"
    "ru_cancelled (join_handles x joins handles s) = ru_cancelled s"
    "ru_panicked (join_handles x joins handles s) = ru_panicked s @ filter (\<lambda>i. snd (joins i)) handles" by blast+
qed

section \<open>Stages\<close>

declare open_loop.simps [simp del] close_loop.simps [simp del]

text \<open>The ids so far are used once each: the open ones in the order they were opened, the closed ones with
  their tokens cancelled.\<close>

definition stages_ok :: "('n, 'h) runner \<Rightarrow> 'h run_state \<Rightarrow> 'h stage_run \<Rightarrow> bool" where
  "stages_ok x s0 st \<longleftrightarrow> pool_run x s0 (sg_run st) \<and> ru_spawned (sg_run st) = [0..<sg_next_id st] \<and>
     mset (sg_closed st @ sg_open st) = mset [0..<sg_next_id st] \<and> sorted_wrt (<) (sg_open st) \<and>
     ru_cancelled (sg_run st) = sg_closed st \<and> ru_joined (sg_run st) = [] \<and> ru_panicked (sg_run st) = []"

lemma stages_ok_set: "stages_ok x s0 st \<Longrightarrow> set (sg_closed st) \<union> set (sg_open st) = {..<sg_next_id st}"
  by (metis atLeast_upt set_append set_mset_mset stages_ok_def)

lemma open_one_ok: "stages_ok x s0 st \<Longrightarrow> stages_ok x s0 (open_one x st)"
proof -
  assume ok: "stages_ok x s0 st"
  have "sg_next_id st \<notin> set (ru_spawned (sg_run st))" using ok by (simp add: stages_ok_def)
  then have "pool_run x s0 (spawn_session x (sg_next_id st) (sg_run st))"
    using ok by (auto simp: stages_ok_def intro: pool_run_step [OF _ pool_spawn])
  moreover have "\<forall>i\<in>set (sg_open st). i < sg_next_id st" using stages_ok_set [OF ok] by auto
  ultimately show ?thesis using ok by (simp add: stages_ok_def open_one_def sorted_wrt_append)
qed

lemma close_one_ok:
  assumes "stages_ok x s0 st" "sg_open st \<noteq> []"
  shows "stages_ok x s0 (close_one st)"
proof -
  have o: "sg_open st = butlast (sg_open st) @ [last (sg_open st)]" using assms(2) by simp
  have "mset (sg_closed st @ [last (sg_open st)]) + mset (butlast (sg_open st)) = mset (sg_closed st) + mset (sg_open st)"
    by (subst (3) o) (simp del: append_butlast_last_id)
  moreover have "sorted_wrt (<) (butlast (sg_open st))"
    using assms(1) o by (metis sorted_wrt_append stages_ok_def)
  moreover have "last (sg_open st) \<in> set (ru_spawned (sg_run st))"
    using assms stages_ok_set [of x s0 st] by (auto simp: stages_ok_def dest: last_in_set)
  ultimately show ?thesis
    using assms(1) by (auto simp: stages_ok_def close_one_def intro!: pool_run_step [OF _ pool_cancel])
qed

lemma open_loop_run:
  "sg_open (open_loop x wanted st) = sg_open st @ [sg_next_id st..<sg_next_id st + (wanted - length (sg_open st))] \<and>
   sg_closed (open_loop x wanted st) = sg_closed st \<and>
   sg_next_id (open_loop x wanted st) = sg_next_id st + (wanted - length (sg_open st)) \<and>
   (stages_ok x s0 st \<longrightarrow> stages_ok x s0 (open_loop x wanted st))"
proof (induction x wanted st rule: open_loop.induct)
  case (1 x wanted st)
  show ?case
  proof (cases "length (sg_open st) < wanted")
    case True
    then have "[sg_next_id st..<sg_next_id st + (wanted - length (sg_open st))] =
      sg_next_id st # [Suc (sg_next_id st)..<Suc (sg_next_id st) + (wanted - Suc (length (sg_open st)))]"
      by (subst upt_conv_Cons) (auto simp: Suc_diff_Suc)
    with 1 True open_one_ok [of x s0 st] show ?thesis
      by (subst (1 2 3 4) open_loop.simps) (auto simp: open_one_def)
  qed (subst (1 2 3 4) open_loop.simps, simp)
qed

lemma close_loop_run:
  "sg_open (close_loop wanted st) = take wanted (sg_open st) \<and> sg_next_id (close_loop wanted st) = sg_next_id st \<and>
   sg_closed (close_loop wanted st) = sg_closed st @ rev (drop wanted (sg_open st)) \<and>
   (stages_ok x s0 st \<longrightarrow> stages_ok x s0 (close_loop wanted st))"
proof (induction wanted st rule: close_loop.induct)
  case (1 wanted st)
  show ?case
  proof (cases "length (sg_open st) > wanted")
    case True
    then have ne: "sg_open st \<noteq> []" by auto
    then obtain os l where os: "sg_open st = os @ [l]" by (cases "sg_open st" rule: rev_cases) auto
    then have "length os \<ge> wanted" using True by simp
    with 1 True os close_one_ok [OF _ ne, of x s0] show ?thesis
      by (subst (1 2 3 4) close_loop.simps) (auto simp: close_one_def)
  qed (subst (1 2 3 4) close_loop.simps, simp)
qed

lemma stage_tick_run:
  assumes "stage_tick x elapsed st = Some st'" "stages_ok x s0 st"
  shows "stages_ok x s0 st'" "Some (length (sg_open st')) = stage_target (rx_config x) elapsed"
    "sg_open st' = take (length (sg_open st')) (sg_open st @ [sg_next_id st..<sg_next_id st'])"
    "sg_next_id st' = sg_next_id st + (length (sg_open st') - length (sg_open st))"
proof -
  from assms(1) obtain w where w: "stage_target (rx_config x) elapsed = Some w"
    and st': "st' = close_loop w (open_loop x w st)"
    by (auto simp: stage_tick_def split: option.splits)
  note o = open_loop_run [of x w st s0] and c = close_loop_run [of w "open_loop x w st" x s0]
  show "stages_ok x s0 st'" using o c assms(2) st' by simp
  have len: "length (sg_open st') = w" using o c st' by simp
  then show "Some (length (sg_open st')) = stage_target (rx_config x) elapsed" by (simp add: w)
  show "sg_open st' = take (length (sg_open st')) (sg_open st @ [sg_next_id st..<sg_next_id st'])"
    "sg_next_id st' = sg_next_id st + (length (sg_open st') - length (sg_open st))"
    using o c st' len by simp_all
qed

lemma stages_ok_work: "stages_ok x s0 st \<Longrightarrow> stages_ok x s0 (st\<lparr>sg_run := workers_do x evs (sg_run st)\<rparr>)"
  by (auto simp: stages_ok_def intro!: pool_run_step [OF _ pool_work])

text \<open>The number of connections opened while the wanted number goes through \<open>ws\<close>.\<close>

fun opened_along :: "nat \<Rightarrow> nat list \<Rightarrow> nat" where
  "opened_along n [] = 0"
| "opened_along n (w # ws) = (w - n) + opened_along w ws"

lemma stage_loop_run:
  assumes "stage_loop x ticks st = Some st'" "stages_ok x s0 st"
  shows "stages_ok x s0 st' \<and>
    sg_next_id st' = sg_next_id st + opened_along (length (sg_open st)) (map (\<lambda>(_, e). the (stage_target (rx_config x) e)) ticks) \<and>
    (ticks \<noteq> [] \<longrightarrow> Some (length (sg_open st')) = stage_target (rx_config x) (snd (last ticks)))"
  using assms
proof (induction x ticks st rule: stage_loop.induct)
  case (2 x evs elapsed ticks st)
  let ?st = "st\<lparr>sg_run := workers_do x evs (sg_run st)\<rparr>"
  from "2.prems"(1) obtain u where u: "stage_tick x elapsed ?st = Some u" "stage_loop x ticks u = Some st'"
    by (auto split: option.splits)
  note t = stage_tick_run [OF u(1) stages_ok_work [OF "2.prems"(2)]]
  then have "the (stage_target (rx_config x) elapsed) = length (sg_open u)" by (metis option.sel)
  with "2.IH" [OF u(1) u(2) t(1)] t show ?case by (cases ticks) (use u(2) in auto)
qed simp

lemma stage_loop_append:
  "stage_loop x (ticks @ ticks') st = (case stage_loop x ticks st of None \<Rightarrow> None | Some st \<Rightarrow> stage_loop x ticks' st)"
  by (induction x ticks st rule: stage_loop.induct) (simp_all split: option.split)

text \<open>\<open>stage_target\<close> adds durations that a configuration has already added without overflow.\<close>

lemma target_from_total:
  "start + total_duration stages \<le> duration_max \<Longrightarrow> \<exists>n. target_from v start stages elapsed = Some n"
proof (induction stages arbitrary: v start)
  case (Cons stage stages)
  then have "duration_add start (st_duration stage) = Some (start + st_duration stage)"
    by (simp add: duration_add_def total_duration_def)
  with Cons show ?case by (auto simp: target_from.simps Let_def total_duration_def)
qed (simp add: target_from.simps)

lemma stage_loop_total:
  assumes "total_duration (lc_stages (rx_config x)) \<le> duration_max"
  shows "\<exists>st'. stage_loop x ticks st = Some st'"
proof (induction ticks arbitrary: st)
  case (Cons tick ticks)
  obtain n where "stage_target (rx_config x) (snd tick) = Some n"
    using target_from_total [of 0 "lc_stages (rx_config x)" 0 "snd tick"] assms by (auto simp: stage_target_def target_at_def)
  with Cons show ?case by (cases tick) (simp add: stage_tick_def)
qed simp

end
