(* ===== verification/Run_Arrivals.thy ===== *)
theory Run_Arrivals
  imports Run_Pool
begin

text \<open>
  An arrival run (\<open>Runner::run_arrivals\<close> of \<open>src/runner.rs\<close>): the loop refines the pool, every arrival that was due is
  started or skipped, the arithmetic of the schedule in floating point neither stops the loop nor, for
  rates that a second can show, panics.
\<close>

section \<open>Arrivals\<close>

text \<open>Every arrival is started or skipped, a started session is open or joined, and the next arrival is due
  when the rate says.\<close>

definition arrivals_ok :: "('n, 'h) runner \<Rightarrow> arrivals \<Rightarrow> 'h run_state \<Rightarrow> 'h arrival_run \<Rightarrow> bool" where
  "arrivals_ok x arrivals s0 st \<longleftrightarrow> pool_run x s0 (an_run st) \<and>
     ru_spawned (an_run st) = [0..<arc_started (an_counts st)] \<and>
     mset (an_open st) + mset (ru_joined (an_run st)) = mset [0..<arc_started (an_counts st)] \<and>
     arc_started (an_counts st) + arc_skipped (an_counts st) = an_arrived st \<and>
     length (an_open st) \<le> max_open arrivals \<and> ru_cancelled (an_run st) = [] \<and>
     latency_view (ru_totals (an_run st)) = latency_view (ru_totals s0) \<and>
     (if an_arrived st = 0 then an_next st = rx_start x else arrival_due x arrivals (an_arrived st) = Some (an_next st))"

lemma observe_counts [simp]:
  "arc_started (observe i n c) = arc_started c" "arc_skipped (observe i n c) = arc_skipped c"
  by (simp_all add: observe_def Let_def)

lemma arrivals_ok_set:
  assumes "arrivals_ok x arrivals s0 st"
  shows "distinct (an_open st)" "set (an_open st) \<inter> set (ru_joined (an_run st)) = {}"
    "set (an_open st) \<subseteq> set (ru_spawned (an_run st))"
proof -
  have m: "mset (an_open st @ ru_joined (an_run st)) = mset [0..<arc_started (an_counts st)]"
    using assms by (simp add: arrivals_ok_def)
  then have "distinct (an_open st @ ru_joined (an_run st))" by (metis distinct_upt mset_eq_imp_distinct_iff)
  then show "distinct (an_open st)" "set (an_open st) \<inter> set (ru_joined (an_run st)) = {}" by auto
  show "set (an_open st) \<subseteq> set (ru_spawned (an_run st))"
    using mset_eq_setD [OF m] assms by (auto simp: arrivals_ok_def)
qed

lemma arrivals_ok_work: "arrivals_ok x arrivals s0 st \<Longrightarrow> arrivals_ok x arrivals s0 (st\<lparr>an_run := workers_do x evs (an_run st)\<rparr>)"
  by (auto simp: arrivals_ok_def intro: pool_run_step [OF _ pool_work])

lemma arrivals_ok_observe: "arrivals_ok x arrivals s0 st \<Longrightarrow> arrivals_ok x arrivals s0 (st\<lparr>an_counts := observe i n (an_counts st)\<rparr>)"
  by (simp add: arrivals_ok_def)

lemma join_open_ok:
  assumes "arrivals_ok x arrivals s0 st"
  shows "arrivals_ok x arrivals s0 (join_open x d st)"
proof (cases "fst d \<in> set (an_open st)")
  case True
  note set = arrivals_ok_set [OF assms]
  have "pool_run x s0 (add_session x (fst d) (snd d) (an_run st))"
    using True set assms by (intro pool_run_step [OF _ pool_count]) (auto simp: arrivals_ok_def)
  moreover have "mset (remove1 (fst d) (an_open st)) + mset (ru_joined (an_run st) @ [fst d]) =
      mset (an_open st) + mset (ru_joined (an_run st))"
    using True by (simp add: insert_DiffM)
  then have "mset (remove1 (fst d) (an_open st)) + mset (ru_joined (an_run st) @ [fst d]) = mset [0..<arc_started (an_counts st)]"
    using assms by (simp only: arrivals_ok_def)
  moreover have "length (remove1 (fst d) (an_open st)) \<le> max_open arrivals"
    using assms by (auto simp: length_remove1 arrivals_ok_def)
  ultimately show ?thesis using True assms by (simp add: arrivals_ok_def join_open_def del: mset_upt mset_remove1 mset_append)
qed (use assms in \<open>simp add: join_open_def\<close>)

lemma joins_open_ok: "arrivals_ok x arrivals s0 st \<Longrightarrow> arrivals_ok x arrivals s0 (fold (join_open x) ds st)"
  by (induction ds arbitrary: st) (simp_all add: join_open_ok)

lemma arrival_wake_ok: "arrivals_ok x arrivals s0 st \<Longrightarrow> arrivals_ok x arrivals s0 (arrival_wake x turn st)"
  unfolding arrival_wake_def Let_def by (intro joins_open_ok arrivals_ok_observe arrivals_ok_work)

lemma arrive_ok:
  assumes "arrivals_ok x arrivals s0 st" "arrival_due x arrivals (an_arrived st + 1) = Some due"
  shows "arrivals_ok x arrivals s0 ((arrive x arrivals now st)\<lparr>an_arrived := an_arrived st + 1, an_next := due\<rparr>)"
proof (cases "length (an_open st) \<ge> max_open arrivals")
  case False
  have "pool_run x s0 (spawn_session x (arc_started (an_counts st)) (an_run st))"
    using assms(1) by (intro pool_run_step [OF _ pool_spawn]) (auto simp: arrivals_ok_def)
  with False assms show ?thesis by (simp add: arrivals_ok_def arrive_def Let_def)
qed (use assms in \<open>simp add: arrivals_ok_def arrive_def\<close>)

lemma arrive_arrived [simp]: "an_arrived (arrive x arrivals now st) = an_arrived st" "an_next (arrive x arrivals now st) = an_next st"
  by (simp_all add: arrive_def Let_def)

section \<open>The arrival schedule\<close>

lemma of_exact_cases:
  assumes "a \<le> y" "representable a" "0 \<le> a"
  shows "of_exact y = PosInf \<or> (\<exists>v\<ge>a. of_exact y = Num v)"
  using f64.rnd_ge [OF assms(2,1)] assms(3) f64_max_exclusive_pos by (auto simp: of_exact_def Let_def)

lemma of_exact_small:
  assumes "0 \<le> y" "y \<le> 2 powi k" "0 \<le> k" "k \<le> 1000"
  shows "\<exists>v. of_exact y = Num v \<and> 0 \<le> v \<and> v \<le> 2 powi k \<and> v = round_f64 y"
proof -
  have v: "0 \<le> round_f64 y" "round_f64 y \<le> 2 powi k"
    using f64.rnd_ge [OF f64.exact_0 assms(1)] f64.rnd_le [OF representable_powi2 [OF assms(3)] assms(2)] by simp_all
  have "(2::rat) powi k < 2 powi 1024" using assms(4) by (simp only: powi2_less_iff)
  then have "\<not> f64_max_exclusive \<le> round_f64 y" "\<not> round_f64 y \<le> - f64_max_exclusive"
    using v f64_max_exclusive_pos(1) by (auto simp only: f64_max_exclusive_def not_le)
  with v show ?thesis by (auto simp: of_exact_def Let_def)
qed

lemma try_from_secs_big: "2 ^ 64 \<le> v \<Longrightarrow> try_from_secs_f64 (Num v) = None"
proof -
  assume v: "2 ^ 64 \<le> v"
  then have "of_int (2 ^ 64 * 1000000000) \<le> v * of_nat nanos_per_sec" by simp
  then have "2 ^ 64 * 1000000000 \<le> round_half_even (v * of_nat nanos_per_sec)" by (rule round_half_even_ge)
  then have "\<not> nat (round_half_even (v * of_nat nanos_per_sec)) \<le> duration_max" by simp
  with v show ?thesis by (simp add: Let_def)
qed

text \<open>No arrival past the \<open>2\<^sup>8\<^sup>5\<close>th is ever due: its time in seconds does not fit a \<open>Duration\<close>.\<close>

lemma arrival_due_bounded:
  assumes "ar_rate a = Num q" "0 < q" "q \<le> 1000000" "2 ^ 85 \<le> n"
  shows "arrival_due x a n = None"
proof -
  have "(2::rat) powi 85 \<le> of_nat n"
    using assms(4) by (metis of_nat_le_iff of_nat_numeral of_nat_power power_int_numeral)
  then consider "of_uint n = PosInf" | m where "of_uint n = Num m" "2 powi 85 \<le> m"
    using of_exact_cases [OF _ representable_powi2] by (fastforce simp: of_uint_def)
  then show ?thesis
  proof cases
    case 1
    with assms show ?thesis by (simp add: arrival_due_def)
  next
    case 2
    have "(2::rat) powi 64 * q \<le> 2 powi 64 * 2 powi 20" using assms(3) by simp
    also have "\<dots> \<le> 2 powi 85" by simp
    also note 2(2)
    finally have "2 powi 64 \<le> m / q" using assms(2) by (simp add: pos_le_divide_eq)
    then consider "of_exact (m / q) = PosInf" | v where "of_exact (m / q) = Num v" "2 powi 64 \<le> v"
      using of_exact_cases [OF _ representable_powi2] by fastforce
    then show ?thesis
      using 2(1) assms(1,2) try_from_secs_big by cases (auto simp: arrival_due_def)
  qed
qed

text \<open>Later arrivals are due later, rounding included.\<close>

lemma of_exact_mono:
  assumes "x \<le> y" "of_exact x = Num a" "of_exact y = Num b"
  shows "a \<le> b"
  using round_f64_mono [OF assms(1)] assms(2,3) by (auto simp: of_exact_def Let_def split: if_splits)

lemma try_from_secs_mono:
  assumes "a \<le> b" "try_from_secs_f64 (Num a) = Some d" "try_from_secs_f64 (Num b) = Some e"
  shows "d \<le> e"
  using assms round_half_even_mono [of "a * of_nat nanos_per_sec" "b * of_nat nanos_per_sec"]
  by (auto simp: Let_def nat_mono mult_right_mono split: if_splits)

lemma arrival_due_mono:
  assumes q: "ar_rate a = Num q" "0 < q" and "n \<le> m" "arrival_due x a n = Some d" "arrival_due x a m = Some e"
  shows "d \<le> e"
proof -
  have num: "\<exists>r v. of_uint k = Num r \<and> of_exact (r / q) = Num v \<and> try_from_secs_f64 (Num v) = Some (t - rx_start x) \<and> rx_start x \<le> t"
    if due: "arrival_due x a k = Some t" for k t
  proof (cases "of_uint k")
    case (Num r)
    with due q show ?thesis by (cases "of_exact (r / q)") (auto simp: arrival_due_def)
  qed (use due q in \<open>auto simp: arrival_due_def split: if_splits\<close>)
  obtain r v where r: "of_uint n = Num r" "of_exact (r / q) = Num v" "try_from_secs_f64 (Num v) = Some (d - rx_start x)"
    "rx_start x \<le> d" using num [OF assms(4)] by blast
  obtain r' v' where r': "of_uint m = Num r'" "of_exact (r' / q) = Num v'" "try_from_secs_f64 (Num v') = Some (e - rx_start x)"
    "rx_start x \<le> e" using num [OF assms(5)] by blast
  have "r \<le> r'" using of_exact_mono [of "of_nat n" "of_nat m"] r(1) r'(1) assms(3) by (simp add: of_uint_def)
  then have "v \<le> v'" using of_exact_mono [OF _ r(2) r'(2)] q(2) by (simp add: divide_right_mono)
  from try_from_secs_mono [OF this r(3) r'(3)] r(4) r'(4) show ?thesis by simp
qed

lemma arrival_due_0: "ar_rate a = Num q \<Longrightarrow> 0 < q \<Longrightarrow> arrival_due x a 0 = Some (rx_start x)"
  using of_uint_num [of 0] by (simp add: arrival_due_def of_exact_0 round_f64_def Let_def round_half_even_of_int [of 0, simplified])

text \<open>Rates from one session in \<open>2\<^sup>6\<^sup>2\<close> seconds up and runs of up to \<open>2\<^sup>3\<^sup>2\<close> seconds: the arrival after one inside the run
  has a due time.\<close>

lemma arrival_due_next:
  assumes q: "ar_rate a = Num q" "1 / 2 ^ 62 \<le> q" "q \<le> 1000000"
    and "lc_duration (rx_config x) \<le> 2 ^ 32 * nanos_per_sec" "arrival_due x a n = Some d" "d < end_of_run x"
  shows "\<exists>e. arrival_due x a (n + 1) = Some e"
proof -
  have pos: "0 < q" using q(2) by (rule less_le_trans [rotated]) simp
  obtain r v where r: "of_uint n = Num r" and v: "of_exact (r / q) = Num v"
    and t: "try_from_secs_f64 (Num v) = Some (d - rx_start x)"
  proof (cases "of_uint n")
    case (Num r)
    with assms(5) q pos that show thesis by (cases "of_exact (r / q)") (auto simp: arrival_due_def)
  qed (use assms(5) q pos in \<open>auto simp: arrival_due_def split: if_splits\<close>)
  have "v < 2 powi 33"
  proof (rule ccontr)
    assume "\<not> v < 2 powi 33"
    then have "of_int (2 ^ 33 * 1000000000) \<le> v * of_nat nanos_per_sec" by simp
    then have "2 ^ 33 * 1000000000 \<le> round_half_even (v * of_nat nanos_per_sec)" by (rule round_half_even_ge)
    then have "2 ^ 33 * 1000000000 \<le> d - rx_start x" using t by (auto simp: Let_def split: if_splits)
    with assms(4,6) show False by (simp add: end_of_run_def)
  qed
  then have "r / q < 2 powi 33" using of_exact_cases [of "2 powi 33" "r / q"] v representable_powi2 [of 33] by fastforce
  then have rq: "r < 2 powi 33 * q" using pos by (simp add: pos_divide_less_eq)
  also have "\<dots> \<le> 2 powi 33 * 1000000" using q(3) by simp
  also have "\<dots> < 2 powi 53" by simp
  finally have "r < 2 powi 53" .
  then have "\<not> 2 powi 53 \<le> (of_nat n :: rat)"
    using of_exact_cases [of "2 powi 53" "of_nat n"] r representable_powi2 [of 53] by (fastforce simp: of_uint_def)
  then have "(of_nat n :: rat) < of_nat (2 ^ 53)" by simp
  then have n: "n + 1 \<le> 2 ^ 53" by (simp only: of_nat_less_iff)
  have exact: "of_uint k = Num (of_nat k)" if "k \<le> 2 ^ 53" for k
    using of_uint_num(1) [of k] round_f64_exact [OF representable_of_nat [OF that]] that by simp
  have r_n: "r = of_nat n" using exact [of n] n r by simp
  have "1 / q \<le> 1 / (1 / 2 ^ 62)" using q(2) by (intro divide_left_mono) (use pos in simp_all)
  moreover have "of_nat (n + 1) / q = r / q + 1 / q" by (simp add: r_n add_divide_distrib)
  ultimately have "of_nat (n + 1) / q \<le> 2 powi 63" using \<open>r / q < 2 powi 33\<close> by simp
  moreover have "0 \<le> of_nat (n + 1) / q" using pos by simp
  ultimately obtain w where w: "of_exact (of_nat (n + 1) / q) = Num w" "0 \<le> w" "w \<le> 2 powi 63"
    using of_exact_small [of "of_nat (n + 1) / q" 63] by fastforce
  have "w * of_nat nanos_per_sec \<le> of_int (2 ^ 63 * 1000000000)" using w(3) by simp
  then have "round_half_even (w * of_nat nanos_per_sec) \<le> 2 ^ 63 * 1000000000" by (rule round_half_even_le)
  then have "try_from_secs_f64 (Num w) \<noteq> None" using w(2) by (simp add: Let_def)
  with w(1) exact [OF n] q(1) pos show ?thesis by (auto simp: arrival_due_def)
qed

lemma next_is_due:
  assumes "arrivals_ok x a s0 st" "ar_rate a = Num q" "0 < q"
  shows "arrival_due x a (an_arrived st) = Some (an_next st)"
  using assms arrival_due_0 [OF assms(2,3), of x] by (auto simp: arrivals_ok_def split: if_splits)

text \<open>The arrivals so far were due by \<open>now\<close>, and inside the run.\<close>

definition due_by :: "('n, 'h) runner \<Rightarrow> arrivals \<Rightarrow> instant \<Rightarrow> 'h arrival_run \<Rightarrow> bool" where
  "due_by x a now st \<longleftrightarrow> (\<forall>n<an_arrived st. \<exists>d. arrival_due x a n = Some d \<and> d \<le> now \<and> d < end_of_run x)"

text \<open>Rates and durations for which the schedule always has a next time.\<close>

definition schedulable :: "('n, 'h) runner \<Rightarrow> arrivals \<Rightarrow> bool" where
  "schedulable x a \<longleftrightarrow> f64_le (Num (1 / 2 ^ 62)) (ar_rate a) \<and> lc_duration (rx_config x) \<le> 2 ^ 32 * nanos_per_sec"

text \<open>The catch-up loop returns for every rate that is accepted, and panics only at rates too low to schedule.\<close>

lemma catch_up_run:
  assumes "check_values a = Inr ()" "arrivals_ok x a s0 st" "due_by x a late st" "now \<le> late"
  shows "(catch_up x a now st = Some (Inl ()) \<and> \<not> schedulable x a) \<or>
    (\<exists>st'. catch_up x a now st = Some (Inr st') \<and> arrivals_ok x a s0 st' \<and> due_by x a late st' \<and>
      (now < an_next st' \<or> end_of_run x \<le> an_next st'))"
proof -
  obtain q where q: "ar_rate a = Num q" "0 < q" "q \<le> 1000000" by (rule check_values_rate [OF assms(1)])
  show ?thesis using assms(2,3)
  proof (induction "2 ^ 85 - an_arrived st" arbitrary: st rule: less_induct)
    case less
    note next_due = next_is_due [OF less.prems(1) q(1,2)]
    show ?case
    proof (cases "an_next st \<le> now \<and> an_next st < end_of_run x")
      case True
      show ?thesis
      proof (cases "arrival_due x a (an_arrived st + 1)")
        case None
        then have "\<not> schedulable x a"
          using arrival_due_next [OF q(1) _ q(3) _ next_due] True q(1) by (auto simp: schedulable_def f64_le_def f64_eq_def)
        moreover have "catch_up x a now st = Some (Inl ())" using True None by (subst catch_up.simps) (simp add: Let_def)
        ultimately show ?thesis by blast
      next
        case (Some due)
        let ?st = "(arrive x a now st)\<lparr>an_arrived := an_arrived st + 1, an_next := due\<rparr>"
        have "an_arrived st + 1 < 2 ^ 85" using arrival_due_bounded [OF q, of "an_arrived st + 1" x] Some by force
        moreover have "due_by x a late ?st" using less.prems(2) next_due True assms(4) by (auto simp: due_by_def less_Suc_eq)
        moreover have "catch_up x a now st = catch_up x a now ?st" using True Some by (subst catch_up.simps) (simp add: Let_def)
        ultimately show ?thesis using less.hyps [of ?st] arrive_ok [OF less.prems(1) Some] by simp
      qed
    qed (subst catch_up.simps, use less.prems in auto)
  qed
qed

section \<open>The states of an arrival run\<close>

inductive arrivals_at :: "('n, 'h) runner \<Rightarrow> arrivals \<Rightarrow> 'h run_state \<Rightarrow> instant \<Rightarrow> 'h arrival_run \<Rightarrow> bool" for x a s where
  at_start: "arrivals_at x a s (rx_start x) (arrivals_start x s)"
| at_turn: "arrivals_at x a s now st \<Longrightarrow> now \<le> tu_now turn \<Longrightarrow> arrival_step x a turn st = Arrivals_again st' \<Longrightarrow>
    arrivals_at x a s (tu_now turn) st'"

definition run_fresh :: "'h run_state \<Rightarrow> bool" where
  "run_fresh s \<longleftrightarrow> ru_spawned s = [] \<and> ru_cancelled s = [] \<and> ru_joined s = [] \<and> ru_panicked s = []"

lemma join_open_sel [simp]:
  "an_arrived (join_open x d st) = an_arrived st" "an_next (join_open x d st) = an_next st"
  "an_counts (join_open x d st) = an_counts st"
  by (simp_all add: join_open_def)

lemma arrival_wake_sel [simp]:
  "an_arrived (arrival_wake x turn st) = an_arrived st" "an_next (arrival_wake x turn st) = an_next st"
proof -
  have "an_arrived (fold (join_open x) ds st) = an_arrived st \<and> an_next (fold (join_open x) ds st) = an_next st" for ds st
    by (induction ds arbitrary: st) simp_all
  then show "an_arrived (arrival_wake x turn st) = an_arrived st" "an_next (arrival_wake x turn st) = an_next st"
    by (simp_all add: arrival_wake_def Let_def)
qed

lemma due_by_later: "due_by x a late st \<Longrightarrow> late \<le> later \<Longrightarrow> an_arrived st' = an_arrived st \<Longrightarrow> due_by x a later st'"
  by (fastforce simp: due_by_def)

text \<open>A turn does not hang, panics only at rates too low to schedule, and leaves the books in order and every
  due arrival handled.\<close>

lemma arrival_step_run:
  assumes "check_values a = Inr ()" "arrivals_ok x a s0 st" "due_by x a late st" "tu_now turn \<le> late"
  obtains st' where "arrival_step x a turn st = Arrivals_stop st'" "arrivals_ok x a s0 st'" "due_by x a late st'"
  | st' where "arrival_step x a turn st = Arrivals_again st'" "arrivals_ok x a s0 st'" "due_by x a late st'"
      "tu_now turn < an_next st' \<or> end_of_run x \<le> an_next st'"
  | "arrival_step x a turn st = Arrivals_panic" "\<not> schedulable x a"
proof (cases "tu_cancelled turn")
  case True
  then show ?thesis using that(1) [of st] assms by (simp add: arrival_step_def)
next
  case False
  let ?st = "arrival_wake x turn st"
  have ok: "arrivals_ok x a s0 ?st" by (rule arrival_wake_ok [OF assms(2)])
  have due: "due_by x a late ?st" by (rule due_by_later [OF assms(3)]) simp_all
  show ?thesis
  proof (cases "end_of_run x \<le> an_next ?st")
    case True
    show ?thesis
    proof (cases "tu_wait turn")
      case Wait_cancelled
      with False True ok due that(1) show ?thesis by (simp add: arrival_step_def Let_def)
    next
      case (Wait_joined evs i p)
      let ?j = "join_open x (i, p) (?st\<lparr>an_run := workers_do x evs (an_run ?st)\<rparr>)"
      have "arrivals_ok x a s0 ?j" using ok by (intro join_open_ok arrivals_ok_work)
      moreover have "due_by x a late ?j" using due by (simp add: due_by_def)
      ultimately show ?thesis
        using False True Wait_joined ok due that(1) [of ?st] that(2) [of ?j]
        by (cases "i \<in> set (an_open ?st)") (simp_all add: arrival_step_def Let_def)
    qed
  next
    case go: False
    from catch_up_run [OF assms(1) ok due assms(4)] show ?thesis
    proof (elim disjE exE conjE)
      assume "catch_up x a (tu_now turn) ?st = Some (Inl ())" "\<not> schedulable x a"
      then have "arrival_step x a turn st = Arrivals_panic" using go False by (simp add: arrival_step_def Let_def)
      with \<open>\<not> schedulable x a\<close> that(3) show ?thesis by blast
    next
      fix st' assume c: "catch_up x a (tu_now turn) ?st = Some (Inr st')"
        and r: "arrivals_ok x a s0 st'" "due_by x a late st'" "tu_now turn < an_next st'"
      from c go False have "arrival_step x a turn st = Arrivals_again st'" by (simp add: arrival_step_def Let_def)
      with r that(2) show ?thesis by blast
    next
      fix st' assume c: "catch_up x a (tu_now turn) ?st = Some (Inr st')"
        and r: "arrivals_ok x a s0 st'" "due_by x a late st'" "end_of_run x \<le> an_next st'"
      from c go False have "arrival_step x a turn st = Arrivals_again st'" by (simp add: arrival_step_def Let_def)
      with r that(2) show ?thesis by blast
    qed
  qed
qed

lemma arrivals_start_ok:
  "run_fresh s \<Longrightarrow> arrivals_ok x a s (arrivals_start x s) \<and> due_by x a now (arrivals_start x s)"
  by (simp add: arrivals_ok_def arrivals_start_def run_fresh_def due_by_def arrival_counts_default_def)

lemma arrivals_at_ok:
  assumes "arrivals_at x a s now st" "check_values a = Inr ()" "run_fresh s"
  shows "arrivals_ok x a s st \<and> due_by x a now st"
  using assms
proof (induction rule: arrivals_at.induct)
  case (at_turn now st turn st')
  then have "arrivals_ok x a s st" "due_by x a (tu_now turn) st" by (auto intro: due_by_later)
  with at_turn.prems(1) show ?case using order_refl
    by (cases rule: arrival_step_run) (use at_turn.hyps(3) in simp_all)
qed (simp add: arrivals_start_ok)

text \<open>The whole loop.\<close>

lemma arrival_loop_run:
  assumes "check_values a = Inr ()" "arrivals_ok x a s0 st" "due_by x a late st" "\<forall>turn\<in>set turns. tu_now turn \<le> late"
  shows "(arrival_loop x a turns st = Arrivals_panic \<and> \<not> schedulable x a) \<or>
    (\<exists>st'. arrival_loop x a turns st = Arrivals_stop st' \<and> arrivals_ok x a s0 st')"
  using assms
proof (induction turns arbitrary: st)
  case (Cons turn turns)
  then have now: "tu_now turn \<le> late" by simp
  from Cons.prems(1-3) now show ?case
  proof (cases rule: arrival_step_run)
    case (2 st')
    with Cons.IH [of st'] Cons.prems show ?thesis by simp
  qed simp_all
qed simp

lemma arrival_loop_fresh:
  assumes "check_values a = Inr ()" "run_fresh s"
  shows "(arrival_loop x a turns (arrivals_start x s) = Arrivals_panic \<and> \<not> schedulable x a) \<or>
    (\<exists>st'. arrival_loop x a turns (arrivals_start x s) = Arrivals_stop st' \<and> arrivals_ok x a s st')"
proof -
  have "\<exists>late. \<forall>turn\<in>set turns. tu_now turn \<le> late"
    by (intro exI [of _ "Max (tu_now ` set turns)"]) auto
  with arrivals_start_ok [OF assms(2)] show ?thesis by (metis arrival_loop_run [OF assms(1)])
qed

text \<open>The joins after the loop.\<close>

lemma drain_loop_ok:
  assumes "drain_loop x stops st = Some st'" "arrivals_ok x a s0 st"
  shows "arrivals_ok x a s0 st' \<and> an_open st' = [] \<and> an_counts st' = an_counts st"
  using assms
proof (induction x stops st rule: drain_loop.induct)
  case (1 x stops st)
  show ?case
  proof (cases "an_open st = []")
    case False
    with "1.prems" obtain evs d rest where stops: "stops = (evs, d) # rest" by (cases stops) auto
    let ?st = "join_open x d (st\<lparr>an_run := workers_do x evs (an_run st)\<rparr>)"
    have "drain_loop x rest ?st = Some st'" using "1.prems"(1) False stops by simp
    moreover have "arrivals_ok x a s0 ?st" using "1.prems"(2) by (intro join_open_ok arrivals_ok_work)
    ultimately show ?thesis using "1.IH" [OF False stops, of evs d] by simp
  qed (use "1.prems" in simp)
qed

lemma drain_loop_ends:
  "set (an_open st) \<subseteq> (\<lambda>stop. fst (snd stop)) ` set stops \<Longrightarrow> distinct (an_open st) \<Longrightarrow> \<exists>st'. drain_loop x stops st = Some st'"
proof (induction stops arbitrary: st)
  case (Cons stop stops)
  let ?st = "join_open x (snd stop) (st\<lparr>an_run := workers_do x (fst stop) (an_run st)\<rparr>)"
  have "set (an_open ?st) \<subseteq> (\<lambda>stop. fst (snd stop)) ` set stops" "distinct (an_open ?st)"
    using Cons.prems by (auto simp: join_open_def)
  from Cons.IH [OF this] show ?case by (cases stop) auto
qed simp

end
