(* ===== verification/Run_Properties.thy ===== *)
theory Run_Properties
  imports Run_Loops Run_Arrivals
begin

text \<open>
  What a run of \<open>src/runner.rs\<close> promises: connections that follow the stages, arrivals that follow the rate,
  every task joined once, and a report that has what the tasks counted. The latency of a run is read from
  one shared recorder; when that happens is stated exactly.
\<close>

section \<open>A whole run as a run of the pool\<close>

lemma run_start_fresh: "run_fresh (run_start x cores world z)"
  by (simp add: run_fresh_def run_start_def)

lemma run_stages_pool:
  assumes "run_stages x ticks s = Some (handles, s')" "run_fresh s"
  shows "pool_run x s s' \<and> mset handles = mset (ru_spawned s') \<and> ru_joined s' = [] \<and> (\<exists>n. ru_spawned s' = [0..<n])"
proof -
  from assms(1) obtain st where st: "stage_loop x ticks \<lparr>sg_open = [], sg_closed = [], sg_next_id = 0, sg_run = s\<rparr> = Some st"
    and h: "handles = sg_closed st @ sg_open st" "s' = sg_run st"
    by (auto simp: run_stages_def)
  have "stages_ok x s \<lparr>sg_open = [], sg_closed = [], sg_next_id = 0, sg_run = s\<rparr>"
    using assms(2) by (simp add: stages_ok_def run_fresh_def)
  from stage_loop_run [OF st this] have "stages_ok x s st" by blast
  then show ?thesis unfolding h stages_ok_def by metis
qed

lemma run_arrivals_pool:
  assumes "run_arrivals x a turns stops s = Inr (counts, s')" "check_values a = Inr ()" "run_fresh s"
  shows "pool_run x s s' \<and> mset (ru_joined s') = mset (ru_spawned s') \<and> ru_spawned s' = [0..<arc_started counts]"
proof -
  obtain st st' where st: "arrivals_ok x a s st" "drain_loop x stops st = Some st'"
    and r: "counts = an_counts st'" "s' = absorb_recorder x (an_run st')"
    using arrival_loop_fresh [OF assms(2,3), of x turns] assms(1)
    by (auto simp: run_arrivals_def split: option.splits)
  have "arrivals_ok x a s st'" "an_open st' = []" using drain_loop_ok [OF st(2,1)] by blast+
  then show ?thesis unfolding r by (auto simp: arrivals_ok_def intro: pool_run_step [OF _ pool_absorb])
qed

definition arrivals_checked :: "('n, 'h) runner \<Rightarrow> bool" where
  "arrivals_checked x \<longleftrightarrow> (case lc_arrivals (rx_config x) of None \<Rightarrow> True | Some a \<Rightarrow> check_values a = Inr ())"

lemma run_load_pool:
  assumes "run_load x inp s = Inr (handles, connections, not_started, counts, s')" "run_fresh s" "arrivals_checked x"
  shows "pool_run x s s' \<and> mset handles + mset (ru_joined s') = mset (ru_spawned s') \<and> (\<exists>n. ru_spawned s' = [0..<n]) \<and>
    connections = of_nat (length (ru_spawned s')) + not_started"
proof -
  obtain delay where delay: "spawn_delay (lc_ramp_rate (rx_config x)) = Some delay"
    using assms(1) by (auto simp: run_load_def split: option.splits)
  show ?thesis
  proof (cases "lc_arrivals (rx_config x)")
    case (Some a)
    with assms(1) delay have r: "run_arrivals x a (ri_turns inp) (ri_stops inp) s = Inr (the counts, s')" "handles = []"
      "connections = of_nat (arc_started (the counts))" "not_started = 0"
      by (auto simp: run_load_def and_then_def split: sum.splits prod.splits)
    have "check_values a = Inr ()" using assms(3) Some by (simp add: arrivals_checked_def)
    from run_arrivals_pool [OF r(1) this assms(2)] r show ?thesis by auto
  next
    case None
    show ?thesis
    proof (cases "lc_stages (rx_config x) = []")
      case True
      let ?n = "lc_connections (rx_config x)"
      obtain s1 where l: "ramp_loop x delay (ri_ramp inp) [0..<?n] ([], s) = (handles, s1)"
        and r: "s' = workers_do x (ri_wait inp) s1" "connections = of_nat ?n" "not_started = of_nat (?n - length handles)"
        using assms(1) delay None True by (auto simp: run_load_def Let_def split: prod.splits)
      have "set [0..<?n] \<inter> set (ru_spawned s) = {}" using assms(2) by (simp add: run_fresh_def)
      from ramp_loop_run [OF l distinct_upt this] obtain k where k0: "k \<le> length [0..<?n]" "handles = [] @ take k [0..<?n]"
        "pool_run x s s1" "ru_spawned s1 = ru_spawned s @ take k [0..<?n]" "ru_joined s1 = ru_joined s" by blast
      then have k: "k \<le> ?n" "handles = [0..<k]" "pool_run x s s1" "ru_spawned s1 = [0..<k]" "ru_joined s1 = []"
        using assms(2) by (simp_all add: run_fresh_def)
      have "pool_run x s s'" unfolding r using k(3) by (rule pool_run_step [OF _ pool_work])
      moreover have "connections = of_nat (length (ru_spawned s')) + not_started"
        unfolding r using k by (simp flip: of_nat_add)
      ultimately show ?thesis unfolding r using k by auto
    next
      case False
      with assms(1) delay None have r: "run_stages x (ri_ticks inp) s = Some (handles, s')" "connections = of_nat (length handles)"
        "not_started = 0"
        by (auto simp: run_load_def split: option.splits)
      from run_stages_pool [OF r(1) assms(2)] have "pool_run x s s'" "mset handles = mset (ru_spawned s')" "ru_joined s' = []"
        "\<exists>n. ru_spawned s' = [0..<n]" by blast+
      moreover from this(2) have "length handles = length (ru_spawned s')" by (rule mset_eq_length)
      ultimately show ?thesis using r by simp
    qed
  qed
qed

lemma drive_pool:
  assumes "drive x inp live world = Inr (r, s, live')" "arrivals_checked x"
  obtains z n where "totals_new (rx_hdr x) = Some z" "pool_run x (run_start x (ri_cores inp) world z) s"
    "ru_spawned s = [0..<n]" "mset (ru_joined s) = mset (ru_spawned s)" "ro_totals r = ru_totals s"
    "ro_connections r = of_nat (length (ru_spawned s)) + ro_not_started r"
proof -
  obtain z handles s1 where z: "totals_new (rx_hdr x) = Some z"
    and l: "run_load x inp (run_start x (ri_cores inp) world z) = Inr (handles, ro_connections r, ro_not_started r, ro_arrivals r, s1)"
    and s: "s = join_handles x (ri_joins inp) handles s1" and t: "ro_totals r = ru_totals s"
    using assms(1)
    by (cases "totals_new (rx_hdr x)"; cases "run_load x inp (run_start x (ri_cores inp) world (the (totals_new (rx_hdr x))))")
      (auto simp: drive_def Let_def)
  from run_load_pool [OF l run_start_fresh assms(2)] obtain n where
    p: "pool_run x (run_start x (ri_cores inp) world z) s1" "mset (handles @ ru_joined s1) = mset [0..<n]"
    "ru_spawned s1 = [0..<n]" "ro_connections r = of_nat (length (ru_spawned s1)) + ro_not_started r" by auto
  have "distinct (handles @ ru_joined s1)" using mset_eq_imp_distinct_iff [OF p(2)] by simp
  moreover have "set handles \<subseteq> set (ru_spawned s1)" using mset_eq_setD [OF p(2)] p(3) by auto
  ultimately have j: "pool_run x s1 s" "ru_spawned s = ru_spawned s1" "ru_joined s = ru_joined s1 @ handles"
    unfolding s by (auto intro!: join_handles_run)
  show ?thesis
    using that [OF z rtranclp_trans [OF p(1) j(1)], of n] p j t by (simp add: add.commute)
qed

lemma run_start_pool_ok:
  assumes "totals_new (rx_hdr x) = Some z" "lm_shards (wd_live world) \<noteq> []"
  shows "pool_ok c (live_total c (wd_live world)) 0 (run_start x cores world z)"
proof -
  have "total_of c z = 0" using assms(1) by (cases c) (auto simp: totals_new_def split: option.splits)
  with assms(2) show ?thesis by (simp add: pool_ok_def run_start_def)
qed

section \<open>Properties\<close>

text \<open>C13: a run reports exactly what its connections counted. However the connections start (all at once, on a
  ramp, by stages or by arrivals) and whatever they do meanwhile, each is joined exactly once; messages,
  bytes, reconnects, skipped frames and errors in the totals are what the live counters gained during the
  run, less what tasks that panicked had counted; and every connection attempted was started or is
  reported as not started.\<close>

theorem run_totals_match_live:
  assumes "drive x inp live world = Inr (r, s, live')" "arrivals_checked x" "lm_shards (wd_live world) \<noteq> []"
  shows "total_of c (ro_totals r) + (\<Sum>i\<in>set (ru_panicked s). own_of c (ru_ws s i)) =
      shard_of c (live_snapshot (wd_live (ru_world s))) - shard_of c (live_snapshot (wd_live world)) \<and>
    mset (ru_joined s) = mset [0..<length (ru_spawned s)] \<and>
    ro_connections r = of_nat (length (ru_spawned s)) + ro_not_started r"
proof -
  obtain z n where z: "totals_new (rx_hdr x) = Some z" and run: "pool_run x (run_start x (ri_cores inp) world z) s"
    and n: "ru_spawned s = [0..<n]" "mset (ru_joined s) = mset (ru_spawned s)"
    and r: "ro_totals r = ru_totals s" "ro_connections r = of_nat (length (ru_spawned s)) + ro_not_started r"
    by (rule drive_pool [OF assms(1,2)])
  have ok: "pool_ok c (live_total c (wd_live world)) 0 s"
    by (rule pool_run_ok [OF run run_start_pool_ok [OF z assms(3)]])
  have "set (ru_joined s) = set (ru_spawned s)" using n(2) by (rule mset_eq_setD)
  then have "(\<Sum>i\<in>set (ru_spawned s). own_of c (ru_ws s i)) =
      (\<Sum>i\<in>set (ru_joined s) - set (ru_panicked s). own_of c (ru_ws s i)) + (\<Sum>i\<in>set (ru_panicked s). own_of c (ru_ws s i))"
    using ok by (simp add: pool_ok_def sum.subset_diff)
  with ok r n show ?thesis by (simp add: pool_ok_def snapshot_totals)
qed

text \<open>A run of two connections: the first sends five bytes, the second seven.\<close>

definition sample_world :: "nat multiset world" where
  "sample_world = \<lparr>wd_live = live_new (Some 1), wd_latency = \<lambda>_. with_shards 1, wd_series = store_new 0 1\<rparr>"

definition multiset_hist :: "nat multiset interval_hist" where
  "multiset_hist = \<lparr>ih_new = Some {#}, ih_record = add_mset\<rparr>"

definition sample_runner :: "nat load_config \<Rightarrow> (nat, nat multiset) runner" where
  "sample_runner config = \<lparr>rx_config = config, rx_scenario = None, rx_hdr = values_hdr, rx_hist = multiset_hist,
     rx_time_seed = 7, rx_latency = 0, rx_start = 0\<rparr>"

definition sample_inputs :: "activity \<Rightarrow> (nat \<Rightarrow> activity \<times> bool) \<Rightarrow> run_inputs" where
  "sample_inputs waited joins =
     \<lparr>ri_ramp = \<lambda>_. \<lparr>rt_cancelled = False, rt_activity = [], rt_pause_cancelled = False\<rparr>, ri_ticks = [], ri_turns = [],
      ri_stops = [], ri_wait = waited, ri_joins = joins, ri_elapsed = 1000000000, ri_samples = [], ri_first_due = 0,
      ri_wakes = [], ri_windows = False, ri_capture = None, ri_compression = None, ri_cores = Some 1\<rparr>"

lemma sample_drive:
  assumes "lc_ramp_rate config = 0" "lc_arrivals config = None" "lc_stages config = []"
  shows "\<exists>r s z. drive (sample_runner config) (sample_inputs waited joins) None sample_world = Inr (r, s, None) \<and>
    totals_new values_hdr = Some z \<and>
    s = join_handles (sample_runner config) joins [0..<lc_connections config]
      (workers_do (sample_runner config) waited
        (snd (ramp_loop (sample_runner config) None (ri_ramp (sample_inputs waited joins)) [0..<lc_connections config]
          ([], run_start (sample_runner config) (Some 1) sample_world z)))) \<and> ro_totals r = ru_totals s"
proof -
  obtain z where z: "totals_new values_hdr = Some z" by (simp add: totals_new_def latency_histogram_def)
  let ?x = "sample_runner config"
  have all: "fst (ramp_loop ?x None (\<lambda>_. \<lparr>rt_cancelled = False, rt_activity = [], rt_pause_cancelled = False\<rparr>) ids (hs, s)) = hs @ ids" for ids hs s
    by (induction ids arbitrary: hs s) (simp_all add: Let_def)
  show ?thesis
    using z assms
    by (simp add: drive_def run_load_def spawn_delay_def Let_def sample_inputs_def sample_runner_def [of config] split_def
        all [unfolded sample_runner_def])
qed

lemma join_live [simp]: "wd_live (ru_world (join_session add x i p s)) = wd_live (ru_world s)"
  "wd_latency (ru_world (join_session add x i p s)) = wd_latency (ru_world s)"
  by (auto simp: join_session_def Let_def flush_books split: prod.split)

lemma workers_do_nothing [simp]: "workers_do x [] s = s"
  by (simp add: workers_do_def)

lemmas event_defs = run_step_def record_message_sent_def record_message_recv_def record_rtt_sample_def counters_def own_def
  update_action_def update_shard_def worker_new_def assign_shard_def

theorem run_totals_match_live_witness:
  "\<exists>r s. drive (sample_runner (sample_config\<lparr>lc_connections := 2\<rparr>))
       (sample_inputs [(0, Message_sent 5), (1, Message_sent 7)] (\<lambda>_. ([], False))) None sample_world = Inr (r, s, None) \<and>
     total_of C_bytes_sent (ro_totals r) = 12 \<and> mset (ru_joined s) = mset [0..<2]"
proof -
  let ?x = "sample_runner (sample_config\<lparr>lc_connections := 2\<rparr>)"
  let ?evs = "[(0, Message_sent 5), (1, Message_sent 7)]"
  obtain r s z where d: "drive ?x (sample_inputs ?evs (\<lambda>_. ([], False))) None sample_world = Inr (r, s, None)"
    and s: "s = join_handles ?x (\<lambda>_. ([], False)) [0..<2]
      (workers_do ?x ?evs (snd (ramp_loop ?x None (ri_ramp (sample_inputs ?evs (\<lambda>_. ([], False)))) [0..<2]
          ([], run_start ?x (Some 1) sample_world z))))"
    using sample_drive [of "sample_config\<lparr>lc_connections := 2\<rparr>" ?evs "\<lambda>_. ([], False)"]
    by (auto simp: sample_config_def)
  have two: "[0..<2] = [0, 1::nat]" by (simp add: upt_rec)
  have "ru_panicked s = []" "ru_spawned s = [0, 1]"
    unfolding s two by (simp_all add: join_handles_def sample_inputs_def Let_def run_start_def)
  moreover have "shard_of C_bytes_sent (live_snapshot (wd_live (ru_world s))) = 12"
    unfolding s two
    by (simp add: join_handles_def join_handle_def sample_inputs_def Let_def run_start_def workers_do_def event_defs
        spawn_session_def create_session_def session_new_def with_interval_def sample_runner_def sample_config_def sample_world_def
        live_new_def live_snapshot_def add_shard_def shard_zero_def numeral_2_eq_2)
  moreover have "shard_of C_bytes_sent (live_snapshot (wd_live sample_world)) = 0"
    by (simp add: sample_world_def live_new_def live_snapshot_def add_shard_def shard_zero_def numeral_2_eq_2)
  ultimately show ?thesis
    using run_totals_match_live [OF d, of C_bytes_sent] d two
    by (auto simp: arrivals_checked_def sample_runner_def sample_config_def sample_world_def live_new_def)
qed

text \<open>C17: a staged run has exactly the connections its profile asks for. Whatever the ticks so far, no stage target
  panics; after the next tick the number of open connections is the target of that moment, they are the ones
  open before, oldest first, followed by new ones; every closed one had its token cancelled; and the run has
  opened as many connections as the target rose in all, with worker ids 0, 1, 2 and so on, each handed on to
  be joined once.\<close>

theorem staged_run_follows_profile:
  assumes "run_fresh s" "total_duration (lc_stages (rx_config x)) \<le> duration_max"
  shows "\<exists>st st' opened. stage_loop x ticks \<lparr>sg_open = [], sg_closed = [], sg_next_id = 0, sg_run = s\<rparr> = Some st \<and>
    stage_loop x (ticks @ [(evs, elapsed)]) \<lparr>sg_open = [], sg_closed = [], sg_next_id = 0, sg_run = s\<rparr> = Some st' \<and>
    stage_target (rx_config x) elapsed = Some (length (sg_open st')) \<and>
    sg_open st' = take (length (sg_open st')) (sg_open st @ [sg_next_id st..<sg_next_id st']) \<and>
    run_stages x (ticks @ [(evs, elapsed)]) s = Some (sg_closed st' @ sg_open st', sg_run st') \<and>
    opened = opened_along 0 (map (\<lambda>(_, elapsed). the (stage_target (rx_config x) elapsed)) (ticks @ [(evs, elapsed)])) \<and>
    ru_cancelled (sg_run st') = sg_closed st' \<and> ru_spawned (sg_run st') = [0..<opened] \<and>
    mset (sg_closed st' @ sg_open st') = mset [0..<opened]"
proof -
  let ?init = "\<lparr>sg_open = [], sg_closed = [], sg_next_id = 0, sg_run = s\<rparr>"
  obtain st where st: "stage_loop x ticks ?init = Some st" using stage_loop_total [OF assms(2)] by blast
  have ok0: "stages_ok x s ?init" using assms(1) by (simp add: stages_ok_def run_fresh_def)
  let ?st = "st\<lparr>sg_run := workers_do x evs (sg_run st)\<rparr>"
  obtain st' where st': "stage_loop x (ticks @ [(evs, elapsed)]) ?init = Some st'" using stage_loop_total [OF assms(2)] by blast
  then have tick: "stage_tick x elapsed ?st = Some st'" using st by (simp add: stage_loop_append split: option.splits)
  have "stages_ok x s ?st" using stage_loop_run [OF st ok0] by (simp add: stages_ok_work)
  note t = stage_tick_run [OF tick this] and r = stage_loop_run [OF st' ok0]
  show ?thesis
  proof (rule exI [of _ st], rule exI [of _ st'], rule exI [of _ "sg_next_id st'"], intro conjI st st')
    show "stage_target (rx_config x) elapsed = Some (length (sg_open st'))" using t(2) by simp
    show "sg_open st' = take (length (sg_open st')) (sg_open st @ [sg_next_id st..<sg_next_id st'])" using t(3) by simp
    show "run_stages x (ticks @ [(evs, elapsed)]) s = Some (sg_closed st' @ sg_open st', sg_run st')"
      using st' by (simp add: run_stages_def)
    show "sg_next_id st' = opened_along 0 (map (\<lambda>(_, elapsed). the (stage_target (rx_config x) elapsed)) (ticks @ [(evs, elapsed)]))"
      using r by simp
  qed (use t(1) in \<open>simp_all add: stages_ok_def\<close>)
qed

theorem staged_run_follows_profile_witness:
  "\<exists>st. stage_loop (sample_runner (sample_config\<lparr>lc_stages := [\<lparr>st_duration = 4000000000, st_target = 2\<rparr>]\<rparr>))
       [([], 5000000000)] \<lparr>sg_open = [], sg_closed = [], sg_next_id = 0,
         sg_run = run_start (sample_runner sample_config) None sample_world (the (totals_new values_hdr))\<rparr> = Some st \<and>
     length (sg_open st) = 2 \<and> ru_spawned (sg_run st) = [0..<2]"
proof -
  let ?x = "sample_runner (sample_config\<lparr>lc_stages := [\<lparr>st_duration = 4000000000, st_target = 2\<rparr>]\<rparr>)"
  have stages: "lc_stages (rx_config ?x) = [\<lparr>st_duration = 4000000000, st_target = 2\<rparr>]"
    by (simp add: sample_runner_def)
  have "stage_target (rx_config ?x) 5000000000 = Some 2"
    by (simp add: sample_runner_def sample_config_def stage_target_def target_at_def target_from.simps duration_add_def)
  moreover have "run_fresh (run_start (sample_runner sample_config) None sample_world (the (totals_new values_hdr)))"
    by (rule run_start_fresh)
  note staged_run_follows_profile [OF this, of ?x "[]" "[]" 5000000000]
  ultimately show ?thesis by (auto simp: stages total_duration_def)
qed

text \<open>C18: arrivals follow the rate exactly. After every turn of the loop the arrivals handled are precisely those
  whose time on the schedule has come and lies inside the run, however late the wake-up; each was started or
  skipped; no more sessions are open than \<open>--max-connections\<close> allows; and every session started is either open
  or has been joined once.\<close>

theorem arrivals_on_schedule:
  assumes "check_values a = Inr ()" "run_fresh s" "arrivals_at x a s now st" "now \<le> tu_now turn"
    "arrival_step x a turn st = Arrivals_again st'"
  shows "{n. \<exists>d. arrival_due x a n = Some d \<and> d \<le> tu_now turn \<and> d < end_of_run x} = {..<an_arrived st'} \<and>
    arc_started (an_counts st') + arc_skipped (an_counts st') = an_arrived st' \<and> length (an_open st') \<le> max_open a \<and>
    mset (an_open st') + mset (ru_joined (an_run st')) = mset [0..<arc_started (an_counts st')]"
proof -
  obtain q where q: "ar_rate a = Num q" "0 < q" "q \<le> 1000000" by (rule check_values_rate [OF assms(1)])
  have "arrivals_ok x a s st" "due_by x a (tu_now turn) st"
    using arrivals_at_ok [OF assms(3,1,2)] assms(4) by (auto intro: due_by_later)
  then have "arrivals_ok x a s st' \<and> due_by x a (tu_now turn) st' \<and> (tu_now turn < an_next st' \<or> end_of_run x \<le> an_next st')"
    by (rule arrival_step_run [OF assms(1) _ _ order_refl]) (use assms(5) in simp_all)
  then have st': "arrivals_ok x a s st'" "due_by x a (tu_now turn) st'"
    "tu_now turn < an_next st' \<or> end_of_run x \<le> an_next st'" by blast+
  have "n < an_arrived st'" if "arrival_due x a n = Some d" "d \<le> tu_now turn" "d < end_of_run x" for n d
  proof (rule ccontr)
    assume "\<not> n < an_arrived st'"
    then have "an_next st' \<le> d"
      using arrival_due_mono [OF q(1,2) _ next_is_due [OF st'(1) q(1,2)] that(1)] by simp
    with that st'(3) show False by simp
  qed
  with st'(2) have "{n. \<exists>d. arrival_due x a n = Some d \<and> d \<le> tu_now turn \<and> d < end_of_run x} = {..<an_arrived st'}"
    by (auto simp: due_by_def)
  with st'(1) show ?thesis by (simp add: arrivals_ok_def)
qed

definition sample_arrivals :: "f64 \<Rightarrow> arrivals" where
  "sample_arrivals rate = \<lparr>ar_rate = rate, ar_session_duration = 1000000000, ar_max_connections = Some 3\<rparr>"

definition sample_turn :: arrival_turn where
  "sample_turn = \<lparr>tu_cancelled = False, tu_activity = [], tu_observed = 0, tu_finished = [], tu_now = 0, tu_wait = Wait_cancelled\<rparr>"

lemma sample_arrivals_checked: "0 < q \<Longrightarrow> q \<le> 1000000 \<Longrightarrow> check_values (sample_arrivals (Num q)) = Inr ()"
  by (simp add: sample_arrivals_def check_values_def f64_le_def f64_eq_def MAX_ARRIVAL_RATE_def)

theorem arrivals_on_schedule_witness:
  "\<exists>st. arrival_step (sample_runner sample_config) (sample_arrivals (Num 2)) sample_turn
       (arrivals_start (sample_runner sample_config) (run_start (sample_runner sample_config) None sample_world (the (totals_new values_hdr)))) =
       Arrivals_again st \<and>
     0 < an_arrived st \<and> arc_started (an_counts st) + arc_skipped (an_counts st) = an_arrived st"
proof -
  let ?x = "sample_runner sample_config" and ?a = "sample_arrivals (Num 2)"
  let ?s = "run_start ?x None sample_world (the (totals_new values_hdr))"
  have a: "check_values ?a = Inr ()" by (rule sample_arrivals_checked) simp_all
  have sched: "schedulable ?x ?a"
    by (simp add: schedulable_def sample_arrivals_def f64_le_def sample_runner_def sample_config_def from_secs_def)
  note ok = arrivals_start_ok [OF run_start_fresh, of ?x ?a ?x None sample_world "the (totals_new values_hdr)"]
  have "an_next (arrivals_start ?x ?s) < end_of_run ?x"
    by (simp add: arrivals_start_def end_of_run_def sample_runner_def sample_config_def from_secs_def)
  then have no_stop: "arrival_step ?x ?a sample_turn (arrivals_start ?x ?s) \<noteq> Arrivals_stop st" for st
    by (auto simp: arrival_step_def sample_turn_def Let_def not_le split: option.splits sum.splits)
  obtain st where st: "arrival_step ?x ?a sample_turn (arrivals_start ?x ?s) = Arrivals_again st"
    using ok sched no_stop by (auto intro: arrival_step_run [OF a, of ?x ?s "arrivals_start ?x ?s" 0 sample_turn] simp: sample_turn_def)
  have at: "arrivals_at ?x ?a ?s 0 (arrivals_start ?x ?s)"
    using at_start [of ?x ?a ?s] by (simp add: sample_runner_def)
  have "0 < an_arrived st"
    using arrivals_on_schedule [OF a run_start_fresh at _ st] arrival_due_0 [of ?a 2 ?x]
    by (auto simp: set_eq_iff sample_arrivals_def sample_turn_def sample_runner_def sample_config_def end_of_run_def from_secs_def)
  with st show ?thesis using arrivals_on_schedule [OF a run_start_fresh at _ st] by (auto simp: sample_turn_def)
qed

text \<open>C28: how an arrival run ends. For every accepted arrival model and any sequence of wake-ups, catching up with
  the due arrivals takes finitely many steps: the loop never hangs. Given that the sessions still open after it
  stop, in any order, the run then returns with every session joined once, unless a time on the schedule
  overflowed and it panicked; and it panics only for a rate below one session in \<open>2\<^sup>6\<^sup>2\<close> seconds or a run of
  more than \<open>2\<^sup>3\<^sup>2\<close> seconds.\<close>

theorem arrival_run_completes:
  assumes "check_values a = Inr ()" "run_fresh s"
    "\<And>st. arrival_loop x a turns (arrivals_start x s) = Arrivals_stop st \<Longrightarrow> set (an_open st) \<subseteq> (\<lambda>stop. fst (snd stop)) ` set stops"
  shows "(run_arrivals x a turns stops s = Inl Run_panicked \<and> \<not> schedulable x a) \<or>
    (\<exists>counts s'. run_arrivals x a turns stops s = Inr (counts, s') \<and> mset (ru_joined s') = mset [0..<arc_started counts] \<and>
       ru_spawned s' = [0..<arc_started counts])"
proof (cases "arrival_loop x a turns (arrivals_start x s) = Arrivals_panic \<and> \<not> schedulable x a")
  case True
  then show ?thesis by (simp add: run_arrivals_def)
next
  case False
  then obtain st where st: "arrival_loop x a turns (arrivals_start x s) = Arrivals_stop st" "arrivals_ok x a s st"
    using arrival_loop_fresh [OF assms(1,2), of x turns] by blast
  obtain st' where st': "drain_loop x stops st = Some st'"
    using drain_loop_ends [OF assms(3) [OF st(1)] arrivals_ok_set(1) [OF st(2)]] by blast
  then have "run_arrivals x a turns stops s = Inr (an_counts st', absorb_recorder x (an_run st'))"
    using st(1) by (simp add: run_arrivals_def)
  moreover from run_arrivals_pool [OF this assms(1,2)]
  have "mset (ru_joined (absorb_recorder x (an_run st'))) = mset [0..<arc_started (an_counts st')]"
    "ru_spawned (absorb_recorder x (an_run st')) = [0..<arc_started (an_counts st')]" by metis+
  ultimately show ?thesis by blast
qed

lemma sample_due_1: "arrival_due (sample_runner sample_config) (sample_arrivals (Num 2)) 1 = Some 500000000"
proof -
  have "of_uint 1 = Num 1" using of_uint_num(1) [of 1] round_f64_exact [OF representable_of_nat [of 1]] by simp
  moreover have "round_half_even (of_int 500000000) = 500000000" by (rule round_half_even_of_int)
  ultimately show ?thesis by (simp add: arrival_due_def sample_arrivals_def of_exact_half sample_runner_def Let_def)
qed

text \<open>The first turn of the sample starts one session.\<close>

lemma sample_arrival_loop:
  "\<exists>st. arrival_loop (sample_runner sample_config) (sample_arrivals (Num 2)) [sample_turn]
     (arrivals_start (sample_runner sample_config) s) = Arrivals_stop st \<and> an_open st = [0]"
proof -
  let ?x = "sample_runner sample_config" and ?a = "sample_arrivals (Num 2)"
  let ?st = "arrival_wake ?x sample_turn (arrivals_start ?x s)"
  let ?st1 = "(arrive ?x ?a 0 ?st)\<lparr>an_arrived := 1, an_next := 500000000\<rparr>"
  have now: "tu_now sample_turn = 0" "\<not> tu_cancelled sample_turn" by (simp_all add: sample_turn_def)
  have st: "an_next (arrivals_start ?x s) = 0" "an_arrived (arrivals_start ?x s) = 0" "0 < end_of_run ?x"
    by (simp_all add: arrivals_start_def sample_runner_def end_of_run_def sample_config_def from_secs_def)
  have "catch_up ?x ?a 0 ?st = catch_up ?x ?a 0 ?st1"
    by (subst catch_up.simps) (simp add: st sample_due_1 [simplified] Let_def)
  also have "\<dots> = Some (Inr ?st1)" by (subst catch_up.simps) simp
  finally have "arrival_step ?x ?a sample_turn (arrivals_start ?x s) = Arrivals_again ?st1"
    using st by (simp add: arrival_step_def Let_def now)
  moreover have "an_open ?st1 = [0]"
    by (simp add: arrive_def max_open_def sample_arrivals_def arrival_wake_def sample_turn_def arrivals_start_def Let_def
        arrival_counts_default_def)
  ultimately show ?thesis by simp
qed

theorem arrival_run_completes_witness:
  "\<exists>counts s'. run_arrivals (sample_runner sample_config) (sample_arrivals (Num 2)) [sample_turn] [([], 0, False)]
     (run_start (sample_runner sample_config) None sample_world (the (totals_new values_hdr))) = Inr (counts, s') \<and>
   mset (ru_joined s') = mset [0..<arc_started counts]"
proof -
  let ?x = "sample_runner sample_config" and ?a = "sample_arrivals (Num 2)"
  let ?s = "run_start ?x None sample_world (the (totals_new values_hdr))"
  have "check_values ?a = Inr ()" by (rule sample_arrivals_checked) simp_all
  moreover have "schedulable ?x ?a"
    by (simp add: schedulable_def sample_arrivals_def f64_le_def sample_runner_def sample_config_def from_secs_def)
  moreover have "set (an_open st) \<subseteq> (\<lambda>stop. fst (snd stop)) ` set [([], 0, False)]"
    if "arrival_loop ?x ?a [sample_turn] (arrivals_start ?x ?s) = Arrivals_stop st" for st
    using sample_arrival_loop [of ?s] that by auto
  ultimately show ?thesis using arrival_run_completes [OF _ run_start_fresh] by meson
qed

text \<open>C40: an arrival rate can be accepted and then panic. Every positive rate up to \<open>2\<^sup>-\<^sup>6\<^sup>4\<close> sessions a second passes the
  checks, and the first arrival of its run computes a time that does not fit a \<open>Duration\<close>, so \<open>from_secs_f64\<close>
  panics instead of the rate being refused.\<close>

theorem tiny_arrival_rate_panics:
  assumes "ar_rate a = Num q" "0 < q" "q \<le> 1 / 2 ^ 64" "ar_session_duration a \<noteq> 0" "ar_max_connections a \<noteq> Some 0"
    "lc_duration (rx_config x) \<noteq> 0" "\<not> tu_cancelled turn" "rx_start x \<le> tu_now turn"
  shows "check_values a = Inr () \<and> arrival_step x a turn (arrivals_start x s) = Arrivals_panic"
proof
  have "q \<le> 1000000" using assms(3) by (rule order_trans) simp
  with assms show "check_values a = Inr ()" by (simp add: check_values_def f64_le_def f64_eq_def MAX_ARRIVAL_RATE_def)
  have one: "of_uint 1 = Num 1"
    using of_uint_num(1) [of 1] round_f64_exact [OF representable_of_nat [of 1]] by simp
  have "2 powi 64 \<le> 1 / q" using assms(2,3) by (simp add: field_simps)
  then have "try_from_secs_f64 (of_exact (1 / q)) = None"
    using of_exact_cases [of "2 powi 64" "1 / q"] representable_powi2 [of 64] try_from_secs_big by fastforce
  then have due: "arrival_due x a 1 = None" using assms(1,2) one by (simp add: arrival_due_def)
  have "catch_up x a (tu_now turn) (arrival_wake x turn (arrivals_start x s)) = Some (Inl ())"
    by (subst catch_up.simps) (use due assms in \<open>simp add: arrivals_start_def end_of_run_def Let_def\<close>)
  with assms show "arrival_step x a turn (arrivals_start x s) = Arrivals_panic"
    by (simp add: arrival_step_def Let_def arrivals_start_def end_of_run_def)
qed

theorem tiny_arrival_rate_panics_witness:
  "check_values (sample_arrivals (Num (1 / 2 ^ 64))) = Inr () \<and>
   arrival_step (sample_runner sample_config) (sample_arrivals (Num (1 / 2 ^ 64))) sample_turn
     (arrivals_start (sample_runner sample_config) (run_start (sample_runner sample_config) None sample_world (the (totals_new values_hdr)))) =
   Arrivals_panic"
  using tiny_arrival_rate_panics [of "sample_arrivals (Num (1 / 2 ^ 64))" "1 / 2 ^ 64" "sample_runner sample_config" sample_turn]
  by (simp add: sample_arrivals_def sample_runner_def sample_config_def sample_turn_def from_secs_def)

section \<open>When the latency recorder is read\<close>

lemma worker_step_latency: "w_latency (fst (worker_step H e s)) = w_latency (fst s)"
  by (cases e) (auto simp: w_record_handshake_def w_record_reconnect_def w_record_handshake_latency_def record_connection_failed_def
      record_connection_closed_def record_message_sent_def record_message_recv_def record_rtt_sample_def record_response_time_def
      record_unsolicited_frames_def record_chaos_def record_error_def flush_interval_def interval_sample_def counters_def
      own_def latency_def update_action_def Let_def split: option.split prod.split)

lemma run_steps_latency: "w_latency (fst (fold (run_step H) es s) i) = w_latency (fst s i)"
proof (induction es arbitrary: s)
  case (Cons e es)
  obtain w world where w: "worker_step H (snd e) (fst s (fst e), snd s) = (w, world)" by force
  then have "run_step H e s = ((fst s)(fst e := w), world)" "w_latency w = w_latency (fst s (fst e))"
    using worker_step_latency [of H "snd e" "(fst s (fst e), snd s)"] by (simp_all add: run_step_def)
  with Cons.IH show ?case by simp
qed simp

lemma workers_do_latency: "w_latency (ru_ws (workers_do x evs s) i) = w_latency (ru_ws s i)"
  using run_steps_latency [of "rx_hist x" _ "(ru_ws s, ru_world s)" i] by (simp add: workers_do_def split_def)

lemma join_latency: "w_latency (ru_ws (join_session add x j p s) i) = w_latency (ru_ws s i)"
proof -
  obtain w world where f: "flush_interval (rx_hist x) (ru_ws s j, ru_world s) = (w, world)" by force
  then show ?thesis using flush_books(4) [OF f] by (simp add: join_session_def Let_def)
qed

lemma pool_run_latency:
  assumes "pool_run x s t" "\<forall>i\<in>set (ru_spawned s). w_latency (ru_ws s i) = rx_latency x" "set (ru_joined s) \<subseteq> set (ru_spawned s)"
  shows "\<forall>i\<in>set (ru_spawned t). w_latency (ru_ws t i) = rx_latency x"
  using assms
proof (induction rule: rtranclp.induct)
  case (rtrancl_into_rtrancl s t u)
  then have t: "\<forall>i\<in>set (ru_spawned t). w_latency (ru_ws t i) = rx_latency x" by blast
  from rtrancl_into_rtrancl.hyps(2) show ?case
  proof cases
    case (pool_spawn i)
    with t show ?thesis
      by (auto simp: spawn_session_def create_session_def session_new_def with_scenario_def with_interval_def worker_new_def
          assign_shard_def Let_def split: option.split)
  next
    case (pool_work evs)
    with t show ?thesis by (simp add: workers_do_latency)
  next
    case (pool_cancel i)
    with t show ?thesis by (simp add: cancel_session_def)
  next
    case (pool_count i p)
    with t show ?thesis by (simp add: add_session_def join_latency)
  next
    case (pool_join i p)
    with t show ?thesis by (simp add: join_handle_def join_latency)
  next
    case pool_absorb
    with t show ?thesis by (simp add: absorb_recorder_def)
  qed
qed simp

lemma join_handle_totals:
  assumes "w_latency (ru_ws s i) = rx_latency x"
  shows "latency_view (ru_totals (join_handle x i False s)) =
      (if rx_latency x \<in> set (mt_absorbed (ru_totals s)) then latency_view (ru_totals s)
       else (lr_add_to (hdr_record_n (rx_hdr x)) (wd_latency (ru_world s) (rx_latency x)) (fst (latency_view (ru_totals s))),
             mt_absorbed (ru_totals s) @ [rx_latency x]))"
proof -
  obtain w world where f: "flush_interval (rx_hist x) (ru_ws s i, ru_world s) = (w, world)" by force
  with assms flush_books [OF f] show ?thesis
    by (simp add: join_handle_def join_session_def Let_def add_worker_def latency_worker_counts latency_recorder)
qed

lemma join_handle_panicked: "ru_totals (join_handle x i True s) = ru_totals s"
  by (simp add: join_handle_def join_session_def Let_def)

text \<open>Once the recorder has been read, no later join reads it again.\<close>

lemma join_handles_absorbed:
  assumes "rx_latency x \<in> set (snd (latency_view (ru_totals s)))" "\<forall>i\<in>set handles. w_latency (ru_ws s i) = rx_latency x"
  shows "latency_view (ru_totals (join_handles x joins handles s)) = latency_view (ru_totals s)"
  using assms
proof (induction handles arbitrary: s)
  case (Cons i handles)
  let ?t = "workers_do x (fst (joins i)) s"
  let ?u = "join_handle x i (snd (joins i)) ?t"
  have "latency_view (ru_totals ?u) = latency_view (ru_totals s)"
    using join_handle_totals [of ?t i x] Cons.prems
    by (cases "snd (joins i)") (simp_all add: workers_do_latency join_handle_panicked, simp add: latency_view_def)
  moreover have "w_latency (ru_ws ?u j) = rx_latency x" if "j \<in> set handles" for j
    using that Cons.prems(2) by (simp add: join_handle_def join_latency workers_do_latency)
  moreover have "join_handles x joins (i # handles) s = join_handles x joins handles ?u" by (simp add: join_handles_def)
  ultimately show ?case using Cons.IH [of ?u] Cons.prems(1) by simp
qed (simp add: join_handles_def)

lemma join_handle_total: "total_of c (ru_totals (join_handle x i False s)) = total_of c (ru_totals s) + own_of c (ru_ws s i)"
proof -
  obtain w world where f: "flush_interval (rx_hist x) (ru_ws s i, ru_world s) = (w, world)" by force
  then show ?thesis using flush_books(1) [OF f, of c] by (simp add: join_handle_def join_session_def Let_def total_of_worker)
qed

lemma one_reply:
  assumes "i \<in> set (ru_spawned s)" "i \<notin> set (ru_joined s)"
  shows "own_of C_recv (ru_ws (workers_do x [(i, Message_recv now bytes rtt)] s) i) = own_of C_recv (ru_ws s i) + 1"
  using assms
  by (cases rtt) (auto simp: workers_do_def run_step_def record_message_recv_def record_rtt_sample_def counters_def own_def
      latency_def interval_sample_def Let_def split: prod.split option.split)

text \<open>C27: the other runs read the shared latency recorder when the first of their connections has stopped. The
  handles are joined in order and the first join that returns adds the recorder to the totals; what the
  other connections record until they stop as well is in their counters but in no latency histogram of the
  totals, although the recorder is documented to be complete by then.\<close>

theorem latency_at_first_join:
  assumes "rx_latency x \<notin> set (mt_absorbed (ru_totals s))" "\<forall>i\<in>set (h # handles). w_latency (ru_ws s i) = rx_latency x"
    "\<not> snd (joins h)"
  shows "fst (latency_view (ru_totals (join_handles x joins (h # handles) s))) =
    lr_add_to (hdr_record_n (rx_hdr x)) (wd_latency (ru_world (workers_do x (fst (joins h)) s)) (rx_latency x))
      (fst (latency_view (ru_totals s)))"
proof -
  let ?t = "workers_do x (fst (joins h)) s"
  let ?u = "join_handle x h False ?t"
  have u: "latency_view (ru_totals ?u) = (lr_add_to (hdr_record_n (rx_hdr x)) (wd_latency (ru_world ?t) (rx_latency x))
      (fst (latency_view (ru_totals s))), mt_absorbed (ru_totals s) @ [rx_latency x])"
    using join_handle_totals [of ?t h x] assms(1,2) by (simp add: workers_do_latency)
  have "\<forall>i\<in>set handles. w_latency (ru_ws ?u i) = rx_latency x"
    using assms(2) by (simp add: join_handle_def join_latency workers_do_latency)
  from join_handles_absorbed [OF _ this, of joins] u assms(3) show ?thesis by (simp add: join_handles_def)
qed

theorem latency_at_first_join_witness:
  "\<exists>r s. drive (sample_runner (sample_config\<lparr>lc_connections := 2\<rparr>))
       (sample_inputs [] (\<lambda>i. (if i = 1 then [(1, Message_recv 10 4 (Some 1000000))] else [], False))) None sample_world =
       Inr (r, s, None) \<and>
     mt_messages_recv (ro_totals r) = 1 \<and> mt_rtt (ro_totals r) = {#}"
proof -
  let ?x = "sample_runner (sample_config\<lparr>lc_connections := 2\<rparr>)"
  let ?joins = "\<lambda>i::nat. (if i = 1 then [(1::nat, Message_recv 10 4 (Some 1000000))] else [], False)"
  obtain r s z where d: "drive ?x (sample_inputs [] ?joins) None sample_world = Inr (r, s, None)"
    and z: "totals_new values_hdr = Some z"
    and s: "s = join_handles ?x ?joins [0..<2] (snd (ramp_loop ?x None (ri_ramp (sample_inputs [] ?joins)) [0..<2]
          ([], run_start ?x (Some 1) sample_world z)))"
    and t: "ro_totals r = ru_totals s"
    using sample_drive [of "sample_config\<lparr>lc_connections := 2\<rparr>" "[]" ?joins] by (auto simp: sample_config_def)
  have two: "[0..<2] = [0, 1::nat]" by (simp add: upt_rec)
  define s1 where "s1 = snd (ramp_loop ?x None (ri_ramp (sample_inputs [] ?joins)) [0, 1] ([], run_start ?x (Some 1) sample_world z))"
  have s1: "s1 = spawn_session ?x 1 (spawn_session ?x 0 (run_start ?x (Some 1) sample_world z))"
    by (simp add: s1_def sample_inputs_def Let_def)
  have z': "mt_absorbed z = []" "mt_messages_recv z = 0" "mt_rtt z = {#}"
    using z by (auto simp: totals_new_def latency_histogram_def)
  have w: "w_latency (ru_ws s1 i) = rx_latency ?x" if "i \<in> {0, 1}" for i
    using that by (auto simp: s1 spawn_session_def create_session_def session_new_def with_interval_def worker_new_def assign_shard_def
        sample_runner_def sample_config_def Let_def)
  have "fst (latency_view (ru_totals s)) = lr_add_to (hdr_record_n values_hdr) (wd_latency (ru_world s1) 0) (fst (latency_view (ru_totals s1)))"
    unfolding s two s1_def [symmetric]
    using latency_at_first_join [of ?x s1 0 "[1]" ?joins] w z' by (simp add: s1 run_start_def sample_runner_def)
  also have "wd_latency (ru_world s1) 0 = new_recorder (Some 1)"
    by (simp add: s1 spawn_session_def create_session_def session_new_def worker_new_def assign_shard_def sample_runner_def
        sample_config_def Let_def run_start_def runner_recorder_def)
  finally have "mt_rtt (ru_totals s) = {#}"
    using z' by (simp add: latency_view_def lr_add_to_def s1 run_start_def new_recorder_def with_shards_def ah_add_to_def ah_new_def)
  moreover have "total_of C_recv (ru_totals s) = 1"
  proof -
    let ?u = "join_handle ?x 0 False s1"
    have "s = join_handle ?x 1 False (workers_do ?x [(1, Message_recv 10 4 (Some 1000000))] ?u)"
      unfolding s two s1_def [symmetric] by (simp add: join_handles_def)
    moreover have "own_of C_recv (ru_ws s1 i) = 0" if "i \<in> {0, 1}" for i using that by (auto simp: s1 spawn_own)
    moreover have "ru_ws ?u 1 = ru_ws s1 1" by (simp add: join_handle_def join_session_def Let_def split: prod.split)
    moreover have "1 \<in> set (ru_spawned ?u)" "1 \<notin> set (ru_joined ?u)" by (simp_all add: s1 run_start_def)
    moreover have "total_of C_recv (ru_totals s1) = 0" using z' by (simp add: s1 run_start_def)
    ultimately show ?thesis using one_reply [of 1 ?u ?x 10 4 "Some 1000000"] by (simp add: join_handle_total)
  qed
  ultimately show ?thesis using d t by auto
qed

text \<open>An arrival run loses no latency. Its sessions are joined as they stop, and only then is the shared
  recorder read, so handshake, round-trip and response time histograms of the totals hold every sample
  any session ever recorded.\<close>

theorem arrival_latencies_complete:
  assumes "run_arrivals x a turns stops s = Inr (counts, s')" "check_values a = Inr ()" "run_fresh s"
    "rx_latency x \<notin> set (mt_absorbed (ru_totals s))"
  shows "(mt_handshake (ru_totals s'), mt_rtt (ru_totals s'), mt_response (ru_totals s')) =
    lr_add_to (hdr_record_n (rx_hdr x)) (wd_latency (ru_world s') (rx_latency x))
      (mt_handshake (ru_totals s), mt_rtt (ru_totals s), mt_response (ru_totals s))"
proof -
  obtain st st' where st: "arrivals_ok x a s st" "drain_loop x stops st = Some st'"
    and s': "s' = absorb_recorder x (an_run st')"
    using arrival_loop_fresh [OF assms(2,3), of x turns] assms(1)
    by (auto simp: run_arrivals_def split: option.splits)
  have "latency_view (ru_totals (an_run st')) = latency_view (ru_totals s)"
    using drain_loop_ok [OF st(2,1)] by (simp add: arrivals_ok_def)
  with assms(4) latency_recorder [of "rx_hdr x" "wd_latency (ru_world (an_run st'))" "rx_latency x" "ru_totals (an_run st')"]
  show ?thesis by (simp add: s' absorb_recorder_def latency_view_def)
qed

theorem arrival_latencies_complete_witness:
  "\<exists>counts s' z. totals_new values_hdr = Some z \<and>
     run_arrivals (sample_runner sample_config) (sample_arrivals (Num 2)) [] []
       (run_start (sample_runner sample_config) (Some 1) sample_world z) = Inr (counts, s') \<and>
     (mt_handshake (ru_totals s'), mt_rtt (ru_totals s'), mt_response (ru_totals s')) =
       lr_add_to (hdr_record_n values_hdr) (new_recorder (Some 1)) (mt_handshake z, mt_rtt z, mt_response z)"
proof -
  let ?x = "sample_runner sample_config" and ?a = "sample_arrivals (Num 2)"
  obtain z where z: "totals_new values_hdr = Some z" by (simp add: totals_new_def latency_histogram_def)
  let ?s = "run_start ?x (Some 1) sample_world z"
  have r: "run_arrivals ?x ?a [] [] ?s = Inr (arrival_counts_default, absorb_recorder ?x ?s)"
    by (simp add: run_arrivals_def arrivals_start_def)
  have "rx_latency ?x \<notin> set (mt_absorbed (ru_totals ?s))"
    using z by (auto simp: run_start_def totals_new_def split: option.splits)
  with arrival_latencies_complete [OF r sample_arrivals_checked run_start_fresh] z r show ?thesis
    by (intro exI [of _ arrival_counts_default] exI [of _ "absorb_recorder ?x ?s"] exI [of _ z])
      (simp add: absorb_recorder_def run_start_def sample_runner_def runner_recorder_def)
qed

end
