(* ===== verification/Scenario_Run.thy ===== *)
theory Scenario_Run
  imports Run_Properties Slo
begin

text \<open>
  \<open>ScenarioExecutor\<close> of \<open>src/runner.rs\<close> and \<open>validate_phases\<close> of \<open>src/config.rs\<close>: an executor is built from a scenario file and a
  base configuration, runs the phases one after another with \<open>Runner\<close>, and reports the phases together and one
  by one with the verdict of every threshold. What a phase's run reads from its surroundings is an input,
  and so is whether the run-level token is cancelled when a phase would start.
\<close>

section \<open>Building an executor\<close>

text \<open>The payloads a phase may send: its own, or the configuration's, and those of its send actions.\<close>

definition phase_payloads :: "'n scenario_phase \<Rightarrow> 'n load_config \<Rightarrow> payload_config list" where
  "phase_payloads phase config =
     (let phase_payload = or_default (ph_payload phase) (lc_payload config)
      in phase_payload # concat (map (\<lambda>action. case action of
             Act_send payload _ _ _ _ \<Rightarrow> [or_default payload phase_payload]
           | _ \<Rightarrow> []) (ph_actions phase)))"

definition checks_replies :: "'n scenario_phase \<Rightarrow> bool" where
  "checks_replies phase = (\<exists>action\<in>set (ph_actions phase). case action of
     Act_send _ _ expect captures _ \<Rightarrow> expect \<noteq> None \<or> captures \<noteq> [] | _ \<Rightarrow> False)"

fun check_templates :: "string \<Rightarrow> data_set option \<Rightarrow> payload_config list \<Rightarrow> config_error + unit" where
  "check_templates phase data [] = Inr ()"
| "check_templates phase data (payload # payloads) =
     (case payload_template payload of
        None \<Rightarrow> check_templates phase data payloads
      | Some t \<Rightarrow> and_then (map_err (\<lambda>_. invalid_phase phase ''payload'') (check_data t data)) (\<lambda>_.
          check_templates phase data payloads))"

fun validate_phases :: "'n scenario_phase list \<Rightarrow> 'n load_config \<Rightarrow> config_error + unit" where
  "validate_phases [] config = Inr ()"
| "validate_phases (phase # phases) config =
     (if checks_replies phase \<and> \<not> awaits_replies (lc_mode config)
      then Inl (invalid_phase (ph_name phase) ''expect and capture'')
      else and_then (check_templates (ph_name phase) (lc_data config) (phase_payloads phase config)) (\<lambda>_.
           and_then (validate_reply_match (lc_reply_match config) (lc_mode config) (phase_payloads phase config)) (\<lambda>_.
             validate_phases phases config)))"

record 'n scenario_executor =
  sx_name :: string
  sx_slo :: slo_thresholds
  sx_action_slos :: "(string \<times> slo_thresholds) list"
  sx_phases :: "'n scenario_phase list"
  sx_targets :: "url_view list"
  sx_base :: "'n load_config"

text \<open>The scenario's data file, unless the configuration has one.\<close>

definition executor_base :: "'n env \<Rightarrow> 'n scenario_config \<Rightarrow> 'n load_config \<Rightarrow> config_error + 'n load_config" where
  "executor_base env scenario base =
     (case (lc_data base, sf_data scenario) of
        (None, Some path) \<Rightarrow>
          and_then (map_err (\<lambda>_. DataFile path) (load_data (env_json env) (env_metadata env) (env_read env) path))
            (\<lambda>d. Inr (base\<lparr>lc_data := Some d\<rparr>))
      | _ \<Rightarrow> Inr base)"

definition executor_new ::
    "'n env \<Rightarrow> 'n scenario_config \<Rightarrow> 'n load_config \<Rightarrow> string option \<Rightarrow> string option \<Rightarrow> build_error + 'n scenario_executor" where
  "executor_new env scenario base phase target_override =
     and_then (scenario_validate (env_url env) scenario) (\<lambda>_.
     and_then (validate_slo_mode (env_url env) scenario (lc_mode base) phase) (\<lambda>_.
     and_then (map_err Rejected (executor_base env scenario base)) (\<lambda>base.
     and_then (scenario_compile (env_url env) scenario phase) (\<lambda>phases.
     and_then (map_err Rejected (validate_phases phases base)) (\<lambda>_.
     and_then (map_err Rejected (scenario_slo scenario)) (\<lambda>slo.
     and_then (action_slos (env_url env) scenario phase) (\<lambda>actions.
     and_then (map_err Rejected (resolve_phase_targets (env_url env) scenario target_override phase)) (\<lambda>targets.
       Inr \<lparr>sx_name = sf_name scenario, sx_slo = slo, sx_action_slos = actions, sx_phases = phases,
            sx_targets = targets, sx_base = base\<rparr>))))))))"

section \<open>Running the phases\<close>

record phase_result =
  pr_name :: string
  pr_target :: url_view
  pr_connections :: nat
  pr_stages :: "stage list"
  pr_metrics :: aggregated_metrics
  pr_slo :: slo_evaluation

record 'h scenario_run =
  sr_totals :: "'h metrics_totals"
  sr_results :: "phase_result list"
  sr_elapsed :: duration
  sr_connections :: u64
  sr_not_started :: u64
  sr_time_series :: time_series
  sr_lag :: "'h lag_totals"
  sr_largest :: nat
  sr_arrivals :: "arrival_summary option"
  sr_compression :: "compression_summary option"
  sr_targets :: "(string \<times> url_view) list"
  sr_world :: "'h world"
  sr_live :: "live_state option"

text \<open>What a scenario's run is given: the histogram crate, the open file limit, and for each phase whether the
  token is cancelled when it would start or while its target is resolved, the start of its clock, the seed
  of the clock and the answers its run gets. The recorder of the \<open>k\<close>th phase is at address \<open>k\<close>.\<close>

record phase_inputs =
  pi_cancelled :: bool
  pi_cancelled_early :: bool
  pi_start :: instant
  pi_time_seed :: u64
  pi_run :: run_inputs

record 'h scenario_inputs =
  si_hdr :: "'h hdr"
  si_hist :: "'h interval_hist"
  si_rlimit :: "nat option"
  si_start :: instant
  si_phase :: "nat \<Rightarrow> phase_inputs"
  si_capture :: "capture_summary option"
  si_windows :: bool

definition phase_runner :: "'n scenario_executor \<Rightarrow> 'h scenario_inputs \<Rightarrow> nat \<Rightarrow> 'n scenario_phase \<Rightarrow> url_view \<Rightarrow> ('n, 'h) runner" where
  "phase_runner ex inp idx phase target =
     \<lparr>rx_config = run_phase_config (pi_time_seed (si_phase inp idx)) (set_target target (sx_base ex)) phase, rx_scenario = Some phase,
      rx_hdr = si_hdr inp, rx_hist = si_hist inp, rx_time_seed = pi_time_seed (si_phase inp idx), rx_latency = idx,
      rx_start = pi_start (si_phase inp idx)\<rparr>"

definition phase_report :: "'h scenario_inputs \<Rightarrow> 'n scenario_phase \<Rightarrow> 'h run_outcome \<Rightarrow> aggregated_metrics" where
  "phase_report inp phase r =
     with_generator (lag_summary (si_hdr inp) (si_windows inp) (ro_lag r)) (open_file_limit_for (si_rlimit inp) (ph_connections phase))
       (with_compression (ro_compression r)
         (with_arrivals (ph_arrivals phase) (ro_arrivals r)
           (with_time_series (ro_time_series r)
             (with_not_started (ro_not_started r)
               (totals_finish (si_hdr inp) (ro_elapsed r) (ro_connections r) (ro_totals r))))))"

definition add_phase_arrivals :: "arrival_summary option \<Rightarrow> arrival_summary option \<Rightarrow> arrival_summary option" where
  "add_phase_arrivals phase all =
     (case phase of None \<Rightarrow> all | Some p \<Rightarrow> (case all of Some a \<Rightarrow> Some (add_phase p a) | None \<Rightarrow> Some p))"

definition compression_zero :: compression_summary where
  "compression_zero = \<lparr>cc_offered = 0, cc_negotiated = 0, cc_bytes_sent = 0, cc_wire_bytes_sent = 0, cc_bytes_recv = 0,
     cc_wire_bytes_recv = 0\<rparr>"

definition add_phase_compression :: "compression_summary option \<Rightarrow> compression_summary option \<Rightarrow> compression_summary option" where
  "add_phase_compression phase all =
     (case phase of None \<Rightarrow> all | Some p \<Rightarrow> Some (add_compression p (or_default all compression_zero)))"

text \<open>A phase that has run: its totals are added to the scenario's, its report and verdict to the results, and
  its time series after the earlier ones.\<close>

definition add_phase_outcome ::
    "'h scenario_inputs \<Rightarrow> 'n scenario_phase \<Rightarrow> url_view \<Rightarrow> 'h run_outcome \<Rightarrow> 'h scenario_run \<Rightarrow> run_failure + 'h scenario_run" where
  "add_phase_outcome inp phase target r sr =
     (case duration_add (sr_elapsed sr) (ro_elapsed r) of
        None \<Rightarrow> Inl Run_panicked
      | Some elapsed \<Rightarrow>
          (case add_totals (si_hdr inp) (sr_totals sr) (ro_totals r) of
             None \<Rightarrow> Inl Metrics_failed
           | Some totals \<Rightarrow>
               (let metrics = phase_report inp phase r;
                    result = \<lparr>pr_name = ph_name phase, pr_target = target, pr_connections = ph_connections phase,
                      pr_stages = ph_stages phase, pr_metrics = metrics, pr_slo = evaluate_slos (ph_slo phase) metrics\<rparr>
                in Inr (sr\<lparr>sr_totals := totals, sr_results := sr_results sr @ [result], sr_elapsed := elapsed,
                     sr_connections := sr_connections sr + ro_connections r,
                     sr_not_started := sr_not_started sr + ro_not_started r,
                     sr_time_series := series_append (ro_time_series r) (ro_started_at r - si_start inp) (sr_time_series sr),
                     sr_lag := add_lag (si_hdr inp) (ro_lag r) (sr_lag sr),
                     sr_largest := max (sr_largest sr) (ph_connections phase),
                     sr_arrivals := add_phase_arrivals (m_arrivals metrics) (sr_arrivals sr),
                     sr_compression := add_phase_compression (m_compression metrics) (sr_compression sr)\<rparr>))))"

text \<open>One phase of the loop.\<close>

definition phase_step ::
    "'n scenario_executor \<Rightarrow> 'h scenario_inputs \<Rightarrow> nat \<Rightarrow> 'n scenario_phase \<Rightarrow> url_view \<Rightarrow> 'h scenario_run \<Rightarrow> run_failure + 'h scenario_run" where
  "phase_step ex inp idx phase target sr =
     (let sr = sr\<lparr>sr_targets := sr_targets sr @ [(ph_name phase, target)]\<rparr>;
          here = si_phase inp idx
      in and_then (run_and_collect (phase_runner ex inp idx phase target) (pi_cancelled_early here) (pi_run here)
             (sr_live sr) (sr_world sr)) (\<lambda>(r, world, live).
           add_phase_outcome inp phase target r (sr\<lparr>sr_world := world, sr_live := live\<rparr>)))"

fun phases_loop ::
    "'n scenario_executor \<Rightarrow> 'h scenario_inputs \<Rightarrow> (nat \<times> 'n scenario_phase \<times> url_view) list \<Rightarrow> 'h scenario_run
     \<Rightarrow> run_failure + 'h scenario_run" where
  "phases_loop ex inp [] sr = Inr sr"
| "phases_loop ex inp ((idx, phase, target) # rest) sr =
     (if pi_cancelled (si_phase inp idx) then Inr sr
      else and_then (phase_step ex inp idx phase target sr) (phases_loop ex inp rest))"

definition scenario_start :: "'h metrics_totals \<Rightarrow> 'h world \<Rightarrow> live_state option \<Rightarrow> 'h scenario_run" where
  "scenario_start totals world live =
     \<lparr>sr_totals = totals, sr_results = [], sr_elapsed = 0, sr_connections = 0, sr_not_started = 0,
      sr_time_series = series_default, sr_lag = lag_default, sr_largest = 0, sr_arrivals = None, sr_compression = None,
      sr_targets = [], sr_world = world, sr_live = live\<rparr>"

record scenario_outcome =
  so_metrics :: aggregated_metrics
  so_phase_targets :: "(string \<times> url_view) list"
  so_phases :: "phase_result list"
  so_slo :: slo_evaluation

definition scenario_metrics :: "'h scenario_inputs \<Rightarrow> 'h scenario_run \<Rightarrow> aggregated_metrics" where
  "scenario_metrics inp sr =
     (with_generator (lag_summary (si_hdr inp) (si_windows inp) (sr_lag sr)) (open_file_limit_for (si_rlimit inp) (sr_largest sr))
       (with_capture (si_capture inp)
         (with_time_series (sr_time_series sr)
           (with_not_started (sr_not_started sr)
             (totals_finish (si_hdr inp) (sr_elapsed sr) (sr_connections sr) (sr_totals sr))))))
     \<lparr>m_arrivals := sr_arrivals sr, m_compression := sr_compression sr\<rparr>"

definition scenario_finish :: "'n scenario_executor \<Rightarrow> 'h scenario_inputs \<Rightarrow> 'h scenario_run \<Rightarrow> scenario_outcome" where
  "scenario_finish ex inp sr =
     (let metrics = scenario_metrics inp sr;
          overall = evaluate_slos (or_from (lc_slo (sx_base ex)) (sx_slo ex)) metrics;
          slo = scenario_slo_evaluation overall (map (\<lambda>p. (pr_name p, pr_slo p)) (sr_results sr))
      in \<lparr>so_metrics = metrics, so_phase_targets = sr_targets sr, so_phases = sr_results sr,
          so_slo = with_action_slos slo (sx_action_slos ex) metrics\<rparr>)"

definition scenario_passed_outcome :: "scenario_outcome \<Rightarrow> bool" where
  "scenario_passed_outcome r = se_passed (so_slo r)"

definition executor_run ::
    "'n scenario_executor \<Rightarrow> 'h scenario_inputs \<Rightarrow> live_state option \<Rightarrow> 'h world \<Rightarrow> run_failure + scenario_outcome \<times> 'h scenario_run" where
  "executor_run ex inp live world =
     (case totals_new (si_hdr inp) of
        None \<Rightarrow> Inl Metrics_failed
      | Some totals \<Rightarrow>
          and_then (phases_loop ex inp (List.enumerate 0 (zip (sx_phases ex) (sx_targets ex))) (scenario_start totals world live))
            (\<lambda>sr. Inr (scenario_finish ex inp sr, sr)))"

section \<open>Properties\<close>

definition executor_ok :: "'n scenario_executor \<Rightarrow> bool" where
  "executor_ok ex \<longleftrightarrow> length (sx_targets ex) = length (sx_phases ex) \<and>
     (\<forall>phase\<in>set (sx_phases ex). phase_ok phase \<and> (checks_replies phase \<longrightarrow> awaits_replies (lc_mode (sx_base ex))) \<and>
        (\<forall>p\<in>set (phase_payloads phase (sx_base ex)). case payload_template p of
             None \<Rightarrow> True | Some t \<Rightarrow> check_data t (lc_data (sx_base ex)) = Inr ()) \<and>
        validate_reply_match (lc_reply_match (sx_base ex)) (lc_mode (sx_base ex)) (phase_payloads phase (sx_base ex)) = Inr ())"

text \<open>Latency objectives only where replies are awaited, and faults only where there is something to act on.\<close>

definition executor_mode_ok :: "'n scenario_executor \<Rightarrow> bool" where
  "executor_mode_ok ex \<longleftrightarrow>
     (let mode = lc_mode (sx_base ex)
      in (has_latency (sx_slo ex) \<longrightarrow> awaits_replies mode) \<and>
         (\<forall>(name, slo)\<in>set (sx_action_slos ex). has_latency slo \<longrightarrow> awaits_replies mode) \<and>
         (\<forall>phase\<in>set (sx_phases ex). (has_latency (ph_slo phase) \<longrightarrow> awaits_replies mode) \<and>
            (\<forall>ch. ph_chaos phase = Some ch \<and> is_active ch \<and> acts_on_sends ch \<longrightarrow>
               ph_actions phase \<noteq> [] \<or> awaits_replies mode \<or> mode = Stream)))"

text \<open>A name, and phases with distinct names and WebSocket targets.\<close>

definition executor_named :: "'n scenario_executor \<Rightarrow> bool" where
  "executor_named ex \<longleftrightarrow>
     trim (sx_name ex) \<noteq> [] \<and> sx_phases ex \<noteq> [] \<and> distinct (map ph_name (sx_phases ex)) \<and>
     (\<forall>phase\<in>set (sx_phases ex). trim (ph_name phase) \<noteq> []) \<and>
     (\<forall>target\<in>set (sx_targets ex). url_scheme target \<in> {''ws'', ''wss''}) \<and> validate_error_rate (sx_slo ex) = Inr ()"

lemma collect_results_each: "collect_results f xs = Inr ys \<Longrightarrow> x \<in> set xs \<Longrightarrow> \<exists>y. f x = Inr y"
  by (induction xs arbitrary: ys) (auto simp: result_rules)

lemma validate_latency_mode_ok: "validate_latency_mode slo mode = Inr u \<Longrightarrow> has_latency slo \<Longrightarrow> awaits_replies mode"
  by (auto simp: validate_latency_mode_def split: if_splits)

lemma check_phase_mode_ok:
  assumes "check_phase_mode mode phase = Inr u"
  shows "has_latency (ph_slo phase) \<Longrightarrow> awaits_replies mode"
    "ph_chaos phase = Some ch \<Longrightarrow> is_active ch \<Longrightarrow> acts_on_sends ch \<Longrightarrow> ph_actions phase \<noteq> [] \<or> awaits_replies mode \<or> mode = Stream"
  using assms by (auto simp: check_phase_mode_def result_rules validate_chaos_mode_def dest!: validate_latency_mode_ok split: if_splits)

lemma executor_base_mode: "executor_base env scenario base = Inr base' \<Longrightarrow> lc_mode base' = lc_mode base"
  by (auto simp: executor_base_def result_rules split: option.splits)

lemma executor_new_mode_ok:
  assumes "executor_new env scenario base selected target_override = Inr ex"
  shows "executor_mode_ok ex"
proof -
  from assms have m: "validate_slo_mode (env_url env) scenario (lc_mode base) selected = Inr ()"
    and b: "executor_base env scenario base = Inr (sx_base ex)" and s: "scenario_slo scenario = Inr (sx_slo ex)"
    and c: "scenario_compile (env_url env) scenario selected = Inr (sx_phases ex)"
    and a: "action_slos (env_url env) scenario selected = Inr (sx_action_slos ex)"
    by (auto simp: executor_new_def result_rules)
  have mode: "lc_mode (sx_base ex) = lc_mode base" using b by (rule executor_base_mode)
  from m obtain us vs where v: "validate_latency_mode (sx_slo ex) (lc_mode base) = Inr ()"
    "collect_results (\<lambda>(_, slo). validate_latency_mode slo (lc_mode base)) (sx_action_slos ex) = Inr us"
    "collect_results (check_phase_mode (lc_mode base)) (sx_phases ex) = Inr vs"
    by (auto simp: validate_slo_mode_def s a c result_rules)
  have "has_latency slo \<longrightarrow> awaits_replies (lc_mode base)" if "(name, slo) \<in> set (sx_action_slos ex)" for name slo
    using collect_results_each [OF v(2) that] by (auto dest: validate_latency_mode_ok)
  moreover have "\<exists>u. check_phase_mode (lc_mode base) phase = Inr u" if "phase \<in> set (sx_phases ex)" for phase
    using collect_results_each [OF v(3) that] .
  ultimately show ?thesis
    using validate_latency_mode_ok [OF v(1)] check_phase_mode_ok
    unfolding executor_mode_ok_def mode Let_def by blast
qed

lemma validate_phases_loop_ok:
  "validate_phases_loop url ps seen = Inr () \<Longrightarrow>
     distinct (map pc_name ps) \<and> set (map pc_name ps) \<inter> set seen = {} \<and> (\<forall>p\<in>set ps. trim (pc_name p) \<noteq> [])"
  by (induction ps arbitrary: seen) (fastforce simp: result_rules split: if_splits)+

lemma compiled_names:
  "collect_results (phase_compile url) ps = Inr phases \<Longrightarrow> map ph_name phases = map pc_name ps"
  by (induction ps arbitrary: phases) (auto simp: result_rules dest: phase_compile_ok)

lemma executor_new_named:
  assumes "executor_new env scenario base selected target_override = Inr ex"
  shows "executor_named ex"
proof -
  from assms have v: "scenario_validate (env_url env) scenario = Inr ()" and n: "sx_name ex = sf_name scenario"
    and s: "scenario_slo scenario = Inr (sx_slo ex)" and c: "scenario_compile (env_url env) scenario selected = Inr (sx_phases ex)"
    and t: "resolve_phase_targets (env_url env) scenario target_override selected = Inr (sx_targets ex)"
    by (auto simp: executor_new_def result_rules)
  from v have f: "trim (sf_name scenario) \<noteq> []" "sf_phases scenario \<noteq> []" "validate_phases_loop (env_url env) (sf_phases scenario) [] = Inr ()"
    by (auto simp: scenario_validate_def result_rules split: if_splits)
  obtain ps where ps: "phases_to_run scenario selected = Inr ps" "collect_results (phase_compile (env_url env)) ps = Inr (sx_phases ex)"
    using c by (auto simp: scenario_compile_def result_rules)
  have run: "ps \<noteq> [] \<and> distinct (map pc_name ps) \<and> set ps \<subseteq> set (sf_phases scenario)"
    using ps(1) f(2) validate_phases_loop_ok [OF f(3)]
    by (auto simp: phases_to_run_def selected_phase_def result_rules find_Some_iff split: if_splits option.splits list.splits)
  have names: "map ph_name (sx_phases ex) = map pc_name ps" using ps(2) by (rule compiled_names)
  have "trim (ph_name phase) \<noteq> []" if "phase \<in> set (sx_phases ex)" for phase
  proof -
    have "ph_name phase \<in> set (map ph_name (sx_phases ex))" using that by simp
    then show ?thesis using validate_phases_loop_ok [OF f(3)] run unfolding names by auto
  qed
  moreover have "sx_phases ex \<noteq> []" using names run by auto
  moreover have "url_scheme target \<in> {''ws'', ''wss''}" if "target \<in> set (sx_targets ex)" for target
  proof -
    have "collect_results (\<lambda>p. and_then (ok_or (invalid_phase (pc_name p) ''target'')
        (or_else (or_else target_override (pc_target p)) (sf_target scenario))) (parse_target_url (env_url env))) ps = Inr (sx_targets ex)"
      using t ps(1) by (simp add: resolve_phase_targets_def)
    then show ?thesis
      by (rule collect_results_all [OF _ _ that]) (auto simp: result_rules parse_target_url_def split: option.splits if_splits)
  qed
  moreover have "validate_error_rate (sx_slo ex) = Inr ()" using s by (auto simp: scenario_slo_def dest: slo_compile_ok)
  ultimately show ?thesis using f(1) n run by (simp add: executor_named_def names)
qed

lemma check_templates_ok:
  "check_templates phase data ps = Inr () \<Longrightarrow> p \<in> set ps \<Longrightarrow> payload_template p = Some t \<Longrightarrow> check_data t data = Inr ()"
  by (induction ps) (auto simp: result_rules split: option.splits)

lemma validate_phases_ok:
  assumes "validate_phases phases config = Inr ()" "phase \<in> set phases"
  shows "(checks_replies phase \<longrightarrow> awaits_replies (lc_mode config)) \<and>
    check_templates (ph_name phase) (lc_data config) (phase_payloads phase config) = Inr () \<and>
    validate_reply_match (lc_reply_match config) (lc_mode config) (phase_payloads phase config) = Inr ()"
  using assms by (induction phases) (auto simp: result_rules split: if_splits)

lemma run_phase_config_load [simp]:
  "lc_arrivals (run_phase_config seed config phase) = ph_arrivals phase"
  "lc_stages (run_phase_config seed config phase) = ph_stages phase"
  "lc_connections (run_phase_config seed config phase) = ph_connections phase"
  "lc_duration (run_phase_config seed config phase) = ph_duration phase"
  "lc_ramp_rate (run_phase_config seed config phase) = ph_ramp_rate phase"
  by (simp_all add: run_phase_config_def Let_def split: option.split)



text \<open>The report of a scenario as the sum of its phases.\<close>

lemma total_of_add: "add_totals H a b = Some t \<Longrightarrow> total_of c t = total_of c a + total_of c b"
  by (cases c) (auto simp: add_totals_def error_sum_add split: option.splits)

definition result_of :: "'h scenario_inputs \<Rightarrow> ('n scenario_phase \<times> url_view) \<times> 'h run_outcome \<Rightarrow> phase_result" where
  "result_of inp p = (case p of ((phase, target), r) \<Rightarrow>
     \<lparr>pr_name = ph_name phase, pr_target = target, pr_connections = ph_connections phase, pr_stages = ph_stages phase,
      pr_metrics = phase_report inp phase r, pr_slo = evaluate_slos (ph_slo phase) (phase_report inp phase r)\<rparr>)"

lemma phases_loop_sum:
  assumes "phases_loop ex inp (List.enumerate k todo) sr = Inr sr'"
  shows "\<exists>outcomes. prefix (map fst outcomes) todo \<and> sr_results sr' = sr_results sr @ map (result_of inp) outcomes \<and>
    merge_all (add_totals (si_hdr inp)) (map (\<lambda>p. ro_totals (snd p)) outcomes) (sr_totals sr) = Some (sr_totals sr') \<and>
    (\<forall>c. total_of c (sr_totals sr') = total_of c (sr_totals sr) + (\<Sum>p\<leftarrow>outcomes. total_of c (ro_totals (snd p)))) \<and>
    sr_elapsed sr' = sr_elapsed sr + (\<Sum>p\<leftarrow>outcomes. ro_elapsed (snd p)) \<and>
    sr_connections sr' = sr_connections sr + (\<Sum>p\<leftarrow>outcomes. ro_connections (snd p)) \<and>
    sr_not_started sr' = sr_not_started sr + (\<Sum>p\<leftarrow>outcomes. ro_not_started (snd p)) \<and>
    (length outcomes < length todo \<longrightarrow> pi_cancelled (si_phase inp (k + length outcomes)))"
  using assms
proof (induction todo arbitrary: k sr)
  case (Cons p todo)
  obtain phase target where p: "p = (phase, target)" by force
  show ?case
  proof (cases "pi_cancelled (si_phase inp k)")
    case True
    with Cons.prems p show ?thesis by (intro exI [of _ "[]"]) simp
  next
    case False
    with Cons.prems p obtain sr1 where s1: "phase_step ex inp k phase target sr = Inr sr1"
      and l: "phases_loop ex inp (List.enumerate (Suc k) todo) sr1 = Inr sr'"
      by (auto simp: result_rules)
    from s1 obtain r world live where
      a: "add_phase_outcome inp phase target r (sr\<lparr>sr_targets := sr_targets sr @ [(ph_name phase, target)], sr_world := world, sr_live := live\<rparr>) = Inr sr1"
      by (auto simp: phase_step_def Let_def result_rules)
    then obtain elapsed totals where e: "duration_add (sr_elapsed sr) (ro_elapsed r) = Some elapsed"
      and t: "add_totals (si_hdr inp) (sr_totals sr) (ro_totals r) = Some totals"
      by (auto simp: add_phase_outcome_def split: option.splits)
    have sr1: "sr_results sr1 = sr_results sr @ [result_of inp (p, r)]" "sr_totals sr1 = totals" "sr_elapsed sr1 = sr_elapsed sr + ro_elapsed r"
      "sr_connections sr1 = sr_connections sr + ro_connections r" "sr_not_started sr1 = sr_not_started sr + ro_not_started r"
      using a e t by (auto simp: add_phase_outcome_def result_of_def Let_def p duration_add_def split: if_splits)
    from Cons.IH [OF l] obtain outcomes where o: "prefix (map fst outcomes) todo"
      "sr_results sr' = sr_results sr1 @ map (result_of inp) outcomes"
      "merge_all (add_totals (si_hdr inp)) (map (\<lambda>p. ro_totals (snd p)) outcomes) (sr_totals sr1) = Some (sr_totals sr')"
      "\<forall>c. total_of c (sr_totals sr') = total_of c (sr_totals sr1) + (\<Sum>p\<leftarrow>outcomes. total_of c (ro_totals (snd p)))"
      "sr_elapsed sr' = sr_elapsed sr1 + (\<Sum>p\<leftarrow>outcomes. ro_elapsed (snd p))"
      "sr_connections sr' = sr_connections sr1 + (\<Sum>p\<leftarrow>outcomes. ro_connections (snd p))"
      "sr_not_started sr' = sr_not_started sr1 + (\<Sum>p\<leftarrow>outcomes. ro_not_started (snd p))"
      "length outcomes < length todo \<longrightarrow> pi_cancelled (si_phase inp (Suc k + length outcomes))" by blast
    show ?thesis
      by (rule exI [of _ "(p, r) # outcomes"]) (use o sr1 t total_of_add [OF t] in \<open>simp add: algebra_simps\<close>)
  qed
qed (intro exI [of _ "[]"], simp)

text \<open>C19: a scenario reports its phases one by one and all together. The phases that ran are the first ones in
  order, all of them unless the run was cancelled; each has the report and the verdict of its own outcome;
  the totals of the scenario are the phases' totals merged, so every counter of the report, its duration and
  its connections are the sums over the phases.\<close>

theorem scenario_adds_up_phases:
  assumes "executor_run ex inp live world = Inr (r, sr)" "totals_new (si_hdr inp) = Some z"
  shows "\<exists>outcomes. prefix (map fst outcomes) (zip (sx_phases ex) (sx_targets ex)) \<and>
    (length outcomes < length (zip (sx_phases ex) (sx_targets ex)) \<longrightarrow> pi_cancelled (si_phase inp (length outcomes))) \<and>
    so_phases r = map (result_of inp) outcomes \<and>
    merge_all (add_totals (si_hdr inp)) (map (\<lambda>p. ro_totals (snd p)) outcomes) z = Some (sr_totals sr) \<and>
    m_messages_sent (so_metrics r) = (\<Sum>p\<leftarrow>outcomes. mt_messages_sent (ro_totals (snd p))) \<and>
    m_messages_recv (so_metrics r) = (\<Sum>p\<leftarrow>outcomes. mt_messages_recv (ro_totals (snd p))) \<and>
    error_sum (m_errors (so_metrics r)) = (\<Sum>p\<leftarrow>outcomes. error_sum (mt_errors (ro_totals (snd p)))) \<and>
    m_elapsed (so_metrics r) = (\<Sum>p\<leftarrow>outcomes. ro_elapsed (snd p)) \<and>
    m_attempted (so_metrics r) = (\<Sum>p\<leftarrow>outcomes. ro_connections (snd p))"
proof -
  from assms have l: "phases_loop ex inp (List.enumerate 0 (zip (sx_phases ex) (sx_targets ex))) (scenario_start z world live) = Inr sr"
    and r: "r = scenario_finish ex inp sr"
    by (auto simp: executor_run_def result_rules)
  have z: "total_of c z = 0" for c using assms(2) by (cases c) (auto simp: totals_new_def split: option.splits)
  obtain outcomes where o: "prefix (map fst outcomes) (zip (sx_phases ex) (sx_targets ex))"
    "sr_results sr = map (result_of inp) outcomes"
    "merge_all (add_totals (si_hdr inp)) (map (\<lambda>p. ro_totals (snd p)) outcomes) z = Some (sr_totals sr)"
    "\<And>c. total_of c (sr_totals sr) = (\<Sum>p\<leftarrow>outcomes. total_of c (ro_totals (snd p)))"
    "sr_elapsed sr = (\<Sum>p\<leftarrow>outcomes. ro_elapsed (snd p))" "sr_connections sr = (\<Sum>p\<leftarrow>outcomes. ro_connections (snd p))"
    "length outcomes < length (zip (sx_phases ex) (sx_targets ex)) \<longrightarrow> pi_cancelled (si_phase inp (length outcomes))"
    using phases_loop_sum [OF l] by (auto simp: scenario_start_def z)
  have m: "m_messages_sent (so_metrics r) = total_of C_sent (sr_totals sr)" "m_messages_recv (so_metrics r) = total_of C_recv (sr_totals sr)"
    "error_sum (m_errors (so_metrics r)) = total_of C_errors (sr_totals sr)" "m_elapsed (so_metrics r) = sr_elapsed sr"
    "m_attempted (so_metrics r) = sr_connections sr"
    by (simp_all add: r scenario_finish_def scenario_metrics_def Let_def with_generator_def with_capture_def with_time_series_def
        with_not_started_def totals_finish_def)
  show ?thesis by (rule exI [of _ outcomes]) (use o m in \<open>simp add: r scenario_finish_def Let_def\<close>)
qed

lemma attempted_of_report: "m_attempted (phase_report inp phase r) = ro_connections r"
  by (simp add: phase_report_def with_generator_def with_compression_def with_arrivals_def with_time_series_def with_not_started_def
      totals_finish_def Let_def)

definition sample_executor :: "nat scenario_phase \<Rightarrow> nat scenario_executor" where
  "sample_executor phase = \<lparr>sx_name = ''smoke'', sx_slo = slo_none, sx_action_slos = [], sx_phases = [phase],
     sx_targets = [\<lparr>url_scheme = ''ws'', url_path = ''/'', url_query = []\<rparr>], sx_base = sample_config\<rparr>"

definition sample_scenario_inputs :: "nat multiset scenario_inputs" where
  "sample_scenario_inputs = \<lparr>si_hdr = values_hdr, si_hist = multiset_hist, si_rlimit = None, si_start = 0,
     si_phase = \<lambda>_. \<lparr>pi_cancelled = False, pi_cancelled_early = True, pi_start = 0, pi_time_seed = 7,
       pi_run = sample_inputs [] (\<lambda>_. ([], False))\<rparr>, si_capture = None, si_windows = False\<rparr>"

theorem scenario_adds_up_phases_witness:
  "\<exists>phase r sr. executor_run (sample_executor phase) sample_scenario_inputs None sample_world = Inr (r, sr) \<and>
     m_attempted (so_metrics r) = 2 \<and> map pr_name (so_phases r) = [''steady'']"
proof -
  obtain phase where p: "phase_compile (\<lambda>_. None) sample_phase = Inr phase" "ph_name phase = ''steady''" "ph_connections phase = 2"
    by (simp add: sample_compiles)
  obtain z where z: "totals_new values_hdr = Some z" by (simp add: totals_new_def latency_histogram_def)
  have ok: "totals_empty values_hdr z" using z by (simp add: totals_empty_def values_hdr_law)
  have add: "add_totals values_hdr z z = Some z" by (rule add_totals_empty [OF totals_empty_ok [OF ok] ok])
  let ?o = "run_cancelled_early (phase_runner (sample_executor phase) sample_scenario_inputs 0 phase \<lparr>url_scheme = ''ws'', url_path = ''/'', url_query = []\<rparr>) z"
  have o: "ro_connections ?o = 2" "ro_totals ?o = z" "ro_elapsed ?o = 0"
    using p by (simp_all add: run_cancelled_early_def phase_runner_def)
  obtain r sr where r: "executor_run (sample_executor phase) sample_scenario_inputs None sample_world = Inr (r, sr)"
    and phases: "so_phases r = [result_of sample_scenario_inputs ((phase, \<lparr>url_scheme = ''ws'', url_path = ''/'', url_query = []\<rparr>), ?o)]"
    using o z by (simp add: executor_run_def sample_executor_def sample_scenario_inputs_def phase_step_def run_and_collect_def
        add_phase_outcome_def scenario_start_def duration_add_def add scenario_finish_def result_of_def phase_runner_def Let_def)
  from scenario_adds_up_phases [OF r, of z] z obtain outcomes :: "((nat scenario_phase \<times> url_view) \<times> nat multiset run_outcome) list"
    where oc: "so_phases r = map (result_of sample_scenario_inputs) outcomes"
    "m_attempted (so_metrics r) = (\<Sum>p\<leftarrow>outcomes. ro_connections (snd p))"
    by (auto simp: sample_scenario_inputs_def)
  have "map (\<lambda>p. ro_connections (snd p)) outcomes = map (\<lambda>p. m_attempted (pr_metrics p)) (so_phases r)"
    by (simp add: oc(1) result_of_def split_def attempted_of_report)
  then have "m_attempted (so_metrics r) = 2" unfolding oc(2) by (simp add: phases result_of_def attempted_of_report o)
  with r phases p show ?thesis by (intro exI [of _ phase] exI [of _ r] exI [of _ sr]) (simp add: result_of_def)
qed

text \<open>The gate of a scenario run is exact. The run passes when, and only when, the merged report meets the
  thresholds of the command line and, where those are silent, of the scenario file, every phase that ran met
  its own, and every named action with thresholds met them over the whole run.\<close>

theorem scenario_run_gate:
  "scenario_passed_outcome (scenario_finish ex inp sr) \<longleftrightarrow>
     se_passed (evaluate_slos (or_from (lc_slo (sx_base ex)) (sx_slo ex)) (scenario_metrics inp sr)) \<and>
     list_all (\<lambda>p. se_passed (pr_slo p)) (sr_results sr) \<and>
     list_all (action_meets (scenario_metrics inp sr)) (sx_action_slos ex)"
  by (auto simp: scenario_passed_outcome_def scenario_finish_def Let_def action_slos_passed scenario_passed list_all_iff)

end
