(* ===== verification/Coordinator.thy ===== *)
theory Coordinator
  imports Wire_Result Scenario_Run
begin

text \<open>
  \<open>src/distributed/coordinator.rs\<close>, first part, with \<open>AgentBoard\<close> of \<open>src/distributed/dashboard.rs\<close>: the addresses of the
  agents, the coordinator of a run or of a scenario, the control connections, and one phase: the start barrier, the
  start of every agent, the tasks that follow the agents and the results they bring back. Parsing a URL, what the
  agents answer and when, the clock and the cancellation are inputs; every message handed to a control connection
  is logged in the state. The live authentication header is not part of the configurations modelled here, so no
  refreshed token is sent.
\<close>

section \<open>Agents\<close>

record agent_url =
  au_scheme :: string
  au_host :: "string option"
  au_port :: "nat option"
  au_rest :: string

record agent_address =
  aa_name :: string
  aa_url :: agent_url

definition quoted :: "string \<Rightarrow> string" where
  "quoted s = [CHR 0x27] @ s @ [CHR 0x27]"

definition invalid_agent :: "string \<Rightarrow> string \<Rightarrow> config_error" where
  "invalid_agent name reason = InvalidOption (''invalid agent '' @ quoted name @ '': '' @ reason @
     ''; use HOST:PORT, ws://HOST:PORT or wss://HOST:PORT'')"

definition parse_agent :: "(string \<Rightarrow> string + agent_url) \<Rightarrow> string \<Rightarrow> config_error + agent_address" where
  "parse_agent url_parse raw =
     (let name = trim raw
      in if name = [] then Inl (invalid_agent name ''empty address'')
         else and_then (map_err (invalid_agent name)
             (if str_contains name ''://'' then url_parse name else url_parse (''ws://'' @ name @ ''/''))) (\<lambda>url.
           if au_scheme url \<noteq> ''ws'' \<and> au_scheme url \<noteq> ''wss'' then Inl (invalid_agent name ''the scheme must be ws or wss'')
           else if au_host url = None \<or> au_host url = Some [] then Inl (invalid_agent name ''no host'')
           else if au_port url = None then Inl (invalid_agent name ''no port'')
           else Inr \<lparr>aa_name = name, aa_url = url\<rparr>))"

fun repeated_agent :: "agent_address list \<Rightarrow> agent_address list \<Rightarrow> agent_address option" where
  "repeated_agent seen [] = None"
| "repeated_agent seen (agent # agents) =
     (if \<exists>other\<in>set seen. aa_url other = aa_url agent then Some agent else repeated_agent (seen @ [agent]) agents)"

definition parse_agents :: "(string \<Rightarrow> string + agent_url) \<Rightarrow> string list \<Rightarrow> config_error + agent_address list" where
  "parse_agents url_parse raws =
     and_then (collect_results (parse_agent url_parse) raws) (\<lambda>agents.
       case repeated_agent [] agents of
         Some agent \<Rightarrow> Inl (InvalidOption (''agent '' @ quoted (aa_name agent) @ '' is listed twice; an agent runs one test at a time''))
       | None \<Rightarrow> Inr agents)"

section \<open>Building a coordinator\<close>

record 'n scenario_plan =
  pl_name :: string
  pl_slo :: slo_thresholds
  pl_action_slos :: "(string \<times> slo_thresholds) list"
  pl_phases :: "'n scenario_phase list"
  pl_targets :: "url_view list"

record 'n coordinator =
  co_config :: "'n load_config"
  co_scenario :: "'n scenario_plan option"
  co_agents :: "agent_address list"
  co_token :: string
  co_agent_timeout :: duration

definition DEFAULT_AGENT_TIMEOUT :: duration where "DEFAULT_AGENT_TIMEOUT = from_secs 30"

definition coordinator_new ::
    "'n env \<Rightarrow> (string \<Rightarrow> string + agent_url) \<Rightarrow> 'n load_config \<Rightarrow> string list \<Rightarrow> string \<Rightarrow> config_error + 'n coordinator" where
  "coordinator_new env url_parse config agents token =
     and_then (validate_token token) (\<lambda>_.
     and_then (parse_agents url_parse agents) (\<lambda>agents.
     and_then (plan env config (length agents)) (\<lambda>_.
       Inr \<lparr>co_config = config, co_scenario = None, co_agents = agents, co_token = token,
            co_agent_timeout = DEFAULT_AGENT_TIMEOUT\<rparr>)))"

text \<open>The configuration of a phase: its settings over those of the run, then its target.\<close>

definition cluster_phase_config :: "u64 \<Rightarrow> 'n load_config \<Rightarrow> 'n scenario_phase \<Rightarrow> url_view \<Rightarrow> 'n load_config" where
  "cluster_phase_config seed base phase target = set_target target (run_phase_config seed base phase)"

definition phase_plan_error :: "string \<Rightarrow> config_error \<Rightarrow> config_error" where
  "phase_plan_error phase e =
     (case e of InvalidOption reason \<Rightarrow> InvalidOption (''phase '' @ quoted phase @ '': '' @ reason) | _ \<Rightarrow> e)"

fun plan_phases :: "'n env \<Rightarrow> 'n load_config \<Rightarrow> nat \<Rightarrow> ('n scenario_phase \<times> url_view) list \<Rightarrow> config_error + unit" where
  "plan_phases env base n [] = Inr ()"
| "plan_phases env base n ((phase, target) # rest) =
     and_then (map_err (phase_plan_error (ph_name phase))
         (plan env (cluster_phase_config (env_time_seed env) base phase target) n)) (\<lambda>_.
       plan_phases env base n rest)"

definition coordinator_scenario ::
    "'n env \<Rightarrow> (string \<Rightarrow> string + agent_url) \<Rightarrow> 'n scenario_config \<Rightarrow> 'n load_config \<Rightarrow> string option \<Rightarrow> string option
     \<Rightarrow> string list \<Rightarrow> string \<Rightarrow> build_error + 'n coordinator" where
  "coordinator_scenario env url_parse scenario base phase target_override agents token =
     and_then (map_err Rejected (validate_token token)) (\<lambda>_.
     and_then (map_err Rejected (parse_agents url_parse agents)) (\<lambda>agents.
     and_then (scenario_validate (env_url env) scenario) (\<lambda>_.
     and_then (validate_slo_mode (env_url env) scenario (lc_mode base) phase) (\<lambda>_.
     and_then (map_err Rejected (executor_base env scenario base)) (\<lambda>base.
     and_then (map_err Rejected (scenario_slo scenario)) (\<lambda>slo.
     and_then (action_slos (env_url env) scenario phase) (\<lambda>actions.
     and_then (map_err Rejected (resolve_phase_targets (env_url env) scenario target_override phase)) (\<lambda>targets.
     and_then (scenario_compile (env_url env) scenario phase) (\<lambda>phases.
     and_then (map_err Rejected (validate_phases phases base)) (\<lambda>_.
     and_then (map_err Rejected (plan_phases env base (length agents) (zip phases targets))) (\<lambda>_.
       Inr \<lparr>co_config = base, co_scenario = Some \<lparr>pl_name = sf_name scenario, pl_slo = slo, pl_action_slos = actions,
              pl_phases = phases, pl_targets = targets\<rparr>,
            co_agents = agents, co_token = token, co_agent_timeout = DEFAULT_AGENT_TIMEOUT\<rparr>)))))))))))"

definition with_agent_timeout :: "duration \<Rightarrow> 'n coordinator \<Rightarrow> 'n coordinator" where
  "with_agent_timeout timeout co = co\<lparr>co_agent_timeout := timeout\<rparr>"

text \<open>\<open>Debug\<close> of \<open>Duration\<close>: whole units and the fraction without its trailing zeros.\<close>

fun drop_zeros :: "string \<Rightarrow> string" where
  "drop_zeros s = rev (dropWhile (\<lambda>c. c = CHR ''0'') (rev s))"

definition show_decimal :: "nat \<Rightarrow> nat \<Rightarrow> nat \<Rightarrow> string" where
  "show_decimal whole part digits =
     show_nat whole @ (if part = 0 then [] else ''.'' @ drop_zeros (replicate (digits - length (show_nat part)) (CHR ''0'') @ show_nat part))"

definition debug_duration :: "duration \<Rightarrow> string" where
  "debug_duration d =
     (let n = subsec_nanos d
      in if as_secs d > 0 then show_decimal (as_secs d) n 9 @ ''s''
         else if n \<ge> 1000000 then show_decimal (n div 1000000) (n mod 1000000) 6 @ ''ms''
         else if n \<ge> 1000 then show_decimal (n div 1000) (n mod 1000) 3 @ [CHR 0xC2, CHR 0xB5] @ ''s''
         else show_nat n @ ''ns'')"

definition not_ready :: "'n coordinator \<Rightarrow> string" where
  "not_ready co = ''not ready within '' @ debug_duration (co_agent_timeout co) @ '' (--agent-timeout)''"

text \<open>\<open>agent NAME: reason\<close> for every agent with a reason, and lists of reasons in one line.\<close>

definition failures :: "'n coordinator \<Rightarrow> string option list \<Rightarrow> string list" where
  "failures co results =
     concat (map (\<lambda>(agent, failure). case failure of
         None \<Rightarrow> [] | Some reason \<Rightarrow> [''agent '' @ aa_name agent @ '': '' @ reason]) (zip (co_agents co) results))"

fun join_reasons :: "string list \<Rightarrow> string" where
  "join_reasons [] = []"
| "join_reasons [r] = r"
| "join_reasons (r # rs) = r @ ''; '' @ join_reasons rs"

section \<open>The state of a run\<close>

record link =
  lk_rtt :: duration

record 'h agent_live =
  al_snapshot :: wire_snapshot
  al_intervals :: "(nat, 'h) fmap"

definition agent_live_default :: "'h agent_live" where
  "agent_live_default = \<lparr>al_snapshot = wire_snapshot_default, al_intervals = fmempty\<rparr>"

text \<open>A capture file is created before the run and started with the first phase.\<close>

datatype capture_state = Capture_off | Capture_pending | Capture_running instant

text \<open>The session, with what the coordinator shares with its readers: which agents are lost (the board), the live
  counters and the latency of the intervals; the batches handed to the capture writer with their count; and
  the log of the messages handed to the control connections after the hellos.\<close>

record ('n, 'h) cluster =
  cl_links :: "link option list"
  cl_lost :: "string option list"
  cl_live :: "'h agent_live list"
  cl_capture :: capture_state
  cl_queued :: nat
  cl_batches :: "merged_batch list"
  cl_dropped :: nat
  cl_board :: "bool list"
  cl_counters :: live_metrics
  cl_intervals :: "live_state option"
  cl_sent :: "(nat \<times> 'n control_message) list"

datatype 'h part = Absent | Finished "'h agent_result" | Lost string

record 'h phase_run =
  pn_start :: instant
  pn_parts :: "'h part list"
  pn_last_result :: "instant option"
  pn_chaos_seed :: "u64 option"

record 'n phase_spec =
  ps_config :: "'n load_config"
  ps_wire_phase :: "'n wire_phase option"
  ps_name :: "string option"
  ps_basis :: string

definition config_chaos_seed :: "'n load_config \<Rightarrow> u64 option" where
  "config_chaos_seed config = Option.bind (lc_chaos config) ch_seed"

datatype cluster_error =
    Distributed string
  | Cluster_config config_error
  | Cluster_metrics
  | Cluster_io
  | Cluster_panicked
  | Cluster_waiting

text \<open>Waiting is not an error of the code: the answers given do not yet decide the run.\<close>

section \<open>Opening the control connections\<close>

datatype recv_error = Recv_closed string | Recv_invalid string

datatype connect_failure = Http_status nat string | Io_failure string | Tls_failure string | Other_failure string

fun connect_error :: "connect_failure \<Rightarrow> string" where
  "connect_error (Http_status status text) =
     (if status = 401 then ''rejected the agent token (HTTP 401); check --agent-token or WSBLAST_AGENT_TOKEN''
      else if status = 409 then ''is busy running another test (HTTP 409); wait for it to finish''
      else ''refused the control connection with HTTP '' @ text)"
| "connect_error (Io_failure e) = ''cannot connect: '' @ e"
| "connect_error (Tls_failure e) = ''TLS handshake failed: '' @ e"
| "connect_error (Other_failure e) = ''control connection failed: '' @ e"

fun reply_error :: "recv_error \<Rightarrow> string" where
  "reply_error (Recv_closed reason) = ''closed the control connection ('' @ reason @ '')''"
| "reply_error (Recv_invalid reason) = reason"

text \<open>What becomes of connecting to an agent: no answer in time, a request that cannot be made, a failed connection,
  a hello that cannot be sent, or the answer to it and the time it took.\<close>

datatype 'n connect_answer =
    Connect_late
  | Bad_request string
  | Connect_failed connect_failure
  | Hello_unsent string
  | Hello_answer "recv_error + 'n control_message" duration

definition check_hello :: "recv_error + 'n control_message \<Rightarrow> string + unit" where
  "check_hello answer = and_then (map_err reply_error answer) (\<lambda>m. case m of
       Hello protocol version \<Rightarrow> check_protocol protocol version
     | Error_message message \<Rightarrow> Inl message
     | other \<Rightarrow> Inl (''answered hello with '' @ message_kind other @ ''; is it a wsblast agent speaking protocol '' @
         show_nat PROTOCOL_VERSION @ ''?''))"

fun connect :: "'n coordinator \<Rightarrow> 'n connect_answer \<Rightarrow> string + link" where
  "connect co Connect_late = Inl (not_ready co)"
| "connect co (Bad_request e) = Inl e"
| "connect co (Connect_failed e) = Inl (connect_error e)"
| "connect co (Hello_unsent e) = Inl (''control connection failed: '' @ e)"
| "connect co (Hello_answer answer rtt) = and_then (check_hello answer) (\<lambda>_. Inr \<lparr>lk_rtt = rtt\<rparr>)"

record 'n open_answers =
  oa_capture :: bool
  oa_tls :: "config_error + unit"
  oa_cancelled :: bool
  oa_connect :: "nat \<Rightarrow> 'n connect_answer"
  oa_intervals :: "live_state option"
  oa_cores :: "nat option"

definition interrupted_early :: cluster_error where
  "interrupted_early = Distributed ''interrupted before the agents started; nothing was run''"

definition nothing_run :: "string list \<Rightarrow> cluster_error" where
  "nothing_run reasons = Distributed (join_reasons reasons @ ''; nothing was run'')"

definition the_error :: "'e + 'a \<Rightarrow> 'e option" where
  "the_error r = (case r of Inl e \<Rightarrow> Some e | Inr _ \<Rightarrow> None)"

definition the_ok :: "'e + 'a \<Rightarrow> 'a option" where
  "the_ok r = (case r of Inl _ \<Rightarrow> None | Inr x \<Rightarrow> Some x)"

definition open_cluster :: "'n coordinator \<Rightarrow> 'n open_answers \<Rightarrow> cluster_error + ('n, 'h) cluster" where
  "open_cluster co answers =
     (let n = length (co_agents co);
          links = map (\<lambda>i. connect co (oa_connect answers i)) [0..<n]
      in if lc_capture (co_config co) \<noteq> None \<and> \<not> oa_capture answers then Inl Cluster_io
         else and_then (if \<exists>agent\<in>set (co_agents co). au_scheme (aa_url agent) = ''wss''
             then map_err Cluster_config (oa_tls answers) else Inr ()) (\<lambda>_.
           if oa_cancelled answers then Inl interrupted_early
           else if failures co (map the_error links) \<noteq> [] then Inl (nothing_run (failures co (map the_error links)))
           else Inr \<lparr>cl_links = map the_ok links, cl_lost = replicate n None,
                  cl_live = replicate n agent_live_default,
                  cl_capture = (if lc_capture (co_config co) \<noteq> None then Capture_pending else Capture_off),
                  cl_queued = 0, cl_batches = [], cl_dropped = 0, cl_board = replicate n False,
                  cl_counters = live_new (oa_cores answers), cl_intervals = oa_intervals answers, cl_sent = []\<rparr>))"

section \<open>The start barrier\<close>

datatype 'n prepare_answer = Prepare_late | Prepare_unsent string | Prepare_answer "recv_error + 'n control_message"

fun prepare :: "'n coordinator \<Rightarrow> 'n prepare_answer \<Rightarrow> string + unit" where
  "prepare co Prepare_late = Inl (not_ready co)"
| "prepare co (Prepare_unsent e) = Inl (''control connection failed: '' @ e)"
| "prepare co (Prepare_answer answer) = and_then (map_err reply_error answer) (\<lambda>m. case m of
       Ready _ \<Rightarrow> Inr ()
     | Error_message message \<Rightarrow> Inl (''rejected the test: '' @ message)
     | other \<Rightarrow> Inl (''answered prepare with '' @ message_kind other))"

definition phase_reason :: "'n phase_spec \<Rightarrow> string \<Rightarrow> string" where
  "phase_reason spec reason =
     (case ps_name spec of Some name \<Rightarrow> ''phase '' @ quoted name @ '': '' @ reason | None \<Rightarrow> reason)"

text \<open>Why an agent is lost, on the session and on the board.\<close>

definition lose :: "nat \<Rightarrow> string \<Rightarrow> ('n, 'h) cluster \<Rightarrow> ('n, 'h) cluster" where
  "lose i reason cl = cl\<lparr>cl_lost := (cl_lost cl)[i := Some reason], cl_board := (cl_board cl)[i := True]\<rparr>"

definition log_sent :: "nat list \<Rightarrow> 'n control_message \<Rightarrow> ('n, 'h) cluster \<Rightarrow> ('n, 'h) cluster" where
  "log_sent agents m cl = cl\<lparr>cl_sent := cl_sent cl @ map (\<lambda>i. (i, m)) agents\<rparr>"

text \<open>The agents still in the run, by their index.\<close>

definition linked :: "('n, 'h) cluster \<Rightarrow> nat list" where
  "linked cl = filter (\<lambda>i. cl_links cl ! i \<noteq> None) [0..<length (cl_links cl)]"

definition capture_limit :: "'n coordinator \<Rightarrow> ('n, 'h) cluster \<Rightarrow> nat option option" where
  "capture_limit co cl =
     (case cl_capture cl of
        Capture_off \<Rightarrow> None
      | Capture_pending \<Rightarrow> Some (case lc_capture (co_config co) of
            None \<Rightarrow> None | Some (_, limit) \<Rightarrow> if limit \<noteq> 0 then Some limit else None)
      | Capture_running _ \<Rightarrow> Some (case lc_capture (co_config co) of
            None \<Rightarrow> None | Some (_, limit) \<Rightarrow> merged_remaining limit (cl_queued cl)))"

definition phase_share :: "'n phase_spec \<Rightarrow> nat option option \<Rightarrow> 'n wire_config \<Rightarrow> 'n wire_config" where
  "phase_share spec limit share =
     (let share = share\<lparr>wc_phase := ps_wire_phase spec\<rparr>
      in case limit of None \<Rightarrow> share | Some limit \<Rightarrow> share\<lparr>wc_capture_limit := Some limit\<rparr>)"

record 'n phase_answers =
  qa_cancelled :: bool
  qa_reached :: "nat \<Rightarrow> bool"
  qa_prepared :: "nat \<Rightarrow> 'n prepare_answer"
  qa_start :: instant
  qa_unsent :: "nat \<Rightarrow> string option"
  qa_capture :: bool

text \<open>An agent that failed the barrier is lost; one that is ready, or was lost before, has no result yet.\<close>

fun barrier_loop :: "'n phase_spec \<Rightarrow> nat \<Rightarrow> (string + unit) option list \<Rightarrow> 'h part list \<times> ('n, 'h) cluster
     \<Rightarrow> 'h part list \<times> ('n, 'h) cluster" where
  "barrier_loop spec i [] st = st"
| "barrier_loop spec i (outcome # outcomes) (parts, cl) =
     barrier_loop spec (i + 1) outcomes
       (case outcome of
          Some (Inl reason) \<Rightarrow>
            (parts @ [Lost (phase_reason spec reason)],
             lose i (phase_reason spec reason) (cl\<lparr>cl_links := (cl_links cl)[i := None]\<rparr>))
        | _ \<Rightarrow> (parts @ [Absent], cl))"

definition prepare_outcomes :: "'n coordinator \<Rightarrow> 'n phase_answers \<Rightarrow> ('n, 'h) cluster \<Rightarrow> (string + unit) option list" where
  "prepare_outcomes co answers cl =
     map (\<lambda>i. map_option (\<lambda>_. prepare co (qa_prepared answers i)) (cl_links cl ! i)) [0..<length (cl_links cl)]"

definition log_prepares :: "'n coordinator \<Rightarrow> 'n wire_config list \<Rightarrow> nat list \<Rightarrow> ('n, 'h) cluster \<Rightarrow> ('n, 'h) cluster" where
  "log_prepares co shares agents cl =
     cl\<lparr>cl_sent := cl_sent cl @ map (\<lambda>i. (i, Prepare (shares ! i) (co_agent_timeout co))) agents\<rparr>"

text \<open>The barrier: the agents that are ready, or why the phase does not start. \<open>None\<close> is a stop before a later phase.\<close>

definition barrier ::
    "'n env \<Rightarrow> 'n coordinator \<Rightarrow> 'n phase_spec \<Rightarrow> 'n phase_answers \<Rightarrow> bool \<Rightarrow> ('n, 'h) cluster
     \<Rightarrow> (cluster_error + ('h part list) option) \<times> ('n, 'h) cluster" where
  "barrier env co spec answers first cl =
     (case plan env (ps_config spec) (length (co_agents co)) of
        Inl e \<Rightarrow> (Inl (Cluster_config e), cl)
      | Inr shares \<Rightarrow>
          (let shares = map (phase_share spec (capture_limit co cl)) shares
           in if qa_cancelled answers
              then (if first then Inl interrupted_early else Inr None,
                    log_sent (linked cl) Stop (log_prepares co shares (filter (qa_reached answers) (linked cl)) cl))
              else (let prepared = log_prepares co shares (linked cl) cl;
                        outcomes = prepare_outcomes co answers cl;
                        reasons = failures co (map (\<lambda>r. Option.bind r the_error) outcomes)
                    in if first \<and> reasons \<noteq> [] then (Inl (nothing_run reasons), log_sent (linked cl) Stop prepared)
                       else (case barrier_loop spec 0 outcomes ([], prepared) of (parts, cl) \<Rightarrow> (Inr (Some parts), cl)))))"

section \<open>Following the agents\<close>

record follow =
  fo_link :: link
  fo_stopped :: bool
  fo_deadline :: instant

datatype task = No_task | Following follow | Task_over "link option" "string + wire_result \<times> instant"

text \<open>What a task can wake up for: a message, the stop of the run, its deadline; or it panics.\<close>

datatype 'n follow_event =
    Received "recv_error + 'n control_message" instant
  | Stop_seen instant
  | Deadline_at instant
  | Task_panicked string

definition latest_intervals :: "(nat, 'h) fmap \<Rightarrow> (nat, 'h) fmap" where
  "latest_intervals m =
     (let keys = sorted_list_of_fset (fmdom m) in fold fmdrop (take (length keys - 4) keys) m)"

definition store_interval :: "'h histograms \<Rightarrow> wire_interval \<Rightarrow> (nat, 'h) fmap \<Rightarrow> (nat, 'h) fmap" where
  "store_interval S i m =
     (case interval_histogram (hs_hdr S) of
        None \<Rightarrow> m
      | Some fresh \<Rightarrow> (case from_sparse S (wi_values i) fresh of Inl _ \<Rightarrow> m | Inr h \<Rightarrow> fmupd (wi_index i) h m))"

definition store_snapshot :: "'h histograms \<Rightarrow> nat \<Rightarrow> wire_snapshot \<Rightarrow> wire_interval list \<Rightarrow> ('n, 'h) cluster \<Rightarrow> ('n, 'h) cluster" where
  "store_snapshot S i live intervals cl =
     (if i < length (cl_live cl)
      then cl\<lparr>cl_live := (cl_live cl)[i := \<lparr>al_snapshot = live,
             al_intervals = latest_intervals (fold (store_interval S) intervals (al_intervals (cl_live cl ! i)))\<rparr>]\<rparr>
      else cl)"

definition store_capture :: "duration \<Rightarrow> nat \<Rightarrow> cap_line list \<Rightarrow> ('n, 'h) cluster \<Rightarrow> ('n, 'h) cluster" where
  "store_capture start i records cl =
     (case cl_capture cl of
        Capture_running capture_start \<Rightarrow>
          cl\<lparr>cl_queued := cl_queued cl + length records,
             cl_batches := cl_batches cl @ [\<lparr>mb_agent = i, mb_offset_us = min u64_max (as_micros (start - capture_start)),
               mb_records = records\<rparr>]\<rparr>
      | _ \<Rightarrow> cl)"

text \<open>One turn of a task: whether the stop was sent, the start of the phase and the agent timeout decide what it does.\<close>

fun follow_message ::
    "'h histograms \<Rightarrow> instant \<Rightarrow> nat \<Rightarrow> follow \<Rightarrow> instant \<Rightarrow> recv_error + 'n control_message \<Rightarrow> ('n, 'h) cluster
     \<Rightarrow> task \<times> ('n, 'h) cluster" where
  "follow_message S start i fo now (Inr (Snapshot _ live intervals)) cl = (Following fo, store_snapshot S i live intervals cl)"
| "follow_message S start i fo now (Inr (Capture_batch records)) cl = (Following fo, store_capture start i records cl)"
| "follow_message S start i fo now (Inr (Result result)) cl = (Task_over (Some (fo_link fo)) (Inr (result, now)), cl)"
| "follow_message S start i fo now (Inr (Error_message message)) cl =
     (Task_over None (Inl (''reported an error: '' @ message)), cl)"
| "follow_message S start i fo now (Inr other) cl =
     (Task_over None (Inl (''sent an unexpected '' @ message_kind other @ '' message'')), cl)"
| "follow_message S start i fo now (Inl (Recv_closed reason)) cl =
     (Task_over None (Inl (''disconnected before sending its result ('' @ reason @ '')'')), cl)"
| "follow_message S start i fo now (Inl (Recv_invalid reason)) cl = (Task_over None (Inl reason), cl)"

fun follow_step ::
    "'h histograms \<Rightarrow> duration \<Rightarrow> instant \<Rightarrow> bool \<Rightarrow> nat \<Rightarrow> 'n follow_event \<Rightarrow> follow \<Rightarrow> ('n, 'h) cluster
     \<Rightarrow> task \<times> ('n, 'h) cluster" where
  "follow_step S timeout start stop i (Received received now) fo cl = follow_message S start i fo now received cl"
| "follow_step S timeout start stop i (Stop_seen now) fo cl =
     (if stop \<and> \<not> fo_stopped fo
      then (Following (fo\<lparr>fo_stopped := True, fo_deadline := min (fo_deadline fo) (now + timeout)\<rparr>), log_sent [i] Stop cl)
      else (Following fo, cl))"
| "follow_step S timeout start stop i (Deadline_at now) fo cl =
     (if fo_deadline fo \<le> now
      then (Task_over None (Inl (''sent no result within '' @ debug_duration timeout @ '' of the end of the run (--agent-timeout)'')), cl)
      else (Following fo, cl))"
| "follow_step S timeout start stop i (Task_panicked e) fo cl =
     (Task_over None (Inl (''its control task failed: '' @ e)), cl)"

section \<open>Live counters\<close>

definition EXPORT_LAG :: duration where "EXPORT_LAG = from_secs 1"

definition shard_of_snapshot :: "wire_snapshot \<Rightarrow> counter_shard" where
  "shard_of_snapshot s =
     \<lparr>cs_active = wsn_active s, cs_established = wsn_established s, cs_failed = wsn_failed s, cs_reconnects = wsn_reconnects s,
      cs_messages_sent = wsn_messages_sent s, cs_messages_received = wsn_messages_received s,
      cs_bytes_sent = wsn_bytes_sent s, cs_bytes_received = wsn_bytes_received s, cs_total_errors = wsn_total_errors s,
      cs_unsolicited = wsn_unsolicited s\<rparr>"

text \<open>The histograms of one interval added up, those that cannot be added left out.\<close>

definition merge_histogram :: "'h hdr \<Rightarrow> 'h option \<Rightarrow> 'h option \<Rightarrow> 'h option" where
  "merge_histogram H hist merged =
     (case hist of
        None \<Rightarrow> merged
      | Some h \<Rightarrow> (case merged of None \<Rightarrow> Some h | Some m \<Rightarrow> Some (or_default (hdr_add H m h) m)))"

definition snapshot_sum :: "'h agent_live list \<Rightarrow> wire_snapshot" where
  "snapshot_sum agents = fold (\<lambda>agent. add_snapshot (al_snapshot agent)) agents wire_snapshot_default"

definition publish_live :: "'h histograms \<Rightarrow> duration \<Rightarrow> duration \<Rightarrow> ('n, 'h) cluster \<Rightarrow> ('n, 'h) cluster" where
  "publish_live S elapsed interval cl =
     (let cl = cl\<lparr>cl_counters := update_shard 0 (\<lambda>_. shard_of_snapshot (snapshot_sum (cl_live cl))) (cl_counters cl)\<rparr>
      in case (cl_intervals cl, last_completed (elapsed - EXPORT_LAG) interval) of
           (Some live, Some bucket) \<Rightarrow>
             (let merged = fold (\<lambda>agent. merge_histogram (hs_hdr S) (fmlookup (al_intervals agent) bucket)) (cl_live cl) None
              in cl\<lparr>cl_intervals := Some (publish_remote bucket (interval_latency_from (hs_hdr S) merged) live)\<rparr>)
         | _ \<Rightarrow> cl)"

section \<open>A phase\<close>

text \<open>The tasks of a phase with the session they share; the turns are those of the tasks, the cancellation of
  the run and the ticks that publish the live counters, \<open>elapsed\<close> after the start.\<close>

record ('n, 'h) phase_state =
  px_tasks :: "task list"
  px_stop :: bool
  px_cluster :: "('n, 'h) cluster"

datatype 'n cluster_event = Agent_turn nat "'n follow_event" | Run_cancelled | Live_tick duration

definition agent_turn ::
    "'h histograms \<Rightarrow> duration \<Rightarrow> instant \<Rightarrow> nat \<Rightarrow> 'n follow_event \<Rightarrow> ('n, 'h) phase_state \<Rightarrow> ('n, 'h) phase_state" where
  "agent_turn S timeout start i event st =
     (if i < length (px_tasks st)
      then (case px_tasks st ! i of
              Following fo \<Rightarrow>
                (case follow_step S timeout start (px_stop st) i event fo (px_cluster st) of
                   (task, cl) \<Rightarrow> st\<lparr>px_tasks := (px_tasks st)[i := task], px_cluster := cl\<rparr>)
            | _ \<Rightarrow> st)
      else st)"

fun phase_turn ::
    "'h histograms \<Rightarrow> duration \<Rightarrow> instant \<Rightarrow> duration \<Rightarrow> 'n cluster_event \<Rightarrow> ('n, 'h) phase_state \<Rightarrow> ('n, 'h) phase_state" where
  "phase_turn S timeout start interval (Agent_turn i event) st = agent_turn S timeout start i event st"
| "phase_turn S timeout start interval Run_cancelled st = st\<lparr>px_stop := True\<rparr>"
| "phase_turn S timeout start interval (Live_tick elapsed) st =
     st\<lparr>px_cluster := publish_live S elapsed interval (px_cluster st)\<rparr>"

definition is_following :: "task \<Rightarrow> bool" where
  "is_following t = (case t of Following _ \<Rightarrow> True | _ \<Rightarrow> False)"

text \<open>The loop ends when every task is over.\<close>

fun follow_loop ::
    "'h histograms \<Rightarrow> duration \<Rightarrow> instant \<Rightarrow> duration \<Rightarrow> 'n cluster_event list \<Rightarrow> ('n, 'h) phase_state
     \<Rightarrow> ('n, 'h) phase_state option" where
  "follow_loop S timeout start interval events st =
     (if list_all (\<lambda>t. \<not> is_following t) (px_tasks st) then Some st
      else (case events of
              [] \<Rightarrow> None
            | event # events \<Rightarrow> follow_loop S timeout start interval events (phase_turn S timeout start interval event st)))"

declare follow_loop.simps [simp del]

definition start_task :: "'n coordinator \<Rightarrow> 'n phase_spec \<Rightarrow> 'n phase_answers \<Rightarrow> ('n, 'h) cluster \<Rightarrow> nat \<Rightarrow> task" where
  "start_task co spec answers cl i =
     (case cl_links cl ! i of
        None \<Rightarrow> No_task
      | Some link \<Rightarrow>
          (case qa_unsent answers i of
             Some e \<Rightarrow> Task_over None (Inl (''could not be started: '' @ e))
           | None \<Rightarrow> Following \<lparr>fo_link = link, fo_stopped = False,
               fo_deadline = qa_start answers + lc_duration (ps_config spec) + co_agent_timeout co\<rparr>))"

definition start_capture :: "instant \<Rightarrow> bool \<Rightarrow> ('n, 'h) cluster \<Rightarrow> cluster_error + ('n, 'h) cluster" where
  "start_capture start started cl =
     (case cl_capture cl of
        Capture_pending \<Rightarrow> (if started then Inr (cl\<lparr>cl_capture := Capture_running start\<rparr>) else Inl Cluster_io)
      | _ \<Rightarrow> Inr cl)"

text \<open>Starting every agent still in the run: the messages, the remote phase, the cleared intervals, the capture and
  the tasks, which take the connections.\<close>

definition start_phase ::
    "'n coordinator \<Rightarrow> 'n phase_spec \<Rightarrow> 'n phase_answers \<Rightarrow> ('n, 'h) cluster
     \<Rightarrow> (cluster_error + ('n, 'h) phase_state) \<times> ('n, 'h) cluster" where
  "start_phase co spec answers cl =
     (let cl = log_sent (linked cl) Start cl;
          cl = cl\<lparr>cl_intervals := map_option (begin_remote_phase (qa_start answers) (interval_for (lc_duration (ps_config spec)))
                 (ps_basis spec)) (cl_intervals cl),
               cl_live := map (\<lambda>agent. agent\<lparr>al_intervals := fmempty\<rparr>) (cl_live cl)\<rparr>
      in case start_capture (qa_start answers) (qa_capture answers) cl of
           Inl e \<Rightarrow> (Inl e, cl\<lparr>cl_capture := Capture_off\<rparr>)
         | Inr cl \<Rightarrow>
             (Inr \<lparr>px_tasks = map (start_task co spec answers cl) [0..<length (cl_links cl)], px_stop = False,
                px_cluster = cl\<lparr>cl_links := map (\<lambda>_. None) (cl_links cl)\<rparr>\<rparr>, cl))"

section \<open>The results of a phase\<close>

fun wire_error_text :: "wire_error \<Rightarrow> string" where
  "wire_error_text (Out_of_range v) = ''histogram value '' @ show_nat v @ '' out of range''"
| "wire_error_text No_histogram = ''cannot create a histogram''"

definition task_result :: "'h histograms \<Rightarrow> string + wire_result \<times> instant \<Rightarrow> string + 'h agent_result \<times> instant" where
  "task_result S outcome =
     and_then outcome (\<lambda>(wire, arrived). and_then (map_err wire_error_text (result_decode S wire)) (\<lambda>result. Inr (result, arrived)))"

text \<open>The last result, the parts and the session after the tasks.\<close>

record ('n, 'h) collected =
  ct_last :: "instant option"
  ct_parts :: "'h part list"
  ct_cluster :: "('n, 'h) cluster"

definition collect_result ::
    "'h histograms \<Rightarrow> 'n phase_spec \<Rightarrow> nat \<Rightarrow> task \<Rightarrow> ('n, 'h) collected \<Rightarrow> ('n, 'h) collected" where
  "collect_result S spec i task c =
     (case task of
        Task_over link outcome \<Rightarrow>
          (case task_result S outcome of
             Inr (result, arrived) \<Rightarrow>
               c\<lparr>ct_last := Some (case ct_last c of None \<Rightarrow> arrived | Some last_at \<Rightarrow> max last_at arrived),
                 ct_parts := (ct_parts c)[i := Finished result],
                 ct_cluster := (ct_cluster c)\<lparr>
                   cl_links := (cl_links (ct_cluster c))[i := link],
                   cl_dropped := (cl_dropped (ct_cluster c) + or_default (ar_capture_dropped result) 0) mod 2 ^ 64\<rparr>\<rparr>
           | Inl reason \<Rightarrow>
               (let cl = lose i (phase_reason spec reason) (ct_cluster c)
                in c\<lparr>ct_parts := (ct_parts c)[i := Lost (phase_reason spec reason)],
                  ct_cluster := (if i < length (cl_live cl)
                    then cl\<lparr>cl_live := (cl_live cl)[i := (cl_live cl ! i)\<lparr>al_snapshot := (al_snapshot (cl_live cl ! i))\<lparr>wsn_active := 0\<rparr>\<rparr>]\<rparr>
                    else cl)\<rparr>))
      | _ \<Rightarrow> c)"

fun collect_loop :: "'h histograms \<Rightarrow> 'n phase_spec \<Rightarrow> nat \<Rightarrow> task list \<Rightarrow> ('n, 'h) collected \<Rightarrow> ('n, 'h) collected" where
  "collect_loop S spec i [] c = c"
| "collect_loop S spec i (task # tasks) c = collect_loop S spec (i + 1) tasks (collect_result S spec i task c)"

definition part_bucket :: "nat \<Rightarrow> 'h part \<Rightarrow> 'h option" where
  "part_bucket bucket part = (case part of Finished r \<Rightarrow> fmlookup (sp_buckets (ar_series r)) bucket | _ \<Rightarrow> None)"

definition final_latency :: "'h histograms \<Rightarrow> 'h phase_run \<Rightarrow> duration \<Rightarrow> duration \<Rightarrow> (nat \<times> interval_latency) option" where
  "final_latency S run elapsed interval =
     map_option (\<lambda>bucket. (bucket, interval_latency_from (hs_hdr S)
         (fold (\<lambda>part. merge_histogram (hs_hdr S) (part_bucket bucket part)) (pn_parts run) None)))
       (last_completed elapsed interval)"

definition end_intervals :: "'h histograms \<Rightarrow> duration \<Rightarrow> 'h phase_run \<Rightarrow> live_state \<Rightarrow> live_state" where
  "end_intervals S interval run live =
     (let elapsed = (case pn_last_result run of None \<Rightarrow> 0 | Some arrived \<Rightarrow> arrived - pn_start run);
          live = (case final_latency S run elapsed interval of
              None \<Rightarrow> live | Some (index, lat) \<Rightarrow> publish_remote index lat live)
      in end_phase elapsed live)"

definition finish_phase ::
    "'h histograms \<Rightarrow> 'n phase_spec \<Rightarrow> instant \<Rightarrow> duration \<Rightarrow> 'h part list \<Rightarrow> ('n, 'h) phase_state \<Rightarrow> 'h phase_run \<times> ('n, 'h) cluster" where
  "finish_phase S spec start elapsed parts st =
     (let interval = interval_for (lc_duration (ps_config spec));
          c = collect_loop S spec 0 (px_tasks st)
            \<lparr>ct_last = None, ct_parts = parts, ct_cluster = publish_live S elapsed interval (px_cluster st)\<rparr>;
          run = \<lparr>pn_start = start, pn_parts = ct_parts c, pn_last_result = ct_last c,
            pn_chaos_seed = config_chaos_seed (ps_config spec)\<rparr>
      in (run, (ct_cluster c)\<lparr>cl_intervals := map_option (end_intervals S interval run) (cl_intervals (ct_cluster c))\<rparr>))"

text \<open>One phase on the agents still in the run: the turns of its tasks, and when the live counters are published for
  the last time.\<close>

record 'n phase_inputs_remote =
  qi_answers :: "'n phase_answers"
  qi_events :: "'n cluster_event list"
  qi_elapsed :: duration

definition run_phase ::
    "'n env \<Rightarrow> 'h histograms \<Rightarrow> 'n coordinator \<Rightarrow> 'n phase_spec \<Rightarrow> 'n phase_inputs_remote \<Rightarrow> bool \<Rightarrow> ('n, 'h) cluster
     \<Rightarrow> (cluster_error + 'h phase_run option) \<times> ('n, 'h) cluster" where
  "run_phase env S co spec inp first cl =
     (case barrier env co spec (qi_answers inp) first cl of
        (Inl e, cl) \<Rightarrow> (Inl e, cl)
      | (Inr None, cl) \<Rightarrow> (Inr None, cl)
      | (Inr (Some parts), cl) \<Rightarrow>
          (if list_all (\<lambda>link. link = None) (cl_links cl)
           then (Inr (Some \<lparr>pn_start = qa_start (qi_answers inp), pn_parts = parts, pn_last_result = None,
                  pn_chaos_seed = config_chaos_seed (ps_config spec)\<rparr>), cl)
           else (case start_phase co spec (qi_answers inp) cl of
                   (Inl e, cl) \<Rightarrow> (Inl e, cl)
                 | (Inr st, cl) \<Rightarrow>
                     (case follow_loop S (co_agent_timeout co) (qa_start (qi_answers inp))
                         (interval_for (lc_duration (ps_config spec))) (qi_events inp) st of
                        None \<Rightarrow> (Inl Cluster_waiting, cl)
                      | Some st \<Rightarrow>
                          (case finish_phase S spec (qa_start (qi_answers inp)) (qi_elapsed inp) parts st of
                             (run, cl) \<Rightarrow> (Inr (Some run), cl))))))"

end
