(* ===== verification/Agent.thy ===== *)
theory Agent
  imports Coordinator
begin

text \<open>
  The load agent of \<open>src/distributed/agent.rs\<close>: its configuration, the claim that keeps it to one coordinator at a time,
  and the conversation of one test, phase by phase, with what it sends. What the control channel delivers, whether a
  message could be sent, the clock, the cancellation of the agent and the outcome of the run are inputs; the run itself
  is that of \<open>Runner\<close>. Error texts keep the code's words without the text of the error they wrap.
\<close>

section \<open>Configuration\<close>

record agent_server_config =
  agc_listen :: string
  agc_token :: string
  agc_tls :: "(string \<times> string) option"
  agc_source_ips :: "string list"
  agc_ready_delay :: duration

record agent_config_builder =
  agb_listen :: "string option"
  agb_token :: "string option"
  agb_tls :: "(string \<times> string) option"
  agb_source_ips :: "string list"
  agb_ready_delay :: duration

definition agent_build :: "'n env \<Rightarrow> agent_config_builder \<Rightarrow> config_error + agent_server_config" where
  "agent_build env b =
     and_then (case agb_listen b of
         Some l \<Rightarrow> (if trim l \<noteq> [] then Inr l else Inl (InvalidOption ''wsblast agent needs --listen ADDR''))
       | None \<Rightarrow> Inl (InvalidOption ''wsblast agent needs --listen ADDR'')) (\<lambda>listen.
     and_then (case agb_token b of
         Some t \<Rightarrow> (if t \<noteq> [] then Inr t else Inl (InvalidOption ''wsblast agent needs a token''))
       | None \<Rightarrow> Inl (InvalidOption ''wsblast agent needs a token'')) (\<lambda>token.
     and_then (validate_token token) (\<lambda>_.
     and_then (check_source_ips env (agb_source_ips b) []) (\<lambda>ips.
       Inr \<lparr>agc_listen = listen, agc_token = token, agc_tls = agb_tls b, agc_source_ips = ips,
         agc_ready_delay = agb_ready_delay b\<rparr>))))"

section \<open>One coordinator at a time\<close>

text \<open>\<open>Shared\<close>: the token and the flag a coordinator claims, as the handshake callback of \<open>control\<close> uses them.\<close>

datatype http_status = Unauthorized | Conflict

definition presented_token :: "string option \<Rightarrow> string" where
  "presented_token header = or_default (Option.bind header bearer_token) []"

definition handshake_callback :: "string \<Rightarrow> string option \<Rightarrow> bool \<Rightarrow> (http_status + unit) \<times> bool" where
  "handshake_callback token header busy =
     (if \<not> tokens_match (to_bytes token) (to_bytes (presented_token header)) then (Inl Unauthorized, busy)
      else if busy then (Inl Conflict, busy)
      else (Inr (), True))"

text \<open>Where a control connection is: in its handshake; in the callback between claiming the flag and noting the claim;
  in its handshake with the claim noted; holding the guard that releases the flag; refused; gone.\<close>

datatype control_pc = Not_connected | Handshaking | Won | Claimed | Holding | Refused http_status | Gone

record agent_server =
  sv_busy :: bool
  sv_pc :: "nat \<Rightarrow> control_pc"

definition server_new :: agent_server where
  "server_new = \<lparr>sv_busy = False, sv_pc = \<lambda>_. Not_connected\<rparr>"

text \<open>The atomic steps of the connections of one agent. \<open>header\<close> gives the authorization header of every connection.
  A cancelled handshake releases the flag itself when the claim is noted; otherwise the guard does, however the handshake
  and the test end.\<close>

inductive control_step :: "string \<Rightarrow> (nat \<Rightarrow> string option) \<Rightarrow> agent_server \<Rightarrow> agent_server \<Rightarrow> bool"
  for token :: string and header :: "nat \<Rightarrow> string option" where
  accept: "sv_pc s c = Not_connected \<Longrightarrow> control_step token header s (s\<lparr>sv_pc := (sv_pc s)(c := Handshaking)\<rparr>)"
| refuse: "sv_pc s c = Handshaking \<Longrightarrow> handshake_callback token (header c) (sv_busy s) = (Inl status, busy) \<Longrightarrow>
    control_step token header s (s\<lparr>sv_busy := busy, sv_pc := (sv_pc s)(c := Refused status)\<rparr>)"
| claim: "sv_pc s c = Handshaking \<Longrightarrow> handshake_callback token (header c) (sv_busy s) = (Inr (), busy) \<Longrightarrow>
    control_step token header s (s\<lparr>sv_busy := busy, sv_pc := (sv_pc s)(c := Won)\<rparr>)"
| note_claim: "sv_pc s c = Won \<Longrightarrow> control_step token header s (s\<lparr>sv_pc := (sv_pc s)(c := Claimed)\<rparr>)"
| cancel_unclaimed: "sv_pc s c \<in> {Handshaking, Refused status} \<Longrightarrow> control_step token header s (s\<lparr>sv_pc := (sv_pc s)(c := Gone)\<rparr>)"
| cancel_claimed: "sv_pc s c = Claimed \<Longrightarrow> control_step token header s (s\<lparr>sv_busy := False, sv_pc := (sv_pc s)(c := Gone)\<rparr>)"
| guard: "sv_pc s c = Claimed \<Longrightarrow> control_step token header s (s\<lparr>sv_pc := (sv_pc s)(c := Holding)\<rparr>)"
| release: "sv_pc s c = Holding \<Longrightarrow> control_step token header s (s\<lparr>sv_busy := False, sv_pc := (sv_pc s)(c := Gone)\<rparr>)"

definition holds_agent :: "agent_server \<Rightarrow> nat \<Rightarrow> bool" where
  "holds_agent s c \<longleftrightarrow> sv_pc s c \<in> {Won, Claimed, Holding}"

section \<open>Reading the control channel\<close>

text \<open>What the stream yields; the end of the list is its end. \<open>parse\<close> is \<open>Message::decode\<close>.\<close>

datatype ws_item = Ws_text string | Ws_binary | Ws_close | Ws_ping_pong | Ws_failed string

fun recv :: "(string \<Rightarrow> string + 'n control_message) \<Rightarrow> ws_item list \<Rightarrow> (recv_error + 'n control_message) \<times> ws_item list" where
  "recv parse [] = (Inl (Recv_closed ''the connection was closed''), [])"
| "recv parse (Ws_text text # items) = (map_err Recv_invalid (parse text), items)"
| "recv parse (Ws_close # items) = (Inl (Recv_closed ''the connection was closed''), items)"
| "recv parse (Ws_binary # items) = (Inl (Recv_invalid ''unexpected binary frame on the control channel''), items)"
| "recv parse (Ws_ping_pong # items) = recv parse items"
| "recv parse (Ws_failed e # items) = (Inl (Recv_closed e), items)"

datatype 'n received = Got "recv_error + 'n control_message" | Timed_out | Shutting_down

fun recv_within :: "duration \<Rightarrow> 'n received \<Rightarrow> recv_error + 'n control_message" where
  "recv_within limit (Got received) = received"
| "recv_within limit Timed_out = Inl (Recv_closed (''no message within '' @ debug_duration limit))"
| "recv_within limit Shutting_down = Inl (Recv_closed ''the agent is shutting down'')"

definition unexpected :: "'n control_message \<Rightarrow> string \<Rightarrow> string" where
  "unexpected message expected = ''expected a '' @ expected @ '' message, received '' @ message_kind message"

section \<open>A phase\<close>

datatype phase_end = Phase_done | Coordinator_gone

text \<open>Why a test cannot go on: the text of the error to send, empty when the connection is gone; or a panic.\<close>

datatype agent_failure = Failed string | Agent_panicked

abbreviation agent_closed :: agent_failure where
  "agent_closed \<equiv> Failed []"

fun config_failure :: "build_error \<Rightarrow> agent_failure" where
  "config_failure (Rejected e) = Failed ''invalid configuration''"
| "config_failure Panicked = Agent_panicked"

definition agent_phase_runner :: "'n load_config \<Rightarrow> 'n wire_phase option \<Rightarrow> agent_failure + 'n load_config \<times> 'n scenario_phase option" where
  "agent_phase_runner config phase =
     (case phase of
        None \<Rightarrow> Inr (config, None)
      | Some p \<Rightarrow> and_then (map_err (\<lambda>e. config_failure (Rejected e)) (into_phase p config)) (\<lambda>q. Inr (config, Some q)))"

definition agent_load_config :: "'n env \<Rightarrow> string list \<Rightarrow> 'n wire_config \<Rightarrow> agent_failure + 'n load_config" where
  "agent_load_config env ips wire =
     and_then (map_err config_failure (into_config env (wire\<lparr>wc_capture_limit := None\<rparr>))) (\<lambda>c. Inr (c\<lparr>lc_source_ips := ips\<rparr>))"

text \<open>The loop that waits for the start; each message with the time left to wait for it. \<open>None\<close>: still waiting.\<close>

fun await_start :: "(duration \<times> 'n received) list \<Rightarrow> (agent_failure + bool) option" where
  "await_start [] = None"
| "await_start ((limit, r) # rest) =
     (case recv_within limit r of
        Inr Start \<Rightarrow> Some (Inr True)
      | Inr (Token _) \<Rightarrow> await_start rest
      | Inr Stop \<Rightarrow> Some (Inr False)
      | Inr other \<Rightarrow> Some (Inl (Failed (unexpected other ''start'')))
      | Inl (Recv_closed _) \<Rightarrow> Some (Inr False)
      | Inl (Recv_invalid reason) \<Rightarrow> Some (Inl (Failed reason)))"

definition recent_intervals :: "'h hdr \<Rightarrow> instant \<Rightarrow> 'h interval_store option \<Rightarrow> wire_interval list" where
  "recent_intervals H now store =
     (case store of
        None \<Rightarrow> []
      | Some st \<Rightarrow>
          (let completed = min u64_max ((now - is_start st) div max (is_interval st) 1)
           in List.map_filter (\<lambda>index. map_option (\<lambda>hist. \<lparr>wi_index = index, wi_values = to_sparse H hist\<rparr>) (is_buckets st index))
                [completed - 2..<completed]))"

text \<open>What the loop around the run wakes up for: the run is over; a tick, with the counters and the intervals of the run;
  a batch of capture records; a message; the agent shuts down. A tick and a batch come with whether they could be sent.\<close>

datatype ('n, 'h) run_event =
    Run_over "string + 'h run_outcome"
  | Run_tick instant live_snapshot "'h interval_store option" bool
  | Run_batch "cap_line list" bool
  | Run_received "recv_error + 'n control_message"
  | Run_shutdown

record 'n agent_run =
  gr_gone :: bool
  gr_cancelled :: bool
  gr_sent :: "'n control_message list"

definition run_send :: "bool \<Rightarrow> 'n control_message \<Rightarrow> 'n agent_run \<Rightarrow> 'n agent_run" where
  "run_send sent m s =
     (if gr_gone s then s
      else if sent then s\<lparr>gr_sent := gr_sent s @ [m]\<rparr>
      else s\<lparr>gr_gone := True, gr_cancelled := True\<rparr>)"

fun run_turn :: "'h hdr \<Rightarrow> instant \<Rightarrow> ('n, 'h) run_event \<Rightarrow> 'n agent_run \<Rightarrow> 'n agent_run" where
  "run_turn H started (Run_tick now live store sent) s =
     run_send sent (Snapshot (now - started) (wire_snapshot_from live) (recent_intervals H now store)) s"
| "run_turn H started (Run_batch records sent) s = run_send sent (Capture_batch records) s"
| "run_turn H started (Run_received received) s =
     (if gr_gone s then s
      else (case received of
              Inr Stop \<Rightarrow> s\<lparr>gr_cancelled := True\<rparr>
            | Inl (Recv_closed _) \<Rightarrow> s\<lparr>gr_gone := True, gr_cancelled := True\<rparr>
            | _ \<Rightarrow> s))"
| "run_turn H started Run_shutdown s = s\<lparr>gr_cancelled := True\<rparr>"
| "run_turn H started (Run_over outcome) s = s"

text \<open>The loop ends with the run; without an outcome it is still running.\<close>

fun run_loop :: "'h hdr \<Rightarrow> instant \<Rightarrow> ('n, 'h) run_event list \<Rightarrow> 'n agent_run \<Rightarrow> (string + 'h run_outcome) option \<times> 'n agent_run" where
  "run_loop H started [] s = (None, s)"
| "run_loop H started (event # events) s =
     (case event of
        Run_over outcome \<Rightarrow> (Some outcome, s)
      | _ \<Rightarrow> run_loop H started events (run_turn H started event s))"

text \<open>The rest of the capture, batch by batch with whether it could be sent.\<close>

fun forward_rest :: "(cap_line list \<times> bool) list \<Rightarrow> 'n control_message list \<Rightarrow> (agent_failure + unit) \<times> 'n control_message list" where
  "forward_rest [] msgs = (Inr (), msgs)"
| "forward_rest ((records, sent) # rest) msgs =
     (if sent then forward_rest rest (msgs @ [Capture_batch records]) else (Inl agent_closed, msgs))"

text \<open>What a phase reads: whether the agent is cancelled while the target is resolved, whether the messages could be sent,
  the messages up to the start, the clock at the start, whether the capture thread starts, the events of the run, the rest
  of the capture with the number of records it dropped, the last counters, the interval histograms of the finished run,
  the open file limit and whether this is Windows.\<close>

record ('n, 'h) agent_inputs =
  gi_shutdown :: bool
  gi_ready_sent :: bool
  gi_start :: "(duration \<times> 'n received) list"
  gi_started_at_unix_ms :: nat
  gi_started :: instant
  gi_capture_starts :: bool
  gi_events :: "('n, 'h) run_event list"
  gi_forwarded :: "(cap_line list \<times> bool) list \<times> nat"
  gi_live :: live_snapshot
  gi_snapshot_sent :: bool
  gi_buckets :: "(nat, 'h) fmap"
  gi_result_sent :: bool
  gi_rlimit :: "nat option"
  gi_windows :: bool

definition outcome_meta :: "('n, 'h) agent_inputs \<Rightarrow> nat \<Rightarrow> nat option \<Rightarrow> 'h run_outcome \<Rightarrow> 'h result_meta" where
  "outcome_meta inp connections dropped outcome =
     \<lparr>rm_elapsed = ro_elapsed outcome, rm_started_at_unix_ms = gi_started_at_unix_ms inp, rm_connections = ro_connections outcome,
      rm_not_started = ro_not_started outcome, rm_capture_dropped = dropped, rm_lag = ro_lag outcome,
      rm_open_file_limit = open_file_limit_for (gi_rlimit inp) connections, rm_arrivals = ro_arrivals outcome,
      rm_compression = ro_compression outcome\<rparr>"

definition outcome_result :: "'h hdr \<Rightarrow> ('n, 'h) agent_inputs \<Rightarrow> nat \<Rightarrow> nat option \<Rightarrow> 'h run_outcome \<Rightarrow> wire_result" where
  "outcome_result H inp connections dropped outcome =
     wire_result_new H (gi_windows inp) (ro_totals outcome) (outcome_meta inp connections dropped outcome)
       (ro_time_series outcome) (gi_buckets inp)"

text \<open>Once the workers have stopped: the rest of the capture, the final counters, the result.\<close>

definition send_result ::
    "'h hdr \<Rightarrow> ('n, 'h) agent_inputs \<Rightarrow> nat \<Rightarrow> bool \<Rightarrow> 'h run_outcome \<Rightarrow> 'n control_message list
     \<Rightarrow> (agent_failure + phase_end) \<times> 'n control_message list" where
  "send_result H inp connections capturing outcome msgs =
     (case (if capturing then forward_rest (fst (gi_forwarded inp)) msgs else (Inr (), msgs)) of
        (Inl e, msgs) \<Rightarrow> (Inl e, msgs)
      | (Inr _, msgs) \<Rightarrow>
          (if \<not> gi_snapshot_sent inp then (Inl agent_closed, msgs)
           else (let msgs = msgs @ [Snapshot (ro_elapsed outcome) (wire_snapshot_from (gi_live inp)) []];
                     dropped = (if capturing then Some (snd (gi_forwarded inp)) else None)
                 in if \<not> gi_result_sent inp then (Inl agent_closed, msgs)
                    else (Inr Phase_done, msgs @ [Result (outcome_result H inp connections dropped outcome)]))))"

definition run_started ::
    "'h hdr \<Rightarrow> ('n, 'h) agent_inputs \<Rightarrow> nat \<Rightarrow> bool \<Rightarrow> 'n control_message list
     \<Rightarrow> (agent_failure + phase_end) option \<times> 'n control_message list" where
  "run_started H inp connections capturing msgs =
     (if capturing \<and> \<not> gi_capture_starts inp then (Some (Inl (Failed ''cannot start the capture'')), msgs)
      else (case run_loop H (gi_started inp) (gi_events inp) \<lparr>gr_gone = False, gr_cancelled = False, gr_sent = msgs\<rparr> of
              (None, s) \<Rightarrow> (None, gr_sent s)
            | (Some outcome, s) \<Rightarrow>
                (if gr_gone s then (Some (Inr Coordinator_gone), gr_sent s)
                 else (case outcome of
                         Inl e \<Rightarrow> (Some (Inl (Failed (''the run failed: '' @ e))), gr_sent s)
                       | Inr r \<Rightarrow> map_prod Some id (send_result H inp connections capturing r (gr_sent s))))))"

text \<open>\<open>run_phase\<close> of the agent: how the phase ended, \<open>None\<close> when it still waits, and what was sent.\<close>

definition agent_run_phase ::
    "'n env \<Rightarrow> 'h hdr \<Rightarrow> string list \<Rightarrow> 'n wire_config \<Rightarrow> ('n, 'h) agent_inputs \<Rightarrow> 'n control_message list
     \<Rightarrow> (agent_failure + phase_end) option \<times> 'n control_message list" where
  "agent_run_phase env H ips wire inp msgs =
     (case and_then (agent_load_config env ips wire) (\<lambda>config. agent_phase_runner config (wc_phase wire)) of
        Inl e \<Rightarrow> (Some (Inl e), msgs)
      | Inr (config, phase) \<Rightarrow>
          (if gi_shutdown inp then (Some (Inl (Failed ''the agent is shutting down'')), msgs)
           else if \<not> gi_ready_sent inp then (Some (Inl agent_closed), msgs)
           else (let msgs = msgs @ [Ready (lc_connections config)]
                 in case await_start (gi_start inp) of
                      None \<Rightarrow> (None, msgs)
                    | Some (Inl e) \<Rightarrow> (Some (Inl e), msgs)
                    | Some (Inr False) \<Rightarrow> (Some (Inr Coordinator_gone), msgs)
                    | Some (Inr True) \<Rightarrow> run_started H inp (lc_connections config) (wc_capture_limit wire \<noteq> None) msgs)))"

section \<open>A test\<close>

definition SETUP_TIMEOUT :: duration where "SETUP_TIMEOUT = from_secs 60"

text \<open>The loop that waits for the next share: \<open>Inr None\<close> when the test is over.\<close>

fun await_prepare :: "duration \<Rightarrow> 'n received list \<Rightarrow> (agent_failure + ('n wire_config \<times> duration) option) option" where
  "await_prepare wait [] = None"
| "await_prepare wait (r # rest) =
     (case recv_within wait r of
        Inr (Prepare config start_timeout) \<Rightarrow> Some (Inr (Some (config, start_timeout)))
      | Inr (Token _) \<Rightarrow> await_prepare wait rest
      | Inr Stop \<Rightarrow> Some (Inr None)
      | Inr other \<Rightarrow> Some (Inl (Failed (unexpected other ''prepare'')))
      | Inl (Recv_closed _) \<Rightarrow> Some (Inr None)
      | Inl (Recv_invalid reason) \<Rightarrow> Some (Inl (Failed reason)))"

text \<open>The phases of a test, each with the messages before it and its inputs. Without an error the test just ends.\<close>

fun test_loop ::
    "'n env \<Rightarrow> 'h hdr \<Rightarrow> string list \<Rightarrow> duration \<Rightarrow> ('n received list \<times> ('n, 'h) agent_inputs) list \<Rightarrow> 'n control_message list
     \<Rightarrow> (agent_failure + unit) option \<times> 'n control_message list" where
  "test_loop env H ips wait [] msgs = (None, msgs)"
| "test_loop env H ips wait ((before, inp) # rest) msgs =
     (case await_prepare wait before of
        None \<Rightarrow> (None, msgs)
      | Some (Inl e) \<Rightarrow> (Some (Inl e), msgs)
      | Some (Inr None) \<Rightarrow> (Some (Inr ()), msgs)
      | Some (Inr (Some (wire, start_timeout))) \<Rightarrow>
          (case duration_add (wc_duration wire) start_timeout of
             None \<Rightarrow> (Some (Inl Agent_panicked), msgs)
           | Some d \<Rightarrow>
               (case duration_add d SETUP_TIMEOUT of
                  None \<Rightarrow> (Some (Inl Agent_panicked), msgs)
                | Some wait \<Rightarrow>
                    (case agent_run_phase env H ips wire inp msgs of
                       (Some (Inr Phase_done), msgs) \<Rightarrow> test_loop env H ips wait rest msgs
                     | (Some (Inr Coordinator_gone), msgs) \<Rightarrow> (Some (Inr ()), msgs)
                     | (Some (Inl e), msgs) \<Rightarrow> (Some (Inl e), msgs)
                     | (None, msgs) \<Rightarrow> (None, msgs)))))"

definition run_test ::
    "'n env \<Rightarrow> 'h hdr \<Rightarrow> string \<Rightarrow> string list \<Rightarrow> 'n received \<Rightarrow> bool \<Rightarrow> ('n received list \<times> ('n, 'h) agent_inputs) list
     \<Rightarrow> (agent_failure + unit) option \<times> 'n control_message list" where
  "run_test env H version ips greeting hello_sent phases =
     (case recv_within SETUP_TIMEOUT greeting of
        Inr (Hello protocol peer_version) \<Rightarrow>
          (case check_protocol protocol peer_version of
             Inl e \<Rightarrow> (Some (Inl (Failed e)), [])
           | Inr _ \<Rightarrow>
               (if hello_sent then test_loop env H ips SETUP_TIMEOUT phases [hello version] else (Some (Inl agent_closed), [])))
      | Inr other \<Rightarrow> (Some (Inl (Failed (unexpected other ''hello''))), [])
      | Inl (Recv_invalid reason) \<Rightarrow> (Some (Inl (Failed reason)), [])
      | Inl (Recv_closed _) \<Rightarrow> (Some (Inr ()), []))"

text \<open>The rest of \<open>control\<close>: an error that has a text is sent before the connection is closed.\<close>

definition serve_test ::
    "'n env \<Rightarrow> 'h hdr \<Rightarrow> string \<Rightarrow> string list \<Rightarrow> 'n received \<Rightarrow> bool \<Rightarrow> ('n received list \<times> ('n, 'h) agent_inputs) list \<Rightarrow> bool
     \<Rightarrow> 'n control_message list" where
  "serve_test env H version ips greeting hello_sent phases error_sent =
     (case run_test env H version ips greeting hello_sent phases of
        (Some (Inl (Failed message)), msgs) \<Rightarrow> (if message \<noteq> [] \<and> error_sent then msgs @ [Error_message message] else msgs)
      | (_, msgs) \<Rightarrow> msgs)"

end
