(* ===== verification/Cluster_Merge.thy ===== *)
theory Cluster_Merge
  imports Coordinator
begin

text \<open>
  \<open>src/distributed/coordinator.rs\<close>, second part: the generator health of a distributed run, the merge of a phase and of a
  scenario from what the agents sent, and the two entry points, \<open>run\<close> and \<open>run_scenario\<close>.
\<close>

section \<open>Outcomes\<close>

record agent_outcome =
  ao_address :: string
  ao_metrics :: "aggregated_metrics option"
  ao_error :: "string option"
  ao_started_at :: "nat option"

record distributed_outcome =
  do_metrics :: aggregated_metrics
  do_agents :: "agent_outcome list"

definition lost_agents :: "distributed_outcome \<Rightarrow> agent_outcome list" where
  "lost_agents r = filter (\<lambda>agent. ao_metrics agent = None) (do_agents r)"

record distributed_scenario_outcome =
  dx_scenario :: scenario_outcome
  dx_agents :: "agent_outcome list"
  dx_phases :: "agent_outcome list list"

definition lost_in_scenario :: "distributed_scenario_outcome \<Rightarrow> agent_outcome list" where
  "lost_in_scenario r = filter (\<lambda>agent. ao_metrics agent = None) (dx_agents r)"

section \<open>Generator health\<close>

record generator_health =
  gh_lag :: "(string \<times> generator_lag) option"
  gh_files :: "(string \<times> open_file_limit) option"

definition lag_worse :: "generator_lag \<Rightarrow> generator_lag \<Rightarrow> bool" where
  "lag_worse l worst =
     (gl_p99_us worst < gl_p99_us l \<or> gl_p99_us worst = gl_p99_us l \<and> gl_max_us worst < gl_max_us l)"

definition headroom :: "open_file_limit \<Rightarrow> int" where
  "headroom limit = int (of_soft_limit limit) - int (of_needed limit)"

definition health_step :: "agent_generator \<Rightarrow> generator_health \<Rightarrow> generator_health" where
  "health_step agent h =
     \<lparr>gh_lag = (case ag_lag agent of
          None \<Rightarrow> gh_lag h
        | Some l \<Rightarrow> (if (case gh_lag h of None \<Rightarrow> True | Some (_, worst) \<Rightarrow> lag_worse l worst)
            then Some (ag_agent agent, l) else gh_lag h)),
      gh_files = (case ag_files agent of
          None \<Rightarrow> gh_files h
        | Some f \<Rightarrow> (if (case gh_files h of None \<Rightarrow> True | Some (_, tightest) \<Rightarrow> headroom f < headroom tightest)
            then Some (ag_agent agent, f) else gh_files h))\<rparr>"

definition any_saturated :: "agent_generator list \<Rightarrow> bool" where
  "any_saturated generators = list_ex (\<lambda>agent. case ag_lag agent of None \<Rightarrow> False | Some l \<Rightarrow> gl_saturated l) generators"

definition health_of :: "agent_generator list \<Rightarrow> generator_health" where
  "health_of generators =
     (let h = fold health_step generators \<lparr>gh_lag = None, gh_files = None\<rparr>
      in h\<lparr>gh_lag := map_option (\<lambda>(agent, worst). (agent, worst\<lparr>gl_saturated := any_saturated generators\<rparr>)) (gh_lag h)\<rparr>)"

definition health_apply :: "generator_health \<Rightarrow> aggregated_metrics \<Rightarrow> aggregated_metrics" where
  "health_apply h metrics = with_generator (map_option snd (gh_lag h)) (map_option snd (gh_files h)) metrics"

definition agent_generators :: "agent_outcome list \<Rightarrow> agent_generator list" where
  "agent_generators agents =
     concat (map (\<lambda>agent. case ao_metrics agent of
         None \<Rightarrow> []
       | Some m \<Rightarrow> [\<lparr>ag_agent = ao_address agent, ag_lag = m_generator_lag m, ag_files = m_open_files m\<rparr>]) agents)"

definition cluster_summary :: "agent_outcome list \<Rightarrow> distributed_summary \<times> generator_health" where
  "cluster_summary agents =
     (let generators = agent_generators agents;
          health = health_of generators
      in (\<lparr>ds_agents = map ao_address agents,
           ds_lost = map ao_address (filter (\<lambda>agent. ao_metrics agent = None) agents),
           ds_generators = generators, ds_lag_agent = map_option fst (gh_lag health),
           ds_files_agent = map_option fst (gh_files health)\<rparr>, health))"

section \<open>Merging a phase\<close>

record 'h phase_merge =
  pm_totals :: "'h metrics_totals"
  pm_arrivals :: "arrival_counts option"
  pm_compression :: "compression_counts option"
  pm_parts :: "'h series_part list"
  pm_connections :: u64
  pm_not_started :: u64
  pm_agents :: "agent_outcome list"

definition own_metrics :: "'h hdr \<Rightarrow> bool \<Rightarrow> 'h agent_result \<Rightarrow> aggregated_metrics" where
  "own_metrics H windows r =
     with_generator (lag_summary H windows (ar_lag r)) (ar_open_file_limit r)
       (with_time_series (sp_series (ar_series r))
         (with_not_started (ar_not_started r) (totals_finish H (ar_elapsed r) (ar_connections r) (ar_totals r))))"

definition lost_outcome :: "agent_address \<Rightarrow> string \<Rightarrow> agent_outcome" where
  "lost_outcome address reason = \<lparr>ao_address = aa_name address, ao_metrics = None, ao_error = Some reason, ao_started_at = None\<rparr>"

definition part_outcome :: "'h hdr \<Rightarrow> bool \<Rightarrow> agent_address \<Rightarrow> 'h part \<Rightarrow> agent_outcome" where
  "part_outcome H windows address part =
     (case part of
        Finished r \<Rightarrow> \<lparr>ao_address = aa_name address, ao_metrics = Some (own_metrics H windows r), ao_error = None,
          ao_started_at = Some (ar_started_at_unix_ms r)\<rparr>
      | Lost reason \<Rightarrow> lost_outcome address reason
      | Absent \<Rightarrow> lost_outcome address ''lost in an earlier phase'')"

definition add_opt :: "('a \<Rightarrow> 'a \<Rightarrow> 'a) \<Rightarrow> 'a \<Rightarrow> 'a option \<Rightarrow> 'a option \<Rightarrow> 'a option" where
  "add_opt add zero counts acc = (case counts of None \<Rightarrow> acc | Some c \<Rightarrow> Some (add c (or_default acc zero)))"

definition merge_part_result :: "'h hdr \<Rightarrow> bool \<Rightarrow> agent_address \<Rightarrow> 'h part \<Rightarrow> 'h phase_merge \<Rightarrow> 'h phase_merge option" where
  "merge_part_result H windows address part m =
     (let m = m\<lparr>pm_agents := pm_agents m @ [part_outcome H windows address part]\<rparr>
      in case part of
           Finished r \<Rightarrow>
             map_option (\<lambda>totals. m\<lparr>pm_totals := totals,
                 pm_arrivals := add_opt add_arrivals arrival_counts_default (ar_arrivals r) (pm_arrivals m),
                 pm_compression := add_opt add_compression compression_zero (ar_compression r) (pm_compression m),
                 pm_parts := pm_parts m @ [ar_series r], pm_connections := pm_connections m + ar_connections r,
                 pm_not_started := pm_not_started m + ar_not_started r\<rparr>)
               (add_totals H (pm_totals m) (ar_totals r))
         | _ \<Rightarrow> Some m)"

fun merge_parts :: "'h hdr \<Rightarrow> bool \<Rightarrow> (agent_address \<times> 'h part) list \<Rightarrow> 'h phase_merge \<Rightarrow> 'h phase_merge option" where
  "merge_parts H windows [] m = Some m"
| "merge_parts H windows ((address, part) # rest) m =
     (case merge_part_result H windows address part m of None \<Rightarrow> None | Some m \<Rightarrow> merge_parts H windows rest m)"

definition merge_start :: "'h metrics_totals \<Rightarrow> 'h phase_merge" where
  "merge_start totals = \<lparr>pm_totals = totals, pm_arrivals = None, pm_compression = None, pm_parts = [], pm_connections = 0,
     pm_not_started = 0, pm_agents = []\<rparr>"

definition every_agent_lost :: "(string \<times> string option) list \<Rightarrow> cluster_error" where
  "every_agent_lost reasons = Distributed (''every agent was lost, so there is nothing to report: '' @
     join_reasons (map (\<lambda>(name, reason). ''agent '' @ name @ '': '' @ or_default reason ''lost'') reasons))"

definition with_seed :: "u64 option \<Rightarrow> aggregated_metrics \<Rightarrow> aggregated_metrics" where
  "with_seed seed m =
     (case (m_chaos m, seed) of (Some chaos, Some s) \<Rightarrow> m\<lparr>m_chaos := Some (chaos\<lparr>csum_seed := s\<rparr>)\<rparr> | _ \<Rightarrow> m)"

definition merged_metrics :: "'h hdr \<Rightarrow> arrivals option \<Rightarrow> duration \<Rightarrow> u64 option \<Rightarrow> 'h phase_merge \<Rightarrow> aggregated_metrics" where
  "merged_metrics H arrivals elapsed seed m =
     (case cluster_summary (pm_agents m) of (summary, health) \<Rightarrow>
        with_distributed summary (health_apply health (with_seed seed
          (with_compression (pm_compression m) (with_arrivals arrivals (pm_arrivals m)
            (with_time_series (merge_parallel H (pm_parts m)) (with_not_started (pm_not_started m)
              (totals_finish H elapsed (pm_connections m) (pm_totals m)))))))))"

definition merge_phase ::
    "'h hdr \<Rightarrow> bool \<Rightarrow> 'n coordinator \<Rightarrow> 'h phase_run \<Rightarrow> arrivals option
     \<Rightarrow> cluster_error + aggregated_metrics \<times> agent_outcome list" where
  "merge_phase H windows co run arrivals =
     (case totals_new H of
        None \<Rightarrow> Inl Cluster_metrics
      | Some totals \<Rightarrow>
          (case merge_parts H windows (zip (co_agents co) (pn_parts run)) (merge_start totals) of
             None \<Rightarrow> Inl Cluster_metrics
           | Some m \<Rightarrow>
               (case pn_last_result run of
                  None \<Rightarrow> Inl (every_agent_lost (map (\<lambda>agent. (ao_address agent, ao_error agent)) (pm_agents m)))
                | Some arrived \<Rightarrow>
                    Inr (merged_metrics H arrivals (arrived - pn_start run) (pn_chaos_seed run) m, pm_agents m))))"

section \<open>Merging a scenario\<close>

record 'h agent_totals =
  gt_totals :: "'h metrics_totals"
  gt_elapsed :: duration
  gt_connections :: u64
  gt_not_started :: u64
  gt_series :: time_series
  gt_lag :: "'h lag_totals"
  gt_open_files :: "open_file_limit option"

definition agent_totals_new :: "'h metrics_totals \<Rightarrow> 'h agent_totals" where
  "agent_totals_new totals = \<lparr>gt_totals = totals, gt_elapsed = 0, gt_connections = 0, gt_not_started = 0,
     gt_series = series_default, gt_lag = lag_default, gt_open_files = None\<rparr>"

definition larger_share :: "open_file_limit option \<Rightarrow> open_file_limit option \<Rightarrow> open_file_limit option" where
  "larger_share limit largest =
     (case limit of
        None \<Rightarrow> largest
      | Some l \<Rightarrow> (if (case largest of None \<Rightarrow> True | Some b \<Rightarrow> of_needed b < of_needed l) then Some l else largest))"

definition add_agent_result :: "'h hdr \<Rightarrow> duration \<Rightarrow> 'h agent_result \<Rightarrow> 'h agent_totals \<Rightarrow> cluster_error + 'h agent_totals" where
  "add_agent_result H offset r mine =
     (case add_totals H (gt_totals mine) (ar_totals r) of
        None \<Rightarrow> Inl Cluster_metrics
      | Some totals \<Rightarrow>
          (case duration_add (gt_elapsed mine) (ar_elapsed r) of
             None \<Rightarrow> Inl Cluster_panicked
           | Some elapsed \<Rightarrow>
               Inr \<lparr>gt_totals = totals, gt_elapsed = elapsed, gt_connections = gt_connections mine + ar_connections r,
                 gt_not_started = gt_not_started mine + ar_not_started r,
                 gt_series = series_append (sp_series (ar_series r)) offset (gt_series mine),
                 gt_lag = add_lag H (ar_lag r) (gt_lag mine),
                 gt_open_files = larger_share (ar_open_file_limit r) (gt_open_files mine)\<rparr>))"

record 'h scenario_merge =
  sm_totals :: "'h metrics_totals"
  sm_elapsed :: duration
  sm_connections :: u64
  sm_not_started :: u64
  sm_series :: time_series
  sm_results :: "phase_result list"
  sm_targets :: "(string \<times> url_view) list"
  sm_phase_agents :: "agent_outcome list list"
  sm_per_agent :: "'h agent_totals option list"
  sm_started_at :: "nat option list"
  sm_seed :: "u64 option"
  sm_arrivals :: "arrival_summary option"
  sm_compression :: "compression_summary option"

definition scenario_merge_start :: "'h metrics_totals \<Rightarrow> nat \<Rightarrow> 'h scenario_merge" where
  "scenario_merge_start totals n =
     \<lparr>sm_totals = totals, sm_elapsed = 0, sm_connections = 0, sm_not_started = 0, sm_series = series_default, sm_results = [],
      sm_targets = [], sm_phase_agents = [], sm_per_agent = replicate n None, sm_started_at = replicate n None,
      sm_seed = None, sm_arrivals = None, sm_compression = None\<rparr>"

text \<open>The result of agent \<open>slot\<close> in a phase, added to the run's totals and to the agent's own.\<close>

definition merge_slot :: "'h hdr \<Rightarrow> duration \<Rightarrow> nat \<Rightarrow> 'h part \<Rightarrow> 'h scenario_merge \<Rightarrow> cluster_error + 'h scenario_merge" where
  "merge_slot H offset slot part sm =
     (case part of
        Finished r \<Rightarrow>
          (case (add_totals H (sm_totals sm) (ar_totals r), totals_new H) of
             (Some totals, Some fresh) \<Rightarrow>
               and_then (add_agent_result H offset r (or_default (sm_per_agent sm ! slot) (agent_totals_new fresh))) (\<lambda>mine.
                 Inr (sm\<lparr>sm_totals := totals,
                   sm_started_at := (sm_started_at sm)[slot := get_or_insert (ar_started_at_unix_ms r) (sm_started_at sm ! slot)],
                   sm_per_agent := (sm_per_agent sm)[slot := Some mine]\<rparr>))
           | _ \<Rightarrow> Inl Cluster_metrics)
      | _ \<Rightarrow> Inr sm)"

fun merge_slots :: "'h hdr \<Rightarrow> duration \<Rightarrow> nat \<Rightarrow> 'h part list \<Rightarrow> 'h scenario_merge \<Rightarrow> cluster_error + 'h scenario_merge" where
  "merge_slots H offset slot [] sm = Inr sm"
| "merge_slots H offset slot (part # parts) sm =
     and_then (merge_slot H offset slot part sm) (merge_slots H offset (slot + 1) parts)"

definition merge_run ::
    "'h hdr \<Rightarrow> bool \<Rightarrow> 'n coordinator \<Rightarrow> 'n scenario_plan \<Rightarrow> instant \<Rightarrow> nat \<times> 'h phase_run \<Rightarrow> 'h scenario_merge
     \<Rightarrow> cluster_error + 'h scenario_merge" where
  "merge_run H windows co scenario start p sm =
     (case p of (index, run) \<Rightarrow>
        let phase = pl_phases scenario ! index;
            target = pl_targets scenario ! index;
            offset = pn_start run - start
        in and_then (merge_phase H windows co run (ph_arrivals phase)) (\<lambda>(metrics, agents).
             and_then (merge_slots H offset 0 (pn_parts run) (sm\<lparr>
                 sm_arrivals := add_phase_arrivals (m_arrivals metrics) (sm_arrivals sm),
                 sm_compression := add_phase_compression (m_compression metrics) (sm_compression sm),
                 sm_seed := (if sm_seed sm = None then map_option csum_seed (m_chaos metrics) else sm_seed sm)\<rparr>)) (\<lambda>sm.
               case duration_add (sm_elapsed sm) (m_elapsed metrics) of
                 None \<Rightarrow> Inl Cluster_panicked
               | Some elapsed \<Rightarrow>
                   Inr (sm\<lparr>sm_elapsed := elapsed, sm_connections := sm_connections sm + m_attempted metrics,
                     sm_not_started := sm_not_started sm + m_not_started metrics,
                     sm_series := series_append (m_time_series metrics) offset (sm_series sm),
                     sm_targets := sm_targets sm @ [(ph_name phase, target)],
                     sm_results := sm_results sm @ [\<lparr>pr_name = ph_name phase, pr_target = target, pr_connections = ph_connections phase,
                       pr_stages = ph_stages phase, pr_metrics = metrics, pr_slo = evaluate_slos (ph_slo phase) metrics\<rparr>],
                     sm_phase_agents := sm_phase_agents sm @ [agents]\<rparr>))))"

fun merge_runs_loop ::
    "'h hdr \<Rightarrow> bool \<Rightarrow> 'n coordinator \<Rightarrow> 'n scenario_plan \<Rightarrow> instant \<Rightarrow> (nat \<times> 'h phase_run) list \<Rightarrow> 'h scenario_merge
     \<Rightarrow> cluster_error + 'h scenario_merge" where
  "merge_runs_loop H windows co scenario start [] sm = Inr sm"
| "merge_runs_loop H windows co scenario start (run # runs) sm =
     and_then (merge_run H windows co scenario start run sm) (merge_runs_loop H windows co scenario start runs)"

definition scenario_agent ::
    "'h hdr \<Rightarrow> bool \<Rightarrow> agent_address \<Rightarrow> string option \<Rightarrow> 'h agent_totals option \<Rightarrow> nat option \<Rightarrow> agent_outcome" where
  "scenario_agent H windows address lost own_total started_at =
     (case (lost, own_total) of
        (None, Some mine) \<Rightarrow> \<lparr>ao_address = aa_name address,
          ao_metrics = Some (with_generator (lag_summary H windows (gt_lag mine)) (gt_open_files mine)
            (with_time_series (gt_series mine) (with_not_started (gt_not_started mine)
              (totals_finish H (gt_elapsed mine) (gt_connections mine) (gt_totals mine))))),
          ao_error = None, ao_started_at = started_at\<rparr>
      | _ \<Rightarrow> \<lparr>ao_address = aa_name address, ao_metrics = None, ao_error = Some (or_default lost ''lost''),
          ao_started_at = started_at\<rparr>)"

text \<open>An agent lost in any phase is lost for the whole scenario.\<close>

definition scenario_agents :: "'h hdr \<Rightarrow> bool \<Rightarrow> 'n coordinator \<Rightarrow> string option list \<Rightarrow> 'h scenario_merge \<Rightarrow> agent_outcome list" where
  "scenario_agents H windows co lost sm =
     map (\<lambda>slot. scenario_agent H windows (co_agents co ! slot) (lost ! slot) (sm_per_agent sm ! slot) (sm_started_at sm ! slot))
       [0..<length (co_agents co)]"

definition cluster_scenario_metrics :: "'h hdr \<Rightarrow> capture_summary option \<Rightarrow> agent_outcome list \<Rightarrow> 'h scenario_merge \<Rightarrow> aggregated_metrics" where
  "cluster_scenario_metrics H capture agents sm =
     (case cluster_summary agents of (summary, health) \<Rightarrow>
        with_seed (sm_seed sm)
          ((with_distributed summary (health_apply health (with_capture capture (with_time_series (sm_series sm)
              (with_not_started (sm_not_started sm) (totals_finish H (sm_elapsed sm) (sm_connections sm) (sm_totals sm)))))))
           \<lparr>m_arrivals := sm_arrivals sm, m_compression := sm_compression sm\<rparr>))"

definition merge_scenario ::
    "'h hdr \<Rightarrow> bool \<Rightarrow> 'n coordinator \<Rightarrow> 'n scenario_plan \<Rightarrow> (nat \<times> 'h phase_run) list \<Rightarrow> string option list
     \<Rightarrow> capture_summary option \<Rightarrow> cluster_error + distributed_scenario_outcome" where
  "merge_scenario H windows co scenario runs lost capture =
     (let start = (case runs of [] \<Rightarrow> 0 | (_, run) # _ \<Rightarrow> pn_start run)
      in case totals_new H of
           None \<Rightarrow> Inl Cluster_metrics
         | Some totals \<Rightarrow>
             and_then (merge_runs_loop H windows co scenario start runs (scenario_merge_start totals (length (co_agents co)))) (\<lambda>sm.
               let agents = scenario_agents H windows co lost sm;
                   metrics = cluster_scenario_metrics H capture agents sm;
                   overall = evaluate_slos (or_from (lc_slo (co_config co)) (pl_slo scenario)) metrics;
                   slo = scenario_slo_evaluation overall (map (\<lambda>p. (pr_name p, pr_slo p)) (sm_results sm))
               in Inr \<lparr>dx_scenario = \<lparr>so_metrics = metrics, so_phase_targets = sm_targets sm, so_phases = sm_results sm,
                        so_slo = with_action_slos slo (pl_action_slos scenario) metrics\<rparr>,
                      dx_agents = agents, dx_phases = sm_phase_agents sm\<rparr>))"

section \<open>The entry points\<close>

record close_answers =
  ca_started :: bool
  ca_joined :: "merged_outcome option"

definition close_cluster :: "'n coordinator \<Rightarrow> close_answers \<Rightarrow> ('n, 'h) cluster \<Rightarrow> capture_summary option" where
  "close_cluster co answers cl =
     (case lc_capture (co_config co) of
        None \<Rightarrow> None
      | Some (path, limit) \<Rightarrow>
          (case cl_capture cl of
             Capture_running _ \<Rightarrow> Some (merged_finish path limit (cl_dropped cl) (ca_joined answers))
           | Capture_pending \<Rightarrow> (if ca_started answers then Some (merged_finish path limit 0 (ca_joined answers)) else None)
           | Capture_off \<Rightarrow> None))"

record 'n run_answers =
  ra_open :: "'n open_answers"
  ra_phase :: "'n phase_inputs_remote"
  ra_close :: close_answers

definition single_spec :: "'n coordinator \<Rightarrow> 'n phase_spec" where
  "single_spec co = \<lparr>ps_config = co_config co, ps_wire_phase = None, ps_name = None,
     ps_basis = latency_basis_for (co_config co) False\<rparr>"

definition coordinator_run ::
    "'n env \<Rightarrow> 'h histograms \<Rightarrow> bool \<Rightarrow> 'n coordinator \<Rightarrow> 'n run_answers \<Rightarrow> cluster_error + distributed_outcome" where
  "coordinator_run env S windows co answers =
     (if co_scenario co \<noteq> None
      then Inl (Cluster_config (InvalidOption ''this coordinator runs a scenario; call run_scenario''))
      else and_then (open_cluster co (ra_open answers)) (\<lambda>cl :: ('n, 'h) cluster.
        case run_phase env S co (single_spec co) (ra_phase answers) True cl of
          (Inl e, _) \<Rightarrow> Inl e
        | (Inr None, _) \<Rightarrow> Inl interrupted_early
        | (Inr (Some run), cl) \<Rightarrow>
            and_then (merge_phase (hs_hdr S) windows co run (lc_arrivals (co_config co))) (\<lambda>(metrics, agents).
              Inr \<lparr>do_metrics = with_capture (close_cluster co (ra_close answers) cl) metrics, do_agents = agents\<rparr>)))"

definition scenario_spec :: "u64 \<Rightarrow> 'n coordinator \<Rightarrow> 'n scenario_phase \<Rightarrow> url_view \<Rightarrow> 'n phase_spec" where
  "scenario_spec seed co phase target =
     (let config = cluster_phase_config seed (co_config co) phase target
      in \<lparr>ps_config = config, ps_wire_phase = Some (from_phase phase), ps_name = Some (ph_name phase),
          ps_basis = latency_basis_for config (phase_skips_response_time phase)\<rparr>)"

definition any_finished :: "'h phase_run \<Rightarrow> bool" where
  "any_finished run = list_ex (\<lambda>part. case part of Finished _ \<Rightarrow> True | _ \<Rightarrow> False) (pn_parts run)"

text \<open>For each phase: whether the run is cancelled when it would start, the seed the clock gives and the answers.\<close>

record 'n scenario_answers =
  sa_open :: "'n open_answers"
  sa_cancelled :: "nat \<Rightarrow> bool"
  sa_seed :: "nat \<Rightarrow> u64"
  sa_phase :: "nat \<Rightarrow> 'n phase_inputs_remote"
  sa_close :: close_answers

fun scenario_loop ::
    "'n env \<Rightarrow> 'h histograms \<Rightarrow> 'n coordinator \<Rightarrow> 'n scenario_answers \<Rightarrow> (nat \<times> 'n scenario_phase \<times> url_view) list \<Rightarrow> bool
     \<Rightarrow> (nat \<times> 'h phase_run) list \<Rightarrow> ('n, 'h) cluster \<Rightarrow> (cluster_error + (nat \<times> 'h phase_run) list) \<times> ('n, 'h) cluster" where
  "scenario_loop env S co answers [] first runs cl = (Inr runs, cl)"
| "scenario_loop env S co answers ((index, phase, target) # rest) first runs cl =
     (if sa_cancelled answers index \<or> list_all (\<lambda>link. link = None) (cl_links cl) then (Inr runs, cl)
      else (case run_phase env S co (scenario_spec (sa_seed answers index) co phase target) (sa_phase answers index) first cl of
              (Inl e, cl) \<Rightarrow> (Inl e, cl)
            | (Inr None, cl) \<Rightarrow> (Inr runs, cl)
            | (Inr (Some run), cl) \<Rightarrow>
                scenario_loop env S co answers rest False (if any_finished run then runs @ [(index, run)] else runs) cl))"

definition run_scenario ::
    "'n env \<Rightarrow> 'h histograms \<Rightarrow> bool \<Rightarrow> 'n coordinator \<Rightarrow> 'n scenario_answers \<Rightarrow> cluster_error + distributed_scenario_outcome" where
  "run_scenario env S windows co answers =
     (case co_scenario co of
        None \<Rightarrow> Inl (Cluster_config (InvalidOption ''this coordinator runs a single test; call run''))
      | Some scenario \<Rightarrow>
          and_then (open_cluster co (sa_open answers)) (\<lambda>cl :: ('n, 'h) cluster.
            case scenario_loop env S co answers (List.enumerate 0 (zip (pl_phases scenario) (pl_targets scenario))) True [] cl of
              (Inl e, _) \<Rightarrow> Inl e
            | (Inr runs, cl) \<Rightarrow>
                (if runs = []
                 then Inl (if list_all (\<lambda>r. r = None) (cl_lost cl) then interrupted_early
                           else every_agent_lost (zip (map aa_name (co_agents co)) (cl_lost cl)))
                 else merge_scenario (hs_hdr S) windows co scenario runs (cl_lost cl) (close_cluster co (sa_close answers) cl))))"

end
