(* ===== verification/Cluster_Fates.thy ===== *)
theory Cluster_Fates
  imports Cluster_Merge
begin

text \<open>
  What becomes of every agent of a distributed run. The loops of the coordinator that go through the agents by index,
  deciding each agent's fate from its own answer, have one contract, the locale \<open>sweep\<close>; it is interpreted on the
  loop after the barrier and on the loop that collects the results. From it follow the invariant of the session and
  the account of a phase: every agent is absent, finished or lost, and which of them decides whether it goes on.
\<close>

section \<open>Sweeps over the agents\<close>

locale sweep =
  fixes step :: "nat \<Rightarrow> 'x \<Rightarrow> 's \<Rightarrow> 's" and loop :: "nat \<Rightarrow> 'x list \<Rightarrow> 's \<Rightarrow> 's"
    and agents :: "'s \<Rightarrow> nat" and view :: "nat \<Rightarrow> 's \<Rightarrow> 'v" and change :: "'x \<Rightarrow> 'v \<Rightarrow> 'v"
  assumes loop_Nil: "loop k [] s = s"
    and loop_Cons: "loop k (x # xs) s = loop (k + 1) xs (step k x s)"
    and agents_step: "agents (step k x s) = agents s"
    and view_own: "k < agents s \<Longrightarrow> view k (step k x s) = change x (view k s)"
    and view_other: "j \<noteq> k \<Longrightarrow> view j (step k x s) = view j s"
begin

lemma agents_loop: "agents (loop k xs s) = agents s"
  by (induction xs arbitrary: k s) (simp_all add: loop_Nil loop_Cons agents_step)

lemma view_loop:
  "k + length xs \<le> agents s \<Longrightarrow>
   view j (loop k xs s) = (if k \<le> j \<and> j < k + length xs then change (xs ! (j - k)) (view j s) else view j s)"
proof (induction xs arbitrary: k s)
  case (Cons x xs)
  have "view j (loop k (x # xs) s) = view j (loop (k + 1) xs (step k x s))" by (simp only: loop_Cons)
  also have "\<dots> = (if k + 1 \<le> j \<and> j < k + 1 + length xs then change (xs ! (j - (k + 1))) (view j (step k x s)) else view j (step k x s))"
    using Cons.prems by (intro Cons.IH) (simp add: agents_step)
  finally show ?case using Cons.prems
    by (cases "j = k") (auto simp: view_own view_other nth_Cons' Suc_le_eq)
qed (auto simp: loop_Nil)

end

section \<open>The view of an agent\<close>

record agent_view =
  av_link :: "link option"
  av_lost :: "string option"
  av_board :: bool

definition view_of :: "nat \<Rightarrow> ('n, 'h) cluster \<Rightarrow> agent_view" where
  "view_of i cl = \<lparr>av_link = cl_links cl ! i, av_lost = cl_lost cl ! i, av_board = cl_board cl ! i\<rparr>"

definition view_lose :: "string \<Rightarrow> agent_view \<Rightarrow> agent_view" where
  "view_lose reason v = v\<lparr>av_lost := Some reason, av_board := True\<rparr>"

text \<open>How many agents the lists of the session are for.\<close>

definition sized :: "('n, 'h) cluster \<Rightarrow> nat \<Rightarrow> bool" where
  "sized cl n \<longleftrightarrow> length (cl_links cl) = n \<and> length (cl_lost cl) = n \<and> length (cl_board cl) = n \<and> length (cl_live cl) = n"

definition view_count :: "('n, 'h) cluster \<Rightarrow> nat" where
  "view_count cl = min (length (cl_links cl)) (min (length (cl_lost cl)) (length (cl_board cl)))"

lemma view_lose_own: "k < view_count cl \<Longrightarrow> view_of k (lose k reason cl) = view_lose reason (view_of k cl)"
  by (simp add: view_of_def lose_def view_lose_def view_count_def)

lemma view_lose_other: "j \<noteq> k \<Longrightarrow> view_of j (lose k reason cl) = view_of j cl"
  by (simp add: view_of_def lose_def)

lemma view_lose_count [simp]: "view_count (lose k reason cl) = view_count cl"
  by (simp add: view_count_def lose_def)

lemma view_of_cong: "cl_links cl' = cl_links cl \<Longrightarrow> cl_lost cl' = cl_lost cl \<Longrightarrow> cl_board cl' = cl_board cl \<Longrightarrow> view_of i cl' = view_of i cl"
  by (simp add: view_of_def)

text \<open>The loop after the barrier.\<close>

definition barrier_step :: "'n phase_spec \<Rightarrow> nat \<Rightarrow> (string + unit) option \<Rightarrow> 'h part list \<times> ('n, 'h) cluster \<Rightarrow> 'h part list \<times> ('n, 'h) cluster" where
  "barrier_step spec i outcome st =
     (case outcome of
        Some (Inl reason) \<Rightarrow> (fst st @ [Lost (phase_reason spec reason)],
           lose i (phase_reason spec reason) ((snd st)\<lparr>cl_links := (cl_links (snd st))[i := None]\<rparr>))
      | _ \<Rightarrow> (fst st @ [Absent], snd st))"

definition barrier_change :: "'n phase_spec \<Rightarrow> (string + unit) option \<Rightarrow> agent_view \<Rightarrow> agent_view" where
  "barrier_change spec outcome v =
     (case outcome of Some (Inl reason) \<Rightarrow> (view_lose (phase_reason spec reason) v)\<lparr>av_link := None\<rparr> | _ \<Rightarrow> v)"

definition barrier_part :: "'n phase_spec \<Rightarrow> (string + unit) option \<Rightarrow> 'h part" where
  "barrier_part spec outcome = (case outcome of Some (Inl reason) \<Rightarrow> Lost (phase_reason spec reason) | _ \<Rightarrow> Absent)"

interpretation barrier_sweep: sweep "barrier_step spec" "barrier_loop spec" "\<lambda>st. view_count (snd st)"
    "\<lambda>i st. view_of i (snd st)" "barrier_change spec" for spec
proof (unfold_locales, goal_cases)
  case (2 k x xs s)
  then show ?case by (cases s) (auto simp: barrier_step_def split: option.split sum.split)
next
  case (4 k s x)
  then show ?case
    by (auto simp: barrier_step_def barrier_change_def view_of_def lose_def view_lose_def view_count_def split: option.split sum.split)
qed (auto simp: barrier_step_def view_of_def lose_def view_count_def split: option.split sum.split)

lemma barrier_loop_parts:
  "fst (barrier_loop spec k outcomes (parts, cl)) = parts @ map (barrier_part spec) outcomes"
  by (induction outcomes arbitrary: k parts cl) (auto simp: barrier_part_def split: option.split sum.split)

lemma barrier_loop_keeps:
  "cl_sent (snd (barrier_loop spec k outcomes st)) = cl_sent (snd st) \<and> sized (snd (barrier_loop spec k outcomes st)) n = sized (snd st) n
   \<and> cl_capture (snd (barrier_loop spec k outcomes st)) = cl_capture (snd st)"
  by (induction spec k outcomes st rule: barrier_loop.induct) (auto simp: lose_def sized_def split: option.split sum.split)

text \<open>The loop that collects the results.\<close>

record 'h collect_view =
  cv_part :: "'h part"
  cv_agent :: agent_view

definition collect_view_of :: "nat \<Rightarrow> ('n, 'h) collected \<Rightarrow> 'h collect_view" where
  "collect_view_of i c = \<lparr>cv_part = ct_parts c ! i, cv_agent = view_of i (ct_cluster c)\<rparr>"

definition collect_change :: "'h histograms \<Rightarrow> 'n phase_spec \<Rightarrow> task \<Rightarrow> 'h collect_view \<Rightarrow> 'h collect_view" where
  "collect_change S spec task v =
     (case task of
        Task_over link outcome \<Rightarrow>
          (case task_result S outcome of
             Inr (result, _) \<Rightarrow> \<lparr>cv_part = Finished result, cv_agent = (cv_agent v)\<lparr>av_link := link\<rparr>\<rparr>
           | Inl reason \<Rightarrow> \<lparr>cv_part = Lost (phase_reason spec reason), cv_agent = view_lose (phase_reason spec reason) (cv_agent v)\<rparr>)
      | _ \<Rightarrow> v)"

interpretation collect_sweep: sweep "collect_result S spec" "collect_loop S spec"
    "\<lambda>c. min (length (ct_parts c)) (view_count (ct_cluster c))" collect_view_of "collect_change S spec" for S spec
  by unfold_locales
    (auto simp: collect_result_def collect_view_of_def collect_change_def view_of_def lose_def view_lose_def view_count_def Let_def
      split: task.split sum.split)

section \<open>The session between phases\<close>

text \<open>Between phases an agent has a connection or a reason why it is lost, and the board shows the lost ones.\<close>

definition agent_settled :: "agent_view \<Rightarrow> bool" where
  "agent_settled v \<longleftrightarrow> (av_link v = None \<longleftrightarrow> av_lost v \<noteq> None) \<and> (av_board v \<longleftrightarrow> av_lost v \<noteq> None)"

definition cluster_ok :: "nat \<Rightarrow> ('n, 'h) cluster \<Rightarrow> bool" where
  "cluster_ok n cl \<longleftrightarrow> sized cl n \<and> (\<forall>i<n. agent_settled (view_of i cl))"

lemma sized_count: "sized cl n \<Longrightarrow> view_count cl = n"
  by (simp add: sized_def view_count_def)

lemma linked_iff: "i \<in> set (linked cl) \<longleftrightarrow> i < length (cl_links cl) \<and> cl_links cl ! i \<noteq> None"
  by (simp add: linked_def)

text \<open>Opening the connections.\<close>

lemma failures_none:
  assumes "failures co results = []" "i < length (co_agents co)" "i < length results"
  shows "results ! i = None"
proof (rule ccontr)
  assume "results ! i \<noteq> None"
  then obtain r where "results ! i = Some r" by blast
  moreover have "(co_agents co ! i, results ! i) \<in> set (zip (co_agents co) results)" using assms(2,3) by (force simp: set_zip)
  ultimately show False using assms(1) by (force simp: failures_def)
qed

lemma open_cluster_ok:
  assumes "open_cluster co answers = Inr cl"
  shows "cluster_ok (length (co_agents co)) cl \<and> cl_sent cl = [] \<and> list_all (\<lambda>link. link \<noteq> None) (cl_links cl)"
proof -
  let ?links = "map (\<lambda>i. connect co (oa_connect answers i)) [0..<length (co_agents co)]"
  from assms have f: "failures co (map the_error ?links) = []"
    and cl: "cl_links cl = map the_ok ?links" "cl_lost cl = replicate (length (co_agents co)) None"
      "cl_live cl = replicate (length (co_agents co)) agent_live_default" "cl_board cl = replicate (length (co_agents co)) False"
      "cl_sent cl = []"
    by (auto simp: open_cluster_def Let_def result_rules split: if_splits)
  have "the_ok (?links ! i) \<noteq> None" if "i < length (co_agents co)" for i
    using failures_none [OF f, of i] that by (simp add: the_error_def the_ok_def split: sum.splits)
  then show ?thesis by (auto simp: cluster_ok_def sized_def cl agent_settled_def view_of_def list_all_length)
qed

section \<open>The barrier\<close>

lemma log_views [simp]:
  "view_of i (log_sent agents m cl) = view_of i cl" "view_of i (log_prepares co shares agents cl) = view_of i cl"
  "sized (log_sent agents m cl) n = sized cl n" "sized (log_prepares co shares agents cl) n = sized cl n"
  by (simp_all add: log_sent_def log_prepares_def view_of_def sized_def)

definition outcome_at :: "'n coordinator \<Rightarrow> 'n phase_answers \<Rightarrow> ('n, 'h) cluster \<Rightarrow> nat \<Rightarrow> (string + unit) option" where
  "outcome_at co answers cl i = map_option (\<lambda>_. prepare co (qa_prepared answers i)) (cl_links cl ! i)"

definition failed_barrier :: "(string + unit) option \<Rightarrow> bool" where
  "failed_barrier outcome = (case outcome of Some (Inl _) \<Rightarrow> True | _ \<Rightarrow> False)"

lemma barrier_passed:
  assumes "barrier env co spec answers first cl = (Inr (Some parts), cl')" "sized cl n"
  shows "sized cl' n \<and> parts = map (\<lambda>i. barrier_part spec (outcome_at co answers cl i)) [0..<n] \<and>
    (\<forall>i<n. view_of i cl' = barrier_change spec (outcome_at co answers cl i) (view_of i cl)) \<and>
    (first \<and> n = length (co_agents co) \<longrightarrow> (\<forall>i<n. \<not> failed_barrier (outcome_at co answers cl i)))"
proof -
  let ?outs = "prepare_outcomes co answers cl"
  from assms(1) obtain shares where
    loop: "barrier_loop spec 0 ?outs ([], log_prepares co (map (phase_share spec (capture_limit co cl)) shares) (linked cl) cl) = (parts, cl')"
    and first: "first \<Longrightarrow> failures co (map (\<lambda>r. Option.bind r the_error) ?outs) = []"
    by (auto simp: barrier_def Let_def split: sum.splits if_splits prod.splits)
  have outs: "?outs = map (outcome_at co answers cl) [0..<n]"
    using assms(2) by (simp add: prepare_outcomes_def outcome_at_def sized_def)
  have "sized cl' n" using barrier_loop_keeps [of spec 0 ?outs _ n] assms(2) loop by (metis log_views(4) snd_conv)
  moreover have "parts = map (barrier_part spec) ?outs" using barrier_loop_parts [of spec 0 ?outs "[]"] loop by (metis append_Nil fst_conv)
  moreover have "view_of i cl' = barrier_change spec (?outs ! i) (view_of i cl)" if "i < n" for i
  proof -
    have "view_of i (snd (parts, cl')) = barrier_change spec (?outs ! (i - 0)) (view_of i cl)"
      unfolding loop [symmetric] using that assms(2) by (subst barrier_sweep.view_loop) (simp_all add: outs sized_count)
    then show ?thesis by simp
  qed
  moreover have "\<not> failed_barrier (?outs ! i)" if "first" "n = length (co_agents co)" "i < n" for i
    using failures_none [OF first [OF that(1)], of i] that by (auto simp: outs failed_barrier_def the_error_def split: option.splits sum.splits)
  ultimately show ?thesis by (simp add: outs comp_def)
qed

section \<open>The tasks of a phase\<close>

text \<open>No turn of a phase touches who is connected or lost; a task that is over stays over, and one that brought a
  result brought its connection.\<close>

definition same_agents :: "('n, 'h) cluster \<Rightarrow> ('n, 'h) cluster \<Rightarrow> bool" where
  "same_agents cl cl' \<longleftrightarrow> cl_links cl' = cl_links cl \<and> cl_lost cl' = cl_lost cl \<and> cl_board cl' = cl_board cl \<and>
     length (cl_live cl') = length (cl_live cl)"

definition task_ok :: "task \<Rightarrow> bool" where
  "task_ok t = (case t of Task_over link (Inr _) \<Rightarrow> link \<noteq> None | _ \<Rightarrow> True)"

lemma same_agents_refl [simp]: "same_agents cl cl"
  by (simp add: same_agents_def)

lemma same_agents_trans: "same_agents a b \<Longrightarrow> same_agents b c \<Longrightarrow> same_agents a c"
  by (simp add: same_agents_def)

lemma same_agents_view: "same_agents cl cl' \<Longrightarrow> view_of i cl' = view_of i cl \<and> sized cl' n = sized cl n"
  by (simp add: same_agents_def view_of_def sized_def)

lemma same_agents_ops [simp]:
  "same_agents cl (store_snapshot S i live intervals cl)" "same_agents cl (store_capture start i records cl)"
  "same_agents cl (log_sent agents m cl)" "same_agents cl (publish_live S elapsed interval cl)"
  by (simp_all add: same_agents_def store_snapshot_def store_capture_def log_sent_def publish_live_def Let_def
      split: capture_state.split option.split)

lemma follow_message_ok:
  "follow_message S start i fo now received cl = (task, cl') \<Longrightarrow> same_agents cl cl' \<and> task_ok task \<and> task \<noteq> No_task"
  by (induction S start i fo now received cl rule: follow_message.induct) (auto simp: task_ok_def)

lemma follow_step_ok:
  "follow_step S timeout start stop i event fo cl = (task, cl') \<Longrightarrow> same_agents cl cl' \<and> task_ok task \<and> task \<noteq> No_task"
  by (cases event) (auto simp: task_ok_def dest: follow_message_ok split: if_splits)

definition tasks_wf :: "('n, 'h) phase_state \<Rightarrow> ('n, 'h) phase_state \<Rightarrow> bool" where
  "tasks_wf st st' \<longleftrightarrow> same_agents (px_cluster st) (px_cluster st') \<and> length (px_tasks st') = length (px_tasks st) \<and>
     (\<forall>i<length (px_tasks st). (px_tasks st' ! i = No_task \<longleftrightarrow> px_tasks st ! i = No_task) \<and>
        (task_ok (px_tasks st ! i) \<longrightarrow> task_ok (px_tasks st' ! i)))"

lemma tasks_wf_refl [simp]: "tasks_wf st st"
  by (simp add: tasks_wf_def)

lemma tasks_wf_trans: "tasks_wf a b \<Longrightarrow> tasks_wf b c \<Longrightarrow> tasks_wf a c"
  by (auto simp: tasks_wf_def intro: same_agents_trans)

lemma agent_turn_wf: "tasks_wf st (agent_turn S timeout start i event st)"
proof -
  have "tasks_wf st (st\<lparr>px_tasks := (px_tasks st)[i := task], px_cluster := cl\<rparr>)"
    if "i < length (px_tasks st)" "px_tasks st ! i = Following fo"
      "follow_step S timeout start (px_stop st) i event fo (px_cluster st) = (task, cl)" for fo task cl
    using that follow_step_ok [OF that(3)] by (auto simp: tasks_wf_def nth_list_update)
  then show ?thesis by (auto simp: agent_turn_def split: task.split prod.split)
qed

lemma phase_turn_wf: "tasks_wf st (phase_turn S timeout start interval event st)"
proof (cases event)
  case (Agent_turn i e)
  then show ?thesis by (simp add: agent_turn_wf)
qed (simp_all add: tasks_wf_def)

lemma follow_loop_wf:
  "follow_loop S timeout start interval events st = Some st' \<Longrightarrow>
   tasks_wf st st' \<and> list_all (\<lambda>t. \<not> is_following t) (px_tasks st')"
proof (induction events arbitrary: st)
  case (Cons e es)
  show ?case
  proof (cases "list_all (\<lambda>t. \<not> is_following t) (px_tasks st)")
    case False
    with Cons.prems have "follow_loop S timeout start interval es (phase_turn S timeout start interval e st) = Some st'"
      by (subst (asm) follow_loop.simps) simp
    from Cons.IH [OF this] show ?thesis by (blast intro: tasks_wf_trans phase_turn_wf)
  qed (use Cons.prems in \<open>auto simp: follow_loop.simps [of _ _ _ _ "e # es"]\<close>)
qed (auto simp: follow_loop.simps split: if_splits)

lemma start_phase_wf:
  assumes "start_phase co spec answers cl = (Inr st, cl')" "sized cl n"
  shows "sized (px_cluster st) n \<and> length (px_tasks st) = n \<and> (\<forall>i<n. view_of i (px_cluster st) = (view_of i cl)\<lparr>av_link := None\<rparr>) \<and>
    (\<forall>i<n. task_ok (px_tasks st ! i) \<and> (px_tasks st ! i = No_task \<longleftrightarrow> cl_links cl ! i = None))"
proof -
  from assms(1) have t: "px_tasks st = map (start_task co spec answers cl') [0..<length (cl_links cl')]"
    and c: "px_cluster st = cl'\<lparr>cl_links := map (\<lambda>_. None) (cl_links cl')\<rparr>"
    and e: "cl_links cl' = cl_links cl" "cl_lost cl' = cl_lost cl" "cl_board cl' = cl_board cl" "length (cl_live cl') = length (cl_live cl)"
    by (auto simp: start_phase_def Let_def start_capture_def log_sent_def split: sum.splits capture_state.splits if_splits)
  show ?thesis using assms(2)
    by (auto simp: t c e sized_def view_of_def start_task_def task_ok_def split: option.splits)
qed

section \<open>The account of a phase\<close>

lemma collect_loop_sized: "sized (ct_cluster (collect_loop S spec k tasks c)) n = sized (ct_cluster c) n"
proof (induction tasks arbitrary: k c)
  case (Cons t ts)
  have "sized (ct_cluster (collect_result S spec k t c)) n = sized (ct_cluster c) n"
    by (auto simp: collect_result_def Let_def sized_def lose_def split: task.split sum.split)
  with Cons show ?case by simp
qed simp

lemma collect_loop_parts: "length (ct_parts (collect_loop S spec k tasks c)) = length (ct_parts c)"
proof (induction tasks arbitrary: k c)
  case (Cons t ts)
  have "length (ct_parts (collect_result S spec k t c)) = length (ct_parts c)"
    by (auto simp: collect_result_def Let_def split: task.split sum.split)
  with Cons show ?case by simp
qed simp

lemma finish_phase_views:
  assumes "finish_phase S spec start elapsed parts st = (run, cl')" "sized (px_cluster st) n" "length (px_tasks st) = n" "length parts = n"
  shows "sized cl' n \<and> length (pn_parts run) = n \<and> (\<forall>i<n. \<lparr>cv_part = pn_parts run ! i, cv_agent = view_of i cl'\<rparr> =
    collect_change S spec (px_tasks st ! i) \<lparr>cv_part = parts ! i, cv_agent = view_of i (px_cluster st)\<rparr>)"
proof -
  let ?cl = "publish_live S elapsed (interval_for (lc_duration (ps_config spec))) (px_cluster st)"
  let ?c = "\<lparr>ct_last = None, ct_parts = parts, ct_cluster = ?cl\<rparr>"
  define c where "c = collect_loop S spec 0 (px_tasks st) ?c"
  have run: "pn_parts run = ct_parts c" and cl': "same_agents (ct_cluster c) cl'"
    using assms(1) by (auto simp: finish_phase_def Let_def same_agents_def c_def [symmetric])
  have pub: "view_of i ?cl = view_of i (px_cluster st) \<and> sized ?cl n" for i
    using same_agents_view [of "px_cluster st" ?cl i n] assms(2) by simp
  have "collect_view_of i c = collect_change S spec (px_tasks st ! i) \<lparr>cv_part = parts ! i, cv_agent = view_of i (px_cluster st)\<rparr>"
    if "i < n" for i
    unfolding c_def using that assms(3,4) pub sized_count [of ?cl n]
    by (subst collect_sweep.view_loop) (simp_all add: collect_view_of_def)
  moreover have "sized (ct_cluster c) n" "length (ct_parts c) = n"
    using pub assms(4) by (simp_all add: c_def collect_loop_sized collect_loop_parts)
  ultimately show ?thesis using same_agents_view [OF cl'] run by (simp add: collect_view_of_def)
qed

definition fate_ok :: "'h part \<Rightarrow> agent_view \<Rightarrow> agent_view \<Rightarrow> bool" where
  "fate_ok part before after =
     (case part of
        Absent \<Rightarrow> av_link before = None \<and> after = before
      | Finished _ \<Rightarrow> av_link before \<noteq> None \<and> av_link after \<noteq> None \<and> av_lost after = None
      | Lost reason \<Rightarrow> av_link before \<noteq> None \<and> av_link after = None \<and> av_lost after = Some reason)"

lemma fate_settled: "agent_settled before \<Longrightarrow> fate_ok part before after \<Longrightarrow>
    (av_board after \<longleftrightarrow> av_lost after \<noteq> None) \<Longrightarrow> agent_settled after"
  by (auto simp: agent_settled_def fate_ok_def split: part.splits)

text \<open>An agent that did not pass the barrier, and one that did.\<close>

lemma barrier_fate:
  assumes "agent_settled v" "outcome = map_option (\<lambda>_. r) (av_link v)" "av_link (barrier_change spec outcome v) = None"
  shows "fate_ok (barrier_part spec outcome) v (barrier_change spec outcome v) \<and>
    (av_board (barrier_change spec outcome v) \<longleftrightarrow> av_lost (barrier_change spec outcome v) \<noteq> None)"
  using assms by (auto simp: barrier_change_def barrier_part_def fate_ok_def agent_settled_def view_lose_def split: option.splits sum.splits)

lemma task_fate:
  assumes "agent_settled v" "outcome = map_option (\<lambda>_. r) (av_link v)" "w = (barrier_change spec outcome v)\<lparr>av_link := None\<rparr>"
    "task_ok task" "\<not> is_following task" "task = No_task \<longleftrightarrow> av_link (barrier_change spec outcome v) = None"
    "\<lparr>cv_part = part, cv_agent = after\<rparr> = collect_change S spec task \<lparr>cv_part = barrier_part spec outcome, cv_agent = w\<rparr>"
  shows "fate_ok part v after \<and> (av_board after \<longleftrightarrow> av_lost after \<noteq> None)"
proof (cases task)
  case No_task
  with assms(6) have none: "av_link (barrier_change spec outcome v) = None" by simp
  then have "w = barrier_change spec outcome v" using assms(3) by simp
  with No_task assms(7) have "part = barrier_part spec outcome" "after = barrier_change spec outcome v"
    by (simp_all add: collect_change_def)
  with barrier_fate [OF assms(1,2) none] show ?thesis by simp
next
  case (Task_over link result)
  then obtain l where "av_link (barrier_change spec outcome v) = Some l" using assms(6) by blast
  then have "av_link v = Some l" "barrier_change spec outcome v = v"
    using assms(2) by (auto simp: barrier_change_def view_lose_def split: option.splits sum.splits)
  with Task_over assms show ?thesis
    by (auto simp: collect_change_def fate_ok_def agent_settled_def view_lose_def task_ok_def task_result_def result_rules split: sum.splits)
qed (use assms(5) in \<open>simp add: is_following_def\<close>)

lemma phase_fates:
  assumes ok: "cluster_ok n cl" and run: "run_phase env S co spec inp first cl = (Inr (Some run), cl')"
  shows "sized cl' n \<and> length (pn_parts run) = n \<and>
    (\<forall>i<n. fate_ok (pn_parts run ! i) (view_of i cl) (view_of i cl') \<and> (av_board (view_of i cl') \<longleftrightarrow> av_lost (view_of i cl') \<noteq> None))"
proof -
  from run obtain parts cl1 where b: "barrier env co spec (qi_answers inp) first cl = (Inr (Some parts), cl1)"
    by (auto simp: run_phase_def split: prod.splits sum.splits option.splits)
  let ?out = "outcome_at co (qi_answers inp) cl"
  have sz: "sized cl n" and settled: "agent_settled (view_of i cl)" if "i < n" for i using ok that by (auto simp: cluster_ok_def)
  have sz: "sized cl n" using ok by (simp add: cluster_ok_def)
  have out: "?out i = map_option (\<lambda>_. prepare co (qa_prepared (qi_answers inp) i)) (av_link (view_of i cl))" for i
    by (simp add: outcome_at_def view_of_def)
  from barrier_passed [OF b sz] have sz1: "sized cl1 n" and parts: "parts = map (\<lambda>i. barrier_part spec (?out i)) [0..<n]"
    and v1: "\<And>i. i < n \<Longrightarrow> view_of i cl1 = barrier_change spec (?out i) (view_of i cl)" by blast+
  show ?thesis
  proof (cases "list_all (\<lambda>link. link = None) (cl_links cl1)")
    case True
    with run b have r: "pn_parts run = parts" "cl' = cl1" by (auto simp: run_phase_def)
    have "av_link (barrier_change spec (?out i) (view_of i cl)) = None" if "i < n" for i
      unfolding v1 [OF that, symmetric] using True sz1 that by (simp add: list_all_length view_of_def sized_def)
    note none = this
    have "fate_ok (parts ! i) (view_of i cl) (view_of i cl1) \<and> (av_board (view_of i cl1) \<longleftrightarrow> av_lost (view_of i cl1) \<noteq> None)"
      if i: "i < n" for i
    proof -
      have p: "parts ! i = barrier_part spec (?out i)" using i by (simp add: parts)
      show ?thesis unfolding p v1 [OF i] by (rule barrier_fate [OF settled [OF i] out none [OF i]])
    qed
    then show ?thesis using sz1 by (simp add: r parts)
  next
    case False
    with run b obtain st cl2 st' where s: "start_phase co spec (qi_answers inp) cl1 = (Inr st, cl2)"
      and l: "follow_loop S (co_agent_timeout co) (qa_start (qi_answers inp)) (interval_for (lc_duration (ps_config spec))) (qi_events inp) st = Some st'"
      and f: "finish_phase S spec (qa_start (qi_answers inp)) (qi_elapsed inp) parts st' = (run, cl')"
      by (auto simp: run_phase_def split: prod.splits sum.splits option.splits)
    from follow_loop_wf [OF l] have wf: "tasks_wf st st'" and fin: "list_all (\<lambda>t. \<not> is_following t) (px_tasks st')" by auto
    from start_phase_wf [OF s sz1] have st: "sized (px_cluster st) n" "length (px_tasks st) = n"
      "\<And>i. i < n \<Longrightarrow> view_of i (px_cluster st) = (view_of i cl1)\<lparr>av_link := None\<rparr>"
      "\<And>i. i < n \<Longrightarrow> task_ok (px_tasks st ! i) \<and> (px_tasks st ! i = No_task \<longleftrightarrow> cl_links cl1 ! i = None)" by blast+
    have st': "sized (px_cluster st') n" "length (px_tasks st') = n" "\<And>i. view_of i (px_cluster st') = view_of i (px_cluster st)"
      using wf st(1,2) same_agents_view by (auto simp: tasks_wf_def)
    from finish_phase_views [OF f st'(1,2)] parts have fin': "sized cl' n" "length (pn_parts run) = n"
      "\<And>i. i < n \<Longrightarrow> \<lparr>cv_part = pn_parts run ! i, cv_agent = view_of i cl'\<rparr> =
        collect_change S spec (px_tasks st' ! i) \<lparr>cv_part = barrier_part spec (?out i), cv_agent = view_of i (px_cluster st')\<rparr>" by auto
    show ?thesis
    proof (intro conjI fin' allI impI)
      fix i assume i: "i < n"
      have "task_ok (px_tasks st' ! i)" "\<not> is_following (px_tasks st' ! i)"
        "px_tasks st' ! i = No_task \<longleftrightarrow> av_link (barrier_change spec (?out i) (view_of i cl)) = None"
        using wf fin st(2,4) st'(2) i v1 [OF i, symmetric] by (auto simp: tasks_wf_def list_all_length view_of_def)
      from task_fate [OF settled [OF i] out _ this fin'(3) [OF i]] st(3) st'(3) v1 i
      have "fate_ok (pn_parts run ! i) (view_of i cl) (view_of i cl') \<and> (av_board (view_of i cl') \<longleftrightarrow> av_lost (view_of i cl') \<noteq> None)" by simp
      then show "fate_ok (pn_parts run ! i) (view_of i cl) (view_of i cl')" "av_board (view_of i cl') = (av_lost (view_of i cl') \<noteq> None)" by simp_all
    qed
  qed
qed

lemma phase_keeps_ok:
  assumes "cluster_ok n cl" "run_phase env S co spec inp first cl = (Inr (Some run), cl')"
  shows "cluster_ok n cl'"
proof -
  note f = phase_fates [OF assms]
  have "agent_settled (view_of i cl')" if "i < n" for i
    using f that assms(1) fate_settled [of "view_of i cl" "pn_parts run ! i" "view_of i cl'"] by (simp add: cluster_ok_def)
  then show ?thesis using f by (simp add: cluster_ok_def)
qed

end
