(* ===== verification/Cluster_Report.thy ===== *)
theory Cluster_Report
  imports Cluster_Fates
begin

text \<open>
  Properties of distributed runs: the start barrier, the account of the agents over a phase and over a scenario, the end of
  a phase, and the merged reports.
\<close>

section \<open>Samples\<close>

text \<open>Two agents for the witnesses.\<close>

definition sample_coordinator :: "nat coordinator" where
  "sample_coordinator = \<lparr>co_config = sample_config\<lparr>lc_connections := 2\<rparr>, co_scenario = None,
     co_agents = map (\<lambda>name. \<lparr>aa_name = name, aa_url = \<lparr>au_scheme = ''ws'', au_host = Some name, au_port = Some 9, au_rest = []\<rparr>\<rparr>) [''a'', ''b''],
     co_token = ''0123456789abcdef'', co_agent_timeout = from_secs 30\<rparr>"

definition sample_cluster :: "(nat, nat multiset) cluster" where
  "sample_cluster = \<lparr>cl_links = [Some \<lparr>lk_rtt = 1\<rparr>, Some \<lparr>lk_rtt = 2\<rparr>], cl_lost = [None, None], cl_live = [agent_live_default, agent_live_default],
     cl_capture = Capture_off, cl_queued = 0, cl_batches = [], cl_dropped = 0, cl_board = [False, False],
     cl_counters = live_new (Some 1), cl_intervals = None, cl_sent = []\<rparr>"

definition sample_result :: wire_result where
  "sample_result = wire_result_new values_hdr False sample_totals sample_meta series_default fmempty"

text \<open>Both agents are ready; the first sends its result after 11 seconds, the second nothing.\<close>

definition sample_remote :: "nat phase_inputs_remote" where
  "sample_remote = \<lparr>qi_answers = \<lparr>qa_cancelled = False, qa_reached = \<lambda>_. True, qa_prepared = \<lambda>_. Prepare_answer (Inr (Ready 1)),
       qa_start = 0, qa_unsent = \<lambda>_. None, qa_capture = True\<rparr>,
     qi_events = [Agent_turn 0 (Received (Inr (Result sample_result)) 11000000000), Agent_turn 1 (Deadline_at 40000000000),
       Agent_turn 0 (Deadline_at 40000000000)],
     qi_elapsed = 40000000000\<rparr>"

section \<open>A sample run\<close>

lemma sample_decoded:
  "\<exists>r. result_decode values_histograms sample_result = Inr r \<and> ar_totals r = sample_totals\<lparr>mt_absorbed := []\<rparr> \<and> ar_connections r = 2 \<and>
     ar_capture_dropped r = None"
proof -
  have ok: "totals_ok (hs_hdr values_histograms) sample_totals"
    by (simp add: values_histograms_def totals_ok_def hdr_ok_def values_built values_hdr_law sample_totals_def totals_new_def latency_histogram_def)
  show ?thesis
    using decode_new [OF values_bucket_law values_bucket_law ok, of fmempty sample_meta False series_default]
    by (simp add: sample_meta_def lag_default_def sample_result_def values_histograms_def)
qed

definition sample_spec_ok :: "nat coordinator \<Rightarrow> nat phase_spec \<Rightarrow> bool" where
  "sample_spec_ok co spec \<longleftrightarrow> co_agents co = co_agents sample_coordinator \<and> co_agent_timeout co = from_secs 30 \<and>
     (\<exists>ws. plan Load_Config.sample_env (ps_config spec) 2 = Inr ws) \<and> lc_duration (ps_config spec) = from_secs 10 \<and>
     lc_chaos (ps_config spec) = None"

lemma sample_spec: "sample_spec_ok sample_coordinator (single_spec sample_coordinator)"
  by (simp add: sample_spec_ok_def single_spec_def plan_def check_plan_def sample_coordinator_def sample_config_def from_config_def
      Load_Config.sample_env_def)

lemma two_agents [simp]: "[0..<2] = [0, 1]" "length (co_agents sample_coordinator) = 2" "length (cl_links sample_cluster) = 2"
  by (simp_all add: upt_rec sample_coordinator_def sample_cluster_def)

lemma sample_linked: "linked sample_cluster = [0, 1]"
  by (simp add: linked_def) (simp add: sample_cluster_def)

lemma sample_barrier:
  assumes "sample_spec_ok co spec"
  shows "\<exists>ws. barrier Load_Config.sample_env co spec (qi_answers sample_remote) first sample_cluster =
     (Inr (Some [Absent, Absent]), log_prepares co ws [0, 1] sample_cluster)"
proof -
  obtain ws where w: "plan Load_Config.sample_env (ps_config spec) 2 = Inr ws" and n: "length (co_agents co) = 2"
    using assms by (auto simp: sample_spec_ok_def)
  have o: "prepare_outcomes co (qi_answers sample_remote) sample_cluster = [Some (Inr ()), Some (Inr ())]"
    by (simp add: prepare_outcomes_def sample_remote_def) (simp add: sample_cluster_def)
  have f: "failures co [None, None] = []" using assms by (simp add: sample_spec_ok_def failures_def sample_coordinator_def)
  have "\<not> qa_cancelled (qi_answers sample_remote)" by (simp add: sample_remote_def)
  then show ?thesis by (simp add: barrier_def w n o sample_linked the_error_def f Let_def) blast
qed

definition sample_follow :: "duration \<Rightarrow> follow" where
  "sample_follow rtt = \<lparr>fo_link = \<lparr>lk_rtt = rtt\<rparr>, fo_stopped = False, fo_deadline = 40000000000\<rparr>"

lemma sample_started:
  assumes ok: "sample_spec_ok co spec"
  shows "\<exists>cl cl2 st. barrier Load_Config.sample_env co spec (qi_answers sample_remote) first sample_cluster = (Inr (Some [Absent, Absent]), cl) \<and>
     \<not> list_all (\<lambda>link. link = None) (cl_links cl) \<and> start_phase co spec (qi_answers sample_remote) cl = (Inr st, cl2) \<and>
     px_tasks st = [Following (sample_follow 1), Following (sample_follow 2)]"
proof -
  obtain ws where b: "barrier Load_Config.sample_env co spec (qi_answers sample_remote) first sample_cluster =
     (Inr (Some [Absent, Absent]), log_prepares co ws [0, 1] sample_cluster)" using sample_barrier [OF ok] by blast
  define cl where "cl = log_prepares co ws [0, 1] sample_cluster"
  have d: "lc_duration (ps_config spec) = from_secs 10" "co_agent_timeout co = from_secs 30" using ok by (simp_all add: sample_spec_ok_def)
  obtain cl2 st where s: "start_phase co spec (qi_answers sample_remote) cl = (Inr st, cl2)"
    "px_tasks st = [Following (sample_follow 1), Following (sample_follow 2)]"
    by (simp add: start_phase_def Let_def start_capture_def log_sent_def cl_def log_prepares_def sample_cluster_def)
      (simp add: start_task_def sample_remote_def d from_secs_def sample_follow_def)
  have "\<not> list_all (\<lambda>link. link = None) (cl_links cl)" by (simp add: cl_def log_prepares_def sample_cluster_def)
  with b [folded cl_def] s show ?thesis by blast
qed

lemma sample_phase_run:
  assumes ok: "sample_spec_ok co spec"
  shows "\<exists>r reason cl'. result_decode values_histograms sample_result = Inr r \<and>
     run_phase Load_Config.sample_env values_histograms co spec sample_remote first sample_cluster =
     (Inr (Some \<lparr>pn_start = 0, pn_parts = [Finished r, Lost reason], pn_last_result = Some 11000000000, pn_chaos_seed = None\<rparr>), cl')"
proof -
  obtain cl cl2 st where b: "barrier Load_Config.sample_env co spec (qi_answers sample_remote) first sample_cluster = (Inr (Some [Absent, Absent]), cl)"
    and links: "\<not> list_all (\<lambda>link. link = None) (cl_links cl)" and s: "start_phase co spec (qi_answers sample_remote) cl = (Inr st, cl2)"
    "px_tasks st = [Following (sample_follow 1), Following (sample_follow 2)]" using sample_started [OF ok] by blast
  obtain r where r: "result_decode values_histograms sample_result = Inr r" "ar_capture_dropped r = None" using sample_decoded by blast
  have d: "lc_duration (ps_config spec) = from_secs 10" "co_agent_timeout co = from_secs 30" "config_chaos_seed (ps_config spec) = None"
    using ok by (simp_all add: sample_spec_ok_def config_chaos_seed_def)
  have start: "qa_start (qi_answers sample_remote) = 0" by (simp add: sample_remote_def)
  obtain st' e where l: "follow_loop values_histograms (from_secs 30) 0 (interval_for (from_secs 10)) (qi_events sample_remote) st = Some st'"
     "px_tasks st' = [Task_over (Some \<lparr>lk_rtt = 1\<rparr>) (Inr (sample_result, 11000000000)), Task_over None (Inl e)]"
    by (simp add: follow_loop.simps sample_remote_def s is_following_def agent_turn_def sample_follow_def)
  show ?thesis
    using r by (simp add: run_phase_def b start links s d l finish_phase_def Let_def collect_result_def task_result_def)
qed

section \<open>Merging the parts\<close>

definition finished_of :: "'h part list \<Rightarrow> 'h agent_result list" where
  "finished_of parts = concat (map (\<lambda>p. case p of Finished r \<Rightarrow> [r] | _ \<Rightarrow> []) parts)"

lemma finished_of_simps [simp]:
  "finished_of [] = []" "finished_of (Finished r # ps) = r # finished_of ps"
  "finished_of (Lost e # ps) = finished_of ps" "finished_of (Absent # ps) = finished_of ps"
  by (simp_all add: finished_of_def)

lemma merge_parts_spec:
  assumes "merge_parts H windows (zip addresses parts) m = Some m'" "length addresses = length parts"
  shows "merge_all (add_totals H) (map ar_totals (finished_of parts)) (pm_totals m) = Some (pm_totals m') \<and>
    pm_connections m' = pm_connections m + sum_list (map ar_connections (finished_of parts)) \<and>
    pm_not_started m' = pm_not_started m + sum_list (map ar_not_started (finished_of parts)) \<and>
    pm_parts m' = pm_parts m @ map ar_series (finished_of parts) \<and>
    pm_agents m' = pm_agents m @ map2 (part_outcome H windows) addresses parts"
  using assms
proof (induction parts arbitrary: addresses m)
  case (Cons p ps)
  then obtain a as where as: "addresses = a # as" "length as = length ps" by (cases addresses) auto
  with Cons.prems(1) obtain m1 where m1: "merge_part_result H windows a p m = Some m1"
    and rest: "merge_parts H windows (zip as ps) m1 = Some m'" by (auto split: option.splits)
  note IH = Cons.IH [OF rest as(2)]
  show ?case
  proof (cases p)
    case (Finished r)
    with m1 obtain t where "add_totals H (pm_totals m) (ar_totals r) = Some t" "pm_totals m1 = t"
      "pm_connections m1 = pm_connections m + ar_connections r" "pm_not_started m1 = pm_not_started m + ar_not_started r"
      "pm_parts m1 = pm_parts m @ [ar_series r]" "pm_agents m1 = pm_agents m @ [part_outcome H windows a p]"
      by (auto simp: merge_part_result_def Let_def)
    with IH show ?thesis by (simp add: Finished as algebra_simps)
  next
    case Absent
    with m1 have "m1 = m\<lparr>pm_agents := pm_agents m @ [part_outcome H windows a p]\<rparr>" by (simp add: merge_part_result_def Let_def)
    with IH show ?thesis by (simp add: Absent as)
  next
    case (Lost e)
    with m1 have "m1 = m\<lparr>pm_agents := pm_agents m @ [part_outcome H windows a p]\<rparr>" by (simp add: merge_part_result_def Let_def)
    with IH show ?thesis by (simp add: Lost as)
  qed
qed simp

text \<open>The part of a report that the totals and the duration decide.\<close>

definition totals_part :: "aggregated_metrics \<Rightarrow> aggregated_metrics" where
  "totals_part m = m\<lparr>m_failed := 0, m_not_started := 0, m_time_series := series_default, m_capture := None, m_distributed := None,
     m_chaos := map_option (\<lambda>c. c\<lparr>csum_seed := 0\<rparr>) (m_chaos m), m_generator_lag := None, m_open_files := None,
     m_arrivals := None, m_compression := None\<rparr>"

lemma totals_part_with [simp]:
  "totals_part (with_distributed s m) = totals_part m" "totals_part (health_apply h m) = totals_part m"
  "totals_part (with_compression c m) = totals_part m" "totals_part (with_arrivals a ac m) = totals_part m"
  "totals_part (with_time_series ts m) = totals_part m" "totals_part (with_not_started n m) = totals_part m"
  "totals_part (with_seed seed m) = totals_part m"
  by (simp_all add: totals_part_def with_distributed_def health_apply_def with_generator_def with_compression_def with_arrivals_def
      with_time_series_def with_not_started_def Let_def with_seed_def split: option.split)

lemma merged_totals_part: "totals_part (merged_metrics H arrivals elapsed seed m) = totals_part (totals_finish H elapsed (pm_connections m) (pm_totals m))"
  by (simp add: merged_metrics_def split: prod.split)

lemma merged_elapsed [simp]:
  "m_elapsed (merged_metrics H arrivals elapsed seed m) = elapsed"
  "m_attempted (merged_metrics H arrivals elapsed seed m) = pm_connections m"
proof -
  let ?m = "merged_metrics H arrivals elapsed seed m"
  have "m_elapsed (totals_part ?m) = elapsed" "m_attempted (totals_part ?m) = pm_connections m"
    unfolding merged_totals_part by (simp_all add: totals_part_def totals_finish_def Let_def)
  then show "m_elapsed ?m = elapsed" "m_attempted ?m = pm_connections m" by (simp_all add: totals_part_def)
qed

lemma merge_phase_Inr:
  assumes "merge_phase H windows co run arrivals = Inr (metrics, agents)" "length (pn_parts run) = length (co_agents co)" "totals_new H = Some z"
  shows "\<exists>m arrived. pn_last_result run = Some arrived \<and> metrics = merged_metrics H arrivals (arrived - pn_start run) (pn_chaos_seed run) m \<and>
    merge_all (add_totals H) (map ar_totals (finished_of (pn_parts run))) z = Some (pm_totals m) \<and>
    pm_connections m = sum_list (map ar_connections (finished_of (pn_parts run))) \<and>
    pm_parts m = map ar_series (finished_of (pn_parts run)) \<and> pm_agents m = agents \<and>
    agents = map2 (part_outcome H windows) (co_agents co) (pn_parts run)"
proof -
  from assms(1,3) obtain m arrived where "merge_parts H windows (zip (co_agents co) (pn_parts run)) (merge_start z) = Some m"
    "pn_last_result run = Some arrived" "metrics = merged_metrics H arrivals (arrived - pn_start run) (pn_chaos_seed run) m" "agents = pm_agents m"
    by (auto simp: merge_phase_def split: option.splits)
  with merge_parts_spec [of H windows "co_agents co" "pn_parts run" "merge_start z" m] assms(2) show ?thesis
    by (auto simp: merge_start_def)
qed

section \<open>One machine\<close>

lemma worker_totals_ok:
  assumes "totals_empty H z"
  shows "\<exists>t. totals_ok H t \<and> t\<lparr>mt_absorbed := []\<rparr> = (fold (add_worker H recs) ws z)\<lparr>mt_absorbed := []\<rparr>"
proof -
  have "mt_absorbed z = []" using assms by (auto simp: totals_empty_def totals_new_def split: option.splits)
  with add_workers_ops [where H = H and recs = recs and ws = ws and t = z and a = "[]"]
  have "(fold (add_worker H recs) ws z)\<lparr>mt_absorbed := []\<rparr> = (fold (totals_step H) (worker_ops recs {} ws) z)\<lparr>mt_absorbed := []\<rparr>" by simp
  moreover have "totals_ok H (fold (totals_step H) (worker_ops recs {} ws) z)" by (intro totals.ok_run totals_empty_ok assms)
  ultimately show ?thesis by metis
qed

lemma totals_ok_absorbed: "totals_ok H (t\<lparr>mt_absorbed := a\<rparr>) = totals_ok H t"
  by (simp add: totals_ok_def)

lemma decoded_totals:
  assumes "bucket_law S highest 3" "totals_empty (hs_hdr S) z"
    "result_decode S (wire_result_new (hs_hdr S) windows (fold (add_worker (hs_hdr S) recs) ws z) m series buckets) = Inr r"
  shows "ar_totals r = (fold (add_worker (hs_hdr S) recs) ws z)\<lparr>mt_absorbed := []\<rparr>"
proof -
  obtain t where "totals_ok (hs_hdr S) t" "t\<lparr>mt_absorbed := []\<rparr> = (fold (add_worker (hs_hdr S) recs) ws z)\<lparr>mt_absorbed := []\<rparr>"
    using worker_totals_ok [OF assms(2)] by blast
  then have "totals_ok (hs_hdr S) (fold (add_worker (hs_hdr S) recs) ws z)" by (metis totals_ok_absorbed)
  from into_totals_from [OF assms(1) this] assms(3) show ?thesis
    by (auto simp: result_decode_def wire_result_new_def result_rules)
qed

text \<open>C3: a distributed run reports what one machine would have. Take the workers the finished agents ran, whatever they did,
  let every agent pack its totals, send them and have them decoded, and merge the phase: the merged report has, field
  by field, the counters, errors, rates, latency percentiles and named actions of a single process that ran every worker
  for the time from the start to the last result with all the agents' connections.\<close>

theorem cluster_reports_as_one_machine:
  assumes "hdr_add_law (hs_hdr S) 3" "bucket_law S highest 3" "totals_new (hs_hdr S) = Some z"
    "length (pn_parts run) = length (co_agents co)"
    "merge_phase (hs_hdr S) windows co run arrivals = Inr (metrics, agents)"
    "list_all2 (\<lambda>r ws. \<exists>windows m series buckets.
       result_decode S (wire_result_new (hs_hdr S) windows (fold (add_worker (hs_hdr S) recs) ws z) m series buckets) = Inr r)
       (finished_of (pn_parts run)) workers"
    "sorted_wrt (\<lambda>ws ws'. recorders ws \<inter> recorders ws' = {}) workers"
  shows "\<exists>one arrived. pn_last_result run = Some arrived \<and>
    merge_workers (hs_hdr S) recs (concat workers) (arrived - pn_start run)
      (sum_list (map ar_connections (finished_of (pn_parts run)))) = Some one \<and> totals_part metrics = totals_part one"
proof -
  let ?H = "hs_hdr S"
  have z: "totals_empty ?H z" using assms(1,3) by (simp add: totals_empty_def)
  from merge_phase_Inr [OF assms(5,4,3)] obtain m arrived where m: "pn_last_result run = Some arrived"
    "metrics = merged_metrics ?H arrivals (arrived - pn_start run) (pn_chaos_seed run) m"
    "merge_all (add_totals ?H) (map ar_totals (finished_of (pn_parts run))) z = Some (pm_totals m)"
    "pm_connections m = sum_list (map ar_connections (finished_of (pn_parts run)))" by blast
  have "map ar_totals rs = map (\<lambda>ws. (fold (add_worker ?H recs) ws z)\<lparr>mt_absorbed := []\<rparr>) wss"
    if "list_all2 (\<lambda>r ws. \<exists>windows m series buckets. result_decode S (wire_result_new ?H windows (fold (add_worker ?H recs) ws z) m series buckets) = Inr r) rs wss" for rs wss
    using that by (induction rule: list_all2_induct) (auto dest: decoded_totals [OF assms(2) z])
  from this [OF assms(6)] have "merge_all (add_totals ?H) (map (\<lambda>ws. (fold (add_worker ?H recs) ws z)\<lparr>mt_absorbed := []\<rparr>) workers) z = Some (pm_totals m)"
    using m(3) by simp
  moreover have "merge_all (add_totals ?H) (map (\<lambda>ws. (fold (add_worker ?H recs) ws z)\<lparr>mt_absorbed := []\<rparr>) workers) z =
      merge_all (add_totals ?H) (map (\<lambda>ws. fold (add_worker ?H recs) ws z) workers) z"
    by (rule merge_all_cong) simp
  ultimately have "merge_workers ?H recs (concat workers) (arrived - pn_start run) (pm_connections m) =
      Some (totals_finish ?H (arrived - pn_start run) (pm_connections m) (pm_totals m))"
    using merged_workers [OF assms(1,3,7), of "arrived - pn_start run" "pm_connections m" recs] by simp
  with m show ?thesis by (simp add: merged_totals_part)
qed

text \<open>One agent ran a worker that sent five messages, the other was lost.\<close>

lemma one_worker_merged:
  fixes z :: "nat multiset metrics_totals"
  assumes z: "totals_new values_hdr = Some z" and w: "w_latency w = 0"
  shows "\<exists>r. result_decode values_histograms (wire_result_new values_hdr False (fold (add_worker values_hdr recs) [w] z) sample_meta series_default fmempty) = Inr r \<and>
    (\<exists>m agents. merge_phase values_hdr False sample_coordinator
       \<lparr>pn_start = 0, pn_parts = [Finished r, Lost e], pn_last_result = Some 11, pn_chaos_seed = None\<rparr> None = Inr (m, agents))"
proof -
  have em: "totals_empty values_hdr z" using z by (simp add: totals_empty_def values_hdr_law)
  let ?t = "fold (add_worker values_hdr recs) [w] z"
  have "mt_absorbed z = []" using z by (auto simp: totals_new_def split: option.splits)
  with add_workers_ops [where H = values_hdr and recs = recs and ws = "[w]" and t = z and a = "[]"]
  have ops: "?t\<lparr>mt_absorbed := []\<rparr> = (fold (totals_step values_hdr) (worker_ops recs {} [w]) z)\<lparr>mt_absorbed := []\<rparr>" by simp
  have "totals_ok values_hdr (fold (totals_step values_hdr) (worker_ops recs {} [w]) z)" by (intro totals.ok_run totals_empty_ok em)
  then have ok: "totals_ok values_hdr ?t" by (metis ops totals_ok_absorbed)
  obtain r where r: "result_decode values_histograms (wire_result_new values_hdr False ?t sample_meta series_default fmempty) = Inr r"
    "ar_totals r = ?t\<lparr>mt_absorbed := []\<rparr>"
    using decode_new [OF values_bucket_law values_bucket_law, of ?t fmempty sample_meta False series_default] ok
    by (simp add: values_histograms_def sample_meta_def lag_default_def)
  have "add_totals values_hdr z (ar_totals r) = Some (fold (totals_step values_hdr) (worker_ops recs {} [w]) z)"
    unfolding r(2) ops add_totals_absorbed by (rule totals.merge_run [OF totals_empty_ok [OF em] em])
  then have "\<exists>m agents. merge_phase values_hdr False sample_coordinator
       \<lparr>pn_start = 0, pn_parts = [Finished r, Lost e], pn_last_result = Some 11, pn_chaos_seed = None\<rparr> None = Inr (m, agents)"
    by (simp add: merge_phase_def z sample_coordinator_def merge_part_result_def merge_start_def Let_def)
  with r show ?thesis by blast
qed

theorem cluster_reports_as_one_machine_witness:
  "\<exists>z run metrics agents one. totals_new values_hdr = Some z \<and> merge_phase values_hdr False sample_coordinator run None = Inr (metrics, agents) \<and>
     merge_workers values_hdr (\<lambda>_. with_shards 1) [(fst (worker_new 0 (live_new None)))\<lparr>w_messages_sent := 5\<rparr>] 11 2 = Some one \<and>
     totals_part metrics = totals_part one"
proof -
  let ?w = "(fst (worker_new 0 (live_new None)))\<lparr>w_messages_sent := 5\<rparr>"
  obtain z where z: "totals_new values_hdr = Some z" by (simp add: totals_new_def latency_histogram_def)
  have "w_latency ?w = 0" by (simp add: worker_new_def assign_shard_def live_new_def)
  from one_worker_merged [OF z this, of "\<lambda>_. with_shards 1" "[]"] obtain r m agents where
    r: "result_decode values_histograms (wire_result_new values_hdr False (fold (add_worker values_hdr (\<lambda>_. with_shards 1)) [?w] z) sample_meta series_default fmempty) = Inr r"
    and m: "merge_phase values_hdr False sample_coordinator
       \<lparr>pn_start = 0, pn_parts = [Finished r, Lost []], pn_last_result = Some 11, pn_chaos_seed = None\<rparr> None = Inr (m, agents)" by blast
  let ?run = "\<lparr>pn_start = 0, pn_parts = [Finished r, Lost []], pn_last_result = Some 11, pn_chaos_seed = None\<rparr>"
  have conn: "ar_connections r = 2" using r by (auto simp: result_decode_def wire_result_new_def result_rules sample_meta_def)
  have hs: "hs_hdr values_histograms = values_hdr" by (simp add: values_histograms_def)
  have "\<exists>one arrived. pn_last_result ?run = Some arrived \<and>
    merge_workers (hs_hdr values_histograms) (\<lambda>_. with_shards 1) (concat [[?w]]) (arrived - pn_start ?run)
      (sum_list (map ar_connections (finished_of (pn_parts ?run)))) = Some one \<and> totals_part m = totals_part one"
    by (rule cluster_reports_as_one_machine [where S = values_histograms and highest = "\<lambda>_. True" and z = z and co = sample_coordinator
          and windows = False and arrivals = None and agents = agents])
      (use z m r values_bucket_law values_hdr_law in \<open>auto simp: hs\<close>)
  with m z show ?thesis by (auto simp: hs conn)
qed

section \<open>The start barrier\<close>

definition starts_in :: "(nat \<times> 'n control_message) list \<Rightarrow> nat list" where
  "starts_in msgs = map fst (filter (\<lambda>p. snd p = Start) msgs)"

text \<open>Messages added to the msgs, none of them a start.\<close>

definition no_start_since :: "('n, 'h) cluster \<Rightarrow> ('n, 'h) cluster \<Rightarrow> bool" where
  "no_start_since cl cl' \<longleftrightarrow> (\<exists>msgs. cl_sent cl' = cl_sent cl @ msgs \<and> starts_in msgs = [])"

lemma starts_in_append [simp]: "starts_in (a @ b) = starts_in a @ starts_in b"
  by (simp add: starts_in_def)

lemma starts_in_map [simp]:
  "starts_in (map (\<lambda>i. (i, Start)) agents) = agents" "m \<noteq> Start \<Longrightarrow> starts_in (map (\<lambda>i. (i, m)) agents) = []"
  "starts_in (map (\<lambda>i. (i, Prepare (f i) t)) agents) = []"
  by (induction agents) (simp_all add: starts_in_def)

lemma no_start_refl [simp]: "cl_sent cl' = cl_sent cl \<Longrightarrow> no_start_since cl cl'"
  by (simp add: no_start_since_def starts_in_def)

lemma no_start_trans: "no_start_since a b \<Longrightarrow> no_start_since b c \<Longrightarrow> no_start_since a c"
  by (fastforce simp: no_start_since_def)

lemma log_no_start [simp]:
  "m \<noteq> Start \<Longrightarrow> no_start_since cl (log_sent agents m cl)" "no_start_since cl (log_prepares co shares agents cl)"
  by (auto simp: no_start_since_def log_sent_def log_prepares_def)

lemma ops_no_start [simp]:
  "no_start_since cl (store_snapshot S i live intervals cl)" "no_start_since cl (store_capture start i records cl)"
  "no_start_since cl (publish_live S elapsed interval cl)"
  by (auto simp: store_snapshot_def store_capture_def publish_live_def Let_def split: capture_state.split option.split)

lemma follow_message_no_start: "follow_message S start i fo now received cl = (task, cl') \<Longrightarrow> no_start_since cl cl'"
  by (induction S start i fo now received cl rule: follow_message.induct) auto

lemma phase_turn_no_start: "no_start_since (px_cluster st) (px_cluster (phase_turn S timeout start interval event st))"
proof (cases event)
  case (Agent_turn i e)
  have "no_start_since (px_cluster st) cl" if "follow_step S timeout start (px_stop st) i e fo (px_cluster st) = (task, cl)" for fo task cl
    using that by (cases e) (auto split: if_splits dest: follow_message_no_start)
  with Agent_turn show ?thesis by (auto simp: agent_turn_def split: task.split prod.split)
qed simp_all

lemma follow_loop_no_start:
  "follow_loop S timeout start interval events st = Some st' \<Longrightarrow> no_start_since (px_cluster st) (px_cluster st')"
proof (induction events arbitrary: st)
  case (Cons e es)
  show ?case
  proof (cases "list_all (\<lambda>t. \<not> is_following t) (px_tasks st)")
    case False
    with Cons.prems have "follow_loop S timeout start interval es (phase_turn S timeout start interval e st) = Some st'"
      by (subst (asm) follow_loop.simps) simp
    from no_start_trans [OF phase_turn_no_start Cons.IH [OF this]] show ?thesis .
  qed (use Cons.prems in \<open>auto simp: follow_loop.simps [of _ _ _ _ "e # es"]\<close>)
qed (auto simp: follow_loop.simps split: if_splits)

lemma finish_phase_sent:
  assumes "finish_phase S spec start elapsed parts st = (run, cl')"
  shows "no_start_since (px_cluster st) cl'"
proof -
  have "cl_sent (ct_cluster (collect_loop S spec k tasks c)) = cl_sent (ct_cluster c)" for k tasks c
    by (induction tasks arbitrary: k c) (auto simp: collect_result_def Let_def lose_def split: task.split sum.split)
  moreover have "cl_sent (publish_live S elapsed interval (px_cluster st)) = cl_sent (px_cluster st)" for interval
    by (simp add: publish_live_def Let_def split: option.split)
  ultimately show ?thesis using assms by (auto simp: finish_phase_def Let_def)
qed

lemma barrier_no_start:
  assumes "barrier env co spec answers first cl = (r, cl')"
  shows "no_start_since cl cl'"
proof -
  have "no_start_since cl (snd (barrier_loop spec 0 outs ([], log_prepares co shares agents cl)))" for outs shares agents
    using barrier_loop_keeps [of spec 0 outs "([], log_prepares co shares agents cl)"]
    by (intro no_start_trans [OF log_no_start(2) no_start_refl]) simp
  then have "no_start_since cl cl1" if "barrier_loop spec 0 outs ([], log_prepares co shares agents cl) = (p, cl1)" for outs shares agents p cl1
    using that by (metis snd_conv)
  moreover have "no_start_since cl (log_sent agents Stop (log_prepares co shares agents' cl))" for agents agents' shares
    by (rule no_start_trans [OF log_no_start(2) [of cl co shares agents']]) simp
  ultimately show ?thesis using assms by (auto simp: barrier_def Let_def split: sum.splits if_splits prod.splits)
qed

text \<open>The agents that are started: those still in the run whose answer to the barrier was ready.\<close>

definition ready_agents :: "'n coordinator \<Rightarrow> 'n phase_answers \<Rightarrow> ('n, 'h) cluster \<Rightarrow> nat list" where
  "ready_agents co answers cl = filter (\<lambda>i. prepare co (qa_prepared answers i) = Inr ()) (linked cl)"

lemma barrier_link:
  "av_link (barrier_change spec (map_option (\<lambda>_. r) (av_link v)) v) \<noteq> None \<longleftrightarrow> av_link v \<noteq> None \<and> r = Inr ()"
  by (auto simp: barrier_change_def split: option.splits sum.splits)

lemma linked_after_barrier:
  assumes "barrier env co spec answers first cl = (Inr (Some parts), cl')" "sized cl n"
  shows "linked cl' = ready_agents co answers cl"
proof -
  from barrier_passed [OF assms] have v: "view_of i cl' = barrier_change spec (outcome_at co answers cl i) (view_of i cl)" if "i < n" for i
    using that by blast
  have "cl_links cl' ! i \<noteq> None \<longleftrightarrow> cl_links cl ! i \<noteq> None \<and> prepare co (qa_prepared answers i) = Inr ()" if "i < n" for i
    using barrier_link [of spec "prepare co (qa_prepared answers i)" "view_of i cl"] v [OF that, symmetric]
    by (simp add: view_of_def outcome_at_def)
  moreover have "length (cl_links cl') = n" "length (cl_links cl) = n" using barrier_passed [OF assms] assms(2) by (simp_all add: sized_def)
  ultimately show ?thesis unfolding linked_def ready_agents_def filter_filter by (intro filter_cong) auto
qed

lemma first_all_ready:
  assumes "barrier env co spec answers True cl = (Inr (Some parts), cl1)" "sized cl (length (co_agents co))"
  shows "ready_agents co answers cl = linked cl"
proof -
  have "prepare co (qa_prepared answers i) = Inr ()" if i: "i \<in> set (linked cl)" for i
  proof -
    from i obtain l where l: "i < length (co_agents co)" "cl_links cl ! i = Some l" using assms(2) by (auto simp: linked_iff sized_def)
    with barrier_passed [OF assms] have "\<not> failed_barrier (outcome_at co answers cl i)" by blast
    with l(2) show ?thesis by (auto simp: failed_barrier_def outcome_at_def split: sum.splits)
  qed
  then show ?thesis by (simp add: ready_agents_def filter_id_conv)
qed

text \<open>A phase that passes its barrier starts the agents still linked and sends no other start.\<close>

lemma started_after_barrier:
  assumes "barrier env co spec (qi_answers inp) first cl = (Inr (Some parts), cl1)" "\<not> list_all (\<lambda>link. link = None) (cl_links cl1)"
    "run_phase env S co spec inp first cl = (r, cl')"
  shows "\<exists>m3. cl_sent cl' = cl_sent cl1 @ map (\<lambda>i. (i, Start)) (linked cl1) @ m3 \<and> starts_in m3 = []"
proof -
  obtain rs cl2 where s: "start_phase co spec (qi_answers inp) cl1 = (rs, cl2)" by force
  have m2: "cl_sent cl2 = cl_sent cl1 @ map (\<lambda>i. (i, Start)) (linked cl1)"
    using s by (auto simp: start_phase_def Let_def start_capture_def log_sent_def split: sum.splits capture_state.splits if_splits)
  have "no_start_since cl2 cl'"
  proof (cases rs)
    case (Inl e)
    with assms s show ?thesis by (auto simp: run_phase_def)
  next
    case (Inr st)
    have px: "cl_sent (px_cluster st) = cl_sent cl2" using s Inr by (auto simp: start_phase_def Let_def split: sum.splits)
    show ?thesis
    proof (cases "follow_loop S (co_agent_timeout co) (qa_start (qi_answers inp)) (interval_for (lc_duration (ps_config spec))) (qi_events inp) st")
      case None
      with assms s Inr show ?thesis by (auto simp: run_phase_def)
    next
      case (Some st')
      then obtain run where f: "finish_phase S spec (qa_start (qi_answers inp)) (qi_elapsed inp) parts st' = (run, cl')"
        using assms s Inr by (auto simp: run_phase_def split: prod.splits)
      from no_start_trans [OF no_start_refl no_start_trans [OF follow_loop_no_start [OF Some] finish_phase_sent [OF f]], OF px]
      show ?thesis .
    qed
  qed
  with m2 show ?thesis by (auto simp: no_start_since_def)
qed

text \<open>C5: the agents of a run start together or not at all. Whatever the agents answer, a phase sends its start message to
  no agent, or once to every agent still in the run that is ready; in the first phase that is every agent, and when one
  of them is not ready the run fails and none is started.\<close>

theorem agents_start_together:
  assumes "sized cl (length (co_agents co))" "run_phase env S co spec inp first cl = (r, cl')"
  shows "\<exists>msgs. cl_sent cl' = cl_sent cl @ msgs \<and>
    (starts_in msgs = [] \<or> starts_in msgs = ready_agents co (qi_answers inp) cl \<and> (first \<longrightarrow> starts_in msgs = linked cl)) \<and>
    (first \<and> ready_agents co (qi_answers inp) cl \<noteq> linked cl \<longrightarrow> starts_in msgs = [] \<and> (\<exists>e. r = Inl e))"
proof -
  obtain rb cl1 where b: "barrier env co spec (qi_answers inp) first cl = (rb, cl1)" by force
  from barrier_no_start [OF b] obtain m1 where m1: "cl_sent cl1 = cl_sent cl @ m1" "starts_in m1 = []" by (auto simp: no_start_since_def)
  have first_ready: "ready_agents co (qi_answers inp) cl = linked cl" if "first" "rb = Inr (Some parts)" for parts
    using first_all_ready [OF _ assms(1)] b that by simp
  show ?thesis
  proof (cases "\<exists>parts. rb = Inr (Some parts) \<and> \<not> list_all (\<lambda>link. link = None) (cl_links cl1)")
    case False
    then have "cl' = cl1" "first \<longrightarrow> ready_agents co (qi_answers inp) cl \<noteq> linked cl \<longrightarrow> (\<exists>e. r = Inl e)"
      using assms(2) b first_ready by (auto simp: run_phase_def barrier_def Let_def split: sum.splits option.splits if_splits prod.splits)
    with m1 show ?thesis by (intro exI [of _ m1]) blast
  next
    case True
    then obtain parts where rb: "rb = Inr (Some parts)" and some: "\<not> list_all (\<lambda>link. link = None) (cl_links cl1)" by blast
    note lk = linked_after_barrier [OF b [unfolded rb] assms(1)]
    from started_after_barrier [OF b [unfolded rb] some assms(2)] obtain m3 where
      "cl_sent cl' = cl_sent cl1 @ map (\<lambda>i. (i, Start)) (linked cl1) @ m3" "starts_in m3 = []" by blast
    with m1 lk first_ready rb show ?thesis
      by (intro exI [of _ "m1 @ map (\<lambda>i. (i, Start)) (linked cl1) @ m3"]) auto
  qed
qed

text \<open>The second agent does not answer in time.\<close>

theorem agents_start_together_witness:
  "\<exists>e cl'. run_phase Load_Config.sample_env values_histograms sample_coordinator (single_spec sample_coordinator)
      (sample_remote\<lparr>qi_answers := (qi_answers sample_remote)\<lparr>qa_prepared := \<lambda>i. if i = 1 then Prepare_late else Prepare_answer (Inr (Ready 1))\<rparr>\<rparr>)
      True sample_cluster = (Inl e, cl') \<and> starts_in (cl_sent cl') = []"
proof -
  let ?inp = "sample_remote\<lparr>qi_answers := (qi_answers sample_remote)\<lparr>qa_prepared := \<lambda>i. if i = 1 then Prepare_late else Prepare_answer (Inr (Ready 1))\<rparr>\<rparr>"
  obtain r cl' where r: "run_phase Load_Config.sample_env values_histograms sample_coordinator (single_spec sample_coordinator) ?inp True sample_cluster = (r, cl')"
    by force
  have sz: "sized sample_cluster (length (co_agents sample_coordinator))" by (simp add: sized_def sample_cluster_def)
  have "ready_agents sample_coordinator (qi_answers ?inp) sample_cluster = [0]" by (simp add: ready_agents_def sample_linked)
  then have "ready_agents sample_coordinator (qi_answers ?inp) sample_cluster \<noteq> linked sample_cluster" by (simp add: sample_linked)
  with agents_start_together [OF sz r] have "\<exists>msgs. cl_sent cl' = cl_sent sample_cluster @ msgs \<and> starts_in msgs = [] \<and> (\<exists>e. r = Inl e)" by blast
  with r show ?thesis by (auto simp: sample_cluster_def)
qed

section \<open>A phase ends\<close>

text \<open>The deadline of a task never moves later, and an event at or after it ends the task.\<close>

definition over_by :: "instant \<Rightarrow> task \<Rightarrow> bool" where
  "over_by deadline t = (case t of Following fo \<Rightarrow> fo_deadline fo \<le> deadline | _ \<Rightarrow> True)"

lemma follow_message_following:
  "follow_message S start i fo now received cl = (Following fo', cl') \<Longrightarrow> fo' = fo"
  by (induction S start i fo now received cl rule: follow_message.induct) auto

lemma follow_step_deadline:
  assumes "follow_step S timeout start stop i event fo cl = (task, cl')"
  shows "over_by (fo_deadline fo) task \<and> (\<forall>now. event = Deadline_at now \<longrightarrow> fo_deadline fo \<le> now \<longrightarrow> \<not> is_following task)"
  using assms
proof (cases event)
  case (Received received now)
  with assms show ?thesis by (cases task) (auto simp: over_by_def dest: follow_message_following)
qed (auto simp: over_by_def is_following_def split: if_splits)

lemma follow_step_over:
  assumes "fo_deadline fo \<le> d" "follow_step S timeout start stop k e fo cl = (task, cl')"
  shows "over_by d task \<and> (\<forall>now. e = Deadline_at now \<longrightarrow> d \<le> now \<longrightarrow> \<not> is_following task)"
  using follow_step_deadline [OF assms(2)] assms(1) by (auto simp: over_by_def split: task.splits)

lemma agent_turn_task:
  assumes "i < length (px_tasks st)"
  shows "over_by d (px_tasks st ! i) \<Longrightarrow> over_by d (px_tasks (agent_turn S timeout start j event st) ! i)"
    and "\<not> is_following (px_tasks st ! i) \<Longrightarrow> px_tasks (agent_turn S timeout start j event st) ! i = px_tasks st ! i"
    and "over_by d (px_tasks st ! i) \<Longrightarrow> d \<le> now \<Longrightarrow> \<not> is_following (px_tasks (agent_turn S timeout start i (Deadline_at now) st) ! i)"
proof -
  show "over_by d (px_tasks st ! i) \<Longrightarrow> over_by d (px_tasks (agent_turn S timeout start j event st) ! i)"
    using assms
    by (cases "j = i") (auto simp: agent_turn_def over_by_def [of d "Following _"] nth_list_update split: task.splits prod.splits
        dest: follow_step_over)
  show "\<not> is_following (px_tasks st ! i) \<Longrightarrow> px_tasks (agent_turn S timeout start j event st) ! i = px_tasks st ! i"
    by (cases "j = i") (auto simp: agent_turn_def is_following_def split: task.splits prod.splits)
  show "over_by d (px_tasks st ! i) \<Longrightarrow> d \<le> now \<Longrightarrow> \<not> is_following (px_tasks (agent_turn S timeout start i (Deadline_at now) st) ! i)"
    using assms
    by (auto simp: agent_turn_def over_by_def [of d "Following _"] is_following_def split: task.splits prod.splits if_splits
        dest: follow_step_over)
qed

lemma phase_turn_task:
  assumes "i < length (px_tasks st)"
  shows "over_by d (px_tasks st ! i) \<Longrightarrow> over_by d (px_tasks (phase_turn S timeout start interval event st) ! i)"
    and "\<not> is_following (px_tasks st ! i) \<Longrightarrow> \<not> is_following (px_tasks (phase_turn S timeout start interval event st) ! i)"
    and "event = Agent_turn i (Deadline_at now) \<Longrightarrow> over_by d (px_tasks st ! i) \<Longrightarrow> d \<le> now \<Longrightarrow>
      \<not> is_following (px_tasks (phase_turn S timeout start interval event st) ! i)"
  by (cases event; simp add: agent_turn_task [OF assms])+

lemma phase_turn_length [simp]: "length (px_tasks (phase_turn S timeout start interval event st)) = length (px_tasks st)"
  using phase_turn_wf [of st S timeout start interval event] by (simp add: tasks_wf_def)

lemma follow_loop_ends:
  assumes "\<forall>i<length (px_tasks st). is_following (px_tasks st ! i) \<longrightarrow> over_by d (px_tasks st ! i) \<and>
    (\<exists>now\<ge>d. Agent_turn i (Deadline_at now) \<in> set events)"
  shows "follow_loop S timeout start interval events st \<noteq> None"
  using assms
proof (induction events arbitrary: st)
  case Nil
  then show ?case by (auto simp: follow_loop.simps list_all_length)
next
  case (Cons e es)
  let ?st = "phase_turn S timeout start interval e st"
  have "\<forall>i<length (px_tasks ?st). is_following (px_tasks ?st ! i) \<longrightarrow> over_by d (px_tasks ?st ! i) \<and>
      (\<exists>now\<ge>d. Agent_turn i (Deadline_at now) \<in> set es)"
  proof (intro allI impI)
    fix i assume "i < length (px_tasks ?st)" and f: "is_following (px_tasks ?st ! i)"
    then have i: "i < length (px_tasks st)" by simp
    with f phase_turn_task(2) [OF i] have "is_following (px_tasks st ! i)" by blast
    with Cons.prems i obtain now where now: "over_by d (px_tasks st ! i)" "d \<le> now" "Agent_turn i (Deadline_at now) \<in> set (e # es)" by blast
    with f phase_turn_task(3) [OF i] have "e \<noteq> Agent_turn i (Deadline_at now)" by blast
    with now show "over_by d (px_tasks ?st ! i) \<and> (\<exists>now\<ge>d. Agent_turn i (Deadline_at now) \<in> set es)"
      using phase_turn_task(1) [OF i now(1)] by auto
  qed
  from Cons.IH [OF this] show ?case by (subst follow_loop.simps) simp
qed

text \<open>C29: a phase always ends. However the agents behave, once the clock of every agent that was started has passed the end
  of the phase and the agent timeout, the phase is over: the coordinator never waits longer for a result, a stop only
  brings the deadline forward, and nothing an agent sends moves it.\<close>

theorem phase_ends:
  assumes "sized cl (length (co_agents co))"
    "\<forall>i \<in> set (linked cl). \<exists>now. qa_start (qi_answers inp) + lc_duration (ps_config spec) + co_agent_timeout co \<le> now \<and>
       Agent_turn i (Deadline_at now) \<in> set (qi_events inp)"
  shows "fst (run_phase env S co spec inp first cl) \<noteq> Inl Cluster_waiting"
proof (rule ccontr)
  let ?d = "qa_start (qi_answers inp) + lc_duration (ps_config spec) + co_agent_timeout co"
  assume "\<not> fst (run_phase env S co spec inp first cl) \<noteq> Inl Cluster_waiting"
  then obtain cl' where w: "run_phase env S co spec inp first cl = (Inl Cluster_waiting, cl')" by (metis prod.collapse)
  then obtain parts cl1 where b: "barrier env co spec (qi_answers inp) first cl = (Inr (Some parts), cl1)"
    by (auto simp: run_phase_def barrier_def interrupted_early_def nothing_run_def Let_def
        split: sum.splits option.splits if_splits prod.splits)
  with w obtain st cl2 where s: "start_phase co spec (qi_answers inp) cl1 = (Inr st, cl2)"
    and l: "follow_loop S (co_agent_timeout co) (qa_start (qi_answers inp)) (interval_for (lc_duration (ps_config spec))) (qi_events inp) st = None"
    by (auto simp: run_phase_def start_phase_def start_capture_def Let_def split: sum.splits option.splits if_splits prod.splits capture_state.splits)
  have sz: "sized cl1 (length (co_agents co))" using barrier_passed [OF b assms(1)] by blast
  have t: "px_tasks st = map (start_task co spec (qi_answers inp) cl2) [0..<length (co_agents co)]" "cl_links cl2 = cl_links cl1"
    using s sz by (auto simp: start_phase_def Let_def start_capture_def log_sent_def sized_def split: sum.splits capture_state.splits if_splits)
  have "over_by ?d (px_tasks st ! i) \<and> (\<exists>now\<ge>?d. Agent_turn i (Deadline_at now) \<in> set (qi_events inp))"
    if "i < length (px_tasks st)" "is_following (px_tasks st ! i)" for i
  proof -
    from that t have "cl_links cl1 ! i \<noteq> None" by (auto simp: start_task_def is_following_def split: option.splits)
    with that(1) t sz have "i \<in> set (linked cl1)" by (auto simp: linked_iff sized_def)
    then have "i \<in> set (linked cl)" unfolding linked_after_barrier [OF b assms(1)] by (simp add: ready_agents_def)
    with assms(2) that t show ?thesis by (auto simp: start_task_def over_by_def is_following_def split: option.splits)
  qed
  with follow_loop_ends [of st ?d] l show False by blast
qed

theorem phase_ends_witness:
  "fst (run_phase Load_Config.sample_env values_histograms sample_coordinator (single_spec sample_coordinator) sample_remote True sample_cluster)
     \<noteq> Inl Cluster_waiting"
proof (rule phase_ends)
  show "sized sample_cluster (length (co_agents sample_coordinator))" by (simp add: sized_def sample_cluster_def)
  have "qa_start (qi_answers sample_remote) + lc_duration (ps_config (single_spec sample_coordinator)) + co_agent_timeout sample_coordinator = 40000000000"
    by (simp add: sample_remote_def single_spec_def sample_coordinator_def sample_config_def from_secs_def)
  then show "\<forall>i\<in>set (linked sample_cluster). \<exists>now. qa_start (qi_answers sample_remote) + lc_duration (ps_config (single_spec sample_coordinator)) +
      co_agent_timeout sample_coordinator \<le> now \<and> Agent_turn i (Deadline_at now) \<in> set (qi_events sample_remote)"
    unfolding sample_linked by (intro ballI exI [of _ 40000000000]) (auto simp: sample_remote_def)
qed

section \<open>Generator health\<close>

text \<open>Choosing, of the agents that measured something, the first that no other is better than.\<close>

locale strict_best =
  fixes better :: "'x \<Rightarrow> 'x \<Rightarrow> bool"
  assumes trans: "better x y \<Longrightarrow> better y z \<Longrightarrow> better x z"
    and neg_trans: "\<not> better x y \<Longrightarrow> \<not> better y z \<Longrightarrow> \<not> better x z"
    and irrefl: "\<not> better x x"
begin

definition keep :: "('a \<Rightarrow> 'x option) \<Rightarrow> ('a \<Rightarrow> 'b) \<Rightarrow> 'a \<Rightarrow> ('b \<times> 'x) option \<Rightarrow> ('b \<times> 'x) option" where
  "keep f name a acc =
     (case f a of None \<Rightarrow> acc | Some x \<Rightarrow> (if (case acc of None \<Rightarrow> True | Some (_, y) \<Rightarrow> better x y) then Some (name a, x) else acc))"

definition first_best :: "('a \<Rightarrow> 'x option) \<Rightarrow> ('a \<Rightarrow> 'b) \<Rightarrow> 'a list \<Rightarrow> 'b \<times> 'x \<Rightarrow> bool" where
  "first_best f name as p \<longleftrightarrow> (\<exists>before a after. as = before @ a # after \<and> f a = Some (snd p) \<and> name a = fst p \<and>
     (\<forall>b\<in>set before. \<forall>y. f b = Some y \<longrightarrow> better (snd p) y) \<and> (\<forall>b\<in>set after. \<forall>y. f b = Some y \<longrightarrow> \<not> better y (snd p)))"

lemma first_bestI:
  "as = before @ a # after \<Longrightarrow> f a = Some x \<Longrightarrow> name a = n \<Longrightarrow> \<forall>b\<in>set before. \<forall>y. f b = Some y \<longrightarrow> better x y \<Longrightarrow>
   \<forall>b\<in>set after. \<forall>y. f b = Some y \<longrightarrow> \<not> better y x \<Longrightarrow> first_best f name as (n, x)"
  unfolding first_best_def fst_conv snd_conv by blast

lemma first_bestE:
  assumes "first_best f name as (n, x)"
  obtains before a after where "as = before @ a # after" "f a = Some x" "name a = n"
    "\<forall>b\<in>set before. \<forall>y. f b = Some y \<longrightarrow> better x y" "\<forall>b\<in>set after. \<forall>y. f b = Some y \<longrightarrow> \<not> better y x"
  using assms unfolding first_best_def fst_conv snd_conv by blast

lemma first_best_all:
  assumes "first_best f name as (n, x)" "b \<in> set as" "f b = Some y"
  shows "\<not> better y x"
proof -
  from assms(1) obtain before a after where d: "as = before @ a # after" "f a = Some x"
    "\<forall>b\<in>set before. \<forall>y. f b = Some y \<longrightarrow> better x y" "\<forall>b\<in>set after. \<forall>y. f b = Some y \<longrightarrow> \<not> better y x" by (rule first_bestE)
  from assms(2) d(1) consider "b \<in> set before" | "b = a" | "b \<in> set after" by auto
  then show ?thesis
  proof cases
    case 1
    with d(3) assms(3) have "better x y" by blast
    then show ?thesis using trans irrefl by blast
  qed (use d assms(3) irrefl in auto)
qed

lemma first_best_snoc:
  assumes "first_best f name as (n, x)" "f b = None \<or> (\<exists>y. f b = Some y \<and> \<not> better y x)"
  shows "first_best f name (as @ [b]) (n, x)"
proof -
  from assms(1) obtain before a after where d: "as = before @ a # after" "f a = Some x" "name a = n"
    "\<forall>b\<in>set before. \<forall>y. f b = Some y \<longrightarrow> better x y" "\<forall>b\<in>set after. \<forall>y. f b = Some y \<longrightarrow> \<not> better y x" by (rule first_bestE)
  show ?thesis by (rule first_bestI [of _ before a "after @ [b]"]) (use d assms(2) in auto)
qed

lemma keep_cases:
  "f a = None \<Longrightarrow> keep f name a acc = acc"
  "f a = Some x \<Longrightarrow> keep f name a None = Some (name a, x)"
  "f a = Some x \<Longrightarrow> keep f name a (Some (n, y)) = (if better x y then Some (name a, x) else Some (n, y))"
  by (simp_all add: keep_def)

lemma keep_first:
  "(fold (keep f name) as None = None \<longleftrightarrow> (\<forall>a\<in>set as. f a = None)) \<and>
   (\<forall>p. fold (keep f name) as None = Some p \<longrightarrow> first_best f name as p)"
proof (induction as rule: rev_induct)
  case (snoc b as)
  let ?acc = "fold (keep f name) as None"
  show ?case
  proof (cases "f b")
    case None
    then show ?thesis using snoc by (auto simp: keep_cases intro: first_best_snoc)
  next
    case (Some y)
    show ?thesis
    proof (cases ?acc)
      case None
      with snoc have "\<forall>a\<in>set as. f a = None" by simp
      then have "first_best f name (as @ [b]) (name b, y)" by (intro first_bestI [of _ as b "[]"]) (use Some in auto)
      with None Some show ?thesis by (simp add: keep_cases)
    next
      case (Some p)
      obtain n x where p: "p = (n, x)" by force
      from snoc Some p have fb: "first_best f name as (n, x)" by blast
      have "first_best f name (as @ [b]) (name b, y)" if "better y x"
      proof -
        have "better y z" if "a \<in> set as" "f a = Some z" for a z
          using first_best_all [OF fb that] neg_trans [of y z x] \<open>better y x\<close> by auto
        then show ?thesis by (intro first_bestI [of _ as b "[]"]) (use \<open>f b = Some y\<close> in auto)
      qed
      with Some p \<open>f b = Some y\<close> fb show ?thesis by (auto simp: keep_cases intro: first_best_snoc)
    qed
  qed
qed simp

end

interpretation lag: strict_best lag_worse
  by unfold_locales (auto simp: lag_worse_def)

interpretation files: strict_best "\<lambda>f tightest. headroom f < headroom tightest"
  by unfold_locales auto

lemma health_fold:
  "fold health_step gs h = \<lparr>gh_lag = fold (lag.keep ag_lag ag_agent) gs (gh_lag h), gh_files = fold (files.keep ag_files ag_agent) gs (gh_files h)\<rparr>"
proof (induction gs arbitrary: h)
  case (Cons g gs)
  have "health_step g h = \<lparr>gh_lag = lag.keep ag_lag ag_agent g (gh_lag h), gh_files = files.keep ag_files ag_agent g (gh_files h)\<rparr>"
    by (auto simp: health_step_def lag.keep_def files.keep_def split: option.split)
  with Cons show ?case by simp
qed simp

text \<open>A distributed run reports its weakest generator. The lag it reports is that of the first agent whose p99, and then
  maximum, no other agent exceeds, so the limit on the lag fails when any agent exceeds it, and it is marked saturated when
  any agent was; the open file limit is that of the first agent with the fewest descriptors to spare. Nothing is
  reported only when no agent measured it.\<close>

theorem weakest_generator_reported:
  "(case gh_lag (health_of gs) of
      None \<Rightarrow> \<forall>g\<in>set gs. ag_lag g = None
    | Some (name, worst) \<Rightarrow> gl_saturated worst = any_saturated gs \<and>
        (\<exists>before g after l. gs = before @ g # after \<and> ag_agent g = name \<and> ag_lag g = Some l \<and>
           worst = l\<lparr>gl_saturated := any_saturated gs\<rparr> \<and>
           (\<forall>b\<in>set before. \<forall>k. ag_lag b = Some k \<longrightarrow> lag_worse l k) \<and> (\<forall>b\<in>set after. \<forall>k. ag_lag b = Some k \<longrightarrow> \<not> lag_worse k l))) \<and>
   (case gh_files (health_of gs) of
      None \<Rightarrow> \<forall>g\<in>set gs. ag_files g = None
    | Some (name, tightest) \<Rightarrow>
        \<exists>before g after. gs = before @ g # after \<and> ag_agent g = name \<and> ag_files g = Some tightest \<and>
          (\<forall>b\<in>set before. \<forall>k. ag_files b = Some k \<longrightarrow> headroom tightest < headroom k) \<and>
          (\<forall>b\<in>set after. \<forall>k. ag_files b = Some k \<longrightarrow> headroom tightest \<le> headroom k))"
proof (rule conjI)
  note lag = lag.keep_first [of ag_lag ag_agent gs] and files = files.keep_first [of ag_files ag_agent gs]
  let ?lag = "fold (lag.keep ag_lag ag_agent) gs None" and ?files = "fold (files.keep ag_files ag_agent) gs None"
  have h: "gh_lag (health_of gs) = map_option (\<lambda>(n, l). (n, l\<lparr>gl_saturated := any_saturated gs\<rparr>)) ?lag" "gh_files (health_of gs) = ?files"
    by (simp_all add: health_of_def health_fold Let_def)
  show "case gh_lag (health_of gs) of
      None \<Rightarrow> \<forall>g\<in>set gs. ag_lag g = None
    | Some (name, worst) \<Rightarrow> gl_saturated worst = any_saturated gs \<and>
        (\<exists>before g after l. gs = before @ g # after \<and> ag_agent g = name \<and> ag_lag g = Some l \<and>
           worst = l\<lparr>gl_saturated := any_saturated gs\<rparr> \<and>
           (\<forall>b\<in>set before. \<forall>k. ag_lag b = Some k \<longrightarrow> lag_worse l k) \<and> (\<forall>b\<in>set after. \<forall>k. ag_lag b = Some k \<longrightarrow> \<not> lag_worse k l))"
  proof (cases ?lag)
    case (Some p)
    then obtain n l where p: "?lag = Some (n, l)" by force
    with lag have "lag.first_best ag_lag ag_agent gs (n, l)" by blast
    then show ?thesis unfolding h p by (rule lag.first_bestE) (simp, blast)
  qed (use lag h in simp)
  show "case gh_files (health_of gs) of
      None \<Rightarrow> \<forall>g\<in>set gs. ag_files g = None
    | Some (name, tightest) \<Rightarrow>
        \<exists>before g after. gs = before @ g # after \<and> ag_agent g = name \<and> ag_files g = Some tightest \<and>
          (\<forall>b\<in>set before. \<forall>k. ag_files b = Some k \<longrightarrow> headroom tightest < headroom k) \<and>
          (\<forall>b\<in>set after. \<forall>k. ag_files b = Some k \<longrightarrow> headroom tightest \<le> headroom k)"
  proof (cases ?files)
    case (Some p)
    then obtain n l where p: "?files = Some (n, l)" by force
    with files have "files.first_best ag_files ag_agent gs (n, l)" by blast
    then show ?thesis unfolding h p by (rule files.first_bestE) (simp add: not_less, blast)
  qed (use files h in simp)
qed

definition sample_lag :: "nat \<Rightarrow> nat \<Rightarrow> bool \<Rightarrow> generator_lag" where
  "sample_lag p99 high saturated = \<lparr>gl_probe_interval_us = 10000, gl_samples = 100, gl_p50_us = 1000, gl_p99_us = p99, gl_max_us = high,
     gl_threshold_us = 20000, gl_intervals = 2, gl_over = 0, gl_saturated = saturated\<rparr>"

definition sample_generators :: "agent_generator list" where
  "sample_generators =
     [\<lparr>ag_agent = ''a'', ag_lag = Some (sample_lag 1000 5000 False), ag_files = Some \<lparr>of_soft_limit = 1024, of_needed = 100, of_sufficient = True\<rparr>\<rparr>,
      \<lparr>ag_agent = ''b'', ag_lag = Some (sample_lag 25000 40000 False), ag_files = None\<rparr>,
      \<lparr>ag_agent = ''c'', ag_lag = Some (sample_lag 15000 90000 True), ag_files = None\<rparr>,
      \<lparr>ag_agent = ''d'', ag_lag = None, ag_files = Some \<lparr>of_soft_limit = 1024, of_needed = 1000, of_sufficient = True\<rparr>\<rparr>]"

theorem weakest_generator_reported_witness:
  "\<exists>worst tightest before after. gh_lag (health_of sample_generators) = Some (''b'', worst) \<and> gl_saturated worst \<and>
     gh_files (health_of sample_generators) = Some (''d'', tightest) \<and>
     sample_generators = before @ \<lparr>ag_agent = ''d'', ag_lag = None, ag_files = Some tightest\<rparr> # after"
proof -
  have h: "gh_lag (health_of sample_generators) = Some (''b'', sample_lag 25000 40000 True)"
    "gh_files (health_of sample_generators) = Some (''d'', \<lparr>of_soft_limit = 1024, of_needed = 1000, of_sufficient = True\<rparr>)"
    by (simp_all add: health_of_def sample_generators_def health_step_def lag_worse_def sample_lag_def any_saturated_def headroom_def Let_def)
  from weakest_generator_reported [of sample_generators] have "gl_saturated (sample_lag 25000 40000 True) = any_saturated sample_generators"
    unfolding h by simp
  then have "gl_saturated (sample_lag 25000 40000 True)" by (simp add: any_saturated_def sample_generators_def sample_lag_def)
  moreover have "sample_generators = take 3 sample_generators @ \<lparr>ag_agent = ''d'', ag_lag = None,
      ag_files = Some \<lparr>of_soft_limit = 1024, of_needed = 1000, of_sufficient = True\<rparr>\<rparr> # []"
    by (simp add: sample_generators_def)
  ultimately show ?thesis using h by blast
qed

end
