(* ===== verification/Cluster_Scenario.thy ===== *)
theory Cluster_Scenario
  imports Cluster_Report
begin

text \<open>
  Properties of distributed scenarios: the career of every agent over the phases, and the report of the scenario as the sum
  of its phases.
\<close>

section \<open>The account of a phase\<close>

text \<open>C7: a phase accounts for every agent, and the session stays consistent. An agent that was connected either finished,
  and keeps its connection, or is lost for a reason the session records; an agent that was lost before takes no part
  and stays lost for the reason it had. At every moment between phases an agent has a connection or a reason, never
  both, and the board shows exactly the lost ones.\<close>

theorem phase_accounts_for_every_agent:
  assumes "cluster_ok n cl" "run_phase env S co spec inp first cl = (Inr (Some run), cl')"
  shows "cluster_ok n cl' \<and> length (pn_parts run) = n \<and>
    (\<forall>i<n. case pn_parts run ! i of
       Absent \<Rightarrow> cl_links cl ! i = None \<and> cl_links cl' ! i = None \<and> cl_lost cl' ! i = cl_lost cl ! i
     | Finished _ \<Rightarrow> cl_links cl ! i \<noteq> None \<and> cl_links cl' ! i \<noteq> None \<and> cl_lost cl' ! i = None
     | Lost reason \<Rightarrow> cl_links cl ! i \<noteq> None \<and> cl_links cl' ! i = None \<and> cl_lost cl' ! i = Some reason)"
proof -
  note f = phase_fates [OF assms]
  have "case pn_parts run ! i of
       Absent \<Rightarrow> cl_links cl ! i = None \<and> cl_links cl' ! i = None \<and> cl_lost cl' ! i = cl_lost cl ! i
     | Finished _ \<Rightarrow> cl_links cl ! i \<noteq> None \<and> cl_links cl' ! i \<noteq> None \<and> cl_lost cl' ! i = None
     | Lost reason \<Rightarrow> cl_links cl ! i \<noteq> None \<and> cl_links cl' ! i = None \<and> cl_lost cl' ! i = Some reason" if "i < n" for i
  proof -
    from f that have "fate_ok (pn_parts run ! i) (view_of i cl) (view_of i cl')" by blast
    then show ?thesis by (auto simp: fate_ok_def view_of_def split: part.splits)
  qed
  then show ?thesis using f phase_keeps_ok [OF assms] by blast
qed

theorem phase_accounts_for_every_agent_witness:
  "\<exists>run cl'. run_phase Load_Config.sample_env values_histograms sample_coordinator (single_spec sample_coordinator) sample_remote True sample_cluster =
     (Inr (Some run), cl') \<and> cluster_ok 2 cl' \<and> cl_links cl' ! 0 \<noteq> None \<and> cl_links cl' ! 1 = None \<and> cl_lost cl' ! 1 \<noteq> None"
proof -
  obtain r reason cl' where run: "run_phase Load_Config.sample_env values_histograms sample_coordinator (single_spec sample_coordinator)
      sample_remote True sample_cluster =
     (Inr (Some \<lparr>pn_start = 0, pn_parts = [Finished r, Lost reason], pn_last_result = Some 11000000000, pn_chaos_seed = None\<rparr>), cl')"
    using sample_phase_run [OF sample_spec] by blast
  have "cluster_ok 2 sample_cluster"
    by (simp add: cluster_ok_def sized_def agent_settled_def view_of_def sample_cluster_def less_Suc_eq numeral_2_eq_2)
  note acc = phase_accounts_for_every_agent [OF this run]
  then have "\<forall>i<2. case [Finished r, Lost reason] ! i of
       Absent \<Rightarrow> cl_links sample_cluster ! i = None \<and> cl_links cl' ! i = None \<and> cl_lost cl' ! i = cl_lost sample_cluster ! i
     | Finished _ \<Rightarrow> cl_links sample_cluster ! i \<noteq> None \<and> cl_links cl' ! i \<noteq> None \<and> cl_lost cl' ! i = None
     | Lost reason \<Rightarrow> cl_links sample_cluster ! i \<noteq> None \<and> cl_links cl' ! i = None \<and> cl_lost cl' ! i = Some reason" by simp
  from this [rule_format, of 0] this [rule_format, of 1] have "cl_links cl' ! 0 \<noteq> None" "cl_links cl' ! 1 = None" "cl_lost cl' ! 1 \<noteq> None" by auto
  with run acc show ?thesis by blast
qed

section \<open>Careers\<close>

text \<open>What becomes of one agent over the phases that are reported; after the last of them a phase in which no agent finished
  may have lost it.\<close>

definition is_finished :: "'h part \<Rightarrow> bool" where
  "is_finished p = (case p of Finished _ \<Rightarrow> True | _ \<Rightarrow> False)"

fun career :: "agent_view \<Rightarrow> 'h part list \<Rightarrow> agent_view \<Rightarrow> bool" where
  "career before [] after = (after = before \<or> (\<exists>p. \<not> is_finished (p :: 'h part) \<and> fate_ok p before after))"
| "career before (p # ps) after = (\<exists>mid. fate_ok p before mid \<and> career mid ps after)"

lemma career_lost:
  assumes "career before ps after" "av_link before = None"
  shows "after = before \<and> (\<forall>p\<in>set ps. p = Absent)"
  using assms
proof (induction ps arbitrary: before)
  case (Cons p ps)
  from Cons.prems(1) obtain mid where mid: "fate_ok p before mid" "career mid ps after" by auto
  with Cons.prems(2) have "p = Absent" "mid = before" by (auto simp: fate_ok_def split: part.splits)
  with Cons.IH [OF mid(2)] Cons.prems(2) show ?case by simp
next
  case Nil
  have "after = before" if "fate_ok p before after" for p :: "'a part" using that Nil(2) by (cases p) (auto simp: fate_ok_def)
  with Nil show ?case by auto
qed

lemma career_split:
  assumes "career before ps after" "av_link before \<noteq> None" "j < length ps" "\<not> is_finished (ps ! j)" "\<forall>k<j. is_finished (ps ! k)"
  shows "\<exists>reason. ps ! j = Lost reason \<and> av_lost after = Some reason \<and> (\<forall>k<length ps. j < k \<longrightarrow> ps ! k = Absent)"
  using assms
proof (induction ps arbitrary: before j)
  case (Cons p ps)
  from Cons.prems(1) obtain mid where mid: "fate_ok p before mid" "career mid ps after" by auto
  show ?case
  proof (cases j)
    case 0
    with Cons.prems mid obtain reason where r: "p = Lost reason" "av_link mid = None" "av_lost mid = Some reason"
      by (auto simp: fate_ok_def is_finished_def split: part.splits)
    from career_lost [OF mid(2) r(2)] r show ?thesis by (auto simp: 0 nth_Cons')
  next
    case (Suc k)
    have "is_finished p" using Cons.prems(5) Suc by force
    with mid(1) have "av_link mid \<noteq> None" by (auto simp: fate_ok_def is_finished_def split: part.splits)
    moreover have "\<forall>i<k. is_finished (ps ! i)" using Cons.prems(5) Suc by (metis Suc_less_eq nth_Cons_Suc)
    ultimately obtain reason where "ps ! k = Lost reason" "av_lost after = Some reason" "\<forall>i<length ps. k < i \<longrightarrow> ps ! i = Absent"
      using Cons.IH [OF mid(2), of k] Cons.prems Suc by auto
    then show ?thesis by (auto simp: Suc nth_Cons' less_diff_conv2)
  qed
qed simp

lemma first_index: "j < length xs \<Longrightarrow> \<not> P (xs ! j) \<Longrightarrow> \<exists>i\<le>j. \<not> P (xs ! i) \<and> (\<forall>k<i. P (xs ! k))"
  by (induction j rule: less_induct) (metis leI le_trans less_imp_le_nat less_trans order_refl)

lemma career_all_finished:
  assumes "career before ps after" "av_link before \<noteq> None" "av_lost after = None" "p \<in> set ps"
  shows "is_finished p"
proof (rule ccontr)
  assume "\<not> is_finished p"
  with assms(4) obtain j where "j < length ps" "\<not> is_finished (ps ! j)" by (metis in_set_conv_nth)
  then obtain i where "i < length ps" "\<not> is_finished (ps ! i)" "\<forall>k<i. is_finished (ps ! k)"
    using first_index [of j ps is_finished] by (meson le_less_trans)
  from career_split [OF assms(1,2) this] assms(3) show False by auto
qed

section \<open>The phases of a scenario\<close>

lemma run_phase_None:
  assumes "run_phase env S co spec inp first cl = (Inr None, cl')"
  shows "same_agents cl cl'"
  using assms
  by (auto simp: run_phase_def barrier_def Let_def log_sent_def log_prepares_def same_agents_def
      split: prod.splits sum.splits option.splits if_splits)

definition part_column :: "nat \<Rightarrow> (nat \<times> 'h phase_run) list \<Rightarrow> 'h part list" where
  "part_column i runs = map (\<lambda>p. pn_parts (snd p) ! i) runs"

lemma all_lost_links:
  assumes "sized cl' n" "length (pn_parts run) = n" "\<forall>i<n. fate_ok (pn_parts run ! i) (view_of i cl) (view_of i cl')" "\<not> any_finished run"
  shows "list_all (\<lambda>link. link = None) (cl_links cl') \<and> (\<forall>i<n. \<not> is_finished (pn_parts run ! i))"
proof -
  have nf: "\<not> is_finished (pn_parts run ! i)" if "i < n" for i
    using assms(2,4) that by (auto simp: any_finished_def list_ex_length is_finished_def)
  moreover have "cl_links cl' ! i = None" if "i < n" for i
    using assms(3) nf [OF that] that by (auto simp: fate_ok_def view_of_def is_finished_def split: part.splits)
  ultimately show ?thesis using assms(1) by (simp add: list_all_length sized_def)
qed

lemma scenario_loop_stops:
  "list_all (\<lambda>link. link = None) (cl_links cl) \<Longrightarrow> scenario_loop env S co answers todo first runs cl = (Inr runs, cl)"
  by (cases todo) auto

lemma career_refl: "career v [] v"
  by simp

lemma scenario_loop_careers:
  assumes "scenario_loop env S co answers todo first runs cl = (Inr runs', cl')" "cluster_ok n cl"
  shows "\<exists>new. runs' = runs @ new \<and> cluster_ok n cl' \<and> (\<forall>p\<in>set new. length (pn_parts (snd p)) = n \<and> any_finished (snd p)) \<and>
    (\<forall>p\<in>set new. fst p \<in> set (map fst todo)) \<and> (\<forall>i<n. career (view_of i cl) (part_column i new) (view_of i cl'))"
  using assms
proof (induction todo arbitrary: first runs cl)
  case (Cons p todo)
  obtain index phase target where p: "p = (index, phase, target)" by (cases p) auto
  have stop: ?case if "runs' = runs" "same_agents cl cl'"
    using that Cons.prems(2) same_agents_view [OF that(2)] by (intro exI [of _ "[]"]) (auto simp: part_column_def cluster_ok_def)
  show ?case
  proof (cases "sa_cancelled answers index \<or> list_all (\<lambda>link. link = None) (cl_links cl)")
    case True
    with Cons.prems(1) p show ?thesis by (intro stop) auto
  next
    case False
    let ?spec = "scenario_spec (sa_seed answers index) co phase target"
    obtain r cl1 where r: "run_phase env S co ?spec (sa_phase answers index) first cl = (r, cl1)" by force
    show ?thesis
    proof (cases "\<exists>run. r = Inr (Some run)")
      case none: False
      with False Cons.prems(1) p r have "r = Inr None" "runs' = runs" "cl' = cl1" by (auto split: sum.splits option.splits)
      with run_phase_None r show ?thesis by (intro stop) auto
    next
      case True
      then obtain run where run: "run_phase env S co ?spec (sa_phase answers index) first cl = (Inr (Some run), cl1)" using r by blast
      note f = phase_fates [OF Cons.prems(2) run]
      note ok1 = phase_keeps_ok [OF Cons.prems(2) run]
      show ?thesis
      proof (cases "any_finished run")
        case True
        with False Cons.prems(1) p run have "scenario_loop env S co answers todo False (runs @ [(index, run)]) cl1 = (Inr runs', cl')" by simp
        from Cons.IH [OF this ok1] obtain new where new: "runs' = (runs @ [(index, run)]) @ new" "cluster_ok n cl'"
          "\<forall>p\<in>set new. length (pn_parts (snd p)) = n \<and> any_finished (snd p)" "\<forall>p\<in>set new. fst p \<in> set (map fst todo)"
          "\<forall>i<n. career (view_of i cl1) (part_column i new) (view_of i cl')" by blast
        show ?thesis by (rule exI [of _ "(index, run) # new"]) (use new f True p in \<open>auto simp: part_column_def\<close>)
      next
        case lost: False
        from all_lost_links [OF _ _ _ lost, of cl1 n cl] f
        have l: "list_all (\<lambda>link. link = None) (cl_links cl1)" "\<forall>i<n. \<not> is_finished (pn_parts run ! i)" by blast+
        with False Cons.prems(1) p run lost scenario_loop_stops [OF l(1)] have "runs' = runs" "cl' = cl1" by auto
        then show ?thesis using ok1 f l(2) by (intro exI [of _ "[]"]) (auto simp: part_column_def)
      qed
    qed
  qed
qed (intro exI [of _ "[]"], auto simp: part_column_def)

section \<open>Adding up the phases\<close>

lemma merge_slots_spec:
  assumes "merge_slots H offset k parts sm = Inr sm'" "k + length parts \<le> length (sm_per_agent sm)"
  shows "total_of c (sm_totals sm') = total_of c (sm_totals sm) + (\<Sum>r\<leftarrow>finished_of parts. total_of c (ar_totals r)) \<and>
    length (sm_per_agent sm') = length (sm_per_agent sm) \<and>
    (\<forall>j. (sm_per_agent sm' ! j \<noteq> None) = (sm_per_agent sm ! j \<noteq> None \<or> (k \<le> j \<and> j < k + length parts \<and> is_finished (parts ! (j - k))))) \<and>
    sm_elapsed sm' = sm_elapsed sm \<and> sm_connections sm' = sm_connections sm \<and> sm_results sm' = sm_results sm \<and>
    sm_phase_agents sm' = sm_phase_agents sm"
  using assms
proof (induction parts arbitrary: k sm)
  case (Cons p ps)
  from Cons.prems(1) obtain sm1 where s1: "merge_slot H offset k p sm = Inr sm1" and rest: "merge_slots H offset (k + 1) ps sm1 = Inr sm'"
    by (auto simp: result_rules)
  have sm1: "total_of c (sm_totals sm1) = total_of c (sm_totals sm) + (\<Sum>r\<leftarrow>finished_of [p]. total_of c (ar_totals r))"
    "length (sm_per_agent sm1) = length (sm_per_agent sm)"
    "(sm_per_agent sm1 ! j \<noteq> None) = (sm_per_agent sm ! j \<noteq> None \<or> (j = k \<and> is_finished p))"
    "sm_elapsed sm1 = sm_elapsed sm" "sm_connections sm1 = sm_connections sm" "sm_results sm1 = sm_results sm"
    "sm_phase_agents sm1 = sm_phase_agents sm" for j
    using s1 Cons.prems(2) total_of_add
    by (auto simp: merge_slot_def result_rules is_finished_def nth_list_update split: part.splits option.splits)
  note IH = Cons.IH [OF rest]
  have len1: "k + 1 + length ps \<le> length (sm_per_agent sm1)" using Cons.prems(2) by (simp add: sm1(2))
  have "(sm_per_agent sm' ! j \<noteq> None) =
      (sm_per_agent sm ! j \<noteq> None \<or> (k \<le> j \<and> j < k + length (p # ps) \<and> is_finished ((p # ps) ! (j - k))))" for j
  proof -
    have "(sm_per_agent sm' ! j \<noteq> None) =
        (sm_per_agent sm1 ! j \<noteq> None \<or> (k + 1 \<le> j \<and> j < k + 1 + length ps \<and> is_finished (ps ! (j - (k + 1)))))"
      using IH [OF len1] by blast
    then show ?thesis unfolding sm1(3) [of j] by (cases "j = k") (auto simp: nth_Cons' Suc_le_eq)
  qed
  moreover have "finished_of (p # ps) = finished_of [p] @ finished_of ps" by (cases p) simp_all
  ultimately show ?case using IH [OF len1] sm1 by (simp add: algebra_simps)
qed auto

text \<open>The counters of a report.\<close>

fun report_counter :: "counter \<Rightarrow> aggregated_metrics \<Rightarrow> u64" where
  "report_counter C_sent m = m_messages_sent m"
| "report_counter C_recv m = m_messages_recv m"
| "report_counter C_bytes_sent m = m_bytes_sent m"
| "report_counter C_bytes_recv m = m_bytes_recv m"
| "report_counter C_reconnects m = m_reconnects m"
| "report_counter C_unsolicited m = m_unsolicited m"
| "report_counter C_errors m = error_sum (m_errors m)"

lemma report_counter_part: "report_counter c (totals_part m) = report_counter c m"
  by (cases c) (simp_all add: totals_part_def)

lemma report_counter_finish: "report_counter c (totals_finish H elapsed n t) = total_of c t"
  by (cases c) (simp_all add: totals_finish_def Let_def)

lemma total_of_merge_all:
  "merge_all (add_totals H) ts a = Some t \<Longrightarrow> total_of c t = total_of c a + (\<Sum>b\<leftarrow>ts. total_of c b)"
proof (induction ts arbitrary: a)
  case (Cons b ts)
  then obtain a' where "add_totals H a b = Some a'" "merge_all (add_totals H) ts a' = Some t" by (auto split: option.splits)
  with Cons.IH show ?case by (simp add: total_of_add algebra_simps)
qed simp

lemma total_of_new: "totals_new H = Some z \<Longrightarrow> total_of c z = 0"
  by (cases c) (auto simp: totals_new_def split: option.splits)

lemma phase_counters:
  assumes "merge_phase H windows co run arrivals = Inr (metrics, agents)" "length (pn_parts run) = length (co_agents co)" "totals_new H = Some z"
  shows "report_counter c metrics = (\<Sum>r\<leftarrow>finished_of (pn_parts run). total_of c (ar_totals r)) \<and>
    m_attempted metrics = (\<Sum>r\<leftarrow>finished_of (pn_parts run). ar_connections r) \<and>
    agents = map2 (part_outcome H windows) (co_agents co) (pn_parts run)"
proof -
  from merge_phase_Inr [OF assms] obtain m arrived where m: "metrics = merged_metrics H arrivals (arrived - pn_start run) (pn_chaos_seed run) m"
    "merge_all (add_totals H) (map ar_totals (finished_of (pn_parts run))) z = Some (pm_totals m)"
    "pm_connections m = sum_list (map ar_connections (finished_of (pn_parts run)))"
    "agents = map2 (part_outcome H windows) (co_agents co) (pn_parts run)" by blast
  have "report_counter c metrics = total_of c (pm_totals m)"
    unfolding m(1) by (subst report_counter_part [symmetric]) (simp add: merged_totals_part report_counter_part report_counter_finish)
  with total_of_merge_all [OF m(2)] total_of_new [OF assms(3)] m show ?thesis by (simp add: comp_def)
qed

lemma merge_runs_spec:
  assumes "merge_runs_loop H windows co scenario start runs sm = Inr sm'" "\<forall>p\<in>set runs. length (pn_parts (snd p)) = length (co_agents co)"
    "totals_new H = Some z" "length (sm_per_agent sm) = length (co_agents co)"
  shows "\<exists>results. sm_results sm' = sm_results sm @ results \<and> length results = length runs \<and>
    total_of c (sm_totals sm') = total_of c (sm_totals sm) + (\<Sum>p\<leftarrow>results. report_counter c (pr_metrics p)) \<and>
    sm_elapsed sm' = sm_elapsed sm + (\<Sum>p\<leftarrow>results. m_elapsed (pr_metrics p)) \<and>
    sm_connections sm' = sm_connections sm + (\<Sum>p\<leftarrow>results. m_attempted (pr_metrics p)) \<and>
    sm_phase_agents sm' = sm_phase_agents sm @ map (\<lambda>p. map2 (part_outcome H windows) (co_agents co) (pn_parts (snd p))) runs \<and>
    length (sm_per_agent sm') = length (co_agents co) \<and>
    (\<forall>j<length (co_agents co). (sm_per_agent sm' ! j \<noteq> None) = (sm_per_agent sm ! j \<noteq> None \<or> (\<exists>p\<in>set (part_column j runs). is_finished p)))"
  using assms(1,2,4)
proof (induction runs arbitrary: sm)
  case (Cons p runs)
  obtain index run where p: "p = (index, run)" by force
  let ?phase = "pl_phases scenario ! index"
  from Cons.prems(1) obtain sm2 where s2: "merge_run H windows co scenario start p sm = Inr sm2"
    and rest: "merge_runs_loop H windows co scenario start runs sm2 = Inr sm'" by (auto simp: result_rules)
  from s2 obtain metrics agents sm1 elapsed where mp: "merge_phase H windows co run (ph_arrivals ?phase) = Inr (metrics, agents)"
    and sl: "merge_slots H (pn_start run - start) 0 (pn_parts run) (sm\<lparr>
        sm_arrivals := add_phase_arrivals (m_arrivals metrics) (sm_arrivals sm),
        sm_compression := add_phase_compression (m_compression metrics) (sm_compression sm),
        sm_seed := (if sm_seed sm = None then map_option csum_seed (m_chaos metrics) else sm_seed sm)\<rparr>) = Inr sm1"
    and e: "duration_add (sm_elapsed sm1) (m_elapsed metrics) = Some elapsed"
    and sm2: "sm_totals sm2 = sm_totals sm1" "sm_elapsed sm2 = elapsed" "sm_connections sm2 = sm_connections sm1 + m_attempted metrics"
      "sm_phase_agents sm2 = sm_phase_agents sm1 @ [agents]" "sm_per_agent sm2 = sm_per_agent sm1"
      "\<exists>q. sm_results sm2 = sm_results sm1 @ [q] \<and> pr_metrics q = metrics"
    by (auto simp: merge_run_def p Let_def result_rules split: option.splits)
  have len: "length (pn_parts run) = length (co_agents co)" using Cons.prems(2) p by simp
  note pc = phase_counters [OF mp len assms(3), of c]
  from merge_slots_spec [OF sl, of c] Cons.prems(3) len
  have sm1: "total_of c (sm_totals sm1) = total_of c (sm_totals sm) + report_counter c metrics" "sm_elapsed sm1 = sm_elapsed sm"
    "sm_connections sm1 = sm_connections sm" "sm_results sm1 = sm_results sm" "sm_phase_agents sm1 = sm_phase_agents sm"
    "length (sm_per_agent sm1) = length (co_agents co)"
    "\<forall>j<length (co_agents co). (sm_per_agent sm1 ! j \<noteq> None) = (sm_per_agent sm ! j \<noteq> None \<or> is_finished (pn_parts run ! j))"
    using pc by auto
  from sm2(6) obtain q where q: "sm_results sm2 = sm_results sm @ [q]" "pr_metrics q = metrics" using sm1(4) by auto
  have el: "elapsed = sm_elapsed sm + m_elapsed metrics" using e sm1(2) by (auto simp: duration_add_def split: if_splits)
  from Cons.IH [OF rest] Cons.prems(2) sm1(6) sm2(5) obtain results where r: "sm_results sm' = sm_results sm2 @ results" "length results = length runs"
    "total_of c (sm_totals sm') = total_of c (sm_totals sm2) + (\<Sum>p\<leftarrow>results. report_counter c (pr_metrics p))"
    "sm_elapsed sm' = sm_elapsed sm2 + (\<Sum>p\<leftarrow>results. m_elapsed (pr_metrics p))"
    "sm_connections sm' = sm_connections sm2 + (\<Sum>p\<leftarrow>results. m_attempted (pr_metrics p))"
    "sm_phase_agents sm' = sm_phase_agents sm2 @ map (\<lambda>p. map2 (part_outcome H windows) (co_agents co) (pn_parts (snd p))) runs"
    "length (sm_per_agent sm') = length (co_agents co)"
    "\<forall>j<length (co_agents co). (sm_per_agent sm' ! j \<noteq> None) = (sm_per_agent sm2 ! j \<noteq> None \<or> (\<exists>p\<in>set (part_column j runs). is_finished p))"
    by auto
  show ?case
    by (rule exI [of _ "q # results"])
      (use r q sm1 sm2(1-5) pc el p in \<open>auto simp: algebra_simps part_column_def\<close>)
qed (intro exI [of _ "[]"], auto simp: part_column_def)

lemma report_counter_with [simp]:
  "report_counter c (with_distributed s m) = report_counter c m" "report_counter c (health_apply h m) = report_counter c m"
  "report_counter c (with_time_series ts m) = report_counter c m" "report_counter c (with_not_started n m) = report_counter c m"
  "report_counter c (with_capture cap m) = report_counter c m" "report_counter c (with_seed seed m) = report_counter c m"
  "report_counter c (m\<lparr>m_arrivals := a, m_compression := k\<rparr>) = report_counter c m"
  by (cases c; simp add: with_distributed_def health_apply_def with_generator_def with_time_series_def with_not_started_def with_capture_def
      with_seed_def Let_def split: option.split)+

lemma scenario_metrics_fields:
  "report_counter c (cluster_scenario_metrics H capture agents sm) = total_of c (sm_totals sm)"
  "m_elapsed (cluster_scenario_metrics H capture agents sm) = sm_elapsed sm"
  "m_attempted (cluster_scenario_metrics H capture agents sm) = sm_connections sm"
  by (simp_all add: cluster_scenario_metrics_def report_counter_finish split: prod.split)
    (simp_all add: with_distributed_def health_apply_def with_generator_def with_time_series_def with_not_started_def with_capture_def
      with_seed_def Let_def totals_finish_def split: option.split)

section \<open>A sample scenario\<close>

text \<open>The sample run as a scenario of one phase.\<close>

definition sample_plan_target :: url_view where
  "sample_plan_target = \<lparr>url_scheme = ''ws'', url_path = ''/'', url_query = []\<rparr>"

definition sample_cluster_phase :: "nat scenario_phase" where
  "sample_cluster_phase = sample_wire_phase\<lparr>ph_duration := from_secs 10\<rparr>"

definition sample_scenario_coordinator :: "nat coordinator" where
  "sample_scenario_coordinator = sample_coordinator\<lparr>co_scenario := Some \<lparr>pl_name = ''smoke'', pl_slo = slo_none, pl_action_slos = [],
     pl_phases = [sample_cluster_phase], pl_targets = [sample_plan_target]\<rparr>\<rparr>"

definition sample_scenario_answers :: "nat scenario_answers" where
  "sample_scenario_answers = \<lparr>sa_open = \<lparr>oa_capture = True, oa_tls = Inr (), oa_cancelled = False,
       oa_connect = (\<lambda>i. Hello_answer (Inr (Hello PROTOCOL_VERSION [])) (i + 1)), oa_intervals = None, oa_cores = Some 1\<rparr>,
     sa_cancelled = (\<lambda>_. False), sa_seed = (\<lambda>_. 7), sa_phase = (\<lambda>_. sample_remote), sa_close = \<lparr>ca_started = False, ca_joined = None\<rparr>\<rparr>"

lemma sample_opened: "open_cluster sample_scenario_coordinator (sa_open sample_scenario_answers) = Inr sample_cluster"
proof -
  have n: "length (co_agents sample_scenario_coordinator) = 2" by (simp add: sample_scenario_coordinator_def)
  have c: "connect sample_scenario_coordinator (oa_connect (sa_open sample_scenario_answers) i) = Inr \<lparr>lk_rtt = i + 1\<rparr>" for i
    by (simp add: sample_scenario_answers_def check_hello_def check_protocol_def)
  have f: "failures sample_scenario_coordinator [None, None] = []"
    by (simp add: failures_def sample_scenario_coordinator_def sample_coordinator_def)
  show ?thesis
    by (simp add: open_cluster_def n c the_error_def the_ok_def f Let_def)
      (simp add: sample_scenario_coordinator_def sample_coordinator_def sample_config_def sample_scenario_answers_def sample_cluster_def numeral_2_eq_2)
qed

lemma sample_scenario_spec: "sample_spec_ok sample_scenario_coordinator (scenario_spec 7 sample_scenario_coordinator sample_cluster_phase sample_plan_target)"
  by (simp add: sample_spec_ok_def scenario_spec_def cluster_phase_config_def set_target_def run_phase_config_def plan_def check_plan_def sample_coordinator_def sample_config_def from_config_def
      Load_Config.sample_env_def sample_scenario_coordinator_def sample_cluster_phase_def sample_wire_phase_def Let_def split: option.split)


lemma sample_totals_added:
  assumes "totals_new values_hdr = Some z" "ar_totals r = sample_totals\<lparr>mt_absorbed := []\<rparr>"
  shows "\<exists>t. add_totals values_hdr z (ar_totals r) = Some t"
  using assms by (auto simp: sample_totals_def totals_new_def latency_histogram_def add_totals_def sorted_list_of_fset.rep_eq split: option.splits)

lemma sample_merged:
  assumes r: "ar_totals r = sample_totals\<lparr>mt_absorbed := []\<rparr>" "ar_elapsed r < 2 ^ 32" 
  shows "\<exists>out. merge_scenario values_hdr False sample_scenario_coordinator
      \<lparr>pl_name = ''smoke'', pl_slo = slo_none, pl_action_slos = [], pl_phases = [sample_cluster_phase], pl_targets = [sample_plan_target]\<rparr>
      [(0, \<lparr>pn_start = 0, pn_parts = [Finished r, Lost reason], pn_last_result = Some 11000000000, pn_chaos_seed = None\<rparr>)] lost cap = Inr out"
proof -
  obtain z where z: "totals_new values_hdr = Some z" by (simp add: totals_new_def latency_histogram_def)
  from sample_totals_added [OF z r(1)] obtain t where t: "add_totals values_hdr z (ar_totals r) = Some t" by blast
  have n: "co_agents sample_scenario_coordinator = co_agents sample_coordinator" by (simp add: sample_scenario_coordinator_def)
  obtain m agents where mp: "merge_phase values_hdr False sample_scenario_coordinator
      \<lparr>pn_start = 0, pn_parts = [Finished r, Lost reason], pn_last_result = Some 11000000000, pn_chaos_seed = None\<rparr> None = Inr (m, agents)"
    and e: "m_elapsed m = 11000000000"
    using t by (auto simp: merge_phase_def z n sample_coordinator_def merge_part_result_def merge_start_def Let_def)
  have a: "\<exists>mine. add_agent_result values_hdr 0 r (agent_totals_new z) = Inr mine"
    using t r(2) by (auto simp: add_agent_result_def agent_totals_new_def duration_add_def)
  then obtain mine where a: "add_agent_result values_hdr 0 r (agent_totals_new z) = Inr mine" by blast
  have phase: "ph_arrivals sample_cluster_phase = None" by (simp add: sample_cluster_phase_def sample_wire_phase_def)
  show ?thesis
    by (simp add: merge_scenario_def z merge_run_def mp phase merge_slot_def scenario_merge_start_def t n a numeral_2_eq_2 e
        or_default_def duration_add_def Let_def)
qed


lemma sample_elapsed: "result_decode values_histograms sample_result = Inr r \<Longrightarrow> ar_elapsed r < 2 ^ 32"
  by (auto simp: result_decode_def sample_result_def wire_result_new_def result_rules sample_meta_def)

lemma sample_scenario_run:
  "\<exists>r reason cl' out. scenario_loop Load_Config.sample_env values_histograms sample_scenario_coordinator sample_scenario_answers
       [(0, sample_cluster_phase, sample_plan_target)] True [] sample_cluster =
     (Inr [(0, \<lparr>pn_start = 0, pn_parts = [Finished r, Lost reason], pn_last_result = Some 11000000000, pn_chaos_seed = None\<rparr>)], cl') \<and>
     merge_scenario values_hdr False sample_scenario_coordinator (the (co_scenario sample_scenario_coordinator))
      [(0, \<lparr>pn_start = 0, pn_parts = [Finished r, Lost reason], pn_last_result = Some 11000000000, pn_chaos_seed = None\<rparr>)] (cl_lost cl')
      (close_cluster sample_scenario_coordinator (sa_close sample_scenario_answers) cl') = Inr out"
proof -
  obtain r reason cl' where r: "result_decode values_histograms sample_result = Inr r"
    and run: "run_phase Load_Config.sample_env values_histograms sample_scenario_coordinator
       (scenario_spec 7 sample_scenario_coordinator sample_cluster_phase sample_plan_target) sample_remote True sample_cluster =
     (Inr (Some \<lparr>pn_start = 0, pn_parts = [Finished r, Lost reason], pn_last_result = Some 11000000000, pn_chaos_seed = None\<rparr>), cl')"
    using sample_phase_run [OF sample_scenario_spec] by blast
  have t: "ar_totals r = sample_totals\<lparr>mt_absorbed := []\<rparr>" using sample_decoded r by auto
  have "\<not> list_all (\<lambda>link. link = None) (cl_links sample_cluster)" by (simp add: sample_cluster_def)
  then have loop: "scenario_loop Load_Config.sample_env values_histograms sample_scenario_coordinator sample_scenario_answers
       [(0, sample_cluster_phase, sample_plan_target)] True [] sample_cluster =
     (Inr [(0, \<lparr>pn_start = 0, pn_parts = [Finished r, Lost reason], pn_last_result = Some 11000000000, pn_chaos_seed = None\<rparr>)], cl')"
    using run by (simp add: sample_scenario_answers_def any_finished_def)
  have "co_scenario sample_scenario_coordinator = Some \<lparr>pl_name = ''smoke'', pl_slo = slo_none, pl_action_slos = [],
     pl_phases = [sample_cluster_phase], pl_targets = [sample_plan_target]\<rparr>" by (simp add: sample_scenario_coordinator_def)
  with loop sample_merged [OF t sample_elapsed [OF r]] show ?thesis by fastforce
qed

lemma run_scenario_eval:
  assumes "co_scenario co = Some scenario" "open_cluster co (sa_open answers) = Inr cl" "runs \<noteq> []"
    "scenario_loop env S co answers (List.enumerate 0 (zip (pl_phases scenario) (pl_targets scenario))) True [] cl = (Inr runs, cl')"
  shows "run_scenario env S windows co answers =
    merge_scenario (hs_hdr S) windows co scenario runs (cl_lost cl') (close_cluster co (sa_close answers) cl')"
  using assms by (simp add: run_scenario_def)

section \<open>The reports of a scenario\<close>

text \<open>C8: the report of a distributed scenario is the sum of its phases. Every phase that ran on some agent is reported in
  order; every counter of the whole report (messages, bytes, reconnects, unsolicited frames, errors), its duration and its
  connections are the sums of those of the phases' own merged reports, so no agent's result is counted twice or left out.\<close>

theorem cluster_scenario_adds_up:
  assumes "merge_scenario H windows co scenario runs lost capture = Inr r" "totals_new H = Some z"
    "\<forall>p\<in>set runs. length (pn_parts (snd p)) = length (co_agents co)"
  shows "length (so_phases (dx_scenario r)) = length runs \<and>
    report_counter c (so_metrics (dx_scenario r)) = (\<Sum>p\<leftarrow>so_phases (dx_scenario r). report_counter c (pr_metrics p)) \<and>
    m_elapsed (so_metrics (dx_scenario r)) = (\<Sum>p\<leftarrow>so_phases (dx_scenario r). m_elapsed (pr_metrics p)) \<and>
    m_attempted (so_metrics (dx_scenario r)) = (\<Sum>p\<leftarrow>so_phases (dx_scenario r). m_attempted (pr_metrics p))"
proof -
  let ?n = "length (co_agents co)"
  from assms(1,2) obtain sm start where sm: "merge_runs_loop H windows co scenario start runs (scenario_merge_start z ?n) = Inr sm"
    and r: "so_phases (dx_scenario r) = sm_results sm" "so_metrics (dx_scenario r) = cluster_scenario_metrics H capture (scenario_agents H windows co lost sm) sm"
    by (auto simp: merge_scenario_def Let_def result_rules)
  have "length (sm_per_agent (scenario_merge_start z ?n)) = ?n" by (simp add: scenario_merge_start_def)
  from merge_runs_spec [OF sm assms(3,2) this, of c] show ?thesis
    by (auto simp: r scenario_metrics_fields scenario_merge_start_def total_of_new [OF assms(2)])
qed

theorem cluster_scenario_adds_up_witness:
  "\<exists>runs lost cap out. merge_scenario values_hdr False sample_scenario_coordinator (the (co_scenario sample_scenario_coordinator)) runs lost cap = Inr out \<and>
     length (so_phases (dx_scenario out)) = 1 \<and>
     m_attempted (so_metrics (dx_scenario out)) = (\<Sum>p\<leftarrow>so_phases (dx_scenario out). m_attempted (pr_metrics p))"
proof -
  obtain run lost cap out where m: "merge_scenario values_hdr False sample_scenario_coordinator (the (co_scenario sample_scenario_coordinator))
      [(0, run)] lost cap = Inr out" and l: "length (pn_parts run) = 2"
    using sample_scenario_run by fastforce
  obtain z where z: "totals_new values_hdr = Some z" by (simp add: totals_new_def latency_histogram_def)
  have n: "length (co_agents sample_scenario_coordinator) = 2" by (simp add: sample_scenario_coordinator_def)
  show ?thesis using cluster_scenario_adds_up [OF m z] l n m by fastforce
qed

lemma run_scenario_Inr:
  assumes "run_scenario env S windows co answers = Inr r"
  obtains scenario and cl :: "('n, 'h) cluster" and runs cl' where "open_cluster co (sa_open answers) = Inr cl"
    "scenario_loop env S co answers (List.enumerate 0 (zip (pl_phases scenario) (pl_targets scenario))) True [] cl = (Inr runs, cl')"
    "merge_scenario (hs_hdr S) windows co scenario runs (cl_lost cl') (close_cluster co (sa_close answers) cl') = Inr r"
proof -
  from assms obtain scenario where sc: "co_scenario co = Some scenario" by (auto simp: run_scenario_def split: option.splits)
  let ?todo = "List.enumerate 0 (zip (pl_phases scenario) (pl_targets scenario))"
  from assms obtain cl :: "('n, 'h) cluster" where o: "open_cluster co (sa_open answers) = Inr cl"
    and rest: "(case scenario_loop env S co answers ?todo True [] cl of (Inl e, _) \<Rightarrow> Inl e
      | (Inr runs, cl) \<Rightarrow> (if runs = []
           then Inl (if list_all (\<lambda>r. r = None) (cl_lost cl) then interrupted_early
                     else every_agent_lost (zip (map aa_name (co_agents co)) (cl_lost cl)))
           else merge_scenario (hs_hdr S) windows co scenario runs (cl_lost cl) (close_cluster co (sa_close answers) cl))) = Inr r"
    unfolding run_scenario_def sc option.case and_then_Inr_iff by blast
  obtain res cl' where loop: "scenario_loop env S co answers ?todo True [] cl = (res, cl')" by force
  show ?thesis
  proof (cases res)
    case (Inr runs)
    with rest loop have "merge_scenario (hs_hdr S) windows co scenario runs (cl_lost cl') (close_cluster co (sa_close answers) cl') = Inr r"
      by (simp split: if_splits)
    with that o loop Inr show ?thesis by blast
  qed (use rest loop in simp)
qed

text \<open>What the outcome of an agent says of its part.\<close>

lemma part_outcome_simps [simp]:
  "ao_address (part_outcome H windows a p) = aa_name a" "ao_metrics (part_outcome H windows a p) = None \<longleftrightarrow> \<not> is_finished p"
  "ao_error (part_outcome H windows a (Lost reason)) = Some reason"
  "ao_error (part_outcome H windows a Absent) = Some ''lost in an earlier phase''"
  by (simp_all add: part_outcome_def lost_outcome_def is_finished_def split: part.split)

lemma scenario_agent_simps [simp]:
  "ao_address (scenario_agent H windows a l t s) = aa_name a"
  "ao_metrics (scenario_agent H windows a l t s) = None \<longleftrightarrow> l \<noteq> None \<or> t = None"
  "ao_error (scenario_agent H windows a (Some reason) t s) = Some reason"
  by (auto simp: scenario_agent_def or_default_def split: option.split)

text \<open>What the report says of the phases and the agents, and the careers it is about.\<close>

lemma run_scenario_report:
  fixes co :: "'n coordinator" and S :: "'h histograms"
  assumes "run_scenario env S windows co answers = Inr r"
  obtains runs and cl cl' :: "('n, 'h) cluster" and sm :: "'h scenario_merge" where
    "dx_phases r = map (\<lambda>p. map2 (part_outcome (hs_hdr S) windows) (co_agents co) (pn_parts (snd p))) runs"
    "\<forall>p\<in>set runs. length (pn_parts (snd p)) = length (co_agents co) \<and> any_finished (snd p)"
    "\<forall>i<length (co_agents co). av_link (view_of i cl) \<noteq> None \<and> career (view_of i cl) (part_column i runs) (view_of i cl') \<and>
       dx_agents r ! i = scenario_agent (hs_hdr S) windows (co_agents co ! i) (cl_lost cl' ! i) (sm_per_agent sm ! i) (sm_started_at sm ! i)"
    "map ao_address (dx_agents r) = map aa_name (co_agents co)"
proof -
  let ?n = "length (co_agents co)" and ?H = "hs_hdr S"
  from assms obtain scenario and cl :: "('n, 'h) cluster" and runs cl' where o: "open_cluster co (sa_open answers) = Inr cl"
    and l: "scenario_loop env S co answers (List.enumerate 0 (zip (pl_phases scenario) (pl_targets scenario))) True [] cl = (Inr runs, cl')"
    and m: "merge_scenario ?H windows co scenario runs (cl_lost cl') (close_cluster co (sa_close answers) cl') = Inr r"
    by (rule run_scenario_Inr)
  note ok = open_cluster_ok [OF o]
  from scenario_loop_careers [OF l, of ?n] ok have lens: "\<forall>p\<in>set runs. length (pn_parts (snd p)) = ?n \<and> any_finished (snd p)"
    and car: "\<And>i. i < ?n \<Longrightarrow> career (view_of i cl) (part_column i runs) (view_of i cl')" by auto
  have linked: "av_link (view_of i cl) \<noteq> None" if "i < ?n" for i
    using ok that by (simp add: view_of_def list_all_length cluster_ok_def sized_def)
  from m obtain z where z: "totals_new ?H = Some z" by (auto simp: merge_scenario_def Let_def split: option.splits)
  with m obtain sm start where sm: "merge_runs_loop ?H windows co scenario start runs (scenario_merge_start z ?n) = Inr sm"
    and r: "dx_agents r = scenario_agents ?H windows co (cl_lost cl') sm" "dx_phases r = sm_phase_agents sm"
    by (auto simp: merge_scenario_def Let_def result_rules)
  have "length (sm_per_agent (scenario_merge_start z ?n)) = ?n" by (simp add: scenario_merge_start_def)
  from merge_runs_spec [OF sm _ z this] lens
  have ph: "dx_phases r = map (\<lambda>p. map2 (part_outcome ?H windows) (co_agents co) (pn_parts (snd p))) runs"
    by (auto simp: r scenario_merge_start_def)
  have names: "map ao_address (dx_agents r) = map aa_name (co_agents co)"
    by (rule nth_equalityI) (simp_all add: r scenario_agents_def)
  show ?thesis by (rule that [OF ph lens _ names, of cl cl' sm]) (use car linked in \<open>simp add: r scenario_agents_def\<close>)
qed

text \<open>In a phase that is reported every agent is listed and one finished.\<close>

lemma reported_phase:
  assumes "length parts = length agents" "list_ex is_finished parts"
  shows "map ao_address (map2 (part_outcome H windows) agents parts) = map aa_name agents \<and>
    (\<exists>agent\<in>set (map2 (part_outcome H windows) agents parts). ao_metrics agent \<noteq> None)"
proof -
  from assms obtain i where i: "i < length agents" "is_finished (parts ! i)" by (auto simp: list_ex_length)
  let ?phase = "map2 (part_outcome H windows) agents parts"
  have "?phase ! i \<in> set ?phase" by (rule nth_mem) (use assms i in simp)
  moreover have "ao_metrics (?phase ! i) \<noteq> None" using assms i by simp
  moreover have "map ao_address ?phase = map aa_name agents" using assms by (intro nth_equalityI) simp_all
  ultimately show ?thesis by blast
qed

lemma any_finished_list_ex: "any_finished run = list_ex is_finished (pn_parts run)"
  by (simp add: any_finished_def is_finished_def [abs_def])

text \<open>C6: a distributed scenario reports every agent in every phase and over the whole run, and a lost agent stays lost. The
  agents are listed by name in the order given, for the scenario and for every phase, and in every phase reported at least
  one finished. An agent reported with metrics finished every phase; from the phase an agent is lost in it takes no part
  in any later phase, and the scenario reports the reason of that phase.\<close>

theorem lost_agents_stay_lost:
  assumes "run_scenario env S windows co answers = Inr r"
  shows "map ao_address (dx_agents r) = map aa_name (co_agents co) \<and>
    (\<forall>phase\<in>set (dx_phases r). map ao_address phase = map aa_name (co_agents co) \<and> (\<exists>agent\<in>set phase. ao_metrics agent \<noteq> None)) \<and>
    (\<forall>i<length (co_agents co).
       (ao_metrics (dx_agents r ! i) \<noteq> None \<longrightarrow> (\<forall>phase\<in>set (dx_phases r). ao_metrics (phase ! i) \<noteq> None)) \<and>
       (\<forall>j<length (dx_phases r). ao_metrics (dx_phases r ! j ! i) = None \<longrightarrow> (\<forall>k<j. ao_metrics (dx_phases r ! k ! i) \<noteq> None) \<longrightarrow>
          ao_metrics (dx_agents r ! i) = None \<and> ao_error (dx_agents r ! i) = ao_error (dx_phases r ! j ! i) \<and>
          (\<forall>k<length (dx_phases r). j < k \<longrightarrow> ao_error (dx_phases r ! k ! i) = Some ''lost in an earlier phase'')))"
proof -
  let ?n = "length (co_agents co)" and ?H = "hs_hdr S"
  from assms obtain runs and cl cl' :: "('a, 'b) cluster" and sm :: "'b scenario_merge" where
    ph: "dx_phases r = map (\<lambda>p. map2 (part_outcome ?H windows) (co_agents co) (pn_parts (snd p))) runs"
    and lens: "\<forall>p\<in>set runs. length (pn_parts (snd p)) = ?n \<and> any_finished (snd p)"
    and car: "\<forall>i<?n. av_link (view_of i cl) \<noteq> None \<and> career (view_of i cl) (part_column i runs) (view_of i cl') \<and>
       dx_agents r ! i = scenario_agent ?H windows (co_agents co ! i) (cl_lost cl' ! i) (sm_per_agent sm ! i) (sm_started_at sm ! i)"
    and names: "map ao_address (dx_agents r) = map aa_name (co_agents co)" by (rule run_scenario_report)
  have at: "dx_phases r ! j ! i = part_outcome ?H windows (co_agents co ! i) (part_column i runs ! j)" if "i < ?n" "j < length runs" for i j
    using that lens by (simp add: ph part_column_def)
  have len: "length (dx_phases r) = length runs" "length (part_column i runs) = length runs" for i by (simp_all add: ph part_column_def)
  have all: "\<forall>phase\<in>set (dx_phases r). ao_metrics (phase ! i) \<noteq> None" if i: "i < ?n" "ao_metrics (dx_agents r ! i) \<noteq> None" for i
  proof -
    have "av_lost (view_of i cl') = None" using i car by (simp add: view_of_def)
    with car career_all_finished i(1) have "is_finished (part_column i runs ! j)" if "j < length runs" for j
      using that by (metis len(2) nth_mem)
    then show ?thesis using at [OF i(1)] by (metis in_set_conv_nth len(1) part_outcome_simps(2))
  qed
  have lost: "ao_metrics (dx_agents r ! i) = None \<and> ao_error (dx_agents r ! i) = ao_error (dx_phases r ! j ! i) \<and>
      (\<forall>k<length (dx_phases r). j < k \<longrightarrow> ao_error (dx_phases r ! k ! i) = Some ''lost in an earlier phase'')"
    if i: "i < ?n" and j: "j < length (dx_phases r)" "ao_metrics (dx_phases r ! j ! i) = None" "\<forall>k<j. ao_metrics (dx_phases r ! k ! i) \<noteq> None" for i j
  proof -
    have "\<forall>k<j. is_finished (part_column i runs ! k)" using j at [OF i] len(1) by (metis less_trans part_outcome_simps(2))
    then obtain reason where "part_column i runs ! j = Lost reason" "av_lost (view_of i cl') = Some reason"
      "\<forall>k<length runs. j < k \<longrightarrow> part_column i runs ! k = Absent"
      using career_split [of "view_of i cl" "part_column i runs" "view_of i cl'" j] car i j at [OF i] len by auto
    then show ?thesis using j at [OF i] car i len by (simp add: view_of_def)
  qed
  have "map ao_address phase = map aa_name (co_agents co) \<and> (\<exists>agent\<in>set phase. ao_metrics agent \<noteq> None)" if "phase \<in> set (dx_phases r)" for phase
    using that lens reported_phase [of _ "co_agents co" ?H windows] by (auto simp: ph any_finished_list_ex)
  then show ?thesis using names all lost by blast
qed

theorem lost_agents_stay_lost_witness:
  "\<exists>out. run_scenario Load_Config.sample_env values_histograms False sample_scenario_coordinator sample_scenario_answers = Inr out \<and>
     map ao_address (dx_agents out) = [''a'', ''b'']"
proof -
  have sc: "co_scenario sample_scenario_coordinator = Some (the (co_scenario sample_scenario_coordinator))"
    "List.enumerate 0 (zip (pl_phases (the (co_scenario sample_scenario_coordinator))) (pl_targets (the (co_scenario sample_scenario_coordinator)))) =
       [(0, sample_cluster_phase, sample_plan_target)]"
    by (simp_all add: sample_scenario_coordinator_def)
  have hs: "hs_hdr values_histograms = values_hdr" by (simp add: values_histograms_def)
  obtain r reason cl' out where loop: "scenario_loop Load_Config.sample_env values_histograms sample_scenario_coordinator sample_scenario_answers
       [(0, sample_cluster_phase, sample_plan_target)] True [] sample_cluster =
     (Inr [(0, \<lparr>pn_start = 0, pn_parts = [Finished r, Lost reason], pn_last_result = Some 11000000000, pn_chaos_seed = None\<rparr>)], cl')"
    and m: "merge_scenario values_hdr False sample_scenario_coordinator (the (co_scenario sample_scenario_coordinator))
      [(0, \<lparr>pn_start = 0, pn_parts = [Finished r, Lost reason], pn_last_result = Some 11000000000, pn_chaos_seed = None\<rparr>)] (cl_lost cl')
      (close_cluster sample_scenario_coordinator (sa_close sample_scenario_answers) cl') = Inr out"
    using sample_scenario_run by blast
  have o: "run_scenario Load_Config.sample_env values_histograms False sample_scenario_coordinator sample_scenario_answers = Inr out"
    using run_scenario_eval [OF sc(1) sample_opened _ loop [folded sc(2)], of False] m by (simp only: hs list.distinct not_False_eq_True simp_thms)
  from lost_agents_stay_lost [OF o] o show ?thesis
    by (auto simp: sample_scenario_coordinator_def sample_coordinator_def)
qed

end
