(* ===== verification/Agent_Session.thy ===== *)
theory Agent_Session
  imports Agent Cluster_Scenario
begin

text \<open>
  Properties of the load agent, and of an agent and a coordinator together: the claim that keeps the agent to one
  coordinator, the order of what an agent says, and the way of a result from the run to the report.
\<close>

section \<open>One coordinator at a time\<close>

lemma to_bytes_inject [simp]: "to_bytes a = to_bytes b \<longleftrightarrow> a = b"
  by (metis of_bytes_to_bytes)

lemma handshake_callback_eq:
  "handshake_callback token header busy =
     (if presented_token header \<noteq> token then (Inl Unauthorized, busy) else if busy then (Inl Conflict, busy) else (Inr (), True))"
  by (simp add: handshake_callback_def tokens_match_exact eq_commute [of token])

text \<open>The connections that hold the agent, and what every step keeps of them.\<close>

definition holders :: "agent_server \<Rightarrow> nat set" where
  "holders s = {c. holds_agent s c}"

lemma holders_upd [simp]:
  "holders (s\<lparr>sv_pc := (sv_pc s)(c := p)\<rparr>) = (if p \<in> {Won, Claimed, Holding} then insert c (holders s) else holders s - {c})"
  "holders (s\<lparr>sv_busy := b, sv_pc := (sv_pc s)(c := p)\<rparr>) = (if p \<in> {Won, Claimed, Holding} then insert c (holders s) else holders s - {c})"
  by (auto simp: holders_def holds_agent_def)

lemma holders_iff: "c \<in> holders s \<longleftrightarrow> sv_pc s c \<in> {Won, Claimed, Holding}"
  by (simp add: holders_def holds_agent_def)

definition claim_ok :: "string \<Rightarrow> (nat \<Rightarrow> string option) \<Rightarrow> agent_server \<Rightarrow> bool" where
  "claim_ok token header s \<longleftrightarrow>
     (if sv_busy s then (\<exists>c. holders s = {c} \<and> presented_token (header c) = token) else holders s = {})"

lemma claim_ok_step:
  assumes "control_step token header s s'" "claim_ok token header s"
  shows "claim_ok token header s'"
  using assms(1)
proof (cases rule: control_step.cases)
  case (claim c busy)
  with assms(2) show ?thesis by (auto simp: claim_ok_def handshake_callback_eq split: if_splits)
next
  case (refuse c status busy)
  then have "c \<notin> holders s" by (simp add: holders_iff)
  with refuse assms(2) show ?thesis by (auto simp: claim_ok_def handshake_callback_eq split: if_splits)
next
  case (accept c)
  then have "c \<notin> holders s" by (simp add: holders_iff)
  with accept assms(2) show ?thesis by (auto simp: claim_ok_def)
next
  case (note_claim c)
  then have "c \<in> holders s" by (simp add: holders_iff)
  with note_claim assms(2) show ?thesis by (auto simp: claim_ok_def split: if_splits)
next
  case (cancel_unclaimed c status)
  then have "c \<notin> holders s" by (auto simp: holders_iff)
  with cancel_unclaimed assms(2) show ?thesis by (auto simp: claim_ok_def)
next
  case (cancel_claimed c)
  then have "c \<in> holders s" by (simp add: holders_iff)
  with cancel_claimed assms(2) show ?thesis by (auto simp: claim_ok_def split: if_splits)
next
  case (guard c)
  then have "c \<in> holders s" by (simp add: holders_iff)
  with guard assms(2) show ?thesis by (auto simp: claim_ok_def split: if_splits)
next
  case (release c)
  then have "c \<in> holders s" by (simp add: holders_iff)
  with release assms(2) show ?thesis by (auto simp: claim_ok_def split: if_splits)
qed

lemma claim_ok_reachable:
  assumes "(control_step token header)\<^sup>*\<^sup>* server_new s"
  shows "claim_ok token header s"
  using assms
proof (induction rule: rtranclp_induct)
  case base
  show ?case by (simp add: claim_ok_def holders_def holds_agent_def server_new_def)
qed (rule claim_ok_step)

text \<open>C10: an agent serves one coordinator at a time, and only one that has the token. However the connections of an agent
  interleave, at most one of them holds the agent, it presented the agent's token, and the agent is busy exactly while
  one does: a connection with the token is refused with a conflict while another holds the agent and is let in
  otherwise, so the flag is never left behind; a connection without the token is refused and never claims anything.\<close>

theorem one_coordinator_at_a_time:
  assumes "(control_step token header)\<^sup>*\<^sup>* server_new s"
  shows "(\<forall>c d. holds_agent s c \<longrightarrow> holds_agent s d \<longrightarrow> c = d) \<and> (\<forall>c. holds_agent s c \<longrightarrow> presented_token (header c) = token) \<and>
    (\<forall>c. handshake_callback token (header c) (sv_busy s) =
      (if presented_token (header c) \<noteq> token then (Inl Unauthorized, sv_busy s)
       else if \<exists>d. holds_agent s d then (Inl Conflict, True) else (Inr (), True)))"
proof -
  have "holds_agent s c \<longleftrightarrow> c \<in> holders s" for c by (simp add: holders_def)
  with claim_ok_reachable [OF assms] show ?thesis by (auto simp: claim_ok_def handshake_callback_eq split: if_splits)
qed


lemma sample_header: "presented_token (Some ''Bearer 0123456789abcdef'') = ''0123456789abcdef''"
  by code_simp

text \<open>A second coordinator arrives while the first is in its handshake.\<close>

theorem one_coordinator_at_a_time_witness:
  "\<exists>s. (control_step ''0123456789abcdef'' (\<lambda>_. Some ''Bearer 0123456789abcdef''))\<^sup>*\<^sup>* server_new s \<and> holds_agent s 0 \<and> \<not> holds_agent s 1 \<and>
     handshake_callback ''0123456789abcdef'' (Some ''Bearer 0123456789abcdef'') (sv_busy s) = (Inl Conflict, True)"
proof -
  let ?t = "''0123456789abcdef''" and ?h = "\<lambda>_ :: nat. Some ''Bearer 0123456789abcdef''"
  let ?s1 = "server_new\<lparr>sv_pc := (sv_pc server_new)(0 := Handshaking)\<rparr>"
  let ?s2 = "?s1\<lparr>sv_busy := True, sv_pc := (sv_pc ?s1)(0 := Won)\<rparr>"
  let ?s3 = "?s2\<lparr>sv_pc := (sv_pc ?s2)(1 := Handshaking)\<rparr>"
  have "control_step ?t ?h server_new ?s1" by (rule control_step.accept) (simp add: server_new_def)
  moreover have "control_step ?t ?h ?s1 ?s2"
    by (rule control_step.claim) (simp_all add: server_new_def handshake_callback_eq sample_header)
  moreover have "control_step ?t ?h ?s2 ?s3" by (rule control_step.accept) (simp add: server_new_def)
  ultimately have r: "(control_step ?t ?h)\<^sup>*\<^sup>* server_new ?s3" by (meson converse_rtranclp_into_rtranclp rtranclp.rtrancl_refl)
  have h: "holds_agent ?s3 0" "\<not> holds_agent ?s3 1" by (simp_all add: holds_agent_def server_new_def)
  from one_coordinator_at_a_time [OF r] have
    "handshake_callback ?t (?h 1) (sv_busy ?s3) =
      (if presented_token (?h 1) \<noteq> ?t then (Inl Unauthorized, sv_busy ?s3)
       else if \<exists>d. holds_agent ?s3 d then (Inl Conflict, True) else (Inr (), True))" by blast
  then have "handshake_callback ?t (?h 1) (sv_busy ?s3) = (Inl Conflict, True)" using h by (simp only: sample_header) auto
  with r h show ?thesis by blast
qed

section \<open>What an agent says\<close>

text \<open>The conversation: a hello, then rounds of ready, snapshots and capture batches, and the result; an error may end it
  at any point.\<close>

datatype talk = Silent | Greeted | In_phase | Over

fun say :: "'n control_message \<Rightarrow> talk \<Rightarrow> talk option" where
  "say (Hello _ _) Silent = Some Greeted"
| "say (Ready _) Greeted = Some In_phase"
| "say (Snapshot _ _ _) In_phase = Some In_phase"
| "say (Capture_batch _) In_phase = Some In_phase"
| "say (Result _) In_phase = Some Greeted"
| "say (Error_message _) t = (if t = Over then None else Some Over)"
| "say _ _ = None"

definition talks :: "'n control_message list \<Rightarrow> talk option" where
  "talks msgs = fold (\<lambda>m t. Option.bind t (say m)) msgs (Some Silent)"

definition results_in :: "'n control_message list \<Rightarrow> nat" where
  "results_in msgs = length (filter (\<lambda>m. case m of Result _ \<Rightarrow> True | _ \<Rightarrow> False) msgs)"

lemma talks_simps [simp]:
  "talks (msgs @ more_msgs) = fold (\<lambda>m t. Option.bind t (say m)) more_msgs (talks msgs)" "talks [] = Some Silent"
  by (simp_all add: talks_def)

lemma results_in_simps [simp]:
  "results_in [] = 0" "results_in (xs @ ys) = results_in xs + results_in ys"
  "results_in (m # msgs) = (case m of Result _ \<Rightarrow> 1 | _ \<Rightarrow> 0) + results_in msgs"
  by (simp_all add: results_in_def split: control_message.split)

text \<open>The phase is being reported and \<open>k\<close> results were sent so far.\<close>

definition reporting :: "nat \<Rightarrow> 'n control_message list \<Rightarrow> bool" where
  "reporting k msgs \<longleftrightarrow> talks msgs = Some In_phase \<and> results_in msgs = k"

lemma run_turn_reporting: "reporting k (gr_sent s) \<Longrightarrow> reporting k (gr_sent (run_turn H started event s))"
  by (cases "(H, started, event, s)" rule: run_turn.cases)
    (auto simp: reporting_def run_send_def split: sum.split recv_error.split control_message.split)

lemma run_loop_reporting: "reporting k (gr_sent s) \<Longrightarrow> reporting k (gr_sent (snd (run_loop H started events s)))"
proof (induction events arbitrary: s)
  case (Cons e es)
  have "reporting k (gr_sent (snd (run_loop H started es (run_turn H started e s))))" by (intro Cons.IH run_turn_reporting Cons.prems)
  then show ?case using Cons.prems by (cases e) simp_all
qed simp

lemma forward_reporting: "reporting k msgs \<Longrightarrow> reporting k (snd (forward_rest rest msgs))"
  by (induction rest msgs rule: forward_rest.induct) (auto simp: reporting_def)

text \<open>A phase that is done has sent one result more; any other has sent none.\<close>

definition after_phase :: "nat \<Rightarrow> (agent_failure + phase_end) option \<Rightarrow> 'n control_message list \<Rightarrow> bool" where
  "after_phase k r msgs \<longleftrightarrow>
     (if r = Some (Inr Phase_done) then talks msgs = Some Greeted \<and> results_in msgs = k + 1
      else talks msgs \<in> {Some Greeted, Some In_phase} \<and> results_in msgs = k)"

lemma send_result_talks:
  assumes "reporting k msgs" "send_result H inp connections capturing outcome msgs = (r, msgs')"
  shows "after_phase k (Some r) msgs'"
proof -
  have "reporting k m" if "(if capturing then forward_rest (fst (gi_forwarded inp)) msgs else (Inr (), msgs)) = (e, m)" for e m
    using that assms(1) forward_reporting [of k msgs "fst (gi_forwarded inp)"] by (auto split: if_splits)
  with assms(2) show ?thesis
    by (auto simp: send_result_def after_phase_def reporting_def Let_def split: prod.splits sum.splits if_splits)
qed

lemma run_started_talks:
  assumes "reporting k msgs" "run_started H inp connections capturing msgs = (r, msgs')"
  shows "after_phase k r msgs'"
proof -
  obtain out s where l: "run_loop H (gi_started inp) (gi_events inp) \<lparr>gr_gone = False, gr_cancelled = False, gr_sent = msgs\<rparr> = (out, s)" by force
  from run_loop_reporting [of k "\<lparr>gr_gone = False, gr_cancelled = False, gr_sent = msgs\<rparr>"] assms(1) l
  have rep: "reporting k (gr_sent s)" by (metis agent_run.select_convs(3) snd_conv)
  then have stop: "after_phase k q (gr_sent s)" if "q \<noteq> Some (Inr Phase_done)" for q using that by (simp add: after_phase_def reporting_def)
  show ?thesis
  proof (cases "capturing \<and> \<not> gi_capture_starts inp")
    case True
    with assms show ?thesis by (auto simp: run_started_def after_phase_def reporting_def)
  next
    case False
    with assms(2) l show ?thesis using stop send_result_talks [OF rep]
      by (auto simp: run_started_def map_prod_def split: option.splits sum.splits if_splits prod.splits)
  qed
qed

lemma agent_run_phase_talks:
  assumes "talks msgs = Some Greeted" "results_in msgs = k" "agent_run_phase env H ips wire inp msgs = (r, msgs')"
  shows "after_phase k r msgs' \<and> (r = Some (Inr Phase_done) \<longrightarrow> await_start (gi_start inp) = Some (Inr True))"
proof (cases "and_then (agent_load_config env ips wire) (\<lambda>config. agent_phase_runner config (wc_phase wire))")
  case (Inl e)
  with assms show ?thesis by (auto simp: agent_run_phase_def after_phase_def)
next
  case (Inr q)
  obtain config phase where q: "q = (config, phase)" by force
  have "reporting k (msgs @ [Ready (lc_connections config)])" using assms(1,2) by (simp add: reporting_def)
  note started = run_started_talks [OF this, of H inp "lc_connections config" "wc_capture_limit wire \<noteq> None" r msgs']
  show ?thesis
  proof (cases "\<not> gi_shutdown inp \<and> gi_ready_sent inp \<and> await_start (gi_start inp) = Some (Inr True)")
    case True
    with assms(3) started show ?thesis by (simp add: agent_run_phase_def Inr q)
  next
    case False
    with assms show ?thesis
      by (auto simp: agent_run_phase_def Inr q after_phase_def Let_def split: if_splits option.splits sum.splits bool.splits)
  qed
qed

definition started_phases :: "('n received list \<times> ('n, 'h) agent_inputs) list \<Rightarrow> nat" where
  "started_phases phases = length (filter (\<lambda>p. await_start (gi_start (snd p)) = Some (Inr True)) phases)"

lemma test_loop_talks:
  assumes "talks msgs = Some Greeted" "test_loop env H ips wait phases msgs = (r, msgs')"
  shows "talks msgs' \<in> {Some Greeted, Some In_phase} \<and> results_in msgs' \<le> results_in msgs + started_phases phases"
  using assms
proof (induction phases arbitrary: wait msgs)
  case (Cons p rest)
  obtain before inp where p: "p = (before, inp)" by force
  let ?P = "\<lambda>msgs'. talks msgs' \<in> {Some Greeted, Some In_phase} \<and> results_in msgs' \<le> results_in msgs + started_phases (p # rest)"
  have same: "?P msgs" using Cons.prems(1) by simp
  show ?case
  proof (cases "\<exists>wire t d w. await_prepare wait before = Some (Inr (Some (wire, t))) \<and> duration_add (wc_duration wire) t = Some d \<and>
      duration_add d SETUP_TIMEOUT = Some w")
    case False
    then have "msgs' = msgs" using Cons.prems(2) by (auto simp: p split: option.splits sum.splits)
    with same show ?thesis by simp
  next
    case True
    then obtain wire t d w where w: "await_prepare wait before = Some (Inr (Some (wire, t)))" "duration_add (wc_duration wire) t = Some d"
      "duration_add d SETUP_TIMEOUT = Some w" by blast
    obtain q msgs1 where q: "agent_run_phase env H ips wire inp msgs = (q, msgs1)" by force
    note ph = agent_run_phase_talks [OF Cons.prems(1) refl q]
    show ?thesis
    proof (cases "q = Some (Inr Phase_done)")
      case True
      with Cons.prems(2) w q have "test_loop env H ips w rest msgs1 = (r, msgs')" by (simp add: p)
      moreover from True ph have "talks msgs1 = Some Greeted" "results_in msgs1 = results_in msgs + 1" "await_start (gi_start inp) = Some (Inr True)"
        by (auto simp: after_phase_def)
      ultimately show ?thesis using Cons.IH [of msgs1 w] by (auto simp: started_phases_def p)
    next
      case False
      with Cons.prems(2) w q have "msgs' = msgs1" by (auto simp: p split: option.splits sum.splits phase_end.splits)
      with False ph show ?thesis by (auto simp: after_phase_def)
    qed
  qed
qed auto

text \<open>C11: an agent keeps to the protocol, whatever it is sent. Everything it says on a control connection is a hello, then
  rounds of ready, snapshots and capture batches and one result, with nothing after an error; and it never sends more
  results than the phases it was told to start.\<close>

theorem agent_keeps_protocol:
  "talks (serve_test env H version ips greeting hello_sent phases error_sent) \<noteq> None \<and>
   results_in (serve_test env H version ips greeting hello_sent phases error_sent) \<le> started_phases phases"
proof -
  obtain r msgs where t: "run_test env H version ips greeting hello_sent phases = (r, msgs)" by force
  have greeted: "talks [hello version] = Some Greeted" "results_in [hello version] = 0" by (simp_all add: talks_def hello_def)
  have "talks msgs \<in> {Some Silent, Some Greeted, Some In_phase} \<and> results_in msgs \<le> started_phases phases"
  proof (cases "msgs = []")
    case False
    with t have "test_loop env H ips SETUP_TIMEOUT phases [hello version] = (r, msgs)"
      by (auto simp: run_test_def split: sum.splits control_message.splits recv_error.splits if_splits)
    from test_loop_talks [OF greeted(1) this] greeted(2) show ?thesis by (auto simp: hello_def)
  qed simp
  then show ?thesis
    by (auto simp: serve_test_def t split: option.split sum.split agent_failure.split)
qed

section \<open>From the run to the report\<close>

text \<open>What a phase that is done said after its ready: only snapshots and capture batches before the result of its run.\<close>

definition is_progress :: "'n control_message \<Rightarrow> bool" where
  "is_progress m = (case m of Snapshot _ _ _ \<Rightarrow> True | Capture_batch _ \<Rightarrow> True | _ \<Rightarrow> False)"

lemma run_turn_sent: "\<exists>mid. gr_sent (run_turn H started event s) = gr_sent s @ mid \<and> list_all is_progress mid"
  by (cases "(H, started, event, s)" rule: run_turn.cases)
    (auto simp: run_send_def is_progress_def split: sum.split recv_error.split control_message.split)

lemma run_loop_sent:
  assumes "run_loop H started events s = (out, s')"
  shows "(\<exists>mid. gr_sent s' = gr_sent s @ mid \<and> list_all is_progress mid) \<and> (\<forall>q. out = Some q \<longrightarrow> Run_over q \<in> set events)"
  using assms
proof (induction events arbitrary: s)
  case (Cons e es)
  show ?case
  proof (cases "\<exists>q. e = Run_over q")
    case False
    with Cons.prems have "run_loop H started es (run_turn H started e s) = (out, s')" by (cases e) simp_all
    from Cons.IH [OF this] obtain mid where "gr_sent s' = gr_sent (run_turn H started e s) @ mid" "list_all is_progress mid"
      "\<forall>q. out = Some q \<longrightarrow> Run_over q \<in> set es" by blast
    with run_turn_sent [of H started e s] show ?thesis by fastforce
  qed (use Cons.prems in auto)
qed simp

lemma forward_rest_sent: "\<exists>mid. snd (forward_rest rest msgs) = msgs @ mid \<and> list_all is_progress mid"
proof (induction rest msgs rule: forward_rest.induct)
  case (2 records sent rest msgs)
  then show ?case by (auto simp: is_progress_def)
qed simp

lemma done_phase_said:
  fixes env :: "'n env"
  assumes "agent_run_phase env H ips wire inp [] = (Some (Inr Phase_done), msgs)"
  shows "\<exists>connections mid outcome dropped. Run_over (Inr outcome) \<in> set (gi_events inp) \<and> list_all is_progress mid \<and>
    msgs = Ready connections # mid @ [Result (outcome_result H inp connections dropped outcome)]"
proof -
  from assms obtain config :: "'n load_config" where r: "run_started H inp (lc_connections config) (wc_capture_limit wire \<noteq> None) [Ready (lc_connections config)] =
      (Some (Inr Phase_done), msgs)"
    by (auto simp: agent_run_phase_def Let_def split: sum.splits option.splits if_splits prod.splits bool.splits)
  let ?cap = "wc_capture_limit wire \<noteq> None"
  from r obtain outcome s where
    l: "run_loop H (gi_started inp) (gi_events inp) \<lparr>gr_gone = False, gr_cancelled = False, gr_sent = [Ready (lc_connections config)]\<rparr> = (Some (Inr outcome), s)"
    and f: "send_result H inp (lc_connections config) ?cap outcome (gr_sent s) = (Inr Phase_done, msgs)"
    by (auto simp: run_started_def map_prod_def split: option.splits sum.splits if_splits prod.splits)
  from run_loop_sent [OF l] obtain mid where mid: "gr_sent s = Ready (lc_connections config) # mid" "list_all is_progress mid"
    "Run_over (Inr outcome) \<in> set (gi_events inp)" by auto
  from f obtain mid' dropped where "msgs = (gr_sent s @ mid') @ [Snapshot (ro_elapsed outcome) (wire_snapshot_from (gi_live inp)) [],
      Result (outcome_result H inp (lc_connections config) dropped outcome)]" "list_all is_progress mid'"
    using forward_rest_sent [of "fst (gi_forwarded inp)" "gr_sent s"]
    by (auto simp: send_result_def Let_def split: prod.splits sum.splits if_splits)
  with mid show ?thesis
    by (intro exI [of _ "lc_connections config"] exI [of _ "mid @ mid' @ [Snapshot (ro_elapsed outcome) (wire_snapshot_from (gi_live inp)) []]"]
        exI [of _ outcome] exI [of _ dropped]) (simp add: is_progress_def)
qed

text \<open>The messages of agent \<open>i\<close> the coordinator reads in a phase; a turn of agent \<open>i\<close> that is neither a message nor the stop
  is one that loses it.\<close>

fun heard :: "nat \<Rightarrow> 'n cluster_event list \<Rightarrow> 'n control_message list" where
  "heard i [] = []"
| "heard i (Agent_turn j (Received (Inr m) now) # events) = (if j = i then m # heard i events else heard i events)"
| "heard i (_ # events) = heard i events"

definition undisturbed :: "nat \<Rightarrow> 'n cluster_event \<Rightarrow> bool" where
  "undisturbed i event =
     (case event of Agent_turn j (Received (Inl _) _) \<Rightarrow> j \<noteq> i | Agent_turn j (Deadline_at _) \<Rightarrow> j \<noteq> i
      | Agent_turn j (Task_panicked _) \<Rightarrow> j \<noteq> i | _ \<Rightarrow> True)"

lemma turn_other: "j \<noteq> i \<Longrightarrow> px_tasks (agent_turn S timeout start j e st) ! i = px_tasks st ! i"
  by (simp add: agent_turn_def split: task.split prod.split)

lemma turn_own:
  "i < length (px_tasks st) \<Longrightarrow> px_tasks st ! i = Following fo \<Longrightarrow>
   px_tasks (agent_turn S timeout start i e st) ! i = fst (follow_step S timeout start (px_stop st) i e fo (px_cluster st))"
  by (simp add: agent_turn_def split: prod.split)

lemma turn_over: "px_tasks st ! i = Task_over link q \<Longrightarrow> px_tasks (agent_turn S timeout start j e st) ! i = Task_over link q"
  by (cases "j = i") (simp add: agent_turn_def, simp add: turn_other)

lemma over_stays:
  assumes "follow_loop S timeout start interval events st = Some st'" "px_tasks st ! i = Task_over link q"
  shows "px_tasks st' ! i = Task_over link q"
  using assms
proof (induction events arbitrary: st)
  case (Cons e es)
  have "px_tasks (phase_turn S timeout start interval e st) ! i = Task_over link q"
    using Cons.prems(2) by (cases e) (simp_all add: turn_over)
  note next_turn = Cons.IH [OF _ this]
  show ?case
  proof (cases "list_all (\<lambda>t. \<not> is_following t) (px_tasks st)")
    case True
    with Cons.prems show ?thesis by (simp add: follow_loop.simps [of _ _ _ _ "e # es"])
  next
    case False
    with Cons.prems(1) show ?thesis by (intro next_turn) (simp add: follow_loop.simps [of _ _ _ _ "e # es"])
  qed
qed (auto simp: follow_loop.simps split: if_splits)

lemma heard_other:
  assumes "\<nexists>ev. e = Agent_turn i ev"
  shows "heard i (e # es) = heard i es"
proof (cases e)
  case (Agent_turn j ev)
  then show ?thesis
  proof (cases ev)
    case (Received r now)
    with Agent_turn assms show ?thesis by (cases r) auto
  qed (use Agent_turn in simp_all)
qed simp_all

lemma heard_followed:
  assumes "follow_loop S timeout start interval events st = Some st'" "i < length (px_tasks st)" "px_tasks st ! i = Following fo"
    "list_all (undisturbed i) events" "heard i events = mid @ Result result # later" "list_all is_progress mid"
  shows "\<exists>arrived. px_tasks st' ! i = Task_over (Some (fo_link fo)) (Inr (result, arrived))"
  using assms
proof (induction events arbitrary: st fo mid)
  case (Cons e es)
  let ?st = "phase_turn S timeout start interval e st"
  have "\<not> list_all (\<lambda>t. \<not> is_following t) (px_tasks st)" using Cons.prems(2,3) by (auto simp: list_all_length is_following_def)
  with Cons.prems(1) have rest: "follow_loop S timeout start interval es ?st = Some st'" by (simp add: follow_loop.simps [of _ _ _ _ "e # es"])
  have len: "i < length (px_tasks ?st)" using phase_turn_wf [of st S timeout start interval e] Cons.prems(2) by (simp add: tasks_wf_def)
  have quiet: ?case if "px_tasks ?st ! i = Following fo'" "fo_link fo' = fo_link fo" "heard i es = heard i (e # es)" for fo'
    using Cons.IH [OF rest len that(1)] Cons.prems(4-6) that(2,3) by simp
  show ?case
  proof (cases "\<exists>ev. e = Agent_turn i ev")
    case False
    then have "px_tasks ?st ! i = Following fo" using Cons.prems(3) by (cases e) (simp_all add: turn_other)
    with False show ?thesis by (intro quiet) (simp_all add: heard_other)
  next
    case True
    then obtain ev where ev: "e = Agent_turn i ev" by blast
    have own: "px_tasks ?st ! i = fst (follow_step S timeout start (px_stop st) i ev fo (px_cluster st))"
      using turn_own [OF Cons.prems(2,3)] by (simp add: ev)
    consider m now where "ev = Received (Inr m) now" | now where "ev = Stop_seen now"
      using Cons.prems(4) by (cases ev) (auto simp: ev undisturbed_def split: sum.splits)
    then show ?thesis
    proof cases
      case 2
      then obtain fo' where "px_tasks ?st ! i = Following fo'" "fo_link fo' = fo_link fo"
        using own by (cases "px_stop st \<and> \<not> fo_stopped fo") auto
      then show ?thesis by (rule quiet) (simp add: ev 2)
    next
      case 1
      show ?thesis
      proof (cases mid)
        case Nil
        with 1 Cons.prems(5) have "m = Result result" by (simp add: ev)
        with own 1 have "px_tasks ?st ! i = Task_over (Some (fo_link fo)) (Inr (result, now))" by simp
        from over_stays [OF rest this] show ?thesis by blast
      next
        case (Cons m' mid')
        with 1 Cons.prems(5,6) have m: "is_progress m" "heard i es = mid' @ Result result # later" "list_all is_progress mid'" by (auto simp: ev)
        then have "px_tasks ?st ! i = Following fo" using own 1 by (cases m) (auto simp: is_progress_def)
        from Cons.IH [OF rest len this _ m(2,3)] Cons.prems(4) show ?thesis by simp
      qed
    qed
  qed
qed simp

lemma phase_task:
  assumes "cluster_ok n cl" "run_phase env S co spec inp first cl = (Inr (Some run), cl')" "i < n" "cl_links cl ! i = Some link"
    "prepare co (qa_prepared (qi_answers inp) i) = Inr ()" "qa_unsent (qi_answers inp) i = None"
  shows "\<exists>st st' fo. follow_loop S (co_agent_timeout co) (qa_start (qi_answers inp)) (interval_for (lc_duration (ps_config spec))) (qi_events inp) st = Some st' \<and>
    i < length (px_tasks st) \<and> px_tasks st ! i = Following fo \<and> fo_link fo = link \<and>
    (\<forall>q r a. px_tasks st' ! i = Task_over (Some link) q \<longrightarrow> task_result S q = Inr (r, a) \<longrightarrow>
       pn_parts run ! i = Finished r \<and> cl_links cl' ! i = Some link)"
proof -
  have sz: "sized cl n" using assms(1) by (simp add: cluster_ok_def)
  from assms(2) obtain parts cl1 where b: "barrier env co spec (qi_answers inp) first cl = (Inr (Some parts), cl1)"
    by (auto simp: run_phase_def split: prod.splits sum.splits option.splits)
  from barrier_passed [OF b sz] assms(3-5) have sz1: "sized cl1 n" and parts: "length parts = n" and v: "view_of i cl1 = view_of i cl"
    by (auto simp: barrier_change_def outcome_at_def)
  have l1: "cl_links cl1 ! i = Some link" using v assms(4) by (simp add: view_of_def)
  then have "\<not> list_all (\<lambda>link. link = None) (cl_links cl1)" using sz1 assms(3) by (auto simp: list_all_length sized_def)
  with assms(2) b obtain st cl2 st' where s: "start_phase co spec (qi_answers inp) cl1 = (Inr st, cl2)"
    and l: "follow_loop S (co_agent_timeout co) (qa_start (qi_answers inp)) (interval_for (lc_duration (ps_config spec))) (qi_events inp) st = Some st'"
    and f: "finish_phase S spec (qa_start (qi_answers inp)) (qi_elapsed inp) parts st' = (run, cl')"
    by (auto simp: run_phase_def split: prod.splits sum.splits option.splits)
  from s have t: "px_tasks st = map (start_task co spec (qi_answers inp) cl2) [0..<length (cl_links cl2)]" "cl_links cl2 = cl_links cl1"
    by (auto simp: start_phase_def Let_def start_capture_def log_sent_def split: sum.splits capture_state.splits if_splits)
  have i: "i < length (px_tasks st)" using t sz1 assms(3) by (simp add: sized_def)
  with t l1 assms(6) obtain fo where fo: "px_tasks st ! i = Following fo" "fo_link fo = link" by (simp add: start_task_def)
  from follow_loop_wf [OF l] start_phase_wf [OF s sz1] have st': "sized (px_cluster st') n" "length (px_tasks st') = n"
    using same_agents_view by (auto simp: tasks_wf_def)
  from finish_phase_views [OF f st' parts] assms(3) have "\<lparr>cv_part = pn_parts run ! i, cv_agent = view_of i cl'\<rparr> =
      collect_change S spec (px_tasks st' ! i) \<lparr>cv_part = parts ! i, cv_agent = view_of i (px_cluster st')\<rparr>" by blast
  then have "pn_parts run ! i = Finished r \<and> cl_links cl' ! i = Some link"
    if "px_tasks st' ! i = Task_over (Some link) q" "task_result S q = Inr (r, a)" for q r a
    using that by (simp add: collect_change_def view_of_def)
  with l i fo show ?thesis by blast
qed

text \<open>C9: an agent that finishes its phase is in the report with what its run measured. Take a phase an agent ran to the
  end, whatever it sent on the way. If the coordinator reads what the agent said, in order and before its deadline, then,
  however the other agents' messages, losses, stops and ticks interleave, the coordinator takes the agent for ready, ends
  the phase with the agent finished and its connection kept, and the decoded result has the totals, the connections,
  the duration, the time series with its interval histograms and the counts of the agent's run.\<close>

theorem finished_agent_is_reported:
  assumes "bucket_law S highest3 3" "bucket_law S highest2 2"
    "agent_run_phase agent_env (hs_hdr S) ips wire ginp [] = (Some (Inr Phase_done), ready # msgs)"
    "\<forall>outcome. Run_over (Inr outcome) \<in> set (gi_events ginp) \<longrightarrow> totals_ok (hs_hdr S) (ro_totals outcome) \<and>
       (\<forall>h. lt_hist (ro_lag outcome) = Some h \<longrightarrow> hdr_built (hs_hdr S) 2 h)"
    "\<forall>k h. fmlookup (gi_buckets ginp) k = Some h \<longrightarrow> hdr_built (hs_hdr S) 2 h"
    "cluster_ok n cl" "run_phase env S co spec inp first cl = (Inr (Some run), cl')" "i < n" "cl_links cl ! i = Some link"
    "qa_prepared (qi_answers inp) i = Prepare_answer (Inr ready)" "qa_unsent (qi_answers inp) i = None"
    "list_all (undisturbed i) (qi_events inp)" "heard i (qi_events inp) = msgs"
  shows "\<exists>outcome r. Run_over (Inr outcome) \<in> set (gi_events ginp) \<and> pn_parts run ! i = Finished r \<and> cl_links cl' ! i = Some link \<and>
    ar_totals r = (ro_totals outcome)\<lparr>mt_absorbed := []\<rparr> \<and> ar_connections r = ro_connections outcome \<and>
    ar_not_started r = ro_not_started outcome \<and> ar_elapsed r = ro_elapsed outcome \<and>
    ar_series r = \<lparr>sp_series = ro_time_series outcome, sp_buckets = gi_buckets ginp\<rparr> \<and>
    ar_arrivals r = ro_arrivals outcome \<and> ar_compression r = ro_compression outcome"
proof -
  from done_phase_said [OF assms(3)] obtain connections mid outcome dropped where
    over: "Run_over (Inr outcome) \<in> set (gi_events ginp)" and mid: "list_all is_progress mid" and ready: "ready = Ready connections"
    and msgs: "msgs = mid @ [Result (outcome_result (hs_hdr S) ginp connections dropped outcome)]" by blast
  let ?result = "outcome_result (hs_hdr S) ginp connections dropped outcome"
  have "prepare co (qa_prepared (qi_answers inp) i) = Inr ()" by (simp add: assms(10) ready)
  from phase_task [OF assms(6-9) this assms(11)] obtain st st' fo where
    l: "follow_loop S (co_agent_timeout co) (qa_start (qi_answers inp)) (interval_for (lc_duration (ps_config spec))) (qi_events inp) st = Some st'"
    and st: "i < length (px_tasks st)" "px_tasks st ! i = Following fo" "fo_link fo = link"
    and fin: "\<And>q r a. px_tasks st' ! i = Task_over (Some link) q \<Longrightarrow> task_result S q = Inr (r, a) \<Longrightarrow>
       pn_parts run ! i = Finished r \<and> cl_links cl' ! i = Some link" by blast
  from heard_followed [OF l st(1,2) assms(12) _ mid] obtain arrived where
    t: "px_tasks st' ! i = Task_over (Some link) (Inr (?result, arrived))" using msgs assms(13) st(3) by auto
  from decode_new [OF assms(1,2), of "ro_totals outcome" "gi_buckets ginp" "outcome_meta ginp connections dropped outcome" "gi_windows ginp"
      "ro_time_series outcome"] assms(4,5) over
  obtain r where r: "result_decode S ?result = Inr r" "ar_totals r = (ro_totals outcome)\<lparr>mt_absorbed := []\<rparr>"
    "ar_connections r = ro_connections outcome" "ar_not_started r = ro_not_started outcome" "ar_elapsed r = ro_elapsed outcome"
    "ar_series r = \<lparr>sp_series = ro_time_series outcome, sp_buckets = gi_buckets ginp\<rparr>"
    "ar_arrivals r = ro_arrivals outcome" "ar_compression r = ro_compression outcome"
    by (simp add: outcome_result_def outcome_meta_def)
  have "task_result S (Inr (?result, arrived)) = Inr (r, arrived)" using r(1) by (simp add: task_result_def)
  from fin [OF t this] over r(2-) show ?thesis by blast
qed

text \<open>A share of one connection for ten seconds, and the inputs of an agent that runs it to the end.\<close>

definition sample_wire :: "nat wire_config" where
  "sample_wire = \<lparr>wc_target = ''/'', wc_mode = ''echo'', wc_connections = 1, wc_ramp_rate = 0, wc_duration = from_secs 10, wc_stages = [],
     wc_stage_share = None, wc_arrivals = None, wc_max_requests = None, wc_rate_per_conn = 0, wc_payload = Wire_Binary [], wc_headers = [],
     wc_subprotocol = None, wc_connect_timeout = from_secs 10, wc_message_timeout = from_secs 5, wc_ping_every = 0,
     wc_reply_match = ''first'', wc_expect = None, wc_reconnect = True, wc_compression = False, wc_graphql = None, wc_socketio = None,
     wc_phase = None, wc_capture_limit = None, wc_chaos = None, wc_data = None\<rparr>"

lemma sample_load_config: "\<exists>c. agent_load_config Load_Config.sample_env [] sample_wire = Inr c \<and> lc_connections c = 1"
  by (simp add: agent_load_config_def into_config_def sample_wire_def mode_from_str_def reply_match_from_str_def decode_def decode_groups.simps
      wire_builder_def builder_new_def build_defs Load_Config.sample_env_def finish_config_def set_stage_share_def slo_none_def has_latency_def)


definition sample_outcome :: "nat multiset run_outcome" where
  "sample_outcome = \<lparr>ro_totals = sample_totals, ro_arrivals = None, ro_compression = None, ro_elapsed = from_secs 10, ro_connections = 1,
     ro_not_started = 0, ro_started_at = 0, ro_time_series = series_default, ro_interval_store = store_new 0 1, ro_capture = None,
     ro_lag = lag_default\<rparr>"

definition sample_agent_inputs :: "(nat, nat multiset) agent_inputs" where
  "sample_agent_inputs = \<lparr>gi_shutdown = False, gi_ready_sent = True, gi_start = [(0, Got (Inr Start))], gi_started_at_unix_ms = 1,
     gi_started = 0, gi_capture_starts = True,
     gi_events = [Run_tick (from_secs 1) shard_zero None True, Run_over (Inr sample_outcome)], gi_forwarded = ([], 0),
     gi_live = shard_zero, gi_snapshot_sent = True, gi_buckets = fmempty, gi_result_sent = True, gi_rlimit = None, gi_windows = False\<rparr>"

text \<open>What the agent says after its ready.\<close>

definition sample_said :: "nat control_message list" where
  "sample_said = [Snapshot (from_secs 1) (wire_snapshot_from shard_zero) [], Snapshot (from_secs 10) (wire_snapshot_from shard_zero) [],
     Result (outcome_result values_hdr sample_agent_inputs 1 None sample_outcome)]"

lemma sample_agent_phase:
  "agent_run_phase Load_Config.sample_env values_hdr [] sample_wire sample_agent_inputs [] = (Some (Inr Phase_done), Ready 1 # sample_said)"
proof -
  obtain c where c: "agent_load_config Load_Config.sample_env [] sample_wire = Inr c" "lc_connections c = 1" using sample_load_config by blast
  have w: "wc_phase sample_wire = None" "wc_capture_limit sample_wire = None" by (simp_all add: sample_wire_def)
  let ?inp = sample_agent_inputs
  have inp: "\<not> gi_shutdown ?inp" "gi_ready_sent ?inp" "gi_start ?inp = [(0, Got (Inr Start))]" "gi_started ?inp = 0" "gi_live ?inp = shard_zero"
    "gi_events ?inp = [Run_tick (from_secs 1) shard_zero None True, Run_over (Inr sample_outcome)]" "gi_snapshot_sent ?inp" "gi_result_sent ?inp"
    by (simp_all add: sample_agent_inputs_def)
  have e: "ro_elapsed sample_outcome = from_secs 10" by (simp add: sample_outcome_def)
  show ?thesis
    by (simp add: agent_run_phase_def c agent_phase_runner_def w inp run_started_def run_send_def send_result_def sample_said_def
        recent_intervals_def e)
qed

definition sample_heard :: "nat phase_inputs_remote" where
  "sample_heard = sample_remote\<lparr>qi_events := map (\<lambda>m. Agent_turn 0 (Received (Inr m) 11000000000)) sample_said @
     [Agent_turn 1 (Deadline_at 40000000000)]\<rparr>"

lemma sample_heard_run:
  "\<exists>run cl'. run_phase Load_Config.sample_env values_histograms sample_coordinator (single_spec sample_coordinator) sample_heard True sample_cluster =
     (Inr (Some run), cl')"
proof -
  let ?spec = "single_spec sample_coordinator"
  obtain cl cl2 st where b: "barrier Load_Config.sample_env sample_coordinator ?spec (qi_answers sample_remote) True sample_cluster = (Inr (Some [Absent, Absent]), cl)"
    and links: "\<not> list_all (\<lambda>link. link = None) (cl_links cl)" and s: "start_phase sample_coordinator ?spec (qi_answers sample_remote) cl = (Inr st, cl2)"
    "px_tasks st = [Following (sample_follow 1), Following (sample_follow 2)]" using sample_started [OF sample_spec] by blast
  have "\<exists>st'. follow_loop values_histograms timeout start interval (qi_events sample_heard) st = Some st'" for timeout start interval
    by (simp add: follow_loop.simps sample_heard_def sample_said_def s is_following_def agent_turn_def sample_follow_def)
  then obtain st' where l: "follow_loop values_histograms (co_agent_timeout sample_coordinator) (qa_start (qi_answers sample_remote))
      (interval_for (lc_duration (ps_config ?spec))) (qi_events sample_heard) st = Some st'" by blast
  have a: "qi_answers sample_heard = qi_answers sample_remote" by (simp add: sample_heard_def)
  show ?thesis by (simp add: run_phase_def a b links s l split: prod.split)
qed

theorem finished_agent_is_reported_witness:
  "\<exists>run cl' r. run_phase Load_Config.sample_env values_histograms sample_coordinator (single_spec sample_coordinator) sample_heard True sample_cluster =
     (Inr (Some run), cl') \<and> pn_parts run ! 0 = Finished r \<and> mt_rtt (ar_totals r) = {#5, 5, 9#}"
proof -
  obtain run cl' where run: "run_phase Load_Config.sample_env values_histograms sample_coordinator (single_spec sample_coordinator) sample_heard True sample_cluster =
     (Inr (Some run), cl')" using sample_heard_run by blast
  have hs: "hs_hdr values_histograms = values_hdr" by (simp add: values_histograms_def)
  have ok: "cluster_ok 2 sample_cluster"
    by (simp add: cluster_ok_def sized_def agent_settled_def view_of_def sample_cluster_def less_Suc_eq numeral_2_eq_2)
  have t: "totals_ok values_hdr sample_totals"
    by (simp add: totals_ok_def hdr_ok_def values_built values_hdr_law sample_totals_def totals_new_def latency_histogram_def)
  have "\<exists>outcome r. Run_over (Inr outcome) \<in> set (gi_events sample_agent_inputs) \<and> pn_parts run ! 0 = Finished r \<and> cl_links cl' ! 0 = Some \<lparr>lk_rtt = 1\<rparr> \<and>
    ar_totals r = (ro_totals outcome)\<lparr>mt_absorbed := []\<rparr> \<and> ar_connections r = ro_connections outcome \<and>
    ar_not_started r = ro_not_started outcome \<and> ar_elapsed r = ro_elapsed outcome \<and>
    ar_series r = \<lparr>sp_series = ro_time_series outcome, sp_buckets = gi_buckets sample_agent_inputs\<rparr> \<and>
    ar_arrivals r = ro_arrivals outcome \<and> ar_compression r = ro_compression outcome"
    by (rule finished_agent_is_reported [OF values_bucket_law values_bucket_law sample_agent_phase [folded hs] _ _ ok run])
      (simp_all add: sample_agent_inputs_def sample_outcome_def t hs lag_default_def sample_cluster_def sample_heard_def sample_remote_def
        undisturbed_def sample_said_def)
  then show ?thesis using run by (auto simp: sample_agent_inputs_def sample_outcome_def sample_totals_def)
qed

end
