(* ===== verification/Spec2Isabelle.thy ===== *)
theory Spec2Isabelle
  imports Compare Deflate Mock_Sessions Worker_Messages Capture_Queue Agent_Session
begin

text \<open>
  A verification development of wsblast, a WebSocket load-testing tool written in Rust. All paths are under \<open>src/src\<close>.

  \<^bold>\<open>The program.\<close> A configuration (\<open>config.rs\<close>, from the command line or a scenario file) says how many connections to open,
  by count, ramp, stages or arrival rate, for how long and what to do on them. A \<open>Runner\<close> (\<open>runner.rs\<close>) starts one task per
  connection slot; each \<open>WorkerSession\<close> (\<open>worker.rs\<close>) connects, sends, matches replies, reconnects, and records what it saw in
  sharded live counters, latency recorders and interval stores (\<open>metrics.rs\<close>, \<open>histogram.rs\<close>, \<open>timeseries.rs\<close>). The runner
  joins the tasks, adds their metrics up and reports; thresholds and comparisons judge the report (\<open>report.rs\<close>,
  \<open>series_compare.rs\<close>). Frames may be compressed (\<open>deflate.rs\<close>), faulted (\<open>chaos.rs\<close>), captured (\<open>capture.rs\<close>) and replayed by the
  mock server (\<open>mock.rs\<close>). A distributed run splits the configuration (\<open>distributed/protocol.rs\<close>) between agents
  (\<open>distributed/agent.rs\<close>), which a coordinator (\<open>distributed/coordinator.rs\<close>) starts together, follows and merges.

  \<^bold>\<open>The style.\<close> Structs are records, enums datatypes, functions HOL functions of the same name where HOL allows it. \<open>Result\<close> is a
  sum with the error on the left; a panic is an error value of its own. Counters the code keeps in \<open>u64\<close> are \<open>64 word\<close>
  where wrap-around can matter, bytes are \<open>8 word\<close>, \<open>Duration\<close> and \<open>Instant\<close> are nanoseconds as naturals with the bound of
  \<open>Duration\<close> written out, \<open>f64\<close> is binary64 arithmetic by rational rounding (\<open>F64\<close>), strings are lists of UTF-8 bytes as
  characters. Asynchronous code is a step function, or a loop over a list of turns, in which what the network, the clock,
  the scheduler and cancellation answer are inputs, so a theorem about every list of turns is a theorem about every
  interleaving of the tasks at their awaits. Racing atomics (the capture queue, the claim of an agent) are inductive step
  relations whose steps are the single atomic operations.

  \<^bold>\<open>The theories.\<close>
  \<^item> \<open>Prelude\<close>: integers, results, durations, the string methods of the standard library. \<open>Base64\<close> (\<open>base64.rs\<close>), \<open>Json\<close>
    (\<open>serde_json\<close> as a parameter), \<open>F64\<close>, \<open>Errors\<close> (\<open>error.rs\<close>), \<open>Hdr\<close> (the \<open>hdrhistogram\<close> crate as a parameter).
  \<^item> Settings: \<open>Human_Duration\<close>, \<open>Stages\<close>, \<open>Load_Config\<close> and \<open>Scenario\<close> (\<open>config.rs\<close>, parts of \<open>cli.rs\<close> and \<open>connect.rs\<close>),
    \<open>Data_Set\<close> (\<open>data.rs\<close>), \<open>Template\<close> (\<open>template.rs\<close>), \<open>Reply_Check\<close> (\<open>check.rs\<close>), \<open>Chaos\<close> (\<open>chaos.rs\<close>). What is built
    has passed every check of the builder; parsers read back what was written; the inputs on which the sum of the stages
    panics are characterised exactly.
  \<^item> Wire formats: \<open>Deflate\<close> (\<open>deflate.rs\<close>), with the loops that drive the codec call by call into a growing buffer, is transparent
    for every codec whose calls behave as documented; \<open>Socketio\<close> (\<open>socketio.rs\<close>) has the packet
    round trip and the bound on the replies of its pump.
  \<^item> Measuring: \<open>Latency_Recorder\<close> (\<open>histogram.rs\<close>), \<open>Live_Metrics\<close>, \<open>Run_Totals\<close>, \<open>Run_Report\<close> (\<open>metrics.rs\<close>), \<open>Interval_Series\<close>,
    \<open>Time_Series\<close> (\<open>timeseries.rs\<close>), \<open>Lag\<close> (\<open>lag.rs\<close>). Sharded and batched recording refine direct recording; live
    counters, totals and reports agree; a live snapshot, which reads the counters one by one, is exact while no worker records
    and otherwise shows each growing counter between its values at the start and at the end; merging adds up.
  \<^item> Judging: \<open>Slo\<close>, \<open>Compare\<close> (\<open>report.rs\<close>, \<open>series_compare.rs\<close>): a run passes exactly when every threshold set is met.
  \<^item> One connection: \<open>Worker\<close>, \<open>Worker_Loops\<close>, \<open>Worker_Slots\<close>, \<open>Worker_Modes\<close>, \<open>Worker_Messages\<close> (\<open>worker.rs\<close>): the session loops of
    every mode, what a slot accounts for, and that a failing slot keeps trying.
  \<^item> A run: \<open>Runner\<close> with \<open>Run_Pool\<close> (the abstract pool of tasks), \<open>Run_Loops\<close>, \<open>Run_Arrivals\<close>, \<open>Run_Properties\<close>, and \<open>Scenario_Run\<close>
    (\<open>runner.rs\<close>): every loop refines the pool, stages and arrivals follow their schedule, arrival runs do not hang, phases
    add up.
  \<^item> The mock server: \<open>Mock_Rules\<close> (\<open>mock/rules.rs\<close>), \<open>Replay\<close>, \<open>Mock_Server\<close>, \<open>Mock_Sessions\<close> (\<open>mock.rs\<close>): sessions refine a FIFO queue.
  \<^item> Captures: \<open>Capture\<close>, \<open>Capture_Queue\<close> (\<open>capture.rs\<close>): the lock-free bounded queue accounts for every record, and a capture
    file replays the frames received.
  \<^item> Distributed runs: \<open>Agent_Plan\<close> and \<open>Wire_Result\<close> (\<open>distributed/protocol.rs\<close>): shares, results and phases survive the wire,
    but for an arrival rate whose share rounds to zero and for the payload of a phase that captures variables without having
    one, which are findings.
    \<open>Coordinator\<close> (connecting, the barrier, following the agents, collecting) and \<open>Cluster_Merge\<close> (merging, the entry points) model
    \<open>distributed/coordinator.rs\<close>; \<open>Cluster_Fates\<close> proves the invariant of its session; \<open>Cluster_Report\<close> that agents start together or
    not at all, that a phase ends, and that the merged report is that of one machine; \<open>Cluster_Scenario\<close> the careers of the agents
    over a scenario and the sum of its phases. \<open>Agent\<close> and \<open>Agent_Session\<close> (\<open>distributed/agent.rs\<close>): one coordinator at a time, the
    agent's side of the protocol, and, with the coordinator, that what an agent's run measured is what the report merges.

  \<^bold>\<open>Interfaces.\<close> Locales state what one part relies on of another and are interpreted on the model's definitions:
  \<open>commuting_recorder\<close> (recording in any order), \<open>rounding\<close> (binary64), \<open>mergeable\<close> (totals that may be merged),
  \<open>session_loop\<close> (what a slot relies on of every session loop), \<open>session_contract\<close> (what a turn of a mock session keeps, for
  the properties of whole sessions), \<open>sweep\<close> (the coordinator's loops over the
  agents) and \<open>strict_best\<close> (the first worst generator).

  \<^bold>\<open>Parameters and hypotheses.\<close> Code that is not in the repository is an argument: \<open>serde_json\<close> and the YAML deserializer, the
  URL and header types, the compression codec, address lookup and binding, file access, and \<open>hdrhistogram\<close>. Laws about them
  are named hypotheses that state what the crates document (\<open>hdr_add_law\<close>: adding a histogram adds its counts;
  \<open>bucket_law\<close>: the recorded buckets come in order and rebuild the histogram; \<open>codec_law\<close>: a call of the codec takes input and gives output as far as there
  is room, and what a flushed deflater has given in all is inflated to what it was given; \<open>serde_roundtrip\<close>) and have
  instances in the witnesses.

  \<^bold>\<open>Bounds and fuel.\<close> Loops over turns take as many as they are given; where the code must end, that is proved. For every
  accepted arrival model the loop that catches up with the schedule ends after finitely many steps, because every due arrival
  within a run of at most \<open>Duration::MAX\<close> is handled, or panics, which it does only for a rate below \<open>2\<^sup>-\<^sup>6\<^sup>2\<close> a second or a run
  of more than \<open>2\<^sup>3\<^sup>2\<close> seconds; the run then waits for its open sessions, whose stops are a hypothesis. A phase of a
  distributed run ends because the deadline of each agent is among the turns. The loops over the codec are partial functions
  whose not returning is the value \<open>None\<close>; under \<open>codec_law\<close> they are shown to return. Lists of turns that run out are reported
  as still waiting, never as a result.

  \<^bold>\<open>Not modelled.\<close> Tokens, signatures and their refresh (\<open>auth.rs\<close>, \<open>auth/\<close>, \<open>Message::Token\<close> beyond being read) rest on
  cryptographic crates. Sockets, TLS, DNS and clocks (\<open>connect.rs\<close>, \<open>tls.rs\<close>, \<open>clock.rs\<close>, \<open>distributed/tls.rs\<close>) are effects whose answers
  are inputs here. Rendering (\<open>html.rs\<close>, \<open>output.rs\<close>, the text, Markdown and JSON of \<open>report.rs\<close>), the terminal interface
  (\<open>tui/\<close>, \<open>distributed/dashboard.rs\<close> but for the board), the exporters (\<open>export/\<close>) and the command line
  (\<open>cli.rs\<close>, \<open>app.rs\<close>, \<open>main.rs\<close>) produce text or wire calls together. Error texts keep the code's words where a value
  depends on them and drop the text of wrapped errors. Builds without the optional features are not modelled.

  Also left out, of code that is modelled: the overflow of an \<open>Instant\<close> a duration is added to, which depends on the platform
  (\<open>arrival_due\<close>, \<open>start_task\<close>), and the width of the number of arrivals of a run, a \<open>u64\<close>; the panic of \<open>tokio::time::interval\<close>
  on a period that rounds to zero, for more than a thousand million messages a second on a connection (\<open>loop_session\<close>); the
  errors of creating the capture file of a scenario (\<open>executor_run\<close>); where the interval buckets an agent sends come from, an
  input of \<open>outcome_result\<close>; and the time a \<open>Stop\<close> or a capture batch takes to be sent while an agent is followed
  (\<open>follow_step\<close>). The order of the frames of a replayed connection is that of \<open>worker_script\<close> on both sides of the property
  about capture files; \<open>Replay\<close> has the properties of that order.
\<close>

end
